(* ===== verification/Prelude.thy ===== *)
theory Prelude imports Main "HOL-Library.Word" "HOL-Library.Monad_Syntax" begin

text \<open>
  Shared vocabulary of the development: the C integer types at their widths, the convention for
  undefined behaviour, and the generic lemmas on option chains and lists that the component
  theories use.

  Undefined behaviour.  A C function that touches memory is a function into \<open>'a option\<close>:
  \<open>None\<close> is an execution that C gives no meaning (a null or dangling pointer followed, a read or a
  write outside a buffer) or one that does not return; \<open>Some\<close> is a normal return.  A theorem that
  concludes \<open>= Some \<dots>\<close> therefore states memory safety, termination and the result at once.
  An error that the code itself reports (a return value of -1, NULL) is an ordinary value under
  \<open>Some\<close>.
\<close>

unbundle bit_operations_syntax

type_synonym u8 = "8 word"
type_synonym u16 = "16 word"
type_synonym u32 = "32 word"
type_synonym u64 = "64 word"

type_synonym bytes = "u8 list"

named_theorems ub_simps \<open>option chains: unfolding guards and binds\<close>
named_theorems heap_simps \<open>reads and writes of the heap models\<close>
named_theorems frame_simps \<open>what an operation leaves unchanged\<close>

section \<open>Option chains\<close>

definition guard :: "bool \<Rightarrow> unit option" where
  "guard b = (if b then Some () else None)"

lemma guard_Some [simp, ub_simps]: "guard b = Some u \<longleftrightarrow> b"
  by (simp add: guard_def)

lemma guard_None [simp, ub_simps]: "guard b = None \<longleftrightarrow> \<not> b"
  by (simp add: guard_def)

lemma guard_True [simp, ub_simps]: "guard True = Some ()"
  by (simp add: guard_def)

lemma guard_False [simp, ub_simps]: "guard False = None"
  by (simp add: guard_def)

lemma bind_SomeI [intro]: "x = Some y \<Longrightarrow> f y = Some z \<Longrightarrow> Option.bind x f = Some z"
  by simp

lemma bind_SomeE [elim!]:
  assumes "Option.bind x f = Some z"
  obtains y where "x = Some y" "f y = Some z"
  using assms by (cases x) auto

section \<open>Words of a natural number\<close>

lemma unat_of_nat_u8: "n < 2 ^ 8 \<Longrightarrow> unat (of_nat n :: u8) = n"
  and unat_of_nat_u16: "n < 2 ^ 16 \<Longrightarrow> unat (of_nat n :: u16) = n"
  and unat_of_nat_u32: "n < 2 ^ 32 \<Longrightarrow> unat (of_nat n :: u32) = n"
  and unat_of_nat_u64: "n < 2 ^ 64 \<Longrightarrow> unat (of_nat n :: u64) = n"
  by (simp_all add: unat_of_nat)

section \<open>Buffers\<close>

text \<open>A read of \<open>n\<close> bytes at an offset of a buffer, undefined outside it; \<open>memcpy\<close> into a buffer.\<close>

definition read_bytes :: "bytes \<Rightarrow> nat \<Rightarrow> nat \<Rightarrow> bytes option" where
  "read_bytes buf off n = (if off + n \<le> length buf then Some (take n (drop off buf)) else None)"

definition read_byte :: "bytes \<Rightarrow> nat \<Rightarrow> u8 option" where
  "read_byte buf off = (if off < length buf then Some (buf ! off) else None)"

definition write_bytes :: "bytes \<Rightarrow> nat \<Rightarrow> bytes \<Rightarrow> bytes" where
  "write_bytes buf off src = take off buf @ src @ drop (off + length src) buf"

lemma read_bytes_Some_iff:
  "read_bytes buf off n = Some bs \<longleftrightarrow> off + n \<le> length buf \<and> bs = take n (drop off buf)"
  by (auto simp: read_bytes_def)

lemma read_bytes_length: "read_bytes buf off n = Some bs \<Longrightarrow> length bs = n"
  by (auto simp: read_bytes_Some_iff)

lemma read_bytes_append_mid [simp]:
  "length mid = n \<Longrightarrow> read_bytes (pre @ mid @ post) (length pre) n = Some mid"
  by (simp add: read_bytes_def)

lemma read_byte_append_mid [simp]: "read_byte (pre @ b # post) (length pre) = Some b"
  by (simp add: read_byte_def)

lemma write_bytes_end [simp]: "off = length buf \<Longrightarrow> write_bytes buf off src = buf @ src"
  by (simp add: write_bytes_def)

lemma length_write_bytes:
  "off + length src \<le> length buf \<Longrightarrow> length (write_bytes buf off src) = length buf"
  by (simp add: write_bytes_def)

section \<open>Simulation\<close>


text \<open>
  Refinement of a specification by an implementation with undefined behaviour: a step of the implementation
  may be undefined (\<open>None\<close>), a step of the specification may not.  Steps return results.
\<close>

fun run_steps :: "('s \<Rightarrow> 'o \<Rightarrow> ('s \<times> 'r) option) \<Rightarrow> 's \<Rightarrow> 'o list \<Rightarrow> ('s \<times> 'r list) option" where
  "run_steps step s [] = Some (s, [])"
| "run_steps step s (x # xs) =
     (case step s x of
        None \<Rightarrow> None
      | Some (s, r) \<Rightarrow> (case run_steps step s xs of None \<Rightarrow> None | Some (s, rs) \<Rightarrow> Some (s, r # rs)))"

fun run_spec :: "('a \<Rightarrow> 'o \<Rightarrow> 'a \<times> 'r) \<Rightarrow> 'a \<Rightarrow> 'o list \<Rightarrow> 'a \<times> 'r list" where
  "run_spec spec a [] = (a, [])"
| "run_spec spec a (x # xs) =
     (let (a, r) = spec a x; (a, rs) = run_spec spec a xs in (a, r # rs))"

locale simulation =
  fixes step :: "'s \<Rightarrow> 'o \<Rightarrow> ('s \<times> 'r) option"
    and spec :: "'a \<Rightarrow> 'o \<Rightarrow> 'a \<times> 'r"
    and rep :: "'s \<Rightarrow> 'a \<Rightarrow> bool"
    and legal :: "'o \<Rightarrow> bool"
  assumes simulates: "rep s a \<Longrightarrow> legal x \<Longrightarrow> \<exists>s'. step s x = Some (s', snd (spec a x)) \<and> rep s' (fst (spec a x))"
begin

lemma run_simulates:
  "rep s a \<Longrightarrow> list_all legal xs \<Longrightarrow>
    \<exists>s'. run_steps step s xs = Some (s', snd (run_spec spec a xs)) \<and> rep s' (fst (run_spec spec a xs))"
proof (induction xs arbitrary: s a)
  case Nil
  then show ?case by simp
next
  case (Cons x xs)
  obtain s' where s': "step s x = Some (s', snd (spec a x))" "rep s' (fst (spec a x))"
    using simulates Cons.prems by force
  obtain s'' where s'': "run_steps step s' xs = Some (s'', snd (run_spec spec (fst (spec a x)) xs))"
      "rep s'' (fst (run_spec spec (fst (spec a x)) xs))"
    using Cons.IH [OF s'(2)] Cons.prems(2) by auto
  show ?case using s' s'' by (auto simp: Let_def split_def)
qed

text \<open>An invariant of the specification is one of the implementation.\<close>

lemma run_invariant:
  assumes "rep s a" "list_all legal xs" "P a" "\<And>a x. P a \<Longrightarrow> legal x \<Longrightarrow> P (fst (spec a x))"
  shows "\<exists>s' rs a'. run_steps step s xs = Some (s', rs) \<and> rep s' a' \<and> P a'"
proof -
  have "P (fst (run_spec spec a xs))" using assms(2,3)
    by (induction xs arbitrary: a) (auto simp: Let_def split_def assms(4))
  then show ?thesis using run_simulates [OF assms(1,2)] by blast
qed

end

end
