(* ===== verification/Cnary_Heap.thy ===== *)
theory Cnary_Heap imports Prelude begin

text \<open>
  The heap on which \<open>airplay/libplist/libcnary\<close> keeps its n-ary trees: the structs \<open>node_t\<close> and
  \<open>node_list_t\<close>, allocation, and the loads and stores of their fields.

  Both structs start with two pointers and an \<open>unsigned int\<close>: \<open>next, prev, count\<close> of a node
  lie at the offsets of \<open>begin, end, count\<close> of a list.  \<open>list_init\<close> stores the address of the
  list header itself, cast to \<open>node_t*\<close>, in \<open>list->end\<close>, and \<open>node_list_add\<close> then writes
  \<open>last->next\<close> through it to set \<open>list->begin\<close>.  A \<open>node_t*\<close> is therefore NULL, a node, or a
  list header, and a load or a store of \<open>next\<close> or \<open>prev\<close> through a list header reaches \<open>begin\<close> or
  \<open>end\<close>.  Every other field of a node lies outside a list header.
\<close>

section \<open>Pointers, structs, heap\<close>

datatype ptr = Null | NodeP nat | ListP nat

text \<open>\<open>node_t\<close> (include/node.h); the two virtual function slots are never assigned or called.\<close>

record node_t =
  nd_next :: ptr
  nd_prev :: ptr
  nd_count :: u32
  nd_isRoot :: bool
  nd_isLeaf :: bool
  nd_data :: "nat option"
  nd_depth :: u32
  nd_parent :: ptr
  nd_children :: ptr

text \<open>\<open>node_list_t\<close> (include/node_list.h)\<close>

record node_list_t =
  nl_begin :: ptr
  nl_end :: ptr
  nl_count :: u32

text \<open>
  The heap: nodes and list headers by address, the client's own store (what the \<open>void *data\<close>
  pointers lead to), and the next address malloc hands out.  Addresses are never reused, so a
  dangling pointer stays dangling.  malloc succeeds.
\<close>

record 'd heap =
  hp_nodes :: "nat \<Rightarrow> node_t option"
  hp_lists :: "nat \<Rightarrow> node_list_t option"
  hp_store :: 'd
  hp_fresh :: nat

section \<open>Loads and stores\<close>

definition ld_node :: "'d heap \<Rightarrow> ptr \<Rightarrow> node_t option" where
  "ld_node h p = (case p of NodeP a \<Rightarrow> hp_nodes h a | _ \<Rightarrow> None)"

definition ld_list :: "'d heap \<Rightarrow> ptr \<Rightarrow> node_list_t option" where
  "ld_list h p = (case p of ListP l \<Rightarrow> hp_lists h l | _ \<Rightarrow> None)"

definition upd_node :: "'d heap \<Rightarrow> ptr \<Rightarrow> (node_t \<Rightarrow> node_t) \<Rightarrow> 'd heap option" where
  "upd_node h p f =
     (case p of
        NodeP a \<Rightarrow> (case hp_nodes h a of
                      None \<Rightarrow> None
                    | Some n \<Rightarrow> Some (h\<lparr>hp_nodes := (hp_nodes h)(a \<mapsto> f n)\<rparr>))
      | _ \<Rightarrow> None)"

definition upd_list :: "'d heap \<Rightarrow> ptr \<Rightarrow> (node_list_t \<Rightarrow> node_list_t) \<Rightarrow> 'd heap option" where
  "upd_list h p f =
     (case p of
        ListP l \<Rightarrow> (case hp_lists h l of
                      None \<Rightarrow> None
                    | Some n \<Rightarrow> Some (h\<lparr>hp_lists := (hp_lists h)(l \<mapsto> f n)\<rparr>))
      | _ \<Rightarrow> None)"

text \<open>\<open>p->next\<close> and \<open>p->prev\<close> for a \<open>node_t *p\<close> that may be a list header\<close>

definition get_next :: "'d heap \<Rightarrow> ptr \<Rightarrow> ptr option" where
  "get_next h p = (case p of Null \<Rightarrow> None | NodeP a \<Rightarrow> map_option nd_next (hp_nodes h a)
                   | ListP l \<Rightarrow> map_option nl_begin (hp_lists h l))"

definition get_prev :: "'d heap \<Rightarrow> ptr \<Rightarrow> ptr option" where
  "get_prev h p = (case p of Null \<Rightarrow> None | NodeP a \<Rightarrow> map_option nd_prev (hp_nodes h a)
                   | ListP l \<Rightarrow> map_option nl_end (hp_lists h l))"

definition set_next :: "'d heap \<Rightarrow> ptr \<Rightarrow> ptr \<Rightarrow> 'd heap option" where
  "set_next h p v = (case p of ListP l \<Rightarrow> upd_list h p (\<lambda>n. n\<lparr>nl_begin := v\<rparr>)
                     | _ \<Rightarrow> upd_node h p (\<lambda>n. n\<lparr>nd_next := v\<rparr>))"

definition set_prev :: "'d heap \<Rightarrow> ptr \<Rightarrow> ptr \<Rightarrow> 'd heap option" where
  "set_prev h p v = (case p of ListP l \<Rightarrow> upd_list h p (\<lambda>n. n\<lparr>nl_end := v\<rparr>)
                     | _ \<Rightarrow> upd_node h p (\<lambda>n. n\<lparr>nd_prev := v\<rparr>))"

lemma ld_simps [simp]:
  "ld_node h (NodeP a) = hp_nodes h a" "ld_node h Null = None" "ld_node h (ListP l) = None"
  "ld_list h (ListP l) = hp_lists h l" "ld_list h Null = None" "ld_list h (NodeP a) = None"
  by (simp_all add: ld_node_def ld_list_def)

lemma upd_simps [simp]:
  "hp_nodes h a = Some n \<Longrightarrow> upd_node h (NodeP a) f = Some (h\<lparr>hp_nodes := (hp_nodes h)(a \<mapsto> f n)\<rparr>)"
  "hp_nodes h a = None \<Longrightarrow> upd_node h (NodeP a) f = None"
  "upd_node h Null f = None" "upd_node h (ListP l) f = None"
  "hp_lists h l = Some L \<Longrightarrow> upd_list h (ListP l) g = Some (h\<lparr>hp_lists := (hp_lists h)(l \<mapsto> g L)\<rparr>)"
  "hp_lists h l = None \<Longrightarrow> upd_list h (ListP l) g = None"
  "upd_list h Null g = None" "upd_list h (NodeP a) g = None"
  by (simp_all add: upd_node_def upd_list_def)

lemma link_simps [simp]:
  "get_next h Null = None" "get_prev h Null = None"
  "get_next h (NodeP a) = map_option nd_next (hp_nodes h a)"
  "get_prev h (NodeP a) = map_option nd_prev (hp_nodes h a)"
  "get_next h (ListP l) = map_option nl_begin (hp_lists h l)"
  "get_prev h (ListP l) = map_option nl_end (hp_lists h l)"
  "set_next h Null v = None" "set_prev h Null v = None"
  "set_next h (NodeP a) v = upd_node h (NodeP a) (\<lambda>n. n\<lparr>nd_next := v\<rparr>)"
  "set_prev h (NodeP a) v = upd_node h (NodeP a) (\<lambda>n. n\<lparr>nd_prev := v\<rparr>)"
  "set_next h (ListP l) v = upd_list h (ListP l) (\<lambda>n. n\<lparr>nl_begin := v\<rparr>)"
  "set_prev h (ListP l) v = upd_list h (ListP l) (\<lambda>n. n\<lparr>nl_end := v\<rparr>)"
  by (simp_all add: get_next_def get_prev_def set_next_def set_prev_def)

section \<open>Allocation\<close>

definition alloc_node :: "'d heap \<Rightarrow> node_t \<Rightarrow> 'd heap \<times> ptr" where
  "alloc_node h n =
     (h\<lparr>hp_nodes := (hp_nodes h)(hp_fresh h \<mapsto> n), hp_fresh := Suc (hp_fresh h)\<rparr>, NodeP (hp_fresh h))"

definition alloc_list :: "'d heap \<Rightarrow> node_list_t \<Rightarrow> 'd heap \<times> ptr" where
  "alloc_list h L =
     (h\<lparr>hp_lists := (hp_lists h)(hp_fresh h \<mapsto> L), hp_fresh := Suc (hp_fresh h)\<rparr>, ListP (hp_fresh h))"

definition free_node :: "'d heap \<Rightarrow> ptr \<Rightarrow> 'd heap option" where
  "free_node h p =
     (case p of
        NodeP a \<Rightarrow> if hp_nodes h a = None then None
                   else Some (h\<lparr>hp_nodes := (hp_nodes h)(a := None)\<rparr>)
      | _ \<Rightarrow> None)"

definition free_list :: "'d heap \<Rightarrow> ptr \<Rightarrow> 'd heap option" where
  "free_list h p =
     (case p of
        ListP l \<Rightarrow> if hp_lists h l = None then None
                   else Some (h\<lparr>hp_lists := (hp_lists h)(l := None)\<rparr>)
      | _ \<Rightarrow> None)"

text \<open>Nothing is allocated at or beyond the next fresh address.\<close>

definition heap_ok :: "'d heap \<Rightarrow> bool" where
  "heap_ok h \<longleftrightarrow> (\<forall>a \<ge> hp_fresh h. hp_nodes h a = None \<and> hp_lists h a = None)"

lemma heap_ok_fresh: "heap_ok h \<Longrightarrow> hp_nodes h a = Some n \<Longrightarrow> a < hp_fresh h"
  by (rule ccontr) (simp add: heap_ok_def)

lemma heap_ok_fresh_list: "heap_ok h \<Longrightarrow> hp_lists h a = Some n \<Longrightarrow> a < hp_fresh h"
  by (rule ccontr) (simp add: heap_ok_def)

definition empty_heap :: "'d \<Rightarrow> 'd heap" where
  "empty_heap s = \<lparr>hp_nodes = Map.empty, hp_lists = Map.empty, hp_store = s, hp_fresh = 0\<rparr>"

lemma heap_ok_empty [simp]: "heap_ok (empty_heap s)"
  by (simp add: heap_ok_def empty_heap_def)

end
