(* ===== verification/Cnary_List.thy ===== *)
theory Cnary_List imports Cnary_Heap begin

text \<open>
  \<open>airplay/libplist/libcnary/node_list.c\<close>, \<open>list.c\<close> and \<open>node_iterator.c\<close>: the doubly linked,
  intrusive list of a node's children.
\<close>

section \<open>Model\<close>

definition list_init :: "'d heap \<Rightarrow> ptr \<Rightarrow> 'd heap option" where
  "list_init h list = do {
     h \<leftarrow> set_next h list Null;
     set_prev h list list
   }"

definition list_destroy :: "'d heap \<Rightarrow> ptr \<Rightarrow> 'd heap option" where
  "list_destroy h list = (if list \<noteq> Null then free_list h list else Some h)"

definition node_list_destroy :: "'d heap \<Rightarrow> ptr \<Rightarrow> 'd heap option" where
  "node_list_destroy h list = (if list \<noteq> Null then list_destroy h list else Some h)"

text \<open>The unused \<open>node\<close> argument of \<open>node_list_create\<close> is left out.\<close>

definition node_list_create :: "'d heap \<Rightarrow> ('d heap \<times> ptr) option" where
  "node_list_create h = do {
     let (h, list) = alloc_list h \<lparr>nl_begin = Null, nl_end = Null, nl_count = 0\<rparr>;
     h \<leftarrow> list_init h list;
     h \<leftarrow> upd_list h list (\<lambda>L. L\<lparr>nl_count := 0\<rparr>);
     Some (h, list)
   }"

definition node_list_add :: "'d heap \<Rightarrow> ptr \<Rightarrow> ptr \<Rightarrow> ('d heap \<times> int) option" where
  "node_list_add h list node =
     (if list = Null \<or> node = Null then Some (h, -1)
      else do {
        L \<leftarrow> ld_list h list;
        let last = nl_end L;
        h \<leftarrow> set_next h node Null;
        h \<leftarrow> set_prev h node last;
        h \<leftarrow> (if last \<noteq> Null then set_next h last node else Some h);
        h \<leftarrow> upd_list h list (\<lambda>L. L\<lparr>nl_end := node\<rparr>);
        h \<leftarrow> upd_list h list (\<lambda>L. L\<lparr>nl_count := nl_count L + 1\<rparr>);
        Some (h, 0)
      })"

text \<open>The walk of \<open>node_list_insert\<close> to position \<open>index\<close>: \<open>prev\<close> and \<open>cur\<close> after it.\<close>

fun list_walk :: "'d heap \<Rightarrow> nat \<Rightarrow> ptr \<Rightarrow> ptr \<Rightarrow> (ptr \<times> ptr) option" where
  "list_walk h 0 prev cur = Some (prev, cur)"
| "list_walk h (Suc k) prev cur = do { nx \<leftarrow> get_next h cur; list_walk h k cur nx }"

definition node_list_insert :: "'d heap \<Rightarrow> ptr \<Rightarrow> u32 \<Rightarrow> ptr \<Rightarrow> ('d heap \<times> int) option" where
  "node_list_insert h list index node =
     (if list = Null \<or> node = Null then Some (h, -1)
      else do {
        L \<leftarrow> ld_list h list;
        if index \<ge> nl_count L then node_list_add h list node
        else do {
          (prev, cur) \<leftarrow> list_walk h (unat index) Null (nl_begin L);
          h \<leftarrow> (if prev \<noteq> Null then do {
                  h \<leftarrow> set_prev h node prev;
                  pn \<leftarrow> get_next h prev;
                  h \<leftarrow> set_next h node pn;
                  set_next h prev node
                } else do {
                  h \<leftarrow> set_prev h node Null;
                  L \<leftarrow> ld_list h list;
                  h \<leftarrow> set_next h node (nl_begin L);
                  upd_list h list (\<lambda>L. L\<lparr>nl_begin := node\<rparr>)
                });
          nx \<leftarrow> get_next h node;
          h \<leftarrow> (if nx = Null then upd_list h list (\<lambda>L. L\<lparr>nl_end := node\<rparr>)
                else set_prev h nx node);
          h \<leftarrow> upd_list h list (\<lambda>L. L\<lparr>nl_count := nl_count L + 1\<rparr>);
          Some (h, 0)
        }
      })"

text \<open>The search loop of \<open>node_list_remove\<close>; it may not end on a cyclic list.\<close>

partial_function (option) list_search :: "'d heap \<Rightarrow> ptr \<Rightarrow> ptr \<Rightarrow> bool option" where
  "list_search h node n =
     (if n = Null then Some False
      else if node = n then Some True
      else (case get_next h n of None \<Rightarrow> None | Some nx \<Rightarrow> list_search h node nx))"

definition node_list_remove :: "'d heap \<Rightarrow> ptr \<Rightarrow> ptr \<Rightarrow> ('d heap \<times> int) option" where
  "node_list_remove h list node =
     (if list = Null \<or> node = Null then Some (h, -1)
      else do {
        L \<leftarrow> ld_list h list;
        if nl_count L = 0 then Some (h, -1)
        else do {
          found \<leftarrow> list_search h node (nl_begin L);
          if \<not> found then Some (h, -1)
          else do {
            newnode \<leftarrow> get_next h node;
            pv \<leftarrow> get_prev h node;
            h \<leftarrow> (if pv \<noteq> Null then do {
                    h \<leftarrow> set_next h pv newnode;
                    pv \<leftarrow> get_prev h node;
                    if newnode \<noteq> Null then set_prev h newnode pv
                    else upd_list h list (\<lambda>L. L\<lparr>nl_end := pv\<rparr>)
                  } else do {
                    h \<leftarrow> (if newnode \<noteq> Null then set_prev h newnode Null else Some h);
                    upd_list h list (\<lambda>L. L\<lparr>nl_begin := newnode\<rparr>)
                  });
            h \<leftarrow> upd_list h list (\<lambda>L. L\<lparr>nl_count := nl_count L - 1\<rparr>);
            Some (h, 0)
          }
        }
      })"

text \<open>
  \<open>node_iterator.c\<close>: creation binds the iterator to the list; \<open>next\<close> returns the current node
  and steps over it.
\<close>

record node_iterator_t =
  it_position :: u32
  it_count :: u32
  it_begin :: ptr
  it_end :: ptr
  it_value :: ptr

definition node_iterator_bind :: "'d heap \<Rightarrow> node_iterator_t \<Rightarrow> ptr \<Rightarrow> node_iterator_t option" where
  "node_iterator_bind h it list = do {
     L \<leftarrow> ld_list h list;
     Some (it\<lparr>it_position := 0, it_end := nl_end L, it_count := nl_count L,
              it_begin := nl_begin L, it_value := nl_begin L\<rparr>)
   }"

definition node_iterator_create :: "'d heap \<Rightarrow> ptr \<Rightarrow> node_iterator_t option" where
  "node_iterator_create h list = do {
     L \<leftarrow> ld_list h list;
     let it = \<lparr>it_position = 0, it_count = 0, it_begin = Null, it_end = Null, it_value = nl_begin L\<rparr>;
     if list \<noteq> Null then node_iterator_bind h it list else Some it
   }"

definition node_iterator_next :: "'d heap \<Rightarrow> node_iterator_t \<Rightarrow> (node_iterator_t \<times> ptr) option" where
  "node_iterator_next h it = do {
     let node = it_value it;
     it \<leftarrow> (if node \<noteq> Null then do { nx \<leftarrow> get_next h node; Some (it\<lparr>it_value := nx\<rparr>) }
           else Some it);
     Some (it\<lparr>it_position := it_position it + 1\<rparr>, node)
   }"

end
