(* ===== verification/Cnary_Node.thy ===== *)
theory Cnary_Node imports Cnary_List begin

text \<open>
  \<open>airplay/libplist/libcnary/cnary_node.c\<close>: n-ary trees whose nodes own an intrusive list of
  children.  The recursive operations carry a fuel argument that bounds the number of nested
  calls and loop rounds; \<open>Cnary_Tree\<close> proves how much is enough for a tree.
\<close>

section \<open>Destruction\<close>

text \<open>\<open>node_destroy\<close> and its loop, which removes and destroys the first child until there is none\<close>

fun node_destroy :: "nat \<Rightarrow> 'd heap \<Rightarrow> ptr \<Rightarrow> 'd heap option"
  and node_destroy_children :: "nat \<Rightarrow> 'd heap \<Rightarrow> ptr \<Rightarrow> 'd heap option" where
  "node_destroy 0 h node = None"
| "node_destroy (Suc f) h node =
     (if node = Null then Some h
      else do {
        n \<leftarrow> ld_node h node;
        h \<leftarrow> (if nd_children n \<noteq> Null then do {
                L \<leftarrow> ld_list h (nd_children n);
                if nl_count L > 0 then node_destroy_children f h node else Some h
              } else Some h);
        n \<leftarrow> ld_node h node;
        h \<leftarrow> node_list_destroy h (nd_children n);
        h \<leftarrow> upd_node h node (\<lambda>n. n\<lparr>nd_children := Null\<rparr>);
        free_node h node
      })"
| "node_destroy_children 0 h node = None"
| "node_destroy_children (Suc f) h node = do {
     n \<leftarrow> ld_node h node;
     ch \<leftarrow> get_next h (nd_children n);
     if ch = Null then Some h
     else do {
       (h, r) \<leftarrow> node_list_remove h (nd_children n) ch;
       h \<leftarrow> node_destroy f h ch;
       node_destroy_children f h node
     }
   }"

section \<open>Attaching, inserting, detaching\<close>

definition node_attach :: "'d heap \<Rightarrow> ptr \<Rightarrow> ptr \<Rightarrow> ('d heap \<times> int) option" where
  "node_attach h parent child =
     (if parent = Null \<or> child = Null then Some (h, -1)
      else do {
        h \<leftarrow> upd_node h child (\<lambda>n. n\<lparr>nd_isLeaf := True, nd_isRoot := False, nd_parent := parent\<rparr>);
        p \<leftarrow> ld_node h parent;
        h \<leftarrow> upd_node h child (\<lambda>n. n\<lparr>nd_depth := nd_depth p + 1\<rparr>);
        h \<leftarrow> upd_node h parent (\<lambda>n. if nd_isLeaf n then n\<lparr>nd_isLeaf := False\<rparr> else n);
        p \<leftarrow> ld_node h parent;
        (h, res) \<leftarrow> node_list_add h (nd_children p) child;
        h \<leftarrow> (if res = 0 then upd_node h parent (\<lambda>n. n\<lparr>nd_count := nd_count n + 1\<rparr>) else Some h);
        Some (h, res)
      })"

definition node_insert :: "'d heap \<Rightarrow> ptr \<Rightarrow> u32 \<Rightarrow> ptr \<Rightarrow> ('d heap \<times> int) option" where
  "node_insert h parent index child =
     (if parent = Null \<or> child = Null then Some (h, -1)
      else do {
        h \<leftarrow> upd_node h child (\<lambda>n. n\<lparr>nd_isLeaf := True, nd_isRoot := False, nd_parent := parent\<rparr>);
        p \<leftarrow> ld_node h parent;
        h \<leftarrow> upd_node h child (\<lambda>n. n\<lparr>nd_depth := nd_depth p + 1\<rparr>);
        h \<leftarrow> upd_node h parent (\<lambda>n. if nd_isLeaf n then n\<lparr>nd_isLeaf := False\<rparr> else n);
        p \<leftarrow> ld_node h parent;
        (h, res) \<leftarrow> node_list_insert h (nd_children p) index child;
        h \<leftarrow> (if res = 0 then upd_node h parent (\<lambda>n. n\<lparr>nd_count := nd_count n + 1\<rparr>) else Some h);
        Some (h, res)
      })"

definition node_detach :: "'d heap \<Rightarrow> ptr \<Rightarrow> ptr \<Rightarrow> ('d heap \<times> int) option" where
  "node_detach h parent child =
     (if parent = Null \<or> child = Null then Some (h, 0)
      else do {
        p \<leftarrow> ld_node h parent;
        (h, res) \<leftarrow> node_list_remove h (nd_children p) child;
        h \<leftarrow> (if res = 0 then upd_node h parent (\<lambda>n. n\<lparr>nd_count := nd_count n - 1\<rparr>) else Some h);
        Some (h, 0)
      })"

text \<open>The error branch destroys a node without children, for which fuel 1 is exact.\<close>

definition node_create :: "'d heap \<Rightarrow> ptr \<Rightarrow> nat option \<Rightarrow> ('d heap \<times> ptr) option" where
  "node_create h parent data = do {
     let (h, node) = alloc_node h \<lparr>nd_next = Null, nd_prev = Null, nd_count = 0, nd_isRoot = True,
         nd_isLeaf = True, nd_data = data, nd_depth = 0, nd_parent = Null, nd_children = Null\<rparr>;
     (h, list) \<leftarrow> node_list_create h;
     h \<leftarrow> upd_node h node (\<lambda>n. n\<lparr>nd_children := list\<rparr>);
     if parent \<noteq> Null then do {
       (h, error) \<leftarrow> node_attach h parent node;
       if error < 0 then do { h \<leftarrow> node_destroy 1 h node; Some (h, Null) }
       else Some (h, node)
     } else Some (h, node)
   }"

section \<open>Queries\<close>

definition node_n_children :: "'d heap \<Rightarrow> ptr \<Rightarrow> u32 option" where
  "node_n_children h node =
     (if node = Null then Some 0 else do { n \<leftarrow> ld_node h node; Some (nd_count n) })"

definition node_first_child :: "'d heap \<Rightarrow> ptr \<Rightarrow> ptr option" where
  "node_first_child h node =
     (if node = Null then Some Null
      else do {
        n \<leftarrow> ld_node h node;
        if nd_children n = Null then Some Null else get_next h (nd_children n)
      })"

definition node_prev_sibling :: "'d heap \<Rightarrow> ptr \<Rightarrow> ptr option" where
  "node_prev_sibling h node = (if node = Null then Some Null else get_prev h node)"

definition node_next_sibling :: "'d heap \<Rightarrow> ptr \<Rightarrow> ptr option" where
  "node_next_sibling h node = (if node = Null then Some Null else get_next h node)"

partial_function (option) nth_child_loop :: "'d heap \<Rightarrow> u32 \<Rightarrow> u32 \<Rightarrow> ptr \<Rightarrow> ptr option" where
  "nth_child_loop h n index ch =
     (if ch = Null then Some Null
      else if index = n then Some ch
      else (case node_next_sibling h ch of None \<Rightarrow> None | Some nx \<Rightarrow> nth_child_loop h n (index + 1) nx))"

definition node_nth_child :: "'d heap \<Rightarrow> ptr \<Rightarrow> u32 \<Rightarrow> ptr option" where
  "node_nth_child h node n =
     (if node = Null then Some Null
      else do {
        nd \<leftarrow> ld_node h node;
        if nd_children nd = Null then Some Null
        else do {
          b \<leftarrow> get_next h (nd_children nd);
          if b = Null then Some Null
          else do { ch \<leftarrow> node_first_child h node; nth_child_loop h n 0 ch }
        }
      })"

partial_function (option) child_position_loop :: "'d heap \<Rightarrow> ptr \<Rightarrow> int \<Rightarrow> ptr \<Rightarrow> int option" where
  "child_position_loop h child index ch =
     (if ch = Null then Some (-1)
      else if ch = child then Some index
      else (case node_next_sibling h ch of None \<Rightarrow> None | Some nx \<Rightarrow> child_position_loop h child (index + 1) nx))"

definition node_child_position :: "'d heap \<Rightarrow> ptr \<Rightarrow> ptr \<Rightarrow> int option" where
  "node_child_position h parent child =
     (if parent = Null then Some (-1)
      else do {
        p \<leftarrow> ld_node h parent;
        if nd_children p = Null then Some (-1)
        else do {
          b \<leftarrow> get_next h (nd_children p);
          if b = Null \<or> child = Null then Some (-1)
          else do { ch \<leftarrow> node_first_child h parent; child_position_loop h child 0 ch }
        }
      })"

section \<open>Deep copy\<close>

type_synonym 'd copy_func = "'d heap \<Rightarrow> nat option \<Rightarrow> ('d heap \<times> nat option) option"

fun node_copy_deep :: "nat \<Rightarrow> 'd copy_func option \<Rightarrow> 'd heap \<Rightarrow> ptr \<Rightarrow> ('d heap \<times> ptr) option"
  and node_copy_children :: "nat \<Rightarrow> 'd copy_func option \<Rightarrow> 'd heap \<Rightarrow> ptr \<Rightarrow> ptr \<Rightarrow> ('d heap \<times> ptr) option" where
  "node_copy_deep 0 cf h node = None"
| "node_copy_deep (Suc f) cf h node =
     (if node = Null then Some (h, Null)
      else do {
        n \<leftarrow> ld_node h node;
        (h, data) \<leftarrow> (case cf of None \<Rightarrow> Some (h, None) | Some c \<Rightarrow> c h (nd_data n));
        (h, copy) \<leftarrow> node_create h Null data;
        ch \<leftarrow> node_first_child h node;
        node_copy_children f cf h copy ch
      })"
| "node_copy_children 0 cf h copy ch = None"
| "node_copy_children (Suc f) cf h copy ch =
     (if ch = Null then Some (h, copy)
      else do {
        (h, cc) \<leftarrow> node_copy_deep f cf h ch;
        (h, r) \<leftarrow> node_attach h copy cc;
        nx \<leftarrow> node_next_sibling h ch;
        node_copy_children f cf h copy nx
      })"

section \<open>Debug output\<close>

text \<open>\<open>node_debug\<close>: the text printed for a node and, unless it is a leaf below the root, its children\<close>

fun node_debug :: "nat \<Rightarrow> 'd heap \<Rightarrow> ptr \<Rightarrow> string option"
  and node_debug_children :: "nat \<Rightarrow> 'd heap \<Rightarrow> node_iterator_t \<Rightarrow> ptr \<Rightarrow> string option" where
  "node_debug 0 h node = None"
| "node_debug (Suc f) h node = do {
     n \<leftarrow> ld_node h node;
     let tabs = replicate (unat (nd_depth n)) (CHR 0x09);
     let root = (if nd_isRoot n then ''ROOT'' @ [CHR 0x0A] else []);
     if nd_isLeaf n \<and> \<not> nd_isRoot n then Some (tabs @ root @ ''LEAF'' @ [CHR 0x0A])
     else do {
       it \<leftarrow> node_iterator_create h (nd_children n);
       rest \<leftarrow> node_debug_children f h it (it_begin it);
       Some (tabs @ root @ (if \<not> nd_isRoot n then ''NODE'' @ [CHR 0x0A] else []) @ rest)
     }
   }"
| "node_debug_children 0 h it current = None"
| "node_debug_children (Suc f) h it current =
     (if current = Null then Some []
      else do {
        s \<leftarrow> node_debug f h current;
        (it, nx) \<leftarrow> node_iterator_next h it;
        rest \<leftarrow> node_debug_children f h it nx;
        Some (s @ rest)
      })"

end
