(* ===== verification/Cnary_List_Props.thy ===== *)
theory Cnary_List_Props imports Cnary_List begin

text \<open>
  What a child list denotes, and the effect of every operation of \<open>node_list.c\<close> on it.  The
  proofs distinguish the two shapes the code produces: the first element's \<open>prev\<close> is the list
  header after \<open>node_list_add\<close> on an empty list, and NULL after \<open>node_list_insert\<close> at position 0.
\<close>

section \<open>Doubly linked segments\<close>

text \<open>The address of the last element, or a default for an empty list\<close>

definition lastp :: "ptr \<Rightarrow> nat list \<Rightarrow> ptr" where
  "lastp pr xs = (if xs = [] then pr else NodeP (last xs))"

lemma lastp_simps [simp]: "lastp pr [] = pr" "lastp pr (xs @ [x]) = NodeP x"
  "lastp pr (x # xs) = lastp (NodeP x) xs"
  by (simp_all add: lastp_def)

lemma lastp_append [simp]: "lastp pr (xs @ ys) = lastp (lastp pr xs) ys"
  by (simp add: lastp_def)

lemma lastp_cong: "xs \<noteq> [] \<Longrightarrow> lastp pr xs = lastp pr' xs"
  by (simp add: lastp_def)

text \<open>
  \<open>dseg N pr p xs q\<close>: following \<open>next\<close> from \<open>p\<close> visits exactly the nodes \<open>xs\<close> and ends at \<open>q\<close>;
  the \<open>prev\<close> of the first is \<open>pr\<close> and of every other is its predecessor.
\<close>

primrec dseg :: "(nat \<Rightarrow> node_t option) \<Rightarrow> ptr \<Rightarrow> ptr \<Rightarrow> nat list \<Rightarrow> ptr \<Rightarrow> bool" where
  "dseg N pr p [] q \<longleftrightarrow> p = q"
| "dseg N pr p (x # xs) q \<longleftrightarrow>
     p = NodeP x \<and> (\<exists>n. N x = Some n \<and> nd_prev n = pr \<and> dseg N (NodeP x) (nd_next n) xs q)"

lemma dseg_append:
  "dseg N pr p (xs @ ys) q \<longleftrightarrow> (\<exists>m. dseg N pr p xs m \<and> dseg N (lastp pr xs) m ys q)"
  by (induction xs arbitrary: pr p) auto

lemma dseg_upd [simp]: "a \<notin> set xs \<Longrightarrow> dseg (N(a := v)) pr p xs q = dseg N pr p xs q"
  by (induction xs arbitrary: pr p) auto

lemma dseg_alloc: "dseg N pr p xs q \<Longrightarrow> x \<in> set xs \<Longrightarrow> \<exists>n. N x = Some n"
  by (induction xs arbitrary: pr p) auto

lemma dseg_cong:
  "(\<And>x. x \<in> set xs \<Longrightarrow> N x = N' x) \<Longrightarrow> dseg N pr p xs q = dseg N' pr p xs q"
  by (induction xs arbitrary: pr p) auto

text \<open>Replacing the \<open>prev\<close> of the first element.\<close>

lemma dseg_set_first:
  assumes "dseg N pr p (v # vs) q" and "v \<notin> set vs" and "N v = Some n"
  shows "dseg (N(v \<mapsto> n\<lparr>nd_prev := pr'\<rparr>)) pr' p (v # vs) q"
  using assms by auto

section \<open>What a list header denotes\<close>

definition list_rep :: "'d heap \<Rightarrow> nat \<Rightarrow> ptr \<Rightarrow> nat list \<Rightarrow> bool" where
  "list_rep h l pr xs \<longleftrightarrow>
     (\<exists>L. hp_lists h l = Some L \<and> nl_count L = of_nat (length xs) \<and> length xs < 2 ^ 32
        \<and> distinct xs \<and> dseg (hp_nodes h) pr (nl_begin L) xs Null
        \<and> nl_end L = lastp (ListP l) xs \<and> (pr = ListP l \<or> pr = Null))"

lemma list_repE:
  assumes "list_rep h l pr xs"
  obtains L where "hp_lists h l = Some L" "nl_count L = of_nat (length xs)" "length xs < 2 ^ 32"
    "distinct xs" "dseg (hp_nodes h) pr (nl_begin L) xs Null" "nl_end L = lastp (ListP l) xs"
    "pr = ListP l \<or> pr = Null"
  using assms by (auto simp: list_rep_def)

lemma list_rep_alloc: "list_rep h l pr xs \<Longrightarrow> x \<in> set xs \<Longrightarrow> \<exists>n. hp_nodes h x = Some n"
  by (auto simp: list_rep_def dest: dseg_alloc)

lemma list_rep_cong:
  "list_rep h l pr xs \<Longrightarrow> hp_lists h' l = hp_lists h l \<Longrightarrow>
   (\<And>x. x \<in> set xs \<Longrightarrow> hp_nodes h' x = hp_nodes h x) \<Longrightarrow> list_rep h' l pr xs"
  using dseg_cong [of xs "hp_nodes h'" "hp_nodes h"] by (auto simp: list_rep_def)

lemma list_rep_empty_pr: "list_rep h l pr [] \<Longrightarrow> list_rep h l (ListP l) []"
  by (auto simp: list_rep_def)

section \<open>Frames\<close>

text \<open>A node without its two links; \<open>links_only\<close>: an operation on list \<open>l\<close> wrote nothing but
  the links of the nodes in \<open>S\<close> and the header \<open>l\<close>.\<close>

definition core :: "node_t \<Rightarrow> node_t" where
  "core n = n\<lparr>nd_next := Null, nd_prev := Null\<rparr>"

definition links_only :: "nat set \<Rightarrow> nat \<Rightarrow> 'd heap \<Rightarrow> 'd heap \<Rightarrow> bool" where
  "links_only S l h h' \<longleftrightarrow>
     hp_store h' = hp_store h \<and> hp_fresh h' = hp_fresh h
     \<and> (\<forall>l'. l' \<noteq> l \<longrightarrow> hp_lists h' l' = hp_lists h l')
     \<and> (hp_lists h' l = None \<longleftrightarrow> hp_lists h l = None)
     \<and> (\<forall>a. a \<notin> S \<longrightarrow> hp_nodes h' a = hp_nodes h a)
     \<and> (\<forall>a. map_option core (hp_nodes h' a) = map_option core (hp_nodes h a))"

lemma core_simps [simp]:
  "core (n\<lparr>nd_next := p\<rparr>) = core n" "core (n\<lparr>nd_prev := p\<rparr>) = core n"
  "nd_data (core n) = nd_data n" "nd_parent (core n) = nd_parent n"
  "nd_children (core n) = nd_children n" "nd_count (core n) = nd_count n"
  "nd_isRoot (core n) = nd_isRoot n" "nd_depth (core n) = nd_depth n" "nd_isLeaf (core n) = nd_isLeaf n"
  by (simp_all add: core_def)

lemma core_eqD:
  assumes "core n = core m"
  shows "nd_data n = nd_data m" "nd_parent n = nd_parent m" "nd_children n = nd_children m"
    "nd_count n = nd_count m" "nd_isRoot n = nd_isRoot m" "nd_depth n = nd_depth m"
    "nd_isLeaf n = nd_isLeaf m"
  using assms by (metis core_simps)+

lemma links_onlyD:
  assumes "links_only S l h h'" and "hp_nodes h a = Some n"
  obtains n' where "hp_nodes h' a = Some n'" "core n' = core n"
proof -
  have "map_option core (hp_nodes h' a) = Some (core n)"
    using assms by (simp add: links_only_def)
  then show thesis using that by auto
qed

lemma links_only_sel:
  assumes "links_only S l h h'"
  shows "hp_store h' = hp_store h" "hp_fresh h' = hp_fresh h"
    "l' \<noteq> l \<Longrightarrow> hp_lists h' l' = hp_lists h l'" "a \<notin> S \<Longrightarrow> hp_nodes h' a = hp_nodes h a"
    "hp_nodes h' a = None \<longleftrightarrow> hp_nodes h a = None" "hp_lists h' l' = None \<longleftrightarrow> hp_lists h l' = None"
proof -
  have "map_option core (hp_nodes h' a) = map_option core (hp_nodes h a)"
    using assms by (simp add: links_only_def)
  then show "hp_nodes h' a = None \<longleftrightarrow> hp_nodes h a = None" by (metis map_option_is_None)
qed (use assms in \<open>auto simp: links_only_def\<close>, (cases "l' = l"; simp add: links_only_def)+)

lemma links_only_refl [simp]: "links_only S l h h"
  by (simp add: links_only_def)

lemma links_only_trans: "links_only S l h h' \<Longrightarrow> links_only S l h' h'' \<Longrightarrow> links_only S l h h''"
  by (auto simp: links_only_def)

lemma links_only_mono: "links_only S l h h' \<Longrightarrow> S \<subseteq> S' \<Longrightarrow> links_only S' l h h'"
  by (auto simp: links_only_def)

lemma links_only_ok: "links_only S l h h' \<Longrightarrow> heap_ok h \<Longrightarrow> heap_ok h'"
  using links_only_sel(5,6) [of S l h h'] by (auto simp: heap_ok_def links_only_sel(2))

lemma links_only_node:
  "links_only S l h h' \<Longrightarrow> hp_nodes h' a = Some n \<Longrightarrow> a \<in> S \<Longrightarrow> core m = core n \<Longrightarrow>
   links_only S l h (h'\<lparr>hp_nodes := (hp_nodes h')(a \<mapsto> m)\<rparr>)"
  unfolding links_only_def by (auto split: if_splits) (metis option.simps(9))+

lemma links_only_list:
  "links_only S l h h' \<Longrightarrow> hp_lists h' l = Some L \<Longrightarrow>
   links_only S l h (h'\<lparr>hp_lists := (hp_lists h')(l \<mapsto> L')\<rparr>)"
  by (auto simp: links_only_def)

section \<open>The operations\<close>


lemma list_search_dseg:
  "dseg (hp_nodes h) pr p xs Null \<Longrightarrow> node \<noteq> Null \<Longrightarrow>
   list_search h node p = Some (node \<in> NodeP ` set xs)"
proof (induction xs arbitrary: pr p)
  case Nil
  then show ?case by (simp add: list_search.simps)
next
  case (Cons x xs)
  then obtain n where n: "p = NodeP x" "hp_nodes h x = Some n"
    "dseg (hp_nodes h) (NodeP x) (nd_next n) xs Null" by auto
  then show ?case
    using Cons.IH [OF n(3)] Cons.prems by (subst list_search.simps) auto
qed

lemma list_walk_dseg:
  "dseg (hp_nodes h) pr p xs q \<Longrightarrow> k < length xs \<Longrightarrow>
   list_walk h k pv p = Some (lastp pv (take k xs), NodeP (xs ! k))"
proof (induction k arbitrary: pv pr p xs)
  case 0
  then show ?case by (cases xs) auto
next
  case (Suc k)
  then obtain x xs' where "xs = x # xs'" by (cases xs) auto
  with Suc show ?case by auto
qed

lemma node_list_create_rep:
  assumes "heap_ok h"
  shows "\<exists>h'. node_list_create h = Some (h', ListP (hp_fresh h))
    \<and> list_rep h' (hp_fresh h) (ListP (hp_fresh h)) [] \<and> heap_ok h'
    \<and> hp_nodes h' = hp_nodes h \<and> hp_store h' = hp_store h \<and> hp_fresh h' = Suc (hp_fresh h)
    \<and> (\<forall>l. l \<noteq> hp_fresh h \<longrightarrow> hp_lists h' l = hp_lists h l)"
  using assms
  by (auto simp: node_list_create_def list_init_def alloc_list_def list_rep_def heap_ok_def)

lemma node_list_add_rep:
  assumes rep: "list_rep h l pr xs" and x: "hp_nodes h x = Some n" "x \<notin> set xs"
    and len: "Suc (length xs) < 2 ^ 32"
  obtains h' where "node_list_add h (ListP l) (NodeP x) = Some (h', 0)"
    and "list_rep h' l (if xs = [] then ListP l else pr) (xs @ [x])"
    and "links_only (insert x (set xs)) l h h'"
proof -
  from rep obtain L where L: "hp_lists h l = Some L" "nl_count L = of_nat (length xs)"
    "distinct xs" "dseg (hp_nodes h) pr (nl_begin L) xs Null" "nl_end L = lastp (ListP l) xs"
    "pr = ListP l \<or> pr = Null" by (rule list_repE)
  show thesis
  proof (cases xs rule: rev_cases)
    case Nil
    let ?n = "n\<lparr>nd_next := Null, nd_prev := ListP l\<rparr>"
    let ?h = "h\<lparr>hp_nodes := (hp_nodes h)(x \<mapsto> ?n),
      hp_lists := (hp_lists h)(l \<mapsto> L\<lparr>nl_begin := NodeP x, nl_end := NodeP x, nl_count := 1\<rparr>)\<rparr>"
    have "node_list_add h (ListP l) (NodeP x) = Some (?h, 0)"
      using L x Nil by (simp add: node_list_add_def)
    moreover have "list_rep ?h l (ListP l) [x]"
      using L by (simp add: list_rep_def)
    moreover have "links_only {x} l h ?h"
      using L x by (auto simp: links_only_def)
    ultimately show thesis using Nil by (intro that [of ?h]) auto
  next
    case (snoc ys z)
    with L(4) obtain nz where nz: "hp_nodes h z = Some nz" "nd_prev nz = lastp pr ys" "nd_next nz = Null"
      "dseg (hp_nodes h) pr (nl_begin L) ys (NodeP z)"
      by (auto simp: dseg_append)
    have xz: "x \<noteq> z" "x \<notin> set ys" "z \<notin> set ys" using x snoc L(3) by auto
    let ?n = "n\<lparr>nd_next := Null, nd_prev := NodeP z\<rparr>"
    let ?h = "h\<lparr>hp_nodes := (hp_nodes h)(x \<mapsto> ?n, z \<mapsto> nz\<lparr>nd_next := NodeP x\<rparr>),
      hp_lists := (hp_lists h)(l \<mapsto> L\<lparr>nl_end := NodeP x, nl_count := nl_count L + 1\<rparr>)\<rparr>"
    have "node_list_add h (ListP l) (NodeP x) = Some (?h, 0)"
      using L x snoc nz xz by (simp add: node_list_add_def)
    moreover have "list_rep ?h l pr (xs @ [x])"
      using L snoc nz xz len by (auto simp: list_rep_def dseg_append)
    moreover have "links_only (insert x (set xs)) l h ?h"
      using L x snoc nz by (auto simp: links_only_def)
    ultimately show thesis using snoc by (intro that [of ?h]) auto
  qed
qed


lemma node_list_insert_rep:
  assumes rep: "list_rep h l pr xs" and x: "hp_nodes h x = Some n" "x \<notin> set xs"
    and len: "Suc (length xs) < 2 ^ 32" and i: "unat i < length xs"
  obtains h' where "node_list_insert h (ListP l) i (NodeP x) = Some (h', 0)"
    and "list_rep h' l (if i = 0 then Null else pr) (take (unat i) xs @ x # drop (unat i) xs)"
    and "links_only (insert x (set xs)) l h h'"
proof -
  from rep obtain L where L: "hp_lists h l = Some L" "nl_count L = of_nat (length xs)"
    "distinct xs" "dseg (hp_nodes h) pr (nl_begin L) xs Null" "nl_end L = lastp (ListP l) xs"
    "pr = ListP l \<or> pr = Null" by (rule list_repE)
  define us where "us = take (unat i) xs"
  define v where "v = xs ! unat i"
  define vs where "vs = drop (Suc (unat i)) xs"
  have xs: "xs = us @ v # vs" using i by (simp add: us_def v_def vs_def id_take_nth_drop)
  have tk: "take (unat i) xs = us" "drop (unat i) xs = v # vs"
    using i by (simp_all add: us_def v_def vs_def Cons_nth_drop_Suc)
  have small: "\<not> nl_count L \<le> i"
    using i L(2) len by (simp add: word_le_nat_alt unat_of_nat_u32)
  have walk: "list_walk h (unat i) Null (nl_begin L) = Some (lastp Null us, NodeP v)"
    using list_walk_dseg [OF L(4) i, of Null] by (simp add: us_def v_def)
  have vne: "x \<noteq> v" "v \<notin> set us" "v \<notin> set vs" "x \<notin> set us" "x \<notin> set vs"
    "distinct us" "distinct vs" "set us \<inter> set vs = {}"
    using x(2) L(3) xs by auto
  show thesis
  proof (cases us rule: rev_cases)
    case Nil
    then have i0: "i = 0" using i by (auto simp: us_def unat_eq_0)
    from L(4) xs Nil obtain nv where nv: "nl_begin L = NodeP v" "hp_nodes h v = Some nv"
      "nd_prev nv = pr" "dseg (hp_nodes h) (NodeP v) (nd_next nv) vs Null" by auto
    let ?h = "h\<lparr>hp_nodes := (hp_nodes h)(x \<mapsto> n\<lparr>nd_prev := Null, nd_next := NodeP v\<rparr>, v \<mapsto> nv\<lparr>nd_prev := NodeP x\<rparr>),
      hp_lists := (hp_lists h)(l \<mapsto> L\<lparr>nl_begin := NodeP x, nl_count := nl_count L + 1\<rparr>)\<rparr>"
    have "node_list_insert h (ListP l) i (NodeP x) = Some (?h, 0)"
      using L x nv vne small walk Nil by (simp add: node_list_insert_def fun_upd_twist)
    moreover have "list_rep ?h l Null (x # xs)"
      using L nv vne xs Nil len by (auto simp: list_rep_def lastp_def)
    moreover have "links_only (insert x (set xs)) l h ?h"
      using L x nv xs by (auto simp: links_only_def)
    ultimately show thesis using Nil xs i0 by (intro that [of ?h]) auto
  next
    case (snoc ys u)
    then have i0: "i \<noteq> 0" by (auto simp: us_def)
    from L(4) xs snoc obtain nu nv where nu: "hp_nodes h u = Some nu" "nd_prev nu = lastp pr ys"
        "nd_next nu = NodeP v" "dseg (hp_nodes h) pr (nl_begin L) ys (NodeP u)"
      and nv: "hp_nodes h v = Some nv" "nd_prev nv = NodeP u"
        "dseg (hp_nodes h) (NodeP v) (nd_next nv) vs Null"
      by (auto simp: dseg_append)
    have une: "u \<noteq> x" "u \<noteq> v" "u \<notin> set ys" "u \<notin> set vs" "x \<notin> set ys" "v \<notin> set ys"
      using vne snoc by auto
    let ?h = "h\<lparr>hp_nodes := (hp_nodes h)(x \<mapsto> n\<lparr>nd_prev := NodeP u, nd_next := NodeP v\<rparr>,
        u \<mapsto> nu\<lparr>nd_next := NodeP x\<rparr>, v \<mapsto> nv\<lparr>nd_prev := NodeP x\<rparr>),
      hp_lists := (hp_lists h)(l \<mapsto> L\<lparr>nl_count := nl_count L + 1\<rparr>)\<rparr>"
    have "node_list_insert h (ListP l) i (NodeP x) = Some (?h, 0)"
      using L x nu nv vne une small walk snoc by (simp add: node_list_insert_def fun_upd_twist)
    moreover have "list_rep ?h l pr (us @ x # v # vs)"
      using L nu nv vne une xs snoc len by (auto simp: list_rep_def lastp_def dseg_append)
    moreover have "links_only (insert x (set xs)) l h ?h"
      using L x nu nv xs snoc by (auto simp: links_only_def)
    ultimately show thesis using tk i0 by (intro that [of ?h]) auto
  qed
qed

lemma node_list_remove_rep:
  assumes rep: "list_rep h l pr (us @ x # vs)"
    and tail: "us = [] \<Longrightarrow> vs = [] \<Longrightarrow> pr = ListP l"
  obtains h' where "node_list_remove h (ListP l) (NodeP x) = Some (h', 0)"
    and "list_rep h' l pr (us @ vs)"
    and "links_only (set (us @ x # vs)) l h h'"
proof -
  from rep obtain L where L: "hp_lists h l = Some L" "nl_count L = of_nat (length (us @ x # vs))"
    "length (us @ x # vs) < 2 ^ 32"
    "distinct (us @ x # vs)" "dseg (hp_nodes h) pr (nl_begin L) (us @ x # vs) Null"
    "nl_end L = lastp (ListP l) (us @ x # vs)"
    "pr = ListP l \<or> pr = Null" by (rule list_repE)
  from L(5) obtain n where n: "hp_nodes h x = Some n" "nd_prev n = lastp pr us"
    "dseg (hp_nodes h) pr (nl_begin L) us (NodeP x)" "dseg (hp_nodes h) (NodeP x) (nd_next n) vs Null"
    by (auto simp: dseg_append)
  have srch: "list_search h (NodeP x) (nl_begin L) = Some True"
    using list_search_dseg [OF L(5), of "NodeP x"] by simp
  have "unat (nl_count L) = length (us @ x # vs)" by (simp only: L(2) unat_of_nat_u32 [OF L(3)])
  then have cnt: "nl_count L \<noteq> 0" by auto
  have cnt': "nl_count L - 1 = of_nat (length us + length vs)" using L(2) by simp
  show thesis
  proof (cases us rule: rev_cases)
    case Nil
    show thesis
    proof (cases vs)
      case vNil: Nil
      then have pr: "pr = ListP l" using tail Nil by simp
      let ?h = "h\<lparr>hp_lists := (hp_lists h)(l \<mapsto> L\<lparr>nl_begin := Null, nl_end := ListP l, nl_count := 0\<rparr>)\<rparr>"
      have "node_list_remove h (ListP l) (NodeP x) = Some (?h, 0)"
        using L n srch Nil vNil pr cnt by (simp add: node_list_remove_def)
      moreover have "list_rep ?h l pr []" using pr by (simp add: list_rep_def)
      moreover have "links_only {x} l h ?h" using L by (auto simp: links_only_def)
      ultimately show thesis using Nil vNil by (intro that [of ?h]) auto
    next
      case (Cons v vs')
      with n obtain nv where nv: "nd_next n = NodeP v" "hp_nodes h v = Some nv"
        "dseg (hp_nodes h) (NodeP v) (nd_next nv) vs' Null" by auto
      have vne: "v \<noteq> x" "v \<notin> set vs'" using L(4) Nil Cons by auto
      let ?h = "h\<lparr>hp_nodes := (hp_nodes h)(v \<mapsto> nv\<lparr>nd_prev := pr\<rparr>),
        hp_lists := (hp_lists h)(l \<mapsto> L\<lparr>nl_begin := NodeP v, nl_count := nl_count L - 1\<rparr>)\<rparr>"
      have "node_list_remove h (ListP l) (NodeP x) = Some (?h, 0)"
        using L n nv vne srch Nil Cons cnt by (auto simp: node_list_remove_def)
      moreover have "list_rep ?h l pr vs" using L nv vne Nil Cons cnt' by (auto simp: list_rep_def lastp_def)
      moreover have "links_only (set (us @ x # vs)) l h ?h" using L nv Cons by (auto simp: links_only_def)
      ultimately show thesis using Nil Cons by (intro that [of ?h]) auto
    qed
  next
    case (snoc ys u)
    with n obtain nu where nu: "hp_nodes h u = Some nu" "nd_prev nu = lastp pr ys" "nd_next nu = NodeP x"
        "dseg (hp_nodes h) pr (nl_begin L) ys (NodeP u)"
      by (auto simp: dseg_append)
    have une: "u \<noteq> x" "u \<notin> set ys" "u \<notin> set vs" "x \<notin> set ys" using L(4) snoc by auto
    show thesis
    proof (cases vs)
      case vNil: Nil
      let ?h = "h\<lparr>hp_nodes := (hp_nodes h)(u \<mapsto> nu\<lparr>nd_next := Null\<rparr>),
        hp_lists := (hp_lists h)(l \<mapsto> L\<lparr>nl_end := NodeP u, nl_count := nl_count L - 1\<rparr>)\<rparr>"
      have "node_list_remove h (ListP l) (NodeP x) = Some (?h, 0)"
        using L n nu une srch snoc vNil cnt by (simp add: node_list_remove_def)
      moreover have "list_rep ?h l pr us" using L nu une snoc vNil cnt' by (auto simp: list_rep_def dseg_append)
      moreover have "links_only (set (us @ x # vs)) l h ?h" using L nu snoc by (auto simp: links_only_def)
      ultimately show thesis using vNil by (intro that [of ?h]) auto
    next
      case (Cons v vs')
      with n obtain nv where nv: "nd_next n = NodeP v" "hp_nodes h v = Some nv"
        "dseg (hp_nodes h) (NodeP v) (nd_next nv) vs' Null" by auto
      have vne: "v \<noteq> x" "v \<noteq> u" "v \<notin> set vs'" "v \<notin> set ys" using L(4) snoc Cons by auto
      let ?h = "h\<lparr>hp_nodes := (hp_nodes h)(u \<mapsto> nu\<lparr>nd_next := NodeP v\<rparr>, v \<mapsto> nv\<lparr>nd_prev := NodeP u\<rparr>),
        hp_lists := (hp_lists h)(l \<mapsto> L\<lparr>nl_count := nl_count L - 1\<rparr>)\<rparr>"
      have "node_list_remove h (ListP l) (NodeP x) = Some (?h, 0)"
        using L n nu nv une vne srch snoc Cons cnt by (simp add: node_list_remove_def)
      moreover have "list_rep ?h l pr (us @ vs)"
        using L nu nv une vne snoc Cons cnt' by (auto simp: list_rep_def dseg_append lastp_def)
      moreover have "links_only (set (us @ x # vs)) l h ?h"
        using L nu nv snoc Cons by (auto simp: links_only_def)
      ultimately show thesis by (intro that [of ?h]) auto
    qed
  qed
qed

lemma node_list_insert_end:
  assumes "list_rep h l pr xs" "\<not> unat i < length xs"
  shows "node_list_insert h (ListP l) i (NodeP x) = node_list_add h (ListP l) (NodeP x)"
  using assms by (auto elim!: list_repE simp: node_list_insert_def word_le_nat_alt unat_of_nat_u32)

lemma node_list_remove_absent:
  assumes "list_rep h l pr xs" "x \<notin> set xs"
  shows "node_list_remove h (ListP l) (NodeP x) = Some (h, -1)"
  using assms list_search_dseg [of h pr _ xs "NodeP x"]
  by (auto elim!: list_repE simp: node_list_remove_def)

lemma node_list_null [simp]:
  "node_list_add h Null p = Some (h, -1)" "node_list_add h q Null = Some (h, -1)"
  "node_list_insert h Null i p = Some (h, -1)" "node_list_insert h q i Null = Some (h, -1)"
  "node_list_remove h Null p = Some (h, -1)" "node_list_remove h q Null = Some (h, -1)"
  by (simp_all add: node_list_add_def node_list_insert_def node_list_remove_def)

text \<open>
  The case the removal does not handle: the only element of a list whose first \<open>prev\<close> is NULL.
  \<open>list->end\<close> keeps pointing at the removed node.
\<close>

lemma node_list_remove_last_null:
  assumes "list_rep h l Null [x]"
  obtains h' where "node_list_remove h (ListP l) (NodeP x) = Some (h', 0)"
    and "hp_lists h' l = Some \<lparr>nl_begin = Null, nl_end = NodeP x, nl_count = 0\<rparr>"
    and "links_only {x} l h h'"
proof -
  from assms obtain L n where L: "hp_lists h l = Some L" "nl_count L = 1" "nl_begin L = NodeP x"
    "nl_end L = NodeP x" "hp_nodes h x = Some n" "nd_prev n = Null" "nd_next n = Null"
    by (auto elim!: list_repE)
  let ?h = "h\<lparr>hp_lists := (hp_lists h)(l \<mapsto> L\<lparr>nl_begin := Null, nl_count := 0\<rparr>)\<rparr>"
  have "node_list_remove h (ListP l) (NodeP x) = Some (?h, 0)"
    using L by (simp add: node_list_remove_def list_search.simps)
  moreover have "L\<lparr>nl_begin := Null, nl_count := 0\<rparr> = \<lparr>nl_begin = Null, nl_end = NodeP x, nl_count = 0\<rparr>"
    using L by (cases L) simp
  moreover have "links_only {x} l h ?h" using L by (auto simp: links_only_def)
  ultimately show thesis by (intro that [of ?h]) auto
qed

text \<open>Iterating: the values that successive calls of \<open>node_iterator_next\<close> return.\<close>

fun iterate :: "'d heap \<Rightarrow> nat \<Rightarrow> node_iterator_t \<Rightarrow> ptr list option" where
  "iterate h 0 it = None"
| "iterate h (Suc k) it = do {
     (it, node) \<leftarrow> node_iterator_next h it;
     if node = Null then Some [] else map_option (Cons node) (iterate h k it)
   }"

lemma iterate_dseg:
  "dseg (hp_nodes h) pr (it_value it) xs Null \<Longrightarrow> length xs < k \<Longrightarrow>
   iterate h k it = Some (map NodeP xs)"
proof (induction xs arbitrary: pr it k)
  case Nil
  then obtain k' where "k = Suc k'" by (cases k) auto
  with Nil show ?case by (simp add: node_iterator_next_def)
next
  case (Cons x xs)
  then obtain k' where "k = Suc k'" by (cases k) auto
  with Cons show ?case by (auto simp: node_iterator_next_def)
qed

lemma node_iterator_visits:
  assumes "list_rep h l pr xs" "length xs < k"
  shows "\<exists>it. node_iterator_create h (ListP l) = Some it \<and> iterate h k it = Some (map NodeP xs)"
  using assms by (auto elim!: list_repE intro!: iterate_dseg
      simp: node_iterator_create_def node_iterator_bind_def)

end
