(* ===== verification/Cnary_Tree.thy ===== *)
theory Cnary_Tree imports Cnary_Node Cnary_List_Props begin

text \<open>
  The trees that the heap of \<open>libcnary\<close> represents, and the effect of attaching, inserting,
  detaching, copying and destroying on them.
\<close>

section \<open>Trees in the heap\<close>

text \<open>
  A tree records the address of every node and of its list header, whether the first child's
  \<open>prev\<close> is the header (\<open>True\<close>) or NULL, the data pointer, and the children.
\<close>

datatype rtree = RT (rt_addr: nat) (rt_list: nat) (rt_headed: bool) (rt_data: "nat option")
  (rt_kids: "rtree list")

fun rt_addrs :: "rtree \<Rightarrow> nat list" where
  "rt_addrs (RT a l b d ts) = a # concat (map rt_addrs ts)"

fun rt_lists :: "rtree \<Rightarrow> nat list" where
  "rt_lists (RT a l b d ts) = l # concat (map rt_lists ts)"

fun rt_size :: "rtree \<Rightarrow> nat" where
  "rt_size (RT a l b d ts) = Suc (sum_list (map rt_size ts))"

definition first_prev :: "bool \<Rightarrow> nat \<Rightarrow> ptr" where
  "first_prev b l = (if b then ListP l else Null)"

fun tree_rep :: "'d heap \<Rightarrow> ptr \<Rightarrow> rtree \<Rightarrow> bool" where
  "tree_rep h par (RT a l b d ts) \<longleftrightarrow>
     (\<exists>n. hp_nodes h a = Some n \<and> nd_parent n = par \<and> nd_children n = ListP l \<and> nd_data n = d
        \<and> nd_count n = of_nat (length ts))
     \<and> list_rep h l (first_prev b l) (map rt_addr ts)
     \<and> (\<forall>t \<in> set ts. tree_rep h (NodeP a) t)"

text \<open>No node and no header occurs twice.\<close>

definition rt_ok :: "rtree \<Rightarrow> bool" where
  "rt_ok t \<longleftrightarrow> distinct (rt_addrs t) \<and> distinct (rt_lists t)"

lemma rt_addr_in [simp]: "rt_addr t \<in> set (rt_addrs t)"
  by (cases t) auto

lemma rt_list_in [simp]: "rt_list t \<in> set (rt_lists t)"
  by (cases t) auto

lemma rt_addr_kid: "x \<in> set (map rt_addr ts) \<Longrightarrow> x \<in> set (rt_addrs (RT a l b d ts))"
  by simp (metis imageE rt_addr_in)

lemma rt_addrs_kid: "t \<in> set ts \<Longrightarrow> x \<in> set (rt_addrs t) \<Longrightarrow> x \<in> set (rt_addrs (RT a l b d ts))"
  by auto

lemma distinct_concat_map_in:
  "distinct (concat (map f ts)) \<Longrightarrow> t \<in> set ts \<Longrightarrow> distinct (f t)"
  by (induction ts) auto

lemma rt_ok_kid:
  assumes "rt_ok (RT a l b d ts)" and "t \<in> set ts"
  shows "rt_ok t" "a \<notin> set (rt_addrs t)" "l \<notin> set (rt_lists t)"
  using assms distinct_concat_map_in [of rt_addrs ts t] distinct_concat_map_in [of rt_lists ts t]
  by (auto simp: rt_ok_def)

lemma distinct_map_addr:
  assumes "distinct (concat (map rt_addrs ts))"
  shows "distinct (map rt_addr ts)"
  using assms
proof (induction ts)
  case (Cons t ts)
  have "rt_addr t \<notin> rt_addr ` set ts"
  proof
    assume "rt_addr t \<in> rt_addr ` set ts"
    then obtain u where "u \<in> set ts" "rt_addr t \<in> set (rt_addrs u)"
      by (metis imageE rt_addr_in)
    moreover have "rt_addr t \<in> set (rt_addrs t)" by simp
    ultimately have "set (rt_addrs t) \<inter> (\<Union>u \<in> set ts. set (rt_addrs u)) \<noteq> {}" by blast
    with Cons.prems show False by simp
  qed
  with Cons show ?case by auto
qed simp

lemma rt_addrs_disjoint:
  "distinct (concat (map rt_addrs ts)) \<Longrightarrow> t \<in> set ts \<Longrightarrow> u \<in> set ts \<Longrightarrow> t \<noteq> u \<Longrightarrow>
   set (rt_addrs t) \<inter> set (rt_addrs u) = {}"
  by (induction ts) auto

text \<open>A node that is not the root of a tree hangs in one of the children.\<close>

lemma kid_addr_root:
  assumes "distinct (concat (map rt_addrs ts))" "t \<in> set ts" "u \<in> set ts" "rt_addr u \<in> set (rt_addrs t)"
  shows "u = t"
  using rt_addrs_disjoint [OF assms(1-3)] assms(4) rt_addr_in [of u] by blast

text \<open>
  The frame rule.  A tree is untouched by an operation that keeps the headers of the tree, the
  fields of all its nodes but \<open>next\<close> and \<open>prev\<close>, and the links of all its nodes but the root.
\<close>

lemma tree_rep_frame:
  assumes "tree_rep h par t" and "rt_ok t"
    and "\<And>l. l \<in> set (rt_lists t) \<Longrightarrow> hp_lists h' l = hp_lists h l"
    and "\<And>a. a \<in> set (rt_addrs t) \<Longrightarrow> a \<noteq> rt_addr t \<Longrightarrow> hp_nodes h' a = hp_nodes h a"
    and "\<And>n. hp_nodes h (rt_addr t) = Some n \<Longrightarrow>
      \<exists>n'. hp_nodes h' (rt_addr t) = Some n' \<and> nd_parent n' = par' \<and> nd_children n' = nd_children n
        \<and> nd_data n' = nd_data n \<and> nd_count n' = nd_count n"
  shows "tree_rep h' par' t"
proof -
  obtain a l b d ts where t: "t = RT a l b d ts" by (cases t)
  have sub: "tree_rep h' (NodeP p) u" if "tree_rep h (NodeP p) u"
    "\<forall>l \<in> set (rt_lists u). hp_lists h' l = hp_lists h l"
    "\<forall>a \<in> set (rt_addrs u). hp_nodes h' a = hp_nodes h a" for p u
    using that
  proof (induction u arbitrary: p)
    case (RT a l b d ts)
    have "list_rep h l (first_prev b l) (map rt_addr ts)" using RT.prems(1) by simp
    then have "list_rep h' l (first_prev b l) (map rt_addr ts)"
    proof (rule list_rep_cong)
      show "hp_lists h' l = hp_lists h l" using RT.prems(2) by simp
      show "hp_nodes h' x = hp_nodes h x" if "x \<in> set (map rt_addr ts)" for x
        using RT.prems(3) that rt_addr_kid by blast
    qed
    moreover have "tree_rep h' (NodeP a) u" if u: "u \<in> set ts" for u
    proof (rule RT.IH [OF u])
      show "tree_rep h (NodeP a) u" using RT.prems(1) u by simp
      show "\<forall>l \<in> set (rt_lists u). hp_lists h' l = hp_lists h l" using RT.prems(2) u by simp
      show "\<forall>a \<in> set (rt_addrs u). hp_nodes h' a = hp_nodes h a" using RT.prems(3) u by simp
    qed
    ultimately show ?case using RT.prems(1,3) by simp
  qed
  have root: "u \<in> set ts \<Longrightarrow> x \<in> set (rt_addrs u) \<Longrightarrow> x \<noteq> a" for u x
    using rt_ok_kid(2) assms(2) t by blast
  have lists: "\<forall>l \<in> set (rt_lists t). hp_lists h' l = hp_lists h l" using assms(3) by blast
  have nodes: "\<forall>u \<in> set ts. \<forall>x \<in> set (rt_addrs u). hp_nodes h' x = hp_nodes h x"
    using assms(4) root t by auto
  have "list_rep h l (first_prev b l) (map rt_addr ts)" using assms(1) t by simp
  then have "list_rep h' l (first_prev b l) (map rt_addr ts)"
  proof (rule list_rep_cong)
    show "hp_lists h' l = hp_lists h l" using lists t by simp
    show "hp_nodes h' x = hp_nodes h x" if "x \<in> set (map rt_addr ts)" for x
      using that nodes by auto
  qed
  moreover have "tree_rep h' (NodeP a) u" if "u \<in> set ts" for u
    using sub [of a u] assms(1) t lists nodes that by simp
  moreover have "\<exists>n. hp_nodes h' a = Some n \<and> nd_parent n = par' \<and> nd_children n = ListP l \<and> nd_data n = d
        \<and> nd_count n = of_nat (length ts)"
    using assms(1,5) t by fastforce
  ultimately show ?thesis using t by auto
qed

lemma tree_rep_same:
  assumes "tree_rep h par t" and "rt_ok t"
    and "\<And>l. l \<in> set (rt_lists t) \<Longrightarrow> hp_lists h' l = hp_lists h l"
    and "\<And>a. a \<in> set (rt_addrs t) \<Longrightarrow> hp_nodes h' a = hp_nodes h a"
  shows "tree_rep h' par t"
proof (rule tree_rep_frame [OF assms(1,2)])
  show "\<exists>n'. hp_nodes h' (rt_addr t) = Some n' \<and> nd_parent n' = par \<and> nd_children n' = nd_children n
      \<and> nd_data n' = nd_data n \<and> nd_count n' = nd_count n" if "hp_nodes h (rt_addr t) = Some n" for n
    using that assms(1) assms(4) [of "rt_addr t"] by (cases t) auto
qed (use assms in auto)

lemma tree_rep_alloc: "tree_rep h par t \<Longrightarrow> a \<in> set (rt_addrs t) \<Longrightarrow> \<exists>n. hp_nodes h a = Some n"
  by (induction t arbitrary: par) auto

lemma tree_rep_alloc_list: "tree_rep h par t \<Longrightarrow> l \<in> set (rt_lists t) \<Longrightarrow> \<exists>n. hp_lists h l = Some n"
  by (induction t arbitrary: par) (auto elim: list_repE)

end
