(* ===== verification/Cnary_Ops.thy ===== *)
theory Cnary_Ops imports Cnary_Tree begin

text \<open>
  The effect of \<open>node_create\<close>, \<open>node_attach\<close>, \<open>node_insert\<close> and \<open>node_detach\<close> of
  \<open>cnary_node.c\<close> on the trees of the heap.  Each lemma gives the resulting tree, the nodes and
  headers that may have changed, and that nothing else of the heap did.
\<close>

section \<open>Frames of whole operations\<close>

definition heap_frame :: "nat set \<Rightarrow> nat set \<Rightarrow> 'd heap \<Rightarrow> 'd heap \<Rightarrow> bool" where
  "heap_frame A B h h' \<longleftrightarrow>
     (\<forall>a. a \<notin> A \<longrightarrow> hp_nodes h' a = hp_nodes h a) \<and> (\<forall>l. l \<notin> B \<longrightarrow> hp_lists h' l = hp_lists h l)"

lemma heap_frame_refl [simp]: "heap_frame A B h h"
  by (simp add: heap_frame_def)

lemma heap_frame_trans: "heap_frame A B h h' \<Longrightarrow> heap_frame A B h' h'' \<Longrightarrow> heap_frame A B h h''"
  by (simp add: heap_frame_def)

lemma heap_frame_mono: "heap_frame A B h h' \<Longrightarrow> A \<subseteq> A' \<Longrightarrow> B \<subseteq> B' \<Longrightarrow> heap_frame A' B' h h'"
  by (auto simp: heap_frame_def)

lemma links_only_frame: "links_only S l h h' \<Longrightarrow> heap_frame S {l} h h'"
  by (auto simp: heap_frame_def links_only_sel)

lemma tree_rep_heap_frame:
  assumes "tree_rep h par t" "rt_ok t" "heap_frame A B h h'"
    "A \<inter> set (rt_addrs t) = {}" "B \<inter> set (rt_lists t) = {}"
  shows "tree_rep h' par t"
  using assms(1,2) by (rule tree_rep_same) (use assms(3-5) in \<open>auto simp: heap_frame_def\<close>)

definition links_same :: "'d heap \<Rightarrow> 'd heap \<Rightarrow> nat \<Rightarrow> bool" where
  "links_same h h' p \<longleftrightarrow> (\<exists>n m. hp_nodes h p = Some n \<and> hp_nodes h' p = Some m
     \<and> nd_next m = nd_next n \<and> nd_prev m = nd_prev n)"

section \<open>Creating, attaching, inserting\<close>

lemma node_create_root:
  assumes "heap_ok h"
  obtains h' where "node_create h Null data = Some (h', NodeP (hp_fresh h))"
    and "tree_rep h' Null (RT (hp_fresh h) (Suc (hp_fresh h)) True data [])"
    and "heap_ok h'" "hp_fresh h' = Suc (Suc (hp_fresh h))" "hp_store h' = hp_store h"
    and "heap_frame {hp_fresh h} {Suc (hp_fresh h)} h h'"
    and "\<exists>n. hp_nodes h' (hp_fresh h) = Some n \<and> nd_isRoot n \<and> nd_next n = Null \<and> nd_prev n = Null
          \<and> nd_depth n = 0 \<and> nd_isLeaf n"
proof -
  let ?n = "\<lparr>nd_next = Null, nd_prev = Null, nd_count = 0, nd_isRoot = True,
     nd_isLeaf = True, nd_data = data, nd_depth = 0, nd_parent = Null, nd_children = ListP (Suc (hp_fresh h))\<rparr>"
  let ?h = "h\<lparr>hp_nodes := (hp_nodes h)(hp_fresh h \<mapsto> ?n),
     hp_lists := (hp_lists h)(Suc (hp_fresh h) \<mapsto>
        \<lparr>nl_begin = Null, nl_end = ListP (Suc (hp_fresh h)), nl_count = 0\<rparr>),
     hp_fresh := Suc (Suc (hp_fresh h))\<rparr>"
  have "node_create h Null data = Some (?h, NodeP (hp_fresh h))"
    by (simp add: node_create_def alloc_node_def node_list_create_def alloc_list_def list_init_def)
  then show thesis
    by (rule that) (use assms in \<open>auto simp: list_rep_def first_prev_def heap_ok_def heap_frame_def\<close>)
qed

text \<open>The common effect of \<open>node_attach\<close> and \<open>node_insert\<close>, given what the list operation did.\<close>

lemma adopt_tree:
  assumes par: "tree_rep h q (RT p l b d ts)" and child: "tree_rep h q' t"
    and ok: "rt_ok (RT p l b d (t # ts))"
    and np: "hp_nodes h p = Some np" and nc: "hp_nodes h (rt_addr t) = Some nc"
    and h1: "h1 = h\<lparr>hp_nodes := (hp_nodes h)(rt_addr t \<mapsto> nc', p \<mapsto> np')\<rparr>"
    and nc': "nd_parent nc' = NodeP p" "nd_children nc' = nd_children nc" "nd_data nc' = nd_data nc"
      "nd_count nc' = nd_count nc"
    and np': "nd_next np' = nd_next np" "nd_prev np' = nd_prev np"
    "nd_parent np' = nd_parent np" "nd_children np' = nd_children np" "nd_data np' = nd_data np"
      "nd_count np' = nd_count np"
    and links: "links_only (insert (rt_addr t) (rt_addr ` set ts)) l h1 h2"
    and rep: "list_rep h2 l (first_prev b' l) (map rt_addr ts')"
    and ts': "set ts' = insert t (set ts)" "length ts' = Suc (length ts)"
  shows "\<exists>h3. upd_node h2 (NodeP p) (\<lambda>n. n\<lparr>nd_count := nd_count n + 1\<rparr>) = Some h3
    \<and> tree_rep h3 q (RT p l b' d ts')
    \<and> heap_frame (insert p (insert (rt_addr t) (rt_addr ` set ts))) {l} h h3
    \<and> hp_store h3 = hp_store h \<and> hp_fresh h3 = hp_fresh h
    \<and> (\<exists>m. hp_nodes h3 (rt_addr t) = Some m \<and> nd_isRoot m = nd_isRoot nc')
    \<and> (\<exists>m. hp_nodes h3 p = Some m \<and> nd_next m = nd_next np \<and> nd_prev m = nd_prev np)"
proof -
  have kids: "rt_ok u" "p \<notin> set (rt_addrs u)" "l \<notin> set (rt_lists u)" if "u \<in> set (t # ts)" for u
    using rt_ok_kid [OF ok that] .
  have dist: "distinct (concat (map rt_addrs (t # ts)))" using ok by (simp add: rt_ok_def)
  have pne: "p \<noteq> rt_addr u" if "u \<in> set (t # ts)" for u
    using kids(2) [OF that] by auto
  have p2: "hp_nodes h2 p = Some np'"
    using links_only_sel(4) [OF links, of p] pne by (auto simp: h1)
  let ?h3 = "h2\<lparr>hp_nodes := (hp_nodes h2)(p \<mapsto> np'\<lparr>nd_count := nd_count np' + 1\<rparr>)\<rparr>"
  have sel: "hp_store ?h3 = hp_store h" "hp_fresh ?h3 = hp_fresh h"
    using links_only_sel(1,2) [OF links] by (simp_all add: h1)
  have lists: "hp_lists ?h3 l' = hp_lists h l'" if "l' \<noteq> l" for l'
    using links_only_sel(3) [OF links that] by (simp add: h1)
  have nodes: "hp_nodes ?h3 a = hp_nodes h a" if "a \<notin> insert p (rt_addr ` set (t # ts))" for a
    using links_only_sel(4) [OF links, of a] that by (auto simp: h1)
  have root: "\<exists>n'. hp_nodes ?h3 (rt_addr u) = Some n' \<and> core n' = core n"
    if "u \<in> set (t # ts)" "hp_nodes h1 (rt_addr u) = Some n" for u n
    using links_onlyD [OF links that(2)] pne [OF that(1)] by auto
  have inner: "hp_nodes ?h3 a = hp_nodes h a"
    if "u \<in> set (t # ts)" "a \<in> set (rt_addrs u)" "a \<noteq> rt_addr u" for u a
  proof (rule nodes)
    have "a \<noteq> rt_addr v" if "v \<in> set (t # ts)" for v
      using kid_addr_root [OF dist \<open>u \<in> set (t # ts)\<close> that] \<open>a \<in> set (rt_addrs u)\<close> \<open>a \<noteq> rt_addr u\<close> by auto
    moreover have "a \<noteq> p" using kids(2) [OF that(1)] that(2) by auto
    ultimately show "a \<notin> insert p (rt_addr ` set (t # ts))" by auto
  qed
  have sub: "tree_rep ?h3 (NodeP p) u" if u: "u \<in> set (t # ts)" for u
  proof -
    obtain q0 where q0: "tree_rep h q0 u" "u \<noteq> t \<Longrightarrow> q0 = NodeP p"
      using u par child by (cases "u = t") auto
    show ?thesis
    proof (rule tree_rep_frame [OF q0(1) kids(1) [OF u]])
      show "hp_lists ?h3 l' = hp_lists h l'" if "l' \<in> set (rt_lists u)" for l'
        using lists kids(3) [OF u] that by metis
      show "hp_nodes ?h3 a = hp_nodes h a" if "a \<in> set (rt_addrs u)" "a \<noteq> rt_addr u" for a
        using inner [OF u that] .
      show "\<exists>n'. hp_nodes ?h3 (rt_addr u) = Some n' \<and> nd_parent n' = NodeP p \<and> nd_children n' = nd_children n
          \<and> nd_data n' = nd_data n \<and> nd_count n' = nd_count n" if n: "hp_nodes h (rt_addr u) = Some n" for n
      proof (cases "u = t")
        case True
        with h1 pne [OF u] have "hp_nodes h1 (rt_addr u) = Some nc'" by simp
        from root [OF u this] obtain m where "hp_nodes ?h3 (rt_addr u) = Some m" "core m = core nc'"
          by blast
        then show ?thesis using True n nc nc' core_eqD [of m nc'] by simp
      next
        case False
        have "rt_addr u \<noteq> rt_addr t"
          using kid_addr_root [OF dist, of t u] u False by auto
        with h1 pne [OF u] n have "hp_nodes h1 (rt_addr u) = Some n" by simp
        moreover have "nd_parent n = NodeP p"
          using q0 False n by (cases u) auto
        moreover from root [OF u calculation(1)] obtain m
          where "hp_nodes ?h3 (rt_addr u) = Some m" "core m = core n" by blast
        ultimately show ?thesis using core_eqD [of m n] by simp
      qed
    qed
  qed
  have "list_rep ?h3 l (first_prev b' l) (map rt_addr ts')"
    using rep by (rule list_rep_cong) (use pne ts' in auto)
  moreover have "nd_count np' + 1 = of_nat (length ts')"
    using par np np' ts' by simp
  ultimately have "tree_rep ?h3 q (RT p l b' d ts')"
    using par np np' sub ts' by simp
  moreover have "upd_node h2 (NodeP p) (\<lambda>n. n\<lparr>nd_count := nd_count n + 1\<rparr>) = Some ?h3"
    using p2 by simp
  moreover have "heap_frame (insert p (insert (rt_addr t) (rt_addr ` set ts))) {l} h ?h3"
    using nodes lists by (auto simp: heap_frame_def)
  moreover from root [of t nc'] h1 pne [of t] obtain m
    where "hp_nodes ?h3 (rt_addr t) = Some m" "core m = core nc'" by auto
  then have "\<exists>m. hp_nodes ?h3 (rt_addr t) = Some m \<and> nd_isRoot m = nd_isRoot nc'"
    using core_eqD [of m nc'] by blast
  moreover have "\<exists>m. hp_nodes ?h3 p = Some m \<and> nd_next m = nd_next np \<and> nd_prev m = nd_prev np"
    using np' by simp
  ultimately show ?thesis using sel by blast
qed

text \<open>The assignments both functions make before the list operation.\<close>

lemma adopt_prefix:
  assumes par: "tree_rep h q (RT p l b d ts)" and child: "tree_rep h q' t"
    and ok: "rt_ok (RT p l b d (t # ts))"
  obtains np nc np' nc' h1 where "hp_nodes h p = Some np" "hp_nodes h (rt_addr t) = Some nc"
    "h1 = h\<lparr>hp_nodes := (hp_nodes h)(rt_addr t \<mapsto> nc', p \<mapsto> np')\<rparr>"
    "nd_parent nc' = NodeP p" "nd_children nc' = nd_children nc" "nd_data nc' = nd_data nc"
    "nd_count nc' = nd_count nc" "\<not> nd_isRoot nc'"
    "nd_next np' = nd_next np" "nd_prev np' = nd_prev np"
    "nd_parent np' = nd_parent np" "nd_children np' = nd_children np" "nd_data np' = nd_data np"
    "nd_count np' = nd_count np" "nd_children np' = ListP l"
    "list_rep h1 l (first_prev b l) (map rt_addr ts)" "rt_addr t \<notin> set (map rt_addr ts)"
    "hp_nodes h1 (rt_addr t) = Some nc'"
    "node_attach h (NodeP p) (NodeP (rt_addr t)) = do {
       (h, res) \<leftarrow> node_list_add h1 (ListP l) (NodeP (rt_addr t));
       h \<leftarrow> (if res = 0 then upd_node h (NodeP p) (\<lambda>n. n\<lparr>nd_count := nd_count n + 1\<rparr>) else Some h);
       Some (h, res) }"
    "\<And>i. node_insert h (NodeP p) i (NodeP (rt_addr t)) = do {
       (h, res) \<leftarrow> node_list_insert h1 (ListP l) i (NodeP (rt_addr t));
       h \<leftarrow> (if res = 0 then upd_node h (NodeP p) (\<lambda>n. n\<lparr>nd_count := nd_count n + 1\<rparr>) else Some h);
       Some (h, res) }"
proof -
  have pu: "p \<notin> set (rt_addrs u)" if "u \<in> set (t # ts)" for u
    using rt_ok_kid(2) [OF ok that] .
  then have pne: "p \<noteq> rt_addr u" if "u \<in> set (t # ts)" for u
    using that rt_addr_in [of u] by metis
  from par obtain np where np: "hp_nodes h p = Some np" "nd_children np = ListP l"
    and rep: "list_rep h l (first_prev b l) (map rt_addr ts)" by auto
  from child obtain nc where nc: "hp_nodes h (rt_addr t) = Some nc" by (cases t) auto
  have dist: "distinct (map rt_addr (t # ts))"
    by (rule distinct_map_addr) (use ok in \<open>simp add: rt_ok_def\<close>)
  define nc' where "nc' = nc\<lparr>nd_isLeaf := True, nd_isRoot := False, nd_parent := NodeP p,
      nd_depth := nd_depth np + 1\<rparr>"
  define np' where "np' = (if nd_isLeaf np then np\<lparr>nd_isLeaf := False\<rparr> else np)"
  define h1 where "h1 = h\<lparr>hp_nodes := (hp_nodes h)(rt_addr t \<mapsto> nc', p \<mapsto> np')\<rparr>"
  have rep1: "list_rep h1 l (first_prev b l) (map rt_addr ts)"
    using rep by (rule list_rep_cong) (use dist pne in \<open>auto simp: h1_def image_iff\<close>)
  have pt: "p \<noteq> rt_addr t" "rt_addr t \<noteq> p" using pne [of t] by auto
  show thesis
    by (rule that [of np nc h1 nc' np'])
      (use np nc dist rep1 pt in \<open>simp_all add: h1_def nc'_def np'_def node_attach_def node_insert_def\<close>)
qed

lemma node_attach_tree:
  assumes par: "tree_rep h q (RT p l b d ts)" and child: "tree_rep h q' t"
    and ok: "rt_ok (RT p l b d (t # ts))" and len: "Suc (length ts) < 2 ^ 32"
  shows "\<exists>h'. node_attach h (NodeP p) (NodeP (rt_addr t)) = Some (h', 0)
    \<and> tree_rep h' q (RT p l (if ts = [] then True else b) d (ts @ [t]))
    \<and> heap_frame (insert p (insert (rt_addr t) (rt_addr ` set ts))) {l} h h'
    \<and> hp_store h' = hp_store h \<and> hp_fresh h' = hp_fresh h
    \<and> (\<exists>m. hp_nodes h' (rt_addr t) = Some m \<and> \<not> nd_isRoot m)
    \<and> links_same h h' p"
proof -
  obtain np nc np' nc' h1 where
    pre: "hp_nodes h p = Some np" "hp_nodes h (rt_addr t) = Some nc"
    "h1 = h\<lparr>hp_nodes := (hp_nodes h)(rt_addr t \<mapsto> nc', p \<mapsto> np')\<rparr>"
    "nd_parent nc' = NodeP p" "nd_children nc' = nd_children nc" "nd_data nc' = nd_data nc"
    "nd_count nc' = nd_count nc"
    "nd_next np' = nd_next np" "nd_prev np' = nd_prev np"
    "nd_parent np' = nd_parent np" "nd_children np' = nd_children np" "nd_data np' = nd_data np"
    "nd_count np' = nd_count np" and rest: "\<not> nd_isRoot nc'" "nd_children np' = ListP l"
    "list_rep h1 l (first_prev b l) (map rt_addr ts)" "rt_addr t \<notin> set (map rt_addr ts)"
    "hp_nodes h1 (rt_addr t) = Some nc'"
    and eq: "node_attach h (NodeP p) (NodeP (rt_addr t)) = do {
       (h, res) \<leftarrow> node_list_add h1 (ListP l) (NodeP (rt_addr t));
       h \<leftarrow> (if res = 0 then upd_node h (NodeP p) (\<lambda>n. n\<lparr>nd_count := nd_count n + 1\<rparr>) else Some h);
       Some (h, res) }"
    by (rule adopt_prefix [OF par child ok]) (rule that, assumption+)
  from node_list_add_rep [OF rest(3) rest(5) rest(4)] len obtain h2 where
    h2: "node_list_add h1 (ListP l) (NodeP (rt_addr t)) = Some (h2, 0)"
    "list_rep h2 l (if map rt_addr ts = [] then ListP l else first_prev b l) (map rt_addr ts @ [rt_addr t])"
    "links_only (insert (rt_addr t) (set (map rt_addr ts))) l h1 h2" by auto
  have rep2: "list_rep h2 l (first_prev (if ts = [] then True else b) l) (map rt_addr (ts @ [t]))"
    using h2(2) by (auto simp: first_prev_def split: if_splits)
  show ?thesis
    using adopt_tree [OF par child ok pre h2(3) [unfolded set_map] rep2] h2(1) eq rest(1) pre(1)
    by (auto simp: links_same_def)
qed

lemma node_insert_tree:
  assumes par: "tree_rep h q (RT p l b d ts)" and child: "tree_rep h q' t"
    and ok: "rt_ok (RT p l b d (t # ts))" and len: "Suc (length ts) < 2 ^ 32"
  shows "\<exists>h'. node_insert h (NodeP p) i (NodeP (rt_addr t)) = Some (h', 0)
    \<and> tree_rep h' q (RT p l (if ts = [] then True else if i = 0 then False else b) d
                        (take (unat i) ts @ t # drop (unat i) ts))
    \<and> heap_frame (insert p (insert (rt_addr t) (rt_addr ` set ts))) {l} h h'
    \<and> hp_store h' = hp_store h \<and> hp_fresh h' = hp_fresh h
    \<and> (\<exists>m. hp_nodes h' (rt_addr t) = Some m \<and> \<not> nd_isRoot m)
    \<and> links_same h h' p"
proof -
  obtain np nc np' nc' h1 where
    pre: "hp_nodes h p = Some np" "hp_nodes h (rt_addr t) = Some nc"
    "h1 = h\<lparr>hp_nodes := (hp_nodes h)(rt_addr t \<mapsto> nc', p \<mapsto> np')\<rparr>"
    "nd_parent nc' = NodeP p" "nd_children nc' = nd_children nc" "nd_data nc' = nd_data nc"
    "nd_count nc' = nd_count nc"
    "nd_next np' = nd_next np" "nd_prev np' = nd_prev np"
    "nd_parent np' = nd_parent np" "nd_children np' = nd_children np" "nd_data np' = nd_data np"
    "nd_count np' = nd_count np" and rest: "\<not> nd_isRoot nc'" "nd_children np' = ListP l"
    "list_rep h1 l (first_prev b l) (map rt_addr ts)" "rt_addr t \<notin> set (map rt_addr ts)"
    "hp_nodes h1 (rt_addr t) = Some nc'"
    and eq: "\<And>i. node_insert h (NodeP p) i (NodeP (rt_addr t)) = do {
       (h, res) \<leftarrow> node_list_insert h1 (ListP l) i (NodeP (rt_addr t));
       h \<leftarrow> (if res = 0 then upd_node h (NodeP p) (\<lambda>n. n\<lparr>nd_count := nd_count n + 1\<rparr>) else Some h);
       Some (h, res) }"
    by (rule adopt_prefix [OF par child ok]) (rule that, assumption+)
  obtain h2 where
    h2: "node_list_insert h1 (ListP l) i (NodeP (rt_addr t)) = Some (h2, 0)"
    "list_rep h2 l (first_prev (if ts = [] then True else if i = 0 then False else b) l)
       (map rt_addr (take (unat i) ts @ t # drop (unat i) ts))"
    "links_only (insert (rt_addr t) (rt_addr ` set ts)) l h1 h2"
  proof (cases "unat i < length ts")
    case True
    obtain h2 where h2: "node_list_insert h1 (ListP l) i (NodeP (rt_addr t)) = Some (h2, 0)"
      "list_rep h2 l (if i = 0 then Null else first_prev b l)
         (take (unat i) (map rt_addr ts) @ rt_addr t # drop (unat i) (map rt_addr ts))"
      "links_only (insert (rt_addr t) (set (map rt_addr ts))) l h1 h2"
      using True len by (auto intro: node_list_insert_rep [OF rest(3) rest(5) rest(4), of i])
    have "ts \<noteq> []" using True by auto
    with h2(2) have "list_rep h2 l (first_prev (if ts = [] then True else if i = 0 then False else b) l)
       (map rt_addr (take (unat i) ts @ t # drop (unat i) ts))"
      by (cases "i = 0") (simp_all add: first_prev_def take_map drop_map)
    then show thesis using h2(1,3) that by simp
  next
    case False
    then have i0: "ts \<noteq> [] \<Longrightarrow> i \<noteq> 0" by auto
    obtain h2 where h2: "node_list_add h1 (ListP l) (NodeP (rt_addr t)) = Some (h2, 0)"
      "list_rep h2 l (if map rt_addr ts = [] then ListP l else first_prev b l) (map rt_addr ts @ [rt_addr t])"
      "links_only (insert (rt_addr t) (set (map rt_addr ts))) l h1 h2"
      using len by (auto intro: node_list_add_rep [OF rest(3) rest(5) rest(4)])
    have "list_rep h2 l (first_prev (if ts = [] then True else if i = 0 then False else b) l)
       (map rt_addr (take (unat i) ts @ t # drop (unat i) ts))"
      using h2(2) i0 False by (cases "ts = []") (simp_all add: first_prev_def)
    moreover have "node_list_insert h1 (ListP l) i (NodeP (rt_addr t)) = Some (h2, 0)"
      using node_list_insert_end [OF rest(3), of i "rt_addr t"] False h2(1) by simp
    ultimately show thesis using h2(3) that by simp
  qed
  have ts': "set (take (unat i) ts @ t # drop (unat i) ts) = insert t (set ts)"
    by (metis append_take_drop_id insert_is_Un list.simps(15) set_append sup_left_commute)
  have len': "length (take (unat i) ts @ t # drop (unat i) ts) = Suc (length ts)" by simp
  from adopt_tree [OF par child ok pre h2(3) h2(2) ts' len'] obtain h3 where
    h3: "upd_node h2 (NodeP p) (\<lambda>n. n\<lparr>nd_count := nd_count n + 1\<rparr>) = Some h3"
    and rest3: "tree_rep h3 q (RT p l (if ts = [] then True else if i = 0 then False else b) d
        (take (unat i) ts @ t # drop (unat i) ts))
      \<and> heap_frame (insert p (insert (rt_addr t) (rt_addr ` set ts))) {l} h h3
      \<and> hp_store h3 = hp_store h \<and> hp_fresh h3 = hp_fresh h
      \<and> (\<exists>m. hp_nodes h3 (rt_addr t) = Some m \<and> nd_isRoot m = nd_isRoot nc')"
    and links: "\<exists>m. hp_nodes h3 p = Some m \<and> nd_next m = nd_next np \<and> nd_prev m = nd_prev np" by blast
  have "links_same h h3 p" using links pre(1) by (simp add: links_same_def)
  moreover have "node_insert h (NodeP p) i (NodeP (rt_addr t)) = Some (h3, 0)"
    by (simp add: eq h2(1) h3)
  ultimately show ?thesis using rest3 rest(1) by blast
qed

section \<open>Detaching\<close>

lemma links_only_tree:
  assumes "tree_rep h (NodeP p) u" "links_only (rt_addr ` set ts) l h h'" "u \<in> set ts"
    and "rt_ok (RT p l b d ts)"
  shows "tree_rep h' (NodeP p) u"
proof -
  have dist: "distinct (concat (map rt_addrs ts))" using assms(4) by (simp add: rt_ok_def)
  show ?thesis
  proof (rule tree_rep_frame [OF assms(1)])
    show "rt_ok u" using rt_ok_kid(1) [OF assms(4,3)] .
    show "hp_lists h' l' = hp_lists h l'" if "l' \<in> set (rt_lists u)" for l'
      using links_only_sel(3) [OF assms(2), of l'] rt_ok_kid(3) [OF assms(4,3)] that by auto
    show "hp_nodes h' a = hp_nodes h a" if "a \<in> set (rt_addrs u)" "a \<noteq> rt_addr u" for a
    proof -
      have "a \<noteq> rt_addr v" if "v \<in> set ts" for v
        using kid_addr_root [OF dist assms(3) that] \<open>a \<in> set (rt_addrs u)\<close> \<open>a \<noteq> rt_addr u\<close> by auto
      then show ?thesis using links_only_sel(4) [OF assms(2), of a] by blast
    qed
    show "\<exists>n'. hp_nodes h' (rt_addr u) = Some n' \<and> nd_parent n' = NodeP p \<and> nd_children n' = nd_children n
        \<and> nd_data n' = nd_data n \<and> nd_count n' = nd_count n" if n: "hp_nodes h (rt_addr u) = Some n" for n
    proof -
      have "nd_parent n = NodeP p" using n assms(1) by (cases u) auto
      moreover obtain m where "hp_nodes h' (rt_addr u) = Some m" "core m = core n"
        by (rule links_onlyD [OF assms(2) n])
      ultimately show ?thesis using core_eqD [of m n] by auto
    qed
  qed
qed

lemma node_detach_tree:
  assumes par: "tree_rep h q (RT p l b d (us @ t # vs))" and ok: "rt_ok (RT p l b d (us @ t # vs))"
    and tail: "us = [] \<Longrightarrow> vs = [] \<Longrightarrow> b"
  shows "\<exists>h'. node_detach h (NodeP p) (NodeP (rt_addr t)) = Some (h', 0)
    \<and> tree_rep h' q (RT p l b d (us @ vs)) \<and> tree_rep h' (NodeP p) t
    \<and> heap_frame (insert p (rt_addr ` set (us @ t # vs))) {l} h h'
    \<and> hp_store h' = hp_store h \<and> hp_fresh h' = hp_fresh h"
proof -
  from par obtain np where np: "hp_nodes h p = Some np" "nd_children np = ListP l" "nd_parent np = q"
      "nd_data np = d" "nd_count np = of_nat (length (us @ t # vs))"
    and rep: "list_rep h l (first_prev b l) (map rt_addr us @ rt_addr t # map rt_addr vs)" by auto
  obtain h2 where h2: "node_list_remove h (ListP l) (NodeP (rt_addr t)) = Some (h2, 0)"
      "list_rep h2 l (first_prev b l) (map rt_addr us @ map rt_addr vs)"
      "links_only (set (map rt_addr us @ rt_addr t # map rt_addr vs)) l h h2"
    using node_list_remove_rep [OF rep] tail by (auto simp: first_prev_def)
  let ?ts = "us @ t # vs"
  have links: "links_only (rt_addr ` set ?ts) l h h2" using h2(3) by (simp add: image_Un)
  have kids: "rt_ok u" "p \<notin> set (rt_addrs u)" "l \<notin> set (rt_lists u)" if "u \<in> set ?ts" for u
    using rt_ok_kid [OF ok that] .
  have pne: "p \<noteq> rt_addr u" if "u \<in> set ?ts" for u
    using kids(2) [OF that] rt_addr_in [of u] by metis
  have p2: "hp_nodes h2 p = Some np"
    using links_only_sel(4) [OF links, of p] pne np(1) by auto
  let ?h3 = "h2\<lparr>hp_nodes := (hp_nodes h2)(p \<mapsto> np\<lparr>nd_count := nd_count np - 1\<rparr>)\<rparr>"
  have sub: "tree_rep ?h3 (NodeP p) u" if u: "u \<in> set ?ts" for u
  proof -
    have "tree_rep h2 (NodeP p) u"
      using links_only_tree [OF _ links u ok] par u by auto
    then show ?thesis
      by (rule tree_rep_heap_frame [OF _ kids(1) [OF u], where A = "{p}" and B = "{}"])
        (use kids(2) [OF u] in \<open>auto simp: heap_frame_def\<close>)
  qed
  have "list_rep ?h3 l (first_prev b l) (map rt_addr (us @ vs))"
    using h2(2) unfolding map_append by (rule list_rep_cong) (use pne in auto)
  then have "tree_rep ?h3 q (RT p l b d (us @ vs))"
    using np sub by simp
  moreover have "node_detach h (NodeP p) (NodeP (rt_addr t)) = Some (?h3, 0)"
    using np h2(1) p2 by (simp add: node_detach_def)
  moreover have "heap_frame (insert p (rt_addr ` set ?ts)) {l} h ?h3"
    using links_only_sel(3,4) [OF links] by (auto simp: heap_frame_def)
  moreover have "hp_store ?h3 = hp_store h" "hp_fresh ?h3 = hp_fresh h"
    using links_only_sel(1,2) [OF links] by simp_all
  moreover have "tree_rep ?h3 (NodeP p) t" using sub by simp
  ultimately show ?thesis by blast
qed

end
