(* ===== verification/Cnary_Destroy.thy ===== *)
theory Cnary_Destroy imports Cnary_Ops begin

text \<open>
  \<open>node_destroy\<close> of \<open>cnary_node.c\<close>: with fuel for twice the number of nodes it frees exactly the
  nodes and the list headers of the tree, each once, and changes nothing else.
\<close>

section \<open>Destroying\<close>

text \<open>While a node is being destroyed its list header may be stale, so only the chain is kept.\<close>

definition chain_rep :: "'d heap \<Rightarrow> nat \<Rightarrow> nat list \<Rightarrow> bool" where
  "chain_rep h l xs \<longleftrightarrow>
     (xs = [] \<and> (\<exists>L. hp_lists h l = Some L \<and> nl_begin L = Null))
     \<or> (\<exists>pr. list_rep h l pr xs)"

lemma chain_rep_begin:
  "chain_rep h l xs \<Longrightarrow> \<exists>L. hp_lists h l = Some L \<and> nl_begin L = (case xs of [] \<Rightarrow> Null | x # _ \<Rightarrow> NodeP x)"
  by (auto simp: chain_rep_def elim!: list_repE split: list.split)

lemma chain_rep_remove:
  assumes "chain_rep h l (x # xs)"
  obtains h' where "node_list_remove h (ListP l) (NodeP x) = Some (h', 0)" "chain_rep h' l xs"
    "links_only (set (x # xs)) l h h'"
proof -
  from assms obtain pr where rep: "list_rep h l pr (x # xs)" by (auto simp: chain_rep_def)
  show thesis
  proof (cases "xs = [] \<and> pr = Null")
    case True
    with rep have "list_rep h l Null [x]" by simp
    then obtain h' where "node_list_remove h (ListP l) (NodeP x) = Some (h', 0)"
      "hp_lists h' l = Some \<lparr>nl_begin = Null, nl_end = NodeP x, nl_count = 0\<rparr>"
      "links_only {x} l h h'" by (rule node_list_remove_last_null)
    with True show thesis by (intro that [of h']) (auto simp: chain_rep_def)
  next
    case False
    with rep have "pr = ListP l" if "xs = []" using that by (auto elim: list_repE)
    then show thesis
      using node_list_remove_rep [of h l pr "[]" x xs] rep that by (fastforce simp: chain_rep_def)
  qed
qed

lemma chain_rep_cong:
  "chain_rep h l xs \<Longrightarrow> hp_lists h' l = hp_lists h l \<Longrightarrow>
   (\<And>x. x \<in> set xs \<Longrightarrow> hp_nodes h' x = hp_nodes h x) \<Longrightarrow> chain_rep h' l xs"
  using list_rep_cong [of h l _ xs h'] unfolding chain_rep_def by metis

text \<open>What is left when the given nodes and headers have been freed\<close>

definition freed :: "nat set \<Rightarrow> nat set \<Rightarrow> 'd heap \<Rightarrow> 'd heap \<Rightarrow> bool" where
  "freed A B h h' \<longleftrightarrow>
     (\<forall>a. hp_nodes h' a = (if a \<in> A then None else hp_nodes h a))
     \<and> (\<forall>l. hp_lists h' l = (if l \<in> B then None else hp_lists h l))
     \<and> hp_store h' = hp_store h \<and> hp_fresh h' = hp_fresh h"

lemma freed_frame: "freed A B h h' \<Longrightarrow> heap_frame A B h h'"
  by (simp add: freed_def heap_frame_def)

lemma rt_ok_Cons:
  "rt_ok (RT p l b d (t # ts)) \<Longrightarrow> rt_ok (RT p l b d ts)"
  by (auto simp: rt_ok_def)

lemma rt_ok_disjoint:
  assumes "rt_ok (RT p l b d (t # ts))" "u \<in> set ts"
  shows "set (rt_addrs t) \<inter> set (rt_addrs u) = {}" "set (rt_lists t) \<inter> set (rt_lists u) = {}"
  using assms by (auto simp: rt_ok_def)

text \<open>The trees of a list of siblings: one round of the loop of \<open>node_destroy\<close>.\<close>

lemma destroy_round:
  assumes n: "hp_nodes h p = Some n" "nd_children n = ListP l"
    and chain: "chain_rep h l (map rt_addr (t # ts))"
    and trees: "\<forall>u \<in> set (t # ts). tree_rep h (NodeP p) u" and ok: "rt_ok (RT p l b d (t # ts))"
  obtains h1 where "node_list_remove h (ListP l) (NodeP (rt_addr t)) = Some (h1, 0)"
    "tree_rep h1 (NodeP p) t"
    "links_only (rt_addr ` set (t # ts)) l h h1"
    "\<And>h2. freed (set (rt_addrs t)) (set (rt_lists t)) h1 h2 \<Longrightarrow>
       hp_nodes h2 p = Some n \<and> chain_rep h2 l (map rt_addr ts) \<and> (\<forall>u \<in> set ts. tree_rep h2 (NodeP p) u)"
proof -
  from chain obtain h1 where h1: "node_list_remove h (ListP l) (NodeP (rt_addr t)) = Some (h1, 0)"
    "chain_rep h1 l (map rt_addr ts)" "links_only (set (map rt_addr (t # ts))) l h h1"
    by (auto elim: chain_rep_remove)
  have links: "links_only (rt_addr ` set (t # ts)) l h h1" using h1(3) by simp
  have trees1: "tree_rep h1 (NodeP p) u" if "u \<in> set (t # ts)" for u
    using links_only_tree [OF _ links that ok] trees that by blast
  have pne: "p \<notin> set (rt_addrs u)" if "u \<in> set (t # ts)" for u
    using rt_ok_kid(2) [OF ok that] .
  then have "p \<notin> rt_addr ` set (t # ts)" using rt_addr_in by blast
  then have p1: "hp_nodes h1 p = Some n"
    using links_only_sel(4) [OF links, of p] n by simp
  have after: "hp_nodes h2 p = Some n \<and> chain_rep h2 l (map rt_addr ts) \<and> (\<forall>u \<in> set ts. tree_rep h2 (NodeP p) u)"
    if f: "freed (set (rt_addrs t)) (set (rt_lists t)) h1 h2" for h2
  proof (intro conjI ballI)
    show "hp_nodes h2 p = Some n" using f p1 pne [of t] by (simp add: freed_def)
    show "chain_rep h2 l (map rt_addr ts)" using h1(2)
    proof (rule chain_rep_cong)
      show "hp_lists h2 l = hp_lists h1 l" using f rt_ok_kid(3) [OF ok, of t] by (simp add: freed_def)
      show "hp_nodes h2 x = hp_nodes h1 x" if x: "x \<in> set (map rt_addr ts)" for x
      proof -
        obtain u where "u \<in> set ts" "x \<in> set (rt_addrs u)" using x by auto
        then have "x \<notin> set (rt_addrs t)" using rt_ok_disjoint(1) [OF ok] by blast
        then show ?thesis using f by (simp add: freed_def)
      qed
    qed
    show "tree_rep h2 (NodeP p) u" if "u \<in> set ts" for u
      by (rule tree_rep_heap_frame [OF trees1 _ freed_frame [OF f]])
        (use that rt_ok_kid(1) [OF ok] rt_ok_disjoint [OF ok that] in auto)
  qed
  show thesis using that [OF h1(1) trees1 links after] by simp
qed

text \<open>What the loop of \<open>node_destroy\<close> leaves: the header \<open>l\<close>, with no child and no descendant.\<close>

definition kids_freed :: "nat \<Rightarrow> rtree list \<Rightarrow> 'd heap \<Rightarrow> 'd heap \<Rightarrow> bool" where
  "kids_freed l ts h h' \<longleftrightarrow>
     (\<forall>a. hp_nodes h' a = (if a \<in> set (concat (map rt_addrs ts)) then None else hp_nodes h a))
     \<and> (\<forall>l'. l' \<noteq> l \<longrightarrow> hp_lists h' l' = (if l' \<in> set (concat (map rt_lists ts)) then None else hp_lists h l'))
     \<and> hp_lists h' l \<noteq> None \<and> hp_store h' = hp_store h \<and> hp_fresh h' = hp_fresh h"

lemma rt_size_pos: "0 < rt_size t"
  by (cases t) auto

lemma destroy_node_step:
  assumes IH: "\<And>(h::'d heap) p n l b d ts. hp_nodes h p = Some n \<Longrightarrow> nd_children n = ListP l \<Longrightarrow>
      chain_rep h l (map rt_addr ts) \<Longrightarrow> (\<forall>u \<in> set ts. tree_rep h (NodeP p) u) \<Longrightarrow>
      rt_ok (RT p l b d ts) \<Longrightarrow> Suc (2 * sum_list (map rt_size ts)) \<le> f \<Longrightarrow>
      \<exists>h'. node_destroy_children f h (NodeP p) = Some h' \<and> kids_freed l ts h h'"
    and rep: "tree_rep (h::'d heap) q t" and ok: "rt_ok t" and fuel: "2 * rt_size t \<le> Suc f"
  shows "\<exists>h'. node_destroy (Suc f) h (NodeP (rt_addr t)) = Some h'
    \<and> freed (set (rt_addrs t)) (set (rt_lists t)) h h'"
proof -
  obtain p l b d ts where t: "t = RT p l b d ts" by (cases t)
  from rep t obtain n where n: "hp_nodes h p = Some n" "nd_children n = ListP l" by auto
  from rep t obtain L where L: "hp_lists h l = Some L" "nl_count L = of_nat (length ts)" "length ts < 2 ^ 32"
    by (auto elim!: list_repE)
  have pn: "p \<notin> set (concat (map rt_addrs ts))" "l \<notin> set (concat (map rt_lists ts))"
    using ok t by (auto simp: rt_ok_def)
  obtain h1 where h1: "(if nl_count L > 0 then node_destroy_children f h (NodeP p) else Some h) = Some h1"
    "kids_freed l ts h h1"
  proof (cases "ts = []")
    case True
    then show thesis using L that [of h] by (simp add: kids_freed_def)
  next
    case False
    then have "nl_count L > 0" using L(2,3) by (simp add: word_less_nat_alt unat_of_nat_u32)
    moreover have "chain_rep h l (map rt_addr ts)" "\<forall>u \<in> set ts. tree_rep h (NodeP p) u"
      using rep t by (auto simp: chain_rep_def)
    then have "\<exists>h'. node_destroy_children f h (NodeP p) = Some h' \<and> kids_freed l ts h h'"
      using n ok t fuel by (intro IH [of h p n l ts b d]) auto
    ultimately show thesis using that by auto
  qed
  have p1: "hp_nodes h1 p = Some n" using h1(2) pn n by (simp add: kids_freed_def)
  have l1: "hp_lists h1 l \<noteq> None" using h1(2) by (simp add: kids_freed_def)
  let ?h = "h1\<lparr>hp_lists := (hp_lists h1)(l := None), hp_nodes := (hp_nodes h1)(p := None)\<rparr>"
  have "node_destroy (Suc f) h (NodeP (rt_addr t)) = Some ?h"
    using n t L(1) h1(1) l1 p1
    by (auto simp: node_list_destroy_def list_destroy_def free_list_def free_node_def)
  moreover have "freed (set (rt_addrs t)) (set (rt_lists t)) h ?h"
    using h1(2) t by (auto simp: freed_def kids_freed_def)
  ultimately show ?thesis by blast
qed

lemma kids_freed_step:
  assumes "freed (set (rt_addrs t)) (set (rt_lists t)) h1 h2" "links_only (rt_addr ` set (t # us)) l h h1"
    "kids_freed l us h2 h'"
  shows "kids_freed l (t # us) h h'"
proof -
  have roots: "rt_addr ` set (t # us) \<subseteq> set (concat (map rt_addrs (t # us)))"
    using rt_addr_in unfolding set_concat set_map by blast
  have "hp_nodes h' a = (if a \<in> set (concat (map rt_addrs (t # us))) then None else hp_nodes h a)" for a
    using assms(1,3) links_only_sel(4) [OF assms(2), of a] roots
    by (cases "a \<in> rt_addr ` set (t # us)") (auto simp: freed_def kids_freed_def)
  moreover have "hp_lists h' l' = (if l' \<in> set (concat (map rt_lists (t # us))) then None else hp_lists h l')"
    if "l' \<noteq> l" for l'
    using assms(1,3) links_only_sel(3) [OF assms(2) that] that by (auto simp: freed_def kids_freed_def)
  ultimately show ?thesis
    using assms links_only_sel(1,2) [OF assms(2)] unfolding kids_freed_def freed_def by presburger
qed

lemma destroy_children_step:
  assumes IH1: "\<And>(h::'d heap) q t. tree_rep h q t \<Longrightarrow> rt_ok t \<Longrightarrow> 2 * rt_size t \<le> f \<Longrightarrow>
      \<exists>h'. node_destroy f h (NodeP (rt_addr t)) = Some h' \<and> freed (set (rt_addrs t)) (set (rt_lists t)) h h'"
    and IH2: "\<And>(h::'d heap) p n l b d ts. hp_nodes h p = Some n \<Longrightarrow> nd_children n = ListP l \<Longrightarrow>
      chain_rep h l (map rt_addr ts) \<Longrightarrow> (\<forall>u \<in> set ts. tree_rep h (NodeP p) u) \<Longrightarrow>
      rt_ok (RT p l b d ts) \<Longrightarrow> Suc (2 * sum_list (map rt_size ts)) \<le> f \<Longrightarrow>
      \<exists>h'. node_destroy_children f h (NodeP p) = Some h' \<and> kids_freed l ts h h'"
    and n: "hp_nodes (h::'d heap) p = Some n" "nd_children n = ListP l" and chain: "chain_rep h l (map rt_addr ts)"
    and trees: "\<forall>u \<in> set ts. tree_rep h (NodeP p) u"
    and ok: "rt_ok (RT p l b d ts)" and fuel: "Suc (2 * sum_list (map rt_size ts)) \<le> Suc f"
  shows "\<exists>h'. node_destroy_children (Suc f) h (NodeP p) = Some h' \<and> kids_freed l ts h h'"
proof (cases ts)
  case Nil
  with chain_rep_begin [OF chain] n show ?thesis by (intro exI [of _ h]) (auto simp: kids_freed_def)
next
  case (Cons t us)
  from destroy_round [OF n chain [unfolded Cons] trees [unfolded Cons] ok [unfolded Cons]]
  obtain h1 where h1: "node_list_remove h (ListP l) (NodeP (rt_addr t)) = Some (h1, 0)"
    "tree_rep h1 (NodeP p) t" "links_only (rt_addr ` set (t # us)) l h h1"
    "\<And>h2. freed (set (rt_addrs t)) (set (rt_lists t)) h1 h2 \<Longrightarrow>
     hp_nodes h2 p = Some n \<and> chain_rep h2 l (map rt_addr us) \<and> (\<forall>u \<in> set us. tree_rep h2 (NodeP p) u)"
    by blast
  have "\<exists>h2. node_destroy f h1 (NodeP (rt_addr t)) = Some h2
      \<and> freed (set (rt_addrs t)) (set (rt_lists t)) h1 h2"
    using IH1 [OF h1(2)] rt_ok_kid(1) [OF ok] fuel Cons by simp
  then obtain h2 where h2: "node_destroy f h1 (NodeP (rt_addr t)) = Some h2"
    "freed (set (rt_addrs t)) (set (rt_lists t)) h1 h2" by blast
  have "rt_ok (RT p l b d us)" using ok Cons rt_ok_Cons by blast
  moreover have "Suc (2 * sum_list (map rt_size us)) \<le> f" using fuel Cons rt_size_pos [of t] by simp
  ultimately obtain h' where h': "node_destroy_children f h2 (NodeP p) = Some h'" "kids_freed l us h2 h'"
    using h1(4) [OF h2(2)] n IH2 [of h2 p n l us b d] by blast
  have "node_destroy_children (Suc f) h (NodeP p) = Some h'"
    using n chain_rep_begin [OF chain] Cons h1(1) h2(1) h'(1) by auto
  then show ?thesis using kids_freed_step [OF h2(2) h1(3) h'(2)] Cons by blast
qed

lemma node_destroy_aux:
  "(\<forall>(h::'d heap) q t. tree_rep h q t \<longrightarrow> rt_ok t \<longrightarrow> 2 * rt_size t \<le> f \<longrightarrow>
      (\<exists>h'. node_destroy f h (NodeP (rt_addr t)) = Some h'
        \<and> freed (set (rt_addrs t)) (set (rt_lists t)) h h'))
   \<and> (\<forall>(h::'d heap) p n l b d ts. hp_nodes h p = Some n \<longrightarrow> nd_children n = ListP l \<longrightarrow>
      chain_rep h l (map rt_addr ts) \<longrightarrow> (\<forall>u \<in> set ts. tree_rep h (NodeP p) u) \<longrightarrow>
      rt_ok (RT p l b d ts) \<longrightarrow> Suc (2 * sum_list (map rt_size ts)) \<le> f \<longrightarrow>
      (\<exists>h'. node_destroy_children f h (NodeP p) = Some h' \<and> kids_freed l ts h h'))"
proof (induction f)
  case 0
  show ?case using rt_size_pos by simp
next
  case (Suc f)
  note IH1 = Suc.IH [THEN conjunct1, rule_format]
  note IH2 = Suc.IH [THEN conjunct2, rule_format (no_asm)]
  show ?case
  proof (intro conjI allI impI)
    fix h :: "'d heap" and q t
    assume "tree_rep h q t" "rt_ok t" "2 * rt_size t \<le> Suc f"
    then show "\<exists>h'. node_destroy (Suc f) h (NodeP (rt_addr t)) = Some h'
        \<and> freed (set (rt_addrs t)) (set (rt_lists t)) h h'"
      by (rule destroy_node_step [OF IH2, rotated -3])
  next
    fix h :: "'d heap" and p n l b d ts
    assume "hp_nodes h p = Some n" "nd_children n = ListP l" "chain_rep h l (map rt_addr ts)"
      "\<forall>u \<in> set ts. tree_rep h (NodeP p) u" "rt_ok (RT p l b d ts)"
      "Suc (2 * sum_list (map rt_size ts)) \<le> Suc f"
    then show "\<exists>h'. node_destroy_children (Suc f) h (NodeP p) = Some h' \<and> kids_freed l ts h h'"
      by (rule destroy_children_step [OF IH1 IH2, rotated -6])
  qed
qed

lemma node_destroy_tree:
  assumes "tree_rep h q t" "rt_ok t" "2 * rt_size t \<le> f"
  obtains h' where "node_destroy f h (NodeP (rt_addr t)) = Some h'"
    "freed (set (rt_addrs t)) (set (rt_lists t)) h h'"
  using node_destroy_aux [of f] assms by blast

end
