(* ===== verification/Cnary_Copy.thy ===== *)
theory Cnary_Copy imports Cnary_Destroy begin

text \<open>
  \<open>node_copy_deep\<close> of \<open>cnary_node.c\<close>, under the contract of its \<open>copy_func\<close> argument (the locale
  \<open>data_copier\<close>): with fuel for twice the number of nodes it builds a tree of the same shape and
  values on fresh addresses, and leaves everything that was allocated alone.
\<close>

lemma heap_ok_frame:
  assumes "heap_ok h" "heap_frame A B h h'" "hp_fresh h' = hp_fresh h"
    "\<And>a. a \<in> A \<Longrightarrow> hp_nodes h a \<noteq> None" "\<And>l. l \<in> B \<Longrightarrow> hp_lists h l \<noteq> None"
  shows "heap_ok h'"
  using assms unfolding heap_ok_def heap_frame_def by metis

definition rt_foot :: "rtree \<Rightarrow> nat set" where
  "rt_foot t = set (rt_addrs t) \<union> set (rt_lists t)"

lemma rt_foot_snoc: "rt_foot (RT a l b d (ts @ [u])) = rt_foot (RT a l b d ts) \<union> rt_foot u"
  by (auto simp: rt_foot_def)

text \<open>What a tree means to the client: the values its data pointers denote, in tree shape.\<close>

datatype 'v vtree = VT 'v "'v vtree list"

fun vtree_of :: "(nat option \<Rightarrow> 'v) \<Rightarrow> rtree \<Rightarrow> 'v vtree" where
  "vtree_of val (RT a l b d ts) = VT (val d) (map (vtree_of val) ts)"

fun rt_datas :: "rtree \<Rightarrow> nat option set" where
  "rt_datas (RT a l b d ts) = insert d (\<Union>t \<in> set ts. rt_datas t)"

lemma vtree_of_cong: "(\<And>d. d \<in> rt_datas t \<Longrightarrow> val d = val' d) \<Longrightarrow> vtree_of val t = vtree_of val' t"
  by (induction t) auto

text \<open>
  The contract of the \<open>copy_func\<close> argument: it returns a new data pointer with the same value and
  touches neither the trees nor the value of any other data.
\<close>

locale data_copier =
  fixes copy :: "'d copy_func" and data_ok :: "'d \<Rightarrow> nat option \<Rightarrow> bool"
    and val :: "'d \<Rightarrow> nat option \<Rightarrow> 'v"
  assumes copy_total: "data_ok (hp_store h) d \<Longrightarrow>
      \<exists>s' d'. copy h d = Some (h\<lparr>hp_store := s'\<rparr>, d') \<and> data_ok s' d' \<and> val s' d' = val (hp_store h) d
        \<and> (\<forall>e. data_ok (hp_store h) e \<longrightarrow> data_ok s' e \<and> val s' e = val (hp_store h) e)"
begin

definition extends :: "'d heap \<Rightarrow> 'd heap \<Rightarrow> bool" where
  "extends h h' \<longleftrightarrow> heap_ok h' \<and> hp_fresh h \<le> hp_fresh h'
     \<and> heap_frame {hp_fresh h..} {hp_fresh h..} h h'
     \<and> (\<forall>e. data_ok (hp_store h) e \<longrightarrow> data_ok (hp_store h') e \<and> val (hp_store h') e = val (hp_store h) e)"

lemma extends_ok: "extends h h' \<Longrightarrow> heap_ok h'"
  by (simp add: extends_def)

lemma extends_refl [simp]: "heap_ok h \<Longrightarrow> extends h h"
  by (simp add: extends_def)

lemma extends_trans: "extends h h' \<Longrightarrow> extends h' h'' \<Longrightarrow> extends h h''"
  by (auto simp: extends_def heap_frame_def)

lemma extends_tree:
  assumes "extends h h'" "tree_rep h q t" "rt_ok t" "heap_ok h"
  shows "tree_rep h' q t"
proof (rule tree_rep_heap_frame [OF assms(2,3)])
  show "heap_frame {hp_fresh h..} {hp_fresh h..} h h'" using assms(1) by (simp add: extends_def)
  show "{hp_fresh h..} \<inter> set (rt_addrs t) = {}"
    using tree_rep_alloc [OF assms(2)] heap_ok_fresh [OF assms(4)] by fastforce
  show "{hp_fresh h..} \<inter> set (rt_lists t) = {}"
    using tree_rep_alloc_list [OF assms(2)] heap_ok_fresh_list [OF assms(4)] by fastforce
qed

lemma extends_vtree:
  assumes "extends h h'" "\<forall>d \<in> rt_datas t. data_ok (hp_store h) d"
  shows "vtree_of (val (hp_store h')) t = vtree_of (val (hp_store h)) t"
    "\<forall>d \<in> rt_datas t. data_ok (hp_store h') d"
  using assms by (auto simp: extends_def intro: vtree_of_cong)

text \<open>What a copy of \<open>t\<close> is: a tree of its own on fresh addresses, with the same values.\<close>

definition copy_of :: "'d heap \<Rightarrow> rtree \<Rightarrow> 'd heap \<Rightarrow> rtree \<Rightarrow> bool" where
  "copy_of h t h' t' \<longleftrightarrow> tree_rep h' Null t' \<and> rt_ok t'
     \<and> (\<forall>a \<in> rt_foot t'. hp_fresh h \<le> a)
     \<and> vtree_of (val (hp_store h')) t' = vtree_of (val (hp_store h)) t
     \<and> (\<forall>d \<in> rt_datas t'. data_ok (hp_store h') d) \<and> extends h h'"

lemma attach_copy:
  assumes dest: "tree_rep h Null (RT c l True d ts)" "rt_ok (RT c l True d ts)"
    and h: "heap_ok h" and cp: "copy_of h u h' u'" and len: "Suc (length ts) < 2 ^ 32"
    and F: "\<forall>a \<in> rt_foot (RT c l True d ts). F \<le> a"
      "F \<le> hp_fresh h"
  obtains h'' where "node_attach h' (NodeP c) (NodeP (rt_addr u')) = Some (h'', 0)"
    "tree_rep h'' Null (RT c l True d (ts @ [u']))" "rt_ok (RT c l True d (ts @ [u']))"
    "\<forall>a \<in> rt_foot (RT c l True d (ts @ [u'])). F \<le> a"
    "heap_frame {F..} {F..} h' h''" "hp_store h'' = hp_store h'" "hp_fresh h'' = hp_fresh h'" "heap_ok h''"
proof -
  have cp': "tree_rep h' Null u'" "rt_ok u'" "\<forall>a \<in> rt_foot u'. hp_fresh h \<le> a"
      "extends h h'"
    using cp by (auto simp: copy_of_def)
  have dest': "tree_rep h' Null (RT c l True d ts)"
    using extends_tree [OF cp'(4) dest h] .
  have small: "a < hp_fresh h" if "a \<in> rt_foot (RT c l True d ts)" for a
    using that tree_rep_alloc [OF dest(1), of a] tree_rep_alloc_list [OF dest(1), of a]
      heap_ok_fresh [OF h, of a] heap_ok_fresh_list [OF h, of a] unfolding rt_foot_def by blast
  have big: "hp_fresh h \<le> a" if "a \<in> rt_foot u'" for a
    using cp'(3) that by blast
  have "set (rt_addrs (RT c l True d ts)) \<inter> set (rt_addrs u') = {}"
      "set (rt_lists (RT c l True d ts)) \<inter> set (rt_lists u') = {}"
    using small big unfolding rt_foot_def by (meson UnI1 UnI2 disjoint_iff not_le)+
  then have ok: "rt_ok (RT c l True d (u' # ts))"
    using dest(2) cp'(2) by (auto simp: rt_ok_def)
  have ok': "rt_ok (RT c l True d (ts @ [u']))"
    using ok by (auto simp: rt_ok_def)
  have FF: "\<forall>a \<in> rt_foot (RT c l True d (ts @ [u'])). F \<le> a"
    using F cp'(3) unfolding rt_foot_snoc by (meson UnE order_trans)
  obtain h'' where h'': "node_attach h' (NodeP c) (NodeP (rt_addr u')) = Some (h'', 0)"
    "tree_rep h'' Null (RT c l (if ts = [] then True else True) d (ts @ [u']))"
    "heap_frame (insert c (insert (rt_addr u') (rt_addr ` set ts))) {l} h' h''"
    "hp_store h'' = hp_store h'" "hp_fresh h'' = hp_fresh h'"
    using node_attach_tree [OF dest' cp'(1) ok len] by blast
  have "insert c (rt_addr ` set (ts @ [u'])) \<subseteq> set (rt_addrs (RT c l True d (ts @ [u'])))"
    using rt_addr_kid [of _ "ts @ [u']"] by (auto simp del: set_append map_append)
  then have "insert c (insert (rt_addr u') (rt_addr ` set ts)) \<subseteq> set (rt_addrs (RT c l True d (ts @ [u'])))"
    by simp
  then have frame: "heap_frame {F..} {F..} h' h''"
    using h''(3) FF unfolding rt_foot_def by (elim heap_frame_mono) auto
  have "hp_nodes h' c \<noteq> None" "hp_lists h' l \<noteq> None"
    using tree_rep_alloc [OF dest', of c] tree_rep_alloc_list [OF dest', of l] by auto
  moreover have "hp_nodes h' (rt_addr u') \<noteq> None"
    using tree_rep_alloc [OF cp'(1) rt_addr_in] by auto
  moreover have "hp_nodes h' x \<noteq> None" if "x \<in> rt_addr ` set ts" for x
    using tree_rep_alloc [OF dest' rt_addr_kid, of x] that by auto
  ultimately have "heap_ok h''"
    using extends_ok [OF cp'(4)] h''(3,5) by (intro heap_ok_frame [OF _ h''(3)]) auto
  then show thesis using that h'' ok' FF frame by simp
qed


text \<open>Growth of the heap that leaves everything below \<open>F\<close> alone.\<close>

definition ext_at :: "nat \<Rightarrow> 'd heap \<Rightarrow> 'd heap \<Rightarrow> bool" where
  "ext_at F h h' \<longleftrightarrow> heap_ok h' \<and> hp_fresh h \<le> hp_fresh h' \<and> heap_frame {F..} {F..} h h'
     \<and> (\<forall>e. data_ok (hp_store h) e \<longrightarrow> data_ok (hp_store h') e \<and> val (hp_store h') e = val (hp_store h) e)"

lemma extends_at: "extends h h' \<longleftrightarrow> ext_at (hp_fresh h) h h'"
  by (simp add: extends_def ext_at_def)

lemma ext_at_mono: "ext_at F h h' \<Longrightarrow> G \<le> F \<Longrightarrow> ext_at G h h'"
  using heap_frame_mono [of "{F..}" "{F..}" h h' "{G..}" "{G..}"] by (auto simp: ext_at_def)

lemma ext_at_trans: "ext_at F h h' \<Longrightarrow> ext_at F h' h'' \<Longrightarrow> ext_at F h h''"
  by (auto simp: ext_at_def intro: heap_frame_trans)

lemma ext_at_tree:
  assumes "ext_at F h h'" "tree_rep h q t" "rt_ok t" "\<forall>a \<in> rt_foot t. a < F"
  shows "tree_rep h' q t"
proof (rule tree_rep_heap_frame [OF assms(2,3)])
  show "heap_frame {F..} {F..} h h'" using assms(1) by (simp add: ext_at_def)
  show "{F..} \<inter> set (rt_addrs t) = {}" "{F..} \<inter> set (rt_lists t) = {}"
    using assms(4) unfolding rt_foot_def by (meson UnI1 UnI2 atLeast_iff disjoint_iff not_le)+
qed

lemma ext_at_vtree:
  assumes "ext_at F h h'" "\<forall>d \<in> rt_datas t. data_ok (hp_store h) d"
  shows "vtree_of (val (hp_store h')) t = vtree_of (val (hp_store h)) t"
    "\<forall>d \<in> rt_datas t. data_ok (hp_store h') d"
  using assms by (auto simp: ext_at_def intro: vtree_of_cong)

text \<open>A source tree: below \<open>F\<close>, with data that can be copied.\<close>

definition source :: "nat \<Rightarrow> 'd heap \<Rightarrow> ptr \<Rightarrow> rtree \<Rightarrow> bool" where
  "source F h q t \<longleftrightarrow> tree_rep h q t \<and> rt_ok t \<and> (\<forall>a \<in> rt_foot t. a < F)
     \<and> (\<forall>d \<in> rt_datas t. data_ok (hp_store h) d)"

lemma source_ext: "ext_at F h h' \<Longrightarrow> source F h q t \<Longrightarrow> source F h' q t"
  using ext_at_tree [of F h h' q t] ext_at_vtree [of F h h' t] by (auto simp: source_def)

lemma source_kid:
  assumes "source F h q (RT a l b d ts)" "t \<in> set ts"
  shows "source F h (NodeP a) t"
  using assms rt_ok_kid(1) [of a l b d ts t] by (auto simp: source_def rt_foot_def)

text \<open>A destination: a tree at or above \<open>F\<close> whose first child was attached by \<open>node_attach\<close>.\<close>

definition dest :: "nat \<Rightarrow> 'd heap \<Rightarrow> rtree \<Rightarrow> bool" where
  "dest F h t \<longleftrightarrow> tree_rep h Null t \<and> rt_ok t \<and> (\<forall>a \<in> rt_foot t. F \<le> a) \<and> F \<le> hp_fresh h"

text \<open>One round of the loop: the copy of a child is attached behind the copies made so far.\<close>

lemma copy_round:
  assumes "dest F h (RT c l True d ts)" "heap_ok h" "copy_of h u h' u'" "Suc (length ts) < 2 ^ 32"
  obtains h'' where "node_attach h' (NodeP c) (NodeP (rt_addr u')) = Some (h'', 0)"
    "dest F h'' (RT c l True d (ts @ [u']))" "ext_at F h h''"
    "vtree_of (val (hp_store h'')) u' = vtree_of (val (hp_store h)) u"
    "\<forall>e \<in> rt_datas u'. data_ok (hp_store h'') e"
proof -
  from assms(1) have dst: "tree_rep h Null (RT c l True d ts)" "rt_ok (RT c l True d ts)"
    "\<forall>a \<in> rt_foot (RT c l True d ts). F \<le> a" "F \<le> hp_fresh h" by (simp_all add: dest_def)
  obtain h'' where h'': "node_attach h' (NodeP c) (NodeP (rt_addr u')) = Some (h'', 0)"
    "tree_rep h'' Null (RT c l True d (ts @ [u']))" "rt_ok (RT c l True d (ts @ [u']))"
    "\<forall>a \<in> rt_foot (RT c l True d (ts @ [u'])). F \<le> a"
    "heap_frame {F..} {F..} h' h''" "hp_store h'' = hp_store h'" "hp_fresh h'' = hp_fresh h'" "heap_ok h''"
    by (rule attach_copy [OF dst(1,2) assms(2-4) dst(3,4)])
  have ext: "ext_at (hp_fresh h) h h'" using assms(3) by (simp add: copy_of_def extends_at)
  then have "F \<le> hp_fresh h''" using dst(4) h''(7) by (simp add: ext_at_def)
  then have "dest F h'' (RT c l True d (ts @ [u']))" using h'' by (simp add: dest_def)
  moreover have "ext_at F h' h''" using h'' by (simp add: ext_at_def)
  then have "ext_at F h h''" using ext_at_trans ext_at_mono [OF ext dst(4)] by blast
  moreover have "vtree_of (val (hp_store h'')) u' = vtree_of (val (hp_store h)) u"
    "\<forall>e \<in> rt_datas u'. data_ok (hp_store h'') e"
    using assms(3) h''(6) by (simp_all add: copy_of_def)
  ultimately show thesis using that h''(1) by blast
qed

definition copies :: "nat \<Rightarrow> 'd heap \<Rightarrow> rtree list \<Rightarrow> 'd heap \<Rightarrow> rtree list \<Rightarrow> bool" where
  "copies F h ts h' us \<longleftrightarrow> ext_at F h h' 
     \<and> map (vtree_of (val (hp_store h'))) us = map (vtree_of (val (hp_store h))) ts
     \<and> (\<forall>u \<in> set us. \<forall>e \<in> rt_datas u. data_ok (hp_store h') e)"

lemma copies_Cons:
  assumes "ext_at F h h1" "vtree_of (val (hp_store h1)) u' = vtree_of (val (hp_store h)) u"
    "\<forall>e \<in> rt_datas u'. data_ok (hp_store h1) e" "\<forall>t \<in> set ts. source F h q t" "copies F h1 ts h' us"
  shows "copies F h (u # ts) h' (u' # us)"
proof -
  have "vtree_of (val (hp_store h1)) t = vtree_of (val (hp_store h)) t" if "t \<in> set ts" for t
    using ext_at_vtree(1) [OF assms(1), of t] assms(4) that by (auto simp: source_def)
  then have "map (vtree_of (val (hp_store h'))) us = map (vtree_of (val (hp_store h))) ts"
    using assms(5) by (simp add: copies_def)
  moreover have ext: "ext_at F h1 h'" using assms(5) by (simp add: copies_def)
  ultimately show ?thesis
    using ext_at_trans [OF assms(1) ext] ext_at_vtree [OF ext assms(3)] assms(2,5)
    by (auto simp: copies_def)
qed

lemma copy_children_step:
  assumes IH1: "\<And>(h::'d heap) q t. heap_ok h \<Longrightarrow> source (hp_fresh h) h q t \<Longrightarrow> 2 * rt_size t \<le> f \<Longrightarrow>
      \<exists>h' t'. node_copy_deep f (Some copy) h (NodeP (rt_addr t)) = Some (h', NodeP (rt_addr t')) \<and> copy_of h t h' t'"
    and IH2: "\<And>(h::'d heap) ts ch pr us. heap_ok h \<Longrightarrow> \<forall>t \<in> set ts. source F h (NodeP p) t \<Longrightarrow>
      dseg (hp_nodes h) pr ch (map rt_addr ts) Null \<Longrightarrow> dest F h (RT c l True d us) \<Longrightarrow>
      length us + length ts < 2 ^ 32 \<Longrightarrow> Suc (2 * sum_list (map rt_size ts)) \<le> f \<Longrightarrow>
      \<exists>h' us'. node_copy_children f (Some copy) h (NodeP c) ch = Some (h', NodeP c)
        \<and> dest F h' (RT c l True d (us @ us')) \<and> copies F h ts h' us'"
    and h: "heap_ok h" and src: "\<forall>t \<in> set ts. source F h (NodeP p) t"
    and seg: "dseg (hp_nodes h) pr ch (map rt_addr ts) Null" and dst: "dest F h (RT c l True d us)"
    and len: "length us + length ts < 2 ^ 32" and fuel: "Suc (2 * sum_list (map rt_size ts)) \<le> Suc f"
  shows "\<exists>h' us'. node_copy_children (Suc f) (Some copy) h (NodeP c) ch = Some (h', NodeP c)
        \<and> dest F h' (RT c l True d (us @ us')) \<and> copies F h ts h' us'"
proof (cases ts)
  case Nil
  then show ?thesis using seg dst h
    by (intro exI [of _ h] exI [of _ "[]"]) (simp add: copies_def ext_at_def)
next
  case (Cons t ts')
  have pos: "0 < rt_size t" by (rule rt_size_pos)
  have FF: "F \<le> hp_fresh h" using dst by (simp add: dest_def)
  have t: "source F h (NodeP p) t" using src Cons by simp
  then have "source (hp_fresh h) h (NodeP p) t" using FF by (fastforce simp: source_def)
  moreover have "2 * rt_size t \<le> f" using fuel Cons by simp
  ultimately obtain h1 t' where h1: "node_copy_deep f (Some copy) h (NodeP (rt_addr t)) = Some (h1, NodeP (rt_addr t'))"
    "copy_of h t h1 t'" using IH1 [OF h] by blast
  have "Suc (length us) < 2 ^ 32" using len Cons by simp
  then obtain h2 where h2: "node_attach h1 (NodeP c) (NodeP (rt_addr t')) = Some (h2, 0)"
    "dest F h2 (RT c l True d (us @ [t']))" "ext_at F h h2"
    "vtree_of (val (hp_store h2)) t' = vtree_of (val (hp_store h)) t"
    "\<forall>e \<in> rt_datas t'. data_ok (hp_store h2) e"
    by (rule copy_round [OF dst h h1(2)])
  have below: "hp_nodes h2 a = hp_nodes h a" if "a < F" for a
    using h2(3) that by (simp add: ext_at_def heap_frame_def)
  have roots: "rt_addr u < F" if "u \<in> set ts" for u
    using src that by (auto simp: source_def rt_foot_def)
  from seg Cons obtain n where n: "ch = NodeP (rt_addr t)" "hp_nodes h (rt_addr t) = Some n"
    "dseg (hp_nodes h) ch (nd_next n) (map rt_addr ts') Null" by auto
  have "dseg (hp_nodes h2) ch (nd_next n) (map rt_addr ts') Null"
    using n(3) by (subst dseg_cong [where N' = "hp_nodes h"]) (use below roots Cons in auto)
  moreover have "\<forall>u \<in> set ts'. source F h2 (NodeP p) u"
    using source_ext [OF h2(3)] src Cons by simp
  moreover have "heap_ok h2" using h2(3) by (simp add: ext_at_def)
  ultimately obtain h3 us' where h3: "node_copy_children f (Some copy) h2 (NodeP c) (nd_next n) = Some (h3, NodeP c)"
    "dest F h3 (RT c l True d ((us @ [t']) @ us'))" "copies F h2 ts' h3 us'"
    using IH2 [of h2 ts' ch "nd_next n" "us @ [t']"] h2(2) len fuel Cons pos by auto
  have "hp_nodes h2 (rt_addr t) = Some n" using below roots Cons n(2) by simp
  then have "node_copy_children (Suc f) (Some copy) h (NodeP c) ch = Some (h3, NodeP c)"
    using n(1) h1(1) h2(1) h3(1) by (simp add: node_next_sibling_def)
  moreover have "copies F h ts h3 (t' # us')"
    using copies_Cons [OF h2(3,4,5) _ h3(3)] src Cons by auto
  ultimately show ?thesis using h3(2) by auto
qed

lemma copy_node_step:
  assumes IH2: "\<And>(h::'d heap) F p c l d ts ch pr us. heap_ok h \<Longrightarrow> \<forall>t \<in> set ts. source F h (NodeP p) t \<Longrightarrow>
      dseg (hp_nodes h) pr ch (map rt_addr ts) Null \<Longrightarrow> dest F h (RT c l True d us) \<Longrightarrow>
      length us + length ts < 2 ^ 32 \<Longrightarrow> Suc (2 * sum_list (map rt_size ts)) \<le> f \<Longrightarrow>
      \<exists>h' us'. node_copy_children f (Some copy) h (NodeP c) ch = Some (h', NodeP c)
        \<and> dest F h' (RT c l True d (us @ us')) \<and> copies F h ts h' us'"
    and h: "heap_ok h" and src: "source (hp_fresh h) h q t" and fuel: "2 * rt_size t \<le> Suc f"
  shows "\<exists>h' t'. node_copy_deep (Suc f) (Some copy) h (NodeP (rt_addr t)) = Some (h', NodeP (rt_addr t'))
     \<and> copy_of h t h' t'"
proof -
  obtain p l b d ts where t: "t = RT p l b d ts" by (cases t)
  let ?F = "hp_fresh h"
  have "data_ok (hp_store h) d" using src t by (simp add: source_def)
  then obtain s' d' where cp: "copy h d = Some (h\<lparr>hp_store := s'\<rparr>, d')" "data_ok s' d'" "val s' d' = val (hp_store h) d"
    "\<forall>e. data_ok (hp_store h) e \<longrightarrow> data_ok s' e \<and> val s' e = val (hp_store h) e"
    using copy_total by blast
  let ?h1 = "h\<lparr>hp_store := s'\<rparr>"
  have h1: "heap_ok ?h1" using h by (simp add: heap_ok_def)
  then obtain h2 where h2: "node_create ?h1 Null d' = Some (h2, NodeP (hp_fresh ?h1))"
    "tree_rep h2 Null (RT (hp_fresh ?h1) (Suc (hp_fresh ?h1)) True d' [])" "heap_ok h2"
    "hp_fresh h2 = Suc (Suc (hp_fresh ?h1))" "hp_store h2 = hp_store ?h1"
    "heap_frame {hp_fresh ?h1} {Suc (hp_fresh ?h1)} ?h1 h2" by (rule node_create_root)
  have ext: "ext_at ?F h h2"
    using h2(3-6) cp(4) by (auto simp: ext_at_def heap_frame_def)
  have dst: "dest ?F h2 (RT ?F (Suc ?F) True d' [])"
    using h2(2,4) by (simp add: dest_def rt_ok_def rt_foot_def)
  have t2: "source ?F h2 q (RT p l b d ts)" using source_ext [OF ext src] t by simp
  then have kids: "\<forall>u \<in> set ts. source ?F h2 (NodeP p) u" using source_kid by blast
  from t2 obtain n L where n: "hp_nodes h2 p = Some n" "nd_children n = ListP l" "hp_lists h2 l = Some L"
    "dseg (hp_nodes h2) (first_prev b l) (nl_begin L) (map rt_addr ts) Null" "length ts < 2 ^ 32"
    by (auto simp: source_def elim!: list_repE)
  obtain h3 us where h3: "node_copy_children f (Some copy) h2 (NodeP ?F) (nl_begin L) = Some (h3, NodeP ?F)"
    "dest ?F h3 (RT ?F (Suc ?F) True d' us)" "copies ?F h2 ts h3 us"
    using IH2 [OF h2(3) kids n(4) dst] n(5) fuel t by auto
  have n0: "hp_nodes h p = Some n" "nd_data n = d"
    using n(1) t2 src ext t by (auto simp: source_def rt_foot_def ext_at_def heap_frame_def)
  have run: "node_copy_deep (Suc f) (Some copy) h (NodeP (rt_addr t)) = Some (h3, NodeP ?F)"
    using t n0 cp(1) h2(1) n(1-3) h3(1) by (simp add: node_first_child_def)
  have ext23: "ext_at ?F h2 h3" and vals: "map (vtree_of (val (hp_store h3))) us = map (vtree_of (val (hp_store h2))) ts"
    and datas: "\<forall>u \<in> set us. \<forall>e \<in> rt_datas u. data_ok (hp_store h3) e" using h3(3) by (simp_all add: copies_def)
  have d3: "data_ok (hp_store h3) d'" "val (hp_store h3) d' = val (hp_store h) d"
    using ext23 h2(5) cp(2,3) by (simp_all add: ext_at_def)
  have "vtree_of (val (hp_store h2)) u = vtree_of (val (hp_store h)) u" if "u \<in> set ts" for u
    using ext_at_vtree(1) [OF ext, of u] src t that by (auto simp: source_def)
  then have "copy_of h t h3 (RT ?F (Suc ?F) True d' us)"
    using h3(2) vals datas d3 t ext_at_trans [OF ext ext23]
    by (simp add: copy_of_def dest_def extends_at)
  with run show ?thesis by (intro exI [of _ h3] exI [of _ "RT ?F (Suc ?F) True d' us"]) simp
qed

lemma node_copy_aux:
  "(\<forall>(h::'d heap) q t. heap_ok h \<longrightarrow> source (hp_fresh h) h q t \<longrightarrow> 2 * rt_size t \<le> f \<longrightarrow>
      (\<exists>h' t'. node_copy_deep f (Some copy) h (NodeP (rt_addr t)) = Some (h', NodeP (rt_addr t')) \<and> copy_of h t h' t'))
   \<and> (\<forall>(h::'d heap) F p c l d ts ch pr us. heap_ok h \<longrightarrow> (\<forall>t \<in> set ts. source F h (NodeP p) t) \<longrightarrow>
      dseg (hp_nodes h) pr ch (map rt_addr ts) Null \<longrightarrow> dest F h (RT c l True d us) \<longrightarrow>
      length us + length ts < 2 ^ 32 \<longrightarrow> Suc (2 * sum_list (map rt_size ts)) \<le> f \<longrightarrow>
      (\<exists>h' us'. node_copy_children f (Some copy) h (NodeP c) ch = Some (h', NodeP c)
        \<and> dest F h' (RT c l True d (us @ us')) \<and> copies F h ts h' us'))"
proof (induction f)
  case 0
  show ?case using rt_size_pos by simp
next
  case (Suc f)
  note IH1 = Suc.IH [THEN conjunct1, rule_format]
  note IH2 = Suc.IH [THEN conjunct2, rule_format]
  show ?case
    by (intro conjI allI impI; (rule copy_node_step | rule copy_children_step))
      (assumption | rule IH1 IH2 | blast)+
qed

theorem node_copy_tree:
  assumes "heap_ok h" "tree_rep h q t" "rt_ok t" "\<forall>d \<in> rt_datas t. data_ok (hp_store h) d"
    "2 * rt_size t \<le> f"
  obtains h' t' where "node_copy_deep f (Some copy) h (NodeP (rt_addr t)) = Some (h', NodeP (rt_addr t'))"
    "copy_of h t h' t'"
proof -
  have "a < hp_fresh h" if "a \<in> rt_foot t" for a
    using that tree_rep_alloc [OF assms(2), of a] tree_rep_alloc_list [OF assms(2), of a]
      heap_ok_fresh [OF assms(1), of a] heap_ok_fresh_list [OF assms(1), of a] unfolding rt_foot_def by blast
  then have "source (hp_fresh h) h q t" using assms(2-4) by (simp add: source_def)
  then show thesis using node_copy_aux [THEN conjunct1, rule_format, OF assms(1) _ assms(5)] that by blast
qed

end

end
