(* ===== verification/Cnary_Query.thy ===== *)
theory Cnary_Query imports Cnary_Copy begin

text \<open>
  The queries of \<open>cnary_node.c\<close> on a tree: number of children, first child, siblings, the child at
  a position and the position of a child.  All are read only and return the abstract answer.
\<close>

lemma tree_repE:
  assumes "tree_rep h q (RT a l b d ts)"
  obtains n L where "hp_nodes h a = Some n" "nd_parent n = q" "nd_children n = ListP l" "nd_data n = d"
    "nd_count n = of_nat (length ts)" "hp_lists h l = Some L" "nl_count L = of_nat (length ts)"
    "length ts < 2 ^ 32" "distinct (map rt_addr ts)"
    "dseg (hp_nodes h) (first_prev b l) (nl_begin L) (map rt_addr ts) Null"
    "nl_end L = lastp (ListP l) (map rt_addr ts)"
  using assms by (auto elim!: list_repE)

definition kid_ptr :: "rtree list \<Rightarrow> nat \<Rightarrow> ptr" where
  "kid_ptr ts i = (if i < length ts then NodeP (rt_addr (ts ! i)) else Null)"

lemma node_n_children_tree:
  "tree_rep h q (RT a l b d ts) \<Longrightarrow> node_n_children h (NodeP a) = Some (of_nat (length ts))"
  by (erule tree_repE) (simp add: node_n_children_def)

lemma node_n_children_len:
  "tree_rep h q (RT a l b d ts) \<Longrightarrow>
   \<exists>n. node_n_children h (NodeP a) = Some n \<and> unat n = length ts"
  using node_n_children_tree [of h q a l b d ts] unat_of_nat_u32 [of "length ts"]
  by (metis tree_repE)

lemma dseg_start: "dseg N pr p (map rt_addr ts) Null \<Longrightarrow> p = kid_ptr ts 0"
  by (cases ts) (auto simp: kid_ptr_def)

lemma dseg_at:
  "dseg N pr p xs q \<Longrightarrow> i < length xs \<Longrightarrow>
   \<exists>n. N (xs ! i) = Some n \<and> nd_next n = (if Suc i < length xs then NodeP (xs ! Suc i) else q)
     \<and> nd_prev n = (if i = 0 then pr else NodeP (xs ! (i - 1)))"
proof (induction xs arbitrary: i pr p)
  case (Cons x xs)
  show ?case
  proof (cases i)
    case 0
    with Cons show ?thesis by (cases xs) auto
  next
    case (Suc j)
    with Cons.prems obtain n :: node_t where "dseg N (NodeP x) (nd_next n) xs q" "j < length xs" by (auto intro: that)
    from Cons.IH [OF this] Suc show ?thesis by (cases j) auto
  qed
qed simp

lemma node_first_child_tree:
  "tree_rep h q (RT a l b d ts) \<Longrightarrow> node_first_child h (NodeP a) = Some (kid_ptr ts 0)"
  by (erule tree_repE) (auto simp: node_first_child_def dest: dseg_start)

lemma node_siblings_tree:
  assumes "tree_rep h q (RT a l b d ts)" "i < length ts"
  shows "node_next_sibling h (NodeP (rt_addr (ts ! i))) = Some (kid_ptr ts (Suc i))"
    "node_prev_sibling h (NodeP (rt_addr (ts ! i))) =
       Some (if i = 0 then first_prev b l else kid_ptr ts (i - 1))"
proof -
  obtain L :: node_list_t where "dseg (hp_nodes h) (first_prev b l) (nl_begin L) (map rt_addr ts) Null"
    by (rule tree_repE [OF assms(1)]) blast
  then obtain n where n: "hp_nodes h (rt_addr (ts ! i)) = Some n"
    "nd_next n = (if Suc i < length ts then NodeP (map rt_addr ts ! Suc i) else Null)"
    "nd_prev n = (if i = 0 then first_prev b l else NodeP (map rt_addr ts ! (i - 1)))"
    using dseg_at [of "hp_nodes h" _ _ "map rt_addr ts" Null i] assms(2) by fastforce
  have "nd_next n = kid_ptr ts (Suc i)"
    using n(2) by (auto simp: kid_ptr_def)
  moreover have "nd_prev n = (if i = 0 then first_prev b l else kid_ptr ts (i - 1))"
    using n(3) assms(2) by (auto simp: kid_ptr_def)
  moreover note n(1)
  ultimately show "node_next_sibling h (NodeP (rt_addr (ts ! i))) = Some (kid_ptr ts (Suc i))"
    "node_prev_sibling h (NodeP (rt_addr (ts ! i))) =
       Some (if i = 0 then first_prev b l else kid_ptr ts (i - 1))"
    by (simp_all add: node_next_sibling_def node_prev_sibling_def)
qed

lemma nth_child_loop_tree:
  assumes rep: "tree_rep h q (RT a l b d ts)"
  shows "i \<le> length ts \<Longrightarrow> i \<le> unat n \<Longrightarrow>
    nth_child_loop h n (of_nat i) (kid_ptr ts i) = Some (kid_ptr ts (unat n))"
proof (induction k \<equiv> "length ts - i" arbitrary: i)
  case 0
  then have "i = length ts" by simp
  with 0 show ?case by (subst nth_child_loop.simps) (simp add: kid_ptr_def)
next
  case (Suc k)
  have len: "length ts < 2 ^ 32" by (rule tree_repE [OF rep])
  have i: "i < length ts" using Suc.hyps by simp
  have eq: "of_nat i = n \<longleftrightarrow> i = unat n"
    using i len unat_of_nat_u32 [of i] by (metis order.strict_trans word_unat_eq_iff)
  show ?case
  proof (cases "i = unat n")
    case True
    with i eq show ?thesis by (subst nth_child_loop.simps) (simp add: kid_ptr_def)
  next
    case False
    with Suc i have "nth_child_loop h n (of_nat (Suc i)) (kid_ptr ts (Suc i)) = Some (kid_ptr ts (unat n))"
      by (intro Suc.hyps) auto
    with False i eq node_siblings_tree(1) [OF rep i] show ?thesis
      by (subst nth_child_loop.simps) (simp add: kid_ptr_def add.commute)
  qed
qed

lemma node_nth_child_tree:
  assumes rep: "tree_rep h q (RT a l b d ts)"
  shows "node_nth_child h (NodeP a) n = Some (kid_ptr ts (unat n))"
proof -
  obtain nd L where n: "hp_nodes h a = Some nd" "nd_children nd = ListP l" "hp_lists h l = Some L"
    "nl_begin L = kid_ptr ts 0" by (rule tree_repE [OF rep]) (use dseg_start in blast)
  show ?thesis
  proof (cases ts)
    case Nil
    with n show ?thesis by (simp add: node_nth_child_def kid_ptr_def)
  next
    case (Cons t us)
    then show ?thesis
      using n nth_child_loop_tree [OF rep, of 0 n] node_first_child_tree [OF rep]
      by (simp add: node_nth_child_def kid_ptr_def)
  qed
qed

lemma child_position_loop_tree:
  assumes rep: "tree_rep h q (RT a l b d ts)"
  shows "i \<le> j \<Longrightarrow> j < length ts \<Longrightarrow>
    child_position_loop h (NodeP (rt_addr (ts ! j))) k (kid_ptr ts i) = Some (k + int (j - i))"
proof (induction m \<equiv> "j - i" arbitrary: i k)
  case 0
  then have "i = j" by simp
  with 0 show ?case by (subst child_position_loop.simps) (simp add: kid_ptr_def)
next
  case (Suc m)
  have dist: "distinct (map rt_addr ts)" by (rule tree_repE [OF rep])
  have "rt_addr (ts ! i) \<noteq> rt_addr (ts ! j)"
    using dist Suc.hyps(2) Suc.prems nth_eq_iff_index_eq [of "map rt_addr ts" i j] by auto
  moreover have "i < length ts" using Suc by simp
  moreover have "child_position_loop h (NodeP (rt_addr (ts ! j))) (k + 1) (kid_ptr ts (Suc i)) =
      Some (k + 1 + int (j - Suc i))"
    using Suc.hyps(2) Suc.prems by (intro Suc.hyps(1)) auto
  ultimately show ?case
    using node_siblings_tree(1) [OF rep, of i] Suc.hyps(2) Suc.prems
    by (subst child_position_loop.simps) (simp add: kid_ptr_def)
qed

lemma child_position_loop_absent:
  assumes rep: "tree_rep h q (RT a l b d ts)" and c: "c \<notin> rt_addr ` set ts"
  shows "i \<le> length ts \<Longrightarrow> child_position_loop h (NodeP c) k (kid_ptr ts i) = Some (-1)"
proof (induction m \<equiv> "length ts - i" arbitrary: i k)
  case 0
  then have "i = length ts" by simp
  then show ?case by (subst child_position_loop.simps) (simp add: kid_ptr_def)
next
  case (Suc m)
  then have i: "i < length ts" by simp
  then have "rt_addr (ts ! i) \<noteq> c" using c by auto
  moreover have "child_position_loop h (NodeP c) (k + 1) (kid_ptr ts (Suc i)) = Some (-1)"
    using Suc i by (intro Suc.hyps(1)) auto
  ultimately show ?case
    using node_siblings_tree(1) [OF rep i] i
    by (subst child_position_loop.simps) (simp add: kid_ptr_def)
qed

lemma node_child_position_tree:
  assumes rep: "tree_rep h q (RT a l b d ts)"
  shows "j < length ts \<Longrightarrow> node_child_position h (NodeP a) (NodeP (rt_addr (ts ! j))) = Some (int j)"
    "c \<notin> rt_addr ` set ts \<Longrightarrow> node_child_position h (NodeP a) (NodeP c) = Some (-1)"
proof -
  obtain nd L where n: "hp_nodes h a = Some nd" "nd_children nd = ListP l" "hp_lists h l = Some L"
    "nl_begin L = kid_ptr ts 0" by (rule tree_repE [OF rep]) (use dseg_start in blast)
  show "node_child_position h (NodeP a) (NodeP (rt_addr (ts ! j))) = Some (int j)" if "j < length ts"
    using n child_position_loop_tree [OF rep _ that, of 0 0] node_first_child_tree [OF rep] that
    by (auto simp: node_child_position_def kid_ptr_def)
  show "node_child_position h (NodeP a) (NodeP c) = Some (-1)" if "c \<notin> rt_addr ` set ts"
    using n child_position_loop_absent [OF rep that, of 0 0] node_first_child_tree [OF rep]
    by (simp add: node_child_position_def)
qed

end
