(* ===== verification/Hashtable.thy ===== *)
theory Hashtable imports Prelude begin

text \<open>
  \<open>airplay/libplist/src/hashtable.c\<close>: 256 chains of entries, indexed by the low byte of a caller
  supplied hash and searched with a caller supplied comparison.  The chains are private to the
  table (no entry is reachable from outside), so a chain is the list of its \<open>(key, value)\<close> pairs
  in \<open>next\<close> order.  Pointer arguments the code tests for NULL are options.
\<close>

section \<open>Model\<close>

record ('k, 'v) hashtable_t =
  ht_entries :: "('k \<times> 'v) list list"
  ht_count :: nat
  ht_hash :: "'k \<Rightarrow> u32"
  ht_compare :: "'k \<Rightarrow> 'k \<Rightarrow> bool"

definition hash_table_new :: "('k \<Rightarrow> u32) \<Rightarrow> ('k \<Rightarrow> 'k \<Rightarrow> bool) \<Rightarrow> ('k, 'v) hashtable_t" where
  "hash_table_new hash_func compare_func =
     \<lparr>ht_entries = replicate 256 [], ht_count = 0, ht_hash = hash_func, ht_compare = compare_func\<rparr>"

text \<open>\<open>hash & 0xFF\<close>\<close>

definition ht_index :: "('k, 'v) hashtable_t \<Rightarrow> 'k \<Rightarrow> nat" where
  "ht_index ht key = unat (ht_hash ht key AND 0xFF)"

text \<open>The scan of a chain for a key; the insertion's scan overwrites the first match's value.\<close>

fun chain_lookup :: "('k \<Rightarrow> 'k \<Rightarrow> bool) \<Rightarrow> ('k \<times> 'v) list \<Rightarrow> 'k \<Rightarrow> 'v option" where
  "chain_lookup cmp [] key = None"
| "chain_lookup cmp ((k, v) # es) key = (if cmp k key then Some v else chain_lookup cmp es key)"

fun chain_replace :: "('k \<Rightarrow> 'k \<Rightarrow> bool) \<Rightarrow> ('k \<times> 'v) list \<Rightarrow> 'k \<Rightarrow> 'v \<Rightarrow> ('k \<times> 'v) list option" where
  "chain_replace cmp [] key val = None"
| "chain_replace cmp ((k, v) # es) key val =
     (if cmp k key then Some ((k, val) # es)
      else map_option (Cons (k, v)) (chain_replace cmp es key val))"

definition hash_table_insert ::
  "('k, 'v) hashtable_t option \<Rightarrow> 'k option \<Rightarrow> 'v \<Rightarrow> ('k, 'v) hashtable_t option" where
  "hash_table_insert ht key val =
     (case ht of
        None \<Rightarrow> None
      | Some t \<Rightarrow>
          (case key of
             None \<Rightarrow> Some t
           | Some k \<Rightarrow>
               let idx0 = ht_index t k; e = ht_entries t ! idx0
               in (case chain_replace (ht_compare t) e k val of
                     Some e' \<Rightarrow> Some (t\<lparr>ht_entries := (ht_entries t)[idx0 := e']\<rparr>)
                   | None \<Rightarrow> Some (t\<lparr>ht_entries := (ht_entries t)[idx0 := (k, val) # e],
                                     ht_count := ht_count t + 1\<rparr>))))"

definition hash_table_lookup :: "('k, 'v) hashtable_t option \<Rightarrow> 'k option \<Rightarrow> 'v option" where
  "hash_table_lookup ht key =
     (case ht of
        None \<Rightarrow> None
      | Some t \<Rightarrow>
          (case key of
             None \<Rightarrow> None
           | Some k \<Rightarrow> chain_lookup (ht_compare t) (ht_entries t ! ht_index t k) k))"

text \<open>\<open>hash_table_destroy\<close> frees every value, every entry and the table: the values it frees.\<close>

definition hash_table_destroy :: "('k, 'v) hashtable_t option \<Rightarrow> 'v list" where
  "hash_table_destroy ht = (case ht of None \<Rightarrow> [] | Some t \<Rightarrow> map snd (concat (ht_entries t)))"

section \<open>Well-formed tables\<close>

definition ht_inv :: "('k, 'v) hashtable_t \<Rightarrow> bool" where
  "ht_inv t \<longleftrightarrow> length (ht_entries t) = 256 \<and> ht_count t = length (concat (ht_entries t))
     \<and> (\<forall>i < 256. \<forall>e \<in> set (ht_entries t ! i). ht_index t (fst e) = i)"

lemma ht_index_less [simp]: "ht_index t k < 256"
proof -
  have "ht_hash t k AND 0xFF \<le> 0xFF" by (rule word_and_le1)
  then have "unat (ht_hash t k AND 0xFF) \<le> unat (0xFF :: u32)" by (simp only: word_le_nat_alt)
  then show ?thesis by (simp add: ht_index_def)
qed

lemma ht_inv_new [simp]: "ht_inv (hash_table_new h c)"
  by (auto simp: ht_inv_def hash_table_new_def)

lemma ht_new_sel [simp]:
  "ht_hash (hash_table_new h c) = h" "ht_compare (hash_table_new h c) = c"
  "ht_count (hash_table_new h c) = 0"
  by (simp_all add: hash_table_new_def)

lemma hash_table_lookup_new [simp]: "hash_table_lookup (Some (hash_table_new h c)) k = None"
proof -
  have "replicate 256 [] ! ht_index (hash_table_new h c) x = ([] :: ('a \<times> 'b) list)" for x
    by (simp only: nth_replicate ht_index_less)
  then show ?thesis
    by (auto simp: hash_table_lookup_def hash_table_new_def split: option.split)
qed

text \<open>The keys of a table, for hypotheses on the keys that were inserted.\<close>

definition ht_keys :: "('k, 'v) hashtable_t \<Rightarrow> 'k set" where
  "ht_keys t = fst ` set (concat (ht_entries t))"

lemma ht_keys_new [simp]: "ht_keys (hash_table_new h c) = {}"
  by (auto simp: ht_keys_def hash_table_new_def)

lemma chain_lookup_None_iff: "chain_lookup cmp es k = None \<longleftrightarrow> chain_replace cmp es k v = None"
  by (induction cmp es k v rule: chain_replace.induct) auto

lemma chain_replace_keys: "chain_replace cmp es k v = Some es' \<Longrightarrow> map fst es' = map fst es"
  by (induction cmp es k v arbitrary: es' rule: chain_replace.induct) (auto split: if_splits)

lemma ht_keys_entry: "es \<in> set (ht_entries t) \<Longrightarrow> fst ` set es \<subseteq> ht_keys t"
  unfolding ht_keys_def set_concat by (rule image_mono) (rule UN_upper)

lemma ht_keys_chain: "ht_inv t \<Longrightarrow> fst ` set (ht_entries t ! ht_index t k) \<subseteq> ht_keys t"
  by (rule ht_keys_entry, rule nth_mem) (simp add: ht_inv_def)

text \<open>What the insertion of a key into its chain produces, and its effect on the whole table.\<close>

definition chain_insert :: "('k \<Rightarrow> 'k \<Rightarrow> bool) \<Rightarrow> ('k \<times> 'v) list \<Rightarrow> 'k \<Rightarrow> 'v \<Rightarrow> ('k \<times> 'v) list" where
  "chain_insert cmp es k v = (case chain_replace cmp es k v of Some es' \<Rightarrow> es' | None \<Rightarrow> (k, v) # es)"

lemma hash_table_insert_eq:
  "hash_table_insert (Some t) (Some k) v =
     Some (t\<lparr>ht_entries := (ht_entries t)[ht_index t k :=
                chain_insert (ht_compare t) (ht_entries t ! ht_index t k) k v],
             ht_count := ht_count t + (if hash_table_lookup (Some t) (Some k) = None then 1 else 0)\<rparr>)"
  by (auto simp: hash_table_insert_def chain_insert_def hash_table_lookup_def Let_def
        chain_lookup_None_iff [of _ _ _ v] split: option.split)

lemma set_chain_insert: "fst ` set (chain_insert cmp es k v) \<subseteq> insert k (fst ` set es)"
  using chain_replace_keys [of cmp es k v, THEN arg_cong [where f = set]]
  by (auto simp: chain_insert_def split: option.split)

lemma length_chain_insert:
  "length (chain_insert cmp es k v) = length es + (if chain_lookup cmp es k = None then 1 else 0)"
  using chain_replace_keys [of cmp es k v, THEN map_eq_imp_length_eq]
  by (auto simp: chain_insert_def chain_lookup_None_iff [of _ _ _ v] split: option.split)

lemma length_concat_update:
  "i < length xss \<Longrightarrow> length (concat (xss[i := ys])) + length (xss ! i) = length (concat xss) + length ys"
proof (induction xss arbitrary: i)
  case (Cons xs xss)
  then show ?case by (cases i) auto
qed simp

lemma ht_inv_insert:
  assumes "ht_inv t" and "hash_table_insert (Some t) (Some k) v = Some t'"
  shows "ht_inv t'" "ht_hash t' = ht_hash t" "ht_compare t' = ht_compare t"
    "ht_keys t' \<subseteq> insert k (ht_keys t)"
    "ht_count t' = ht_count t + (if hash_table_lookup (Some t) (Some k) = None then 1 else 0)"
proof -
  let ?i = "ht_index t k" and ?es = "ht_entries t ! ht_index t k"
  let ?es' = "chain_insert (ht_compare t) ?es k v"
  from assms(1) have len: "length (ht_entries t) = 256"
    and cnt: "ht_count t = length (concat (ht_entries t))"
    and idx: "\<And>i e. i < 256 \<Longrightarrow> e \<in> set (ht_entries t ! i) \<Longrightarrow> ht_index t (fst e) = i"
    by (auto simp: ht_inv_def)
  from assms(2) have t': "t' = t\<lparr>ht_entries := (ht_entries t)[?i := ?es'],
      ht_count := ht_count t + (if hash_table_lookup (Some t) (Some k) = None then 1 else 0)\<rparr>"
    by (simp add: hash_table_insert_eq)
  then show sel: "ht_hash t' = ht_hash t" "ht_compare t' = ht_compare t"
    "ht_count t' = ht_count t + (if hash_table_lookup (Some t) (Some k) = None then 1 else 0)"
    by simp_all
  note keys_es = ht_keys_chain [OF assms(1), of k]
  have "fst ` set es \<subseteq> insert k (ht_keys t)" if "es \<in> set ((ht_entries t)[?i := ?es'])" for es
  proof (cases "es = ?es'")
    case True
    have "fst ` set ?es' \<subseteq> insert k (fst ` set ?es)" by (rule set_chain_insert)
    also have "\<dots> \<subseteq> insert k (ht_keys t)" using keys_es by blast
    finally show ?thesis using True by simp
  next
    case False
    with that have "es \<in> set (ht_entries t)"
      using set_update_subset_insert [of "ht_entries t" ?i ?es'] by blast
    then show ?thesis using ht_keys_entry [of es t] by blast
  qed
  then show "ht_keys t' \<subseteq> insert k (ht_keys t)"
    by (auto simp: ht_keys_def t' image_subset_iff)
  have "ht_index t' = ht_index t"
    using sel by (auto simp: ht_index_def fun_eq_iff)
  moreover have "ht_index t (fst e) = i" if "i < 256" "e \<in> set ((ht_entries t)[?i := ?es'] ! i)" for i e
  proof (cases "i = ?i")
    case True
    with that len have "fst e \<in> fst ` set ?es'" by auto
    with set_chain_insert [of "ht_compare t" ?es k v] have "fst e = k \<or> fst e \<in> fst ` set ?es" by auto
    with True idx [of ?i] show ?thesis by auto
  next
    case False
    with that idx show ?thesis by simp
  qed
  moreover have "length (concat ((ht_entries t)[?i := ?es'])) = ht_count t'"
    using length_concat_update [of ?i "ht_entries t" ?es'] len cnt
    by (simp add: length_chain_insert hash_table_lookup_def sel(3) split: if_splits)
  ultimately show "ht_inv t'"
    using len by (simp add: ht_inv_def t')
qed

section \<open>The contract of the client's hash and comparison\<close>

text \<open>
  The weak contract: on the keys that occur, the comparison is an equivalence.  Then a lookup
  after an insertion finds the new value exactly for the keys that are equal to the inserted one
  and fall into its chain; every other lookup is unchanged.
\<close>

locale key_equiv =
  fixes compare :: "'k \<Rightarrow> 'k \<Rightarrow> bool" and valid :: "'k \<Rightarrow> bool"
  assumes compare_refl: "valid a \<Longrightarrow> compare a a"
    and compare_sym: "valid a \<Longrightarrow> valid b \<Longrightarrow> compare a b \<Longrightarrow> compare b a"
    and compare_trans: "valid a \<Longrightarrow> valid b \<Longrightarrow> valid c \<Longrightarrow> compare a b \<Longrightarrow> compare b c \<Longrightarrow> compare a c"
begin

lemma chain_lookup_replace:
  assumes "chain_replace compare es k v = Some es'"
    and "valid k" "valid k'" "\<forall>e \<in> set es. valid (fst e)"
  shows "chain_lookup compare es' k' = (if compare k k' then Some v else chain_lookup compare es k')"
  using assms
proof (induction es arbitrary: es')
  case (Cons e es)
  obtain k0 v0 where e: "e = (k0, v0)" by (cases e)
  show ?case
  proof (cases "compare k0 k")
    case True
    then have "compare k0 k' = compare k k'"
      using Cons.prems e compare_sym compare_trans by (metis fst_conv list.set_intros(1))
    with Cons.prems e True show ?thesis by auto
  next
    case False
    moreover from this have "\<not> (compare k0 k' \<and> compare k k')"
      using Cons.prems e compare_sym compare_trans by (metis fst_conv list.set_intros(1))
    ultimately show ?thesis using Cons e by auto
  qed
qed simp

lemma chain_lookup_insert:
  assumes "valid k" "valid k'" "\<forall>e \<in> set es. valid (fst e)"
  shows "chain_lookup compare (chain_insert compare es k v) k' =
    (if compare k k' then Some v else chain_lookup compare es k')"
  using assms chain_lookup_replace [of es k v _ k']
  by (auto simp: chain_insert_def split: option.split)

lemma lookup_insert:
  assumes "ht_inv t" and "ht_compare t = compare" and "\<forall>k \<in> ht_keys t. valid k"
    and "valid k" "valid k'"
  shows "hash_table_lookup (hash_table_insert (Some t) (Some k) v) (Some k') =
    (if compare k k' \<and> ht_index t k = ht_index t k' then Some v
     else hash_table_lookup (Some t) (Some k'))"
proof -
  have len: "length (ht_entries t) = 256" using assms(1) by (simp add: ht_inv_def)
  then have "\<forall>e \<in> set (ht_entries t ! ht_index t k). valid (fst e)"
    using assms(3) ht_keys_chain [OF assms(1), of k] by auto
  note ins = chain_lookup_insert [OF assms(4,5) this, of v]
  have "ht_index (t\<lparr>ht_entries := es, ht_count := c\<rparr>) = ht_index t" for es c
    by (auto simp: ht_index_def fun_eq_iff)
  then show ?thesis
    using len ins assms(2)
    by (auto simp: hash_table_insert_eq hash_table_lookup_def nth_list_update)
qed

lemma lookup_insert_same:
  assumes "ht_inv t" and "ht_compare t = compare" and "\<forall>k \<in> ht_keys t. valid k" and "valid k"
  shows "hash_table_lookup (hash_table_insert (Some t) (Some k) v) (Some k) = Some v"
  using lookup_insert [OF assms(1-3) assms(4) assms(4)] compare_refl [OF assms(4)] by simp

end

text \<open>
  The full contract: equal keys also have equal hashes.  Then the table is a map on the
  equivalence classes of the keys.
\<close>

locale hash_key = key_equiv +
  fixes hash :: "'a \<Rightarrow> u32"
  assumes compare_hash: "valid a \<Longrightarrow> valid b \<Longrightarrow> compare a b \<Longrightarrow> hash a = hash b"
begin

lemma lookup_insert_class:
  assumes "ht_inv t" and "ht_compare t = compare" "ht_hash t = hash" and "\<forall>k \<in> ht_keys t. valid k"
    and "valid k" "valid k'"
  shows "hash_table_lookup (hash_table_insert (Some t) (Some k) v) (Some k') =
    (if compare k k' then Some v else hash_table_lookup (Some t) (Some k'))"
  using lookup_insert [OF assms(1,2,4-6)] compare_hash [OF assms(5,6)] assms(3)
  by (auto simp: ht_index_def)

end

end
