(* ===== verification/Plist_Data.thy ===== *)
theory Plist_Data imports Cnary_Query Hashtable begin

text \<open>
  The data a property list node points to: \<open>struct plist_data_s\<close> (src/plist.h), its allocation and
  release (plist.c), its comparison (\<open>plist_data_compare\<close>), its hash (\<open>plist_data_hash\<close> of bplist.c)
  and its copy (\<open>copy_plist_data\<close> of bplist.c).  The machine is little-endian with 64-bit pointers
  and \<open>long\<close>, a signed \<open>char\<close> and a \<open>struct timeval\<close> of two 8-byte members.
\<close>

section \<open>The structure and its store\<close>

datatype plist_type = PLIST_BOOLEAN | PLIST_UINT | PLIST_REAL | PLIST_STRING | PLIST_ARRAY | PLIST_DICT
  | PLIST_DATE | PLIST_DATA | PLIST_KEY | PLIST_UID | PLIST_NONE

fun type_code :: "plist_type \<Rightarrow> u32" where
  "type_code PLIST_BOOLEAN = 0" | "type_code PLIST_UINT = 1" | "type_code PLIST_REAL = 2"
| "type_code PLIST_STRING = 3" | "type_code PLIST_ARRAY = 4" | "type_code PLIST_DICT = 5"
| "type_code PLIST_DATE = 6" | "type_code PLIST_DATA = 7" | "type_code PLIST_KEY = 8"
| "type_code PLIST_UID = 9" | "type_code PLIST_NONE = 10"

text \<open>
  The anonymous union: sixteen bytes, as two words.  The first word is \<open>boolval\<close> (its low byte),
  \<open>intval\<close>, the bits of \<open>realval\<close>, \<open>tv_sec\<close>, or the pointer \<open>strval\<close> or \<open>buff\<close>; the second is
  \<open>tv_usec\<close>.  A pointer to an allocated buffer keeps its identity (\<open>BufP\<close>); the word 0 is NULL and
  any other word is a pointer that must not be followed.
\<close>

datatype pd_union = Bits u64 u64 | BufP nat u64

record plist_data =
  pd_val :: pd_union
  pd_length :: u64
  pd_type :: plist_type

record pstore =
  ps_data :: "nat \<Rightarrow> plist_data option"
  ps_bufs :: "nat \<Rightarrow> bytes option"
  ps_fresh :: nat

type_synonym pheap = "pstore heap"

definition empty_store :: pstore where
  "empty_store = \<lparr>ps_data = Map.empty, ps_bufs = Map.empty, ps_fresh = 1\<rparr>"

text \<open>The members of the union, read as the word they share and as a pointer.\<close>

fun word0 :: "pd_union \<Rightarrow> u64" where
  "word0 (Bits w v) = w"
| "word0 (BufP a v) = of_nat a"

fun word1 :: "pd_union \<Rightarrow> u64" where
  "word1 (Bits w v) = v"
| "word1 (BufP a v) = v"

fun union_ptr :: "pd_union \<Rightarrow> nat option option" where
  "union_ptr (BufP a v) = Some (Some a)"
| "union_ptr (Bits w v) = (if w = 0 then Some None else None)"

text \<open>Writing \<open>boolval\<close> changes one byte, \<open>intval\<close> and \<open>realval\<close> eight, \<open>timeval\<close> all sixteen.\<close>

definition put_bool :: "u8 \<Rightarrow> pd_union \<Rightarrow> pd_union" where
  "put_bool b u = Bits ((word0 u AND NOT 0xFF) OR ucast b) (word1 u)"

definition put_word :: "u64 \<Rightarrow> pd_union \<Rightarrow> pd_union" where
  "put_word w u = Bits w (word1 u)"

definition put_ptr :: "nat option \<Rightarrow> pd_union \<Rightarrow> pd_union" where
  "put_ptr p u = (case p of None \<Rightarrow> Bits 0 (word1 u) | Some a \<Rightarrow> BufP a (word1 u))"

section \<open>Memory\<close>

definition ld_data :: "pheap \<Rightarrow> nat option \<Rightarrow> plist_data option" where
  "ld_data h d = (case d of None \<Rightarrow> None | Some a \<Rightarrow> ps_data (hp_store h) a)"

definition upd_data :: "pheap \<Rightarrow> nat option \<Rightarrow> (plist_data \<Rightarrow> plist_data) \<Rightarrow> pheap option" where
  "upd_data h d f =
     (case d of
        None \<Rightarrow> None
      | Some a \<Rightarrow>
          (case ps_data (hp_store h) a of
             None \<Rightarrow> None
           | Some pd \<Rightarrow> Some (h\<lparr>hp_store := (hp_store h)\<lparr>ps_data := (ps_data (hp_store h))(a \<mapsto> f pd)\<rparr>\<rparr>)))"

definition alloc_buf :: "pheap \<Rightarrow> bytes \<Rightarrow> pheap \<times> nat" where
  "alloc_buf h bs =
     (let s = hp_store h
      in (h\<lparr>hp_store := s\<lparr>ps_bufs := (ps_bufs s)(ps_fresh s \<mapsto> bs), ps_fresh := Suc (ps_fresh s)\<rparr>\<rparr>,
          ps_fresh s))"

definition free_buf :: "pheap \<Rightarrow> nat option \<Rightarrow> pheap option" where
  "free_buf h p =
     (case p of
        None \<Rightarrow> Some h
      | Some a \<Rightarrow>
          if ps_bufs (hp_store h) a = None then None
          else Some (h\<lparr>hp_store := (hp_store h)\<lparr>ps_bufs := (ps_bufs (hp_store h))(a := None)\<rparr>\<rparr>))"

definition free_data :: "pheap \<Rightarrow> nat option \<Rightarrow> pheap option" where
  "free_data h d =
     (case d of
        None \<Rightarrow> Some h
      | Some a \<Rightarrow>
          if ps_data (hp_store h) a = None then None
          else Some (h\<lparr>hp_store := (hp_store h)\<lparr>ps_data := (ps_data (hp_store h))(a := None)\<rparr>\<rparr>))"

text \<open>The buffer a member points to; undefined for NULL, a wild pointer or freed memory.\<close>

definition ld_buf :: "pheap \<Rightarrow> pd_union \<Rightarrow> bytes option" where
  "ld_buf h u = do { p \<leftarrow> union_ptr u; a \<leftarrow> p; ps_bufs (hp_store h) a }"

text \<open>
  A C string is what precedes the first zero byte; \<open>strlen\<close>, \<open>strcmp\<close> and \<open>strdup\<close> are undefined
  on a buffer without one.  A \<open>const char*\<close> argument is given by its bytes.
\<close>

definition c_string :: "bytes \<Rightarrow> bytes" where
  "c_string bs = takeWhile (\<lambda>b. b \<noteq> 0) bs"

definition ld_str :: "pheap \<Rightarrow> pd_union \<Rightarrow> bytes option" where
  "ld_str h u = do { bs \<leftarrow> ld_buf h u; guard (0 \<in> set bs); Some (c_string bs) }"

definition strdup :: "pheap \<Rightarrow> bytes \<Rightarrow> pheap \<times> nat" where
  "strdup h val = alloc_buf h (c_string val @ [0])"

section \<open>Allocation and release (plist.c)\<close>

text \<open>\<open>calloc\<close>: all bytes zero, so the type is the first of the enumeration\<close>

definition plist_new_plist_data :: "pheap \<Rightarrow> pheap \<times> nat" where
  "plist_new_plist_data h =
     (let s = hp_store h
      in (h\<lparr>hp_store := s\<lparr>ps_data := (ps_data s)(ps_fresh s \<mapsto>
                \<lparr>pd_val = Bits 0 0, pd_length = 0, pd_type = PLIST_BOOLEAN\<rparr>),
              ps_fresh := Suc (ps_fresh s)\<rparr>\<rparr>, ps_fresh s))"

definition plist_free_data :: "pheap \<Rightarrow> nat option \<Rightarrow> pheap option" where
  "plist_free_data h data =
     (if data = None then Some h
      else do {
        d \<leftarrow> ld_data h data;
        h \<leftarrow> (case pd_type d of
               PLIST_KEY \<Rightarrow> do { p \<leftarrow> union_ptr (pd_val d); free_buf h p }
             | PLIST_STRING \<Rightarrow> do { p \<leftarrow> union_ptr (pd_val d); free_buf h p }
             | PLIST_DATA \<Rightarrow> do { p \<leftarrow> union_ptr (pd_val d); free_buf h p }
             | _ \<Rightarrow> Some h);
        free_data h data
      })"

definition plist_get_data :: "pheap \<Rightarrow> ptr \<Rightarrow> nat option option" where
  "plist_get_data h node = (if node = Null then Some None else do { n \<leftarrow> ld_node h node; Some (nd_data n) })"

definition plist_get_node_type :: "pheap \<Rightarrow> ptr \<Rightarrow> plist_type option" where
  "plist_get_node_type h node =
     (if node = Null then Some PLIST_NONE
      else do {
        data \<leftarrow> plist_get_data h node;
        if data = None then Some PLIST_NONE else do { d \<leftarrow> ld_data h data; Some (pd_type d) }
      })"

section \<open>Comparison, hash, copy\<close>

text \<open>\<open>memcmp\<close> of \<open>n\<close> bytes: undefined when either buffer is shorter\<close>

definition mem_equal :: "bytes \<Rightarrow> bytes \<Rightarrow> nat \<Rightarrow> bool option" where
  "mem_equal a b n = do { x \<leftarrow> read_bytes a 0 n; y \<leftarrow> read_bytes b 0 n; Some (x = y) }"

definition plist_data_compare :: "pheap \<Rightarrow> ptr \<Rightarrow> ptr \<Rightarrow> bool option" where
  "plist_data_compare h a b =
     (if a = Null \<or> b = Null then Some False
      else do {
        na \<leftarrow> ld_node h a;
        nb \<leftarrow> ld_node h b;
        if nd_data na = None \<or> nd_data nb = None then Some False
        else do {
          val_a \<leftarrow> ld_data h (nd_data na);
          val_b \<leftarrow> ld_data h (nd_data nb);
          if pd_type val_a \<noteq> pd_type val_b then Some False
          else if pd_type val_a \<in> {PLIST_BOOLEAN, PLIST_UINT, PLIST_REAL, PLIST_UID}
          then Some (word0 (pd_val val_a) = word0 (pd_val val_b))
          else if pd_type val_a \<in> {PLIST_KEY, PLIST_STRING}
          then do { x \<leftarrow> ld_str h (pd_val val_a); y \<leftarrow> ld_str h (pd_val val_b); Some (x = y) }
          else if pd_type val_a = PLIST_DATA
          then if pd_length val_a \<noteq> pd_length val_b then Some False
               else do {
                 x \<leftarrow> ld_buf h (pd_val val_a);
                 y \<leftarrow> ld_buf h (pd_val val_b);
                 mem_equal x y (unat (pd_length val_a))
               }
          else if pd_type val_a \<in> {PLIST_ARRAY, PLIST_DICT} then Some (a = b)
          else if pd_type val_a = PLIST_DATE
          then Some (word0 (pd_val val_a) = word0 (pd_val val_b) \<and> word1 (pd_val val_a) = word1 (pd_val val_b))
          else Some False
        }
      })"

text \<open>The bytes of a word in memory, and the address of a node as the hash sees it.\<close>

definition le_bytes :: "nat \<Rightarrow> u64 \<Rightarrow> bytes" where
  "le_bytes n w = map (\<lambda>i. ucast (drop_bit (8 * i) w)) [0..<n]"

fun ptr_word :: "ptr \<Rightarrow> u64" where
  "ptr_word Null = 0"
| "ptr_word (NodeP a) = of_nat a"
| "ptr_word (ListP a) = of_nat a"

text \<open>\<open>hash << 7 ^ *buff\<close> over the bytes, a \<open>char\<close> being sign-extended\<close>

fun hash_bytes :: "u32 \<Rightarrow> bytes \<Rightarrow> u32" where
  "hash_bytes hash [] = hash"
| "hash_bytes hash (b # bs) = hash_bytes (push_bit 7 hash XOR scast b) bs"

definition plist_data_hash :: "pheap \<Rightarrow> ptr \<Rightarrow> u32 option" where
  "plist_data_hash h key = do {
     data \<leftarrow> plist_get_data h key;
     d \<leftarrow> ld_data h data;
     buff \<leftarrow> (case pd_type d of
          PLIST_BOOLEAN \<Rightarrow> Some (le_bytes 8 (word0 (pd_val d)))
        | PLIST_UINT \<Rightarrow> Some (le_bytes 8 (word0 (pd_val d)))
        | PLIST_REAL \<Rightarrow> Some (le_bytes 8 (word0 (pd_val d)))
        | PLIST_UID \<Rightarrow> Some (le_bytes 8 (word0 (pd_val d)))
        | PLIST_KEY \<Rightarrow> ld_str h (pd_val d)
        | PLIST_STRING \<Rightarrow> ld_str h (pd_val d)
        | PLIST_DATA \<Rightarrow> Some (le_bytes 8 (ptr_word key))
        | PLIST_ARRAY \<Rightarrow> Some (le_bytes 8 (ptr_word key))
        | PLIST_DICT \<Rightarrow> Some (le_bytes 8 (ptr_word key))
        | PLIST_DATE \<Rightarrow> read_bytes (le_bytes 8 (word0 (pd_val d)) @ le_bytes 8 (word1 (pd_val d)))
                          0 (unat (ucast (pd_length d) :: u32))
        | PLIST_NONE \<Rightarrow> Some []);
     Some (hash_bytes (type_code (pd_type d)) buff)
   }"

text \<open>
  \<open>copy_plist_data\<close>, the copy function of \<open>node_copy_deep\<close> when a parsed object is referenced
  again.  For an array or a dictionary it copies \<open>length\<close> resp. \<open>2 * length\<close> bytes of the
  reference table that the parser left in \<open>buff\<close>.
\<close>

definition copy_buf :: "pheap \<Rightarrow> nat \<Rightarrow> plist_data \<Rightarrow> nat \<Rightarrow> pheap option" where
  "copy_buf h dst src n = do {
     bs \<leftarrow> ld_buf h (pd_val src);
     x \<leftarrow> read_bytes bs 0 n;
     let (h, p) = alloc_buf h x;
     upd_data h (Some dst) (\<lambda>d. d\<lparr>pd_val := put_ptr (Some p) (pd_val d)\<rparr>)
   }"

definition copy_plist_data :: "pstore copy_func" where
  "copy_plist_data h src = do {
     srcdata \<leftarrow> ld_data h src;
     let (h, dst) = plist_new_plist_data h;
     h \<leftarrow> upd_data h (Some dst) (\<lambda>d. d\<lparr>pd_type := pd_type srcdata, pd_length := pd_length srcdata\<rparr>);
     h \<leftarrow> (case pd_type srcdata of
          PLIST_BOOLEAN \<Rightarrow> upd_data h (Some dst) (\<lambda>d. d\<lparr>pd_val := put_bool (ucast (word0 (pd_val srcdata))) (pd_val d)\<rparr>)
        | PLIST_UINT \<Rightarrow> upd_data h (Some dst) (\<lambda>d. d\<lparr>pd_val := put_word (word0 (pd_val srcdata)) (pd_val d)\<rparr>)
        | PLIST_DATE \<Rightarrow> upd_data h (Some dst)
            (\<lambda>d. d\<lparr>pd_val := Bits (word0 (pd_val srcdata)) (word1 (pd_val srcdata))\<rparr>)
        | PLIST_REAL \<Rightarrow> upd_data h (Some dst) (\<lambda>d. d\<lparr>pd_val := put_word (word0 (pd_val srcdata)) (pd_val d)\<rparr>)
        | PLIST_KEY \<Rightarrow> do {
            s \<leftarrow> ld_str h (pd_val srcdata);
            let (h, p) = strdup h s;
            upd_data h (Some dst) (\<lambda>d. d\<lparr>pd_val := put_ptr (Some p) (pd_val d)\<rparr>)
          }
        | PLIST_STRING \<Rightarrow> do {
            s \<leftarrow> ld_str h (pd_val srcdata);
            let (h, p) = strdup h s;
            upd_data h (Some dst) (\<lambda>d. d\<lparr>pd_val := put_ptr (Some p) (pd_val d)\<rparr>)
          }
        | PLIST_DATA \<Rightarrow> copy_buf h dst srcdata (unat (pd_length srcdata))
        | PLIST_ARRAY \<Rightarrow> copy_buf h dst srcdata (unat (pd_length srcdata))
        | PLIST_DICT \<Rightarrow> copy_buf h dst srcdata (unat (pd_length srcdata * 2))
        | PLIST_UID \<Rightarrow> upd_data h (Some dst) (\<lambda>d. d\<lparr>pd_val := put_word (word0 (pd_val srcdata)) (pd_val d)\<rparr>)
        | PLIST_NONE \<Rightarrow> Some h);
     Some (h, Some dst)
   }"

end
