(* ===== verification/Plist.thy ===== *)
theory Plist imports Plist_Data begin

text \<open>
  \<open>airplay/libplist/src/plist.c\<close>: construction, release, copy, arrays, dictionaries, paths, and the
  typed getters and setters of property list nodes.  A \<open>plist_t\<close> is a pointer to a \<open>node_t\<close>.  A
  failing \<open>assert\<close> aborts, so like undefined behaviour it is \<open>None\<close>.
\<close>

section \<open>Construction\<close>

definition plist_new_node :: "pheap \<Rightarrow> nat option \<Rightarrow> (pheap \<times> ptr) option" where
  "plist_new_node h data = node_create h Null data"

definition plist_new_dict :: "pheap \<Rightarrow> (pheap \<times> ptr) option" where
  "plist_new_dict h = do {
     let (h, data) = plist_new_plist_data h;
     h \<leftarrow> upd_data h (Some data) (\<lambda>d. d\<lparr>pd_type := PLIST_DICT\<rparr>);
     plist_new_node h (Some data)
   }"

definition plist_new_array :: "pheap \<Rightarrow> (pheap \<times> ptr) option" where
  "plist_new_array h = do {
     let (h, data) = plist_new_plist_data h;
     h \<leftarrow> upd_data h (Some data) (\<lambda>d. d\<lparr>pd_type := PLIST_ARRAY\<rparr>);
     plist_new_node h (Some data)
   }"

definition plist_new_key :: "pheap \<Rightarrow> bytes \<Rightarrow> (pheap \<times> ptr) option" where
  "plist_new_key h val = do {
     let (h, data) = plist_new_plist_data h;
     h \<leftarrow> upd_data h (Some data) (\<lambda>d. d\<lparr>pd_type := PLIST_KEY\<rparr>);
     let (h, p) = strdup h val;
     h \<leftarrow> upd_data h (Some data) (\<lambda>d. d\<lparr>pd_val := put_ptr (Some p) (pd_val d)\<rparr>);
     h \<leftarrow> upd_data h (Some data) (\<lambda>d. d\<lparr>pd_length := of_nat (length (c_string val))\<rparr>);
     plist_new_node h (Some data)
   }"

definition plist_new_string :: "pheap \<Rightarrow> bytes \<Rightarrow> (pheap \<times> ptr) option" where
  "plist_new_string h val = do {
     let (h, data) = plist_new_plist_data h;
     h \<leftarrow> upd_data h (Some data) (\<lambda>d. d\<lparr>pd_type := PLIST_STRING\<rparr>);
     let (h, p) = strdup h val;
     h \<leftarrow> upd_data h (Some data) (\<lambda>d. d\<lparr>pd_val := put_ptr (Some p) (pd_val d)\<rparr>);
     h \<leftarrow> upd_data h (Some data) (\<lambda>d. d\<lparr>pd_length := of_nat (length (c_string val))\<rparr>);
     plist_new_node h (Some data)
   }"

definition plist_new_bool :: "pheap \<Rightarrow> u8 \<Rightarrow> (pheap \<times> ptr) option" where
  "plist_new_bool h val = do {
     let (h, data) = plist_new_plist_data h;
     h \<leftarrow> upd_data h (Some data) (\<lambda>d. d\<lparr>pd_type := PLIST_BOOLEAN\<rparr>);
     h \<leftarrow> upd_data h (Some data) (\<lambda>d. d\<lparr>pd_val := put_bool val (pd_val d)\<rparr>);
     h \<leftarrow> upd_data h (Some data) (\<lambda>d. d\<lparr>pd_length := 1\<rparr>);
     plist_new_node h (Some data)
   }"

definition plist_new_uint :: "pheap \<Rightarrow> u64 \<Rightarrow> (pheap \<times> ptr) option" where
  "plist_new_uint h val = do {
     let (h, data) = plist_new_plist_data h;
     h \<leftarrow> upd_data h (Some data) (\<lambda>d. d\<lparr>pd_type := PLIST_UINT\<rparr>);
     h \<leftarrow> upd_data h (Some data) (\<lambda>d. d\<lparr>pd_val := put_word val (pd_val d)\<rparr>);
     h \<leftarrow> upd_data h (Some data) (\<lambda>d. d\<lparr>pd_length := 8\<rparr>);
     plist_new_node h (Some data)
   }"

definition plist_new_uid :: "pheap \<Rightarrow> u64 \<Rightarrow> (pheap \<times> ptr) option" where
  "plist_new_uid h val = do {
     let (h, data) = plist_new_plist_data h;
     h \<leftarrow> upd_data h (Some data) (\<lambda>d. d\<lparr>pd_type := PLIST_UID\<rparr>);
     h \<leftarrow> upd_data h (Some data) (\<lambda>d. d\<lparr>pd_val := put_word val (pd_val d)\<rparr>);
     h \<leftarrow> upd_data h (Some data) (\<lambda>d. d\<lparr>pd_length := 8\<rparr>);
     plist_new_node h (Some data)
   }"

text \<open>A \<open>double\<close> is given by its 64 bits.\<close>

definition plist_new_real :: "pheap \<Rightarrow> u64 \<Rightarrow> (pheap \<times> ptr) option" where
  "plist_new_real h val = do {
     let (h, data) = plist_new_plist_data h;
     h \<leftarrow> upd_data h (Some data) (\<lambda>d. d\<lparr>pd_type := PLIST_REAL\<rparr>);
     h \<leftarrow> upd_data h (Some data) (\<lambda>d. d\<lparr>pd_val := put_word val (pd_val d)\<rparr>);
     h \<leftarrow> upd_data h (Some data) (\<lambda>d. d\<lparr>pd_length := 8\<rparr>);
     plist_new_node h (Some data)
   }"

definition plist_new_data :: "pheap \<Rightarrow> bytes \<Rightarrow> u64 \<Rightarrow> (pheap \<times> ptr) option" where
  "plist_new_data h val len = do {
     let (h, data) = plist_new_plist_data h;
     h \<leftarrow> upd_data h (Some data) (\<lambda>d. d\<lparr>pd_type := PLIST_DATA\<rparr>);
     bs \<leftarrow> read_bytes val 0 (unat len);
     let (h, p) = alloc_buf h bs;
     h \<leftarrow> upd_data h (Some data) (\<lambda>d. d\<lparr>pd_val := put_ptr (Some p) (pd_val d)\<rparr>);
     h \<leftarrow> upd_data h (Some data) (\<lambda>d. d\<lparr>pd_length := len\<rparr>);
     plist_new_node h (Some data)
   }"

definition plist_new_date :: "pheap \<Rightarrow> u32 \<Rightarrow> u32 \<Rightarrow> (pheap \<times> ptr) option" where
  "plist_new_date h sec usec = do {
     let (h, data) = plist_new_plist_data h;
     h \<leftarrow> upd_data h (Some data) (\<lambda>d. d\<lparr>pd_type := PLIST_DATE\<rparr>);
     h \<leftarrow> upd_data h (Some data) (\<lambda>d. d\<lparr>pd_val := Bits (scast sec) (word1 (pd_val d))\<rparr>);
     h \<leftarrow> upd_data h (Some data) (\<lambda>d. d\<lparr>pd_val := Bits (word0 (pd_val d)) (scast usec)\<rparr>);
     h \<leftarrow> upd_data h (Some data) (\<lambda>d. d\<lparr>pd_length := 16\<rparr>);
     plist_new_node h (Some data)
   }"

section \<open>Release\<close>

text \<open>\<open>plist_free_node\<close> and its loop over the children; fuel as for \<open>node_destroy\<close>\<close>

fun plist_free_node :: "nat \<Rightarrow> pheap \<Rightarrow> ptr \<Rightarrow> (pheap \<times> int) option"
  and plist_free_children :: "nat \<Rightarrow> pheap \<Rightarrow> node_iterator_t \<Rightarrow> pheap option" where
  "plist_free_node 0 h node = None"
| "plist_free_node (Suc f) h node = do {
     n \<leftarrow> ld_node h node;
     (h, index) \<leftarrow> node_detach h (nd_parent n) node;
     data \<leftarrow> plist_get_data h node;
     h \<leftarrow> plist_free_data h data;
     h \<leftarrow> upd_node h node (\<lambda>n. n\<lparr>nd_data := None\<rparr>);
     n \<leftarrow> ld_node h node;
     ni \<leftarrow> node_iterator_create h (nd_children n);
     h \<leftarrow> plist_free_children f h ni;
     h \<leftarrow> node_destroy (Suc f) h node;
     Some (h, index)
   }"
| "plist_free_children 0 h ni = None"
| "plist_free_children (Suc f) h ni = do {
     (ni, ch) \<leftarrow> node_iterator_next h ni;
     if ch = Null then Some h
     else do { (h, r) \<leftarrow> plist_free_node f h ch; plist_free_children f h ni }
   }"

definition plist_free :: "nat \<Rightarrow> pheap \<Rightarrow> ptr \<Rightarrow> pheap option" where
  "plist_free f h plist =
     (if plist \<noteq> Null then do { (h, r) \<leftarrow> plist_free_node f h plist; Some h } else Some h)"

section \<open>Copy\<close>

text \<open>
  The two switches of \<open>plist_copy_node\<close>: a byte copy of the structure, then a buffer of its own for
  a pointer.  The address of the parent variable is its value and the value it is left with.
\<close>

definition plist_copy_struct :: "pheap \<Rightarrow> ptr \<Rightarrow> (pheap \<times> nat) option" where
  "plist_copy_struct h node = do {
     data \<leftarrow> plist_get_data h node;
     let (h, newdata) = plist_new_plist_data h;
     guard (data \<noteq> None);
     d \<leftarrow> ld_data h data;
     h \<leftarrow> upd_data h (Some newdata) (\<lambda>_. d);
     node_type \<leftarrow> plist_get_node_type h node;
     h \<leftarrow> (case node_type of
          PLIST_DATA \<Rightarrow> do {
            bs \<leftarrow> ld_buf h (pd_val d);
            x \<leftarrow> read_bytes bs 0 (unat (pd_length d));
            let (h, p) = alloc_buf h x;
            upd_data h (Some newdata) (\<lambda>d. d\<lparr>pd_val := put_ptr (Some p) (pd_val d)\<rparr>)
          }
        | PLIST_KEY \<Rightarrow> do {
            s \<leftarrow> ld_str h (pd_val d);
            let (h, p) = strdup h s;
            upd_data h (Some newdata) (\<lambda>d. d\<lparr>pd_val := put_ptr (Some p) (pd_val d)\<rparr>)
          }
        | PLIST_STRING \<Rightarrow> do {
            s \<leftarrow> ld_str h (pd_val d);
            let (h, p) = strdup h s;
            upd_data h (Some newdata) (\<lambda>d. d\<lparr>pd_val := put_ptr (Some p) (pd_val d)\<rparr>)
          }
        | _ \<Rightarrow> Some h);
     Some (h, newdata)
   }"

fun plist_copy_node :: "nat \<Rightarrow> pheap \<Rightarrow> ptr \<Rightarrow> ptr \<Rightarrow> (pheap \<times> ptr) option"
  and plist_copy_children :: "nat \<Rightarrow> pheap \<Rightarrow> node_iterator_t \<Rightarrow> ptr \<Rightarrow> (pheap \<times> ptr) option" where
  "plist_copy_node 0 h node parent = None"
| "plist_copy_node (Suc f) h node parent = do {
     (h, newdata) \<leftarrow> plist_copy_struct h node;
     (h, newnode) \<leftarrow> plist_new_node h (Some newdata);
     (h, parent) \<leftarrow> (if parent \<noteq> Null
        then do { (h, r) \<leftarrow> node_attach h parent newnode; Some (h, parent) }
        else Some (h, newnode));
     n \<leftarrow> ld_node h node;
     ni \<leftarrow> node_iterator_create h (nd_children n);
     (h, newnode) \<leftarrow> plist_copy_children f h ni newnode;
     Some (h, parent)
   }"
| "plist_copy_children 0 h ni newnode = None"
| "plist_copy_children (Suc f) h ni newnode = do {
     (ni, ch) \<leftarrow> node_iterator_next h ni;
     if ch = Null then Some (h, newnode)
     else do { (h, newnode) \<leftarrow> plist_copy_node f h ch newnode; plist_copy_children f h ni newnode }
   }"

definition plist_copy :: "nat \<Rightarrow> pheap \<Rightarrow> ptr \<Rightarrow> (pheap \<times> ptr) option" where
  "plist_copy f h node = plist_copy_node f h node Null"

section \<open>Arrays\<close>

definition plist_get_parent :: "pheap \<Rightarrow> ptr \<Rightarrow> ptr option" where
  "plist_get_parent h node =
     (if node \<noteq> Null then do { n \<leftarrow> ld_node h node; Some (nd_parent n) } else Some Null)"

text \<open>\<open>node && type == plist_get_node_type(node)\<close>\<close>

definition is_type :: "pheap \<Rightarrow> ptr \<Rightarrow> plist_type \<Rightarrow> bool option" where
  "is_type h node type =
     (if node = Null then Some False else do { t \<leftarrow> plist_get_node_type h node; Some (type = t) })"

definition plist_array_get_size :: "pheap \<Rightarrow> ptr \<Rightarrow> u32 option" where
  "plist_array_get_size h node = do {
     ok \<leftarrow> is_type h node PLIST_ARRAY;
     if ok then node_n_children h node else Some 0
   }"

definition plist_array_get_item :: "pheap \<Rightarrow> ptr \<Rightarrow> u32 \<Rightarrow> ptr option" where
  "plist_array_get_item h node n = do {
     ok \<leftarrow> is_type h node PLIST_ARRAY;
     if ok then node_nth_child h node n else Some Null
   }"

definition plist_array_get_item_index :: "pheap \<Rightarrow> ptr \<Rightarrow> u32 option" where
  "plist_array_get_item_index h node = do {
     father \<leftarrow> plist_get_parent h node;
     t \<leftarrow> plist_get_node_type h father;
     if t = PLIST_ARRAY then do { i \<leftarrow> node_child_position h father node; Some (of_int i) } else Some 0
   }"

definition plist_array_set_item :: "nat \<Rightarrow> pheap \<Rightarrow> ptr \<Rightarrow> ptr \<Rightarrow> u32 \<Rightarrow> pheap option" where
  "plist_array_set_item f h node item n = do {
     ok \<leftarrow> is_type h node PLIST_ARRAY;
     if ok then do {
       old_item \<leftarrow> plist_array_get_item h node n;
       if old_item \<noteq> Null then do {
         (h, idx) \<leftarrow> plist_free_node f h old_item;
         (h, r) \<leftarrow> (if idx < 0 then node_attach h node item else node_insert h node (of_int idx) item);
         Some h
       } else Some h
     } else Some h
   }"

definition plist_array_append_item :: "pheap \<Rightarrow> ptr \<Rightarrow> ptr \<Rightarrow> pheap option" where
  "plist_array_append_item h node item = do {
     ok \<leftarrow> is_type h node PLIST_ARRAY;
     if ok then do { (h, r) \<leftarrow> node_attach h node item; Some h } else Some h
   }"

definition plist_array_insert_item :: "pheap \<Rightarrow> ptr \<Rightarrow> ptr \<Rightarrow> u32 \<Rightarrow> pheap option" where
  "plist_array_insert_item h node item n = do {
     ok \<leftarrow> is_type h node PLIST_ARRAY;
     if ok then do { (h, r) \<leftarrow> node_insert h node n item; Some h } else Some h
   }"

definition plist_array_remove_item :: "nat \<Rightarrow> pheap \<Rightarrow> ptr \<Rightarrow> u32 \<Rightarrow> pheap option" where
  "plist_array_remove_item f h node n = do {
     ok \<leftarrow> is_type h node PLIST_ARRAY;
     if ok then do {
       old_item \<leftarrow> plist_array_get_item h node n;
       if old_item \<noteq> Null then plist_free f h old_item else Some h
     } else Some h
   }"

end
