(* ===== verification/Plist_Access.thy ===== *)
theory Plist_Access imports Plist begin

text \<open>
  \<open>airplay/libplist/src/plist.c\<close>, continued: typed getters, dictionaries, paths, setters.
\<close>

section \<open>Reading a node\<close>

text \<open>What \<open>plist_get_type_and_value\<close> stores through its untyped \<open>value\<close> argument\<close>

datatype got = GotBool u8 | GotWord u64 | GotBuf nat | GotTime u64 u64 | GotNothing

text \<open>For a NULL node nothing is stored: the result has no type, value and length.\<close>

definition plist_get_type_and_value :: "pheap \<Rightarrow> ptr \<Rightarrow> (pheap \<times> (plist_type \<times> got \<times> u64) option) option" where
  "plist_get_type_and_value h node =
     (if node = Null then Some (h, None)
      else do {
        data \<leftarrow> plist_get_data h node;
        d \<leftarrow> ld_data h data;
        (h, v) \<leftarrow> (case pd_type d of
            PLIST_BOOLEAN \<Rightarrow> Some (h, GotBool (ucast (word0 (pd_val d))))
          | PLIST_UINT \<Rightarrow> Some (h, GotWord (word0 (pd_val d)))
          | PLIST_UID \<Rightarrow> Some (h, GotWord (word0 (pd_val d)))
          | PLIST_REAL \<Rightarrow> Some (h, GotWord (word0 (pd_val d)))
          | PLIST_KEY \<Rightarrow> do { s \<leftarrow> ld_str h (pd_val d); let (h, p) = strdup h s; Some (h, GotBuf p) }
          | PLIST_STRING \<Rightarrow> do { s \<leftarrow> ld_str h (pd_val d); let (h, p) = strdup h s; Some (h, GotBuf p) }
          | PLIST_DATA \<Rightarrow> do {
              bs \<leftarrow> ld_buf h (pd_val d);
              x \<leftarrow> read_bytes bs 0 (unat (pd_length d));
              let (h, p) = alloc_buf h x;
              Some (h, GotBuf p)
            }
          | PLIST_DATE \<Rightarrow> Some (h, GotTime (word0 (pd_val d)) (word1 (pd_val d)))
          | _ \<Rightarrow> Some (h, GotNothing));
        Some (h, Some (pd_type d, v, pd_length d))
      })"

text \<open>
  The string getters: \<open>val\<close> is the content of the caller's \<open>char *\<close> before the call, the result the
  content after it.  The assertion applies \<open>strlen\<close> to it on every path.
\<close>

definition get_str_val :: "plist_type \<Rightarrow> pheap \<Rightarrow> ptr \<Rightarrow> nat option \<Rightarrow> (pheap \<times> nat option) option" where
  "get_str_val want h node val = do {
     type \<leftarrow> plist_get_node_type h node;
     (h, val, len) \<leftarrow>
       (if type = want then do {
          (h, r) \<leftarrow> plist_get_type_and_value h node;
          (case r of Some (t, GotBuf p, len) \<Rightarrow> Some (h, Some p, len) | _ \<Rightarrow> Some (h, val, 0))
        } else Some (h, val, 0));
     s \<leftarrow> ld_str h (case val of None \<Rightarrow> Bits 0 0 | Some a \<Rightarrow> BufP a 0);
     guard (len = of_nat (length s));
     Some (h, val)
   }"

definition plist_get_key_val :: "pheap \<Rightarrow> ptr \<Rightarrow> nat option \<Rightarrow> (pheap \<times> nat option) option" where
  "plist_get_key_val = get_str_val PLIST_KEY"

definition plist_get_string_val :: "pheap \<Rightarrow> ptr \<Rightarrow> nat option \<Rightarrow> (pheap \<times> nat option) option" where
  "plist_get_string_val = get_str_val PLIST_STRING"

text \<open>The scalar getters; the assertion fails unless the node has the wanted type.\<close>

definition plist_get_bool_val :: "pheap \<Rightarrow> ptr \<Rightarrow> u8 option" where
  "plist_get_bool_val h node = do {
     type \<leftarrow> plist_get_node_type h node;
     if type = PLIST_BOOLEAN then do {
       (h, r) \<leftarrow> plist_get_type_and_value h node;
       (case r of Some (t, GotBool b, len) \<Rightarrow> do { guard (len = 1); Some b } | _ \<Rightarrow> None)
     } else None
   }"

definition get_word_val :: "plist_type \<Rightarrow> pheap \<Rightarrow> ptr \<Rightarrow> u64 option" where
  "get_word_val want h node = do {
     type \<leftarrow> plist_get_node_type h node;
     if type = want then do {
       (h, r) \<leftarrow> plist_get_type_and_value h node;
       (case r of Some (t, GotWord w, len) \<Rightarrow> do { guard (len = 8); Some w } | _ \<Rightarrow> None)
     } else None
   }"

definition plist_get_uint_val :: "pheap \<Rightarrow> ptr \<Rightarrow> u64 option" where
  "plist_get_uint_val = get_word_val PLIST_UINT"

definition plist_get_uid_val :: "pheap \<Rightarrow> ptr \<Rightarrow> u64 option" where
  "plist_get_uid_val = get_word_val PLIST_UID"

definition plist_get_real_val :: "pheap \<Rightarrow> ptr \<Rightarrow> u64 option" where
  "plist_get_real_val = get_word_val PLIST_REAL"

text \<open>\<open>plist_get_data_val\<close> asserts nothing: for another type it stores nothing.\<close>

definition plist_get_data_val :: "pheap \<Rightarrow> ptr \<Rightarrow> (pheap \<times> (nat \<times> u64) option) option" where
  "plist_get_data_val h node = do {
     type \<leftarrow> plist_get_node_type h node;
     if type = PLIST_DATA then do {
       (h, r) \<leftarrow> plist_get_type_and_value h node;
       (case r of Some (t, GotBuf p, len) \<Rightarrow> Some (h, Some (p, len)) | _ \<Rightarrow> Some (h, None))
     } else Some (h, None)
   }"

definition plist_get_date_val :: "pheap \<Rightarrow> ptr \<Rightarrow> (u32 \<times> u32) option" where
  "plist_get_date_val h node = do {
     type \<leftarrow> plist_get_node_type h node;
     if type = PLIST_DATE then do {
       (h, r) \<leftarrow> plist_get_type_and_value h node;
       (case r of Some (t, GotTime s u, len) \<Rightarrow> do { guard (len = 16); Some (ucast s, ucast u) } | _ \<Rightarrow> None)
     } else None
   }"

section \<open>Dictionaries\<close>

definition plist_dict_get_size :: "pheap \<Rightarrow> ptr \<Rightarrow> u32 option" where
  "plist_dict_get_size h node = do {
     ok \<leftarrow> is_type h node PLIST_DICT;
     if ok then do { n \<leftarrow> node_n_children h node; Some (n div 2) } else Some 0
   }"

text \<open>The iterator is a heap cell with a position: what it holds, if it was already created.\<close>

definition plist_dict_new_iter :: "u32 option \<Rightarrow> u32 option" where
  "plist_dict_new_iter iter = (case iter of None \<Rightarrow> Some 0 | Some i \<Rightarrow> Some i)"

text \<open>Arguments say whether \<open>key\<close> and \<open>val\<close> are given; the result is what is stored through them.\<close>

definition plist_dict_next_item ::
  "pheap \<Rightarrow> ptr \<Rightarrow> u32 \<Rightarrow> bool \<Rightarrow> bool \<Rightarrow> (pheap \<times> u32 \<times> nat option \<times> ptr) option" where
  "plist_dict_next_item h node iter_int want_key want_val = do {
     ok \<leftarrow> is_type h node PLIST_DICT;
     ok \<leftarrow> (if ok then do { n \<leftarrow> node_n_children h node; Some (iter_int < n) } else Some False);
     if ok then do {
       (h, key) \<leftarrow> (if want_key
          then do { kn \<leftarrow> node_nth_child h node iter_int; plist_get_key_val h kn None }
          else Some (h, None));
       val \<leftarrow> (if want_val then node_nth_child h node (iter_int + 1) else Some Null);
       Some (h, iter_int + 2, key, val)
     } else Some (h, iter_int, None, Null)
   }"

definition plist_dict_get_item_key :: "pheap \<Rightarrow> ptr \<Rightarrow> nat option \<Rightarrow> (pheap \<times> nat option) option" where
  "plist_dict_get_item_key h node key = do {
     father \<leftarrow> plist_get_parent h node;
     t \<leftarrow> plist_get_node_type h father;
     if t = PLIST_DICT then do { p \<leftarrow> node_prev_sibling h node; plist_get_key_val h p key }
     else Some (h, key)
   }"

text \<open>One look at a child of the dictionary: is it the key?  A child that is not a key aborts.\<close>

definition key_matches :: "pheap \<Rightarrow> bytes \<Rightarrow> ptr \<Rightarrow> bool option" where
  "key_matches h key current = do {
     data \<leftarrow> plist_get_data h current;
     t \<leftarrow> plist_get_node_type h current;
     guard (t = PLIST_KEY);
     if data = None then Some False
     else do { d \<leftarrow> ld_data h data; s \<leftarrow> ld_str h (pd_val d); Some (c_string key = s) }
   }"

definition dict_step :: "pheap \<Rightarrow> ptr \<Rightarrow> ptr option" where
  "dict_step h current = do { v \<leftarrow> node_next_sibling h current; node_next_sibling h v }"

partial_function (option) dict_get_loop :: "pheap \<Rightarrow> bytes \<Rightarrow> ptr \<Rightarrow> ptr option" where
  "dict_get_loop h key current =
     (if current = Null then Some Null
      else (case key_matches h key current of
              None \<Rightarrow> None
            | Some found \<Rightarrow>
                if found then node_next_sibling h current
                else (case dict_step h current of None \<Rightarrow> None | Some nx \<Rightarrow> dict_get_loop h key nx)))"

definition plist_dict_get_item :: "pheap \<Rightarrow> ptr \<Rightarrow> bytes \<Rightarrow> ptr option" where
  "plist_dict_get_item h node key = do {
     ok \<leftarrow> is_type h node PLIST_DICT;
     if ok then do { c \<leftarrow> node_first_child h node; dict_get_loop h key c } else Some Null
   }"

definition plist_dict_set_item :: "nat \<Rightarrow> pheap \<Rightarrow> ptr \<Rightarrow> bytes \<Rightarrow> ptr \<Rightarrow> pheap option" where
  "plist_dict_set_item f h node key item = do {
     ok \<leftarrow> is_type h node PLIST_DICT;
     if ok then do {
       old_item \<leftarrow> plist_dict_get_item h node key;
       if old_item \<noteq> Null then do {
         (h, idx) \<leftarrow> plist_free_node f h old_item;
         (h, r) \<leftarrow> (if idx < 0 then node_attach h node item else node_insert h node (of_int idx) item);
         Some h
       } else Some h
     } else Some h
   }"

definition plist_dict_insert_item :: "pheap \<Rightarrow> ptr \<Rightarrow> bytes \<Rightarrow> ptr \<Rightarrow> pheap option" where
  "plist_dict_insert_item h node key item = do {
     ok \<leftarrow> is_type h node PLIST_DICT;
     if ok then do {
       (h, k) \<leftarrow> plist_new_key h key;
       (h, r) \<leftarrow> node_attach h node k;
       (h, r) \<leftarrow> node_attach h node item;
       Some h
     } else Some h
   }"

definition plist_dict_remove_item :: "nat \<Rightarrow> pheap \<Rightarrow> ptr \<Rightarrow> bytes \<Rightarrow> pheap option" where
  "plist_dict_remove_item f h node key = do {
     ok \<leftarrow> is_type h node PLIST_DICT;
     if ok then do {
       old_item \<leftarrow> plist_dict_get_item h node key;
       if old_item \<noteq> Null then do {
         key_node \<leftarrow> node_prev_sibling h old_item;
         h \<leftarrow> plist_free f h key_node;
         plist_free f h old_item
       } else Some h
     } else Some h
   }"

section \<open>Paths\<close>

text \<open>The variable arguments: fetching one of the wrong type or past the last is undefined.\<close>

datatype path_arg = ArgIndex u32 | ArgKey bytes

fun plist_access_pathv :: "pheap \<Rightarrow> ptr \<Rightarrow> nat \<Rightarrow> path_arg list \<Rightarrow> ptr option" where
  "plist_access_pathv h current 0 v = Some current"
| "plist_access_pathv h current (Suc n) v =
     (if current = Null then Some current
      else do {
        type \<leftarrow> plist_get_node_type h current;
        if type = PLIST_ARRAY
        then (case v of
                ArgIndex i # v' \<Rightarrow> do { c \<leftarrow> plist_array_get_item h current i; plist_access_pathv h c n v' }
              | _ \<Rightarrow> None)
        else if type = PLIST_DICT
        then (case v of
                ArgKey k # v' \<Rightarrow> do { c \<leftarrow> plist_dict_get_item h current k; plist_access_pathv h c n v' }
              | _ \<Rightarrow> None)
        else plist_access_pathv h current n v
      })"

definition plist_access_path :: "pheap \<Rightarrow> ptr \<Rightarrow> u32 \<Rightarrow> path_arg list \<Rightarrow> ptr option" where
  "plist_access_path h plist len v = plist_access_pathv h plist (unat len) v"

section \<open>Writing a node\<close>

text \<open>The bytes a value argument points to, read as a little-endian word.\<close>

definition le_word :: "bytes \<Rightarrow> u64" where
  "le_word bs = foldr (\<lambda>b w. push_bit 8 w OR ucast b) bs 0"

definition plist_set_element_val :: "pheap \<Rightarrow> ptr \<Rightarrow> plist_type \<Rightarrow> bytes \<Rightarrow> u64 \<Rightarrow> pheap option" where
  "plist_set_element_val h node type value len = do {
     data \<leftarrow> plist_get_data h node;
     guard (data \<noteq> None);
     d \<leftarrow> ld_data h data;
     h \<leftarrow> (if pd_type d \<in> {PLIST_KEY, PLIST_STRING, PLIST_DATA}
          then do {
            p \<leftarrow> union_ptr (pd_val d);
            h \<leftarrow> free_buf h p;
            upd_data h data (\<lambda>d. d\<lparr>pd_val := put_ptr None (pd_val d)\<rparr>)
          } else Some h);
     h \<leftarrow> upd_data h data (\<lambda>d. d\<lparr>pd_type := type, pd_length := len\<rparr>);
     (case type of
        PLIST_BOOLEAN \<Rightarrow> do {
          x \<leftarrow> read_byte value 0;
          upd_data h data (\<lambda>d. d\<lparr>pd_val := put_bool x (pd_val d)\<rparr>)
        }
      | PLIST_UINT \<Rightarrow> do {
          x \<leftarrow> read_bytes value 0 8;
          upd_data h data (\<lambda>d. d\<lparr>pd_val := put_word (le_word x) (pd_val d)\<rparr>)
        }
      | PLIST_UID \<Rightarrow> do {
          x \<leftarrow> read_bytes value 0 8;
          upd_data h data (\<lambda>d. d\<lparr>pd_val := put_word (le_word x) (pd_val d)\<rparr>)
        }
      | PLIST_REAL \<Rightarrow> do {
          x \<leftarrow> read_bytes value 0 8;
          upd_data h data (\<lambda>d. d\<lparr>pd_val := put_word (le_word x) (pd_val d)\<rparr>)
        }
      | PLIST_KEY \<Rightarrow> do {
          let (h, p) = strdup h value;
          upd_data h data (\<lambda>d. d\<lparr>pd_val := put_ptr (Some p) (pd_val d)\<rparr>)
        }
      | PLIST_STRING \<Rightarrow> do {
          let (h, p) = strdup h value;
          upd_data h data (\<lambda>d. d\<lparr>pd_val := put_ptr (Some p) (pd_val d)\<rparr>)
        }
      | PLIST_DATA \<Rightarrow> do {
          x \<leftarrow> read_bytes value 0 (unat len);
          let (h, p) = alloc_buf h x;
          upd_data h data (\<lambda>d. d\<lparr>pd_val := put_ptr (Some p) (pd_val d)\<rparr>)
        }
      | PLIST_DATE \<Rightarrow> do {
          s \<leftarrow> read_bytes value 0 8;
          u \<leftarrow> read_bytes value 8 8;
          upd_data h data (\<lambda>d. d\<lparr>pd_val := Bits (le_word s) (le_word u)\<rparr>)
        }
      | _ \<Rightarrow> Some h)
   }"

text \<open>
  \<open>plist_set_type\<close> frees the node's data, allocates new data and gives it the type, but never
  stores its address in the node.
\<close>

definition plist_set_type :: "pheap \<Rightarrow> ptr \<Rightarrow> plist_type \<Rightarrow> pheap option" where
  "plist_set_type h node type = do {
     n \<leftarrow> node_n_children h node;
     if n = 0 then do {
       data \<leftarrow> plist_get_data h node;
       h \<leftarrow> plist_free_data h data;
       let (h, d) = plist_new_plist_data h;
       h \<leftarrow> upd_data h (Some d) (\<lambda>d. d\<lparr>pd_type := type\<rparr>);
       upd_data h (Some d) (\<lambda>d. d\<lparr>pd_length :=
         (case type of PLIST_BOOLEAN \<Rightarrow> 1 | PLIST_UINT \<Rightarrow> 8 | PLIST_UID \<Rightarrow> 8 | PLIST_REAL \<Rightarrow> 8
          | PLIST_DATE \<Rightarrow> 16 | _ \<Rightarrow> 0)\<rparr>)
     } else Some h
   }"

definition plist_set_key_val :: "pheap \<Rightarrow> ptr \<Rightarrow> bytes \<Rightarrow> pheap option" where
  "plist_set_key_val h node val = plist_set_element_val h node PLIST_KEY val (of_nat (length (c_string val)))"

definition plist_set_string_val :: "pheap \<Rightarrow> ptr \<Rightarrow> bytes \<Rightarrow> pheap option" where
  "plist_set_string_val h node val =
     plist_set_element_val h node PLIST_STRING val (of_nat (length (c_string val)))"

definition plist_set_bool_val :: "pheap \<Rightarrow> ptr \<Rightarrow> u8 \<Rightarrow> pheap option" where
  "plist_set_bool_val h node val = plist_set_element_val h node PLIST_BOOLEAN [val] 1"

definition plist_set_uint_val :: "pheap \<Rightarrow> ptr \<Rightarrow> u64 \<Rightarrow> pheap option" where
  "plist_set_uint_val h node val = plist_set_element_val h node PLIST_UINT (le_bytes 8 val) 8"

definition plist_set_uid_val :: "pheap \<Rightarrow> ptr \<Rightarrow> u64 \<Rightarrow> pheap option" where
  "plist_set_uid_val h node val = plist_set_element_val h node PLIST_UID (le_bytes 8 val) 8"

definition plist_set_real_val :: "pheap \<Rightarrow> ptr \<Rightarrow> u64 \<Rightarrow> pheap option" where
  "plist_set_real_val h node val = plist_set_element_val h node PLIST_REAL (le_bytes 8 val) 8"

definition plist_set_data_val :: "pheap \<Rightarrow> ptr \<Rightarrow> bytes \<Rightarrow> u64 \<Rightarrow> pheap option" where
  "plist_set_data_val h node val len = plist_set_element_val h node PLIST_DATA val len"

definition plist_set_date_val :: "pheap \<Rightarrow> ptr \<Rightarrow> u32 \<Rightarrow> u32 \<Rightarrow> pheap option" where
  "plist_set_date_val h node sec usec =
     plist_set_element_val h node PLIST_DATE (le_bytes 8 (scast sec) @ le_bytes 8 (scast usec)) 16"

end
