(* ===== verification/Plist_Store.thy ===== *)
theory Plist_Store imports Plist_Access begin

text \<open>
  The store of property list data: its invariant (every buffer has one owner), the value a data
  pointer denotes, and what allocation, release, copy, comparison and hash do to values.
\<close>

section \<open>Values\<close>

lemma c_string_idem [simp]: "c_string (c_string bs @ [0]) = c_string bs" "c_string (c_string bs) = c_string bs"
  by (auto simp: c_string_def takeWhile_append dest: set_takeWhileD)

text \<open>The scalar a node holds; for an array or a dictionary only its kind.\<close>

datatype pval = VBool u8 | VUint u64 | VReal u64 | VString bytes | VArray | VDict | VDate u64 u64
  | VData bytes | VKey bytes | VUid u64

definition word_val :: "(u64 \<Rightarrow> pval) \<Rightarrow> plist_data \<Rightarrow> pval option" where
  "word_val c d = (case pd_val d of Bits w v \<Rightarrow> if pd_length d = 8 then Some (c w) else None | _ \<Rightarrow> None)"

definition str_val :: "(bytes \<Rightarrow> pval) \<Rightarrow> pstore \<Rightarrow> plist_data \<Rightarrow> pval option" where
  "str_val c s d =
     (case pd_val d of
        BufP a v \<Rightarrow>
          (case ps_bufs s a of
             Some bs \<Rightarrow> if 0 \<in> set bs \<and> pd_length d = of_nat (length (c_string bs)) then Some (c (c_string bs)) else None
           | None \<Rightarrow> None)
      | _ \<Rightarrow> None)"

definition buf_val :: "pstore \<Rightarrow> plist_data \<Rightarrow> pval option" where
  "buf_val s d =
     (case pd_val d of
        BufP a v \<Rightarrow>
          (case ps_bufs s a of
             Some bs \<Rightarrow> if length bs = unat (pd_length d) then Some (VData bs) else None
           | None \<Rightarrow> None)
      | _ \<Rightarrow> None)"

definition data_val :: "pstore \<Rightarrow> plist_data \<Rightarrow> pval option" where
  "data_val s d =
     (case pd_type d of
        PLIST_BOOLEAN \<Rightarrow> (case pd_val d of
            Bits w v \<Rightarrow> if w < 256 \<and> pd_length d = 1 then Some (VBool (ucast w)) else None | _ \<Rightarrow> None)
      | PLIST_UINT \<Rightarrow> word_val VUint d
      | PLIST_REAL \<Rightarrow> word_val VReal d
      | PLIST_UID \<Rightarrow> word_val VUid d
      | PLIST_STRING \<Rightarrow> str_val VString s d
      | PLIST_KEY \<Rightarrow> str_val VKey s d
      | PLIST_DATA \<Rightarrow> buf_val s d
      | PLIST_DATE \<Rightarrow> (case pd_val d of
            Bits w v \<Rightarrow> if pd_length d = 16 then Some (VDate w v) else None | _ \<Rightarrow> None)
      | PLIST_ARRAY \<Rightarrow> Some VArray
      | PLIST_DICT \<Rightarrow> Some VDict
      | PLIST_NONE \<Rightarrow> None)"

definition plist_val :: "pstore \<Rightarrow> nat option \<Rightarrow> pval option" where
  "plist_val s d = (case d of None \<Rightarrow> None | Some a \<Rightarrow> (case ps_data s a of None \<Rightarrow> None | Some pd \<Rightarrow> data_val s pd))"

fun val_type :: "pval \<Rightarrow> plist_type" where
  "val_type (VBool _) = PLIST_BOOLEAN" | "val_type (VUint _) = PLIST_UINT" | "val_type (VReal _) = PLIST_REAL"
| "val_type (VString _) = PLIST_STRING" | "val_type VArray = PLIST_ARRAY" | "val_type VDict = PLIST_DICT"
| "val_type (VDate _ _) = PLIST_DATE" | "val_type (VData _) = PLIST_DATA" | "val_type (VKey _) = PLIST_KEY"
| "val_type (VUid _) = PLIST_UID"

lemmas data_val_defs = data_val_def word_val_def str_val_def buf_val_def

lemma data_val_type: "data_val s d = Some v \<Longrightarrow> pd_type d = val_type v"
  by (auto simp: data_val_defs split: plist_type.splits pd_union.splits option.splits if_splits)

lemma ucast_u8_u64:
  "w < 256 \<Longrightarrow> ucast (ucast w :: u8) = (w :: u64)" "ucast (b :: u8) < (256 :: u64)"
  "ucast (ucast b :: u64) = (b :: u8)"
proof -
  have up: "unat (ucast c :: u64) = unat c" for c :: u8
    using unsigned_less [of c, where ?'a = nat] by (simp add: unsigned_ucast_eq take_bit_nat_eq_self_iff)
  then show "ucast b < (256 :: u64)" using unsigned_less [of b, where ?'a = nat] by (simp add: word_less_nat_alt)
  show "ucast (ucast w :: u8) = w" if "w < 256"
  proof (rule word_unat_eq_iff [THEN iffD2])
    have "unat w < 2 ^ 8" using that by (simp add: word_less_nat_alt)
    then show "unat (ucast (ucast w :: u8) :: u64) = unat w"
      by (simp only: up) (simp add: unsigned_ucast_eq take_bit_nat_eq_self_iff)
  qed
  show "ucast (ucast b :: u64) = b"
  proof (rule word_unat_eq_iff [THEN iffD2])
    have "unat (ucast (ucast b :: u64) :: u8) = take_bit 8 (unat (ucast b :: u64))"
      by (subst unsigned_ucast_eq) simp
    also have "\<dots> = unat b"
      using unsigned_less [of b, where ?'a = nat] by (simp only: up) (simp add: take_bit_nat_eq_self_iff)
    finally show "unat (ucast (ucast b :: u64) :: u8) = unat b" .
  qed
qed

text \<open>The shape of a structure with a given value.\<close>

lemma data_val_iff:
  "data_val s d = Some (VBool b) \<longleftrightarrow> (\<exists>v. d = \<lparr>pd_val = Bits (ucast b) v, pd_length = 1, pd_type = PLIST_BOOLEAN\<rparr>)"
  "data_val s d = Some (VUint w) \<longleftrightarrow> (\<exists>v. d = \<lparr>pd_val = Bits w v, pd_length = 8, pd_type = PLIST_UINT\<rparr>)"
  "data_val s d = Some (VUid w) \<longleftrightarrow> (\<exists>v. d = \<lparr>pd_val = Bits w v, pd_length = 8, pd_type = PLIST_UID\<rparr>)"
  "data_val s d = Some (VReal w) \<longleftrightarrow> (\<exists>v. d = \<lparr>pd_val = Bits w v, pd_length = 8, pd_type = PLIST_REAL\<rparr>)"
  "data_val s d = Some (VDate w v) \<longleftrightarrow> d = \<lparr>pd_val = Bits w v, pd_length = 16, pd_type = PLIST_DATE\<rparr>"
  "data_val s d = Some (VString x) \<longleftrightarrow> (\<exists>a v bs. ps_bufs s a = Some bs \<and> 0 \<in> set bs \<and> c_string bs = x
     \<and> d = \<lparr>pd_val = BufP a v, pd_length = of_nat (length x), pd_type = PLIST_STRING\<rparr>)"
  "data_val s d = Some (VKey x) \<longleftrightarrow> (\<exists>a v bs. ps_bufs s a = Some bs \<and> 0 \<in> set bs \<and> c_string bs = x
     \<and> d = \<lparr>pd_val = BufP a v, pd_length = of_nat (length x), pd_type = PLIST_KEY\<rparr>)"
  "data_val s d = Some (VData x) \<longleftrightarrow> (\<exists>a v len. ps_bufs s a = Some x \<and> length x = unat len
     \<and> d = \<lparr>pd_val = BufP a v, pd_length = len, pd_type = PLIST_DATA\<rparr>)"
  "data_val s d = Some VArray \<longleftrightarrow> pd_type d = PLIST_ARRAY"
  "data_val s d = Some VDict \<longleftrightarrow> pd_type d = PLIST_DICT"
  by (cases d; cases "pd_type d";
      auto simp: data_val_defs ucast_u8_u64 split: pd_union.splits option.splits if_splits)+

lemma plist_valE:
  assumes "plist_val s d = Some v"
  obtains a pd where "d = Some a" "ps_data s a = Some pd" "data_val s pd = Some v" "pd_type pd = val_type v"
  using assms data_val_type by (auto simp: plist_val_def split: option.splits)

section \<open>The invariant\<close>

definition owned_buf :: "plist_data \<Rightarrow> nat option" where
  "owned_buf d = (if pd_type d \<in> {PLIST_KEY, PLIST_STRING, PLIST_DATA}
                  then (case pd_val d of BufP a v \<Rightarrow> Some a | _ \<Rightarrow> None) else None)"

definition ps_ok :: "pstore \<Rightarrow> bool" where
  "ps_ok s \<longleftrightarrow> (\<forall>a \<ge> ps_fresh s. ps_data s a = None \<and> ps_bufs s a = None)
     \<and> (\<forall>a d x. ps_data s a = Some d \<and> owned_buf d = Some x \<longrightarrow> ps_bufs s x \<noteq> None)
     \<and> (\<forall>a b d e x. ps_data s a = Some d \<and> ps_data s b = Some e \<and> owned_buf d = Some x
          \<and> owned_buf e = Some x \<longrightarrow> a = b)"

lemma ps_ok_empty [simp]: "ps_ok empty_store"
  by (simp add: ps_ok_def empty_store_def)

lemma ps_okD:
  assumes "ps_ok s"
  shows "ps_fresh s \<le> a \<Longrightarrow> ps_data s a = None" "ps_fresh s \<le> a \<Longrightarrow> ps_bufs s a = None"
    "ps_data s a = Some d \<Longrightarrow> owned_buf d = Some x \<Longrightarrow> ps_bufs s x \<noteq> None"
    "ps_data s a = Some d \<Longrightarrow> ps_data s b = Some e \<Longrightarrow> owned_buf d = Some x \<Longrightarrow> owned_buf e = Some x \<Longrightarrow> a = b"
  using assms unfolding ps_ok_def by blast+

text \<open>Growth: nothing that was allocated changes.\<close>

definition ps_ext :: "pstore \<Rightarrow> pstore \<Rightarrow> bool" where
  "ps_ext s s' \<longleftrightarrow> (\<forall>a d. ps_data s a = Some d \<longrightarrow> ps_data s' a = Some d)
     \<and> (\<forall>a b. ps_bufs s a = Some b \<longrightarrow> ps_bufs s' a = Some b)"

lemma ps_ext_refl [simp]: "ps_ext s s"
  by (simp add: ps_ext_def)

lemma ps_ext_trans: "ps_ext s s' \<Longrightarrow> ps_ext s' s'' \<Longrightarrow> ps_ext s s''"
  by (simp add: ps_ext_def)

lemma data_val_bufs:
  assumes "ps_bufs s' = ps_bufs s"
  shows "data_val s' d = data_val s d"
  unfolding data_val_defs assms by (rule refl)

lemma data_val_ext: "ps_ext s s' \<Longrightarrow> data_val s d = Some v \<Longrightarrow> data_val s' d = Some v"
  by (auto simp: data_val_defs ps_ext_def split: plist_type.splits pd_union.splits option.splits if_splits)

lemma plist_val_ext: "ps_ext s s' \<Longrightarrow> plist_val s d = Some v \<Longrightarrow> plist_val s' d = Some v"
  using data_val_ext [of s s'] by (auto simp: plist_val_def ps_ext_def split: option.splits)

section \<open>Allocation\<close>

text \<open>A new structure without a buffer, and one with a buffer of its own.\<close>

definition store_new :: "pstore \<Rightarrow> plist_data \<Rightarrow> pstore" where
  "store_new s d = s\<lparr>ps_data := (ps_data s)(ps_fresh s \<mapsto> d), ps_fresh := Suc (ps_fresh s)\<rparr>"

definition store_new_buf :: "pstore \<Rightarrow> plist_type \<Rightarrow> u64 \<Rightarrow> u64 \<Rightarrow> bytes \<Rightarrow> pstore" where
  "store_new_buf s t len w bs = s\<lparr>ps_data := (ps_data s)(ps_fresh s \<mapsto>
       \<lparr>pd_val = BufP (Suc (ps_fresh s)) w, pd_length = len, pd_type = t\<rparr>),
     ps_bufs := (ps_bufs s)(Suc (ps_fresh s) \<mapsto> bs), ps_fresh := Suc (Suc (ps_fresh s))\<rparr>"

lemma store_new_ok:
  assumes "ps_ok s" "owned_buf d = None"
  shows "ps_ok (store_new s d)" "ps_ext s (store_new s d)"
    "plist_val (store_new s d) (Some (ps_fresh s)) = data_val s d"
proof -
  show "ps_ok (store_new s d)"
    using assms unfolding ps_ok_def store_new_def by auto
  show "ps_ext s (store_new s d)"
    using ps_okD(1) [OF assms(1), of "ps_fresh s"] by (auto simp: ps_ext_def store_new_def)
  show "plist_val (store_new s d) (Some (ps_fresh s)) = data_val s d"
    using data_val_bufs [of "store_new s d" s] by (simp add: plist_val_def store_new_def)
qed

lemma store_new_buf_ok:
  assumes "ps_ok s"
  shows "ps_ok (store_new_buf s t len w bs)" "ps_ext s (store_new_buf s t len w bs)"
    "plist_val (store_new_buf s PLIST_STRING (of_nat (length (c_string bs))) w (c_string bs @ [0]))
       (Some (ps_fresh s)) = Some (VString (c_string bs))"
    "plist_val (store_new_buf s PLIST_KEY (of_nat (length (c_string bs))) w (c_string bs @ [0]))
       (Some (ps_fresh s)) = Some (VKey (c_string bs))"
    "length bs = unat len \<Longrightarrow>
     plist_val (store_new_buf s PLIST_DATA len w bs) (Some (ps_fresh s)) = Some (VData bs)"
proof -
  have less: "x < ps_fresh s" if "ps_data s a = Some d" "owned_buf d = Some x" for a d x
    using ps_okD(2,3) [OF assms] that by (metis not_le)
  let ?s = "store_new_buf s t len w bs" and ?n = "ps_fresh s"
  let ?d = "\<lparr>pd_val = BufP (Suc ?n) w, pd_length = len, pd_type = t\<rparr>"
  have data: "ps_data ?s a = (if a = ?n then Some ?d else ps_data s a)" for a
    by (simp add: store_new_buf_def)
  have bufs: "ps_bufs ?s a = (if a = Suc ?n then Some bs else ps_bufs s a)" for a
    by (simp add: store_new_buf_def)
  have new: "x = Suc ?n" if "owned_buf ?d = Some x" for x
    using that by (simp add: owned_buf_def split: if_splits)
  show "ps_ok ?s" unfolding ps_ok_def
  proof (intro conjI allI impI)
    show "ps_data ?s a = None" "ps_bufs ?s a = None" if "ps_fresh ?s \<le> a" for a
      using that ps_okD(1,2) [OF assms, of a] by (simp_all add: data bufs) (simp_all add: store_new_buf_def)
    show "ps_bufs ?s x \<noteq> None" if "ps_data ?s a = Some d \<and> owned_buf d = Some x" for a d x
      using that ps_okD(3) [OF assms, of a d x] new [of x] by (auto simp: data bufs split: if_splits)
    show "a = b" if "ps_data ?s a = Some d \<and> ps_data ?s b = Some e \<and> owned_buf d = Some x \<and> owned_buf e = Some x"
      for a b d e x
      using that ps_okD(4) [OF assms, of a d b e x] new [of x] less [of a d x] less [of b e x]
      by (auto simp: data split: if_splits)
  qed
  show "ps_ext s (store_new_buf s t len w bs)"
    using ps_okD(1,2) [OF assms, of "ps_fresh s"] ps_okD(2) [OF assms, of "Suc (ps_fresh s)"]
    by (auto simp: ps_ext_def store_new_buf_def)
  have idem: "c_string (c_string bs @ [0]) = c_string bs"
    by (auto simp: c_string_def takeWhile_append dest: set_takeWhileD)
  show "plist_val (store_new_buf s PLIST_STRING (of_nat (length (c_string bs))) w (c_string bs @ [0]))
       (Some (ps_fresh s)) = Some (VString (c_string bs))"
    "plist_val (store_new_buf s PLIST_KEY (of_nat (length (c_string bs))) w (c_string bs @ [0]))
       (Some (ps_fresh s)) = Some (VKey (c_string bs))"
    using idem by (simp_all add: plist_val_def store_new_buf_def data_val_defs)
  show "plist_val (store_new_buf s PLIST_DATA len w bs) (Some (ps_fresh s)) = Some (VData bs)"
    if "length bs = unat len"
    using that by (simp add: plist_val_def store_new_buf_def data_val_defs)
qed

lemma upd_data_simps [simp]:
  "ps_data (hp_store h) a = Some d \<Longrightarrow>
   upd_data h (Some a) f = Some (h\<lparr>hp_store := (hp_store h)\<lparr>ps_data := (ps_data (hp_store h))(a \<mapsto> f d)\<rparr>\<rparr>)"
  "ld_data h (Some a) = ps_data (hp_store h) a" "ld_data h None = None" "upd_data h None f = None"
  by (simp_all add: upd_data_def ld_data_def)

section \<open>Copies of data\<close>

lemma copy_plist_data_ok:
  assumes "ps_ok (hp_store h)" "plist_val (hp_store h) d = Some v" "v \<noteq> VArray" "v \<noteq> VDict"
  obtains s' d' where "copy_plist_data h d = Some (h\<lparr>hp_store := s'\<rparr>, d')" "ps_ok s'"
    "ps_ext (hp_store h) s'" "plist_val s' d' = Some v"
proof -
  from assms(2) obtain a pd where a: "d = Some a" "ps_data (hp_store h) a = Some pd"
    "data_val (hp_store h) pd = Some v" "pd_type pd = val_type v" by (rule plist_valE)
  let ?s = "hp_store h"
  note found = that
  note defs = copy_plist_data_def plist_new_plist_data_def Let_def store_new_def store_new_buf_def
    put_word_def put_bool_def put_ptr_def data_val_iff strdup_def alloc_buf_def ld_str_def ld_buf_def
    copy_buf_def read_bytes_def
  have plain: thesis if "copy_plist_data h d = Some (h\<lparr>hp_store := store_new ?s u\<rparr>, Some (ps_fresh ?s))"
    "data_val ?s u = Some v" "owned_buf u = None" for u
    using that store_new_ok [OF assms(1) that(3)] by (intro found) auto
  have buf: thesis
    if "copy_plist_data h d = Some (h\<lparr>hp_store := store_new_buf ?s t len 0 bs\<rparr>, Some (ps_fresh ?s))"
    "plist_val (store_new_buf ?s t len 0 bs) (Some (ps_fresh ?s)) = Some v" for t len bs
    using that store_new_buf_ok(1,2) [OF assms(1)] by (intro found) auto
  show thesis
  proof (cases v)
    case (VBool b)
    with a show thesis
      by (intro plain [of "\<lparr>pd_val = Bits (ucast b) 0, pd_length = 1, pd_type = PLIST_BOOLEAN\<rparr>"])
        (auto simp: defs owned_buf_def ucast_u8_u64)
  next
    case (VUint w)
    with a show thesis
      by (intro plain [of "\<lparr>pd_val = Bits w 0, pd_length = 8, pd_type = PLIST_UINT\<rparr>"])
        (auto simp: defs owned_buf_def)
  next
    case (VReal w)
    with a show thesis
      by (intro plain [of "\<lparr>pd_val = Bits w 0, pd_length = 8, pd_type = PLIST_REAL\<rparr>"])
        (auto simp: defs owned_buf_def)
  next
    case (VUid w)
    with a show thesis
      by (intro plain [of "\<lparr>pd_val = Bits w 0, pd_length = 8, pd_type = PLIST_UID\<rparr>"])
        (auto simp: defs owned_buf_def)
  next
    case (VDate w y)
    with a show thesis
      by (intro plain [of "\<lparr>pd_val = Bits w y, pd_length = 16, pd_type = PLIST_DATE\<rparr>"])
        (auto simp: defs owned_buf_def)
  next
    case (VString x)
    with a obtain bs where "c_string bs = x" by (auto simp: data_val_iff)
    with a VString store_new_buf_ok(3) [OF assms(1), of bs] show thesis
      by (intro buf [of PLIST_STRING "of_nat (length x)" "x @ [0]"]) (auto simp: defs c_string_idem)
  next
    case (VKey x)
    with a obtain bs where "c_string bs = x" by (auto simp: data_val_iff)
    with a VKey store_new_buf_ok(4) [OF assms(1), of bs] show thesis
      by (intro buf [of PLIST_KEY "of_nat (length x)" "x @ [0]"]) (auto simp: defs c_string_idem)
  next
    case (VData x)
    with a store_new_buf_ok(5) [OF assms(1), of x] show thesis
      by (intro buf [of PLIST_DATA "pd_length pd" x]) (auto simp: defs)
  qed (use assms in auto)
qed

end
