(* ===== verification/Plist_Keys.thy ===== *)
theory Plist_Keys imports Plist_Store begin

text \<open>
  \<open>plist_data_compare\<close> and \<open>plist_data_hash\<close> as the comparison and the hash of \<open>hashtable.c\<close>, and
  \<open>copy_plist_data\<close> as the copy function of \<open>node_copy_deep\<close>: the model's own instances of the
  contracts \<open>key_equiv\<close>, \<open>hash_key\<close> and \<open>data_copier\<close>.
\<close>

section \<open>Copying\<close>

text \<open>Data that \<open>copy_plist_data\<close> copies: any value but an array's or a dictionary's\<close>

definition leaf_ok :: "pstore \<Rightarrow> nat option \<Rightarrow> bool" where
  "leaf_ok s d \<longleftrightarrow> ps_ok s \<and> (\<exists>v. plist_val s d = Some v \<and> v \<noteq> VArray \<and> v \<noteq> VDict)"

interpretation bin_copy: data_copier copy_plist_data leaf_ok plist_val
proof unfold_locales
  fix h :: pheap and d
  assume "leaf_ok (hp_store h) d"
  then obtain v where v: "ps_ok (hp_store h)" "plist_val (hp_store h) d = Some v" "v \<noteq> VArray" "v \<noteq> VDict"
    by (auto simp: leaf_ok_def)
  from copy_plist_data_ok [OF v] obtain s' d' where c: "copy_plist_data h d = Some (h\<lparr>hp_store := s'\<rparr>, d')"
    "ps_ok s'" "ps_ext (hp_store h) s'" "plist_val s' d' = Some v" .
  show "\<exists>s' d'. copy_plist_data h d = Some (h\<lparr>hp_store := s'\<rparr>, d') \<and> leaf_ok s' d'
      \<and> plist_val s' d' = plist_val (hp_store h) d
      \<and> (\<forall>e. leaf_ok (hp_store h) e \<longrightarrow> leaf_ok s' e \<and> plist_val s' e = plist_val (hp_store h) e)"
    using c v plist_val_ext [OF c(3)] by (fastforce simp: leaf_ok_def)
qed

section \<open>Comparison and hash\<close>

text \<open>A node whose data has a value.\<close>

definition node_val :: "pheap \<Rightarrow> ptr \<Rightarrow> pval option" where
  "node_val h p = (case p of
     NodeP a \<Rightarrow> (case hp_nodes h a of None \<Rightarrow> None | Some n \<Rightarrow> plist_val (hp_store h) (nd_data n)) | _ \<Rightarrow> None)"

lemma node_valE:
  assumes "node_val h p = Some v"
  obtains a n d pd where "p = NodeP a" "hp_nodes h a = Some n" "nd_data n = Some d"
    "ps_data (hp_store h) d = Some pd" "data_val (hp_store h) pd = Some v" "pd_type pd = val_type v"
  using assms by (auto simp: node_val_def elim!: plist_valE split: ptr.splits option.splits)

definition same_object :: "ptr \<Rightarrow> pval \<Rightarrow> ptr \<Rightarrow> pval \<Rightarrow> bool" where
  "same_object a v b w \<longleftrightarrow> v = w \<and> (v = VArray \<or> v = VDict \<longrightarrow> a = b)"

lemma node_type_val: "node_val h p = Some v \<Longrightarrow> plist_get_node_type h p = Some (val_type v)"
  by (erule node_valE) (simp add: plist_get_node_type_def plist_get_data_def)

lemma ucast_u8_inj: "ucast (a :: u8) = (ucast b :: u64) \<longleftrightarrow> a = b"
  using ucast_u8_u64(3) by metis

lemma plist_data_compare_val:
  assumes "node_val h a = Some v" "node_val h b = Some w"
  shows "plist_data_compare h a b = Some (same_object a v b w)"
proof -
  from assms(1) obtain i n d pd where a: "a = NodeP i" "hp_nodes h i = Some n" "nd_data n = Some d"
    "ps_data (hp_store h) d = Some pd" "data_val (hp_store h) pd = Some v" "pd_type pd = val_type v"
    by (rule node_valE)
  from assms(2) obtain j m e pe where b: "b = NodeP j" "hp_nodes h j = Some m" "nd_data m = Some e"
    "ps_data (hp_store h) e = Some pe" "data_val (hp_store h) pe = Some w" "pd_type pe = val_type w"
    by (rule node_valE)
  show ?thesis
  proof (cases "val_type v = val_type w")
    case False
    then have "v \<noteq> w" by auto
    with False a b show ?thesis by (simp add: plist_data_compare_def same_object_def)
  next
    case True
    with a b show ?thesis
      by (cases v; cases w)
        (auto simp: plist_data_compare_def same_object_def data_val_iff ucast_u8_inj ld_str_def ld_buf_def
          mem_equal_def read_bytes_def simp flip: word_unat_eq_iff)
  qed
qed

definition plist_cmp_fun :: "pheap \<Rightarrow> ptr \<Rightarrow> ptr \<Rightarrow> bool" where
  "plist_cmp_fun h a b = (plist_data_compare h a b = Some True)"

definition plist_hash_fun :: "pheap \<Rightarrow> ptr \<Rightarrow> u32" where
  "plist_hash_fun h a = (case plist_data_hash h a of None \<Rightarrow> 0 | Some x \<Rightarrow> x)"

definition node_valid :: "pheap \<Rightarrow> ptr \<Rightarrow> bool" where
  "node_valid h p = (node_val h p \<noteq> None)"

definition node_hashable :: "pheap \<Rightarrow> ptr \<Rightarrow> bool" where
  "node_hashable h p = (\<exists>v. node_val h p = Some v \<and> (\<forall>x. v \<noteq> VData x))"

interpretation plist_key: key_equiv "plist_cmp_fun h" "node_valid h" for h
proof unfold_locales
  show "plist_cmp_fun h a a" if "node_valid h a" for a
    using that by (auto simp: node_valid_def plist_cmp_fun_def plist_data_compare_val same_object_def)
  show "plist_cmp_fun h b a" if "node_valid h a" "node_valid h b" "plist_cmp_fun h a b" for a b
    using that by (auto simp: node_valid_def plist_cmp_fun_def plist_data_compare_val same_object_def)
  show "plist_cmp_fun h a c"
    if "node_valid h a" "node_valid h b" "node_valid h c" "plist_cmp_fun h a b" "plist_cmp_fun h b c" for a b c
    using that by (auto simp: node_valid_def plist_cmp_fun_def plist_data_compare_val same_object_def)
qed

lemma length_le_bytes [simp]: "length (le_bytes n w) = n"
  by (simp add: le_bytes_def)

text \<open>The hash of a node as a function of its address and its value.\<close>

fun val_bytes :: "ptr \<Rightarrow> pval \<Rightarrow> bytes" where
  "val_bytes p (VBool b) = le_bytes 8 (ucast b)"
| "val_bytes p (VUint w) = le_bytes 8 w"
| "val_bytes p (VReal w) = le_bytes 8 w"
| "val_bytes p (VUid w) = le_bytes 8 w"
| "val_bytes p (VString s) = s"
| "val_bytes p (VKey s) = s"
| "val_bytes p (VDate w v) = le_bytes 8 w @ le_bytes 8 v"
| "val_bytes p VArray = le_bytes 8 (ptr_word p)"
| "val_bytes p VDict = le_bytes 8 (ptr_word p)"
| "val_bytes p (VData s) = le_bytes 8 (ptr_word p)"

lemma plist_data_hash_val:
  assumes "node_val h p = Some v"
  shows "plist_data_hash h p = Some (hash_bytes (type_code (val_type v)) (val_bytes p v))"
  using assms
  by (elim node_valE; cases v)
    (auto simp: plist_data_hash_def plist_get_data_def data_val_iff ld_str_def ld_buf_def read_bytes_def)

interpretation plist_hash: hash_key "plist_cmp_fun h" "node_hashable h" "plist_hash_fun h" for h
proof unfold_locales
  have sub: "node_valid h a" if "node_hashable h a" for a
    using that by (auto simp: node_valid_def node_hashable_def)
  show "plist_cmp_fun h a a" if "node_hashable h a" for a
    using that sub plist_key.compare_refl by blast
  show "plist_cmp_fun h b a" if "node_hashable h a" "node_hashable h b" "plist_cmp_fun h a b" for a b
    using that sub plist_key.compare_sym by blast
  show "plist_cmp_fun h a c" if "node_hashable h a" "node_hashable h b" "node_hashable h c"
    "plist_cmp_fun h a b" "plist_cmp_fun h b c" for a b c
    using that sub plist_key.compare_trans by blast
  show "plist_hash_fun h a = plist_hash_fun h b" if "node_hashable h a" "node_hashable h b" "plist_cmp_fun h a b" for a b
  proof -
    from that obtain v where v: "node_val h a = Some v" "node_val h b = Some v" "\<forall>x. v \<noteq> VData x"
      "v = VArray \<or> v = VDict \<longrightarrow> a = b"
      by (auto simp: node_hashable_def plist_cmp_fun_def plist_data_compare_val same_object_def)
    then have "val_bytes a v = val_bytes b v" by (cases v) auto
    with v show ?thesis by (simp add: plist_hash_fun_def plist_data_hash_val)
  qed
qed

end
