(* ===== verification/Plist_Free.thy ===== *)
theory Plist_Free imports Plist_Keys begin

text \<open>
  \<open>plist_free_node\<close> of plist.c: it releases exactly the nodes, the list headers, the data and the
  buffers of the subtree, each once, and detaches the subtree from its parent.
\<close>

section \<open>Released data\<close>

text \<open>\<open>x\<close> is the buffer of one of the data in \<open>D\<close>.\<close>

definition buf_of :: "nat option set \<Rightarrow> pstore \<Rightarrow> nat \<Rightarrow> bool" where
  "buf_of D s x \<longleftrightarrow> (\<exists>a d. Some a \<in> D \<and> ps_data s a = Some d \<and> owned_buf d = Some x)"

definition store_freed :: "nat option set \<Rightarrow> pstore \<Rightarrow> pstore \<Rightarrow> bool" where
  "store_freed D s s' \<longleftrightarrow>
     (\<forall>a. ps_data s' a = (if Some a \<in> D then None else ps_data s a))
     \<and> (\<forall>x. ps_bufs s' x = (if buf_of D s x then None else ps_bufs s x))
     \<and> ps_fresh s' = ps_fresh s"

lemma store_freed_empty [simp]: "store_freed {} s s"
  by (simp add: store_freed_def buf_of_def)

lemma store_freed_data: "store_freed D s s' \<Longrightarrow> Some a \<notin> D \<Longrightarrow> ps_data s' a = ps_data s a"
  by (simp add: store_freed_def)

lemma store_freed_Un:
  assumes "store_freed D s s'" "store_freed E s' s''" "D \<inter> E = {}"
  shows "store_freed (D \<union> E) s s''"
proof -
  have "buf_of (D \<union> E) s x \<longleftrightarrow> buf_of D s x \<or> buf_of E s' x" for x
    using assms(1,3) unfolding store_freed_def buf_of_def by (metis Un_iff disjoint_iff)
  then show ?thesis using assms(1,2) unfolding store_freed_def by simp
qed

lemma store_freed_ok:
  assumes "store_freed D s s'" "ps_ok s"
  shows "ps_ok s'"
proof -
  have data: "ps_data s a = Some d" "Some a \<notin> D" if "ps_data s' a = Some d" for a d
    using assms(1) that by (auto simp: store_freed_def split: if_splits)
  show ?thesis unfolding ps_ok_def
  proof (intro conjI allI impI)
    show "ps_data s' a = None" "ps_bufs s' a = None" if "ps_fresh s' \<le> a" for a
      using that ps_okD(1,2) [OF assms(2), of a] assms(1) by (auto simp: store_freed_def)
    show "ps_bufs s' x \<noteq> None" if "ps_data s' a = Some d \<and> owned_buf d = Some x" for a d x
      using that data ps_okD(3,4) [OF assms(2)] assms(1) unfolding store_freed_def buf_of_def by metis
    show "a = b" if "ps_data s' a = Some d \<and> ps_data s' b = Some e \<and> owned_buf d = Some x \<and> owned_buf e = Some x"
      for a b d e x
      using that data ps_okD(4) [OF assms(2), of a d b e x] by blast
  qed
qed

lemma store_freed_val:
  assumes "store_freed D s s'" "ps_ok s" "e \<notin> D" "plist_val s e = Some v"
  shows "plist_val s' e = Some v"
proof -
  from assms(4) obtain a pd where a: "e = Some a" "ps_data s a = Some pd" "data_val s pd = Some v"
    "pd_type pd = val_type v" by (rule plist_valE)
  have buf: "ps_bufs s' x = ps_bufs s x" if "owned_buf pd = Some x" for x
    using assms(1,3) a ps_okD(4) [OF assms(2)] that unfolding store_freed_def buf_of_def by metis
  have "data_val s' pd = Some v"
    using a(3,4) buf by (cases v) (auto simp: data_val_iff owned_buf_def)
  then show ?thesis using a assms(1,3) by (simp add: plist_val_def store_freed_data)
qed

text \<open>\<open>plist_free_data\<close> on data that has a value.\<close>

lemma plist_free_data_ok:
  assumes "ps_ok (hp_store h)" "plist_val (hp_store h) d = Some v"
  obtains s' where "plist_free_data h d = Some (h\<lparr>hp_store := s'\<rparr>)" "store_freed {d} (hp_store h) s'"
proof -
  from assms(2) obtain a pd where a: "d = Some a" "ps_data (hp_store h) a = Some pd"
    "data_val (hp_store h) pd = Some v" "pd_type pd = val_type v" by (rule plist_valE)
  let ?s = "hp_store h"
  note found = that
  show thesis
  proof (cases "owned_buf pd")
    case None
    with a have "plist_free_data h d = Some (h\<lparr>hp_store := ?s\<lparr>ps_data := (ps_data ?s)(a := None)\<rparr>\<rparr>)"
      by (cases v) (auto simp: plist_free_data_def free_data_def data_val_iff owned_buf_def)
    then show thesis using a None by (intro found) (auto simp: store_freed_def buf_of_def)
  next
    case (Some x)
    with a assms(1) have "ps_bufs ?s x \<noteq> None" using ps_okD(3) by blast
    with a Some have "plist_free_data h d = Some (h\<lparr>hp_store :=
        ?s\<lparr>ps_bufs := (ps_bufs ?s)(x := None), ps_data := (ps_data ?s)(a := None)\<rparr>\<rparr>)"
      by (cases v) (auto simp: plist_free_data_def free_data_def free_buf_def data_val_iff owned_buf_def)
    then show thesis using a Some by (intro found) (auto simp: store_freed_def buf_of_def)
  qed
qed

section \<open>Released trees\<close>

fun rt_dlist :: "rtree \<Rightarrow> nat option list" where
  "rt_dlist (RT a l b d ts) = d # concat (map rt_dlist ts)"

text \<open>Every node of the tree has data of its own, with a value.\<close>

definition data_in :: "pstore \<Rightarrow> nat option list \<Rightarrow> bool" where
  "data_in s ds \<longleftrightarrow> ps_ok s \<and> distinct ds \<and> (\<forall>d \<in> set ds. plist_val s d \<noteq> None)"

definition pfreed :: "nat set \<Rightarrow> nat set \<Rightarrow> nat option set \<Rightarrow> pheap \<Rightarrow> pheap \<Rightarrow> bool" where
  "pfreed A B D h h' \<longleftrightarrow> (\<forall>a. hp_nodes h' a = (if a \<in> A then None else hp_nodes h a))
     \<and> (\<forall>l. hp_lists h' l = (if l \<in> B then None else hp_lists h l))
     \<and> store_freed D (hp_store h) (hp_store h') \<and> hp_fresh h' = hp_fresh h"

lemma pfreed_frame: "pfreed A B D h h' \<Longrightarrow> heap_frame A B h h'"
  by (simp add: pfreed_def heap_frame_def)

text \<open>What \<open>plist_free_node\<close> does after it detached the node.\<close>

definition free_rest :: "nat \<Rightarrow> pheap \<Rightarrow> ptr \<Rightarrow> pheap option" where
  "free_rest f h node = do {
     data \<leftarrow> plist_get_data h node;
     h \<leftarrow> plist_free_data h data;
     h \<leftarrow> upd_node h node (\<lambda>n. n\<lparr>nd_data := None\<rparr>);
     n \<leftarrow> ld_node h node;
     ni \<leftarrow> node_iterator_create h (nd_children n);
     h \<leftarrow> plist_free_children f h ni;
     node_destroy (Suc f) h node
   }"

lemma plist_free_node_rest:
  "plist_free_node (Suc f) h node = do {
     n \<leftarrow> ld_node h node;
     (h, index) \<leftarrow> node_detach h (nd_parent n) node;
     h \<leftarrow> free_rest f h node;
     Some (h, index)
   }"
  by (auto simp: free_rest_def bind_eq_None_conv split: Option.bind_split prod.split)

text \<open>What the loop over the children leaves: the node itself, with an empty list.\<close>

definition kids_pfreed :: "nat \<Rightarrow> nat \<Rightarrow> rtree list \<Rightarrow> pheap \<Rightarrow> pheap \<Rightarrow> bool" where
  "kids_pfreed p l ts h h' \<longleftrightarrow>
     (\<forall>a. a \<noteq> p \<longrightarrow> hp_nodes h' a = (if a \<in> set (concat (map rt_addrs ts)) then None else hp_nodes h a))
     \<and> (\<forall>l'. l' \<noteq> l \<longrightarrow> hp_lists h' l' = (if l' \<in> set (concat (map rt_lists ts)) then None else hp_lists h l'))
     \<and> (\<exists>n. hp_nodes h' p = Some n \<and> nd_children n = ListP l) \<and> chain_rep h' l []
     \<and> store_freed (set (concat (map rt_dlist ts))) (hp_store h) (hp_store h') \<and> hp_fresh h' = hp_fresh h"

definition free_children_ok :: "nat \<Rightarrow> bool" where
  "free_children_ok f \<longleftrightarrow> (\<forall>h p n l b d ts ni. hp_nodes h p = Some n \<longrightarrow> nd_children n = ListP l \<longrightarrow>
      chain_rep h l (map rt_addr ts) \<longrightarrow> (\<forall>u \<in> set ts. tree_rep h (NodeP p) u) \<longrightarrow>
      rt_ok (RT p l b d ts) \<longrightarrow> it_value ni = kid_ptr ts 0 \<longrightarrow> data_in (hp_store h) (concat (map rt_dlist ts)) \<longrightarrow>
      Suc (2 * sum_list (map rt_size ts)) \<le> f \<longrightarrow>
      (\<exists>h'. plist_free_children f h ni = Some h' \<and> kids_pfreed p l ts h h'))"

lemma node_destroy_empty:
  assumes "hp_nodes h p = Some n" "nd_children n = ListP l" "chain_rep h l []" "0 < f"
  shows "node_destroy (Suc f) h (NodeP p) =
    Some (h\<lparr>hp_lists := (hp_lists h)(l := None), hp_nodes := (hp_nodes h)(p := None)\<rparr>)"
proof -
  from chain_rep_begin [OF assms(3)] obtain L where L: "hp_lists h l = Some L" "nl_begin L = Null" by auto
  have "node_destroy_children f h (NodeP p) = Some h"
    using assms L by (cases f) auto
  then show ?thesis
    using assms L by (auto simp: node_list_destroy_def list_destroy_def free_list_def free_node_def)
qed

lemma free_rest_ok:
  assumes IH: "free_children_ok f" and rep: "tree_rep h q t" and ok: "rt_ok t"
    and data: "data_in (hp_store h) (rt_dlist t)" and fuel: "2 * rt_size t \<le> Suc f"
  shows "\<exists>h'. free_rest f h (NodeP (rt_addr t)) = Some h'
    \<and> pfreed (set (rt_addrs t)) (set (rt_lists t)) (set (rt_dlist t)) h h'"
proof -
  obtain p l b d ts where t: "t = RT p l b d ts" by (cases t)
  from rep t obtain n where n: "hp_nodes h p = Some n" "nd_children n = ListP l" "nd_data n = d"
    and lrep: "list_rep h l (first_prev b l) (map rt_addr ts)" and trees: "\<forall>u \<in> set ts. tree_rep h (NodeP p) u"
    by auto
  have pn: "p \<notin> set (concat (map rt_addrs ts))" "l \<notin> set (concat (map rt_lists ts))"
    using ok t by (auto simp: rt_ok_def)
  from data t obtain v where v: "ps_ok (hp_store h)" "plist_val (hp_store h) d = Some v"
    by (auto simp: data_in_def)
  then obtain s' where s': "plist_free_data h d = Some (h\<lparr>hp_store := s'\<rparr>)" "store_freed {d} (hp_store h) s'"
    by (rule plist_free_data_ok)
  let ?h1 = "h\<lparr>hp_store := s', hp_nodes := (hp_nodes h)(p \<mapsto> n\<lparr>nd_data := None\<rparr>)\<rparr>"
  have p_roots: "p \<notin> set (map rt_addr ts)"
    using pn(1) rt_addr_in by fastforce
  have lrep1: "list_rep ?h1 l (first_prev b l) (map rt_addr ts)"
    using lrep by (rule list_rep_cong) (use p_roots in auto)
  then obtain L where L: "hp_lists h l = Some L" "nl_begin L = kid_ptr ts 0"
    by (auto elim!: list_repE dest: dseg_start)
  have kids1: "\<forall>u \<in> set ts. tree_rep ?h1 (NodeP p) u"
  proof
    fix u assume u: "u \<in> set ts"
    show "tree_rep ?h1 (NodeP p) u"
      by (rule tree_rep_heap_frame [OF trees [rule_format, OF u] _, where A = "{p}" and B = "{}"])
        (use u ok t rt_ok_kid [of p l b d ts u] in \<open>auto simp: heap_frame_def\<close>)
  qed
  have data1: "data_in s' (concat (map rt_dlist ts))"
    using data t store_freed_ok [OF s'(2) v(1)] store_freed_val [OF s'(2) v(1)]
    by (auto simp: data_in_def) (metis option.distinct(1))
  define ni where "ni = \<lparr>it_position = 0, it_count = nl_count L, it_begin = nl_begin L, it_end = nl_end L,
    it_value = nl_begin L\<rparr>"
  have "\<exists>h'. plist_free_children f ?h1 ni = Some h' \<and> kids_pfreed p l ts ?h1 h'"
    using IH [unfolded free_children_ok_def, rule_format (no_asm),
        of ?h1 p "n\<lparr>nd_data := None\<rparr>" l ts b d ni] n lrep1 kids1 ok t data1 fuel L(2)
    by (auto simp: chain_rep_def ni_def)
  then obtain h2 where h2: "plist_free_children f ?h1 ni = Some h2" "kids_pfreed p l ts ?h1 h2" by blast
  then obtain m where m: "hp_nodes h2 p = Some m" "nd_children m = ListP l" "chain_rep h2 l []"
    by (auto simp: kids_pfreed_def)
  let ?h3 = "h2\<lparr>hp_lists := (hp_lists h2)(l := None), hp_nodes := (hp_nodes h2)(p := None)\<rparr>"
  have "0 < f" using fuel t by (cases f) auto
  with m have destroy: "node_destroy (Suc f) h2 (NodeP p) = Some ?h3" by (rule node_destroy_empty)
  have "free_rest f h (NodeP (rt_addr t)) = Some ?h3"
    using n t s'(1) L(1) h2(1) destroy [unfolded node_destroy.simps(2)]
    by (simp add: free_rest_def plist_get_data_def node_iterator_create_def node_iterator_bind_def ni_def)
  moreover have "store_freed (insert d (set (concat (map rt_dlist ts)))) (hp_store h) (hp_store h2)"
    using store_freed_Un [OF s'(2), of "set (concat (map rt_dlist ts))" "hp_store h2"] h2(2) data t
    by (simp add: kids_pfreed_def data_in_def)
  then have "pfreed (set (rt_addrs t)) (set (rt_lists t)) (set (rt_dlist t)) h ?h3"
    using h2(2) t by (auto simp: pfreed_def kids_pfreed_def)
  ultimately show ?thesis by blast
qed

text \<open>One round of the loop: the first child is detached from \<open>p\<close> and released.\<close>

lemma free_round:
  assumes n: "hp_nodes h p = Some n" "nd_children n = ListP l"
    and chain: "chain_rep h l (map rt_addr (t # ts))"
    and trees: "\<forall>u \<in> set (t # ts). tree_rep h (NodeP p) u" and ok: "rt_ok (RT p l b d (t # ts))"
  obtains h1 n1 where "node_detach h (NodeP p) (NodeP (rt_addr t)) = Some (h1, 0)"
    "tree_rep h1 (NodeP p) t" "hp_store h1 = hp_store h" "hp_fresh h1 = hp_fresh h"
    "heap_frame (insert p (rt_addr ` set (t # ts))) {l} h h1"
    "hp_nodes h1 p = Some n1" "nd_children n1 = ListP l"
    "\<And>D h2. pfreed (set (rt_addrs t)) (set (rt_lists t)) D h1 h2 \<Longrightarrow>
       hp_nodes h2 p = Some n1 \<and> chain_rep h2 l (map rt_addr ts) \<and> (\<forall>u \<in> set ts. tree_rep h2 (NodeP p) u)"
proof -
  from destroy_round [OF n chain trees ok]
  obtain h0 where h0: "node_list_remove h (ListP l) (NodeP (rt_addr t)) = Some (h0, 0)"
    "tree_rep h0 (NodeP p) t" "links_only (rt_addr ` set (t # ts)) l h h0"
    "\<And>h2. freed (set (rt_addrs t)) (set (rt_lists t)) h0 h2 \<Longrightarrow>
       hp_nodes h2 p = Some n \<and> chain_rep h2 l (map rt_addr ts) \<and> (\<forall>u \<in> set ts. tree_rep h2 (NodeP p) u)"
    by blast
  have pne: "p \<notin> set (rt_addrs u)" if "u \<in> set (t # ts)" for u
    using rt_ok_kid(2) [OF ok that] .
  then have "p \<notin> rt_addr ` set (t # ts)" using rt_addr_in by blast
  then have p0: "hp_nodes h0 p = Some n"
    using links_only_sel(4) [OF h0(3), of p] n by simp
  define n1 where "n1 = n\<lparr>nd_count := nd_count n - 1\<rparr>"
  define h1 where "h1 = h0\<lparr>hp_nodes := (hp_nodes h0)(p \<mapsto> n1)\<rparr>"
  have "node_detach h (NodeP p) (NodeP (rt_addr t)) = Some (h1, 0)"
    using n h0(1) p0 by (simp add: node_detach_def h1_def n1_def)
  moreover have "tree_rep h1 (NodeP p) t"
    by (rule tree_rep_heap_frame [OF h0(2), where A = "{p}" and B = "{}"])
      (use rt_ok_kid [OF ok, of t] in \<open>auto simp: heap_frame_def h1_def\<close>)
  moreover have "hp_store h1 = hp_store h" "hp_fresh h1 = hp_fresh h"
    using links_only_sel(1,2) [OF h0(3)] by (simp_all add: h1_def)
  moreover have "heap_frame (insert p (rt_addr ` set (t # ts))) {l} h h1"
    using links_only_sel(3,4) [OF h0(3)] by (auto simp: heap_frame_def h1_def)
  moreover have "hp_nodes h1 p = Some n1" "nd_children n1 = ListP l" using n by (simp_all add: h1_def n1_def)
  moreover have "hp_nodes h2 p = Some n1 \<and> chain_rep h2 l (map rt_addr ts) \<and> (\<forall>u \<in> set ts. tree_rep h2 (NodeP p) u)"
    if f: "pfreed (set (rt_addrs t)) (set (rt_lists t)) D h1 h2" for D h2
  proof -
    let ?h2 = "h2\<lparr>hp_nodes := (hp_nodes h2)(p \<mapsto> n), hp_store := hp_store h0\<rparr>"
    have "freed (set (rt_addrs t)) (set (rt_lists t)) h0 ?h2"
      using f pne [of t] p0 by (auto simp: freed_def pfreed_def h1_def)
    from h0(4) [OF this] have h2: "chain_rep ?h2 l (map rt_addr ts)" "\<forall>u \<in> set ts. tree_rep ?h2 (NodeP p) u"
      by blast+
    have "hp_nodes h2 p = Some n1" using f pne [of t] by (simp add: pfreed_def h1_def)
    moreover have "chain_rep h2 l (map rt_addr ts)"
      using h2(1) by (rule chain_rep_cong) (use \<open>p \<notin> rt_addr ` set (t # ts)\<close> in auto)
    moreover have "tree_rep h2 (NodeP p) u" if u: "u \<in> set ts" for u
      by (rule tree_rep_heap_frame [OF h2(2) [rule_format, OF u], where A = "{p}" and B = "{}"])
        (use rt_ok_kid [OF ok, of u] u in \<open>auto simp: heap_frame_def\<close>)
    ultimately show ?thesis by blast
  qed
  ultimately show thesis by (rule that)
qed

lemma chain_rep_next:
  assumes "chain_rep h l (map rt_addr (t # ts))"
  shows "get_next h (NodeP (rt_addr t)) = Some (kid_ptr ts 0)"
  using assms by (cases ts) (auto simp: chain_rep_def kid_ptr_def elim!: list_repE)

lemma kids_pfreed_step:
  assumes f: "heap_frame (insert p (rt_addr ` set (t # us))) {l} h h1"
    "hp_store h1 = hp_store h" "hp_fresh h1 = hp_fresh h"
    and t: "pfreed (set (rt_addrs t)) (set (rt_lists t)) (set (rt_dlist t)) h1 h2"
    and us: "kids_pfreed p l us h2 h'" and dist: "distinct (concat (map rt_dlist (t # us)))"
  shows "kids_pfreed p l (t # us) h h'"
proof -
  have roots: "rt_addr ` set (t # us) \<subseteq> set (concat (map rt_addrs (t # us)))"
    using rt_addr_in unfolding set_concat set_map by blast
  have "hp_nodes h' a = (if a \<in> set (concat (map rt_addrs (t # us))) then None else hp_nodes h a)"
    if "a \<noteq> p" for a
    using f(1) t us roots that unfolding pfreed_def kids_pfreed_def heap_frame_def
    by (cases "a \<in> rt_addr ` set (t # us)") auto
  moreover have "hp_lists h' l' = (if l' \<in> set (concat (map rt_lists (t # us))) then None else hp_lists h l')"
    if "l' \<noteq> l" for l'
    using f(1) t us that by (auto simp: pfreed_def kids_pfreed_def heap_frame_def)
  moreover have "store_freed (set (concat (map rt_dlist (t # us)))) (hp_store h) (hp_store h')"
    using store_freed_Un [of "set (rt_dlist t)" "hp_store h1" "hp_store h2"
        "set (concat (map rt_dlist us))" "hp_store h'"] f(2) t us dist
    by (simp add: pfreed_def kids_pfreed_def)
  ultimately show ?thesis
    using f(3) t us unfolding kids_pfreed_def pfreed_def by presburger
qed

lemma data_in_rest:
  assumes "data_in s (ds @ es)" "store_freed (set ds) s s'"
  shows "data_in s' es"
proof -
  have "e \<notin> set ds" if "e \<in> set es" for e using assms(1) that by (auto simp: data_in_def)
  then show ?thesis
    using assms store_freed_ok [OF assms(2)] store_freed_val [OF assms(2)] unfolding data_in_def
    by (metis distinct_append in_set_conv_decomp_first option.distinct(1) option.exhaust Un_iff set_append)
qed

lemma free_children_step:
  assumes IH: "\<And>g. g < f \<Longrightarrow> free_children_ok g"
    and n: "hp_nodes h p = Some n" "nd_children n = ListP l" and chain: "chain_rep h l (map rt_addr ts)"
    and trees: "\<forall>u \<in> set ts. tree_rep h (NodeP p) u" and ok: "rt_ok (RT p l b d ts)"
    and ni: "it_value ni = kid_ptr ts 0" and data: "data_in (hp_store h) (concat (map rt_dlist ts))"
    and fuel: "Suc (2 * sum_list (map rt_size ts)) \<le> f"
  shows "\<exists>h'. plist_free_children f h ni = Some h' \<and> kids_pfreed p l ts h h'"
proof -
  from fuel obtain g where g: "f = Suc g" by (cases f) auto
  show ?thesis
  proof (cases ts)
    case Nil
    with ni n chain g show ?thesis
      by (intro exI [of _ h]) (simp add: node_iterator_next_def kid_ptr_def kids_pfreed_def)
  next
    case (Cons t us)
    obtain h1 n1 where h1: "node_detach h (NodeP p) (NodeP (rt_addr t)) = Some (h1, 0)"
      "tree_rep h1 (NodeP p) t" "hp_store h1 = hp_store h" "hp_fresh h1 = hp_fresh h"
      "heap_frame (insert p (rt_addr ` set (t # us))) {l} h h1"
      "hp_nodes h1 p = Some n1" "nd_children n1 = ListP l"
      "\<And>D h2. pfreed (set (rt_addrs t)) (set (rt_lists t)) D h1 h2 \<Longrightarrow>
         hp_nodes h2 p = Some n1 \<and> chain_rep h2 l (map rt_addr us) \<and> (\<forall>u \<in> set us. tree_rep h2 (NodeP p) u)"
      by (rule free_round [OF n chain [unfolded Cons] trees [unfolded Cons] ok [unfolded Cons]]) blast
    have pos: "0 < rt_size t" by (rule rt_size_pos)
    then obtain k where k: "g = Suc k" using fuel g Cons by (cases g) auto
    have dt: "data_in (hp_store h1) (rt_dlist t)"
      using data Cons h1(3) by (auto simp: data_in_def)
    have "\<exists>h2. free_rest k h1 (NodeP (rt_addr t)) = Some h2
        \<and> pfreed (set (rt_addrs t)) (set (rt_lists t)) (set (rt_dlist t)) h1 h2"
      using fuel g k Cons rt_ok_kid(1) [OF ok] by (intro free_rest_ok [OF IH h1(2) _ dt]) auto
    then obtain h2 where h2: "free_rest k h1 (NodeP (rt_addr t)) = Some h2"
      "pfreed (set (rt_addrs t)) (set (rt_lists t)) (set (rt_dlist t)) h1 h2" by blast
    from trees Cons obtain m where m: "hp_nodes h (rt_addr t) = Some m" "nd_parent m = NodeP p"
      by (cases t) auto
    have "plist_free_node g h (NodeP (rt_addr t)) = Some (h2, 0)"
      unfolding k plist_free_node_rest using m h1(1) h2(1) by simp
    moreover define ni' where "ni' = ni\<lparr>it_value := kid_ptr us 0, it_position := it_position ni + 1\<rparr>"
    moreover have "node_iterator_next h ni = Some (ni', NodeP (rt_addr t))"
      using chain_rep_next [OF chain [unfolded Cons]] ni Cons
      by (auto simp: node_iterator_next_def ni'_def kid_ptr_def)
    moreover have "data_in (hp_store h2) (concat (map rt_dlist us))"
      using data_in_rest [of "hp_store h1" "rt_dlist t" "concat (map rt_dlist us)" "hp_store h2"]
        data Cons h1(3) h2(2) by (simp add: pfreed_def)
    then have "\<exists>h'. plist_free_children g h2 ni' = Some h' \<and> kids_pfreed p l us h2 h'"
      using IH [of g, unfolded free_children_ok_def, rule_format (no_asm), of h2 p n1 l us b d ni']
        h1(7) h1(8) [OF h2(2)] ok Cons rt_ok_Cons fuel g pos by (auto simp: ni'_def)
    then obtain h' where h': "plist_free_children g h2 ni' = Some h'" "kids_pfreed p l us h2 h'" by blast
    ultimately have "plist_free_children f h ni = Some h'" using g by simp
    moreover have "kids_pfreed p l ts h h'"
      using kids_pfreed_step [OF h1(5,3,4) h2(2) h'(2)] data Cons by (simp add: data_in_def)
    ultimately show ?thesis by blast
  qed
qed

lemma free_children_all: "free_children_ok f"
proof (induction f rule: less_induct)
  case (less f)
  show ?case unfolding free_children_ok_def
    by (intro allI impI) (rule free_children_step [OF less]; assumption)
qed

section \<open>The released subtree\<close>

text \<open>A root\<close>

lemma plist_free_root:
  assumes "tree_rep h Null t" "rt_ok t" "data_in (hp_store h) (rt_dlist t)" "2 * rt_size t \<le> f"
  obtains h' where "plist_free_node f h (NodeP (rt_addr t)) = Some (h', 0)"
    "pfreed (set (rt_addrs t)) (set (rt_lists t)) (set (rt_dlist t)) h h'"
proof -
  obtain g where g: "f = Suc g" using assms(4) rt_size_pos [of t] by (cases f) auto
  from free_rest_ok [OF free_children_all assms(1-3), of g] assms(4) g
  obtain h' where h': "free_rest g h (NodeP (rt_addr t)) = Some h'"
    "pfreed (set (rt_addrs t)) (set (rt_lists t)) (set (rt_dlist t)) h h'" by auto
  obtain n where "hp_nodes h (rt_addr t) = Some n" "nd_parent n = Null"
    using assms(1) by (cases t) auto
  then have "plist_free_node f h (NodeP (rt_addr t)) = Some (h', 0)"
    unfolding g plist_free_node_rest using h'(1) by (simp add: node_detach_def)
  then show thesis using h'(2) that by blast
qed

end
