(* ===== verification/Plist_Props.thy ===== *)
theory Plist_Props imports Plist_Free begin

text \<open>
  The operations of plist.c on property lists: arrays as lists, dictionaries as association lists,
  construction and the typed getters as inverses, release of a whole subtree.
\<close>

section \<open>Well-formed property lists\<close>

definition plist_rep :: "pheap \<Rightarrow> ptr \<Rightarrow> rtree \<Rightarrow> bool" where
  "plist_rep h q t \<longleftrightarrow> heap_ok h \<and> tree_rep h q t \<and> rt_ok t \<and> data_in (hp_store h) (rt_dlist t)"

text \<open>The value of a property list: the scalars and kinds of its nodes, in tree shape\<close>

definition plist_view :: "pheap \<Rightarrow> rtree \<Rightarrow> pval option vtree" where
  "plist_view h t = vtree_of (plist_val (hp_store h)) t"

text \<open>Two property lists that share no node, header or data.\<close>

definition apart :: "rtree \<Rightarrow> rtree \<Rightarrow> bool" where
  "apart t u \<longleftrightarrow> set (rt_addrs t) \<inter> set (rt_addrs u) = {} \<and> set (rt_lists t) \<inter> set (rt_lists u) = {}
     \<and> set (rt_dlist t) \<inter> set (rt_dlist u) = {}"

lemma data_in_val: "data_in s ds \<Longrightarrow> e \<in> set ds \<Longrightarrow> \<exists>v. plist_val s e = Some v"
  by (auto simp: data_in_def)

lemma rt_datas_dlist: "rt_datas t = set (rt_dlist t)"
  by (induction t) auto

lemma plist_rep_val:
  assumes "plist_rep h q (RT a l b d ts)" "plist_val (hp_store h) d = Some v"
  shows "plist_get_node_type h (NodeP a) = Some (val_type v)" "node_val h (NodeP a) = Some v"
proof -
  show "node_val h (NodeP a) = Some v" using assms by (auto simp: plist_rep_def node_val_def)
  then show "plist_get_node_type h (NodeP a) = Some (val_type v)" by (rule node_type_val)
qed

lemma is_type_val:
  "plist_rep h q (RT a l b d ts) \<Longrightarrow> plist_val (hp_store h) d = Some v \<Longrightarrow>
   is_type h (NodeP a) ty = Some (ty = val_type v)"
  by (auto simp: is_type_def plist_rep_val)

lemma plist_rep_kid:
  assumes "plist_rep h q (RT a l b d ts)" "t \<in> set ts"
  shows "plist_rep h (NodeP a) t"
  using assms rt_ok_kid(1) [of a l b d ts t] distinct_concat_map_in [of rt_dlist ts t]
  by (auto simp: plist_rep_def data_in_def)

section \<open>Arrays\<close>

lemma array_get_item_rep:
  assumes "plist_rep h q (RT a l b d ts)" "plist_val (hp_store h) d = Some VArray"
  shows "plist_array_get_item h (NodeP a) n = Some (kid_ptr ts (unat n))"
  using is_type_val [OF assms] assms(1) node_nth_child_tree [of h q a l b d ts]
  by (simp add: plist_array_get_item_def plist_rep_def del: tree_rep.simps)

lemma array_get_size_rep:
  assumes "plist_rep h q (RT a l b d ts)" "plist_val (hp_store h) d = Some VArray"
  shows "plist_array_get_size h (NodeP a) = Some (of_nat (length ts))"
  using is_type_val [OF assms] assms(1) node_n_children_tree [of h q a l b d ts]
  by (simp add: plist_array_get_size_def plist_rep_def del: tree_rep.simps)

lemma array_item_index_rep:
  assumes "plist_rep h q (RT a l b d ts)" "plist_val (hp_store h) d = Some VArray" "i < length ts"
  shows "plist_array_get_item_index h (NodeP (rt_addr (ts ! i))) = Some (of_nat i)"
proof -
  have rep: "tree_rep h q (RT a l b d ts)" using assms(1) by (simp add: plist_rep_def)
  then have "tree_rep h (NodeP a) (ts ! i)" using assms(3) by simp
  then have "plist_get_parent h (NodeP (rt_addr (ts ! i))) = Some (NodeP a)"
    by (cases "ts ! i") (auto simp: plist_get_parent_def)
  then show ?thesis
    using plist_rep_val(1) [OF assms(1,2)] node_child_position_tree(1) [OF rep assms(3)]
    by (simp add: plist_array_get_item_index_def)
qed

text \<open>Well-formedness after a child was added or removed somewhere.\<close>

lemma plist_rep_add:
  assumes par: "plist_rep h q (RT a l b d ts)" and item: "plist_rep h q' t" and ap: "apart (RT a l b d ts) t"
    and rep: "tree_rep h' q (RT a l b' d (us @ t # vs))" and ts: "ts = us @ vs"
    and fr: "heap_frame A {l} h h'" "A \<subseteq> set (rt_addrs (RT a l b d ts)) \<union> set (rt_addrs t)"
    and st: "hp_store h' = hp_store h" "hp_fresh h' = hp_fresh h"
  shows "plist_rep h' q (RT a l b' d (us @ t # vs))"
proof -
  have reps: "tree_rep h q (RT a l b d ts)" "tree_rep h q' t"
    using par item by (simp_all add: plist_rep_def)
  have "hp_nodes h x \<noteq> None" if "x \<in> A" for x
    using fr(2) that tree_rep_alloc [OF reps(1), of x] tree_rep_alloc [OF reps(2), of x] by blast
  moreover have "hp_lists h l \<noteq> None"
    using tree_rep_alloc_list [OF reps(1), of l] by simp
  ultimately have "heap_ok h'"
    using par st fr(1) by (intro heap_ok_frame [OF _ fr(1)]) (auto simp: plist_rep_def)
  moreover have "rt_ok (RT a l b' d (us @ t # vs))"
    using par item ap ts by (auto simp: plist_rep_def rt_ok_def apart_def)
  moreover have "data_in (hp_store h') (rt_dlist (RT a l b' d (us @ t # vs)))"
    using par item ap ts st by (auto simp: plist_rep_def data_in_def apart_def)
  ultimately show ?thesis using rep by (simp add: plist_rep_def)
qed

lemma rt_ok_add:
  "plist_rep h q (RT a l b d ts) \<Longrightarrow> plist_rep h q' t \<Longrightarrow> apart (RT a l b d ts) t \<Longrightarrow>
   rt_ok (RT a l b d (t # ts))"
  by (auto simp: plist_rep_def rt_ok_def apart_def)

lemma roots_sub:
  "insert a (insert (rt_addr t) (rt_addr ` set ts)) \<subseteq> set (rt_addrs (RT a l b d ts)) \<union> set (rt_addrs t)"
  using rt_addr_kid [of _ ts a l b d] by auto

lemma attach_rep:
  assumes par: "plist_rep h q (RT a l b d ts)" and item: "plist_rep h q' t"
    and ap: "apart (RT a l b d ts) t" and len: "Suc (length ts) < 2 ^ 32"
  obtains h' b' where "node_attach h (NodeP a) (NodeP (rt_addr t)) = Some (h', 0)"
    "plist_rep h' q (RT a l b' d (ts @ [t]))" "hp_store h' = hp_store h"
    "heap_frame (insert a (insert (rt_addr t) (rt_addr ` set ts))) {l} h h'" "hp_fresh h' = hp_fresh h"
    "b' = (if ts = [] then True else b)"
proof -
  have reps: "tree_rep h q (RT a l b d ts)" "tree_rep h q' t"
    using par item by (simp_all add: plist_rep_def)
  from node_attach_tree [OF reps rt_ok_add [OF par item ap] len] obtain h' where
    h': "node_attach h (NodeP a) (NodeP (rt_addr t)) = Some (h', 0)"
    "tree_rep h' q (RT a l (if ts = [] then True else b) d (ts @ [t]))"
    "heap_frame (insert a (insert (rt_addr t) (rt_addr ` set ts))) {l} h h'"
    "hp_store h' = hp_store h" "hp_fresh h' = hp_fresh h" by blast
  have "plist_rep h' q (RT a l (if ts = [] then True else b) d (ts @ [t]))"
    by (rule plist_rep_add [OF par item ap h'(2) _ h'(3) roots_sub h'(4,5)]) simp
  with h' show thesis using that by blast
qed

lemma insert_rep:
  assumes par: "plist_rep h q (RT a l b d ts)" and item: "plist_rep h q' t"
    and ap: "apart (RT a l b d ts) t" and len: "Suc (length ts) < 2 ^ 32"
  obtains h' where "node_insert h (NodeP a) i (NodeP (rt_addr t)) = Some (h', 0)"
    "plist_rep h' q (RT a l (if ts = [] then True else if i = 0 then False else b) d
       (take (unat i) ts @ t # drop (unat i) ts))" "hp_store h' = hp_store h"
    "hp_fresh h' = hp_fresh h" "heap_frame (insert a (insert (rt_addr t) (rt_addr ` set ts))) {l} h h'"
proof -
  have reps: "tree_rep h q (RT a l b d ts)" "tree_rep h q' t"
    using par item by (simp_all add: plist_rep_def)
  from node_insert_tree [OF reps rt_ok_add [OF par item ap] len] obtain h' where
    h': "node_insert h (NodeP a) i (NodeP (rt_addr t)) = Some (h', 0)"
    "tree_rep h' q (RT a l (if ts = [] then True else if i = 0 then False else b) d
       (take (unat i) ts @ t # drop (unat i) ts))"
    "heap_frame (insert a (insert (rt_addr t) (rt_addr ` set ts))) {l} h h'"
    "hp_store h' = hp_store h" "hp_fresh h' = hp_fresh h" by blast
  have "plist_rep h' q (RT a l (if ts = [] then True else if i = 0 then False else b) d
       (take (unat i) ts @ t # drop (unat i) ts))"
    by (rule plist_rep_add [OF par item ap h'(2) _ h'(3) roots_sub h'(4,5)]) simp
  with h' show thesis using that by blast
qed

section \<open>Removing a child\<close>

lemma plist_free_child:
  assumes par: "plist_rep h q (RT a l b d (us @ t # vs))" and tail: "us = [] \<Longrightarrow> vs = [] \<Longrightarrow> b"
    and fuel: "2 * rt_size t \<le> f"
  obtains h' where "plist_free_node f h (NodeP (rt_addr t)) = Some (h', 0)"
    "plist_rep h' q (RT a l b d (us @ vs))"
    "\<And>u. u \<in> set (us @ vs) \<Longrightarrow> plist_view h' u = plist_view h u"
    "\<And>e v. e \<notin> set (rt_dlist t) \<Longrightarrow> plist_val (hp_store h) e = Some v \<Longrightarrow> plist_val (hp_store h') e = Some v"
    "store_freed (set (rt_dlist t)) (hp_store h) (hp_store h')"
    "hp_fresh h' = hp_fresh h"
    "heap_frame (insert a (set (rt_addrs t) \<union> rt_addr ` set (us @ vs))) (insert l (set (rt_lists t))) h h'"
    "\<And>x. x \<in> set (rt_addrs t) \<Longrightarrow> hp_nodes h' x = None" "\<And>x. x \<in> set (rt_lists t) \<Longrightarrow> hp_lists h' x = None"
proof -
  let ?ts = "us @ t # vs"
  have rep: "tree_rep h q (RT a l b d ?ts)" and ok: "rt_ok (RT a l b d ?ts)" and hok: "heap_ok h"
    and din: "data_in (hp_store h) (rt_dlist (RT a l b d ?ts))"
    using par by (simp_all add: plist_rep_def)
  from node_detach_tree [OF rep ok tail] obtain h1 where
    h1: "node_detach h (NodeP a) (NodeP (rt_addr t)) = Some (h1, 0)"
    "tree_rep h1 q (RT a l b d (us @ vs))" "tree_rep h1 (NodeP a) t"
    "heap_frame (insert a (rt_addr ` set ?ts)) {l} h h1" "hp_store h1 = hp_store h" "hp_fresh h1 = hp_fresh h"
    by blast
  obtain g where g: "f = Suc g" using fuel rt_size_pos [of t] by (cases f) auto
  have din_t: "data_in (hp_store h1) (rt_dlist t)" using din h1(5) by (auto simp: data_in_def)
  from free_rest_ok [OF free_children_all h1(3) _ din_t, of g] fuel g rt_ok_kid(1) [OF ok, of t]
  obtain h2 where h2: "free_rest g h1 (NodeP (rt_addr t)) = Some h2"
    "pfreed (set (rt_addrs t)) (set (rt_lists t)) (set (rt_dlist t)) h1 h2" by auto
  have sf: "store_freed (set (rt_dlist t)) (hp_store h) (hp_store h2)"
    using h2(2) h1(5) by (simp add: pfreed_def)
  have ps: "ps_ok (hp_store h)" using din by (simp add: data_in_def)
  obtain m where m: "hp_nodes h (rt_addr t) = Some m" "nd_parent m = NodeP a"
    using rep by (cases t) auto
  have run: "plist_free_node f h (NodeP (rt_addr t)) = Some (h2, 0)"
    unfolding g plist_free_node_rest using m h1(1) h2(1) by simp
  have ok': "rt_ok (RT a l b d (us @ vs))" using ok by (auto simp: rt_ok_def)
  have disj: "set (rt_addrs (RT a l b d (us @ vs))) \<inter> set (rt_addrs t) = {}"
    "set (rt_lists (RT a l b d (us @ vs))) \<inter> set (rt_lists t) = {}"
    using ok by (auto simp: rt_ok_def)
  have rep2: "tree_rep h2 q (RT a l b d (us @ vs))"
    by (rule tree_rep_heap_frame [OF h1(2) ok' pfreed_frame [OF h2(2)]]) (use disj in blast)+
  have vals: "plist_val (hp_store h2) e = Some v" if "e \<notin> set (rt_dlist t)" "plist_val (hp_store h) e = Some v" for e v
    using store_freed_val [OF sf ps that] .
  have dd: "e \<notin> set (rt_dlist t)" if "e \<in> set (rt_dlist (RT a l b d (us @ vs)))" for e
    using din that by (auto simp: data_in_def)
  have "data_in (hp_store h2) (rt_dlist (RT a l b d (us @ vs)))"
    unfolding data_in_def
  proof (intro conjI ballI)
    show "ps_ok (hp_store h2)" using store_freed_ok [OF sf ps] .
    show "distinct (rt_dlist (RT a l b d (us @ vs)))" using din by (auto simp: data_in_def)
    show "plist_val (hp_store h2) e \<noteq> None" if "e \<in> set (rt_dlist (RT a l b d (us @ vs)))" for e
    proof -
      have "e \<in> set (rt_dlist (RT a l b d ?ts))" using that by auto
      then obtain v where "plist_val (hp_store h) e = Some v" using data_in_val [OF din] by blast
      with vals [OF dd [OF that]] show ?thesis by simp
    qed
  qed
  moreover have "heap_ok h2"
  proof -
    have "hp_nodes h x \<noteq> None" if "x \<in> insert a (rt_addr ` set ?ts)" for x
      using that tree_rep_alloc [OF rep, of x] rt_addr_kid [of x ?ts a l b d] by auto
    moreover have "hp_lists h l \<noteq> None" using tree_rep_alloc_list [OF rep, of l] by simp
    ultimately have "heap_ok h1" using heap_ok_frame [OF hok h1(4,6)] by blast
    then show ?thesis using h2(2) by (auto simp: heap_ok_def pfreed_def)
  qed
  ultimately have prep: "plist_rep h2 q (RT a l b d (us @ vs))" using rep2 ok' by (simp add: plist_rep_def)
  have view: "plist_view h2 u = plist_view h u" if u: "u \<in> set (us @ vs)" for u
    unfolding plist_view_def
  proof (rule vtree_of_cong)
    fix e assume "e \<in> rt_datas u"
    then have e: "e \<in> set (rt_dlist (RT a l b d (us @ vs)))" "e \<in> set (rt_dlist (RT a l b d ?ts))"
      using u by (auto simp: rt_datas_dlist)
    then obtain v where "plist_val (hp_store h) e = Some v" using data_in_val [OF din] by blast
    with vals [OF dd [OF e(1)]] show "plist_val (hp_store h2) e = plist_val (hp_store h) e" by simp
  qed
  have frame: "heap_frame (insert a (set (rt_addrs t) \<union> rt_addr ` set (us @ vs))) (insert l (set (rt_lists t))) h h2"
    using h1(4) h2(2) rt_addr_in [of t] by (auto simp: heap_frame_def pfreed_def)
  show thesis
    by (rule that [OF run prep view vals sf _ frame]) (use h1(6) h2(2) in \<open>auto simp: pfreed_def\<close>)
qed

end
