(* ===== verification/Plist_New.thy ===== *)
theory Plist_New imports Plist_Props begin

text \<open>
  The constructors of plist.c: each returns a fresh root without children that holds the given
  value, and the getters of the type read that value back.
\<close>

section \<open>Fresh leaves\<close>

definition plist_grows :: "pheap \<Rightarrow> pheap \<Rightarrow> bool" where
  "plist_grows h h' \<longleftrightarrow> heap_frame {hp_fresh h..} {hp_fresh h..} h h' \<and> hp_fresh h \<le> hp_fresh h'
     \<and> ps_ext (hp_store h) (hp_store h') \<and> ps_fresh (hp_store h) \<le> ps_fresh (hp_store h')
     \<and> heap_ok h' \<and> ps_ok (hp_store h')"

text \<open>Data that were allocated from the address \<open>F\<close> on, with the buffer that they own\<close>

definition fresh_data :: "nat \<Rightarrow> pstore \<Rightarrow> nat option \<Rightarrow> bool" where
  "fresh_data F s e \<longleftrightarrow> (\<exists>a. e = Some a \<and> F \<le> a
     \<and> (\<forall>d x. ps_data s a = Some d \<longrightarrow> owned_buf d = Some x \<longrightarrow> F \<le> x))"

lemma fresh_data_addr: "fresh_data F s e \<Longrightarrow> \<exists>a. e = Some a \<and> F \<le> a"
  by (auto simp: fresh_data_def)

lemma fresh_data_mono: "fresh_data F s e \<Longrightarrow> G \<le> F \<Longrightarrow> fresh_data G s e"
  by (force simp: fresh_data_def)

lemma fresh_data_ext: "fresh_data F s e \<Longrightarrow> ps_ext s s' \<Longrightarrow> plist_val s e = Some v \<Longrightarrow> fresh_data F s' e"
  by (auto simp: fresh_data_def ps_ext_def elim!: plist_valE)

text \<open>A new property list: a root whose nodes, headers, data and buffers were not allocated before.\<close>

definition fresh_plist :: "pheap \<Rightarrow> pheap \<Rightarrow> rtree \<Rightarrow> bool" where
  "fresh_plist h h' t \<longleftrightarrow> plist_grows h h' \<and> plist_rep h' Null t \<and> (\<forall>a \<in> rt_foot t. hp_fresh h \<le> a)
     \<and> (\<forall>e \<in> set (rt_dlist t). fresh_data (ps_fresh (hp_store h)) (hp_store h') e)"

definition makes_leaf :: "pheap \<Rightarrow> (pheap \<times> ptr) option \<Rightarrow> pval \<Rightarrow> bool" where
  "makes_leaf h r v \<longleftrightarrow> (\<exists>h' t. r = Some (h', NodeP (rt_addr t)) \<and> fresh_plist h h' t \<and> rt_kids t = []
     \<and> rt_headed t \<and> plist_val (hp_store h') (rt_data t) = Some v)"

lemma node_create_leaf:
  assumes "heap_ok h" "ps_ok (hp_store h)" "ps_ok s" "ps_ext (hp_store h) s"
    "ps_fresh (hp_store h) \<le> ps_fresh s" "plist_val s (Some (ps_fresh (hp_store h))) = Some v"
    "fresh_data (ps_fresh (hp_store h)) s (Some (ps_fresh (hp_store h)))"
  shows "makes_leaf h (node_create (h\<lparr>hp_store := s\<rparr>) Null (Some (ps_fresh (hp_store h)))) v"
proof -
  have ok: "heap_ok (h\<lparr>hp_store := s\<rparr>)" using assms(1) by (simp add: heap_ok_def)
  let ?d = "Some (ps_fresh (hp_store h))"
  obtain h' where h': "node_create (h\<lparr>hp_store := s\<rparr>) Null ?d = Some (h', NodeP (hp_fresh h))"
    "tree_rep h' Null (RT (hp_fresh h) (Suc (hp_fresh h)) True ?d [])"
    "heap_ok h'" "hp_fresh h' = Suc (Suc (hp_fresh h))" "hp_store h' = s"
    "heap_frame {hp_fresh h} {Suc (hp_fresh h)} (h\<lparr>hp_store := s\<rparr>) h'"
    by (rule node_create_root [OF ok, of ?d]) (use that in \<open>simp del: tree_rep.simps\<close>)
  let ?t = "RT (hp_fresh h) (Suc (hp_fresh h)) True ?d []"
  have "plist_grows h h'"
    using h'(3-6) assms(3-5) by (auto simp: plist_grows_def heap_frame_def)
  moreover have "plist_rep h' Null ?t"
    using h'(2,3,5) assms(3,6) by (auto simp: plist_rep_def rt_ok_def data_in_def)
  ultimately have "fresh_plist h h' ?t"
    using assms(7) h'(5) by (auto simp: fresh_plist_def rt_foot_def)
  then show ?thesis
    using h'(1,5) assms(6) unfolding makes_leaf_def
    by (intro exI [of _ h'] exI [of _ ?t]) simp
qed

lemma new_plain:
  assumes "heap_ok h" "ps_ok (hp_store h)" "owned_buf d = None" "data_val (hp_store h) d = Some v"
  shows "makes_leaf h (node_create (h\<lparr>hp_store := store_new (hp_store h) d\<rparr>) Null (Some (ps_fresh (hp_store h)))) v"
  by (rule node_create_leaf)
    (use assms store_new_ok [OF assms(2,3)] in \<open>auto simp: store_new_def fresh_data_def\<close>)

lemma new_buffer:
  assumes "heap_ok h" "ps_ok (hp_store h)"
    "plist_val (store_new_buf (hp_store h) t len 0 bs) (Some (ps_fresh (hp_store h))) = Some v"
  shows "makes_leaf h (node_create (h\<lparr>hp_store := store_new_buf (hp_store h) t len 0 bs\<rparr>) Null
    (Some (ps_fresh (hp_store h)))) v"
  by (rule node_create_leaf)
    (use assms store_new_buf_ok(1,2) [OF assms(2)] in \<open>auto simp: store_new_buf_def fresh_data_def owned_buf_def split: if_splits\<close>)

lemmas new_defs = plist_new_plist_data_def plist_new_node_def Let_def put_word_def put_bool_def put_ptr_def
  strdup_def alloc_buf_def read_bytes_def

section \<open>The constructors\<close>

lemma plist_new_ok:
  assumes "heap_ok h" "ps_ok (hp_store h)"
  shows "makes_leaf h (plist_new_dict h) VDict" "makes_leaf h (plist_new_array h) VArray"
    "makes_leaf h (plist_new_bool h x) (VBool x)" "makes_leaf h (plist_new_uint h w) (VUint w)"
    "makes_leaf h (plist_new_uid h w) (VUid w)" "makes_leaf h (plist_new_real h w) (VReal w)"
    "makes_leaf h (plist_new_date h sec usec) (VDate (scast sec) (scast usec))"
proof -
  note plain = new_plain [OF assms]
  have "plist_new_dict h = node_create (h\<lparr>hp_store := store_new (hp_store h)
      \<lparr>pd_val = Bits 0 0, pd_length = 0, pd_type = PLIST_DICT\<rparr>\<rparr>) Null (Some (ps_fresh (hp_store h)))"
    by (cases "hp_store h") (simp add: plist_new_dict_def new_defs store_new_def)
  then show "makes_leaf h (plist_new_dict h) VDict"
    by (simp only:) (rule plain; simp add: owned_buf_def data_val_iff)
  have "plist_new_array h = node_create (h\<lparr>hp_store := store_new (hp_store h)
      \<lparr>pd_val = Bits 0 0, pd_length = 0, pd_type = PLIST_ARRAY\<rparr>\<rparr>) Null (Some (ps_fresh (hp_store h)))"
    by (cases "hp_store h") (simp add: plist_new_array_def new_defs store_new_def)
  then show "makes_leaf h (plist_new_array h) VArray"
    by (simp only:) (rule plain; simp add: owned_buf_def data_val_iff)
  have "plist_new_bool h x = node_create (h\<lparr>hp_store := store_new (hp_store h)
      \<lparr>pd_val = Bits (ucast x) 0, pd_length = 1, pd_type = PLIST_BOOLEAN\<rparr>\<rparr>) Null (Some (ps_fresh (hp_store h)))"
    by (cases "hp_store h") (simp add: plist_new_bool_def new_defs store_new_def)
  then show "makes_leaf h (plist_new_bool h x) (VBool x)"
    by (simp only:) (rule plain; simp add: owned_buf_def data_val_iff)
  have "plist_new_uint h w = node_create (h\<lparr>hp_store := store_new (hp_store h)
      \<lparr>pd_val = Bits w 0, pd_length = 8, pd_type = PLIST_UINT\<rparr>\<rparr>) Null (Some (ps_fresh (hp_store h)))"
    by (cases "hp_store h") (simp add: plist_new_uint_def new_defs store_new_def)
  then show "makes_leaf h (plist_new_uint h w) (VUint w)"
    by (simp only:) (rule plain; simp add: owned_buf_def data_val_iff)
  have "plist_new_uid h w = node_create (h\<lparr>hp_store := store_new (hp_store h)
      \<lparr>pd_val = Bits w 0, pd_length = 8, pd_type = PLIST_UID\<rparr>\<rparr>) Null (Some (ps_fresh (hp_store h)))"
    by (cases "hp_store h") (simp add: plist_new_uid_def new_defs store_new_def)
  then show "makes_leaf h (plist_new_uid h w) (VUid w)"
    by (simp only:) (rule plain; simp add: owned_buf_def data_val_iff)
  have "plist_new_real h w = node_create (h\<lparr>hp_store := store_new (hp_store h)
      \<lparr>pd_val = Bits w 0, pd_length = 8, pd_type = PLIST_REAL\<rparr>\<rparr>) Null (Some (ps_fresh (hp_store h)))"
    by (cases "hp_store h") (simp add: plist_new_real_def new_defs store_new_def)
  then show "makes_leaf h (plist_new_real h w) (VReal w)"
    by (simp only:) (rule plain; simp add: owned_buf_def data_val_iff)
  have "plist_new_date h sec usec = node_create (h\<lparr>hp_store := store_new (hp_store h)
      \<lparr>pd_val = Bits (scast sec) (scast usec), pd_length = 16, pd_type = PLIST_DATE\<rparr>\<rparr>) Null
      (Some (ps_fresh (hp_store h)))"
    by (cases "hp_store h") (simp add: plist_new_date_def new_defs store_new_def)
  then show "makes_leaf h (plist_new_date h sec usec) (VDate (scast sec) (scast usec))"
    by (simp only:) (rule plain; simp add: owned_buf_def data_val_iff)
qed

lemma plist_new_buf_ok:
  assumes "heap_ok h" "ps_ok (hp_store h)"
  shows "makes_leaf h (plist_new_key h val) (VKey (c_string val))"
    "makes_leaf h (plist_new_string h val) (VString (c_string val))"
    "unat len \<le> length val \<Longrightarrow> makes_leaf h (plist_new_data h val len) (VData (take (unat len) val))"
proof -
  note buf = new_buffer [OF assms]
  let ?n = "of_nat (length (c_string val)) :: u64" and ?z = "c_string val @ [0]"
  have "plist_new_key h val = node_create (h\<lparr>hp_store := store_new_buf (hp_store h) PLIST_KEY ?n 0 ?z\<rparr>) Null
      (Some (ps_fresh (hp_store h)))"
    by (cases "hp_store h") (simp add: plist_new_key_def new_defs store_new_buf_def)
  then show "makes_leaf h (plist_new_key h val) (VKey (c_string val))"
    by (simp only:) (rule buf, rule store_new_buf_ok(4) [OF assms(2)])
  have "plist_new_string h val = node_create (h\<lparr>hp_store := store_new_buf (hp_store h) PLIST_STRING ?n 0 ?z\<rparr>) Null
      (Some (ps_fresh (hp_store h)))"
    by (cases "hp_store h") (simp add: plist_new_string_def new_defs store_new_buf_def)
  then show "makes_leaf h (plist_new_string h val) (VString (c_string val))"
    by (simp only:) (rule buf, rule store_new_buf_ok(3) [OF assms(2)])
  assume len: "unat len \<le> length val"
  then have "plist_new_data h val len = node_create (h\<lparr>hp_store :=
      store_new_buf (hp_store h) PLIST_DATA len 0 (take (unat len) val)\<rparr>) Null (Some (ps_fresh (hp_store h)))"
    by (cases "hp_store h") (simp add: plist_new_data_def new_defs store_new_buf_def)
  then show "makes_leaf h (plist_new_data h val len) (VData (take (unat len) val))"
    by (simp only:) (rule buf, rule store_new_buf_ok(5) [OF assms(2)], use len in simp)
qed

section \<open>The getters\<close>

lemmas get_defs = plist_get_type_and_value_def plist_get_data_def plist_get_node_type_def get_word_val_def
  ld_str_def ld_buf_def strdup_def alloc_buf_def read_bytes_def Let_def

lemma plist_get_scalar:
  "node_val h p = Some (VBool x) \<Longrightarrow> plist_get_bool_val h p = Some x"
  "node_val h p = Some (VUint w) \<Longrightarrow> plist_get_uint_val h p = Some w"
  "node_val h p = Some (VUid w) \<Longrightarrow> plist_get_uid_val h p = Some w"
  "node_val h p = Some (VReal w) \<Longrightarrow> plist_get_real_val h p = Some w"
  "node_val h p = Some (VDate s u) \<Longrightarrow> plist_get_date_val h p = Some (ucast s, ucast u)"
  by (erule node_valE, auto simp: plist_get_bool_val_def plist_get_uint_val_def plist_get_uid_val_def
      plist_get_real_val_def plist_get_date_val_def get_defs data_val_iff ucast_u8_u64)+

text \<open>The buffer getters return a fresh copy, terminated for strings.\<close>

definition new_buf :: "pheap \<Rightarrow> pheap \<Rightarrow> nat \<Rightarrow> bytes \<Rightarrow> bool" where
  "new_buf h h' p bs \<longleftrightarrow> p = ps_fresh (hp_store h) \<and> h' = fst (alloc_buf h bs)"

lemma plist_get_buffers:
  "node_val h p = Some (VString s) \<Longrightarrow>
   \<exists>h' b. plist_get_string_val h p x = Some (h', Some b) \<and> new_buf h h' b (s @ [0])"
  "node_val h p = Some (VKey s) \<Longrightarrow>
   \<exists>h' b. plist_get_key_val h p x = Some (h', Some b) \<and> new_buf h h' b (s @ [0])"
  "node_val h p = Some (VData s) \<Longrightarrow>
   \<exists>h' b len. plist_get_data_val h p = Some (h', Some (b, len)) \<and> unat len = length s \<and> new_buf h h' b s"
  by (erule node_valE, auto simp: plist_get_string_val_def plist_get_key_val_def get_str_val_def
      plist_get_data_val_def get_defs data_val_iff new_buf_def)+

text \<open>A getter of another type fails its assertion, and so does not return.\<close>

lemma plist_get_wrong_type:
  assumes "node_val h p = Some v"
  shows "val_type v \<noteq> PLIST_BOOLEAN \<Longrightarrow> plist_get_bool_val h p = None"
    "val_type v \<noteq> PLIST_UINT \<Longrightarrow> plist_get_uint_val h p = None"
    "val_type v \<noteq> PLIST_DATE \<Longrightarrow> plist_get_date_val h p = None"
    "val_type v \<noteq> PLIST_DATA \<Longrightarrow> plist_get_data_val h p = Some (h, None)"
  using node_type_val [OF assms]
  by (auto simp: plist_get_bool_val_def plist_get_uint_val_def plist_get_date_val_def
      plist_get_data_val_def get_word_val_def)

end
