(* ===== verification/Plist_Dict.thy ===== *)
theory Plist_Dict imports Plist_New begin

text \<open>
  The dictionaries of plist.c: the children of a dictionary node alternate between keys and values,
  and the operations act on the association list they spell.
\<close>

section \<open>Entries\<close>

type_synonym entry = "bytes \<times> rtree \<times> rtree"

definition entry_kids :: "entry list \<Rightarrow> rtree list" where
  "entry_kids es = concat (map (\<lambda>(k, kt, vt). [kt, vt]) es)"

definition dict_rep :: "pheap \<Rightarrow> ptr \<Rightarrow> nat \<Rightarrow> nat \<Rightarrow> bool \<Rightarrow> nat option \<Rightarrow> entry list \<Rightarrow> bool" where
  "dict_rep h q a l b d es \<longleftrightarrow> plist_rep h q (RT a l b d (entry_kids es))
     \<and> plist_val (hp_store h) d = Some VDict
     \<and> (\<forall>(k, kt, vt) \<in> set es. plist_val (hp_store h) (rt_data kt) = Some (VKey k))"

fun entry_find :: "entry list \<Rightarrow> bytes \<Rightarrow> rtree option" where
  "entry_find [] key = None"
| "entry_find ((k, kt, vt) # es) key = (if key = k then Some vt else entry_find es key)"

definition tree_ptr :: "rtree option \<Rightarrow> ptr" where
  "tree_ptr t = (case t of None \<Rightarrow> Null | Some t \<Rightarrow> NodeP (rt_addr t))"

lemma entry_kids_simps [simp]:
  "entry_kids [] = []" "entry_kids ((k, kt, vt) # es) = kt # vt # entry_kids es"
  "entry_kids (es @ fs) = entry_kids es @ entry_kids fs"
  by (simp_all add: entry_kids_def)

lemma length_entry_kids [simp]: "length (entry_kids es) = 2 * length es"
  by (induction es) auto

lemma entry_kids_nth:
  "i < length es \<Longrightarrow> es ! i = (k, kt, vt) \<Longrightarrow>
   entry_kids es ! (2 * i) = kt \<and> entry_kids es ! Suc (2 * i) = vt"
proof (induction es arbitrary: i)
  case (Cons e es)
  obtain k0 kt0 vt0 where e: "e = (k0, kt0, vt0)" by (cases e)
  from Cons e show ?case by (cases i) auto
qed simp

lemma entry_find_append:
  "entry_find (es @ fs) key = (case entry_find es key of None \<Rightarrow> entry_find fs key | Some t \<Rightarrow> Some t)"
  by (induction es) (auto split: option.split)

lemma entry_find_None: "entry_find es key = None \<longleftrightarrow> key \<notin> fst ` set es"
  by (induction es key rule: entry_find.induct) auto

lemma entry_find_split:
  "entry_find es key = Some t \<Longrightarrow>
   \<exists>xs kt ys. es = xs @ (key, kt, t) # ys \<and> key \<notin> fst ` set xs"
proof (induction es key rule: entry_find.induct)
  case (2 k kt vt es key)
  show ?case
  proof (cases "key = k")
    case True
    with 2 show ?thesis by (intro exI [of _ "[]"] exI [of _ kt] exI [of _ es]) simp
  next
    case False
    with 2 obtain xs kt' ys where "es = xs @ (key, kt', t) # ys" "key \<notin> fst ` set xs" by auto
    with False show ?thesis
      by (intro exI [of _ "(k, kt, vt) # xs"] exI [of _ kt'] exI [of _ ys]) simp
  qed
qed simp

section \<open>Lookup\<close>

lemma node_val_kid:
  assumes "plist_rep h q (RT a l b d ts)" "t \<in> set ts"
  shows "node_val h (NodeP (rt_addr t)) = plist_val (hp_store h) (rt_data t)"
proof -
  have "tree_rep h (NodeP a) t" using assms by (simp add: plist_rep_def)
  then show ?thesis by (cases t) (auto simp: node_val_def)
qed

lemma key_matches_val:
  "node_val h p = Some (VKey k) \<Longrightarrow> key_matches h key p = Some (c_string key = k)"
  by (erule node_valE)
    (auto simp: key_matches_def plist_get_data_def plist_get_node_type_def data_val_iff ld_str_def ld_buf_def)

lemma dict_get_loop_rep:
  assumes rep: "plist_rep h q (RT a l b d (entry_kids es))"
    and keys: "\<forall>(k, kt, vt) \<in> set es. plist_val (hp_store h) (rt_data kt) = Some (VKey k)"
  shows "i \<le> length es \<Longrightarrow>
    dict_get_loop h key (kid_ptr (entry_kids es) (2 * i)) = Some (tree_ptr (entry_find (drop i es) (c_string key)))"
proof (induction n \<equiv> "length es - i" arbitrary: i)
  case 0
  then have "i = length es" by simp
  then show ?case by (subst dict_get_loop.simps) (simp add: kid_ptr_def tree_ptr_def)
next
  case (Suc n)
  let ?ts = "entry_kids es"
  from Suc have i: "i < length es" by simp
  obtain k kt vt where e: "es ! i = (k, kt, vt)" by (cases "es ! i")
  from entry_kids_nth [OF i e] have nth: "?ts ! (2 * i) = kt" "?ts ! Suc (2 * i) = vt" by auto
  have kt: "kt \<in> set ?ts" using nth(1) i nth_mem [of "2 * i" ?ts] by simp
  have "(k, kt, vt) \<in> set es" using i e nth_mem [of i es] by simp
  then have "node_val h (NodeP (rt_addr kt)) = Some (VKey k)"
    using keys node_val_kid [OF rep kt] by auto
  note match = key_matches_val [OF this, of key]
  have tree: "tree_rep h q (RT a l b d ?ts)" using rep by (simp add: plist_rep_def)
  note sib = node_siblings_tree(1) [OF tree]
  have "node_next_sibling h (NodeP (rt_addr kt)) = Some (kid_ptr ?ts (Suc (2 * i)))"
    using sib [of "2 * i"] i nth by simp
  moreover have vt: "kid_ptr ?ts (Suc (2 * i)) = NodeP (rt_addr vt)" using i nth by (simp add: kid_ptr_def)
  moreover have "node_next_sibling h (NodeP (rt_addr vt)) = Some (kid_ptr ?ts (2 * Suc i))"
    using sib [of "Suc (2 * i)"] i nth by simp
  moreover have "dict_get_loop h key (kid_ptr ?ts (2 * Suc i)) =
      Some (tree_ptr (entry_find (drop (Suc i) es) (c_string key)))"
    using Suc i by (intro Suc.hyps(1)) auto
  moreover have "drop i es = (k, kt, vt) # drop (Suc i) es"
    using i e by (simp add: Cons_nth_drop_Suc [symmetric])
  moreover have "kid_ptr ?ts (2 * i) = NodeP (rt_addr kt)" using i nth by (simp add: kid_ptr_def)
  ultimately show ?case
    using match by (subst dict_get_loop.simps) (simp add: dict_step_def tree_ptr_def)
qed

lemma dict_get_item_rep:
  assumes "dict_rep h q a l b d es"
  shows "plist_dict_get_item h (NodeP a) key = Some (tree_ptr (entry_find es (c_string key)))"
proof -
  have rep: "plist_rep h q (RT a l b d (entry_kids es))" "plist_val (hp_store h) d = Some VDict"
    and keys: "\<forall>(k, kt, vt) \<in> set es. plist_val (hp_store h) (rt_data kt) = Some (VKey k)"
    using assms by (simp_all add: dict_rep_def)
  have tree: "tree_rep h q (RT a l b d (entry_kids es))" using rep(1) by (simp add: plist_rep_def)
  show ?thesis
    using is_type_val [OF rep] node_first_child_tree [OF tree] dict_get_loop_rep [OF rep(1) keys, of 0 key]
    by (simp add: plist_dict_get_item_def)
qed

section \<open>Insertion\<close>

lemma frame_rep:
  assumes rep: "plist_rep h q t" and fr: "heap_frame A B h h'" "A \<inter> set (rt_addrs t) = {}" "B \<inter> set (rt_lists t) = {}"
    and ok: "heap_ok h'" "ps_ok (hp_store h')"
    and vals: "\<And>e v. e \<in> set (rt_dlist t) \<Longrightarrow> plist_val (hp_store h) e = Some v \<Longrightarrow> plist_val (hp_store h') e = Some v"
  shows "plist_rep h' q t" "plist_view h' t = plist_view h t"
proof -
  have r: "tree_rep h q t" "rt_ok t" "data_in (hp_store h) (rt_dlist t)" using rep by (simp_all add: plist_rep_def)
  have v: "plist_val (hp_store h') e = plist_val (hp_store h) e" if "e \<in> set (rt_dlist t)" for e
    using data_in_val [OF r(3) that] vals [OF that] by auto
  have "tree_rep h' q t" by (rule tree_rep_heap_frame [OF r(1,2) fr])
  moreover have "data_in (hp_store h') (rt_dlist t)"
    using r(3) ok(2) v by (auto simp: data_in_def)
  ultimately show "plist_rep h' q t" using ok(1) r(2) by (simp add: plist_rep_def)
  show "plist_view h' t = plist_view h t"
    unfolding plist_view_def by (rule vtree_of_cong) (use v in \<open>simp add: rt_datas_dlist\<close>)
qed

text \<open>A property list survives the creation of another one, and shares nothing with it.\<close>

lemma rep_below:
  assumes "plist_rep h q t"
  shows "\<And>a. a \<in> rt_foot t \<Longrightarrow> a < hp_fresh h" "\<And>e. e \<in> set (rt_dlist t) \<Longrightarrow> \<exists>a. e = Some a \<and> a < ps_fresh (hp_store h)"
proof -
  have r: "heap_ok h" "tree_rep h q t" "data_in (hp_store h) (rt_dlist t)" using assms by (simp_all add: plist_rep_def)
  show "a < hp_fresh h" if "a \<in> rt_foot t" for a
    using that tree_rep_alloc [OF r(2), of a] tree_rep_alloc_list [OF r(2), of a]
      heap_ok_fresh [OF r(1), of a] heap_ok_fresh_list [OF r(1), of a] unfolding rt_foot_def by blast
  show "\<exists>a. e = Some a \<and> a < ps_fresh (hp_store h)" if e: "e \<in> set (rt_dlist t)" for e
  proof -
    obtain v where "plist_val (hp_store h) e = Some v" using data_in_val [OF r(3) e] by blast
    then obtain a pd where "e = Some a" "ps_data (hp_store h) a = Some pd" by (rule plist_valE)
    moreover have "ps_ok (hp_store h)" using r(3) by (simp add: data_in_def)
    ultimately show ?thesis using ps_okD(1) [of "hp_store h" a] by (metis not_le option.distinct(1))
  qed
qed

lemma fresh_apart:
  assumes rep: "plist_rep h q t" and new: "fresh_plist h h' u"
  shows "plist_rep h' q t" "apart t u" "plist_view h' t = plist_view h t"
proof -
  have g: "heap_frame {hp_fresh h..} {hp_fresh h..} h h'" "ps_ext (hp_store h) (hp_store h')"
    "heap_ok h'" "ps_ok (hp_store h')"
    using new by (simp_all add: fresh_plist_def plist_grows_def)
  have d: "{hp_fresh h..} \<inter> set (rt_addrs t) = {}" "{hp_fresh h..} \<inter> set (rt_lists t) = {}"
    using rep_below(1) [OF rep] unfolding rt_foot_def by (meson UnI1 UnI2 atLeast_iff disjoint_iff not_le)+
  show "plist_rep h' q t" "plist_view h' t = plist_view h t"
    using frame_rep [OF rep g(1) d g(3,4)] plist_val_ext [OF g(2)] by blast+
  have u: "\<forall>a \<in> rt_foot u. hp_fresh h \<le> a" "\<forall>e \<in> set (rt_dlist u). \<exists>a. e = Some a \<and> ps_fresh (hp_store h) \<le> a"
    using new fresh_data_addr by (auto simp: fresh_plist_def)
  have "set (rt_addrs t) \<inter> set (rt_addrs u) = {}" "set (rt_lists t) \<inter> set (rt_lists u) = {}"
    using u(1) rep_below(1) [OF rep] unfolding rt_foot_def by (meson UnI1 UnI2 disjoint_iff not_le)+
  moreover have "set (rt_dlist t) \<inter> set (rt_dlist u) = {}"
    using u(2) rep_below(2) [OF rep] by (metis disjoint_iff not_le option.inject)
  ultimately show "apart t u" by (simp add: apart_def)
qed

lemma apart_sym: "apart t u \<Longrightarrow> apart u t"
  by (auto simp: apart_def)

lemma dict_insert_rep:
  assumes dict: "dict_rep h q a l b d es" and item: "plist_rep h q' t"
    and ap: "apart (RT a l b d (entry_kids es)) t" and len: "2 * length es + 2 < 2 ^ 32"
  obtains h' kt b' where "plist_dict_insert_item h (NodeP a) key (NodeP (rt_addr t)) = Some h'"
    "dict_rep h' q a l b' d (es @ [(c_string key, kt, t)])" "plist_view h' t = plist_view h t"
    "\<And>u. u \<in> set (entry_kids es) \<Longrightarrow> plist_view h' u = plist_view h u" "es \<noteq> [] \<Longrightarrow> b' = b" "es = [] \<Longrightarrow> b'"
proof -
  let ?ts = "entry_kids es" and ?D = "RT a l b d (entry_kids es)"
  have rep: "plist_rep h q ?D" "plist_val (hp_store h) d = Some VDict"
    and keys: "\<forall>(k, kt, vt) \<in> set es. plist_val (hp_store h) (rt_data kt) = Some (VKey k)"
    using dict by (simp_all add: dict_rep_def)
  have hok: "heap_ok h" "ps_ok (hp_store h)" using rep(1) by (simp_all add: plist_rep_def data_in_def)
  obtain h1 kt where h1: "plist_new_key h key = Some (h1, NodeP (rt_addr kt))" "fresh_plist h h1 kt"
    "plist_val (hp_store h1) (rt_data kt) = Some (VKey (c_string key))"
    using plist_new_buf_ok(1) [OF hok, of key] by (auto simp: makes_leaf_def)
  note D1 = fresh_apart [OF rep(1) h1(2)] and t1 = fresh_apart [OF item h1(2)]
  have kt1: "plist_rep h1 Null kt" using h1(2) by (simp add: fresh_plist_def)
  have len1: "Suc (length ?ts) < 2 ^ 32" "Suc (length (?ts @ [kt])) < 2 ^ 32" using len by simp_all
  obtain h2 b2 where h2: "node_attach h1 (NodeP a) (NodeP (rt_addr kt)) = Some (h2, 0)"
    "plist_rep h2 q (RT a l b2 d (?ts @ [kt]))" "hp_store h2 = hp_store h1"
    "heap_frame (insert a (insert (rt_addr kt) (rt_addr ` set ?ts))) {l} h1 h2" "hp_fresh h2 = hp_fresh h1"
    "b2 = (if ?ts = [] then True else b)"
    by (rule attach_rep [OF D1(1) kt1 D1(2) len1(1)])
  have ok2: "heap_ok h2" "ps_ok (hp_store h2)" using h2(2) by (simp_all add: plist_rep_def data_in_def)
  have disj: "insert a (insert (rt_addr kt) (rt_addr ` set ?ts)) \<inter> set (rt_addrs t) = {}"
    "{l} \<inter> set (rt_lists t) = {}"
    using ap t1(2) roots_sub [of a kt ?ts l b d] by (auto simp: apart_def)
  have t2: "plist_rep h2 q' t"
    by (rule frame_rep(1) [OF t1(1) h2(4) disj ok2]) (simp add: h2(3))
  have ap2: "apart (RT a l b2 d (?ts @ [kt])) t" using ap t1(2) by (auto simp: apart_def)
  obtain h3 b3 where h3: "node_attach h2 (NodeP a) (NodeP (rt_addr t)) = Some (h3, 0)"
    "plist_rep h3 q (RT a l b3 d ((?ts @ [kt]) @ [t]))" "hp_store h3 = hp_store h2"
    "b3 = (if ?ts @ [kt] = [] then True else b2)"
    by (rule attach_rep [OF h2(2) t2 ap2 len1(2)])
  have ext: "ps_ext (hp_store h) (hp_store h3)"
    using h1(2) h2(3) h3(3) by (simp add: fresh_plist_def plist_grows_def)
  have "plist_dict_insert_item h (NodeP a) key (NodeP (rt_addr t)) = Some h3"
    using is_type_val [OF rep] h1(1) h2(1) h3(1) by (simp add: plist_dict_insert_item_def)
  moreover have "dict_rep h3 q a l b3 d (es @ [(c_string key, kt, t)])"
    using h3(2) plist_val_ext [OF ext] rep(2) keys h1(3) h2(3) h3(3) by (auto simp: dict_rep_def)
  moreover have "plist_view h3 t = plist_view h t"
    using t1(3) h2(3) h3(3) by (simp add: plist_view_def)
  moreover have "plist_view h3 u = plist_view h u" if "u \<in> set ?ts" for u
    using D1(3) that h2(3) h3(3) by (auto simp: plist_view_def)
  moreover have "es \<noteq> [] \<Longrightarrow> b3 = b" "es = [] \<Longrightarrow> b3"
    using h2(6) h3(4) by (cases es; auto)+
  ultimately show thesis by (rule that)
qed

section \<open>Removal\<close>

lemma rt_size_le:
  "t \<in> set ts \<Longrightarrow> rt_size t \<le> rt_size (RT a l b d ts)"
  using member_le_sum_list [of "rt_size t" "map rt_size ts"] by simp

lemma rt_datas_self [simp]: "rt_data t \<in> set (rt_dlist t)"
  by (cases t) simp

lemma dict_remove_rep:
  assumes dict: "dict_rep h q a l b d es" and es: "es = xs @ (c_string key, kt, t) # ys"
    and key: "c_string key \<notin> fst ` set xs" and tail: "xs = [] \<Longrightarrow> ys = [] \<Longrightarrow> b"
    and fuel: "2 * rt_size (RT a l b d (entry_kids es)) \<le> f"
  obtains h' where "plist_dict_remove_item f h (NodeP a) key = Some h'" "dict_rep h' q a l b d (xs @ ys)"
    "\<And>u. u \<in> set (entry_kids (xs @ ys)) \<Longrightarrow> plist_view h' u = plist_view h u"
    "\<And>x. x \<in> set (rt_addrs kt) \<union> set (rt_addrs t) \<Longrightarrow> hp_nodes h' x = None"
    "\<And>x. x \<in> set (rt_lists kt) \<union> set (rt_lists t) \<Longrightarrow> hp_lists h' x = None"
    "store_freed (set (rt_dlist kt) \<union> set (rt_dlist t)) (hp_store h) (hp_store h')"
proof -
  let ?us = "entry_kids xs" and ?vs = "entry_kids ys"
  let ?ts = "?us @ kt # t # ?vs"
  have ts: "entry_kids es = ?ts" using es by simp
  have rep: "plist_rep h q (RT a l b d ?ts)" "plist_val (hp_store h) d = Some VDict"
    and keys: "\<forall>(k, kt, vt) \<in> set es. plist_val (hp_store h) (rt_data kt) = Some (VKey k)"
    using dict ts by (simp_all add: dict_rep_def)
  have tree: "tree_rep h q (RT a l b d ?ts)" and ok: "rt_ok (RT a l b d ?ts)"
    and din: "data_in (hp_store h) (rt_dlist (RT a l b d ?ts))" using rep(1) by (simp_all add: plist_rep_def)
  have find: "entry_find es (c_string key) = Some t"
    using key es entry_find_None [of xs "c_string key"] by (simp add: entry_find_append)
  have prev: "node_prev_sibling h (NodeP (rt_addr t)) = Some (NodeP (rt_addr kt))"
    using node_siblings_tree(2) [OF tree, of "Suc (length ?us)"] by (simp add: nth_append kid_ptr_def)
  have fuel_kt: "2 * rt_size kt \<le> f" and fuel_t: "2 * rt_size t \<le> f"
    using rt_size_le [of kt ?ts a l b d] rt_size_le [of t ?ts a l b d] fuel ts by simp_all
  obtain h1 where h1: "plist_free_node f h (NodeP (rt_addr kt)) = Some (h1, 0)"
    "plist_rep h1 q (RT a l b d (?us @ t # ?vs))"
    "\<And>u. u \<in> set (?us @ t # ?vs) \<Longrightarrow> plist_view h1 u = plist_view h u"
    "\<And>e v. e \<notin> set (rt_dlist kt) \<Longrightarrow> plist_val (hp_store h) e = Some v \<Longrightarrow> plist_val (hp_store h1) e = Some v"
    "store_freed (set (rt_dlist kt)) (hp_store h) (hp_store h1)"
    "\<And>x. x \<in> set (rt_addrs kt) \<Longrightarrow> hp_nodes h1 x = None" "\<And>x. x \<in> set (rt_lists kt) \<Longrightarrow> hp_lists h1 x = None"
    by (rule plist_free_child [OF rep(1) _ fuel_kt]) (use that in simp_all)
  have tail': "?us = [] \<Longrightarrow> ?vs = [] \<Longrightarrow> b" using tail by (cases xs; cases ys) auto
  obtain h2 where h2: "plist_free_node f h1 (NodeP (rt_addr t)) = Some (h2, 0)"
    "plist_rep h2 q (RT a l b d (?us @ ?vs))"
    "\<And>u. u \<in> set (?us @ ?vs) \<Longrightarrow> plist_view h2 u = plist_view h1 u"
    "\<And>e v. e \<notin> set (rt_dlist t) \<Longrightarrow> plist_val (hp_store h1) e = Some v \<Longrightarrow> plist_val (hp_store h2) e = Some v"
    "store_freed (set (rt_dlist t)) (hp_store h1) (hp_store h2)"
    "heap_frame (insert a (set (rt_addrs t) \<union> rt_addr ` set (?us @ ?vs))) (insert l (set (rt_lists t))) h1 h2"
    "\<And>x. x \<in> set (rt_addrs t) \<Longrightarrow> hp_nodes h2 x = None" "\<And>x. x \<in> set (rt_lists t) \<Longrightarrow> hp_lists h2 x = None"
    by (rule plist_free_child [OF h1(2) tail' fuel_t]) (use that in blast)+
  have run: "plist_dict_remove_item f h (NodeP a) key = Some h2"
    using is_type_val [OF rep] dict_get_item_rep [OF dict, of key] find prev h1(1) h2(1)
    by (simp add: plist_dict_remove_item_def tree_ptr_def plist_free_def)
  have keep: "plist_val (hp_store h2) e = Some v"
    if "e \<notin> set (rt_dlist kt)" "e \<notin> set (rt_dlist t)" "plist_val (hp_store h) e = Some v" for e v
    using h2(4) [OF that(2) h1(4) [OF that(1,3)]] .
  have dist: "distinct (rt_dlist (RT a l b d ?ts))" using din by (simp add: data_in_def)
  have "plist_val (hp_store h2) d = Some VDict" using keep [OF _ _ rep(2)] dist by simp
  moreover have "plist_val (hp_store h2) (rt_data kt') = Some (VKey k)"
    if "(k, kt', vt) \<in> set (xs @ ys)" for k kt' vt
  proof (rule keep)
    have "kt' \<in> set (?us @ ?vs)" using that by (force simp: entry_kids_def)
    then show "rt_data kt' \<notin> set (rt_dlist kt)" "rt_data kt' \<notin> set (rt_dlist t)"
      using dist rt_datas_self [of kt'] by (auto simp del: rt_datas_self)
    show "plist_val (hp_store h) (rt_data kt') = Some (VKey k)" using keys that es by fastforce
  qed
  ultimately have dict2: "dict_rep h2 q a l b d (xs @ ys)"
    using h2(2) by (auto simp: dict_rep_def)
  have gone: "hp_nodes h2 x = None" if "x \<in> set (rt_addrs kt) \<union> set (rt_addrs t)" for x
  proof (cases "x \<in> set (rt_addrs t)")
    case False
    with that have x: "x \<in> set (rt_addrs kt)" by blast
    have "x \<noteq> a" using ok x by (auto simp: rt_ok_def)
    moreover have "x \<noteq> rt_addr u" if "u \<in> set (?us @ ?vs)" for u
      using ok x rt_addr_in [of u] that by (auto simp: rt_ok_def simp del: rt_addr_in)
    ultimately have "hp_nodes h2 x = hp_nodes h1 x" using False h2(6) by (auto simp: heap_frame_def)
    then show ?thesis using h1(6) [OF x] by simp
  qed (use h2(7) in blast)
  have gone_l: "hp_lists h2 x = None" if "x \<in> set (rt_lists kt) \<union> set (rt_lists t)" for x
  proof (cases "x \<in> set (rt_lists t)")
    case False
    with that have x: "x \<in> set (rt_lists kt)" by blast
    then have "x \<noteq> l" using ok by (auto simp: rt_ok_def)
    then have "hp_lists h2 x = hp_lists h1 x" using False h2(6) by (auto simp: heap_frame_def)
    then show ?thesis using h1(7) [OF x] by simp
  qed (use h2(8) in blast)
  have freed: "store_freed (set (rt_dlist kt) \<union> set (rt_dlist t)) (hp_store h) (hp_store h2)"
    by (rule store_freed_Un [OF h1(5) h2(5)]) (use dist in auto)
  have views: "plist_view h2 u = plist_view h u" if "u \<in> set (entry_kids (xs @ ys))" for u
    using h2(3) h1(3) that by auto
  show thesis by (rule that [OF run dict2 views gone gone_l freed])
qed

section \<open>Replacing\<close>

text \<open>
  Both \<open>plist_array_set_item\<close> and \<open>plist_dict_set_item\<close> release the old child and insert the new
  one at the index that \<open>plist_free_node\<close> returns, which is \<open>node_detach\<close>'s result: always 0.
\<close>

lemma replace_rep:
  assumes par: "plist_rep h q (RT a l b d (us @ old # vs))" and item: "plist_rep h q' t"
    and ap: "apart (RT a l b d (us @ old # vs)) t" and tail: "us = [] \<Longrightarrow> vs = [] \<Longrightarrow> b"
    and fuel: "2 * rt_size old \<le> f" and len: "length (us @ vs) + 1 < 2 ^ 32"
  obtains h1 h2 b' where "plist_free_node f h (NodeP (rt_addr old)) = Some (h1, 0)"
    "node_insert h1 (NodeP a) 0 (NodeP (rt_addr t)) = Some (h2, 0)"
    "plist_rep h2 q (RT a l b' d (t # us @ vs))"
    "\<And>u. u \<in> set (t # us @ vs) \<Longrightarrow> plist_view h2 u = plist_view h u"
    "\<And>e v. e \<notin> set (rt_dlist old) \<Longrightarrow> plist_val (hp_store h) e = Some v \<Longrightarrow> plist_val (hp_store h2) e = Some v"
proof -
  obtain h1 where h1: "plist_free_node f h (NodeP (rt_addr old)) = Some (h1, 0)"
    "plist_rep h1 q (RT a l b d (us @ vs))"
    "\<And>u. u \<in> set (us @ vs) \<Longrightarrow> plist_view h1 u = plist_view h u"
    "\<And>e v. e \<notin> set (rt_dlist old) \<Longrightarrow> plist_val (hp_store h) e = Some v \<Longrightarrow> plist_val (hp_store h1) e = Some v"
    "heap_frame (insert a (set (rt_addrs old) \<union> rt_addr ` set (us @ vs))) (insert l (set (rt_lists old))) h h1"
    by (rule plist_free_child [OF par tail fuel]) (use that in blast)+
  have ok1: "heap_ok h1" "ps_ok (hp_store h1)" using h1(2) by (simp_all add: plist_rep_def data_in_def)
  have "insert a (set (rt_addrs old) \<union> rt_addr ` set (us @ vs)) \<subseteq> set (rt_addrs (RT a l b d (us @ old # vs)))"
    using rt_addr_kid [of _ "us @ old # vs" a l b d] by auto
  moreover have "set (rt_addrs (RT a l b d (us @ old # vs))) \<inter> set (rt_addrs t) = {}"
    using ap by (simp only: apart_def)
  ultimately have disj: "insert a (set (rt_addrs old) \<union> rt_addr ` set (us @ vs)) \<inter> set (rt_addrs t) = {}"
    by blast
  have disj_l: "insert l (set (rt_lists old)) \<inter> set (rt_lists t) = {}"
    using ap by (auto simp: apart_def)
  have dd: "e \<notin> set (rt_dlist old)" if "e \<in> set (rt_dlist t)" for e using ap that by (auto simp: apart_def)
  have t1: "plist_rep h1 q' t" "plist_view h1 t = plist_view h t"
    using frame_rep [OF item h1(5) disj disj_l ok1] h1(4) dd by blast+
  have ap1: "apart (RT a l b d (us @ vs)) t" using ap by (auto simp: apart_def)
  have len1: "Suc (length (us @ vs)) < 2 ^ 32" using len by simp
  obtain h2 where h2: "node_insert h1 (NodeP a) 0 (NodeP (rt_addr t)) = Some (h2, 0)"
    "plist_rep h2 q (RT a l (if us @ vs = [] then True else if (0::u32) = 0 then False else b) d
       (take (unat (0::u32)) (us @ vs) @ t # drop (unat (0::u32)) (us @ vs)))" "hp_store h2 = hp_store h1"
    by (rule insert_rep [OF h1(2) t1(1) ap1 len1, where i = 0])
  have view: "plist_view h2 u = plist_view h u" if "u \<in> set (t # us @ vs)" for u
    using that h1(3) t1(2) h2(3) by (auto simp: plist_view_def)
  show thesis
    by (rule that [OF h1(1) h2(1) _ view, where b' = "us @ vs = []"]) (use h2(2,3) h1(4) in \<open>auto split: if_splits\<close>)
qed

lemma array_set_item_rep:
  assumes par: "plist_rep h q (RT a l b d ts)" "plist_val (hp_store h) d = Some VArray"
    and item: "plist_rep h q' t" and ap: "apart (RT a l b d ts) t" and n: "unat n < length ts"
    and tail: "length ts = 1 \<Longrightarrow> b" and fuel: "2 * rt_size (RT a l b d ts) \<le> f"
  obtains h' b' where "plist_array_set_item f h (NodeP a) (NodeP (rt_addr t)) n = Some h'"
    "plist_rep h' q (RT a l b' d (t # take (unat n) ts @ drop (Suc (unat n)) ts))"
    "\<And>u. u \<in> set (t # take (unat n) ts @ drop (Suc (unat n)) ts) \<Longrightarrow> plist_view h' u = plist_view h u"
    "plist_val (hp_store h') d = Some VArray"
proof -
  let ?us = "take (unat n) ts" and ?old = "ts ! unat n" and ?vs = "drop (Suc (unat n)) ts"
  have ts: "ts = ?us @ ?old # ?vs" using n by (rule id_take_nth_drop)
  have "length ts < 2 ^ 32" using par(1) by (auto simp: plist_rep_def elim!: list_repE)
  then have len: "length (?us @ ?vs) + 1 < 2 ^ 32" using n by simp
  have fuel': "2 * rt_size ?old \<le> f" using rt_size_le [of ?old ts a l b d] n fuel by simp
  have tail': "?us = [] \<Longrightarrow> ?vs = [] \<Longrightarrow> b" using tail n by auto
  have par': "plist_rep h q (RT a l b d (?us @ ?old # ?vs))" and ap': "apart (RT a l b d (?us @ ?old # ?vs)) t"
    using par(1) ap ts by simp_all
  obtain h1 h2 b' where h: "plist_free_node f h (NodeP (rt_addr ?old)) = Some (h1, 0)"
    "node_insert h1 (NodeP a) 0 (NodeP (rt_addr t)) = Some (h2, 0)"
    "plist_rep h2 q (RT a l b' d (t # ?us @ ?vs))"
    "\<And>u. u \<in> set (t # ?us @ ?vs) \<Longrightarrow> plist_view h2 u = plist_view h u"
    "\<And>e v. e \<notin> set (rt_dlist ?old) \<Longrightarrow> plist_val (hp_store h) e = Some v \<Longrightarrow> plist_val (hp_store h2) e = Some v"
    by (rule replace_rep [OF par' item ap' tail' fuel' len]) (use that in blast)+
  have "d \<notin> set (rt_dlist ?old)" using par(1) n by (auto simp: plist_rep_def data_in_def)
  with h(5) par(2) have d: "plist_val (hp_store h2) d = Some VArray" by blast
  have run: "plist_array_set_item f h (NodeP a) (NodeP (rt_addr t)) n = Some h2"
    using is_type_val [OF par] array_get_item_rep [OF par, of n] n h(1,2)
    by (simp add: plist_array_set_item_def kid_ptr_def)
  show thesis by (rule that [OF run h(3,4) d])
qed

end
