(* ===== verification/Plist_Copy.thy ===== *)
theory Plist_Copy imports Plist_Dict begin

text \<open>
  \<open>plist_copy_node\<close> and \<open>plist_copy\<close> of plist.c.  A node is attached to the copy of its parent before
  its own children are copied, so the tree grows at a node inside it; the frame of one call says
  that it writes only that node, the links of its children and fresh memory.
\<close>

section \<open>The data of one node\<close>

lemma plist_copy_struct_ok:
  assumes "ps_ok (hp_store h)" "node_val h p = Some v"
  obtains s' where "plist_copy_struct h p = Some (h\<lparr>hp_store := s'\<rparr>, ps_fresh (hp_store h))" "ps_ok s'"
    "ps_ext (hp_store h) s'" "plist_val s' (Some (ps_fresh (hp_store h))) = Some v"
    "ps_fresh (hp_store h) \<le> ps_fresh s'" "fresh_data (ps_fresh (hp_store h)) s' (Some (ps_fresh (hp_store h)))"
proof -
  from assms(2) obtain a n d pd where a: "p = NodeP a" "hp_nodes h a = Some n" "nd_data n = Some d"
    "ps_data (hp_store h) d = Some pd" "data_val (hp_store h) pd = Some v" "pd_type pd = val_type v"
    by (rule node_valE)
  let ?s = "hp_store h" and ?n = "ps_fresh (hp_store h)"
  have dn: "d \<noteq> ?n" using a(4) ps_okD(1) [OF assms(1), of ?n] by auto
  note found = that
  note defs = plist_copy_struct_def plist_get_data_def plist_get_node_type_def plist_new_plist_data_def Let_def
    put_ptr_def strdup_def alloc_buf_def ld_str_def ld_buf_def read_bytes_def
  show thesis
  proof (cases "owned_buf pd")
    case None
    have "plist_copy_struct h p = Some (h\<lparr>hp_store := store_new ?s pd\<rparr>, ?n)"
      using a dn None
      by (cases v; cases "hp_store h") (auto simp: defs store_new_def data_val_iff owned_buf_def)
    then show thesis
      using store_new_ok [OF assms(1) None] a(5) None by (intro found) (auto simp: store_new_def fresh_data_def)
  next
    case (Some x)
    then obtain w where w: "pd_val pd = BufP x w" by (auto simp: owned_buf_def split: pd_union.splits if_splits)
    obtain bs where bs: "plist_copy_struct h p = Some (h\<lparr>hp_store := store_new_buf ?s (pd_type pd) (pd_length pd) w bs\<rparr>, ?n)"
      "plist_val (store_new_buf ?s (pd_type pd) (pd_length pd) w bs) (Some ?n) = Some v"
    proof (cases v)
      case (VString y)
      with a w obtain z where z: "ps_bufs ?s x = Some z" "0 \<in> set z" "c_string z = y" by (auto simp: data_val_iff)
      show thesis
        by (rule that [of "c_string z @ [0]"])
          (use a dn w z VString store_new_buf_ok(3) [OF assms(1), of z w] in \<open>cases "hp_store h",
            auto simp: defs store_new_buf_def data_val_iff\<close>)
    next
      case (VKey y)
      with a w obtain z where z: "ps_bufs ?s x = Some z" "0 \<in> set z" "c_string z = y" by (auto simp: data_val_iff)
      show thesis
        by (rule that [of "c_string z @ [0]"])
          (use a dn w z VKey store_new_buf_ok(4) [OF assms(1), of z w] in \<open>cases "hp_store h",
            auto simp: defs store_new_buf_def data_val_iff\<close>)
    next
      case (VData y)
      with a w have z: "ps_bufs ?s x = Some y" "length y = unat (pd_length pd)" by (auto simp: data_val_iff)
      show thesis
        by (rule that [of y])
          (use a dn w z VData store_new_buf_ok(5) [OF assms(1) z(2), of w] in \<open>cases "hp_store h",
            auto simp: defs store_new_buf_def data_val_iff\<close>)
    qed (use a Some in \<open>auto simp: data_val_iff owned_buf_def\<close>)
    then show thesis
      using store_new_buf_ok(1,2) [OF assms(1)]
      by (intro found) (auto simp: store_new_buf_def fresh_data_def owned_buf_def split: if_splits)
  qed
qed

section \<open>Growing a tree at an inner node\<close>

lemma dseg_links:
  "dseg N pr p xs q \<Longrightarrow>
   (\<And>x n. x \<in> set xs \<Longrightarrow> N x = Some n \<Longrightarrow> \<exists>m. N' x = Some m \<and> nd_next m = nd_next n \<and> nd_prev m = nd_prev n) \<Longrightarrow>
   dseg N' pr p xs q"
  by (induction xs arbitrary: pr p) (fastforce+)

lemma list_rep_links:
  assumes "list_rep h l pr xs" "hp_lists h' l = hp_lists h l"
    "\<And>x. x \<in> set xs \<Longrightarrow> hp_nodes h' x = hp_nodes h x \<or> links_same h h' x"
  shows "list_rep h' l pr xs"
proof -
  from assms(1) obtain L where L: "hp_lists h l = Some L" "nl_count L = of_nat (length xs)" "length xs < 2 ^ 32"
    "distinct xs" "dseg (hp_nodes h) pr (nl_begin L) xs Null" "nl_end L = lastp (ListP l) xs" "pr = ListP l \<or> pr = Null"
    by (rule list_repE)
  have "dseg (hp_nodes h') pr (nl_begin L) xs Null"
    by (rule dseg_links [OF L(5)]) (use assms(3) in \<open>fastforce simp: links_same_def\<close>)
  then show ?thesis using L assms(2) by (auto simp: list_rep_def)
qed

text \<open>The last child is replaced by a bigger tree on the same root.\<close>

lemma grow_last:
  assumes rep: "tree_rep h q (RT c l b d (us @ [u]))" and ok: "rt_ok (RT c l b d (us @ [u]))"
    and new: "tree_rep h' (NodeP c) u'" "rt_addr u' = rt_addr u" "links_same h h' (rt_addr u)"
    and fr: "heap_frame A B h h'"
      "\<And>x. x \<in> A \<Longrightarrow> x \<noteq> rt_addr u \<Longrightarrow> x \<notin> set (rt_addrs (RT c l b d us))"
      "\<And>x. x \<in> B \<Longrightarrow> x \<notin> set (rt_lists (RT c l b d us))"
  shows "tree_rep h' q (RT c l b d (us @ [u']))"
proof -
  have ne: "rt_addr u \<notin> set (rt_addrs (RT c l b d us))"
    using ok rt_addr_in [of u] by (auto simp: rt_ok_def simp del: rt_addr_in)
  have A: "x \<notin> A" if "x \<in> set (rt_addrs (RT c l b d us))" for x using fr(2) ne that by metis
  have B: "x \<notin> B" if "x \<in> set (rt_lists (RT c l b d us))" for x using fr(3) that by metis
  have kids: "tree_rep h' (NodeP c) t" if t: "t \<in> set us" for t
  proof (rule tree_rep_heap_frame [OF _ _ fr(1)])
    show "tree_rep h (NodeP c) t" using rep t by simp
    show "rt_ok t" using rt_ok_kid(1) [OF ok] t by simp
    show "A \<inter> set (rt_addrs t) = {}" "B \<inter> set (rt_lists t) = {}" using A B t by auto
  qed
  have "list_rep h l (first_prev b l) (map rt_addr (us @ [u]))" using rep by simp
  then have "list_rep h' l (first_prev b l) (map rt_addr (us @ [u]))"
  proof (rule list_rep_links)
    show "hp_lists h' l = hp_lists h l" using fr(1) B [of l] by (simp add: heap_frame_def)
    fix x assume "x \<in> set (map rt_addr (us @ [u]))"
    then consider "x = rt_addr u" | "x \<in> set (rt_addrs (RT c l b d us))" using rt_addr_kid [of x us] by auto
    then show "hp_nodes h' x = hp_nodes h x \<or> links_same h h' x"
      using new(3) A fr(1) by cases (auto simp: heap_frame_def)
  qed
  moreover have "hp_nodes h' c = hp_nodes h c" using fr(1) A [of c] by (simp add: heap_frame_def)
  ultimately show ?thesis using rep kids new(1,2) by auto
qed

section \<open>Sources and copies\<close>

lemma plist_view_RT [simp]:
  "plist_view h (RT a l b d ts) = VT (plist_val (hp_store h) d) (map (plist_view h) ts)"
  by (simp add: plist_view_def)

definition copy_source :: "nat \<Rightarrow> pheap \<Rightarrow> ptr \<Rightarrow> rtree \<Rightarrow> bool" where
  "copy_source F h q t \<longleftrightarrow> tree_rep h q t \<and> rt_ok t \<and> (\<forall>a \<in> rt_foot t. a < F)
     \<and> (\<forall>e \<in> rt_datas t. \<exists>v. plist_val (hp_store h) e = Some v)"

text \<open>What one call may write: the node \<open>c\<close> with header \<open>l\<close>, links of its children, fresh memory.\<close>

definition grows_at :: "nat \<Rightarrow> nat \<Rightarrow> rtree list \<Rightarrow> pheap \<Rightarrow> pheap \<Rightarrow> bool" where
  "grows_at c l us h h' \<longleftrightarrow>
     heap_frame (insert c (rt_addr ` set us) \<union> {hp_fresh h..}) (insert l {hp_fresh h..}) h h'
     \<and> links_same h h' c \<and> hp_fresh h \<le> hp_fresh h' \<and> heap_ok h' \<and> ps_ok (hp_store h')
     \<and> ps_ext (hp_store h) (hp_store h') \<and> ps_fresh (hp_store h) \<le> ps_fresh (hp_store h')"

text \<open>A tree at or above \<open>F\<close>, at which copies are attached.\<close>

definition copy_dest :: "nat \<Rightarrow> pheap \<Rightarrow> ptr \<Rightarrow> rtree \<Rightarrow> bool" where
  "copy_dest F h q t \<longleftrightarrow> tree_rep h q t \<and> rt_ok t \<and> (\<forall>a \<in> rt_foot t. F \<le> a) \<and> F \<le> hp_fresh h
     \<and> heap_ok h \<and> ps_ok (hp_store h)"

text \<open>The copies \<open>us\<close> of \<open>ts\<close>, each node with data of its own, allocated since \<open>h\<close> with their buffers\<close>

definition copied :: "nat \<Rightarrow> pheap \<Rightarrow> pheap \<Rightarrow> rtree list \<Rightarrow> rtree list \<Rightarrow> bool" where
  "copied F h h' ts us \<longleftrightarrow> map (plist_view h') us = map (plist_view h) ts
     \<and> (\<forall>u \<in> set us. (\<forall>a \<in> rt_foot u. F \<le> a) \<and> (\<forall>e \<in> rt_datas u. \<exists>v. plist_val (hp_store h') e = Some v))
     \<and> (\<forall>u \<in> set us. \<forall>e \<in> rt_datas u. fresh_data (ps_fresh (hp_store h)) (hp_store h') e)
     \<and> distinct (concat (map rt_dlist us))"

lemma copy_source_grow:
  assumes src: "copy_source F h q t" and g: "grows_at c l us h h'" and F: "F \<le> hp_fresh h" "F \<le> c" "F \<le> l"
    "\<forall>u \<in> set us. F \<le> rt_addr u"
  shows "copy_source F h' q t" "plist_view h' t = plist_view h t"
proof -
  have fr: "heap_frame (insert c (rt_addr ` set us) \<union> {hp_fresh h..}) (insert l {hp_fresh h..}) h h'"
    and ext: "ps_ext (hp_store h) (hp_store h')" using g by (simp_all add: grows_at_def)
  have t: "tree_rep h q t" "rt_ok t" "\<forall>a \<in> rt_foot t. a < F"
    "\<forall>e \<in> rt_datas t. \<exists>v. plist_val (hp_store h) e = Some v" using src by (simp_all add: copy_source_def)
  have "tree_rep h' q t"
  proof (rule tree_rep_heap_frame [OF t(1,2) fr])
    have "F \<le> x" if "x \<in> insert c (rt_addr ` set us) \<union> {hp_fresh h..}" for x using F that by auto
    then show "(insert c (rt_addr ` set us) \<union> {hp_fresh h..}) \<inter> set (rt_addrs t) = {}"
      using t(3) unfolding rt_foot_def by (meson UnI1 disjoint_iff not_le)
    have "F \<le> x" if "x \<in> insert l {hp_fresh h..}" for x using F that by auto
    then show "insert l {hp_fresh h..} \<inter> set (rt_lists t) = {}"
      using t(3) unfolding rt_foot_def by (meson UnI2 disjoint_iff not_le)
  qed
  moreover have v: "plist_val (hp_store h') e = plist_val (hp_store h) e" if "e \<in> rt_datas t" for e
    using plist_val_ext [OF ext] t(4) that by fastforce
  ultimately show "copy_source F h' q t" using t by (simp add: copy_source_def)
  show "plist_view h' t = plist_view h t" unfolding plist_view_def by (rule vtree_of_cong) (rule v)
qed

lemma plist_view_ext:
  assumes "ps_ext (hp_store h) (hp_store h')" "\<forall>e \<in> rt_datas t. \<exists>v. plist_val (hp_store h) e = Some v"
  shows "plist_view h' t = plist_view h t" "\<forall>e \<in> rt_datas t. \<exists>v. plist_val (hp_store h') e = Some v"
proof -
  have v: "plist_val (hp_store h') e = plist_val (hp_store h) e" if "e \<in> rt_datas t" for e
    using plist_val_ext [OF assms(1)] assms(2) that by fastforce
  then show "plist_view h' t = plist_view h t" unfolding plist_view_def by (rule vtree_of_cong)
  show "\<forall>e \<in> rt_datas t. \<exists>v. plist_val (hp_store h') e = Some v" using v assms(2) by simp
qed

section \<open>One node\<close>

lemma copy_leaf:
  assumes "heap_ok h" "ps_ok (hp_store h)" "node_val h p = Some v"
  obtains h1 nd h2 u where "plist_copy_struct h p = Some (h1, nd)"
    "plist_new_node h1 (Some nd) = Some (h2, NodeP (rt_addr u))"
    "fresh_plist h h2 u" "rt_kids u = []" "rt_headed u" "plist_val (hp_store h2) (rt_data u) = Some v"
proof -
  from plist_copy_struct_ok [OF assms(2,3)] obtain s where
    s: "plist_copy_struct h p = Some (h\<lparr>hp_store := s\<rparr>, ps_fresh (hp_store h))" "ps_ok s"
    "ps_ext (hp_store h) s" "plist_val s (Some (ps_fresh (hp_store h))) = Some v"
    "ps_fresh (hp_store h) \<le> ps_fresh s" "fresh_data (ps_fresh (hp_store h)) s (Some (ps_fresh (hp_store h)))" .
  from node_create_leaf [OF assms(1,2) s(2,3,5,4,6)] s(1) show thesis
    unfolding makes_leaf_def plist_new_node_def [symmetric] by (blast intro: that)
qed

text \<open>The copy of a node attached to the copy of its parent, before its children are copied.\<close>

lemma copy_attached:
  assumes src: "copy_source F h q (RT p lt bt dt ts)" and dst: "copy_dest F h qd (RT c l True d us)"
    and len: "Suc (length us) < 2 ^ 32"
  obtains h1 nd h2 h3 u where "plist_copy_struct h (NodeP p) = Some (h1, nd)"
    "plist_new_node h1 (Some nd) = Some (h2, NodeP (rt_addr u))"
    "node_attach h2 (NodeP c) (NodeP (rt_addr u)) = Some (h3, 0)"
    "rt_kids u = []" "rt_headed u" "plist_val (hp_store h3) (rt_data u) = plist_val (hp_store h) dt"
    "\<forall>a \<in> rt_foot u. hp_fresh h \<le> a \<and> a < hp_fresh h3" "copy_dest F h3 qd (RT c l True d (us @ [u]))"
    "copy_dest F h3 (NodeP c) u" "grows_at c l us h h3"
    "fresh_data (ps_fresh (hp_store h)) (hp_store h3) (rt_data u)"
proof -
  have s: "tree_rep h q (RT p lt bt dt ts)" "\<exists>v. plist_val (hp_store h) dt = Some v"
    using src by (simp_all add: copy_source_def)
  have dd: "tree_rep h qd (RT c l True d us)" "rt_ok (RT c l True d us)" "\<forall>a \<in> rt_foot (RT c l True d us). F \<le> a"
    "F \<le> hp_fresh h" "heap_ok h" "ps_ok (hp_store h)" using dst by (simp_all add: copy_dest_def)
  from s obtain v where v: "plist_val (hp_store h) dt = Some v" "node_val h (NodeP p) = Some v"
    by (auto simp: node_val_def)
  from copy_leaf [OF dd(5,6) v(2)] obtain h1 nd h2 u where
    new: "plist_copy_struct h (NodeP p) = Some (h1, nd)" "plist_new_node h1 (Some nd) = Some (h2, NodeP (rt_addr u))"
    "fresh_plist h h2 u" "rt_kids u = []" "rt_headed u" "plist_val (hp_store h2) (rt_data u) = Some v" .
  have g: "heap_frame {hp_fresh h..} {hp_fresh h..} h h2" "hp_fresh h \<le> hp_fresh h2" "ps_ext (hp_store h) (hp_store h2)"
    "heap_ok h2" "ps_ok (hp_store h2)" and urep: "plist_rep h2 Null u" and ufoot: "\<forall>a \<in> rt_foot u. hp_fresh h \<le> a"
    and psf: "ps_fresh (hp_store h) \<le> ps_fresh (hp_store h2)"
    and ufresh: "fresh_data (ps_fresh (hp_store h)) (hp_store h2) (rt_data u)"
    using new(3) rt_datas_self [of u] by (simp_all add: fresh_plist_def plist_grows_def flip: rt_datas_dlist)
  have ubelow: "\<forall>a \<in> rt_foot u. a < hp_fresh h2" using rep_below(1) [OF urep] by blast
  have below: "a < hp_fresh h" if "a \<in> rt_foot (RT c l True d us)" for a
    using that tree_rep_alloc [OF dd(1), of a] tree_rep_alloc_list [OF dd(1), of a]
      heap_ok_fresh [OF dd(5), of a] heap_ok_fresh_list [OF dd(5), of a] unfolding rt_foot_def by blast
  have disj: "set (rt_addrs (RT c l True d us)) \<inter> set (rt_addrs u) = {}"
    "set (rt_lists (RT c l True d us)) \<inter> set (rt_lists u) = {}"
    using below ufoot unfolding rt_foot_def by (meson UnI1 UnI2 disjoint_iff not_le)+
  have d2: "{hp_fresh h..} \<inter> set (rt_addrs (RT c l True d us)) = {}"
    "{hp_fresh h..} \<inter> set (rt_lists (RT c l True d us)) = {}"
    using below unfolding rt_foot_def by (meson UnI1 UnI2 atLeast_iff disjoint_iff not_le)+
  have rep2: "tree_rep h2 qd (RT c l True d us)" by (rule tree_rep_heap_frame [OF dd(1,2) g(1) d2])
  have u2: "tree_rep h2 Null u" "rt_ok u" using urep by (simp_all add: plist_rep_def)
  have ok: "rt_ok (RT c l True d (u # us))" using dd(2) u2(2) disj by (auto simp: rt_ok_def)
  obtain h3 where h3: "node_attach h2 (NodeP c) (NodeP (rt_addr u)) = Some (h3, 0)"
    "tree_rep h3 qd (RT c l (if us = [] then True else True) d (us @ [u]))"
    "heap_frame (insert c (insert (rt_addr u) (rt_addr ` set us))) {l} h2 h3" "hp_store h3 = hp_store h2"
    "hp_fresh h3 = hp_fresh h2" "links_same h2 h3 c"
    using node_attach_tree [OF rep2 u2(1) ok len] by blast
  have uin: "rt_addr u \<in> rt_foot u" by (simp add: rt_foot_def)
  have h3ok: "heap_ok h3"
  proof (rule heap_ok_frame [OF g(4) h3(3,5)])
    show "hp_nodes h2 a \<noteq> None" if "a \<in> insert c (insert (rt_addr u) (rt_addr ` set us))" for a
      using that tree_rep_alloc [OF rep2, of a] tree_rep_alloc [OF u2(1), of a] rt_addr_kid [of a us c l True d]
      by auto
    show "hp_lists h2 l' \<noteq> None" if "l' \<in> {l}" for l'
      using tree_rep_alloc_list [OF rep2, of l] that by auto
  qed
  have rtok: "rt_ok (RT c l True d (us @ [u]))" using ok by (auto simp: rt_ok_def)
  have foot: "\<forall>a \<in> rt_foot (RT c l True d (us @ [u])). F \<le> a"
    using dd(3,4) ufoot unfolding rt_foot_snoc by (meson UnE order_trans)
  have F3: "F \<le> hp_fresh h3" using dd(4) g(2) h3(5) by simp
  have dst3: "copy_dest F h3 qd (RT c l True d (us @ [u]))"
    using h3(2,4) rtok foot F3 h3ok g(5) by (simp add: copy_dest_def)
  have dstu: "copy_dest F h3 (NodeP c) u"
    using h3(2,4) u2(2) ufoot dd(4) F3 h3ok g(5) by (auto simp: copy_dest_def)
  have c2: "hp_nodes h2 c = hp_nodes h c" using g(1) below [of c] by (simp add: heap_frame_def rt_foot_def)
  have "heap_frame (insert c (rt_addr ` set us) \<union> {hp_fresh h..}) (insert l {hp_fresh h..}) h h3"
    using g(1) h3(3) ufoot uin by (auto simp: heap_frame_def)
  then have gr: "grows_at c l us h h3"
    using h3(4-6) g(2,3,5) h3ok c2 psf by (simp add: grows_at_def links_same_def)
  show thesis
    by (rule that [OF new(1,2) h3(1) new(4,5) _ _ dst3 dstu gr])
      (use new(6) v(1) h3(4,5) ufoot ubelow ufresh in auto)
qed

definition copy_children_ok :: "nat \<Rightarrow> bool" where
  "copy_children_ok f \<longleftrightarrow> (\<forall>h F p ts pr ni qd c l d us.
      (\<forall>t \<in> set ts. copy_source F h (NodeP p) t) \<longrightarrow> dseg (hp_nodes h) pr (it_value ni) (map rt_addr ts) Null \<longrightarrow>
      copy_dest F h qd (RT c l True d us) \<longrightarrow> length us + length ts < 2 ^ 32 \<longrightarrow>
      Suc (2 * sum_list (map rt_size ts)) \<le> f \<longrightarrow>
      (\<exists>h' us'. plist_copy_children f h ni (NodeP c) = Some (h', NodeP c)
        \<and> copy_dest F h' qd (RT c l True d (us @ us')) \<and> grows_at c l us h h'
        \<and> copied (hp_fresh h) h h' ts us'))"

lemma copy_children_okD:
  assumes "copy_children_ok f" "\<forall>t \<in> set ts. copy_source F h (NodeP p) t"
    "dseg (hp_nodes h) pr (it_value ni) (map rt_addr ts) Null" "copy_dest F h qd (RT c l True d us)"
    "length us + length ts < 2 ^ 32" "Suc (2 * sum_list (map rt_size ts)) \<le> f"
  obtains h' us' where "plist_copy_children f h ni (NodeP c) = Some (h', NodeP c)"
    "copy_dest F h' qd (RT c l True d (us @ us'))" "grows_at c l us h h'" "copied (hp_fresh h) h h' ts us'"
  using assms unfolding copy_children_ok_def by blast

lemma grows_trans:
  assumes "grows_at c l us h h1" "grows_at c l (us @ vs) h1 h2" "\<forall>v \<in> set vs. hp_fresh h \<le> rt_addr v"
  shows "grows_at c l us h h2"
proof -
  have "heap_frame (insert c (rt_addr ` set us) \<union> {hp_fresh h..}) (insert l {hp_fresh h..}) h h2"
    using assms unfolding grows_at_def heap_frame_def by auto
  moreover have "links_same h h2 c" using assms(1,2) by (auto simp: grows_at_def links_same_def)
  ultimately show ?thesis using assms(1,2) ps_ext_trans by (auto simp: grows_at_def)
qed

text \<open>Copying the children of a fresh copy that hangs last below \<open>c\<close>.\<close>

lemma grows_inner:
  assumes dst: "copy_dest F h3 qd (RT c l True d (us @ [u]))" and g: "grows_at c l us h h3"
    and u: "u = RT c' l' True d' []" "\<forall>a \<in> rt_foot u. hp_fresh h \<le> a"
    and below: "\<forall>a \<in> rt_foot (RT c l True d us). a < hp_fresh h"
    and g4: "grows_at c' l' [] h3 h4" and dst4: "copy_dest F h4 (NodeP c) (RT c' l' True d' ks)"
    and kfoot: "\<forall>k \<in> set ks. \<forall>a \<in> rt_foot k. hp_fresh h3 \<le> a"
  shows "copy_dest F h4 qd (RT c l True d (us @ [RT c' l' True d' ks]))" "grows_at c l us h h4"
    "\<forall>a \<in> rt_foot (RT c' l' True d' ks). hp_fresh h \<le> a"
proof -
  let ?u = "RT c' l' True d' ks"
  have d3: "tree_rep h3 qd (RT c l True d (us @ [u]))" "rt_ok (RT c l True d (us @ [u]))"
    "\<forall>a \<in> rt_foot (RT c l True d (us @ [u])). F \<le> a" using dst by (simp_all add: copy_dest_def)
  have d4: "tree_rep h4 (NodeP c) ?u" "rt_ok ?u" "\<forall>a \<in> rt_foot ?u. F \<le> a" "F \<le> hp_fresh h4" "heap_ok h4"
    "ps_ok (hp_store h4)" using dst4 by (simp_all add: copy_dest_def)
  have f4: "heap_frame (insert c' {} \<union> {hp_fresh h3..}) (insert l' {hp_fresh h3..}) h3 h4" "links_same h3 h4 c'"
    "hp_fresh h3 \<le> hp_fresh h4" using g4 by (simp_all add: grows_at_def)
  have h03: "hp_fresh h \<le> hp_fresh h3" using g by (simp add: grows_at_def)
  have c'l': "hp_fresh h \<le> c'" "hp_fresh h \<le> l'" using u by (simp_all add: rt_foot_def)
  show ufoot: "\<forall>a \<in> rt_foot ?u. hp_fresh h \<le> a"
  proof -
    have "hp_fresh h \<le> a" if "k \<in> set ks" "a \<in> set (rt_addrs k) \<union> set (rt_lists k)" for k a
      using kfoot h03 that order_trans unfolding rt_foot_def by blast
    then show ?thesis using c'l' by (auto simp: rt_foot_def)
  qed
  have old: "a < hp_fresh h" if "a \<in> set (rt_addrs (RT c l True d us)) \<union> set (rt_lists (RT c l True d us))" for a
    using below that unfolding rt_foot_def by blast
  have rep: "tree_rep h4 qd (RT c l True d (us @ [?u]))"
  proof (rule grow_last [OF d3(1,2) d4(1) _ _ f4(1)])
    show "rt_addr ?u = rt_addr u" "links_same h3 h4 (rt_addr u)" using u f4(2) by simp_all
    show "x \<notin> set (rt_addrs (RT c l True d us))" if "x \<in> insert c' {} \<union> {hp_fresh h3..}" for x
    proof -
      have "hp_fresh h \<le> x" using that c'l' h03 by auto
      then show ?thesis using old [of x] by (meson UnI1 not_le)
    qed
    show "x \<notin> set (rt_lists (RT c l True d us))" if "x \<in> insert l' {hp_fresh h3..}" for x
    proof -
      have "hp_fresh h \<le> x" using that c'l' h03 by auto
      then show ?thesis using old [of x] by (meson UnI2 not_le)
    qed
  qed
  have disj: "set (rt_addrs (RT c l True d us)) \<inter> set (rt_addrs ?u) = {}"
    "set (rt_lists (RT c l True d us)) \<inter> set (rt_lists ?u) = {}"
    using old ufoot unfolding rt_foot_def by (meson UnI1 UnI2 disjoint_iff not_le)+
  have "rt_ok (RT c l True d (us @ [?u]))" using d3(2) d4(2) disj by (auto simp: rt_ok_def)
  moreover have "\<forall>a \<in> rt_foot (RT c l True d (us @ [?u])). F \<le> a"
    using d3(3) d4(3) unfolding rt_foot_snoc by blast
  ultimately show "copy_dest F h4 qd (RT c l True d (us @ [?u]))" using rep d4 by (simp add: copy_dest_def)
  have "c \<noteq> c'" "c < hp_fresh h3" using old [of c] c'l' h03 by auto
  then have c4: "hp_nodes h4 c = hp_nodes h3 c" using f4(1) by (simp add: heap_frame_def)
  have "heap_frame (insert c (rt_addr ` set us) \<union> {hp_fresh h..}) (insert l {hp_fresh h..}) h h4"
    using g f4(1) c'l' h03 unfolding grows_at_def heap_frame_def by auto
  then show "grows_at c l us h h4"
    using g g4 c4 ps_ext_trans by (auto simp: grows_at_def links_same_def)
qed

section \<open>The recursion\<close>

lemma fresh_data_new: "ps_ok s \<Longrightarrow> plist_val s e = Some v \<Longrightarrow> \<not> fresh_data (ps_fresh s) s' e"
  using ps_okD(1) [of s] by (fastforce simp: fresh_data_def elim!: plist_valE)

lemma copied_Cons:
  assumes "copied (hp_fresh h) h h1 [t] [t']" "copied (hp_fresh h1) h1 h2 ts us" "ps_ext (hp_store h1) (hp_store h2)"
    "hp_fresh h \<le> hp_fresh h1" "map (plist_view h1) ts = map (plist_view h) ts"
    and ps: "ps_ok (hp_store h1)" "ps_fresh (hp_store h) \<le> ps_fresh (hp_store h1)"
  shows "copied (hp_fresh h) h h2 (t # ts) (t' # us)"
proof -
  have t': "\<forall>e \<in> rt_datas t'. \<exists>v. plist_val (hp_store h1) e = Some v" using assms(1) by (simp add: copied_def)
  have "plist_view h2 t' = plist_view h t"
    using plist_view_ext(1) [OF assms(3) t'] assms(1) by (simp add: copied_def)
  moreover have "\<forall>e \<in> rt_datas t'. \<exists>v. plist_val (hp_store h2) e = Some v"
    by (rule plist_view_ext(2) [OF assms(3) t'])
  moreover have "\<forall>u \<in> set us. \<forall>a \<in> rt_foot u. hp_fresh h \<le> a"
    using assms(2,4) order_trans unfolding copied_def by blast
  moreover have "fresh_data (ps_fresh (hp_store h)) (hp_store h2) e" if "e \<in> rt_datas t'" for e
    using assms(1) t' that fresh_data_ext [OF _ assms(3)] unfolding copied_def by fastforce
  moreover have "fresh_data (ps_fresh (hp_store h)) (hp_store h2) e" if "u \<in> set us" "e \<in> rt_datas u" for u e
    using assms(2) fresh_data_mono [OF _ ps(2)] that unfolding copied_def by blast
  moreover have "e \<notin> rt_datas u" if "u \<in> set us" "e \<in> rt_datas t'" for u e
    using assms(2) t' that fresh_data_new [OF ps(1)] unfolding copied_def by metis
  then have "rt_datas t' \<inter> set (concat (map rt_dlist us)) = {}" by (auto simp: rt_datas_dlist)
  ultimately show ?thesis
    using assms(1,2,5) unfolding copied_def by (simp add: rt_datas_dlist)
qed

lemma dest_roots:
  assumes "\<forall>a \<in> rt_foot (RT c l b d us). F \<le> a"
  shows "\<forall>v \<in> set us. F \<le> rt_addr v" "F \<le> c" "F \<le> l"
proof -
  show "\<forall>v \<in> set us. F \<le> rt_addr v"
    using assms rt_addr_kid [of _ us c l b d] unfolding rt_foot_def by fastforce
qed (use assms in \<open>auto simp: rt_foot_def\<close>)

text \<open>One recursive call, given the loop over the children.\<close>

lemma copy_node_call:
  assumes IH: "copy_children_ok f" and src: "copy_source F h q t"
    and dst: "copy_dest F h qd (RT c l True d us)" and len: "Suc (length us) < 2 ^ 32"
    and fuel: "2 * rt_size t \<le> Suc f"
  obtains h' t' where "plist_copy_node (Suc f) h (NodeP (rt_addr t)) (NodeP c) = Some (h', NodeP c)"
    "copy_dest F h' qd (RT c l True d (us @ [t']))" "grows_at c l us h h'" "copied (hp_fresh h) h h' [t] [t']"
proof -
  obtain p lt bt dt ts where t: "t = RT p lt bt dt ts" by (cases t)
  obtain h1 nd h2 h3 u where a: "plist_copy_struct h (NodeP p) = Some (h1, nd)"
    "plist_new_node h1 (Some nd) = Some (h2, NodeP (rt_addr u))"
    "node_attach h2 (NodeP c) (NodeP (rt_addr u)) = Some (h3, 0)"
    "rt_kids u = []" "rt_headed u" "plist_val (hp_store h3) (rt_data u) = plist_val (hp_store h) dt"
    "\<forall>a \<in> rt_foot u. hp_fresh h \<le> a \<and> a < hp_fresh h3" "copy_dest F h3 qd (RT c l True d (us @ [u]))"
    "copy_dest F h3 (NodeP c) u" "grows_at c l us h h3"
    "fresh_data (ps_fresh (hp_store h)) (hp_store h3) (rt_data u)"
    by (rule copy_attached [OF src [unfolded t] dst len])
  obtain c' l' d' where u: "u = RT c' l' True d' []" using a(4,5) by (cases u) auto
  have dd: "\<forall>a \<in> rt_foot (RT c l True d us). F \<le> a" "F \<le> hp_fresh h" "tree_rep h qd (RT c l True d us)" "heap_ok h"
    using dst by (simp_all add: copy_dest_def)
  have below: "\<forall>a \<in> rt_foot (RT c l True d us). a < hp_fresh h"
    using tree_rep_alloc [OF dd(3)] tree_rep_alloc_list [OF dd(3)] heap_ok_fresh [OF dd(4)]
      heap_ok_fresh_list [OF dd(4)] unfolding rt_foot_def by blast
  note roots = dest_roots [OF dd(1)]
  note src3 = copy_source_grow [OF src a(10) dd(2) roots(2,3,1)]
  have s3: "tree_rep h3 q (RT p lt bt dt ts)" "rt_ok (RT p lt bt dt ts)"
    using src3(1) t by (simp_all add: copy_source_def)
  obtain n L where n: "hp_nodes h3 p = Some n" "nd_children n = ListP lt" "hp_lists h3 lt = Some L"
    "dseg (hp_nodes h3) (first_prev bt lt) (nl_begin L) (map rt_addr ts) Null" "length ts < 2 ^ 32"
    by (rule tree_repE [OF s3(1)])
  have kids: "\<forall>k \<in> set ts. copy_source F h3 (NodeP p) k"
    using src3(1) rt_ok_kid(1) [OF s3(2)] t by (auto simp: copy_source_def rt_foot_def)
  define ni where "ni = \<lparr>it_position = 0, it_count = nl_count L, it_begin = nl_begin L, it_end = nl_end L,
    it_value = nl_begin L\<rparr>"
  obtain h4 ks where h4: "plist_copy_children f h3 ni (NodeP c') = Some (h4, NodeP c')"
    "copy_dest F h4 (NodeP c) (RT c' l' True d' ([] @ ks))" "grows_at c' l' [] h3 h4"
    "copied (hp_fresh h3) h3 h4 ts ks"
    using copy_children_okD [OF IH kids, of "first_prev bt lt" ni "NodeP c" c' l' d' "[]"]
      n(4,5) a(9) u fuel t by (auto simp: ni_def)
  have kfoot: "\<forall>k \<in> set ks. \<forall>a \<in> rt_foot k. hp_fresh h3 \<le> a" using h4(4) by (simp add: copied_def)
  have ufoot: "\<forall>a \<in> rt_foot u. hp_fresh h \<le> a" using a(7) by blast
  note fin = grows_inner [OF a(8,10) u ufoot below h4(3) h4(2) [simplified] kfoot]
  have "plist_copy_node (Suc f) h (NodeP (rt_addr t)) (NodeP c) = Some (h4, NodeP c)"
    using a(1-3) n(1-3) h4(1) t u
    by (simp add: node_iterator_create_def node_iterator_bind_def ni_def)
  moreover have "copied (hp_fresh h) h h4 [t] [RT c' l' True d' ks]"
  proof -
    have ext: "ps_ext (hp_store h3) (hp_store h4)" using h4(3) by (simp add: grows_at_def)
    obtain v where v: "plist_val (hp_store h) dt = Some v" using src t by (auto simp: copy_source_def)
    then have d': "plist_val (hp_store h4) d' = Some v" using a(6) u plist_val_ext [OF ext] by simp
    have "plist_view h3 k = plist_view h k" if "k \<in> set ts" for k
      using src3(2) that t by simp
    then have "map (plist_view h4) ks = map (plist_view h) ts" using h4(4) by (simp add: copied_def)
    then have "plist_view h4 (RT c' l' True d' ks) = plist_view h t" using v d' t by simp
    moreover have "plist_val (hp_store h3) d' = Some v" using a(6) u v by simp
    moreover have "fresh_data (ps_fresh (hp_store h)) (hp_store h3) d'" "ps_ok (hp_store h3)"
      "ps_fresh (hp_store h) \<le> ps_fresh (hp_store h3)" using a(8,10,11) u by (simp_all add: copy_dest_def grows_at_def)
    ultimately show ?thesis
      using h4(4) d' fin(3) fresh_data_ext [OF _ ext] fresh_data_mono fresh_data_new
      unfolding copied_def by (fastforce simp: rt_datas_dlist)
  qed
  ultimately show thesis using that fin(1,2) by blast
qed

lemma plist_copy_children_step:
  assumes IH: "\<And>g. g < f \<Longrightarrow> copy_children_ok g"
    and src: "\<forall>t \<in> set ts. copy_source F h (NodeP p) t"
    and seg: "dseg (hp_nodes h) pr (it_value ni) (map rt_addr ts) Null"
    and dst: "copy_dest F h qd (RT c l True d us)" and len: "length us + length ts < 2 ^ 32"
    and fuel: "Suc (2 * sum_list (map rt_size ts)) \<le> f"
  shows "\<exists>h' us'. plist_copy_children f h ni (NodeP c) = Some (h', NodeP c)
        \<and> copy_dest F h' qd (RT c l True d (us @ us')) \<and> grows_at c l us h h'
        \<and> copied (hp_fresh h) h h' ts us'"
proof -
  from fuel obtain g where g: "f = Suc g" by (cases f) auto
  have dd: "heap_ok h" "ps_ok (hp_store h)" "\<forall>a \<in> rt_foot (RT c l True d us). F \<le> a" "F \<le> hp_fresh h"
    "\<exists>n. hp_nodes h c = Some n" using dst by (auto simp: copy_dest_def)
  show ?thesis
  proof (cases ts)
    case Nil
    have "grows_at c l us h h" using dd by (auto simp: grows_at_def links_same_def)
    with Nil seg dst g show ?thesis
      by (intro exI [of _ h] exI [of _ "[]"]) (simp add: node_iterator_next_def copied_def)
  next
    case (Cons t ts')
    have pos: "0 < rt_size t" by (rule rt_size_pos)
    then obtain k where k: "g = Suc k" using fuel g Cons by (cases g) auto
    have fuel1: "2 * rt_size t \<le> Suc k" and len1: "Suc (length us) < 2 ^ 32" using fuel g k Cons len by simp_all
    have src1: "copy_source F h (NodeP p) t" using src Cons by simp
    from IH [of k] g k have "copy_children_ok k" by simp
    from copy_node_call [OF this src1 dst len1 fuel1] obtain h1 t' where
      h1: "plist_copy_node (Suc k) h (NodeP (rt_addr t)) (NodeP c) = Some (h1, NodeP c)"
      "copy_dest F h1 qd (RT c l True d (us @ [t']))" "grows_at c l us h h1" "copied (hp_fresh h) h h1 [t] [t']" .
    from seg Cons obtain n where n: "it_value ni = NodeP (rt_addr t)" "hp_nodes h (rt_addr t) = Some n"
      "dseg (hp_nodes h) (NodeP (rt_addr t)) (nd_next n) (map rt_addr ts') Null" by auto
    note roots = dest_roots [OF dd(3)]
    have fr: "heap_frame (insert c (rt_addr ` set us) \<union> {hp_fresh h..}) (insert l {hp_fresh h..}) h h1"
      using h1(3) by (simp add: grows_at_def)
    have same: "hp_nodes h1 x = hp_nodes h x" if "x < F" for x
    proof -
      have "F \<le> y" if "y \<in> insert c (rt_addr ` set us) \<union> {hp_fresh h..}" for y using roots dd(4) that by auto
      then show ?thesis using fr that unfolding heap_frame_def by (meson not_le)
    qed
    have below: "rt_addr u < F" if "u \<in> set ts" for u
      using src that by (auto simp: copy_source_def rt_foot_def)
    have "dseg (hp_nodes h1) (NodeP (rt_addr t)) (nd_next n) (map rt_addr ts') Null"
      using n(3) by (subst dseg_cong [where N' = "hp_nodes h"]) (use same below Cons in auto)
    moreover define ni' where "ni' = ni\<lparr>it_value := nd_next n, it_position := it_position ni + 1\<rparr>"
    moreover have "\<forall>u \<in> set ts'. copy_source F h1 (NodeP p) u"
      using copy_source_grow(1) [OF _ h1(3) dd(4) roots(2,3,1)] src Cons by simp
    moreover have "copy_children_ok g" using IH g by simp
    moreover have "length (us @ [t']) + length ts' < 2 ^ 32" "Suc (2 * sum_list (map rt_size ts')) \<le> g"
      using len fuel Cons g pos by simp_all
    ultimately obtain h2 us' where h2: "plist_copy_children g h1 ni' (NodeP c) = Some (h2, NodeP c)"
      "copy_dest F h2 qd (RT c l True d ((us @ [t']) @ us'))" "grows_at c l (us @ [t']) h1 h2"
      "copied (hp_fresh h1) h1 h2 ts' us'"
      using copy_children_okD [of g ts' F h1 p "NodeP (rt_addr t)" ni' qd c l d "us @ [t']"] h1(2)
      by (auto simp: ni'_def)
    have "node_iterator_next h ni = Some (ni', NodeP (rt_addr t))"
      using n by (simp add: node_iterator_next_def ni'_def)
    then have "plist_copy_children f h ni (NodeP c) = Some (h2, NodeP c)"
      using g k h1(1) h2(1) by simp
    moreover have "grows_at c l us h h2"
      by (rule grows_trans [OF h1(3) h2(3)]) (use h1(4) in \<open>simp add: copied_def rt_foot_def\<close>)
    moreover have "copied (hp_fresh h) h h2 ts (t' # us')"
      unfolding Cons
    proof (rule copied_Cons [OF h1(4) h2(4)])
      show "ps_ext (hp_store h1) (hp_store h2)" "hp_fresh h \<le> hp_fresh h1" "ps_ok (hp_store h1)"
        "ps_fresh (hp_store h) \<le> ps_fresh (hp_store h1)"
        using h1(3) h2(3) by (simp_all add: grows_at_def)
      show "map (plist_view h1) ts' = map (plist_view h) ts'"
        using copy_source_grow(2) [OF _ h1(3) dd(4) roots(2,3,1)] src Cons by auto
    qed
    ultimately show ?thesis using h2(2) by auto
  qed
qed

lemma copy_children_all: "copy_children_ok f"
proof (induction f rule: less_induct)
  case (less f)
  show ?case unfolding copy_children_ok_def
    by (intro allI impI) (rule plist_copy_children_step [OF less]; assumption)
qed

section \<open>\<open>plist_copy\<close>\<close>

lemma plist_copy_rep:
  assumes rep: "plist_rep h q t" and fuel: "2 * rt_size t \<le> f"
  obtains h' t' where "plist_copy f h (NodeP (rt_addr t)) = Some (h', NodeP (rt_addr t'))"
    "plist_view h' t' = plist_view h t" "tree_rep h' Null t'" "rt_ok t'" "\<forall>a \<in> rt_foot t'. hp_fresh h \<le> a"
    "plist_rep h' q t" "plist_view h' t = plist_view h t" "ps_ext (hp_store h) (hp_store h')"
    "heap_frame {hp_fresh h..} {hp_fresh h..} h h'" "fresh_plist h h' t'"
proof -
  obtain p lt bt dt ts where t: "t = RT p lt bt dt ts" by (cases t)
  obtain g where g: "f = Suc g" using fuel rt_size_pos [of t] by (cases f) auto
  have r: "heap_ok h" "tree_rep h q t" "rt_ok t" "data_in (hp_store h) (rt_dlist t)"
    using rep by (simp_all add: plist_rep_def)
  then have ps: "ps_ok (hp_store h)" by (simp add: data_in_def)
  obtain v where v: "plist_val (hp_store h) dt = Some v" using r(4) t by (auto simp: data_in_def)
  then have nv: "node_val h (NodeP p) = Some v" using r(2) t by (auto simp: node_val_def)
  from copy_leaf [OF r(1) ps nv] obtain h1 nd h2 u where
    new: "plist_copy_struct h (NodeP p) = Some (h1, nd)" "plist_new_node h1 (Some nd) = Some (h2, NodeP (rt_addr u))"
    "fresh_plist h h2 u" "rt_kids u = []" "rt_headed u" "plist_val (hp_store h2) (rt_data u) = Some v" .
  obtain c l d where u: "u = RT c l True d []" using new(4,5) by (cases u) auto
  note old = fresh_apart [OF rep new(3)]
  have gr: "heap_frame {hp_fresh h..} {hp_fresh h..} h h2" "hp_fresh h \<le> hp_fresh h2" "ps_ext (hp_store h) (hp_store h2)"
    "heap_ok h2" "ps_ok (hp_store h2)" "plist_rep h2 Null u" "\<forall>a \<in> rt_foot u. hp_fresh h \<le> a"
    using new(3) by (simp_all add: fresh_plist_def plist_grows_def)
  have r2: "tree_rep h2 q (RT p lt bt dt ts)" "rt_ok (RT p lt bt dt ts)" "data_in (hp_store h2) (rt_dlist t)"
    using old(1) t by (simp_all add: plist_rep_def)
  obtain n L where n: "hp_nodes h2 p = Some n" "nd_children n = ListP lt" "hp_lists h2 lt = Some L"
    "dseg (hp_nodes h2) (first_prev bt lt) (nl_begin L) (map rt_addr ts) Null" "length ts < 2 ^ 32"
    by (rule tree_repE [OF r2(1)])
  have src: "copy_source (hp_fresh h) h2 q t"
    using r2 t rep_below(1) [OF rep] data_in_val [OF r2(3)] by (auto simp: copy_source_def rt_datas_dlist)
  have kids: "\<forall>k \<in> set ts. copy_source (hp_fresh h) h2 (NodeP p) k"
    using src rt_ok_kid(1) [OF r2(2)] t by (auto simp: copy_source_def rt_foot_def)
  have dst: "copy_dest (hp_fresh h) h2 Null (RT c l True d [])"
    using gr u by (simp add: copy_dest_def plist_rep_def)
  define ni where "ni = \<lparr>it_position = 0, it_count = nl_count L, it_begin = nl_begin L, it_end = nl_end L,
    it_value = nl_begin L\<rparr>"
  have fuel': "Suc (2 * sum_list (map rt_size ts)) \<le> g" using fuel g t by simp
  obtain h3 ks where h3: "plist_copy_children g h2 ni (NodeP c) = Some (h3, NodeP c)"
    "copy_dest (hp_fresh h) h3 Null (RT c l True d ks)" "grows_at c l [] h2 h3" "copied (hp_fresh h2) h2 h3 ts ks"
    using copy_children_okD [OF copy_children_all kids _ dst, of "first_prev bt lt" ni g] n(4,5) fuel'
    by (auto simp: ni_def)
  have run: "plist_copy f h (NodeP (rt_addr t)) = Some (h3, NodeP c)"
    using new(1,2) n(1-3) h3(1) t u g
    by (simp add: plist_copy_def node_iterator_create_def node_iterator_bind_def ni_def)
  have cl: "hp_fresh h \<le> c" "hp_fresh h \<le> l" using gr(7) u by (simp_all add: rt_foot_def)
  have ext: "ps_ext (hp_store h2) (hp_store h3)" and frame3: "heap_frame (insert c (rt_addr ` set []) \<union> {hp_fresh h2..}) (insert l {hp_fresh h2..}) h2 h3"
    and ok3: "heap_ok h3" "ps_ok (hp_store h3)" using h3(3) by (simp_all add: grows_at_def)
  have frame: "heap_frame {hp_fresh h..} {hp_fresh h..} h h3"
    using gr(1,2) frame3 cl by (auto simp: heap_frame_def)
  have disj: "{hp_fresh h..} \<inter> set (rt_addrs t) = {}" "{hp_fresh h..} \<inter> set (rt_lists t) = {}"
    using rep_below(1) [OF rep] unfolding rt_foot_def by (meson UnI1 UnI2 atLeast_iff disjoint_iff not_le)+
  have ext03: "ps_ext (hp_store h) (hp_store h3)" using gr(3) ext by (rule ps_ext_trans)
  have view: "plist_view h3 (RT c l True d ks) = plist_view h t"
    using h3(4) old(3) t new(6) u plist_val_ext [OF ext] v by (simp add: copied_def)
  have d2: "plist_val (hp_store h2) d = Some v" using new(6) u by simp
  have dfresh: "fresh_data (ps_fresh (hp_store h)) (hp_store h2) d" and ps2: "ps_fresh (hp_store h) \<le> ps_fresh (hp_store h2)"
    using new(3) u by (simp_all add: fresh_plist_def plist_grows_def)
  have kfresh: "fresh_data (ps_fresh (hp_store h2)) (hp_store h3) e" if "k \<in> set ks" "e \<in> set (rt_dlist k)" for k e
    using h3(4) that by (auto simp: copied_def rt_datas_dlist)
  have "d \<notin> set (concat (map rt_dlist ks))" using kfresh fresh_data_new [OF gr(5) d2] by auto
  then have din: "data_in (hp_store h3) (rt_dlist (RT c l True d ks))"
    using h3(4) ok3(2) plist_val_ext [OF ext d2] by (auto simp: data_in_def copied_def rt_datas_dlist)
  have "\<forall>e \<in> set (rt_dlist (RT c l True d ks)). fresh_data (ps_fresh (hp_store h)) (hp_store h3) e"
    using fresh_data_ext [OF dfresh ext d2] fresh_data_mono [OF kfresh ps2] by auto
  moreover have "plist_grows h h3"
    using frame ext03 ok3 gr(2) ps2 h3(3) by (simp add: plist_grows_def grows_at_def)
  ultimately have new: "fresh_plist h h3 (RT c l True d ks)"
    using h3(2) din ok3(1) unfolding fresh_plist_def plist_rep_def copy_dest_def by simp
  show thesis
    by (rule that [of h3 "RT c l True d ks"])
      (use run view h3(2) frame new ext03 frame_rep [OF rep frame disj ok3] plist_val_ext [OF ext03]
        in \<open>simp_all add: copy_dest_def\<close>)
qed

end
