(* ===== verification/Arrays.thy ===== *)
theory Arrays imports Prelude begin

text \<open>
  \<open>airplay/libplist/src/bytearray.c\<close>: the growing byte buffer that the binary property list
  writer streams into.  \<open>ba_data\<close> lists the bytes of the allocation that have been written
  (malloc leaves the rest indeterminate and the code never reads it); \<open>ba_len\<close> and
  \<open>ba_capacity\<close> are the fields of the C struct.  Sizes of objects in memory are \<open>nat\<close>.
\<close>

section \<open>Model\<close>

record bytearray_t =
  ba_data :: "bytes option"
  ba_len :: nat
  ba_capacity :: nat

definition byte_array_new :: bytearray_t where
  "byte_array_new = \<lparr>ba_data = Some [], ba_len = 0, ba_capacity = 256\<rparr>"

text \<open>
  A NULL array, a NULL data pointer and a zero length are ignored; otherwise the allocation is
  grown by exactly the missing bytes and the new bytes are copied behind the old ones.  The copy
  is undefined when it would leave the allocation.
\<close>

definition byte_array_append :: "bytearray_t option \<Rightarrow> bytes \<Rightarrow> nat \<Rightarrow> bytearray_t option option" where
  "byte_array_append ba buf len =
     (case ba of
        None \<Rightarrow> Some None
      | Some a \<Rightarrow>
          (case ba_data a of
             None \<Rightarrow> Some (Some a)
           | Some data \<Rightarrow>
               if len \<le> 0 then Some (Some a)
               else do {
                 let remaining = ba_capacity a - ba_len a;
                 let a1 = (if len > remaining
                           then a\<lparr>ba_capacity := ba_capacity a + (len - remaining)\<rparr> else a);
                 src \<leftarrow> read_bytes buf 0 len;
                 guard (ba_len a1 + len \<le> ba_capacity a1);
                 Some (Some (a1\<lparr>ba_data := Some (write_bytes data (ba_len a1) src),
                                ba_len := ba_len a1 + len\<rparr>))
               }))"

text \<open>\<open>byte_array_free\<close> releases both allocations: what it frees, innermost first.\<close>

datatype ba_block = Ba_data bytes | Ba_struct

definition byte_array_free :: "bytearray_t option \<Rightarrow> ba_block list" where
  "byte_array_free ba =
     (case ba of
        None \<Rightarrow> []
      | Some a \<Rightarrow> (case ba_data a of None \<Rightarrow> [] | Some d \<Rightarrow> [Ba_data d]) @ [Ba_struct])"

section \<open>Invariant and abstraction\<close>

text \<open>The array denotes the list of bytes appended so far.\<close>

definition ba_inv :: "bytearray_t \<Rightarrow> bool" where
  "ba_inv a \<longleftrightarrow> (\<exists>d. ba_data a = Some d \<and> ba_len a = length d \<and> ba_len a \<le> ba_capacity a)"

definition ba_bytes :: "bytearray_t \<Rightarrow> bytes" where
  "ba_bytes a = (case ba_data a of None \<Rightarrow> [] | Some d \<Rightarrow> take (ba_len a) d)"

lemma ba_inv_new [simp]: "ba_inv byte_array_new"
  by (simp add: ba_inv_def byte_array_new_def)

lemma ba_bytes_new [simp]: "ba_bytes byte_array_new = []"
  by (simp add: ba_bytes_def byte_array_new_def)

lemma ba_inv_len: "ba_inv a \<Longrightarrow> ba_len a = length (ba_bytes a)"
  by (auto simp: ba_inv_def ba_bytes_def)

lemma byte_array_append_ok:
  assumes "ba_inv a" and "len \<le> length buf"
  obtains a' where "byte_array_append (Some a) buf len = Some (Some a')"
    and "ba_inv a'" and "ba_bytes a' = ba_bytes a @ take len buf"
    and "ba_capacity a' = max (ba_capacity a) (ba_len a + len)"
proof -
  from assms(1) obtain d where d: "ba_data a = Some d" "ba_len a = length d" "ba_len a \<le> ba_capacity a"
    by (auto simp: ba_inv_def)
  show thesis
  proof (cases "len = 0")
    case True
    with d assms show thesis
      by (intro that [of a]) (auto simp: byte_array_append_def)
  next
    case False
    define c where "c = max (ba_capacity a) (length d + len)"
    let ?a = "a\<lparr>ba_data := Some (d @ take len buf), ba_len := length d + len, ba_capacity := c\<rparr>"
    have "byte_array_append (Some a) buf len = Some (Some ?a)"
      using d assms(2) False
      by (auto simp: byte_array_append_def read_bytes_def Let_def c_def max_def)
    then show thesis
      using d assms(2) by (intro that [of ?a]) (auto simp: ba_inv_def ba_bytes_def c_def)
  qed
qed

section \<open>Pointer arrays\<close>

text \<open>
  \<open>airplay/libplist/src/ptrarray.c\<close>: the growing array of pointers that holds the serialised
  objects in index order.  A pointer is a value of the type variable; NULL is \<open>None\<close> where the
  code tests for it.  \<open>pa_pdata\<close> lists the slots that have been written.
\<close>

section \<open>Model\<close>

record 'a ptrarray_t =
  pa_pdata :: "'a list option"
  pa_len :: nat
  pa_capacity :: nat
  pa_capacity_step :: nat

text \<open>The \<open>int\<close> capacity is converted to \<open>size_t\<close> (64 bits) when it is stored.\<close>

definition size_of_int :: "int \<Rightarrow> nat" where
  "size_of_int c = nat (c mod 2 ^ 64)"

definition ptr_array_new :: "int \<Rightarrow> 'a ptrarray_t" where
  "ptr_array_new capacity =
     \<lparr>pa_pdata = Some [], pa_len = 0, pa_capacity = size_of_int capacity,
      pa_capacity_step = (if capacity > 64 then 64 else size_of_int capacity)\<rparr>"

definition ptr_array_add :: "'a ptrarray_t option \<Rightarrow> 'a option \<Rightarrow> 'a ptrarray_t option option" where
  "ptr_array_add pa data =
     (case pa of
        None \<Rightarrow> Some None
      | Some a \<Rightarrow>
          (case pa_pdata a of
             None \<Rightarrow> Some (Some a)
           | Some slots \<Rightarrow>
               (case data of
                  None \<Rightarrow> Some (Some a)
                | Some p \<Rightarrow> do {
                    let remaining = pa_capacity a - pa_len a;
                    let a1 = (if remaining = 0
                              then a\<lparr>pa_capacity := pa_capacity a + pa_capacity_step a\<rparr> else a);
                    guard (pa_len a1 < pa_capacity a1);
                    Some (Some (a1\<lparr>pa_pdata := Some (take (pa_len a1) slots @ p # drop (Suc (pa_len a1)) slots),
                                   pa_len := Suc (pa_len a1)\<rparr>))
                  })))"

definition ptr_array_index :: "'a ptrarray_t option \<Rightarrow> nat \<Rightarrow> 'a option option" where
  "ptr_array_index pa index =
     (case pa of
        None \<Rightarrow> Some None
      | Some a \<Rightarrow>
          if index \<ge> pa_len a then Some None
          else (case pa_pdata a of
                  None \<Rightarrow> None
                | Some slots \<Rightarrow> if index < length slots then Some (Some (slots ! index)) else None))"

datatype pa_block = Pa_data | Pa_struct

definition ptr_array_free :: "'a ptrarray_t option \<Rightarrow> pa_block list" where
  "ptr_array_free pa =
     (case pa of
        None \<Rightarrow> []
      | Some a \<Rightarrow> (case pa_pdata a of None \<Rightarrow> [] | Some _ \<Rightarrow> [Pa_data]) @ [Pa_struct])"

section \<open>Invariant and abstraction\<close>

definition pa_inv :: "'a ptrarray_t \<Rightarrow> bool" where
  "pa_inv a \<longleftrightarrow> (\<exists>xs. pa_pdata a = Some xs \<and> pa_len a = length xs \<and> pa_len a \<le> pa_capacity a
                 \<and> 0 < pa_capacity_step a)"

definition pa_list :: "'a ptrarray_t \<Rightarrow> 'a list" where
  "pa_list a = (case pa_pdata a of None \<Rightarrow> [] | Some xs \<Rightarrow> xs)"

lemma pa_inv_new [simp]: "0 < c \<Longrightarrow> c < 2 ^ 63 \<Longrightarrow> pa_inv (ptr_array_new c)"
  by (auto simp: pa_inv_def ptr_array_new_def size_of_int_def)

lemma pa_list_new [simp]: "pa_list (ptr_array_new c) = []"
  by (simp add: pa_list_def ptr_array_new_def)

lemma pa_inv_len: "pa_inv a \<Longrightarrow> pa_len a = length (pa_list a)"
  by (auto simp: pa_inv_def pa_list_def)

lemma ptr_array_add_ok:
  assumes "pa_inv a"
  obtains a' where "ptr_array_add (Some a) (Some p) = Some (Some a')"
    and "pa_inv a'" and "pa_list a' = pa_list a @ [p]"
proof -
  from assms obtain xs where xs: "pa_pdata a = Some xs" "pa_len a = length xs"
      "pa_len a \<le> pa_capacity a" "0 < pa_capacity_step a"
    by (auto simp: pa_inv_def)
  define c where "c = (if pa_capacity a - length xs = 0 then pa_capacity a + pa_capacity_step a
                       else pa_capacity a)"
  let ?a = "a\<lparr>pa_pdata := Some (xs @ [p]), pa_len := Suc (length xs), pa_capacity := c\<rparr>"
  have "length xs < c" using xs by (auto simp: c_def)
  with xs have "ptr_array_add (Some a) (Some p) = Some (Some ?a)"
    by (auto simp: ptr_array_add_def Let_def c_def)
  then show thesis
    using xs \<open>length xs < c\<close> by (intro that [of ?a]) (auto simp: pa_inv_def pa_list_def)
qed

lemma ptr_array_index_ok:
  "pa_inv a \<Longrightarrow>
   ptr_array_index (Some a) i = Some (if i < length (pa_list a) then Some (pa_list a ! i) else None)"
  by (auto simp: pa_inv_def pa_list_def ptr_array_index_def)

text \<open>A capacity of 0 has a growth step of 0, so the first element is stored outside the array.\<close>

lemma ptr_array_add_zero_capacity: "ptr_array_add (Some (ptr_array_new 0)) (Some p) = None"
  by (simp add: ptr_array_add_def ptr_array_new_def size_of_int_def)

end
