(* ===== verification/Libplist_Claims.thy ===== *)
theory Libplist_Claims imports Plist_Copy Arrays begin

text \<open>
  Concrete heaps on which the theorems about property lists are applied: an array that holds the
  unsigned integers 5 and 7, and a dictionary with one entry, next to a string node that stands alone.
\<close>

definition demo_node :: "ptr \<Rightarrow> ptr \<Rightarrow> u32 \<Rightarrow> nat \<Rightarrow> ptr \<Rightarrow> nat \<Rightarrow> node_t" where
  "demo_node nx pv count d par l = \<lparr>nd_next = nx, nd_prev = pv, nd_count = count, nd_isRoot = (par = Null),
     nd_isLeaf = (count = 0), nd_data = Some d, nd_depth = (if par = Null then 0 else 1), nd_parent = par,
     nd_children = ListP l\<rparr>"

definition empty_list :: "nat \<Rightarrow> node_list_t" where
  "empty_list l = \<lparr>nl_begin = Null, nl_end = ListP l, nl_count = 0\<rparr>"

lemmas demo_defs = demo_node_def empty_list_def

text \<open>\<open>[5, 7]\<close> at node 0; a detached string ''a'' at node 6\<close>

definition demo_array :: pheap where
  "demo_array = \<lparr>
     hp_nodes = [0 \<mapsto> demo_node Null Null 2 1 Null 1,
                 2 \<mapsto> demo_node (NodeP 4) (ListP 1) 0 2 (NodeP 0) 3,
                 4 \<mapsto> demo_node Null (NodeP 2) 0 3 (NodeP 0) 5,
                 6 \<mapsto> demo_node Null Null 0 4 Null 7],
     hp_lists = [1 \<mapsto> \<lparr>nl_begin = NodeP 2, nl_end = NodeP 4, nl_count = 2\<rparr>,
                 3 \<mapsto> empty_list 3, 5 \<mapsto> empty_list 5, 7 \<mapsto> empty_list 7],
     hp_store = \<lparr>ps_data = [1 \<mapsto> \<lparr>pd_val = Bits 0 0, pd_length = 0, pd_type = PLIST_ARRAY\<rparr>,
                           2 \<mapsto> \<lparr>pd_val = Bits 5 0, pd_length = 8, pd_type = PLIST_UINT\<rparr>,
                           3 \<mapsto> \<lparr>pd_val = Bits 7 0, pd_length = 8, pd_type = PLIST_UINT\<rparr>,
                           4 \<mapsto> \<lparr>pd_val = BufP 5 0, pd_length = 1, pd_type = PLIST_STRING\<rparr>],
                 ps_bufs = [5 \<mapsto> [97, 0]], ps_fresh = 6\<rparr>,
     hp_fresh = 8\<rparr>"

text \<open>It is what the library builds.\<close>

lemma demo_array_built:
  "do { (h, a) \<leftarrow> plist_new_array (empty_heap empty_store);
        (h, x) \<leftarrow> plist_new_uint h 5;
        (h, y) \<leftarrow> plist_new_uint h 7;
        (h, s) \<leftarrow> plist_new_string h [97];
        h \<leftarrow> plist_array_append_item h a x;
        h \<leftarrow> plist_array_append_item h a y;
        Some (h, a, s) } = Some (demo_array, NodeP 0, NodeP 6)"
  by (simp add: demo_array_def demo_defs plist_new_array_def plist_new_uint_def plist_new_string_def new_defs
      empty_heap_def empty_store_def node_create_def alloc_node_def node_list_create_def alloc_list_def list_init_def
      plist_array_append_item_def is_type_def plist_get_node_type_def plist_get_data_def node_attach_def
      node_list_add_def c_string_def)
    (intro conjI ext; simp add: numeral_eq_Suc)

definition demo_array_tree :: rtree where
  "demo_array_tree = RT 0 1 True (Some 1) [RT 2 3 True (Some 2) [], RT 4 5 True (Some 3) []]"

definition demo_string_tree :: rtree where
  "demo_string_tree = RT 6 7 True (Some 4) []"

lemma demo_store_ok: "ps_ok (hp_store demo_array)"
  by (auto simp: demo_array_def ps_ok_def owned_buf_def split: if_splits)

lemma demo_array_rep: "plist_rep demo_array Null demo_array_tree"
  using demo_store_ok
  by (auto simp: plist_rep_def demo_array_def demo_array_tree_def heap_ok_def rt_ok_def data_in_def list_rep_def
      first_prev_def demo_defs plist_val_def data_val_defs)

lemma demo_string_rep: "plist_rep demo_array Null demo_string_tree"
  using demo_store_ok
  by (auto simp: plist_rep_def demo_array_def demo_string_tree_def heap_ok_def rt_ok_def data_in_def list_rep_def
      first_prev_def demo_defs plist_val_def data_val_defs c_string_def)

lemma demo_apart: "apart demo_array_tree demo_string_tree"
  by (simp add: apart_def demo_array_tree_def demo_string_tree_def)

text \<open>\<open>{"k": 9}\<close> at node 0; a detached string ''a'' at node 6\<close>

definition demo_dict :: pheap where
  "demo_dict = \<lparr>
     hp_nodes = [0 \<mapsto> demo_node Null Null 2 1 Null 1,
                 2 \<mapsto> demo_node (NodeP 4) (ListP 1) 0 2 (NodeP 0) 3,
                 4 \<mapsto> demo_node Null (NodeP 2) 0 3 (NodeP 0) 5,
                 6 \<mapsto> demo_node Null Null 0 4 Null 7],
     hp_lists = [1 \<mapsto> \<lparr>nl_begin = NodeP 2, nl_end = NodeP 4, nl_count = 2\<rparr>,
                 3 \<mapsto> empty_list 3, 5 \<mapsto> empty_list 5, 7 \<mapsto> empty_list 7],
     hp_store = \<lparr>ps_data = [1 \<mapsto> \<lparr>pd_val = Bits 0 0, pd_length = 0, pd_type = PLIST_DICT\<rparr>,
                           2 \<mapsto> \<lparr>pd_val = BufP 6 0, pd_length = 1, pd_type = PLIST_KEY\<rparr>,
                           3 \<mapsto> \<lparr>pd_val = Bits 9 0, pd_length = 8, pd_type = PLIST_UINT\<rparr>,
                           4 \<mapsto> \<lparr>pd_val = BufP 5 0, pd_length = 1, pd_type = PLIST_STRING\<rparr>],
                 ps_bufs = [5 \<mapsto> [97, 0], 6 \<mapsto> [107, 0]], ps_fresh = 7\<rparr>,
     hp_fresh = 8\<rparr>"

definition demo_entries :: "entry list" where
  "demo_entries = [([107], RT 2 3 True (Some 2) [], RT 4 5 True (Some 3) [])]"

lemma demo_dict_store_ok: "ps_ok (hp_store demo_dict)"
  by (auto simp: demo_dict_def ps_ok_def owned_buf_def split: if_splits)

lemma demo_dict_rep: "dict_rep demo_dict Null 0 1 True (Some 1) demo_entries"
  using demo_dict_store_ok
  by (auto simp: dict_rep_def plist_rep_def demo_dict_def demo_entries_def heap_ok_def rt_ok_def data_in_def
      list_rep_def first_prev_def demo_defs plist_val_def data_val_defs c_string_def)



text \<open>
  The properties of libplist and libcnary, each with its instance on a concrete heap.
\<close>

section \<open>Property lists\<close>

text \<open>A property list survives the release of another one that shares nothing with it.\<close>

lemma free_apart:
  assumes t: "plist_rep h q t" and u: "plist_rep h Null u" and ap: "apart t u" and fuel: "2 * rt_size u \<le> g"
  shows "\<exists>h'. plist_free g h (NodeP (rt_addr u)) = Some h' \<and> plist_rep h' q t \<and> plist_view h' t = plist_view h t"
proof -
  have r: "tree_rep h Null u" "rt_ok u" "data_in (hp_store h) (rt_dlist u)" using u by (simp_all add: plist_rep_def)
  obtain h' where h': "plist_free g h (NodeP (rt_addr u)) = Some h'"
    "pfreed (set (rt_addrs u)) (set (rt_lists u)) (set (rt_dlist u)) h h'"
    by (rule plist_free_root [OF r fuel]) (auto simp: plist_free_def)
  have ok: "heap_ok h" "ps_ok (hp_store h)" using t by (simp_all add: plist_rep_def data_in_def)
  have sf: "store_freed (set (rt_dlist u)) (hp_store h) (hp_store h')" using h'(2) by (simp add: pfreed_def)
  have "heap_ok h'" using ok(1) h'(2) by (auto simp: heap_ok_def pfreed_def)
  moreover have "ps_ok (hp_store h')" by (rule store_freed_ok [OF sf ok(2)])
  moreover have "plist_val (hp_store h') e = Some v" if "e \<in> set (rt_dlist t)" "plist_val (hp_store h) e = Some v" for e v
    using store_freed_val [OF sf ok(2) _ that(2)] that(1) ap by (auto simp: apart_def)
  ultimately show ?thesis
    using frame_rep [OF t pfreed_frame [OF h'(2)]] h'(1) ap by (auto simp: apart_def)
qed

text \<open>
  C1.  \<open>plist_copy\<close> of a well-formed property list is deep.  With fuel for twice its number of nodes, it returns
  a new root whose tree holds the same values in the same shape, on nodes, list headers, data structures and
  buffers that were not allocated before, each node with data and each data with a buffer of its own; the
  original and everything else on the heap is unchanged.  Releasing the copy leaves the original intact, and
  releasing the original the copy.
\<close>

theorem plist_copy_deep:
  assumes "plist_rep h q t" and "2 * rt_size t \<le> f"
  shows "\<exists>h' t'. plist_copy f h (NodeP (rt_addr t)) = Some (h', NodeP (rt_addr t'))
    \<and> plist_rep h' Null t' \<and> plist_view h' t' = plist_view h t
    \<and> (\<forall>a \<in> rt_foot t'. hp_fresh h \<le> a)
    \<and> (\<forall>e \<in> set (rt_dlist t'). \<exists>a d. e = Some a \<and> ps_fresh (hp_store h) \<le> a \<and> ps_data (hp_store h') a = Some d
         \<and> (\<forall>x. owned_buf d = Some x \<longrightarrow> ps_fresh (hp_store h) \<le> x))
    \<and> plist_rep h' q t \<and> plist_view h' t = plist_view h t
    \<and> heap_frame {hp_fresh h..} {hp_fresh h..} h h' \<and> ps_ext (hp_store h) (hp_store h')
    \<and> (\<forall>g \<ge> 2 * rt_size t'. \<exists>h''. plist_free g h' (NodeP (rt_addr t')) = Some h''
         \<and> plist_rep h'' q t \<and> plist_view h'' t = plist_view h t)
    \<and> (\<forall>g \<ge> 2 * rt_size t. q = Null \<longrightarrow> (\<exists>h''. plist_free g h' (NodeP (rt_addr t)) = Some h''
         \<and> plist_rep h'' Null t' \<and> plist_view h'' t' = plist_view h t))"
proof -
  obtain h' t' where c: "plist_copy f h (NodeP (rt_addr t)) = Some (h', NodeP (rt_addr t'))"
    "plist_view h' t' = plist_view h t" "plist_rep h' q t" "plist_view h' t = plist_view h t"
    "ps_ext (hp_store h) (hp_store h')" "heap_frame {hp_fresh h..} {hp_fresh h..} h h'" "fresh_plist h h' t'"
    by (rule plist_copy_rep [OF assms]) (use that in blast)
  have new: "plist_rep h' Null t'" "\<forall>a \<in> rt_foot t'. hp_fresh h \<le> a"
    "\<And>e. e \<in> set (rt_dlist t') \<Longrightarrow> fresh_data (ps_fresh (hp_store h)) (hp_store h') e"
    using c(7) by (simp_all add: fresh_plist_def)
  have data: "\<exists>a d. e = Some a \<and> ps_fresh (hp_store h) \<le> a \<and> ps_data (hp_store h') a = Some d
      \<and> (\<forall>x. owned_buf d = Some x \<longrightarrow> ps_fresh (hp_store h) \<le> x)" if e: "e \<in> set (rt_dlist t')" for e
  proof -
    obtain v where "plist_val (hp_store h') e = Some v" using new(1) data_in_val [OF _ e] by (auto simp: plist_rep_def)
    then show ?thesis using new(3) [OF e] by (auto simp: fresh_data_def elim!: plist_valE)
  qed
  have ap: "apart t t'" by (rule fresh_apart(2) [OF assms(1) c(7)])
  have "\<exists>h''. plist_free g h' (NodeP (rt_addr t')) = Some h'' \<and> plist_rep h'' q t \<and> plist_view h'' t = plist_view h t"
    if "2 * rt_size t' \<le> g" for g using free_apart [OF c(3) new(1) ap that] c(4) by simp
  moreover have "\<exists>h''. plist_free g h' (NodeP (rt_addr t)) = Some h'' \<and> plist_rep h'' Null t' \<and> plist_view h'' t' = plist_view h t"
    if "2 * rt_size t \<le> g" "q = Null" for g
    using free_apart [OF new(1) _ apart_sym [OF ap] that(1)] c(2,3) that(2) by simp
  ultimately show ?thesis using c(1-6) new(1,2) data by blast
qed

theorem plist_copy_deep_witness:
  "\<exists>h' t'. plist_copy 6 demo_array (NodeP 0) = Some (h', NodeP (rt_addr t'))
    \<and> plist_view h' t' = VT (Some VArray) [VT (Some (VUint 5)) [], VT (Some (VUint 7)) []]
    \<and> plist_rep h' Null demo_array_tree
    \<and> (\<exists>h''. plist_free 6 h' (NodeP 0) = Some h'' \<and> plist_rep h'' Null t'
         \<and> plist_view h'' t' = VT (Some VArray) [VT (Some (VUint 5)) [], VT (Some (VUint 7)) []])"
proof -
  have "plist_view demo_array demo_array_tree = VT (Some VArray) [VT (Some (VUint 5)) [], VT (Some (VUint 7)) []]"
    by (simp add: demo_array_tree_def demo_array_def plist_val_def data_val_defs)
  then show ?thesis
    using plist_copy_deep [OF demo_array_rep, of 6] by (fastforce simp: demo_array_tree_def)
qed

text \<open>
  C2.  \<open>plist_free\<close> of a well-formed root releases every node, list header, data structure and
  buffer of the tree exactly once, and changes nothing else (no leak, no double free, no dangling
  access).
\<close>

theorem plist_free_exact:
  assumes "plist_rep h Null t" and "2 * rt_size t \<le> f"
  shows "\<exists>h'. plist_free f h (NodeP (rt_addr t)) = Some h'
    \<and> pfreed (set (rt_addrs t)) (set (rt_lists t)) (set (rt_dlist t)) h h'"
proof -
  have r: "tree_rep h Null t" "rt_ok t" "data_in (hp_store h) (rt_dlist t)"
    using assms(1) by (simp_all add: plist_rep_def)
  show ?thesis
    by (rule plist_free_root [OF r assms(2)]) (auto simp: plist_free_def)
qed

theorem plist_free_exact_witness:
  "\<exists>h'. plist_free 6 demo_array (NodeP 0) = Some h' \<and> hp_nodes h' 2 = None \<and> hp_lists h' 1 = None
    \<and> ps_data (hp_store h') 3 = None \<and> hp_nodes h' 6 = hp_nodes demo_array 6"
  using plist_free_exact [OF demo_array_rep, of 6]
  by (auto simp: demo_array_tree_def pfreed_def store_freed_def)

text \<open>
  C3.  \<open>plist_dict_get_item\<close> looks a key up in the association list that the alternating children
  spell: it returns the value of the first entry with that key, or NULL.
\<close>

theorem plist_dict_lookup:
  assumes "dict_rep h q a l b d es"
  shows "plist_dict_get_item h (NodeP a) key = Some (tree_ptr (entry_find es (c_string key)))"
  using assms by (rule dict_get_item_rep)

theorem plist_dict_lookup_witness:
  "plist_dict_get_item demo_dict (NodeP 0) [107] = Some (NodeP 4)
   \<and> plist_dict_get_item demo_dict (NodeP 0) [97] = Some Null"
  using plist_dict_lookup [OF demo_dict_rep, of "[107]"] plist_dict_lookup [OF demo_dict_rep, of "[97]"]
  by (simp add: demo_entries_def tree_ptr_def c_string_def)



text \<open>
   \<open>plist_dict_remove_item\<close> removes the first entry with the key, releases its key and its value
  completely, and keeps every other entry in place and unchanged.
\<close>

theorem plist_dict_remove_first:
  assumes "dict_rep h q a l b d (xs @ (c_string key, kt, t) # ys)" and "c_string key \<notin> fst ` set xs"
    and "xs = [] \<Longrightarrow> ys = [] \<Longrightarrow> b"
    and "2 * rt_size (RT a l b d (entry_kids (xs @ (c_string key, kt, t) # ys))) \<le> f"
  shows "\<exists>h'. plist_dict_remove_item f h (NodeP a) key = Some h' \<and> dict_rep h' q a l b d (xs @ ys)
    \<and> (\<forall>u \<in> set (entry_kids (xs @ ys)). plist_view h' u = plist_view h u)
    \<and> (\<forall>x \<in> set (rt_addrs kt) \<union> set (rt_addrs t). hp_nodes h' x = None)
    \<and> (\<forall>x \<in> set (rt_lists kt) \<union> set (rt_lists t). hp_lists h' x = None)
    \<and> store_freed (set (rt_dlist kt) \<union> set (rt_dlist t)) (hp_store h) (hp_store h')"
  using dict_remove_rep [OF assms(1) refl assms(2-4)] by metis

theorem plist_dict_remove_first_witness:
  "\<exists>h'. plist_dict_remove_item 6 demo_dict (NodeP 0) [107] = Some h' \<and> dict_rep h' Null 0 1 True (Some 1) []
    \<and> hp_nodes h' 4 = None"
  using plist_dict_remove_first [of demo_dict Null 0 1 True "Some 1" "[]" "[107]" "RT 2 3 True (Some 2) []"
      "RT 4 5 True (Some 3) []" "[]" 6] demo_dict_rep
  by (auto simp: demo_entries_def c_string_def)

text \<open>
   \<open>plist_array_set_item\<close> does not replace in place.  For an index inside the array it releases
  the old element and puts the new one in front of all others, because \<open>plist_free_node\<close> returns the
  result of \<open>node_detach\<close>, which is always 0.
\<close>

theorem plist_array_set_moves_to_front:
  assumes "plist_rep h q (RT a l b d ts)" and "plist_val (hp_store h) d = Some VArray"
    and "plist_rep h q' t" and "apart (RT a l b d ts) t" and "unat n < length ts"
    and "length ts = 1 \<Longrightarrow> b" and "2 * rt_size (RT a l b d ts) \<le> f"
  shows "\<exists>h' b'. plist_array_set_item f h (NodeP a) (NodeP (rt_addr t)) n = Some h'
    \<and> plist_rep h' q (RT a l b' d (t # take (unat n) ts @ drop (Suc (unat n)) ts))
    \<and> plist_array_get_item h' (NodeP a) 0 = Some (NodeP (rt_addr t))"
proof -
  obtain h' b' where h': "plist_array_set_item f h (NodeP a) (NodeP (rt_addr t)) n = Some h'"
    "plist_rep h' q (RT a l b' d (t # take (unat n) ts @ drop (Suc (unat n)) ts))"
    "plist_val (hp_store h') d = Some VArray"
    by (rule array_set_item_rep [OF assms]) (use that in blast)
  with array_get_item_rep [OF h'(2,3), of 0] show ?thesis by (auto simp: kid_ptr_def)
qed

theorem plist_array_set_moves_to_front_witness:
  "\<exists>h' b'. plist_array_set_item 6 demo_array (NodeP 0) (NodeP 6) 1 = Some h'
    \<and> plist_rep h' Null (RT 0 1 b' (Some 1) [demo_string_tree, RT 2 3 True (Some 2) []])"
proof -
  have "plist_val (hp_store demo_array) (Some 1) = Some VArray"
    by (simp add: demo_array_def plist_val_def data_val_defs)
  then show ?thesis
    using plist_array_set_moves_to_front [of demo_array Null 0 1 True "Some 1"
        "[RT 2 3 True (Some 2) [], RT 4 5 True (Some 3) []]" Null demo_string_tree 1 6]
      demo_array_rep demo_string_rep demo_apart
    by (auto simp: demo_array_tree_def demo_string_tree_def)
qed

text \<open>
  Arrays: the element at an index, the size and the index of an element are those of the list of
  children; an index past the end gives NULL.
\<close>

theorem plist_array_access:
  assumes "plist_rep h q (RT a l b d ts)" and "plist_val (hp_store h) d = Some VArray"
  shows "plist_array_get_item h (NodeP a) n = Some (if unat n < length ts then NodeP (rt_addr (ts ! unat n)) else Null)
    \<and> plist_array_get_size h (NodeP a) = Some (of_nat (length ts))
    \<and> (\<forall>i < length ts. plist_array_get_item_index h (NodeP (rt_addr (ts ! i))) = Some (of_nat i))"
  using array_get_item_rep [OF assms, of n] array_get_size_rep [OF assms] array_item_index_rep [OF assms]
  by (simp add: kid_ptr_def)

theorem plist_array_access_witness:
  "plist_array_get_item demo_array (NodeP 0) 1 = Some (NodeP 4) \<and> plist_array_get_size demo_array (NodeP 0) = Some 2
   \<and> plist_array_get_item_index demo_array (NodeP 4) = Some 1"
proof -
  have "plist_val (hp_store demo_array) (Some 1) = Some VArray"
    by (simp add: demo_array_def plist_val_def data_val_defs)
  then show ?thesis
    using plist_array_access [of demo_array Null 0 1 True "Some 1"
        "[RT 2 3 True (Some 2) [], RT 4 5 True (Some 3) []]" 1] demo_array_rep
    by (auto simp: demo_array_tree_def)
qed

text \<open>
   Construction and reading are inverse: on a consistent heap each scalar constructor returns a
  fresh leaf from which the getter of its type reads the value back, dates as their two 32-bit parts.
\<close>

theorem plist_scalar_roundtrip:
  assumes "heap_ok h" and "ps_ok (hp_store h)"
  shows "(\<exists>h' p. plist_new_bool h x = Some (h', p) \<and> plist_get_bool_val h' p = Some x)
    \<and> (\<exists>h' p. plist_new_uint h w = Some (h', p) \<and> plist_get_uint_val h' p = Some w)
    \<and> (\<exists>h' p. plist_new_uid h w = Some (h', p) \<and> plist_get_uid_val h' p = Some w)
    \<and> (\<exists>h' p. plist_new_real h w = Some (h', p) \<and> plist_get_real_val h' p = Some w)
    \<and> (\<exists>h' p. plist_new_date h sec usec = Some (h', p) \<and> plist_get_date_val h' p = Some (sec, usec))"
proof -
  have leaf: "\<exists>h' p. r = Some (h', p) \<and> node_val h' p = Some v" if "makes_leaf h r v" for r v
  proof -
    from that obtain h' t where t: "r = Some (h', NodeP (rt_addr t))" "fresh_plist h h' t"
      "plist_val (hp_store h') (rt_data t) = Some v" by (auto simp: makes_leaf_def)
    then have "tree_rep h' Null t" by (simp add: fresh_plist_def plist_rep_def)
    with t show ?thesis by (cases t) (auto simp: node_val_def)
  qed
  have date: "ucast (scast (y :: u32) :: u64) = y" for y
    by (rule bit_word_eqI) (auto simp: bit_simps bit_word_scast_iff)
  show ?thesis
  proof (intro conjI)
    show "\<exists>h' p. plist_new_bool h x = Some (h', p) \<and> plist_get_bool_val h' p = Some x"
      using leaf [OF plist_new_ok(3) [OF assms, of x]] plist_get_scalar(1) by blast
    show "\<exists>h' p. plist_new_uint h w = Some (h', p) \<and> plist_get_uint_val h' p = Some w"
      using leaf [OF plist_new_ok(4) [OF assms, of w]] plist_get_scalar(2) by blast
    show "\<exists>h' p. plist_new_uid h w = Some (h', p) \<and> plist_get_uid_val h' p = Some w"
      using leaf [OF plist_new_ok(5) [OF assms, of w]] plist_get_scalar(3) by blast
    show "\<exists>h' p. plist_new_real h w = Some (h', p) \<and> plist_get_real_val h' p = Some w"
      using leaf [OF plist_new_ok(6) [OF assms, of w]] plist_get_scalar(4) by blast
    obtain h' p where "plist_new_date h sec usec = Some (h', p)"
      "node_val h' p = Some (VDate (scast sec) (scast usec))"
      using leaf [OF plist_new_ok(7) [OF assms, of sec usec]] by blast
    with plist_get_scalar(5) [OF this(2)] date
    show "\<exists>h' p. plist_new_date h sec usec = Some (h', p) \<and> plist_get_date_val h' p = Some (sec, usec)"
      by simp
  qed
qed

theorem plist_scalar_roundtrip_witness:
  "\<exists>h' p. plist_new_uint demo_array 300 = Some (h', p) \<and> plist_get_uint_val h' p = Some 300"
proof -
  have "heap_ok demo_array" using demo_array_rep by (simp add: plist_rep_def)
  from plist_scalar_roundtrip [OF this demo_store_ok, where w = 300] show ?thesis by blast
qed

end
