(* ===== verification/Ieee_Double.thy ===== *)
theory Ieee_Double imports Prelude begin

text \<open>
  The C types \<open>float\<close> and \<open>double\<close> as bplist.c uses them: IEEE binary32 and binary64 bit patterns,
  the conversions between them and to integers, and correctly rounded (to nearest, ties to even)
  addition, multiplication and division, computed on exact ratios of naturals.
\<close>

section \<open>Fields\<close>

definition f64_sign :: "u64 \<Rightarrow> nat" where "f64_sign x = unat x div 2 ^ 63"
definition f64_exp :: "u64 \<Rightarrow> nat" where "f64_exp x = unat x div 2 ^ 52 mod 2 ^ 11"
definition f64_frac :: "u64 \<Rightarrow> nat" where "f64_frac x = unat x mod 2 ^ 52"

definition f64_pack :: "nat \<Rightarrow> nat \<Rightarrow> nat \<Rightarrow> u64" where
  "f64_pack s e m = of_nat (s * 2 ^ 63 + e * 2 ^ 52 + m)"

definition f32_sign :: "u32 \<Rightarrow> nat" where "f32_sign x = unat x div 2 ^ 31"
definition f32_exp :: "u32 \<Rightarrow> nat" where "f32_exp x = unat x div 2 ^ 23 mod 2 ^ 8"
definition f32_frac :: "u32 \<Rightarrow> nat" where "f32_frac x = unat x mod 2 ^ 23"

definition f32_pack :: "nat \<Rightarrow> nat \<Rightarrow> nat \<Rightarrow> u32" where
  "f32_pack s e m = of_nat (s * 2 ^ 31 + e * 2 ^ 23 + m)"

definition f64_finite :: "u64 \<Rightarrow> bool" where "f64_finite x = (f64_exp x < 2047)"
definition f64_nan :: "u64 \<Rightarrow> bool" where "f64_nan x = (f64_exp x = 2047 \<and> f64_frac x \<noteq> 0)"

text \<open>The position of the highest bit\<close>

fun msb_index :: "nat \<Rightarrow> nat" where
  "msb_index m = (if m < 2 then 0 else Suc (msb_index (m div 2)))"

declare msb_index.simps [simp del]

section \<open>Widening and narrowing\<close>

text \<open>\<open>(double) f\<close>; a NaN becomes quiet.\<close>

definition f64_of_f32 :: "u32 \<Rightarrow> u64" where
  "f64_of_f32 x =
     (let s = f32_sign x; e = f32_exp x; m = f32_frac x
      in if e = 255 then f64_pack s 2047 (if m = 0 then 0 else (if m < 2 ^ 22 then m + 2 ^ 22 else m) * 2 ^ 29)
         else if e = 0 then
           (if m = 0 then f64_pack s 0 0
            else let k = msb_index m in f64_pack s (k + 874) ((m - 2 ^ k) * 2 ^ (52 - k)))
         else f64_pack s (e + 896) (m * 2 ^ 29))"

text \<open>
  \<open>x == (float) x\<close>: no NaN, and either infinite, zero, or a significand that fits the 24 bits (fewer
  below the smallest normal \<open>float\<close>) at an exponent in range.
\<close>

definition f64_fits_f32 :: "u64 \<Rightarrow> bool" where
  "f64_fits_f32 x =
     (let e = f64_exp x; m = f64_frac x
      in if e = 2047 then m = 0
         else if e = 0 then m = 0
         else if 897 \<le> e \<and> e \<le> 1150 then m mod 2 ^ 29 = 0
         else if 874 \<le> e \<and> e \<le> 896 then m mod 2 ^ (926 - e) = 0
         else False)"

text \<open>\<open>(float) x\<close> for an \<open>x\<close> that fits\<close>

definition f32_of_f64 :: "u64 \<Rightarrow> u32" where
  "f32_of_f64 x =
     (let s = f64_sign x; e = f64_exp x; m = f64_frac x
      in if e = 2047 then f32_pack s 255 0
         else if e = 0 then f32_pack s 0 0
         else if 897 \<le> e then f32_pack s (e - 896) (m div 2 ^ 29)
         else f32_pack s 0 ((2 ^ 52 + m) div 2 ^ (926 - e)))"

section \<open>Exact values and rounding\<close>

text \<open>The magnitude of a finite number as a ratio\<close>

definition f64_num :: "u64 \<Rightarrow> nat" where
  "f64_num x =
     (let e = f64_exp x; m = f64_frac x
      in if e = 0 then m else (2 ^ 52 + m) * 2 ^ (e - 1075))"

definition f64_den :: "u64 \<Rightarrow> nat" where
  "f64_den x = (let e = f64_exp x in if e = 0 then 2 ^ 1074 else 2 ^ (1075 - e))"

text \<open>The signed numerator\<close>

definition f64_snum :: "u64 \<Rightarrow> int" where
  "f64_snum x = (if f64_sign x = 0 then int (f64_num x) else - int (f64_num x))"

definition ratio_ge_pow :: "nat \<Rightarrow> nat \<Rightarrow> int \<Rightarrow> bool" where
  "ratio_ge_pow n d k = (if k \<ge> 0 then d * 2 ^ nat k \<le> n else d \<le> n * 2 ^ nat (- k))"

definition ratio_log :: "nat \<Rightarrow> nat \<Rightarrow> int" where
  "ratio_log n d = (let k = int (msb_index n) - int (msb_index d) in if ratio_ge_pow n d k then k else k - 1)"

definition round_div :: "nat \<Rightarrow> nat \<Rightarrow> nat" where
  "round_div num den =
     (let q = num div den; r = num mod den
      in if 2 * r > den \<or> (2 * r = den \<and> odd q) then Suc q else q)"

definition f64_round :: "nat \<Rightarrow> nat \<Rightarrow> nat \<Rightarrow> u64" where
  "f64_round s n d =
     (if n = 0 then f64_pack s 0 0
      else
        let ex = max (ratio_log n d - 52) (- 1074);
            q = round_div (n * 2 ^ nat (- ex)) (d * 2 ^ nat ex);
            (q, ex) = (if q \<ge> 2 ^ 53 then (2 ^ 52, ex + 1) else (q, ex));
            e = (if q < 2 ^ 52 then 0 else nat (ex + 1075))
        in if e \<ge> 2047 then f64_pack s 2047 0 else f64_pack s e (q mod 2 ^ 52))"

definition f64_round_int :: "int \<Rightarrow> nat \<Rightarrow> u64" where
  "f64_round_int n d = f64_round (if n < 0 then 1 else 0) (nat \<bar>n\<bar>) d"

text \<open>\<open>(double) i\<close>; sums, products and quotients of finite numbers; \<open>(long) x\<close>\<close>

definition f64_of_int :: "int \<Rightarrow> u64" where
  "f64_of_int i = f64_round_int i 1"

definition f64_add :: "u64 \<Rightarrow> u64 \<Rightarrow> u64" where
  "f64_add x y = f64_round_int (f64_snum x * int (f64_den y) + f64_snum y * int (f64_den x)) (f64_den x * f64_den y)"

definition f64_sub :: "u64 \<Rightarrow> u64 \<Rightarrow> u64" where
  "f64_sub x y = f64_round_int (f64_snum x * int (f64_den y) - f64_snum y * int (f64_den x)) (f64_den x * f64_den y)"

definition f64_mul_int :: "u64 \<Rightarrow> int \<Rightarrow> u64" where
  "f64_mul_int x k = f64_round_int (f64_snum x * k) (f64_den x)"

definition f64_div_nat :: "u64 \<Rightarrow> nat \<Rightarrow> u64" where
  "f64_div_nat x k = f64_round_int (f64_snum x) (f64_den x * k)"

text \<open>Truncation to a 64-bit integer; undefined for NaN, infinities and values out of range\<close>

definition f64_to_long :: "u64 \<Rightarrow> u64 option" where
  "f64_to_long x =
     (if \<not> f64_finite x then None
      else let q = int (f64_num x div f64_den x); i = (if f64_sign x = 0 then q else - q)
           in if - (2 ^ 63) \<le> i \<and> i < 2 ^ 63 then Some (of_int i) else None)"

end
