(* ===== verification/Bplist_Codec.thy ===== *)
theory Bplist_Codec imports Plist_Access Arrays Ieee_Double begin

text \<open>
  \<open>airplay/libplist/src/bplist.c\<close>: byte order, sizes and text encodings of the binary property list
  format, on a little-endian machine.
\<close>

section \<open>Byte order\<close>

definition swap_at :: "nat \<Rightarrow> nat \<Rightarrow> bytes \<Rightarrow> bytes" where
  "swap_at i j bs = bs[i := bs ! j, j := bs ! i]"

text \<open>The in-place reversal of the first \<open>sz\<close> bytes; its counters are single bytes, and \<open>sz\<close> is at most 255.\<close>

definition byte_convert :: "bytes \<Rightarrow> nat \<Rightarrow> bytes" where
  "byte_convert address sz = fold (\<lambda>i a. swap_at i ((sz - 1) - i) a) [0..<sz div 2] address"

definition float_byte_convert :: "bytes \<Rightarrow> nat \<Rightarrow> bytes" where
  "float_byte_convert address sz = fold (\<lambda>i a. swap_at i ((sz - 1) - i) a) [0..<sz div 2] address"

definition uint24_from_be :: "bytes \<Rightarrow> u32" where
  "uint24_from_be buf = ucast (le_word (byte_convert (0 # take 3 buf) 4))"

definition be16toh :: "u16 \<Rightarrow> u16" where
  "be16toh x = drop_bit 8 (x AND 0xFF00) OR push_bit 8 (x AND 0x00FF)"

definition be32toh :: "u32 \<Rightarrow> u32" where
  "be32toh x = drop_bit 24 (x AND 0xFF000000) OR drop_bit 8 (x AND 0x00FF0000)
     OR push_bit 8 (x AND 0x0000FF00) OR push_bit 24 (x AND 0x000000FF)"

definition be64toh :: "u64 \<Rightarrow> u64" where
  "be64toh x = drop_bit 56 (x AND 0xFF00000000000000) OR drop_bit 40 (x AND 0x00FF000000000000)
     OR drop_bit 24 (x AND 0x0000FF0000000000) OR drop_bit 8 (x AND 0x000000FF00000000)
     OR push_bit 8 (x AND 0x00000000FF000000) OR push_bit 24 (x AND 0x0000000000FF0000)
     OR push_bit 40 (x AND 0x000000000000FF00) OR push_bit 56 (x AND 0x00000000000000FF)"

text \<open>\<open>UINT_TO_HOST(x, n)\<close> for \<open>x\<close> at an offset of a buffer: any other width than 8, 4, 3, 2 reads one byte.\<close>

definition UINT_TO_HOST :: "bytes \<Rightarrow> nat \<Rightarrow> nat \<Rightarrow> u64 option" where
  "UINT_TO_HOST buf off n =
     (if n = 8 then do { bs \<leftarrow> read_bytes buf off 8; Some (be64toh (le_word bs)) }
      else if n = 4 then do { bs \<leftarrow> read_bytes buf off 4; Some (ucast (be32toh (ucast (le_word bs)))) }
      else if n = 3 then do { bs \<leftarrow> read_bytes buf off 3; Some (ucast (uint24_from_be bs)) }
      else if n = 2 then do { bs \<leftarrow> read_bytes buf off 2; Some (ucast (be16toh (ucast (le_word bs)))) }
      else do { b \<leftarrow> read_byte buf off; Some (ucast b) })"

definition be64dec :: "bytes \<Rightarrow> nat \<Rightarrow> u64 option" where
  "be64dec buf off = do { bs \<leftarrow> read_bytes buf off 8; Some (be64toh (le_word bs)) }"

definition get_needed_bytes :: "u64 \<Rightarrow> nat" where
  "get_needed_bytes x =
     (if x < 2 ^ 8 then 1 else if x < 2 ^ 16 then 2 else if x < 2 ^ 24 then 3 else if x < 2 ^ 32 then 4 else 8)"

definition get_real_bytes :: "u64 \<Rightarrow> nat" where
  "get_real_bytes x = (if f64_fits_f32 x then 4 else 8)"

definition Log2 :: "nat \<Rightarrow> u8" where
  "Log2 x = (if x = 8 then 3 else if x = 4 then 2 else if x = 2 then 1 else 0)"

section \<open>Object markers\<close>

definition BPLIST_FALSE :: u8 where "BPLIST_FALSE = 0x08"
definition BPLIST_TRUE :: u8 where "BPLIST_TRUE = 0x09"
definition BPLIST_UINT :: u8 where "BPLIST_UINT = 0x10"
definition BPLIST_REAL :: u8 where "BPLIST_REAL = 0x20"
definition BPLIST_DATE :: u8 where "BPLIST_DATE = 0x30"
definition BPLIST_DATA :: u8 where "BPLIST_DATA = 0x40"
definition BPLIST_STRING :: u8 where "BPLIST_STRING = 0x50"
definition BPLIST_UNICODE :: u8 where "BPLIST_UNICODE = 0x60"
definition BPLIST_UNK_0x70 :: u8 where "BPLIST_UNK_0x70 = 0x70"
definition BPLIST_UID :: u8 where "BPLIST_UID = 0x80"
definition BPLIST_ARRAY :: u8 where "BPLIST_ARRAY = 0xA0"
definition BPLIST_SET :: u8 where "BPLIST_SET = 0xC0"
definition BPLIST_DICT :: u8 where "BPLIST_DICT = 0xD0"

lemmas marker_defs = BPLIST_FALSE_def BPLIST_TRUE_def BPLIST_UINT_def BPLIST_REAL_def BPLIST_DATE_def
  BPLIST_DATA_def BPLIST_STRING_def BPLIST_UNICODE_def BPLIST_UNK_0x70_def BPLIST_UID_def BPLIST_ARRAY_def
  BPLIST_SET_def BPLIST_DICT_def

definition bplist_magic :: bytes where "bplist_magic = [0x62, 0x70, 0x6C, 0x69, 0x73, 0x74]"
definition bplist_version :: bytes where "bplist_version = [0x30, 0x30]"

section \<open>Text\<close>

text \<open>One UTF-16 unit as one to three bytes\<close>

definition utf8_of_unit :: "u16 \<Rightarrow> bytes" where
  "utf8_of_unit wc =
     (if wc \<ge> 0x800 then
        [ucast (0xE0 + (drop_bit 12 wc AND 0xF)), ucast (0x80 + (drop_bit 6 wc AND 0x3F)), ucast (0x80 + (wc AND 0x3F))]
      else if wc \<ge> 0x80 then [ucast (0xC0 + (drop_bit 6 wc AND 0x1F)), ucast (0x80 + (wc AND 0x3F))]
      else [ucast (wc AND 0x7F)])"

text \<open>The result of the loop without the terminating zero; the number of bytes is \<open>items_written\<close>.\<close>

definition plist_utf16_to_utf8 :: "u16 list \<Rightarrow> bytes" where
  "plist_utf16_to_utf8 unistr = concat (map utf8_of_unit unistr)"

text \<open>The units written before the end or the first invalid byte\<close>

fun plist_utf8_to_utf16 :: "bytes \<Rightarrow> u16 list" where
  "plist_utf8_to_utf16 [] = []"
| "plist_utf8_to_utf16 (c0 # cs) =
     (let c1 = (case cs of x # _ \<Rightarrow> x | [] \<Rightarrow> 0); c2 = (case cs of _ # y # _ \<Rightarrow> y | _ \<Rightarrow> 0)
      in if c0 \<ge> 0xE0 \<and> length cs \<ge> 2 \<and> c1 \<ge> 0x80 \<and> c2 \<ge> 0x80 then
           (((ucast c2 AND 0x3F) + push_bit 6 (ucast c1 AND 3)) + push_bit 8 (drop_bit 2 (ucast c1) AND 15)
             + push_bit 12 (ucast c0 AND 15)) # plist_utf8_to_utf16 (drop 2 cs)
         else if c0 \<ge> 0xC0 \<and> length cs \<ge> 1 \<and> c1 \<ge> 0x80 then
           (((ucast c1 AND 0x3F) + push_bit 6 (ucast c0 AND 3)) + push_bit 8 (drop_bit 2 (ucast c0) AND 7))
             # plist_utf8_to_utf16 (drop 1 cs)
         else if c0 < 0x80 then ucast c0 # plist_utf8_to_utf16 cs
         else [])"

definition is_ascii_string :: "bytes \<Rightarrow> bool" where
  "is_ascii_string s = (\<forall>c \<in> set s. c < 0x80)"

end
