(* ===== verification/Bplist_Parse.thy ===== *)
theory Bplist_Parse imports Bplist_Codec Plist_Keys begin

text \<open>
  \<open>airplay/libplist/src/bplist.c\<close>: the parser of binary property lists.  A pointer into the input is
  an offset of the buffer.  \<open>parse_bin_node\<close> returns the node (NULL for an object it rejects) and
  what \<open>*next_object\<close> holds afterwards; it terminates because a size object starts behind its marker.
  Scratch buffers that a function allocates and releases, or leaks, are plain values here.
\<close>

section \<open>Objects\<close>

definition parse_word_node :: "plist_type \<Rightarrow> pheap \<Rightarrow> bytes \<Rightarrow> nat \<Rightarrow> u8 \<Rightarrow> nat \<Rightarrow> (pheap \<times> ptr \<times> nat) option" where
  "parse_word_node type h buf bnode sz next_object = do {
     let (h, data) = plist_new_plist_data h;
     let sz = push_bit (unat sz) (1 :: u8);
     if sz \<in> {1, 2, 4, 8} then do {
       bs \<leftarrow> read_bytes buf bnode (unat sz);
       v \<leftarrow> UINT_TO_HOST (bs @ replicate (8 - unat sz) 0) 0 (unat sz);
       h \<leftarrow> upd_data h (Some data) (\<lambda>d. d\<lparr>pd_val := put_word v (pd_val d)\<rparr>);
       h \<leftarrow> upd_data h (Some data) (\<lambda>d. d\<lparr>pd_type := type, pd_length := 8\<rparr>);
       (h, node) \<leftarrow> node_create h Null (Some data);
       Some (h, node, bnode + unat sz)
     } else do {
       h \<leftarrow> free_data h (Some data);
       Some (h, Null, next_object)
     }
   }"

definition parse_uint_node :: "pheap \<Rightarrow> bytes \<Rightarrow> nat \<Rightarrow> u8 \<Rightarrow> nat \<Rightarrow> (pheap \<times> ptr \<times> nat) option" where
  "parse_uint_node = parse_word_node PLIST_UINT"

definition parse_uid_node :: "pheap \<Rightarrow> bytes \<Rightarrow> nat \<Rightarrow> u8 \<Rightarrow> nat \<Rightarrow> (pheap \<times> ptr \<times> nat) option" where
  "parse_uid_node = parse_word_node PLIST_UID"

definition parse_real_node :: "pheap \<Rightarrow> bytes \<Rightarrow> nat \<Rightarrow> u8 \<Rightarrow> (pheap \<times> ptr) option" where
  "parse_real_node h buf bnode sz = do {
     let (h, data) = plist_new_plist_data h;
     let sz = push_bit (unat sz) (1 :: u8);
     bs \<leftarrow> read_bytes buf bnode (unat sz);
     if sz \<in> {4, 8} then do {
       let v = le_word (float_byte_convert bs (unat sz));
       let realval = (if sz = 4 then f64_of_f32 (ucast v) else v);
       h \<leftarrow> upd_data h (Some data) (\<lambda>d. d\<lparr>pd_val := put_word realval (pd_val d)\<rparr>);
       h \<leftarrow> upd_data h (Some data) (\<lambda>d. d\<lparr>pd_type := PLIST_REAL, pd_length := 8\<rparr>);
       node_create h Null (Some data)
     } else do {
       h \<leftarrow> free_data h (Some data);
       Some (h, Null)
     }
   }"

definition parse_date_node :: "pheap \<Rightarrow> bytes \<Rightarrow> nat \<Rightarrow> u8 \<Rightarrow> (pheap \<times> ptr) option" where
  "parse_date_node h buf bnode sz = do {
     (h, node) \<leftarrow> parse_real_node h buf bnode sz;
     data \<leftarrow> plist_get_data h node;
     d \<leftarrow> ld_data h data;
     let time_real = word0 (pd_val d);
     sec \<leftarrow> f64_to_long time_real;
     usec \<leftarrow> f64_to_long (f64_mul_int (f64_sub time_real (f64_of_int (sint sec))) 1000000);
     h \<leftarrow> upd_data h data (\<lambda>d. d\<lparr>pd_val := Bits sec usec, pd_type := PLIST_DATE, pd_length := 16\<rparr>);
     Some (h, node)
   }"

definition parse_string_node :: "pheap \<Rightarrow> bytes \<Rightarrow> nat \<Rightarrow> u64 \<Rightarrow> (pheap \<times> ptr) option" where
  "parse_string_node h buf bnode sz = do {
     let (h, data) = plist_new_plist_data h;
     h \<leftarrow> upd_data h (Some data) (\<lambda>d. d\<lparr>pd_type := PLIST_STRING\<rparr>);
     bs \<leftarrow> read_bytes buf bnode (unat sz);
     let (h, p) = alloc_buf h (bs @ [0]);
     h \<leftarrow> upd_data h (Some data) (\<lambda>d. d\<lparr>pd_val := put_ptr (Some p) (pd_val d)\<rparr>);
     h \<leftarrow> upd_data h (Some data) (\<lambda>d. d\<lparr>pd_length := of_nat (length (c_string (bs @ [0])))\<rparr>);
     node_create h Null (Some data)
   }"

text \<open>The \<open>int\<close> counters of the conversion overflow on 2 GB of text or more.\<close>

definition parse_unicode_node :: "pheap \<Rightarrow> bytes \<Rightarrow> nat \<Rightarrow> u64 \<Rightarrow> (pheap \<times> ptr) option" where
  "parse_unicode_node h buf bnode sz = do {
     let (h, data) = plist_new_plist_data h;
     h \<leftarrow> upd_data h (Some data) (\<lambda>d. d\<lparr>pd_type := PLIST_STRING\<rparr>);
     bs \<leftarrow> read_bytes buf bnode (2 * unat sz);
     let unicodestr = map (\<lambda>i. ucast (le_word (byte_convert (take 2 (drop (2 * i) bs)) 2))) [0..<unat sz];
     let tmpstr = plist_utf16_to_utf8 unicodestr;
     guard (length tmpstr < 2 ^ 31);
     let (h, p) = alloc_buf h (tmpstr @ [0]);
     h \<leftarrow> upd_data h (Some data) (\<lambda>d. d\<lparr>pd_val := put_ptr (Some p) (pd_val d)\<rparr>);
     h \<leftarrow> upd_data h (Some data) (\<lambda>d. d\<lparr>pd_length := of_nat (length (c_string (tmpstr @ [0])))\<rparr>);
     node_create h Null (Some data)
   }"

definition parse_data_node :: "pheap \<Rightarrow> bytes \<Rightarrow> nat \<Rightarrow> u64 \<Rightarrow> (pheap \<times> ptr) option" where
  "parse_data_node h buf bnode sz = do {
     let (h, data) = plist_new_plist_data h;
     h \<leftarrow> upd_data h (Some data) (\<lambda>d. d\<lparr>pd_type := PLIST_DATA, pd_length := sz\<rparr>);
     bs \<leftarrow> read_bytes buf bnode (unat sz);
     let (h, p) = alloc_buf h bs;
     h \<leftarrow> upd_data h (Some data) (\<lambda>d. d\<lparr>pd_val := put_ptr (Some p) (pd_val d)\<rparr>);
     node_create h Null (Some data)
   }"

text \<open>Containers keep their table of references; its size is computed in 64 bits.\<close>

definition parse_dict_node :: "pheap \<Rightarrow> bytes \<Rightarrow> nat \<Rightarrow> u64 \<Rightarrow> u32 \<Rightarrow> (pheap \<times> ptr) option" where
  "parse_dict_node h buf bnode sz ref_size = do {
     let (h, data) = plist_new_plist_data h;
     h \<leftarrow> upd_data h (Some data) (\<lambda>d. d\<lparr>pd_type := PLIST_DICT, pd_length := sz\<rparr>);
     bs \<leftarrow> read_bytes buf bnode (unat (sz * ucast ref_size * 2));
     let (h, p) = alloc_buf h bs;
     h \<leftarrow> upd_data h (Some data) (\<lambda>d. d\<lparr>pd_val := put_ptr (Some p) (pd_val d)\<rparr>);
     node_create h Null (Some data)
   }"

definition parse_array_node :: "pheap \<Rightarrow> bytes \<Rightarrow> nat \<Rightarrow> u64 \<Rightarrow> u32 \<Rightarrow> (pheap \<times> ptr) option" where
  "parse_array_node h buf bnode sz ref_size = do {
     let (h, data) = plist_new_plist_data h;
     h \<leftarrow> upd_data h (Some data) (\<lambda>d. d\<lparr>pd_type := PLIST_ARRAY, pd_length := sz\<rparr>);
     bs \<leftarrow> read_bytes buf bnode (unat (sz * ucast ref_size));
     let (h, p) = alloc_buf h bs;
     h \<leftarrow> upd_data h (Some data) (\<lambda>d. d\<lparr>pd_val := put_ptr (Some p) (pd_val d)\<rparr>);
     node_create h Null (Some data)
   }"

definition parse_bool_node :: "pheap \<Rightarrow> u8 \<Rightarrow> (pheap \<times> ptr) option" where
  "parse_bool_node h val = do {
     let (h, data) = plist_new_plist_data h;
     h \<leftarrow> upd_data h (Some data) (\<lambda>d. d\<lparr>pd_type := PLIST_BOOLEAN\<rparr>);
     h \<leftarrow> upd_data h (Some data) (\<lambda>d. d\<lparr>pd_val := put_bool val (pd_val d)\<rparr>);
     h \<leftarrow> upd_data h (Some data) (\<lambda>d. d\<lparr>pd_length := 1\<rparr>);
     node_create h Null (Some data)
   }"

section \<open>The dispatch on the marker byte\<close>

definition keep_next :: "nat \<Rightarrow> (pheap \<times> ptr) option \<Rightarrow> (pheap \<times> ptr \<times> nat) option" where
  "keep_next next_object r = do { (h, node) \<leftarrow> r; Some (h, node, next_object) }"

text \<open>
  An object whose marker holds the size 15 is preceded by its real size, an integer object; anything
  else in that place makes the result NULL.  The size object is a leaf, so fuel 2 frees it.
\<close>

definition use_size :: "nat \<Rightarrow> (pheap \<Rightarrow> nat \<Rightarrow> u64 \<Rightarrow> (pheap \<times> ptr) option) \<Rightarrow>
    (pheap \<times> ptr \<times> nat) option \<Rightarrow> (pheap \<times> ptr \<times> nat) option" where
  "use_size next_object build r = do {
     (h, size_node, object) \<leftarrow> r;
     t \<leftarrow> plist_get_node_type h size_node;
     if t \<noteq> PLIST_UINT then Some (h, Null, next_object)
     else do {
       sz \<leftarrow> plist_get_uint_val h size_node;
       h \<leftarrow> plist_free 2 h size_node;
       keep_next next_object (build h object sz)
     }
   }"

definition build_object :: "u8 \<Rightarrow> bytes \<Rightarrow> u8 \<Rightarrow> pheap \<Rightarrow> nat \<Rightarrow> u64 \<Rightarrow> (pheap \<times> ptr) option" where
  "build_object type buf dict_size h object sz =
     (if type = BPLIST_DATA then parse_data_node h buf object sz
      else if type = BPLIST_STRING then parse_string_node h buf object sz
      else if type = BPLIST_UNICODE then parse_unicode_node h buf object sz
      else if type = BPLIST_UNK_0x70 \<or> type = BPLIST_ARRAY then parse_array_node h buf object sz (ucast dict_size)
      else parse_dict_node h buf object sz (ucast dict_size))"

function parse_bin_node :: "pheap \<Rightarrow> bytes \<Rightarrow> nat \<Rightarrow> u8 \<Rightarrow> (pheap \<times> ptr \<times> nat) option" where
  "parse_bin_node h buf off dict_size =
     (if off < length buf then
        let type = buf ! off AND 0xF0; sz = buf ! off AND 0x0F; object = Suc off
        in if type = 0 then
             (if sz = BPLIST_TRUE then keep_next off (parse_bool_node h 1)
              else if sz = BPLIST_FALSE then keep_next off (parse_bool_node h 0)
              else Some (h, Null, off))
           else if type = BPLIST_UINT then parse_uint_node h buf object sz off
           else if type = BPLIST_REAL then keep_next off (parse_real_node h buf object sz)
           else if type = BPLIST_DATE then
             (if sz \<noteq> 3 then Some (h, Null, off) else keep_next off (parse_date_node h buf object sz))
           else if type = BPLIST_UID then parse_uid_node h buf object sz off
           else if type \<in> {BPLIST_DATA, BPLIST_STRING, BPLIST_UNICODE, BPLIST_UNK_0x70, BPLIST_ARRAY,
                           BPLIST_SET, BPLIST_DICT} then
             (if sz = 0x0F then use_size off (build_object type buf dict_size) (parse_bin_node h buf object dict_size)
              else keep_next off (build_object type buf dict_size h object (ucast sz)))
           else Some (h, Null, off)
      else None)"
  by pat_completeness auto

termination parse_bin_node
  by (relation "measure (\<lambda>(h, buf, off, dict_size). length buf - off)") auto

declare parse_bin_node.simps [simp del]

section \<open>The whole file\<close>

definition read_offset :: "bytes \<Rightarrow> u64 \<Rightarrow> u64 \<Rightarrow> u8 \<Rightarrow> u64 option" where
  "read_offset buf offset_table_index i offset_size =
     UINT_TO_HOST buf (unat offset_table_index + unat (i * ucast offset_size)) (unat offset_size)"

text \<open>
  The first loop, from object \<open>i\<close> on, \<open>k\<close> objects to go.  A slot of the node table lies within the
  allocation of \<open>8 * num_objects\<close> bytes, a product of 64 bits.
\<close>

fun parse_objects :: "nat \<Rightarrow> nat \<Rightarrow> nat \<Rightarrow> pheap \<Rightarrow> bytes \<Rightarrow> u64 \<Rightarrow> u8 \<Rightarrow> u8 \<Rightarrow> (pheap \<times> ptr list) option" where
  "parse_objects 0 i slots h buf offset_table_index offset_size dict_size = Some (h, [])"
| "parse_objects (Suc k) i slots h buf offset_table_index offset_size dict_size = do {
     current_offset \<leftarrow> read_offset buf offset_table_index (of_nat i) offset_size;
     (h, node, obj) \<leftarrow> parse_bin_node h buf (unat current_offset) dict_size;
     guard (i < slots);
     (h, nodes) \<leftarrow> parse_objects k (Suc i) slots h buf offset_table_index offset_size dict_size;
     Some (h, node # nodes)
   }"

definition node_at :: "ptr list \<Rightarrow> u64 \<Rightarrow> ptr option" where
  "node_at nodeslist i = (if unat i < length nodeslist then Some (nodeslist ! unat i) else None)"

text \<open>A root is attached itself; a node that already has a parent is copied. Fuel bounds the copy.\<close>

definition attach_ref :: "nat \<Rightarrow> pheap \<Rightarrow> ptr list \<Rightarrow> ptr \<Rightarrow> u32 \<Rightarrow> pheap option" where
  "attach_ref f h nodeslist parent index = do {
     if unat index < length nodeslist then do {
       child \<leftarrow> node_at nodeslist (ucast index);
       n \<leftarrow> ld_node h child;
       if nd_isRoot n then do { (h, r) \<leftarrow> node_attach h parent child; Some h }
       else do {
         (h, copy) \<leftarrow> node_copy_deep f (Some copy_plist_data) h child;
         (h, r) \<leftarrow> node_attach h parent copy;
         Some h
       }
     } else Some h
   }"

definition set_key_type :: "pheap \<Rightarrow> ptr \<Rightarrow> pheap option" where
  "set_key_type h node = do {
     data \<leftarrow> plist_get_data h node;
     upd_data h data (\<lambda>d. d\<lparr>pd_type := PLIST_KEY\<rparr>)
   }"

definition ref_at :: "pheap \<Rightarrow> nat option \<Rightarrow> u32 \<Rightarrow> u8 \<Rightarrow> u32 option" where
  "ref_at h data pos dict_size = do {
     d \<leftarrow> ld_data h data;
     buff \<leftarrow> ld_buf h (pd_val d);
     v \<leftarrow> UINT_TO_HOST buff (unat pos) (unat dict_size);
     Some (ucast v)
   }"

text \<open>The loops over the references of a container, \<open>k\<close> rounds to go; \<open>j\<close> has 32 bits.\<close>

fun link_dict :: "nat \<Rightarrow> nat \<Rightarrow> u32 \<Rightarrow> pheap \<Rightarrow> ptr list \<Rightarrow> ptr \<Rightarrow> nat option \<Rightarrow> u8 \<Rightarrow> pheap option" where
  "link_dict f 0 j h nodeslist node data dict_size = Some h"
| "link_dict f (Suc k) j h nodeslist node data dict_size = do {
     d \<leftarrow> ld_data h data;
     let str_i = j * ucast dict_size;
     let str_j = (ucast ((ucast j + pd_length d) * ucast dict_size) :: u32);
     index1 \<leftarrow> ref_at h data str_i dict_size;
     index2 \<leftarrow> ref_at h data str_j dict_size;
     key \<leftarrow> node_at nodeslist (ucast index1);
     h \<leftarrow> set_key_type h key;
     h \<leftarrow> attach_ref f h nodeslist node index1;
     h \<leftarrow> attach_ref f h nodeslist node index2;
     link_dict f k (j + 1) h nodeslist node data dict_size
   }"

fun link_array :: "nat \<Rightarrow> nat \<Rightarrow> u32 \<Rightarrow> pheap \<Rightarrow> ptr list \<Rightarrow> ptr \<Rightarrow> nat option \<Rightarrow> u8 \<Rightarrow> pheap option" where
  "link_array f 0 j h nodeslist node data dict_size = Some h"
| "link_array f (Suc k) j h nodeslist node data dict_size = do {
     let str_j = j * ucast dict_size;
     index1 \<leftarrow> ref_at h data str_j dict_size;
     h \<leftarrow> attach_ref f h nodeslist node index1;
     link_array f k (j + 1) h nodeslist node data dict_size
   }"

definition free_table :: "pheap \<Rightarrow> nat option \<Rightarrow> pheap option" where
  "free_table h data = do { d \<leftarrow> ld_data h data; p \<leftarrow> union_ptr (pd_val d); free_buf h p }"

text \<open>A length of \<open>2 ^ 32\<close> or more is never reached by \<open>j\<close>: the loop runs past the table or forever.\<close>

definition link_node :: "nat \<Rightarrow> pheap \<Rightarrow> ptr list \<Rightarrow> ptr \<Rightarrow> u8 \<Rightarrow> pheap option" where
  "link_node f h nodeslist node dict_size = do {
     data \<leftarrow> plist_get_data h node;
     d \<leftarrow> ld_data h data;
     (case pd_type d of
        PLIST_DICT \<Rightarrow> do {
          guard (unat (pd_length d) < 2 ^ 32);
          h \<leftarrow> link_dict f (unat (pd_length d)) 0 h nodeslist node data dict_size;
          free_table h data
        }
      | PLIST_ARRAY \<Rightarrow> do {
          guard (unat (pd_length d) < 2 ^ 32);
          h \<leftarrow> link_array f (unat (pd_length d)) 0 h nodeslist node data dict_size;
          free_table h data
        }
      | _ \<Rightarrow> Some h)
   }"

fun link_nodes :: "nat \<Rightarrow> ptr list \<Rightarrow> pheap \<Rightarrow> ptr list \<Rightarrow> u8 \<Rightarrow> pheap option" where
  "link_nodes f [] h nodeslist dict_size = Some h"
| "link_nodes f (node # todo) h nodeslist dict_size = do {
     h \<leftarrow> link_node f h nodeslist node dict_size;
     link_nodes f todo h nodeslist dict_size
   }"

text \<open>The new value of \<open>*plist\<close>, if the function reaches the assignment.\<close>

definition plist_from_bin :: "nat \<Rightarrow> pheap \<Rightarrow> bytes \<Rightarrow> u32 \<Rightarrow> (pheap \<times> ptr option) option" where
  "plist_from_bin f h plist_bin len =
     (if \<not> len \<ge> 6 + 2 + 26 then Some (h, None)
      else do {
        magic \<leftarrow> read_bytes plist_bin 0 6;
        if magic \<noteq> bplist_magic then Some (h, None)
        else do {
          version \<leftarrow> read_bytes plist_bin 6 2;
          if version \<noteq> bplist_version then Some (h, None)
          else do {
            let trailer = unat (len - 26);
            offset_size \<leftarrow> read_byte plist_bin trailer;
            dict_param_size \<leftarrow> read_byte plist_bin (trailer + 1);
            num_objects \<leftarrow> be64dec plist_bin (trailer + 2);
            root_object \<leftarrow> be64dec plist_bin (trailer + 10);
            offset_table_index \<leftarrow> be64dec plist_bin (trailer + 18);
            if num_objects = 0 then Some (h, None)
            else do {
              (h, nodeslist) \<leftarrow> parse_objects (unat num_objects) 0 (unat (8 * num_objects) div 8) h plist_bin
                                   offset_table_index offset_size dict_param_size;
              h \<leftarrow> link_nodes f nodeslist h nodeslist dict_param_size;
              root \<leftarrow> node_at nodeslist root_object;
              Some (h, Some root)
            }
          }
        }
      })"

end
