(* ===== verification/Bplist_Write.thy ===== *)
theory Bplist_Write imports Bplist_Codec Plist_Keys begin

text \<open>
  \<open>airplay/libplist/src/bplist.c\<close>: the writer of binary property lists.  It numbers the objects of
  the tree, equal ones once, and streams them, their offsets and the trailer into a byte array.
\<close>

section \<open>Objects\<close>

text \<open>\<open>byte_array_append\<close> of a whole buffer\<close>

definition put_bytes :: "bytearray_t \<Rightarrow> bytes \<Rightarrow> bytearray_t option" where
  "put_bytes ba bs = do { r \<leftarrow> byte_array_append (Some ba) bs (length bs); r }"

text \<open>An integer in big-endian order of \<open>n\<close> bytes\<close>

definition be_bytes :: "nat \<Rightarrow> u64 \<Rightarrow> bytes" where
  "be_bytes n val = byte_convert (le_bytes n val) n"

definition int_size :: "u64 \<Rightarrow> nat" where
  "int_size val = (let sz = get_needed_bytes val in if sz = 3 then Suc sz else sz)"

definition write_int :: "bytearray_t \<Rightarrow> u64 \<Rightarrow> bytearray_t option" where
  "write_int bplist val =
     (let sz = int_size val in put_bytes bplist ((BPLIST_UINT OR Log2 sz) # be_bytes sz val))"

definition write_real :: "bytearray_t \<Rightarrow> u64 \<Rightarrow> bytearray_t option" where
  "write_real bplist val =
     (let sz = get_real_bytes val;
          raw = (if sz = 8 then le_bytes 8 val else le_bytes 4 (ucast (f32_of_f64 val)))
      in put_bytes bplist ((BPLIST_REAL OR Log2 sz) # float_byte_convert raw sz))"

definition write_date :: "bytearray_t \<Rightarrow> u64 \<Rightarrow> bytearray_t option" where
  "write_date bplist val = put_bytes bplist ((BPLIST_DATE OR Log2 8) # float_byte_convert (le_bytes 8 val) 8)"

text \<open>The marker byte with the size in its low half, or 15 and the size as an integer object\<close>

definition write_marker :: "bytearray_t \<Rightarrow> u8 \<Rightarrow> u64 \<Rightarrow> bytearray_t option" where
  "write_marker bplist mark sz = do {
     bplist \<leftarrow> put_bytes bplist [mark OR (if sz < 15 then ucast sz else 0xF)];
     if sz \<ge> 15 then do {
       int_buff \<leftarrow> write_int byte_array_new sz;
       data \<leftarrow> ba_data int_buff;
       r \<leftarrow> byte_array_append (Some bplist) data (ba_len int_buff);
       r
     } else Some bplist
   }"

definition write_raw_data :: "bytearray_t \<Rightarrow> u8 \<Rightarrow> bytes \<Rightarrow> u64 \<Rightarrow> bytearray_t option" where
  "write_raw_data bplist mark val sz = do {
     bplist \<leftarrow> write_marker bplist mark sz;
     let sz = (if BPLIST_UNICODE = mark then sz * 2 else sz);
     buff \<leftarrow> read_bytes val 0 (unat sz);
     put_bytes bplist buff
   }"

definition write_data :: "bytearray_t \<Rightarrow> bytes \<Rightarrow> u64 \<Rightarrow> bytearray_t option" where
  "write_data bplist val sz = write_raw_data bplist BPLIST_DATA val sz"

text \<open>The string is given without its terminating zero.\<close>

definition write_string :: "bytearray_t \<Rightarrow> bytes \<Rightarrow> bytearray_t option" where
  "write_string bplist val = write_raw_data bplist BPLIST_STRING val (of_nat (length val))"

definition write_unicode :: "bytearray_t \<Rightarrow> u16 list \<Rightarrow> u64 \<Rightarrow> bytearray_t option" where
  "write_unicode bplist val sz = do {
     guard (unat sz \<le> length val);
     let buff = concat (map (\<lambda>u. byte_convert (le_bytes 2 (ucast u)) 2) (take (unat sz) val));
     write_raw_data bplist BPLIST_UNICODE buff sz
   }"

definition write_uid :: "bytearray_t \<Rightarrow> u64 \<Rightarrow> bytearray_t option" where
  "write_uid bplist val =
     (let sz = int_size val in put_bytes bplist ((BPLIST_UID OR Log2 sz) # be_bytes sz val))"

section \<open>The table of objects\<close>

type_synonym ref_table = "(ptr, u64) hashtable_t"

text \<open>
  A lookup calls the hash on the key and the comparison on the entries of its chain up to the first
  equal one; it is undefined where one of them is.
\<close>

fun chain_defined :: "pheap \<Rightarrow> (ptr \<times> u64) list \<Rightarrow> ptr \<Rightarrow> bool" where
  "chain_defined h [] key = True"
| "chain_defined h ((k, v) # es) key =
     (case plist_data_compare h k key of None \<Rightarrow> False | Some eq \<Rightarrow> eq \<or> chain_defined h es key)"

definition key_defined :: "pheap \<Rightarrow> ref_table \<Rightarrow> ptr \<Rightarrow> bool" where
  "key_defined h t key \<longleftrightarrow> plist_data_hash h key \<noteq> None \<and> chain_defined h (ht_entries t ! ht_index t key) key"

definition ref_lookup :: "pheap \<Rightarrow> ref_table \<Rightarrow> ptr \<Rightarrow> u64 option option" where
  "ref_lookup h t key = do { guard (key_defined h t key); Some (hash_table_lookup (Some t) (Some key)) }"

record serialize_s =
  ser_objects :: "ptr ptrarray_t"
  ser_ref_table :: ref_table

fun serialize_plist :: "nat \<Rightarrow> pheap \<Rightarrow> ptr \<Rightarrow> serialize_s \<Rightarrow> serialize_s option"
  and serialize_children :: "nat \<Rightarrow> pheap \<Rightarrow> node_iterator_t \<Rightarrow> serialize_s \<Rightarrow> serialize_s option" where
  "serialize_plist 0 h node ser = None"
| "serialize_plist (Suc f) h node ser = do {
     let current_index = pa_len (ser_objects ser);
     val \<leftarrow> ref_lookup h (ser_ref_table ser) node;
     if val \<noteq> None then Some ser
     else do {
       table \<leftarrow> hash_table_insert (Some (ser_ref_table ser)) (Some node) (of_nat current_index);
       r \<leftarrow> ptr_array_add (Some (ser_objects ser)) (Some node);
       objects \<leftarrow> r;
       n \<leftarrow> ld_node h node;
       ni \<leftarrow> node_iterator_create h (nd_children n);
       serialize_children f h ni \<lparr>ser_objects = objects, ser_ref_table = table\<rparr>
     }
   }"
| "serialize_children 0 h ni ser = None"
| "serialize_children (Suc f) h ni ser = do {
     (ni, ch) \<leftarrow> node_iterator_next h ni;
     if ch = Null then Some ser
     else do { ser \<leftarrow> serialize_plist f h ch ser; serialize_children f h ni ser }
   }"

section \<open>Containers\<close>

text \<open>
  The references of the children, \<open>k\<close> slots to fill.  A slot that is not filled stays indeterminate
  and would be copied to the output.
\<close>

definition ref_bytes :: "pheap \<Rightarrow> ref_table \<Rightarrow> nat \<Rightarrow> ptr \<Rightarrow> bytes option" where
  "ref_bytes h ref_table dps cur = do {
     val \<leftarrow> ref_lookup h ref_table cur;
     idx \<leftarrow> val;
     Some (be_bytes dps idx)
   }"

fun array_refs :: "nat \<Rightarrow> pheap \<Rightarrow> ref_table \<Rightarrow> nat \<Rightarrow> ptr \<Rightarrow> bytes option" where
  "array_refs 0 h ref_table dps cur = Some []"
| "array_refs (Suc k) h ref_table dps cur =
     (if cur = Null then None
      else do {
        r \<leftarrow> ref_bytes h ref_table dps cur;
        nx \<leftarrow> node_next_sibling h cur;
        rest \<leftarrow> array_refs k h ref_table dps nx;
        Some (r @ rest)
      })"

definition write_array :: "bytearray_t \<Rightarrow> pheap \<Rightarrow> ptr \<Rightarrow> ref_table \<Rightarrow> nat \<Rightarrow> bytearray_t option" where
  "write_array bplist h node ref_table dps = do {
     sz \<leftarrow> node_n_children h node;
     bplist \<leftarrow> write_marker bplist BPLIST_ARRAY (ucast sz);
     cur \<leftarrow> node_first_child h node;
     buff \<leftarrow> array_refs (unat sz) h ref_table dps cur;
     put_bytes bplist buff
   }"

text \<open>The keys fill the first half of the buffer, the values the second.\<close>

fun dict_refs :: "nat \<Rightarrow> pheap \<Rightarrow> ref_table \<Rightarrow> nat \<Rightarrow> ptr \<Rightarrow> (bytes \<times> bytes) option" where
  "dict_refs 0 h ref_table dps cur = Some ([], [])"
| "dict_refs (Suc k) h ref_table dps cur =
     (if cur = Null then None
      else do {
        r1 \<leftarrow> ref_bytes h ref_table dps cur;
        val \<leftarrow> get_next h cur;
        guard (val \<noteq> Null);
        r2 \<leftarrow> ref_bytes h ref_table dps val;
        nx \<leftarrow> node_next_sibling h val;
        (keys, vals) \<leftarrow> dict_refs k h ref_table dps nx;
        Some (r1 @ keys, r2 @ vals)
      })"

definition write_dict :: "bytearray_t \<Rightarrow> pheap \<Rightarrow> ptr \<Rightarrow> ref_table \<Rightarrow> nat \<Rightarrow> bytearray_t option" where
  "write_dict bplist h node ref_table dps = do {
     n \<leftarrow> node_n_children h node;
     let sz = n div 2;
     bplist \<leftarrow> write_marker bplist BPLIST_DICT (ucast sz);
     cur \<leftarrow> node_first_child h node;
     (keys, vals) \<leftarrow> dict_refs (unat sz) h ref_table dps cur;
     put_bytes bplist (keys @ vals)
   }"

section \<open>The whole file\<close>

text \<open>The case \<open>PLIST_DATA\<close> has no \<open>break\<close>: an array object follows it.\<close>

definition write_object :: "bytearray_t \<Rightarrow> pheap \<Rightarrow> ptr \<Rightarrow> ref_table \<Rightarrow> nat \<Rightarrow> bytearray_t option" where
  "write_object bplist h node ref_table dps = do {
     data \<leftarrow> plist_get_data h node;
     d \<leftarrow> ld_data h data;
     (case pd_type d of
        PLIST_BOOLEAN \<Rightarrow> put_bytes bplist [if (ucast (word0 (pd_val d)) :: u8) \<noteq> 0 then BPLIST_TRUE else BPLIST_FALSE]
      | PLIST_UINT \<Rightarrow> write_int bplist (word0 (pd_val d))
      | PLIST_REAL \<Rightarrow> write_real bplist (word0 (pd_val d))
      | PLIST_DATA \<Rightarrow> do {
          bs \<leftarrow> ld_buf h (pd_val d);
          bplist \<leftarrow> write_data bplist bs (pd_length d);
          write_array bplist h node ref_table dps
        }
      | PLIST_ARRAY \<Rightarrow> write_array bplist h node ref_table dps
      | PLIST_DICT \<Rightarrow> write_dict bplist h node ref_table dps
      | PLIST_DATE \<Rightarrow> write_date bplist
          (f64_add (f64_of_int (sint (word0 (pd_val d)))) (f64_div_nat (f64_of_int (sint (word1 (pd_val d)))) 1000000))
      | PLIST_UID \<Rightarrow> write_uid bplist (word0 (pd_val d))
      | PLIST_NONE \<Rightarrow> Some bplist
      | _ \<Rightarrow> do {
          s \<leftarrow> ld_str h (pd_val d);
          guard (length s < 2 ^ 31);
          if is_ascii_string s then write_string bplist s
          else let u = plist_utf8_to_utf16 s in write_unicode bplist u (of_nat (length u))
        })
   }"

fun write_objects :: "nat \<Rightarrow> bytearray_t \<Rightarrow> pheap \<Rightarrow> ptr ptrarray_t \<Rightarrow> nat \<Rightarrow> ref_table \<Rightarrow> nat \<Rightarrow>
    (bytearray_t \<times> u64 list) option" where
  "write_objects 0 bplist h objects i ref_table dps = Some (bplist, [])"
| "write_objects (Suc k) bplist h objects i ref_table dps = do {
     r \<leftarrow> ptr_array_index (Some objects) i;
     let off = of_nat (ba_len bplist);
     bplist \<leftarrow> write_object bplist h (case r of None \<Rightarrow> Null | Some p \<Rightarrow> p) ref_table dps;
     (bplist, offs) \<leftarrow> write_objects k bplist h objects (Suc i) ref_table dps;
     Some (bplist, off # offs)
   }"

fun write_offsets :: "bytearray_t \<Rightarrow> nat \<Rightarrow> u64 list \<Rightarrow> bytearray_t option" where
  "write_offsets bplist offset_size [] = Some bplist"
| "write_offsets bplist offset_size (off # offs) = do {
     bplist \<leftarrow> put_bytes bplist (be_bytes offset_size off);
     write_offsets bplist offset_size offs
   }"

definition bplist_trailer :: "nat \<Rightarrow> nat \<Rightarrow> u64 \<Rightarrow> u64 \<Rightarrow> u64 \<Rightarrow> bytes" where
  "bplist_trailer offset_size dps num_objects root_object offset_table_index =
     [of_nat offset_size, of_nat dps] @ le_bytes 8 (be64toh num_objects) @ le_bytes 8 (be64toh root_object)
       @ le_bytes 8 (be64toh offset_table_index)"

text \<open>
  \<open>plist_bin\<close> is NULL (\<open>None\<close>) or points to a \<open>char *\<close>, itself NULL or not; \<open>length\<close> is NULL or not.
  The result is the buffer and the length it stores, if it stores any.
\<close>

definition plist_to_bin :: "nat \<Rightarrow> pheap \<Rightarrow> ptr \<Rightarrow> nat option option \<Rightarrow> bool \<Rightarrow> (bytes \<times> u32) option option" where
  "plist_to_bin f h plist plist_bin has_length =
     (if plist = Null \<or> plist_bin \<noteq> Some None \<or> \<not> has_length then Some None
      else do {
        let objects = ptr_array_new 256;
        let ref_table = hash_table_new (plist_hash_fun h) (plist_cmp_fun h);
        ser \<leftarrow> serialize_plist f h plist \<lparr>ser_objects = objects, ser_ref_table = ref_table\<rparr>;
        let num_objects = pa_len (ser_objects ser);
        let dict_param_size = get_needed_bytes (of_nat num_objects);
        bplist_buff \<leftarrow> put_bytes byte_array_new bplist_magic;
        bplist_buff \<leftarrow> put_bytes bplist_buff bplist_version;
        (bplist_buff, offsets) \<leftarrow> write_objects num_objects bplist_buff h (ser_objects ser) 0
                                    (ser_ref_table ser) dict_param_size;
        let offset_size = get_needed_bytes (of_nat (ba_len bplist_buff));
        let offset_table_index = of_nat (ba_len bplist_buff);
        bplist_buff \<leftarrow> write_offsets bplist_buff offset_size offsets;
        bplist_buff \<leftarrow> put_bytes bplist_buff (replicate 6 0);
        bplist_buff \<leftarrow> put_bytes bplist_buff
          (bplist_trailer offset_size dict_param_size (of_nat num_objects) 0 offset_table_index);
        data \<leftarrow> ba_data bplist_buff;
        out \<leftarrow> read_bytes data 0 (ba_len bplist_buff);
        Some (Some (out, of_nat (ba_len bplist_buff)))
      })"

end
