(* ===== verification/Gen_List.thy ===== *)
theory Gen_List imports Prelude begin

text \<open>
  \<open>airplay/mdnsresponder/mDNSShared/GenLinkedList.c\<close>: generic linked lists whose links lie at a byte
  offset chosen by the client within its elements.  An address is a 64-bit word, 0 is NULL, and the
  memory maps the address of a link field to the word stored there.  The offset list stores distances
  instead of addresses, computed with wrap-around.
\<close>

section \<open>Link fields\<close>

type_synonym cells = "u64 \<Rightarrow> u64 option"

definition GETLINK :: "cells \<Rightarrow> u64 \<Rightarrow> u64 \<Rightarrow> u64 option" where
  "GETLINK m e off = (if e = 0 then None else m (e + off))"

definition ASSIGNLINK :: "cells \<Rightarrow> u64 \<Rightarrow> u64 \<Rightarrow> u64 \<Rightarrow> cells option" where
  "ASSIGNLINK m e l off = (if e = 0 \<or> m (e + off) = None then None else Some (m(e + off \<mapsto> l)))"

text \<open>The search loop of the removals and replacements: the element before the one sought, if there is one.\<close>

partial_function (option) find_elem ::
  "('m \<Rightarrow> u64 \<Rightarrow> u64 option) \<Rightarrow> 'm \<Rightarrow> u64 \<Rightarrow> u64 \<Rightarrow> u64 \<Rightarrow> u64 option option" where
  "find_elem get m elem iElem lastElem =
     (if iElem = 0 then Some None
      else if iElem = elem then Some (Some lastElem)
      else (case get m iElem of None \<Rightarrow> None | Some nx \<Rightarrow> find_elem get m elem nx iElem))"

section \<open>GenLinkedList\<close>

record gen_linked_list =
  gl_Head :: u64
  gl_Tail :: u64
  gl_LinkOffset :: u64

definition InitLinkedList :: "u64 \<Rightarrow> gen_linked_list" where
  "InitLinkedList linkOffset = \<lparr>gl_Head = 0, gl_Tail = 0, gl_LinkOffset = linkOffset\<rparr>"

definition AddToTail :: "cells \<Rightarrow> gen_linked_list \<Rightarrow> u64 \<Rightarrow> (cells \<times> gen_linked_list) option" where
  "AddToTail m pList elem = do {
     (m, pList) \<leftarrow> (if gl_Tail pList \<noteq> 0
        then do { m \<leftarrow> ASSIGNLINK m (gl_Tail pList) elem (gl_LinkOffset pList); Some (m, pList) }
        else Some (m, pList\<lparr>gl_Head := elem\<rparr>));
     m \<leftarrow> ASSIGNLINK m elem 0 (gl_LinkOffset pList);
     Some (m, pList\<lparr>gl_Tail := elem\<rparr>)
   }"

definition AddToHead :: "cells \<Rightarrow> gen_linked_list \<Rightarrow> u64 \<Rightarrow> (cells \<times> gen_linked_list) option" where
  "AddToHead m pList elem = do {
     m \<leftarrow> ASSIGNLINK m elem (gl_Head pList) (gl_LinkOffset pList);
     let pList = (if gl_Tail pList = 0 then pList\<lparr>gl_Tail := elem\<rparr> else pList);
     Some (m, pList\<lparr>gl_Head := elem\<rparr>)
   }"

definition RemoveFromList :: "cells \<Rightarrow> gen_linked_list \<Rightarrow> u64 \<Rightarrow> (cells \<times> gen_linked_list \<times> int) option" where
  "RemoveFromList m pList elem = do {
     let off = gl_LinkOffset pList;
     r \<leftarrow> find_elem (\<lambda>m e. GETLINK m e off) m elem (gl_Head pList) 0;
     (case r of
        None \<Rightarrow> Some (m, pList, 0)
      | Some lastElem \<Rightarrow> do {
          nx \<leftarrow> GETLINK m elem off;
          (m, pList) \<leftarrow> (if lastElem \<noteq> 0
             then do { m \<leftarrow> ASSIGNLINK m lastElem nx off; Some (m, pList) }
             else Some (m, pList\<lparr>gl_Head := nx\<rparr>));
          let pList = (if gl_Tail pList = elem then pList\<lparr>gl_Tail := lastElem\<rparr> else pList);
          m \<leftarrow> ASSIGNLINK m elem 0 off;
          Some (m, pList, 1)
        })
   }"

definition ReplaceElem :: "cells \<Rightarrow> gen_linked_list \<Rightarrow> u64 \<Rightarrow> u64 \<Rightarrow> (cells \<times> gen_linked_list \<times> int) option" where
  "ReplaceElem m pList elemInList newElem =
     (if elemInList = 0 \<or> newElem = 0 then Some (m, pList, 0)
      else do {
        let off = gl_LinkOffset pList;
        r \<leftarrow> find_elem (\<lambda>m e. GETLINK m e off) m elemInList (gl_Head pList) 0;
        (case r of
           None \<Rightarrow> Some (m, pList, 0)
         | Some lastElem \<Rightarrow> do {
             nx \<leftarrow> GETLINK m elemInList off;
             m \<leftarrow> ASSIGNLINK m newElem nx off;
             (m, pList) \<leftarrow> (if lastElem \<noteq> 0
                then do { m \<leftarrow> ASSIGNLINK m lastElem newElem off; Some (m, pList) }
                else Some (m, pList\<lparr>gl_Head := newElem\<rparr>));
             let pList = (if gl_Tail pList = elemInList then pList\<lparr>gl_Tail := newElem\<rparr> else pList);
             Some (m, pList, 1)
           })
      })"

section \<open>GenDoubleLinkedList\<close>

record gen_double_linked_list =
  dl_Head :: u64
  dl_Tail :: u64
  dl_FwdLinkOffset :: u64
  dl_BackLinkOffset :: u64

definition InitDoubleLinkedList :: "u64 \<Rightarrow> u64 \<Rightarrow> gen_double_linked_list" where
  "InitDoubleLinkedList fwdLinkOffset backLinkOffset =
     \<lparr>dl_Head = 0, dl_Tail = 0, dl_FwdLinkOffset = fwdLinkOffset, dl_BackLinkOffset = backLinkOffset\<rparr>"

definition DLLAddToHead :: "cells \<Rightarrow> gen_double_linked_list \<Rightarrow> u64 \<Rightarrow> (cells \<times> gen_double_linked_list) option" where
  "DLLAddToHead m pList elem = do {
     let pNext = dl_Head pList;
     m \<leftarrow> ASSIGNLINK m elem (dl_Head pList) (dl_FwdLinkOffset pList);
     let pList = pList\<lparr>dl_Head := elem\<rparr>;
     (m, pList) \<leftarrow> (if pNext \<noteq> 0
        then do { m \<leftarrow> ASSIGNLINK m pNext elem (dl_BackLinkOffset pList); Some (m, pList) }
        else Some (m, pList\<lparr>dl_Tail := elem\<rparr>));
     m \<leftarrow> ASSIGNLINK m elem 0 (dl_BackLinkOffset pList);
     Some (m, pList)
   }"

definition DLLRemoveFromList :: "cells \<Rightarrow> gen_double_linked_list \<Rightarrow> u64 \<Rightarrow> (cells \<times> gen_double_linked_list) option" where
  "DLLRemoveFromList m pList elem = do {
     pNext \<leftarrow> GETLINK m elem (dl_FwdLinkOffset pList);
     pPrev \<leftarrow> GETLINK m elem (dl_BackLinkOffset pList);
     (m, pList) \<leftarrow> (if pPrev \<noteq> 0
        then do { m \<leftarrow> ASSIGNLINK m pPrev pNext (dl_FwdLinkOffset pList); Some (m, pList) }
        else Some (m, pList\<lparr>dl_Head := pNext\<rparr>));
     (m, pList) \<leftarrow> (if pNext \<noteq> 0
        then do { m \<leftarrow> ASSIGNLINK m pNext pPrev (dl_BackLinkOffset pList); Some (m, pList) }
        else Some (m, pList\<lparr>dl_Tail := pPrev\<rparr>));
     m \<leftarrow> ASSIGNLINK m elem 0 (dl_FwdLinkOffset pList);
     m \<leftarrow> ASSIGNLINK m elem 0 (dl_BackLinkOffset pList);
     Some (m, pList)
   }"

section \<open>GenLinkedOffsetList\<close>

text \<open>The list header lies at the address \<open>pl\<close>; distances are taken from it or from the element.\<close>

record gen_linked_offset_list =
  ol_Head :: u64
  ol_Tail :: u64
  ol_LinkOffset :: u64

definition AssignOffsetLink :: "cells \<Rightarrow> u64 \<Rightarrow> u64 \<Rightarrow> u64 \<Rightarrow> cells option" where
  "AssignOffsetLink m elem link linkOffset = ASSIGNLINK m elem (if link \<noteq> 0 then link - elem else 0) linkOffset"

definition GetHeadPtr :: "u64 \<Rightarrow> gen_linked_offset_list \<Rightarrow> u64" where
  "GetHeadPtr pl pList = (if ol_Head pList \<noteq> 0 then pl + ol_Head pList else 0)"

definition GetTailPtr :: "u64 \<Rightarrow> gen_linked_offset_list \<Rightarrow> u64" where
  "GetTailPtr pl pList = (if ol_Tail pList \<noteq> 0 then pl + ol_Tail pList else 0)"

definition GetOffsetLink :: "cells \<Rightarrow> gen_linked_offset_list \<Rightarrow> u64 \<Rightarrow> u64 option" where
  "GetOffsetLink m pList elem = do {
     nextOffset \<leftarrow> GETLINK m elem (ol_LinkOffset pList);
     Some (if nextOffset \<noteq> 0 then elem + nextOffset else 0)
   }"

definition InitLinkedOffsetList :: "u64 \<Rightarrow> gen_linked_offset_list" where
  "InitLinkedOffsetList linkOffset = \<lparr>ol_Head = 0, ol_Tail = 0, ol_LinkOffset = linkOffset\<rparr>"

definition OffsetAddToTail :: "u64 \<Rightarrow> cells \<Rightarrow> gen_linked_offset_list \<Rightarrow> u64 \<Rightarrow>
    (cells \<times> gen_linked_offset_list) option" where
  "OffsetAddToTail pl m pList elem = do {
     (m, pList) \<leftarrow> (if ol_Tail pList \<noteq> 0
        then do { m \<leftarrow> AssignOffsetLink m (GetTailPtr pl pList) elem (ol_LinkOffset pList); Some (m, pList) }
        else Some (m, pList\<lparr>ol_Head := elem - pl\<rparr>));
     m \<leftarrow> AssignOffsetLink m elem 0 (ol_LinkOffset pList);
     Some (m, pList\<lparr>ol_Tail := elem - pl\<rparr>)
   }"

definition OffsetAddToHead :: "u64 \<Rightarrow> cells \<Rightarrow> gen_linked_offset_list \<Rightarrow> u64 \<Rightarrow>
    (cells \<times> gen_linked_offset_list) option" where
  "OffsetAddToHead pl m pList elem = do {
     m \<leftarrow> AssignOffsetLink m elem (GetHeadPtr pl pList) (ol_LinkOffset pList);
     let pList = (if ol_Tail pList = 0 then pList\<lparr>ol_Tail := elem - pl\<rparr> else pList);
     Some (m, pList\<lparr>ol_Head := elem - pl\<rparr>)
   }"

definition OffsetRemoveFromList :: "u64 \<Rightarrow> cells \<Rightarrow> gen_linked_offset_list \<Rightarrow> u64 \<Rightarrow>
    (cells \<times> gen_linked_offset_list \<times> int) option" where
  "OffsetRemoveFromList pl m pList elem = do {
     let off = ol_LinkOffset pList;
     r \<leftarrow> find_elem (\<lambda>m e. GetOffsetLink m pList e) m elem (GetHeadPtr pl pList) 0;
     (case r of
        None \<Rightarrow> Some (m, pList, 0)
      | Some lastElem \<Rightarrow> do {
          nx \<leftarrow> GetOffsetLink m pList elem;
          (m, pList) \<leftarrow> (if lastElem \<noteq> 0
             then do { m \<leftarrow> AssignOffsetLink m lastElem nx off; Some (m, pList) }
             else Some (m, pList\<lparr>ol_Head := if nx \<noteq> 0 then nx - pl else 0\<rparr>));
          let pList = (if GetTailPtr pl pList = elem
                       then pList\<lparr>ol_Tail := if lastElem \<noteq> 0 then lastElem - pl else 0\<rparr> else pList);
          m \<leftarrow> AssignOffsetLink m elem 0 off;
          Some (m, pList, 1)
        })
   }"

definition OffsetReplaceElem :: "u64 \<Rightarrow> cells \<Rightarrow> gen_linked_offset_list \<Rightarrow> u64 \<Rightarrow> u64 \<Rightarrow>
    (cells \<times> gen_linked_offset_list \<times> int) option" where
  "OffsetReplaceElem pl m pList elemInList newElem =
     (if elemInList = 0 \<or> newElem = 0 then Some (m, pList, 0)
      else do {
        let off = ol_LinkOffset pList;
        r \<leftarrow> find_elem (\<lambda>m e. GetOffsetLink m pList e) m elemInList (GetHeadPtr pl pList) 0;
        (case r of
           None \<Rightarrow> Some (m, pList, 0)
         | Some lastElem \<Rightarrow> do {
             nx \<leftarrow> GetOffsetLink m pList elemInList;
             m \<leftarrow> AssignOffsetLink m newElem nx off;
             (m, pList) \<leftarrow> (if lastElem \<noteq> 0
                then do { m \<leftarrow> AssignOffsetLink m lastElem newElem off; Some (m, pList) }
                else Some (m, pList\<lparr>ol_Head := newElem - pl\<rparr>));
             let pList = (if GetTailPtr pl pList = elemInList then pList\<lparr>ol_Tail := newElem - pl\<rparr> else pList);
             Some (m, pList, 1)
           })
      })"

end
