(* ===== verification/Gen_List_Props.thy ===== *)
theory Gen_List_Props imports Gen_List begin

text \<open>
  The linked lists of GenLinkedList.c denote HOL lists of elements.  What a list operation needs of a
  link field is a locale, interpreted for links that are addresses and for links that are distances.
\<close>

section \<open>Segments\<close>

text \<open>From \<open>p\<close> through the elements to \<open>q\<close>; a list is a segment to NULL.\<close>

fun link_seg :: "('m \<Rightarrow> u64 \<Rightarrow> u64 option) \<Rightarrow> 'm \<Rightarrow> u64 \<Rightarrow> u64 list \<Rightarrow> u64 \<Rightarrow> bool" where
  "link_seg get m p [] q \<longleftrightarrow> p = q"
| "link_seg get m p (x # xs) q \<longleftrightarrow> p = x \<and> x \<noteq> 0 \<and> (\<exists>n. get m x = Some n \<and> link_seg get m n xs q)"

lemma link_seg_append:
  "link_seg get m p (xs @ ys) q \<longleftrightarrow> (\<exists>r. link_seg get m p xs r \<and> link_seg get m r ys q)"
  by (induction xs arbitrary: p) auto

lemma link_seg_nonnull: "link_seg get m p xs q \<Longrightarrow> 0 \<notin> set xs"
  by (induction xs arbitrary: p) auto

lemma link_seg_next: "link_seg get m p (x # xs) q \<Longrightarrow> get m x = Some n \<Longrightarrow> link_seg get m n xs q"
  by auto

lemma link_seg_null_iff: "link_seg get m p xs 0 \<Longrightarrow> p = 0 \<longleftrightarrow> xs = []"
  by (cases xs) auto

definition last_or_null :: "u64 list \<Rightarrow> u64" where
  "last_or_null xs = (if xs = [] then 0 else last xs)"

lemma last_or_null_simps [simp]:
  "last_or_null [] = 0" "last_or_null (xs @ [x]) = x" "xs \<noteq> [] \<Longrightarrow> last_or_null (ys @ xs) = last_or_null xs"
  "last_or_null [x] = x" "xs \<noteq> [] \<Longrightarrow> last_or_null (x # xs) = last_or_null xs"
  by (auto simp: last_or_null_def)

lemma find_elem_step:
  "iElem \<noteq> 0 \<Longrightarrow> iElem \<noteq> elem \<Longrightarrow> get m iElem = Some nx \<Longrightarrow>
     find_elem get m elem iElem l = find_elem get m elem nx iElem"
  by (subst find_elem.simps) simp

lemma find_elem_absent:
  "link_seg get m p xs 0 \<Longrightarrow> e \<notin> set xs \<Longrightarrow> find_elem get m e p l = Some None"
proof (induction xs arbitrary: p l)
  case Nil
  then show ?case by (subst find_elem.simps) simp
next
  case (Cons x xs)
  then show ?case by (auto simp: find_elem_step)
qed

lemma find_elem_present:
  "link_seg get m p (ys @ e # zs) 0 \<Longrightarrow> e \<notin> set ys \<Longrightarrow>
     find_elem get m e p l = Some (Some (if ys = [] then l else last ys))"
proof (induction ys arbitrary: p l)
  case Nil
  then show ?case by (subst find_elem.simps) simp
next
  case (Cons x xs)
  then show ?case by (auto simp: find_elem_step)
qed

section \<open>A link field\<close>

locale link_field =
  fixes get :: "'m \<Rightarrow> u64 \<Rightarrow> u64 option"
    and set_link :: "'m \<Rightarrow> u64 \<Rightarrow> u64 \<Rightarrow> 'm option"
  assumes set_ok: "get m e \<noteq> None \<Longrightarrow> set_link m e v \<noteq> None"
    and get_set_same: "set_link m e v = Some m' \<Longrightarrow> v \<noteq> e \<Longrightarrow> get m' e = Some v"
    and get_set_other: "set_link m e v = Some m' \<Longrightarrow> e' \<noteq> e \<Longrightarrow> get m' e' = get m e'"
begin

lemma set_some:
  assumes "get m e \<noteq> None"
  obtains m' where "set_link m e v = Some m'"
  using set_ok [OF assms, of v] by auto

lemma set_keeps_field: "set_link m e v = Some m' \<Longrightarrow> v \<noteq> e \<Longrightarrow> get m e' \<noteq> None \<Longrightarrow> get m' e' \<noteq> None"
  by (cases "e' = e") (simp_all add: get_set_same get_set_other)

lemma seg_frame:
  "set_link m e v = Some m' \<Longrightarrow> e \<notin> set xs \<Longrightarrow> link_seg get m' p xs q = link_seg get m p xs q"
  by (induction xs arbitrary: p) (auto simp: get_set_other)

lemma seg_field: "link_seg get m p xs q \<Longrightarrow> x \<in> set xs \<Longrightarrow> get m x \<noteq> None"
  by (induction xs arbitrary: p) auto

text \<open>Redirecting the link of the last element of a segment\<close>

lemma seg_redirect:
  assumes "link_seg get m p (ys @ [t]) q" "t \<notin> set ys" "set_link m t n = Some m'" "n \<noteq> t"
  shows "link_seg get m' p (ys @ [t]) n"
  using assms by (auto simp: link_seg_append seg_frame get_set_same)

lemma seg_cons:
  assumes "link_seg get m n xs q" "e \<noteq> 0" "e \<notin> set xs" "set_link m e n = Some m'" "n \<noteq> e"
  shows "link_seg get m' e (e # xs) q"
  using assms by (auto simp: seg_frame get_set_same)

lemma seg_split:
  assumes "link_seg get m p (ys @ e # zs) q"
  obtains nx where "get m e = Some nx" "link_seg get m p ys e" "link_seg get m nx zs q" "e \<noteq> 0"
  using assms by (auto simp: link_seg_append)

lemma seg_not_self:
  assumes "link_seg get m nx zs 0" "t \<notin> set zs" "t \<noteq> 0"
  shows "nx \<noteq> t"
  using assms by (cases zs) auto

lemma seg_unlink:
  assumes seg: "link_seg get m p (ys @ t # e # zs) 0" and dist: "distinct (ys @ t # e # zs)"
    and nx: "get m e = Some nx" and m1: "set_link m t nx = Some m1" and m2: "set_link m1 e 0 = Some m2"
  shows "link_seg get m2 p (ys @ t # zs) 0"
proof -
  have seg': "link_seg get m p ((ys @ [t]) @ e # zs) 0" using seg by simp
  then have parts: "link_seg get m p (ys @ [t]) e" "link_seg get m nx zs 0" "t \<noteq> 0"
    using nx link_seg_nonnull [OF seg'] by (auto simp: link_seg_append)
  have "nx \<noteq> t" using seg_not_self [OF parts(2) _ parts(3)] dist by simp
  then have "link_seg get m1 p (ys @ [t]) nx" using seg_redirect [OF parts(1) _ m1] dist by simp
  moreover have "link_seg get m1 nx zs 0" using seg_frame [OF m1] parts(2) dist by simp
  ultimately have "link_seg get m1 p ((ys @ [t]) @ zs) 0" by (auto simp only: link_seg_append)
  then show ?thesis using seg_frame [OF m2, of "ys @ t # zs" p 0] dist by auto
qed

lemma seg_swap:
  assumes seg: "link_seg get m p (ys @ t # e # zs) 0" and dist: "distinct (ys @ t # e # zs)"
    and nx: "get m e = Some nx" and m1: "set_link m n nx = Some m1" and m2: "set_link m1 t n = Some m2"
    and n: "n \<noteq> 0" "n \<notin> set (ys @ t # e # zs)"
  shows "link_seg get m2 p (ys @ t # n # zs) 0"
proof -
  have seg': "link_seg get m p ((ys @ [t]) @ e # zs) 0" using seg by simp
  then have parts: "link_seg get m p (ys @ [t]) e" "link_seg get m nx zs 0" "t \<noteq> 0"
    using nx link_seg_nonnull [OF seg'] by (auto simp: link_seg_append)
  have "nx \<noteq> n" using seg_not_self [OF parts(2)] n by simp
  then have "link_seg get m1 n (n # zs) 0" using seg_cons [OF parts(2) n(1) _ m1] n by simp
  then have "link_seg get m2 n (n # zs) 0" using seg_frame [OF m2, of "n # zs" n 0] dist n by (auto simp del: link_seg.simps)
  moreover have "link_seg get m1 p (ys @ [t]) e" using seg_frame [OF m1, of "ys @ [t]" p e] parts(1) n by auto
  then have "link_seg get m2 p (ys @ [t]) n" using seg_redirect [OF _ _ m2] dist n by auto
  ultimately have "link_seg get m2 p ((ys @ [t]) @ n # zs) 0" by (auto simp only: link_seg_append)
  then show ?thesis by simp
qed

text \<open>Removal and replacement anywhere in a list, given the element before the one found\<close>

lemma seg_remove:
  assumes seg: "link_seg get m p (ys @ e # zs) 0" and dist: "distinct (ys @ e # zs)"
  obtains nx m1 m2 where "get m e = Some nx"
    "(if ys = [] then Some m else set_link m (last ys) nx) = Some m1" "set_link m1 e 0 = Some m2"
    "link_seg get m2 (if ys = [] then nx else p) (ys @ zs) 0" "nx = 0 \<longleftrightarrow> zs = []" "nx \<noteq> e"
proof -
  obtain nx where nx: "get m e = Some nx" and segs: "link_seg get m p ys e" "link_seg get m nx zs 0" "e \<noteq> 0"
    by (rule seg_split [OF seg])
  have nx_e: "nx \<noteq> e" using seg_not_self [OF segs(2) _ segs(3)] dist by simp
  show thesis
  proof (cases ys rule: rev_cases)
    case Nil
    obtain m2 where m2: "set_link m e 0 = Some m2" by (rule set_some [of m e]) (use nx in auto)
    have "link_seg get m2 nx zs 0" using seg_frame [OF m2] segs(2) dist by simp
    with Nil nx m2 nx_e show thesis
      by (intro that [of nx m m2]) (auto simp: link_seg_null_iff [OF segs(2)])
  next
    case (snoc ws t)
    have nt: "nx \<noteq> t" using seg_not_self [OF segs(2), of t] dist snoc link_seg_nonnull [OF seg] by auto
    have "get m t \<noteq> None" using seg_field [OF seg] snoc by simp
    then obtain m1 where m1: "set_link m t nx = Some m1" by (rule set_some)
    have "get m1 e \<noteq> None" using set_keeps_field [OF m1 nt] nx by simp
    then obtain m2 where m2: "set_link m1 e 0 = Some m2" by (rule set_some)
    have "link_seg get m2 p (ws @ t # zs) 0"
      using seg_unlink [OF _ _ nx m1 m2] seg dist snoc by simp
    with snoc nx m1 m2 nx_e show thesis
      by (intro that [of nx m1 m2]) (auto simp: link_seg_null_iff [OF segs(2)])
  qed
qed

lemma seg_replace:
  assumes seg: "link_seg get m p (ys @ e # zs) 0" and dist: "distinct (ys @ e # zs)"
    and n: "get m n \<noteq> None" "n \<noteq> 0" "n \<notin> set (ys @ e # zs)"
  obtains nx m1 m2 where "get m e = Some nx" "set_link m n nx = Some m1"
    "(if ys = [] then Some m1 else set_link m1 (last ys) n) = Some m2"
    "link_seg get m2 (if ys = [] then n else p) (ys @ n # zs) 0"
proof -
  obtain nx where nx: "get m e = Some nx" and segs: "link_seg get m p ys e" "link_seg get m nx zs 0" "e \<noteq> 0"
    by (rule seg_split [OF seg])
  have nn: "nx \<noteq> n" using seg_not_self [OF segs(2) _ n(2)] n(3) by simp
  obtain m1 where m1: "set_link m n nx = Some m1" by (rule set_some [OF n(1)])
  show thesis
  proof (cases ys rule: rev_cases)
    case Nil
    with nx m1 seg_cons [OF segs(2) n(2) _ m1 nn] n(3) show thesis
      by (intro that [of nx m1 m1]) (auto simp del: link_seg.simps)
  next
    case (snoc ws t)
    have "get m t \<noteq> None" using seg_field [OF seg] snoc by simp
    then have "get m1 t \<noteq> None" by (rule set_keeps_field [OF m1 nn])
    then obtain m2 where m2: "set_link m1 t n = Some m2" by (rule set_some)
    have "link_seg get m2 p (ws @ t # n # zs) 0"
      using seg_swap [OF _ _ nx m1 m2 n(2)] seg dist snoc n(3) by simp
    with snoc nx m1 m2 show thesis by (intro that [of nx m1 m2]) auto
  qed
qed

end

interpretation ptr_link: link_field "\<lambda>m e. GETLINK m e off" "\<lambda>m e v. ASSIGNLINK m e v off" for off
  by unfold_locales (auto simp: GETLINK_def ASSIGNLINK_def split: if_splits)

interpretation dist_link: link_field "\<lambda>m e. GetOffsetLink m l e" "\<lambda>m e v. AssignOffsetLink m e v (ol_LinkOffset l)" for l
proof unfold_locales
  show "AssignOffsetLink m e v (ol_LinkOffset l) \<noteq> None" if "GetOffsetLink m l e \<noteq> None" for m e v
    using that by (auto simp: GetOffsetLink_def AssignOffsetLink_def GETLINK_def ASSIGNLINK_def split: if_splits)
  show "GetOffsetLink m' l e = Some v" if "AssignOffsetLink m e v (ol_LinkOffset l) = Some m'" "v \<noteq> e" for m e v m'
    using that by (auto simp: GetOffsetLink_def AssignOffsetLink_def GETLINK_def ASSIGNLINK_def split: if_splits)
  show "GetOffsetLink m' l e' = GetOffsetLink m l e'" if "AssignOffsetLink m e v (ol_LinkOffset l) = Some m'" "e' \<noteq> e" for m e v m' e'
    using that by (auto simp: GetOffsetLink_def AssignOffsetLink_def GETLINK_def ASSIGNLINK_def split: if_splits)
qed

section \<open>The three lists\<close>

definition gen_list :: "cells \<Rightarrow> gen_linked_list \<Rightarrow> u64 list \<Rightarrow> bool" where
  "gen_list m l xs \<longleftrightarrow> link_seg (\<lambda>m e. GETLINK m e (gl_LinkOffset l)) m (gl_Head l) xs 0
     \<and> gl_Tail l = last_or_null xs \<and> distinct xs"

definition has_link :: "cells \<Rightarrow> u64 \<Rightarrow> u64 \<Rightarrow> bool" where
  "has_link m off e \<longleftrightarrow> GETLINK m e off \<noteq> None"

text \<open>The distance stored for a pointer, and the offset list at the address \<open>pl\<close>\<close>

definition dist_of :: "u64 \<Rightarrow> u64 \<Rightarrow> u64" where
  "dist_of pl p = (if p = 0 then 0 else p - pl)"

definition first_or_null :: "u64 list \<Rightarrow> u64" where
  "first_or_null xs = (case xs of [] \<Rightarrow> 0 | x # _ \<Rightarrow> x)"

lemma first_or_null_simps [simp]:
  "first_or_null [] = 0" "first_or_null (x # xs) = x" "xs \<noteq> [] \<Longrightarrow> first_or_null (xs @ ys) = first_or_null xs"
  by (auto simp: first_or_null_def split: list.splits)

definition offset_list :: "u64 \<Rightarrow> cells \<Rightarrow> gen_linked_offset_list \<Rightarrow> u64 list \<Rightarrow> bool" where
  "offset_list pl m l xs \<longleftrightarrow> link_seg (\<lambda>m e. GetOffsetLink m l e) m (first_or_null xs) xs 0
     \<and> ol_Head l = dist_of pl (first_or_null xs) \<and> ol_Tail l = dist_of pl (last_or_null xs)
     \<and> distinct xs \<and> pl \<notin> set xs"

lemma gen_list_split:
  assumes "gen_list m l xs" "e \<in> set xs"
  obtains ys zs where "xs = ys @ e # zs" "e \<notin> set ys" "e \<notin> set zs"
  using assms split_list [OF assms(2)] by (auto simp: gen_list_def)

lemma AddToTail_list:
  assumes l: "gen_list m l xs" and e: "has_link m (gl_LinkOffset l) e" "e \<notin> set xs"
  obtains m' l' where "AddToTail m l e = Some (m', l')" "gen_list m' l' (xs @ [e])"
    "gl_LinkOffset l' = gl_LinkOffset l"
proof -
  let ?off = "gl_LinkOffset l"
  have e0: "e \<noteq> 0" using e by (auto simp: has_link_def GETLINK_def)
  have seg: "link_seg (\<lambda>m e. GETLINK m e ?off) m (gl_Head l) xs 0" and tail: "gl_Tail l = last_or_null xs"
    and d: "distinct xs" using l by (auto simp: gen_list_def)
  have f: "GETLINK m e ?off \<noteq> None" using e by (simp add: has_link_def)
  show thesis
  proof (cases xs rule: rev_cases)
    case Nil
    obtain m1 where m1: "ASSIGNLINK m e 0 ?off = Some m1" by (rule ptr_link.set_some [OF f])
    have "link_seg (\<lambda>m e. GETLINK m e ?off) m1 e [e] 0"
      using ptr_link.seg_cons [OF _ e0 _ m1, of "[]" 0] e0 by simp
    with Nil tail m1 e0 show thesis
      by (intro that [of m1 "l\<lparr>gl_Head := e, gl_Tail := e\<rparr>"]) (auto simp: AddToTail_def gen_list_def)
  next
    case (snoc ys t)
    have t0: "t \<noteq> 0" using seg snoc link_seg_nonnull by fastforce
    have ft: "GETLINK m t ?off \<noteq> None" using ptr_link.seg_field [OF seg] snoc by simp
    obtain m1 where m1: "ASSIGNLINK m t e ?off = Some m1" by (rule ptr_link.set_some [OF ft])
    have et: "e \<noteq> t" using e snoc by auto
    obtain m2 where m2: "ASSIGNLINK m1 e 0 ?off = Some m2"
      by (rule ptr_link.set_some [OF ptr_link.set_keeps_field [OF m1 et f]])
    have "link_seg (\<lambda>m e. GETLINK m e ?off) m1 (gl_Head l) xs e"
      using ptr_link.seg_redirect [OF _ _ m1 et] seg d snoc by auto
    then have "link_seg (\<lambda>m e. GETLINK m e ?off) m2 (gl_Head l) xs e"
      using ptr_link.seg_frame [OF m2 e(2)] by simp
    moreover have "GETLINK m2 e ?off = Some 0" using ptr_link.get_set_same [OF m2] e0 by simp
    ultimately have "link_seg (\<lambda>m e. GETLINK m e ?off) m2 (gl_Head l) (xs @ [e]) 0"
      using e0 by (auto simp: link_seg_append)
    with snoc tail m1 m2 t0 d e(2) show thesis
      by (intro that [of m2 "l\<lparr>gl_Tail := e\<rparr>"]) (auto simp: AddToTail_def gen_list_def)
  qed
qed

lemma AddToHead_list:
  assumes l: "gen_list m l xs" and e: "has_link m (gl_LinkOffset l) e" "e \<notin> set xs"
  obtains m' l' where "AddToHead m l e = Some (m', l')" "gen_list m' l' (e # xs)"
    "gl_LinkOffset l' = gl_LinkOffset l"
proof -
  let ?off = "gl_LinkOffset l"
  have e0: "e \<noteq> 0" using e by (auto simp: has_link_def GETLINK_def)
  have seg: "link_seg (\<lambda>m e. GETLINK m e ?off) m (gl_Head l) xs 0" and tail: "gl_Tail l = last_or_null xs"
    and d: "distinct xs" using l by (auto simp: gen_list_def)
  have f: "GETLINK m e ?off \<noteq> None" using e by (simp add: has_link_def)
  obtain m1 where m1: "ASSIGNLINK m e (gl_Head l) ?off = Some m1" by (rule ptr_link.set_some [OF f])
  have ne: "gl_Head l \<noteq> e" by (rule ptr_link.seg_not_self [OF seg e(2) e0])
  have "link_seg (\<lambda>m e. GETLINK m e ?off) m1 e (e # xs) 0"
    by (rule ptr_link.seg_cons [OF seg e0 e(2) m1 ne])
  moreover have "gl_Tail l = 0 \<longleftrightarrow> xs = []"
    using tail link_seg_nonnull [OF seg] by (cases xs rule: rev_cases) auto
  ultimately show thesis using m1 tail d e(2)
    by (intro that [of m1 "(if gl_Tail l = 0 then l\<lparr>gl_Tail := e\<rparr> else l)\<lparr>gl_Head := e\<rparr>"])
      (auto simp: AddToHead_def gen_list_def simp del: link_seg.simps)
qed

text \<open>The end of a list after its element \<open>e\<close> is taken out or replaced\<close>

lemma last_or_null_remove:
  assumes "distinct (ys @ e # zs)" "0 \<notin> set (ys @ e # zs)"
  shows "last_or_null (ys @ zs) = (if last_or_null (ys @ e # zs) = e then (if ys = [] then 0 else last ys)
           else last_or_null (ys @ e # zs))"
  using assms by (cases zs rule: rev_cases) (auto simp: last_or_null_def)

lemma last_or_null_replace:
  assumes "distinct (ys @ e # zs)"
  shows "last_or_null (ys @ n # zs) = (if last_or_null (ys @ e # zs) = e then n else last_or_null (ys @ e # zs))"
  using assms by (cases zs rule: rev_cases) (auto simp: last_or_null_def)

lemma last_neq_null: "0 \<notin> set ys \<Longrightarrow> ys \<noteq> [] \<Longrightarrow> last ys \<noteq> 0"
  using last_in_set by metis

lemma remove1_mid: "e \<notin> set ys \<Longrightarrow> remove1 e (ys @ e # zs) = ys @ zs"
  by (simp add: remove1_append)

definition replace_elem :: "u64 \<Rightarrow> u64 \<Rightarrow> u64 list \<Rightarrow> u64 list" where
  "replace_elem e n xs = map (\<lambda>x. if x = e then n else x) xs"

lemma replace_elem_mid:
  assumes "distinct (ys @ e # zs)"
  shows "replace_elem e n (ys @ e # zs) = ys @ n # zs"
  using assms by (auto simp: replace_elem_def intro!: map_idI)

lemma RemoveFromList_list:
  assumes l: "gen_list m l xs" and e: "e \<in> set xs"
  obtains m' l' where "RemoveFromList m l e = Some (m', l', 1)" "gen_list m' l' (remove1 e xs)"
    "gl_LinkOffset l' = gl_LinkOffset l" "GETLINK m' e (gl_LinkOffset l) = Some 0"
proof -
  let ?off = "gl_LinkOffset l" let ?get = "\<lambda>m e. GETLINK m e ?off"
  obtain ys zs where xs: "xs = ys @ e # zs" "e \<notin> set ys" "e \<notin> set zs" by (rule gen_list_split [OF l e])
  have seg: "link_seg ?get m (gl_Head l) (ys @ e # zs) 0" and tail: "gl_Tail l = last_or_null (ys @ e # zs)"
    and d: "distinct (ys @ e # zs)" using l xs by (auto simp: gen_list_def)
  note nn = link_seg_nonnull [OF seg]
  obtain nx m1 m2 where r: "GETLINK m e ?off = Some nx"
    "(if ys = [] then Some m else ASSIGNLINK m (last ys) nx ?off) = Some m1" "ASSIGNLINK m1 e 0 ?off = Some m2"
    "link_seg ?get m2 (if ys = [] then nx else gl_Head l) (ys @ zs) 0"
    by (rule ptr_link.seg_remove [OF seg d])
  let ?l1 = "if ys = [] then l\<lparr>gl_Head := nx\<rparr> else l"
  let ?l = "if gl_Tail ?l1 = e then ?l1\<lparr>gl_Tail := if ys = [] then 0 else last ys\<rparr> else ?l1"
  have "RemoveFromList m l e = Some (m2, ?l, 1)"
    using find_elem_present [OF seg xs(2)] r(1-3) nn last_neq_null [of ys]
    by (auto simp: RemoveFromList_def Let_def)
  moreover have "gen_list m2 ?l (remove1 e xs)"
    using r(4) tail d last_or_null_remove [OF d nn] xs by (auto simp: gen_list_def remove1_mid)
  moreover have "gl_LinkOffset ?l = gl_LinkOffset l" by simp
  moreover have "GETLINK m2 e ?off = Some 0" using ptr_link.get_set_same [OF r(3)] nn by auto
  ultimately show thesis by (rule that)
qed

lemma RemoveFromList_absent:
  "gen_list m l xs \<Longrightarrow> e \<notin> set xs \<Longrightarrow> RemoveFromList m l e = Some (m, l, 0)"
  by (auto simp: RemoveFromList_def gen_list_def find_elem_absent)

lemma ReplaceElem_list:
  assumes l: "gen_list m l xs" and e: "e \<in> set xs" and n: "has_link m (gl_LinkOffset l) n" "n \<notin> set xs"
  obtains m' l' where "ReplaceElem m l e n = Some (m', l', 1)" "gen_list m' l' (replace_elem e n xs)"
    "gl_LinkOffset l' = gl_LinkOffset l"
proof -
  let ?off = "gl_LinkOffset l" let ?get = "\<lambda>m e. GETLINK m e ?off"
  obtain ys zs where xs: "xs = ys @ e # zs" "e \<notin> set ys" "e \<notin> set zs" by (rule gen_list_split [OF l e])
  have seg: "link_seg ?get m (gl_Head l) (ys @ e # zs) 0" and tail: "gl_Tail l = last_or_null (ys @ e # zs)"
    and d: "distinct (ys @ e # zs)" using l xs by (auto simp: gen_list_def)
  note nn = link_seg_nonnull [OF seg]
  have n0: "n \<noteq> 0" "GETLINK m n ?off \<noteq> None" "n \<notin> set (ys @ e # zs)"
    using n xs by (auto simp: has_link_def GETLINK_def)
  obtain nx m1 m2 where r: "GETLINK m e ?off = Some nx" "ASSIGNLINK m n nx ?off = Some m1"
    "(if ys = [] then Some m1 else ASSIGNLINK m1 (last ys) n ?off) = Some m2"
    "link_seg ?get m2 (if ys = [] then n else gl_Head l) (ys @ n # zs) 0"
    by (rule ptr_link.seg_replace [OF seg d n0(2,1,3)])
  let ?l1 = "if ys = [] then l\<lparr>gl_Head := n\<rparr> else l"
  let ?l = "if gl_Tail ?l1 = e then ?l1\<lparr>gl_Tail := n\<rparr> else ?l1"
  have "ReplaceElem m l e n = Some (m2, ?l, 1)"
    using find_elem_present [OF seg xs(2)] r(1-3) nn n0(1) last_neq_null [of ys]
    by (auto simp: ReplaceElem_def Let_def)
  moreover have "gen_list m2 ?l (replace_elem e n xs)"
    using r(4) tail d last_or_null_replace [OF d, of n] xs n0(3)
    by (auto simp: gen_list_def replace_elem_mid [OF d] simp del: link_seg.simps)
  moreover have "gl_LinkOffset ?l = gl_LinkOffset l" by simp
  ultimately show thesis by (rule that)
qed

section \<open>Lists of distances\<close>

lemma offset_sel [simp]:
  "GetOffsetLink m (l\<lparr>ol_Head := a\<rparr>) e = GetOffsetLink m l e"
  "GetOffsetLink m (l\<lparr>ol_Tail := a\<rparr>) e = GetOffsetLink m l e"
  "GetTailPtr pl (l\<lparr>ol_Head := a\<rparr>) = GetTailPtr pl l"
  by (simp_all add: GetOffsetLink_def GetTailPtr_def)

lemma dist_of_simps [simp]: "dist_of pl 0 = 0" "p \<noteq> 0 \<Longrightarrow> dist_of pl p = p - pl"
  by (simp_all add: dist_of_def)

lemma dist_of_zero [simp]: "p \<noteq> pl \<Longrightarrow> dist_of pl p = 0 \<longleftrightarrow> p = 0"
  by (simp add: dist_of_def)

definition has_offset_link :: "cells \<Rightarrow> gen_linked_offset_list \<Rightarrow> u64 \<Rightarrow> bool" where
  "has_offset_link m l e \<longleftrightarrow> GetOffsetLink m l e \<noteq> None"

lemma has_offset_link_nonnull: "has_offset_link m l e \<Longrightarrow> e \<noteq> 0"
  by (auto simp: has_offset_link_def GetOffsetLink_def GETLINK_def)

lemma offset_listD:
  assumes "offset_list pl m l xs"
  shows "link_seg (\<lambda>m e. GetOffsetLink m l e) m (first_or_null xs) xs 0" "distinct xs" "pl \<notin> set xs" "0 \<notin> set xs"
    "GetHeadPtr pl l = first_or_null xs" "GetTailPtr pl l = last_or_null xs" "ol_Tail l = 0 \<longleftrightarrow> xs = []"
proof -
  have seg: "link_seg (\<lambda>m e. GetOffsetLink m l e) m (first_or_null xs) xs 0" and "distinct xs" "pl \<notin> set xs"
    and h: "ol_Head l = dist_of pl (first_or_null xs)" "ol_Tail l = dist_of pl (last_or_null xs)"
    using assms by (auto simp: offset_list_def)
  then show "link_seg (\<lambda>m e. GetOffsetLink m l e) m (first_or_null xs) xs 0" "distinct xs" "pl \<notin> set xs"
    by auto
  show nn: "0 \<notin> set xs" by (rule link_seg_nonnull [OF seg])
  show "GetHeadPtr pl l = first_or_null xs"
    using h \<open>pl \<notin> set xs\<close> by (cases xs) (auto simp: GetHeadPtr_def dist_of_def)
  show "GetTailPtr pl l = last_or_null xs" "ol_Tail l = 0 \<longleftrightarrow> xs = []"
    using h \<open>pl \<notin> set xs\<close> nn by (cases xs rule: rev_cases; auto simp: GetTailPtr_def dist_of_def)+
qed

lemma OffsetAddToTail_list:
  assumes l: "offset_list pl m l xs" and e: "has_offset_link m l e" "e \<notin> set xs" "e \<noteq> pl"
  obtains m' l' where "OffsetAddToTail pl m l e = Some (m', l')" "offset_list pl m' l' (xs @ [e])"
    "ol_LinkOffset l' = ol_LinkOffset l"
proof -
  let ?off = "ol_LinkOffset l" let ?get = "\<lambda>m e. GetOffsetLink m l e"
  note e0 = has_offset_link_nonnull [OF e(1)]
  note L = offset_listD [OF l]
  have f: "GetOffsetLink m l e \<noteq> None" using e by (simp add: has_offset_link_def)
  show thesis
  proof (cases xs rule: rev_cases)
    case Nil
    obtain m1 where m1: "AssignOffsetLink m e 0 ?off = Some m1" by (rule dist_link.set_some [OF f])
    have "link_seg ?get m1 e [e] 0"
      using dist_link.seg_cons [OF _ e0 _ m1, of "[]" 0] e0 by simp
    with Nil L(7) m1 e0 e(3) show thesis
      by (intro that [of m1 "l\<lparr>ol_Head := e - pl, ol_Tail := e - pl\<rparr>"])
        (auto simp: OffsetAddToTail_def offset_list_def simp del: link_seg.simps)
  next
    case (snoc ys t)
    have ft: "GetOffsetLink m l t \<noteq> None" using dist_link.seg_field [OF L(1)] snoc by simp
    obtain m1 where m1: "AssignOffsetLink m t e ?off = Some m1" by (rule dist_link.set_some [OF ft])
    have et: "e \<noteq> t" using e snoc by auto
    obtain m2 where m2: "AssignOffsetLink m1 e 0 ?off = Some m2"
      by (rule dist_link.set_some [OF dist_link.set_keeps_field [OF m1 et f]])
    have "link_seg ?get m1 (first_or_null xs) xs e"
      using dist_link.seg_redirect [OF _ _ m1 et] L(1,2) snoc by auto
    then have "link_seg ?get m2 (first_or_null xs) xs e"
      using dist_link.seg_frame [OF m2 e(2)] by simp
    moreover have "?get m2 e = Some 0" using dist_link.get_set_same [OF m2] e0 by simp
    ultimately have "link_seg ?get m2 (first_or_null xs) (xs @ [e]) 0"
      using e0 by (auto simp: link_seg_append)
    moreover have "ol_Head l = dist_of pl (first_or_null xs)" using l by (simp add: offset_list_def)
    moreover have "first_or_null (xs @ [e]) = first_or_null xs" by (rule first_or_null_simps(3)) (use snoc in simp)
    moreover have "OffsetAddToTail pl m l e = Some (m2, l\<lparr>ol_Tail := e - pl\<rparr>)"
      using snoc L m1 m2 by (simp add: OffsetAddToTail_def)
    ultimately show thesis using L e e0
      by (intro that [of m2 "l\<lparr>ol_Tail := e - pl\<rparr>"])
        (auto simp: offset_list_def simp del: link_seg.simps)
  qed
qed

lemma OffsetAddToHead_list:
  assumes l: "offset_list pl m l xs" and e: "has_offset_link m l e" "e \<notin> set xs" "e \<noteq> pl"
  obtains m' l' where "OffsetAddToHead pl m l e = Some (m', l')" "offset_list pl m' l' (e # xs)"
    "ol_LinkOffset l' = ol_LinkOffset l"
proof -
  let ?off = "ol_LinkOffset l" let ?get = "\<lambda>m e. GetOffsetLink m l e"
  note e0 = has_offset_link_nonnull [OF e(1)]
  note L = offset_listD [OF l]
  have f: "GetOffsetLink m l e \<noteq> None" using e by (simp add: has_offset_link_def)
  obtain m1 where m1: "AssignOffsetLink m e (first_or_null xs) ?off = Some m1" by (rule dist_link.set_some [OF f])
  have ne: "first_or_null xs \<noteq> e" by (rule dist_link.seg_not_self [OF L(1) e(2) e0])
  have "link_seg ?get m1 e (e # xs) 0"
    by (rule dist_link.seg_cons [OF L(1) e0 e(2) m1 ne])
  moreover have "ol_Tail l = dist_of pl (last_or_null xs)" using l by (simp add: offset_list_def)
  ultimately show thesis using m1 L e e0
    by (intro that [of m1 "(if ol_Tail l = 0 then l\<lparr>ol_Tail := e - pl\<rparr> else l)\<lparr>ol_Head := e - pl\<rparr>"])
      (auto simp: OffsetAddToHead_def offset_list_def simp del: link_seg.simps)
qed

lemma offset_list_split:
  assumes "offset_list pl m l xs" "e \<in> set xs"
  obtains ys zs where "xs = ys @ e # zs" "e \<notin> set ys" "e \<notin> set zs"
  using assms split_list [OF assms(2)] by (auto simp: offset_list_def)

lemma first_or_null_mid: "first_or_null (ys @ zs) = (if ys = [] then first_or_null zs else first_or_null ys)"
  by (cases ys) auto

lemma OffsetRemoveFromList_list:
  assumes l: "offset_list pl m l xs" and e: "e \<in> set xs"
  obtains m' l' where "OffsetRemoveFromList pl m l e = Some (m', l', 1)" "offset_list pl m' l' (remove1 e xs)"
    "ol_LinkOffset l' = ol_LinkOffset l" "GetOffsetLink m' l e = Some 0"
proof -
  let ?off = "ol_LinkOffset l" let ?get = "\<lambda>m e. GetOffsetLink m l e"
  obtain ys zs where xs: "xs = ys @ e # zs" "e \<notin> set ys" "e \<notin> set zs" by (rule offset_list_split [OF l e])
  note L = offset_listD [OF l [unfolded xs(1)]]
  obtain nx m1 m2 where r: "?get m e = Some nx"
    "(if ys = [] then Some m else AssignOffsetLink m (last ys) nx ?off) = Some m1"
    "AssignOffsetLink m1 e 0 ?off = Some m2"
    "link_seg ?get m2 (if ys = [] then nx else first_or_null (ys @ e # zs)) (ys @ zs) 0"
    by (rule dist_link.seg_remove [OF L(1,2)])
  let ?l1 = "if ys = [] then l\<lparr>ol_Head := dist_of pl nx\<rparr> else l"
  let ?l = "if GetTailPtr pl ?l1 = e
            then ?l1\<lparr>ol_Tail := dist_of pl (if ys = [] then 0 else last ys)\<rparr> else ?l1"
  have first: "(if ys = [] then nx else first_or_null (ys @ e # zs)) = first_or_null (ys @ zs)"
    using r(4) by (cases ys; cases zs) auto
  then have nx: "nx = first_or_null zs" if "ys = []" using that by simp
  have "OffsetRemoveFromList pl m l e = Some (m2, ?l, 1)"
    using find_elem_present [OF L(1) xs(2)] r(1-3) L(4,5) last_neq_null [of ys]
    by (auto simp: OffsetRemoveFromList_def Let_def dist_of_def)
  moreover have "offset_list pl m2 ?l (remove1 e xs)"
  proof -
    have "ol_Head l = dist_of pl (first_or_null xs)" "ol_Tail l = dist_of pl (last_or_null xs)"
      using l by (auto simp: offset_list_def)
    then show ?thesis
      using r(4) L(2-6) last_or_null_remove [OF L(2,4)] xs unfolding first
      by (auto simp: offset_list_def remove1_mid first_or_null_mid nx simp del: link_seg.simps)
  qed
  moreover have "ol_LinkOffset ?l = ol_LinkOffset l" by simp
  moreover have "?get m2 e = Some 0" using dist_link.get_set_same [OF r(3)] L(4) by auto
  ultimately show thesis by (rule that)
qed

lemma OffsetRemoveFromList_absent:
  "offset_list pl m l xs \<Longrightarrow> e \<notin> set xs \<Longrightarrow> OffsetRemoveFromList pl m l e = Some (m, l, 0)"
  by (auto simp: OffsetRemoveFromList_def offset_listD(5) find_elem_absent [OF offset_listD(1)])

lemma OffsetReplaceElem_list:
  assumes l: "offset_list pl m l xs" and e: "e \<in> set xs"
    and n: "has_offset_link m l n" "n \<notin> set xs" "n \<noteq> pl"
  obtains m' l' where "OffsetReplaceElem pl m l e n = Some (m', l', 1)" "offset_list pl m' l' (replace_elem e n xs)"
    "ol_LinkOffset l' = ol_LinkOffset l"
proof -
  let ?off = "ol_LinkOffset l" let ?get = "\<lambda>m e. GetOffsetLink m l e"
  obtain ys zs where xs: "xs = ys @ e # zs" "e \<notin> set ys" "e \<notin> set zs" by (rule offset_list_split [OF l e])
  note L = offset_listD [OF l [unfolded xs(1)]]
  note n0 = has_offset_link_nonnull [OF n(1)]
  have n1: "?get m n \<noteq> None" "n \<notin> set (ys @ e # zs)" using n xs by (auto simp: has_offset_link_def)
  obtain nx m1 m2 where r: "?get m e = Some nx" "AssignOffsetLink m n nx ?off = Some m1"
    "(if ys = [] then Some m1 else AssignOffsetLink m1 (last ys) n ?off) = Some m2"
    "link_seg ?get m2 (if ys = [] then n else first_or_null (ys @ e # zs)) (ys @ n # zs) 0"
    by (rule dist_link.seg_replace [OF L(1,2) n1(1) n0 n1(2)])
  let ?l1 = "if ys = [] then l\<lparr>ol_Head := n - pl\<rparr> else l"
  let ?l = "if GetTailPtr pl ?l1 = e then ?l1\<lparr>ol_Tail := n - pl\<rparr> else ?l1"
  have first: "(if ys = [] then n else first_or_null (ys @ e # zs)) = first_or_null (ys @ n # zs)"
    by (cases ys) auto
  have "OffsetReplaceElem pl m l e n = Some (m2, ?l, 1)"
    using find_elem_present [OF L(1) xs(2)] r(1-3) L(4,5) n0 last_neq_null [of ys]
    by (auto simp: OffsetReplaceElem_def Let_def)
  moreover have "offset_list pl m2 ?l (replace_elem e n xs)"
  proof -
    have "ol_Head l = dist_of pl (first_or_null xs)" "ol_Tail l = dist_of pl (last_or_null xs)"
      using l by (auto simp: offset_list_def)
    then show ?thesis
      using r(4) L(2-6) last_or_null_replace [OF L(2), of n] xs n n0 unfolding first
      by (auto simp: offset_list_def replace_elem_mid [OF L(2)] first_or_null_mid simp del: link_seg.simps)
  qed
  moreover have "ol_LinkOffset ?l = ol_LinkOffset l" by simp
  ultimately show thesis by (rule that)
qed

section \<open>The double list\<close>

text \<open>The back links run through the elements in reverse order.\<close>

definition double_list :: "cells \<Rightarrow> gen_double_linked_list \<Rightarrow> u64 list \<Rightarrow> bool" where
  "double_list m l xs \<longleftrightarrow> link_seg (\<lambda>m e. GETLINK m e (dl_FwdLinkOffset l)) m (dl_Head l) xs 0
     \<and> link_seg (\<lambda>m e. GETLINK m e (dl_BackLinkOffset l)) m (dl_Tail l) (rev xs) 0 \<and> distinct xs"

text \<open>No forward field of an element is the back field of another.\<close>

definition fields_apart :: "gen_double_linked_list \<Rightarrow> u64 set \<Rightarrow> bool" where
  "fields_apart l S \<longleftrightarrow> (\<forall>x \<in> S. \<forall>y \<in> S. x + dl_FwdLinkOffset l \<noteq> y + dl_BackLinkOffset l)"

lemma fields_apartD:
  "fields_apart l S \<Longrightarrow> x \<in> S \<Longrightarrow> y \<in> S \<Longrightarrow> x + dl_FwdLinkOffset l \<noteq> y + dl_BackLinkOffset l"
  by (simp add: fields_apart_def)

lemma link_seg_cong:
  "(\<And>x. x \<in> set xs \<Longrightarrow> get m' x = get m x) \<Longrightarrow> link_seg get m' p xs q = link_seg get m p xs q"
  by (induction xs arbitrary: p) auto

lemma link_seg_without:
  assumes seg: "link_seg get m p (ys @ e # zs) 0" and dist: "distinct (ys @ e # zs)"
    and nx: "get m e = Some nx"
    and same: "\<And>x. x \<in> set (butlast ys @ zs) \<Longrightarrow> get m' x = get m x"
    and redirect: "ys \<noteq> [] \<Longrightarrow> get m' (last ys) = Some nx"
  shows "link_seg get m' (if ys = [] then nx else p) (ys @ zs) 0"
proof (cases ys rule: rev_cases)
  case Nil
  with seg nx have "link_seg get m nx zs 0" by simp
  then have "link_seg get m' nx zs 0" using link_seg_cong [of zs get m' m] same Nil by simp
  with Nil show ?thesis by simp
next
  case (snoc ws t)
  have "link_seg get m p ws t" "t \<noteq> 0" "link_seg get m nx zs 0"
    using seg nx snoc by (auto simp: link_seg_append)
  then have "link_seg get m' p ws t" "link_seg get m' nx zs 0"
    using link_seg_cong [of ws get m' m] link_seg_cong [of zs get m' m] same snoc by simp_all
  with redirect snoc \<open>t \<noteq> 0\<close> show ?thesis by (auto simp: link_seg_append)
qed

lemma link_seg_last:
  "link_seg get m p xs q \<Longrightarrow> xs \<noteq> [] \<Longrightarrow> get m (last xs) = Some q"
  by (induction xs arbitrary: p) auto

lemma link_seg_start: "link_seg get m p xs 0 \<Longrightarrow> p = first_or_null xs"
  by (cases xs) auto

lemma first_or_null_rev: "first_or_null (rev xs) = last_or_null xs"
  by (cases xs rule: rev_cases) auto

lemma double_list_links:
  assumes "double_list m l (ys @ e # zs)"
  shows "GETLINK m e (dl_FwdLinkOffset l) = Some (first_or_null zs)"
    "GETLINK m e (dl_BackLinkOffset l) = Some (last_or_null ys)"
proof -
  obtain r where "link_seg (\<lambda>m e. GETLINK m e (dl_FwdLinkOffset l)) m r (e # zs) 0"
    using assms by (auto simp: double_list_def link_seg_append)
  then show "GETLINK m e (dl_FwdLinkOffset l) = Some (first_or_null zs)"
    using link_seg_start by fastforce
  obtain r' where "link_seg (\<lambda>m e. GETLINK m e (dl_BackLinkOffset l)) m r' (e # rev ys) 0"
    using assms by (auto simp: double_list_def link_seg_append)
  then show "GETLINK m e (dl_BackLinkOffset l) = Some (last_or_null ys)"
    using link_seg_start [of _ _ _ "rev ys"] by (fastforce simp: first_or_null_rev)
qed

lemma GETLINK_some: "GETLINK m e off \<noteq> None \<longleftrightarrow> e \<noteq> 0 \<and> m (e + off) \<noteq> None"
  by (simp add: GETLINK_def)

lemma ASSIGNLINK_ok: "e \<noteq> 0 \<Longrightarrow> m (e + off) \<noteq> None \<Longrightarrow> ASSIGNLINK m e v off = Some (m(e + off \<mapsto> v))"
  by (simp add: ASSIGNLINK_def)

lemma upd_some: "m x \<noteq> None \<Longrightarrow> (m(a \<mapsto> v)) x \<noteq> None"
  by simp

lemma double_list_field:
  assumes "double_list m l xs" "x \<in> set xs"
  shows "GETLINK m x (dl_FwdLinkOffset l) \<noteq> None" "GETLINK m x (dl_BackLinkOffset l) \<noteq> None"
  using assms ptr_link.seg_field [of "dl_FwdLinkOffset l" m "dl_Head l" xs 0 x]
    ptr_link.seg_field [of "dl_BackLinkOffset l" m "dl_Tail l" "rev xs" 0 x]
  by (auto simp: double_list_def)

lemma DLLRemoveFromList_list:
  assumes l: "double_list m l xs" and apart: "fields_apart l (set xs)" and e: "e \<in> set xs"
  obtains m' l' where "DLLRemoveFromList m l e = Some (m', l')" "double_list m' l' (remove1 e xs)"
    "dl_FwdLinkOffset l' = dl_FwdLinkOffset l" "dl_BackLinkOffset l' = dl_BackLinkOffset l"
    "GETLINK m' e (dl_FwdLinkOffset l) = Some 0" "GETLINK m' e (dl_BackLinkOffset l) = Some 0"
proof -
  let ?F = "dl_FwdLinkOffset l" let ?B = "dl_BackLinkOffset l"
  obtain ys zs where xs: "xs = ys @ e # zs" "e \<notin> set ys" "e \<notin> set zs"
    using split_list [OF e] l by (auto simp: double_list_def)
  note l' = l [unfolded xs(1)]
  have d: "distinct (ys @ e # zs)" and fw: "link_seg (\<lambda>m e. GETLINK m e ?F) m (dl_Head l) (ys @ e # zs) 0"
    and bw: "link_seg (\<lambda>m e. GETLINK m e ?B) m (dl_Tail l) (rev zs @ e # rev ys) 0"
    using l' by (auto simp: double_list_def)
  note nn = link_seg_nonnull [OF fw]
  note links = double_list_links [OF l']
  note field = double_list_field [OF l']
  note ne = fields_apartD [OF apart [unfolded xs(1)]]
  let ?pn = "first_or_null zs" let ?pp = "last_or_null ys"
  have pp: "?pp \<noteq> 0 \<longleftrightarrow> ys \<noteq> []" "ys \<noteq> [] \<Longrightarrow> ?pp = last ys \<and> last ys \<in> set ys"
    and pn: "?pn \<noteq> 0 \<longleftrightarrow> zs \<noteq> []" "zs \<noteq> [] \<Longrightarrow> ?pn = hd zs \<and> hd zs \<in> set zs"
    using nn last_neq_null [of ys] by (auto simp: last_or_null_def first_or_null_def split: list.splits)
  let ?m1 = "if ys = [] then m else m(last ys + ?F \<mapsto> ?pn)"
  let ?m2 = "if zs = [] then ?m1 else ?m1(hd zs + ?B \<mapsto> ?pp)"
  let ?m = "?m2(e + ?F \<mapsto> 0, e + ?B \<mapsto> 0)"
  let ?l1 = "if ys = [] then l\<lparr>dl_Head := ?pn\<rparr> else l"
  let ?l = "if zs = [] then ?l1\<lparr>dl_Tail := ?pp\<rparr> else ?l1"
  have res: "DLLRemoveFromList m l e = Some (?m, ?l)"
  proof -
    have e: "e \<noteq> 0" "m (e + ?F) \<noteq> None" "m (e + ?B) \<noteq> None"
      using field [of e, unfolded GETLINK_some] by auto
    have t: "m (last ys + ?F) \<noteq> None" "last ys \<noteq> 0" if "ys \<noteq> []"
      using field(1) [of "last ys", unfolded GETLINK_some] pp(2) [OF that] by auto
    have u: "m (hd zs + ?B) \<noteq> None" "hd zs \<noteq> 0" if "zs \<noteq> []"
      using field(2) [of "hd zs", unfolded GETLINK_some] pn(2) [OF that] by auto
    show ?thesis
      by (cases "ys = []"; cases "zs = []")
        (use links e t u pp(2) pn(2) in \<open>simp_all add: DLLRemoveFromList_def ASSIGNLINK_ok upd_some Let_def
           del: not_None_eq fun_upd_apply\<close>)
  qed
  have getF: "GETLINK ?m x ?F = (if x = e then Some 0 else if ys \<noteq> [] \<and> x = last ys then Some ?pn else GETLINK m x ?F)"
    and getB: "GETLINK ?m x ?B = (if x = e then Some 0 else if zs \<noteq> [] \<and> x = hd zs then Some ?pp else GETLINK m x ?B)"
    if "x \<in> set (ys @ e # zs)" for x
    using that nn ne [of x e] ne [of e x] ne [of x "hd zs"] ne [of "last ys" x] ne [of e e] pp pn
    by (auto simp: GETLINK_def)
  have "link_seg (\<lambda>m e. GETLINK m e ?F) ?m (if ys = [] then ?pn else dl_Head l) (ys @ zs) 0"
  proof (rule link_seg_without [where get = "\<lambda>m e. GETLINK m e ?F", OF fw d links(1)])
    show "GETLINK ?m x ?F = GETLINK m x ?F" if "x \<in> set (butlast ys @ zs)" for x
    proof -
      have n: "\<not> x = e" "\<not> (ys \<noteq> [] \<and> x = last ys)" and x: "x \<in> set (ys @ e # zs)"
        using that d by (cases ys rule: rev_cases; auto)+
      show ?thesis using getF [OF x] unfolding if_not_P [OF n(1)] if_not_P [OF n(2)] .
    qed
    show "GETLINK ?m (last ys) ?F = Some ?pn" if "ys \<noteq> []"
      using that getF [of "last ys"] d pp(2) [OF that] by auto
  qed
  moreover have "link_seg (\<lambda>m e. GETLINK m e ?B) ?m (if rev zs = [] then ?pp else dl_Tail l) (rev zs @ rev ys) 0"
  proof (rule link_seg_without [where get = "\<lambda>m e. GETLINK m e ?B", OF bw _ links(2)])
    show "distinct (rev zs @ e # rev ys)" using d by auto
    show "GETLINK ?m x ?B = GETLINK m x ?B" if "x \<in> set (butlast (rev zs) @ rev ys)" for x
    proof -
      have n: "\<not> x = e" "\<not> (zs \<noteq> [] \<and> x = hd zs)" and x: "x \<in> set (ys @ e # zs)"
        using that d by (cases zs; auto)+
      show ?thesis using getB [OF x] unfolding if_not_P [OF n(1)] if_not_P [OF n(2)] .
    qed
    show "GETLINK ?m (last (rev zs)) ?B = Some ?pp" if "rev zs \<noteq> []"
      using that getB [of "hd zs"] d pn(2) by (auto simp: last_rev)
  qed
  ultimately have "double_list ?m ?l (remove1 e xs)"
    using d xs by (auto simp: double_list_def remove1_mid)
  then show thesis
    using res getF [of e] getB [of e] by (intro that [of ?m ?l]) auto
qed

lemma DLLAddToHead_list:
  assumes l: "double_list m l xs" and apart: "fields_apart l (insert e (set xs))" and e: "e \<notin> set xs"
    and f: "has_link m (dl_FwdLinkOffset l) e" "has_link m (dl_BackLinkOffset l) e"
  obtains m' l' where "DLLAddToHead m l e = Some (m', l')" "double_list m' l' (e # xs)"
    "dl_FwdLinkOffset l' = dl_FwdLinkOffset l" "dl_BackLinkOffset l' = dl_BackLinkOffset l"
proof -
  let ?F = "dl_FwdLinkOffset l" let ?B = "dl_BackLinkOffset l"
  have d: "distinct xs" and fw: "link_seg (\<lambda>m e. GETLINK m e ?F) m (dl_Head l) xs 0"
    and bw: "link_seg (\<lambda>m e. GETLINK m e ?B) m (dl_Tail l) (rev xs) 0"
    using l by (auto simp: double_list_def)
  note nn = link_seg_nonnull [OF fw]
  note ne = fields_apartD [OF apart]
  have head: "dl_Head l = first_or_null xs" by (rule link_seg_start [OF fw])
  have e0: "e \<noteq> 0" "m (e + ?F) \<noteq> None" "m (e + ?B) \<noteq> None"
    using f by (auto simp: has_link_def GETLINK_some simp del: not_None_eq)
  have h: "m (hd xs + ?B) \<noteq> None" "hd xs \<noteq> 0" "first_or_null xs = hd xs" "hd xs \<in> set xs" if "xs \<noteq> []"
    using double_list_field(2) [OF l, of "hd xs", unfolded GETLINK_some] that
    by (auto simp: first_or_null_def split: list.splits)
  let ?m1 = "m(e + ?F \<mapsto> first_or_null xs)"
  let ?m2 = "if xs = [] then ?m1 else ?m1(hd xs + ?B \<mapsto> e)"
  let ?m = "?m2(e + ?B \<mapsto> 0)"
  let ?l = "if xs = [] then l\<lparr>dl_Head := e, dl_Tail := e\<rparr> else l\<lparr>dl_Head := e\<rparr>"
  have res: "DLLAddToHead m l e = Some (?m, ?l)"
    by (cases "xs = []")
      (use e0 h head in \<open>simp_all add: DLLAddToHead_def ASSIGNLINK_ok upd_some Let_def
         del: not_None_eq fun_upd_apply\<close>)
  have getF: "GETLINK ?m x ?F = (if x = e then Some (first_or_null xs) else GETLINK m x ?F)"
    and getB: "GETLINK ?m x ?B = (if x = e then Some 0 else if xs \<noteq> [] \<and> x = hd xs then Some e else GETLINK m x ?B)"
    if "x \<in> insert e (set xs)" for x
    using that e0(1) nn ne [of x e] ne [of e x] ne [of x "hd xs"] ne [of e e] h(3,4)
    by (auto simp: GETLINK_def)
  have "link_seg (\<lambda>m e. GETLINK m e ?F) ?m (dl_Head l) xs 0"
  proof -
    have same: "GETLINK ?m x ?F = GETLINK m x ?F" if "x \<in> set xs" for x
    proof -
      have n: "\<not> x = e" and x: "x \<in> insert e (set xs)" using that e by auto
      show ?thesis using getF [OF x] unfolding if_not_P [OF n] .
    qed
    have "link_seg (\<lambda>m e. GETLINK m e ?F) ?m (dl_Head l) xs 0 = link_seg (\<lambda>m e. GETLINK m e ?F) m (dl_Head l) xs 0"
      by (rule link_seg_cong) (rule same)
    with fw show ?thesis by simp
  qed
  then have F: "link_seg (\<lambda>m e. GETLINK m e ?F) ?m e (e # xs) 0"
    using getF [of e] e0(1) head by (auto simp del: fun_upd_apply)
  have B: "link_seg (\<lambda>m e. GETLINK m e ?B) ?m (if xs = [] then e else dl_Tail l) (rev (e # xs)) 0"
  proof (cases xs)
    case Nil
    then show ?thesis using getB [of e] e0(1) by (auto simp del: fun_upd_apply)
  next
    case (Cons x ys)
    have "link_seg (\<lambda>m e. GETLINK m e ?B) m (dl_Tail l) (rev ys) x" "x \<noteq> 0"
      using bw Cons by (auto simp: link_seg_append)
    moreover have "GETLINK ?m a ?B = GETLINK m a ?B" if "a \<in> set (rev ys)" for a
    proof -
      have n: "\<not> a = e" "\<not> (xs \<noteq> [] \<and> a = hd xs)" and a: "a \<in> insert e (set xs)"
        using that d e Cons by auto
      show ?thesis using getB [OF a] unfolding if_not_P [OF n(1)] if_not_P [OF n(2)] .
    qed
    ultimately have "link_seg (\<lambda>m e. GETLINK m e ?B) ?m (dl_Tail l) (rev ys) x"
      using link_seg_cong [of "rev ys" "\<lambda>m e. GETLINK m e ?B" ?m m] by (simp del: fun_upd_apply)
    moreover have "GETLINK ?m x ?B = Some e" "GETLINK ?m e ?B = Some 0"
      using getB [of x] getB [of e] Cons e by (auto simp del: fun_upd_apply)
    ultimately show ?thesis using Cons \<open>x \<noteq> 0\<close> e0(1) by (auto simp: link_seg_append simp del: fun_upd_apply)
  qed
  have "double_list ?m ?l (e # xs)"
    using F B d e unfolding double_list_def by (cases "xs = []") (simp_all del: fun_upd_apply link_seg.simps)
  then show thesis using res by (intro that [of ?m ?l]) auto
qed

section \<open>Example memories\<close>

text \<open>Three elements at 100, 200 and 300 with links at the offset 8 and back links at 16\<close>

definition demo_cells :: cells where
  "demo_cells = [108 \<mapsto> 200, 208 \<mapsto> 0, 308 \<mapsto> 7, 116 \<mapsto> 0, 216 \<mapsto> 100, 316 \<mapsto> 7]"

definition demo_list :: gen_linked_list where
  "demo_list = \<lparr>gl_Head = 100, gl_Tail = 200, gl_LinkOffset = 8\<rparr>"

lemma demo_list: "gen_list demo_cells demo_list [100, 200]" "has_link demo_cells (gl_LinkOffset demo_list) 300"
  by (auto simp: gen_list_def demo_cells_def demo_list_def GETLINK_def has_link_def)

definition demo_double :: gen_double_linked_list where
  "demo_double = \<lparr>dl_Head = 100, dl_Tail = 200, dl_FwdLinkOffset = 8, dl_BackLinkOffset = 16\<rparr>"

lemma demo_double: "double_list demo_cells demo_double [100, 200]" "fields_apart demo_double {300, 100, 200}"
    "has_link demo_cells 8 300" "has_link demo_cells 16 300"
  by (auto simp: double_list_def demo_cells_def demo_double_def GETLINK_def has_link_def fields_apart_def)

text \<open>The same elements in an offset list at the address 40\<close>

definition demo_offset_cells :: cells where
  "demo_offset_cells = [108 \<mapsto> 100, 208 \<mapsto> 0, 308 \<mapsto> 7]"

definition demo_offset_list :: gen_linked_offset_list where
  "demo_offset_list = \<lparr>ol_Head = 60, ol_Tail = 160, ol_LinkOffset = 8\<rparr>"

lemma demo_offset_list: "offset_list 40 demo_offset_cells demo_offset_list [100, 200]"
    "has_offset_link demo_offset_cells demo_offset_list 300"
  by (auto simp: offset_list_def demo_offset_cells_def demo_offset_list_def GETLINK_def GetOffsetLink_def
      has_offset_link_def dist_of_def last_or_null_def)

end
