(* ===== verification/Gen_List_Claims.thy ===== *)
theory Gen_List_Claims imports Gen_List_Props begin

text \<open>What the operations of GenLinkedList.c do to the lists that the memory denotes.\<close>

text \<open>C5. The singly linked list refines a list of elements: on a well-formed list and a fresh element that
  has a link field, adding at either end, removing and replacing terminate without touching invalid
  memory, return 1 exactly when the element was found, and leave a well-formed list holding the
  expected elements in order.\<close>

theorem gen_list_refines:
  assumes l: "gen_list m l xs" and e: "has_link m (gl_LinkOffset l) e" "e \<notin> set xs"
  shows "(\<exists>m' l'. AddToTail m l e = Some (m', l') \<and> gen_list m' l' (xs @ [e]))
    \<and> (\<exists>m' l'. AddToHead m l e = Some (m', l') \<and> gen_list m' l' (e # xs))
    \<and> (\<forall>x \<in> set xs. \<exists>m' l'. RemoveFromList m l x = Some (m', l', 1) \<and> gen_list m' l' (remove1 x xs))
    \<and> RemoveFromList m l e = Some (m, l, 0)
    \<and> (\<forall>x \<in> set xs. \<exists>m' l'. ReplaceElem m l x e = Some (m', l', 1) \<and> gen_list m' l' (replace_elem x e xs))"
proof (intro conjI ballI)
  show "\<exists>m' l'. AddToTail m l e = Some (m', l') \<and> gen_list m' l' (xs @ [e])"
    by (rule AddToTail_list [OF l e]) blast
  show "\<exists>m' l'. AddToHead m l e = Some (m', l') \<and> gen_list m' l' (e # xs)"
    by (rule AddToHead_list [OF l e]) blast
  show "RemoveFromList m l e = Some (m, l, 0)" by (rule RemoveFromList_absent [OF l e(2)])
  fix x assume x: "x \<in> set xs"
  show "\<exists>m' l'. RemoveFromList m l x = Some (m', l', 1) \<and> gen_list m' l' (remove1 x xs)"
    by (rule RemoveFromList_list [OF l x]) blast
  show "\<exists>m' l'. ReplaceElem m l x e = Some (m', l', 1) \<and> gen_list m' l' (replace_elem x e xs)"
    by (rule ReplaceElem_list [OF l x e]) blast
qed

lemma gen_list_refines_witness:
  "(\<exists>m' l'. AddToTail demo_cells demo_list 300 = Some (m', l') \<and> gen_list m' l' [100, 200, 300])
   \<and> (\<exists>m' l'. RemoveFromList demo_cells demo_list 100 = Some (m', l', 1) \<and> gen_list m' l' [200])"
  using gen_list_refines [OF demo_list] by simp

text \<open>C6. The offset list computes the same lists as the pointer list: when both hold the same elements,
  each operation returns the same result code on both and leaves them holding the same elements, whatever
  addresses the wrap-around distances are taken from.\<close>

theorem offset_list_equiv:
  assumes g: "gen_list m l xs" and e: "has_link m (gl_LinkOffset l) e" "e \<notin> set xs"
    and ol: "offset_list pl om ol xs" and oe: "has_offset_link om ol e" "e \<noteq> pl"
  shows "(\<exists>m' l' om' ol'. AddToTail m l e = Some (m', l') \<and> OffsetAddToTail pl om ol e = Some (om', ol')
        \<and> gen_list m' l' (xs @ [e]) \<and> offset_list pl om' ol' (xs @ [e]))
    \<and> (\<exists>m' l' om' ol'. AddToHead m l e = Some (m', l') \<and> OffsetAddToHead pl om ol e = Some (om', ol')
        \<and> gen_list m' l' (e # xs) \<and> offset_list pl om' ol' (e # xs))
    \<and> (\<forall>x. \<exists>m' l' om' ol' r. RemoveFromList m l x = Some (m', l', r) \<and> OffsetRemoveFromList pl om ol x = Some (om', ol', r)
        \<and> gen_list m' l' (remove1 x xs) \<and> offset_list pl om' ol' (remove1 x xs))
    \<and> (\<forall>x \<in> set xs. \<exists>m' l' om' ol' r. ReplaceElem m l x e = Some (m', l', r)
        \<and> OffsetReplaceElem pl om ol x e = Some (om', ol', r)
        \<and> gen_list m' l' (replace_elem x e xs) \<and> offset_list pl om' ol' (replace_elem x e xs))"
proof (intro conjI allI ballI)
  show "\<exists>m' l' om' ol'. AddToTail m l e = Some (m', l') \<and> OffsetAddToTail pl om ol e = Some (om', ol')
        \<and> gen_list m' l' (xs @ [e]) \<and> offset_list pl om' ol' (xs @ [e])"
    by (rule AddToTail_list [OF g e], rule OffsetAddToTail_list [OF ol oe(1) e(2) oe(2)]) blast
  show "\<exists>m' l' om' ol'. AddToHead m l e = Some (m', l') \<and> OffsetAddToHead pl om ol e = Some (om', ol')
        \<and> gen_list m' l' (e # xs) \<and> offset_list pl om' ol' (e # xs)"
    by (rule AddToHead_list [OF g e], rule OffsetAddToHead_list [OF ol oe(1) e(2) oe(2)]) blast
  show "\<exists>m' l' om' ol' r. RemoveFromList m l x = Some (m', l', r) \<and> OffsetRemoveFromList pl om ol x = Some (om', ol', r)
        \<and> gen_list m' l' (remove1 x xs) \<and> offset_list pl om' ol' (remove1 x xs)" for x
  proof (cases "x \<in> set xs")
    case True
    show ?thesis
      by (rule RemoveFromList_list [OF g True], rule OffsetRemoveFromList_list [OF ol True]) blast
  next
    case False
    then show ?thesis
      using RemoveFromList_absent [OF g False] OffsetRemoveFromList_absent [OF ol False] g ol
      by (auto simp: remove1_idem)
  qed
  show "\<exists>m' l' om' ol' r. ReplaceElem m l x e = Some (m', l', r)
        \<and> OffsetReplaceElem pl om ol x e = Some (om', ol', r)
        \<and> gen_list m' l' (replace_elem x e xs) \<and> offset_list pl om' ol' (replace_elem x e xs)"
    if x: "x \<in> set xs" for x
    by (rule ReplaceElem_list [OF g x e], rule OffsetReplaceElem_list [OF ol x oe(1) e(2) oe(2)]) blast
qed

lemma offset_list_equiv_witness:
  "\<exists>m' l' om' ol' r. RemoveFromList demo_cells demo_list 200 = Some (m', l', r)
    \<and> OffsetRemoveFromList 40 demo_offset_cells demo_offset_list 200 = Some (om', ol', r)
    \<and> gen_list m' l' [100] \<and> offset_list 40 om' ol' [100]"
  using offset_list_equiv [OF demo_list _ demo_offset_list]
  by (auto dest: spec [of _ 200])

text \<open>C7. The doubly linked list keeps its invariant, forward links in list order and back links in reverse
  order, ending in NULL: adding a fresh element at the head and removing any element in place, without
  a search, terminate and keep it; a removed element's links are NULL.\<close>

theorem double_list_invariant:
  assumes l: "double_list m l xs" and apart: "fields_apart l (insert e (set xs))" and e: "e \<notin> set xs"
    and f: "has_link m (dl_FwdLinkOffset l) e" "has_link m (dl_BackLinkOffset l) e"
  shows "(\<exists>m' l'. DLLAddToHead m l e = Some (m', l') \<and> double_list m' l' (e # xs))
    \<and> (\<forall>x \<in> set xs. \<exists>m' l'. DLLRemoveFromList m l x = Some (m', l') \<and> double_list m' l' (remove1 x xs)
        \<and> GETLINK m' x (dl_FwdLinkOffset l) = Some 0 \<and> GETLINK m' x (dl_BackLinkOffset l) = Some 0)"
proof (intro conjI ballI)
  show "\<exists>m' l'. DLLAddToHead m l e = Some (m', l') \<and> double_list m' l' (e # xs)"
    by (rule DLLAddToHead_list [OF l apart e f]) blast
  have "fields_apart l (set xs)" using apart by (auto simp: fields_apart_def)
  then show "\<exists>m' l'. DLLRemoveFromList m l x = Some (m', l') \<and> double_list m' l' (remove1 x xs)
        \<and> GETLINK m' x (dl_FwdLinkOffset l) = Some 0 \<and> GETLINK m' x (dl_BackLinkOffset l) = Some 0"
    if "x \<in> set xs" for x
    by (rule DLLRemoveFromList_list [OF l _ that]) blast
qed

lemma double_list_invariant_witness:
  "\<exists>m' l'. DLLRemoveFromList demo_cells demo_double 100 = Some (m', l') \<and> double_list m' l' [200]"
  using double_list_invariant [OF demo_double(1), of 300] demo_double(2-4) by (auto simp: demo_double_def)

end
