(* ===== verification/Dns_Name.thy ===== *)
theory Dns_Name imports Prelude begin

text \<open>
  \<open>airplay/mdnsresponder/mDNSCore/DNSCommon.c\<close>: domain names in wire format, a sequence of labels
  (a length byte up to 63 and that many bytes) ended by an empty label, at most 256 bytes in all.  A
  pointer to a name or a label is a buffer and an offset; a read or a write outside the buffer is \<open>None\<close>.
\<close>

section \<open>Characters and buffers\<close>

definition MAX_DOMAIN_LABEL :: nat where "MAX_DOMAIN_LABEL = 63"
definition MAX_DOMAIN_NAME :: nat where "MAX_DOMAIN_NAME = 256"

definition mDNSIsDigit :: "u8 \<Rightarrow> bool" where "mDNSIsDigit x \<longleftrightarrow> x \<ge> 0x30 \<and> x \<le> 0x39"
definition mDNSIsUpperCase :: "u8 \<Rightarrow> bool" where "mDNSIsUpperCase x \<longleftrightarrow> x \<ge> 0x41 \<and> x \<le> 0x5A"
definition mDNSIsLowerCase :: "u8 \<Rightarrow> bool" where "mDNSIsLowerCase x \<longleftrightarrow> x \<ge> 0x61 \<and> x \<le> 0x7A"
definition mDNSIsLetter :: "u8 \<Rightarrow> bool" where "mDNSIsLetter x \<longleftrightarrow> mDNSIsUpperCase x \<or> mDNSIsLowerCase x"

definition fold_case :: "u8 \<Rightarrow> u8" where
  "fold_case c = (if mDNSIsUpperCase c then c + (0x61 - 0x41) else c)"

definition set_byte :: "bytes \<Rightarrow> nat \<Rightarrow> u8 \<Rightarrow> bytes option" where
  "set_byte buf i v = (if i < length buf then Some (buf[i := v]) else None)"

text \<open>Copying \<open>n\<close> bytes one by one\<close>

fun copy_bytes :: "nat \<Rightarrow> bytes \<Rightarrow> nat \<Rightarrow> bytes \<Rightarrow> nat \<Rightarrow> bytes option" where
  "copy_bytes 0 dst p src q = Some dst"
| "copy_bytes (Suc n) dst p src q = do {
     b \<leftarrow> read_byte src q;
     dst \<leftarrow> set_byte dst p b;
     copy_bytes n dst (Suc p) src (Suc q)
   }"

section \<open>Comparison\<close>

fun same_bytes :: "nat \<Rightarrow> bytes \<Rightarrow> nat \<Rightarrow> bytes \<Rightarrow> nat \<Rightarrow> bool option" where
  "same_bytes 0 a i b j = Some True"
| "same_bytes (Suc n) a i b j = do {
     ac \<leftarrow> read_byte a i;
     bc \<leftarrow> read_byte b j;
     if fold_case ac \<noteq> fold_case bc then Some False else same_bytes n a (Suc i) b (Suc j)
   }"

definition SameDomainLabel :: "bytes \<Rightarrow> nat \<Rightarrow> bytes \<Rightarrow> nat \<Rightarrow> bool option" where
  "SameDomainLabel a i b j = do {
     len \<leftarrow> read_byte a i;
     if unat len > MAX_DOMAIN_LABEL then Some False
     else do {
       lb \<leftarrow> read_byte b j;
       if len \<noteq> lb then Some False else same_bytes (unat len) a (Suc i) b (Suc j)
     }
   }"

text \<open>\<open>*a || *b\<close>, then the bound, the labels, the next labels; \<open>m\<close> is the offset behind a maximal name.\<close>

function same_name_loop :: "nat \<Rightarrow> bytes \<Rightarrow> nat \<Rightarrow> bytes \<Rightarrow> nat \<Rightarrow> bool option" where
  "same_name_loop m a i b j =
     (case read_byte a i of None \<Rightarrow> None | Some x \<Rightarrow>
       (case (if x \<noteq> 0 then Some True else map_option (\<lambda>y. y \<noteq> 0) (read_byte b j)) of None \<Rightarrow> None | Some more \<Rightarrow>
         if \<not> more then Some True
         else if i + 1 + unat x \<ge> m then Some False
         else
           (case SameDomainLabel a i b j of None \<Rightarrow> None | Some same \<Rightarrow>
             if \<not> same then Some False
             else
               (case read_byte b j of None \<Rightarrow> None | Some y \<Rightarrow>
                 same_name_loop m a (i + 1 + unat x) b (j + 1 + unat y)))))"
  by pat_completeness auto

termination same_name_loop
  by (relation "measure (\<lambda>(m, a, i, b, j). m - i)") auto

definition SameDomainName :: "bytes \<Rightarrow> nat \<Rightarrow> bytes \<Rightarrow> nat \<Rightarrow> bool option" where
  "SameDomainName a i b j = same_name_loop (i + MAX_DOMAIN_NAME) a i b j"

section \<open>Walking a name\<close>

text \<open>Results are \<open>mDNSu16\<close>.\<close>

function length_limit_loop :: "bytes \<Rightarrow> nat \<Rightarrow> nat \<Rightarrow> nat \<Rightarrow> u16 option" where
  "length_limit_loop buf name limit src =
     (if src < limit then
        (case read_byte buf src of None \<Rightarrow> None | Some x \<Rightarrow>
          if unat x \<le> MAX_DOMAIN_LABEL then
            (if x = 0 then Some (of_nat (src - name + 1)) else length_limit_loop buf name limit (src + 1 + unat x))
          else Some (of_nat (MAX_DOMAIN_NAME + 1)))
      else Some (of_nat (MAX_DOMAIN_NAME + 1)))"
  by pat_completeness auto

termination length_limit_loop
  by (relation "measure (\<lambda>(buf, name, limit, src). limit - src)") auto

definition DomainNameLengthLimit :: "bytes \<Rightarrow> nat \<Rightarrow> nat \<Rightarrow> u16 option" where
  "DomainNameLengthLimit buf name limit = length_limit_loop buf name limit name"

definition DomainNameLength :: "bytes \<Rightarrow> nat \<Rightarrow> u16 option" where
  "DomainNameLength buf name = DomainNameLengthLimit buf name (name + MAX_DOMAIN_NAME)"

definition SameDomainNameCS :: "bytes \<Rightarrow> nat \<Rightarrow> bytes \<Rightarrow> nat \<Rightarrow> bool option" where
  "SameDomainNameCS a i b j = do {
     l1 \<leftarrow> DomainNameLength a i;
     l2 \<leftarrow> DomainNameLength b j;
     if unat l1 \<le> MAX_DOMAIN_NAME \<and> l1 = l2 then do {
       x \<leftarrow> read_bytes a i (unat l1);
       y \<leftarrow> read_bytes b j (unat l1);
       Some (x = y)
     } else Some False
   }"

function compressed_length_loop :: "bytes \<Rightarrow> nat \<Rightarrow> (bytes \<times> nat) option \<Rightarrow> nat \<Rightarrow> u16 option" where
  "compressed_length_loop buf name parent src =
     (case read_byte buf src of None \<Rightarrow> None | Some x \<Rightarrow>
        if x = 0 then Some (of_nat (src - name + 1))
        else if unat x > MAX_DOMAIN_LABEL then Some (of_nat (MAX_DOMAIN_NAME + 1))
        else
          (case (case parent of None \<Rightarrow> Some False | Some (p, pi) \<Rightarrow> SameDomainName buf src p pi) of
             None \<Rightarrow> None
           | Some same \<Rightarrow>
               if same then Some (of_nat (src - name + 2))
               else if src + 1 + unat x - name \<ge> MAX_DOMAIN_NAME then Some (of_nat (MAX_DOMAIN_NAME + 1))
               else compressed_length_loop buf name parent (src + 1 + unat x)))"
  by pat_completeness auto

termination compressed_length_loop
  by (relation "measure (\<lambda>(buf, name, parent, src). length buf - src)") (auto simp: read_byte_def split: if_splits)

definition CompressedDomainNameLength :: "bytes \<Rightarrow> nat \<Rightarrow> (bytes \<times> nat) option \<Rightarrow> u16 option" where
  "CompressedDomainNameLength buf name parent = do {
     parent \<leftarrow> (case parent of
        None \<Rightarrow> Some None
      | Some (p, pi) \<Rightarrow> do { b \<leftarrow> read_byte p pi; Some (if b = 0 then None else Some (p, pi)) });
     compressed_length_loop buf name parent name
   }"

text \<open>Loops without a bound of their own end at the empty label or run out of the buffer.\<close>

function CountLabels :: "bytes \<Rightarrow> nat \<Rightarrow> int option" where
  "CountLabels buf d =
     (case read_byte buf d of None \<Rightarrow> None | Some x \<Rightarrow>
        if x = 0 then Some 0
        else (case CountLabels buf (d + unat x + 1) of None \<Rightarrow> None | Some n \<Rightarrow> Some (n + 1)))"
  by pat_completeness auto

termination CountLabels
  by (relation "measure (\<lambda>(buf, d). length buf - d)") (auto simp: read_byte_def split: if_splits)

function SkipLeadingLabels :: "bytes \<Rightarrow> nat \<Rightarrow> int \<Rightarrow> nat option" where
  "SkipLeadingLabels buf d skip =
     (if skip > 0 then
        (case read_byte buf d of None \<Rightarrow> None | Some x \<Rightarrow>
           if x = 0 then Some d else SkipLeadingLabels buf (d + 1 + unat x) (skip - 1))
      else Some d)"
  by pat_completeness auto

termination SkipLeadingLabels
  by (relation "measure (\<lambda>(buf, d, skip). nat skip)") auto

function last_label_loop :: "bytes \<Rightarrow> nat \<Rightarrow> nat \<Rightarrow> nat option" where
  "last_label_loop buf p d =
     (case read_byte buf d of None \<Rightarrow> None | Some x \<Rightarrow>
        if x = 0 then Some p else last_label_loop buf d (d + 1 + unat x))"
  by pat_completeness auto

termination last_label_loop
  by (relation "measure (\<lambda>(buf, p, d). length buf - d)") (auto simp: read_byte_def split: if_splits)

definition LastLabel :: "bytes \<Rightarrow> nat \<Rightarrow> nat option" where
  "LastLabel buf d = last_label_loop buf d d"

text \<open>The offsets of the last five labels, the last first\<close>

function last_five_loop :: "bytes \<Rightarrow> nat list \<Rightarrow> nat \<Rightarrow> nat list option" where
  "last_five_loop buf ds d =
     (case read_byte buf d of None \<Rightarrow> None | Some x \<Rightarrow>
        if x = 0 then Some ds else last_five_loop buf (take 5 (d # ds)) (d + 1 + unat x))"
  by pat_completeness auto

termination last_five_loop
  by (relation "measure (\<lambda>(buf, ds, d). length buf - d)") (auto simp: read_byte_def split: if_splits)

definition local_name :: bytes where "local_name = [5, 0x6C, 0x6F, 0x63, 0x61, 0x6C, 0]"

definition linklocal_reverse_v4 :: bytes where
  "linklocal_reverse_v4 = [3, 0x32, 0x35, 0x34, 3, 0x31, 0x36, 0x39, 7, 0x69, 0x6E, 0x2D, 0x61, 0x64, 0x64, 0x72,
     4, 0x61, 0x72, 0x70, 0x61, 0]"

definition linklocal_reverse_v6 :: "u8 \<Rightarrow> bytes" where
  "linklocal_reverse_v6 c = [1, c, 1, 0x65, 1, 0x66, 3, 0x69, 0x70, 0x36, 4, 0x61, 0x72, 0x70, 0x61, 0]"

definition name_at_is :: "bytes \<Rightarrow> nat list \<Rightarrow> nat \<Rightarrow> bytes \<Rightarrow> bool option" where
  "name_at_is buf ds k nm = (if k < length ds then SameDomainName buf (ds ! k) nm 0 else Some False)"

definition IsLocalDomain :: "bytes \<Rightarrow> nat \<Rightarrow> bool option" where
  "IsLocalDomain buf d = do {
     ds \<leftarrow> last_five_loop buf [] d;
     r1 \<leftarrow> name_at_is buf ds 0 local_name;
     if r1 then Some True
     else do {
       r2 \<leftarrow> name_at_is buf ds 3 linklocal_reverse_v4;
       if r2 then Some True
       else do {
         r8 \<leftarrow> name_at_is buf ds 4 (linklocal_reverse_v6 0x38);
         if r8 then Some True
         else do {
           r9 \<leftarrow> name_at_is buf ds 4 (linklocal_reverse_v6 0x39);
           if r9 then Some True
           else do {
             ra \<leftarrow> name_at_is buf ds 4 (linklocal_reverse_v6 0x61);
             if ra then Some True else name_at_is buf ds 4 (linklocal_reverse_v6 0x62)
           }
         }
       }
     }
   }"

declare same_name_loop.simps [simp del] length_limit_loop.simps [simp del] compressed_length_loop.simps [simp del]
  CountLabels.simps [simp del] SkipLeadingLabels.simps [simp del] last_label_loop.simps [simp del]
  last_five_loop.simps [simp del]

section \<open>Building names\<close>

text \<open>A result is the new buffer and the pointer returned, \<open>None\<close> for NULL; the name lies at offset 0.\<close>

definition AppendDomainLabel :: "bytes \<Rightarrow> bytes \<Rightarrow> nat \<Rightarrow> (bytes \<times> nat option) option" where
  "AppendDomainLabel name label l = do {
     n \<leftarrow> DomainNameLength name 0;
     let ptr = unat n - 1;
     len \<leftarrow> read_byte label l;
     if unat len > MAX_DOMAIN_LABEL then Some (name, None)
     else if ptr + 1 + unat len + 1 > MAX_DOMAIN_NAME then Some (name, None)
     else do {
       name \<leftarrow> copy_bytes (unat len + 1) name ptr label l;
       name \<leftarrow> set_byte name (ptr + unat len + 1) 0;
       Some (name, Some (ptr + unat len + 2))
     }
   }"

function append_name_loop :: "bytes \<Rightarrow> nat \<Rightarrow> bytes \<Rightarrow> nat \<Rightarrow> (bytes \<times> nat option) option" where
  "append_name_loop name ptr app src =
     (case read_byte app src of None \<Rightarrow> None | Some len \<Rightarrow>
        if len = 0 then Some (name, Some ptr)
        else if ptr + 1 + unat len > MAX_DOMAIN_NAME - 1 then Some (name, None)
        else
          (case copy_bytes (unat len + 1) name ptr app src of None \<Rightarrow> None | Some name1 \<Rightarrow>
             (case set_byte name1 (ptr + unat len + 1) 0 of None \<Rightarrow> None | Some name2 \<Rightarrow>
                append_name_loop name2 (ptr + unat len + 1) app (src + unat len + 1))))"
  by pat_completeness auto

termination append_name_loop
  by (relation "measure (\<lambda>(name, ptr, app, src). length app - src)") (auto simp: read_byte_def split: if_splits)

declare append_name_loop.simps [simp del]

definition AppendDomainName :: "bytes \<Rightarrow> bytes \<Rightarrow> nat \<Rightarrow> (bytes \<times> nat option) option" where
  "AppendDomainName name app a = do {
     n \<leftarrow> DomainNameLength name 0;
     append_name_loop name (unat n - 1) app a
   }"

end
