(* ===== verification/Dns_Message.thy ===== *)
theory Dns_Message imports Dns_Name begin

text \<open>
  DNSCommon.c: names, questions and records in DNS messages.  A \<open>DNSMessage\<close> is its memory: twelve
  bytes of header, with the counts in host (little-endian) order, then the data.  A pointer into it is an
  offset, \<open>end\<close> is called \<open>e\<close> and \<open>limit\<close> is an offset too.  A function that writes returns the new
  memory and a pointer, \<open>None\<close> for NULL.
\<close>

section \<open>Header\<close>

text \<open>Offsets of the counts\<close>

definition h_numQuestions :: nat where "h_numQuestions = 4"
definition h_numAnswers :: nat where "h_numAnswers = 6"
definition h_numAuthorities :: nat where "h_numAuthorities = 8"
definition h_numAdditionals :: nat where "h_numAdditionals = 10"

definition get_count :: "bytes \<Rightarrow> nat \<Rightarrow> u16 option" where
  "get_count msg i = do {
     lo \<leftarrow> read_byte msg i;
     hi \<leftarrow> read_byte msg (i + 1);
     Some (ucast lo OR push_bit 8 (ucast hi))
   }"

definition set_count :: "bytes \<Rightarrow> nat \<Rightarrow> u16 \<Rightarrow> bytes option" where
  "set_count msg i v = do { msg \<leftarrow> set_byte msg i (ucast v); set_byte msg (i + 1) (ucast (drop_bit 8 v)) }"

definition inc_count :: "bytes \<Rightarrow> nat \<Rightarrow> bytes option" where
  "inc_count msg i = do { v \<leftarrow> get_count msg i; set_count msg i (v + 1) }"

text \<open>\<open>id\<close> and \<open>flags\<close> are pairs of bytes.\<close>

definition InitializeDNSMessage :: "bytes \<Rightarrow> u8 \<times> u8 \<Rightarrow> u8 \<times> u8 \<Rightarrow> bytes option" where
  "InitializeDNSMessage h msgid flags = do {
     h \<leftarrow> set_byte h 0 (fst msgid);
     h \<leftarrow> set_byte h 1 (snd msgid);
     h \<leftarrow> set_byte h 2 (fst flags);
     h \<leftarrow> set_byte h 3 (snd flags);
     h \<leftarrow> set_count h h_numQuestions 0;
     h \<leftarrow> set_count h h_numAnswers 0;
     h \<leftarrow> set_count h h_numAuthorities 0;
     set_count h h_numAdditionals 0
   }"

section \<open>Compression\<close>

fun equal_bytes :: "nat \<Rightarrow> bytes \<Rightarrow> nat \<Rightarrow> bytes \<Rightarrow> nat \<Rightarrow> bool option" where
  "equal_bytes 0 a i b j = Some True"
| "equal_bytes (Suc n) a i b j = do {
     x \<leftarrow> read_byte a i;
     y \<leftarrow> read_byte b j;
     if x \<noteq> y then Some False else equal_bytes n a (Suc i) b (Suc j)
   }"

text \<open>The 14 bits of a compression pointer, then where to go on after a label at \<open>targ\<close>, if anywhere\<close>

definition pointer_offset :: "u8 \<Rightarrow> u8 \<Rightarrow> nat" where
  "pointer_offset hi lo = unat (hi AND 0x3F) * 256 + unat lo"

definition follow_pointer :: "bytes \<Rightarrow> nat \<Rightarrow> nat \<Rightarrow> u8 \<Rightarrow> (nat option) option" where
  "follow_pointer base e targ t =
     (if t < 0x40 then Some (Some targ)
      else if t < 0xC0 then Some None
      else if targ + 1 \<ge> e then Some None
      else do {
        lo \<leftarrow> read_byte base (targ + 1);
        let pointertarget = pointer_offset t lo;
        if targ < pointertarget then Some None
        else do {
          b \<leftarrow> read_byte base pointertarget;
          Some (if b \<ge> 0x40 then None else Some pointertarget)
        }
      })"

text \<open>The inner loop: do the labels of the name from \<open>np\<close> on lie at \<open>targ\<close>?\<close>

function match_labels :: "bytes \<Rightarrow> nat \<Rightarrow> bytes \<Rightarrow> nat \<Rightarrow> nat \<Rightarrow> bool option" where
  "match_labels base e name np targ =
     (case read_byte name np of None \<Rightarrow> None | Some len \<Rightarrow>
        if targ + unat len < e then
          (case equal_bytes (unat len + 1) base targ name np of
             None \<Rightarrow> None
           | Some same \<Rightarrow>
               if \<not> same then Some False
               else
                 (case read_byte name (np + 1 + unat len) of None \<Rightarrow> None | Some n \<Rightarrow>
                   (case read_byte base (targ + 1 + unat len) of None \<Rightarrow> None | Some t \<Rightarrow>
                     if n = 0 \<and> t = 0 then Some True
                     else if n = 0 then Some False
                     else
                       (case follow_pointer base e (targ + 1 + unat len) t of
                          None \<Rightarrow> None
                        | Some None \<Rightarrow> Some False
                        | Some (Some targ1) \<Rightarrow> match_labels base e name (np + 1 + unat len) targ1))))
        else Some False)"
  by pat_completeness auto

termination match_labels
  by (relation "measure (\<lambda>(base, e, name, np, targ). length name - np)") (auto simp: read_byte_def split: if_splits)

declare match_labels.simps [simp del]

text \<open>The outer loop, from position \<open>k - 1\<close> down\<close>

fun find_from :: "nat \<Rightarrow> bytes \<Rightarrow> nat \<Rightarrow> bytes \<Rightarrow> nat \<Rightarrow> (nat option) option" where
  "find_from 0 base e domname d = Some None"
| "find_from (Suc r) base e domname d = do {
     r0 \<leftarrow> read_byte base r;
     d0 \<leftarrow> read_byte domname d;
     hit \<leftarrow> (if r0 = d0 then do {
          r1 \<leftarrow> read_byte base (r + 1);
          d1 \<leftarrow> read_byte domname (d + 1);
          if r1 = d1 then match_labels base e domname d r else Some False
        } else Some False);
     if hit then Some (Some r) else find_from r base e domname d
   }"

text \<open>The search starts at \<open>end - *domname - 1\<close>, which may lie before \<open>base\<close>.\<close>

definition FindCompressionPointer :: "bytes \<Rightarrow> nat \<Rightarrow> bytes \<Rightarrow> nat \<Rightarrow> (nat option) option" where
  "FindCompressionPointer base e domname d = do {
     len \<leftarrow> read_byte domname d;
     if len = 0 then Some None else find_from (e - unat len) base e domname d
   }"

section \<open>Writing\<close>

text \<open>
  The loop over the labels of the name from \<open>np\<close> on; \<open>compress\<close> tells whether \<open>msg\<close> was given,
  \<open>start\<close> is where the name starts.  The name's array has 256 bytes.
\<close>

function put_labels :: "bool \<Rightarrow> nat \<Rightarrow> bytes \<Rightarrow> nat \<Rightarrow> nat \<Rightarrow> bytes \<Rightarrow> nat \<Rightarrow> nat \<Rightarrow> (bytes \<times> nat option) option" where
  "put_labels compress start msg ptr limit name np m =
     (case read_byte name np of None \<Rightarrow> None | Some len \<Rightarrow>
        if unat len > MAX_DOMAIN_LABEL then Some (msg, None)
        else if np + 1 + unat len \<ge> m then Some (msg, None)
        else
          (case (if compress then FindCompressionPointer msg start name np else Some None) of
             None \<Rightarrow> None
           | Some (Some p) \<Rightarrow>
               if ptr + 2 > limit then Some (msg, None)
               else do {
                 msg \<leftarrow> set_byte msg ptr (0xC0 OR ucast (drop_bit 8 (of_nat p :: u16)));
                 msg \<leftarrow> set_byte msg (ptr + 1) (ucast ((of_nat p :: u16) AND 0xFF));
                 Some (msg, Some (ptr + 2))
               }
           | Some None \<Rightarrow>
               if ptr + 1 + unat len \<ge> limit then Some (msg, None)
               else
                 (case copy_bytes (unat len + 1) msg ptr name np of None \<Rightarrow> None | Some msg1 \<Rightarrow>
                   (case read_byte name (np + 1 + unat len) of None \<Rightarrow> None | Some nx \<Rightarrow>
                     if nx \<noteq> 0
                     then put_labels compress start msg1 (ptr + 1 + unat len) limit name (np + 1 + unat len) m
                     else do {
                       msg2 \<leftarrow> set_byte msg1 (ptr + 1 + unat len) 0;
                       Some (msg2, Some (ptr + 1 + unat len + 1))
                     }))))"
  by pat_completeness auto

termination put_labels
  by (relation "measure (\<lambda>(compress, start, msg, ptr, limit, name, np, m). length name - np)")
    (auto simp: read_byte_def split: if_splits)

declare put_labels.simps [simp del]

definition putDomainNameAsLabels :: "bool \<Rightarrow> bytes \<Rightarrow> nat option \<Rightarrow> nat \<Rightarrow> bytes \<Rightarrow> (bytes \<times> nat option) option" where
  "putDomainNameAsLabels compress msg ptr limit name =
     (case ptr of
        None \<Rightarrow> Some (msg, None)
      | Some ptr \<Rightarrow> do {
          b \<leftarrow> read_byte name 0;
          if b = 0 then
            if ptr \<ge> limit then Some (msg, None)
            else do { msg \<leftarrow> set_byte msg ptr 0; Some (msg, Some (ptr + 1)) }
          else put_labels compress ptr msg ptr limit name 0 MAX_DOMAIN_NAME
        })"

definition putVal16 :: "bytes \<Rightarrow> nat \<Rightarrow> u16 \<Rightarrow> (bytes \<times> nat) option" where
  "putVal16 msg ptr val = do {
     msg \<leftarrow> set_byte msg ptr (ucast (drop_bit 8 val AND 0xFF));
     msg \<leftarrow> set_byte msg (ptr + 1) (ucast (val AND 0xFF));
     Some (msg, ptr + 2)
   }"

definition putVal32 :: "bytes \<Rightarrow> nat \<Rightarrow> u32 \<Rightarrow> (bytes \<times> nat) option" where
  "putVal32 msg ptr val = do {
     msg \<leftarrow> set_byte msg ptr (ucast (drop_bit 24 val AND 0xFF));
     msg \<leftarrow> set_byte msg (ptr + 1) (ucast (drop_bit 16 val AND 0xFF));
     msg \<leftarrow> set_byte msg (ptr + 2) (ucast (drop_bit 8 val AND 0xFF));
     msg \<leftarrow> set_byte msg (ptr + 3) (ucast (val AND 0xFF));
     Some (msg, ptr + 4)
   }"

text \<open>Type and class, then the two zero fields of an empty record\<close>

definition put_type_class :: "bytes \<Rightarrow> nat \<Rightarrow> u16 \<Rightarrow> u16 \<Rightarrow> bytes option" where
  "put_type_class msg ptr rrtype rrclass = do {
     (msg, ptr) \<leftarrow> putVal16 msg ptr rrtype;
     (msg, ptr) \<leftarrow> putVal16 msg ptr rrclass;
     Some msg
   }"

definition put_zero_ttl_rdlength :: "bytes \<Rightarrow> nat \<Rightarrow> bytes option" where
  "put_zero_ttl_rdlength msg ptr = do {
     (msg, ptr) \<leftarrow> putVal32 msg ptr 0;
     (msg, ptr) \<leftarrow> putVal16 msg ptr 0;
     Some msg
   }"

definition putEmptyResourceRecord ::
  "bytes \<Rightarrow> nat option \<Rightarrow> nat \<Rightarrow> nat \<Rightarrow> bytes \<Rightarrow> u16 \<Rightarrow> u16 \<Rightarrow> (bytes \<times> nat option) option" where
  "putEmptyResourceRecord msg ptr limit count name rrtype rrclass = do {
     (msg, r) \<leftarrow> putDomainNameAsLabels True msg ptr limit name;
     (case r of
        None \<Rightarrow> Some (msg, None)
      | Some ptr \<Rightarrow>
          if ptr + 10 > limit then Some (msg, None)
          else do {
            msg \<leftarrow> put_type_class msg ptr rrtype rrclass;
            msg \<leftarrow> put_zero_ttl_rdlength msg (ptr + 4);
            msg \<leftarrow> inc_count msg count;
            Some (msg, Some (ptr + 10))
          })
   }"

definition putQuestion :: "bytes \<Rightarrow> nat option \<Rightarrow> nat \<Rightarrow> bytes \<Rightarrow> u16 \<Rightarrow> u16 \<Rightarrow> (bytes \<times> nat option) option" where
  "putQuestion msg ptr limit name rrtype rrclass = do {
     (msg, r) \<leftarrow> putDomainNameAsLabels True msg ptr limit name;
     (case r of
        None \<Rightarrow> Some (msg, None)
      | Some ptr \<Rightarrow>
          if ptr + 4 \<ge> limit then Some (msg, None)
          else do {
            msg \<leftarrow> put_type_class msg ptr rrtype rrclass;
            msg \<leftarrow> inc_count msg h_numQuestions;
            Some (msg, Some (ptr + 4))
          })
   }"

text \<open>In an update message the first count is that of the zones and the third that of the updates.\<close>

definition putZone :: "bytes \<Rightarrow> nat option \<Rightarrow> nat \<Rightarrow> bytes \<Rightarrow> u8 \<times> u8 \<Rightarrow> (bytes \<times> nat option) option" where
  "putZone msg ptr limit zone zoneClass = do {
     (msg, r) \<leftarrow> putDomainNameAsLabels True msg ptr limit zone;
     (case r of
        None \<Rightarrow> Some (msg, None)
      | Some ptr \<Rightarrow>
          if ptr + 4 > limit then Some (msg, None)
          else do {
            (msg, ptr) \<leftarrow> putVal16 msg ptr 6;
            msg \<leftarrow> set_byte msg ptr (fst zoneClass);
            msg \<leftarrow> set_byte msg (ptr + 1) (snd zoneClass);
            msg \<leftarrow> inc_count msg h_numQuestions;
            Some (msg, Some (ptr + 2))
          })
   }"

definition putDeleteRRSetWithLimit :: "bytes \<Rightarrow> nat option \<Rightarrow> bytes \<Rightarrow> u16 \<Rightarrow> nat \<Rightarrow> (bytes \<times> nat option) option" where
  "putDeleteRRSetWithLimit msg ptr name rrtype limit = do {
     (msg, r) \<leftarrow> putDomainNameAsLabels True msg ptr limit name;
     (case r of
        None \<Rightarrow> Some (msg, None)
      | Some ptr \<Rightarrow>
          if ptr + 10 \<ge> limit then Some (msg, None)
          else do {
            msg \<leftarrow> put_type_class msg ptr rrtype 255;
            msg \<leftarrow> put_zero_ttl_rdlength msg (ptr + 4);
            msg \<leftarrow> inc_count msg h_numAuthorities;
            Some (msg, Some (ptr + 10))
          })
   }"

definition AbsoluteMaxDNSMessageData :: nat where "AbsoluteMaxDNSMessageData = 8940"

definition putDeleteAllRRSets :: "bytes \<Rightarrow> nat option \<Rightarrow> bytes \<Rightarrow> (bytes \<times> nat option) option" where
  "putDeleteAllRRSets msg ptr name = do {
     let limit = 12 + AbsoluteMaxDNSMessageData;
     (msg, r) \<leftarrow> putDomainNameAsLabels True msg ptr limit name;
     (case r of
        None \<Rightarrow> Some (msg, None)
      | Some ptr \<Rightarrow>
          if ptr + 10 \<ge> limit then Some (msg, None)
          else do {
            msg \<leftarrow> put_type_class msg ptr 255 255;
            msg \<leftarrow> put_zero_ttl_rdlength msg (ptr + 4);
            msg \<leftarrow> inc_count msg h_numAuthorities;
            Some (msg, Some (ptr + 10))
          })
   }"

end
