(* ===== verification/Dns_Parse.thy ===== *)
theory Dns_Parse imports Dns_Message begin

text \<open>
  DNSCommon.c: reading names, questions and records of a message, for any bytes a message may hold.
  \<open>e\<close> is the offset where the received message ends.  A pointer is an offset or NULL (\<open>None\<close>).
\<close>

section \<open>Hash\<close>

definition hash_pair :: "u8 \<Rightarrow> u8 \<Rightarrow> u32" where
  "hash_pair c0 c1 = push_bit 8 (ucast (fold_case c0)) OR ucast (fold_case c1)"

function hash_name_loop :: "bytes \<Rightarrow> nat \<Rightarrow> u32 \<Rightarrow> u32 option" where
  "hash_name_loop name c acc =
     (case read_byte name c of None \<Rightarrow> None | Some c0 \<Rightarrow>
        if c0 = 0 then Some acc
        else
          (case read_byte name (c + 1) of None \<Rightarrow> None | Some c1 \<Rightarrow>
             if c1 = 0 then Some (acc + push_bit 8 (ucast (fold_case c0)))
             else (let s = acc + hash_pair c0 c1
                   in hash_name_loop name (c + 2) (push_bit 3 s OR drop_bit 29 s))))"
  by pat_completeness auto

termination hash_name_loop
  by (relation "measure (\<lambda>(name, c, acc). length name - c)") (auto simp: read_byte_def split: if_splits)

declare hash_name_loop.simps [simp del]

definition DomainNameHashValue :: "bytes \<Rightarrow> nat \<Rightarrow> u32 option" where
  "DomainNameHashValue name c = hash_name_loop name c 0"

section \<open>Names\<close>

function skip_name_loop :: "bytes \<Rightarrow> nat \<Rightarrow> nat \<Rightarrow> nat \<Rightarrow> (nat option) option" where
  "skip_name_loop msg ptr e tot =
     (case read_byte msg ptr of None \<Rightarrow> None | Some len \<Rightarrow>
        if len = 0 then Some (Some (ptr + 1))
        else if len AND 0xC0 = 0 then
          if ptr + 1 + unat len \<ge> e then Some None
          else if tot + 1 + unat len \<ge> MAX_DOMAIN_NAME then Some None
          else skip_name_loop msg (ptr + 1 + unat len) e (tot + 1 + unat len)
        else if len AND 0xC0 = 0x40 \<or> len AND 0xC0 = 0x80 then Some None
        else Some (Some (ptr + 2)))"
  by pat_completeness auto

termination skip_name_loop
  by (relation "measure (\<lambda>(msg, ptr, e, tot). length msg - ptr)") (auto simp: read_byte_def split: if_splits)

declare skip_name_loop.simps [simp del]

definition skipDomainName :: "bytes \<Rightarrow> nat option \<Rightarrow> nat \<Rightarrow> (nat option) option" where
  "skipDomainName msg ptr e =
     (case ptr of None \<Rightarrow> Some None | Some p \<Rightarrow> if p \<ge> e then Some None else skip_name_loop msg p e 0)"

text \<open>
  \<open>getDomainName\<close> writes the name found into the array \<open>name\<close> and follows compression pointers, each of
  which must lead to a label or to the end of a name; \<open>nextbyte\<close> is the position behind the first one.
  Every round but the pointers lengthens the name, which ends at 256 bytes.
\<close>

function get_name_loop :: "bytes \<Rightarrow> nat \<Rightarrow> nat \<Rightarrow> bytes \<Rightarrow> nat \<Rightarrow> nat option \<Rightarrow> (bytes \<times> nat option) option" where
  "get_name_loop msg ptr e name np nextbyte =
     (case read_byte msg ptr of None \<Rightarrow> None | Some len \<Rightarrow>
        if len = 0 then Some (name, Some (case nextbyte of None \<Rightarrow> ptr + 1 | Some n \<Rightarrow> n))
        else if len AND 0xC0 = 0 then
          if ptr + 1 + unat len \<ge> e then Some (name, None)
          else if np + 1 + unat len \<ge> MAX_DOMAIN_NAME then Some (name, None)
          else
            (case copy_bytes (unat len + 1) name np msg ptr of None \<Rightarrow> None | Some name1 \<Rightarrow>
              (case set_byte name1 (np + 1 + unat len) 0 of None \<Rightarrow> None | Some name2 \<Rightarrow>
                 get_name_loop msg (ptr + 1 + unat len) e name2 (np + 1 + unat len) nextbyte))
        else if len AND 0xC0 = 0x40 \<or> len AND 0xC0 = 0x80 then Some (name, None)
        else
          (case read_byte msg (ptr + 1) of None \<Rightarrow> None | Some lo \<Rightarrow>
             if pointer_offset len lo \<ge> e then Some (name, None)
             else
               (case read_byte msg (pointer_offset len lo) of None \<Rightarrow> None | Some t \<Rightarrow>
                  if t AND 0xC0 \<noteq> 0 then Some (name, None)
                  else get_name_loop msg (pointer_offset len lo) e name np
                         (case nextbyte of None \<Rightarrow> Some (ptr + 2) | Some n \<Rightarrow> Some n))))"
  by pat_completeness auto

termination get_name_loop
proof (relation "measure (\<lambda>(msg, ptr, e, name, np, nextbyte).
    2 * (MAX_DOMAIN_NAME - np) + (if read_byte msg ptr = None then 0 else if the (read_byte msg ptr) AND 0xC0 = 0 then 0 else 1))",
    goal_cases)
  case 1
  show ?case by simp
next
  case (2 msg ptr e name np nextbyte len name1 name2)
  have "0 < unat len" using 2 by (simp add: unat_gt_0)
  then show ?case using 2 by auto
next
  case (3 msg ptr e name np nextbyte len lo t)
  then show ?case by auto
qed

declare get_name_loop.simps [simp del]

definition getDomainName :: "bytes \<Rightarrow> nat option \<Rightarrow> nat \<Rightarrow> bytes \<Rightarrow> (bytes \<times> nat option) option" where
  "getDomainName msg ptr e name =
     (case ptr of
        None \<Rightarrow> Some (name, None)
      | Some p \<Rightarrow>
          if p \<ge> e then Some (name, None)
          else do { name \<leftarrow> set_byte name 0 0; get_name_loop msg p e name 0 None })"

section \<open>Records and questions\<close>

definition get_val16 :: "bytes \<Rightarrow> nat \<Rightarrow> u16 option" where
  "get_val16 msg ptr = do {
     hi \<leftarrow> read_byte msg ptr;
     lo \<leftarrow> read_byte msg (ptr + 1);
     Some (push_bit 8 (ucast hi) OR ucast lo)
   }"

definition skipResourceRecord :: "bytes \<Rightarrow> nat option \<Rightarrow> nat \<Rightarrow> (nat option) option" where
  "skipResourceRecord msg ptr e = do {
     r \<leftarrow> skipDomainName msg ptr e;
     (case r of
        None \<Rightarrow> Some None
      | Some ptr \<Rightarrow>
          if ptr + 10 > e then Some None
          else do {
            pktrdlength \<leftarrow> get_val16 msg (ptr + 8);
            Some (if ptr + 10 + unat pktrdlength > e then None else Some (ptr + 10 + unat pktrdlength))
          })
   }"

definition skipQuestion :: "bytes \<Rightarrow> nat option \<Rightarrow> nat \<Rightarrow> (nat option) option" where
  "skipQuestion msg ptr e = do {
     r \<leftarrow> skipDomainName msg ptr e;
     (case r of None \<Rightarrow> Some None | Some ptr \<Rightarrow> Some (if ptr + 4 > e then None else Some (ptr + 4)))
   }"

text \<open>The fields of \<open>DNSQuestion\<close> that the parser sets; the others are zero.\<close>

record dns_question =
  q_InterfaceID :: u64
  q_TargetQID :: "u8 \<times> u8"
  q_qname :: bytes
  q_qnamehash :: u32
  q_qtype :: u16
  q_qclass :: u16

definition zero_question :: dns_question where
  "zero_question = \<lparr>q_InterfaceID = 0, q_TargetQID = (0, 0), q_qname = replicate MAX_DOMAIN_NAME 0,
     q_qnamehash = 0, q_qtype = 0, q_qclass = 0\<rparr>"

definition getQuestion :: "bytes \<Rightarrow> nat option \<Rightarrow> nat \<Rightarrow> u64 \<Rightarrow> (dns_question \<times> nat option) option" where
  "getQuestion msg ptr e InterfaceID = do {
     let q = zero_question\<lparr>q_InterfaceID := InterfaceID\<rparr>;
     let q = (if InterfaceID = 0 then q\<lparr>q_TargetQID := (255, 255)\<rparr> else q);
     (nm, r) \<leftarrow> getDomainName msg ptr e (q_qname q);
     let q = q\<lparr>q_qname := nm\<rparr>;
     (case r of
        None \<Rightarrow> Some (q, None)
      | Some ptr \<Rightarrow>
          if ptr + 4 > e then Some (q, None)
          else do {
            h \<leftarrow> DomainNameHashValue nm 0;
            t \<leftarrow> get_val16 msg ptr;
            c \<leftarrow> get_val16 msg (ptr + 2);
            Some (q\<lparr>q_qnamehash := h, q_qtype := t, q_qclass := c\<rparr>, Some (ptr + 4))
          })
   }"

section \<open>Sections of a message\<close>

fun skip_questions :: "nat \<Rightarrow> bytes \<Rightarrow> nat option \<Rightarrow> nat \<Rightarrow> (nat option) option" where
  "skip_questions 0 msg ptr e = Some ptr"
| "skip_questions (Suc n) msg ptr e =
     (if ptr = None then Some ptr else do { ptr \<leftarrow> skipQuestion msg ptr e; skip_questions n msg ptr e })"

fun skip_records :: "nat \<Rightarrow> bytes \<Rightarrow> nat option \<Rightarrow> nat \<Rightarrow> (nat option) option" where
  "skip_records 0 msg ptr e = Some ptr"
| "skip_records (Suc n) msg ptr e =
     (if ptr = None then Some ptr else do { ptr \<leftarrow> skipResourceRecord msg ptr e; skip_records n msg ptr e })"

definition LocateAnswers :: "bytes \<Rightarrow> nat \<Rightarrow> (nat option) option" where
  "LocateAnswers msg e = do { n \<leftarrow> get_count msg h_numQuestions; skip_questions (unat n) msg (Some 12) e }"

definition LocateAuthorities :: "bytes \<Rightarrow> nat \<Rightarrow> (nat option) option" where
  "LocateAuthorities msg e = do {
     ptr \<leftarrow> LocateAnswers msg e;
     n \<leftarrow> get_count msg h_numAnswers;
     skip_records (unat n) msg ptr e
   }"

text \<open>This loop goes on with a NULL pointer, which \<open>skipResourceRecord\<close> returns as it is.\<close>

fun skip_all_records :: "nat \<Rightarrow> bytes \<Rightarrow> nat option \<Rightarrow> nat \<Rightarrow> (nat option) option" where
  "skip_all_records 0 msg ptr e = Some ptr"
| "skip_all_records (Suc n) msg ptr e = do { ptr \<leftarrow> skipResourceRecord msg ptr e; skip_all_records n msg ptr e }"

definition LocateAdditionals :: "bytes \<Rightarrow> nat \<Rightarrow> (nat option) option" where
  "LocateAdditionals msg e = do {
     ptr \<leftarrow> LocateAuthorities msg e;
     n \<leftarrow> get_count msg h_numAuthorities;
     skip_all_records (unat n) msg ptr e
   }"

text \<open>Whether the record at \<open>ptr\<close> is an OPT record with at least \<open>minsize\<close> bytes of data\<close>

definition is_opt_record :: "bytes \<Rightarrow> nat \<Rightarrow> nat \<Rightarrow> nat \<Rightarrow> bool option" where
  "is_opt_record msg ptr e minsize =
     (if ptr + 11 + minsize \<le> e then do {
        b0 \<leftarrow> read_byte msg ptr;
        if b0 \<noteq> 0 then Some False
        else do {
          t \<leftarrow> get_val16 msg (ptr + 1);
          if t \<noteq> 41 then Some False
          else do { n \<leftarrow> get_val16 msg (ptr + 9); Some (unat n \<ge> minsize) }
        }
      } else Some False)"

fun locate_opt :: "nat \<Rightarrow> bytes \<Rightarrow> nat option \<Rightarrow> nat \<Rightarrow> nat \<Rightarrow> (nat option) option" where
  "locate_opt 0 msg ptr e minsize = Some None"
| "locate_opt (Suc n) msg ptr e minsize =
     (case ptr of
        None \<Rightarrow> Some None
      | Some p \<Rightarrow> do {
          found \<leftarrow> is_opt_record msg p e minsize;
          if found then Some (Some p)
          else do { ptr \<leftarrow> skipResourceRecord msg ptr e; locate_opt n msg ptr e minsize }
        })"

definition LocateOptRR :: "bytes \<Rightarrow> nat \<Rightarrow> nat \<Rightarrow> (nat option) option" where
  "LocateOptRR msg e minsize = do {
     ptr \<leftarrow> LocateAdditionals msg e;
     n \<leftarrow> get_count msg h_numAdditionals;
     locate_opt (unat n) msg ptr e minsize
   }"

end
