(* ===== verification/Dns_Text.thy ===== *)
theory Dns_Text imports Dns_Name begin

text \<open>
  DNSCommon.c: names and labels from and to C strings.  A C string that is read is a buffer with its
  terminating zero and an offset; a \<open>domainname\<close> that is written is its array of 256 bytes, a
  \<open>domainlabel\<close> its array of 64.
\<close>

section \<open>From strings\<close>

text \<open>\<open>while (*cstr && ptr < lim) *ptr++ = *cstr++\<close>\<close>

function copy_text :: "bytes \<Rightarrow> nat \<Rightarrow> nat \<Rightarrow> bytes \<Rightarrow> nat \<Rightarrow> (bytes \<times> nat \<times> nat) option" where
  "copy_text dst ptr lim str k =
     (case read_byte str k of None \<Rightarrow> None | Some c \<Rightarrow>
        if c \<noteq> 0 \<and> ptr < lim then
          (case set_byte dst ptr c of None \<Rightarrow> None | Some dst1 \<Rightarrow> copy_text dst1 (Suc ptr) lim str (Suc k))
        else Some (dst, ptr, k))"
  by pat_completeness auto

termination copy_text
  by (relation "measure (\<lambda>(dst, ptr, lim, str, k). lim - ptr)") auto

declare copy_text.simps [simp del]

definition AppendLiteralLabelString :: "bytes \<Rightarrow> bytes \<Rightarrow> nat \<Rightarrow> (bytes \<times> nat option) option" where
  "AppendLiteralLabelString name cstr k = do {
     n \<leftarrow> DomainNameLength name 0;
     let ptr = unat n - 1;
     let lim1 = MAX_DOMAIN_NAME - 1;
     let lim2 = ptr + 1 + MAX_DOMAIN_LABEL;
     let lim = (if lim1 < lim2 then lim1 else lim2);
     let lengthbyte = ptr;
     (name, ptr, k) \<leftarrow> copy_text name (Suc ptr) lim cstr k;
     name \<leftarrow> set_byte name lengthbyte (of_nat (ptr - lengthbyte - 1));
     name \<leftarrow> set_byte name ptr 0;
     c \<leftarrow> read_byte cstr k;
     Some (name, if c \<noteq> 0 then None else Some (Suc ptr))
   }"

text \<open>The character behind a backslash: three decimal digits of a value up to 255, or the character itself\<close>

definition read_escape :: "bytes \<Rightarrow> nat \<Rightarrow> (u8 \<times> nat) option" where
  "read_escape str k = do {
     c \<leftarrow> read_byte str k;
     let k = Suc k;
     if mDNSIsDigit c then do {
       d1 \<leftarrow> read_byte str k;
       if mDNSIsDigit d1 then do {
         d2 \<leftarrow> read_byte str (Suc k);
         if mDNSIsDigit d2 then
           (let val = (unat c - 0x30) * 100 + (unat d1 - 0x30) * 10 + (unat d2 - 0x30)
            in if val \<le> 255 then Some (of_nat val, k + 2) else Some (c, k))
         else Some (c, k)
       } else Some (c, k)
     } else Some (c, k)
   }"

text \<open>The inner loop: the characters of one label\<close>

function label_text_loop :: "bytes \<Rightarrow> nat \<Rightarrow> nat \<Rightarrow> bytes \<Rightarrow> nat \<Rightarrow> (bytes \<times> nat \<times> nat) option" where
  "label_text_loop name ptr lim str k =
     (case read_byte str k of None \<Rightarrow> None | Some c \<Rightarrow>
        if c \<noteq> 0 \<and> c \<noteq> 0x2E \<and> ptr < lim then
          (case (if c = 0x5C then read_escape str (Suc k) else Some (c, Suc k)) of None \<Rightarrow> None | Some (c1, k1) \<Rightarrow>
             (case set_byte name ptr c1 of None \<Rightarrow> None | Some name1 \<Rightarrow>
                label_text_loop name1 (Suc ptr) lim str k1))
        else Some (name, ptr, k))"
  by pat_completeness auto

termination label_text_loop
  by (relation "measure (\<lambda>(name, ptr, lim, str, k). lim - ptr)") auto

declare label_text_loop.simps [simp del]

text \<open>The outer loop returns where it stopped, or no position for a label that is empty or too long.\<close>

definition label_text :: "bytes \<Rightarrow> nat \<Rightarrow> nat \<Rightarrow> bytes \<Rightarrow> nat \<Rightarrow> (bytes \<times> (nat \<times> nat) option) option" where
  "label_text name lengthbyte lim str k = do {
     c \<leftarrow> read_byte str k;
     if c = 0x2E then Some (name, None)
     else do {
       (name, ptr, k) \<leftarrow> label_text_loop name (Suc lengthbyte) lim str k;
       c \<leftarrow> read_byte str k;
       let k = (if c \<noteq> 0 then Suc k else k);
       if ptr - lengthbyte - 1 > MAX_DOMAIN_LABEL then Some (name, None)
       else do {
         name \<leftarrow> set_byte name lengthbyte (of_nat (ptr - lengthbyte - 1));
         Some (name, Some (ptr, k))
       }
     }
   }"

lemma label_text_loop_ptr: "label_text_loop name ptr lim str k = Some (name', ptr', k') \<Longrightarrow> ptr \<le> ptr'"
proof (induction name ptr lim str k rule: label_text_loop.induct)
  case (1 name ptr lim str k)
  then show ?case
    using label_text_loop.simps [of name ptr lim str k] by (fastforce split: option.splits if_splits prod.splits)
qed

lemma label_text_ptr: "label_text name p lim str k = Some (name', Some (ptr', k')) \<Longrightarrow> p < ptr'"
  by (auto simp: label_text_def Let_def split: if_splits dest!: label_text_loop_ptr)

function names_text_loop :: "bytes \<Rightarrow> nat \<Rightarrow> nat \<Rightarrow> bytes \<Rightarrow> nat \<Rightarrow> (bytes \<times> (nat \<times> nat) option) option" where
  "names_text_loop name ptr lim str k =
     (case read_byte str k of None \<Rightarrow> None | Some c \<Rightarrow>
        if c \<noteq> 0 \<and> ptr < lim then
          (case label_text name ptr lim str k of
             None \<Rightarrow> None
           | Some (name1, None) \<Rightarrow> Some (name1, None)
           | Some (name1, Some (ptr1, k1)) \<Rightarrow> names_text_loop name1 ptr1 lim str k1)
        else Some (name, Some (ptr, k)))"
  by pat_completeness auto

termination names_text_loop
  by (relation "measure (\<lambda>(name, ptr, lim, str, k). lim - ptr)") (auto dest: label_text_ptr)

declare names_text_loop.simps [simp del]

definition AppendDNSNameString :: "bytes \<Rightarrow> bytes \<Rightarrow> nat \<Rightarrow> (bytes \<times> nat option) option" where
  "AppendDNSNameString name cstring k = do {
     n \<leftarrow> DomainNameLength name 0;
     (name, r) \<leftarrow> names_text_loop name (unat n - 1) (MAX_DOMAIN_NAME - 1) cstring k;
     (case r of
        None \<Rightarrow> Some (name, None)
      | Some (ptr, k) \<Rightarrow> do {
          name \<leftarrow> set_byte name ptr 0;
          c \<leftarrow> read_byte cstring k;
          Some (name, if c \<noteq> 0 then None else Some (Suc ptr))
        })
   }"

definition MakeDomainLabelFromLiteralString :: "bytes \<Rightarrow> bytes \<Rightarrow> nat \<Rightarrow> (bytes \<times> bool) option" where
  "MakeDomainLabelFromLiteralString label cstr k = do {
     (label, ptr, k) \<leftarrow> copy_text label 1 (1 + MAX_DOMAIN_LABEL) cstr k;
     label \<leftarrow> set_byte label 0 (of_nat (ptr - 1));
     c \<leftarrow> read_byte cstr k;
     Some (label, c = 0)
   }"

definition MakeDomainNameFromDNSNameString :: "bytes \<Rightarrow> bytes \<Rightarrow> nat \<Rightarrow> (bytes \<times> nat option) option" where
  "MakeDomainNameFromDNSNameString name cstr k = do {
     name \<leftarrow> set_byte name 0 0;
     AppendDNSNameString name cstr k
   }"

section \<open>To strings\<close>

text \<open>
  The characters written from \<open>ptr\<close> on without the terminating zero; \<open>Some None\<close> is the result NULL.
  The escape character is ASCII, so that its \<open>char\<close> compares equal to a byte.
\<close>

definition escape_char :: "u8 \<Rightarrow> u8 \<Rightarrow> bytes" where
  "escape_char esc c =
     (if esc \<noteq> 0 then
        if c = 0x2E \<or> c = esc then [esc, c]
        else if c \<le> 0x20 then [esc, 0x30 + c div 100, 0x30 + (c div 10) mod 10, 0x30 + c mod 10]
        else [c]
      else [c])"

definition ConvertDomainLabelToCString_withescape :: "bytes \<Rightarrow> nat \<Rightarrow> u8 \<Rightarrow> bytes option option" where
  "ConvertDomainLabelToCString_withescape label l esc = do {
     len \<leftarrow> read_byte label l;
     if unat len > MAX_DOMAIN_LABEL then Some None
     else do {
       src \<leftarrow> read_bytes label (Suc l) (unat len);
       Some (Some (concat (map (escape_char esc) src)))
     }
   }"

function name_to_text_loop :: "bytes \<Rightarrow> nat \<Rightarrow> nat \<Rightarrow> u8 \<Rightarrow> bytes option option" where
  "name_to_text_loop name src m esc =
     (case read_byte name src of None \<Rightarrow> None | Some len \<Rightarrow>
        if len = 0 then Some (Some [])
        else if src + 1 + unat len \<ge> m then Some None
        else
          (case ConvertDomainLabelToCString_withescape name src esc of
             None \<Rightarrow> None
           | Some None \<Rightarrow> Some None
           | Some (Some s) \<Rightarrow>
               (case name_to_text_loop name (src + 1 + unat len) m esc of
                  None \<Rightarrow> None
                | Some None \<Rightarrow> Some None
                | Some (Some t) \<Rightarrow> Some (Some (s @ [0x2E] @ t)))))"
  by pat_completeness auto

termination name_to_text_loop
  by (relation "measure (\<lambda>(name, src, m, esc). m - src)") auto

declare name_to_text_loop.simps [simp del]

definition ConvertDomainNameToCString_withescape :: "bytes \<Rightarrow> nat \<Rightarrow> u8 \<Rightarrow> bytes option option" where
  "ConvertDomainNameToCString_withescape name n esc = do {
     c \<leftarrow> read_byte name n;
     if c = 0 then Some (Some [0x2E]) else name_to_text_loop name n (n + MAX_DOMAIN_NAME) esc
   }"

section \<open>Host labels\<close>

definition mDNSValidHostChar :: "u8 \<Rightarrow> bool \<Rightarrow> bool \<Rightarrow> bool" where
  "mDNSValidHostChar x notfirst notlast \<longleftrightarrow> mDNSIsLetter x \<or> mDNSIsDigit x \<or> (notfirst \<and> notlast \<and> x = 0x2D)"

text \<open>\<open>src + 2 < end\<close> and the three bytes of a curly apostrophe\<close>

definition curly_apostrophe :: "bytes \<Rightarrow> nat \<Rightarrow> nat \<Rightarrow> bool" where
  "curly_apostrophe s src e \<longleftrightarrow> src + 2 < e \<and> s ! src = 0xE2 \<and> s ! (src + 1) = 0x80 \<and> s ! (src + 2) = 0x99"

function host_label_loop :: "bytes \<Rightarrow> nat \<Rightarrow> nat \<Rightarrow> bytes \<Rightarrow> nat \<Rightarrow> (bytes \<times> nat) option" where
  "host_label_loop s src e label ptr =
     (if src < e then
        if e > length s then None
        else if s ! src = 0x27 then host_label_loop s (src + 1) e label ptr
        else if curly_apostrophe s src e then host_label_loop s (src + 3) e label ptr
        else if ptr < 1 + MAX_DOMAIN_LABEL then
          if mDNSValidHostChar (s ! src) (ptr > 1) (src < e - 1)
          then (case set_byte label ptr (s ! src) of None \<Rightarrow> None | Some label1 \<Rightarrow>
                  host_label_loop s (src + 1) e label1 (Suc ptr))
          else if ptr > 1 \<and> label ! (ptr - 1) \<noteq> 0x2D
          then (case set_byte label ptr 0x2D of None \<Rightarrow> None | Some label1 \<Rightarrow>
                  host_label_loop s (src + 1) e label1 (Suc ptr))
          else host_label_loop s (src + 1) e label ptr
        else host_label_loop s (src + 1) e label ptr
      else Some (label, ptr))"
  by pat_completeness auto

termination host_label_loop
  by (relation "measure (\<lambda>(s, src, e, label, ptr). e - src)") (auto simp: curly_apostrophe_def)

declare host_label_loop.simps [simp del]

fun trim_dashes :: "bytes \<Rightarrow> nat \<Rightarrow> nat" where
  "trim_dashes label ptr = (if ptr > 1 \<and> label ! (ptr - 1) = 0x2D then trim_dashes label (ptr - 1) else ptr)"

declare trim_dashes.simps [simp del]

definition ConvertUTF8PstringToRFC1034HostLabel :: "bytes \<Rightarrow> bytes \<Rightarrow> bytes option" where
  "ConvertUTF8PstringToRFC1034HostLabel UTF8Name hostlabel = do {
     n \<leftarrow> read_byte UTF8Name 0;
     (label, ptr) \<leftarrow> host_label_loop UTF8Name 1 (1 + unat n) hostlabel 1;
     set_byte label 0 (of_nat (trim_dashes label ptr - 1))
   }"

end
