(* ===== verification/Dns_Label.thy ===== *)
theory Dns_Label imports Dns_Name begin

text \<open>
  DNSCommon.c: service names, truncation of UTF-8 text, and the numeric suffixes that a label gets when
  its name is taken.  A \<open>domainlabel\<close> is its array of 64 bytes, of which the first is the length.
  Log messages are left out.
\<close>

section \<open>Service names\<close>

definition localdomain :: bytes where "localdomain = [5, 0x6C, 0x6F, 0x63, 0x61, 0x6C, 0]"

definition local_arpa :: bytes where
  "local_arpa = [5, 0x6C, 0x6F, 0x63, 0x61, 0x6C, 4, 0x61, 0x72, 0x70, 0x61, 0]"

definition services_dns_sd_udp :: bytes where
  "services_dns_sd_udp = [9, 0x5F, 0x73, 0x65, 0x72, 0x76, 0x69, 0x63, 0x65, 0x73,
     7, 0x5F, 0x64, 0x6E, 0x73, 0x2D, 0x73, 0x64, 4, 0x5F, 0x75, 0x64, 0x70, 0]"

definition SubTypeLabel :: bytes where "SubTypeLabel = [4, 0x5F, 0x73, 0x75, 0x62]"

definition ValidTransportProtocol :: "bytes \<Rightarrow> nat \<Rightarrow> bool option" where
  "ValidTransportProtocol x i = do {
     b0 \<leftarrow> read_byte x i;
     if b0 \<noteq> 4 then Some False
     else do {
       b1 \<leftarrow> read_byte x (i + 1);
       if b1 \<noteq> 0x5F then Some False
       else do {
         b2 \<leftarrow> read_byte x (i + 2);
         if b2 OR 0x20 \<noteq> 0x75 \<and> b2 OR 0x20 \<noteq> 0x74 then Some False
         else do {
           b3 \<leftarrow> read_byte x (i + 3);
           if (b2 OR 0x20 = 0x75 \<and> b3 OR 0x20 \<noteq> 0x64) \<or> (b2 OR 0x20 = 0x74 \<and> b3 OR 0x20 \<noteq> 0x63) then Some False
           else do { b4 \<leftarrow> read_byte x (i + 4); Some (b4 OR 0x20 = 0x70) }
         }
       }
     }
   }"

text \<open>\<open>X[0] && X[0] < 0x40\<close>\<close>

definition legal_label_length :: "u8 \<Rightarrow> bool" where
  "legal_label_length b \<longleftrightarrow> b \<noteq> 0 \<and> b < 0x40"

text \<open>A three-label type without an instance name: its first label, followed by \<open>_sub\<close>, starts the name.\<close>

definition three_labels :: "bytes \<Rightarrow> nat \<Rightarrow> (nat option) option" where
  "three_labels ty s0 = do {
     b0 \<leftarrow> read_byte ty s0;
     if \<not> legal_label_length b0 then Some None
     else do {
       let s1 = s0 + 1 + unat b0;
       b1 \<leftarrow> read_byte ty s1;
       if \<not> legal_label_length b1 then Some None
       else do {
         let s2 = s1 + 1 + unat b1;
         b2 \<leftarrow> read_byte ty s2;
         if \<not> legal_label_length b2 then Some None
         else do { e \<leftarrow> read_byte ty (s2 + 1 + unat b2); Some (if e = 0 then Some s1 else None) }
       }
     }
   }"

text \<open>The checks on the characters from position \<open>i\<close> on, \<open>k\<close> to go\<close>

fun protocol_chars_ok :: "nat \<Rightarrow> nat \<Rightarrow> nat \<Rightarrow> bytes \<Rightarrow> nat \<Rightarrow> bool option" where
  "protocol_chars_ok 0 i len ty src = Some True"
| "protocol_chars_ok (Suc k) i len ty src = do {
     c \<leftarrow> read_byte ty (src + i);
     if mDNSIsLetter c \<or> mDNSIsDigit c \<or> ((c = 0x2D \<or> c = 0x5F) \<and> i > 2 \<and> i < len)
     then protocol_chars_ok k (Suc i) len ty src
     else Some False
   }"

definition ConstructServiceName :: "bytes \<Rightarrow> bytes option \<Rightarrow> bytes \<Rightarrow> bytes \<Rightarrow> (bytes \<times> nat option) option" where
  "ConstructServiceName fqdn name ty domain = do {
     (fqdn, dst, src) \<leftarrow>
       (if name = None then do {
          r \<leftarrow> three_labels ty 0;
          (case r of
             None \<Rightarrow> Some (fqdn, 0, 0)
           | Some s1 \<Rightarrow> do {
               b0 \<leftarrow> read_byte ty 0;
               fqdn \<leftarrow> copy_bytes (unat b0 + 1) fqdn 0 ty 0;
               fqdn \<leftarrow> copy_bytes 5 fqdn (unat b0 + 1) SubTypeLabel 0;
               same \<leftarrow> SameDomainName ty 0 services_dns_sd_udp 0;
               Some (fqdn, if same then unat b0 + 1 else unat b0 + 6, s1)
             })
        } else Some (fqdn, 0, 0));
     n0 \<leftarrow> (case name of None \<Rightarrow> Some 0 | Some l \<Rightarrow> read_byte l 0);
     if n0 \<ge> 0x40 then Some (fqdn, None)
     else do {
       (fqdn, dst) \<leftarrow> (if n0 \<noteq> 0 then do {
            fqdn \<leftarrow> copy_bytes (unat n0 + 1) fqdn dst (the name) 0;
            Some (fqdn, dst + unat n0 + 1)
          } else Some (fqdn, dst));
       len \<leftarrow> read_byte ty src;
       long \<leftarrow> (if len > 16 \<and> len < 0x40 then do { same \<leftarrow> SameDomainName domain 0 localdomain 0; Some (\<not> same) } else Some False);
       if len < 2 \<or> len \<ge> 0x40 \<or> long then Some (fqdn, None)
       else do {
         b1 \<leftarrow> read_byte ty (src + 1);
         if b1 \<noteq> 0x5F then Some (fqdn, None)
         else do {
           ok \<leftarrow> protocol_chars_ok (unat len - 1) 2 (unat len) ty src;
           if \<not> ok then Some (fqdn, None)
           else do {
             fqdn \<leftarrow> copy_bytes (unat len + 1) fqdn dst ty src;
             let dst = dst + unat len + 1;
             let src = src + unat len + 1;
             len \<leftarrow> read_byte ty src;
             valid \<leftarrow> ValidTransportProtocol ty src;
             if \<not> valid then Some (fqdn, None)
             else do {
               fqdn \<leftarrow> copy_bytes (unat len + 1) fqdn dst ty src;
               let dst = dst + unat len + 1;
               e \<leftarrow> read_byte ty (src + unat len + 1);
               if e \<noteq> 0 then Some (fqdn, None)
               else do {
                 fqdn \<leftarrow> set_byte fqdn dst 0;
                 d0 \<leftarrow> read_byte domain 0;
                 if d0 = 0 then Some (fqdn, None)
                 else do {
                   arpa \<leftarrow> SameDomainName domain 0 local_arpa 0;
                   if arpa then Some (fqdn, None) else AppendDomainName fqdn domain 0
                 }
               }
             }
           }
         }
       }
     }
   }"

text \<open>The domain part: labels copied until the empty one; no result when one is illegal.\<close>

function deconstruct_domain :: "bytes \<Rightarrow> nat \<Rightarrow> bytes \<Rightarrow> nat \<Rightarrow> (bytes \<times> nat option) option" where
  "deconstruct_domain fqdn src domain dst =
     (case read_byte fqdn src of None \<Rightarrow> None | Some len \<Rightarrow>
        if len = 0 then Some (domain, Some dst)
        else if len \<ge> 0x40 then Some (domain, None)
        else if src + 1 + unat len + 1 \<ge> MAX_DOMAIN_NAME then Some (domain, None)
        else
          (case copy_bytes (unat len + 1) domain dst fqdn src of None \<Rightarrow> None | Some domain1 \<Rightarrow>
             deconstruct_domain fqdn (src + unat len + 1) domain1 (dst + unat len + 1)))"
  by pat_completeness auto

termination deconstruct_domain
  by (relation "measure (\<lambda>(fqdn, src, domain, dst). length fqdn - src)") (auto simp: read_byte_def split: if_splits)

declare deconstruct_domain.simps [simp del]

text \<open>The arrays \<open>name\<close>, \<open>type\<close> and \<open>domain\<close> afterwards and the value returned\<close>

definition DeconstructServiceName :: "bytes \<Rightarrow> bytes \<Rightarrow> bytes \<Rightarrow> bytes \<Rightarrow> (bytes \<times> bytes \<times> bytes \<times> bool) option" where
  "DeconstructServiceName fqdn name ty domain = do {
     len0 \<leftarrow> read_byte fqdn 0;
     if len0 = 0 \<or> len0 \<ge> 0x40 then Some (name, ty, domain, False)
     else do {
       name \<leftarrow> copy_bytes (unat len0 + 1) name 0 fqdn 0;
       let src = unat len0 + 1;
       len1 \<leftarrow> read_byte fqdn src;
       if len1 = 0 \<or> len1 \<ge> 0x40 then Some (name, ty, domain, False)
       else do {
         u \<leftarrow> read_byte fqdn (src + 1);
         if u \<noteq> 0x5F then Some (name, ty, domain, False)
         else do {
           ty \<leftarrow> copy_bytes (unat len1 + 1) ty 0 fqdn src;
           let src = src + unat len1 + 1;
           let dst = unat len1 + 1;
           len2 \<leftarrow> read_byte fqdn src;
           if len2 = 0 then Some (name, ty, domain, False)
           else do {
             valid \<leftarrow> ValidTransportProtocol fqdn src;
             if \<not> valid then Some (name, ty, domain, False)
             else do {
               ty \<leftarrow> copy_bytes (unat len2 + 1) ty dst fqdn src;
               ty \<leftarrow> set_byte ty (dst + unat len2 + 1) 0;
               (domain, r) \<leftarrow> deconstruct_domain fqdn (src + unat len2 + 1) domain 0;
               (case r of
                  None \<Rightarrow> Some (name, ty, domain, False)
                | Some d \<Rightarrow> do { domain \<leftarrow> set_byte domain d 0; Some (name, ty, domain, True) })
             }
           }
         }
       }
     }
   }"

section \<open>Truncation of UTF-8\<close>

text \<open>Cutting before \<open>length\<close>: \<open>c1\<close> and \<open>c2\<close> are the two bytes behind the cut.\<close>

fun utf8_cut :: "bytes \<Rightarrow> nat \<Rightarrow> nat \<Rightarrow> u8 \<Rightarrow> u8 \<Rightarrow> nat option" where
  "utf8_cut str off 0 c1 c2 = Some 0"
| "utf8_cut str off (Suc n) c1 c2 =
     (if c1 AND 0xC0 = 0x80 \<or> (c1 = 0xED \<and> c2 AND 0xF0 = 0xB0)
      then (case read_byte str (off + n) of None \<Rightarrow> None | Some c \<Rightarrow> utf8_cut str off n c c1)
      else Some (Suc n))"

fun cut_blanks :: "bytes \<Rightarrow> nat \<Rightarrow> nat \<Rightarrow> nat option" where
  "cut_blanks str off 0 = Some 0"
| "cut_blanks str off (Suc n) =
     (case read_byte str (off + n) of None \<Rightarrow> None | Some c \<Rightarrow>
        if c \<le> 0x20 then cut_blanks str off n else Some (Suc n))"

text \<open>\<open>m\<close> is the maximal length.\<close>

definition TruncateUTF8ToLength :: "bytes \<Rightarrow> nat \<Rightarrow> u32 \<Rightarrow> u32 \<Rightarrow> u32 option" where
  "TruncateUTF8ToLength str off len m =
     (if len > m then do {
        c1 \<leftarrow> read_byte str (off + unat m);
        c2 \<leftarrow> (if m + 1 < len then read_byte str (off + unat m + 1) else Some 0xB0);
        n \<leftarrow> utf8_cut str off (unat m) c1 c2;
        n \<leftarrow> cut_blanks str off n;
        Some (of_nat n)
      } else Some len)"

section \<open>Suffixes\<close>

function skip_digits :: "bytes \<Rightarrow> nat \<Rightarrow> nat option" where
  "skip_digits name l =
     (if l > 2 then
        (case read_byte name l of None \<Rightarrow> None | Some c \<Rightarrow> if mDNSIsDigit c then skip_digits name (l - 1) else Some l)
      else Some l)"
  by pat_completeness auto

termination skip_digits
  by (relation "measure snd") auto

definition LabelContainsSuffix :: "bytes \<Rightarrow> bool \<Rightarrow> bool option" where
  "LabelContainsSuffix name RichText = do {
     l \<leftarrow> read_byte name 0;
     let l = unat l;
     if RichText then
       if l < 4 then Some False
       else do {
         c \<leftarrow> read_byte name l;
         d \<leftarrow> read_byte name (l - 1);
         if c \<noteq> 0x29 then Some False
         else if \<not> mDNSIsDigit d then Some False
         else do {
           l \<leftarrow> skip_digits name (l - 2);
           x \<leftarrow> read_byte name l;
           y \<leftarrow> read_byte name (l - 1);
           Some (x = 0x28 \<and> y = 0x20)
         }
       }
     else if l < 2 then Some False
     else do {
       d \<leftarrow> read_byte name l;
       if \<not> mDNSIsDigit d then Some False
       else do {
         l \<leftarrow> skip_digits name (l - 1);
         x \<leftarrow> read_byte name l;
         Some (x = 0x2D)
       }
     }
   }"

text \<open>\<open>name->c[name->c[0]]\<close>\<close>

definition last_char :: "bytes \<Rightarrow> u8 option" where
  "last_char name = do { n \<leftarrow> read_byte name 0; read_byte name (unat n) }"

text \<open>\<open>name->c[0] -= k\<close>\<close>

definition shorten :: "bytes \<Rightarrow> u8 \<Rightarrow> bytes option" where
  "shorten name k = do { n \<leftarrow> read_byte name 0; set_byte name 0 (n - k) }"

text \<open>Both loops stop at the length 0, whose byte is neither a digit nor a space.\<close>

function strip_digits :: "bytes \<Rightarrow> u32 \<Rightarrow> u32 \<Rightarrow> (bytes \<times> u32) option" where
  "strip_digits name val multiplier =
     (case last_char name of None \<Rightarrow> None | Some c \<Rightarrow>
        if mDNSIsDigit c then
          strip_digits (name[0 := name ! 0 - 1]) (val + ucast (c - 0x30) * multiplier) (multiplier * 10)
        else Some (name, val))"
  by pat_completeness auto

lemma last_char_zero: "last_char name = Some c \<Longrightarrow> c \<noteq> 0 \<Longrightarrow> name ! 0 \<noteq> 0"
  by (auto simp: last_char_def read_byte_def split: if_splits)

lemma last_char_less:
  assumes "last_char name = Some c" "c \<noteq> 0"
  shows "unat (name[0 := name ! 0 - 1] ! 0) < unat (name ! 0)"
proof -
  have "name \<noteq> []" using assms(1) by (auto simp: last_char_def read_byte_def)
  then show ?thesis using last_char_zero [OF assms] by (simp add: unat_minus_one unat_gt_0)
qed

termination strip_digits
  by (relation "measure (\<lambda>(name, val, multiplier). unat (name ! 0))")
    (auto dest!: last_char_less simp: mDNSIsDigit_def)

function strip_spaces :: "bytes \<Rightarrow> bytes option" where
  "strip_spaces name =
     (case last_char name of None \<Rightarrow> None | Some c \<Rightarrow>
        if c = 0x20 then strip_spaces (name[0 := name ! 0 - 1]) else Some name)"
  by pat_completeness auto

termination strip_spaces
  by (relation "measure (\<lambda>name. unat (name ! 0))") (auto dest!: last_char_less)

definition RemoveLabelSuffix :: "bytes \<Rightarrow> bool \<Rightarrow> (bytes \<times> u32) option" where
  "RemoveLabelSuffix name RichText = do {
     n \<leftarrow> read_byte name 0;
     name \<leftarrow> (if RichText \<and> n \<ge> 1 then do {
          c \<leftarrow> last_char name;
          if c = 0x29 then shorten name 1 else Some name
        } else Some name);
     (name, val) \<leftarrow> strip_digits name 0 1;
     n \<leftarrow> read_byte name 0;
     name \<leftarrow> (if RichText then
          if n \<ge> 2 then do {
            x \<leftarrow> read_byte name (unat n);
            y \<leftarrow> read_byte name (unat n - 1);
            if x = 0x28 \<and> y = 0x20 then shorten name 2 else Some name
          } else Some name
        else if n \<ge> 1 then do {
          x \<leftarrow> read_byte name (unat n);
          if x = 0x2D then shorten name 1 else Some name
        } else Some name);
     Some (name, val)
   }"

text \<open>\<open>name->c[++name->c[0]] = v\<close>\<close>

definition push_char :: "bytes \<Rightarrow> u8 \<Rightarrow> bytes option" where
  "push_char name v = do {
     n \<leftarrow> read_byte name 0;
     name \<leftarrow> set_byte name 0 (n + 1);
     set_byte name (unat (n + 1)) v
   }"

text \<open>The divisor starts at 1 and stays below \<open>2 ^ 32\<close>, as does its tenfold where the loop computes it.\<close>

function suffix_divisor :: "nat \<Rightarrow> nat \<Rightarrow> nat \<Rightarrow> nat \<times> nat" where
  "suffix_divisor val divisor chars =
     (if 0 < divisor \<and> divisor < 0xFFFFFFFF div 10 \<and> val \<ge> divisor * 10
      then suffix_divisor val (divisor * 10) (Suc chars) else (divisor, chars))"
  by pat_completeness auto

termination suffix_divisor
  by (relation "measure (\<lambda>(val, divisor, chars). 0xFFFFFFFF - divisor)") auto

function push_digits :: "bytes \<Rightarrow> nat \<Rightarrow> nat \<Rightarrow> bytes option" where
  "push_digits name val divisor =
     (if divisor = 0 then Some name
      else (case push_char name (of_nat (0x30 + val div divisor)) of None \<Rightarrow> None | Some name1 \<Rightarrow>
              push_digits name1 (val mod divisor) (divisor div 10)))"
  by pat_completeness auto

termination push_digits
  by (relation "measure (\<lambda>(name, val, divisor). divisor)") auto

declare skip_digits.simps [simp del] strip_digits.simps [simp del] strip_spaces.simps [simp del]
  suffix_divisor.simps [simp del] push_digits.simps [simp del]

definition AppendLabelSuffix :: "bytes \<Rightarrow> u32 \<Rightarrow> bool \<Rightarrow> bytes option" where
  "AppendLabelSuffix name val RichText = do {
     name \<leftarrow> (if RichText then strip_spaces name else Some name);
     let (divisor, chars) = suffix_divisor (unat val) 1 (if RichText then 4 else 2);
     n \<leftarrow> read_byte name 0;
     len \<leftarrow> TruncateUTF8ToLength name 1 (ucast n) (of_nat (MAX_DOMAIN_LABEL - chars));
     name \<leftarrow> set_byte name 0 (ucast len);
     name \<leftarrow> (if RichText then do { name \<leftarrow> push_char name 0x20; push_char name 0x28 } else push_char name 0x2D);
     name \<leftarrow> push_digits name (unat val) divisor;
     if RichText then push_char name 0x29 else Some name
   }"

text \<open>\<open>r\<close> is the result of \<open>mDNSRandom(99)\<close>.\<close>

definition IncrementLabelSuffix :: "u32 \<Rightarrow> bytes \<Rightarrow> bool \<Rightarrow> bytes option" where
  "IncrementLabelSuffix r name RichText = do {
     has \<leftarrow> LabelContainsSuffix name RichText;
     (name, val) \<leftarrow> (if has then RemoveLabelSuffix name RichText else Some (name, 0));
     let val = (if val = 0 then 2 else if val < 10 then val + 1 else val + (1 + r));
     AppendLabelSuffix name val RichText
   }"

end
