(* ===== verification/Dns_Wire.thy ===== *)
theory Dns_Wire imports Dns_Parse Dns_Text Dns_Label Hashtable begin

text \<open>
  What a domain name in memory denotes, a list of labels, and the functions of DNSCommon.c on names as
  functions of that list.
\<close>

section \<open>Names as lists of labels\<close>

definition valid_label :: "bytes \<Rightarrow> bool" where
  "valid_label l \<longleftrightarrow> 0 < length l \<and> length l \<le> 63"

fun name_at :: "bytes \<Rightarrow> nat \<Rightarrow> bytes list \<Rightarrow> bool" where
  "name_at buf i [] \<longleftrightarrow> read_byte buf i = Some 0"
| "name_at buf i (l # ls) \<longleftrightarrow> valid_label l \<and> read_byte buf i = Some (of_nat (length l))
     \<and> read_bytes buf (Suc i) (length l) = Some l \<and> name_at buf (Suc i + length l) ls"

text \<open>The bytes of a name and their number\<close>

definition wire_label :: "bytes \<Rightarrow> bytes" where "wire_label l = of_nat (length l) # l"
definition wire :: "bytes list \<Rightarrow> bytes" where "wire ls = concat (map wire_label ls) @ [0]"

fun wire_len :: "bytes list \<Rightarrow> nat" where
  "wire_len [] = 1"
| "wire_len (l # ls) = Suc (length l) + wire_len ls"

lemma length_wire [simp]: "length (wire ls) = wire_len ls"
  by (induction ls) (auto simp: wire_def wire_label_def)

lemma wire_simps: "wire [] = [0]" "wire (l # ls) = of_nat (length l) # l @ wire ls"
  by (auto simp: wire_def wire_label_def)

lemma wire_len_pos [simp]: "0 < wire_len ls"
  by (cases ls) auto

lemma wire_len_append: "wire_len (xs @ ys) = wire_len xs + wire_len ys - 1"
  by (induction xs) (auto simp: Suc_diff_le[symmetric] Suc_le_eq)

lemma valid_label_u8 [simp]: "valid_label l \<Longrightarrow> unat (of_nat (length l) :: u8) = length l"
  by (simp add: valid_label_def unat_of_nat)

lemma valid_label_nonzero [simp]: "valid_label l \<Longrightarrow> (of_nat (length l) :: u8) \<noteq> 0"
  by (metis valid_label_u8 unat_0 valid_label_def less_irrefl)

lemma valid_label_less: "valid_label l \<Longrightarrow> length l < 64" "valid_label l \<Longrightarrow> length l \<noteq> 0"
  by (auto simp: valid_label_def)

lemma read_byteD: "read_byte buf i = Some b \<Longrightarrow> i < length buf \<and> buf ! i = b"
  by (auto simp: read_byte_def split: if_splits)

lemma read_bytes_nth: "read_bytes buf i n = Some bs \<Longrightarrow> k < n \<Longrightarrow> read_byte buf (i + k) = Some (bs ! k)"
  by (auto simp: read_bytes_Some_iff read_byte_def)

lemma name_at_bound: "name_at buf i ls \<Longrightarrow> i + wire_len ls \<le> length buf"
proof (induction ls arbitrary: i)
  case (Cons l ls)
  then show ?case using Cons.IH [of "Suc i + length l"] by simp
qed (auto dest!: read_byteD)

text \<open>A name is where its bytes are.\<close>

lemma read_bytes_Cons_iff:
  "read_bytes buf i (Suc n) = Some (b # bs) \<longleftrightarrow> read_byte buf i = Some b \<and> read_bytes buf (Suc i) n = Some bs"
proof (cases "i < length buf")
  case True
  then have "drop i buf = buf ! i # drop (Suc i) buf" by (simp add: Cons_nth_drop_Suc)
  with True show ?thesis by (auto simp: read_bytes_Some_iff read_byte_def)
qed (auto simp: read_bytes_Some_iff read_byte_def)

lemma read_bytes_append_iff:
  "read_bytes buf i (length xs + length ys) = Some (xs @ ys)
     \<longleftrightarrow> read_bytes buf i (length xs) = Some xs \<and> read_bytes buf (i + length xs) (length ys) = Some ys"
proof (cases "i + (length xs + length ys) \<le> length buf")
  case True
  then show ?thesis by (simp add: read_bytes_Some_iff take_add append_eq_append_conv add.commute)
qed (auto simp: read_bytes_Some_iff)

lemma name_at_iff:
  "name_at buf i ls \<longleftrightarrow> (\<forall>l \<in> set ls. valid_label l) \<and> read_bytes buf i (wire_len ls) = Some (wire ls)"
proof (induction ls arbitrary: i)
  case Nil
  then show ?case by (simp add: wire_simps read_bytes_Cons_iff numeral_eq_Suc)
    (auto simp: read_bytes_Some_iff read_byte_def dest: read_byteD)
next
  case (Cons l ls)
  have "read_bytes buf i (wire_len (l # ls)) = Some (wire (l # ls)) \<longleftrightarrow>
      read_byte buf i = Some (of_nat (length l)) \<and> read_bytes buf (Suc i) (length l + length (wire ls)) = Some (l @ wire ls)"
    by (simp add: wire_simps read_bytes_Cons_iff)
  with Cons show ?case by (auto simp: read_bytes_append_iff simp del: length_wire simp flip: length_wire)
qed

lemma name_at_zero: "(\<forall>l \<in> set ls. valid_label l) \<Longrightarrow> name_at (wire ls @ rest) 0 ls"
  by (simp add: name_at_iff read_bytes_def)

lemma name_at_unique: "name_at buf i xs \<Longrightarrow> name_at buf i ys \<Longrightarrow> xs = ys"
proof (induction xs arbitrary: i ys)
  case Nil
  then show ?case by (cases ys) (auto dest: read_byteD)
next
  case (Cons x xs)
  from Cons.prems obtain y ys' where ys: "ys = y # ys'" by (cases ys) auto
  with Cons.prems have "(of_nat (length x) :: u8) = of_nat (length y)" "valid_label x" "valid_label y" by auto
  then have "length x = length y" by (metis valid_label_u8)
  with Cons.prems ys have "x = y" "name_at buf (Suc i + length x) xs" "name_at buf (Suc i + length x) ys'" by auto
  with Cons.IH ys show ?case by auto
qed

section \<open>Lengths and positions\<close>

lemma length_limit_loop_name:
  "name_at buf src ls \<Longrightarrow> name \<le> src \<Longrightarrow>
     length_limit_loop buf name limit src =
       Some (if src + wire_len ls \<le> limit then of_nat (src + wire_len ls - name) else of_nat 257)"
proof (induction ls arbitrary: src)
  case Nil
  then show ?case
    by (subst length_limit_loop.simps) (auto simp: MAX_DOMAIN_NAME_def MAX_DOMAIN_LABEL_def)
next
  case (Cons l ls)
  then show ?case
    using valid_label_less(1) [of l]
    by (subst length_limit_loop.simps) (auto simp: MAX_DOMAIN_NAME_def MAX_DOMAIN_LABEL_def add.assoc)
qed

lemma DomainNameLength_name:
  assumes "name_at buf i ls"
  shows "DomainNameLength buf i = Some (if wire_len ls \<le> 256 then of_nat (wire_len ls) else 257)"
  using length_limit_loop_name [OF assms order_refl, of "i + MAX_DOMAIN_NAME"]
  by (auto simp: DomainNameLength_def DomainNameLengthLimit_def MAX_DOMAIN_NAME_def)

lemma DomainNameLength_unat:
  assumes "name_at buf i ls" "wire_len ls \<le> 256"
  obtains n where "DomainNameLength buf i = Some n" "unat n = wire_len ls"
  using DomainNameLength_name [OF assms(1)] assms(2) by (intro that) (auto simp: unat_of_nat)

lemma CountLabels_name: "name_at buf i ls \<Longrightarrow> CountLabels buf i = Some (int (length ls))"
proof (induction ls arbitrary: i)
  case Nil
  then show ?case by (subst CountLabels.simps) simp
next
  case (Cons l ls)
  then show ?case by (subst CountLabels.simps) (auto simp: add_ac)
qed

lemma SkipLeadingLabels_name:
  "name_at buf i ls \<Longrightarrow> n \<le> length ls \<Longrightarrow>
     \<exists>j. SkipLeadingLabels buf i (int n) = Some j \<and> name_at buf j (drop n ls)"
proof (induction n arbitrary: i ls)
  case 0
  then show ?case by (simp add: SkipLeadingLabels.simps [of buf i 0])
next
  case (Suc n)
  then obtain l ls' where ls: "ls = l # ls'" by (cases ls) auto
  with Suc.prems have rest: "name_at buf (Suc i + length l) ls'" "n \<le> length ls'" by auto
  show ?case using Suc.IH [OF rest] Suc.prems ls by (subst SkipLeadingLabels.simps) (simp add: add_ac)
qed

section \<open>Comparison\<close>

lemma same_bytes_iff:
  assumes "read_bytes a i (length x) = Some x" "read_bytes b j (length x) = Some y"
  shows "same_bytes (length x) a i b j = Some (map fold_case x = map fold_case y)"
  using assms
proof (induction x arbitrary: i j y)
  case Nil
  then show ?case by (auto simp: read_bytes_Some_iff)
next
  case (Cons c cs)
  then obtain d ds where y: "y = d # ds" by (cases y) (auto dest!: read_bytes_length)
  with Cons show ?case by (auto simp: read_bytes_Cons_iff)
qed

lemma SameDomainLabel_iff:
  assumes "read_byte a i = Some (of_nat (length x))" "read_bytes a (Suc i) (length x) = Some x" "valid_label x"
    "read_byte b j = Some (of_nat (length y))" "read_bytes b (Suc j) (length y) = Some y" "valid_label y"
  shows "SameDomainLabel a i b j = Some (map fold_case x = map fold_case y)"
proof (cases "length x = length y")
  case True
  with assms show ?thesis
    using same_bytes_iff [of a "Suc i" x b "Suc j" y] valid_label_less(1) [of x]
    by (simp add: SameDomainLabel_def MAX_DOMAIN_LABEL_def)
next
  case False
  then have "(of_nat (length x) :: u8) \<noteq> of_nat (length y)" using assms by (metis valid_label_u8)
  moreover have "map fold_case x \<noteq> map fold_case y" using False by (metis length_map)
  ultimately show ?thesis using assms valid_label_less(1) [of x]
    by (simp add: SameDomainLabel_def MAX_DOMAIN_LABEL_def)
qed

abbreviation fold_name :: "bytes list \<Rightarrow> bytes list" where
  "fold_name ls \<equiv> map (map fold_case) ls"

lemma same_name_loop_iff:
  "name_at a i xs \<Longrightarrow> name_at b j ys \<Longrightarrow>
     same_name_loop m a i b j = Some (fold_name xs = fold_name ys \<and> (xs = [] \<or> i + wire_len xs \<le> m))"
proof (induction xs arbitrary: i j ys)
  case Nil
  show ?case
  proof (cases ys)
    case Nil': Nil
    with Nil show ?thesis by (subst same_name_loop.simps) simp
  next
    case (Cons y ys')
    then have "(of_nat (length y) :: u8) \<noteq> 0" using Nil by simp
    then have "SameDomainLabel a i b j = Some False"
      using Nil Cons by (simp add: SameDomainLabel_def MAX_DOMAIN_LABEL_def)
    with Nil Cons show ?thesis by (subst same_name_loop.simps) simp
  qed
next
  case (Cons x xs)
  show ?case
  proof (cases "i + 1 + length x \<ge> m")
    case True
    with Cons wire_len_pos [of xs] show ?thesis by (subst same_name_loop.simps) (auto simp del: wire_len_pos)
  next
    case False
    show ?thesis
    proof (cases ys)
      case Nil
      then have "SameDomainLabel a i b j = Some False"
        using Cons valid_label_less(1) [of x] by (simp add: SameDomainLabel_def MAX_DOMAIN_LABEL_def)
      with Cons Nil False show ?thesis by (subst same_name_loop.simps) auto
    next
      case ys: (Cons y ys')
      have lab: "SameDomainLabel a i b j = Some (map fold_case x = map fold_case y)"
        using Cons ys SameDomainLabel_iff [of a i x b j y] by simp
      show ?thesis
      proof (cases "map fold_case x = map fold_case y")
        case False': False
        with lab Cons ys False show ?thesis by (subst same_name_loop.simps) auto
      next
        case True
        then have len: "length x = length y" by (metis length_map)
        have "same_name_loop m a (Suc i + length x) b (Suc j + length y)
            = Some (fold_name xs = fold_name ys' \<and> (xs = [] \<or> Suc i + length x + wire_len xs \<le> m))"
          using Cons.IH [of "Suc i + length x" "Suc j + length y" ys'] Cons.prems ys by simp
        with lab Cons ys True False len show ?thesis by (subst same_name_loop.simps) auto
      qed
    qed
  qed
qed

lemma SameDomainName_iff:
  assumes "name_at a i xs" "name_at b j ys"
  shows "SameDomainName a i b j = Some (fold_name xs = fold_name ys \<and> wire_len xs \<le> 256)"
  using same_name_loop_iff [OF assms] by (auto simp: SameDomainName_def MAX_DOMAIN_NAME_def)

section \<open>Hash\<close>

lemma fold_case_zero [simp]: "fold_case c = 0 \<longleftrightarrow> c = 0"
proof
  assume "fold_case c = 0"
  then show "c = 0"
    by (cases "mDNSIsUpperCase c")
      (auto simp: fold_case_def mDNSIsUpperCase_def word_le_nat_alt unat_word_ariths word_unat_eq_iff unat_add_lem [THEN iffD1])
qed (simp add: fold_case_def mDNSIsUpperCase_def)

text \<open>The hash reads the bytes of a name in pairs, folds their case and stops at the first zero.\<close>

lemma hash_name_loop_fold:
  assumes "read_bytes a i (length xs) = Some xs" "read_bytes b j (length ys) = Some ys"
    "map fold_case xs = map fold_case ys" "0 \<in> set xs"
  shows "hash_name_loop a i s = hash_name_loop b j s"
  using assms
proof (induction xs arbitrary: i j ys s rule: induct_list012)
  case 1
  then show ?case by simp
next
  case (2 x)
  then obtain y where "ys = [y]" by (cases ys) auto
  with 2 have r: "read_byte a i = Some x" "read_byte b j = Some y" "x = 0" "fold_case x = fold_case y"
    by (auto simp: read_bytes_Cons_iff)
  then have "y = 0" using fold_case_zero by metis
  with r have "read_byte a i = Some 0" "read_byte b j = Some 0" by simp_all
  then show ?case by (simp add: hash_name_loop.simps)
next
  case (3 x x' xs)
  then obtain y y' ys' where ys: "ys = y # y' # ys'" by (auto simp: map_eq_Cons_conv)
  with 3 have r: "read_byte a i = Some x" "read_byte a (Suc i) = Some x'" "read_byte b j = Some y" "read_byte b (Suc j) = Some y'"
    and f: "fold_case x = fold_case y" "fold_case x' = fold_case y'"
    and rest: "read_bytes a (i + 2) (length xs) = Some xs" "read_bytes b (j + 2) (length ys') = Some ys'"
      "map fold_case xs = map fold_case ys'"
    by (auto simp: read_bytes_Cons_iff)
  have z: "x = 0 \<longleftrightarrow> y = 0" "x' = 0 \<longleftrightarrow> y' = 0" using f fold_case_zero by metis+
  show ?case
  proof (cases "x = 0 \<or> x' = 0")
    case True
    then show ?thesis
      using r z f by (subst (1 2) hash_name_loop.simps) auto
  next
    case False
    with 3(6) have "0 \<in> set xs" by auto
    then have "hash_name_loop a (i + 2) s' = hash_name_loop b (j + 2) s'" for s'
      using 3(1) [OF rest] by simp
    with False r z f show ?thesis
      by (subst (1 2) hash_name_loop.simps) (auto simp: hash_pair_def Let_def)
  qed
qed

lemma fold_case_small: "c < 0x41 \<Longrightarrow> fold_case c = c"
  by (auto simp: fold_case_def mDNSIsUpperCase_def)

lemma fold_name_wire:
  "fold_name xs = fold_name ys \<Longrightarrow> map fold_case (wire xs) = map fold_case (wire ys)"
proof (induction xs arbitrary: ys)
  case (Cons x xs)
  then obtain y ys' where "ys = y # ys'" "map fold_case x = map fold_case y" "fold_name xs = fold_name ys'" by auto
  moreover from this have "length x = length y" by (metis length_map)
  ultimately show ?case using Cons by (simp add: wire_simps)
qed simp

lemma zero_in_wire: "0 \<in> set (wire ls)"
  by (simp add: wire_def)

lemma DomainNameHashValue_fold:
  assumes "name_at a i xs" "name_at b j ys" "fold_name xs = fold_name ys"
  shows "DomainNameHashValue a i = DomainNameHashValue b j"
  unfolding DomainNameHashValue_def
  by (rule hash_name_loop_fold [of a i "wire xs" b j "wire ys"])
    (use assms(1,2) fold_name_wire [OF assms(3)] zero_in_wire in \<open>simp_all add: name_at_iff\<close>)

lemma hash_name_loop_some:
  "read_bytes a i (length xs) = Some xs \<Longrightarrow> 0 \<in> set xs \<Longrightarrow> \<exists>h. hash_name_loop a i s = Some h"
proof (induction xs arbitrary: i s rule: induct_list012)
  case (2 x)
  then show ?case by (auto simp: read_bytes_Cons_iff hash_name_loop.simps)
next
  case (3 x x' xs)
  then have r: "read_byte a i = Some x" "read_byte a (Suc i) = Some x'" "read_bytes a (i + 2) (length xs) = Some xs"
    by (auto simp: read_bytes_Cons_iff)
  show ?case
  proof (cases "x = 0 \<or> x' = 0")
    case True
    then show ?thesis using r by (subst hash_name_loop.simps) auto
  next
    case False
    with 3(4) have "0 \<in> set xs" by auto
    then obtain h where "hash_name_loop a (i + 2) (push_bit 3 (s + hash_pair x x') OR drop_bit 29 (s + hash_pair x x')) = Some h"
      using 3(1) [OF r(3)] by blast
    then show ?thesis using r False by (subst hash_name_loop.simps) (simp add: Let_def)
  qed
qed simp


lemma DomainNameHashValue_some: "name_at a i xs \<Longrightarrow> \<exists>h. DomainNameHashValue a i = Some h"
  using hash_name_loop_some [of a i "wire xs" 0] zero_in_wire by (simp add: DomainNameHashValue_def name_at_iff)

text \<open>Valid names under the case-insensitive comparison are keys of a hash table.\<close>

definition valid_name :: "bytes \<Rightarrow> bool" where
  "valid_name a \<longleftrightarrow> (\<exists>ls. name_at a 0 ls \<and> wire_len ls \<le> 256)"

definition name_compare :: "bytes \<Rightarrow> bytes \<Rightarrow> bool" where
  "name_compare a b \<longleftrightarrow> SameDomainName a 0 b 0 = Some True"

definition name_hash :: "bytes \<Rightarrow> u32" where
  "name_hash a = the (DomainNameHashValue a 0)"

lemma name_compare_iff:
  "name_at a 0 xs \<Longrightarrow> name_at b 0 ys \<Longrightarrow> wire_len xs \<le> 256 \<Longrightarrow> name_compare a b \<longleftrightarrow> fold_name xs = fold_name ys"
  by (simp add: name_compare_def SameDomainName_iff)

interpretation dns_name: hash_key name_compare valid_name name_hash
proof unfold_locales
  show "name_compare a a" if "valid_name a" for a
    using that by (auto simp: valid_name_def name_compare_iff)
  show "name_compare b a" if "valid_name a" "valid_name b" "name_compare a b" for a b
    using that by (auto simp: valid_name_def name_compare_iff)
  show "name_compare a c" if "valid_name a" "valid_name b" "valid_name c" "name_compare a b" "name_compare b c" for a b c
    using that by (auto simp: valid_name_def name_compare_iff)
  show "name_hash a = name_hash b" if "valid_name a" "valid_name b" "name_compare a b" for a b
    using that DomainNameHashValue_fold [of a 0 _ b 0] by (auto simp: valid_name_def name_compare_iff name_hash_def)
qed

end
