(* ===== verification/Dns_Decode.thy ===== *)
theory Dns_Decode imports Dns_Wire begin

text \<open>
  Names in messages: the relation between a position of a message and the labels that stand there,
  across compression pointers, and \<open>getDomainName\<close> and \<open>skipDomainName\<close> as functions of it.
\<close>

section \<open>The two top bits of a length byte\<close>

lemma unat_and_C0: "unat (b AND 0xC0) = 64 * (unat b div 64)" for b :: u8
proof -
  have "b AND 0xC0 = push_bit 6 (drop_bit 6 b)"
  proof (rule bit_word_eqI)
    fix n assume "n < LENGTH(8)"
    then have "n \<in> {0, 1, 2, 3, 4, 5, 6, 7}" by auto
    then show "bit (b AND 0xC0) n = bit (push_bit 6 (drop_bit 6 b)) n"
      by (elim insertE) (simp_all add: bit_simps)
  qed
  moreover have "64 * (unat b div 64) < 256"
    using unsigned_less [of b, where ?'a = nat] by simp
  moreover have tb: "take_bit 8 (unat b) = unat b"
    using unsigned_less [of b, where ?'a = nat] by (intro take_bit_nat_eq_self) simp
  moreover have "unat (push_bit 6 (drop_bit 6 b)) = take_bit 8 (unat b div 64 * 64)"
    by (simp only: unsigned_push_bit_eq unsigned_drop_bit_eq)
      (simp add: push_bit_eq_mult drop_bit_eq_div tb)
  ultimately show ?thesis
    by (simp only: take_bit_nat_eq_self_iff) (simp add: take_bit_nat_eq_self mult.commute)
qed

lemma and_C0_iff:
  fixes b :: u8
  shows "b AND 0xC0 = 0 \<longleftrightarrow> unat b < 64" "b AND 0xC0 = 0x40 \<longleftrightarrow> 64 \<le> unat b \<and> unat b < 128"
    "b AND 0xC0 = 0x80 \<longleftrightarrow> 128 \<le> unat b \<and> unat b < 192" "b AND 0xC0 = 0xC0 \<longleftrightarrow> 192 \<le> unat b"
  using unsigned_less [of b, where ?'a = nat] unat_and_C0 [of b]
  by (auto simp: word_unat_eq_iff)

section \<open>Names across pointers\<close>

text \<open>From position \<open>p\<close> the labels \<open>ls\<close> are read, and the name ends before position \<open>n\<close>.\<close>

inductive decodes :: "bytes \<Rightarrow> nat \<Rightarrow> nat \<Rightarrow> bytes list \<Rightarrow> nat \<Rightarrow> bool" for msg e where
  dec_end: "read_byte msg p = Some 0 \<Longrightarrow> decodes msg e p [] (Suc p)"
| dec_label: "valid_label l \<Longrightarrow> read_byte msg p = Some (of_nat (length l)) \<Longrightarrow>
    read_bytes msg (Suc p) (length l) = Some l \<Longrightarrow> Suc p + length l < e \<Longrightarrow>
    decodes msg e (Suc p + length l) ls n \<Longrightarrow> decodes msg e p (l # ls) n"
| dec_ptr: "read_byte msg p = Some hi \<Longrightarrow> 192 \<le> unat hi \<Longrightarrow> read_byte msg (Suc p) = Some lo \<Longrightarrow>
    pointer_offset hi lo < e \<Longrightarrow> read_byte msg (pointer_offset hi lo) = Some t \<Longrightarrow> unat t < 64 \<Longrightarrow>
    decodes msg e (pointer_offset hi lo) ls n \<Longrightarrow> decodes msg e p ls (Suc (Suc p))"

inductive_cases decodes_nilE: "decodes msg e p [] n"

lemma decodes_le: "decodes msg e p ls n \<Longrightarrow> p < n"
  by (induction rule: decodes.induct) auto

lemma decodes_bound: "decodes msg e p ls n \<Longrightarrow> p < e \<Longrightarrow> n \<le> Suc e"
  by (induction rule: decodes.induct) auto

lemma decodes_valid: "decodes msg e p ls n \<Longrightarrow> l \<in> set ls \<Longrightarrow> valid_label l"
  by (induction rule: decodes.induct) auto

lemma decodes_unique: "decodes msg e p ls n \<Longrightarrow> decodes msg e p ls' n' \<Longrightarrow> ls = ls' \<and> n = n'"
proof (induction arbitrary: ls' n' rule: decodes.induct)
  case (dec_end p)
  from dec_end(2,1) show ?case by (cases rule: decodes.cases) auto
next
  case outer: (dec_label l p ls n)
  have l: "(of_nat (length l) :: u8) \<noteq> 0" "unat (of_nat (length l) :: u8) < 64"
    using outer(1) valid_label_less by auto
  from outer(7) show ?case
  proof (cases rule: decodes.cases)
    case (dec_label l' ls'')
    have "(of_nat (length l) :: u8) = of_nat (length l')" using outer(2) dec_label by simp
    then have len: "length l' = length l" using outer(1) dec_label by (metis valid_label_u8)
    have "l' = l" using dec_label(4) outer(3) len by (metis option.inject)
    then show ?thesis using dec_label(1,6) outer.IH [of ls'' n'] by simp
  next
    case dec_end
    then show ?thesis using outer(2) l by simp
  next
    case (dec_ptr hi)
    then show ?thesis using outer(2) l by simp
  qed
next
  case outer: (dec_ptr p hi lo t ls n)
  from outer.prems show ?case
  proof (cases rule: decodes.cases)
    case (dec_label l' ls'')
    then show ?thesis using outer(1,2) valid_label_less(1) [of l'] by simp
  next
    case dec_end
    then show ?thesis using outer(1,2) by simp
  next
    case (dec_ptr hi' lo' t')
    then show ?thesis using outer(1,3) outer.IH by simp
  qed
qed

text \<open>A longer message and memory behind it change nothing.\<close>

lemma decodes_mono: "decodes msg e p ls n \<Longrightarrow> e \<le> e' \<Longrightarrow> decodes msg e' p ls n"
  by (induction rule: decodes.induct) (auto intro: decodes.intros)

lemma name_at_decodes: "name_at msg p ls \<Longrightarrow> p + wire_len ls \<le> e \<Longrightarrow> decodes msg e p ls (p + wire_len ls)"
proof (induction ls arbitrary: p)
  case Nil
  then show ?case by (auto intro: dec_end)
next
  case (Cons l ls)
  then have "decodes msg e (Suc p + length l) ls (Suc p + length l + wire_len ls)"
    using Cons.IH [of "Suc p + length l"] by simp
  moreover have "Suc p + length l < e" using Cons.prems wire_len_pos [of ls] by (auto simp del: wire_len_pos)
  ultimately show ?case using Cons.prems by (auto intro: dec_label simp: add.assoc)
qed

section \<open>getDomainName\<close>

lemma length_set_byte: "set_byte buf i v = Some buf' \<Longrightarrow> length buf' = length buf"
  by (auto simp: set_byte_def split: if_splits)

lemma copy_bytes_some:
  assumes "read_bytes src q n = Some bs" "p + n \<le> length dst"
  shows "copy_bytes n dst p src q = Some (write_bytes dst p bs)"
  using assms
proof (induction n arbitrary: dst p q bs)
  case 0
  then show ?case by (auto simp: read_bytes_Some_iff write_bytes_def)
next
  case (Suc n)
  obtain b bs' where bs: "bs = b # bs'" using Suc.prems(1) by (cases bs) (auto dest: read_bytes_length)
  have r: "read_byte src q = Some b" "read_bytes src (Suc q) n = Some bs'"
    using Suc.prems(1) bs by (auto simp: read_bytes_Cons_iff)
  have "copy_bytes n (dst[p := b]) (Suc p) src (Suc q) = Some (write_bytes (dst[p := b]) (Suc p) bs')"
    using Suc.IH [OF r(2), of "Suc p" "dst[p := b]"] Suc.prems(2) by simp
  moreover have "write_bytes (dst[p := b]) (Suc p) bs' = write_bytes dst p bs"
    using Suc.prems(2) bs by (simp add: write_bytes_def take_Suc_conv_app_nth upd_conv_take_nth_drop add.commute)
  ultimately show ?case using r Suc.prems(2) by (simp add: set_byte_def)
qed

lemma copy_bytes_length: "copy_bytes n dst p src q = Some dst' \<Longrightarrow> length dst' = length dst"
  by (induction n arbitrary: dst p q) (auto dest: length_set_byte)

lemma read_write_bytes:
  assumes "p + length bs \<le> length dst"
  shows "read_bytes (write_bytes dst p bs) p (length bs) = Some bs"
    "i + n \<le> p \<Longrightarrow> read_bytes (write_bytes dst p bs) i n = read_bytes dst i n"
    "p + length bs \<le> i \<Longrightarrow> read_bytes (write_bytes dst p bs) i n = read_bytes dst i n"
proof -
  show "read_bytes (write_bytes dst p bs) p (length bs) = Some bs"
    using assms by (simp add: read_bytes_def write_bytes_def)
  show "read_bytes (write_bytes dst p bs) i n = read_bytes dst i n" if "i + n \<le> p"
  proof -
    have "take n (drop i (take p dst)) = take n (drop i dst)" using that by (simp add: drop_take)
    then show ?thesis using assms that by (auto simp: read_bytes_def write_bytes_def)
  qed
  show "read_bytes (write_bytes dst p bs) i n = read_bytes dst i n" if "p + length bs \<le> i"
    using assms that by (simp add: read_bytes_def write_bytes_def)
qed

text \<open>Writing a label and the tentative root label behind it\<close>

definition put_label :: "bytes \<Rightarrow> nat \<Rightarrow> bytes \<Rightarrow> bytes" where
  "put_label name np l = write_bytes name np (of_nat (length l) # l @ [0])"

lemma length_put_label: "np + length l + 2 \<le> length name \<Longrightarrow> length (put_label name np l) = length name"
  by (simp add: put_label_def length_write_bytes)

lemma put_label_copy:
  assumes "read_byte msg p = Some (of_nat (length l))" "read_bytes msg (Suc p) (length l) = Some l"
    "np + length l + 2 \<le> length name"
  obtains name1 where "copy_bytes (Suc (length l)) name np msg p = Some name1"
    "set_byte name1 (Suc (np + length l)) 0 = Some (put_label name np l)"
proof -
  have "read_bytes msg p (Suc (length l)) = Some (of_nat (length l) # l)"
    using assms(1,2) by (simp add: read_bytes_Cons_iff)
  then have "copy_bytes (Suc (length l)) name np msg p = Some (write_bytes name np (of_nat (length l) # l))"
    by (rule copy_bytes_some) (use assms(3) in simp)
  moreover have "set_byte (write_bytes name np (of_nat (length l) # l)) (Suc (np + length l)) 0 = Some (put_label name np l)"
    using assms(3)
    by (auto simp: set_byte_def put_label_def write_bytes_def list_update_append nth_append
        intro!: nth_equalityI) (simp add: list_update_append Cons_nth_drop_Suc [symmetric])
  ultimately show thesis by (rule that)
qed

lemma read_put_label:
  assumes "np + length l + 2 \<le> length name" "valid_label l"
  shows "read_byte (put_label name np l) np = Some (of_nat (length l))"
    "read_bytes (put_label name np l) (Suc np) (length l) = Some l"
    "read_byte (put_label name np l) (Suc (np + length l)) = Some 0"
    "i + n \<le> np \<Longrightarrow> read_bytes (put_label name np l) i n = read_bytes name i n"
proof -
  have "read_bytes (put_label name np l) np (Suc (length l + length [0 :: u8])) = Some (of_nat (length l) # l @ [0])"
    using read_write_bytes(1) [of np "of_nat (length l) # l @ [0]" name] assms by (simp add: put_label_def)
  then have "read_byte (put_label name np l) np = Some (of_nat (length l))"
    "read_bytes (put_label name np l) (Suc np) (length l + length [0 :: u8]) = Some (l @ [0])"
    by (simp_all only: read_bytes_Cons_iff)
  then show "read_byte (put_label name np l) np = Some (of_nat (length l))"
    "read_bytes (put_label name np l) (Suc np) (length l) = Some l"
    "read_byte (put_label name np l) (Suc (np + length l)) = Some 0"
    unfolding read_bytes_append_iff by (auto simp: read_bytes_Cons_iff)
  show "read_bytes (put_label name np l) i n = read_bytes name i n" if "i + n \<le> np"
    using read_write_bytes(2) [of np "of_nat (length l) # l @ [0]" name i n] assms that by (simp add: put_label_def)
qed

definition next_or :: "nat option \<Rightarrow> nat \<Rightarrow> nat" where
  "next_or nb n = (case nb of None \<Rightarrow> n | Some m \<Rightarrow> m)"

lemma next_or_simps [simp]: "next_or None n = n" "next_or (Some m) n = m"
  by (simp_all add: next_or_def)

text \<open>
  The loop succeeds exactly on the names that the relation reads and that fit; then the array holds the
  labels from \<open>np\<close> on, and what precedes is kept.
\<close>

lemma get_name_loop_complete:
  assumes "decodes msg e p ls n" "np + wire_len ls \<le> 256" "length name = 256" "read_byte name np = Some 0"
  shows "\<exists>name'. get_name_loop msg p e name np nb = Some (name', Some (next_or nb n)) \<and> length name' = 256
    \<and> name_at name' np ls \<and> (\<forall>i k. i + k \<le> np \<longrightarrow> read_bytes name' i k = read_bytes name i k)"
  using assms
proof (induction arbitrary: np name nb rule: decodes.induct)
  case (dec_end p)
  then show ?case by (subst get_name_loop.simps) (auto simp: next_or_def split: option.split)
next
  case (dec_label l p ls n)
  have fits: "np + length l + 2 \<le> length name" "\<not> np + 1 + length l \<ge> MAX_DOMAIN_NAME"
    using dec_label.prems wire_len_pos [of ls] by (auto simp: MAX_DOMAIN_NAME_def simp del: wire_len_pos)
  obtain name1 where cp: "copy_bytes (Suc (length l)) name np msg p = Some name1"
    "set_byte name1 (Suc (np + length l)) 0 = Some (put_label name np l)"
    by (rule put_label_copy [OF dec_label.hyps(2,3) fits(1)])
  let ?name = "put_label name np l"
  note put = read_put_label [OF fits(1) dec_label.hyps(1)]
  have len: "length ?name = 256" using length_put_label [OF fits(1)] dec_label.prems by simp
  obtain name' where IH: "get_name_loop msg (Suc p + length l) e ?name (Suc (np + length l)) nb = Some (name', Some (next_or nb n))"
    "length name' = 256" "name_at name' (Suc (np + length l)) ls"
    "\<forall>i k. i + k \<le> Suc (np + length l) \<longrightarrow> read_bytes name' i k = read_bytes ?name i k"
    using dec_label.IH [of "Suc (np + length l)" ?name nb] dec_label.prems len put(3) by auto
  have "get_name_loop msg p e name np nb = Some (name', Some (next_or nb n))"
    using dec_label.hyps valid_label_less [of l] fits cp IH(1)
    by (subst get_name_loop.simps) (auto simp: and_C0_iff)
  moreover have "read_bytes name' np (Suc (length l)) = read_bytes ?name np (Suc (length l))"
    "\<And>i k. i + k \<le> np \<Longrightarrow> read_bytes name' i k = read_bytes name i k"
    using IH(4) put(4) by auto
  then have "name_at name' np (l # ls)"
    using IH(3) put(1,2) dec_label.hyps(1) read_bytes_Cons_iff [of name' np "length l" "of_nat (length l)" l]
      read_bytes_Cons_iff [of ?name np "length l" "of_nat (length l)" l] by auto
  ultimately show ?case using IH(2,4) put(4) by auto
next
  case (dec_ptr p hi lo t ls n)
  obtain name' where IH: "get_name_loop msg (pointer_offset hi lo) e name np (Some (next_or nb (Suc (Suc p)))) = Some (name', Some (next_or nb (Suc (Suc p))))"
    "length name' = 256" "name_at name' np ls"
    "\<forall>i k. i + k \<le> np \<longrightarrow> read_bytes name' i k = read_bytes name i k"
    using dec_ptr.IH [of np name "Some (next_or nb (Suc (Suc p)))"] dec_ptr.prems by auto
  have "(case nb of None \<Rightarrow> Some (p + 2) | Some n \<Rightarrow> Some n) = Some (next_or nb (Suc (Suc p)))"
    by (cases nb) auto
  then have "get_name_loop msg p e name np nb = Some (name', Some (next_or nb (Suc (Suc p))))"
    using dec_ptr.hyps IH(1)
    by (subst get_name_loop.simps) (auto simp: and_C0_iff not_le)
  with IH show ?case by auto
qed

lemma read_bytes_exists: "i + n \<le> length buf \<Longrightarrow> \<exists>bs. read_bytes buf i n = Some bs \<and> length bs = n"
  by (simp add: read_bytes_def)

lemma read_byte_exists: "i < length buf \<Longrightarrow> \<exists>b. read_byte buf i = Some b"
  by (simp add: read_byte_def)

text \<open>What \<open>get_name_loop\<close> returns on any message: a valid name in the array, and a position only for a
  name that the relation reads.\<close>

definition got_name :: "bytes \<Rightarrow> nat \<Rightarrow> nat \<Rightarrow> bytes \<Rightarrow> nat \<Rightarrow> nat option \<Rightarrow> bytes \<Rightarrow> nat option \<Rightarrow> bool" where
  "got_name msg p e name np nb name' r \<longleftrightarrow> length name' = 256
     \<and> (\<forall>i k. i + k \<le> np \<longrightarrow> read_bytes name' i k = read_bytes name i k)
     \<and> (\<exists>ls. name_at name' np ls \<and> np + wire_len ls \<le> 256
          \<and> (\<forall>q. r = Some q \<longrightarrow> (\<exists>n. decodes msg e p ls n \<and> q = next_or nb n)))"

lemma got_name_same:
  assumes "length name = 256" "read_byte name np = Some 0" "np < 256"
    "\<And>q. r = Some q \<Longrightarrow> \<exists>n. decodes msg e p [] n \<and> q = next_or nb n"
  shows "got_name msg p e name np nb name r"
  using assms unfolding got_name_def by (intro conjI exI [of _ "[]"]) auto

lemma got_name_label:
  assumes l: "valid_label l" "read_byte msg p = Some (of_nat (length l))" "read_bytes msg (Suc p) (length l) = Some l"
    and fits: "np + length l + 2 \<le> length name" "length name = 256" "Suc p + length l < e"
    and got: "got_name msg (Suc p + length l) e (put_label name np l) (Suc (np + length l)) nb name' r"
  shows "got_name msg p e name np nb name' r"
proof -
  let ?name = "put_label name np l"
  note put = read_put_label [OF fits(1) l(1)]
  obtain ls where ls: "length name' = 256" "name_at name' (Suc (np + length l)) ls" "Suc (np + length l) + wire_len ls \<le> 256"
    "\<forall>q. r = Some q \<longrightarrow> (\<exists>n. decodes msg e (Suc p + length l) ls n \<and> q = next_or nb n)"
    and keep: "\<And>i k. i + k \<le> Suc (np + length l) \<Longrightarrow> read_bytes name' i k = read_bytes ?name i k"
    using got by (auto simp: got_name_def)
  have "read_bytes name' np (Suc (length l)) = read_bytes ?name np (Suc (length l))" using keep by simp
  then have "name_at name' np (l # ls)"
    using ls(2) put(1,2) l(1) read_bytes_Cons_iff [of name' np "length l" "of_nat (length l)" l]
      read_bytes_Cons_iff [of ?name np "length l" "of_nat (length l)" l] by auto
  moreover have "\<exists>n. decodes msg e p (l # ls) n \<and> q = next_or nb n" if "r = Some q" for q
    using ls(4) that dec_label [OF l fits(3)] by blast
  moreover have "read_bytes name' i k = read_bytes name i k" if "i + k \<le> np" for i k
    using keep [of i k] put(4) that by simp
  ultimately show ?thesis using ls(1,3) unfolding got_name_def by (intro conjI exI [of _ "l # ls"]) auto
qed

lemma get_name_loop_safe:
  "p < e \<Longrightarrow> e < length msg \<Longrightarrow> np < 256 \<Longrightarrow> length name = 256 \<Longrightarrow> read_byte name np = Some 0 \<Longrightarrow>
     \<exists>name' r. get_name_loop msg p e name np nb = Some (name', r) \<and> got_name msg p e name np nb name' r"
proof (induction msg p e name np nb rule: get_name_loop.induct)
  case (1 msg p e name np nb)
  obtain b where b: "read_byte msg p = Some b" using read_byte_exists [of p msg] 1(3,4) by auto
  note same = got_name_same [OF 1(6,7,5)]
  consider "b = 0" | "b \<noteq> 0" "unat b < 64" | "64 \<le> unat b" "unat b < 192" | "192 \<le> unat b" by linarith
  then show ?case
  proof cases
    case 1
    have "got_name msg p e name np nb name (Some (next_or nb (Suc p)))"
      by (rule same) (use b 1 dec_end [of msg p e] in auto)
    moreover have "get_name_loop msg p e name np nb = Some (name, Some (next_or nb (Suc p)))"
      using b 1 by (subst get_name_loop.simps) (auto simp: next_or_def split: option.split)
    ultimately show ?thesis by blast
  next
    case 2
    let ?n = "unat b"
    have n0: "?n \<noteq> 0" using 2 by (simp add: unat_eq_zero)
    show ?thesis
    proof (cases "p + 1 + ?n \<ge> e \<or> np + 1 + ?n \<ge> MAX_DOMAIN_NAME")
      case True
      then show ?thesis using b 2 same [of None]
        by (subst get_name_loop.simps) (auto simp: and_C0_iff)
    next
      case False
      then obtain l where l: "read_bytes msg (Suc p) ?n = Some l" "length l = ?n"
        using read_bytes_exists [of "Suc p" ?n msg] 1(4) by auto
      have v: "valid_label l" using l n0 2 by (simp add: valid_label_def)
      have rb: "read_byte msg p = Some (of_nat (length l))" using b l(2) by simp
      have rl: "read_bytes msg (Suc p) (length l) = Some l" using l by simp
      have fits: "np + length l + 2 \<le> length name" "Suc p + length l < e"
        using False l 1(6) by (auto simp: MAX_DOMAIN_NAME_def)
      obtain name1 where cp: "copy_bytes (Suc (length l)) name np msg p = Some name1"
        "set_byte name1 (Suc (np + length l)) 0 = Some (put_label name np l)"
        by (rule put_label_copy [OF rb rl fits(1)])
      note put = read_put_label [OF fits(1) v]
      have len: "length (put_label name np l) = 256" using length_put_label [OF fits(1)] 1(6) by simp
      have zero: "read_byte (put_label name np l) (np + 1 + ?n) = Some 0" using put(3) l by simp
      have "\<exists>name' r. get_name_loop msg (p + 1 + ?n) e (put_label name np l) (np + 1 + ?n) nb = Some (name', r)
          \<and> got_name msg (p + 1 + ?n) e (put_label name np l) (np + 1 + ?n) nb name' r"
      proof (rule 1(1) [OF b 2(1)])
        show "b AND 0xC0 = 0" using 2 by (simp add: and_C0_iff)
        show "\<not> e \<le> p + 1 + ?n" "\<not> MAX_DOMAIN_NAME \<le> np + 1 + ?n" using False by auto
        show "copy_bytes (?n + 1) name np msg p = Some name1" using cp(1) l by simp
        show "set_byte name1 (np + 1 + ?n) 0 = Some (put_label name np l)" using cp(2) l by simp
        show "p + 1 + ?n < e" "np + 1 + ?n < 256" using False by (auto simp: MAX_DOMAIN_NAME_def)
      qed (fact 1(4) len zero)+
      then obtain name' r where r: "get_name_loop msg (p + 1 + ?n) e (put_label name np l) (np + 1 + ?n) nb = Some (name', r)"
        "got_name msg (p + 1 + ?n) e (put_label name np l) (np + 1 + ?n) nb name' r" by blast
      have "get_name_loop msg p e name np nb = Some (name', r)"
        using b 2 False cp r(1) l(2) by (subst get_name_loop.simps) (auto simp: and_C0_iff)
      moreover have "got_name msg p e name np nb name' r"
        by (rule got_name_label [OF v rb rl fits(1) 1(6) fits(2)]) (use l(2) r(2) in simp)
      ultimately show ?thesis by blast
    qed
  next
    case 3
    then show ?thesis using b same [of None]
      by (subst get_name_loop.simps) (auto simp: and_C0_iff)
  next
    case 4
    obtain lo where lo: "read_byte msg (Suc p) = Some lo" using read_byte_exists [of "Suc p" msg] 1(3,4) by auto
    let ?t = "pointer_offset b lo"
    show ?thesis
    proof (cases "?t \<ge> e")
      case True
      then show ?thesis using b 4 lo same [of None]
        by (subst get_name_loop.simps) (auto simp: and_C0_iff)
    next
      case False
      then obtain t where t: "read_byte msg ?t = Some t" using read_byte_exists [of ?t msg] 1(4) by auto
      show ?thesis
      proof (cases "unat t < 64")
        case False': False
        then show ?thesis using b 4 lo False t same [of None]
          by (subst get_name_loop.simps) (auto simp: and_C0_iff)
      next
        case True
        let ?nb = "case nb of None \<Rightarrow> Some (p + 2) | Some n \<Rightarrow> Some n"
        have nb: "next_or ?nb n = next_or nb (Suc (Suc p))" for n by (cases nb) auto
        have "\<exists>name' r. get_name_loop msg ?t e name np ?nb = Some (name', r) \<and> got_name msg ?t e name np ?nb name' r"
          by (rule 1(2) [OF b]) (use 4 lo t False True 1(4-7) in \<open>auto simp: and_C0_iff\<close>)
        then obtain name' r where r: "get_name_loop msg ?t e name np ?nb = Some (name', r)"
          "got_name msg ?t e name np ?nb name' r" by blast
        have "get_name_loop msg p e name np nb = Some (name', r)"
          using b 4 lo t False True r(1) by (subst get_name_loop.simps) (auto simp: and_C0_iff)
        moreover have "got_name msg p e name np nb name' r"
        proof -
          obtain ls where ls: "length name' = 256" "name_at name' np ls" "np + wire_len ls \<le> 256"
            "\<forall>i k. i + k \<le> np \<longrightarrow> read_bytes name' i k = read_bytes name i k"
            "\<forall>q. r = Some q \<longrightarrow> (\<exists>n. decodes msg e ?t ls n \<and> q = next_or ?nb n)"
            using r(2) by (auto simp: got_name_def)
          have "\<exists>n. decodes msg e p ls n \<and> q = next_or nb n" if "r = Some q" for q
          proof -
            note rq = that
            obtain n where n: "decodes msg e ?t ls n" "q = next_or ?nb n" using ls(5) rq by blast
            then have "decodes msg e p ls (Suc (Suc p))"
              using dec_ptr [OF b 4 lo _ t True] False by simp
            then show ?thesis using n(2) nb by blast
          qed
          with ls(1-4) show ?thesis unfolding got_name_def by (intro conjI exI [of _ ls]) blast+
        qed
        ultimately show ?thesis by blast
      qed
    qed
  qed
qed

section \<open>skipDomainName\<close>

lemma skip_name_loop_decodes:
  "decodes msg e p ls n \<Longrightarrow> tot + wire_len ls \<le> 256 \<Longrightarrow> skip_name_loop msg p e tot = Some (Some n)"
proof (induction arbitrary: tot rule: decodes.induct)
  case (dec_end p)
  then show ?case by (subst skip_name_loop.simps) simp
next
  case (dec_label l p ls n)
  have "skip_name_loop msg (Suc p + length l) e (tot + 1 + length l) = Some (Some n)"
    using dec_label.IH dec_label.prems by simp
  moreover have "\<not> tot + 1 + length l \<ge> MAX_DOMAIN_NAME"
    using dec_label.prems wire_len_pos [of ls] by (simp add: MAX_DOMAIN_NAME_def del: wire_len_pos)
  ultimately show ?case using dec_label.hyps valid_label_less [of l]
    by (subst skip_name_loop.simps) (auto simp: and_C0_iff)
next
  case (dec_ptr p hi lo t ls n)
  then show ?case by (subst skip_name_loop.simps) (auto simp: and_C0_iff)
qed

lemma skip_name_loop_bound:
  "p < e \<Longrightarrow> e \<le> length msg \<Longrightarrow> \<exists>r. skip_name_loop msg p e tot = Some r \<and> (\<forall>q. r = Some q \<longrightarrow> p < q \<and> q \<le> Suc e)"
proof (induction msg p e tot rule: skip_name_loop.induct)
  case (1 msg p e tot)
  obtain b where b: "read_byte msg p = Some b" using read_byte_exists [of p msg] 1(2,3) by auto
  consider "b = 0" | "b \<noteq> 0" "unat b < 64" | "64 \<le> unat b" by linarith
  then show ?case
  proof cases
    case 2
    show ?thesis
    proof (cases "p + 1 + unat b \<ge> e \<or> tot + 1 + unat b \<ge> MAX_DOMAIN_NAME")
      case True
      then show ?thesis using b 2 by (subst skip_name_loop.simps) (auto simp: and_C0_iff)
    next
      case False
      then have "\<exists>r. skip_name_loop msg (p + 1 + unat b) e (tot + 1 + unat b) = Some r
          \<and> (\<forall>q. r = Some q \<longrightarrow> p + 1 + unat b < q \<and> q \<le> Suc e)"
        using 1(1) [OF b] 1(3) 2 by (auto simp: and_C0_iff)
      then show ?thesis using b 2 False by (subst skip_name_loop.simps) (auto simp: and_C0_iff)
    qed
  qed (use b 1(2) in \<open>subst skip_name_loop.simps; auto simp: and_C0_iff\<close>)+
qed

section \<open>Appending names\<close>

text \<open>DNSCommon.c: appending a name to another one appends its labels, as long as the result fits in 256 bytes.\<close>

definition body :: "bytes list \<Rightarrow> bytes" where "body ls = concat (map wire_label ls)"

lemma length_body [simp]: "length (body ls) = wire_len ls - 1"
  by (induction ls) (auto simp: body_def wire_label_def Suc_le_eq)

lemma wire_append: "wire (xs @ ys) = body xs @ wire ys"
  by (simp add: wire_def body_def)

lemma name_at_append:
  "name_at buf i (xs @ ys) \<longleftrightarrow>
     (\<forall>l \<in> set xs. valid_label l) \<and> read_bytes buf i (wire_len xs - 1) = Some (body xs) \<and> name_at buf (i + (wire_len xs - 1)) ys"
proof -
  have "wire_len (xs @ ys) = length (body xs) + length (wire ys)"
    using wire_len_pos [of xs] by (simp add: wire_len_append del: wire_len_pos)
  then show ?thesis
    using read_bytes_append_iff [of buf i "body xs" "wire ys"] by (auto simp: name_at_iff wire_append)
qed

lemma append_name_loop_name:
  "name_at app src ys \<Longrightarrow> length name = 256 \<Longrightarrow> read_byte name ptr = Some 0 \<Longrightarrow>
     \<exists>name'. length name' = 256 \<and> (\<forall>i k. i + k \<le> ptr \<longrightarrow> read_bytes name' i k = read_bytes name i k) \<and>
       (if ptr + wire_len ys \<le> 256
        then append_name_loop name ptr app src = Some (name', Some (ptr + (wire_len ys - 1))) \<and> name_at name' ptr ys
        else append_name_loop name ptr app src = Some (name', None))"
proof (induction ys arbitrary: src name ptr)
  case Nil
  then show ?case using read_byteD [of name ptr 0] by (subst (1 2) append_name_loop.simps) auto
next
  case (Cons l ys)
  then have v: "valid_label l" "read_byte app src = Some (of_nat (length l))" "read_bytes app (Suc src) (length l) = Some l"
    and rest: "name_at app (Suc src + length l) ys" by auto
  show ?case
  proof (cases "ptr + 1 + length l > 255")
    case True
    then have "append_name_loop name ptr app src = Some (name, None)"
      using v by (subst append_name_loop.simps) (simp add: MAX_DOMAIN_NAME_def)
    moreover have "\<not> ptr + wire_len (l # ys) \<le> 256" using True wire_len_pos [of ys] by (simp del: wire_len_pos)
    ultimately show ?thesis using Cons.prems by auto
  next
    case False
    then have fits: "ptr + length l + 2 \<le> length name" using Cons.prems by simp
    obtain name1 where cp: "copy_bytes (Suc (length l)) name ptr app src = Some name1"
      "set_byte name1 (Suc (ptr + length l)) 0 = Some (put_label name ptr l)"
      by (rule put_label_copy [OF v(2,3) fits])
    let ?name = "put_label name ptr l"
    note put = read_put_label [OF fits v(1)]
    have loop: "append_name_loop name ptr app src = append_name_loop ?name (Suc ptr + length l) app (Suc src + length l)"
      using v cp False by (subst append_name_loop.simps) (simp add: MAX_DOMAIN_NAME_def add_ac)
    obtain name' where IH: "length name' = 256"
      "\<forall>i k. i + k \<le> Suc ptr + length l \<longrightarrow> read_bytes name' i k = read_bytes ?name i k"
      "if Suc ptr + length l + wire_len ys \<le> 256
       then append_name_loop ?name (Suc ptr + length l) app (Suc src + length l) = Some (name', Some (Suc ptr + length l + (wire_len ys - 1)))
         \<and> name_at name' (Suc ptr + length l) ys
       else append_name_loop ?name (Suc ptr + length l) app (Suc src + length l) = Some (name', None)"
      using Cons.IH [OF rest, of ?name "Suc ptr + length l"] length_put_label [OF fits] Cons.prems put(3) by auto
    have keep: "read_bytes name' i k = read_bytes name i k" if "i + k \<le> ptr" for i k
      using IH(2) put(4) that by auto
    have "read_bytes name' ptr (Suc (length l)) = read_bytes ?name ptr (Suc (length l))" using IH(2) by auto
    then have "read_byte name' ptr = Some (of_nat (length l))" "read_bytes name' (Suc ptr) (length l) = Some l"
      using put(1,2) read_bytes_Cons_iff [of name' ptr "length l" "of_nat (length l)" l]
        read_bytes_Cons_iff [of ?name ptr "length l" "of_nat (length l)" l] by auto
    then show ?thesis using IH(1,3) keep v(1) loop wire_len_pos [of ys]
      by (intro exI [of _ name']) (auto simp del: wire_len_pos split: if_splits)
  qed
qed

lemma AppendDomainName_name:
  assumes "name_at name 0 xs" "length name = 256" "name_at app p ys"
  shows "\<exists>name'. length name' = 256 \<and>
    (if wire_len (xs @ ys) \<le> 256
     then AppendDomainName name app p = Some (name', Some (wire_len (xs @ ys) - 1)) \<and> name_at name' 0 (xs @ ys)
     else AppendDomainName name app p = Some (name', None))"
proof -
  have w: "wire_len xs \<le> 256" using name_at_bound [OF assms(1)] assms(2) by simp
  obtain n where n: "DomainNameLength name 0 = Some n" "unat n = wire_len xs"
    using DomainNameLength_unat [OF assms(1) w] by blast
  have at: "(\<forall>l \<in> set xs. valid_label l) \<and> read_bytes name 0 (wire_len xs - 1) = Some (body xs) \<and> read_byte name (wire_len xs - 1) = Some 0"
    using assms(1) name_at_append [of name 0 xs "[]"] by simp
  obtain name' where l: "length name' = 256"
    "\<forall>i k. i + k \<le> wire_len xs - 1 \<longrightarrow> read_bytes name' i k = read_bytes name i k"
    "if wire_len xs - 1 + wire_len ys \<le> 256
     then append_name_loop name (wire_len xs - 1) app p = Some (name', Some (wire_len xs - 1 + (wire_len ys - 1)))
       \<and> name_at name' (wire_len xs - 1) ys
     else append_name_loop name (wire_len xs - 1) app p = Some (name', None)"
    using append_name_loop_name [OF assms(3,2), of "wire_len xs - 1"] at by blast
  have e: "wire_len (xs @ ys) = wire_len xs - 1 + wire_len ys" "wire_len xs - 1 + wire_len ys - 1 = wire_len xs - 1 + (wire_len ys - 1)"
    using wire_len_pos [of xs] wire_len_pos [of ys] by (simp_all add: wire_len_append del: wire_len_pos)
  have app: "AppendDomainName name app p = append_name_loop name (wire_len xs - 1) app p"
    using n by (simp add: AppendDomainName_def)
  have "read_bytes name' 0 (wire_len xs - 1) = Some (body xs)" using l(2) at by simp
  then have at': "name_at name' 0 (xs @ ys) \<longleftrightarrow> name_at name' (wire_len xs - 1) ys" using at unfolding name_at_append add_0 by blast
  show ?thesis
    by (rule exI [of _ name']) (use l(1,3) at' in \<open>auto simp only: e app split: if_splits\<close>)
qed

end
