(* ===== verification/Dns_Compress.thy ===== *)
theory Dns_Compress imports Dns_Decode begin

text \<open>
  Name compression: a position that \<open>FindCompressionPointer\<close> returns reads as the name searched for, and
  what \<open>putDomainNameAsLabels\<close> writes reads as the name written.
\<close>

section \<open>Finding a name\<close>

definition agree_below :: "nat \<Rightarrow> bytes \<Rightarrow> bytes \<Rightarrow> bool" where
  "agree_below e a b \<longleftrightarrow> (\<forall>i < e. read_byte a i = read_byte b i)"

lemma agree_below_refl [simp]: "agree_below e a a"
  by (simp add: agree_below_def)

lemma agree_below_byte: "agree_below e a b \<Longrightarrow> i < e \<Longrightarrow> read_byte a i = read_byte b i"
  by (simp add: agree_below_def)

lemma agree_below_bytes:
  "agree_below e a b \<Longrightarrow> read_bytes b i (length bs) = Some bs \<Longrightarrow> i + length bs \<le> e \<Longrightarrow> read_bytes a i (length bs) = Some bs"
proof (induction bs arbitrary: i)
  case Nil
  then show ?case
  proof (cases i)
    case (Suc k)
    then have "read_byte a k = read_byte b k" using Nil by (simp add: agree_below_def)
    with Nil Suc show ?thesis by (auto simp: read_bytes_Some_iff read_byte_def split: if_splits)
  qed (simp add: read_bytes_Some_iff)
next
  case (Cons c cs)
  then show ?case by (auto simp: read_bytes_Cons_iff agree_below_byte)
qed

lemma equal_bytes_true:
  "equal_bytes n a i b j = Some True \<Longrightarrow> read_bytes b j n = Some bs \<Longrightarrow> i \<le> length a \<Longrightarrow> read_bytes a i n = Some bs"
proof (induction n arbitrary: i j bs)
  case 0
  then show ?case by (auto simp: read_bytes_Some_iff)
next
  case (Suc n)
  then obtain c cs where bs: "bs = c # cs" by (cases bs) (auto dest: read_bytes_length)
  with Suc.prems have r: "read_byte b j = Some c" "read_bytes b (Suc j) n = Some cs" by (auto simp: read_bytes_Cons_iff)
  with Suc.prems have "read_byte a i = Some c" "equal_bytes n a (Suc i) b (Suc j) = Some True"
    by (auto split: if_splits)
  moreover from this have "Suc i \<le> length a" by (auto dest: read_byteD)
  ultimately show ?case using Suc.IH r bs by (auto simp: read_bytes_Cons_iff)
qed

lemma follow_pointer_targets:
  assumes "follow_pointer base e targ t = Some (Some targ')" "read_byte base targ = Some t"
  shows "targ' = targ \<and> unat t < 64 \<or> (192 \<le> unat t \<and> targ + 1 < e \<and> (\<exists>lo b. read_byte base (Suc targ) = Some lo
    \<and> targ' = pointer_offset t lo \<and> targ' \<le> targ \<and> read_byte base targ' = Some b \<and> unat b < 64))"
  using assms by (auto simp: follow_pointer_def word_less_nat_alt word_le_nat_alt Let_def split: if_splits)

text \<open>
  The search looks at the byte at \<open>e\<close>, behind the message written so far.  It passes for the end of the name if it
  is zero and the last label of the name happens to stand directly before it.
\<close>

definition stale_end :: "bytes \<Rightarrow> nat \<Rightarrow> bytes list \<Rightarrow> bool" where
  "stale_end msg e ls \<longleftrightarrow> ls \<noteq> [] \<and> read_byte msg e = Some 0 \<and> Suc (length (last ls)) \<le> e
     \<and> read_bytes msg (e - Suc (length (last ls))) (Suc (length (last ls))) = Some (wire_label (last ls))"

lemma stale_end_Cons: "ls \<noteq> [] \<Longrightarrow> stale_end msg e (l # ls) \<longleftrightarrow> stale_end msg e ls"
  by (simp add: stale_end_def)

lemma stale_endI: "read_byte msg e = Some 0 \<Longrightarrow> Suc (targ + length l) = e \<Longrightarrow>
    read_bytes msg targ (Suc (length l)) = Some (of_nat (length l) # l) \<Longrightarrow> stale_end msg e [l]"
  by (auto simp: stale_end_def wire_label_def)

lemma match_labels_decodes:
  assumes "match_labels base e name np targ = Some True" "name_at name np ls" "ls \<noteq> []"
    "\<not> stale_end base e ls" "e \<le> length base" "agree_below e base' base"
  shows "\<exists>n. decodes base' e targ ls n"
  using assms(1-4)
proof (induction ls arbitrary: np targ)
  case Nil
  then show ?case by simp
next
  case (Cons l ls)
  let ?np = "Suc np + length l" let ?t = "Suc targ + length l"
  have l: "valid_label l" "read_byte name np = Some (of_nat (length l))" "read_bytes name (Suc np) (length l) = Some l"
    and rest: "name_at name ?np ls"
    using Cons.prems by auto
  have len: "unat (of_nat (length l) :: u8) = length l" using l by simp
  obtain n where n: "read_byte name ?np = Some n" "n = 0 \<longleftrightarrow> ls = []"
    using rest by (cases ls) auto
  have m: "targ + length l < e" "equal_bytes (length l + 1) base targ name np = Some True"
    using Cons.prems(1) l len
    by (subst (asm) (1) match_labels.simps; auto split: if_splits option.splits)+
  have "read_bytes name np (Suc (length l)) = Some (of_nat (length l) # l)"
    using l by (simp add: read_bytes_Cons_iff)
  then have whole: "read_bytes base targ (Suc (length l)) = Some (of_nat (length l) # l)"
    using equal_bytes_true [of "Suc (length l)" base targ name np] m assms(5) by simp
  then have bl: "read_byte base targ = Some (of_nat (length l))" "read_bytes base (Suc targ) (length l) = Some l"
    by (auto simp: read_bytes_Cons_iff)
  have bl': "read_byte base' targ = Some (of_nat (length l))" "read_bytes base' (Suc targ) (length l) = Some l"
    using bl m(1) agree_below_byte [OF assms(6)] agree_below_bytes [OF assms(6), of "Suc targ" l] by auto
  obtain t where t: "read_byte base ?t = Some t"
    using Cons.prems(1) l len m n
    by (subst (asm) (1) match_labels.simps) (auto split: if_splits option.splits)
  show ?case
  proof (cases "ls = []")
    case True
    then have "t = 0" using Cons.prems(1) l len m n t
      by (subst (asm) (1) match_labels.simps) (auto split: if_splits option.splits)
    have "?t \<noteq> e"
    proof
      assume "?t = e"
      then have "stale_end base e [l]" using stale_endI [of base e targ l] t whole \<open>t = 0\<close> by simp
      with Cons.prems(4) True show False by simp
    qed
    then have "?t < e" using m(1) by simp
    then have "decodes base' e ?t [] (Suc ?t)" using t \<open>t = 0\<close> agree_below_byte [OF assms(6)] by (auto intro: dec_end)
    then show ?thesis using dec_label [OF l(1) bl' \<open>?t < e\<close>] True by auto
  next
    case False
    obtain targ' where f: "follow_pointer base e ?t t = Some (Some targ')"
      and rec: "match_labels base e name ?np targ' = Some True"
      using Cons.prems(1) l len m n t False
      by (subst (asm) (1) match_labels.simps) (auto split: if_splits option.splits)
    obtain k where k: "decodes base' e targ' ls k" using Cons.IH [OF rec rest False] Cons.prems(4) stale_end_Cons [OF False] by blast
    obtain len' where "read_byte name ?np = Some len'" "targ' + unat len' < e" "len' \<noteq> 0"
      using rec n False by (subst (asm) (1) match_labels.simps) (auto split: if_splits option.splits)
    then have te: "targ' < e" by simp
    from follow_pointer_targets [OF f t] show ?thesis
    proof (elim disjE exE conjE)
      assume "targ' = ?t"
      then show ?thesis using dec_label [OF l(1) bl' _ k [unfolded \<open>targ' = ?t\<close>]] te by auto
    next
      fix lo b
      assume p: "192 \<le> unat t" "?t + 1 < e" "read_byte base (Suc ?t) = Some lo" "targ' = pointer_offset t lo"
        "read_byte base targ' = Some b" "unat b < 64"
      have d: "decodes base' e ?t ls (Suc (Suc ?t))"
        by (rule dec_ptr [of _ _ t lo _ b])
          (use p t k te agree_below_byte [OF assms(6)] in auto)
      have "?t < e" using p(2) by simp
      then show ?thesis using dec_label [OF l(1) bl' _ d] by blast
    qed
  qed
qed

lemma find_from_match:
  "find_from k base e name np = Some (Some r) \<Longrightarrow> r < k \<and> match_labels base e name np r = Some True"
  by (induction k) (auto split: if_splits simp: less_SucI)

lemma FindCompressionPointer_decodes:
  assumes "FindCompressionPointer base e name np = Some (Some r)" "name_at name np ls" "ls \<noteq> []"
    "\<not> stale_end base e ls" "e \<le> length base"
  shows "r < e" "match_labels base e name np r = Some True"
    "agree_below e base' base \<Longrightarrow> \<exists>n. decodes base' e r ls n" "\<exists>b. read_byte base r = Some b \<and> unat b < 64"
proof -
  obtain l ls' where ls: "ls = l # ls'" using assms(3) by (cases ls) auto
  then have l: "read_byte name np = Some (of_nat (length l))" "valid_label l" using assms(2) by auto
  have f: "r < e - length l \<and> match_labels base e name np r = Some True"
    using find_from_match [of "e - length l" base e name np r] assms(1) l
    by (auto simp: FindCompressionPointer_def split: if_splits)
  then show "r < e" "match_labels base e name np r = Some True" by auto
  then show d: "\<exists>n. decodes base' e r ls n" if "agree_below e base' base" for base'
    using match_labels_decodes [OF _ assms(2-5) that] by blast
  obtain n where "decodes base e r ls n" using d [OF agree_below_refl] by blast
  moreover have "read_byte base r = Some (of_nat (length l))"
    using f l valid_label_less by (subst (asm) match_labels.simps) (auto split: if_splits option.splits)
  ultimately show "\<exists>b. read_byte base r = Some b \<and> unat b < 64" using l(2) valid_label_less(1) by auto
qed

section \<open>The search stays within the message\<close>

lemma equal_bytes_some:
  "i + n \<le> length a \<Longrightarrow> j + n \<le> length b \<Longrightarrow> \<exists>r. equal_bytes n a i b j = Some r"
proof (induction n arbitrary: i j)
  case (Suc n)
  have "\<exists>r. equal_bytes n a (Suc i) b (Suc j) = Some r" by (rule Suc.IH) (use Suc.prems in simp_all)
  then obtain r where "equal_bytes n a (Suc i) b (Suc j) = Some r" ..
  moreover obtain x y where "read_byte a i = Some x" "read_byte b j = Some y"
    using Suc.prems by (auto simp: read_byte_def)
  ultimately show ?case by (cases "x = y") auto
qed auto

lemma follow_pointer_some:
  assumes "targ \<le> e" "e < length base"
  shows "\<exists>r. follow_pointer base e targ t = Some r"
  using assms by (auto simp: follow_pointer_def read_byte_def Let_def)

lemma match_labels_some:
  "name_at name np ls \<Longrightarrow> ls \<noteq> [] \<Longrightarrow> e < length base \<Longrightarrow> \<exists>r. match_labels base e name np targ = Some r"
proof (induction ls arbitrary: np targ)
  case (Cons l ls)
  let ?np = "Suc np + length l" let ?t = "Suc targ + length l"
  have l: "valid_label l" "read_byte name np = Some (of_nat (length l))" and rest: "name_at name ?np ls"
    using Cons.prems by auto
  have len: "unat (of_nat (length l) :: u8) = length l" using l by simp
  obtain n where n: "read_byte name ?np = Some n" "n = 0 \<longleftrightarrow> ls = []" using rest by (cases ls) auto
  show ?case
  proof (cases "targ + length l < e")
    case False
    then have "match_labels base e name np targ = Some False"
      using l len by (subst match_labels.simps) simp
    then show ?thesis ..
  next
    case True
    obtain r where r: "equal_bytes (length l + 1) base targ name np = Some r"
      using equal_bytes_some [of targ "length l + 1" base np name] True Cons.prems(3) name_at_bound [OF rest] wire_len_pos [of ls]
      by auto
    obtain t where t: "read_byte base ?t = Some t" using True Cons.prems(3) read_byte_exists [of ?t base] by auto
    obtain f where f: "follow_pointer base e ?t t = Some f"
      using follow_pointer_some [of ?t e base t] True Cons.prems(3) by auto
    have IH: "\<exists>r. match_labels base e name ?np targ' = Some r" if "ls \<noteq> []" for targ'
      using Cons.IH [OF rest that Cons.prems(3)] .
    show ?thesis
      using l len True r t f n IH by (subst match_labels.simps) (auto split: option.splits)
  qed
qed simp

lemma find_from_some:
  assumes "name_at name np ls" "ls \<noteq> []" "e < length base" "k \<le> e"
  shows "\<exists>r. find_from k base e name np = Some r"
  using assms(4)
proof (induction k)
  case (Suc k)
  obtain l ls' where ls: "ls = l # ls'" using assms(2) by (cases ls) auto
  have "np + 1 < length name"
    using name_at_bound [OF assms(1)] ls wire_len_pos [of ls'] assms(1) valid_label_less(2) [of l]
    by (simp del: wire_len_pos)
  then obtain r0 d0 r1 d1 where "read_byte base k = Some r0" "read_byte name np = Some d0"
    "read_byte base (k + 1) = Some r1" "read_byte name (np + 1) = Some d1"
    using Suc.prems assms(3) by (auto simp: read_byte_def)
  moreover obtain h where "match_labels base e name np k = Some h" using match_labels_some [OF assms(1-3)] by blast
  moreover obtain r where "find_from k base e name np = Some r" using Suc by auto
  ultimately show ?case by (cases h) auto
qed simp

lemma FindCompressionPointer_some:
  assumes "name_at name np ls" "ls \<noteq> []" "e < length base"
  shows "\<exists>r. FindCompressionPointer base e name np = Some r"
proof -
  obtain l ls' where "ls = l # ls'" using assms(2) by (cases ls) auto
  then show ?thesis
    using find_from_some [OF assms, of "e - length l"] assms(1) by (auto simp: FindCompressionPointer_def)
qed

section \<open>Writing a name\<close>

lemma pointer_bytes:
  assumes "r < 0x4000"
  shows "pointer_offset (0xC0 OR ucast (drop_bit 8 (of_nat r :: u16))) (ucast ((of_nat r :: u16) AND 0xFF)) = r"
    "192 \<le> unat (0xC0 OR ucast (drop_bit 8 (of_nat r :: u16)) :: u8)"
proof -
  define hi :: u8 where "hi = ucast (drop_bit 8 (of_nat r :: u16))"
  have r16: "unat (of_nat r :: u16) = r" using assms by (simp add: unat_of_nat)
  have "unat (drop_bit 8 (of_nat r :: u16)) = drop_bit 8 (take_bit 16 r)"
    by (simp only: unsigned_drop_bit_eq) (use assms in \<open>simp add: unsigned_of_nat take_bit_nat_eq_self\<close>)
  then have "unat (drop_bit 8 (of_nat r :: u16)) = r div 256"
    using assms by (simp add: take_bit_nat_eq_self drop_bit_eq_div)
  then have hi: "unat hi = r div 256"
    unfolding hi_def unsigned_ucast_eq using assms by (simp add: take_bit_nat_eq_self)
  have hi64: "hi AND 0xC0 = 0" using hi assms by (simp add: and_C0_iff)
  have m: "hi = hi AND 0x3F"
  proof (rule bit_word_eqI)
    fix n assume "n < LENGTH(8)"
    then have n: "n \<in> {0, 1, 2, 3, 4, 5, 6, 7}" by auto
    have "\<not> bit hi 6" "\<not> bit hi 7"
      using arg_cong [OF hi64, of "\<lambda>w. bit w 6"] arg_cong [OF hi64, of "\<lambda>w. bit w 7"] by (auto simp: bit_simps)
    with n show "bit hi n = bit (hi AND 0x3F) n" by (elim insertE) (simp_all add: bit_simps)
  qed
  have "(0xC0 OR hi) AND 0x3F = hi AND 0x3F"
    by (simp add: bit.conj_disj_distrib2)
  then have a: "(0xC0 OR hi) AND 0x3F = hi" using m by simp
  have lo: "unat (ucast ((of_nat r :: u16) AND 0xFF) :: u8) = r mod 256"
  proof -
    have "(of_nat r :: u16) AND 0xFF = take_bit 8 (of_nat r)" by (simp add: take_bit_eq_mask mask_eq_exp_minus_1)
    then have "unat ((of_nat r :: u16) AND 0xFF) = take_bit 8 r"
      using r16 by (simp only: unsigned_take_bit_eq)
    then show ?thesis by (simp add: unsigned_ucast_eq take_bit_eq_mod)
  qed
  show "pointer_offset (0xC0 OR ucast (drop_bit 8 (of_nat r :: u16))) (ucast ((of_nat r :: u16) AND 0xFF)) = r"
    unfolding pointer_offset_def hi_def [symmetric] a hi lo by simp
  have "(0xC0 OR hi) AND 0xC0 = 0xC0" by (simp add: bit.conj_disj_distrib2 hi64)
  then show "192 \<le> unat (0xC0 OR ucast (drop_bit 8 (of_nat r :: u16)) :: u8)"
    unfolding hi_def [symmetric] by (simp only: and_C0_iff)
qed

text \<open>What writing the labels \<open>ls\<close> at \<open>ptr\<close> does: nothing below \<open>ptr\<close>, and the labels stand there if a pointer returns.\<close>

definition puts_name :: "bytes \<Rightarrow> nat \<Rightarrow> nat \<Rightarrow> bytes list \<Rightarrow> bytes \<Rightarrow> nat option \<Rightarrow> bool" where
  "puts_name msg ptr limit ls msg' r \<longleftrightarrow> length msg' = length msg \<and> agree_below ptr msg' msg
     \<and> (\<forall>q. r = Some q \<longrightarrow> ptr < q \<and> q \<le> limit \<and> decodes msg' q ptr ls q)
     \<and> (ptr + wire_len ls \<le> limit \<longrightarrow> r \<noteq> None)"

lemma puts_name_none: "limit < ptr + wire_len ls \<Longrightarrow> puts_name msg ptr limit ls msg None"
  by (simp add: puts_name_def)

lemma set_byte_some: "i < length buf \<Longrightarrow> set_byte buf i v = Some (buf[i := v])"
  by (simp add: set_byte_def)

lemma agree_below_trans: "agree_below e a b \<Longrightarrow> agree_below e' b c \<Longrightarrow> e' \<le> e \<Longrightarrow> agree_below e' a c"
  by (auto simp: agree_below_def)

lemma agree_below_mono: "agree_below e a b \<Longrightarrow> e' \<le> e \<Longrightarrow> agree_below e' a b"
  by (auto simp: agree_below_def)

lemma agree_below_write:
  assumes "p + length bs \<le> length buf"
  shows "agree_below p (write_bytes buf p bs) buf"
  using assms by (auto simp: agree_below_def read_byte_def write_bytes_def nth_append)

lemma puts_name_pointer:
  assumes "FindCompressionPointer msg start name np = Some (Some r)" "name_at name np ls" "ls \<noteq> []"
    "\<not> stale_end msg start ls" "start < 0x4000" "start \<le> ptr" "ptr + 2 \<le> limit" "limit \<le> length msg"
  shows "\<exists>msg'. (do {
      msg \<leftarrow> set_byte msg ptr (0xC0 OR ucast (drop_bit 8 (of_nat r :: u16)));
      msg \<leftarrow> set_byte msg (ptr + 1) (ucast ((of_nat r :: u16) AND 0xFF));
      Some (msg, Some (ptr + 2)) }) = Some (msg', Some (ptr + 2)) \<and> puts_name msg ptr limit ls msg' (Some (ptr + 2))"
proof -
  let ?hi = "0xC0 OR ucast (drop_bit 8 (of_nat r :: u16)) :: u8"
  let ?lo = "ucast ((of_nat r :: u16) AND 0xFF) :: u8"
  let ?msg = "msg[ptr := ?hi, Suc ptr := ?lo]"
  have agree: "agree_below ptr ?msg msg"
    by (auto simp: agree_below_def read_byte_def)
  note find = FindCompressionPointer_decodes [OF assms(1-4)]
  have r: "r < start" using find(1) assms(6-8) by simp
  have "agree_below start ?msg msg" using agree assms(6) by (rule agree_below_mono)
  then obtain n where "decodes ?msg start r ls n" using find(3) assms(6-8) by auto
  then have d: "decodes ?msg (ptr + 2) r ls n" by (rule decodes_mono) (use assms(6) in simp)
  obtain b where b: "read_byte msg r = Some b" "unat b < 64" using find(4) assms(6-8) by auto
  have po: "pointer_offset ?hi ?lo = r" "192 \<le> unat ?hi" using pointer_bytes [of r] r assms(5) by auto
  have "decodes ?msg (ptr + 2) ptr ls (Suc (Suc ptr))"
  proof (rule dec_ptr [of ?msg ptr ?hi ?lo])
    show "read_byte ?msg ptr = Some ?hi" "read_byte ?msg (Suc ptr) = Some ?lo"
      using assms(7,8) by (auto simp: read_byte_def)
    show "read_byte ?msg (pointer_offset ?hi ?lo) = Some b" unfolding po(1)
      using b(1) agree_below_byte [OF agree, of r] r assms(6) by simp
    show "pointer_offset ?hi ?lo < ptr + 2" unfolding po(1) using r assms(6) by simp
    show "decodes ?msg (ptr + 2) (pointer_offset ?hi ?lo) ls n" unfolding po(1) by (rule d)
  qed (use po(2) b(2) in auto)
  then have "puts_name msg ptr limit ls ?msg (Some (ptr + 2))"
    using assms(7) agree by (simp add: puts_name_def)
  then show ?thesis using assms(7,8) by (intro exI [of _ ?msg]) (simp add: set_byte_some)
qed

lemma puts_name_label:
  assumes "valid_label l" "ptr + 1 + length l < length msg"
    and put: "puts_name (write_bytes msg ptr (of_nat (length l) # l)) (Suc ptr + length l) limit ls msg' r"
  shows "puts_name msg ptr limit (l # ls) msg' r"
proof -
  let ?bs = "of_nat (length l) # l :: bytes"
  let ?m = "write_bytes msg ptr ?bs"
  have fits: "ptr + length ?bs \<le> length msg" using assms(2) by simp
  have agree: "agree_below (Suc ptr + length l) msg' ?m" and len: "length msg' = length msg"
    using put fits by (auto simp: puts_name_def length_write_bytes)
  have "read_bytes ?m ptr (Suc (length l)) = Some ?bs" using read_write_bytes(1) [OF fits] by simp
  then have "read_byte ?m ptr = Some (of_nat (length l))" "read_bytes ?m (Suc ptr) (length l) = Some l"
    by (simp_all only: read_bytes_Cons_iff)
  then have rb: "read_byte msg' ptr = Some (of_nat (length l))" "read_bytes msg' (Suc ptr) (length l) = Some l"
    using agree_below_byte [OF agree, of ptr] agree_below_bytes [OF agree, of "Suc ptr" l] by auto
  have "agree_below ptr msg' msg"
    by (rule agree_below_trans [OF agree agree_below_write [OF fits]]) simp
  moreover have "ptr < q \<and> q \<le> limit \<and> decodes msg' q ptr (l # ls) q" if "r = Some q" for q
    using put that dec_label [OF assms(1) rb] by (auto simp: puts_name_def)
  ultimately show ?thesis using put len by (auto simp: puts_name_def)
qed

lemma puts_name_last:
  assumes "valid_label l" "ptr + 1 + length l < limit" "limit \<le> length msg"
  shows "puts_name msg ptr limit [l] (put_label msg ptr l) (Some (ptr + 1 + length l + 1))"
proof -
  have fits: "ptr + length l + 2 \<le> length msg" using assms(2,3) by simp
  note put = read_put_label [OF fits assms(1)]
  have "agree_below ptr (put_label msg ptr l) msg"
    unfolding put_label_def by (rule agree_below_write) (use fits in simp)
  moreover have "decodes (put_label msg ptr l) (ptr + 1 + length l + 1) ptr [l] (ptr + 1 + length l + 1)"
    using dec_label [OF assms(1) put(1,2) _ dec_end] put(3) by simp
  ultimately show ?thesis using assms(2) length_put_label [OF fits] by (simp add: puts_name_def)
qed

lemma put_labels_puts:
  assumes "name_at name np ls" "ls \<noteq> []" "np + wire_len ls \<le> 256"
    "compress \<Longrightarrow> \<not> stale_end msg start ls \<and> start < 0x4000" "start \<le> ptr" "ptr < limit" "limit \<le> length msg"
  shows "\<exists>msg' r. put_labels compress start msg ptr limit name np 256 = Some (msg', r) \<and> puts_name msg ptr limit ls msg' r"
  using assms
proof (induction ls arbitrary: msg ptr np)
  case (Cons l ls)
  let ?np = "Suc np + length l" let ?bs = "of_nat (length l) # l :: bytes"
  have l: "valid_label l" "read_byte name np = Some (of_nat (length l))" "read_bytes name (Suc np) (length l) = Some l"
    and rest: "name_at name ?np ls" using Cons.prems(1) by auto
  have len: "unat (of_nat (length l) :: u8) = length l" "\<not> length l > MAX_DOMAIN_LABEL" "length l \<noteq> 0"
    using l(1) by (auto simp: valid_label_def MAX_DOMAIN_LABEL_def)
  have lim: "\<not> np + 1 + length l \<ge> 256" using Cons.prems(3) wire_len_pos [of ls] by (simp del: wire_len_pos)
  obtain nx where nx: "read_byte name ?np = Some nx" "nx = 0 \<longleftrightarrow> ls = []" using rest by (cases ls) auto
  have "start < length msg" using Cons.prems(5-7) by simp
  then obtain f where f: "(if compress then FindCompressionPointer msg start name np else Some None) = Some f"
    using FindCompressionPointer_some [OF Cons.prems(1,2)] by (cases compress) auto
  show ?case
  proof (cases f)
    case (Some r)
    then have "compress" "FindCompressionPointer msg start name np = Some (Some r)" using f by (auto split: if_splits)
    then show ?thesis
    proof (cases "ptr + 2 \<le> limit")
      case True
      then show ?thesis
        using puts_name_pointer [OF \<open>FindCompressionPointer _ _ _ _ = _\<close> Cons.prems(1,2) _ _ Cons.prems(5) True Cons.prems(7)]
          Cons.prems(4) \<open>compress\<close> f Some l len lim
        by (subst put_labels.simps) auto
    next
      case False
      then have "put_labels compress start msg ptr limit name np 256 = Some (msg, None)"
        using f Some l len lim by (subst put_labels.simps) auto
      moreover have "puts_name msg ptr limit (l # ls) msg None"
        by (rule puts_name_none) (use False len(3) wire_len_pos [of ls] in \<open>simp del: wire_len_pos length_0_conv length_greater_0_conv\<close>)
      ultimately show ?thesis by blast
    qed
  next
    case None
    show ?thesis
    proof (cases "ptr + 1 + length l \<ge> limit")
      case True
      then have "put_labels compress start msg ptr limit name np 256 = Some (msg, None)"
        using f None l len lim by (subst put_labels.simps) auto
      moreover have "puts_name msg ptr limit (l # ls) msg None"
        by (rule puts_name_none) (use True wire_len_pos [of ls] in \<open>simp del: wire_len_pos\<close>)
      ultimately show ?thesis by blast
    next
      case False
      let ?m = "write_bytes msg ptr ?bs"
      have fits: "ptr + length ?bs \<le> length msg" using False Cons.prems(7) by simp
      have cp: "copy_bytes (length l + 1) msg ptr name np = Some ?m"
        using copy_bytes_some [of name np "length l + 1" ?bs ptr msg] l fits by (simp add: read_bytes_Cons_iff)
      show ?thesis
      proof (cases "ls = []")
        case True
        have "set_byte ?m (ptr + 1 + length l) 0 = Some (put_label msg ptr l)"
          using put_label_copy [OF l(2,3), of ptr msg] cp False Cons.prems(7) by auto
        then have "put_labels compress start msg ptr limit name np 256 = Some (put_label msg ptr l, Some (ptr + 1 + length l + 1))"
          using f None l len lim False cp nx True by (subst put_labels.simps) auto
        then show ?thesis using puts_name_last [OF l(1) _ Cons.prems(7), of ptr] False True by auto
      next
        case more: False
        have "\<not> stale_end ?m start ls" if "\<not> stale_end msg start (l # ls)"
        proof (cases "start = ptr")
          case True
          then have "read_byte ?m start \<noteq> Some 0"
            using read_write_bytes(1) [OF fits] l(1) by (auto simp: read_bytes_Cons_iff)
          then show ?thesis by (simp add: stale_end_def)
        next
          case False
          then have a: "agree_below (Suc start) msg ?m"
            using Cons.prems(5) agree_below_write [OF fits] by (auto simp: agree_below_def)
          have "stale_end msg start ls" if s: "stale_end ?m start ls"
          proof -
            let ?w = "wire_label (last ls)"
            have w: "length ?w = Suc (length (last ls))" by (simp add: wire_label_def)
            have "read_bytes msg (start - length ?w) (length ?w) = Some ?w"
              by (rule agree_below_bytes [OF a]) (use s w in \<open>auto simp: stale_end_def\<close>)
            then show ?thesis using s w agree_below_byte [OF a, of start] by (simp add: stale_end_def)
          qed
          then show ?thesis using that more stale_end_Cons by blast
        qed
        then have "\<exists>msg' r. put_labels compress start ?m (Suc ptr + length l) limit name ?np 256 = Some (msg', r)
            \<and> puts_name ?m (Suc ptr + length l) limit ls msg' r"
          using Cons.prems False more fits rest by (intro Cons.IH) (auto simp: length_write_bytes)
        then obtain msg' r where "put_labels compress start ?m (Suc ptr + length l) limit name ?np 256 = Some (msg', r)"
          and p: "puts_name ?m (Suc ptr + length l) limit ls msg' r" by blast
        then have "put_labels compress start msg ptr limit name np 256 = Some (msg', r)"
          using f None l len lim False cp nx more by (subst put_labels.simps) auto
        moreover have "puts_name msg ptr limit (l # ls) msg' r"
          by (rule puts_name_label [OF l(1) _ p]) (use False Cons.prems(7) in simp)
        ultimately show ?thesis by blast
      qed
    qed
  qed
qed simp

lemma putDomainNameAsLabels_puts:
  assumes "name_at name 0 ls" "wire_len ls \<le> 256"
    "compress \<Longrightarrow> \<not> stale_end msg ptr ls \<and> ptr < 0x4000" "ptr < limit" "limit \<le> length msg"
  shows "\<exists>msg' r. putDomainNameAsLabels compress msg (Some ptr) limit name = Some (msg', r) \<and> puts_name msg ptr limit ls msg' r"
proof (cases ls)
  case Nil
  have "puts_name msg ptr limit [] (msg[ptr := 0]) (Some (Suc ptr))"
    using assms(4,5) by (auto simp: puts_name_def agree_below_def read_byte_def intro!: dec_end)
  then show ?thesis using Nil assms by (auto simp: putDomainNameAsLabels_def set_byte_some)
next
  case (Cons l ls')
  then have "read_byte name 0 = Some (of_nat (length l))" "(of_nat (length l) :: u8) \<noteq> 0" using assms(1) by auto
  then show ?thesis
    using put_labels_puts [OF assms(1) _ _ assms(3) order_refl assms(4,5)] assms(2) Cons
    by (simp add: putDomainNameAsLabels_def MAX_DOMAIN_NAME_def)
qed

section \<open>The unwritten byte behind the message\<close>

lemma equal_bytes_same:
  "read_bytes a i n = Some bs \<Longrightarrow> read_bytes b j n = Some bs \<Longrightarrow> equal_bytes n a i b j = Some True"
proof (induction n arbitrary: i j bs)
  case (Suc n)
  then obtain c cs where "bs = c # cs" by (cases bs) (auto dest: read_bytes_length)
  with Suc show ?case by (auto simp: read_bytes_Cons_iff)
qed simp

lemma decodes_ptrD:
  assumes "decodes msg e p ls n" "read_byte msg p = Some hi" "192 \<le> unat hi" "read_byte msg (Suc p) = Some lo"
  shows "\<exists>k. decodes msg e (pointer_offset hi lo) ls k"
  using assms(1)
proof (cases rule: decodes.cases)
  case (dec_label l ls')
  then have "unat hi = length l" using assms(2) by simp
  then show ?thesis using assms(3) valid_label_less(1) [OF dec_label(2)] by simp
qed (use assms in auto)

lemma decodes_labelD:
  assumes "decodes msg e p ls n" "read_byte msg p = Some (of_nat k)" "k < 64" "k \<noteq> 0"
  shows "\<exists>l ls'. ls = l # ls' \<and> decodes msg e (Suc p + k) ls' n"
proof -
  have k: "unat (of_nat k :: u8) = k" using assms(3) by (simp add: unat_of_nat)
  from assms(1) show ?thesis
  proof (cases rule: decodes.cases)
    case dec_end
    then show ?thesis using assms(2,4) k by auto
  next
    case (dec_label l ls')
    then have "k = length l" using assms(2) k by (metis option.inject valid_label_u8)
    then show ?thesis using dec_label by blast
  next
    case (dec_ptr hi lo t)
    then show ?thesis using assms(2,3) k by auto
  qed
qed

lemma stale_end_bytes:
  assumes "stale_end msg e [l]"
  shows "Suc (length l) \<le> e" "read_byte msg e = Some 0"
    "read_bytes msg (e - Suc (length l)) (Suc (length l)) = Some (of_nat (length l) # l)"
    "read_byte msg (e - Suc (length l)) = Some (of_nat (length l))" "read_bytes msg (e - length l) (length l) = Some l"
  using assms by (auto simp: stale_end_def wire_label_def read_bytes_Cons_iff Suc_diff_Suc)

lemma stale_end_found:
  assumes "name_at name 0 [l]" "stale_end msg e [l]"
  shows "FindCompressionPointer msg e name 0 = Some (Some (e - Suc (length l)))"
proof -
  let ?r = "e - Suc (length l)"
  note st = stale_end_bytes [OF assms(2)]
  have l: "valid_label l" "read_byte name 0 = Some (of_nat (length l))" "read_bytes name 1 (length l) = Some l"
    "read_byte name (Suc (length l)) = Some 0" using assms(1) by auto
  then have len: "unat (of_nat (length l) :: u8) = length l" "(of_nat (length l) :: u8) \<noteq> 0" by simp_all
  have "length l \<noteq> 0" using l(1) valid_label_less(2) by simp
  then obtain c cs where c: "l = c # cs" by (cases l) auto
  have first: "read_byte msg (?r + 1) = Some c" "read_byte name (0 + 1) = Some c"
    using st(1,5) l(3) c by (auto simp: read_bytes_Cons_iff Suc_diff_Suc)
  have "equal_bytes (length l + 1) msg ?r name 0 = Some True"
    using equal_bytes_same [of msg ?r "Suc (length l)" _ name 0] st(3) l(2,3) by (simp add: read_bytes_Cons_iff)
  moreover have "?r + 1 + length l = e" "?r + length l < e" using st(1) by auto
  ultimately have "match_labels msg e name 0 ?r = Some True"
    using l(2,4) st(2) len by (subst match_labels.simps) simp
  moreover have "e - length l = Suc ?r" using st(1) by simp
  ultimately show ?thesis using l(2) len st(4) first by (simp add: FindCompressionPointer_def)
qed

lemma stale_end_put:
  assumes "name_at name 0 [l]" "stale_end msg ptr [l]" "ptr < 0x4000" "ptr + 2 \<le> limit" "limit \<le> length msg"
  obtains msg' where "putDomainNameAsLabels True msg (Some ptr) limit name = Some (msg', Some (ptr + 2))"
    "\<And>ls n. \<not> decodes msg' (ptr + 2) ptr ls n" "length msg' = length msg"
proof -
  define r where "r = ptr - Suc (length l)"
  let ?hi = "0xC0 OR ucast (drop_bit 8 (of_nat r :: u16)) :: u8"
  let ?lo = "ucast ((of_nat r :: u16) AND 0xFF) :: u8"
  define msg' where "msg' = msg[ptr := ?hi, Suc ptr := ?lo]"
  note st = stale_end_bytes [OF assms(2)]
  have r: "Suc r + length l = ptr" "r < 0x4000" using st(1) assms(3) by (auto simp: r_def)
  note po = pointer_bytes [OF r(2)]
  have l: "valid_label l" "read_byte name 0 = Some (of_nat (length l))" using assms(1) by auto
  have len: "unat (of_nat (length l) :: u8) = length l" "\<not> length l > MAX_DOMAIN_LABEL" "1 + length l < 256"
    "(of_nat (length l) :: u8) \<noteq> 0"
    using l(1) by (auto simp: valid_label_def MAX_DOMAIN_LABEL_def)
  have "putDomainNameAsLabels True msg (Some ptr) limit name = Some (msg', Some (ptr + 2))"
    using stale_end_found [OF assms(1,2)] l(2) len assms(4,5)
    by (subst putDomainNameAsLabels_def, subst put_labels.simps) (simp add: MAX_DOMAIN_NAME_def set_byte_some msg'_def r_def)
  moreover have no: "\<not> decodes msg' (ptr + 2) ptr ls n" for ls n
  proof
    assume d: "decodes msg' (ptr + 2) ptr ls n"
    have agree: "agree_below ptr msg' msg" by (auto simp: agree_below_def read_byte_def msg'_def)
    have hi: "read_byte msg' ptr = Some ?hi" "read_byte msg' (Suc ptr) = Some ?lo"
      using assms(4,5) by (auto simp: read_byte_def msg'_def)
    have at_r: "read_byte msg' r = Some (of_nat (length l))"
      using agree_below_byte [OF agree, of r] st(4) r(1) by (simp add: r_def)
    obtain k where "decodes msg' (ptr + 2) r ls k" using decodes_ptrD [OF d hi(1) po(2) hi(2)] po(1) by auto
    then obtain l' ls' where ls: "ls = l' # ls'" "decodes msg' (ptr + 2) ptr ls' k"
      using decodes_labelD [OF _ at_r valid_label_less [OF l(1)]] unfolding r(1) by blast
    show False using decodes_unique [OF d ls(2)] ls(1) by simp
  qed
  ultimately show ?thesis using that by (simp add: msg'_def)
qed

section \<open>getDomainName as a whole\<close>

lemma getDomainName_complete:
  assumes "decodes msg e p ls n" "p < e" "wire_len ls \<le> 256" "length arr = 256"
  obtains arr' where "getDomainName msg (Some p) e arr = Some (arr', Some n)" "name_at arr' 0 ls" "length arr' = 256"
proof -
  have "read_byte (arr[0 := 0]) 0 = Some 0" "length (arr[0 := 0]) = 256" using assms(4) by (auto simp: read_byte_def)
  then show thesis
    using get_name_loop_complete [OF assms(1), of 0 "arr[0 := 0]" None] assms(2-4) that
    by (auto simp: getDomainName_def set_byte_some)
qed

lemma getDomainName_safe:
  assumes "p < e" "e < length msg" "length arr = 256"
  obtains arr' r where "getDomainName msg (Some p) e arr = Some (arr', r)" "got_name msg p e (arr[0 := 0]) 0 None arr' r"
proof -
  have "read_byte (arr[0 := 0]) 0 = Some 0" "length (arr[0 := 0]) = 256" using assms(3) by (auto simp: read_byte_def)
  then show thesis
    using get_name_loop_safe [OF assms(1,2), of 0 "arr[0 := 0]" None] assms that
    by (auto simp: getDomainName_def set_byte_some)
qed

end
