(* ===== verification/Dns_Question.thy ===== *)
theory Dns_Question imports Dns_Compress begin

text \<open>
  Questions: names that are written without compression, the two-byte fields, the counts of the header,
  and what reading returns after writing.
\<close>

section \<open>Buffers\<close>

lemma read_byte_update: "read_byte (buf[i := v]) j = (if i = j \<and> i < length buf then Some v else read_byte buf j)"
  by (auto simp: read_byte_def)

lemma read_bytes_update: "i < p \<or> p + n \<le> i \<Longrightarrow> read_bytes (buf[i := v]) p n = read_bytes buf p n"
  by (auto simp: read_bytes_def intro!: nth_equalityI)

lemma name_at_update: "i < p \<or> p + wire_len ls \<le> i \<Longrightarrow> name_at (buf[i := v]) p ls \<longleftrightarrow> name_at buf p ls"
  by (simp add: name_at_iff read_bytes_update)

lemma name_at_write: "\<forall>l \<in> set ls. valid_label l \<Longrightarrow> p + wire_len ls \<le> length buf \<Longrightarrow> name_at (write_bytes buf p (wire ls)) p ls"
  using read_write_bytes(1) [of p "wire ls" buf] by (simp add: name_at_iff)

lemma name_at_valid: "name_at buf i ls \<Longrightarrow> \<forall>l \<in> set ls. valid_label l"
  by (simp add: name_at_iff)

section \<open>Two-byte fields\<close>

lemma get_val16_some: "i + 1 < length msg \<Longrightarrow> \<exists>v. get_val16 msg i = Some v"
  by (auto simp: get_val16_def read_byte_def)

lemma get_count_some: "i + 1 < length msg \<Longrightarrow> \<exists>n. get_count msg i = Some n"
  by (auto simp: get_count_def read_byte_def)

lemma u16_bytes:
  fixes v :: u16
  shows "push_bit 8 (ucast (ucast (drop_bit 8 v AND 0xFF) :: u8)) OR ucast (ucast (v AND 0xFF) :: u8) = v"
    "ucast (ucast v :: u8) OR push_bit 8 (ucast (ucast (drop_bit 8 v) :: u8)) = v"
proof -
  have m: "(0xFF :: u16) = mask 8" by (simp add: mask_eq_exp_minus_1)
  show "push_bit 8 (ucast (ucast (drop_bit 8 v AND 0xFF) :: u8)) OR ucast (ucast (v AND 0xFF) :: u8) = v"
    unfolding m by (rule bit_word_eqI) (auto simp: bit_simps)
  show "ucast (ucast v :: u8) OR push_bit 8 (ucast (ucast (drop_bit 8 v) :: u8)) = v"
    by (rule bit_word_eqI) (auto simp: bit_simps)
qed

text \<open>The bytes outside \<open>S\<close> are kept.\<close>

definition keeps :: "nat set \<Rightarrow> bytes \<Rightarrow> bytes \<Rightarrow> bool" where
  "keeps S a b \<longleftrightarrow> length a = length b \<and> (\<forall>i. i \<notin> S \<longrightarrow> read_byte a i = read_byte b i)"

lemma keeps_byte: "keeps S a b \<Longrightarrow> i \<notin> S \<Longrightarrow> read_byte a i = read_byte b i"
  by (simp add: keeps_def)

lemma keeps_length: "keeps S a b \<Longrightarrow> length a = length b"
  by (simp add: keeps_def)

lemma keeps_trans: "keeps S a b \<Longrightarrow> keeps T b c \<Longrightarrow> S \<union> T \<subseteq> U \<Longrightarrow> keeps U a c"
  unfolding keeps_def by (metis UnCI subsetD)

lemma keeps_bytes:
  assumes "keeps S a b" "{i..<i + n} \<inter> S = {}"
  shows "read_bytes a i n = read_bytes b i n"
proof (cases "i + n \<le> length b")
  case True
  have "take n (drop i a) = take n (drop i b)"
  proof (rule nth_equalityI)
    fix k assume "k < length (take n (drop i a))"
    then have k: "k < n" "i + k < length b" using True assms(1) by (auto simp: keeps_length)
    then have "i + k \<in> {i..<i + n}" by simp
    then have "i + k \<notin> S" using assms(2) by blast
    then show "take n (drop i a) ! k = take n (drop i b) ! k"
      using keeps_byte [OF assms(1), of "i + k"] k keeps_length [OF assms(1)] by (auto simp: read_byte_def)
  qed (use keeps_length [OF assms(1)] in simp)
  then show ?thesis using True keeps_length [OF assms(1)] by (simp add: read_bytes_def)
qed (use keeps_length [OF assms(1)] in \<open>simp add: read_bytes_def\<close>)

lemma keeps_name: "keeps S a b \<Longrightarrow> {i..<i + wire_len ls} \<inter> S = {} \<Longrightarrow> name_at a i ls \<longleftrightarrow> name_at b i ls"
  by (simp add: name_at_iff keeps_bytes)

lemma keeps_update2: "keeps {i, j} (buf[i := x, j := y]) buf"
  by (auto simp: keeps_def read_byte_update)

lemma putVal16_some:
  assumes "p + 1 < length msg"
  obtains msg' where "putVal16 msg p v = Some (msg', p + 2)" "get_val16 msg' p = Some v" "keeps {p, p + 1} msg' msg"
proof (rule that [OF _ _ keeps_update2])
  let ?m = "msg[p := ucast (drop_bit 8 v AND 0xFF), p + 1 := ucast (v AND 0xFF)]"
  show "putVal16 msg p v = Some (?m, p + 2)" using assms by (simp add: putVal16_def set_byte_some)
  show "get_val16 ?m p = Some v" using assms u16_bytes(1) [of v] by (simp add: get_val16_def read_byte_update)
qed

lemma put_type_class_some:
  assumes "p + 3 < length msg"
  obtains msg' where "put_type_class msg p t c = Some msg'" "get_val16 msg' p = Some t" "get_val16 msg' (p + 2) = Some c"
    "keeps {p..<p + 4} msg' msg"
proof -
  have "p + 1 < length msg" using assms by simp
  then obtain m1 where m1: "putVal16 msg p t = Some (m1, p + 2)" "get_val16 m1 p = Some t" "keeps {p, p + 1} m1 msg"
    by (rule putVal16_some [where v = t])
  have "p + 2 + 1 < length m1" using assms keeps_length [OF m1(3)] by simp
  then obtain m2 where m2: "putVal16 m1 (p + 2) c = Some (m2, p + 2 + 2)" "get_val16 m2 (p + 2) = Some c"
    "keeps {p + 2, p + 2 + 1} m2 m1"
    by (rule putVal16_some [where v = c])
  show thesis
  proof (rule that [OF _ _ m2(2)])
    show "put_type_class msg p t c = Some m2" using m1(1) m2(1) by (simp add: put_type_class_def)
    show "get_val16 m2 p = Some t" using m1(2) keeps_byte [OF m2(3)] by (simp add: get_val16_def)
    show "keeps {p..<p + 4} m2 msg" by (rule keeps_trans [OF m2(3) m1(3)]) auto
  qed
qed

section \<open>Counts\<close>

lemma inc_count_some:
  assumes "i + 1 < length msg" "get_count msg i = Some v"
  obtains msg' where "inc_count msg i = Some msg'" "get_count msg' i = Some (v + 1)" "keeps {i, i + 1} msg' msg"
proof (rule that [OF _ _ keeps_update2])
  let ?m = "msg[i := ucast (v + 1), i + 1 := ucast (drop_bit 8 (v + 1))]"
  show "inc_count msg i = Some ?m" using assms by (simp add: inc_count_def set_count_def set_byte_some)
  show "get_count ?m i = Some (v + 1)" using assms u16_bytes(2) [of "v + 1"] by (simp add: get_count_def read_byte_update)
qed

lemmas header_offsets = h_numQuestions_def h_numAnswers_def h_numAuthorities_def h_numAdditionals_def

lemma InitializeDNSMessage_bytes:
  assumes "InitializeDNSMessage h i f = Some msg"
  shows "length msg = length h" "12 \<le> length h"
    "take 12 msg = [fst i, snd i, fst f, snd f, 0, 0, 0, 0, 0, 0, 0, 0]"
proof -
  have l: "12 \<le> length h"
    and m: "msg = h[0 := fst i, 1 := snd i, 2 := fst f, 3 := snd f, 4 := 0, 5 := 0, 6 := 0, 7 := 0, 8 := 0, 9 := 0, 10 := 0, 11 := 0]"
    using assms
    by (auto simp: InitializeDNSMessage_def set_count_def set_byte_def header_offsets split: if_splits Option.bind_splits)
  then show "length msg = length h" "12 \<le> length h" by simp_all
  show "take 12 msg = [fst i, snd i, fst f, snd f, 0, 0, 0, 0, 0, 0, 0, 0]"
    using l unfolding m by (auto simp: numeral_eq_Suc Suc_le_length_iff)
qed

section \<open>Names without compression\<close>

lemma find_from_none:
  assumes "\<forall>r < k. read_byte base r \<noteq> read_byte name np" "k \<le> length base" "np < length name"
  shows "find_from k base e name np = Some None"
  using assms(1,2)
proof (induction k)
  case (Suc k)
  then have "read_byte base k \<noteq> read_byte name np" "k < length base" by auto
  then show ?case using Suc assms(3) by (auto simp: read_byte_def)
qed simp

lemma FindCompressionPointer_none:
  assumes "name_at name np (l # ls)" "of_nat (length l) \<notin> set (take e base)" "e \<le> length base"
  shows "FindCompressionPointer base e name np = Some None"
proof -
  have "read_byte base r \<noteq> read_byte name np" if "r < e - length l" for r
  proof
    assume "read_byte base r = read_byte name np"
    then have "base ! r = of_nat (length l)" "r < e" using assms(1) that by (auto dest: read_byteD)
    then have "of_nat (length l) \<in> set (take e base)" using assms(3) by (metis in_set_conv_nth length_take min.absorb2 nth_take)
    then show False using assms(2) by blast
  qed
  then have "find_from (e - length l) base e name np = Some None"
    using name_at_bound [OF assms(1)] assms(3) by (intro find_from_none) auto
  then show ?thesis using assms(1) by (simp add: FindCompressionPointer_def)
qed

lemma put_labels_plain:
  assumes "name_at name np ls" "ls \<noteq> []" "np + wire_len ls \<le> 256" "start \<le> ptr" "ptr + wire_len ls \<le> limit" "limit \<le> length msg"
    "\<forall>l \<in> set ls. of_nat (length l) \<notin> set (take start msg)"
  shows "put_labels compress start msg ptr limit name np 256 = Some (write_bytes msg ptr (wire ls), Some (ptr + wire_len ls))"
  using assms
proof (induction ls arbitrary: msg ptr np)
  case (Cons l ls)
  let ?np = "Suc np + length l" let ?bs = "of_nat (length l) # l :: bytes" let ?p = "Suc ptr + length l"
  have l: "valid_label l" "read_byte name np = Some (of_nat (length l))" "read_bytes name (Suc np) (length l) = Some l"
    and rest: "name_at name ?np ls" using Cons.prems(1) by auto
  have len: "\<not> length l > MAX_DOMAIN_LABEL" "\<not> np + 1 + length l \<ge> 256" "\<not> ptr + 1 + length l \<ge> limit"
    using l(1) Cons.prems(3,5) wire_len_pos [of ls]
    by (simp_all add: valid_label_def MAX_DOMAIN_LABEL_def del: wire_len_pos)
  have f: "(if compress then FindCompressionPointer msg start name np else Some None) = Some None"
    using FindCompressionPointer_none [OF Cons.prems(1), of start msg] Cons.prems(4-7) by auto
  have fits: "ptr + length ?bs \<le> length msg" using len Cons.prems(6) by simp
  let ?m = "write_bytes msg ptr ?bs"
  have cp: "copy_bytes (length l + 1) msg ptr name np = Some ?m"
    using copy_bytes_some [of name np "length l + 1" ?bs ptr msg] l fits by (simp add: read_bytes_Cons_iff)
  obtain nx where nx: "read_byte name ?np = Some nx" "nx = 0 \<longleftrightarrow> ls = []" using rest by (cases ls) auto
  show ?case
  proof (cases "ls = []")
    case True
    have "set_byte ?m (ptr + 1 + length l) 0 = Some (put_label msg ptr l)"
      using put_label_copy [OF l(2,3), of ptr msg] cp len(3) Cons.prems(6) by auto
    then show ?thesis
      using f l len cp nx True by (subst put_labels.simps) (simp add: put_label_def wire_simps)
  next
    case False
    have "take start ?m = take start msg" using Cons.prems(4) fits by (simp add: write_bytes_def)
    then have "put_labels compress start ?m ?p limit name ?np 256 = Some (write_bytes ?m ?p (wire ls), Some (?p + wire_len ls))"
      using Cons.prems rest False fits by (intro Cons.IH) (auto simp: length_write_bytes)
    moreover have "write_bytes ?m ?p (wire ls) = write_bytes msg ptr (wire (l # ls))"
      using Cons.prems(5,6) fits by (simp add: write_bytes_def wire_simps ac_simps)
    ultimately show ?thesis
      using f l len cp nx False by (subst put_labels.simps) simp
  qed
qed simp

lemma putDomainNameAsLabels_plain:
  assumes "name_at name 0 ls" "wire_len ls \<le> 256" "ptr + wire_len ls \<le> limit" "limit \<le> length msg"
    "\<forall>l \<in> set ls. of_nat (length l) \<notin> set (take ptr msg)"
  shows "putDomainNameAsLabels compress msg (Some ptr) limit name = Some (write_bytes msg ptr (wire ls), Some (ptr + wire_len ls))"
proof (cases ls)
  case Nil
  have "msg[ptr := 0] = write_bytes msg ptr (wire [])"
    using assms(3,4) Nil by (simp add: write_bytes_def wire_simps upd_conv_take_nth_drop)
  then show ?thesis using Nil assms by (simp add: putDomainNameAsLabels_def set_byte_some)
next
  case (Cons l ls')
  then have "read_byte name 0 = Some (of_nat (length l))" "(of_nat (length l) :: u8) \<noteq> 0" using assms(1) by auto
  then show ?thesis
    using put_labels_plain [OF assms(1) _ _ order_refl assms(3-5)] assms(2) Cons
    by (simp add: putDomainNameAsLabels_def MAX_DOMAIN_NAME_def)
qed

section \<open>A question behind a fresh header\<close>

lemma fresh_count: "take 12 msg = [a, b, c, d, 0, 0, 0, 0, 0, 0, 0, 0] \<Longrightarrow> get_count msg h_numQuestions = Some 0"
proof -
  assume t: "take 12 msg = [a, b, c, d, 0, 0, 0, 0, 0, 0, 0, 0]"
  have "read_byte msg i = Some ([a, b, c, d, 0, 0, 0, 0, 0, 0, 0, 0] ! i)" if "i < 12" for i
  proof -
    have "12 \<le> length msg" using arg_cong [OF t, of length] by simp
    then show ?thesis using that nth_take [of i 12 msg] t by (simp add: read_byte_def)
  qed
  from this [of 4] this [of 5] show ?thesis by (simp add: get_count_def header_offsets)
qed

lemma putQuestion_fresh:
  assumes "InitializeDNSMessage h (i0, i1) (f0, f1) = Some msg" "name_at name 0 ls" "wire_len ls \<le> 256"
    "\<forall>l \<in> set ls. of_nat (length l) \<notin> {i0, i1, f0, f1}" "12 + wire_len ls + 4 < limit" "limit \<le> length h"
  obtains msg' where "putQuestion msg (Some 12) limit name t c = Some (msg', Some (12 + wire_len ls + 4))"
    "name_at msg' 12 ls" "get_val16 msg' (12 + wire_len ls) = Some t" "get_val16 msg' (12 + wire_len ls + 2) = Some c"
    "get_count msg' h_numQuestions = Some 1" "length msg' = length h"
proof -
  let ?q = "12 + wire_len ls" let ?m = "write_bytes msg 12 (wire ls)"
  note init = InitializeDNSMessage_bytes [OF assms(1), simplified]
  have v: "\<forall>l \<in> set ls. valid_label l" by (rule name_at_valid [OF assms(2)])
  then have "\<forall>l \<in> set ls. of_nat (length l) \<notin> set (take 12 msg)" using init(3) assms(4) by auto
  then have put: "putDomainNameAsLabels True msg (Some 12) limit name = Some (?m, Some ?q)"
    using assms(3,5,6) init(1) by (intro putDomainNameAsLabels_plain [OF assms(2)]) auto
  have len: "length ?m = length h" using assms(5,6) init(1) by (simp add: length_write_bytes)
  have nm: "name_at ?m 12 ls" using name_at_write [OF v, of 12 msg] assms(5,6) init(1) by simp
  have "take 12 ?m = take 12 msg" using init(1,2) by (simp add: write_bytes_def)
  then have c0: "get_count ?m h_numQuestions = Some 0" using fresh_count init(3) by simp
  have "?q + 3 < length ?m" using assms(5,6) len by simp
  then obtain m1 where m1: "put_type_class ?m ?q t c = Some m1" "get_val16 m1 ?q = Some t" "get_val16 m1 (?q + 2) = Some c"
    "keeps {?q..<?q + 4} m1 ?m"
    by (rule put_type_class_some [where t = t and c = c])
  have c1: "get_count m1 h_numQuestions = Some 0"
    using c0 keeps_byte [OF m1(4)] by (simp add: get_count_def header_offsets)
  have "h_numQuestions + 1 < length m1" using keeps_length [OF m1(4)] len init(2) by (simp add: header_offsets)
  then obtain m2 where m2: "inc_count m1 h_numQuestions = Some m2" "get_count m2 h_numQuestions = Some (0 + 1)"
    "keeps {h_numQuestions, h_numQuestions + 1} m2 m1"
    by (rule inc_count_some [OF _ c1])
  show thesis
  proof (rule that)
    show "putQuestion msg (Some 12) limit name t c = Some (m2, Some (12 + wire_len ls + 4))"
      using put m1(1) m2(1) assms(5) by (simp add: putQuestion_def)
    have "name_at m1 12 ls" using nm keeps_name [OF m1(4), of 12 ls] by auto
    then show "name_at m2 12 ls" using keeps_name [OF m2(3), of 12 ls] by (auto simp: header_offsets)
    show "get_val16 m2 ?q = Some t" "get_val16 m2 (?q + 2) = Some c"
      using m1(2,3) keeps_byte [OF m2(3)] by (simp_all add: get_val16_def header_offsets)
  qed (use m2(2) keeps_length [OF m2(3)] keeps_length [OF m1(4)] len in simp_all)
qed

lemma getQuestion_name:
  assumes "decodes msg e p ls q" "p < e" "wire_len ls \<le> 256" "q + 4 \<le> e"
    "get_val16 msg q = Some t" "get_val16 msg (q + 2) = Some c"
  obtains qu h where "getQuestion msg (Some p) e iface = Some (qu, Some (q + 4))" "name_at (q_qname qu) 0 ls"
    "DomainNameHashValue (q_qname qu) 0 = Some (q_qnamehash qu)" "q_qtype qu = t" "q_qclass qu = c"
    "q_InterfaceID qu = iface"
proof -
  obtain nm where nm: "getDomainName msg (Some p) e (q_qname zero_question) = Some (nm, Some q)" "name_at nm 0 ls"
    by (rule getDomainName_complete [OF assms(1-3), of "q_qname zero_question"]) (simp_all add: zero_question_def MAX_DOMAIN_NAME_def)
  obtain h where h: "DomainNameHashValue nm 0 = Some h" using DomainNameHashValue_some [OF nm(2)] by blast
  show thesis
    using that [of "(if iface = 0 then zero_question\<lparr>q_InterfaceID := iface, q_TargetQID := (255, 255)\<rparr>
        else zero_question\<lparr>q_InterfaceID := iface\<rparr>)\<lparr>q_qname := nm, q_qnamehash := h, q_qtype := t, q_qclass := c\<rparr>"]
      nm h assms(4-6)
    by (auto simp: getQuestion_def Let_def)
qed

lemma LocateAnswers_one:
  assumes "get_count msg h_numQuestions = Some 1" "decodes msg e 12 ls q" "12 < e" "wire_len ls \<le> 256" "q + 4 \<le> e"
  shows "LocateAnswers msg e = Some (Some (q + 4))"
proof -
  have "skipDomainName msg (Some 12) e = Some (Some q)"
    using skip_name_loop_decodes [OF assms(2), of 0] assms(3,4) by (simp add: skipDomainName_def)
  then have "skipQuestion msg (Some 12) e = Some (Some (q + 4))" using assms(5) by (simp add: skipQuestion_def)
  then show ?thesis using assms(1) by (simp add: LocateAnswers_def numeral_eq_Suc)
qed

end
