(* ===== verification/Dns_Claims.thy ===== *)
theory Dns_Claims imports Dns_Question begin

text \<open>The properties of names and messages, each with its instance on a concrete message.\<close>

text \<open>A name of two labels, a message in which its second label stands behind the header, a fresh header\<close>

definition demo_name :: bytes where "demo_name = [1, 0x61, 2, 0x62, 0x63, 0]"
definition demo_msg :: bytes where "demo_msg = replicate 12 0 @ [2, 0x62, 0x63, 0] @ replicate 20 1"
definition demo_header :: bytes where "demo_header = replicate 40 0"

lemma demo_name_at: "name_at demo_name 0 [[0x61], [0x62, 0x63]]"
  by (simp add: demo_name_def valid_label_def read_byte_def read_bytes_def)

lemma demo_header_init: "InitializeDNSMessage demo_header (0, 0) (0, 0) = Some demo_header"
  by (simp add: demo_header_def InitializeDNSMessage_def set_count_def set_byte_def header_offsets numeral_eq_Suc)

lemma demo_lengths: "length demo_msg = 36" "wire_len [[0x61], [0x62, 0x63]] = 6"
  by (simp_all add: demo_msg_def)

section \<open>Names on the wire\<close>

text \<open>
  C8. What \<open>putDomainNameAsLabels\<close> writes, \<open>getDomainName\<close> reads: a valid name that has room before the limit is
  written, compressed against the message so far or not, without touching the message before \<open>ptr\<close>; reading
  at \<open>ptr\<close> gives back exactly the bytes of the name, the case of letters included (so an equal name with the
  same hash), and ends where the writer ended.  With compression, \<open>ptr\<close> must fit the 14 bits of a pointer, as every
  position of a message does (12 + 8940 bytes), and the unwritten byte at \<open>ptr\<close> must not complete the last label
  of the name by accident: it is not zero, or that label does not stand directly before \<open>ptr\<close> (\<open>stale_end\<close>).
\<close>

theorem dns_name_roundtrip:
  assumes "name_at name 0 ls" "wire_len ls \<le> 256"
    "compress \<Longrightarrow> \<not> stale_end msg ptr ls \<and> ptr < 0x4000"
    "ptr + wire_len ls \<le> limit" "limit \<le> length msg" "length arr = 256"
  shows "\<exists>msg' q arr'. putDomainNameAsLabels compress msg (Some ptr) limit name = Some (msg', Some q)
    \<and> q \<le> limit \<and> length msg' = length msg \<and> agree_below ptr msg' msg
    \<and> getDomainName msg' (Some ptr) q arr = Some (arr', Some q)
    \<and> name_at arr' 0 ls \<and> read_bytes arr' 0 (wire_len ls) = read_bytes name 0 (wire_len ls)
    \<and> SameDomainName arr' 0 name 0 = Some True \<and> DomainNameHashValue arr' 0 = DomainNameHashValue name 0"
proof -
  have "ptr < limit" using assms(4) wire_len_pos [of ls] by (simp del: wire_len_pos)
  then obtain msg' r where put: "putDomainNameAsLabels compress msg (Some ptr) limit name = Some (msg', r)"
    and p: "puts_name msg ptr limit ls msg' r"
    using putDomainNameAsLabels_puts [OF assms(1-3) _ assms(5)] by blast
  then obtain q where q: "r = Some q" "ptr < q" "q \<le> limit" "decodes msg' q ptr ls q"
    using assms(4) by (auto simp: puts_name_def)
  obtain arr' where arr': "getDomainName msg' (Some ptr) q arr = Some (arr', Some q)" "name_at arr' 0 ls"
    by (rule getDomainName_complete [OF q(4,2) assms(2,6)])
  have "read_bytes arr' 0 (wire_len ls) = read_bytes name 0 (wire_len ls)"
    using arr'(2) assms(1) by (simp add: name_at_iff)
  then show ?thesis
    using put p q assms(2) arr' SameDomainName_iff [OF arr'(2) assms(1)] DomainNameHashValue_fold [OF arr'(2) assms(1)]
    by (auto simp: puts_name_def)
qed

theorem dns_name_roundtrip_witness:
  "\<exists>msg' q arr'. putDomainNameAsLabels True demo_msg (Some 16) 36 demo_name = Some (msg', Some q)
    \<and> getDomainName msg' (Some 16) q (replicate 256 0) = Some (arr', Some q)
    \<and> read_bytes arr' 0 6 = Some [1, 0x61, 2, 0x62, 0x63, 0]"
proof -
  have "\<not> stale_end demo_msg 16 [[0x61], [0x62, 0x63]]"
    by (simp add: stale_end_def demo_msg_def read_bytes_def wire_label_def numeral_eq_Suc)
  then obtain msg' q arr' where w: "putDomainNameAsLabels True demo_msg (Some 16) 36 demo_name = Some (msg', Some q)"
    "getDomainName msg' (Some 16) q (replicate 256 0) = Some (arr', Some q)"
    "read_bytes arr' 0 6 = read_bytes demo_name 0 6"
    using dns_name_roundtrip [OF demo_name_at, of True demo_msg 16 36 "replicate 256 0"] demo_lengths
    by (auto simp del: name_at.simps wire_len.simps)
  have "read_bytes demo_name 0 6 = Some [1, 0x61, 2, 0x62, 0x63, 0]" by (simp add: demo_name_def read_bytes_def)
  then show ?thesis using w by auto
qed

text \<open>
  C24. What happens when the unwritten byte does complete a label.  \<open>FindCompressionPointer\<close> compares \<open>*targ\<close> with
  zero without checking that \<open>targ\<close> lies before \<open>end\<close>: for every name of one label \<open>l\<close>, if the message so far
  ends with the bytes of \<open>l\<close> (as a TXT string, say) and the byte behind it is zero, the search returns the place of
  that label, \<open>putDomainNameAsLabels\<close> overwrites the zero with a pointer to it, and \<open>getDomainName\<close> cannot read
  the name that was written: the pointer leads to the label and the label back to the pointer.
\<close>

theorem putDomainNameAsLabels_stale_end:
  assumes "name_at name 0 [l]" "stale_end msg ptr [l]" "ptr < 0x4000" "ptr + 2 \<le> limit" "limit < length msg"
    "length arr = 256"
  shows "\<exists>msg' arr'. FindCompressionPointer msg ptr name 0 = Some (Some (ptr - Suc (length l)))
    \<and> putDomainNameAsLabels True msg (Some ptr) limit name = Some (msg', Some (ptr + 2))
    \<and> (\<forall>ls n. \<not> decodes msg' (ptr + 2) ptr ls n)
    \<and> getDomainName msg' (Some ptr) (ptr + 2) arr = Some (arr', None)"
proof -
  note find = stale_end_found [OF assms(1,2)]
  obtain msg' where put: "putDomainNameAsLabels True msg (Some ptr) limit name = Some (msg', Some (ptr + 2))"
    and no: "\<And>ls n. \<not> decodes msg' (ptr + 2) ptr ls n" and len: "length msg' = length msg"
    by (rule stale_end_put [OF assms(1-4)]) (use assms(5) in auto)
  obtain arr' r where "getDomainName msg' (Some ptr) (ptr + 2) arr = Some (arr', r)"
    "got_name msg' ptr (ptr + 2) (arr[0 := 0]) 0 None arr' r"
    by (rule getDomainName_safe [of ptr "ptr + 2" msg' arr]) (use assms(4-6) len in auto)
  then show ?thesis using find put no by (cases r) (auto simp: got_name_def)
qed

theorem putDomainNameAsLabels_stale_end_witness:
  "\<exists>msg' arr'. putDomainNameAsLabels True (replicate 12 0 @ [2, 0x62, 0x63] @ replicate 20 0) (Some 15) 34 [2, 0x62, 0x63, 0]
       = Some (msg', Some 17)
    \<and> getDomainName msg' (Some 15) 17 (replicate 256 0) = Some (arr', None)"
  using putDomainNameAsLabels_stale_end [of "[2, 0x62, 0x63, 0]" "[0x62, 0x63]" "replicate 12 0 @ [2, 0x62, 0x63] @ replicate 20 0" 15 34 "replicate 256 0"]
  by (auto simp: stale_end_def wire_label_def read_bytes_def read_byte_def valid_label_def numeral_eq_Suc)

text \<open>
  C9. \<open>getDomainName\<close> on arbitrary bytes: if the message is followed by one more byte of memory, it terminates,
  stays within the message's memory and within the array of 256 bytes, and leaves a valid name in it.  It
  accepts exactly the names that the bytes denote across backward or forward pointers and that have at most
  256 bytes; the position returned is that behind the first pointer or the end, at most one behind \<open>end\<close>.
\<close>

theorem getDomainName_spec:
  assumes "p < e" "e < length msg" "length arr = 256"
  shows "\<exists>arr' r. getDomainName msg (Some p) e arr = Some (arr', r) \<and> valid_name arr'
    \<and> (\<forall>q. r = Some q \<longleftrightarrow> (\<exists>ls. decodes msg e p ls q \<and> wire_len ls \<le> 256))
    \<and> (\<forall>q. r = Some q \<longrightarrow> p < q \<and> q \<le> Suc e \<and> (\<forall>ls. decodes msg e p ls q \<longrightarrow> name_at arr' 0 ls))"
proof -
  obtain arr' r where g: "getDomainName msg (Some p) e arr = Some (arr', r)" "got_name msg p e (arr[0 := 0]) 0 None arr' r"
    by (rule getDomainName_safe [OF assms])
  then obtain ls where ls: "name_at arr' 0 ls" "wire_len ls \<le> 256" "\<And>q. r = Some q \<Longrightarrow> decodes msg e p ls q"
    by (auto simp: got_name_def)
  have "r = Some q" if "decodes msg e p ls' q" "wire_len ls' \<le> 256" for ls' q
    using getDomainName_complete [OF that(1) assms(1) that(2) assms(3)] g(1) by auto
  moreover have "name_at arr' 0 ls'" if "r = Some q" "decodes msg e p ls' q" for ls' q
    using decodes_unique [OF ls(3) [OF that(1)] that(2)] ls(1) by simp
  moreover have "p < q \<and> q \<le> Suc e" if "r = Some q" for q
    using decodes_le decodes_bound [OF _ assms(1)] ls(3) [OF that] by blast
  moreover have "valid_name arr'" using ls(1,2) by (auto simp: valid_name_def)
  ultimately show ?thesis using g(1) ls(2,3) by blast
qed

theorem getDomainName_spec_witness:
  "\<exists>arr' r. getDomainName [1, 0x61, 0, 0xC0, 0, 0] (Some 3) 5 (replicate 256 0) = Some (arr', r) \<and> valid_name arr'
    \<and> (\<forall>q. r = Some q \<longrightarrow> 3 < q \<and> q \<le> 6)"
  using getDomainName_spec [of 3 5 "[1, 0x61, 0, 0xC0, 0, 0]" "replicate 256 0"] by auto

text \<open>
   \<open>skipDomainName\<close>, which does not follow pointers, ends where \<open>getDomainName\<close> ends, on every message
  and position where \<open>getDomainName\<close> succeeds.
\<close>

theorem skipDomainName_agrees:
  assumes "getDomainName msg (Some p) e arr = Some (arr', Some q)" "p < e" "e < length msg" "length arr = 256"
  shows "skipDomainName msg (Some p) e = Some (Some q)"
proof -
  obtain ls where "decodes msg e p ls q" "wire_len ls \<le> 256"
    using getDomainName_safe [OF assms(2-4)] assms(1) by (auto simp: got_name_def)
  then show ?thesis using skip_name_loop_decodes [of msg e p ls q 0] assms(2) by (simp add: skipDomainName_def)
qed

theorem skipDomainName_agrees_witness: "skipDomainName [1, 0x61, 0, 0xC0, 0, 0] (Some 3) 5 = Some (Some 5)"
proof -
  let ?msg = "[1, 0x61, 0, 0xC0, 0, 0] :: bytes"
  have "name_at ?msg 0 [[0x61]]" by (simp add: valid_label_def read_byte_def read_bytes_def)
  then have "decodes ?msg 5 0 [[0x61]] (0 + wire_len [[0x61]])" by (rule name_at_decodes) simp
  then have "decodes ?msg 5 3 [[0x61]] (Suc (Suc 3))"
    by (intro dec_ptr [where hi = "0xC0" and lo = 0 and t = 1]) (simp_all add: read_byte_def pointer_offset_def)
  then obtain arr' where "getDomainName ?msg (Some 3) 5 (replicate 256 0) = Some (arr', Some (Suc (Suc 3)))"
    by (rule getDomainName_complete [where arr = "replicate 256 0"]) simp_all
  from skipDomainName_agrees [OF this] show ?thesis by simp
qed

text \<open>
  C10. Two valid names are the same for \<open>SameDomainName\<close> exactly if their labels agree up to the case of the
  letters A to Z, and then they have the same \<open>DomainNameHashValue\<close>.
\<close>

theorem SameDomainName_fold:
  assumes "name_at a i xs" "name_at b j ys" "wire_len xs \<le> 256"
  shows "SameDomainName a i b j = Some (fold_name xs = fold_name ys)
    \<and> (fold_name xs = fold_name ys \<longrightarrow> (\<exists>h. DomainNameHashValue a i = Some h \<and> DomainNameHashValue b j = Some h))"
  using assms SameDomainName_iff [OF assms(1,2)] DomainNameHashValue_fold [OF assms(1,2)] DomainNameHashValue_some [OF assms(2)]
  by auto

theorem SameDomainName_fold_witness:
  "SameDomainName demo_name 0 [1, 0x41, 2, 0x62, 0x43, 0] 0 = Some True
   \<and> (\<exists>h. DomainNameHashValue demo_name 0 = Some h \<and> DomainNameHashValue [1, 0x41, 2, 0x62, 0x43, 0] 0 = Some h)"
proof -
  have "name_at [1, 0x41, 2, 0x62, 0x43, 0] 0 [[0x41], [0x62, 0x43]]"
    by (simp add: valid_label_def read_byte_def read_bytes_def)
  from SameDomainName_fold [OF demo_name_at this] show ?thesis
    by (simp add: fold_case_def mDNSIsUpperCase_def)
qed

section \<open>Sections of a message\<close>

definition section_end :: "nat \<Rightarrow> nat option \<Rightarrow> bool" where
  "section_end e r \<longleftrightarrow> (\<forall>q. r = Some q \<longrightarrow> 12 \<le> q \<and> (q = 12 \<or> q \<le> e))"

lemma skipDomainName_bound:
  assumes "e \<le> length msg"
  obtains r where "skipDomainName msg ptr e = Some r" "\<forall>p q. ptr = Some p \<longrightarrow> r = Some q \<longrightarrow> p < q"
    "ptr = None \<longrightarrow> r = None"
proof (cases ptr)
  case (Some p)
  show thesis
  proof (cases "p < e")
    case True
    then show ?thesis using skip_name_loop_bound [OF True assms, of 0] Some that by (auto simp: skipDomainName_def)
  qed (use Some that [of None] in \<open>auto simp: skipDomainName_def\<close>)
qed (use that [of None] in \<open>auto simp: skipDomainName_def\<close>)

lemma skipQuestion_bound:
  assumes "e \<le> length msg"
  obtains r where "skipQuestion msg ptr e = Some r" "section_end e ptr \<Longrightarrow> section_end e r"
proof -
  obtain r where "skipDomainName msg ptr e = Some r" "\<forall>p q. ptr = Some p \<longrightarrow> r = Some q \<longrightarrow> p < q" "ptr = None \<longrightarrow> r = None"
    by (rule skipDomainName_bound [OF assms, where ptr = ptr])
  then show thesis
    by (cases r; cases ptr) (auto simp: skipQuestion_def section_end_def intro: that)
qed

lemma skipResourceRecord_bound:
  assumes "e \<le> length msg"
  obtains r where "skipResourceRecord msg ptr e = Some r" "section_end e ptr \<Longrightarrow> section_end e r"
proof -
  obtain r where r: "skipDomainName msg ptr e = Some r" "\<forall>p q. ptr = Some p \<longrightarrow> r = Some q \<longrightarrow> p < q" "ptr = None \<longrightarrow> r = None"
    by (rule skipDomainName_bound [OF assms, where ptr = ptr])
  show thesis
  proof (cases r)
    case None
    then show ?thesis using r(1) by (intro that [of None]) (auto simp: skipResourceRecord_def section_end_def)
  next
    case (Some q)
    then obtain p where p: "ptr = Some p" "p < q" using r by (cases ptr) auto
    show ?thesis
    proof (cases "q + 10 > e")
      case True
      then show ?thesis using r(1) Some by (intro that [of None]) (auto simp: skipResourceRecord_def section_end_def)
    next
      case False
      then obtain v where "get_val16 msg (q + 8) = Some v" using get_val16_some [of "q + 8" msg] assms by auto
      then show ?thesis using r(1) Some p False
        by (intro that) (auto simp: skipResourceRecord_def section_end_def split: if_splits)
    qed
  qed
qed

lemma skip_questions_bound:
  assumes "e \<le> length msg"
  shows "section_end e ptr \<Longrightarrow> \<exists>r. skip_questions n msg ptr e = Some r \<and> section_end e r"
proof (induction n arbitrary: ptr)
  case (Suc n)
  obtain r where "skipQuestion msg ptr e = Some r" "section_end e r"
    using skipQuestion_bound [OF assms] Suc.prems by metis
  then show ?case using Suc.IH Suc.prems by auto
qed simp

lemma skip_records_bound:
  assumes "e \<le> length msg"
  shows "section_end e ptr \<Longrightarrow> \<exists>r. skip_records n msg ptr e = Some r \<and> section_end e r"
    "section_end e ptr \<Longrightarrow> \<exists>r. skip_all_records n msg ptr e = Some r \<and> section_end e r"
proof (induction n arbitrary: ptr)
  case (Suc n)
  { case 1
    obtain r where "skipResourceRecord msg ptr e = Some r" "section_end e r"
      using skipResourceRecord_bound [OF assms] 1 by metis
    then show ?case using Suc.IH(1) 1 by auto
  next
    case 2
    obtain r where "skipResourceRecord msg ptr e = Some r" "section_end e r"
      using skipResourceRecord_bound [OF assms] 2 by metis
    then show ?case using Suc.IH(2) by auto }
qed simp_all

lemma locate_bounds:
  assumes "12 \<le> length msg" "e \<le> length msg"
  shows "\<exists>r. LocateAnswers msg e = Some r \<and> section_end e r"
    "\<exists>r. LocateAuthorities msg e = Some r \<and> section_end e r"
    "\<exists>r. LocateAdditionals msg e = Some r \<and> section_end e r"
proof -
  obtain q n u where c: "get_count msg h_numQuestions = Some q" "get_count msg h_numAnswers = Some n"
    "get_count msg h_numAuthorities = Some u"
    using get_count_some [of 4 msg] get_count_some [of 6 msg] get_count_some [of 8 msg] assms(1)
    by (auto simp: header_offsets)
  have "section_end e (Some 12)" by (simp add: section_end_def)
  then show a: "\<exists>r. LocateAnswers msg e = Some r \<and> section_end e r"
    using skip_questions_bound [OF assms(2)] c by (auto simp: LocateAnswers_def)
  then show b: "\<exists>r. LocateAuthorities msg e = Some r \<and> section_end e r"
    using skip_records_bound(1) [OF assms(2)] c by (auto simp: LocateAuthorities_def)
  then show "\<exists>r. LocateAdditionals msg e = Some r \<and> section_end e r"
    using skip_records_bound(2) [OF assms(2)] c by (auto simp: LocateAdditionals_def)
qed

lemma is_opt_record_some: "e \<le> length msg \<Longrightarrow> \<exists>b. is_opt_record msg p e minsize = Some b"
proof (cases "p + 11 + minsize \<le> e")
  case True
  assume "e \<le> length msg"
  with True obtain b t n where "read_byte msg p = Some b" "get_val16 msg (p + 1) = Some t" "get_val16 msg (p + 9) = Some n"
    using read_byte_exists [of p msg] get_val16_some [of "p + 1" msg] get_val16_some [of "p + 9" msg] by auto
  then show ?thesis by (cases "b = 0"; cases "t = 41") (auto simp: is_opt_record_def True)
qed (auto simp: is_opt_record_def)

lemma is_opt_recordD:
  assumes "is_opt_record msg q e minsize = Some True"
  shows "q + 11 + minsize \<le> e" "read_byte msg q = Some 0" "get_val16 msg (q + 1) = Some 41"
    "\<exists>n. get_val16 msg (q + 9) = Some n \<and> minsize \<le> unat n"
  using assms by (auto simp: is_opt_record_def split: if_splits Option.bind_splits)

lemma locate_opt_bound:
  assumes "e \<le> length msg"
  shows "section_end e ptr \<Longrightarrow> \<exists>r. locate_opt n msg ptr e minsize = Some r
    \<and> (\<forall>q. r = Some q \<longrightarrow> 12 \<le> q \<and> is_opt_record msg q e minsize = Some True)"
proof (induction n arbitrary: ptr)
  case (Suc n)
  show ?case
  proof (cases ptr)
    case (Some p)
    obtain b where b: "is_opt_record msg p e minsize = Some b" using is_opt_record_some [OF assms] by blast
    obtain r where "skipResourceRecord msg ptr e = Some r" "section_end e r"
      using skipResourceRecord_bound [OF assms] Suc.prems by metis
    then show ?thesis using b Some Suc by (cases b) (auto simp: section_end_def)
  qed simp
qed simp

text \<open>
  \<open>LocateOptRR\<close> on arbitrary bytes of a received message: skipping questions, answers, authorities and
  additionals terminates and never reads outside the message's memory, whatever the counts and lengths in it
  say; a record it returns is an OPT record that lies before \<open>end\<close> with at least the data asked for.
\<close>

theorem LocateOptRR_bound:
  assumes "12 \<le> length msg" "e \<le> length msg"
  shows "\<exists>r. LocateOptRR msg e minsize = Some r
    \<and> (\<forall>q. r = Some q \<longrightarrow> 12 \<le> q \<and> q + 11 + minsize \<le> e \<and> read_byte msg q = Some 0
          \<and> get_val16 msg (q + 1) = Some 41 \<and> (\<exists>n. get_val16 msg (q + 9) = Some n \<and> minsize \<le> unat n))"
proof -
  obtain n where "get_count msg h_numAdditionals = Some n"
    using get_count_some [of 10 msg] assms(1) by (auto simp: header_offsets)
  moreover obtain ptr where "LocateAdditionals msg e = Some ptr" "section_end e ptr"
    using locate_bounds(3) [OF assms] by blast
  moreover obtain r where "locate_opt (unat n) msg ptr e minsize = Some r"
    "\<forall>q. r = Some q \<longrightarrow> 12 \<le> q \<and> is_opt_record msg q e minsize = Some True"
    using locate_opt_bound [OF assms(2) calculation(3)] by blast
  ultimately show ?thesis using is_opt_recordD [of msg _ e minsize]
    by (simp add: LocateOptRR_def)
qed

theorem LocateOptRR_bound_witness:
  "\<exists>r. LocateOptRR (demo_header[11 := 1, 14 := 41]) 40 4 = Some r \<and> (\<forall>q. r = Some q \<longrightarrow> 12 \<le> q \<and> q + 11 + 4 \<le> 40)"
  using LocateOptRR_bound [of "demo_header[11 := 1, 14 := 41]" 40 4] by (auto simp: demo_header_def)

text \<open>
  C11. A question written behind a fresh header is read back: \<open>putQuestion\<close> counts it, \<open>LocateAnswers\<close> skips it,
  and \<open>getQuestion\<close> returns its name, the name's hash, type, class and interface.  The bytes of identifier and
  flags must not pass for the length of one of the name's labels.
\<close>

theorem question_roundtrip:
  assumes "InitializeDNSMessage h (i0, i1) (f0, f1) = Some msg" "name_at name 0 ls" "wire_len ls \<le> 256"
    "\<forall>l \<in> set ls. of_nat (length l) \<notin> {i0, i1, f0, f1}" "12 + wire_len ls + 4 < limit" "limit \<le> length h"
  shows "\<exists>msg' q qu. putQuestion msg (Some 12) limit name t c = Some (msg', Some q)
    \<and> LocateAnswers msg' q = Some (Some q)
    \<and> getQuestion msg' (Some 12) q iface = Some (qu, Some q)
    \<and> SameDomainName (q_qname qu) 0 name 0 = Some True \<and> DomainNameHashValue name 0 = Some (q_qnamehash qu)
    \<and> q_qtype qu = t \<and> q_qclass qu = c \<and> q_InterfaceID qu = iface"
proof -
  let ?q = "12 + wire_len ls"
  obtain msg' where m: "putQuestion msg (Some 12) limit name t c = Some (msg', Some (?q + 4))"
    "name_at msg' 12 ls" "get_val16 msg' ?q = Some t" "get_val16 msg' (?q + 2) = Some c"
    "get_count msg' h_numQuestions = Some 1"
    by (rule putQuestion_fresh [OF assms])
  have d: "decodes msg' (?q + 4) 12 ls ?q" by (rule name_at_decodes [OF m(2)]) simp
  obtain qu where qu: "getQuestion msg' (Some 12) (?q + 4) iface = Some (qu, Some (?q + 4))" "name_at (q_qname qu) 0 ls"
    "DomainNameHashValue (q_qname qu) 0 = Some (q_qnamehash qu)" "q_qtype qu = t" "q_qclass qu = c" "q_InterfaceID qu = iface"
    by (rule getQuestion_name [OF d _ assms(3) order_refl m(3,4), of iface]) simp_all
  have "LocateAnswers msg' (?q + 4) = Some (Some (?q + 4))"
    by (rule LocateAnswers_one [OF m(5) d _ assms(3)]) simp_all
  then show ?thesis
    using m(1) qu SameDomainName_iff [OF qu(2) assms(2)] DomainNameHashValue_fold [OF qu(2) assms(2)] assms(3) by auto
qed

theorem question_roundtrip_witness:
  "\<exists>msg' q qu. putQuestion demo_header (Some 12) 40 demo_name 16 1 = Some (msg', Some q)
    \<and> getQuestion msg' (Some 12) q 5 = Some (qu, Some q) \<and> q_qtype qu = 16 \<and> q_qclass qu = 1"
  using question_roundtrip [OF demo_header_init demo_name_at, of 40 16 1 5] by (auto simp: demo_header_def)

end
