(* ===== verification/Dns_Rdata.thy ===== *)
theory Dns_Rdata imports Dns_Parse begin

text \<open>
  DNSCommon.c: resource records in memory.  The data of a record is the memory of the union
  \<open>RDataBody2\<close>: domain names are arrays of 256 bytes at fixed offsets, integers are little-endian, ports and
  addresses are bytes.  The array of \<open>rdataOPT\<close> that an OPT record holds instead is a list of its elements.
\<close>

section \<open>Types\<close>

abbreviation kDNSType_A :: u16 where "kDNSType_A \<equiv> 1"
abbreviation kDNSType_NS :: u16 where "kDNSType_NS \<equiv> 2"
abbreviation kDNSType_MD :: u16 where "kDNSType_MD \<equiv> 3"
abbreviation kDNSType_MF :: u16 where "kDNSType_MF \<equiv> 4"
abbreviation kDNSType_CNAME :: u16 where "kDNSType_CNAME \<equiv> 5"
abbreviation kDNSType_SOA :: u16 where "kDNSType_SOA \<equiv> 6"
abbreviation kDNSType_MB :: u16 where "kDNSType_MB \<equiv> 7"
abbreviation kDNSType_MG :: u16 where "kDNSType_MG \<equiv> 8"
abbreviation kDNSType_MR :: u16 where "kDNSType_MR \<equiv> 9"
abbreviation kDNSType_NULL :: u16 where "kDNSType_NULL \<equiv> 10"
abbreviation kDNSType_PTR :: u16 where "kDNSType_PTR \<equiv> 12"
abbreviation kDNSType_HINFO :: u16 where "kDNSType_HINFO \<equiv> 13"
abbreviation kDNSType_MINFO :: u16 where "kDNSType_MINFO \<equiv> 14"
abbreviation kDNSType_MX :: u16 where "kDNSType_MX \<equiv> 15"
abbreviation kDNSType_TXT :: u16 where "kDNSType_TXT \<equiv> 16"
abbreviation kDNSType_RP :: u16 where "kDNSType_RP \<equiv> 17"
abbreviation kDNSType_AFSDB :: u16 where "kDNSType_AFSDB \<equiv> 18"
abbreviation kDNSType_X25 :: u16 where "kDNSType_X25 \<equiv> 19"
abbreviation kDNSType_ISDN :: u16 where "kDNSType_ISDN \<equiv> 20"
abbreviation kDNSType_RT :: u16 where "kDNSType_RT \<equiv> 21"
abbreviation kDNSType_NSAP_PTR :: u16 where "kDNSType_NSAP_PTR \<equiv> 23"
abbreviation kDNSType_PX :: u16 where "kDNSType_PX \<equiv> 26"
abbreviation kDNSType_AAAA :: u16 where "kDNSType_AAAA \<equiv> 28"
abbreviation kDNSType_LOC :: u16 where "kDNSType_LOC \<equiv> 29"
abbreviation kDNSType_SRV :: u16 where "kDNSType_SRV \<equiv> 33"
abbreviation kDNSType_NAPTR :: u16 where "kDNSType_NAPTR \<equiv> 35"
abbreviation kDNSType_KX :: u16 where "kDNSType_KX \<equiv> 36"
abbreviation kDNSType_DNAME :: u16 where "kDNSType_DNAME \<equiv> 39"
abbreviation kDNSType_OPT :: u16 where "kDNSType_OPT \<equiv> 41"
abbreviation kDNSType_DS :: u16 where "kDNSType_DS \<equiv> 43"
abbreviation kDNSType_RRSIG :: u16 where "kDNSType_RRSIG \<equiv> 46"
abbreviation kDNSType_NSEC :: u16 where "kDNSType_NSEC \<equiv> 47"
abbreviation kDNSType_DNSKEY :: u16 where "kDNSType_DNSKEY \<equiv> 48"
abbreviation kDNSType_DHCID :: u16 where "kDNSType_DHCID \<equiv> 49"
abbreviation kDNSType_TKEY :: u16 where "kDNSType_TKEY \<equiv> 249"
abbreviation kDNSType_TSIG :: u16 where "kDNSType_TSIG \<equiv> 250"
abbreviation kDNSQType_ANY :: u16 where "kDNSQType_ANY \<equiv> 255"
abbreviation kDNSQClass_ANY :: u16 where "kDNSQClass_ANY \<equiv> 255"

datatype opt_data =
    LLQ u16 u16 u16 bytes u32
  | UpdateLease u32
  | Owner u8 u8 bytes bytes bytes

record rdata_opt =
  o_opt :: u16
  o_data :: opt_data

record resource_record =
  rr_RecordType :: u8
  rr_rrtype :: u16
  rr_rrclass :: u16
  rr_rroriginalttl :: u32
  rr_rdlength :: u16
  rr_rdestimate :: u16
  rr_namehash :: u32
  rr_rdatahash :: u32
  rr_InterfaceID :: u64
  rr_name :: bytes
  rr_data :: bytes
  rr_opts :: "rdata_opt list"
  rr_resGroupID :: "u16 option"

text \<open>Fields of the union: offsets of names and values\<close>

definition off_soa_rname :: nat where "off_soa_rname = 256"
definition off_soa_serial :: nat where "off_soa_serial = 512"
definition off_mx_exchange :: nat where "off_mx_exchange = 2"
definition off_rp_txt :: nat where "off_rp_txt = 256"
definition off_px_map822 :: nat where "off_px_map822 = 2"
definition off_px_mapx400 :: nat where "off_px_mapx400 = 258"
definition off_srv_port :: nat where "off_srv_port = 4"
definition off_srv_target :: nat where "off_srv_target = 6"

lemmas offsets = off_soa_rname_def off_soa_serial_def off_mx_exchange_def off_rp_txt_def off_px_map822_def
  off_px_mapx400_def off_srv_port_def off_srv_target_def

abbreviation host16 :: "bytes \<Rightarrow> nat \<Rightarrow> u16 option" where "host16 \<equiv> get_count"

definition host32 :: "bytes \<Rightarrow> nat \<Rightarrow> u32 option" where
  "host32 buf i = do {
     lo \<leftarrow> host16 buf i;
     hi \<leftarrow> host16 buf (i + 2);
     Some (ucast lo OR push_bit 16 (ucast hi))
   }"

text \<open>\<open>x && y\<close>\<close>

definition and_then :: "bool option \<Rightarrow> bool option \<Rightarrow> bool option" where
  "and_then x y = do { b \<leftarrow> x; if b then y else Some False }"

definition same16 :: "bytes \<Rightarrow> bytes \<Rightarrow> nat \<Rightarrow> bool option" where
  "same16 a b i = do { x \<leftarrow> host16 a i; y \<leftarrow> host16 b i; Some (x = y) }"

definition same32 :: "bytes \<Rightarrow> bytes \<Rightarrow> nat \<Rightarrow> bool option" where
  "same32 a b i = do { x \<leftarrow> host32 a i; y \<leftarrow> host32 b i; Some (x = y) }"

section \<open>Hash and comparison of record data\<close>

definition name_types :: "u16 list" where
  "name_types = [kDNSType_NS, kDNSType_MD, kDNSType_MF, kDNSType_CNAME, kDNSType_MB, kDNSType_MG, kDNSType_MR,
     kDNSType_PTR, kDNSType_NSAP_PTR, kDNSType_DNAME]"

definition mx_types :: "u16 list" where
  "mx_types = [kDNSType_MX, kDNSType_AFSDB, kDNSType_RT, kDNSType_KX]"

definition rp_types :: "u16 list" where
  "rp_types = [kDNSType_MINFO, kDNSType_RP]"

lemmas type_lists = name_types_def mx_types_def rp_types_def

fun raw_hash :: "bytes \<Rightarrow> nat \<Rightarrow> nat \<Rightarrow> u32 \<Rightarrow> u32 option" where
  "raw_hash buf p 0 acc = Some acc"
| "raw_hash buf p (Suc 0) acc = do { x \<leftarrow> read_byte buf p; Some (acc + push_bit 8 (ucast x)) }"
| "raw_hash buf p (Suc (Suc n)) acc = do {
     x \<leftarrow> read_byte buf p;
     y \<leftarrow> read_byte buf (p + 1);
     let s = acc + (push_bit 8 (ucast x) OR ucast y);
     raw_hash buf (p + 2) n (push_bit 3 s OR drop_bit 29 s)
   }"

definition add_hashes :: "u32 option \<Rightarrow> u32 option \<Rightarrow> u32 option" where
  "add_hashes x y = do { a \<leftarrow> x; b \<leftarrow> y; Some (a + b) }"

definition RDataHashValue :: "resource_record \<Rightarrow> u32 option" where
  "RDataHashValue rr =
     (let d = rr_data rr; t = rr_rrtype rr; n = unat (rr_rdlength rr) in
      if t \<in> set name_types then DomainNameHashValue d 0
      else if t = kDNSType_SOA then
        add_hashes (add_hashes (add_hashes (add_hashes (add_hashes (add_hashes
          (host32 d off_soa_serial) (host32 d (off_soa_serial + 4))) (host32 d (off_soa_serial + 8)))
          (host32 d (off_soa_serial + 12))) (host32 d (off_soa_serial + 16)))
          (DomainNameHashValue d 0)) (DomainNameHashValue d off_soa_rname)
      else if t \<in> set mx_types then DomainNameHashValue d off_mx_exchange
      else if t \<in> set rp_types then add_hashes (DomainNameHashValue d 0) (DomainNameHashValue d off_rp_txt)
      else if t = kDNSType_PX then add_hashes (DomainNameHashValue d off_px_map822) (DomainNameHashValue d off_px_mapx400)
      else if t = kDNSType_SRV then DomainNameHashValue d off_srv_target
      else if t = kDNSType_OPT then Some 0
      else if t = kDNSType_NSEC then do {
        dlen \<leftarrow> DomainNameLength d 0;
        s \<leftarrow> DomainNameHashValue d 0;
        raw_hash d (unat dlen) (n - unat dlen) s
      }
      else raw_hash d 0 n 0)"

definition mem_same :: "bytes \<Rightarrow> nat \<Rightarrow> bytes \<Rightarrow> nat \<Rightarrow> nat \<Rightarrow> bool option" where
  "mem_same a i b j n = do { x \<leftarrow> read_bytes a i n; y \<leftarrow> read_bytes b j n; Some (x = y) }"

type_synonym name_comparison = "bytes \<Rightarrow> nat \<Rightarrow> bytes \<Rightarrow> nat \<Rightarrow> bool option"

text \<open>\<open>r1->rdlength - dlen1\<close> is passed as an unsigned number: nothing is that long when it is negative.\<close>

definition SameRDataBody :: "resource_record \<Rightarrow> bytes \<Rightarrow> name_comparison \<Rightarrow> bool option" where
  "SameRDataBody r1 r2 samename =
     (let d = rr_data r1; t = rr_rrtype r1; n = unat (rr_rdlength r1) in
      if t \<in> set name_types then SameDomainName d 0 r2 0
      else if t = kDNSType_SOA then
        and_then (same32 d r2 off_soa_serial) (and_then (same32 d r2 (off_soa_serial + 4)) (and_then (same32 d r2 (off_soa_serial + 8))
          (and_then (same32 d r2 (off_soa_serial + 12)) (and_then (same32 d r2 (off_soa_serial + 16))
          (and_then (samename d 0 r2 0) (samename d off_soa_rname r2 off_soa_rname))))))
      else if t \<in> set mx_types then and_then (same16 d r2 0) (samename d off_mx_exchange r2 off_mx_exchange)
      else if t \<in> set rp_types then and_then (samename d 0 r2 0) (samename d off_rp_txt r2 off_rp_txt)
      else if t = kDNSType_PX then
        and_then (same16 d r2 0) (and_then (samename d off_px_map822 r2 off_px_map822) (samename d off_px_mapx400 r2 off_px_mapx400))
      else if t = kDNSType_SRV then
        and_then (same16 d r2 0) (and_then (same16 d r2 2) (and_then (same16 d r2 off_srv_port)
          (samename d off_srv_target r2 off_srv_target)))
      else if t = kDNSType_OPT then Some False
      else if t = kDNSType_NSEC then do {
        dlen1 \<leftarrow> DomainNameLength d 0;
        dlen2 \<leftarrow> DomainNameLength r2 0;
        and_then (Some (dlen1 = dlen2)) (and_then (samename d 0 r2 0)
          (if unat dlen1 \<le> n then mem_same d (unat dlen1) r2 (unat dlen2) (n - unat dlen1) else None))
      }
      else mem_same d 0 r2 0 n)"

section \<open>NSEC bitmaps\<close>

text \<open>\<open>n\<close> bytes of bitmap at \<open>p\<close>\<close>

function nsec_exists_loop :: "bytes \<Rightarrow> nat \<Rightarrow> nat \<Rightarrow> u16 \<Rightarrow> bool option" where
  "nsec_exists_loop d p n ty =
     (if n = 0 then Some False
      else if n < 3 then Some False
      else
        (case read_byte d p of None \<Rightarrow> None | Some win \<Rightarrow>
          (case read_byte d (p + 1) of None \<Rightarrow> None | Some wlen \<Rightarrow>
            if n - 2 < unat wlen \<or> wlen < 1 \<or> wlen > 32 then Some False
            else if unat win = unat (drop_bit 8 ty) then
              (let boff = unat (drop_bit 3 (ty AND 0xFF)) in
               if unat wlen \<le> boff then Some False
               else map_option (\<lambda>b. b AND drop_bit (unat (ty AND 7)) 0x80 \<noteq> 0) (read_byte d (p + 2 + boff)))
            else nsec_exists_loop d (p + 2 + unat wlen) (n - 2 - unat wlen) ty)))"
  by pat_completeness auto

termination nsec_exists_loop
  by (relation "measure (\<lambda>(d, p, n, ty). n)") auto

declare nsec_exists_loop.simps [simp del]

definition RRAssertsExistence :: "resource_record \<Rightarrow> u16 \<Rightarrow> bool option" where
  "RRAssertsExistence rr ty =
     (if rr_rrtype rr \<noteq> kDNSType_NSEC then Some False
      else do {
        len \<leftarrow> DomainNameLength (rr_data rr) 0;
        nsec_exists_loop (rr_data rr) (unat len) (unat (rr_rdlength rr) - unat len) ty
      })"

definition RRAssertsNonexistence :: "resource_record \<Rightarrow> u16 \<Rightarrow> bool option" where
  "RRAssertsNonexistence rr ty =
     (if rr_rrtype rr \<noteq> kDNSType_NSEC then Some False else map_option Not (RRAssertsExistence rr ty))"

definition UNICAST_NSEC :: "resource_record \<Rightarrow> bool option" where
  "UNICAST_NSEC rr = (if rr_rrtype rr = kDNSType_NSEC then RRAssertsExistence rr kDNSType_NSEC else Some False)"

section \<open>Length and validity\<close>

definition raw_types :: "u16 list" where
  "raw_types = [kDNSType_NULL, kDNSType_TSIG, kDNSType_TXT, kDNSType_X25, kDNSType_ISDN, kDNSType_LOC, kDNSType_DHCID]"

definition ptr_types :: "u16 list" where
  "ptr_types = [kDNSType_NS, kDNSType_CNAME, kDNSType_PTR, kDNSType_DNAME]"

definition add_lengths :: "u16 option \<Rightarrow> u16 option \<Rightarrow> u16 option" where
  "add_lengths x y = do { a \<leftarrow> x; b \<leftarrow> y; Some (a + b) }"

definition GetRDLength :: "resource_record \<Rightarrow> bool \<Rightarrow> u16 option" where
  "GetRDLength rr est =
     (let d = rr_data rr; t = rr_rrtype rr;
          clen = (\<lambda>i. CompressedDomainNameLength d i (if est then Some (rr_name rr, 0) else None)) in
      if rr_rrclass rr = kDNSQClass_ANY then Some (rr_rdlength rr)
      else if t = kDNSType_A then Some 4
      else if t \<in> set ptr_types then clen 0
      else if t = kDNSType_SOA then add_lengths (add_lengths (clen 0) (clen off_soa_rname)) (Some 20)
      else if t \<in> set raw_types then Some (rr_rdlength rr)
      else if t = kDNSType_HINFO then do {
        n \<leftarrow> read_byte d 0;
        k \<leftarrow> read_byte d (1 + unat n);
        Some (2 + ucast n + ucast k)
      }
      else if t \<in> set mx_types then add_lengths (Some 2) (clen off_mx_exchange)
      else if t = kDNSType_RP then add_lengths (clen 0) (clen off_rp_txt)
      else if t = kDNSType_PX then add_lengths (Some 2) (add_lengths (clen off_px_map822) (clen off_px_mapx400))
      else if t = kDNSType_AAAA then Some 16
      else if t = kDNSType_SRV then add_lengths (Some 6) (clen off_srv_target)
      else if t = kDNSType_OPT then Some (rr_rdlength rr)
      else if t = kDNSType_NSEC then do {
        dlen \<leftarrow> DomainNameLength d 0;
        unicast \<leftarrow> UNICAST_NSEC rr;
        if unicast then do { n \<leftarrow> clen 0; Some (n + rr_rdlength rr - dlen) }
        else Some ((if est then 2 else dlen) + rr_rdlength rr - dlen)
      }
      else Some (rr_rdlength rr))"

function txt_end :: "bytes \<Rightarrow> nat \<Rightarrow> nat \<Rightarrow> nat option" where
  "txt_end d p e =
     (if p < e then (case read_byte d p of None \<Rightarrow> None | Some n \<Rightarrow> txt_end d (p + 1 + unat n) e) else Some p)"
  by pat_completeness auto

termination txt_end
  by (relation "measure (\<lambda>(d, p, e). e - p)") auto

declare txt_end.simps [simp del]

definition validated_names :: "u16 list" where
  "validated_names = [kDNSType_NS, kDNSType_MD, kDNSType_MF, kDNSType_CNAME, kDNSType_MB, kDNSType_MG, kDNSType_MR, kDNSType_PTR]"

definition ValidateRData :: "u16 \<Rightarrow> u16 \<Rightarrow> bytes \<Rightarrow> bool option" where
  "ValidateRData rrtype rdlength d =
     (let n = unat rdlength;
          name_fills = (\<lambda>i. do { len \<leftarrow> DomainNameLengthLimit d i n; Some (unat len \<le> MAX_DOMAIN_NAME \<and> n = i + unat len) }) in
      if rrtype = kDNSType_A then Some (rdlength = 4)
      else if rrtype \<in> set validated_names then name_fills 0
      else if rrtype \<in> {kDNSType_HINFO, kDNSType_MINFO, kDNSType_TXT} then
        if rdlength = 0 then Some False else do { p \<leftarrow> txt_end d 0 n; Some (p = n) }
      else if rrtype = kDNSType_AAAA then Some (rdlength = 16)
      else if rrtype = kDNSType_MX then name_fills off_mx_exchange
      else if rrtype = kDNSType_SRV then name_fills off_srv_target
      else Some True)"

text \<open>The name that a record refers to, if any\<close>

definition GetRRDomainNameTarget :: "resource_record \<Rightarrow> nat option" where
  "GetRRDomainNameTarget rr =
     (let t = rr_rrtype rr in
      if t \<in> set ptr_types then Some 0
      else if t \<in> set mx_types then Some off_mx_exchange
      else if t = kDNSType_SRV then Some off_srv_target
      else None)"

definition SetNewRData :: "resource_record \<Rightarrow> (bytes \<times> u16) option \<Rightarrow> resource_record option" where
  "SetNewRData rr NewRData = do {
     let rr = (case NewRData of None \<Rightarrow> rr | Some (d, n) \<Rightarrow> rr\<lparr>rr_data := d, rr_rdlength := n\<rparr>);
     n \<leftarrow> GetRDLength rr False;
     let rr = rr\<lparr>rr_rdlength := n\<rparr>;
     k \<leftarrow> GetRDLength rr True;
     let rr = rr\<lparr>rr_rdestimate := k\<rparr>;
     h \<leftarrow> (case GetRRDomainNameTarget rr of Some i \<Rightarrow> DomainNameHashValue (rr_data rr) i | None \<Rightarrow> RDataHashValue rr);
     Some (rr\<lparr>rr_rdatahash := h\<rparr>)
   }"

end
