(* ===== verification/Dns_Answer.thy ===== *)
theory Dns_Answer imports Dns_Rdata begin

text \<open>
  DNSCommon.c: which records answer which questions.  The build for platforms other than OS X is modelled;
  log messages are left out.
\<close>

text \<open>The fields of \<open>DNSQuestion\<close> that matter here besides those the parser sets\<close>

record question = dns_question +
  q_SuppressUnusable :: bool
  q_SuppressQuery :: bool
  q_ValidationRequired :: bool
  q_ValidatingResponse :: bool
  q_resGroupID :: "u16 option"

datatype auth_rec_type = AuthRecordAny | AuthRecordAnyIncludeP2P | AuthRecordAnyIncludeAWDL | AuthRecordLocalOnly | AuthRecordP2P

definition mDNSInterface_LocalOnly :: u64 where "mDNSInterface_LocalOnly = - 2"
definition mDNSInterface_Unicast :: u64 where "mDNSInterface_Unicast = - 3"
definition mDNSInterface_P2P :: u64 where "mDNSInterface_P2P = - 4"

definition QuerySuppressed :: "question \<Rightarrow> bool" where
  "QuerySuppressed q \<longleftrightarrow> q_SuppressUnusable q \<and> q_SuppressQuery q"

definition DNSSECQuestion :: "question \<Rightarrow> bool" where
  "DNSSECQuestion q \<longleftrightarrow> q_ValidationRequired q \<or> q_ValidatingResponse q"

definition RRTypeAnswersQuestionType :: "resource_record \<Rightarrow> u16 \<Rightarrow> bool option" where
  "RRTypeAnswersQuestionType rr t =
     (if rr_rrtype rr = kDNSType_CNAME \<or> rr_rrtype rr = t \<or> t = kDNSQType_ANY then Some True
      else RRAssertsNonexistence rr t)"

text \<open>\<open>typeCovered\<close> lies at the start of the data, in network order.\<close>

definition DNSSECRecordAnswersQuestion :: "resource_record \<Rightarrow> question \<Rightarrow> (bool \<times> bool) option" where
  "DNSSECRecordAnswersQuestion rr q =
     (if q_qtype q = rr_rrtype rr then Some (True, True)
      else if rr_rrtype rr = kDNSType_RRSIG \<and> q_ValidatingResponse q then
        if q_qtype q = kDNSType_CNAME then Some (False, True)
        else do {
          covered \<leftarrow> get_val16 (rr_data rr) 0;
          Some (if covered \<noteq> q_qtype q then (False, True) else (True, False))
        }
      else if rr_rrtype rr = kDNSType_NSEC \<and> DNSSECQuestion q then Some (False, True)
      else Some (True, True))"

definition same_server :: "resource_record \<Rightarrow> question \<Rightarrow> bool" where
  "same_server rr q \<longleftrightarrow>
     (case rr_resGroupID rr of None \<Rightarrow> 0 | Some g \<Rightarrow> g) = (case q_resGroupID q of None \<Rightarrow> 0 | Some g \<Rightarrow> g)"

definition class_answers :: "resource_record \<Rightarrow> question \<Rightarrow> bool" where
  "class_answers rr q \<longleftrightarrow> rr_rrclass rr = q_qclass q \<or> q_qclass q = kDNSQClass_ANY"

text \<open>A record received by multicast and a unicast question\<close>

definition multicast_for_unicast :: "resource_record \<Rightarrow> question \<Rightarrow> bool" where
  "multicast_for_unicast rr q \<longleftrightarrow> rr_InterfaceID rr \<noteq> 0 \<and> q_TargetQID q \<noteq> (0, 0)"

definition SameNameRecordAnswersQuestion :: "resource_record \<Rightarrow> question \<Rightarrow> bool option" where
  "SameNameRecordAnswersQuestion rr q =
     (let i = rr_InterfaceID rr; qi = q_InterfaceID q in
      if i = mDNSInterface_LocalOnly \<or> i = mDNSInterface_P2P then Some False
      else if QuerySuppressed q then Some False
      else if i \<noteq> 0 \<and> qi \<noteq> 0 \<and> qi \<noteq> mDNSInterface_LocalOnly \<and> i \<noteq> qi then Some False
      else do {
        (server, checkType) \<leftarrow>
          (if i = 0 then
             if \<not> same_server rr q then Some (False, True) else DNSSECRecordAnswersQuestion rr q
           else Some (True, True));
        if \<not> server then Some False
        else if multicast_for_unicast rr q then Some False
        else do {
          ty \<leftarrow> (if checkType then RRTypeAnswersQuestionType rr (q_qtype q) else Some True);
          Some (ty \<and> class_answers rr q)
        }
      })"

definition hash_and_name :: "resource_record \<Rightarrow> question \<Rightarrow> bool option" where
  "hash_and_name rr q =
     (if rr_namehash rr = q_qnamehash q then SameDomainName (rr_name rr) 0 (q_qname q) 0 else Some False)"

definition ResourceRecordAnswersQuestion :: "resource_record \<Rightarrow> question \<Rightarrow> bool option" where
  "ResourceRecordAnswersQuestion rr q = and_then (SameNameRecordAnswersQuestion rr q) (hash_and_name rr q)"

definition RRAny :: "auth_rec_type \<Rightarrow> bool" where
  "RRAny t \<longleftrightarrow> t = AuthRecordAny \<or> t = AuthRecordAnyIncludeP2P \<or> t = AuthRecordAnyIncludeAWDL"

definition LocalOnlyRecordAnswersQuestion :: "auth_rec_type \<Rightarrow> resource_record \<Rightarrow> question \<Rightarrow> bool option" where
  "LocalOnlyRecordAnswersQuestion ARType rr q =
     (let i = rr_InterfaceID rr; qi = q_InterfaceID q in
      if RRAny ARType then Some False
      else if i \<noteq> 0 \<and> qi \<noteq> 0 \<and> qi \<noteq> mDNSInterface_LocalOnly \<and> qi \<noteq> mDNSInterface_Unicast \<and> i \<noteq> qi then Some False
      else if ARType \<noteq> AuthRecordLocalOnly \<and> multicast_for_unicast rr q then Some False
      else and_then (RRTypeAnswersQuestionType rr (q_qtype q))
             (if class_answers rr q then hash_and_name rr q else Some False))"

definition AnyTypeRecordAnswersQuestion :: "resource_record \<Rightarrow> question \<Rightarrow> bool option" where
  "AnyTypeRecordAnswersQuestion rr q =
     (let i = rr_InterfaceID rr; qi = q_InterfaceID q in
      if i = mDNSInterface_LocalOnly \<or> i = mDNSInterface_P2P then Some False
      else if i \<noteq> 0 \<and> qi \<noteq> 0 \<and> qi \<noteq> mDNSInterface_LocalOnly \<and> i \<noteq> qi then Some False
      else if i = 0 \<and> \<not> same_server rr q then Some False
      else if multicast_for_unicast rr q then Some False
      else if \<not> class_answers rr q then Some False
      else hash_and_name rr q)"

definition ResourceRecordAnswersUnicastResponse :: "resource_record \<Rightarrow> question \<Rightarrow> bool option" where
  "ResourceRecordAnswersUnicastResponse rr q =
     (let i = rr_InterfaceID rr; qi = q_InterfaceID q in
      if QuerySuppressed q then Some False
      else if i \<noteq> 0 \<and> qi \<noteq> 0 \<and> i \<noteq> qi then Some False
      else if multicast_for_unicast rr q then Some False
      else do {
        (ok, checkType) \<leftarrow> DNSSECRecordAnswersQuestion rr q;
        if \<not> ok then Some False
        else and_then (if checkType then RRTypeAnswersQuestionType rr (q_qtype q) else Some True)
               (if class_answers rr q then hash_and_name rr q else Some False)
      })"

end
