(* ===== verification/Dns_Record.thy ===== *)
theory Dns_Record imports Dns_Rdata begin

text \<open>
  DNSCommon.c: resource records from memory to messages and back.  A record under construction has its data
  in an array of \<open>MaximumRDSize\<close> bytes; a copy outside an array is \<open>None\<close>.
\<close>

section \<open>Memory\<close>

definition MaximumRDSize :: nat where "MaximumRDSize = 8192"
definition sizeof_rdataOPT :: nat where "sizeof_rdataOPT = 24"

definition store_bytes :: "bytes \<Rightarrow> nat \<Rightarrow> bytes \<Rightarrow> bytes option" where
  "store_bytes d off bs = (if off + length bs \<le> length d then Some (write_bytes d off bs) else None)"

definition mem_copy :: "bytes \<Rightarrow> nat \<Rightarrow> bytes \<Rightarrow> nat \<Rightarrow> nat \<Rightarrow> bytes option" where
  "mem_copy d off src p n = do { bs \<leftarrow> read_bytes src p n; store_bytes d off bs }"

definition store16 :: "bytes \<Rightarrow> nat \<Rightarrow> u16 \<Rightarrow> bytes option" where
  "store16 = set_count"

definition store32 :: "bytes \<Rightarrow> nat \<Rightarrow> u32 \<Rightarrow> bytes option" where
  "store32 d off v = do { d \<leftarrow> store16 d off (ucast v); store16 d (off + 2) (ucast (drop_bit 16 v)) }"

definition get_val32 :: "bytes \<Rightarrow> nat \<Rightarrow> u32 option" where
  "get_val32 msg p = do {
     hi \<leftarrow> get_val16 msg p;
     lo \<leftarrow> get_val16 msg (p + 2);
     Some (push_bit 16 (ucast hi) OR ucast lo)
   }"

section \<open>Writing record data\<close>

text \<open>Going on with the pointer returned, unless it is NULL\<close>

definition then_put ::
  "(bytes \<times> nat option) option \<Rightarrow> (bytes \<Rightarrow> nat \<Rightarrow> (bytes \<times> nat option) option) \<Rightarrow> (bytes \<times> nat option) option" where
  "then_put x f = do { (msg, r) \<leftarrow> x; (case r of None \<Rightarrow> Some (msg, None) | Some p \<Rightarrow> f msg p) }"

definition put_name :: "bool \<Rightarrow> bytes \<Rightarrow> nat \<Rightarrow> nat \<Rightarrow> bytes \<Rightarrow> nat \<Rightarrow> (bytes \<times> nat option) option" where
  "put_name c msg p limit d off = putDomainNameAsLabels c msg (Some p) limit (drop off d)"

definition put_raw :: "bytes \<Rightarrow> nat \<Rightarrow> nat \<Rightarrow> bytes \<Rightarrow> nat \<Rightarrow> (bytes \<times> nat option) option" where
  "put_raw msg p limit d n =
     (if p + n > limit then Some (msg, None) else do { msg \<leftarrow> mem_copy msg p d 0 n; Some (msg, Some (p + n)) })"

definition put_soa :: "bool \<Rightarrow> bytes \<Rightarrow> nat \<Rightarrow> nat \<Rightarrow> bytes \<Rightarrow> (bytes \<times> nat option) option" where
  "put_soa c msg p limit d =
     then_put (put_name c msg p limit d 0) (\<lambda>msg p.
     then_put (put_name c msg p limit d off_soa_rname) (\<lambda>msg p.
       if p + 20 > limit then Some (msg, None)
       else do {
         serial \<leftarrow> host32 d off_soa_serial;
         refresh \<leftarrow> host32 d (off_soa_serial + 4);
         retry \<leftarrow> host32 d (off_soa_serial + 8);
         expire \<leftarrow> host32 d (off_soa_serial + 12);
         minimum \<leftarrow> host32 d (off_soa_serial + 16);
         (msg, p) \<leftarrow> putVal32 msg p serial;
         (msg, p) \<leftarrow> putVal32 msg p refresh;
         (msg, p) \<leftarrow> putVal32 msg p retry;
         (msg, p) \<leftarrow> putVal32 msg p expire;
         (msg, p) \<leftarrow> putVal32 msg p minimum;
         Some (msg, Some p)
       }))"

definition put_preference :: "bytes \<Rightarrow> nat \<Rightarrow> nat \<Rightarrow> nat \<Rightarrow> bytes \<Rightarrow> (bytes \<times> nat option) option" where
  "put_preference msg p need limit d =
     (if p + need > limit then Some (msg, None)
      else do { v \<leftarrow> host16 d 0; (msg, p) \<leftarrow> putVal16 msg p v; Some (msg, Some p) })"

definition put_srv :: "bool \<Rightarrow> bytes \<Rightarrow> nat \<Rightarrow> nat \<Rightarrow> bytes \<Rightarrow> (bytes \<times> nat option) option" where
  "put_srv c msg p limit d =
     (if p + 7 > limit then Some (msg, None)
      else do {
        priority \<leftarrow> host16 d 0;
        weight \<leftarrow> host16 d 2;
        (msg, p) \<leftarrow> putVal16 msg p priority;
        (msg, p) \<leftarrow> putVal16 msg p weight;
        msg \<leftarrow> mem_copy msg p d off_srv_port 2;
        put_name c msg (p + 2) limit d off_srv_target
      })"

definition DNSOpt_Data_Space :: "rdata_opt \<Rightarrow> nat" where
  "DNSOpt_Data_Space o1 =
     (if o_opt o1 = 1 then 22
      else if o_opt o1 = 2 then 8
      else if o_opt o1 = 4 then (case o_data o1 of Owner vers sq HMAC IMAC pw \<Rightarrow> if HMAC = IMAC then 12 else 18 | _ \<Rightarrow> 0x10000)
      else 0x10000)"

definition put_opt :: "bytes \<Rightarrow> nat \<Rightarrow> rdata_opt \<Rightarrow> (bytes \<times> nat) option" where
  "put_opt msg p o1 = do {
     let space = DNSOpt_Data_Space o1;
     (msg, p) \<leftarrow> putVal16 msg p (o_opt o1);
     (msg, p) \<leftarrow> putVal16 msg p (of_nat space - 4);
     (case o_data o1 of
        LLQ vers llqOp err lid llqlease \<Rightarrow> do {
          (msg, p) \<leftarrow> putVal16 msg p vers;
          (msg, p) \<leftarrow> putVal16 msg p llqOp;
          (msg, p) \<leftarrow> putVal16 msg p err;
          msg \<leftarrow> mem_copy msg p lid 0 8;
          putVal32 msg (p + 8) llqlease
        }
      | UpdateLease v \<Rightarrow> putVal32 msg p v
      | Owner vers sq HMAC IMAC pw \<Rightarrow> do {
          msg \<leftarrow> store_bytes msg p [vers, sq];
          msg \<leftarrow> mem_copy msg (p + 2) HMAC 0 6;
          if space \<ge> 18 then do { msg \<leftarrow> mem_copy msg (p + 8) IMAC 0 6; Some (msg, p + 14) } else Some (msg, p + 8)
        })
   }"

fun put_opts :: "bytes \<Rightarrow> nat \<Rightarrow> rdata_opt list \<Rightarrow> (bytes \<times> nat option) option" where
  "put_opts msg p [] = Some (msg, Some p)"
| "put_opts msg p (o1 # os) = do { (msg, p) \<leftarrow> put_opt msg p o1; put_opts msg p os }"

text \<open>The options that begin before the end of the data\<close>

definition opts_of :: "resource_record \<Rightarrow> rdata_opt list option" where
  "opts_of rr =
     (let n = (unat (rr_rdlength rr) + (sizeof_rdataOPT - 1)) div sizeof_rdataOPT
      in if n \<le> length (rr_opts rr) then Some (take n (rr_opts rr)) else None)"

definition put_opt_rdata :: "bytes \<Rightarrow> nat \<Rightarrow> nat \<Rightarrow> resource_record \<Rightarrow> (bytes \<times> nat option) option" where
  "put_opt_rdata msg p limit rr = do {
     os \<leftarrow> opts_of rr;
     if p + sum_list (map DNSOpt_Data_Space os) > limit then Some (msg, None) else put_opts msg p os
   }"

text \<open>The number of bytes up to the last one that is not zero\<close>

fun used_bitmap :: "bytes \<Rightarrow> nat \<Rightarrow> nat \<Rightarrow> nat option" where
  "used_bitmap d p 0 = Some 0"
| "used_bitmap d p (Suc i) = do { b \<leftarrow> read_byte d (p + i); if b \<noteq> 0 then Some (Suc i) else used_bitmap d p i }"

function nsec_bitmap_ok :: "bytes \<Rightarrow> nat \<Rightarrow> int \<Rightarrow> bool option" where
  "nsec_bitmap_ok d p len =
     (if len = 0 then Some True
      else if len < 3 then Some False
      else
        (case read_byte d (p + 1) of None \<Rightarrow> None | Some wlen \<Rightarrow>
          if len - 2 < int (unat wlen) \<or> wlen < 1 \<or> wlen > 32 then Some False
          else nsec_bitmap_ok d (p + 2 + unat wlen) (len - 2 - int (unat wlen))))"
  by pat_completeness auto

termination nsec_bitmap_ok
  by (relation "measure (\<lambda>(d, p, len). nat len)") (auto intro: less_le_trans [OF _ uint_nonnegative])

declare nsec_bitmap_ok.simps [simp del]

definition put_nsec :: "bool \<Rightarrow> bytes \<Rightarrow> nat \<Rightarrow> nat \<Rightarrow> resource_record \<Rightarrow> (bytes \<times> nat option) option" where
  "put_nsec c msg p limit rr = do {
     let d = rr_data rr;
     dlen \<leftarrow> DomainNameLength d 0;
     unicast \<leftarrow> UNICAST_NSEC rr;
     if \<not> unicast then do {
       wlen \<leftarrow> read_byte d (unat dlen + 1);
       i \<leftarrow> used_bitmap d (unat dlen + 2) (unat wlen);
       then_put (putDomainNameAsLabels c msg (Some p) limit (rr_name rr)) (\<lambda>msg p.
         if i = 0 then Some (msg, Some p)
         else if p + 2 + i > limit then Some (msg, None)
         else do {
           msg \<leftarrow> store_bytes msg p [0, of_nat i];
           msg \<leftarrow> mem_copy msg (p + 2) d (unat dlen + 2) i;
           Some (msg, Some (p + 2 + i))
         })
     } else do {
       ok \<leftarrow> nsec_bitmap_ok d (unat dlen) (int (unat (rr_rdlength rr)) - int (unat dlen));
       if \<not> ok then Some (msg, None) else put_raw msg p limit d (unat (rr_rdlength rr))
     }
   }"

definition putRData :: "bool \<Rightarrow> bytes \<Rightarrow> nat \<Rightarrow> nat \<Rightarrow> resource_record \<Rightarrow> (bytes \<times> nat option) option" where
  "putRData c msg p limit rr =
     (let d = rr_data rr; t = rr_rrtype rr; n = unat (rr_rdlength rr) in
      if t = kDNSType_A then if n \<noteq> 4 then Some (msg, None) else put_raw msg p limit d 4
      else if t \<in> set ptr_types then put_name c msg p limit d 0
      else if t = kDNSType_SOA then put_soa c msg p limit d
      else if t \<in> set mx_types then
        then_put (put_preference msg p 3 limit d) (\<lambda>msg p. put_name c msg p limit d off_mx_exchange)
      else if t = kDNSType_RP then
        then_put (put_name c msg p limit d 0) (\<lambda>msg p. put_name c msg p limit d off_rp_txt)
      else if t = kDNSType_PX then
        then_put (put_preference msg p 5 limit d) (\<lambda>msg p.
          then_put (put_name c msg p limit d off_px_map822) (\<lambda>msg p. put_name c msg p limit d off_px_mapx400))
      else if t = kDNSType_AAAA then if n \<noteq> 16 then Some (msg, None) else put_raw msg p limit d 16
      else if t = kDNSType_SRV then put_srv c msg p limit d
      else if t = kDNSType_OPT then put_opt_rdata msg p limit rr
      else if t = kDNSType_NSEC then put_nsec c msg p limit rr
      else put_raw msg p limit d n)"

definition IsUnicastUpdate :: "bytes \<Rightarrow> bool option" where
  "IsUnicastUpdate msg = do {
     i \<leftarrow> get_val16 msg 0;
     f \<leftarrow> read_byte msg 2;
     Some (i \<noteq> 0 \<and> f AND 0x78 = 0x28)
   }"

text \<open>\<open>count\<close> is the offset of a count of the header, or NULL.\<close>

definition PutResourceRecordTTLWithLimit ::
  "bytes \<Rightarrow> nat option \<Rightarrow> nat option \<Rightarrow> resource_record \<Rightarrow> u32 \<Rightarrow> nat \<Rightarrow> (bytes \<times> nat option) option" where
  "PutResourceRecordTTLWithLimit msg ptr count rr ttl limit = do {
     update \<leftarrow> IsUnicastUpdate msg;
     let c = \<not> (update \<and> rr_rrtype rr = kDNSType_SRV);
     if rr_RecordType rr = 0 then Some (msg, ptr)
     else if ptr = None then Some (msg, None)
     else then_put (putDomainNameAsLabels True msg ptr limit (rr_name rr)) (\<lambda>msg p.
       if p + 10 \<ge> limit then Some (msg, None)
       else do {
         msg \<leftarrow> put_type_class msg p (rr_rrtype rr) (rr_rrclass rr);
         (msg, q) \<leftarrow> putVal32 msg (p + 4) ttl;
         then_put (putRData c msg (p + 10) limit rr) (\<lambda>msg endofrdata. do {
           (msg, q) \<leftarrow> putVal16 msg (p + 8) (of_nat (endofrdata - p - 10));
           msg \<leftarrow> (case count of None \<Rightarrow> Some msg | Some k \<Rightarrow> inc_count msg k);
           Some (msg, Some endofrdata)
         })
       })
   }"

section \<open>Reading record data\<close>

text \<open>
  Results are the record and whether its data was accepted.  With a message (\<open>m\<close>) names may be compressed;
  without one, \<open>mem\<close> is any memory that holds the data and names are copied as they are.
\<close>

definition AssignDomainName :: "bytes \<Rightarrow> nat \<Rightarrow> bytes \<Rightarrow> nat \<Rightarrow> bytes option" where
  "AssignDomainName dst off src p = do {
     len \<leftarrow> DomainNameLength src p;
     if unat len \<le> MAX_DOMAIN_NAME then mem_copy dst off src p (unat len) else set_byte dst off 0
   }"

definition fetch_name :: "bool \<Rightarrow> bytes \<Rightarrow> nat option \<Rightarrow> nat \<Rightarrow> bytes \<Rightarrow> (bytes \<times> nat option) option" where
  "fetch_name m mem ptr e arr =
     (if m then getDomainName mem ptr e arr
      else (case ptr of
          None \<Rightarrow> None
        | Some p \<Rightarrow> do { arr \<leftarrow> AssignDomainName arr 0 mem p; n \<leftarrow> DomainNameLength arr 0; Some (arr, Some (p + unat n)) }))"

text \<open>Fetching into the array of 256 bytes at \<open>off\<close>\<close>

definition set_name :: "bool \<Rightarrow> bytes \<Rightarrow> nat option \<Rightarrow> nat \<Rightarrow> nat \<Rightarrow> resource_record \<Rightarrow> (resource_record \<times> nat option) option" where
  "set_name m mem ptr e off rr = do {
     arr \<leftarrow> read_bytes (rr_data rr) off MAX_DOMAIN_NAME;
     (arr, r) \<leftarrow> fetch_name m mem ptr e arr;
     d \<leftarrow> store_bytes (rr_data rr) off arr;
     Some (rr\<lparr>rr_data := d\<rparr>, r)
   }"

definition fetch_local :: "bool \<Rightarrow> bytes \<Rightarrow> nat \<Rightarrow> nat \<Rightarrow> (bytes \<times> nat option) option" where
  "fetch_local m mem p e = fetch_name m mem (Some p) e (replicate MAX_DOMAIN_NAME 0)"

text \<open>The last name of the data has to end where the data ends.\<close>

definition set_last_name :: "bool \<Rightarrow> bytes \<Rightarrow> nat \<Rightarrow> nat \<Rightarrow> nat \<Rightarrow> resource_record \<Rightarrow> (resource_record \<times> bool) option" where
  "set_last_name m mem p e off rr = do { (rr, r) \<leftarrow> set_name m mem (Some p) e off rr; Some (rr, r = Some e) }"

definition set_two_names :: "bool \<Rightarrow> bytes \<Rightarrow> nat \<Rightarrow> nat \<Rightarrow> nat \<Rightarrow> nat \<Rightarrow> resource_record \<Rightarrow> (resource_record \<times> bool) option" where
  "set_two_names m mem p e off1 off2 rr = do {
     (rr, r) \<leftarrow> set_name m mem (Some p) e off1 rr;
     (case r of None \<Rightarrow> Some (rr, False) | Some p \<Rightarrow> set_last_name m mem p e off2 rr)
   }"

definition set_raw :: "bytes \<Rightarrow> nat \<Rightarrow> u16 \<Rightarrow> resource_record \<Rightarrow> (resource_record \<times> bool) option" where
  "set_raw mem p rdlength rr = do {
     d \<leftarrow> mem_copy (rr_data rr) 0 mem p (unat rdlength);
     Some (rr\<lparr>rr_rdlength := rdlength, rr_data := d\<rparr>, True)
   }"

definition set_fixed :: "bytes \<Rightarrow> nat \<Rightarrow> nat \<Rightarrow> u16 \<Rightarrow> resource_record \<Rightarrow> (resource_record \<times> bool) option" where
  "set_fixed mem p n rdlength rr =
     (if unat rdlength \<noteq> n then Some (rr, False)
      else do { d \<leftarrow> mem_copy (rr_data rr) 0 mem p n; Some (rr\<lparr>rr_data := d\<rparr>, True) })"

definition set_soa :: "bool \<Rightarrow> bytes \<Rightarrow> nat \<Rightarrow> nat \<Rightarrow> resource_record \<Rightarrow> (resource_record \<times> bool) option" where
  "set_soa m mem p e rr = do {
     (rr, r) \<leftarrow> set_name m mem (Some p) e 0 rr;
     (case r of
        None \<Rightarrow> Some (rr, False)
      | Some p \<Rightarrow> do {
          (rr, r) \<leftarrow> set_name m mem (Some p) e off_soa_rname rr;
          (case r of
             None \<Rightarrow> Some (rr, False)
           | Some p \<Rightarrow>
               if p + 20 \<noteq> e then Some (rr, False)
               else do {
                 serial \<leftarrow> get_val32 mem p;
                 refresh \<leftarrow> get_val32 mem (p + 4);
                 retry \<leftarrow> get_val32 mem (p + 8);
                 expire \<leftarrow> get_val32 mem (p + 12);
                 minimum \<leftarrow> get_val32 mem (p + 16);
                 d \<leftarrow> store32 (rr_data rr) off_soa_serial serial;
                 d \<leftarrow> store32 d (off_soa_serial + 4) refresh;
                 d \<leftarrow> store32 d (off_soa_serial + 8) retry;
                 d \<leftarrow> store32 d (off_soa_serial + 12) expire;
                 d \<leftarrow> store32 d (off_soa_serial + 16) minimum;
                 Some (rr\<lparr>rr_data := d\<rparr>, True)
               })
        })
   }"

definition set_preference :: "bytes \<Rightarrow> nat \<Rightarrow> resource_record \<Rightarrow> resource_record option" where
  "set_preference mem p rr = do { v \<leftarrow> get_val16 mem p; d \<leftarrow> store16 (rr_data rr) 0 v; Some (rr\<lparr>rr_data := d\<rparr>) }"

definition set_srv :: "bool \<Rightarrow> bytes \<Rightarrow> nat \<Rightarrow> nat \<Rightarrow> u16 \<Rightarrow> resource_record \<Rightarrow> (resource_record \<times> bool) option" where
  "set_srv m mem p e rdlength rr =
     (if rdlength < 7 then Some (rr, False)
      else do {
        priority \<leftarrow> get_val16 mem p;
        weight \<leftarrow> get_val16 mem (p + 2);
        d \<leftarrow> store16 (rr_data rr) 0 priority;
        d \<leftarrow> store16 d 2 weight;
        d \<leftarrow> mem_copy d off_srv_port mem (p + 4) 2;
        set_last_name m mem (p + 6) e off_srv_target (rr\<lparr>rr_data := d\<rparr>)
      })"

text \<open>The position behind a length byte and that many bytes\<close>

definition skip_string :: "bytes \<Rightarrow> nat \<Rightarrow> nat option" where
  "skip_string mem p = do { n \<leftarrow> read_byte mem p; Some (p + 1 + unat n) }"

definition set_naptr :: "bool \<Rightarrow> bytes \<Rightarrow> nat \<Rightarrow> nat \<Rightarrow> u16 \<Rightarrow> resource_record \<Rightarrow> (resource_record \<times> bool) option" where
  "set_naptr m mem orig e rdlength rr =
     (if rdlength < 8 then Some (rr, False)
      else do {
        p \<leftarrow> skip_string mem (orig + 4);
        if p \<ge> e then Some (rr, False)
        else do {
          p \<leftarrow> skip_string mem p;
          if p \<ge> e then Some (rr, False)
          else do {
            p \<leftarrow> skip_string mem p;
            if p \<ge> e then Some (rr, False)
            else do {
              let savelen = p - orig;
              (nm, r) \<leftarrow> fetch_local m mem p e;
              if r \<noteq> Some e then Some (rr, False)
              else do {
                dlen \<leftarrow> DomainNameLength nm 0;
                let rr = rr\<lparr>rr_rdlength := of_nat savelen + dlen\<rparr>;
                if unat (rr_rdlength rr) > MaximumRDSize then Some (rr, False)
                else do {
                  d \<leftarrow> mem_copy (rr_data rr) 0 mem orig savelen;
                  d \<leftarrow> AssignDomainName d savelen nm 0;
                  Some (rr\<lparr>rr_data := d\<rparr>, True)
                }
              }
            }
          }
        }
      })"

end
