(* ===== verification/Dns_Receive.thy ===== *)
theory Dns_Receive imports Dns_Record begin

text \<open>
  DNSCommon.c: \<open>SetRData\<close> and \<open>GetLargeResourceRecord\<close>, which take a record out of a message, and the
  options of an OPT record.
\<close>

section \<open>Options\<close>

definition mDNSPlatformOneSecond :: u32 where "mDNSPlatformOneSecond = 1024"

definition cap_time :: "u32 \<Rightarrow> u32" where
  "cap_time v = (if v > 0x70000000 div mDNSPlatformOneSecond then 0x70000000 div mDNSPlatformOneSecond else v)"

definition ValidOwnerLength :: "u16 \<Rightarrow> bool" where
  "ValidOwnerLength x \<longleftrightarrow> x = 8 \<or> x = 14 \<or> x = 18 \<or> x = 20"

text \<open>One option, if it is understood\<close>

definition get_opt :: "bytes \<Rightarrow> nat \<Rightarrow> u16 \<Rightarrow> u16 \<Rightarrow> rdata_opt option option" where
  "get_opt mem p code optlen =
     (if code = 1 then
        if optlen = 18 then do {
          vers \<leftarrow> get_val16 mem p;
          llqOp \<leftarrow> get_val16 mem (p + 2);
          err \<leftarrow> get_val16 mem (p + 4);
          lid \<leftarrow> read_bytes mem (p + 6) 8;
          lease \<leftarrow> get_val32 mem (p + 14);
          Some (Some \<lparr>o_opt = code, o_data = LLQ vers llqOp err lid (cap_time lease)\<rparr>)
        } else Some None
      else if code = 2 then
        if optlen = 4 then do {
          lease \<leftarrow> get_val32 mem p;
          Some (Some \<lparr>o_opt = code, o_data = UpdateLease (cap_time lease)\<rparr>)
        } else Some None
      else if code = 4 then
        if ValidOwnerLength optlen then do {
          vers \<leftarrow> read_byte mem p;
          sq \<leftarrow> read_byte mem (p + 1);
          HMAC \<leftarrow> read_bytes mem (p + 2) 6;
          IMAC \<leftarrow> (if optlen \<ge> 14 then read_bytes mem (p + 8) 6 else Some HMAC);
          pw \<leftarrow> (if optlen > 14 then read_bytes mem (p + 14) (unat optlen - 14) else Some []);
          Some (Some \<lparr>o_opt = code, o_data = Owner vers sq HMAC IMAC (pw @ drop (length pw) (replicate 6 0))\<rparr>)
        } else Some None
      else Some None)"

text \<open>The options read, and where the loop ended unless it failed\<close>

function get_opts :: "bytes \<Rightarrow> nat \<Rightarrow> nat \<Rightarrow> rdata_opt list \<Rightarrow> (rdata_opt list \<times> nat option) option" where
  "get_opts mem p e os =
     (if p < e \<and> sizeof_rdataOPT * (length os + 1) < MaximumRDSize then
        if p + 4 > e then Some (os, None)
        else
          (case get_val16 mem p of None \<Rightarrow> None | Some code \<Rightarrow>
            (case get_val16 mem (p + 2) of None \<Rightarrow> None | Some optlen \<Rightarrow>
               if p + 4 + unat optlen > e then Some (os, None)
               else
                 (case get_opt mem (p + 4) code optlen of None \<Rightarrow> None | Some r \<Rightarrow>
                    get_opts mem (p + 4 + unat optlen) e (case r of None \<Rightarrow> os | Some o1 \<Rightarrow> os @ [o1]))))
      else Some (os, Some p))"
  by pat_completeness auto

termination get_opts
  by (relation "measure (\<lambda>(mem, p, e, os). e - p)") auto

declare get_opts.simps [simp del]

text \<open>When the loop fails the length of the data stays zero.\<close>

definition set_opt :: "bytes \<Rightarrow> nat \<Rightarrow> nat \<Rightarrow> resource_record \<Rightarrow> (resource_record \<times> bool) option" where
  "set_opt mem p e rr = do {
     (os, r) \<leftarrow> get_opts mem p e [];
     (case r of
        None \<Rightarrow> Some (rr\<lparr>rr_opts := os, rr_rdlength := 0\<rparr>, False)
      | Some p \<Rightarrow> Some (rr\<lparr>rr_opts := os, rr_rdlength := of_nat (sizeof_rdataOPT * length os)\<rparr>, p = e))
   }"

section \<open>Data that ends in raw bytes\<close>

text \<open>The windows of a bitmap from \<open>p\<close> on, \<open>len\<close> bytes to go: where they end, or nothing\<close>

function nsec_windows :: "bytes \<Rightarrow> nat \<Rightarrow> nat \<Rightarrow> int \<Rightarrow> (nat option) option" where
  "nsec_windows mem p e len =
     (if p < e then
        if len < 3 then Some None
        else
          (case read_byte mem (p + 1) of None \<Rightarrow> None | Some wlen \<Rightarrow>
             if len - 2 < int (unat wlen) \<or> wlen < 1 \<or> wlen > 32 then Some None
             else nsec_windows mem (p + 2 + unat wlen) e (len - 2 - int (unat wlen)))
      else Some (Some p))"
  by pat_completeness auto

termination nsec_windows
  by (relation "measure (\<lambda>(mem, p, e, len). e - p)") auto

declare nsec_windows.simps [simp del]

text \<open>A length that is negative does not fit any memory.\<close>

definition copy_tail :: "bytes \<Rightarrow> nat \<Rightarrow> bytes \<Rightarrow> nat \<Rightarrow> int \<Rightarrow> bytes option" where
  "copy_tail d off mem p len = (if len < 0 then None else mem_copy d off mem p (nat len))"

definition set_nsec :: "bool \<Rightarrow> bytes \<Rightarrow> nat \<Rightarrow> nat \<Rightarrow> u16 \<Rightarrow> resource_record \<Rightarrow> (resource_record \<times> bool) option" where
  "set_nsec m mem orig e rdlength rr = do {
     (nm, r) \<leftarrow> fetch_local m mem orig e;
     (case r of
        None \<Rightarrow> Some (rr, False)
      | Some bmap \<Rightarrow> do {
          dlen \<leftarrow> DomainNameLength nm 0;
          let bmaplen = int (unat rdlength) - (int bmap - int orig);
          r \<leftarrow> nsec_windows mem bmap e bmaplen;
          if r \<noteq> Some e then Some (rr, False)
          else do {
            let rr = rr\<lparr>rr_rdlength := of_int (int (unat dlen) + bmaplen)\<rparr>;
            if unat (rr_rdlength rr) > MaximumRDSize then Some (rr, False)
            else do {
              d \<leftarrow> AssignDomainName (rr_data rr) 0 nm 0;
              d \<leftarrow> copy_tail d (unat dlen) mem bmap bmaplen;
              Some (rr\<lparr>rr_data := d\<rparr>, True)
            }
          }
        })
   }"

definition set_tsig :: "bool \<Rightarrow> bytes \<Rightarrow> nat \<Rightarrow> nat \<Rightarrow> resource_record \<Rightarrow> (resource_record \<times> bool) option" where
  "set_tsig m mem p e rr = do {
     (nm, r) \<leftarrow> fetch_local m mem p e;
     (case r of
        None \<Rightarrow> Some (rr, False)
      | Some p \<Rightarrow> do {
          dlen \<leftarrow> DomainNameLength nm 0;
          let rlen = int e - int p;
          d \<leftarrow> AssignDomainName (rr_data rr) 0 nm 0;
          d \<leftarrow> copy_tail d (unat dlen) mem p rlen;
          Some (rr\<lparr>rr_rdlength := of_int (int (unat dlen) + rlen), rr_data := d\<rparr>, True)
        })
   }"

definition set_rrsig :: "bool \<Rightarrow> bytes \<Rightarrow> nat \<Rightarrow> nat \<Rightarrow> u16 \<Rightarrow> resource_record \<Rightarrow> (resource_record \<times> bool) option" where
  "set_rrsig m mem p e rdlength rr =
     (if rdlength < 19 then Some (rr, False)
      else do {
        let orig = p + 18;
        (nm, r) \<leftarrow> fetch_local m mem orig e;
        (case r of
           None \<Rightarrow> Some (rr, False)
         | Some sig \<Rightarrow> do {
             dlen \<leftarrow> DomainNameLength nm 0;
             if sig - orig \<noteq> unat dlen then Some (rr, False)
             else if sig + 1 \<ge> e then Some (rr, False)
             else set_raw mem p rdlength rr
           })
      })"

section \<open>SetRData\<close>

definition SetRData :: "bool \<Rightarrow> bytes \<Rightarrow> nat \<Rightarrow> nat \<Rightarrow> u16 \<Rightarrow> resource_record \<Rightarrow> (resource_record \<times> bool) option" where
  "SetRData m mem p e rdlength rr =
     (let t = rr_rrtype rr in
      if t = kDNSType_A then set_fixed mem p 4 rdlength rr
      else if t \<in> set name_types then set_last_name m mem p e 0 rr
      else if t = kDNSType_SOA then set_soa m mem p e rr
      else if t \<in> set mx_types then
        if rdlength < 3 then Some (rr, False)
        else do { rr \<leftarrow> set_preference mem p rr; set_last_name m mem (p + 2) e off_mx_exchange rr }
      else if t \<in> set rp_types then set_two_names m mem p e 0 off_rp_txt rr
      else if t = kDNSType_PX then
        if rdlength < 4 then Some (rr, False)
        else do { rr \<leftarrow> set_preference mem p rr; set_two_names m mem (p + 2) e off_px_map822 off_px_mapx400 rr }
      else if t = kDNSType_AAAA then set_fixed mem p 16 rdlength rr
      else if t = kDNSType_SRV then set_srv m mem p e rdlength rr
      else if t = kDNSType_NAPTR then set_naptr m mem p e rdlength rr
      else if t = kDNSType_OPT then set_opt mem p e rr
      else if t = kDNSType_NSEC then set_nsec m mem p e rdlength rr
      else if t = kDNSType_TKEY \<or> t = kDNSType_TSIG then set_tsig m mem p e rr
      else if t = kDNSType_RRSIG then set_rrsig m mem p e rdlength rr
      else if t = kDNSType_DNSKEY \<or> t = kDNSType_DS then
        if rdlength < 5 then Some (rr, False) else set_raw mem p rdlength rr
      else set_raw mem p rdlength rr)"

section \<open>GetLargeResourceRecord\<close>

text \<open>
  The record is that of \<open>largecr\<close>; the bookkeeping of the cache in it is left out.  A record whose data is
  not understood becomes a negative one.
\<close>

definition negative_record :: "resource_record \<Rightarrow> resource_record" where
  "negative_record rr = rr\<lparr>rr_RecordType := 0xF0, rr_rdlength := 0, rr_rdestimate := 0, rr_rdatahash := 0\<rparr>"

definition GetLargeResourceRecord ::
  "bytes \<Rightarrow> nat option \<Rightarrow> nat \<Rightarrow> u64 \<Rightarrow> u8 \<Rightarrow> resource_record \<Rightarrow> (resource_record \<times> nat option) option" where
  "GetLargeResourceRecord msg ptr e InterfaceID RecordType rr = do {
     let rr = rr\<lparr>rr_InterfaceID := InterfaceID, rr_resGroupID := None\<rparr>;
     (nm, r) \<leftarrow> getDomainName msg ptr e (rr_name rr);
     let rr = rr\<lparr>rr_name := nm\<rparr>;
     (case r of
        None \<Rightarrow> Some (rr, None)
      | Some p \<Rightarrow> do {
          h \<leftarrow> DomainNameHashValue nm 0;
          let rr = rr\<lparr>rr_namehash := h\<rparr>;
          if p + 10 > e then Some (rr, None)
          else do {
            ty \<leftarrow> get_val16 msg p;
            cl \<leftarrow> get_val16 msg (p + 2);
            ttl \<leftarrow> get_val32 msg (p + 4);
            pktrdlength \<leftarrow> get_val16 msg (p + 8);
            f \<leftarrow> read_byte msg 2;
            let rr = rr\<lparr>rr_rrtype := ty, rr_rrclass := cl AND 0x7FFF,
              rr_rroriginalttl := (if ttl \<noteq> - 1 then cap_time ttl else ttl)\<rparr>;
            let RecordType = (if cl AND 0x8000 \<noteq> 0 \<or> (InterfaceID = 0 \<and> f AND 0x02 = 0)
              then RecordType OR 0x10 else RecordType);
            let q = p + 10;
            if q + unat pktrdlength > e then Some (rr, None)
            else do {
              let e = q + unat pktrdlength;
              if unat pktrdlength > MaximumRDSize then Some (negative_record rr, Some e)
              else do {
                (rr, ok) \<leftarrow> (if rr_rrclass rr = kDNSQClass_ANY \<and> pktrdlength = 0
                   then Some (rr\<lparr>rr_rdlength := 0\<rparr>, True)
                   else SetRData True msg q e pktrdlength rr);
                if \<not> ok then Some (negative_record rr, Some e)
                else do {
                  rr \<leftarrow> SetNewRData rr None;
                  Some (rr\<lparr>rr_RecordType := RecordType\<rparr>, Some e)
                }
              }
            }
          }
        })
   }"

section \<open>Options of received messages\<close>

text \<open>\<open>rr\<close> is the shared record \<open>m->rec\<close>.\<close>

definition GetLLQOptData :: "bytes \<Rightarrow> nat \<Rightarrow> resource_record \<Rightarrow> (resource_record \<times> rdata_opt option) option" where
  "GetLLQOptData msg e rr = do {
     r \<leftarrow> LocateOptRR msg e 22;
     (case r of
        None \<Rightarrow> Some (rr, None)
      | Some p \<Rightarrow> do {
          (rr, q) \<leftarrow> GetLargeResourceRecord msg (Some p) e 0 0x80 rr;
          if q \<noteq> None \<and> rr_RecordType rr \<noteq> 0xF0
          then (case rr_opts rr of [] \<Rightarrow> None | o1 # os \<Rightarrow> Some (rr, Some o1))
          else Some (rr, None)
        })
   }"

definition GetPktLease :: "bytes \<Rightarrow> nat \<Rightarrow> resource_record \<Rightarrow> (resource_record \<times> u32) option" where
  "GetPktLease msg e rr = do {
     r \<leftarrow> LocateOptRR msg e 8;
     (rr, q) \<leftarrow> (case r of None \<Rightarrow> Some (rr, None) | Some p \<Rightarrow> GetLargeResourceRecord msg (Some p) e 0 0x80 rr);
     v \<leftarrow> (if q \<noteq> None \<and> rr_rdlength rr \<ge> 8 then
             (case rr_opts rr of
                [] \<Rightarrow> None
              | o1 # os \<Rightarrow>
                  if o_opt o1 = 2 then (case o_data o1 of UpdateLease v \<Rightarrow> Some v | _ \<Rightarrow> None) else Some 0)
           else Some 0);
     Some (rr\<lparr>rr_RecordType := 0\<rparr>, v)
   }"

end
