(* ===== verification/Dns_Rdata_Props.thy ===== *)
theory Dns_Rdata_Props imports Dns_Rdata Dns_Wire begin

text \<open>
  The data of resource records: equal data has equal hashes, and the sizes and bitmaps computed from it.
\<close>

section \<open>Names in record data\<close>

text \<open>The offsets at which data of a type holds names\<close>

definition name_offsets :: "u16 \<Rightarrow> nat list" where
  "name_offsets t =
     (if t \<in> set name_types \<or> t = kDNSType_NSEC then [0]
      else if t = kDNSType_SOA then [0, off_soa_rname]
      else if t \<in> set mx_types then [off_mx_exchange]
      else if t \<in> set rp_types then [0, off_rp_txt]
      else if t = kDNSType_PX then [off_px_map822, off_px_mapx400]
      else if t = kDNSType_SRV then [off_srv_target]
      else [])"

definition valid_at :: "bytes \<Rightarrow> nat \<Rightarrow> bool" where
  "valid_at d i \<longleftrightarrow> (\<exists>ls. name_at d i ls \<and> wire_len ls \<le> 256)"

definition rdata_ok :: "u16 \<Rightarrow> bytes \<Rightarrow> bool" where
  "rdata_ok t d \<longleftrightarrow> (\<forall>i \<in> set (name_offsets t). valid_at d i)"

lemma valid_at_hash:
  assumes "valid_at a i" "valid_at b j" "SameDomainName a i b j = Some True"
  shows "DomainNameHashValue a i = DomainNameHashValue b j"
proof -
  obtain xs ys where n: "name_at a i xs" "name_at b j ys" using assms(1,2) by (auto simp: valid_at_def)
  then have "fold_name xs = fold_name ys" using assms(3) SameDomainName_iff [OF n] by simp
  then show ?thesis by (rule DomainNameHashValue_fold [OF n])
qed

lemma and_then_True: "and_then x y = Some True \<longleftrightarrow> x = Some True \<and> y = Some True"
  by (cases x) (simp_all add: and_then_def)

lemma same32_True: "same32 a b i = Some True \<Longrightarrow> host32 a i = host32 b i"
  by (cases "host32 a i"; cases "host32 b i") (simp_all add: same32_def)

lemma mem_same_True: "mem_same a i b j n = Some True \<Longrightarrow> read_bytes a i n = read_bytes b j n \<and> read_bytes a i n \<noteq> None"
  by (cases "read_bytes a i n"; cases "read_bytes b j n") (simp_all add: mem_same_def)

lemma raw_hash_same:
  "read_bytes a i n = Some bs \<Longrightarrow> read_bytes b j n = Some bs \<Longrightarrow> raw_hash a i n s = raw_hash b j n s"
proof (induction n arbitrary: i j bs s rule: induct_nat_012)
  case 1
  then obtain x where "bs = [x]" by (cases bs) (auto dest: read_bytes_length)
  then show ?case using 1 by (auto simp: read_bytes_Cons_iff)
next
  case (ge2 n)
  then obtain x y bs' where bs: "bs = x # y # bs'"
    by (metis Suc_length_conv read_bytes_length)
  then have "read_byte a i = Some x" "read_byte a (Suc i) = Some y" "read_bytes a (i + 2) n = Some bs'"
    "read_byte b j = Some x" "read_byte b (Suc j) = Some y" "read_bytes b (j + 2) n = Some bs'"
    using ge2.prems by (auto simp: read_bytes_Cons_iff)
  then show ?case using ge2.IH(1) by simp
qed simp

lemma mem_same_hash: "mem_same a i b j n = Some True \<Longrightarrow> raw_hash a i n s = raw_hash b j n s"
  using mem_same_True raw_hash_same by (metis option.exhaust)

lemma SameRDataBody_hash:
  assumes "SameRDataBody r1 (rr_data r2) SameDomainName = Some True"
    "rr_rrtype r2 = rr_rrtype r1" "rr_rdlength r2 = rr_rdlength r1"
    "rdata_ok (rr_rrtype r1) (rr_data r1)" "rdata_ok (rr_rrtype r1) (rr_data r2)"
  shows "RDataHashValue r1 = RDataHashValue r2"
proof -
  let ?t = "rr_rrtype r1" let ?a = "rr_data r1" let ?b = "rr_data r2"
  have v: "valid_at ?a i" "valid_at ?b i" if "i \<in> set (name_offsets ?t)" for i
    using assms(4,5) that by (auto simp: rdata_ok_def)
  have hash: "DomainNameHashValue ?a i = DomainNameHashValue ?b i"
    if "i \<in> set (name_offsets ?t)" "SameDomainName ?a i ?b i = Some True" for i
    using valid_at_hash [OF v(1) v(2)] that by blast
  consider (name) "?t \<in> set name_types" | (soa) "?t = kDNSType_SOA" | (mx) "?t \<in> set mx_types" | (rp) "?t \<in> set rp_types"
    | (px) "?t = kDNSType_PX" | (srv) "?t = kDNSType_SRV" | (opt) "?t = kDNSType_OPT" | (nsec) "?t = kDNSType_NSEC"
    | (raw) "?t \<notin> set (name_types @ mx_types @ rp_types @ [kDNSType_SOA, kDNSType_PX, kDNSType_SRV, kDNSType_OPT, kDNSType_NSEC])"
    by auto
  then show ?thesis
  proof cases
    case name
    then show ?thesis using assms(1,2) hash [of 0] by (simp add: SameRDataBody_def RDataHashValue_def Let_def name_offsets_def)
  next
    case soa
    then show ?thesis using assms(1,2) hash [of 0] hash [of off_soa_rname]
      by (simp add: SameRDataBody_def RDataHashValue_def Let_def name_offsets_def type_lists and_then_True same32_True [of ?a ?b])
  next
    case mx
    then show ?thesis using assms(1,2) hash [of off_mx_exchange]
      by (auto simp add: SameRDataBody_def RDataHashValue_def Let_def name_offsets_def type_lists and_then_True)
  next
    case rp
    then show ?thesis using assms(1,2) hash [of 0] hash [of off_rp_txt]
      by (auto simp add: SameRDataBody_def RDataHashValue_def Let_def name_offsets_def type_lists and_then_True)
  next
    case px
    then show ?thesis using assms(1,2) hash [of off_px_map822] hash [of off_px_mapx400]
      by (simp add: SameRDataBody_def RDataHashValue_def Let_def name_offsets_def type_lists and_then_True)
  next
    case srv
    then show ?thesis using assms(1,2) hash [of off_srv_target]
      by (simp add: SameRDataBody_def RDataHashValue_def Let_def name_offsets_def type_lists and_then_True)
  next
    case opt
    then show ?thesis using assms(1) by (simp add: SameRDataBody_def type_lists)
  next
    case nsec
    then show ?thesis using assms(1-3) hash [of 0] mem_same_hash
      by (auto simp add: SameRDataBody_def RDataHashValue_def Let_def name_offsets_def type_lists and_then_True
          split: Option.bind_splits if_splits)
  next
    case raw
    then show ?thesis using assms(1-3) mem_same_hash
      by (simp add: SameRDataBody_def RDataHashValue_def Let_def)
  qed
qed

section \<open>NSEC bitmaps\<close>

lemma nsec_exists_loop_some: "p + n \<le> length d \<Longrightarrow> \<exists>b. nsec_exists_loop d p n ty = Some b"
proof (induction d p n ty rule: nsec_exists_loop.induct)
  case (1 d p n ty)
  show ?case
  proof (cases "n < 3")
    case False
    obtain w l where r: "read_byte d p = Some w" "read_byte d (p + 1) = Some l"
      using 1(2) False by (auto simp: read_byte_def)
    show ?thesis
    proof (cases "n - 2 < unat l \<or> l < 1 \<or> l > 32")
      case True
      then show ?thesis using False r by (subst nsec_exists_loop.simps) auto
    next
      case ok: False
      show ?thesis
      proof (cases "unat w = unat (drop_bit 8 ty)")
        case True
        have "\<exists>b. read_byte d (p + 2 + k) = Some b" if "k < unat l" for k
          using that 1(2) False ok by (auto simp: read_byte_def)
        then show ?thesis using False r ok True
          by (subst nsec_exists_loop.simps) (auto simp: Let_def not_le)
      next
        case other: False
        have "p + 2 + unat l + (n - 2 - unat l) \<le> length d" using 1(2) False ok by auto
        then obtain b where "nsec_exists_loop d (p + 2 + unat l) (n - 2 - unat l) ty = Some b"
          using 1(1) [OF _ False r ok other] False by auto
        then show ?thesis using False r ok other by (subst nsec_exists_loop.simps) auto
      qed
    qed
  qed (subst nsec_exists_loop.simps, auto)
qed

end
