(* ===== verification/Dns_Receive_Props.thy ===== *)
theory Dns_Receive_Props imports Dns_Receive Dns_Rdata_Props Dns_Question begin

text \<open>Taking a record out of an arbitrary message: memory safety and what the record holds afterwards.\<close>

section \<open>Lengths of names\<close>

lemma compressed_length_loop_none:
  "name_at buf src ls \<Longrightarrow> name \<le> src \<Longrightarrow> src - name + wire_len ls \<le> 256 \<Longrightarrow>
     compressed_length_loop buf name None src = Some (of_nat (src - name + wire_len ls))"
proof (induction ls arbitrary: src)
  case Nil
  then show ?case by (subst compressed_length_loop.simps) simp
next
  case (Cons l ls)
  have "Suc src + length l - name + wire_len ls \<le> 256" using Cons.prems(2,3) by simp
  then have "compressed_length_loop buf name None (Suc src + length l) = Some (of_nat (Suc src + length l - name + wire_len ls))"
    using Cons.IH [of "Suc src + length l"] Cons.prems by simp
  moreover have "\<not> src + 1 + length l - name \<ge> MAX_DOMAIN_NAME"
    using Cons.prems(2,3) wire_len_pos [of ls] by (simp add: MAX_DOMAIN_NAME_def del: wire_len_pos)
  moreover have "Suc src + length l - name + wire_len ls = src - name + wire_len (l # ls)"
    using Cons.prems(2) by simp
  ultimately show ?case using Cons.prems(1) valid_label_less [of l]
    by (subst compressed_length_loop.simps) (simp add: MAX_DOMAIN_LABEL_def)
qed

lemma compressed_length_loop_some:
  "name_at buf src ls \<Longrightarrow> (\<And>p pi. parent = Some (p, pi) \<Longrightarrow> \<exists>xs. name_at p pi xs) \<Longrightarrow>
     \<exists>r. compressed_length_loop buf name parent src = Some r"
proof (induction ls arbitrary: src)
  case Nil
  then show ?case by (subst compressed_length_loop.simps) simp
next
  case (Cons l ls)
  have "\<exists>r. compressed_length_loop buf name parent (Suc src + length l) = Some r"
    using Cons.IH Cons.prems by simp
  moreover have "\<exists>b. (case parent of None \<Rightarrow> Some False | Some (p, pi) \<Rightarrow> SameDomainName buf src p pi) = Some b"
  proof (cases parent)
    case (Some a)
    then obtain p pi xs where "parent = Some (p, pi)" "name_at p pi xs" using Cons.prems(2) by (cases a) auto
    then show ?thesis using SameDomainName_iff [OF Cons.prems(1)] by auto
  qed auto
  ultimately show ?case using Cons.prems(1) valid_label_less [of l]
    by (subst compressed_length_loop.simps) (auto simp: MAX_DOMAIN_LABEL_def)
qed

lemma CompressedDomainNameLength_none:
  "name_at buf i ls \<Longrightarrow> wire_len ls \<le> 256 \<Longrightarrow> CompressedDomainNameLength buf i None = Some (of_nat (wire_len ls))"
  using compressed_length_loop_none [of buf i ls i] by (simp add: CompressedDomainNameLength_def)

lemma name_at_first: "name_at p i xs \<Longrightarrow> \<exists>b. read_byte p i = Some b"
  by (cases xs) auto

lemma CompressedDomainNameLength_some:
  assumes "valid_at d i" "\<And>p. parent = Some p \<Longrightarrow> valid_name p"
  shows "\<exists>n. CompressedDomainNameLength d i (map_option (\<lambda>p. (p, 0)) parent) = Some n"
proof -
  obtain ls where ls: "name_at d i ls" using assms(1) by (auto simp: valid_at_def)
  show ?thesis
  proof (cases parent)
    case None
    then show ?thesis using compressed_length_loop_some [OF ls, of None] by (simp add: CompressedDomainNameLength_def)
  next
    case (Some p)
    then obtain xs where xs: "name_at p 0 xs" using assms(2) by (auto simp: valid_name_def)
    then obtain b where "read_byte p 0 = Some b" using name_at_first by blast
    then show ?thesis
      using Some xs compressed_length_loop_some [OF ls, of None] compressed_length_loop_some [OF ls, of "Some (p, 0)"]
      by (cases "b = 0") (auto simp: CompressedDomainNameLength_def)
  qed
qed

section \<open>Bitmaps\<close>

lemma UNICAST_NSEC_some:
  assumes "valid_at (rr_data rr) 0" "unat (rr_rdlength rr) \<le> length (rr_data rr)" "256 \<le> length (rr_data rr)"
  shows "\<exists>b. UNICAST_NSEC rr = Some b"
proof (cases "rr_rrtype rr = kDNSType_NSEC")
  case True
  obtain ls where ls: "name_at (rr_data rr) 0 ls" "wire_len ls \<le> 256" using assms(1) by (auto simp: valid_at_def)
  obtain n where n: "DomainNameLength (rr_data rr) 0 = Some n" "unat n = wire_len ls"
    by (rule DomainNameLength_unat [OF ls])
  have "unat n + (unat (rr_rdlength rr) - unat n) \<le> length (rr_data rr)" using n(2) ls(2) assms(2,3) by simp
  then show ?thesis using nsec_exists_loop_some n(1) True by (simp add: UNICAST_NSEC_def RRAssertsExistence_def)
qed (auto simp: UNICAST_NSEC_def)

section \<open>Length and hash of the new data\<close>

text \<open>The storage of a record; data that passed \<open>SetRData\<close>\<close>

definition storage_ok :: "resource_record \<Rightarrow> bool" where
  "storage_ok rr \<longleftrightarrow> length (rr_data rr) = MaximumRDSize \<and> length (rr_name rr) = MAX_DOMAIN_NAME
     \<and> unat (rr_rdlength rr) \<le> MaximumRDSize"

definition data_ok :: "resource_record \<Rightarrow> bool" where
  "data_ok rr \<longleftrightarrow> storage_ok rr \<and> rdata_ok (rr_rrtype rr) (rr_data rr)"

lemma data_ok_valid: "data_ok rr \<Longrightarrow> i \<in> set (name_offsets (rr_rrtype rr)) \<Longrightarrow> valid_at (rr_data rr) i"
  by (simp add: data_ok_def rdata_ok_def)

lemma add_lengths_some: "\<exists>a. x = Some a \<Longrightarrow> \<exists>b. y = Some b \<Longrightarrow> \<exists>c. add_lengths x y = Some c"
  by (auto simp: add_lengths_def)

lemma add_hashes_some: "\<exists>a. x = Some a \<Longrightarrow> \<exists>b. y = Some b \<Longrightarrow> \<exists>c. add_hashes x y = Some c"
  by (auto simp: add_hashes_def)

lemma GetRDLength_some:
  assumes "data_ok rr" "valid_name (rr_name rr)"
  shows "\<exists>n. GetRDLength rr est = Some n"
proof -
  let ?t = "rr_rrtype rr" let ?d = "rr_data rr"
  have len: "length ?d = 8192" using assms(1) by (simp add: data_ok_def storage_ok_def MaximumRDSize_def)
  have "\<exists>n. CompressedDomainNameLength ?d i (map_option (\<lambda>p. (p, 0)) (if est then Some (rr_name rr) else None)) = Some n"
    if "valid_at ?d i" for i
    using CompressedDomainNameLength_some [OF that, of "if est then Some (rr_name rr) else None"] assms(2)
    by (auto split: if_splits)
  then have clen: "\<exists>n. CompressedDomainNameLength ?d i (if est then Some (rr_name rr, 0) else None) = Some n"
    if "valid_at ?d i" for i
    using that by (cases est) auto
  have v: "valid_at ?d i" if "i \<in> set (name_offsets ?t)" for i using data_ok_valid [OF assms(1) that] .
  consider (any) "rr_rrclass rr = kDNSQClass_ANY" | (hinfo) "?t = kDNSType_HINFO" | (ptr) "?t \<in> set ptr_types" | (soa) "?t = kDNSType_SOA"
    | (mx) "?t \<in> set mx_types" | (rp) "?t = kDNSType_RP" | (px) "?t = kDNSType_PX" | (srv) "?t = kDNSType_SRV"
    | (nsec) "?t = kDNSType_NSEC"
    | (other) "rr_rrclass rr \<noteq> kDNSQClass_ANY" "?t \<notin> set (ptr_types @ mx_types @ [kDNSType_SOA, kDNSType_RP, kDNSType_PX, kDNSType_SRV, kDNSType_NSEC, kDNSType_HINFO])"
    by fastforce
  then show ?thesis
  proof cases
    case any
    then show ?thesis by (simp add: GetRDLength_def)
  next
    case hinfo
    obtain n where n: "read_byte ?d 0 = Some n" using len read_byte_exists [of 0 ?d] by auto
    have "1 + unat n < length ?d" using len unsigned_less [of n, where ?'a = nat] by simp
    then obtain k where "read_byte ?d (1 + unat n) = Some k" using read_byte_exists by blast
    then show ?thesis using n hinfo by (simp add: GetRDLength_def ptr_types_def raw_types_def Let_def)
  next
    case ptr
    then show ?thesis using clen [OF v [of 0]]
      by (auto simp: GetRDLength_def name_offsets_def type_lists ptr_types_def Let_def)
  next
    case soa
    then show ?thesis using clen [OF v [of 0]] clen [OF v [of off_soa_rname]]
      by (auto simp: GetRDLength_def name_offsets_def type_lists ptr_types_def Let_def add_lengths_def)
  next
    case mx
    then show ?thesis using clen [OF v [of off_mx_exchange]]
      by (auto simp: GetRDLength_def name_offsets_def type_lists ptr_types_def raw_types_def Let_def add_lengths_def)
  next
    case rp
    then show ?thesis using clen [OF v [of 0]] clen [OF v [of off_rp_txt]]
      by (auto simp: GetRDLength_def name_offsets_def type_lists ptr_types_def raw_types_def Let_def add_lengths_def)
  next
    case px
    then show ?thesis using clen [OF v [of off_px_map822]] clen [OF v [of off_px_mapx400]]
      by (auto simp: GetRDLength_def name_offsets_def type_lists ptr_types_def raw_types_def Let_def add_lengths_def)
  next
    case srv
    then show ?thesis using clen [OF v [of off_srv_target]]
      by (auto simp: GetRDLength_def name_offsets_def type_lists ptr_types_def raw_types_def Let_def add_lengths_def)
  next
    case nsec
    then have v0: "valid_at ?d 0" using v by (simp add: name_offsets_def type_lists)
    obtain b where "UNICAST_NSEC rr = Some b"
      using UNICAST_NSEC_some [OF v0] assms(1) len by (auto simp: data_ok_def storage_ok_def MaximumRDSize_def)
    moreover obtain ls where "name_at ?d 0 ls" "wire_len ls \<le> 256" using v0 by (auto simp: valid_at_def)
    ultimately show ?thesis using clen [OF v0] nsec DomainNameLength_name [of ?d 0 ls]
      by (auto simp: GetRDLength_def type_lists ptr_types_def raw_types_def Let_def)
  next
    case other
    then show ?thesis by (simp add: GetRDLength_def Let_def)
  qed
qed

lemma raw_hash_some: "p + n \<le> length d \<Longrightarrow> \<exists>h. raw_hash d p n s = Some h"
proof (induction n arbitrary: p s rule: induct_nat_012)
  case 1
  then show ?case using read_byte_exists [of p d] by auto
next
  case (ge2 n)
  then obtain x y where "read_byte d p = Some x" "read_byte d (p + 1) = Some y"
    using read_byte_exists [of p d] read_byte_exists [of "p + 1" d] by auto
  then show ?case using ge2.IH(1) [of "p + 2"] ge2.prems by (simp add: Let_def)
qed simp

lemma host32_some: "i + 3 < length d \<Longrightarrow> \<exists>v. host32 d i = Some v"
  by (auto simp: host32_def get_count_def read_byte_def)

lemma DomainNameLength_some:
  assumes "i + 256 \<le> length d"
  obtains n where "DomainNameLength d i = Some n"
proof -
  have "\<exists>n. length_limit_loop d i lim src = Some n" if "lim \<le> length d" for lim src
    using that
  proof (induction d i lim src rule: length_limit_loop.induct)
    case (1 buf name limit src)
    show ?case
    proof (cases "src < limit")
      case True
      then obtain x where x: "read_byte buf src = Some x" using 1(2) read_byte_exists [of src buf] by auto
      then show ?thesis using 1(1) [OF True x] 1(2) True
        by (cases "x = 0"; subst length_limit_loop.simps) auto
    qed (subst length_limit_loop.simps, auto)
  qed
  then show thesis using that assms by (auto simp: DomainNameLength_def DomainNameLengthLimit_def MAX_DOMAIN_NAME_def)
qed

text \<open>Every name of the data that is hashed ends within the storage.\<close>

definition hashable :: "bytes \<Rightarrow> nat \<Rightarrow> bool" where
  "hashable d i \<longleftrightarrow> (\<exists>h. DomainNameHashValue d i = Some h)"

lemma valid_at_hashable: "valid_at d i \<Longrightarrow> hashable d i"
  unfolding valid_at_def hashable_def using DomainNameHashValue_some by blast

lemma zero_hashable:
  assumes "d ! k = 0" "i \<le> k" "k < length d"
  shows "hashable d i"
proof -
  have "read_bytes d i (length (drop i d)) = Some (drop i d)" using assms by (simp add: read_bytes_def)
  moreover have "0 \<in> set (drop i d)"
    using assms by (auto simp: in_set_conv_nth intro!: exI [of _ "k - i"])
  ultimately show ?thesis unfolding hashable_def DomainNameHashValue_def by (rule hash_name_loop_some)
qed

lemma RDataHashValue_some:
  assumes "length (rr_data rr) = 8192" "\<And>i. i \<in> set (name_offsets (rr_rrtype rr)) \<Longrightarrow> hashable (rr_data rr) i"
    "name_offsets (rr_rrtype rr) = [] \<or> rr_rrtype rr = kDNSType_NSEC \<Longrightarrow> unat (rr_rdlength rr) \<le> 8192"
  shows "\<exists>h. RDataHashValue rr = Some h"
proof -
  let ?t = "rr_rrtype rr" let ?d = "rr_data rr"
  have h: "\<exists>h. DomainNameHashValue ?d i = Some h" if "i \<in> set (name_offsets ?t)" for i
    using assms(2) [OF that] by (simp add: hashable_def)
  consider (name) "?t \<in> set name_types" | (soa) "?t = kDNSType_SOA" | (mx) "?t \<in> set mx_types" | (rp) "?t \<in> set rp_types"
    | (px) "?t = kDNSType_PX" | (srv) "?t = kDNSType_SRV" | (opt) "?t = kDNSType_OPT" | (nsec) "?t = kDNSType_NSEC"
    | (raw) "?t \<notin> set (name_types @ mx_types @ rp_types @ [kDNSType_SOA, kDNSType_PX, kDNSType_SRV, kDNSType_OPT, kDNSType_NSEC])"
    by auto
  then show ?thesis
  proof cases
    case name
    then show ?thesis using h [of 0] by (simp add: RDataHashValue_def name_offsets_def Let_def)
  next
    case soa
    have w: "\<exists>v. host32 ?d (off_soa_serial + k) = Some v" if "k \<le> 16" for k
      using host32_some [of "off_soa_serial + k" ?d] assms(1) that by (simp add: off_soa_serial_def)
    show ?thesis
      using soa h [of 0] h [of off_soa_rname] w [of 0] w [of 4] w [of 8] w [of 12] w [of 16]
      by (auto simp: RDataHashValue_def name_offsets_def type_lists Let_def intro!: add_hashes_some)
  next
    case mx
    then show ?thesis using h [of off_mx_exchange]
      by (auto simp: RDataHashValue_def name_offsets_def type_lists Let_def)
  next
    case rp
    then show ?thesis using h [of 0] h [of off_rp_txt]
      by (auto simp: RDataHashValue_def name_offsets_def type_lists Let_def intro!: add_hashes_some)
  next
    case px
    then show ?thesis using h [of off_px_map822] h [of off_px_mapx400]
      by (auto simp: RDataHashValue_def name_offsets_def type_lists Let_def intro!: add_hashes_some)
  next
    case srv
    then show ?thesis using h [of off_srv_target]
      by (auto simp: RDataHashValue_def name_offsets_def type_lists Let_def)
  next
    case opt
    then show ?thesis by (simp add: RDataHashValue_def type_lists Let_def)
  next
    case nsec
    obtain dlen where dlen: "DomainNameLength ?d 0 = Some dlen" by (rule DomainNameLength_some [of 0 ?d]) (use assms(1) in simp)
    have "unat dlen + (unat (rr_rdlength rr) - unat dlen) \<le> length ?d \<or> unat (rr_rdlength rr) - unat dlen = 0"
      using assms(1,3) nsec by auto
    then have "\<exists>h. raw_hash ?d (unat dlen) (unat (rr_rdlength rr) - unat dlen) s = Some h" for s
      using raw_hash_some by auto
    then show ?thesis using nsec h [of 0] dlen
      by (auto simp: RDataHashValue_def name_offsets_def type_lists Let_def)
  next
    case raw
    then have "name_offsets ?t = []" by (simp add: name_offsets_def)
    then show ?thesis using raw raw_hash_some [of 0 "unat (rr_rdlength rr)" ?d 0] assms(1,3)
      by (simp add: RDataHashValue_def Let_def)
  qed
qed

lemma target_offset:
  assumes "GetRRDomainNameTarget rr = Some i"
  shows "i \<in> set (name_offsets (rr_rrtype rr))" "i < 8192"
  using assms by (auto simp: GetRRDomainNameTarget_def name_offsets_def ptr_types_def type_lists offsets Let_def split: if_splits)

lemma unat_add_le: "unat (a + b) \<le> unat a + unat b" for a b :: "'a::len word"
  by (simp add: unat_word_ariths)

lemma add_lengths_le:
  "add_lengths x y = Some n \<Longrightarrow> (\<And>a. x = Some a \<Longrightarrow> unat a \<le> j) \<Longrightarrow> (\<And>b. y = Some b \<Longrightarrow> unat b \<le> k) \<Longrightarrow> unat n \<le> j + k"
  by (auto simp: add_lengths_def split: Option.bind_splits intro!: order_trans [OF unat_add_le] add_mono)

lemma compressed_le: "valid_at d i \<Longrightarrow> CompressedDomainNameLength d i None = Some n \<Longrightarrow> unat n \<le> 256"
  by (auto simp: valid_at_def CompressedDomainNameLength_none unat_of_nat)

lemma GetRDLength_le:
  assumes "data_ok rr" "GetRDLength rr False = Some n"
  shows "unat n \<le> MaximumRDSize"
proof -
  let ?t = "rr_rrtype rr" let ?d = "rr_data rr"
  have st: "unat (rr_rdlength rr) \<le> 8192" using assms(1) by (simp add: data_ok_def storage_ok_def MaximumRDSize_def)
  have v: "valid_at ?d i" if "i \<in> set (name_offsets ?t)" for i using data_ok_valid [OF assms(1) that] .
  have cl: "unat k \<le> 256" if "i \<in> set (name_offsets ?t)" "CompressedDomainNameLength ?d i None = Some k" for i k
    using compressed_le [OF v that(2)] that(1) .
  consider (any) "rr_rrclass rr = kDNSQClass_ANY" | (hinfo) "?t = kDNSType_HINFO" | (ptr) "?t \<in> set ptr_types" | (soa) "?t = kDNSType_SOA"
    | (mx) "?t \<in> set mx_types" | (rp) "?t = kDNSType_RP" | (px) "?t = kDNSType_PX" | (srv) "?t = kDNSType_SRV"
    | (nsec) "?t = kDNSType_NSEC" "rr_rrclass rr \<noteq> kDNSQClass_ANY"
    | (other) "rr_rrclass rr \<noteq> kDNSQClass_ANY" "?t \<notin> set (ptr_types @ mx_types @ [kDNSType_SOA, kDNSType_RP, kDNSType_PX, kDNSType_SRV, kDNSType_NSEC, kDNSType_HINFO])"
    by fastforce
  then have "unat n \<le> 8192"
  proof cases
    case any
    then show ?thesis using assms(2) st by (simp add: GetRDLength_def)
  next
    case hinfo
    then consider "n = rr_rdlength rr" | a b :: u8 where "n = 2 + ucast a + ucast b"
      using assms(2)
      by (auto simp: GetRDLength_def ptr_types_def raw_types_def Let_def split: if_splits Option.bind_splits)
    then show ?thesis
    proof cases
      case (2 a b)
      have "unat n \<le> 2 + unat (ucast a :: u16) + unat (ucast b :: u16)"
        unfolding 2 using unat_add_le [of "2 + ucast a :: u16" "ucast b"] unat_add_le [of "2 :: u16" "ucast a"] by simp
      then show ?thesis using unsigned_less [of a, where ?'a = nat] unsigned_less [of b, where ?'a = nat]
        by (simp add: unsigned_ucast_eq take_bit_nat_eq_self)
    qed (use st in simp)
  next
    case ptr
    then show ?thesis using assms(2) st cl [of 0 n]
      by (auto simp: GetRDLength_def name_offsets_def type_lists ptr_types_def Let_def split: if_splits)
  next
    case soa
    then have "n = rr_rdlength rr \<or> add_lengths (add_lengths (CompressedDomainNameLength ?d 0 None) (CompressedDomainNameLength ?d off_soa_rname None)) (Some 20) = Some n"
      using assms(2) by (auto simp: GetRDLength_def ptr_types_def Let_def split: if_splits)
    moreover have "unat n \<le> (256 + 256) + 20"
      if "add_lengths (add_lengths (CompressedDomainNameLength ?d 0 None) (CompressedDomainNameLength ?d off_soa_rname None)) (Some 20) = Some n"
    proof (rule add_lengths_le [OF that])
      show "unat a \<le> 256 + 256"
        if "add_lengths (CompressedDomainNameLength ?d 0 None) (CompressedDomainNameLength ?d off_soa_rname None) = Some a" for a
        by (rule add_lengths_le [OF that]; rule cl) (use soa in \<open>auto simp: name_offsets_def type_lists\<close>)
    qed simp
    ultimately show ?thesis using st by auto
  next
    case mx
    then have "n = rr_rdlength rr \<or> add_lengths (Some 2) (CompressedDomainNameLength ?d off_mx_exchange None) = Some n"
      using assms(2) by (auto simp: GetRDLength_def ptr_types_def raw_types_def mx_types_def Let_def split: if_splits)
    moreover have "unat n \<le> 2 + 256" if "add_lengths (Some 2) (CompressedDomainNameLength ?d off_mx_exchange None) = Some n"
    proof (rule add_lengths_le [OF that])
      show "unat b \<le> 256" if "CompressedDomainNameLength ?d off_mx_exchange None = Some b" for b
        by (rule cl [OF _ that]) (use mx in \<open>auto simp: name_offsets_def type_lists\<close>)
    qed simp
    ultimately show ?thesis using st by auto
  next
    case rp
    then have "n = rr_rdlength rr \<or> add_lengths (CompressedDomainNameLength ?d 0 None) (CompressedDomainNameLength ?d off_rp_txt None) = Some n"
      using assms(2) by (auto simp: GetRDLength_def ptr_types_def raw_types_def mx_types_def Let_def split: if_splits)
    moreover have "unat n \<le> 256 + 256"
      if "add_lengths (CompressedDomainNameLength ?d 0 None) (CompressedDomainNameLength ?d off_rp_txt None) = Some n"
      by (rule add_lengths_le [OF that]; rule cl) (use rp in \<open>auto simp: name_offsets_def type_lists\<close>)
    ultimately show ?thesis using st by auto
  next
    case px
    then have "n = rr_rdlength rr \<or> add_lengths (Some 2) (add_lengths (CompressedDomainNameLength ?d off_px_map822 None)
        (CompressedDomainNameLength ?d off_px_mapx400 None)) = Some n"
      using assms(2) by (auto simp: GetRDLength_def ptr_types_def raw_types_def mx_types_def Let_def split: if_splits)
    moreover have "unat n \<le> 2 + (256 + 256)"
      if "add_lengths (Some 2) (add_lengths (CompressedDomainNameLength ?d off_px_map822 None)
        (CompressedDomainNameLength ?d off_px_mapx400 None)) = Some n"
    proof (rule add_lengths_le [OF that])
      show "unat b \<le> 256 + 256"
        if "add_lengths (CompressedDomainNameLength ?d off_px_map822 None) (CompressedDomainNameLength ?d off_px_mapx400 None) = Some b" for b
        by (rule add_lengths_le [OF that]; rule cl) (use px in \<open>auto simp: name_offsets_def type_lists\<close>)
    qed simp
    ultimately show ?thesis using st by auto
  next
    case srv
    then have "n = rr_rdlength rr \<or> add_lengths (Some 6) (CompressedDomainNameLength ?d off_srv_target None) = Some n"
      using assms(2) by (auto simp: GetRDLength_def ptr_types_def raw_types_def mx_types_def Let_def split: if_splits)
    moreover have "unat n \<le> 6 + 256" if "add_lengths (Some 6) (CompressedDomainNameLength ?d off_srv_target None) = Some n"
    proof (rule add_lengths_le [OF that])
      show "unat b \<le> 256" if "CompressedDomainNameLength ?d off_srv_target None = Some b" for b
        by (rule cl [OF _ that]) (use srv in \<open>auto simp: name_offsets_def type_lists\<close>)
    qed simp
    ultimately show ?thesis using st by auto
  next
    case nsec
    then obtain ls where ls: "name_at ?d 0 ls" "wire_len ls \<le> 256" using v [of 0] by (auto simp: name_offsets_def type_lists valid_at_def)
    have "n = rr_rdlength rr"
      using assms(2) nsec DomainNameLength_name [OF ls(1)] CompressedDomainNameLength_none [OF ls] ls(2)
      by (auto simp: GetRDLength_def type_lists ptr_types_def raw_types_def Let_def split: Option.bind_splits if_splits)
    then show ?thesis using st by simp
  next
    case other
    then show ?thesis using assms(2) st by (auto simp: GetRDLength_def Let_def split: if_splits)
  qed
  then show ?thesis by (simp add: MaximumRDSize_def)
qed

lemma data_ok_hash:
  assumes "data_ok rr"
  shows "\<exists>h. RDataHashValue rr = Some h"
  using assms data_ok_valid [OF assms] valid_at_hashable
  by (intro RDataHashValue_some) (auto simp: data_ok_def storage_ok_def MaximumRDSize_def)

lemma data_ok_fields: "data_ok rr \<Longrightarrow> unat n \<le> MaximumRDSize \<Longrightarrow> data_ok (rr\<lparr>rr_rdlength := n\<rparr>)"
  "data_ok (rr\<lparr>rr_rdestimate := k\<rparr>) \<longleftrightarrow> data_ok rr"
  by (auto simp: data_ok_def storage_ok_def)

text \<open>\<open>SetNewRData\<close> on data that was accepted, and on the stale data of an empty record of class ANY\<close>

lemma SetNewRData_ok:
  assumes "data_ok rr" "valid_name (rr_name rr)"
  obtains n k h where "SetNewRData rr None = Some (rr\<lparr>rr_rdlength := n, rr_rdestimate := k, rr_rdatahash := h\<rparr>)"
    "storage_ok (rr\<lparr>rr_rdlength := n, rr_rdestimate := k, rr_rdatahash := h\<rparr>)"
proof -
  obtain n where n: "GetRDLength rr False = Some n" using GetRDLength_some [OF assms] by blast
  let ?r1 = "rr\<lparr>rr_rdlength := n\<rparr>"
  have r1: "data_ok ?r1" by (rule data_ok_fields(1) [OF assms(1) GetRDLength_le [OF assms(1) n]])
  obtain k where k: "GetRDLength ?r1 True = Some k" using GetRDLength_some [OF r1] assms(2) by auto
  let ?r2 = "?r1\<lparr>rr_rdestimate := k\<rparr>"
  have r2: "data_ok ?r2" using r1 data_ok_fields(2) by blast
  have "\<exists>h. (case GetRRDomainNameTarget ?r2 of Some i \<Rightarrow> DomainNameHashValue (rr_data ?r2) i | None \<Rightarrow> RDataHashValue ?r2) = Some h"
  proof (cases "GetRRDomainNameTarget ?r2")
    case None
    then show ?thesis using data_ok_hash [OF r2] by simp
  next
    case (Some i)
    have "hashable (rr_data ?r2) i" by (rule valid_at_hashable, rule data_ok_valid [OF r2 target_offset(1) [OF Some]])
    then show ?thesis using Some by (simp add: hashable_def)
  qed
  then obtain h where h: "(case GetRRDomainNameTarget ?r2 of Some i \<Rightarrow> DomainNameHashValue (rr_data ?r2) i | None \<Rightarrow> RDataHashValue ?r2) = Some h"
    by blast
  show thesis
  proof (rule that)
    show "SetNewRData rr None = Some (?r2\<lparr>rr_rdatahash := h\<rparr>)"
      unfolding SetNewRData_def Let_def option.case using n k h by simp
    show "storage_ok (?r2\<lparr>rr_rdatahash := h\<rparr>)" using r2 by (simp add: data_ok_def storage_ok_def)
  qed
qed

lemma SetNewRData_empty:
  assumes "storage_ok rr" "rr_rrclass rr = kDNSQClass_ANY" "rr_rdlength rr = 0" "rr_data rr ! 8191 = 0"
  obtains n k h where "SetNewRData rr None = Some (rr\<lparr>rr_rdlength := n, rr_rdestimate := k, rr_rdatahash := h\<rparr>)"
    "storage_ok (rr\<lparr>rr_rdlength := n, rr_rdestimate := k, rr_rdatahash := h\<rparr>)"
proof -
  let ?r2 = "rr\<lparr>rr_rdlength := 0, rr_rdestimate := 0\<rparr>"
  have len: "length (rr_data rr) = 8192" using assms(1) by (simp add: storage_ok_def MaximumRDSize_def)
  have off: "i < 8192" if "i \<in> set (name_offsets t)" for i t
    using that by (auto simp: name_offsets_def offsets split: if_splits)
  have hash: "hashable (rr_data rr) i" if "i < 8192" for i
    by (rule zero_hashable [OF assms(4)]) (use that len in auto)
  have "\<exists>h. (case GetRRDomainNameTarget ?r2 of Some i \<Rightarrow> DomainNameHashValue (rr_data ?r2) i | None \<Rightarrow> RDataHashValue ?r2) = Some h"
  proof (cases "GetRRDomainNameTarget ?r2")
    case None
    have "\<exists>h. RDataHashValue ?r2 = Some h" by (rule RDataHashValue_some) (use len hash off in auto)
    with None show ?thesis by simp
  next
    case (Some i)
    then show ?thesis using hash [OF target_offset(2) [OF Some]] by (simp add: hashable_def)
  qed
  then obtain h where h: "(case GetRRDomainNameTarget ?r2 of Some i \<Rightarrow> DomainNameHashValue (rr_data ?r2) i | None \<Rightarrow> RDataHashValue ?r2) = Some h"
    by blast
  show thesis
  proof (rule that)
    show "SetNewRData rr None = Some (?r2\<lparr>rr_rdatahash := h\<rparr>)"
      unfolding SetNewRData_def Let_def option.case using h assms(2,3) by (simp add: GetRDLength_def)
  qed (use assms(1) in \<open>simp_all add: storage_ok_def\<close>)
qed

end
