(* ===== verification/Dns_Receive_Safe.thy ===== *)
theory Dns_Receive_Safe imports Dns_Receive_Props begin

text \<open>
  \<open>SetRData\<close> and \<open>GetLargeResourceRecord\<close> on arbitrary messages: every copy stays within the message and
  within the storage of the record.
\<close>

section \<open>Copies\<close>

lemma store_bytes_some: "off + length bs \<le> length d \<Longrightarrow> store_bytes d off bs = Some (write_bytes d off bs)"
  by (simp add: store_bytes_def)

lemma mem_copy_some:
  assumes "p + n \<le> length src" "off + n \<le> length d"
  obtains d' where "mem_copy d off src p n = Some d'" "length d' = length d"
proof (rule that)
  show "mem_copy d off src p n = Some (write_bytes d off (take n (drop p src)))"
    using assms by (simp add: mem_copy_def read_bytes_def store_bytes_def)
  show "length (write_bytes d off (take n (drop p src))) = length d"
    using assms by (simp add: length_write_bytes)
qed

lemma set_count_some: "off + 1 < length d \<Longrightarrow> \<exists>d'. set_count d off v = Some d' \<and> length d' = length d"
  by (simp add: set_count_def set_byte_some)

lemma set_count_keeps: "set_count d off v = Some d' \<Longrightarrow> keeps {off, off + 1} d' d"
  by (auto simp: set_count_def set_byte_def keeps_update2 split: if_splits)

lemma store32_some:
  assumes "off + 3 < length d"
  obtains d' where "store32 d off v = Some d'" "length d' = length d" "keeps {off..<off + 4} d' d"
proof -
  obtain d1 where d1: "store16 d off (ucast v) = Some d1" "length d1 = length d"
    using set_count_some [of off d] assms by (auto simp: store16_def)
  obtain d2 where d2: "store16 d1 (off + 2) (ucast (drop_bit 16 v)) = Some d2" "length d2 = length d1"
    using set_count_some [of "off + 2" d1] assms d1(2) by (auto simp: store16_def)
  have "keeps {off..<off + 4} d2 d"
    by (rule keeps_trans [OF set_count_keeps [OF d2(1) [unfolded store16_def]] set_count_keeps [OF d1(1) [unfolded store16_def]]]) auto
  then show thesis using d1 d2 by (intro that) (simp_all add: store32_def)
qed

lemma get_val32_some: "i + 3 < length msg \<Longrightarrow> \<exists>v. get_val32 msg i = Some v"
  using get_val16_some [of i msg] get_val16_some [of "i + 2" msg] by (auto simp: get_val32_def)

lemma read_written:
  assumes "off + length arr \<le> length d" "n \<le> length arr"
  shows "read_bytes (write_bytes d off arr) off n = read_bytes arr 0 n"
  using assms by (simp add: read_bytes_def write_bytes_def)

lemma valid_at_written:
  assumes "valid_name arr" "length arr = 256" "off + 256 \<le> length d"
  shows "valid_at (write_bytes d off arr) off"
proof -
  obtain ls where ls: "name_at arr 0 ls" "wire_len ls \<le> 256" using assms(1) by (auto simp: valid_name_def)
  then have "name_at (write_bytes d off arr) off ls"
    using read_written [of off arr d "wire_len ls"] assms(2,3) by (simp add: name_at_iff)
  then show ?thesis using ls(2) by (auto simp: valid_at_def)
qed

lemma valid_at_kept:
  assumes "valid_at d i" "i + 256 \<le> off" "off + length bs \<le> length d"
  shows "valid_at (write_bytes d off bs) i"
proof -
  obtain ls where ls: "name_at d i ls" "wire_len ls \<le> 256" using assms(1) by (auto simp: valid_at_def)
  then have "name_at (write_bytes d off bs) i ls"
    using read_write_bytes(2) [OF assms(3), of i "wire_len ls"] assms(2) by (simp add: name_at_iff)
  then show ?thesis using ls(2) by (auto simp: valid_at_def)
qed

lemma valid_at_keeps:
  assumes "valid_at d i" "keeps {off..<off + n} d' d" "i + 256 \<le> off"
  shows "valid_at d' i"
proof -
  obtain ls where ls: "name_at d i ls" "wire_len ls \<le> 256" using assms(1) by (auto simp: valid_at_def)
  have "{i..<i + wire_len ls} \<inter> {off..<off + n} = {}" using ls(2) assms(3) by auto
  then show ?thesis using keeps_name [OF assms(2)] ls by (auto simp: valid_at_def)
qed

section \<open>Names\<close>

lemma fetch_name_safe:
  assumes "e < length mem" "length arr = 256"
  obtains arr' r where "fetch_name True mem (Some p) e arr = Some (arr', r)" "length arr' = 256"
    "\<forall>q. r = Some q \<longrightarrow> p < q \<and> q \<le> Suc e \<and> valid_name arr'"
proof (cases "p < e")
  case True
  then obtain arr' r where g: "getDomainName mem (Some p) e arr = Some (arr', r)" "got_name mem p e (arr[0 := 0]) 0 None arr' r"
    by (rule getDomainName_safe [OF _ assms])
  have "p < q \<and> q \<le> Suc e \<and> valid_name arr'" if "r = Some q" for q
  proof -
    obtain ls where "name_at arr' 0 ls" "wire_len ls \<le> 256" "\<forall>q. r = Some q \<longrightarrow> decodes mem e p ls q"
      using g(2) by (auto simp: got_name_def)
    moreover from this(3) have "decodes mem e p ls q" using that by simp
    ultimately show ?thesis using decodes_le decodes_bound True by (auto simp: valid_name_def)
  qed
  then show thesis using g by (intro that [of arr' r]) (auto simp: fetch_name_def got_name_def)
next
  case False
  then show thesis using assms(2) by (intro that [of arr None]) (auto simp: fetch_name_def getDomainName_def)
qed

lemma set_name_safe:
  assumes "storage_ok rr" "e < length mem" "off + 256 \<le> 8192"
  obtains d r where "set_name True mem (Some p) e off rr = Some (rr\<lparr>rr_data := d\<rparr>, r)" "length d = 8192"
    "\<forall>q. r = Some q \<longrightarrow> p < q \<and> q \<le> Suc e \<and> valid_at d off"
    "\<forall>i. valid_at (rr_data rr) i \<and> i + 256 \<le> off \<longrightarrow> valid_at d i"
proof -
  have len: "length (rr_data rr) = 8192" using assms(1) by (simp add: storage_ok_def MaximumRDSize_def)
  then obtain arr where arr: "read_bytes (rr_data rr) off 256 = Some arr" "length arr = 256"
    using read_bytes_exists [of off 256 "rr_data rr"] assms(3) by auto
  obtain arr' r where f: "fetch_name True mem (Some p) e arr = Some (arr', r)" "length arr' = 256"
    "\<forall>q. r = Some q \<longrightarrow> p < q \<and> q \<le> Suc e \<and> valid_name arr'"
    by (rule fetch_name_safe [OF assms(2) arr(2), of p])
  let ?d = "write_bytes (rr_data rr) off arr'"
  have fits: "off + length arr' \<le> length (rr_data rr)" using len f(2) assms(3) by simp
  show thesis
  proof (rule that)
    show "set_name True mem (Some p) e off rr = Some (rr\<lparr>rr_data := ?d\<rparr>, r)"
      using arr(1) f(1) store_bytes_some [OF fits] by (simp add: set_name_def MAX_DOMAIN_NAME_def)
    show "length ?d = 8192" using len length_write_bytes [OF fits] by simp
    show "\<forall>q. r = Some q \<longrightarrow> p < q \<and> q \<le> Suc e \<and> valid_at ?d off"
      using f(2,3) valid_at_written [of arr' off "rr_data rr"] len assms(3) by auto
    show "\<forall>i. valid_at (rr_data rr) i \<and> i + 256 \<le> off \<longrightarrow> valid_at ?d i"
      using valid_at_kept [OF _ _ fits] by blast
  qed
qed

lemma AssignDomainName_fits:
  assumes "valid_name nm" "DomainNameLength nm 0 = Some n" "off + unat n \<le> length d"
  obtains d' where "AssignDomainName d off nm 0 = Some d'" "length d' = length d" "unat n \<le> 256"
    "\<exists>ls. name_at d' off ls \<and> wire_len ls = unat n"
proof -
  obtain ls where ls: "name_at nm 0 ls" "wire_len ls \<le> 256" using assms(1) by (auto simp: valid_name_def)
  then have n: "unat n = wire_len ls" using DomainNameLength_unat [OF ls] assms(2) by auto
  have r: "read_bytes nm 0 (wire_len ls) = Some (wire ls)" using ls(1) by (simp add: name_at_iff)
  have fits: "off + length (wire ls) \<le> length d" using assms(3) n by simp
  show thesis
  proof (rule that)
    show "AssignDomainName d off nm 0 = Some (write_bytes d off (wire ls))"
      using assms(2) n r ls(2) store_bytes_some [OF fits] by (simp add: AssignDomainName_def mem_copy_def MAX_DOMAIN_NAME_def)
    have "name_at (write_bytes d off (wire ls)) off ls"
      by (rule name_at_write) (use name_at_valid [OF ls(1)] fits in simp_all)
    then show "\<exists>ls'. name_at (write_bytes d off (wire ls)) off ls' \<and> wire_len ls' = unat n" using n by auto
    show "unat n \<le> 256" using n ls(2) by linarith
  qed (use length_write_bytes [OF fits] in simp_all)
qed

section \<open>The data of each type\<close>

definition same_header :: "resource_record \<Rightarrow> resource_record \<Rightarrow> bool" where
  "same_header a b \<longleftrightarrow> rr_rrtype b = rr_rrtype a \<and> rr_rrclass b = rr_rrclass a \<and> rr_name b = rr_name a
     \<and> rr_namehash b = rr_namehash a"

definition setter_ok :: "resource_record \<Rightarrow> (resource_record \<times> bool) option \<Rightarrow> bool" where
  "setter_ok rr x \<longleftrightarrow> (\<exists>rr' ok. x = Some (rr', ok) \<and> length (rr_data rr') = 8192 \<and> same_header rr rr'
     \<and> (ok \<longrightarrow> storage_ok rr' \<and> rdata_ok (rr_rrtype rr) (rr_data rr')))"

lemma storage_ok_length: "storage_ok rr \<Longrightarrow> length (rr_data rr) = 8192"
  by (simp add: storage_ok_def MaximumRDSize_def)

lemma setter_ok_fail: "storage_ok rr' \<Longrightarrow> same_header rr rr' \<Longrightarrow> setter_ok rr (Some (rr', False))"
  by (auto simp: setter_ok_def storage_ok_length)

lemma setter_ok_done:
  "storage_ok rr' \<Longrightarrow> same_header rr rr' \<Longrightarrow> rdata_ok (rr_rrtype rr) (rr_data rr') \<Longrightarrow> setter_ok rr (Some (rr', ok))"
  by (auto simp: setter_ok_def storage_ok_length)

lemma same_header_data [simp]: "same_header rr (rr\<lparr>rr_data := d\<rparr>)" "same_header rr (rr\<lparr>rr_rdlength := n\<rparr>)"
  "same_header rr (rr\<lparr>rr_opts := os\<rparr>)" "same_header rr rr"
  by (simp_all add: same_header_def)

lemma storage_ok_data: "storage_ok rr \<Longrightarrow> length d = 8192 \<Longrightarrow> storage_ok (rr\<lparr>rr_data := d\<rparr>)"
  by (simp add: storage_ok_def MaximumRDSize_def)

lemma set_last_name_safe:
  assumes "storage_ok rr" "e < length mem" "off + 256 \<le> 8192"
    "\<And>d. valid_at d off \<Longrightarrow> (\<forall>i. valid_at (rr_data rr) i \<and> i + 256 \<le> off \<longrightarrow> valid_at d i) \<Longrightarrow> rdata_ok (rr_rrtype rr) d"
  shows "setter_ok rr (set_last_name True mem p e off rr)"
proof -
  obtain d r where d: "set_name True mem (Some p) e off rr = Some (rr\<lparr>rr_data := d\<rparr>, r)" "length d = 8192"
    "\<forall>q. r = Some q \<longrightarrow> p < q \<and> q \<le> Suc e \<and> valid_at d off"
    "\<forall>i. valid_at (rr_data rr) i \<and> i + 256 \<le> off \<longrightarrow> valid_at d i"
    by (rule set_name_safe [OF assms(1-3), of p])
  have "r = Some e \<Longrightarrow> rdata_ok (rr_rrtype rr) d" using assms(4) d(3,4) by blast
  then show ?thesis using d(1,2) storage_ok_data [OF assms(1) d(2)] by (auto simp: setter_ok_def set_last_name_def)
qed

lemma setter_ok_data: "setter_ok (rr\<lparr>rr_data := d\<rparr>) x \<Longrightarrow> setter_ok rr x"
  by (auto simp: setter_ok_def same_header_def)

lemma set_two_names_safe:
  assumes "storage_ok rr" "e < length mem" "off1 + 256 \<le> off2" "off2 + 256 \<le> 8192"
    "\<And>d. valid_at d off1 \<Longrightarrow> valid_at d off2 \<Longrightarrow> rdata_ok (rr_rrtype rr) d"
  shows "setter_ok rr (set_two_names True mem p e off1 off2 rr)"
proof -
  have "off1 + 256 \<le> 8192" using assms(3,4) by simp
  then obtain d r where d: "set_name True mem (Some p) e off1 rr = Some (rr\<lparr>rr_data := d\<rparr>, r)" "length d = 8192"
    "\<forall>q. r = Some q \<longrightarrow> p < q \<and> q \<le> Suc e \<and> valid_at d off1"
    by (rule set_name_safe [OF assms(1,2), where p = p])
  note st = storage_ok_data [OF assms(1) d(2)]
  show ?thesis
  proof (cases r)
    case None
    then show ?thesis using d(1) st by (auto simp: set_two_names_def intro: setter_ok_fail)
  next
    case (Some q)
    have "setter_ok (rr\<lparr>rr_data := d\<rparr>) (set_last_name True mem q e off2 (rr\<lparr>rr_data := d\<rparr>))"
      by (rule set_last_name_safe [OF st assms(2,4)]) (use assms(3,5) d(3) Some in auto)
    then show ?thesis using setter_ok_data d(1) Some by (simp add: set_two_names_def)
  qed
qed

lemma set_raw_safe:
  assumes "storage_ok rr" "p + unat n \<le> length mem" "unat n \<le> 8192" "name_offsets (rr_rrtype rr) = []"
  shows "setter_ok rr (set_raw mem p n rr)"
proof -
  have "0 + unat n \<le> length (rr_data rr)" using assms(1,3) by (simp add: storage_ok_length)
  then obtain d where d: "mem_copy (rr_data rr) 0 mem p (unat n) = Some d" "length d = length (rr_data rr)"
    by (rule mem_copy_some [OF assms(2)])
  have "storage_ok (rr\<lparr>rr_rdlength := n, rr_data := d\<rparr>)" using assms(1,3) d(2) by (simp add: storage_ok_def MaximumRDSize_def)
  then have "setter_ok rr (Some (rr\<lparr>rr_rdlength := n, rr_data := d\<rparr>, True))"
    by (rule setter_ok_done) (use assms(4) in \<open>simp_all add: same_header_def rdata_ok_def\<close>)
  then show ?thesis using d(1) by (simp add: set_raw_def)
qed

lemma set_fixed_safe:
  assumes "storage_ok rr" "p + unat n \<le> length mem" "k \<le> 8192" "name_offsets (rr_rrtype rr) = []"
  shows "setter_ok rr (set_fixed mem p k n rr)"
proof (cases "unat n = k")
  case True
  have "0 + k \<le> length (rr_data rr)" using assms(1,3) by (simp add: storage_ok_length)
  then obtain d where d: "mem_copy (rr_data rr) 0 mem p k = Some d" "length d = length (rr_data rr)"
    using True assms(2) by (blast intro: mem_copy_some)
  have "storage_ok (rr\<lparr>rr_data := d\<rparr>)" by (rule storage_ok_data [OF assms(1)]) (use d(2) storage_ok_length [OF assms(1)] in simp)
  then have "setter_ok rr (Some (rr\<lparr>rr_data := d\<rparr>, True))"
    by (rule setter_ok_done) (use assms(4) in \<open>simp_all add: rdata_ok_def\<close>)
  then show ?thesis using d(1) True by (simp add: set_fixed_def)
qed (use assms(1) setter_ok_fail in \<open>auto simp: set_fixed_def\<close>)

lemma set_preference_safe:
  assumes "storage_ok rr" "p + 1 < length mem"
  obtains d where "set_preference mem p rr = Some (rr\<lparr>rr_data := d\<rparr>)" "length d = 8192"
proof -
  obtain v where v: "get_val16 mem p = Some v" using get_val16_some [OF assms(2)] by blast
  obtain d where "store16 (rr_data rr) 0 v = Some d" "length d = 8192"
    using set_count_some [of 0 "rr_data rr" v] storage_ok_length [OF assms(1)] by (auto simp: store16_def)
  with v show thesis by (intro that) (simp_all add: set_preference_def)
qed

text \<open>A chain of words stored behind the names\<close>

definition soa_ok :: "bytes \<Rightarrow> bool" where
  "soa_ok d \<longleftrightarrow> length d = 8192 \<and> valid_at d 0 \<and> valid_at d off_soa_rname"

lemma store32_soa:
  assumes "soa_ok d" "k \<le> 16"
  obtains d' where "store32 d (off_soa_serial + k) v = Some d'" "soa_ok d'"
proof -
  have "off_soa_serial + k + 3 < length d" using assms by (simp add: soa_ok_def off_soa_serial_def)
  then obtain d' where d': "store32 d (off_soa_serial + k) v = Some d'" "length d' = length d"
    "keeps {off_soa_serial + k..<off_soa_serial + k + 4} d' d"
    by (rule store32_some)
  then have "soa_ok d'"
    using assms valid_at_keeps [OF _ d'(3), of 0] valid_at_keeps [OF _ d'(3), of off_soa_rname]
    by (simp add: soa_ok_def off_soa_serial_def off_soa_rname_def)
  with d'(1) show thesis by (rule that)
qed

lemma set_soa_safe:
  assumes "storage_ok rr" "e < length mem" "rr_rrtype rr = kDNSType_SOA"
  shows "setter_ok rr (set_soa True mem p e rr)"
proof -
  obtain d r where d: "set_name True mem (Some p) e 0 rr = Some (rr\<lparr>rr_data := d\<rparr>, r)" "length d = 8192"
    "\<forall>q. r = Some q \<longrightarrow> p < q \<and> q \<le> Suc e \<and> valid_at d 0"
    by (rule set_name_safe [OF assms(1,2), of 0 p]) simp
  note st = storage_ok_data [OF assms(1) d(2)]
  show ?thesis
  proof (cases r)
    case None
    then show ?thesis using d(1) st by (auto simp: set_soa_def intro: setter_ok_fail)
  next
    case (Some q)
    obtain d1 r1 where d1: "set_name True mem (Some q) e off_soa_rname (rr\<lparr>rr_data := d\<rparr>) = Some (rr\<lparr>rr_data := d1\<rparr>, r1)"
      "length d1 = 8192" "\<forall>q'. r1 = Some q' \<longrightarrow> q < q' \<and> q' \<le> Suc e \<and> valid_at d1 off_soa_rname"
      "\<forall>i. valid_at d i \<and> i + 256 \<le> off_soa_rname \<longrightarrow> valid_at d1 i"
      using set_name_safe [OF st assms(2), of off_soa_rname q] by (auto simp: off_soa_rname_def)
    note st1 = storage_ok_data [OF assms(1) d1(2)]
    show ?thesis
    proof (cases r1)
      case None
      then show ?thesis using d(1) d1(1) Some st1 by (auto simp: set_soa_def intro: setter_ok_fail)
    next
      case (Some q1)
      show ?thesis
      proof (cases "q1 + 20 = e")
        case False
        then show ?thesis using d(1) d1(1) Some \<open>r = Some q\<close> st1 by (auto simp: set_soa_def intro: setter_ok_fail)
      next
        case True
        have v: "\<exists>v. get_val32 mem (q1 + k) = Some v" if "k \<le> 16" for k
          using get_val32_some [of "q1 + k" mem] True assms(2) that by simp
        have names: "valid_at d1 0" "valid_at d1 off_soa_rname"
          using d1(3,4) d(3) Some \<open>r = Some q\<close> by (auto simp: off_soa_rname_def)
        then have "soa_ok d1" using d1(2) by (simp add: soa_ok_def)
        obtain v0 v4 v8 v12 v16 where w: "get_val32 mem q1 = Some v0" "get_val32 mem (q1 + 4) = Some v4"
          "get_val32 mem (q1 + 8) = Some v8" "get_val32 mem (q1 + 12) = Some v12" "get_val32 mem (q1 + 16) = Some v16"
          using v [of 0] v [of 4] v [of 8] v [of 12] v [of 16] by auto
        obtain e0 where e0: "store32 d1 (off_soa_serial + 0) v0 = Some e0" "soa_ok e0" by (rule store32_soa [OF \<open>soa_ok d1\<close>, of 0]) simp
        obtain e4 where e4: "store32 e0 (off_soa_serial + 4) v4 = Some e4" "soa_ok e4" by (rule store32_soa [OF e0(2), of 4]) simp
        obtain e8 where e8: "store32 e4 (off_soa_serial + 8) v8 = Some e8" "soa_ok e8" by (rule store32_soa [OF e4(2), of 8]) simp
        obtain e12 where e12: "store32 e8 (off_soa_serial + 12) v12 = Some e12" "soa_ok e12" by (rule store32_soa [OF e8(2), of 12]) simp
        obtain e16 where e16: "store32 e12 (off_soa_serial + 16) v16 = Some e16" "soa_ok e16" by (rule store32_soa [OF e12(2), of 16]) simp
        have "set_soa True mem p e rr = Some (rr\<lparr>rr_data := e16\<rparr>, True)"
          using d(1) d1(1) Some \<open>r = Some q\<close> True w e0(1) e4(1) e8(1) e12(1) e16(1) by (simp add: set_soa_def)
        moreover have "rdata_ok kDNSType_SOA e16"
          using e16(2) by (simp add: rdata_ok_def name_offsets_def type_lists soa_ok_def)
        moreover have "storage_ok (rr\<lparr>rr_data := e16\<rparr>)" by (rule storage_ok_data [OF assms(1)]) (use e16(2) in \<open>simp add: soa_ok_def\<close>)
        ultimately show ?thesis using assms(3) by (simp add: setter_ok_done)
      qed
    qed
  qed
qed

end
