(* ===== verification/Dns_Set_Rdata.thy ===== *)
theory Dns_Set_Rdata imports Dns_Receive_Safe begin

text \<open>The types of data that hold strings, options, bitmaps or signatures, and \<open>SetRData\<close> as a whole.\<close>

lemma set_srv_safe:
  assumes "storage_ok rr" "e < length mem" "e = p + unat n" "rr_rrtype rr = kDNSType_SRV"
  shows "setter_ok rr (set_srv True mem p e n rr)"
proof (cases "n < 7")
  case True
  then show ?thesis using setter_ok_fail [OF assms(1), of rr] by (simp add: set_srv_def)
next
  case False
  then have n: "7 \<le> unat n" by (simp add: word_less_nat_alt)
  have len: "length (rr_data rr) = 8192" by (rule storage_ok_length [OF assms(1)])
  obtain v0 v2 where v: "get_val16 mem p = Some v0" "get_val16 mem (p + 2) = Some v2"
    using get_val16_some [of p mem] get_val16_some [of "p + 2" mem] assms(2,3) n by auto
  obtain d0 where d0: "store16 (rr_data rr) 0 v0 = Some d0" "length d0 = 8192"
    using set_count_some [of 0 "rr_data rr" v0] len by (auto simp: store16_def)
  obtain d2 where d2: "store16 d0 2 v2 = Some d2" "length d2 = 8192"
    using set_count_some [of 2 d0 v2] d0(2) by (auto simp: store16_def)
  have "p + 4 + 2 \<le> length mem" "off_srv_port + 2 \<le> length d2" using assms(2,3) n d2(2) by (simp_all add: off_srv_port_def)
  then obtain d where d: "mem_copy d2 off_srv_port mem (p + 4) 2 = Some d" "length d = length d2"
    by (rule mem_copy_some)
  have st: "storage_ok (rr\<lparr>rr_data := d\<rparr>)" by (rule storage_ok_data [OF assms(1)]) (use d d2 in simp)
  have "setter_ok (rr\<lparr>rr_data := d\<rparr>) (set_last_name True mem (p + 6) e off_srv_target (rr\<lparr>rr_data := d\<rparr>))"
    by (rule set_last_name_safe [OF st assms(2)])
      (use assms(4) in \<open>auto simp: rdata_ok_def name_offsets_def type_lists off_srv_target_def\<close>)
  then show ?thesis using False v d0(1) d2(1) d(1) setter_ok_data by (simp add: set_srv_def)
qed

lemma skip_string_some: "p < length mem \<Longrightarrow> \<exists>q. skip_string mem p = Some q \<and> p < q"
  using read_byte_exists by (fastforce simp: skip_string_def)

text \<open>A local name: where it ends, and its length when it is valid\<close>

lemma fetch_local_safe:
  assumes "e < length mem"
  obtains nm r where "fetch_local True mem p e = Some (nm, r)"
    "\<forall>q. r = Some q \<longrightarrow> p < q \<and> q \<le> Suc e \<and> valid_name nm"
proof -
  obtain nm r where "fetch_name True mem (Some p) e (replicate 256 0) = Some (nm, r)" "length nm = 256"
    "\<forall>q. r = Some q \<longrightarrow> p < q \<and> q \<le> Suc e \<and> valid_name nm"
    by (rule fetch_name_safe [OF assms length_replicate])
  then show thesis by (intro that [of nm r]) (auto simp: fetch_local_def MAX_DOMAIN_NAME_def)
qed

lemma valid_name_length:
  assumes "valid_name nm"
  obtains n where "DomainNameLength nm 0 = Some n" "unat n \<le> 256"
proof -
  obtain ls where "name_at nm 0 ls" "wire_len ls \<le> 256" using assms by (auto simp: valid_name_def)
  then show thesis using that by (metis DomainNameLength_unat)
qed

lemma set_naptr_safe:
  assumes "storage_ok rr" "e < length mem" "e = p + unat n" "unat n \<le> 8192" "rr_rrtype rr = kDNSType_NAPTR"
  shows "setter_ok rr (set_naptr True mem p e n rr)"
proof (cases "n < 8")
  case True
  then show ?thesis using setter_ok_fail [OF assms(1), of rr] by (simp add: set_naptr_def)
next
  case False
  note fail = setter_ok_fail [OF assms(1), of rr, simplified]
  have n: "8 \<le> unat n" using False by (simp add: word_less_nat_alt)
  then obtain p1 where p1: "skip_string mem (p + 4) = Some p1" "p + 4 < p1"
    using skip_string_some [of "p + 4" mem] assms(2,3) by auto
  show ?thesis
  proof (cases "p1 < e")
    case False': False
    then show ?thesis using False p1 fail by (simp add: set_naptr_def)
  next
    case True
    then obtain p2 where p2: "skip_string mem p1 = Some p2" "p1 < p2" using skip_string_some [of p1 mem] assms(2) by auto
    show ?thesis
    proof (cases "p2 < e")
      case False': False
      then show ?thesis using False p1 p2 True fail by (simp add: set_naptr_def)
    next
      case e2: True
      then obtain p3 where p3: "skip_string mem p2 = Some p3" "p2 < p3" using skip_string_some [of p2 mem] assms(2) by auto
      show ?thesis
      proof (cases "p3 < e")
        case False': False
        then show ?thesis using False p1 p2 p3 True e2 fail by (simp add: set_naptr_def Let_def)
      next
        case e3: True
        obtain nm r where nm: "fetch_local True mem p3 e = Some (nm, r)"
          "\<forall>q. r = Some q \<longrightarrow> p3 < q \<and> q \<le> Suc e \<and> valid_name nm"
          by (rule fetch_local_safe [OF assms(2)])
        show ?thesis
        proof (cases "r = Some e")
          case False': False
          then show ?thesis using False p1 p2 p3 True e2 e3 nm fail by (simp add: set_naptr_def Let_def)
        next
          case re: True
          then have vn: "valid_name nm" using nm(2) by simp
          obtain k where k: "DomainNameLength nm 0 = Some k" "unat k \<le> 256" by (rule valid_name_length [OF vn])
          let ?save = "p3 - p"
          let ?n = "of_nat ?save + k :: u16"
          have save: "?save \<le> 8192" using e3 assms(3,4) by simp
          then have un: "unat ?n = ?save + unat k" using k(2) by (simp add: unat_word_ariths unat_of_nat)
          show ?thesis
          proof (cases "unat ?n > MaximumRDSize")
            case big: True
            have "setter_ok rr (Some (rr\<lparr>rr_rdlength := ?n\<rparr>, False))"
              using storage_ok_length [OF assms(1)] by (auto simp: setter_ok_def)
            then show ?thesis using False p1 p2 p3 True e2 e3 nm re k big by (simp add: set_naptr_def Let_def)
          next
            case small: False
            then have fits: "?save + unat k \<le> 8192" using un by (simp add: MaximumRDSize_def)
            have "p + ?save \<le> length mem" "0 + ?save \<le> length (rr_data rr)"
              using e3 p1(2) p2(2) p3(2) assms(2) save storage_ok_length [OF assms(1)] by auto
            then obtain d where d: "mem_copy (rr_data rr) 0 mem p ?save = Some d" "length d = length (rr_data rr)"
              by (rule mem_copy_some)
            obtain d' where d': "AssignDomainName d ?save nm 0 = Some d'" "length d' = length d"
              by (rule AssignDomainName_fits [OF vn k(1), of ?save d]) (use fits d(2) storage_ok_length [OF assms(1)] in simp)
            have "storage_ok (rr\<lparr>rr_rdlength := ?n, rr_data := d'\<rparr>)"
              using assms(1) d(2) d'(2) small by (simp add: storage_ok_def)
            then have "setter_ok rr (Some (rr\<lparr>rr_rdlength := ?n, rr_data := d'\<rparr>, True))"
              by (rule setter_ok_done) (use assms(5) in \<open>simp_all add: same_header_def rdata_ok_def name_offsets_def type_lists\<close>)
            then show ?thesis using False p1 p2 p3 True e2 e3 nm re k small d(1) d'(1) by (simp add: set_naptr_def Let_def)
          qed
        qed
      qed
    qed
  qed
qed

section \<open>Options\<close>

lemma get_opt_some:
  assumes "p + unat optlen \<le> length mem"
  shows "\<exists>r. get_opt mem p code optlen = Some r"
proof -
  have b: "\<exists>v. read_bytes mem (p + k) n = Some v" if "k + n \<le> unat optlen" for k n
    using read_bytes_exists [of "p + k" n mem] assms that by auto
  have v16: "\<exists>v. get_val16 mem (p + k) = Some v" if "k + 2 \<le> unat optlen" for k
    using get_val16_some [of "p + k" mem] assms that by auto
  have v32: "\<exists>v. get_val32 mem (p + k) = Some v" if "k + 4 \<le> unat optlen" for k
    using get_val32_some [of "p + k" mem] assms that by auto
  have v8: "\<exists>v. read_byte mem (p + k) = Some v" if "k + 1 \<le> unat optlen" for k
    using read_byte_exists [of "p + k" mem] assms that by auto
  consider (llq) "code = 1" "optlen = 18" | (lease) "code = 2" "optlen = 4" | (owner) "code = 4" "ValidOwnerLength optlen"
    | (none) "\<not> (code = 1 \<and> optlen = 18)" "\<not> (code = 2 \<and> optlen = 4)" "\<not> (code = 4 \<and> ValidOwnerLength optlen)"
    by blast
  then show ?thesis
  proof cases
    case llq
    then show ?thesis using v16 [of 0] v16 [of 2] v16 [of 4] b [of 6 8] v32 [of 14] by (auto simp: get_opt_def)
  next
    case lease
    then show ?thesis using v32 [of 0] by (auto simp: get_opt_def)
  next
    case owner
    then have "8 \<le> unat optlen" by (auto simp: ValidOwnerLength_def)
    then obtain w0 w1 h where w: "read_byte mem p = Some w0" "read_byte mem (p + 1) = Some w1" "read_bytes mem (p + 2) 6 = Some h"
      using v8 [of 0] v8 [of 1] b [of 2 6] by auto
    obtain i where i: "(if optlen \<ge> 14 then read_bytes mem (p + 8) 6 else Some h) = Some i"
      using b [of 8 6] by (cases "optlen \<ge> 14") (auto simp: word_le_nat_alt)
    obtain pw where "(if optlen > 14 then read_bytes mem (p + 14) (unat optlen - 14) else Some []) = Some pw"
      using b [of 14 "unat optlen - 14"] by (cases "optlen > 14") (auto simp: word_less_nat_alt)
    then show ?thesis using w i owner by (simp add: get_opt_def)
  next
    case none
    then show ?thesis by (auto simp: get_opt_def)
  qed
qed

lemma get_opts_some:
  "e \<le> length mem \<Longrightarrow> sizeof_rdataOPT * length os \<le> 8192 \<Longrightarrow>
     \<exists>os' r. get_opts mem p e os = Some (os', r) \<and> sizeof_rdataOPT * length os' \<le> 8192"
proof (induction mem p e os rule: get_opts.induct)
  case (1 mem p e os)
  show ?case
  proof (cases "p < e \<and> sizeof_rdataOPT * (length os + 1) < MaximumRDSize")
    case False
    then show ?thesis using 1(3) by (subst get_opts.simps) simp
  next
    case more: True
    show ?thesis
    proof (cases "p + 4 > e")
      case True
      then show ?thesis using more 1(3) by (subst get_opts.simps) simp
    next
      case four: False
      then obtain code optlen where v: "get_val16 mem p = Some code" "get_val16 mem (p + 2) = Some optlen"
        using get_val16_some [of p mem] get_val16_some [of "p + 2" mem] 1(2) by auto
      show ?thesis
      proof (cases "p + 4 + unat optlen > e")
        case True
        then show ?thesis using more four v 1(3) by (subst get_opts.simps) simp
      next
        case fits: False
        then obtain r where r: "get_opt mem (p + 4) code optlen = Some r"
          using get_opt_some [of "p + 4" optlen mem code] 1(2) by auto
        have "sizeof_rdataOPT * length (case r of None \<Rightarrow> os | Some o1 \<Rightarrow> os @ [o1]) \<le> 8192"
          using 1(3) more by (cases r) (auto simp: MaximumRDSize_def)
        then obtain os' r' where "get_opts mem (p + 4 + unat optlen) e (case r of None \<Rightarrow> os | Some o1 \<Rightarrow> os @ [o1]) = Some (os', r')"
          "sizeof_rdataOPT * length os' \<le> 8192"
          using 1(1) [OF more four v fits r 1(2)] by blast
        then show ?thesis using more four v fits r by (subst get_opts.simps) simp
      qed
    qed
  qed
qed

lemma set_opt_safe:
  assumes "storage_ok rr" "e \<le> length mem" "rr_rrtype rr = kDNSType_OPT"
  shows "setter_ok rr (set_opt mem p e rr)"
proof -
  obtain os r where os: "get_opts mem p e [] = Some (os, r)" "sizeof_rdataOPT * length os \<le> 8192"
    using get_opts_some [OF assms(2), of "[]" p] by auto
  then have n: "unat (of_nat (sizeof_rdataOPT * length os) :: u16) \<le> 8192"
    by (simp only: unat_of_nat) (rule order_trans [OF mod_less_eq_dividend])
  have "storage_ok (rr\<lparr>rr_opts := os, rr_rdlength := 0\<rparr>)" "storage_ok (rr\<lparr>rr_opts := os, rr_rdlength := of_nat (sizeof_rdataOPT * length os)\<rparr>)"
    using assms(1) n by (auto simp: storage_ok_def MaximumRDSize_def)
  moreover have "rdata_ok kDNSType_OPT d" for d by (simp add: rdata_ok_def name_offsets_def type_lists)
  ultimately show ?thesis using os(1) assms(3)
    by (cases r) (auto simp: set_opt_def same_header_def intro!: setter_ok_fail setter_ok_done)
qed

section \<open>Bitmaps and signatures\<close>

lemma nsec_windows_some:
  "e < length mem \<Longrightarrow> \<exists>r. nsec_windows mem p e len = Some r \<and> (\<forall>q. r = Some q \<longrightarrow> p \<le> q)"
proof (induction mem p e len rule: nsec_windows.induct)
  case (1 mem p e len)
  show ?case
  proof (cases "p < e \<and> \<not> len < 3")
    case False
    then show ?thesis by (subst nsec_windows.simps) auto
  next
    case True
    then obtain w where w: "read_byte mem (p + 1) = Some w" using read_byte_exists [of "p + 1" mem] 1(2) by auto
    show ?thesis
    proof (cases "len - 2 < int (unat w) \<or> w < 1 \<or> w > 32")
      case bad: True
      then show ?thesis using True w by (subst nsec_windows.simps) auto
    next
      case False
      then obtain r where "nsec_windows mem (p + 2 + unat w) e (len - 2 - int (unat w)) = Some r"
        "\<forall>q. r = Some q \<longrightarrow> p + 2 + unat w \<le> q"
        using 1(1) [of w] True w 1(2) by blast
      then show ?thesis using True w False by (subst nsec_windows.simps) auto
    qed
  qed
qed

lemma set_nsec_safe:
  assumes "storage_ok rr" "e < length mem" "e = p + unat n" "unat n \<le> 8192" "rr_rrtype rr = kDNSType_NSEC"
  shows "setter_ok rr (set_nsec True mem p e n rr)"
proof -
  note fail = setter_ok_fail [OF assms(1), of rr, simplified]
  have len: "length (rr_data rr) = 8192" by (rule storage_ok_length [OF assms(1)])
  obtain nm r where nm: "fetch_local True mem p e = Some (nm, r)"
    "\<forall>q. r = Some q \<longrightarrow> p < q \<and> q \<le> Suc e \<and> valid_name nm"
    by (rule fetch_local_safe [OF assms(2)])
  show ?thesis
  proof (cases r)
    case None
    then show ?thesis using nm(1) fail by (simp add: set_nsec_def)
  next
    case (Some bmap)
    then have bm: "p < bmap" "valid_name nm" using nm(2) by auto
    obtain k where k: "DomainNameLength nm 0 = Some k" "unat k \<le> 256" by (rule valid_name_length [OF bm(2)])
    let ?len = "int (unat n) - (int bmap - int p)"
    obtain w where w: "nsec_windows mem bmap e ?len = Some w" "\<forall>q. w = Some q \<longrightarrow> bmap \<le> q"
      using nsec_windows_some [OF assms(2)] by blast
    show ?thesis
    proof (cases "w = Some e")
      case False
      then show ?thesis using nm(1) Some k w fail by (simp add: set_nsec_def Let_def)
    next
      case True
      then have le: "bmap \<le> e" using w(2) by simp
      have lenE: "?len = int (e - bmap)" using le bm(1) assms(3) by simp
      let ?n = "of_int (int (unat k) + ?len) :: u16"
      have eb: "e - bmap \<le> 8192" using assms(3,4) bm(1) by simp
      have "?n = of_nat (unat k + (e - bmap))" unfolding lenE by simp
      then have un: "unat ?n = unat k + (e - bmap)" using k(2) eb by (simp only: unat_of_nat) simp
      show ?thesis
      proof (cases "unat ?n > MaximumRDSize")
        case big: True
        have "setter_ok rr (Some (rr\<lparr>rr_rdlength := ?n\<rparr>, False))" using len by (auto simp: setter_ok_def)
        then show ?thesis using nm(1) Some k w True big by (simp add: set_nsec_def Let_def)
      next
        case small: False
        then have fits: "unat k + (e - bmap) \<le> 8192" using un by (simp add: MaximumRDSize_def)
        obtain d where d: "AssignDomainName (rr_data rr) 0 nm 0 = Some d" "length d = length (rr_data rr)"
          "\<exists>ls. name_at d 0 ls \<and> wire_len ls = unat k"
          by (rule AssignDomainName_fits [OF bm(2) k(1), of 0 "rr_data rr"]) (use k(2) len in simp)
        have cp: "bmap + (e - bmap) \<le> length mem" "unat k + (e - bmap) \<le> length d" using le assms(2) fits d(2) len by auto
        let ?bs = "take (e - bmap) (drop bmap mem)"
        have lb: "length ?bs = e - bmap" using cp(1) by simp
        then have d': "copy_tail d (unat k) mem bmap ?len = Some (write_bytes d (unat k) ?bs)"
          unfolding lenE using cp by (simp add: copy_tail_def mem_copy_def read_bytes_def store_bytes_def)
        have fit: "unat k + length ?bs \<le> length d" using cp(2) lb by simp
        obtain ls where ls: "name_at d 0 ls" "wire_len ls = unat k" using d(3) by blast
        have "name_at (write_bytes d (unat k) ?bs) 0 ls"
          using ls read_write_bytes(2) [OF fit, of 0 "wire_len ls"] by (simp add: name_at_iff)
        then have "rdata_ok kDNSType_NSEC (write_bytes d (unat k) ?bs)"
          using ls(2) k(2) by (auto simp: rdata_ok_def name_offsets_def type_lists valid_at_def)
        moreover have "storage_ok (rr\<lparr>rr_rdlength := ?n, rr_data := write_bytes d (unat k) ?bs\<rparr>)"
          using assms(1) small d(2) length_write_bytes [OF fit] by (simp add: storage_ok_def)
        ultimately have "setter_ok rr (Some (rr\<lparr>rr_rdlength := ?n, rr_data := write_bytes d (unat k) ?bs\<rparr>, True))"
          using assms(5) by (intro setter_ok_done) (simp_all add: same_header_def)
        then show ?thesis using nm(1) Some k w True small d(1) d' by (simp add: set_nsec_def Let_def)
      qed
    qed
  qed
qed

lemma set_rrsig_safe:
  assumes "storage_ok rr" "e < length mem" "e = p + unat n" "unat n \<le> 8192" "rr_rrtype rr = kDNSType_RRSIG"
  shows "setter_ok rr (set_rrsig True mem p e n rr)"
proof -
  note fail = setter_ok_fail [OF assms(1), of rr, simplified]
  have raw: "setter_ok rr (set_raw mem p n rr)"
    by (rule set_raw_safe [OF assms(1) _ assms(4)]) (use assms(2,3,5) in \<open>simp_all add: name_offsets_def type_lists\<close>)
  obtain nm r where nm: "fetch_local True mem (p + 18) e = Some (nm, r)"
    "\<forall>q. r = Some q \<longrightarrow> p + 18 < q \<and> q \<le> Suc e \<and> valid_name nm"
    by (rule fetch_local_safe [OF assms(2)])
  show ?thesis
  proof (cases r)
    case None
    then show ?thesis using nm(1) fail by (simp add: set_rrsig_def Let_def)
  next
    case (Some sig)
    then have "valid_name nm" using nm(2) by simp
    then obtain k where "DomainNameLength nm 0 = Some k" by (rule valid_name_length)
    then show ?thesis using nm(1) Some fail raw by (simp add: set_rrsig_def Let_def)
  qed
qed

section \<open>SetRData\<close>

lemma SetRData_safe:
  assumes "storage_ok rr" "e < length mem" "e = p + unat n" "unat n \<le> 8192"
    "rr_rrtype rr \<noteq> kDNSType_TKEY" "rr_rrtype rr \<noteq> kDNSType_TSIG"
  shows "setter_ok rr (SetRData True mem p e n rr)"
proof -
  let ?t = "rr_rrtype rr"
  note fail = setter_ok_fail [OF assms(1), of rr, simplified]
  note ok = rdata_ok_def name_offsets_def type_lists offsets
  have mem: "p + unat n \<le> length mem" "e \<le> length mem" using assms(2,3) by simp_all
  have pref: "setter_ok rr (do { rr \<leftarrow> set_preference mem p rr; f rr })"
    if "2 \<le> n" "\<And>d. storage_ok (rr\<lparr>rr_data := d\<rparr>) \<Longrightarrow> setter_ok (rr\<lparr>rr_data := d\<rparr>) (f (rr\<lparr>rr_data := d\<rparr>))" for f
  proof -
    have "p + 1 < length mem" using that(1) assms(2,3) by (simp add: word_le_nat_alt)
    then obtain d where d: "set_preference mem p rr = Some (rr\<lparr>rr_data := d\<rparr>)" "length d = 8192"
      by (rule set_preference_safe [OF assms(1)])
    then show ?thesis using setter_ok_data [OF that(2) [OF storage_ok_data [OF assms(1) d(2)]]] by simp
  qed
  consider (fixed) "?t = kDNSType_A \<or> ?t = kDNSType_AAAA" | (name) "?t \<in> set name_types" | (soa) "?t = kDNSType_SOA"
    | (mx) "?t \<in> set mx_types" | (rp) "?t \<in> set rp_types" | (px) "?t = kDNSType_PX" | (srv) "?t = kDNSType_SRV"
    | (naptr) "?t = kDNSType_NAPTR" | (opt) "?t = kDNSType_OPT" | (nsec) "?t = kDNSType_NSEC" | (rrsig) "?t = kDNSType_RRSIG"
    | (raw) "?t \<notin> set (name_types @ mx_types @ rp_types @ [kDNSType_A, kDNSType_AAAA, kDNSType_SOA, kDNSType_PX, kDNSType_SRV,
        kDNSType_NAPTR, kDNSType_OPT, kDNSType_NSEC, kDNSType_RRSIG])"
    by auto
  then show ?thesis
  proof cases
    case fixed
    then show ?thesis using set_fixed_safe [OF assms(1) mem(1), of 4] set_fixed_safe [OF assms(1) mem(1), of 16]
      by (auto simp: SetRData_def name_offsets_def type_lists)
  next
    case name
    then have "setter_ok rr (set_last_name True mem p e 0 rr)"
      by (intro set_last_name_safe [OF assms(1,2)]) (auto simp: ok)
    then show ?thesis using name by (auto simp: SetRData_def type_lists)
  next
    case soa
    then show ?thesis using set_soa_safe [OF assms(1,2) soa] by (simp add: SetRData_def type_lists)
  next
    case mx
    have "setter_ok (rr\<lparr>rr_data := d\<rparr>) (set_last_name True mem (p + 2) e off_mx_exchange (rr\<lparr>rr_data := d\<rparr>))"
      if "storage_ok (rr\<lparr>rr_data := d\<rparr>)" for d
      by (rule set_last_name_safe [OF that assms(2)]) (use mx in \<open>auto simp: ok\<close>)
    then have "setter_ok rr (do { rr \<leftarrow> set_preference mem p rr; set_last_name True mem (p + 2) e off_mx_exchange rr })"
      if "\<not> n < 3"
      using that by (intro pref) (auto simp: word_le_nat_alt word_less_nat_alt)
    then show ?thesis using mx fail by (auto simp: SetRData_def type_lists)
  next
    case rp
    then have "setter_ok rr (set_two_names True mem p e 0 off_rp_txt rr)"
      by (intro set_two_names_safe [OF assms(1,2)]) (auto simp: ok)
    then show ?thesis using rp by (auto simp: SetRData_def type_lists)
  next
    case px
    have "setter_ok (rr\<lparr>rr_data := d\<rparr>) (set_two_names True mem (p + 2) e off_px_map822 off_px_mapx400 (rr\<lparr>rr_data := d\<rparr>))"
      if "storage_ok (rr\<lparr>rr_data := d\<rparr>)" for d
      by (rule set_two_names_safe [OF that assms(2)]) (use px in \<open>auto simp: ok\<close>)
    then have "setter_ok rr (do { rr \<leftarrow> set_preference mem p rr; set_two_names True mem (p + 2) e off_px_map822 off_px_mapx400 rr })"
      if "\<not> n < 4"
      using that by (intro pref) (auto simp: word_le_nat_alt word_less_nat_alt)
    then show ?thesis using px fail by (auto simp: SetRData_def type_lists)
  next
    case srv
    then show ?thesis using set_srv_safe [OF assms(1-3) srv] by (simp add: SetRData_def type_lists)
  next
    case naptr
    then show ?thesis using set_naptr_safe [OF assms(1-4) naptr] by (simp add: SetRData_def type_lists)
  next
    case opt
    then show ?thesis using set_opt_safe [OF assms(1) mem(2) opt] by (simp add: SetRData_def type_lists)
  next
    case nsec
    then show ?thesis using set_nsec_safe [OF assms(1-4) nsec] by (simp add: SetRData_def type_lists)
  next
    case rrsig
    then show ?thesis using set_rrsig_safe [OF assms(1-4) rrsig] by (simp add: SetRData_def type_lists)
  next
    case raw
    then have "name_offsets ?t = []" by (simp add: name_offsets_def)
    then have "setter_ok rr (set_raw mem p n rr)" by (rule set_raw_safe [OF assms(1) mem(1) assms(4)])
    then show ?thesis using raw fail assms(5,6) by (simp add: SetRData_def Let_def)
  qed
qed

section \<open>GetLargeResourceRecord\<close>

text \<open>What is in the record after it was filled in from a message\<close>

definition received_ok :: "resource_record \<Rightarrow> bool" where
  "received_ok rr \<longleftrightarrow> valid_name (rr_name rr) \<and> DomainNameHashValue (rr_name rr) 0 = Some (rr_namehash rr)
     \<and> (rr_rrclass rr \<noteq> kDNSQClass_ANY \<longrightarrow> rdata_ok (rr_rrtype rr) (rr_data rr))"

lemma name_safe:
  assumes "e < length msg" "length arr = 256"
  obtains nm r where "getDomainName msg ptr e arr = Some (nm, r)" "length nm = 256"
    "\<forall>q. r = Some q \<longrightarrow> (\<forall>p. ptr = Some p \<longrightarrow> p < q) \<and> q \<le> Suc e \<and> valid_name nm"
proof (cases ptr)
  case (Some p)
  obtain nm r where "fetch_name True msg (Some p) e arr = Some (nm, r)" "length nm = 256"
    "\<forall>q. r = Some q \<longrightarrow> p < q \<and> q \<le> Suc e \<and> valid_name nm"
    by (rule fetch_name_safe [OF assms])
  then show thesis using Some by (intro that [of nm r]) (auto simp: fetch_name_def)
qed (use that [of arr None] assms(2) in \<open>auto simp: getDomainName_def\<close>)

lemma negative_record_ok:
  "length (rr_data rr) = 8192 \<Longrightarrow> length (rr_name rr) = 256 \<Longrightarrow> storage_ok (negative_record rr)"
  "rr_RecordType (negative_record rr) = 0xF0"
  by (simp_all add: negative_record_def storage_ok_def MaximumRDSize_def MAX_DOMAIN_NAME_def)

text \<open>The last part: the data at \<open>q\<close>, \<open>n\<close> bytes, of a record whose other fields are set\<close>

lemma receive_data:
  assumes "storage_ok rr" "rr_data rr ! 8191 = 0" "e < length msg" "q + unat n = e" "unat n \<le> MaximumRDSize"
    "rr_rrtype rr \<noteq> kDNSType_TKEY" "rr_rrtype rr \<noteq> kDNSType_TSIG"
    "valid_name (rr_name rr)" "DomainNameHashValue (rr_name rr) 0 = Some (rr_namehash rr)"
  shows "\<exists>rr'. (do {
      (rr, ok) \<leftarrow> (if rr_rrclass rr = kDNSQClass_ANY \<and> n = 0 then Some (rr\<lparr>rr_rdlength := 0\<rparr>, True)
         else SetRData True msg q e n rr);
      if \<not> ok then Some (negative_record rr, Some e)
      else do { rr \<leftarrow> SetNewRData rr None; Some (rr\<lparr>rr_RecordType := t\<rparr>, Some e) } }) = Some (rr', Some e)
    \<and> storage_ok rr' \<and> (rr_RecordType rr' = 0xF0 \<or> received_ok rr')"
proof (cases "rr_rrclass rr = kDNSQClass_ANY \<and> n = 0")
  case True
  let ?r = "rr\<lparr>rr_rdlength := 0\<rparr>"
  obtain n' k h where "SetNewRData ?r None = Some (?r\<lparr>rr_rdlength := n', rr_rdestimate := k, rr_rdatahash := h\<rparr>)"
    "storage_ok (?r\<lparr>rr_rdlength := n', rr_rdestimate := k, rr_rdatahash := h\<rparr>)"
    by (rule SetNewRData_empty [of ?r]) (use assms(1,2) True in \<open>auto simp: storage_ok_def\<close>)
  then show ?thesis using True assms(8,9) by (auto simp: storage_ok_def received_ok_def)
next
  case False
  have "setter_ok rr (SetRData True msg q e n rr)"
    by (rule SetRData_safe [OF assms(1,3) _ _ assms(6,7)]) (use assms(4,5) in \<open>simp_all add: MaximumRDSize_def\<close>)
  then obtain r1 ok where r1: "SetRData True msg q e n rr = Some (r1, ok)" "length (rr_data r1) = 8192" "same_header rr r1"
    "ok \<longrightarrow> storage_ok r1 \<and> rdata_ok (rr_rrtype rr) (rr_data r1)"
    unfolding setter_ok_def by blast
  show ?thesis
  proof (cases ok)
    case no: False
    have "storage_ok (negative_record r1)"
      by (rule negative_record_ok(1) [OF r1(2)]) (use assms(1) r1(3) in \<open>simp add: storage_ok_def same_header_def MAX_DOMAIN_NAME_def\<close>)
    then show ?thesis using False r1(1) no negative_record_ok(2) by auto
  next
    case yes: True
    have "data_ok r1" "valid_name (rr_name r1)" using r1(3,4) yes assms(8) by (auto simp: data_ok_def same_header_def)
    then obtain n' k h where "SetNewRData r1 None = Some (r1\<lparr>rr_rdlength := n', rr_rdestimate := k, rr_rdatahash := h\<rparr>)"
      "storage_ok (r1\<lparr>rr_rdlength := n', rr_rdestimate := k, rr_rdatahash := h\<rparr>)"
      by (rule SetNewRData_ok)
    then show ?thesis using False r1 yes assms(8,9) by (auto simp: storage_ok_def received_ok_def same_header_def)
  qed
qed

lemma GetLargeResourceRecord_ok:
  assumes st: "storage_ok rr" "rr_data rr ! 8191 = 0" and e: "e < length msg" "2 < length msg"
    and ty: "\<forall>nm p. getDomainName msg ptr e (rr_name rr) = Some (nm, Some p) \<longrightarrow>
      get_val16 msg p \<noteq> Some kDNSType_TKEY \<and> get_val16 msg p \<noteq> Some kDNSType_TSIG"
  shows "\<exists>rr' r. GetLargeResourceRecord msg ptr e iface t rr = Some (rr', r) \<and> storage_ok rr'
    \<and> (\<forall>q. r = Some q \<longrightarrow> q \<le> e \<and> (\<forall>p. ptr = Some p \<longrightarrow> p < q) \<and> (rr_RecordType rr' = 0xF0 \<or> received_ok rr'))"
proof -
  have "length (rr_name rr) = 256" using st(1) by (simp add: storage_ok_def MAX_DOMAIN_NAME_def)
  then obtain nm r where nm: "getDomainName msg ptr e (rr_name rr) = Some (nm, r)" "length nm = 256"
    "\<forall>q. r = Some q \<longrightarrow> (\<forall>p. ptr = Some p \<longrightarrow> p < q) \<and> q \<le> Suc e \<and> valid_name nm"
    by (rule name_safe [OF e(1)])
  let ?r0 = "rr\<lparr>rr_InterfaceID := iface, rr_resGroupID := None, rr_name := nm\<rparr>"
  show ?thesis
  proof (cases r)
    case None
    then show ?thesis using nm st(1) by (auto simp: GetLargeResourceRecord_def storage_ok_def MAX_DOMAIN_NAME_def)
  next
    case (Some p)
    then have p: "\<forall>p'. ptr = Some p' \<longrightarrow> p' < p" "valid_name nm" using nm(3) by auto
    then obtain h where h: "DomainNameHashValue nm 0 = Some h"
      using DomainNameHashValue_some unfolding valid_name_def by blast
    show ?thesis
    proof (cases "p + 10 > e")
      case True
      then show ?thesis using nm(1,2) Some h st(1) by (auto simp: GetLargeResourceRecord_def storage_ok_def MAX_DOMAIN_NAME_def)
    next
      case False
      then obtain c cl ttl n where v: "get_val16 msg p = Some c" "get_val16 msg (p + 2) = Some cl"
        "get_val32 msg (p + 4) = Some ttl" "get_val16 msg (p + 8) = Some n"
        using get_val16_some [of p msg] get_val16_some [of "p + 2" msg] get_val32_some [of "p + 4" msg] get_val16_some [of "p + 8" msg] e(1)
        by auto
      obtain f where f: "read_byte msg 2 = Some f" using read_byte_exists [OF e(2)] by blast
      let ?r = "?r0\<lparr>rr_namehash := h, rr_rrtype := c, rr_rrclass := cl AND 0x7FFF,
          rr_rroriginalttl := (if ttl \<noteq> - 1 then cap_time ttl else ttl)\<rparr>"
      let ?t = "if cl AND 0x8000 \<noteq> 0 \<or> (iface = 0 \<and> f AND 0x02 = 0) then t OR 0x10 else t"
      have r: "storage_ok ?r" "rr_data ?r ! 8191 = 0" "valid_name (rr_name ?r)"
        "DomainNameHashValue (rr_name ?r) 0 = Some (rr_namehash ?r)" "rr_rrtype ?r \<noteq> kDNSType_TKEY" "rr_rrtype ?r \<noteq> kDNSType_TSIG"
        using st nm(2) p(2) h ty nm(1) Some v(1) by (auto simp: storage_ok_def MAX_DOMAIN_NAME_def)
      show ?thesis
      proof (cases "p + 10 + unat n > e")
        case True
        then show ?thesis using nm(1) Some h \<open>\<not> p + 10 > e\<close> v f r(1) by (auto simp: GetLargeResourceRecord_def storage_ok_def Let_def)
      next
        case fits: False
        show ?thesis
        proof (cases "unat n > MaximumRDSize")
          case True
          have "storage_ok (negative_record ?r)"
            by (rule negative_record_ok(1)) (use r(1) in \<open>simp_all add: storage_ok_def MaximumRDSize_def MAX_DOMAIN_NAME_def\<close>)
          then show ?thesis using nm(1) Some h \<open>\<not> p + 10 > e\<close> v f fits True negative_record_ok(2) p(1)
            by (auto simp: GetLargeResourceRecord_def Let_def)
        next
          case small: False
          have "unat n \<le> MaximumRDSize" "p + 10 + unat n < length msg" using small fits e(1) by simp_all
          then obtain rr' where "(do {
              (rr, ok) \<leftarrow> (if rr_rrclass ?r = kDNSQClass_ANY \<and> n = 0 then Some (?r\<lparr>rr_rdlength := 0\<rparr>, True)
                 else SetRData True msg (p + 10) (p + 10 + unat n) n ?r);
              if \<not> ok then Some (negative_record rr, Some (p + 10 + unat n))
              else do { rr \<leftarrow> SetNewRData rr None; Some (rr\<lparr>rr_RecordType := ?t\<rparr>, Some (p + 10 + unat n)) } }) = Some (rr', Some (p + 10 + unat n))"
            "storage_ok rr'" "rr_RecordType rr' = 0xF0 \<or> received_ok rr'"
            using receive_data [OF r(1,2), of "p + 10 + unat n" msg "p + 10" n] r(3-6) by blast
          moreover have "GetLargeResourceRecord msg ptr e iface t rr = (do {
              (rr, ok) \<leftarrow> (if rr_rrclass ?r = kDNSQClass_ANY \<and> n = 0 then Some (?r\<lparr>rr_rdlength := 0\<rparr>, True)
                 else SetRData True msg (p + 10) (p + 10 + unat n) n ?r);
              if \<not> ok then Some (negative_record rr, Some (p + 10 + unat n))
              else do { rr \<leftarrow> SetNewRData rr None; Some (rr\<lparr>rr_RecordType := ?t\<rparr>, Some (p + 10 + unat n)) } })"
            using nm(1) Some h \<open>\<not> p + 10 > e\<close> v f fits small
            by (simp add: GetLargeResourceRecord_def Let_def del: disj_not1 split del: if_split)
          ultimately show ?thesis using fits p(1) by auto
        qed
      qed
    qed
  qed
qed

end
