(* ===== verification/Dns_Record_Claims.thy ===== *)
theory Dns_Record_Claims imports Dns_Set_Rdata Dns_Rdata_Props begin

text \<open>The properties of resource records, each with its instance on concrete data.\<close>

text \<open>A record whose storage is clear, and a message that holds one record: the root name, type A, four bytes\<close>

definition blank_record :: resource_record where
  "blank_record = \<lparr>rr_RecordType = 0, rr_rrtype = 0, rr_rrclass = 0, rr_rroriginalttl = 0, rr_rdlength = 0, rr_rdestimate = 0,
     rr_namehash = 0, rr_rdatahash = 0, rr_InterfaceID = 0, rr_name = replicate MAX_DOMAIN_NAME 0,
     rr_data = replicate MaximumRDSize 0, rr_opts = [], rr_resGroupID = None\<rparr>"

lemma blank_record_ok: "storage_ok blank_record" "rr_data blank_record ! 8191 = 0"
  by (simp_all add: blank_record_def storage_ok_def MaximumRDSize_def)

text \<open>A message with the address record of the root\<close>

definition address_message :: bytes where
  "address_message = [0, 0, 0x84, 0, 0, 0, 0, 1, 0, 0, 0, 0, 0, 0, 1, 0x80, 1, 0, 0, 0, 60, 0, 4, 192, 168, 0, 1, 0]"

text \<open>A message with a record of type TSIG and class ANY whose one byte of data is half a compression pointer\<close>

definition tsig_message :: bytes where
  "tsig_message = [0, 0, 0, 0, 0, 0, 0, 0, 0, 0, 0, 0, 0, 0, 250, 0, 1, 0, 0, 0, 0, 0, 1, 0xC0, 0]"

lemma tsig_bytes:
  "read_byte tsig_message 2 = Some 0" "read_byte tsig_message 12 = Some 0" "read_byte tsig_message 13 = Some 0"
  "read_byte tsig_message 14 = Some 250" "read_byte tsig_message 15 = Some 0" "read_byte tsig_message 16 = Some 1"
  "read_byte tsig_message 17 = Some 0" "read_byte tsig_message 18 = Some 0" "read_byte tsig_message 19 = Some 0"
  "read_byte tsig_message 20 = Some 0" "read_byte tsig_message 21 = Some 0" "read_byte tsig_message 22 = Some 1"
  "read_byte tsig_message 23 = Some 0xC0" "read_byte tsig_message 24 = Some 0" "read_byte tsig_message 0 = Some 0"
  by (simp_all add: tsig_message_def read_byte_def)

lemma tsig_vals:
  "get_val16 tsig_message 13 = Some 250" "get_val16 tsig_message 15 = Some 1" "get_val32 tsig_message 17 = Some 0"
  "get_val16 tsig_message 21 = Some 1"
  by (simp_all add: get_val16_def get_val32_def tsig_bytes)

text \<open>
  C12. \<open>GetLargeResourceRecord\<close> is safe on every message, hostile ones included.  Let the storage of the record be
  of full size with a zero last byte.  Unless the record is of type TSIG or TKEY, reading a record at any
  position terminates, accesses only memory of the message and of the record, and keeps the record in shape.
  If it returns a position then that lies behind the start and not behind the end of the message, and the record
  is either marked as negative or holds a legal name with its hash, and data in which every name is legal.
\<close>

theorem GetLargeResourceRecord_safe:
  assumes "storage_ok rr" "rr_data rr ! 8191 = 0" "e < length msg" "2 < length msg"
    "\<forall>nm p. getDomainName msg ptr e (rr_name rr) = Some (nm, Some p) \<longrightarrow>
      get_val16 msg p \<noteq> Some kDNSType_TKEY \<and> get_val16 msg p \<noteq> Some kDNSType_TSIG"
  shows "\<exists>rr' r. GetLargeResourceRecord msg ptr e iface t rr = Some (rr', r) \<and> storage_ok rr'
    \<and> (\<forall>q. r = Some q \<longrightarrow> q \<le> e \<and> (\<forall>p. ptr = Some p \<longrightarrow> p < q) \<and> (rr_RecordType rr' = 0xF0 \<or> received_ok rr'))"
  by (rule GetLargeResourceRecord_ok [OF assms])

theorem GetLargeResourceRecord_safe_witness:
  "\<exists>rr r. GetLargeResourceRecord address_message (Some 12) 27 0 0x80 blank_record = Some (rr, r) \<and> storage_ok rr
    \<and> (\<forall>q. r = Some q \<longrightarrow> q \<le> 27 \<and> (\<forall>p. Some 12 = Some p \<longrightarrow> p < q) \<and> (rr_RecordType rr = 0xF0 \<or> received_ok rr))"
proof (rule GetLargeResourceRecord_safe [OF blank_record_ok])
  have "getDomainName address_message (Some 12) 27 (rr_name blank_record) = Some ((rr_name blank_record)[0 := 0], Some 13)"
    using blank_record_ok(1)
    by (subst getDomainName_def, subst get_name_loop.simps)
      (simp add: set_byte_some read_byte_def address_message_def storage_ok_def MAX_DOMAIN_NAME_def)
  moreover have "get_val16 address_message 13 = Some 1" by (simp add: get_val16_def read_byte_def address_message_def)
  ultimately show "\<forall>nm p. getDomainName address_message (Some 12) 27 (rr_name blank_record) = Some (nm, Some p) \<longrightarrow>
      get_val16 address_message p \<noteq> Some kDNSType_TKEY \<and> get_val16 address_message p \<noteq> Some kDNSType_TSIG" by simp
qed (simp_all add: address_message_def)

text \<open>
  C13. \<open>SetRData\<close> does not check the length of the rest of TSIG and TKEY data.  In a message of 24 bytes the
  record has one byte of data, the first half of a compression pointer whose second half lies behind the
  message.  \<open>skipResourceRecord\<close> accepts the record, but \<open>GetLargeResourceRecord\<close> copies \<open>end - ptr = -1\<close>
  bytes, which is outside of any memory.
\<close>

theorem tsig_length_underflow:
  assumes "storage_ok rr"
  shows "skipResourceRecord tsig_message (Some 12) 24 = Some (Some 24)
    \<and> GetLargeResourceRecord tsig_message (Some 12) 24 iface t rr = None"
proof -
  have len: "length (rr_name rr) = 256" using assms by (simp add: storage_ok_def MAX_DOMAIN_NAME_def)
  then have nm: "getDomainName tsig_message (Some 12) 24 (rr_name rr) = Some ((rr_name rr)[0 := 0], Some 13)"
    by (subst getDomainName_def, subst get_name_loop.simps) (simp add: set_byte_some tsig_bytes)
  have h: "DomainNameHashValue ((rr_name rr)[0 := 0]) 0 = Some 0"
    using len by (simp add: DomainNameHashValue_def hash_name_loop.simps read_byte_def)
  have "name_at tsig_message 0 []" by (simp add: tsig_bytes)
  then have "decodes tsig_message 24 0 [] (Suc 0)" by (auto intro: dec_end)
  then have "decodes tsig_message 24 23 [] (Suc (Suc 23))"
    by (intro dec_ptr [where hi = "0xC0" and lo = 0 and t = 0]) (simp_all add: tsig_bytes pointer_offset_def)
  then obtain arr where "getDomainName tsig_message (Some 23) 24 (replicate MAX_DOMAIN_NAME 0) = Some (arr, Some (Suc (Suc 23)))" "name_at arr 0 []"
    by (rule getDomainName_complete [where arr = "replicate MAX_DOMAIN_NAME 0"]) (simp_all add: MAX_DOMAIN_NAME_def)
  then have "set_tsig True tsig_message 23 24 r = None" for r
    using DomainNameLength_name [of arr 0 "[]"]
    by (cases "AssignDomainName (rr_data r) 0 arr 0") (simp_all add: set_tsig_def fetch_local_def fetch_name_def copy_tail_def)
  then have "SetRData True tsig_message 23 24 1 r = None" if "rr_rrtype r = kDNSType_TSIG" for r
    using that by (simp add: SetRData_def type_lists)
  then have "GetLargeResourceRecord tsig_message (Some 12) 24 iface t rr = None"
    using nm h by (simp add: tsig_vals tsig_bytes GetLargeResourceRecord_def Let_def MaximumRDSize_def)
  moreover have "skipResourceRecord tsig_message (Some 12) 24 = Some (Some 24)"
    by (simp add: tsig_vals tsig_bytes skipResourceRecord_def skipDomainName_def skip_name_loop.simps)
  ultimately show ?thesis by simp
qed

theorem tsig_length_underflow_witness:
  "skipResourceRecord tsig_message (Some 12) 24 = Some (Some 24)
    \<and> GetLargeResourceRecord tsig_message (Some 12) 24 0 0x80 blank_record = None"
  using tsig_length_underflow [OF blank_record_ok(1)] by blast

text \<open>
  C14. Hash and comparison of record data fit together.  If \<open>SameRDataBody\<close> with \<open>SameDomainName\<close> finds two
  records of one type and length equal, names up to case, then \<open>RDataHashValue\<close> gives both the same hash,
  provided that the names in their data are legal.
\<close>

theorem SameRDataBody_hash_agree:
  assumes "SameRDataBody r1 (rr_data r2) SameDomainName = Some True"
    "rr_rrtype r2 = rr_rrtype r1" "rr_rdlength r2 = rr_rdlength r1"
    "rdata_ok (rr_rrtype r1) (rr_data r1)" "rdata_ok (rr_rrtype r1) (rr_data r2)"
  shows "RDataHashValue r1 = RDataHashValue r2"
  by (rule SameRDataBody_hash [OF assms])

definition alias_record :: "bytes \<Rightarrow> resource_record" where
  "alias_record d = blank_record\<lparr>rr_rrtype := kDNSType_CNAME, rr_rdlength := 3, rr_data := d\<rparr>"

theorem SameRDataBody_hash_agree_witness:
  "RDataHashValue (alias_record [1, 97, 0]) = RDataHashValue (alias_record [1, 65, 0])"
proof (rule SameRDataBody_hash_agree)
  have n: "name_at [1, 97, 0] 0 [[97]]" "name_at [1, 65, 0] 0 [[65]]" by (simp_all add: valid_label_def read_byte_def read_bytes_def)
  then show "SameRDataBody (alias_record [1, 97, 0]) (rr_data (alias_record [1, 65, 0])) SameDomainName = Some True"
    using SameDomainName_iff [OF n] by (simp add: SameRDataBody_def alias_record_def type_lists fold_case_def mDNSIsUpperCase_def)
  have "valid_at [1, 97, 0] 0" unfolding valid_at_def by (rule exI [of _ "[[97]]"]) (use n(1) in simp)
  moreover have "valid_at [1, 65, 0] 0" unfolding valid_at_def by (rule exI [of _ "[[65]]"]) (use n(2) in simp)
  ultimately show "rdata_ok (rr_rrtype (alias_record [1, 97, 0])) (rr_data (alias_record [1, 97, 0]))"
    "rdata_ok (rr_rrtype (alias_record [1, 97, 0])) (rr_data (alias_record [1, 65, 0]))"
    by (simp_all add: rdata_ok_def alias_record_def name_offsets_def type_lists)
qed (simp_all add: alias_record_def)

end
