(* ===== verification/Dnssd_Ipc.thy ===== *)
theory Dnssd_Ipc imports Prelude begin

text \<open>
  mDNSShared/dnssd_ipc.c: the fields of the messages between clients and the daemon.  A cursor into the message
  is an offset, or \<open>None\<close> for the NULL that a reader leaves behind after a failure; \<open>e\<close> is the offset of the
  end of the message.
\<close>

section \<open>Bytes of integers\<close>

definition be32 :: "u32 \<Rightarrow> bytes" where
  "be32 l = [ucast (drop_bit 24 l AND 0xFF), ucast (drop_bit 16 l AND 0xFF), ucast (drop_bit 8 l AND 0xFF), ucast (l AND 0xFF)]"

definition be16 :: "u16 \<Rightarrow> bytes" where
  "be16 s = [ucast (drop_bit 8 s AND 0xFF), ucast (s AND 0xFF)]"

definition store :: "bytes \<Rightarrow> nat \<Rightarrow> bytes \<Rightarrow> (bytes \<times> nat) option" where
  "store buf p bs = (if p + length bs \<le> length buf then Some (write_bytes buf p bs, p + length bs) else None)"

section \<open>Writers\<close>

definition put_uint32 :: "u32 \<Rightarrow> bytes \<Rightarrow> nat \<Rightarrow> (bytes \<times> nat) option" where
  "put_uint32 l buf p = store buf p (be32 l)"

definition put_uint16 :: "u16 \<Rightarrow> bytes \<Rightarrow> nat \<Rightarrow> (bytes \<times> nat) option" where
  "put_uint16 s buf p = store buf p (be16 s)"

text \<open>A string is its characters without the terminating NUL; NULL is written as the empty string.\<close>

definition put_string :: "bytes option \<Rightarrow> bytes \<Rightarrow> nat \<Rightarrow> (bytes \<times> nat) option" where
  "put_string str buf p = store buf p ((case str of None \<Rightarrow> [] | Some s \<Rightarrow> s) @ [0])"

definition put_rdata :: "nat \<Rightarrow> bytes \<Rightarrow> bytes \<Rightarrow> nat \<Rightarrow> (bytes \<times> nat) option" where
  "put_rdata rdlen rdata buf p = do { bs \<leftarrow> read_bytes rdata 0 rdlen; store buf p bs }"

section \<open>Readers\<close>

definition get_uint32 :: "bytes \<Rightarrow> nat option \<Rightarrow> nat \<Rightarrow> (nat option \<times> u32) option" where
  "get_uint32 buf ptr e =
     (case ptr of
        None \<Rightarrow> Some (None, 0)
      | Some p \<Rightarrow>
          if p + 4 > e then Some (None, 0)
          else do {
            a \<leftarrow> read_byte buf p;
            b \<leftarrow> read_byte buf (p + 1);
            c \<leftarrow> read_byte buf (p + 2);
            d \<leftarrow> read_byte buf (p + 3);
            Some (Some (p + 4), push_bit 24 (ucast a) OR push_bit 16 (ucast b) OR push_bit 8 (ucast c) OR ucast d)
          })"

definition get_uint16 :: "bytes \<Rightarrow> nat option \<Rightarrow> nat \<Rightarrow> (nat option \<times> u16) option" where
  "get_uint16 buf ptr e =
     (case ptr of
        None \<Rightarrow> Some (None, 0)
      | Some p \<Rightarrow>
          if p + 2 > e then Some (None, 0)
          else do {
            a \<leftarrow> read_byte buf p;
            b \<leftarrow> read_byte buf (p + 1);
            Some (Some (p + 2), push_bit 8 (ucast a) OR ucast b)
          })"

text \<open>\<open>buffer\<close> is the memory of the caller, \<open>lim\<close> the length it is said to have, \<open>i\<close> the position in it.\<close>

definition poke :: "bytes \<Rightarrow> nat \<Rightarrow> u8 \<Rightarrow> bytes option" where
  "poke buffer i c = (if i < length buffer then Some (buffer[i := c]) else None)"

definition string_failed :: "bytes \<Rightarrow> nat \<Rightarrow> nat \<Rightarrow> (bytes \<times> nat option \<times> int) option" where
  "string_failed buffer i lim =
     (if i = lim then
        if i = 0 then None else do { buffer \<leftarrow> poke buffer (i - 1) 0; Some (buffer, None, - 1) }
      else do { buffer \<leftarrow> poke buffer i 0; Some (buffer, None, - 1) })"

function get_string_loop :: "bytes \<Rightarrow> nat \<Rightarrow> nat \<Rightarrow> bytes \<Rightarrow> nat \<Rightarrow> nat \<Rightarrow> (bytes \<times> nat option \<times> int) option" where
  "get_string_loop buf p e buffer i lim =
     (if p < e \<and> i < lim then
        (case read_byte buf p of None \<Rightarrow> None | Some c \<Rightarrow>
          (case poke buffer i c of None \<Rightarrow> None | Some buffer \<Rightarrow>
             if c = 0 then Some (buffer, Some (p + 1), 0)
             else get_string_loop buf (p + 1) e buffer (i + 1) lim))
      else string_failed buffer i lim)"
  by pat_completeness auto

termination get_string_loop
  by (relation "measure (\<lambda>(buf, p, e, buffer, i, lim). e - p)") auto

declare get_string_loop.simps [simp del]

definition get_string :: "bytes \<Rightarrow> nat option \<Rightarrow> nat \<Rightarrow> bytes \<Rightarrow> nat \<Rightarrow> (bytes \<times> nat option \<times> int) option" where
  "get_string buf ptr e buffer buflen =
     (case ptr of
        None \<Rightarrow> do { buffer \<leftarrow> poke buffer 0 0; Some (buffer, None, - 1) }
      | Some p \<Rightarrow> get_string_loop buf p e buffer 0 buflen)"

text \<open>The result is the offset of the data, or NULL.\<close>

definition get_rdata :: "nat option \<Rightarrow> nat \<Rightarrow> int \<Rightarrow> nat option \<times> nat option" where
  "get_rdata ptr e rdlen =
     (case ptr of
        None \<Rightarrow> (None, None)
      | Some p \<Rightarrow> if int p + rdlen > int e then (None, None) else (Some (nat (int p + rdlen)), Some p))"

section \<open>Headers\<close>

record ipc_msg_hdr =
  hdr_version :: u32
  hdr_datalen :: u32
  hdr_ipc_flags :: u32
  hdr_op :: u32
  hdr_client_context :: bytes
  hdr_reg_index :: u32

text \<open>On a little-endian machine\<close>

definition htonl :: "u32 \<Rightarrow> u32" where
  "htonl x = push_bit 24 (x AND 0xFF) OR push_bit 8 (x AND 0xFF00) OR (drop_bit 8 x AND 0xFF00) OR drop_bit 24 x"

definition ConvertHeaderBytes :: "ipc_msg_hdr \<Rightarrow> ipc_msg_hdr" where
  "ConvertHeaderBytes h = h\<lparr>hdr_version := htonl (hdr_version h), hdr_datalen := htonl (hdr_datalen h),
     hdr_ipc_flags := htonl (hdr_ipc_flags h), hdr_op := htonl (hdr_op h), hdr_reg_index := htonl (hdr_reg_index h)\<rparr>"

end
