(* ===== verification/Dnssd_Ipc_Claims.thy ===== *)
theory Dnssd_Ipc_Claims imports Dnssd_Ipc begin

text \<open>
  Messages between clients and the daemon: sequences of fields, written and read back.
\<close>

section \<open>Fields\<close>

datatype ipc_field = Field32 u32 | Field16 u16 | FieldString bytes | FieldData bytes

text \<open>What a reader asks for: a string for a buffer of some length, data of some length\<close>

datatype ipc_kind = Kind32 | Kind16 | KindString nat | KindData nat

fun field_bytes :: "ipc_field \<Rightarrow> bytes" where
  "field_bytes (Field32 l) = be32 l"
| "field_bytes (Field16 s) = be16 s"
| "field_bytes (FieldString s) = s @ [0]"
| "field_bytes (FieldData d) = d"

fun put_field :: "ipc_field \<Rightarrow> bytes \<Rightarrow> nat \<Rightarrow> (bytes \<times> nat) option" where
  "put_field (Field32 l) buf p = put_uint32 l buf p"
| "put_field (Field16 s) buf p = put_uint16 s buf p"
| "put_field (FieldString s) buf p = put_string (Some s) buf p"
| "put_field (FieldData d) buf p = put_rdata (length d) d buf p"

fun put_fields :: "ipc_field list \<Rightarrow> bytes \<Rightarrow> nat \<Rightarrow> (bytes \<times> nat) option" where
  "put_fields [] buf p = Some (buf, p)"
| "put_fields (f # fs) buf p = do { (buf, p) \<leftarrow> put_field f buf p; put_fields fs buf p }"

fun get_field :: "ipc_kind \<Rightarrow> bytes \<Rightarrow> nat option \<Rightarrow> nat \<Rightarrow> (nat option \<times> ipc_field option) option" where
  "get_field Kind32 buf ptr e = do {
     (r, v) \<leftarrow> get_uint32 buf ptr e; Some (r, map_option (\<lambda>p. Field32 v) r) }"
| "get_field Kind16 buf ptr e = do {
     (r, v) \<leftarrow> get_uint16 buf ptr e; Some (r, map_option (\<lambda>p. Field16 v) r) }"
| "get_field (KindString n) buf ptr e = do {
     (s, r, err) \<leftarrow> get_string buf ptr e (replicate n 0) n;
     Some (r, if err = 0 then Some (FieldString (takeWhile (\<lambda>c. c \<noteq> 0) s)) else None) }"
| "get_field (KindData n) buf ptr e =
     (case get_rdata ptr e (int n) of
        (r, None) \<Rightarrow> Some (r, None)
      | (r, Some i) \<Rightarrow> do { bs \<leftarrow> read_bytes buf i n; Some (r, Some (FieldData bs)) })"

fun get_fields :: "ipc_kind list \<Rightarrow> bytes \<Rightarrow> nat option \<Rightarrow> nat \<Rightarrow> (nat option \<times> ipc_field option list) option" where
  "get_fields [] buf ptr e = Some (ptr, [])"
| "get_fields (k # ks) buf ptr e = do {
     (ptr, f) \<leftarrow> get_field k buf ptr e;
     (ptr, fs) \<leftarrow> get_fields ks buf ptr e;
     Some (ptr, f # fs) }"

text \<open>The request fits the field: a string has no NUL inside and leaves room for its own.\<close>

fun asks_for :: "ipc_kind \<Rightarrow> ipc_field \<Rightarrow> bool" where
  "asks_for Kind32 (Field32 l) = True"
| "asks_for Kind16 (Field16 s) = True"
| "asks_for (KindString n) (FieldString s) = (0 \<notin> set s \<and> length s < n)"
| "asks_for (KindData n) (FieldData d) = (n = length d)"
| "asks_for k f = False"

section \<open>Reading what stands in a message\<close>

text \<open>\<open>bs\<close> stands at \<open>p\<close>, as far as the message goes\<close>

definition stands :: "bytes \<Rightarrow> nat \<Rightarrow> nat \<Rightarrow> bytes \<Rightarrow> bool" where
  "stands buf p e bs \<longleftrightarrow> (\<forall>i < length bs. p + i < e \<longrightarrow> buf ! (p + i) = bs ! i)"

lemma stands_append: "stands buf p e (xs @ ys) \<longleftrightarrow> stands buf p e xs \<and> stands buf (p + length xs) e ys"
proof
  assume a: "stands buf p e (xs @ ys)"
  have "buf ! (p + i) = xs ! i" if "i < length xs" "p + i < e" for i
    using a that by (auto simp: stands_def nth_append dest: spec [of _ i])
  moreover have "buf ! (p + length xs + i) = ys ! i" if "i < length ys" "p + length xs + i < e" for i
    using a that by (auto simp: stands_def nth_append add.assoc dest: spec [of _ "length xs + i"])
  ultimately show "stands buf p e xs \<and> stands buf (p + length xs) e ys" by (simp add: stands_def)
next
  assume a: "stands buf p e xs \<and> stands buf (p + length xs) e ys"
  have "buf ! (p + i) = (xs @ ys) ! i" if "i < length (xs @ ys)" "p + i < e" for i
  proof (cases "i < length xs")
    case True
    then show ?thesis using a that by (simp add: stands_def nth_append)
  next
    case False
    then obtain j where "i = length xs + j" by (metis le_Suc_ex not_less)
    then show ?thesis using a that by (simp add: stands_def nth_append add.assoc)
  qed
  then show "stands buf p e (xs @ ys)" by (simp add: stands_def)
qed

lemma stands_Cons: "stands buf p e (x # xs) \<longleftrightarrow> (p < e \<longrightarrow> buf ! p = x) \<and> stands buf (Suc p) e xs"
  using stands_append [of buf p e "[x]" xs] by (auto simp: stands_def)

lemma stands_Nil [simp]: "stands buf p e []"
  by (simp add: stands_def)

lemma stands_read: "stands buf p e bs \<Longrightarrow> p + length bs \<le> e \<Longrightarrow> e \<le> length buf \<Longrightarrow> read_bytes buf p (length bs) = Some bs"
  by (auto simp: read_bytes_def stands_def intro: nth_equalityI)

lemma be32_bytes:
  "push_bit 24 (ucast (ucast (drop_bit 24 l AND 0xFF) :: u8)) OR push_bit 16 (ucast (ucast (drop_bit 16 l AND 0xFF) :: u8))
    OR push_bit 8 (ucast (ucast (drop_bit 8 l AND 0xFF) :: u8)) OR ucast (ucast (l AND 0xFF) :: u8) = (l :: u32)"
proof -
  have m: "(0xFF :: u32) = mask 8" by (simp add: mask_eq_exp_minus_1)
  show ?thesis unfolding m
  proof (rule bit_word_eqI)
    fix n assume "n < LENGTH(32)"
    then consider "n < 8" | "8 \<le> n" "n < 16" | "16 \<le> n" "n < 24" | "24 \<le> n" "n < 32" by fastforce
    then show "bit (push_bit 24 (ucast (ucast (drop_bit 24 l AND mask 8) :: u8)) OR push_bit 16 (ucast (ucast (drop_bit 16 l AND mask 8) :: u8))
      OR push_bit 8 (ucast (ucast (drop_bit 8 l AND mask 8) :: u8)) OR ucast (ucast (l AND mask 8) :: u8) :: u32) n = bit l n"
      by cases (auto simp: bit_simps)
  qed
qed

lemma be16_bytes:
  "push_bit 8 (ucast (ucast (drop_bit 8 s AND 0xFF) :: u8)) OR ucast (ucast (s AND 0xFF) :: u8) = (s :: u16)"
proof -
  have m: "(0xFF :: u16) = mask 8" by (simp add: mask_eq_exp_minus_1)
  show ?thesis unfolding m by (rule bit_word_eqI) (auto simp: bit_simps)
qed

lemma get_uint32_stands:
  assumes "stands buf p e (be32 l)" "e \<le> length buf"
  shows "get_uint32 buf (Some p) e = Some (if p + 4 \<le> e then (Some (p + 4), l) else (None, 0))"
  using assms be32_bytes [of l] by (auto simp: get_uint32_def be32_def stands_Cons read_byte_def numeral_eq_Suc)

lemma get_uint16_stands:
  assumes "stands buf p e (be16 l)" "e \<le> length buf"
  shows "get_uint16 buf (Some p) e = Some (if p + 2 \<le> e then (Some (p + 2), l) else (None, 0))"
  using assms be16_bytes [of l] by (auto simp: get_uint16_def be16_def stands_Cons read_byte_def numeral_eq_Suc)

lemma get_rdata_stands:
  "get_rdata (Some p) e (int n) = (if p + n \<le> e then (Some (p + n), Some p) else (None, None))"
  by (auto simp: get_rdata_def nat_int_add)

text \<open>A string is copied with its NUL, unless the message or the buffer ends before that.\<close>

lemma get_string_loop_stands:
  assumes "stands buf p e (s @ [0])" "0 \<notin> set s" "i + length s < lim" "e \<le> length buf" "length b = lim"
  shows "get_string_loop buf p e b i lim =
    (if p + length s < e then Some (write_bytes b i (s @ [0]), Some (p + length s + 1), 0)
     else Some (write_bytes b i (take (e - p) s @ [0]), None, - 1))"
  using assms
proof (induction s arbitrary: p i b)
  case Nil
  then show ?case
    by (subst get_string_loop.simps)
      (simp add: stands_Cons read_byte_def poke_def string_failed_def write_bytes_def upd_conv_take_nth_drop)
next
  case (Cons c s)
  show ?case
  proof (cases "p < e")
    case True
    have "get_string_loop buf (Suc p) e (b[i := c]) (Suc i) lim =
      (if Suc p + length s < e then Some (write_bytes (b[i := c]) (Suc i) (s @ [0]), Some (Suc p + length s + 1), 0)
       else Some (write_bytes (b[i := c]) (Suc i) (take (e - Suc p) s @ [0]), None, - 1))"
      by (rule Cons.IH) (use Cons.prems in \<open>simp_all add: stands_Cons\<close>)
    moreover have "write_bytes (b[i := c]) (Suc i) (xs @ [0]) = write_bytes b i (c # xs @ [0])" if "length xs \<le> length s" for xs
      using Cons.prems that by (simp add: write_bytes_def upd_conv_take_nth_drop take_Suc_conv_app_nth min_def add.commute)
    moreover have "take (e - p) (c # s) = c # take (e - Suc p) s" using True by (simp add: Suc_diff_Suc take_Cons')
    ultimately show ?thesis using True Cons.prems
      by (subst get_string_loop.simps) (simp add: stands_Cons read_byte_def poke_def)
  next
    case False
    then show ?thesis using Cons.prems
      by (subst get_string_loop.simps) (simp add: string_failed_def poke_def write_bytes_def upd_conv_take_nth_drop)
  qed
qed

lemma get_field_stands:
  assumes "stands buf p e (field_bytes f)" "asks_for k f" "e \<le> length buf"
  shows "get_field k buf (Some p) e =
    Some (if p + length (field_bytes f) \<le> e then (Some (p + length (field_bytes f)), Some f) else (None, None))"
proof (cases f)
  case (Field32 l)
  then show ?thesis using assms get_uint32_stands [of buf p e l] by (cases k) (auto simp: be32_def)
next
  case (Field16 l)
  then show ?thesis using assms get_uint16_stands [of buf p e l] by (cases k) (auto simp: be16_def)
next
  case (FieldString s)
  then obtain n where k: "k = KindString n" "0 \<notin> set s" "length s < n" using assms(2) by (cases k) auto
  have "takeWhile (\<lambda>c. c \<noteq> 0) (s @ 0 # xs) = s" for xs using k(2) by (subst takeWhile_append2) auto
  then show ?thesis using k FieldString assms get_string_loop_stands [of buf p e s 0 n "replicate n 0"]
    by (auto simp: get_string_def write_bytes_def)
next
  case (FieldData d)
  then show ?thesis using assms stands_read [of buf p e d] get_rdata_stands [of p e "length d"] by (cases k) auto
qed

section \<open>Sequences of fields\<close>

definition fields_bytes :: "ipc_field list \<Rightarrow> bytes" where
  "fields_bytes fs = concat (map field_bytes fs)"

lemma put_field_store: "put_field f buf p = store buf p (field_bytes f)"
  by (cases f) (simp_all add: put_uint32_def put_uint16_def put_string_def put_rdata_def read_bytes_def)

lemma put_fields_write:
  "put_fields fs buf p = Some (buf', q) \<Longrightarrow>
    q = p + length (fields_bytes fs) \<and> buf' = write_bytes buf p (fields_bytes fs) \<and> (fs = [] \<or> q \<le> length buf)"
proof (induction fs arbitrary: buf p)
  case Nil
  then show ?case by (simp add: fields_bytes_def write_bytes_def)
next
  case (Cons f fs)
  let ?b = "field_bytes f"
  have a: "p + length ?b \<le> length buf" "put_fields fs (write_bytes buf p ?b) (p + length ?b) = Some (buf', q)"
    using Cons.prems by (auto simp: put_field_store store_def split: if_splits)
  then have "q = p + length ?b + length (fields_bytes fs)"
    "buf' = write_bytes (write_bytes buf p ?b) (p + length ?b) (fields_bytes fs)" "fs = [] \<or> q \<le> length (write_bytes buf p ?b)"
    using Cons.IH by blast+
  then show ?case using a(1) by (auto simp: fields_bytes_def write_bytes_def ac_simps)
qed

lemma get_fields_null: "list_all2 asks_for ks fs \<Longrightarrow> get_fields ks buf None e = Some (None, replicate (length fs) None)"
proof (induction ks fs rule: list_all2_induct)
  case (Cons k ks f fs)
  have "get_field k buf None e = Some (None, None)"
    using Cons.hyps(1) by (cases k; cases f)
      (auto simp: get_uint32_def get_uint16_def get_rdata_def get_string_def poke_def)
  then show ?case using Cons.IH by simp
qed simp

fun whole_fields :: "nat \<Rightarrow> nat \<Rightarrow> ipc_field list \<Rightarrow> ipc_field option list" where
  "whole_fields p e [] = []"
| "whole_fields p e (f # fs) =
     (if p + length (field_bytes f) \<le> e then Some f # whole_fields (p + length (field_bytes f)) e fs
      else replicate (Suc (length fs)) None)"

lemma get_fields_stands:
  "list_all2 asks_for ks fs \<Longrightarrow> stands buf p e (fields_bytes fs) \<Longrightarrow> e \<le> length buf \<Longrightarrow> p \<le> e \<Longrightarrow>
    get_fields ks buf (Some p) e =
      Some (if p + length (fields_bytes fs) \<le> e then Some (p + length (fields_bytes fs)) else None, whole_fields p e fs)"
proof (induction ks fs arbitrary: p rule: list_all2_induct)
  case Nil
  then show ?case by (simp add: fields_bytes_def)
next
  case (Cons k ks f fs)
  have s: "stands buf p e (field_bytes f)" "stands buf (p + length (field_bytes f)) e (fields_bytes fs)"
    using Cons.prems(1) by (simp_all add: fields_bytes_def stands_append)
  show ?case
  proof (cases "p + length (field_bytes f) \<le> e")
    case True
    then show ?thesis using get_field_stands [OF s(1) Cons.hyps(1) Cons.prems(2)] Cons.IH [OF s(2) Cons.prems(2)]
      by (simp add: fields_bytes_def add.assoc)
  next
    case False
    then show ?thesis using get_field_stands [OF s(1) Cons.hyps(1) Cons.prems(2)] get_fields_null [OF Cons.hyps(2)]
      by (simp add: fields_bytes_def)
  qed
qed

lemma whole_fields_all: "p + length (fields_bytes fs) \<le> e \<Longrightarrow> whole_fields p e fs = map Some fs"
  by (induction fs arbitrary: p) (simp_all add: fields_bytes_def)

lemma written_stands:
  assumes "p + length bs \<le> length buf" "e \<le> length buf"
  shows "stands (take e (write_bytes buf p bs)) p e bs"
  using assms by (auto simp: stands_def write_bytes_def nth_append)

section \<open>Properties\<close>

text \<open>
  C15. Messages between a client and the daemon arrive as they were sent, or not at all.  Let any sequence of
  integers, strings without NUL and data be put into a buffer from \<open>p\<close> on, up to \<open>q\<close>, and let the message be cut
  short at \<open>e\<close>.  Getting the fields back touches no memory behind \<open>e\<close>.  Every field that is whole has the value
  put; from the first one that is cut, every getter fails and the cursor ends NULL.  The cursor ends at \<open>q\<close>
  exactly when nothing is missing.
\<close>

theorem ipc_fields_roundtrip:
  assumes "put_fields fs buf p = Some (buf', q)" "list_all2 asks_for ks fs" "p \<le> e" "e \<le> length buf"
  shows "get_fields ks (take e buf') (Some p) e = Some (if q \<le> e then Some q else None, whole_fields p e fs)
    \<and> (q \<le> e \<longrightarrow> whole_fields p e fs = map Some fs)"
proof -
  have w: "q = p + length (fields_bytes fs)" "buf' = write_bytes buf p (fields_bytes fs)" "fs = [] \<or> q \<le> length buf"
    using put_fields_write [OF assms(1)] by blast+
  have "p + length (fields_bytes fs) \<le> length buf" using w assms(3,4) by (auto simp: fields_bytes_def)
  then have "stands (take e buf') p e (fields_bytes fs)" "length buf' = length buf"
    using assms(4) written_stands [of p "fields_bytes fs" buf e] by (simp_all add: w(2) length_write_bytes)
  then show ?thesis using get_fields_stands [OF assms(2), of "take e buf'" p e] assms(3,4) w(1)
    by (simp add: whole_fields_all)
qed

theorem ipc_fields_roundtrip_witness:
  "get_fields [KindString 8, Kind16] (take 4 [97, 98, 0, 1, 2]) (Some 0) 4 = Some (None, [Some (FieldString [97, 98]), None])
   \<and> get_fields [KindString 8, Kind16] [97, 98, 0, 1, 2] (Some 0) 5 = Some (Some 5, [Some (FieldString [97, 98]), Some (Field16 0x102)])"
proof -
  have p: "put_fields [FieldString [97, 98], Field16 0x102] [9, 9, 9, 9, 9] 0 = Some ([97, 98, 0, 1, 2], 5)"
    by (simp add: put_string_def put_uint16_def store_def write_bytes_def be16_def)
  show ?thesis using ipc_fields_roundtrip [OF p, of "[KindString 8, Kind16]" 4] ipc_fields_roundtrip [OF p, of "[KindString 8, Kind16]" 5]
    by (simp add: be16_def)
qed

text \<open>What \<open>get_string\<close> leaves in a buffer of \<open>lim\<close> bytes\<close>

definition got_string :: "nat \<Rightarrow> nat \<Rightarrow> bytes \<Rightarrow> bytes \<times> nat option \<times> int \<Rightarrow> bool" where
  "got_string e lim b x \<longleftrightarrow> (case x of (b', r, err) \<Rightarrow>
     length b' = length b \<and> drop lim b' = drop lim b \<and> 0 \<in> set (take lim b')
     \<and> (case r of None \<Rightarrow> err = - 1 | Some q \<Rightarrow> err = 0 \<and> q \<le> e))"

lemma get_string_loop_bound:
  assumes "e \<le> length buf" "i \<le> lim" "0 < lim" "lim \<le> length b"
  shows "\<exists>x. get_string_loop buf p e b i lim = Some x \<and> got_string e lim b x"
  using assms
proof (induction buf p e b i lim rule: get_string_loop.induct)
  case (1 buf p e b i lim)
  have zero: "0 \<in> set (take lim (b[j := 0]))" if "j < lim" for j
    using that 1(5) by (simp add: take_update_swap set_update_memI)
  show ?case
  proof (cases "p < e \<and> i < lim")
    case True
    then have c: "read_byte buf p = Some (buf ! p)" "poke b i (buf ! p) = Some (b[i := buf ! p])"
      using 1(2-5) by (simp_all add: read_byte_def poke_def)
    show ?thesis
    proof (cases "buf ! p = 0")
      case True
      then show ?thesis using c \<open>p < e \<and> i < lim\<close> zero [of i] by (subst get_string_loop.simps) (simp add: got_string_def)
    next
      case False
      have "\<exists>x. get_string_loop buf (p + 1) e (b[i := buf ! p]) (i + 1) lim = Some x \<and> got_string e lim (b[i := buf ! p]) x"
        by (rule 1(1) [OF True c False]) (use 1(2-5) True in auto)
      then show ?thesis using c True False by (subst get_string_loop.simps) (auto simp: got_string_def)
    qed
  next
    case False
    then show ?thesis using 1(2-5) zero [of i] zero [of "lim - 1"]
      by (subst get_string_loop.simps) (auto simp: string_failed_def poke_def got_string_def)
  qed
qed

text \<open>
   \<open>get_string\<close> is safe on every message: with a buffer of at least one byte it terminates, reads no byte
  behind the end, writes no byte behind the buffer and leaves a NUL in it.  It returns 0 with a cursor that is
  not behind the end, or -1 with the NULL cursor.  For a buffer of length 0 it writes before the buffer.
\<close>

theorem get_string_bounds:
  assumes "e \<le> length buf" "lim \<le> length b"
  shows "if 0 < lim then \<exists>x. get_string buf ptr e b lim = Some x \<and> got_string e lim b x
    else ptr \<noteq> None \<longrightarrow> get_string buf ptr e b lim = None"
proof (cases "0 < lim")
  case True
  have "0 \<in> set (take lim (b[0 := 0]))" using assms True by (simp add: take_update_swap set_update_memI)
  moreover have "b \<noteq> []" using assms True by auto
  moreover have "\<exists>x. get_string_loop buf p e b 0 lim = Some x \<and> got_string e lim b x" for p
    by (rule get_string_loop_bound) (use assms True in auto)
  ultimately show ?thesis using True assms \<open>b \<noteq> []\<close> by (cases ptr) (simp_all add: get_string_def poke_def got_string_def)
next
  case False
  then show ?thesis by (cases ptr) (simp_all add: get_string_def get_string_loop.simps string_failed_def)
qed

theorem get_string_bounds_witness:
  "\<exists>x. get_string [97, 98, 99] (Some 0) 3 [7, 7, 7, 7] 2 = Some x \<and> got_string 3 2 [7, 7, 7, 7] x"
  using get_string_bounds [of 3 "[97, 98, 99]" 2 "[7, 7, 7, 7]" "Some 0"] by simp

text \<open>
   The header of a message is converted by the same function on both sides: \<open>ConvertHeaderBytes\<close> is its own
  inverse, keeps the client's context, and puts every integer into network order.
\<close>

theorem ConvertHeaderBytes_inverse:
  "ConvertHeaderBytes (ConvertHeaderBytes h) = h \<and> hdr_client_context (ConvertHeaderBytes h) = hdr_client_context h
   \<and> be32 (hdr_op h) = rev (be32 (hdr_op (ConvertHeaderBytes h)))"
proof -
  have m: "(0xFF :: u32) = mask 8" "(0xFF00 :: u32) = push_bit 8 (mask 8)" by (simp_all add: mask_eq_exp_minus_1 push_bit_eq_mult)
  have b: "bit (htonl x) n \<longleftrightarrow> n < 32 \<and> bit x (if n < 8 then 24 + n else if n < 16 then 8 + n else if n < 24 then n - 8 else n - 24)" for x n
    unfolding htonl_def m by (auto simp: bit_simps dest: bit_imp_le_length)
  have inv: "htonl (htonl x) = x" for x by (rule bit_word_eqI) (auto simp: b)
  have sw: "be32 x = rev (be32 (htonl x))" for x
  proof -
    have swapped: "ucast (drop_bit k x AND mask 8) = (ucast (drop_bit j (htonl x) AND mask 8) :: u8)"
      if "k \<in> {0, 8, 16, 24}" "k + j = 24" for k j
    proof (rule bit_word_eqI)
      fix n assume "n < LENGTH(8)"
      then show "bit (ucast (drop_bit k x AND mask 8) :: u8) n \<longleftrightarrow> bit (ucast (drop_bit j (htonl x) AND mask 8) :: u8) n"
        using that by (auto simp: bit_ucast_iff bit_and_iff bit_drop_bit_eq bit_mask_iff b)
    qed
    have bytes: "be32 y = map (\<lambda>k. ucast (drop_bit k y AND mask 8)) [24, 16, 8, 0]" for y
      unfolding be32_def m(1) by simp
    have "be32 x = map (\<lambda>k. ucast (drop_bit k (htonl x) AND mask 8)) (map ((-) 24) [24, 16, 8, 0])"
      unfolding bytes map_map by (rule map_cong [OF refl]) (unfold comp_def, rule swapped; force)
    also have "map ((-) 24) [24, 16, 8, 0] = rev [24, 16, 8, 0 :: nat]" by simp
    finally show ?thesis unfolding bytes rev_map .
  qed
  show ?thesis using sw [of "hdr_op h"] by (simp add: ConvertHeaderBytes_def inv)
qed

end
