(* ===== verification/Dnssd_Txt.thy ===== *)
theory Dnssd_Txt imports Prelude begin

text \<open>
  mDNSShared/dnssd_clientlib.c: names of services and text records.  A C string is the list of its characters
  without the terminating NUL; reading that NUL gives 0, reading further is undefined.  A text record is a
  sequence of items, each a length byte and that many bytes.
\<close>

section \<open>Errors\<close>

datatype dns_error = NoError | NoMemory | BadParam | Invalid | NoSuchKey

section \<open>Full names\<close>

definition char_at :: "bytes \<Rightarrow> nat \<Rightarrow> u8 option" where
  "char_at s i = (if i < length s then Some (s ! i) else if i = length s then Some 0 else None)"

definition is_digit :: "u8 \<Rightarrow> bool" where
  "is_digit c \<longleftrightarrow> 0x30 \<le> c \<and> c \<le> 0x39"

text \<open>Conditions of \<open>&&\<close> are read from left to right, as far as needed.\<close>

definition digit_at :: "bytes \<Rightarrow> nat \<Rightarrow> bool option" where
  "digit_at s i = map_option is_digit (char_at s i)"

definition three_digits :: "bytes \<Rightarrow> nat \<Rightarrow> bool option" where
  "three_digits s i = do {
     a \<leftarrow> digit_at s i;
     if \<not> a then Some False
     else do {
       b \<leftarrow> digit_at s (i + 1);
       if \<not> b then Some False else digit_at s (i + 2)
     }
   }"

function ends_in_dot_loop :: "bytes \<Rightarrow> nat \<Rightarrow> bool option" where
  "ends_in_dot_loop str i =
     (case char_at str i of None \<Rightarrow> None | Some c0 \<Rightarrow>
        if c0 = 0 then Some False
        else
          (case char_at str (i + 1) of None \<Rightarrow> None | Some c1 \<Rightarrow>
             if c1 = 0 then Some (c0 = 0x2E)
             else if c0 = 0x5C then
               (case three_digits str (i + 1) of None \<Rightarrow> None | Some ddd \<Rightarrow>
                  if ddd then ends_in_dot_loop str (i + 4) else ends_in_dot_loop str (i + 2))
             else ends_in_dot_loop str (i + 1)))"
  by pat_completeness auto

termination ends_in_dot_loop
  by (relation "measure (\<lambda>(str, i). Suc (length str) - i)") (auto simp: char_at_def split: if_splits)

declare ends_in_dot_loop.simps [simp del]

definition DomainEndsInDot :: "bytes \<Rightarrow> bool option" where
  "DomainEndsInDot str = ends_in_dot_loop str 0"

text \<open>Comparison of characters in the C locale\<close>

definition to_lower :: "u8 \<Rightarrow> u8" where
  "to_lower c = (if 0x41 \<le> c \<and> c \<le> 0x5A then c + 0x20 else c)"

text \<open>
  The name is written into memory of the caller from its start on; \<open>fn\<close> is the offset of the next byte and
  \<open>lim\<close> is 1005.  \<open>Inl\<close> is the jump to \<open>fail\<close>.
\<close>

definition fn_lim :: nat where "fn_lim = 1005"

definition put_char :: "bytes \<times> nat \<Rightarrow> u8 \<Rightarrow> (bytes \<times> nat) option" where
  "put_char st c = (case st of (buf, fn) \<Rightarrow> if fn < length buf then Some (buf[fn := c], fn + 1) else None)"

definition put_service_char :: "bytes \<times> nat \<Rightarrow> u8 \<Rightarrow> ((bytes \<times> nat) + (bytes \<times> nat)) option" where
  "put_service_char st c =
     (if c \<le> 0x20 then
        if snd st + 4 \<ge> fn_lim then Some (Inl st)
        else do {
          st \<leftarrow> put_char st 0x5C;
          st \<leftarrow> put_char st (0x30 + c div 100);
          st \<leftarrow> put_char st (0x30 + (c div 10) mod 10);
          st \<leftarrow> put_char st (0x30 + c mod 10);
          Some (Inr st)
        }
      else if c = 0x2E \<or> c = 0x5C then
        if snd st + 2 \<ge> fn_lim then Some (Inl st)
        else do { st \<leftarrow> put_char st 0x5C; st \<leftarrow> put_char st c; Some (Inr st) }
      else if snd st + 1 \<ge> fn_lim then Some (Inl st)
      else do { st \<leftarrow> put_char st c; Some (Inr st) })"

fun put_service :: "bytes \<times> nat \<Rightarrow> bytes \<Rightarrow> ((bytes \<times> nat) + (bytes \<times> nat)) option" where
  "put_service st [] = Some (Inr st)"
| "put_service st (c # s) = do {
     r \<leftarrow> put_service_char st c;
     (case r of Inl st \<Rightarrow> Some (Inl st) | Inr st \<Rightarrow> put_service st s)
   }"

fun put_plain :: "bytes \<times> nat \<Rightarrow> bytes \<Rightarrow> ((bytes \<times> nat) + (bytes \<times> nat)) option" where
  "put_plain st [] = Some (Inr st)"
| "put_plain st (c # s) =
     (if snd st + 1 \<ge> fn_lim then Some (Inl st) else do { st \<leftarrow> put_char st c; put_plain st s })"

text \<open>A part of the name with its final dot\<close>

definition put_part :: "bytes \<times> nat \<Rightarrow> bytes \<Rightarrow> ((bytes \<times> nat) + (bytes \<times> nat)) option" where
  "put_part st s = do {
     r \<leftarrow> put_plain st s;
     (case r of
        Inl st \<Rightarrow> Some (Inl st)
      | Inr st \<Rightarrow> do { dot \<leftarrow> DomainEndsInDot s; if dot then Some (Inr st) else put_plain st [0x2E] })
   }"

definition is_protocol :: "bytes \<Rightarrow> bool" where
  "is_protocol s \<longleftrightarrow> map to_lower s = [0x5F, 0x74, 0x63, 0x70] \<or> map to_lower s = [0x5F, 0x75, 0x64, 0x70]"

definition end_name :: "bytes \<times> nat \<Rightarrow> dns_error \<Rightarrow> (bytes \<times> dns_error) option" where
  "end_name st err = do { (buf, fn) \<leftarrow> put_char st 0; Some (buf, err) }"

definition DNSServiceConstructFullName ::
  "bytes \<Rightarrow> bytes option \<Rightarrow> bytes option \<Rightarrow> bytes option \<Rightarrow> (bytes \<times> dns_error) option" where
  "DNSServiceConstructFullName fullName service regtype domain =
     (case regtype of
        None \<Rightarrow> Some (fullName, BadParam)
      | Some r \<Rightarrow> do {
          dot \<leftarrow> DomainEndsInDot r;
          let len = length r - (if dot then 1 else 0);
          (case domain of
             None \<Rightarrow> Some (fullName, BadParam)
           | Some d \<Rightarrow>
               if len < 6 \<or> d = [] then Some (fullName, BadParam)
               else if \<not> is_protocol (take 4 (drop (len - 4) r)) then Some (fullName, BadParam)
               else do {
                 x \<leftarrow> (case service of
                     None \<Rightarrow> Some (Inr (fullName, 0))
                   | Some s \<Rightarrow>
                       if s = [] then Some (Inr (fullName, 0))
                       else do {
                         x \<leftarrow> put_service (fullName, 0) s;
                         (case x of Inl st \<Rightarrow> Some (Inl st) | Inr st \<Rightarrow> map_option Inr (put_char st 0x2E))
                       });
                 (case x of
                    Inl st \<Rightarrow> end_name st BadParam
                  | Inr st \<Rightarrow> do {
                      x \<leftarrow> put_part st r;
                      (case x of
                         Inl st \<Rightarrow> end_name st BadParam
                       | Inr st \<Rightarrow> do {
                           x \<leftarrow> put_part st d;
                           (case x of Inl st \<Rightarrow> end_name st BadParam | Inr st \<Rightarrow> end_name st NoError)
                         })
                    })
               })
        })"

section \<open>Search\<close>

text \<open>\<open>strncasecmp\<close> of \<open>n\<close> characters is zero; the key has no NUL among them.\<close>

fun same_key :: "bytes \<Rightarrow> nat \<Rightarrow> bytes \<Rightarrow> bool option" where
  "same_key txt i [] = Some True"
| "same_key txt i (c # cs) = do {
     x \<leftarrow> read_byte txt i;
     if to_lower x \<noteq> to_lower c then Some False else same_key txt (i + 1) cs
   }"

text \<open>The condition of the loop for the item at \<open>x\<close>, which ends at \<open>p\<close>\<close>

definition item_matches :: "bytes \<Rightarrow> nat \<Rightarrow> bytes \<Rightarrow> nat \<Rightarrow> u8 \<Rightarrow> nat \<Rightarrow> bool option" where
  "item_matches txt e key x n p =
     (if p \<le> e \<and> length key \<le> unat n then do {
        same \<leftarrow> same_key txt (x + 1) key;
        if \<not> same then Some False
        else if length key = unat n then Some True
        else do { c \<leftarrow> read_byte txt (x + 1 + length key); Some (c = 0x3D) }
      } else Some False)"

function txt_search :: "bytes \<Rightarrow> nat \<Rightarrow> bytes \<Rightarrow> nat \<Rightarrow> nat option option" where
  "txt_search txt e key p =
     (if p < e then
        (case read_byte txt p of None \<Rightarrow> None | Some n \<Rightarrow>
          (case item_matches txt e key p n (p + 1 + unat n) of None \<Rightarrow> None | Some b \<Rightarrow>
             if b then Some (Some p) else txt_search txt e key (p + 1 + unat n)))
      else Some None)"
  by pat_completeness auto

termination txt_search
  by (relation "measure (\<lambda>(txt, e, key, p). e - p)") auto

declare txt_search.simps [simp del]

text \<open>The offset of the item, if there is one; the length of the key is returned by way of a pointer in the code.\<close>

definition InternalTXTRecordSearch :: "u16 \<Rightarrow> bytes \<Rightarrow> bytes \<Rightarrow> nat option option" where
  "InternalTXTRecordSearch txtLen txtRecord key = txt_search txtRecord (unat txtLen) key 0"

section \<open>Construction\<close>

text \<open>\<open>None\<close> as a buffer is NULL.\<close>

record txt_record =
  txt_buffer :: "bytes option"
  txt_buflen :: u16
  txt_datalen :: u16
  txt_malloced :: bool

definition TXTRecordCreate :: "u16 \<Rightarrow> bytes option \<Rightarrow> txt_record" where
  "TXTRecordCreate bufferLen buffer =
     \<lparr>txt_buffer = buffer, txt_buflen = (case buffer of None \<Rightarrow> 0 | Some b \<Rightarrow> bufferLen), txt_datalen = 0, txt_malloced = False\<rparr>"

text \<open>Whether the buffer is freed\<close>

definition TXTRecordDeallocate :: "txt_record \<Rightarrow> bool" where
  "TXTRecordDeallocate t = txt_malloced t"

definition buffer_bytes :: "txt_record \<Rightarrow> bytes" where
  "buffer_bytes t = (case txt_buffer t of None \<Rightarrow> [] | Some b \<Rightarrow> b)"

definition memmove :: "bytes \<Rightarrow> nat \<Rightarrow> nat \<Rightarrow> nat \<Rightarrow> bytes option" where
  "memmove buf dst src n = do {
     bs \<leftarrow> read_bytes buf src n;
     if dst + n \<le> length buf then Some (write_bytes buf dst bs) else None
   }"

definition TXTRecordRemoveValue :: "txt_record \<Rightarrow> bytes \<Rightarrow> (txt_record \<times> dns_error) option" where
  "TXTRecordRemoveValue t key = do {
     item \<leftarrow> InternalTXTRecordSearch (txt_datalen t) (buffer_bytes t) key;
     (case item of
        None \<Rightarrow> Some (t, NoSuchKey)
      | Some x \<Rightarrow> do {
          n \<leftarrow> read_byte (buffer_bytes t) x;
          let itemlen = 1 + unat n;
          let remainder = unat (txt_datalen t) - (x + itemlen);
          buf \<leftarrow> memmove (buffer_bytes t) x (x + itemlen) remainder;
          Some (t\<lparr>txt_buffer := Some buf, txt_datalen := txt_datalen t - of_nat itemlen\<rparr>, NoError)
        })
   }"

text \<open>A new buffer holds the data and otherwise unknown bytes, here zeros.\<close>

definition txt_grow :: "txt_record \<Rightarrow> nat \<Rightarrow> txt_record option" where
  "txt_grow t newlen = do {
     bs \<leftarrow> read_bytes (buffer_bytes t) 0 (unat (txt_datalen t));
     Some (t\<lparr>txt_buffer := Some (bs @ replicate (newlen - length bs) 0), txt_buflen := of_nat newlen, txt_malloced := True\<rparr>)
   }"

definition key_char_ok :: "u8 \<Rightarrow> bool" where
  "key_char_ok c \<longleftrightarrow> 0x20 \<le> c \<and> c \<le> 0x7E \<and> c \<noteq> 0x3D"

text \<open>\<open>value\<close> is NULL or \<open>valueSize\<close> bytes.\<close>

definition TXTRecordSetValue :: "txt_record \<Rightarrow> bytes \<Rightarrow> u8 \<Rightarrow> bytes option \<Rightarrow> (txt_record \<times> dns_error) option" where
  "TXTRecordSetValue t key valueSize val =
     (if \<not> list_all key_char_ok key then Some (t, Invalid)
      else
        let keysize = length key;
            keyvalsize = 1 + keysize + (if val \<noteq> None then 1 + unat valueSize else 0)
        in if keysize < 1 \<or> keyvalsize > 255 then Some (t, Invalid)
        else do {
          (t, err) \<leftarrow> TXTRecordRemoveValue t key;
          let newlen = unat (txt_datalen t) + keyvalsize;
          if newlen > unat (txt_buflen t) \<and> newlen > 0xFFFF then Some (t, Invalid)
          else do {
            t \<leftarrow> (if newlen > unat (txt_buflen t) then txt_grow t newlen else Some t);
            v \<leftarrow> (case val of None \<Rightarrow> Some [] | Some v \<Rightarrow> do { bs \<leftarrow> read_bytes v 0 (unat valueSize); Some (0x3D # bs) });
            let item = of_nat (keysize + length v) # key @ v;
            let start = unat (txt_datalen t);
            if start + length item \<le> length (buffer_bytes t)
            then Some (t\<lparr>txt_buffer := Some (write_bytes (buffer_bytes t) start item),
                         txt_datalen := txt_datalen t + of_nat (length item)\<rparr>, NoError)
            else None
          }
        })"

definition TXTRecordGetLength :: "txt_record \<Rightarrow> u16" where
  "TXTRecordGetLength t = txt_datalen t"

definition TXTRecordGetBytesPtr :: "txt_record \<Rightarrow> bytes option" where
  "TXTRecordGetBytesPtr t = txt_buffer t"

section \<open>Parsing\<close>

definition TXTRecordContainsKey :: "u16 \<Rightarrow> bytes \<Rightarrow> bytes \<Rightarrow> bool option" where
  "TXTRecordContainsKey txtLen txtRecord key =
     map_option (\<lambda>r. r \<noteq> None) (InternalTXTRecordSearch txtLen txtRecord key)"

text \<open>The offset and the length of the value\<close>

definition TXTRecordGetValuePtr :: "u16 \<Rightarrow> bytes \<Rightarrow> bytes \<Rightarrow> (nat \<times> u8) option option" where
  "TXTRecordGetValuePtr txtLen txtRecord key = do {
     item \<leftarrow> InternalTXTRecordSearch txtLen txtRecord key;
     (case item of
        None \<Rightarrow> Some None
      | Some x \<Rightarrow> do {
          n \<leftarrow> read_byte txtRecord x;
          if unat n \<le> length key then Some None
          else Some (Some (x + 1 + length key + 1, of_nat (unat n - (length key + 1))))
        })
   }"

function txt_count :: "bytes \<Rightarrow> nat \<Rightarrow> nat \<Rightarrow> u16 \<Rightarrow> u16 option" where
  "txt_count txt e p n =
     (if p < e then (case read_byte txt p of None \<Rightarrow> None | Some k \<Rightarrow> txt_count txt e (p + 1 + unat k) (n + 1))
      else Some (if p > e then 0 else n))"
  by pat_completeness auto

termination txt_count
  by (relation "measure (\<lambda>(txt, e, p, n). e - p)") auto

declare txt_count.simps [simp del]

definition TXTRecordGetCount :: "u16 \<Rightarrow> bytes \<Rightarrow> u16 option" where
  "TXTRecordGetCount txtLen txtRecord = txt_count txtRecord (unat txtLen) 0 0"

fun skip_items :: "bytes \<Rightarrow> nat \<Rightarrow> nat \<Rightarrow> nat \<Rightarrow> nat option" where
  "skip_items txt e p 0 = Some p"
| "skip_items txt e p (Suc k) =
     (if p < e then do { n \<leftarrow> read_byte txt p; skip_items txt e (p + 1 + unat n) k } else Some p)"

text \<open>The number of bytes before the first equals sign or the end\<close>

function until_equals :: "bytes \<Rightarrow> nat \<Rightarrow> nat \<Rightarrow> nat \<Rightarrow> nat option" where
  "until_equals txt x e len =
     (if x + len < e then
        (case read_byte txt (x + len) of None \<Rightarrow> None | Some c \<Rightarrow>
           if c \<noteq> 0x3D then until_equals txt x e (len + 1) else Some len)
      else Some len)"
  by pat_completeness auto

termination until_equals
  by (relation "measure (\<lambda>(txt, x, e, len). e - (x + len))") auto

declare until_equals.simps [simp del]

text \<open>\<open>key\<close> is memory of the caller of at least \<open>keyBufLen\<close> bytes; the value is NULL or an offset; on an error neither is set.\<close>

definition TXTRecordGetItemAtIndex ::
  "u16 \<Rightarrow> bytes \<Rightarrow> u16 \<Rightarrow> u16 \<Rightarrow> bytes \<Rightarrow> (dns_error \<times> bytes \<times> u8 \<times> nat option) option" where
  "TXTRecordGetItemAtIndex txtLen txtRecord itemIndex keyBufLen key = do {
     let e = unat txtLen;
     p \<leftarrow> skip_items txtRecord e 0 (unat itemIndex);
     if p < e then do {
       n \<leftarrow> read_byte txtRecord p;
       if p + 1 + unat n \<le> e then do {
         let x = p + 1;
         let e = p + 1 + unat n;
         len \<leftarrow> until_equals txtRecord x e 0;
         if len \<ge> unat keyBufLen then Some (NoMemory, key, 0, None)
         else do {
           bs \<leftarrow> read_bytes txtRecord x len;
           key \<leftarrow> (if len + 1 \<le> length key then Some (write_bytes key 0 (bs @ [0])) else None);
           if x + len < e
           then Some (NoError, key, of_nat (unat n - (len + 1)), Some (x + len + 1))
           else Some (NoError, key, 0, None)
         }
       } else Some (Invalid, key, 0, None)
     } else Some (Invalid, key, 0, None)
   }"

end
