(* ===== verification/Dnssd_Txt_Props.thy ===== *)
theory Dnssd_Txt_Props imports Dnssd_Txt begin

text \<open>
  Text records as lists of items.  An item is \<open>key\<close> or \<open>key=value\<close>; keys are compared without case.
\<close>

section \<open>Items and their layout\<close>

definition item_wire :: "bytes \<Rightarrow> bytes" where
  "item_wire it = of_nat (length it) # it"

definition txt_wire :: "bytes list \<Rightarrow> bytes" where
  "txt_wire its = concat (map item_wire its)"

lemma txt_wire_simps [simp]:
  "txt_wire [] = []" "txt_wire (it # its) = of_nat (length it) # it @ txt_wire its"
  "txt_wire (its @ its') = txt_wire its @ txt_wire its'"
  by (simp_all add: txt_wire_def item_wire_def)

definition small_items :: "bytes list \<Rightarrow> bool" where
  "small_items its \<longleftrightarrow> (\<forall>it \<in> set its. length it \<le> 255)"

lemma small_items_simps [simp]:
  "small_items []" "small_items (it # its) \<longleftrightarrow> length it \<le> 255 \<and> small_items its"
  "small_items (its @ its') \<longleftrightarrow> small_items its \<and> small_items its'"
  by (auto simp: small_items_def)

lemma unat_item [simp]: "length it \<le> 255 \<Longrightarrow> unat (of_nat (length it) :: u8) = length it"
  by (simp add: unat_of_nat_u8)

text \<open>What \<open>InternalTXTRecordSearch\<close> looks for\<close>

definition key_is :: "bytes \<Rightarrow> bytes \<Rightarrow> bool" where
  "key_is key it \<longleftrightarrow> length key \<le> length it \<and> map to_lower (take (length key) it) = map to_lower key
     \<and> (length key = length it \<or> it ! length key = 0x3D)"

lemma same_key_take:
  "i + length key \<le> length txt \<Longrightarrow>
    same_key txt i key = Some (map to_lower (take (length key) (drop i txt)) = map to_lower key)"
proof (induction key arbitrary: i)
  case (Cons c cs)
  then have "take (Suc (length cs)) (drop i txt) = txt ! i # take (length cs) (drop (Suc i) txt)"
    by (simp add: Cons_nth_drop_Suc [symmetric])
  then show ?case using Cons by (simp add: read_byte_def)
qed simp

lemma item_matches_item:
  assumes "length it \<le> 255" "length pre + 1 + length it \<le> e"
  shows "item_matches (pre @ of_nat (length it) # it @ post) e key (length pre) (of_nat (length it)) (length pre + 1 + length it)
    = Some (key_is key it)"
proof (cases "length key \<le> length it")
  case True
  let ?txt = "pre @ of_nat (length it) # it @ post"
  have same: "same_key ?txt (length pre + 1) key = Some (map to_lower (take (length key) it) = map to_lower key)"
    using True by (subst same_key_take) simp_all
  have c: "read_byte ?txt (length pre + 1 + length key) = Some (it ! length key)" if "length key \<noteq> length it"
    using True that by (simp add: read_byte_def nth_append)
  show ?thesis using True assms same c by (auto simp: item_matches_def key_is_def)
next
  case False
  then show ?thesis using assms by (simp add: item_matches_def key_is_def)
qed

lemma txt_search_items:
  "small_items its \<Longrightarrow>
    txt_search (pre @ txt_wire its @ post) (length pre + length (txt_wire its)) key (length pre) =
      (let before = takeWhile (\<lambda>it. \<not> key_is key it) its
       in Some (if length before < length its then Some (length pre + length (txt_wire before)) else None))"
proof (induction its arbitrary: pre)
  case Nil
  then show ?case by (simp add: txt_search.simps)
next
  case (Cons it its)
  let ?n = "of_nat (length it) :: u8"
  have m: "item_matches (pre @ ?n # it @ txt_wire its @ post) (length pre + length (txt_wire (it # its))) key (length pre) ?n
      (length pre + 1 + length it) = Some (key_is key it)"
    using item_matches_item [of it pre _ "txt_wire its @ post"] Cons.prems by simp
  have "txt_search ((pre @ ?n # it) @ txt_wire its @ post) (length (pre @ ?n # it) + length (txt_wire its)) key (length (pre @ ?n # it)) =
      (let before = takeWhile (\<lambda>it. \<not> key_is key it) its
       in Some (if length before < length its then Some (length (pre @ ?n # it) + length (txt_wire before)) else None))"
    by (rule Cons.IH) (use Cons.prems in simp)
  then show ?case using m Cons.prems by (subst txt_search.simps) (auto simp: Let_def read_byte_def add.assoc)
qed

section \<open>Records that hold items\<close>

definition txt_rep :: "txt_record \<Rightarrow> bytes list \<Rightarrow> bool" where
  "txt_rep t its \<longleftrightarrow> small_items its \<and> unat (txt_datalen t) = length (txt_wire its)
     \<and> take (length (txt_wire its)) (buffer_bytes t) = txt_wire its
     \<and> txt_datalen t \<le> txt_buflen t \<and> unat (txt_buflen t) \<le> length (buffer_bytes t)"

lemma txt_repE:
  assumes "txt_rep t its"
  obtains post where "buffer_bytes t = txt_wire its @ post" "unat (txt_datalen t) = length (txt_wire its)"
    "small_items its" "length (txt_wire its) \<le> unat (txt_buflen t)" "unat (txt_buflen t) \<le> length (txt_wire its) + length post"
proof -
  have "buffer_bytes t = txt_wire its @ drop (length (txt_wire its)) (buffer_bytes t)"
    using assms by (metis append_take_drop_id txt_rep_def)
  then show thesis using assms that [of "drop (length (txt_wire its)) (buffer_bytes t)"]
    by (auto simp: txt_rep_def word_le_nat_alt)
qed

lemma search_rep:
  assumes "txt_rep t its"
  shows "InternalTXTRecordSearch (txt_datalen t) (buffer_bytes t) key =
    (let before = takeWhile (\<lambda>it. \<not> key_is key it) its
     in Some (if length before < length its then Some (length (txt_wire before)) else None))"
proof -
  obtain post where "buffer_bytes t = txt_wire its @ post" "unat (txt_datalen t) = length (txt_wire its)" "small_items its"
    using assms by (rule txt_repE)
  then show ?thesis using txt_search_items [of its "[]" post key] by (simp add: InternalTXTRecordSearch_def Let_def)
qed

fun remove_first :: "('a \<Rightarrow> bool) \<Rightarrow> 'a list \<Rightarrow> 'a list" where
  "remove_first P [] = []"
| "remove_first P (x # xs) = (if P x then xs else x # remove_first P xs)"

lemma remove_first_split:
  "if \<exists>x \<in> set xs. P x then \<exists>x ys. xs = takeWhile (\<lambda>x. \<not> P x) xs @ x # ys \<and> P x \<and> remove_first P xs = takeWhile (\<lambda>x. \<not> P x) xs @ ys
   else remove_first P xs = xs \<and> takeWhile (\<lambda>x. \<not> P x) xs = xs"
  by (induction xs) auto

lemma small_remove_first [simp]: "small_items its \<Longrightarrow> small_items (remove_first P its)"
  by (induction its) auto

lemma length_remove_first: "length (txt_wire (remove_first P its)) \<le> length (txt_wire its)"
  by (induction its) auto

lemma TXTRecordRemoveValue_rep:
  assumes "txt_rep t its"
  shows "\<exists>t'. TXTRecordRemoveValue t key = Some (t', if \<exists>it \<in> set its. key_is key it then NoError else NoSuchKey)
    \<and> txt_rep t' (remove_first (key_is key) its) \<and> txt_buflen t' = txt_buflen t \<and> txt_malloced t' = txt_malloced t"
proof (cases "\<exists>it \<in> set its. key_is key it")
  case False
  then have same: "takeWhile (\<lambda>it. \<not> key_is key it) its = its" "remove_first (key_is key) its = its"
    using remove_first_split [of its "key_is key"] by auto
  have "InternalTXTRecordSearch (txt_datalen t) (buffer_bytes t) key = Some None"
    unfolding search_rep [OF assms, of key] same(1) by simp
  then show ?thesis using assms False same(2) by (auto simp: TXTRecordRemoveValue_def)
next
  case True
  define before where "before = takeWhile (\<lambda>it. \<not> key_is key it) its"
  obtain it after where s: "its = before @ it # after" "remove_first (key_is key) its = before @ after"
    using True remove_first_split [of its "key_is key"] by (auto simp: before_def)
  obtain post where r: "buffer_bytes t = txt_wire its @ post" "unat (txt_datalen t) = length (txt_wire its)"
    "small_items its" "length (txt_wire its) \<le> unat (txt_buflen t)" "unat (txt_buflen t) \<le> length (txt_wire its) + length post"
    using assms by (rule txt_repE)
  have search: "InternalTXTRecordSearch (txt_datalen t) (buffer_bytes t) key = Some (Some (length (txt_wire before)))"
    unfolding search_rep [OF assms, of key] before_def [symmetric] Let_def using s(1) by simp
  have n: "read_byte (buffer_bytes t) (length (txt_wire before)) = Some (of_nat (length it))"
    by (simp add: r(1) s(1) read_byte_def)
  have rest: "unat (txt_datalen t) - (length (txt_wire before) + (1 + length it)) = length (txt_wire after)"
    using r(2) s(1) by simp
  have move: "memmove (buffer_bytes t) (length (txt_wire before)) (length (txt_wire before) + (1 + length it)) (length (txt_wire after))
      = Some (txt_wire before @ txt_wire after @ drop (length (txt_wire before @ txt_wire after)) (buffer_bytes t))"
    by (simp add: memmove_def read_bytes_def r(1) s(1) write_bytes_def)
  have "length it \<le> 255" using r(3) s(1) by simp
  moreover have "unat (txt_datalen t - of_nat (1 + length it)) = length (txt_wire before @ txt_wire after)"
  proof -
    have "unat (of_nat (1 + length it) :: u16) = 1 + length it" using \<open>length it \<le> 255\<close> by (simp only: unat_of_nat) simp
    moreover have "1 + length it \<le> unat (txt_datalen t)" using r(2) s(1) by simp
    ultimately show ?thesis using r(2) s(1) by (simp only: unat_sub_if') simp
  qed
  moreover have "(ucast (of_nat (length it) :: u8) :: u16) = of_nat (length it)"
    using \<open>length it \<le> 255\<close> by (metis of_nat_unat unat_item)
  ultimately show ?thesis using search n rest move r s True
    by (auto simp: TXTRecordRemoveValue_def Let_def txt_rep_def buffer_bytes_def word_le_nat_alt)
qed

text \<open>Setting a value\<close>

definition key_ok :: "bytes \<Rightarrow> bool" where
  "key_ok key \<longleftrightarrow> key \<noteq> [] \<and> list_all key_char_ok key"

definition item_of :: "bytes \<Rightarrow> bytes option \<Rightarrow> bytes" where
  "item_of key val = key @ (case val of None \<Rightarrow> [] | Some v \<Rightarrow> 0x3D # v)"

definition val_len :: "bytes option \<Rightarrow> nat" where
  "val_len val = (case val of None \<Rightarrow> 0 | Some v \<Rightarrow> 1 + length v)"

lemma length_item_of: "length (item_of key val) = length key + val_len val"
  by (cases val) (simp_all add: item_of_def val_len_def)

text \<open>The items after \<open>TXTRecordSetValue\<close>\<close>

definition set_spec :: "bytes list \<Rightarrow> bytes \<Rightarrow> bytes option \<Rightarrow> bytes list \<times> dns_error" where
  "set_spec its key val =
     (if \<not> key_ok key \<or> 1 + length (item_of key val) > 255 then (its, Invalid)
      else
        let rest = remove_first (key_is key) its; need = length (txt_wire (rest @ [item_of key val]))
        in if need > 0xFFFF then (rest, Invalid) else (rest @ [item_of key val], NoError))"

lemma txt_grow_rep:
  assumes "txt_rep t its" "n \<le> 0xFFFF" "length (txt_wire its) \<le> n"
  shows "\<exists>t'. txt_grow t n = Some t' \<and> txt_rep t' its \<and> length (buffer_bytes t') = n \<and> unat (txt_buflen t') = n
    \<and> txt_datalen t' = txt_datalen t"
proof -
  obtain post where r: "buffer_bytes t = txt_wire its @ post" "unat (txt_datalen t) = length (txt_wire its)" "small_items its"
    using assms(1) by (rule txt_repE)
  have n: "unat (of_nat n :: u16) = n" using assms(2) by (intro unat_of_nat_u16) simp
  show ?thesis using r n assms(3)
    by (auto simp: txt_grow_def read_bytes_def txt_rep_def buffer_bytes_def word_le_nat_alt)
qed

lemma unat_u16_less: "unat (w :: u16) < 65536"
  using unsigned_less [of w, where ?'a = nat] by simp

lemma append_item_rep:
  assumes "txt_rep t its" "length it \<le> 255" "length (txt_wire its) + (1 + length it) \<le> unat (txt_buflen t)"
  shows "txt_rep (t\<lparr>txt_buffer := Some (write_bytes (buffer_bytes t) (length (txt_wire its)) (item_wire it)),
    txt_datalen := txt_datalen t + of_nat (length (item_wire it))\<rparr>) (its @ [it])"
proof -
  obtain post where r: "buffer_bytes t = txt_wire its @ post" "unat (txt_datalen t) = length (txt_wire its)" "small_items its"
    "unat (txt_buflen t) \<le> length (txt_wire its) + length post"
    using assms(1) by (rule txt_repE)
  have "unat (of_nat (length (item_wire it)) :: u16) = 1 + length it"
    unfolding item_wire_def using assms(2) by (subst unat_of_nat_u16) simp_all
  moreover have "length (txt_wire its) + (1 + length it) < 65536"
    using assms(3) unat_u16_less [of "txt_buflen t"] by simp
  ultimately have d: "unat (txt_datalen t + of_nat (length (item_wire it))) = length (txt_wire its) + (1 + length it)"
    using r(2) by (subst unat_add_lem [THEN iffD1]) simp_all
  then show ?thesis using r(1,3,4) assms(2,3)
    by (simp add: txt_rep_def buffer_bytes_def write_bytes_def word_le_nat_alt item_wire_def)
qed

lemma TXTRecordSetValue_rep:
  assumes "txt_rep t its" "val_len val = (if val = None then 0 else 1 + unat sz)"
  shows "\<exists>t'. TXTRecordSetValue t key sz val = Some (t', snd (set_spec its key val))
    \<and> txt_rep t' (fst (set_spec its key val))"
proof (cases "key_ok key \<and> 1 + length (item_of key val) \<le> 255")
  case False
  then show ?thesis using assms by (cases val) (auto simp: TXTRecordSetValue_def set_spec_def key_ok_def length_item_of Let_def)
next
  case ok: True
  let ?rest = "remove_first (key_is key) its" let ?it = "item_of key val"
  define need where "need = length (txt_wire ?rest) + (1 + length ?it)"
  obtain t1 e1 where t1: "TXTRecordRemoveValue t key = Some (t1, e1)" "txt_rep t1 ?rest" "txt_buflen t1 = txt_buflen t"
    using TXTRecordRemoveValue_rep [OF assms(1), of key] by blast
  have d1: "unat (txt_datalen t1) = length (txt_wire ?rest)" using t1(2) by (simp add: txt_rep_def)
  have it: "length ?it \<le> 255" "1 + length key + (if val \<noteq> None then 1 + unat sz else 0) = 1 + length ?it"
    using ok assms(2) by (auto simp: length_item_of)
  obtain vs where vs: "(case val of None \<Rightarrow> Some [] | Some v \<Rightarrow> do { bs \<leftarrow> read_bytes v 0 (unat sz); Some (0x3D # bs) }) = Some vs"
    "of_nat (length key + length vs) # key @ vs = item_wire ?it"
    using assms(2) by (cases val) (auto simp: read_bytes_def item_of_def item_wire_def val_len_def)
  have lw: "length (item_wire ?it) = Suc (length key + length vs)" using arg_cong [OF vs(2), of length] by simp
  have set: "TXTRecordSetValue t key sz val =
    (if need > unat (txt_buflen t) \<and> need > 0xFFFF then Some (t1, Invalid)
     else do {
       t \<leftarrow> (if need > unat (txt_buflen t) then txt_grow t1 need else Some t1);
       if unat (txt_datalen t) + length (item_wire ?it) \<le> length (buffer_bytes t)
       then Some (t\<lparr>txt_buffer := Some (write_bytes (buffer_bytes t) (unat (txt_datalen t)) (item_wire ?it)),
                    txt_datalen := txt_datalen t + of_nat (length (item_wire ?it))\<rparr>, NoError)
       else None })"
    unfolding TXTRecordSetValue_def Let_def it(2) using ok t1(1,3) vs d1
    by (simp add: key_ok_def Suc_le_eq need_def lw cong: if_cong split del: if_split)
  have spec: "set_spec its key val =
    (if need > unat (txt_buflen t) \<and> need > 0xFFFF then (?rest, Invalid) else (?rest @ [?it], NoError))"
    using ok unat_u16_less [of "txt_buflen t"] by (simp add: set_spec_def need_def Let_def)
  show ?thesis
  proof (cases "need > unat (txt_buflen t)")
    case False
    then show ?thesis unfolding set spec
      using append_item_rep [OF t1(2) it(1)] t1(2,3) d1 by (auto simp: need_def item_wire_def txt_rep_def)
  next
    case True
    show ?thesis
    proof (cases "need > 0xFFFF")
      case True
      then show ?thesis unfolding set spec using t1(2) \<open>need > unat (txt_buflen t)\<close> by simp
    next
      case False
      then obtain t2 where t2: "txt_grow t1 need = Some t2" "txt_rep t2 ?rest" "length (buffer_bytes t2) = need"
        "unat (txt_buflen t2) = need" "txt_datalen t2 = txt_datalen t1"
        using txt_grow_rep [OF t1(2), of need] by (auto simp: need_def)
      then show ?thesis unfolding set spec
        using append_item_rep [OF t2(2) it(1)] d1 True False by (simp add: need_def item_wire_def)
    qed
  qed
qed

end
