(* ===== verification/Dnssd_Txt_Dict.thy ===== *)
theory Dnssd_Txt_Dict imports Dnssd_Txt_Props begin

text \<open>
  Text records as dictionaries from keys, without case, to values; a key may stand without a value.
\<close>

section \<open>Names and values of items\<close>

definition fold_key :: "bytes \<Rightarrow> bytes" where
  "fold_key = map to_lower"

definition item_key :: "bytes \<Rightarrow> bytes" where
  "item_key it = takeWhile (\<lambda>c. c \<noteq> 0x3D) it"

definition item_val :: "bytes \<Rightarrow> bytes option" where
  "item_val it = (case dropWhile (\<lambda>c. c \<noteq> 0x3D) it of [] \<Rightarrow> None | c # v \<Rightarrow> Some v)"

definition item_name :: "bytes \<Rightarrow> bytes" where
  "item_name it = fold_key (item_key it)"

lemma to_lower_equals [simp]: "to_lower c = 0x3D \<longleftrightarrow> c = 0x3D"
proof
  assume a: "to_lower c = 0x3D"
  show "c = 0x3D"
  proof (cases "0x41 \<le> c \<and> c \<le> 0x5A")
    case True
    then have "c + 0x20 = 0x3D" using a by (simp add: to_lower_def)
    then have "c = 0x3D - 0x20" by (simp only: eq_diff_eq)
    then show ?thesis using True by simp
  next
    case False
    then show ?thesis using a by (simp only: to_lower_def if_False)
  qed
qed (simp add: to_lower_def)

lemma item_split: "it = item_key it @ (case item_val it of None \<Rightarrow> [] | Some v \<Rightarrow> 0x3D # v)"
proof (cases "dropWhile (\<lambda>c. c \<noteq> 0x3D) it")
  case Nil
  then have "takeWhile (\<lambda>c. c \<noteq> 0x3D) it = it" using takeWhile_dropWhile_id [of "\<lambda>c. c \<noteq> 0x3D" it] unfolding Nil by simp
  then show ?thesis unfolding item_key_def item_val_def Nil by (simp only: list.case option.case append_Nil2)
next
  case (Cons c v)
  then have "c = 0x3D" by (metis (mono_tags, lifting) dropWhile_eq_Cons_conv)
  then show ?thesis using Cons takeWhile_dropWhile_id [of "\<lambda>c. c \<noteq> 0x3D" it] by (simp add: item_key_def item_val_def)
qed

lemma no_equals_key: "0x3D \<notin> set (item_key it)"
  by (auto simp: item_key_def dest: set_takeWhileD)

lemma item_of_parts:
  assumes "0x3D \<notin> set key"
  shows "item_key (item_of key val) = key" "item_val (item_of key val) = val"
proof -
  have k: "\<forall>c \<in> set key. c \<noteq> 0x3D" using assms by auto
  have "item_key (item_of key val) = key \<and> item_val (item_of key val) = val"
  proof (cases val)
    case None
    have "takeWhile (\<lambda>c. c \<noteq> 0x3D) key = key" "dropWhile (\<lambda>c. c \<noteq> 0x3D) key = []" using k by simp_all
    then show ?thesis using None by (simp only: item_key_def item_val_def item_of_def option.case list.case append_Nil2)
  next
    case (Some v)
    then show ?thesis using k by (simp add: item_key_def item_val_def item_of_def takeWhile_append2 dropWhile_append2)
  qed
  then show "item_key (item_of key val) = key" "item_val (item_of key val) = val" by blast+
qed

lemma key_is_name:
  assumes "0x3D \<notin> set key"
  shows "key_is key it \<longleftrightarrow> item_name it = fold_key key"
proof
  assume k: "key_is key it"
  then have l: "length key \<le> length it" "map to_lower (take (length key) it) = map to_lower key" by (simp_all add: key_is_def)
  have "0x3D \<notin> set (take (length key) it)"
  proof
    assume "0x3D \<in> set (take (length key) it)"
    then have "to_lower 0x3D \<in> set (map to_lower key)" using l(2) by (metis imageI list.set_map)
    then show False using assms by (auto simp: to_lower_def split: if_splits)
  qed
  moreover have "dropWhile (\<lambda>c. c \<noteq> 0x3D) (drop (length key) it) = drop (length key) it" "takeWhile (\<lambda>c. c \<noteq> 0x3D) (drop (length key) it) = []"
    using k by (cases "drop (length key) it"; auto simp: key_is_def dest: nth_via_drop)+
  ultimately have "item_key it = take (length key) it"
    using takeWhile_append2 [of "take (length key) it" "\<lambda>c. c \<noteq> 0x3D" "drop (length key) it"]
    by (auto simp: item_key_def)
  then show "item_name it = fold_key key" using l(2) by (simp add: item_name_def fold_key_def)
next
  assume n: "item_name it = fold_key key"
  then have l: "length (item_key it) = length key" by (metis fold_key_def item_name_def length_map)
  have s: "it = item_key it @ (case item_val it of None \<Rightarrow> [] | Some v \<Rightarrow> 0x3D # v)" by (rule item_split)
  then have "take (length key) it = item_key it" using l by (metis append_eq_conv_conj)
  moreover have "length key = length it \<or> it ! length key = 0x3D" using s l
    by (cases "item_val it") (metis append_Nil2 option.simps(4), metis nth_append_length option.simps(5))
  moreover have "length key \<le> length it" using l s by (metis length_append le_add1)
  ultimately show "key_is key it" using n by (simp add: key_is_def item_name_def fold_key_def)
qed

lemma key_ok_equals: "key_ok key \<Longrightarrow> 0x3D \<notin> set key"
  by (auto simp: key_ok_def list_all_iff key_char_ok_def)

section \<open>The dictionary\<close>

definition txt_dict :: "bytes list \<Rightarrow> bytes \<Rightarrow> bytes option option" where
  "txt_dict its = map_of (map (\<lambda>it. (item_name it, item_val it)) its)"

lemma txt_dict_Cons: "txt_dict (it # its) = (txt_dict its)(item_name it := Some (item_val it))"
  by (simp add: txt_dict_def)

definition one_per_key :: "bytes list \<Rightarrow> bool" where
  "one_per_key its \<longleftrightarrow> distinct (map item_name its)"

lemma item_name_remove: "set (map item_name (remove_first P its)) \<subseteq> set (map item_name its)"
  by (induction its) auto

lemma one_per_key_remove:
  assumes "one_per_key its" "0x3D \<notin> set key"
  shows "one_per_key (remove_first (key_is key) its)" "fold_key key \<notin> set (map item_name (remove_first (key_is key) its))"
    "txt_dict (remove_first (key_is key) its) = (txt_dict its)(fold_key key := None)"
proof -
  have "one_per_key its \<Longrightarrow> one_per_key (remove_first (key_is key) its) \<and> fold_key key \<notin> set (map item_name (remove_first (key_is key) its))
    \<and> txt_dict (remove_first (key_is key) its) = (txt_dict its)(fold_key key := None)"
  proof (induction its)
    case Nil
    then show ?case by (simp add: one_per_key_def txt_dict_def)
  next
    case (Cons it its)
    have IH: "one_per_key (remove_first (key_is key) its)" "fold_key key \<notin> set (map item_name (remove_first (key_is key) its))"
      "txt_dict (remove_first (key_is key) its) = (txt_dict its)(fold_key key := None)"
      using Cons.IH Cons.prems unfolding one_per_key_def list.map distinct.simps by blast+
    show ?case
    proof (cases "key_is key it")
      case True
      then have "item_name it = fold_key key" using key_is_name [OF assms(2)] by simp
      moreover have "txt_dict its (fold_key key) = None"
        using Cons.prems \<open>item_name it = fold_key key\<close> by (auto simp: one_per_key_def txt_dict_def map_of_eq_None_iff image_comp)
      ultimately show ?thesis using True Cons.prems by (auto simp: one_per_key_def txt_dict_def fun_eq_iff)
    next
      case False
      then have "item_name it \<noteq> fold_key key" using key_is_name [OF assms(2)] by simp
      then have "txt_dict (it # remove_first (key_is key) its) = (txt_dict (it # its))(fold_key key := None)"
        using IH(3) by (auto simp: txt_dict_Cons)
      then show ?thesis using False IH(1,2) Cons.prems item_name_remove [of "key_is key" its] \<open>item_name it \<noteq> fold_key key\<close>
        by (auto simp: one_per_key_def)
    qed
  qed
  then show "one_per_key (remove_first (key_is key) its)" "fold_key key \<notin> set (map item_name (remove_first (key_is key) its))"
    "txt_dict (remove_first (key_is key) its) = (txt_dict its)(fold_key key := None)"
    using assms(1) by blast+
qed

lemma txt_dict_None: "txt_dict its k = None \<longleftrightarrow> k \<notin> set (map item_name its)"
  by (induction its) (auto simp: txt_dict_def)

lemma txt_dict_append: "txt_dict (its @ its') k = (case txt_dict its k of None \<Rightarrow> txt_dict its' k | Some v \<Rightarrow> Some v)"
  by (induction its) (auto simp: txt_dict_def)

lemma txt_dict_single: "txt_dict [it] = Map.empty(item_name it := Some (item_val it))"
  by (simp add: txt_dict_def)

lemma txt_dict_snoc:
  assumes "item_name it \<notin> set (map item_name its)"
  shows "txt_dict (its @ [it]) = (txt_dict its)(item_name it := Some (item_val it))"
proof
  fix k
  show "txt_dict (its @ [it]) k = ((txt_dict its)(item_name it := Some (item_val it))) k"
    using assms txt_dict_None [of its "item_name it"] by (cases "txt_dict its k") (auto simp: txt_dict_append txt_dict_single)
qed

lemma set_spec_dict:
  assumes "one_per_key its" "set_spec its key val = (its', err)"
  shows "one_per_key its'" "err = NoError \<Longrightarrow> txt_dict its' = (txt_dict its)(fold_key key := Some val)"
    "err \<noteq> NoError \<Longrightarrow> err = Invalid \<and> (txt_dict its' = txt_dict its \<or> txt_dict its' = (txt_dict its)(fold_key key := None))"
proof -
  have k: "item_name (item_of key val) = fold_key key" "item_val (item_of key val) = val" "0x3D \<notin> set key" if "key_ok key"
    using item_of_parts [OF key_ok_equals [OF that]] key_ok_equals [OF that] by (simp_all add: item_name_def)
  have "one_per_key its' \<and> (err = NoError \<longrightarrow> txt_dict its' = (txt_dict its)(fold_key key := Some val))
    \<and> (err \<noteq> NoError \<longrightarrow> err = Invalid \<and> (txt_dict its' = txt_dict its \<or> txt_dict its' = (txt_dict its)(fold_key key := None)))"
  proof (cases "key_ok key \<and> 1 + length (item_of key val) \<le> 255")
    case False
    then show ?thesis using assms by (auto simp: set_spec_def)
  next
    case True
    let ?rest = "remove_first (key_is key) its"
    have r: "one_per_key ?rest" "fold_key key \<notin> set (map item_name ?rest)" "txt_dict ?rest = (txt_dict its)(fold_key key := None)"
      using one_per_key_remove [OF assms(1)] k(3) True by blast+
    have "one_per_key (?rest @ [item_of key val])" using r(1,2) k(1) True by (auto simp: one_per_key_def)
    moreover have "txt_dict (?rest @ [item_of key val]) = (txt_dict its)(fold_key key := Some val)"
      using txt_dict_snoc [of "item_of key val" ?rest] r(2,3) k(1,2) True by simp
    ultimately show ?thesis using assms(2) r(1,3) True by (auto simp: set_spec_def Let_def split: if_splits)
  qed
  then show "one_per_key its'" "err = NoError \<Longrightarrow> txt_dict its' = (txt_dict its)(fold_key key := Some val)"
    "err \<noteq> NoError \<Longrightarrow> err = Invalid \<and> (txt_dict its' = txt_dict its \<or> txt_dict its' = (txt_dict its)(fold_key key := None))"
    by blast+
qed

end
