(* ===== verification/Dnssd_Txt_Claims.thy ===== *)
theory Dnssd_Txt_Claims imports Dnssd_Txt_Dict begin

text \<open>
  The properties of text records: sequences of changes, the dictionary they build, and parsing.
\<close>

section \<open>Sequences of changes\<close>

datatype txt_op = SetValue bytes "bytes option" | RemoveValue bytes

fun txt_step :: "txt_record \<Rightarrow> txt_op \<Rightarrow> (txt_record \<times> dns_error) option" where
  "txt_step t (SetValue key val) = TXTRecordSetValue t key (case val of None \<Rightarrow> 0 | Some v \<Rightarrow> of_nat (length v)) val"
| "txt_step t (RemoveValue key) = TXTRecordRemoveValue t key"

fun txt_spec :: "bytes list \<Rightarrow> txt_op \<Rightarrow> bytes list \<times> dns_error" where
  "txt_spec its (SetValue key val) = set_spec its key val"
| "txt_spec its (RemoveValue key) =
     (remove_first (key_is key) its, if \<exists>it \<in> set its. key_is key it then NoError else NoSuchKey)"

text \<open>Values have at most 255 bytes; keys that are removed have no equals sign.\<close>

fun txt_legal :: "txt_op \<Rightarrow> bool" where
  "txt_legal (SetValue key val) = (case val of None \<Rightarrow> True | Some v \<Rightarrow> length v \<le> 255)"
| "txt_legal (RemoveValue key) = (0x3D \<notin> set key)"

interpretation text_records: simulation txt_step txt_spec txt_rep txt_legal
proof
  fix t its x
  assume r: "txt_rep t its" "txt_legal x"
  show "\<exists>t'. txt_step t x = Some (t', snd (txt_spec its x)) \<and> txt_rep t' (fst (txt_spec its x))"
  proof (cases x)
    case (SetValue key val)
    then have "val_len val = (if val = None then 0 else 1 + unat ((case val of None \<Rightarrow> 0 | Some v \<Rightarrow> of_nat (length v)) :: u8))"
      using r(2) by (cases val) (simp_all add: val_len_def)
    then show ?thesis using TXTRecordSetValue_rep [OF r(1)] SetValue by simp
  next
    case (RemoveValue key)
    then show ?thesis using TXTRecordRemoveValue_rep [OF r(1), of key] by auto
  qed
qed

lemma txt_rep_create: "case_option True (\<lambda>b. unat n \<le> length b) buf \<Longrightarrow> txt_rep (TXTRecordCreate n buf) []"
  by (cases buf) (simp_all add: txt_rep_def TXTRecordCreate_def buffer_bytes_def)

lemma one_per_key_spec: "one_per_key its \<Longrightarrow> txt_legal x \<Longrightarrow> one_per_key (fst (txt_spec its x))"
  by (cases x) (auto simp: one_per_key_remove intro: set_spec_dict(1) [OF _ prod.collapse [symmetric]])

text \<open>
  C16. Text records refine lists of items.  After \<open>TXTRecordCreate\<close>, any sequence of \<open>TXTRecordSetValue\<close> and
  \<open>TXTRecordRemoveValue\<close> runs within the memory of the buffer, which grows when needed, returns the results
  that the specification on lists gives, and leaves exactly those items, in order, each behind its length,
  within the data length; no two items have the same key up to case.
\<close>

theorem text_record_refines:
  assumes "case_option True (\<lambda>b. unat n \<le> length b) buf" "list_all txt_legal ops"
  shows "\<exists>t. run_steps txt_step (TXTRecordCreate n buf) ops = Some (t, snd (run_spec txt_spec [] ops))
    \<and> txt_rep t (fst (run_spec txt_spec [] ops)) \<and> one_per_key (fst (run_spec txt_spec [] ops))"
proof -
  have "one_per_key its \<Longrightarrow> one_per_key (fst (run_spec txt_spec its ops))" for its using assms(2)
    by (induction ops arbitrary: its) (auto simp: Let_def split_def one_per_key_spec)
  then have "one_per_key (fst (run_spec txt_spec [] ops))" by (simp add: one_per_key_def)
  then show ?thesis using text_records.run_simulates [OF txt_rep_create [OF assms(1)] assms(2)] by blast
qed

theorem text_record_refines_witness:
  "\<exists>t. run_steps txt_step (TXTRecordCreate 3 (Some [0, 0, 0])) [SetValue [97] (Some [98]), SetValue [65] None] = Some (t, [NoError, NoError])
    \<and> txt_rep t [[65]] \<and> one_per_key [[65]]"
  using text_record_refines [of 3 "Some [0, 0, 0]" "[SetValue [97] (Some [98]), SetValue [65] None]"]
  by (simp add: set_spec_def key_ok_def key_char_ok_def item_of_def key_is_def to_lower_def)

section \<open>Reading\<close>

lemma find_name:
  assumes "0x3D \<notin> set key"
  shows "let before = takeWhile (\<lambda>it. \<not> key_is key it) its
    in if length before < length its
       then \<exists>it after. its = before @ it # after \<and> item_name it = fold_key key \<and> txt_dict its (fold_key key) = Some (item_val it)
       else txt_dict its (fold_key key) = None"
proof (induction its)
  case Nil
  then show ?case by (simp add: txt_dict_def)
next
  case (Cons it its)
  show ?case
  proof (cases "key_is key it")
    case True
    then show ?thesis using key_is_name [OF assms, of it] by (simp add: txt_dict_Cons)
  next
    case False
    then show ?thesis using key_is_name [OF assms, of it] Cons by (auto simp: txt_dict_Cons Let_def)
  qed
qed

lemma item_layout:
  assumes "item_name it = fold_key key"
  shows "length key \<le> length it" "item_val it = None \<Longrightarrow> length it = length key"
    "item_val it = Some v \<Longrightarrow> length it = length key + 1 + length v \<and> drop (length key + 1) it = v"
proof -
  have l: "length (item_key it) = length key" using assms by (metis fold_key_def item_name_def length_map)
  have s: "it = item_key it @ (case item_val it of None \<Rightarrow> [] | Some v \<Rightarrow> 0x3D # v)" by (rule item_split)
  then show "length key \<le> length it" using l by (metis length_append le_add1)
  show "length it = length key" if "item_val it = None" using s that l by (metis append_Nil2 option.simps(4))
  show "length it = length key + 1 + length v \<and> drop (length key + 1) it = v" if "item_val it = Some v"
  proof -
    have "it = item_key it @ 0x3D # v" using s that by simp
    then show ?thesis using l by (metis Suc_eq_plus1 add_Suc_right append_eq_conv_conj drop_Suc_Cons drop_drop drop0 length_Cons length_append add.commute add_Suc_shift)
  qed
qed

text \<open>What the reading functions return for a key\<close>

lemma lookup_rep:
  assumes "txt_rep t its" "0x3D \<notin> set key"
  shows "TXTRecordContainsKey (txt_datalen t) (buffer_bytes t) key = Some (txt_dict its (fold_key key) \<noteq> None)"
    and "case txt_dict its (fold_key key) of
        Some (Some v) \<Rightarrow> \<exists>i. TXTRecordGetValuePtr (txt_datalen t) (buffer_bytes t) key = Some (Some (i, of_nat (length v)))
          \<and> read_bytes (buffer_bytes t) i (length v) = Some v
      | x \<Rightarrow> TXTRecordGetValuePtr (txt_datalen t) (buffer_bytes t) key = Some None"
proof -
  define before where "before = takeWhile (\<lambda>it. \<not> key_is key it) its"
  obtain post where r: "buffer_bytes t = txt_wire its @ post" "small_items its"
    using assms(1) by (rule txt_repE)
  note f = find_name [OF assms(2), of its, unfolded Let_def before_def [symmetric]]
  note search = search_rep [OF assms(1), of key, unfolded Let_def before_def [symmetric]]
  show "TXTRecordContainsKey (txt_datalen t) (buffer_bytes t) key = Some (txt_dict its (fold_key key) \<noteq> None)"
    using f by (auto simp: TXTRecordContainsKey_def search split: if_splits)
  show "case txt_dict its (fold_key key) of
        Some (Some v) \<Rightarrow> \<exists>i. TXTRecordGetValuePtr (txt_datalen t) (buffer_bytes t) key = Some (Some (i, of_nat (length v)))
          \<and> read_bytes (buffer_bytes t) i (length v) = Some v
      | x \<Rightarrow> TXTRecordGetValuePtr (txt_datalen t) (buffer_bytes t) key = Some None"
  proof (cases "length before < length its")
    case False
    then show ?thesis using f by (simp add: TXTRecordGetValuePtr_def search)
  next
    case True
    then obtain it after where it: "its = before @ it # after" "item_name it = fold_key key"
      "txt_dict its (fold_key key) = Some (item_val it)" using f by auto
    obtain n where n: "read_byte (buffer_bytes t) (length (txt_wire before)) = Some n" "unat n = length it"
      using r by (simp add: it(1) read_byte_def)
    show ?thesis
    proof (cases "item_val it")
      case None
      then have "length it = length key" using item_layout(2) [OF it(2)] by simp
      then show ?thesis using True n it(3) None by (simp add: TXTRecordGetValuePtr_def search)
    next
      case (Some v)
      then have l: "length it = length key + 1 + length v" "drop (length key + 1) it = v"
        using item_layout(3) [OF it(2)] by blast+
      have "read_bytes (buffer_bytes t) (length (txt_wire before) + 1 + length key + 1) (length v) = Some v"
        using l by (simp add: r(1) it(1) read_bytes_def)
      then show ?thesis using True n it(3) Some l(1) by (auto simp: TXTRecordGetValuePtr_def search)
    qed
  qed
qed

text \<open>
  A text record is a dictionary.  If it holds items with distinct keys and \<open>TXTRecordSetValue\<close> succeeds for a
  key, then for every key afterwards, in any case, \<open>TXTRecordContainsKey\<close> and \<open>TXTRecordGetValuePtr\<close> answer as
  before except for the key just set: that is present, and its value is found, byte for byte, in the buffer.
\<close>

theorem text_record_set_get:
  assumes "txt_rep t its" "one_per_key its" "length v \<le> 255"
    "TXTRecordSetValue t key (of_nat (length v)) (Some v) = Some (t', NoError)" "0x3D \<notin> set key'"
  shows "if fold_key key' = fold_key key
    then TXTRecordContainsKey (txt_datalen t') (buffer_bytes t') key' = Some True
      \<and> (\<exists>i. TXTRecordGetValuePtr (txt_datalen t') (buffer_bytes t') key' = Some (Some (i, of_nat (length v)))
          \<and> read_bytes (buffer_bytes t') i (length v) = Some v)
    else TXTRecordContainsKey (txt_datalen t') (buffer_bytes t') key' = TXTRecordContainsKey (txt_datalen t) (buffer_bytes t) key'
      \<and> map_option (map_option snd) (TXTRecordGetValuePtr (txt_datalen t') (buffer_bytes t') key')
          = map_option (map_option snd) (TXTRecordGetValuePtr (txt_datalen t) (buffer_bytes t) key')"
proof -
  have "val_len (Some v) = (if Some v = None then 0 else 1 + unat (of_nat (length v) :: u8))" using assms(3) by (simp add: val_len_def)
  from TXTRecordSetValue_rep [OF assms(1) this, of key] obtain its' where s: "set_spec its key (Some v) = (its', NoError)" "txt_rep t' its'"
    using assms(4) by (metis fst_conv option.inject snd_conv surj_pair)
  then have d: "txt_dict its' = (txt_dict its)(fold_key key := Some (Some v))" using set_spec_dict(2) [OF assms(2)] by blast
  note new = lookup_rep [OF s(2) assms(5)] and old = lookup_rep [OF assms(1,5)]
  show ?thesis
  proof (cases "fold_key key' = fold_key key")
    case True
    then show ?thesis using new by (simp add: d)
  next
    case False
    then show ?thesis using new old by (auto simp: d split: option.splits)
  qed
qed

definition demo_txt :: txt_record where
  "demo_txt = \<lparr>txt_buffer = Some [1, 65, 9, 9, 9, 9], txt_buflen = 6, txt_datalen = 2, txt_malloced = False\<rparr>"

theorem text_record_set_get_witness:
  "\<exists>t i. TXTRecordSetValue demo_txt [97] 1 (Some [7]) = Some (t, NoError)
    \<and> TXTRecordGetValuePtr (txt_datalen t) (buffer_bytes t) [65] = Some (Some (i, 1)) \<and> read_bytes (buffer_bytes t) i 1 = Some [7]"
proof -
  have r: "txt_rep demo_txt [[65]]" "one_per_key [[65]]"
    by (simp_all add: txt_rep_def demo_txt_def buffer_bytes_def one_per_key_def)
  have "\<exists>t. TXTRecordSetValue demo_txt [97] 1 (Some [7]) = Some (t, NoError)"
    using TXTRecordSetValue_rep [OF r(1), of "Some [7]" 1 "[97]"]
    by (auto simp: val_len_def set_spec_def key_ok_def key_char_ok_def item_of_def key_is_def to_lower_def)
  then obtain t where "TXTRecordSetValue demo_txt [97] 1 (Some [7]) = Some (t, NoError)" by blast
  then show ?thesis using text_record_set_get [OF r, of "[7]" "[97]" t "[65]"] by (auto simp: fold_key_def to_lower_def)
qed

section \<open>Enumeration\<close>

lemma txt_count_items:
  "small_items its \<Longrightarrow>
    txt_count (pre @ txt_wire its @ post) (length pre + length (txt_wire its)) (length pre) n = Some (n + of_nat (length its))"
proof (induction its arbitrary: pre n)
  case Nil
  then show ?case by (simp add: txt_count.simps)
next
  case (Cons it its)
  then show ?case using Cons.IH [of "pre @ of_nat (length it) # it" "n + 1"]
    by (subst txt_count.simps) (simp add: read_byte_def add.assoc)
qed

lemma skip_items_items:
  "small_items its \<Longrightarrow> k \<le> length its \<Longrightarrow>
    skip_items (pre @ txt_wire its @ post) (length pre + length (txt_wire its)) (length pre) k = Some (length pre + length (txt_wire (take k its)))"
proof (induction its arbitrary: pre k)
  case (Cons it its)
  then show ?case using Cons.IH [of "k - 1" "pre @ of_nat (length it) # it"]
    by (cases k) (simp_all add: read_byte_def add.assoc)
qed simp

lemma skip_items_stop: "e \<le> p \<Longrightarrow> skip_items txt e p k = Some p"
  by (cases k) simp_all

lemma skip_items_add: "skip_items txt e p (j + k) = do { p \<leftarrow> skip_items txt e p j; skip_items txt e p k }"
  by (induction j arbitrary: p) (auto simp: skip_items_stop)

lemma until_equals_item:
  "pre = length w \<Longrightarrow> until_equals (w @ it @ post) pre (pre + length it) (length it - length suf) = Some (length it - length (dropWhile (\<lambda>c. c \<noteq> 0x3D) suf))"
  if "it = pfx @ suf"
  using that
proof (induction suf arbitrary: pfx)
  case Nil
  then show ?case by (simp add: until_equals.simps)
next
  case (Cons c suf)
  then have l: "read_byte (w @ it @ post) (pre + (length it - length (c # suf))) = Some c" by (simp add: read_byte_def nth_append)
  show ?case
  proof (cases "c = 0x3D")
    case True
    then show ?thesis using l Cons.prems by (subst until_equals.simps) simp
  next
    case False
    have "until_equals (w @ it @ post) pre (pre + length it) (length it - length suf) = Some (length it - length (dropWhile (\<lambda>c. c \<noteq> 0x3D) suf))"
      by (rule Cons.IH [where pfx = "pfx @ [c]"]) (use Cons.prems in simp_all)
    moreover have "Suc (length it - length (c # suf)) = length it - length suf" using Cons.prems by simp
    ultimately show ?thesis using l False Cons.prems by (subst until_equals.simps) (simp add: Suc_diff_Suc)
  qed
qed

lemma length_its_wire: "length its \<le> length (txt_wire its)"
  by (induction its) auto

text \<open>
  A text record can be enumerated.  \<open>TXTRecordGetCount\<close> is the number of items.  For an index below it
  \<open>TXTRecordGetItemAtIndex\<close> copies the key with a NUL, and returns the place and length of the value, or NULL
  for an item without one; the key buffer has to be longer than the key, else the error is \<open>NoMemory\<close> and
  nothing is written.  For other indices the error is \<open>Invalid\<close>.
\<close>

theorem text_record_enumerates:
  assumes "txt_rep t its" "unat n \<le> length key"
  shows "TXTRecordGetCount (txt_datalen t) (buffer_bytes t) = Some (of_nat (length its))
    \<and> (if unat i < length its then
        let it = its ! unat i; k = length (item_key it) in
        if unat n \<le> k then TXTRecordGetItemAtIndex (txt_datalen t) (buffer_bytes t) i n key = Some (NoMemory, key, 0, None)
        else \<exists>off. TXTRecordGetItemAtIndex (txt_datalen t) (buffer_bytes t) i n key =
              Some (NoError, write_bytes key 0 (item_key it @ [0]), of_nat (val_len (item_val it) - 1), off)
            \<and> (case item_val it of None \<Rightarrow> off = None
               | Some v \<Rightarrow> \<exists>j. off = Some j \<and> read_bytes (buffer_bytes t) j (length v) = Some v)
      else TXTRecordGetItemAtIndex (txt_datalen t) (buffer_bytes t) i n key = Some (Invalid, key, 0, None))"
proof (intro conjI)
  obtain post where r: "buffer_bytes t = txt_wire its @ post" "unat (txt_datalen t) = length (txt_wire its)" "small_items its"
    using assms(1) by (rule txt_repE)
  show "TXTRecordGetCount (txt_datalen t) (buffer_bytes t) = Some (of_nat (length its))"
    using txt_count_items [OF r(3), of "[]" post 0] by (simp add: TXTRecordGetCount_def r(1,2))
  have skip: "skip_items (buffer_bytes t) (unat (txt_datalen t)) 0 k = Some (length (txt_wire (take k its)))" if "k \<le> length its" for k
    using skip_items_items [OF r(3) that, of "[]" post] by (simp add: r(1,2))
  show "if unat i < length its then
        let it = its ! unat i; k = length (item_key it) in
        if unat n \<le> k then TXTRecordGetItemAtIndex (txt_datalen t) (buffer_bytes t) i n key = Some (NoMemory, key, 0, None)
        else \<exists>off. TXTRecordGetItemAtIndex (txt_datalen t) (buffer_bytes t) i n key =
              Some (NoError, write_bytes key 0 (item_key it @ [0]), of_nat (val_len (item_val it) - 1), off)
            \<and> (case item_val it of None \<Rightarrow> off = None
               | Some v \<Rightarrow> \<exists>j. off = Some j \<and> read_bytes (buffer_bytes t) j (length v) = Some v)
      else TXTRecordGetItemAtIndex (txt_datalen t) (buffer_bytes t) i n key = Some (Invalid, key, 0, None)"
  proof (cases "unat i < length its")
    case False
    then have "skip_items (buffer_bytes t) (unat (txt_datalen t)) 0 (unat i) = Some (length (txt_wire its))"
      using skip [of "length its"] skip_items_add [of "buffer_bytes t" "unat (txt_datalen t)" 0 "length its" "unat i - length its"]
      by (simp add: r(2) skip_items_stop)
    then show ?thesis using False by (simp add: TXTRecordGetItemAtIndex_def r(2))
  next
    case True
    define before where "before = take (unat i) its"
    define it where "it = its ! unat i"
    obtain after where its: "its = before @ it # after" using id_take_nth_drop [OF True] by (simp add: before_def it_def)
    have p: "skip_items (buffer_bytes t) (unat (txt_datalen t)) 0 (unat i) = Some (length (txt_wire before))"
      using skip [of "unat i"] True by (simp add: before_def)
    obtain c where c: "read_byte (buffer_bytes t) (length (txt_wire before)) = Some c" "unat c = length it"
      using r(1,3) by (simp add: its read_byte_def)
    have buf: "buffer_bytes t = (txt_wire before @ [of_nat (length it)]) @ it @ txt_wire after @ post" by (simp add: r(1) its)
    have k: "length it - length (dropWhile (\<lambda>c. c \<noteq> 0x3D) it) = length (item_key it)"
      by (metis add_diff_cancel_right' item_key_def length_append takeWhile_dropWhile_id)
    have u: "until_equals (buffer_bytes t) (length (txt_wire before) + 1) (length (txt_wire before) + 1 + length it) 0 = Some (length (item_key it))"
      using until_equals_item [of it "[]" it "length (txt_wire before) + 1" "txt_wire before @ [of_nat (length it)]" "txt_wire after @ post"] k
      unfolding buf by simp
    note split = item_split [of it]
    have keyb: "read_bytes (buffer_bytes t) (length (txt_wire before) + 1) (length (item_key it)) = Some (item_key it)"
    proof -
      have "length (item_key it) \<le> length it" "take (length (item_key it)) it = item_key it"
        by (metis split length_append le_add1) (metis append_eq_conv_conj split)
      then show ?thesis unfolding buf by (simp add: read_bytes_def)
    qed
    have e: "length (txt_wire before) + 1 + length it \<le> unat (txt_datalen t)" by (simp add: r(2) its)
    have w: "(if length (item_key it) + 1 \<le> length key then Some (write_bytes key 0 (item_key it @ [0])) else None)
        = Some (write_bytes key 0 (item_key it @ [0]))" if "\<not> unat n \<le> length (item_key it)"
      using that assms(2) by simp
    show ?thesis
    proof (cases "unat n \<le> length (item_key it)")
      case True
      then show ?thesis using p c u e \<open>unat i < length its\<close>
        by (simp add: TXTRecordGetItemAtIndex_def it_def [symmetric] Let_def)
    next
      case False
      show ?thesis
      proof (cases "item_val it")
        case None
        then have "length (item_key it) = length it" using split by (metis append_Nil2 option.simps(4))
        then show ?thesis using False p c u e w [OF False] keyb None \<open>unat i < length its\<close>
          by (simp add: TXTRecordGetItemAtIndex_def it_def [symmetric] Let_def val_len_def)
      next
        case (Some v)
        then have s: "it = item_key it @ 0x3D # v" using split by simp
        then have l: "length it = length (item_key it) + 1 + length v" "drop (length (item_key it) + 1) it = v"
          by (metis length_append length_Cons add_Suc_right Suc_eq_plus1 add_Suc_shift add.commute,
              metis append_eq_conv_conj drop_drop drop0 drop_Suc_Cons add.commute One_nat_def)
        have "read_bytes (buffer_bytes t) (length (txt_wire before) + 1 + length (item_key it) + 1) (length v) = Some v"
          unfolding buf using l by (simp add: read_bytes_def)
        then show ?thesis using False p c u e w [OF False] keyb Some l(1) \<open>unat i < length its\<close>
          by (simp add: TXTRecordGetItemAtIndex_def it_def [symmetric] Let_def val_len_def)
      qed
    qed
  qed
qed

theorem text_record_enumerates_witness:
  "TXTRecordGetCount 2 [1, 65, 9, 9, 9, 9] = Some 1
    \<and> TXTRecordGetItemAtIndex 2 [1, 65, 9, 9, 9, 9] 0 4 [7, 7, 7, 7] = Some (NoError, [65, 0, 7, 7], 0, None)"
proof -
  have r: "txt_rep demo_txt [[65]]" by (simp add: txt_rep_def demo_txt_def buffer_bytes_def)
  show ?thesis using text_record_enumerates [OF r, of 4 "[7, 7, 7, 7]" 0]
    by (simp add: demo_txt_def buffer_bytes_def item_key_def item_val_def val_len_def write_bytes_def)
qed

end
