(* ===== verification/Dnssd_Client_Claims.thy ===== *)
theory Dnssd_Client_Claims imports Dnssd_Txt_Claims begin

text \<open>
  Text records from the network, which hold any bytes, and full names of services.
\<close>

section \<open>Parsing is safe\<close>

lemma same_key_some: "i + length key \<le> length tx \<Longrightarrow> \<exists>b. same_key tx i key = Some b"
  using same_key_take by blast

lemma item_matches_some:
  assumes "p = x + 1 + unat n" "e \<le> length tx"
  shows "\<exists>b. item_matches tx e key x n p = Some b \<and> (b \<longrightarrow> p \<le> e \<and> length key \<le> unat n)"
proof (cases "p \<le> e \<and> length key \<le> unat n")
  case True
  then obtain b where b: "same_key tx (x + 1) key = Some b" using same_key_some [of "x + 1" key tx] assms by auto
  have "\<exists>c. read_byte tx (x + 1 + length key) = Some c" if "length key \<noteq> unat n"
    using True assms that by (simp add: read_byte_def)
  then show ?thesis using True b by (auto simp: item_matches_def)
next
  case False
  then show ?thesis by (auto simp: item_matches_def)
qed

lemma txt_search_some:
  "e \<le> length tx \<Longrightarrow> \<exists>r. txt_search tx e key p = Some r
    \<and> (\<forall>x. r = Some x \<longrightarrow> p \<le> x \<and> (\<exists>n. read_byte tx x = Some n \<and> x + 1 + unat n \<le> e \<and> length key \<le> unat n))"
proof (induction tx e key p rule: txt_search.induct)
  case (1 tx e key p)
  show ?case
  proof (cases "p < e")
    case True
    then have n: "read_byte tx p = Some (tx ! p)" using 1(2) by (simp add: read_byte_def)
    obtain b where b: "item_matches tx e key p (tx ! p) (p + 1 + unat (tx ! p)) = Some b"
      "b \<longrightarrow> p + 1 + unat (tx ! p) \<le> e \<and> length key \<le> unat (tx ! p)"
      using item_matches_some [OF refl 1(2)] by blast
    show ?thesis
    proof (cases b)
      case True
      then show ?thesis using n b \<open>p < e\<close> by (subst txt_search.simps) simp
    next
      case False
      then obtain r where "txt_search tx e key (p + 1 + unat (tx ! p)) = Some r"
        "\<forall>x. r = Some x \<longrightarrow> p + 1 + unat (tx ! p) \<le> x \<and> (\<exists>n. read_byte tx x = Some n \<and> x + 1 + unat n \<le> e \<and> length key \<le> unat n)"
        using 1(1) [OF True n b(1) False 1(2)] by blast
      then show ?thesis using n b(1) \<open>p < e\<close> False by (subst txt_search.simps) fastforce
    qed
  next
    case False
    then show ?thesis by (subst txt_search.simps) simp
  qed
qed

lemma txt_count_some: "e \<le> length tx \<Longrightarrow> \<exists>r. txt_count tx e p n = Some r"
proof (induction tx e p n rule: txt_count.induct)
  case (1 tx e p n)
  then show ?case by (subst txt_count.simps) (auto simp: read_byte_def)
qed

lemma skip_items_some: "e \<le> length tx \<Longrightarrow> \<exists>r. skip_items tx e p k = Some r"
  by (induction k arbitrary: p) (auto simp: read_byte_def)

lemma until_equals_some:
  "e \<le> length tx \<Longrightarrow> x + len \<le> e \<Longrightarrow> \<exists>r. until_equals tx x e len = Some r \<and> x + r \<le> e"
proof (induction tx x e len rule: until_equals.induct)
  case (1 tx x e len)
  then show ?case by (subst until_equals.simps) (auto simp: read_byte_def)
qed

text \<open>
  C17. Parsing is safe on every text record, whatever bytes it holds.  With a length that the memory has, every
  function returns, reads no byte behind the length, and any value it returns lies within it;
  \<open>TXTRecordGetItemAtIndex\<close> writes at most the said number of bytes of the key buffer.
\<close>

theorem text_record_parse_safe:
  assumes "unat len \<le> length tx" "unat n \<le> length kb"
  shows "(\<exists>b. TXTRecordContainsKey len tx key = Some b)
    \<and> (\<exists>r. TXTRecordGetValuePtr len tx key = Some r \<and> (\<forall>i k. r = Some (i, k) \<longrightarrow> i + unat k \<le> unat len))
    \<and> (\<exists>c. TXTRecordGetCount len tx = Some c)
    \<and> (\<exists>err kb' k v. TXTRecordGetItemAtIndex len tx j n kb = Some (err, kb', k, v) \<and> length kb' = length kb
        \<and> drop (unat n) kb' = drop (unat n) kb \<and> (\<forall>i. v = Some i \<longrightarrow> i + unat k \<le> unat len))"
proof (intro conjI)
  obtain r where r: "InternalTXTRecordSearch len tx key = Some r"
    "\<And>x. r = Some x \<Longrightarrow> \<exists>n. read_byte tx x = Some n \<and> x + 1 + unat n \<le> unat len \<and> length key \<le> unat n"
    using txt_search_some [OF assms(1), of key 0] by (auto simp: InternalTXTRecordSearch_def)
  show "\<exists>b. TXTRecordContainsKey len tx key = Some b" by (simp add: TXTRecordContainsKey_def r(1))
  show "\<exists>r. TXTRecordGetValuePtr len tx key = Some r \<and> (\<forall>i k. r = Some (i, k) \<longrightarrow> i + unat k \<le> unat len)"
  proof (cases r)
    case None
    then show ?thesis by (simp add: TXTRecordGetValuePtr_def r(1))
  next
    case (Some x)
    then obtain c where c: "read_byte tx x = Some c" "x + 1 + unat c \<le> unat len" using r(2) by blast
    have "unat (of_nat (unat c - (length key + 1)) :: u8) = unat c - (length key + 1)"
      using unsigned_less [of c, where ?'a = nat] by (intro unat_of_nat_u8) simp
    then show ?thesis using Some c by (auto simp: TXTRecordGetValuePtr_def r(1) simp del: of_nat_diff)
  qed
  show "\<exists>c. TXTRecordGetCount len tx = Some c"
    using txt_count_some [OF assms(1)] by (simp add: TXTRecordGetCount_def)
  obtain p where p: "skip_items tx (unat len) 0 (unat j) = Some p" using skip_items_some [OF assms(1)] by blast
  show "\<exists>err kb' k v. TXTRecordGetItemAtIndex len tx j n kb = Some (err, kb', k, v) \<and> length kb' = length kb
        \<and> drop (unat n) kb' = drop (unat n) kb \<and> (\<forall>i. v = Some i \<longrightarrow> i + unat k \<le> unat len)"
  proof (cases "p < unat len")
    case False
    then show ?thesis by (simp add: TXTRecordGetItemAtIndex_def p)
  next
    case True
    then have c: "read_byte tx p = Some (tx ! p)" using assms(1) by (simp add: read_byte_def)
    show ?thesis
    proof (cases "p + 1 + unat (tx ! p) \<le> unat len")
      case False
      then show ?thesis using True by (simp add: TXTRecordGetItemAtIndex_def p c)
    next
      case fits: True
      then obtain k where k: "until_equals tx (p + 1) (p + 1 + unat (tx ! p)) 0 = Some k" "k \<le> unat (tx ! p)"
        using until_equals_some [of "p + 1 + unat (tx ! p)" tx "p + 1" 0] assms(1) by auto
      show ?thesis
      proof (cases "k \<ge> unat n")
        case True
        then show ?thesis using \<open>p < unat len\<close> fits k(1) by (simp add: TXTRecordGetItemAtIndex_def p c Let_def)
      next
        case False
        let ?w = "write_bytes kb 0 (take k (drop (p + 1) tx) @ [0])"
        have b: "read_bytes tx (p + 1) k = Some (take k (drop (p + 1) tx))" "k + 1 \<le> length kb"
          using k(2) fits assms False by (simp_all add: read_bytes_def)
        have "length (take k (drop (p + 1) tx)) = k" using k(2) fits assms(1) by simp
        then have w: "length ?w = length kb" "drop (unat n) ?w = drop (unat n) kb"
          using False b(2) by (simp_all add: write_bytes_def drop_Cons')
        have "unat (of_nat (unat (tx ! p) - (k + 1)) :: u8) = unat (tx ! p) - (k + 1)"
          using unsigned_less [of "tx ! p", where ?'a = nat] by (intro unat_of_nat_u8) simp
        then show ?thesis using \<open>p < unat len\<close> fits k False b w
          by (cases "k = unat (tx ! p)") (simp_all add: TXTRecordGetItemAtIndex_def p c Let_def del: of_nat_diff)
      qed
    qed
  qed
qed

theorem text_record_parse_safe_witness:
  "\<exists>r. TXTRecordGetValuePtr 3 [200, 61, 61] [61] = Some r \<and> (\<exists>c. TXTRecordGetCount 3 [200, 61, 61] = Some c)"
  using text_record_parse_safe [of 3 "[200, 61, 61]" 0 "[]" "[61]" 0] by auto

section \<open>Full names\<close>

text \<open>\<open>fn\<close> characters of a name stand in the memory; at most the first 1006 bytes have changed.\<close>

definition written :: "bytes \<Rightarrow> bytes \<Rightarrow> bytes \<times> nat \<Rightarrow> bool" where
  "written b w st \<longleftrightarrow> (case st of (b', fn) \<Rightarrow>
     length b' = length b \<and> fn = length w \<and> fn \<le> fn_lim \<and> take fn b' = w \<and> drop 1006 b' = drop 1006 b)"

lemma put_char_written:
  assumes "written b w st" "length w < fn_lim" "1006 \<le> length b"
  shows "\<exists>st'. put_char st c = Some st' \<and> written b (w @ [c]) st'"
proof -
  obtain b' fn where st: "st = (b', fn)" by (cases st)
  have w: "length b' = length b" "fn = length w" "take fn b' = w" "drop 1006 b' = drop 1006 b" "fn < 1005"
    using assms(1,2) by (auto simp: written_def st fn_lim_def)
  then have "take (Suc fn) (b'[fn := c]) = w @ [c]" using assms(3) by (simp add: take_Suc_conv_app_nth)
  then show ?thesis using w assms(3) by (simp add: put_char_def st written_def fn_lim_def)
qed

text \<open>Going on or the jump to \<open>fail\<close>\<close>

definition goes_on :: "bytes \<Rightarrow> bytes \<Rightarrow> bool \<Rightarrow> ((bytes \<times> nat) + (bytes \<times> nat)) option \<Rightarrow> bool" where
  "goes_on b w ok r \<longleftrightarrow> (if ok then \<exists>st. r = Some (Inr st) \<and> written b w st else \<exists>st w'. r = Some (Inl st) \<and> written b w' st)"

lemma put_plain_written:
  "written b w st \<Longrightarrow> 1006 \<le> length b \<Longrightarrow> goes_on b (w @ s) (s = [] \<or> length w + length s < fn_lim) (put_plain st s)"
proof (induction s arbitrary: w st)
  case Nil
  then show ?case by (simp add: goes_on_def)
next
  case (Cons c s)
  have fn: "snd st = length w" using Cons.prems(1) by (auto simp: written_def)
  show ?case
  proof (cases "snd st + 1 \<ge> fn_lim")
    case True
    then show ?thesis using fn Cons.prems(1) by (auto simp: goes_on_def)
  next
    case False
    then obtain st' where st': "put_char st c = Some st'" "written b (w @ [c]) st'"
      using put_char_written [OF Cons.prems(1) _ Cons.prems(2), of c] fn by fastforce
    have "goes_on b (w @ c # s) (s = [] \<or> length w + length (c # s) < fn_lim) (put_plain st' s)"
      using Cons.IH [OF st'(2) Cons.prems(2)] by simp
    then show ?thesis using False fn st'(1) by (cases s) (simp_all add: goes_on_def)
  qed
qed

definition escape :: "u8 \<Rightarrow> bytes" where
  "escape c = (if c \<le> 0x20 then [0x5C, 0x30 + c div 100, 0x30 + (c div 10) mod 10, 0x30 + c mod 10]
     else if c = 0x2E \<or> c = 0x5C then [0x5C, c] else [c])"

lemma put_chars_written:
  assumes "written b w st" "length w + 4 < fn_lim" "1006 \<le> length b"
  shows "\<exists>st'. (do { st \<leftarrow> put_char st c1; st \<leftarrow> put_char st c2; st \<leftarrow> put_char st c3; st \<leftarrow> put_char st c4; Some (Inr st) }) = Some (Inr st')
    \<and> written b (w @ [c1, c2, c3, c4]) st'"
proof -
  have "length w < fn_lim" using assms(2) by simp
  then obtain s1 where 1: "put_char st c1 = Some s1" "written b (w @ [c1]) s1"
    using put_char_written [OF assms(1) _ assms(3)] by blast
  obtain s2 where 2: "put_char s1 c2 = Some s2" "written b (w @ [c1, c2]) s2"
    using put_char_written [OF 1(2) _ assms(3), of c2] assms(2) by auto
  obtain s3 where 3: "put_char s2 c3 = Some s3" "written b (w @ [c1, c2, c3]) s3"
    using put_char_written [OF 2(2) _ assms(3), of c3] assms(2) by auto
  obtain s4 where 4: "put_char s3 c4 = Some s4" "written b (w @ [c1, c2, c3, c4]) s4"
    using put_char_written [OF 3(2) _ assms(3), of c4] assms(2) by auto
  show ?thesis using 1(1) 2(1) 3(1) 4 by simp
qed

lemma put_service_char_written:
  assumes "written b w st" "1006 \<le> length b"
  shows "goes_on b (w @ escape c) (length w + length (escape c) < fn_lim) (put_service_char st c)"
proof -
  have fn: "snd st = length w" using assms(1) by (auto simp: written_def)
  consider "c \<le> 0x20" | "\<not> c \<le> 0x20" "c = 0x2E \<or> c = 0x5C" | "\<not> c \<le> 0x20" "\<not> (c = 0x2E \<or> c = 0x5C)" by blast
  then show ?thesis
  proof cases
    case 1
    then show ?thesis
      using put_chars_written [OF assms(1) _ assms(2), of "0x5C" "0x30 + c div 100" "0x30 + (c div 10) mod 10" "0x30 + c mod 10"] assms(1) fn
      by (auto simp: goes_on_def put_service_char_def escape_def not_le)
  next
    case 2
    show ?thesis
    proof (cases "length w + 2 < fn_lim")
      case True
      then have "length w < fn_lim" by simp
      then obtain s1 where s1: "put_char st 0x5C = Some s1" "written b (w @ [0x5C]) s1"
        using put_char_written [OF assms(1) _ assms(2)] by blast
      obtain s2 where "put_char s1 c = Some s2" "written b (w @ [0x5C, c]) s2"
        using put_char_written [OF s1(2) _ assms(2), of c] True by auto
      then show ?thesis using 2 s1(1) fn True by (auto simp: goes_on_def put_service_char_def escape_def)
    next
      case False
      then show ?thesis using 2 fn assms(1) by (auto simp: goes_on_def put_service_char_def escape_def)
    qed
  next
    case 3
    then show ?thesis using put_char_written [OF assms(1) _ assms(2), of c] assms(1) fn
      by (cases st) (auto simp: goes_on_def put_service_char_def escape_def not_le)
  qed
qed

lemma put_service_written:
  "written b w st \<Longrightarrow> 1006 \<le> length b \<Longrightarrow>
    goes_on b (w @ concat (map escape s)) (s = [] \<or> length w + length (concat (map escape s)) < fn_lim) (put_service st s)"
proof (induction s arbitrary: w st)
  case Nil
  then show ?case by (simp add: goes_on_def)
next
  case (Cons c s)
  have one: "goes_on b (w @ escape c) (length w + length (escape c) < fn_lim) (put_service_char st c)"
    by (rule put_service_char_written [OF Cons.prems])
  show ?case
  proof (cases "length w + length (escape c) < fn_lim")
    case True
    then obtain st' where st': "put_service_char st c = Some (Inr st')" "written b (w @ escape c) st'"
      using one by (auto simp: goes_on_def)
    have "goes_on b ((w @ escape c) @ concat (map escape s)) (s = [] \<or> length (w @ escape c) + length (concat (map escape s)) < fn_lim) (put_service st' s)"
      by (rule Cons.IH [OF st'(2) Cons.prems(2)])
    then show ?thesis using st'(1) True by (cases s) (simp_all add: goes_on_def add.assoc)
  next
    case False
    then show ?thesis using one by (auto simp: goes_on_def)
  qed
qed

lemma three_digits_some: "i < length s \<Longrightarrow> \<exists>b. three_digits s i = Some b \<and> (b \<longrightarrow> i + 3 \<le> length s)"
  by (auto simp: three_digits_def digit_at_def char_at_def is_digit_def)

lemma ends_in_dot_some: "i \<le> length s \<Longrightarrow> \<exists>b. ends_in_dot_loop s i = Some b"
proof (induction s i rule: ends_in_dot_loop.induct)
  case (1 s i)
  obtain c0 where c0: "char_at s i = Some c0" using 1(4) by (cases "i < length s") (simp_all add: char_at_def)
  show ?case
  proof (cases "c0 = 0")
    case True
    then show ?thesis using c0 by (subst ends_in_dot_loop.simps) auto
  next
    case nz: False
    then have i: "i < length s" using c0 1(4) by (auto simp: char_at_def split: if_splits)
    then obtain c1 where c1: "char_at s (i + 1) = Some c1" by (cases "Suc i < length s") (simp_all add: char_at_def)
    obtain ddd where d: "three_digits s (i + 1) = Some ddd" "ddd \<longrightarrow> i + 4 \<le> length s" if "c1 \<noteq> 0"
      using three_digits_some [of "i + 1" s] c1 i by (fastforce simp: char_at_def split: if_splits)
    show ?thesis
    proof (cases "c1 = 0")
      case True
      then show ?thesis using c0 c1 by (subst ends_in_dot_loop.simps) auto
    next
      case False
      then have "i + 2 \<le> length s" using c1 by (auto simp: char_at_def split: if_splits)
      then show ?thesis using c0 c1 nz False d [OF False] 1(1) [OF c0 nz c1 False] 1(2) [OF c0 nz c1 False] 1(3) [OF c0 nz c1 False]
        by (subst ends_in_dot_loop.simps) (cases "c0 = 0x5C"; cases ddd; auto)
    qed
  qed
qed

lemma DomainEndsInDot_some: "\<exists>b. DomainEndsInDot s = Some b"
  using ends_in_dot_some [of 0 s] by (simp add: DomainEndsInDot_def)

text \<open>A part with the dot that it lacks\<close>

definition dotted :: "bytes \<Rightarrow> bytes" where
  "dotted s = s @ (if DomainEndsInDot s = Some True then [] else [0x2E])"

lemma put_part_written:
  assumes "written b w st" "1006 \<le> length b" "s \<noteq> []"
  shows "goes_on b (w @ dotted s) (length w + length (dotted s) < fn_lim) (put_part st s)"
proof -
  obtain dot where dot: "DomainEndsInDot s = Some dot" using DomainEndsInDot_some by blast
  have one: "goes_on b (w @ s) (s = [] \<or> length w + length s < fn_lim) (put_plain st s)"
    by (rule put_plain_written [OF assms(1,2)])
  show ?thesis
  proof (cases "length w + length s < fn_lim")
    case True
    then obtain st' where st': "put_plain st s = Some (Inr st')" "written b (w @ s) st'" using one by (auto simp: goes_on_def)
    have "goes_on b ((w @ s) @ [0x2E]) (length (w @ s) + 1 < fn_lim) (put_plain st' [0x2E])"
      using put_plain_written [OF st'(2) assms(2), of "[0x2E]"] by simp
    then show ?thesis using st' dot True by (cases dot) (simp_all add: put_part_def dotted_def goes_on_def)
  next
    case False
    then obtain st' w' where "put_plain st s = Some (Inl st')" "written b w' st'" using one assms(3) by (auto simp: goes_on_def)
    then show ?thesis using False by (auto simp: put_part_def dotted_def goes_on_def)
  qed
qed

text \<open>The arguments that are accepted, and the name they stand for\<close>

definition name_args_ok :: "bytes \<Rightarrow> bytes \<Rightarrow> bool" where
  "name_args_ok r d \<longleftrightarrow> (let len = length r - (if DomainEndsInDot r = Some True then 1 else 0)
     in 6 \<le> len \<and> d \<noteq> [] \<and> is_protocol (take 4 (drop (len - 4) r)))"

definition full_name :: "bytes \<Rightarrow> bytes \<Rightarrow> bytes \<Rightarrow> bytes" where
  "full_name s r d = (if s = [] then [] else concat (map escape s) @ [0x2E]) @ dotted r @ dotted d"

lemma end_name_written:
  assumes "written b w st" "1006 \<le> length b"
  shows "\<exists>b'. end_name st err = Some (b', err) \<and> length b' = length b \<and> drop 1006 b' = drop 1006 b
    \<and> take (Suc (length w)) b' = w @ [0]"
proof -
  obtain b' fn where st: "st = (b', fn)" by (cases st)
  have w: "length b' = length b" "fn = length w" "take fn b' = w" "drop 1006 b' = drop 1006 b" "fn < 1006"
    using assms(1) by (auto simp: written_def st fn_lim_def)
  then have "take (Suc fn) (b'[fn := 0]) = w @ [0]" using assms(2) by (simp add: take_Suc_conv_app_nth)
  then show ?thesis using w assms(2) by (simp add: end_name_def put_char_def st)
qed

text \<open>Some string was left with its NUL within the first 1006 bytes.\<close>

definition left_string :: "bytes \<Rightarrow> (bytes \<times> dns_error) option \<Rightarrow> dns_error \<Rightarrow> (bytes \<Rightarrow> bool) \<Rightarrow> bool" where
  "left_string b r err P \<longleftrightarrow> (\<exists>b' w. r = Some (b', err) \<and> length b' = length b \<and> drop 1006 b' = drop 1006 b
     \<and> take (Suc (length w)) b' = w @ [0] \<and> P w)"

lemma end_name_left: "written b w st \<Longrightarrow> 1006 \<le> length b \<Longrightarrow> P w \<Longrightarrow> left_string b (end_name st err) err P"
  using end_name_written [of b w st err] by (auto simp: left_string_def)

text \<open>
  C18. \<open>DNSServiceConstructFullName\<close> with memory of 1006 bytes.  Arguments that are NULL, empty or too short, or a
  type that does not end in a protocol, give \<open>BadParam\<close> and write nothing.  Otherwise the escaped service, the
  type and the domain, each with its dot, are written if they have at most 1004 characters, else the error is
  \<open>BadParam\<close>; in both cases a NUL ends the string and no byte from the 1007th on is changed.
\<close>

theorem ConstructFullName_spec:
  assumes "1006 \<le> length b"
  shows "if name_args_ok r d
    then (let name = full_name s r d; r = DNSServiceConstructFullName b (Some s) (Some r) (Some d)
      in if length name < fn_lim then left_string b r NoError (\<lambda>w. w = name) else left_string b r BadParam (\<lambda>w. length w \<le> fn_lim))
    else DNSServiceConstructFullName b (Some s) (Some r) (Some d) = Some (b, BadParam)"
proof -
  obtain dot where dot: "DomainEndsInDot r = Some dot" using DomainEndsInDot_some by blast
  define len where "len = length r - (if dot then 1 else 0)"
  have eq: "name_args_ok r d \<longleftrightarrow> \<not> (len < 6 \<or> d = []) \<and> is_protocol (take 4 (drop (len - 4) r))"
    using dot by (auto simp: name_args_ok_def Let_def len_def)
  note unfold_code = DNSServiceConstructFullName_def Let_def option.case dot Option.bind_lunit len_def [symmetric]
  show ?thesis
  proof (cases "name_args_ok r d")
    case False
    then have "DNSServiceConstructFullName b (Some s) (Some r) (Some d) = Some (b, BadParam)"
      unfolding unfold_code using eq by auto
    then show ?thesis using False by simp
  next
    case True
    let ?s = "if s = [] then [] else concat (map escape s) @ [0x2E]"
    define part1 where "part1 = (if s = [] then Some (Inr (b, 0)) else do {
       x \<leftarrow> put_service (b, 0) s;
       (case x of Inl st \<Rightarrow> Some (Inl st) | Inr st \<Rightarrow> map_option Inr (put_char st 0x2E)) })"
    define rest where "rest = (\<lambda>st. do {
       x \<leftarrow> put_part st r;
       (case x of Inl st \<Rightarrow> end_name st BadParam
        | Inr st \<Rightarrow> do { x \<leftarrow> put_part st d; (case x of Inl st \<Rightarrow> end_name st BadParam | Inr st \<Rightarrow> end_name st NoError) }) })"
    have code: "DNSServiceConstructFullName b (Some s) (Some r) (Some d) =
      do { x \<leftarrow> part1; (case x of Inl st \<Rightarrow> end_name st BadParam | Inr st \<Rightarrow> rest st) }"
      unfolding unfold_code part1_def rest_def using True [unfolded eq] by simp
    have short: "length w \<le> fn_lim" if "written b w st" for w st using that by (auto simp: written_def)
    have zero: "written b [] (b, 0)" by (simp add: written_def)
    have p1: "\<exists>x. part1 = Some x \<and> (case x of
        Inl st \<Rightarrow> fn_lim \<le> length ?s \<and> (\<exists>w. written b w st) | Inr st \<Rightarrow> written b ?s st)"
    proof (cases "s = []")
      case True
      then show ?thesis using zero by (simp add: part1_def)
    next
      case False
      have g: "goes_on b ([] @ concat (map escape s)) (s = [] \<or> length ([] :: bytes) + length (concat (map escape s)) < fn_lim) (put_service (b, 0) s)"
        by (rule put_service_written [OF zero assms])
      show ?thesis
      proof (cases "length (concat (map escape s)) < fn_lim")
        case True
        then obtain st where st: "put_service (b, 0) s = Some (Inr st)" "written b (concat (map escape s)) st"
          using g by (auto simp: goes_on_def)
        obtain st' where "put_char st 0x2E = Some st'" "written b (concat (map escape s) @ [0x2E]) st'"
          using put_char_written [OF st(2) True assms, of "0x2E"] by blast
        then show ?thesis using st(1) False by (simp add: part1_def)
      next
        case long: False
        then obtain st w where "put_service (b, 0) s = Some (Inl st)" "written b w st" using g False by (auto simp: goes_on_def)
        then show ?thesis using False long by (auto simp: part1_def)
      qed
    qed
    have ne: "r \<noteq> []" "d \<noteq> []" using True by (auto simp: name_args_ok_def Let_def)
    have p2: "if length (w @ dotted r @ dotted d) < fn_lim then left_string b (rest st) NoError (\<lambda>v. v = w @ dotted r @ dotted d)
        else left_string b (rest st) BadParam (\<lambda>v. length v \<le> fn_lim)" if w: "written b w st" for w st
    proof (cases "length w + length (dotted r) < fn_lim")
      case True
      then obtain st1 where st1: "put_part st r = Some (Inr st1)" "written b (w @ dotted r) st1"
        using put_part_written [OF w assms ne(1)] by (auto simp: goes_on_def)
      have g: "goes_on b ((w @ dotted r) @ dotted d) (length (w @ dotted r) + length (dotted d) < fn_lim) (put_part st1 d)"
        by (rule put_part_written [OF st1(2) assms ne(2)])
      show ?thesis
      proof (cases "length (w @ dotted r) + length (dotted d) < fn_lim")
        case True
        then obtain st2 where "put_part st1 d = Some (Inr st2)" "written b (w @ dotted r @ dotted d) st2" using g by (auto simp: goes_on_def)
        then show ?thesis using st1(1) True end_name_left [OF _ assms, of "w @ dotted r @ dotted d" st2 "\<lambda>v. v = w @ dotted r @ dotted d" NoError]
          by (simp add: rest_def)
      next
        case False
        then obtain st2 v where st2: "put_part st1 d = Some (Inl st2)" "written b v st2" using g by (auto simp: goes_on_def)
        then show ?thesis using st1(1) False end_name_left [OF st2(2) assms, of "\<lambda>v. length v \<le> fn_lim" BadParam] short
          by (simp add: rest_def)
      qed
    next
      case False
      then obtain st1 v where st1: "put_part st r = Some (Inl st1)" "written b v st1"
        using put_part_written [OF w assms ne(1)] by (auto simp: goes_on_def)
      then show ?thesis using False end_name_left [OF st1(2) assms, of "\<lambda>v. length v \<le> fn_lim" BadParam] short
        by (simp add: rest_def)
    qed
    obtain x where x: "part1 = Some x" "case x of Inl st \<Rightarrow> fn_lim \<le> length ?s \<and> (\<exists>w. written b w st) | Inr st \<Rightarrow> written b ?s st"
      using p1 by blast
    show ?thesis
    proof (cases x)
      case (Inl st)
      then obtain w where "written b w st" "fn_lim \<le> length ?s" using x(2) by auto
      then have "left_string b (end_name st BadParam) BadParam (\<lambda>v. length v \<le> fn_lim)" "\<not> length (full_name s r d) < fn_lim"
        using end_name_left [OF _ assms, of w st "\<lambda>v. length v \<le> fn_lim" BadParam] short by (auto simp: full_name_def)
      then show ?thesis using True Inl x(1) by (simp add: code Let_def)
    next
      case (Inr st)
      then have "written b ?s st" using x(2) by simp
      from p2 [OF this] show ?thesis using True Inr x(1) by (simp add: code Let_def full_name_def)
    qed
  qed
qed

text \<open>The type \<open>x._tcp\<close>\<close>

abbreviation x_tcp :: bytes where "x_tcp \<equiv> [0x78, 0x2E, 0x5F, 0x74, 0x63, 0x70]"

lemma x_tcp_dot: "DomainEndsInDot x_tcp = Some False" "DomainEndsInDot [0x78] = Some False"
  by (simp_all add: DomainEndsInDot_def ends_in_dot_loop.simps char_at_def)

lemma x_tcp_ok: "name_args_ok x_tcp [0x78]" "is_protocol [0x5F, 0x74, 0x63, 0x70]"
  by (simp_all add: name_args_ok_def x_tcp_dot is_protocol_def to_lower_def)

theorem ConstructFullName_spec_witness:
  "left_string (replicate 1006 0) (DNSServiceConstructFullName (replicate 1006 0) (Some [0x61, 0x20]) (Some x_tcp) (Some [0x78])) NoError
    (\<lambda>w. w = [0x61, 0x5C, 0x30, 0x33, 0x32, 0x2E, 0x78, 0x2E, 0x5F, 0x74, 0x63, 0x70, 0x2E, 0x78, 0x2E])"
proof -
  have "full_name [0x61, 0x20] x_tcp [0x78] = [0x61, 0x5C, 0x30, 0x33, 0x32, 0x2E, 0x78, 0x2E, 0x5F, 0x74, 0x63, 0x70, 0x2E, 0x78, 0x2E]"
    by (simp add: full_name_def escape_def dotted_def x_tcp_dot)
  then show ?thesis using ConstructFullName_spec [of "replicate 1006 0" x_tcp "[0x78]" "[0x61, 0x20]"] x_tcp_ok(1)
    by (simp add: fn_lim_def Let_def)
qed

lemma put_service_plain:
  "i + n < fn_lim \<Longrightarrow> fn_lim \<le> length b \<Longrightarrow>
    \<exists>b'. put_service (b, i) (replicate n 0x61) = Some (Inr (b', i + n)) \<and> length b' = length b"
proof (induction n arbitrary: b i)
  case (Suc n)
  then show ?case using Suc.IH [of "Suc i" "b[i := 0x61]"] by (auto simp: put_service_char_def put_char_def)
qed simp

text \<open>
   The limit of 1005 bytes is missed by one.  The dot behind the service is written without a check, so that
  for a service of 1004 plain characters the NUL of the failed name comes to stand at offset 1005.  For a
  caller that provides 1005 bytes, as the limit is meant for, this write lies outside the memory.
\<close>

theorem ConstructFullName_overflow:
  "DNSServiceConstructFullName (replicate 1005 0) (Some (replicate 1004 0x61)) (Some x_tcp) (Some [0x78]) = None"
proof -
  obtain b where b: "put_service (replicate 1005 0, 0) (replicate 1004 0x61) = Some (Inr (b, 1004))" "length b = 1005"
    using put_service_plain [of 0 1004 "replicate 1005 0"] by (auto simp: fn_lim_def)
  have "put_char (b, 1004) 0x2E = Some (b[1004 := 0x2E], 1005)" by (simp add: put_char_def b(2))
  moreover have "put_part (b[1004 := 0x2E], 1005) x_tcp = Some (Inl (b[1004 := 0x2E], 1005))"
    by (simp add: put_part_def fn_lim_def)
  moreover have "end_name (b[1004 := 0x2E], 1005) BadParam = None" by (simp add: end_name_def put_char_def b(2))
  ultimately show ?thesis using b(1) x_tcp_ok(2)
    by (simp add: DNSServiceConstructFullName_def x_tcp_dot Let_def)
qed

end
