(* ===== verification/Base64.thy ===== *)
theory Base64 imports Prelude begin

text \<open>
  libplist/src/base64.cc: base64 text to and from data.  The output goes into memory of a known size, byte
  after byte; a write behind it is undefined.  The length is the one that the code keeps in a signed \<open>int\<close>, without its truncation from
  2 GB on.
\<close>

section \<open>Alphabet\<close>

definition base64_str :: bytes where
  "base64_str = map (\<lambda>n. of_nat n) ([65..<91] @ [97..<123] @ [48..<58] @ [43, 47])"

definition base64_pad :: u8 where "base64_pad = 0x3D"

definition base64_table :: "int list" where
  "base64_table = replicate 43 (- 1) @ [62, - 1, - 1, - 1, 63] @ map int [52..<62] @ replicate 7 (- 1)
     @ map int [0..<26] @ replicate 6 (- 1) @ map int [26..<52] @ replicate 133 (- 1)"

text \<open>A character is signed: those from 0x80 on are negative indices.\<close>

definition table_at :: "u8 \<Rightarrow> int option" where
  "table_at c = (if c < 0x80 then Some (base64_table ! unat c) else None)"

definition push :: "nat \<Rightarrow> bytes \<Rightarrow> u8 \<Rightarrow> bytes option" where
  "push cap out c = (if length out < cap then Some (out @ [c]) else None)"

section \<open>Encoding\<close>

text \<open>The four indices for three bytes\<close>

definition output0 :: "u8 \<Rightarrow> nat" where "output0 a = drop_bit 2 (unat a)"
definition output1 :: "u8 \<Rightarrow> u8 \<Rightarrow> nat" where "output1 a b = push_bit 4 (unat a AND 3) + drop_bit 4 (unat b)"
definition output2 :: "u8 \<Rightarrow> u8 \<Rightarrow> nat" where "output2 b c = push_bit 2 (unat b AND 15) + drop_bit 6 (unat c)"
definition output3 :: "u8 \<Rightarrow> nat" where "output3 c = unat c AND 63"

function encode_loop :: "nat \<Rightarrow> bytes \<Rightarrow> nat \<Rightarrow> bytes \<Rightarrow> bytes option" where
  "encode_loop cap buf n out =
     (if n < length buf then
        let a = buf ! n;
            b = (if n + 1 < length buf then buf ! (n + 1) else 0);
            c = (if n + 2 < length buf then buf ! (n + 2) else 0)
        in (case (do {
              out \<leftarrow> push cap out (base64_str ! output0 a);
              out \<leftarrow> push cap out (base64_str ! output1 a b);
              out \<leftarrow> push cap out (if n + 1 < length buf then base64_str ! output2 b c else base64_pad);
              push cap out (if n + 2 < length buf then base64_str ! output3 c else base64_pad)
            }) of None \<Rightarrow> None | Some out \<Rightarrow> encode_loop cap buf (n + 3) out)
      else Some out)"
  by pat_completeness auto

termination encode_loop
  by (relation "measure (\<lambda>(cap, buf, n, out). length buf - n)") auto

declare encode_loop.simps [simp del]

text \<open>
  \<open>buf\<close> is NULL or all of the \<open>*size\<close> bytes.  The result is NULL or the text; its length is stored in \<open>*size\<close>
  and a NUL behind it.
\<close>

definition base64encode :: "bytes option \<Rightarrow> bytes option option" where
  "base64encode buf =
     (case buf of
        None \<Rightarrow> Some None
      | Some bs \<Rightarrow>
          if bs = [] then Some None
          else do {
            let outlen = length bs div 3 * 4;
            out \<leftarrow> encode_loop (outlen + 5) bs 0 [];
            _ \<leftarrow> push (outlen + 5) out 0;
            Some (Some out)
          })"

section \<open>Decoding\<close>

definition decoded :: "int \<Rightarrow> u8" where
  "decoded x = word_of_int (x AND 255)"

function decode_loop :: "nat \<Rightarrow> bytes \<Rightarrow> nat \<Rightarrow> bytes \<Rightarrow> bytes option" where
  "decode_loop cap dat n out =
     (if int n < int (length dat) - 3 then
        (case (do {
            w1 \<leftarrow> table_at (dat ! n);
            w2 \<leftarrow> table_at (dat ! (n + 1));
            w3 \<leftarrow> table_at (dat ! (n + 2));
            w4 \<leftarrow> table_at (dat ! (n + 3));
            out \<leftarrow> (if w2 \<ge> 0 then push cap out (decoded (w1 * 4 + drop_bit 4 w2)) else Some out);
            out \<leftarrow> (if w3 \<ge> 0 then push cap out (decoded (w2 * 16 + drop_bit 2 w3)) else Some out);
            (if w4 \<ge> 0 then push cap out (decoded (w3 * 64 + w4)) else Some out)
          }) of None \<Rightarrow> None | Some out \<Rightarrow> decode_loop cap dat (n + 4) out)
      else Some out)"
  by pat_completeness auto

termination decode_loop
  by (relation "measure (\<lambda>(cap, dat, n, out). length dat - n)") auto

declare decode_loop.simps [simp del]

text \<open>Into \<open>cap\<close> bytes of which \<open>out\<close> are used already\<close>

definition base64decode_block :: "nat \<Rightarrow> bytes \<Rightarrow> bytes \<Rightarrow> bytes option" where
  "base64decode_block cap out dat = (if dat = [] then Some out else decode_loop cap dat 0 out)"

text \<open>\<open>strtok_s\<close> with the blanks as delimiters: the tokens, and what it leaves of the text, with a NUL behind each token\<close>

definition is_blank :: "u8 \<Rightarrow> bool" where
  "is_blank c \<longleftrightarrow> c = 0x0D \<or> c = 0x0A \<or> c = 0x09 \<or> c = 0x20"

fun strtok_tokens :: "bytes \<Rightarrow> bytes \<Rightarrow> bytes list" where
  "strtok_tokens t [] = (if t = [] then [] else [t])"
| "strtok_tokens t (c # cs) =
     (if is_blank c then (if t = [] then strtok_tokens [] cs else t # strtok_tokens [] cs)
      else strtok_tokens (t @ [c]) cs)"

fun strtok_text :: "bool \<Rightarrow> bytes \<Rightarrow> bytes" where
  "strtok_text inside [] = []"
| "strtok_text inside (c # cs) =
     (if is_blank c then (if inside then 0 else c) # strtok_text False cs else c # strtok_text True cs)"

fun decode_lines :: "nat \<Rightarrow> bytes \<Rightarrow> bytes list \<Rightarrow> bytes option" where
  "decode_lines cap out [] = Some out"
| "decode_lines cap out (l # ls) = do { out \<leftarrow> base64decode_block cap out l; decode_lines cap out ls }"

text \<open>The text afterwards and NULL or the data, behind which a NUL is stored\<close>

definition base64decode :: "bytes option \<Rightarrow> (bytes option \<times> bytes option) option" where
  "base64decode buf =
     (case buf of
        None \<Rightarrow> Some (None, None)
      | Some s \<Rightarrow>
          if s = [] then Some (Some s, None)
          else do {
            let cap = length s div 4 * 3 + 3;
            out \<leftarrow> decode_lines cap [] (strtok_tokens [] s);
            _ \<leftarrow> push cap out 0;
            Some (Some (strtok_text False s), Some out)
          })"

end
