(* ===== verification/Base64_Claims.thy ===== *)
theory Base64_Claims imports Base64 begin

text \<open>
  Base64: what is written is read back, and reading is safe for text of ASCII characters.
\<close>

section \<open>Groups\<close>

fun enc :: "bytes \<Rightarrow> bytes" where
  "enc [] = []"
| "enc [a] = [base64_str ! output0 a, base64_str ! output1 a 0, base64_pad, base64_pad]"
| "enc [a, b] = [base64_str ! output0 a, base64_str ! output1 a b, base64_str ! output2 b 0, base64_pad]"
| "enc (a # b # c # bs) =
     [base64_str ! output0 a, base64_str ! output1 a b, base64_str ! output2 b c, base64_str ! output3 c] @ enc bs"

definition tab :: "u8 \<Rightarrow> int" where
  "tab c = base64_table ! unat c"

definition dec4 :: "u8 \<Rightarrow> u8 \<Rightarrow> u8 \<Rightarrow> u8 \<Rightarrow> bytes" where
  "dec4 a b c d =
     (if tab b \<ge> 0 then [decoded (tab a * 4 + drop_bit 4 (tab b))] else [])
     @ (if tab c \<ge> 0 then [decoded (tab b * 16 + drop_bit 2 (tab c))] else [])
     @ (if tab d \<ge> 0 then [decoded (tab c * 64 + tab d)] else [])"

fun dec :: "bytes \<Rightarrow> bytes" where
  "dec (a # b # c # d # cs) = dec4 a b c d @ dec cs"
| "dec cs = []"

lemma length_enc: "length (enc bs) = 4 * ((length bs + 2) div 3)"
proof (induction bs rule: enc.induct)
  case (4 a b c bs)
  have "length (a # b # c # bs) + 2 = 3 + (length bs + 2)" by simp
  then have "(length (a # b # c # bs) + 2) div 3 = Suc ((length bs + 2) div 3)" by simp
  then show ?case using 4 by simp
qed simp_all

lemma length_dec4: "length (dec4 a b c d) \<le> 3"
  by (simp add: dec4_def)

lemma length_dec: "length (dec cs) \<le> 3 * (length cs div 4)"
proof (induction cs rule: dec.induct)
  case (1 a b c d cs)
  have "Suc (Suc (Suc (Suc (length cs)))) div 4 = Suc (length cs div 4)" using div_add_self1 [of 4 "length cs"] by simp
  then show ?case using 1 length_dec4 [of a b c d] by simp
qed simp_all

lemma encode_loop_enc:
  "length out + length (enc bs) \<le> cap \<Longrightarrow> encode_loop cap (pre @ bs) (length pre) out = Some (out @ enc bs)"
proof (induction bs arbitrary: pre out rule: enc.induct)
  case 1
  then show ?case by (simp add: encode_loop.simps)
next
  case (2 a)
  then show ?case by (subst encode_loop.simps) (simp add: push_def nth_append encode_loop.simps)
next
  case (3 a b)
  then show ?case by (subst encode_loop.simps) (simp add: push_def nth_append encode_loop.simps)
next
  case (4 a b c bs)
  let ?g = "[base64_str ! output0 a, base64_str ! output1 a b, base64_str ! output2 b c, base64_str ! output3 c]"
  have "encode_loop cap ((pre @ [a, b, c]) @ bs) (length (pre @ [a, b, c])) (out @ ?g) = Some ((out @ ?g) @ enc bs)"
    by (rule "4.IH") (use "4.prems" in simp)
  then show ?case using "4.prems" by (subst encode_loop.simps) (simp add: push_def nth_append numeral_eq_Suc)
qed

definition ascii :: "bytes \<Rightarrow> bool" where
  "ascii cs \<longleftrightarrow> (\<forall>c \<in> set cs. c < 0x80)"

lemma table_at_ascii: "c < 0x80 \<Longrightarrow> table_at c = Some (tab c)"
  by (simp add: table_at_def tab_def)

lemma decode_group:
  assumes "length out + length (dec4 a b c d) \<le> cap"
  shows "(do {
      out \<leftarrow> (if tab b \<ge> 0 then push cap out (decoded (tab a * 4 + drop_bit 4 (tab b))) else Some out);
      out \<leftarrow> (if tab c \<ge> 0 then push cap out (decoded (tab b * 16 + drop_bit 2 (tab c))) else Some out);
      (if tab d \<ge> 0 then push cap out (decoded (tab c * 64 + tab d)) else Some out) }) = Some (out @ dec4 a b c d)"
  using assms by (auto simp: dec4_def push_def)

lemma decode_loop_dec:
  "ascii cs \<Longrightarrow> length out + length (dec cs) \<le> cap \<Longrightarrow> decode_loop cap (pre @ cs) (length pre) out = Some (out @ dec cs)"
proof (induction cs arbitrary: pre out rule: dec.induct)
  case (1 a b c d cs)
  have t: "table_at a = Some (tab a)" "table_at b = Some (tab b)" "table_at c = Some (tab c)" "table_at d = Some (tab d)"
    using "1.prems"(1) by (simp_all add: ascii_def table_at_ascii)
  have "decode_loop cap ((pre @ [a, b, c, d]) @ cs) (length (pre @ [a, b, c, d])) (out @ dec4 a b c d) = Some ((out @ dec4 a b c d) @ dec cs)"
    by (rule "1.IH") (use "1.prems" in \<open>simp_all add: ascii_def\<close>)
  moreover have "(pre @ a # b # c # d # cs) ! Suc (length pre) = b" "(pre @ a # b # c # d # cs) ! (length pre + 2) = c"
    "(pre @ a # b # c # d # cs) ! (length pre + 3) = d"
    by (simp_all add: nth_append numeral_eq_Suc)
  ultimately show ?case using t decode_group [of out a b c d cap] "1.prems"(2)
    by (subst decode_loop.simps) (simp add: numeral_eq_Suc)
qed (simp_all add: decode_loop.simps)

section \<open>Groups are inverse\<close>

lemma table_list: "map (\<lambda>c. base64_table ! unat c) base64_str = map int [0..<64]" "list_all (\<lambda>c. c < 0x80) base64_str"
  by code_simp+

lemma table_str: "i < 64 \<Longrightarrow> base64_str ! i < 0x80 \<and> tab (base64_str ! i) = int i"
proof -
  assume i: "i < 64"
  have l: "length base64_str = 64" by (simp add: base64_str_def)
  have "map (\<lambda>c. base64_table ! unat c) base64_str ! i = map int [0..<64] ! i" by (simp only: table_list(1))
  then show ?thesis using i l table_list(2) by (simp add: tab_def list_all_length)
qed

lemma table_pad: "tab base64_pad = - 1" "base64_pad < 0x80"
  by code_simp+

lemma decoded_nat: "decoded (int n) = of_nat n"
proof -
  have "int n AND 255 = take_bit 8 (int n)" using take_bit_eq_mask [of 8 "int n"] by (simp add: mask_eq_exp_minus_1)
  then show ?thesis unfolding decoded_def by (simp only:) (transfer, simp)
qed

lemma and_mask_nat: "n AND 3 = n mod 4" "n AND 15 = n mod 16" "n AND 63 = n mod 64" for n :: nat
  using take_bit_eq_mask [of 2 n] take_bit_eq_mask [of 4 n] take_bit_eq_mask [of 6 n]
  by (simp_all add: mask_eq_exp_minus_1 take_bit_eq_mod)

lemmas outputs = output0_def output1_def output2_def output3_def drop_bit_eq_div push_bit_eq_mult and_mask_nat

lemma unat_u8_less: "unat (a :: u8) < 256"
  using unsigned_less [of a, where ?'a = nat] by simp

lemma outputs_less: "output0 a < 64" "output1 a b < 64" "output2 b c < 64" "output3 c < 64"
  using unat_u8_less [of a] unat_u8_less [of b] unat_u8_less [of c] by (simp_all add: outputs)

lemma group_inverse:
  "decoded (int (output0 a) * 4 + drop_bit 4 (int (output1 a b))) = a"
  "decoded (int (output1 a b) * 16 + drop_bit 2 (int (output2 b c))) = b"
  "decoded (int (output2 b c) * 64 + int (output3 c)) = c"
proof -
  have z: "(256 :: u8) = 0" by code_simp
  have u: "decoded (uint a) = a" using decoded_nat [of "unat a"] by simp
  have l: "unat a < 256" "unat b < 256" "unat c < 256" by (rule unat_u8_less)+
  have "int (output0 a) * 4 + drop_bit 4 (int (output1 a b)) = int (output0 a * 4 + output1 a b div 16)"
    by (simp add: drop_bit_eq_div zdiv_int)
  moreover have "output0 a * 4 + output1 a b div 16 = unat a" using l by (simp add: outputs)
  ultimately show "decoded (int (output0 a) * 4 + drop_bit 4 (int (output1 a b))) = a" by (simp add: u)
  have "int (output1 a b) * 16 + drop_bit 2 (int (output2 b c)) = int (output1 a b * 16 + output2 b c div 4)"
    by (simp add: drop_bit_eq_div zdiv_int)
  moreover have "(of_nat (output1 a b * 16 + output2 b c div 4) :: u8) = b"
  proof -
    have "output1 a b * 16 + output2 b c div 4 = unat b + 256 * (unat a mod 4)" using l by (simp add: outputs)
    then show ?thesis by (simp add: z)
  qed
  ultimately show "decoded (int (output1 a b) * 16 + drop_bit 2 (int (output2 b c))) = b" by (simp only: decoded_nat)
  have "(of_nat (output2 b c * 64 + output3 c) :: u8) = c"
  proof -
    have "output2 b c * 64 + output3 c = unat c + 256 * (unat b mod 16)" using l by (simp add: outputs)
    then show ?thesis by (simp add: z)
  qed
  then show "decoded (int (output2 b c) * 64 + int (output3 c)) = c"
    using decoded_nat [of "output2 b c * 64 + output3 c"] by simp
qed

lemma dec_enc: "dec (enc bs) = bs"
proof (induction bs rule: enc.induct)
  case (2 a)
  show ?case using outputs_less(1) [of a] outputs_less(2) [of a 0] group_inverse(1) [of a 0] by (simp add: dec4_def table_str table_pad)
next
  case (3 a b)
  show ?case using outputs_less(1) [of a] outputs_less(2) [of a b] outputs_less(3) [of b 0] group_inverse(1) [of a b] group_inverse(2) [of a b 0] by (simp add: dec4_def table_str table_pad)
next
  case (4 a b c bs)
  then show ?case using outputs_less(1) [of a] outputs_less(2) [of a b] outputs_less(3) [of b c] outputs_less(4) [of c] group_inverse(1) [of a b] group_inverse(2) [of a b c] group_inverse(3) [of b c] by (simp add: dec4_def table_str)
qed simp

lemma ascii_enc: "ascii (enc bs)"
  by (induction bs rule: enc.induct) (use outputs_less in \<open>auto simp: ascii_def table_str table_pad\<close>)

lemma dec_append: "4 dvd length cs \<Longrightarrow> dec (cs @ ds) = dec cs @ dec ds"
proof (induction cs rule: dec.induct)
  case (1 a b c d cs)
  then have "4 dvd length cs" using dvd_add_triv_left_iff [of 4 "length cs"] by (simp add: numeral_eq_Suc)
  then show ?case using 1 by simp
qed (auto dest: dvd_imp_le)

section \<open>Lines\<close>

lemma decode_block_dec:
  assumes "ascii l" "length out + length (dec l) \<le> cap"
  shows "base64decode_block cap out l = Some (out @ dec l)"
  using decode_loop_dec [OF assms, of "[]"] by (simp add: base64decode_block_def)

lemma decode_lines_dec:
  "list_all ascii ls \<Longrightarrow> length out + length (concat (map dec ls)) \<le> cap \<Longrightarrow> decode_lines cap out ls = Some (out @ concat (map dec ls))"
  by (induction ls arbitrary: out) (simp_all add: decode_block_dec)

lemma tokens_text: "concat (strtok_tokens t s) = t @ filter (\<lambda>c. \<not> is_blank c) s"
  by (induction t s rule: strtok_tokens.induct) auto

lemma tokens_ascii: "ascii t \<Longrightarrow> ascii s \<Longrightarrow> list_all ascii (strtok_tokens t s)"
  by (induction t s rule: strtok_tokens.induct) (auto simp: ascii_def)

lemma div_le_sum: "(m :: nat) div 4 + n div 4 \<le> (m + n) div 4"
  by (metis div_add1_eq le_add1)

lemma tokens_dec_length: "3 * (length (concat ls) div 4) \<ge> length (concat (map dec ls))"
proof (induction ls)
  case (Cons l ls)
  then show ?case using length_dec [of l] div_le_sum [of "length l" "length (concat ls)"] by simp
qed simp

lemma filter_length_div: "3 * (length (concat (strtok_tokens [] s)) div 4) \<le> length s div 4 * 3"
  using length_filter_le [of "\<lambda>c. \<not> is_blank c" s] by (simp add: tokens_text div_le_mono)

lemma dec_concat: "\<forall>l \<in> set ls. 4 dvd length l \<Longrightarrow> dec (concat ls) = concat (map dec ls)"
  by (induction ls) (simp_all add: dec_append)

lemma base64encode_enc:
  assumes "bs \<noteq> []"
  shows "base64encode (Some bs) = Some (Some (enc bs))"
proof -
  have "(length bs + 2) div 3 \<le> length bs div 3 + 1"
    using div_le_mono [of "length bs + 2" "length bs + 3" 3] by simp
  then have l: "length (enc bs) \<le> length bs div 3 * 4 + 4" by (simp add: length_enc)
  then have "encode_loop (length bs div 3 * 4 + 5) bs 0 [] = Some (enc bs)"
    using encode_loop_enc [of "[]" bs _ "[]"] by simp
  then show ?thesis using assms l by (simp add: base64encode_def push_def)
qed

lemma base64decode_dec:
  assumes "ascii s" "s \<noteq> []"
  shows "base64decode (Some s) = Some (Some (strtok_text False s), Some (concat (map dec (strtok_tokens [] s))))"
proof -
  let ?ls = "strtok_tokens [] s"
  have l: "length (concat (map dec ?ls)) \<le> length s div 4 * 3"
    using tokens_dec_length [of ?ls] filter_length_div [of s] by simp
  have "list_all ascii ?ls" using tokens_ascii [of "[]" s] assms(1) by (simp add: ascii_def)
  then have "decode_lines (length s div 4 * 3 + 3) [] ?ls = Some (concat (map dec ?ls))"
    using decode_lines_dec [of ?ls "[]"] l by simp
  then show ?thesis using assms(2) l by (simp add: base64decode_def push_def)
qed

section \<open>Properties\<close>

text \<open>
  C19.  Base64 is read back as it was written.  \<open>base64encode\<close> turns any data that is not empty into groups of four
  characters, within its allocation; \<open>base64decode\<close> of that text returns the data, also when the text has been
  broken into lines and indented, as long as every line holds whole groups.
\<close>

theorem base64_roundtrip:
  assumes "bs \<noteq> []"
  shows "\<exists>b. base64encode (Some bs) = Some (Some b) \<and> length b = 4 * ((length bs + 2) div 3)
    \<and> (\<forall>s. filter (\<lambda>c. \<not> is_blank c) s = b \<and> (\<forall>l \<in> set (strtok_tokens [] s). 4 dvd length l)
        \<longrightarrow> base64decode (Some s) = Some (Some (strtok_text False s), Some bs))"
proof -
  have "base64decode (Some s) = Some (Some (strtok_text False s), Some bs)"
    if s: "filter (\<lambda>c. \<not> is_blank c) s = enc bs" "\<forall>l \<in> set (strtok_tokens [] s). 4 dvd length l" for s
  proof -
    have "length (enc bs) \<noteq> 0" using assms length_enc [of bs] by (cases bs) simp_all
    then have "s \<noteq> []" using s(1) by auto
    have "c < 0x80" if "c \<in> set s" for c
    proof (cases "is_blank c")
      case True
      then show ?thesis by (auto simp: is_blank_def)
    next
      case False
      then have "c \<in> set (filter (\<lambda>c. \<not> is_blank c) s)" using that by simp
      then have "c \<in> set (enc bs)" unfolding s(1) .
      then show ?thesis using ascii_enc [of bs] by (simp add: ascii_def)
    qed
    then have "ascii s" by (simp add: ascii_def)
    moreover have "concat (map dec (strtok_tokens [] s)) = bs"
      using dec_concat [OF s(2)] s(1) dec_enc [of bs] by (simp add: tokens_text)
    ultimately show ?thesis using base64decode_dec \<open>s \<noteq> []\<close> by simp
  qed
  then show ?thesis using base64encode_enc [OF assms] length_enc [of bs] by blast
qed

theorem base64_roundtrip_witness:
  "base64decode (Some [0x09, 0x41, 0x51, 0x49, 0x44, 0x0A, 0x42, 0x41, 0x3D, 0x3D])
    = Some (Some [0x09, 0x41, 0x51, 0x49, 0x44, 0, 0x42, 0x41, 0x3D, 0x3D], Some [1, 2, 3, 4])"
proof -
  let ?s = "[0x09, 0x41, 0x51, 0x49, 0x44, 0x0A, 0x42, 0x41, 0x3D, 0x3D] :: bytes"
  have "enc [1, 2, 3, 4] = [0x41, 0x51, 0x49, 0x44, 0x42, 0x41, 0x3D, 0x3D]" by code_simp
  then have "base64encode (Some [1, 2, 3, 4]) = Some (Some [0x41, 0x51, 0x49, 0x44, 0x42, 0x41, 0x3D, 0x3D])"
    using base64encode_enc [of "[1, 2, 3, 4]"] by simp
  moreover obtain b where b: "base64encode (Some [1, 2, 3, 4]) = Some (Some b)"
    "\<And>s. filter (\<lambda>c. \<not> is_blank c) s = b \<Longrightarrow> \<forall>l \<in> set (strtok_tokens [] s). 4 dvd length l
      \<Longrightarrow> base64decode (Some s) = Some (Some (strtok_text False s), Some [1, 2, 3, 4])"
    using base64_roundtrip [of "[1, 2, 3, 4]"] by blast
  ultimately have "filter (\<lambda>c. \<not> is_blank c) ?s = b" by (simp add: is_blank_def)
  moreover have "strtok_tokens [] ?s = [[0x41, 0x51, 0x49, 0x44], [0x42, 0x41, 0x3D, 0x3D]]"
    "strtok_text False ?s = [0x09, 0x41, 0x51, 0x49, 0x44, 0, 0x42, 0x41, 0x3D, 0x3D]"
    by (simp_all add: is_blank_def)
  moreover have "(4 :: nat) dvd Suc (Suc (Suc (Suc 0)))" by (simp add: numeral_eq_Suc)
  ultimately show ?thesis using b(2) [of ?s] by (simp add: is_blank_def)
qed

text \<open>
   \<open>base64decode\<close> of a text of ASCII characters, well formed or not, terminates, stays within its allocation and
  returns at most three bytes for four characters.  For a group with a character from 0x80 on, which is a
  negative index as a signed \<open>char\<close>, it reads outside of the table.
\<close>

theorem base64decode_bounds:
  "if ascii s then s = [] \<or> (\<exists>out. base64decode (Some s) = Some (Some (strtok_text False s), Some out) \<and> length out \<le> 3 * (length s div 4))
   else length s = 4 \<and> filter is_blank s = [] \<longrightarrow> base64decode (Some s) = None"
proof (cases "ascii s")
  case True
  have "length (concat (map dec (strtok_tokens [] s))) \<le> 3 * (length s div 4)"
    using tokens_dec_length [of "strtok_tokens [] s"] filter_length_div [of s] by simp
  then show ?thesis using True base64decode_dec [OF True] by (cases "s = []") auto
next
  case False
  have "base64decode (Some s) = None" if len: "length s = 4" and nb: "filter is_blank s = []"
  proof -
    obtain a b c d where s: "s = [a, b, c, d]" using len by (auto simp: length_Suc_conv numeral_eq_Suc)
    have "table_at a = None \<or> table_at b = None \<or> table_at c = None \<or> table_at d = None"
      using False by (auto simp: ascii_def s table_at_def)
    moreover have "x = None \<or> y = None \<or> z = None \<or> w = None \<Longrightarrow>
      (do { w1 \<leftarrow> x; w2 \<leftarrow> y; w3 \<leftarrow> z; w4 \<leftarrow> w; f w1 w2 w3 w4 }) = None" for x y z w :: "int option" and f :: "int \<Rightarrow> int \<Rightarrow> int \<Rightarrow> int \<Rightarrow> bytes option"
      by (cases x; cases y; cases z; cases w) auto
    ultimately have "decode_loop cap s 0 out = None" for cap out
      by (subst decode_loop.simps) (simp add: s numeral_eq_Suc)
    moreover have "strtok_tokens [] s = [s]" using nb by (auto simp: s split: if_splits)
    ultimately show ?thesis by (simp add: base64decode_def base64decode_block_def s)
  qed
  then show ?thesis using False by simp
qed

theorem base64decode_bounds_witness:
  "base64decode (Some [0xC3, 0x41, 0x41, 0x41]) = None"
  using base64decode_bounds [of "[0xC3, 0x41, 0x41, 0x41]"] by (simp add: ascii_def is_blank_def)

end
