(* ===== verification/Dnssec_Nsec.thy ===== *)
theory Dnssec_Nsec imports Dns_Rdata Dns_Record begin

text \<open>
  \<open>airplay/mdnsresponder/mDNSCore/nsec.c\<close>: the canonical order of domain names and the proofs of
  non-existence from NSEC records.  A pointer to a name is a buffer and an offset.  The NSEC records of
  a negative cache record are a list and a pointer to one of them is its index.  The verification of the
  signatures of the chosen records (\<open>VerifyNSEC\<close>) is the action that a proof function ends with.
  Log messages are left out.
\<close>

section \<open>Canonical order\<close>

text \<open>One label: the bytes with their case folded; a result when they differ\<close>

fun canonical_bytes :: "nat \<Rightarrow> bytes \<Rightarrow> nat \<Rightarrow> bytes \<Rightarrow> nat \<Rightarrow> (int option) option" where
  "canonical_bytes 0 a i b j = Some None"
| "canonical_bytes (Suc n) a i b j = do {
     ac \<leftarrow> read_byte a i;
     bc \<leftarrow> read_byte b j;
     let ac = (if mDNSIsUpperCase ac then ac + (0x61 - 0x41) else ac);
     let bc = (if mDNSIsUpperCase bc then bc + (0x61 - 0x41) else bc);
     if ac \<noteq> bc then Some (Some (if ac < bc then - 1 else 1)) else canonical_bytes n a (Suc i) b (Suc j)
   }"

definition canonical_label :: "bytes \<Rightarrow> nat \<Rightarrow> bytes \<Rightarrow> nat \<Rightarrow> (int option) option" where
  "canonical_label a i b j = do {
     lena \<leftarrow> read_byte a i;
     lenb \<leftarrow> read_byte b j;
     r \<leftarrow> canonical_bytes (unat (if lena < lenb then lena else lenb)) a (Suc i) b (Suc j);
     (case r of
        Some x \<Rightarrow> Some (Some x)
      | None \<Rightarrow> Some (if lena \<noteq> lenb then Some (if lena < lenb then - 1 else 1) else None))
   }"

text \<open>The labels from the last one on, \<open>n\<close> of them\<close>

fun canonical_loop :: "nat \<Rightarrow> bytes \<Rightarrow> nat \<Rightarrow> int \<Rightarrow> bytes \<Rightarrow> nat \<Rightarrow> int \<Rightarrow> (int option) option" where
  "canonical_loop 0 a i skip1 b j skip2 = Some None"
| "canonical_loop (Suc n) a i skip1 b j skip2 = do {
     p \<leftarrow> SkipLeadingLabels a i skip1;
     q \<leftarrow> SkipLeadingLabels b j skip2;
     r \<leftarrow> canonical_label a p b q;
     (case r of
        Some x \<Rightarrow> Some (Some x)
      | None \<Rightarrow> canonical_loop n a i (skip1 - 1) b j (skip2 - 1))
   }"

text \<open>The value returned and \<open>*subdomain\<close>\<close>

definition DNSSECCanonicalOrder :: "bytes \<Rightarrow> nat \<Rightarrow> bytes \<Rightarrow> nat \<Rightarrow> (int \<times> bool) option" where
  "DNSSECCanonicalOrder a i b j = do {
     c1 \<leftarrow> CountLabels a i;
     c2 \<leftarrow> CountLabels b j;
     r \<leftarrow> canonical_loop (nat (if c1 < c2 then c1 else c2)) a i (c1 - 1) b j (c2 - 1);
     (case r of
        Some x \<Rightarrow> Some (x, False)
      | None \<Rightarrow> Some (if c1 \<noteq> c2 then (if c1 < c2 then - 1 else 1) else 0, c1 > c2))
   }"

fun match_loop :: "nat \<Rightarrow> bytes \<Rightarrow> nat \<Rightarrow> int \<Rightarrow> bytes \<Rightarrow> nat \<Rightarrow> int \<Rightarrow> int \<Rightarrow> int option" where
  "match_loop 0 a i skip1 b j skip2 match = Some match"
| "match_loop (Suc n) a i skip1 b j skip2 match = do {
     da \<leftarrow> SkipLeadingLabels a i skip1;
     db \<leftarrow> SkipLeadingLabels b j skip2;
     same \<leftarrow> SameDomainName a da b db;
     if \<not> same then Some match else match_loop n a i (skip1 - 1) b j (skip2 - 1) (match + 1)
   }"

definition CountLabelsMatch :: "bytes \<Rightarrow> nat \<Rightarrow> bytes \<Rightarrow> nat \<Rightarrow> int option" where
  "CountLabelsMatch a i b j = do {
     c1 \<leftarrow> CountLabels a i;
     c2 \<leftarrow> CountLabels b j;
     match_loop (nat (if c1 < c2 then c1 else c2)) a i (c1 - 1) b j (c2 - 1) 0
   }"

section \<open>What one NSEC record proves\<close>

text \<open>\<open>nxt\<close>, the next name of the zone, starts the data of the record.\<close>

definition NSECAnswersENT :: "resource_record \<Rightarrow> bytes \<Rightarrow> bool option" where
  "NSECAnswersENT rr qname = do {
     (ret, _) \<leftarrow> DNSSECCanonicalOrder (rr_name rr) 0 qname 0;
     if ret < 0 then do {
       (_, subdomain) \<leftarrow> DNSSECCanonicalOrder (rr_data rr) 0 qname 0;
       Some subdomain
     } else Some False
   }"

definition NSECClosestEncloser :: "resource_record \<Rightarrow> bytes \<Rightarrow> (bytes \<times> nat) option" where
  "NSECClosestEncloser rr qname = do {
     match1 \<leftarrow> CountLabelsMatch (rr_name rr) 0 qname 0;
     match2 \<leftarrow> CountLabelsMatch (rr_data rr) 0 qname 0;
     if match1 > match2 then do {
       c \<leftarrow> CountLabels (rr_name rr) 0;
       p \<leftarrow> SkipLeadingLabels (rr_name rr) 0 (c - match1);
       Some (rr_name rr, p)
     } else do {
       c \<leftarrow> CountLabels (rr_data rr) 0;
       p \<leftarrow> SkipLeadingLabels (rr_data rr) 0 (c - match2);
       Some (rr_data rr, p)
     }
   }"

text \<open>\<open>RRAssertsNonexistence(rr, SOA) && RRAssertsExistence(rr, NS)\<close>: a record of the parent zone\<close>

definition parent_side :: "resource_record \<Rightarrow> bool option" where
  "parent_side rr = do {
     no_soa \<leftarrow> RRAssertsNonexistence rr kDNSType_SOA;
     if no_soa then RRAssertsExistence rr kDNSType_NS else Some False
   }"

definition NSECNameExists :: "resource_record \<Rightarrow> bytes \<Rightarrow> u16 \<Rightarrow> int option" where
  "NSECNameExists rr name qtype = do {
     (ret1, subdomain1) \<leftarrow> DNSSECCanonicalOrder (rr_name rr) 0 name 0;
     if ret1 > 0 then Some (- 1)
     else if ret1 = 0 then do {
       soa \<leftarrow> RRAssertsExistence rr kDNSType_SOA;
       ns \<leftarrow> RRAssertsExistence rr kDNSType_NS;
       if ns \<and> \<not> soa \<and> qtype \<noteq> kDNSType_DS then Some (- 1)
       else if ns \<and> soa \<and> qtype = kDNSType_DS then Some (- 1)
       else Some 1
     }
     else do {
       unusable \<leftarrow> (if subdomain1 then do {
           dname \<leftarrow> RRAssertsExistence rr kDNSType_DNAME;
           if dname then Some True else parent_side rr
         } else Some False);
       if unusable then Some (- 1)
       else do {
         (ret2, subdomain2) \<leftarrow> DNSSECCanonicalOrder name 0 (rr_data rr) 0;
         if ret2 = 0 then Some 1
         else do {
           (ret3, subdomain3) \<leftarrow> DNSSECCanonicalOrder (rr_name rr) 0 (rr_data rr) 0;
           if ret3 = 0 then Some (if subdomain2 then 0 else - 1)
           else if ret3 < 0 then Some (if ret1 < 0 \<and> ret2 < 0 then 0 else - 1)
           else Some (if ret1 < 0 \<and> subdomain2 then 0 else - 1)
         }
       }
     }
   }"

text \<open>Whether the record proves that the type does not exist, and \<open>*wildcard\<close>\<close>

definition NSECNoDataError :: "resource_record \<Rightarrow> bytes \<Rightarrow> u16 \<Rightarrow> (bool \<times> (bytes \<times> nat) option) option" where
  "NSECNoDataError rr name qtype = do {
     same \<leftarrow> SameDomainName (rr_name rr) 0 name 0;
     if same then do {
       soa \<leftarrow> RRAssertsExistence rr kDNSType_SOA;
       ns \<leftarrow> RRAssertsExistence rr kDNSType_NS;
       if qtype \<noteq> kDNSType_DS \<and> ns \<and> \<not> soa then Some (False, None)
       else if qtype = kDNSType_DS \<and> ns \<and> soa then Some (False, None)
       else do {
         has_type \<leftarrow> RRAssertsExistence rr qtype;
         exists \<leftarrow> (if has_type then Some True else RRAssertsExistence rr kDNSType_CNAME);
         Some (\<not> exists, None)
       }
     }
     else do {
       ent \<leftarrow> NSECAnswersENT rr name;
       if ent then Some (False, None)
       else do {
         c0 \<leftarrow> read_byte (rr_name rr) 0;
         star \<leftarrow> (if c0 = 1 then map_option (\<lambda>c. c = 0x2A) (read_byte (rr_name rr) 1) else Some False);
         if \<not> star then Some (False, None)
         else do {
           ce \<leftarrow> SkipLeadingLabels (rr_name rr) 0 1;
           (r, s) \<leftarrow> DNSSECCanonicalOrder name 0 (rr_name rr) ce;
           if \<not> s then Some (False, None)
           else do {
             has_type \<leftarrow> RRAssertsExistence rr qtype;
             exists \<leftarrow> (if has_type then Some True else RRAssertsExistence rr kDNSType_CNAME);
             if exists then Some (False, None)
             else if qtype = kDNSType_DS then Some (False, None)
             else do {
               parent \<leftarrow> parent_side rr;
               Some (if parent then (False, None) else (True, Some (rr_name rr, ce)))
             }
           }
         }
       }
     }
   }"

text \<open>The name \<open>*.\<close> followed by the closest encloser\<close>

definition NSECNoWildcard :: "resource_record \<Rightarrow> bytes \<Rightarrow> u16 \<Rightarrow> bool option" where
  "NSECNoWildcard rr qname qtype = do {
     (ce, p) \<leftarrow> NSECClosestEncloser rr qname;
     (wild, r) \<leftarrow> AppendDomainName ([1, 0x2A, 0] @ replicate (MAX_DOMAIN_NAME - 3) 0) ce p;
     (case r of
        None \<Rightarrow> Some False
      | Some _ \<Rightarrow> do { e \<leftarrow> NSECNameExists rr wild qtype; Some (e = 0) })
   }"

end
