(* ===== verification/Dnssec_Proof.thy ===== *)
theory Dnssec_Proof imports Dnssec_Nsec begin

text \<open>
  nsec.c: the proofs that combine the NSEC records of a negative cache record.  The result of a proof
  function is the \<open>flags\<close> of the verifier afterwards and the action it ends with.
\<close>

section \<open>Flags and actions\<close>

definition WILDCARD_PROVES_NONAME_EXISTS :: u32 where "WILDCARD_PROVES_NONAME_EXISTS = 2"
definition NSEC_PROVES_NOTYPE_EXISTS :: u32 where "NSEC_PROVES_NOTYPE_EXISTS = 4"
definition NSEC_PROVES_NONAME_EXISTS :: u32 where "NSEC_PROVES_NONAME_EXISTS = 8"

text \<open>
  \<open>Verify_both w n\<close>: record \<open>w\<close> is verified first, \<open>n\<close> is pending.  \<open>Verify_one r\<close>: one record, NULL when
  there is none.  \<open>Insecure\<close>, \<open>Indeterminate\<close>: the callback of the verifier is told that status.  \<open>No_action\<close>: the
  function returns without having started a verification or called the callback.
\<close>

datatype nsec_action = Verify_both "nat option" "nat option" | Verify_one "nat option" | Insecure | Indeterminate | No_action

section \<open>Adding NSEC records to a cache record\<close>

definition kDNSFlag1_RC_NoErr :: u8 where "kDNSFlag1_RC_NoErr = 0"
definition kDNSFlag1_RC_NXDomain :: u8 where "kDNSFlag1_RC_NXDomain = 3"

text \<open>An element of the list is an NSEC record or the signature of one: \<open>typeCovered\<close> in network order starts its data,
  of which a cache record keeps the first 68 bytes inline.\<close>

definition nsec_or_signature :: "resource_record \<Rightarrow> bool option" where
  "nsec_or_signature rr =
     (if rr_rrtype rr \<noteq> kDNSType_NSEC \<and> rr_rrtype rr \<noteq> kDNSType_RRSIG then Some False
      else if rr_rrtype rr = kDNSType_RRSIG then do {
        covered \<leftarrow> get_val16 (rr_data rr) 0;
        Some (covered = kDNSType_NSEC)
      }
      else Some True)"

fun all_nsec_records :: "resource_record list \<Rightarrow> bool option" where
  "all_nsec_records [] = Some True"
| "all_nsec_records (rr # rrs) = do { ok \<leftarrow> nsec_or_signature rr; if ok then all_nsec_records rrs else Some False }"

record negative_record =
  n_nsec :: "resource_record list"
  n_rcode :: u8

definition AddNSECSForCacheRecord ::
    "resource_record list \<Rightarrow> negative_record \<Rightarrow> u8 \<Rightarrow> (negative_record \<times> bool) option" where
  "AddNSECSForCacheRecord crlist negcr rcode =
     (if rcode \<noteq> kDNSFlag1_RC_NoErr \<and> rcode \<noteq> kDNSFlag1_RC_NXDomain then Some (negcr, False)
      else do {
        ok \<leftarrow> all_nsec_records crlist;
        Some (if ok then (negcr\<lparr>n_nsec := crlist, n_rcode := rcode\<rparr>, True) else (negcr, False))
      })"

section \<open>A wildcard answer\<close>

text \<open>The first NSEC record which proves that the name does not exist\<close>

fun first_noname :: "bytes \<Rightarrow> u16 \<Rightarrow> nat \<Rightarrow> resource_record list \<Rightarrow> ((nat \<times> resource_record) option) option" where
  "first_noname name qtype i [] = Some None"
| "first_noname name qtype i (rr # rrs) =
     (if rr_rrtype rr = kDNSType_NSEC then do {
        e \<leftarrow> NSECNameExists rr name qtype;
        if e = 0 then Some (Some (i, rr)) else first_noname name qtype (Suc i) rrs
      } else first_noname name qtype (Suc i) rrs)"

definition WildcardAnswerProof :: "bytes \<Rightarrow> u16 \<Rightarrow> bytes \<Rightarrow> resource_record list option \<Rightarrow> nsec_action option" where
  "WildcardAnswerProof origName origType wildcardName ncr =
     (case ncr of
        None \<Rightarrow> Some Insecure
      | Some nsec \<Rightarrow> do {
          r \<leftarrow> first_noname origName origType 0 nsec;
          (case r of
             None \<Rightarrow> Some Insecure
           | Some (i, rr) \<Rightarrow> do {
               (ce, p) \<leftarrow> NSECClosestEncloser rr origName;
               same \<leftarrow> SameDomainName ce p wildcardName 0;
               Some (if same then Verify_one (Some i) else Insecure)
             })
        })"

section \<open>No data\<close>

record nodata_state =
  p_flags :: u32
  p_wildcard :: "(bytes \<times> nat) option"
  p_ce :: "(bytes \<times> nat) option"
  p_wild :: "nat option"
  p_noname :: "nat option"

definition nodata_record :: "bytes \<Rightarrow> u16 \<Rightarrow> nat \<Rightarrow> resource_record \<Rightarrow> nodata_state \<Rightarrow> nodata_state option" where
  "nodata_record qname qtype i rr s =
     (if rr_rrtype rr \<noteq> kDNSType_NSEC then Some s
      else do {
        (proves, wildcard) \<leftarrow> NSECNoDataError rr qname qtype;
        let s = s\<lparr>p_wildcard := wildcard\<rparr>;
        let s = (if \<not> proves then s
                 else if wildcard \<noteq> None
                 then s\<lparr>p_flags := p_flags s OR WILDCARD_PROVES_NONAME_EXISTS, p_wild := Some i\<rparr>
                 else s\<lparr>p_flags := p_flags s OR NSEC_PROVES_NOTYPE_EXISTS, p_wild := Some i\<rparr>);
        e \<leftarrow> NSECNameExists rr qname qtype;
        if e \<noteq> 0 then Some s
        else do {
          ce \<leftarrow> NSECClosestEncloser rr qname;
          Some (s\<lparr>p_ce := Some ce, p_flags := p_flags s OR NSEC_PROVES_NONAME_EXISTS, p_noname := Some i\<rparr>)
        }
      })"

fun nodata_loop :: "bytes \<Rightarrow> u16 \<Rightarrow> nat \<Rightarrow> resource_record list \<Rightarrow> nodata_state \<Rightarrow> nodata_state option" where
  "nodata_loop qname qtype i [] s = Some s"
| "nodata_loop qname qtype i (rr # rrs) s = do {
     s \<leftarrow> nodata_record qname qtype i rr s;
     nodata_loop qname qtype (Suc i) rrs s
   }"

text \<open>The test of the wildcard against the closest encloser, skipped when the name itself has no such type\<close>

definition encloser_ok :: "nodata_state \<Rightarrow> bool option" where
  "encloser_ok s =
     (if p_flags s AND NSEC_PROVES_NOTYPE_EXISTS \<noteq> 0 then Some True
      else
        (case (p_wildcard s, p_ce s) of
           (None, _) \<Rightarrow> Some True
         | (Some w, None) \<Rightarrow> Some False
         | (Some (w, i), Some (ce, j)) \<Rightarrow> SameDomainName w i ce j))"

text \<open>\<open>alloc r\<close>: whether \<open>AllocateRRVerifier\<close> returns a copy of record \<open>r\<close>\<close>

definition nodata_action :: "(nat \<Rightarrow> bool) \<Rightarrow> nodata_state \<Rightarrow> nsec_action option" where
  "nodata_action alloc s = do {
     ok \<leftarrow> encloser_ok s;
     if \<not> ok then Some Insecure
     else if p_flags s AND (WILDCARD_PROVES_NONAME_EXISTS OR NSEC_PROVES_NONAME_EXISTS)
         = WILDCARD_PROVES_NONAME_EXISTS OR NSEC_PROVES_NONAME_EXISTS
     then
       (case p_noname s of
          None \<Rightarrow> None
        | Some n \<Rightarrow> Some (if alloc n then Verify_both (p_wild s) (Some n) else Insecure))
     else if p_flags s AND WILDCARD_PROVES_NONAME_EXISTS \<noteq> 0 \<or> p_flags s AND NSEC_PROVES_NOTYPE_EXISTS \<noteq> 0
     then Some (Verify_one (p_wild s))
     else if p_flags s AND NSEC_PROVES_NONAME_EXISTS \<noteq> 0 then Some (Verify_one (p_noname s))
     else Some No_action
   }"

definition NoDataProof ::
    "(nat \<Rightarrow> bool) \<Rightarrow> bytes \<Rightarrow> u16 \<Rightarrow> u32 \<Rightarrow> resource_record list \<Rightarrow> (u32 \<times> nsec_action) option" where
  "NoDataProof alloc qname qtype flags nsec = do {
     s \<leftarrow> nodata_loop qname qtype 0 nsec
            \<lparr>p_flags = flags, p_wildcard = None, p_ce = None, p_wild = None, p_noname = None\<rparr>;
     r \<leftarrow> nodata_action alloc s;
     Some (p_flags s, r)
   }"

section \<open>No such name\<close>

record name_error_state =
  e_flags :: u32
  e_wild :: "nat option"
  e_noname :: "nat option"

definition name_error_record :: "bytes \<Rightarrow> u16 \<Rightarrow> nat \<Rightarrow> resource_record \<Rightarrow> name_error_state \<Rightarrow> name_error_state option" where
  "name_error_record qname qtype i rr s =
     (if rr_rrtype rr \<noteq> kDNSType_NSEC then Some s
      else do {
        e \<leftarrow> NSECNameExists rr qname qtype;
        let s = (if e = 0 then s\<lparr>e_flags := e_flags s OR NSEC_PROVES_NONAME_EXISTS, e_noname := Some i\<rparr> else s);
        w \<leftarrow> NSECNoWildcard rr qname qtype;
        Some (if w then s\<lparr>e_flags := e_flags s OR WILDCARD_PROVES_NONAME_EXISTS, e_wild := Some i\<rparr> else s)
      })"

fun name_error_loop :: "bytes \<Rightarrow> u16 \<Rightarrow> nat \<Rightarrow> resource_record list \<Rightarrow> name_error_state \<Rightarrow> name_error_state option" where
  "name_error_loop qname qtype i [] s = Some s"
| "name_error_loop qname qtype i (rr # rrs) s = do {
     s \<leftarrow> name_error_record qname qtype i rr s;
     name_error_loop qname qtype (Suc i) rrs s
   }"

definition name_error_action :: "(nat \<Rightarrow> bool) \<Rightarrow> name_error_state \<Rightarrow> nsec_action" where
  "name_error_action alloc s =
     (case (e_noname s, e_wild s) of
        (Some n, Some w) \<Rightarrow>
          if w \<noteq> n then (if alloc n then Verify_both (Some w) (Some n) else Insecure) else Verify_one (Some w)
      | _ \<Rightarrow> Insecure)"

definition NameErrorProof ::
    "(nat \<Rightarrow> bool) \<Rightarrow> bytes \<Rightarrow> u16 \<Rightarrow> u32 \<Rightarrow> resource_record list \<Rightarrow> (u32 \<times> nsec_action) option" where
  "NameErrorProof alloc qname qtype flags nsec = do {
     s \<leftarrow> name_error_loop qname qtype 0 nsec \<lparr>e_flags = flags, e_wild = None, e_noname = None\<rparr>;
     Some (e_flags s, name_error_action alloc s)
   }"

text \<open>
  \<open>parents\<close> counts the verifiers above this one: one that validates an NSEC record works on a new verifier, whose flags
  are clear (\<open>alloc_dv\<close>: it could be allocated); a second level is refused.  \<open>negative\<close> says that the record is a
  negative cache record.  The flags of the result are those of the verifier that was used.
\<close>

definition ValidateWithNSECS ::
    "(nat \<Rightarrow> bool) \<Rightarrow> bool \<Rightarrow> nat \<Rightarrow> bytes \<Rightarrow> u16 \<Rightarrow> u32 \<Rightarrow> bool \<Rightarrow> negative_record \<Rightarrow> (u32 \<times> nsec_action) option" where
  "ValidateWithNSECS alloc alloc_dv parents qname qtype flags negative cr =
     (if parents \<ge> 2 \<or> (parents = 1 \<and> \<not> alloc_dv) then Some (flags, Indeterminate)
      else
        (let flags = (if parents = 1 then 0 else flags) in
         if \<not> negative then Some (flags, Insecure)
         else if n_rcode cr = kDNSFlag1_RC_NoErr then NoDataProof alloc qname qtype flags (n_nsec cr)
         else if n_rcode cr = kDNSFlag1_RC_NXDomain then NameErrorProof alloc qname qtype flags (n_nsec cr)
         else Some (flags, Insecure)))"

end
