(* ===== verification/Dnssec_Nsec_Props.thy ===== *)
theory Dnssec_Nsec_Props imports Dnssec_Nsec Dns_Rdata_Props "HOL-Library.List_Lexorder" "HOL-Library.Sublist" begin

text \<open>
  The canonical order of nsec.c is the lexicographic order of the labels from the last one on, each
  label ordered as a string of bytes without regard to case, and what a single NSEC record covers in it.
\<close>

section \<open>Three-way comparison\<close>

definition three_way :: "'a::linorder \<Rightarrow> 'a \<Rightarrow> int" where
  "three_way x y = (if x < y then - 1 else if x = y then 0 else 1)"

lemma three_way_simps [simp]:
  "three_way x y = 0 \<longleftrightarrow> x = y" "three_way x y < 0 \<longleftrightarrow> x < y" "three_way x y > 0 \<longleftrightarrow> y < x"
  by (auto simp: three_way_def)

lemma three_way_sym: "three_way y x = - three_way x y"
  by (auto simp: three_way_def)

lemma three_way_neq: "x \<noteq> y \<Longrightarrow> three_way x y = (if x < y then - 1 else 1)"
  by (simp add: three_way_def)

lemma three_way_Cons: "three_way (x # xs) (y # ys) = (if x = y then three_way xs ys else three_way x y)"
  by (auto simp: three_way_def)

lemma three_way_Nil: "three_way [] [] = 0" "three_way [] (y # ys) = - 1" "three_way (x # xs) [] = 1"
  by (simp_all add: three_way_def)

lemma three_way_Suc: "three_way (Suc m) (Suc n) = three_way m n" "three_way 0 (Suc n) = - 1" "three_way (Suc m) 0 = 1"
  by (simp_all add: three_way_def)

lemma three_way_prefix:
  assumes "take n xs = take n ys" "n = min (length xs) (length ys)"
  shows "three_way xs ys = three_way (length xs) (length ys)"
  using assms
proof (induction n arbitrary: xs ys)
  case 0
  then show ?case by (cases xs; cases ys) (simp_all add: three_way_Nil three_way_Suc three_way_def)
next
  case (Suc n)
  then obtain x xs' y ys' where e: "xs = x # xs'" "ys = y # ys'" by (cases xs; cases ys) auto
  with Suc.prems have "x = y" "take n xs' = take n ys'" "n = min (length xs') (length ys')" by auto
  then show ?case using Suc.IH [of xs' ys'] e by (simp only: three_way_Cons three_way_Suc list.size(4) add_Suc_right add_0_right if_True simp_thms)
qed

lemma three_way_take:
  "take n xs \<noteq> take n ys \<Longrightarrow> n \<le> length xs \<Longrightarrow> n \<le> length ys \<Longrightarrow> three_way xs ys = three_way (take n xs) (take n ys)"
proof (induction n arbitrary: xs ys)
  case (Suc n)
  from Suc.prems(2,3) obtain x xs' y ys' where e: "xs = x # xs'" "ys = y # ys'" by (cases xs; cases ys) auto
  show ?case
  proof (cases "x = y")
    case True
    with e Suc.prems have "take n xs' \<noteq> take n ys'" "n \<le> length xs'" "n \<le> length ys'" by auto
    from Suc.IH [OF this] show ?thesis using True e by (simp only: three_way_Cons take_Suc_Cons if_True simp_thms)
  qed (simp add: e three_way_Cons)
qed simp

section \<open>The order of two names\<close>

text \<open>The labels from the last one on, case folded\<close>

definition canonical_key :: "bytes list \<Rightarrow> bytes list" where
  "canonical_key ls = rev (fold_name ls)"

lemma length_canonical_key [simp]: "length (canonical_key ls) = length ls"
  by (simp add: canonical_key_def)

lemma canonical_key_eq [simp]: "canonical_key xs = canonical_key ys \<longleftrightarrow> fold_name xs = fold_name ys"
  by (simp add: canonical_key_def)

text \<open>A name below another one: it ends with its labels.\<close>

definition below :: "bytes list \<Rightarrow> bytes list \<Rightarrow> bool" where
  "below xs ys \<longleftrightarrow> length ys < length xs \<and> take (length ys) (canonical_key xs) = canonical_key ys"

lemma below_greater: "below xs ys \<Longrightarrow> canonical_key ys < canonical_key xs"
proof -
  assume b: "below xs ys"
  have "take (length ys) (canonical_key ys) = take (length ys) (canonical_key xs)"
    using b by (metis below_def take_all length_canonical_key order_refl)
  then have "three_way (canonical_key ys) (canonical_key xs) = three_way (length ys) (length xs)"
    using b three_way_prefix [of "length ys" "canonical_key ys" "canonical_key xs"] unfolding below_def by (metis length_canonical_key min.strict_order_iff)
  then show ?thesis using b by (metis three_way_simps(2) below_def)
qed

lemma canonical_bytes_lists:
  "read_bytes a i (length x) = Some x \<Longrightarrow> read_bytes b j (length y) = Some y \<Longrightarrow> length x = length y \<Longrightarrow>
     canonical_bytes (length x) a i b j =
       Some (if map fold_case x = map fold_case y then None else Some (three_way (map fold_case x) (map fold_case y)))"
proof (induction x arbitrary: y i j)
  case (Cons c x)
  then obtain d y' where y: "y = d # y'" by (cases y) auto
  with Cons have r: "read_byte a i = Some c" "read_byte b j = Some d"
    and rest: "read_bytes a (Suc i) (length x) = Some x" "read_bytes b (Suc j) (length y') = Some y'" "length x = length y'"
    by (auto simp: read_bytes_Cons_iff)
  show ?case using Cons.IH [OF rest] y r by (simp add: Let_def flip: fold_case_def) (auto simp: three_way_Cons three_way_def)
qed simp

lemma read_bytes_take: "read_bytes a i m = Some x \<Longrightarrow> n \<le> m \<Longrightarrow> read_bytes a i n = Some (take n x)"
  by (auto simp: read_bytes_Some_iff min_def)

text \<open>A label in memory\<close>

definition label_at :: "bytes \<Rightarrow> nat \<Rightarrow> bytes \<Rightarrow> bool" where
  "label_at a i x \<longleftrightarrow> valid_label x \<and> read_byte a i = Some (of_nat (length x)) \<and> read_bytes a (Suc i) (length x) = Some x"

lemma canonical_label_cmp:
  assumes "label_at a i x" "label_at b j y"
  shows "canonical_label a i b j =
    Some (if map fold_case x = map fold_case y then None else Some (three_way (map fold_case x) (map fold_case y)))"
proof -
  let ?n = "min (length x) (length y)"
  let ?x = "map fold_case x" and ?y = "map fold_case y"
  have v: "unat (of_nat (length x) :: u8) = length x" "unat (of_nat (length y) :: u8) = length y"
    using assms by (auto simp: label_at_def)
  then have w: "(of_nat (length x) :: u8) < of_nat (length y) \<longleftrightarrow> length x < length y"
    "(of_nat (length x) :: u8) = of_nat (length y) \<longleftrightarrow> length x = length y"
    by (simp_all add: word_less_nat_alt word_unat_eq_iff)
  have n: "unat (if (of_nat (length x) :: u8) < of_nat (length y) then of_nat (length x) else of_nat (length y) :: u8) = ?n"
    using v w by (simp add: min_def)
  have bytes: "canonical_bytes ?n a (Suc i) b (Suc j) =
      Some (if take ?n ?x = take ?n ?y then None else Some (three_way (take ?n ?x) (take ?n ?y)))"
    using canonical_bytes_lists [of a "Suc i" "take ?n x" b "Suc j" "take ?n y"] assms
      read_bytes_take [of a "Suc i" "length x" x ?n] read_bytes_take [of b "Suc j" "length y" y ?n]
    by (simp add: label_at_def take_map)
  show ?thesis
  proof (cases "take ?n ?x = take ?n ?y")
    case True
    then have "three_way ?x ?y = three_way (length x) (length y)" using three_way_prefix [OF True] by (simp only: length_map)
    moreover have "length x = length y \<Longrightarrow> ?x = ?y" using True by simp
    moreover have "length x \<noteq> length y \<Longrightarrow> ?x \<noteq> ?y" by (metis length_map)
    ultimately show ?thesis
      using assms bytes True n w by (simp add: canonical_label_def label_at_def three_way_def)
  next
    case False
    then have "three_way ?x ?y = three_way (take ?n ?x) (take ?n ?y)" "?x \<noteq> ?y"
      using three_way_take [of ?n ?x ?y] by auto
    then show ?thesis using assms bytes False n by (simp add: canonical_label_def label_at_def)
  qed
qed

lemma SkipLeadingLabels_label:
  assumes "name_at a i xs" "n < length xs"
  shows "\<exists>p. SkipLeadingLabels a i (int n) = Some p \<and> label_at a p (xs ! n)"
proof -
  obtain p where p: "SkipLeadingLabels a i (int n) = Some p" "name_at a p (drop n xs)"
    using SkipLeadingLabels_name [OF assms(1), of n] assms(2) by auto
  have "drop n xs = xs ! n # drop (Suc n) xs" using assms(2) by (simp add: Cons_nth_drop_Suc)
  with p have "name_at a p (xs ! n # drop (Suc n) xs)" by metis
  then show ?thesis using p(1) by (simp add: label_at_def)
qed

lemma rev_take_nth: "c < length xs \<Longrightarrow> rev (take (Suc c) xs) = xs ! c # rev (take c xs)"
  by (simp add: take_Suc_conv_app_nth)

lemma canonical_loop_cmp:
  "name_at a i xs \<Longrightarrow> name_at b j ys \<Longrightarrow> n \<le> c1 \<Longrightarrow> c1 \<le> length xs \<Longrightarrow> n \<le> c2 \<Longrightarrow> c2 \<le> length ys \<Longrightarrow>
     canonical_loop n a i (int c1 - 1) b j (int c2 - 1) =
       (let kx = rev (take c1 (fold_name xs)); ky = rev (take c2 (fold_name ys)) in
        Some (if take n kx = take n ky then None else Some (three_way kx ky)))"
proof (induction n arbitrary: c1 c2)
  case (Suc n)
  then obtain d1 d2 where c: "c1 = Suc d1" "c2 = Suc d2" by (cases c1; cases c2) auto
  with Suc.prems have l: "d1 < length xs" "d2 < length ys" by auto
  obtain p where p: "SkipLeadingLabels a i (int d1) = Some p" "label_at a p (xs ! d1)"
    using SkipLeadingLabels_label [OF Suc.prems(1) l(1)] by blast
  obtain q where q: "SkipLeadingLabels b j (int d2) = Some q" "label_at b q (ys ! d2)"
    using SkipLeadingLabels_label [OF Suc.prems(2) l(2)] by blast
  have ih: "canonical_loop n a i (int d1 - 1) b j (int d2 - 1) =
      (let kx = rev (take d1 (fold_name xs)); ky = rev (take d2 (fold_name ys)) in
        Some (if take n kx = take n ky then None else Some (three_way kx ky)))"
    using Suc c by simp
  show ?case using p q ih l c canonical_label_cmp [OF p(2) q(2)]
    by (simp add: rev_take_nth three_way_Cons)
qed simp

lemma DNSSECCanonicalOrder_cmp:
  assumes "name_at a i xs" "name_at b j ys"
  shows "DNSSECCanonicalOrder a i b j = Some (three_way (canonical_key xs) (canonical_key ys), below xs ys)"
proof -
  let ?n = "min (length xs) (length ys)"
  have n: "nat (if int (length xs) < int (length ys) then int (length xs) else int (length ys)) = ?n" by (simp add: min_def)
  have loop: "canonical_loop ?n a i (int (length xs) - 1) b j (int (length ys) - 1) =
      Some (if take ?n (canonical_key xs) = take ?n (canonical_key ys) then None
            else Some (three_way (canonical_key xs) (canonical_key ys)))"
    using canonical_loop_cmp [OF assms, of ?n "length xs" "length ys"] by (simp add: canonical_key_def)
  show ?thesis
  proof (cases "take ?n (canonical_key xs) = take ?n (canonical_key ys)")
    case True
    have "three_way (canonical_key xs) (canonical_key ys) = three_way (length xs) (length ys)"
      using three_way_prefix [OF True] by (simp only: length_canonical_key)
    moreover have "below xs ys \<longleftrightarrow> length ys < length xs" using True by (auto simp: below_def min_def)
    ultimately show ?thesis using n loop True CountLabels_name [OF assms(1)] CountLabels_name [OF assms(2)]
      by (simp add: DNSSECCanonicalOrder_def three_way_def)
  next
    case False
    then have "\<not> below xs ys" by (auto simp: below_def min_def)
    then show ?thesis using n loop False CountLabels_name [OF assms(1)] CountLabels_name [OF assms(2)]
      by (simp add: DNSSECCanonicalOrder_def)
  qed
qed

section \<open>The functions over labels\<close>

text \<open>
  What the NSEC functions of nsec.c compute, as functions of the labels of the names and of the types that
  the record asserts.
\<close>

section \<open>Labels in common\<close>

abbreviation common :: "bytes list \<Rightarrow> bytes list \<Rightarrow> nat" where
  "common xs ys \<equiv> length (longest_common_prefix (canonical_key xs) (canonical_key ys))"

lemma length_lcp_le: "length (longest_common_prefix xs ys) \<le> length xs" "length (longest_common_prefix xs ys) \<le> length ys"
  by (simp_all add: prefix_length_le longest_common_prefix_prefix1 longest_common_prefix_prefix2)

lemma match_loop_common:
  assumes "name_at a i xs" "name_at b j ys" "wire_len xs \<le> 256"
  shows "n = min c1 c2 \<Longrightarrow> c1 \<le> length xs \<Longrightarrow> c2 \<le> length ys \<Longrightarrow> drop c1 (fold_name xs) = drop c2 (fold_name ys) \<Longrightarrow>
     match_loop n a i (int c1 - 1) b j (int c2 - 1) k =
       Some (k + int (length (longest_common_prefix (rev (take c1 (fold_name xs))) (rev (take c2 (fold_name ys))))))"
proof (induction n arbitrary: c1 c2 k)
  case 0
  then show ?case by (cases c1; cases c2) auto
next
  case (Suc n)
  then obtain d1 d2 where c: "c1 = Suc d1" "c2 = Suc d2" by (cases c1; cases c2) auto
  with Suc.prems have l: "d1 < length xs" "d2 < length ys" by auto
  obtain p where p: "SkipLeadingLabels a i (int d1) = Some p" "name_at a p (drop d1 xs)"
    using SkipLeadingLabels_name [OF assms(1), of d1] l by auto
  obtain q where q: "SkipLeadingLabels b j (int d2) = Some q" "name_at b q (drop d2 ys)"
    using SkipLeadingLabels_name [OF assms(2), of d2] l by auto
  have "wire_len (drop d1 xs) \<le> 256"
    using assms(3) wire_len_append [of "take d1 xs" "drop d1 xs"] wire_len_pos [of "take d1 xs"]
    by (simp del: wire_len_pos)
  then have same: "SameDomainName a p b q = Some (fold_name (drop d1 xs) = fold_name (drop d2 ys))"
    using SameDomainName_iff [OF p(2) q(2)] by simp
  have split: "fold_name (drop d1 xs) = fold_name (drop d2 ys) \<longleftrightarrow> fold_name xs ! d1 = fold_name ys ! d2"
    using l c Suc.prems(4) by (simp add: drop_map Cons_nth_drop_Suc [symmetric])
  show ?case
  proof (cases "fold_name xs ! d1 = fold_name ys ! d2")
    case True
    then have "drop d1 (fold_name xs) = drop d2 (fold_name ys)" using split by (simp add: drop_map)
    then have "match_loop n a i (int d1 - 1) b j (int d2 - 1) (k + 1) =
       Some (k + 1 + int (length (longest_common_prefix (rev (take d1 (fold_name xs))) (rev (take d2 (fold_name ys))))))"
      using Suc.IH [of d1 d2 "k + 1"] Suc.prems c by simp
    then show ?thesis using p q same split True l c by (simp add: rev_take_nth)
  next
    case False
    then show ?thesis using p q same split l c by (simp add: rev_take_nth)
  qed
qed

lemma CountLabelsMatch_common:
  assumes "name_at a i xs" "name_at b j ys" "wire_len xs \<le> 256"
  shows "CountLabelsMatch a i b j = Some (int (common xs ys))"
proof -
  have n: "nat (if int (length xs) < int (length ys) then int (length xs) else int (length ys)) = min (length xs) (length ys)"
    by (simp add: min_def)
  show ?thesis
    using match_loop_common [OF assms, of "min (length xs) (length ys)" "length xs" "length ys" 0] n
      CountLabels_name [OF assms(1)] CountLabels_name [OF assms(2)]
    by (simp add: CountLabelsMatch_def canonical_key_def)
qed

text \<open>The labels that a name has in common with another one, in the spelling of the first\<close>

definition shared :: "bytes list \<Rightarrow> bytes list \<Rightarrow> bytes list" where
  "shared xs ys = drop (length xs - common xs ys) xs"

lemma NSECClosestEncloser_name:
  assumes "name_at (rr_name rr) 0 os" "name_at (rr_data rr) 0 ns" "name_at qname 0 xs" "wire_len os \<le> 256" "wire_len ns \<le> 256"
  shows "\<exists>b p. NSECClosestEncloser rr qname = Some (b, p) \<and>
    name_at b p (if common os xs > common ns xs then shared os xs else shared ns xs)"
proof -
  have m: "CountLabelsMatch (rr_name rr) 0 qname 0 = Some (int (common os xs))"
    "CountLabelsMatch (rr_data rr) 0 qname 0 = Some (int (common ns xs))"
    using CountLabelsMatch_common assms by auto
  have le: "common os xs \<le> length os" "common ns xs \<le> length ns"
    using length_lcp_le(1) [of "canonical_key os" "canonical_key xs"] length_lcp_le(1) [of "canonical_key ns" "canonical_key xs"]
    by simp_all
  obtain p where p: "SkipLeadingLabels (rr_name rr) 0 (int (length os - common os xs)) = Some p" "name_at (rr_name rr) p (shared os xs)"
    using SkipLeadingLabels_name [OF assms(1), of "length os - common os xs"] by (auto simp: shared_def)
  obtain q where q: "SkipLeadingLabels (rr_data rr) 0 (int (length ns - common ns xs)) = Some q" "name_at (rr_data rr) q (shared ns xs)"
    using SkipLeadingLabels_name [OF assms(2), of "length ns - common ns xs"] by (auto simp: shared_def)
  show ?thesis using m p q le CountLabels_name [OF assms(1)] CountLabels_name [OF assms(2)]
    by (simp add: NSECClosestEncloser_def of_nat_diff)
qed

section \<open>Types asserted by a record\<close>

definition nsec_record :: "resource_record \<Rightarrow> bytes list \<Rightarrow> bytes list \<Rightarrow> bool" where
  "nsec_record rr os ns \<longleftrightarrow> rr_rrtype rr = kDNSType_NSEC \<and> name_at (rr_name rr) 0 os \<and> name_at (rr_data rr) 0 ns
     \<and> wire_len os \<le> 256 \<and> wire_len ns \<le> 256 \<and> unat (rr_rdlength rr) \<le> length (rr_data rr)"

definition asserts :: "resource_record \<Rightarrow> u16 \<Rightarrow> bool" where
  "asserts rr ty \<longleftrightarrow> RRAssertsExistence rr ty = Some True"

lemma RRAssertsExistence_nsec: "nsec_record rr os ns \<Longrightarrow> RRAssertsExistence rr ty = Some (asserts rr ty)"
proof -
  assume n: "nsec_record rr os ns"
  then have at: "name_at (rr_data rr) 0 ns" "wire_len ns \<le> 256" by (auto simp: nsec_record_def)
  obtain len where len: "DomainNameLength (rr_data rr) 0 = Some len" "unat len = wire_len ns"
    using DomainNameLength_unat [OF at] by blast
  have "unat len + (unat (rr_rdlength rr) - unat len) \<le> length (rr_data rr)"
    using n len name_at_bound [OF at(1)] by (auto simp: nsec_record_def)
  then obtain b where "nsec_exists_loop (rr_data rr) (unat len) (unat (rr_rdlength rr) - unat len) ty = Some b"
    using nsec_exists_loop_some by blast
  then show ?thesis using n len by (cases b) (simp_all add: RRAssertsExistence_def nsec_record_def asserts_def)
qed

lemma parent_side_nsec:
  "nsec_record rr os ns \<Longrightarrow> parent_side rr = Some (\<not> asserts rr kDNSType_SOA \<and> asserts rr kDNSType_NS)"
  by (simp add: parent_side_def RRAssertsNonexistence_def RRAssertsExistence_nsec) (simp add: nsec_record_def)

section \<open>Whether a name exists\<close>

text \<open>The names strictly between the owner and the next name; the last record of a zone points back to its apex.\<close>

definition covers :: "bytes list \<Rightarrow> bytes list \<Rightarrow> bytes list \<Rightarrow> bool" where
  "covers os ns xs \<longleftrightarrow> canonical_key os < canonical_key xs
     \<and> (if canonical_key os < canonical_key ns then canonical_key xs < canonical_key ns else below xs ns)"

text \<open>
  \<open>NSECNameExists\<close> also tests for a record of the parent zone, on the condition that the owner is below the name
  (\<open>subdomain1\<close>).  An owner that sorts before the name never is, so that the test has no part in the result.
\<close>

definition name_exists_spec :: "(u16 \<Rightarrow> bool) \<Rightarrow> bytes list \<Rightarrow> bytes list \<Rightarrow> bytes list \<Rightarrow> u16 \<Rightarrow> int" where
  "name_exists_spec has os ns xs qtype =
     (if canonical_key xs < canonical_key os then - 1
      else if fold_name xs = fold_name os
      then (if has kDNSType_NS \<and> (has kDNSType_SOA \<longleftrightarrow> qtype = kDNSType_DS) then - 1 else 1)
      else if fold_name xs = fold_name ns then 1
      else if covers os ns xs then 0 else - 1)"

lemma NSECNameExists_eq:
  assumes "nsec_record rr os ns" "name_at name 0 xs"
  shows "NSECNameExists rr name qtype = Some (name_exists_spec (asserts rr) os ns xs qtype)"
proof -
  have n: "name_at (rr_name rr) 0 os" "name_at (rr_data rr) 0 ns" using assms(1) by (auto simp: nsec_record_def)
  note order = DNSSECCanonicalOrder_cmp [OF n(1) assms(2)] DNSSECCanonicalOrder_cmp [OF assms(2) n(2)]
    DNSSECCanonicalOrder_cmp [OF n(1) n(2)]
  note ex = RRAssertsExistence_nsec [OF assms(1)] parent_side_nsec [OF assms(1)]
  consider "canonical_key xs < canonical_key os" | "fold_name os = fold_name xs" | "canonical_key os < canonical_key xs"
    by (metis canonical_key_eq linorder_neqE)
  then show ?thesis
  proof cases
    case 1
    then show ?thesis by (simp add: NSECNameExists_def order name_exists_spec_def)
  next
    case 2
    then have "canonical_key os = canonical_key xs" by simp
    then show ?thesis using 2 by (auto simp: NSECNameExists_def order name_exists_spec_def ex)
  next
    case 3
    then have f: "\<not> canonical_key xs < canonical_key os" "fold_name xs \<noteq> fold_name os" "three_way (canonical_key os) (canonical_key xs) = - 1"
      by (auto simp: three_way_def simp flip: canonical_key_eq)
    have "\<not> below os xs" using below_greater [of os xs] f(1) by auto
    then have "NSECNameExists rr name qtype =
        Some (if fold_name xs = fold_name ns then 1
          else if fold_name os = fold_name ns then (if below xs ns then 0 else - 1)
          else if canonical_key os < canonical_key ns then (if canonical_key xs < canonical_key ns then 0 else - 1)
          else (if below xs ns then 0 else - 1))"
      using f by (simp add: NSECNameExists_def order)
    moreover have "canonical_key os < canonical_key ns \<Longrightarrow> fold_name os \<noteq> fold_name ns"
      by (auto simp flip: canonical_key_eq)
    ultimately show ?thesis using f 3 by (simp add: name_exists_spec_def covers_def)
  qed
qed

end
