(* ===== verification/Dnssec_Proof_Props.thy ===== *)
theory Dnssec_Proof_Props imports Dnssec_Proof Dnssec_Nsec_Props Dns_Decode begin

text \<open>
  nsec.c: what the combined proofs of non-existence conclude from the NSEC records of a zone.
\<close>

section \<open>The NSEC chain of a zone\<close>

text \<open>
  \<open>Z\<close> is the set of the names of a zone.  A genuine record names an owner and the next name of the zone in canonical
  order; the record of the last name points back to a name that is not greater.
\<close>

definition chain_link :: "bytes list set \<Rightarrow> bytes list \<Rightarrow> bytes list \<Rightarrow> bool" where
  "chain_link Z os ns \<longleftrightarrow> os \<in> Z \<and> ns \<in> Z
     \<and> (\<forall>z \<in> Z. canonical_key os < canonical_key z \<longrightarrow> canonical_key os < canonical_key ns \<and> canonical_key ns \<le> canonical_key z)"

definition in_zone :: "bytes list set \<Rightarrow> bytes list \<Rightarrow> bool" where
  "in_zone Z xs \<longleftrightarrow> (\<exists>z \<in> Z. fold_name z = fold_name xs)"

lemma covers_not_in_zone: "chain_link Z os ns \<Longrightarrow> covers os ns xs \<Longrightarrow> \<not> in_zone Z xs"
proof
  assume c: "chain_link Z os ns" "covers os ns xs" and "in_zone Z xs"
  then obtain z where z: "z \<in> Z" "canonical_key z = canonical_key xs" by (auto simp: in_zone_def)
  with c have "canonical_key os < canonical_key z" unfolding covers_def by metis
  with c(1) z(1) have "canonical_key os < canonical_key ns" "canonical_key ns \<le> canonical_key z" by (auto simp: chain_link_def)
  with c(2) z(2) show False unfolding covers_def by (metis not_le)
qed

definition genuine :: "bytes list set \<Rightarrow> resource_record \<Rightarrow> bool" where
  "genuine Z rr \<longleftrightarrow> (\<exists>os ns. nsec_record rr os ns \<and> chain_link Z os ns)"

lemma NSECNameExists_zero:
  assumes "genuine Z rr" "name_at name 0 xs" "NSECNameExists rr name qtype = Some 0"
  shows "\<not> in_zone Z xs"
proof -
  obtain os ns where n: "nsec_record rr os ns" "chain_link Z os ns" using assms(1) by (auto simp: genuine_def)
  then have "covers os ns xs"
    using NSECNameExists_eq [OF n(1) assms(2), of qtype] assms(3) by (simp add: name_exists_spec_def split: if_splits)
  then show ?thesis by (rule covers_not_in_zone [OF n(2)])
qed

lemma NSECNameExists_one:
  assumes "genuine Z rr" "name_at name 0 xs" "NSECNameExists rr name qtype = Some 1"
  shows "in_zone Z xs"
proof -
  obtain os ns where n: "nsec_record rr os ns" "chain_link Z os ns" using assms(1) by (auto simp: genuine_def)
  then have "fold_name xs = fold_name os \<or> fold_name xs = fold_name ns"
    using NSECNameExists_eq [OF n(1) assms(2), of qtype] assms(3) by (simp add: name_exists_spec_def split: if_splits)
  then show ?thesis using n(2) by (auto simp: in_zone_def chain_link_def)
qed

section \<open>Wildcards\<close>

abbreviation star :: bytes where "star \<equiv> [0x2A]"

text \<open>The closest encloser of a name as the record shows it\<close>

definition encloser :: "bytes list \<Rightarrow> bytes list \<Rightarrow> bytes list \<Rightarrow> bytes list" where
  "encloser os ns xs = (if common os xs > common ns xs then shared os xs else shared ns xs)"

lemma NSECNoWildcard_eq:
  assumes "nsec_record rr os ns" "name_at qname 0 xs"
  shows "NSECNoWildcard rr qname qtype =
    Some (wire_len (star # encloser os ns xs) \<le> 256 \<and> name_exists_spec (asserts rr) os ns (star # encloser os ns xs) qtype = 0)"
proof -
  let ?buf = "[1, 0x2A, 0] @ replicate (MAX_DOMAIN_NAME - 3) 0 :: bytes"
  have n: "name_at (rr_name rr) 0 os" "name_at (rr_data rr) 0 ns" "wire_len os \<le> 256" "wire_len ns \<le> 256"
    using assms(1) by (auto simp: nsec_record_def)
  obtain b p where ce: "NSECClosestEncloser rr qname = Some (b, p)" "name_at b p (encloser os ns xs)"
    using NSECClosestEncloser_name [OF n(1,2) assms(2) n(3,4)] by (auto simp: encloser_def)
  have buf: "name_at ?buf 0 [star]" "length ?buf = 256"
    by (simp_all add: MAX_DOMAIN_NAME_def valid_label_def read_byte_def read_bytes_def)
  obtain wild where w: "length wild = 256"
    "if wire_len ([star] @ encloser os ns xs) \<le> 256
     then AppendDomainName ?buf b p = Some (wild, Some (wire_len ([star] @ encloser os ns xs) - 1)) \<and> name_at wild 0 ([star] @ encloser os ns xs)
     else AppendDomainName ?buf b p = Some (wild, None)"
    using AppendDomainName_name [OF buf ce(2)] by blast
  show ?thesis
  proof (cases "wire_len ([star] @ encloser os ns xs) \<le> 256")
    case True
    with w have a: "AppendDomainName ?buf b p = Some (wild, Some (wire_len ([star] @ encloser os ns xs) - 1))"
      and at: "name_at wild 0 (star # encloser os ns xs)" by auto
    show ?thesis using ce a True NSECNameExists_eq [OF assms(1) at, of qtype]
      by (simp only: NSECNoWildcard_def Option.bind_lunit prod.case option.case) simp
  next
    case False
    with w have "AppendDomainName ?buf b p = Some (wild, None)" by auto
    with ce False show ?thesis by (simp only: NSECNoWildcard_def Option.bind_lunit prod.case option.case) simp
  qed
qed

lemma NSECNoWildcard_true:
  assumes "nsec_record rr os ns" "chain_link Z os ns" "name_at qname 0 xs" "NSECNoWildcard rr qname qtype = Some True"
  shows "\<not> in_zone Z (star # encloser os ns xs)"
  using assms NSECNoWildcard_eq [OF assms(1,3), of qtype]
  by (intro covers_not_in_zone [OF assms(2)]) (auto simp: name_exists_spec_def split: if_splits)

section \<open>No such name\<close>

text \<open>What the loop has found: records that prove what their flag says\<close>

definition name_error_inv :: "bytes \<Rightarrow> u16 \<Rightarrow> resource_record list \<Rightarrow> name_error_state \<Rightarrow> bool" where
  "name_error_inv qname qtype seen s \<longleftrightarrow>
     (\<forall>n. e_noname s = Some n \<longrightarrow> n < length seen \<and> rr_rrtype (seen ! n) = kDNSType_NSEC \<and> NSECNameExists (seen ! n) qname qtype = Some 0) \<and>
     (\<forall>w. e_wild s = Some w \<longrightarrow> w < length seen \<and> rr_rrtype (seen ! w) = kDNSType_NSEC \<and> NSECNoWildcard (seen ! w) qname qtype = Some True)"

lemma name_error_record_inv:
  assumes "name_error_inv qname qtype seen s" "name_error_record qname qtype (length seen) rr s = Some s'"
  shows "name_error_inv qname qtype (seen @ [rr]) s'"
  using assms by (auto simp: name_error_record_def name_error_inv_def Let_def nth_append split: if_splits)

lemma name_error_loop_inv:
  "name_error_inv qname qtype seen s \<Longrightarrow> name_error_loop qname qtype (length seen) rrs s = Some s' \<Longrightarrow>
     name_error_inv qname qtype (seen @ rrs) s'"
proof (induction rrs arbitrary: seen s)
  case (Cons rr rrs)
  then obtain s1 where s1: "name_error_record qname qtype (length seen) rr s = Some s1"
    "name_error_loop qname qtype (Suc (length seen)) rrs s1 = Some s'" by auto
  then show ?case using Cons.IH [of "seen @ [rr]" s1] name_error_record_inv [OF Cons.prems(1) s1(1)] by simp
qed simp

section \<open>NoDataProof\<close>

text \<open>
  nsec.c: \<open>NoDataProof\<close> follows no null pointer, verifies only records that prove something, and what decides
  whether it does anything at all.
\<close>

section \<open>Flags\<close>

lemmas proof_flags = WILDCARD_PROVES_NONAME_EXISTS_def NSEC_PROVES_NOTYPE_EXISTS_def NSEC_PROVES_NONAME_EXISTS_def

lemma flag_bits: "bit (2 :: u32) n \<longleftrightarrow> n = 1" "bit (4 :: u32) n \<longleftrightarrow> n = 2" "bit (8 :: u32) n \<longleftrightarrow> n = 3"
  using bit_exp_iff [where ?'a = u32, of 1 n] bit_exp_iff [where ?'a = u32, of 2 n] bit_exp_iff [where ?'a = u32, of 3 n]
  by (auto simp del: bit_numeral_iff)

lemma flag_set_iff:
  "x AND WILDCARD_PROVES_NONAME_EXISTS \<noteq> 0 \<longleftrightarrow> bit x 1"
  "x AND NSEC_PROVES_NOTYPE_EXISTS \<noteq> 0 \<longleftrightarrow> bit x 2"
  "x AND NSEC_PROVES_NONAME_EXISTS \<noteq> 0 \<longleftrightarrow> bit x 3"
  using and_exp_eq_0_iff_not_bit [of x 1] and_exp_eq_0_iff_not_bit [of x 2] and_exp_eq_0_iff_not_bit [of x 3]
  by (simp_all add: proof_flags)

lemma flag_both_iff:
  "x AND (WILDCARD_PROVES_NONAME_EXISTS OR NSEC_PROVES_NONAME_EXISTS) = WILDCARD_PROVES_NONAME_EXISTS OR NSEC_PROVES_NONAME_EXISTS
     \<longleftrightarrow> bit x 1 \<and> bit x 3"
proof -
  have b: "bit (WILDCARD_PROVES_NONAME_EXISTS OR NSEC_PROVES_NONAME_EXISTS) n \<longleftrightarrow> n = 1 \<or> n = 3" for n
    by (simp only: proof_flags bit_or_iff flag_bits)
  have "x AND m = m \<longleftrightarrow> (\<forall>n. bit m n \<longrightarrow> bit x n)" for m
  proof
    assume "x AND m = m"
    then show "\<forall>n. bit m n \<longrightarrow> bit x n" by (metis bit_and_iff)
  qed (rule bit_eqI, auto simp: bit_and_iff)
  then show ?thesis by (simp only: b) auto
qed

lemma flag_or_bits:
  "bit (x OR WILDCARD_PROVES_NONAME_EXISTS) n \<longleftrightarrow> bit x n \<or> n = 1"
  "bit (x OR NSEC_PROVES_NOTYPE_EXISTS) n \<longleftrightarrow> bit x n \<or> n = 2"
  "bit (x OR NSEC_PROVES_NONAME_EXISTS) n \<longleftrightarrow> bit x n \<or> n = 3"
  by (simp_all only: proof_flags bit_or_iff flag_bits)

section \<open>One record\<close>

definition a_name :: "(bytes \<times> nat) option \<Rightarrow> bool" where
  "a_name r \<longleftrightarrow> (case r of None \<Rightarrow> True | Some (b, p) \<Rightarrow> \<exists>ls. name_at b p ls)"

lemma a_name_simps [simp]: "a_name None" "a_name (Some (b, p)) \<longleftrightarrow> (\<exists>ls. name_at b p ls)"
  by (simp_all add: a_name_def)

lemma NSECAnswersENT_eq:
  assumes "nsec_record rr os ns" "name_at name 0 xs"
  shows "NSECAnswersENT rr name = Some (canonical_key os < canonical_key xs \<and> below ns xs)"
  using assms(1) DNSSECCanonicalOrder_cmp [OF _ assms(2), of "rr_name rr" 0 os] DNSSECCanonicalOrder_cmp [OF _ assms(2), of "rr_data rr" 0 ns]
  by (simp add: nsec_record_def NSECAnswersENT_def)

lemma NSECNoDataError_some:
  assumes "nsec_record rr os ns" "name_at name 0 xs"
  shows "\<exists>b w. NSECNoDataError rr name qtype = Some (b, w) \<and> a_name w \<and> (w \<noteq> None \<longrightarrow> b)"
proof -
  have n: "name_at (rr_name rr) 0 os" "name_at (rr_data rr) 0 ns" using assms(1) by (auto simp: nsec_record_def)
  note ex = RRAssertsExistence_nsec [OF assms(1)] parent_side_nsec [OF assms(1)]
  note same = SameDomainName_iff [OF n(1) assms(2)]
  note ent = NSECAnswersENT_eq [OF assms]
  show ?thesis
  proof (cases "fold_name os = fold_name xs \<and> wire_len os \<le> 256")
    case True
    then show ?thesis by (auto simp: NSECNoDataError_def same ex)
  next
    case diff: False
    then have other: "SameDomainName (rr_name rr) 0 name 0 = Some False" using same by simp
    show ?thesis
    proof (cases os)
      case Nil
      then show ?thesis using n(1) by (auto simp: NSECNoDataError_def other ent)
    next
      case (Cons l os')
      then have at: "read_byte (rr_name rr) 0 = Some (of_nat (length l))" "read_bytes (rr_name rr) (Suc 0) (length l) = Some l"
        "valid_label l" "name_at (rr_name rr) (Suc (length l)) os'"
        using n(1) by auto
      obtain c where c: "read_byte (rr_name rr) (Suc 0) = Some c"
        using at(2,3) read_bytes_nth [OF at(2), of 0] by (auto simp: valid_label_def)
      have skip: "SkipLeadingLabels (rr_name rr) 0 1 = Some (Suc (length l))"
        using at(1,3) by (simp add: SkipLeadingLabels.simps [of _ 0 1] SkipLeadingLabels.simps [of _ _ 0])
      note order = DNSSECCanonicalOrder_cmp [OF assms(2) at(4)]
      show ?thesis
      proof (cases "of_nat (length l) = (1 :: u8) \<and> c = 0x2A \<and> below xs os'")
        case True
        then show ?thesis using at(1,4) c by (auto simp: NSECNoDataError_def other ent skip order ex)
      next
        case False
        then show ?thesis using at(1) c
          by (cases "of_nat (length l) = (1 :: u8)"; cases "c = 0x2A") (auto simp: NSECNoDataError_def other ent skip order)
      qed
    qed
  qed
qed

section \<open>The loop\<close>

definition proves_notype :: "bytes \<Rightarrow> u16 \<Rightarrow> resource_record \<Rightarrow> bool" where
  "proves_notype qname qtype rr \<longleftrightarrow> rr_rrtype rr = kDNSType_NSEC \<and> (\<exists>w. NSECNoDataError rr qname qtype = Some (True, w))"

definition proves_noname :: "bytes \<Rightarrow> u16 \<Rightarrow> resource_record \<Rightarrow> bool" where
  "proves_noname qname qtype rr \<longleftrightarrow> rr_rrtype rr = kDNSType_NSEC \<and> NSECNameExists rr qname qtype = Some 0"

definition points_to :: "resource_record list \<Rightarrow> (resource_record \<Rightarrow> bool) \<Rightarrow> nat option \<Rightarrow> bool" where
  "points_to seen P r \<longleftrightarrow> (case r of None \<Rightarrow> False | Some i \<Rightarrow> i < length seen \<and> P (seen ! i))"

lemma points_to_grow: "points_to seen P r \<Longrightarrow> points_to (seen @ rest) P r"
  by (auto simp: points_to_def nth_append split: option.splits)

lemma points_to_last [simp]: "points_to (seen @ [rr]) P (Some (length seen)) \<longleftrightarrow> P rr"
  by (simp add: points_to_def)

definition nodata_inv :: "bytes \<Rightarrow> u16 \<Rightarrow> resource_record list \<Rightarrow> nodata_state \<Rightarrow> bool" where
  "nodata_inv qname qtype seen s \<longleftrightarrow> a_name (p_wildcard s) \<and> a_name (p_ce s)
     \<and> (p_wildcard s \<noteq> None \<longrightarrow> bit (p_flags s) 1)
     \<and> (bit (p_flags s) 3 \<longrightarrow> points_to seen (proves_noname qname qtype) (p_noname s))
     \<and> (bit (p_flags s) 1 \<or> bit (p_flags s) 2 \<longrightarrow> points_to seen (proves_notype qname qtype) (p_wild s))
     \<and> ((\<exists>rr \<in> set seen. proves_noname qname qtype rr) \<longleftrightarrow> bit (p_flags s) 3)
     \<and> ((\<exists>rr \<in> set seen. proves_notype qname qtype rr) \<longleftrightarrow> bit (p_flags s) 1 \<or> bit (p_flags s) 2)"

lemma nodata_record_inv:
  assumes "rr_rrtype rr = kDNSType_NSEC \<Longrightarrow> \<exists>os ns. nsec_record rr os ns" "name_at qname 0 xs" "nodata_inv qname qtype seen s"
  shows "\<exists>s'. nodata_record qname qtype (length seen) rr s = Some s' \<and> nodata_inv qname qtype (seen @ [rr]) s'"
proof (cases "rr_rrtype rr = kDNSType_NSEC")
  case False
  then show ?thesis using assms(3) points_to_grow [of seen _ _ "[rr]"]
    by (auto simp: nodata_record_def nodata_inv_def proves_notype_def proves_noname_def)
next
  case True
  then obtain os ns where n: "nsec_record rr os ns" using assms(1) by blast
  obtain b w where d: "NSECNoDataError rr qname qtype = Some (b, w)" "a_name w" "w \<noteq> None \<longrightarrow> b"
    using NSECNoDataError_some [OF n assms(2)] by blast
  obtain e where e: "NSECNameExists rr qname qtype = Some e" using NSECNameExists_eq [OF n assms(2)] by blast
  obtain c p where ce: "NSECClosestEncloser rr qname = Some (c, p)" "\<exists>ls. name_at c p ls"
    using NSECClosestEncloser_name [OF _ _ assms(2), of rr os ns] n by (auto simp: nsec_record_def)
  have p: "proves_notype qname qtype rr \<longleftrightarrow> b" "proves_noname qname qtype rr \<longleftrightarrow> e = 0"
    using True d e by (auto simp: proves_notype_def proves_noname_def)
  define s1 where "s1 = (if \<not> b then s\<lparr>p_wildcard := w\<rparr>
    else if w \<noteq> None then s\<lparr>p_wildcard := w, p_flags := p_flags s OR WILDCARD_PROVES_NONAME_EXISTS, p_wild := Some (length seen)\<rparr>
    else s\<lparr>p_wildcard := w, p_flags := p_flags s OR NSEC_PROVES_NOTYPE_EXISTS, p_wild := Some (length seen)\<rparr>)"
  define s2 where "s2 = (if e \<noteq> 0 then s1
    else s1\<lparr>p_ce := Some (c, p), p_flags := p_flags s1 OR NSEC_PROVES_NONAME_EXISTS, p_noname := Some (length seen)\<rparr>)"
  have step: "nodata_record qname qtype (length seen) rr s = Some s2"
    using True d(1) e ce(1) by (auto simp: nodata_record_def s1_def s2_def Let_def)
  note grow = points_to_grow [of seen _ _ "[rr]"]
  have "a_name (p_wildcard s2)" "a_name (p_ce s2)" "p_wildcard s2 \<noteq> None \<longrightarrow> bit (p_flags s2) 1"
    using d(2,3) ce(2) assms(3) by (auto simp: s1_def s2_def nodata_inv_def flag_or_bits)
  moreover have "bit (p_flags s2) 3 \<longrightarrow> points_to (seen @ [rr]) (proves_noname qname qtype) (p_noname s2)"
    "bit (p_flags s2) 1 \<or> bit (p_flags s2) 2 \<longrightarrow> points_to (seen @ [rr]) (proves_notype qname qtype) (p_wild s2)"
    using p assms(3) grow by (auto simp: s1_def s2_def nodata_inv_def flag_or_bits)
  moreover have "bit (p_flags s2) 3 \<longleftrightarrow> bit (p_flags s) 3 \<or> e = 0"
    "bit (p_flags s2) 1 \<or> bit (p_flags s2) 2 \<longleftrightarrow> bit (p_flags s) 1 \<or> bit (p_flags s) 2 \<or> b"
    by (auto simp: s1_def s2_def flag_or_bits)
  ultimately have "nodata_inv qname qtype (seen @ [rr]) s2"
    using p assms(3) unfolding nodata_inv_def set_append list.set bex_Un by blast
  with step show ?thesis by blast
qed

lemma nodata_loop_inv:
  "\<forall>rr \<in> set rrs. rr_rrtype rr = kDNSType_NSEC \<longrightarrow> (\<exists>os ns. nsec_record rr os ns) \<Longrightarrow> name_at qname 0 xs \<Longrightarrow>
     nodata_inv qname qtype seen s \<Longrightarrow>
     \<exists>s'. nodata_loop qname qtype (length seen) rrs s = Some s' \<and> nodata_inv qname qtype (seen @ rrs) s'"
proof (induction rrs arbitrary: seen s)
  case (Cons rr rrs)
  obtain s1 where s1: "nodata_record qname qtype (length seen) rr s = Some s1" "nodata_inv qname qtype (seen @ [rr]) s1"
    using nodata_record_inv [OF _ Cons.prems(2,3), of rr] Cons.prems(1) by auto
  then show ?case using Cons.IH [of "seen @ [rr]" s1] Cons.prems by simp
qed simp

lemma encloser_ok_some: "a_name (p_wildcard s) \<Longrightarrow> a_name (p_ce s) \<Longrightarrow> \<exists>b. encloser_ok s = Some b"
  using SameDomainName_iff by (auto simp: encloser_ok_def split: option.split)

lemma nodata_action_inv:
  assumes "nodata_inv qname qtype nsec s"
  shows "\<exists>a. nodata_action alloc s = Some a
    \<and> (a = No_action \<longleftrightarrow> (\<forall>rr \<in> set nsec. \<not> proves_notype qname qtype rr \<and> \<not> proves_noname qname qtype rr))
    \<and> (\<forall>w n. a = Verify_both w n \<longrightarrow> points_to nsec (proves_notype qname qtype) w \<and> points_to nsec (proves_noname qname qtype) n)
    \<and> (\<forall>r. a = Verify_one r \<longrightarrow> points_to nsec (\<lambda>rr. proves_notype qname qtype rr \<or> proves_noname qname qtype rr) r)"
proof -
  note i = assms [unfolded nodata_inv_def]
  obtain b where b: "encloser_ok s = Some b" using encloser_ok_some i by blast
  have none: "(\<forall>rr \<in> set nsec. \<not> proves_notype qname qtype rr \<and> \<not> proves_noname qname qtype rr)
      \<longleftrightarrow> \<not> bit (p_flags s) 1 \<and> \<not> bit (p_flags s) 2 \<and> \<not> bit (p_flags s) 3"
    using i by blast
  show ?thesis
  proof (cases b)
    case False
    then have "bit (p_flags s) 1" using b i by (auto simp: encloser_ok_def split: if_splits option.splits)
    then show ?thesis using b False none by (auto simp: nodata_action_def)
  next
    case True
    show ?thesis
    proof (cases "bit (p_flags s) 1 \<and> bit (p_flags s) 3")
      case both: True
      then obtain n where "p_noname s = Some n" using i by (auto simp: points_to_def split: option.splits)
      then show ?thesis using b True both none i by (auto simp: nodata_action_def flag_both_iff)
    next
      case False
      consider "bit (p_flags s) 1 \<or> bit (p_flags s) 2" | "\<not> bit (p_flags s) 1" "\<not> bit (p_flags s) 2" by blast
      then show ?thesis
      proof cases
        case 1
        then show ?thesis using b True False none i
          by (auto simp: nodata_action_def flag_both_iff flag_set_iff points_to_def split: option.splits)
      next
        case 2
        then show ?thesis using b True False none i
          by (auto simp: nodata_action_def flag_both_iff flag_set_iff points_to_def split: option.splits)
      qed
    qed
  qed
qed

end
