(* ===== verification/Dnssec_Claims.thy ===== *)
theory Dnssec_Claims imports Dnssec_Proof_Props begin

text \<open>The properties of nsec.c and the data at which they are applied.\<close>

section \<open>NSEC records built from labels\<close>

definition nsec_rr :: "bytes list \<Rightarrow> bytes list \<Rightarrow> bytes \<Rightarrow> resource_record" where
  "nsec_rr os ns bitmap = \<lparr>rr_RecordType = 0, rr_rrtype = kDNSType_NSEC, rr_rrclass = 1, rr_rroriginalttl = 0,
     rr_rdlength = of_nat (wire_len ns + length bitmap), rr_rdestimate = 0, rr_namehash = 0, rr_rdatahash = 0, rr_InterfaceID = 0,
     rr_name = wire os, rr_data = wire ns @ bitmap, rr_opts = [], rr_resGroupID = None\<rparr>"

lemma nsec_rr_record:
  assumes "\<forall>l \<in> set os. valid_label l" "\<forall>l \<in> set ns. valid_label l" "wire_len os \<le> 256" "wire_len ns \<le> 256"
    "length bitmap \<le> 1000"
  shows "nsec_record (nsec_rr os ns bitmap) os ns"
proof -
  have "name_at (wire os) 0 os" using name_at_zero [OF assms(1), of "[]"] by simp
  moreover have "unat (of_nat (wire_len ns + length bitmap) :: u16) = wire_len ns + length bitmap"
    by (rule unat_of_nat_u16) (use assms(4,5) in simp)
  ultimately show ?thesis using assms name_at_zero [OF assms(2), of bitmap] by (simp add: nsec_rr_def nsec_record_def)
qed

abbreviation l_e :: bytes where "l_e \<equiv> [0x65]"
abbreviation l_a :: bytes where "l_a \<equiv> [0x61]"
abbreviation l_x :: bytes where "l_x \<equiv> [0x78]"
abbreviation l_y :: bytes where "l_y \<equiv> [0x79]"
abbreviation l_z :: bytes where "l_z \<equiv> [0x7A]"

text \<open>The bitmap of a delegation: only NS is set.  The zone \<open>e\<close>: \<open>a.e\<close>, \<open>y.e\<close> and \<open>*.y.e\<close>.\<close>

definition ns_bitmap :: bytes where "ns_bitmap = [0, 1, 0x20]"

definition zone_e :: "bytes list set" where
  "zone_e = {[l_e], [l_a, l_e], [l_y, l_e], [star, l_y, l_e]}"

lemma demo_labels [simp]: "valid_label l_e" "valid_label l_a" "valid_label l_x" "valid_label l_y" "valid_label l_z" "valid_label star"
  by (simp_all add: valid_label_def)

lemma demo_fold [simp]: "fold_case 0x65 = 0x65" "fold_case 0x61 = 0x61" "fold_case 0x78 = 0x78" "fold_case 0x79 = 0x79"
  "fold_case 0x7A = 0x7A" "fold_case 0x2A = 0x2A"
  by (simp_all add: fold_case_def mDNSIsUpperCase_def)

lemma zone_links:
  "chain_link zone_e [l_e] [l_a, l_e]" "chain_link zone_e [l_a, l_e] [l_y, l_e]" "chain_link zone_e [star, l_y, l_e] [l_e]"
  by (simp_all add: chain_link_def zone_e_def canonical_key_def)

lemma wire_name_at: "\<forall>l \<in> set ls. valid_label l \<Longrightarrow> name_at (wire ls) 0 ls"
  using name_at_zero [of ls "[]"] by simp

section \<open>The order\<close>

text \<open>
  C20. \<open>DNSSECCanonicalOrder\<close> refines the lexicographic order of the labels from the last one on, compared as strings of
  bytes without regard to case: it returns -1, 0 or 1 as this order says, the opposite for exchanged names, 0 exactly for
  names that differ in case only, and \<open>*subdomain\<close> exactly when the first name ends with the labels of the second and has more.
\<close>
theorem DNSSECCanonicalOrder_refines:
  assumes "name_at a i xs" "name_at b j ys"
  shows "\<exists>r. DNSSECCanonicalOrder a i b j = Some (r, below xs ys) \<and> r = three_way (canonical_key xs) (canonical_key ys)
    \<and> DNSSECCanonicalOrder b j a i = Some (- r, below ys xs)
    \<and> (r = 0 \<longleftrightarrow> fold_name xs = fold_name ys) \<and> (below xs ys \<longrightarrow> r = 1)"
proof (intro exI conjI impI)
  show "three_way (canonical_key xs) (canonical_key ys) = 1" if "below xs ys"
    using below_greater [OF that] unfolding three_way_def by (metis less_asym less_irrefl)
qed (use DNSSECCanonicalOrder_cmp [OF assms] DNSSECCanonicalOrder_cmp [OF assms(2,1)] in
      \<open>simp_all add: three_way_sym [of "canonical_key ys" "canonical_key xs"]\<close>)

theorem DNSSECCanonicalOrder_refines_witness:
  "DNSSECCanonicalOrder (wire [l_x, l_y, l_e]) 0 (wire [l_y, l_e]) 0 = Some (1, True)"
proof -
  have "below [l_x, l_y, l_e] [l_y, l_e]" by (simp add: below_def canonical_key_def)
  then show ?thesis
    using DNSSECCanonicalOrder_refines [OF wire_name_at wire_name_at, of "[l_x, l_y, l_e]" "[l_y, l_e]"] by auto
qed

section \<open>One record\<close>

text \<open>
  C21. \<open>NSECNameExists\<close> is sound for the records of a zone: on any name it returns -1, 0 or 1, 0 only for a name that is not in
  the zone, 1 only for a name that is (for names equal up to case).
\<close>
theorem NSECNameExists_sound:
  assumes "genuine Z rr" "name_at name 0 xs"
  shows "\<exists>r \<in> {-1, 0, 1}. NSECNameExists rr name qtype = Some r
    \<and> (r = 0 \<longrightarrow> \<not> in_zone Z xs) \<and> (r = 1 \<longrightarrow> in_zone Z xs)"
proof -
  obtain os ns where n: "nsec_record rr os ns" using assms(1) by (auto simp: genuine_def)
  have "name_exists_spec (asserts rr) os ns xs qtype \<in> {-1, 0, 1}" by (simp add: name_exists_spec_def)
  with NSECNameExists_eq [OF n assms(2), of qtype] show ?thesis
    using NSECNameExists_zero [OF assms] NSECNameExists_one [OF assms] by metis
qed

theorem NSECNameExists_sound_witness:
  "genuine zone_e (nsec_rr [l_a, l_e] [l_y, l_e] ns_bitmap) \<and>
   (\<exists>r. NSECNameExists (nsec_rr [l_a, l_e] [l_y, l_e] ns_bitmap) (wire [l_x, l_e]) kDNSType_A = Some r \<and> (r = 0 \<longrightarrow> \<not> in_zone zone_e [l_x, l_e]))"
proof -
  have "nsec_record (nsec_rr [l_a, l_e] [l_y, l_e] ns_bitmap) [l_a, l_e] [l_y, l_e]"
    by (rule nsec_rr_record) (simp_all add: ns_bitmap_def)
  then have "genuine zone_e (nsec_rr [l_a, l_e] [l_y, l_e] ns_bitmap)" using zone_links(2) by (auto simp: genuine_def)
  then show ?thesis using NSECNameExists_sound [OF _ wire_name_at, of zone_e _ "[l_x, l_e]" kDNSType_A] by fastforce
qed

text \<open>
  \<open>NSECNameExists\<close> accepts the record of a delegation as a proof that the names below the delegation do not exist: the
  record of \<open>os\<close> asserts NS and not SOA, the name is below \<open>os\<close> and sorts before the next name, and the result is 0, not -1.
\<close>
theorem NSECNameExists_below_delegation:
  assumes "nsec_record rr os ns" "asserts rr kDNSType_NS" "\<not> asserts rr kDNSType_SOA"
    "name_at name 0 xs" "below xs os" "canonical_key xs < canonical_key ns"
  shows "NSECNameExists rr name qtype = Some 0"
proof -
  have "canonical_key os < canonical_key xs" using assms(5) by (rule below_greater)
  then have "\<not> canonical_key xs < canonical_key os" "fold_name xs \<noteq> fold_name os" "fold_name xs \<noteq> fold_name ns"
    "canonical_key os < canonical_key ns"
    using assms(6) by (auto simp flip: canonical_key_eq)
  then show ?thesis using NSECNameExists_eq [OF assms(1,4), of qtype] assms(6) \<open>canonical_key os < canonical_key xs\<close>
    by (simp add: name_exists_spec_def covers_def)
qed

lemma delegation_record: "nsec_record (nsec_rr [l_a, l_e] [l_y, l_e] ns_bitmap) [l_a, l_e] [l_y, l_e]"
  by (rule nsec_rr_record) (simp_all add: ns_bitmap_def)

theorem NSECNameExists_below_delegation_witness:
  "NSECNameExists (nsec_rr [l_a, l_e] [l_y, l_e] ns_bitmap) (wire [l_x, l_a, l_e]) kDNSType_A = Some 0"
proof (rule NSECNameExists_below_delegation [OF delegation_record, where xs = "[l_x, l_a, l_e]"])
  have len: "DomainNameLength (rr_data (nsec_rr [l_a, l_e] [l_y, l_e] ns_bitmap)) 0 = Some 5"
    using DomainNameLength_name [of "rr_data (nsec_rr [l_a, l_e] [l_y, l_e] ns_bitmap)" 0 "[l_y, l_e]"] delegation_record
    by (simp add: nsec_record_def)
  show "asserts (nsec_rr [l_a, l_e] [l_y, l_e] ns_bitmap) kDNSType_NS" "\<not> asserts (nsec_rr [l_a, l_e] [l_y, l_e] ns_bitmap) kDNSType_SOA"
    using len by (simp_all add: asserts_def RRAssertsExistence_def nsec_rr_def ns_bitmap_def nsec_exists_loop.simps read_byte_def wire_simps Let_def)
  show "name_at (wire [l_x, l_a, l_e]) 0 [l_x, l_a, l_e]" by (rule wire_name_at) simp
qed (simp_all add: below_def canonical_key_def)

section \<open>Several records\<close>

text \<open>
  Whether \<open>NoDataProof\<close> tests the wildcard against the closest encloser depends on the order of the records.  With
  the record of the wildcard in front of the record which shows that the name does not exist, the proof is accepted whatever
  the closest encloser is; with the two exchanged it is refused unless the wildcard is the closest encloser.
\<close>
theorem NoDataProof_order:
  assumes "rr_rrtype r1 = kDNSType_NSEC" "NSECNoDataError r1 qname qtype = Some (True, Some (w, i))"
    "NSECNameExists r1 qname qtype = Some e" "e \<noteq> 0"
    "rr_rrtype r2 = kDNSType_NSEC" "NSECNoDataError r2 qname qtype = Some (False, None)"
    "NSECNameExists r2 qname qtype = Some 0" "NSECClosestEncloser r2 qname = Some (ce, j)"
    "SameDomainName w i ce j = Some same" "alloc 0" "alloc 1"
  shows "NoDataProof alloc qname qtype 0 [r1, r2] = Some (10, Verify_both (Some 0) (Some 1))
    \<and> NoDataProof alloc qname qtype 0 [r2, r1] = Some (10, if same then Verify_both (Some 1) (Some 0) else Insecure)"
  using assms by (auto simp: NoDataProof_def nodata_record_def nodata_action_def encloser_ok_def proof_flags)

text \<open>
  C22. \<open>NoDataProof\<close> on NSEC records and their signatures returns, follows no null pointer, and starts the verification only of
  records that prove something; it starts a verification or reports the answer as insecure exactly when one of the
  records proves something.  Otherwise it returns without any action, so that the verifier stays where it is.
\<close>
theorem NoDataProof_settles:
  assumes "\<forall>rr \<in> set nsec. rr_rrtype rr = kDNSType_NSEC \<longrightarrow> (\<exists>os ns. nsec_record rr os ns)" "name_at qname 0 xs"
  shows "\<exists>flags a. NoDataProof alloc qname qtype 0 nsec = Some (flags, a)
    \<and> (a = No_action \<longleftrightarrow> (\<forall>rr \<in> set nsec. \<not> proves_notype qname qtype rr \<and> \<not> proves_noname qname qtype rr))
    \<and> (\<forall>w n. a = Verify_both w n \<longrightarrow> points_to nsec (proves_notype qname qtype) w \<and> points_to nsec (proves_noname qname qtype) n)
    \<and> (\<forall>r. a = Verify_one r \<longrightarrow> points_to nsec (\<lambda>rr. proves_notype qname qtype rr \<or> proves_noname qname qtype rr) r)"
proof -
  have "nodata_inv qname qtype [] \<lparr>p_flags = 0, p_wildcard = None, p_ce = None, p_wild = None, p_noname = None\<rparr>"
    by (simp add: nodata_inv_def)
  then obtain s where s: "nodata_loop qname qtype 0 nsec
      \<lparr>p_flags = 0, p_wildcard = None, p_ce = None, p_wild = None, p_noname = None\<rparr> = Some s" "nodata_inv qname qtype nsec s"
    using nodata_loop_inv [OF assms, of qtype "[]"] by auto
  with nodata_action_inv [OF s(2), of alloc] show ?thesis by (auto simp: NoDataProof_def)
qed

text \<open>
  C23. \<open>NameErrorProof\<close> on the records of a zone reports the answer as insecure unless the name is not in the zone and one
  of the records, which is verified, shows a closest encloser whose wildcard is not in the zone.
\<close>
theorem NameErrorProof_sound:
  assumes "\<forall>rr \<in> set nsec. rr_rrtype rr = kDNSType_NSEC \<longrightarrow> genuine Z rr" "name_at qname 0 xs"
    "NameErrorProof alloc qname qtype flags nsec = Some (flags', a)"
  shows "a = Insecure \<or> (\<exists>w. (a = Verify_one (Some w) \<or> (\<exists>n. a = Verify_both (Some w) (Some n))) \<and> w < length nsec
    \<and> \<not> in_zone Z xs \<and> (\<exists>os ns. nsec_record (nsec ! w) os ns \<and> \<not> in_zone Z (star # encloser os ns xs)))"
proof -
  obtain s where s: "name_error_loop qname qtype 0 nsec \<lparr>e_flags = flags, e_wild = None, e_noname = None\<rparr> = Some s"
    "a = name_error_action alloc s" using assms(3) by (auto simp: NameErrorProof_def)
  have inv: "name_error_inv qname qtype nsec s"
    using name_error_loop_inv [of qname qtype "[]" "\<lparr>e_flags = flags, e_wild = None, e_noname = None\<rparr>" nsec s] s(1)
    by (simp add: name_error_inv_def)
  show ?thesis
  proof (cases "e_noname s = None \<or> e_wild s = None")
    case True
    then show ?thesis by (auto simp: s(2) name_error_action_def split: option.split)
  next
    case False
    then obtain n w where p: "e_noname s = Some n" "e_wild s = Some w" by auto
    with inv have n: "n < length nsec" "rr_rrtype (nsec ! n) = kDNSType_NSEC" "NSECNameExists (nsec ! n) qname qtype = Some 0"
      and w: "w < length nsec" "rr_rrtype (nsec ! w) = kDNSType_NSEC" "NSECNoWildcard (nsec ! w) qname qtype = Some True"
      by (auto simp: name_error_inv_def)
    have "\<not> in_zone Z xs" using NSECNameExists_zero [OF _ assms(2) n(3), of Z] assms(1) n by simp
    moreover obtain os ns where "nsec_record (nsec ! w) os ns" "chain_link Z os ns" using assms(1) w by (auto simp: genuine_def)
    moreover from this have "\<not> in_zone Z (star # encloser os ns xs)" using NSECNoWildcard_true [OF _ _ assms(2) w(3)] by blast
    ultimately show ?thesis using p w(1) by (auto simp: s(2) name_error_action_def)
  qed
qed

text \<open>The zone \<open>e\<close> as records, the signature bits left out, and a query for \<open>x.y.e\<close>\<close>

abbreviation rr_apex :: resource_record where "rr_apex \<equiv> nsec_rr [l_e] [l_a, l_e] []"
abbreviation rr_star :: resource_record where "rr_star \<equiv> nsec_rr [star, l_y, l_e] [l_e] []"

lemma zone_records: "nsec_record rr_apex [l_e] [l_a, l_e]" "nsec_record rr_star [star, l_y, l_e] [l_e]"
  by (rule nsec_rr_record; simp)+

lemma zone_genuine: "genuine zone_e rr_apex" "genuine zone_e rr_star"
  using zone_records zone_links by (auto simp: genuine_def)

lemma query_name: "name_at (wire [l_x, l_y, l_e]) 0 [l_x, l_y, l_e]"
  by (rule wire_name_at) simp

lemma zone_encloser:
  "encloser [l_e] [l_a, l_e] [l_x, l_y, l_e] = [l_e]" "encloser [star, l_y, l_e] [l_e] [l_x, l_y, l_e] = [l_y, l_e]"
  by (simp_all add: encloser_def shared_def canonical_key_def)

lemma zone_exists:
  "NSECNameExists rr_star (wire [l_x, l_y, l_e]) kDNSType_A = Some 0"
  "NSECNameExists rr_apex (wire [l_x, l_y, l_e]) kDNSType_A = Some (- 1)"
  using NSECNameExists_eq [OF zone_records(2) query_name] NSECNameExists_eq [OF zone_records(1) query_name]
  by (simp_all add: name_exists_spec_def covers_def below_def canonical_key_def)

lemma zone_wildcard:
  "NSECNoWildcard rr_star (wire [l_x, l_y, l_e]) kDNSType_A = Some False"
  "NSECNoWildcard rr_apex (wire [l_x, l_y, l_e]) kDNSType_A = Some True"
  using NSECNoWildcard_eq [OF zone_records(2) query_name] NSECNoWildcard_eq [OF zone_records(1) query_name]
  by (simp_all add: zone_encloser name_exists_spec_def covers_def below_def canonical_key_def)

lemma zone_proof:
  "NameErrorProof (\<lambda>_. True) (wire [l_x, l_y, l_e]) kDNSType_A 0 [rr_star, rr_apex] = Some (10, Verify_both (Some 1) (Some 0))"
proof -
  have "rr_rrtype rr_star = kDNSType_NSEC" "rr_rrtype rr_apex = kDNSType_NSEC" by (simp_all add: nsec_rr_def)
  then show ?thesis using zone_exists zone_wildcard
    by (simp add: NameErrorProof_def name_error_record_def name_error_action_def proof_flags Let_def)
qed

text \<open>
  The closest encloser that the record of the wildcard shows need not be the closest encloser of the name:
  \<open>NameErrorProof\<close> accepts two records of a zone as a proof that \<open>x.y.e\<close> does not exist although the zone has the wildcard
  \<open>*.y.e\<close>, the record which is to exclude a wildcard only excludes \<open>*.e\<close>.
\<close>
lemma NameErrorProof_wrong_wildcard:
  "genuine zone_e rr_star \<and> genuine zone_e rr_apex \<and> in_zone zone_e (star # [l_y, l_e]) \<and>
   NameErrorProof (\<lambda>_. True) (wire [l_x, l_y, l_e]) kDNSType_A 0 [rr_star, rr_apex]
     = Some (10, Verify_both (Some 1) (Some 0))"
  using zone_proof zone_genuine by (simp add: in_zone_def zone_e_def)

theorem NoDataProof_settles_witness:
  "\<exists>flags a. NoDataProof (\<lambda>_. True) (wire [l_x, l_y, l_e]) kDNSType_A 0 [rr_star, rr_apex] = Some (flags, a) \<and> a \<noteq> No_action"
proof -
  have "proves_noname (wire [l_x, l_y, l_e]) kDNSType_A rr_star"
    using zone_exists(1) by (simp add: proves_noname_def nsec_rr_def)
  then show ?thesis
    using NoDataProof_settles [OF _ query_name, of "[rr_star, rr_apex]" "\<lambda>_. True" kDNSType_A] zone_records by force
qed

theorem NameErrorProof_sound_witness: "\<not> in_zone zone_e [l_x, l_y, l_e]"
  using NameErrorProof_sound [OF _ query_name zone_proof, of zone_e] zone_genuine by simp

theorem NoDataProof_order_witness:
  "NoDataProof (\<lambda>_. True) (wire [l_x, l_y, l_e]) kDNSType_A 0 [nsec_rr [star, l_e] [l_a, l_e] [], nsec_rr [l_y, l_e] [l_z, l_e] []]
     = Some (10, Verify_both (Some 0) (Some 1)) \<and>
   NoDataProof (\<lambda>_. True) (wire [l_x, l_y, l_e]) kDNSType_A 0 [nsec_rr [l_y, l_e] [l_z, l_e] [], nsec_rr [star, l_e] [l_a, l_e] []]
     = Some (10, Insecure)"
proof -
  let ?r1 = "nsec_rr [star, l_e] [l_a, l_e] []" and ?r2 = "nsec_rr [l_y, l_e] [l_z, l_e] []" and ?q = "wire [l_x, l_y, l_e]"
  have "rr_rrtype ?r1 = kDNSType_NSEC" "rr_rrtype ?r2 = kDNSType_NSEC" by (simp_all add: nsec_rr_def)
  moreover have "NSECNoDataError ?r1 ?q kDNSType_A = Some (True, Some (wire [star, l_e], 2))" by code_simp
  moreover have "NSECNoDataError ?r2 ?q kDNSType_A = Some (False, None)" by code_simp
  moreover have "NSECNameExists ?r1 ?q kDNSType_A = Some (- 1)" "NSECNameExists ?r2 ?q kDNSType_A = Some 0" by code_simp+
  moreover have "NSECClosestEncloser ?r2 ?q = Some (wire [l_y, l_e], 0)" by code_simp
  moreover have "SameDomainName (wire [star, l_e]) 2 (wire [l_y, l_e]) 0 = Some False" by code_simp
  ultimately show ?thesis
    using NoDataProof_order [of ?r1 ?q kDNSType_A "wire [star, l_e]" 2 "- 1" ?r2 "wire [l_y, l_e]" 0 False "\<lambda>_. True"] by simp
qed

end
