(* ===== verification/Dnssec_Rdata.thy ===== *)
theory Dnssec_Rdata imports Dnssec_Nsec begin

text \<open>
  \<open>airplay/mdnsresponder/mDNSCore/dnssec.c\<close>: the canonical form of record data and its order within a set, as they are
  needed to verify a signature, the tag of a key, and the conditions on a signature record.  Record data is a
  buffer in wire format; a read or a write outside of it is \<open>None\<close>.  Log messages are left out.
\<close>

section \<open>The tag of a key\<close>

text \<open>\<open>n\<close> bytes to go from \<open>i\<close> on; \<open>unsigned long\<close> has 64 bits\<close>

fun keytag_loop :: "nat \<Rightarrow> bytes \<Rightarrow> nat \<Rightarrow> u64 \<Rightarrow> u64 option" where
  "keytag_loop 0 key i ac = Some ac"
| "keytag_loop (Suc n) key i ac = do {
     b \<leftarrow> read_byte key i;
     keytag_loop n key (Suc i) (ac + (if odd i then ucast b else push_bit 8 (ucast b)))
   }"

definition keytag :: "bytes \<Rightarrow> u32 \<Rightarrow> u32 option" where
  "keytag key keysize = do {
     ac \<leftarrow> keytag_loop (unat keysize) key 0 0;
     let ac = ac + (drop_bit 16 ac AND 0xFFFF);
     Some (ucast (ac AND 0xFFFF))
   }"

section \<open>Names in lower case\<close>

text \<open>The label behind the length byte, copied in lower case\<close>

fun lower_bytes :: "nat \<Rightarrow> bytes \<Rightarrow> nat \<Rightarrow> bytes \<Rightarrow> nat \<Rightarrow> bytes option" where
  "lower_bytes 0 d a result b = Some result"
| "lower_bytes (Suc n) d a result b = do {
     ac \<leftarrow> read_byte d a;
     result \<leftarrow> set_byte result b (if mDNSIsUpperCase ac then ac + (0x61 - 0x41) else ac);
     lower_bytes n d (Suc a) result (Suc b)
   }"

function lower_loop :: "nat \<Rightarrow> bytes \<Rightarrow> nat \<Rightarrow> bytes \<Rightarrow> nat \<Rightarrow> (bytes \<times> bool) option" where
  "lower_loop m d a result b =
     (case read_byte d a of None \<Rightarrow> None | Some len \<Rightarrow>
        if len = 0 then map_option (\<lambda>r. (r, True)) (set_byte result b 0)
        else if a + 1 + unat len \<ge> m then Some (result, False)
        else
          (case set_byte result b len of None \<Rightarrow> None | Some r1 \<Rightarrow>
            (case lower_bytes (unat len) d (a + 1) r1 (b + 1) of None \<Rightarrow> None | Some r2 \<Rightarrow>
               lower_loop m d (a + 1 + unat len) r2 (b + 1 + unat len))))"
  by pat_completeness auto

termination lower_loop
  by (relation "measure (\<lambda>(m, d, a, result, b). m - a)") auto

declare lower_loop.simps [simp del]

text \<open>The array of the result, and whether the status is \<open>mStatus_NoError\<close>\<close>

definition DNSNameToLowerCase :: "bytes \<Rightarrow> nat \<Rightarrow> bytes \<Rightarrow> (bytes \<times> bool) option" where
  "DNSNameToLowerCase d off result = lower_loop (off + MAX_DOMAIN_NAME) d off result 0"

text \<open>A name inside record data replaced by its lower case\<close>

definition lower_in_place :: "bytes \<Rightarrow> nat \<Rightarrow> (bytes \<times> bool) option" where
  "lower_in_place rdata off = do {
     (name, ok) \<leftarrow> DNSNameToLowerCase rdata off (replicate MAX_DOMAIN_NAME 0);
     if ok then do { rdata \<leftarrow> AssignDomainName rdata off name 0; Some (rdata, True) } else Some (rdata, False)
   }"

section \<open>Comparison of record data\<close>

text \<open>The sign of \<open>memcmp\<close>\<close>

fun DNSMemCmp :: "bytes \<Rightarrow> nat \<Rightarrow> bytes \<Rightarrow> nat \<Rightarrow> nat \<Rightarrow> int option" where
  "DNSMemCmp a i b j 0 = Some 0"
| "DNSMemCmp a i b j (Suc n) = do {
     x \<leftarrow> read_byte a i;
     y \<leftarrow> read_byte b j;
     if x \<noteq> y then Some (if x < y then - 1 else 1) else DNSMemCmp a (Suc i) b (Suc j) n
   }"

record rdata_comp =
  c_rdlength :: u16
  c_rrtype :: u16
  c_rdata :: bytes

definition rdata_compare :: "bytes \<Rightarrow> nat \<Rightarrow> bytes \<Rightarrow> nat \<Rightarrow> int \<Rightarrow> int \<Rightarrow> int option" where
  "rdata_compare rdata1 i rdata2 j rdlen1 rdlen2 = do {
     ret \<leftarrow> DNSMemCmp rdata1 i rdata2 j (nat (if rdlen1 < rdlen2 then rdlen1 else rdlen2));
     Some (if ret \<noteq> 0 then ret else if rdlen1 = rdlen2 then 0 else if rdlen1 < rdlen2 then - 1 else 1)
   }"

text \<open>\<open>n\<close> labels of each name\<close>

fun compare_labels :: "nat \<Rightarrow> bytes \<Rightarrow> nat \<Rightarrow> int \<Rightarrow> bytes \<Rightarrow> nat \<Rightarrow> int \<Rightarrow> int option" where
  "compare_labels 0 a i rdlen1 b j rdlen2 = Some 0"
| "compare_labels (Suc n) a i rdlen1 b j rdlen2 = do {
     x \<leftarrow> read_byte a i;
     y \<leftarrow> read_byte b j;
     if x \<noteq> y then Some (if x < y then - 1 else 1)
     else do {
       let rdlen1 = rdlen1 - (uint x + 1);
       let rdlen2 = rdlen2 - (uint x + 1);
       if rdlen1 < 0 \<or> rdlen2 < 0 then Some (- 1)
       else do {
         r \<leftarrow> canonical_bytes (unat x) a (i + 1) b (j + 1);
         (case r of
            Some c \<Rightarrow> Some c
          | None \<Rightarrow> compare_labels n a (i + 1 + unat x) rdlen1 b (j + 1 + unat x) rdlen2)
       }
     }
   }"

definition rdata_name_compare :: "bytes \<Rightarrow> nat \<Rightarrow> bytes \<Rightarrow> nat \<Rightarrow> int \<Rightarrow> int \<Rightarrow> int option" where
  "rdata_name_compare rdata1 i rdata2 j rdlen1 rdlen2 = do {
     c1 \<leftarrow> CountLabels rdata1 i;
     c2 \<leftarrow> CountLabels rdata2 j;
     compare_labels (nat (if c1 < c2 then c1 else c2)) rdata1 i rdlen1 rdata2 j rdlen2
   }"

text \<open>The first comparison that tells the data apart decides.\<close>

definition or_else :: "int option \<Rightarrow> int option \<Rightarrow> int option" where
  "or_else x y = (case x of None \<Rightarrow> None | Some r \<Rightarrow> if r \<noteq> 0 then Some r else y)"

definition srv_compare :: "rdata_comp \<Rightarrow> rdata_comp \<Rightarrow> int option" where
  "srv_compare r1 r2 =
     (let length1 = uint (c_rdlength r1); length2 = uint (c_rdlength r2) in
      if length1 < 7 \<or> length2 < 7 then Some (- 1)
      else or_else (DNSMemCmp (c_rdata r1) 0 (c_rdata r2) 0 6)
             (rdata_name_compare (c_rdata r1) 6 (c_rdata r2) 6 (length1 - 6) (length2 - 6)))"

definition tsig_compare :: "rdata_comp \<Rightarrow> rdata_comp \<Rightarrow> int option" where
  "tsig_compare r1 r2 =
     (let length1 = uint (c_rdlength r1); length2 = uint (c_rdlength r2) in
      if length1 < 1 \<or> length2 < 1 then Some (- 1)
      else or_else (rdata_name_compare (c_rdata r1) 0 (c_rdata r2) 0 length1 length2)
        (do {
           dlen \<leftarrow> DomainNameLength (c_rdata r1) 0;
           let length1 = length1 - uint dlen;
           let length2 = length2 - uint dlen;
           if length1 \<le> 1 \<or> length2 \<le> 1 then Some (- 1)
           else rdata_compare (c_rdata r1) (unat dlen) (c_rdata r2) (unat dlen) length1 length2
         }))"

text \<open>The result and the two length bytes\<close>

definition lenval_compare :: "bytes \<Rightarrow> nat \<Rightarrow> bytes \<Rightarrow> nat \<Rightarrow> int \<Rightarrow> int \<Rightarrow> (int \<times> nat \<times> nat) option" where
  "lenval_compare d1 i d2 j rem1 rem2 =
     (if rem1 \<le> 1 \<or> rem2 \<le> 1 then Some (- 1, 0, 0)
      else do {
        x \<leftarrow> read_byte d1 i;
        y \<leftarrow> read_byte d2 j;
        res \<leftarrow> DNSMemCmp d1 i d2 j (unat (if x < y then x else y) + 1);
        Some (res, unat x, unat y)
      })"

text \<open>\<open>n\<close> strings, then the name\<close>

fun compare_strings :: "nat \<Rightarrow> bytes \<Rightarrow> nat \<Rightarrow> int \<Rightarrow> bytes \<Rightarrow> nat \<Rightarrow> int \<Rightarrow> int option" where
  "compare_strings 0 d1 i length1 d2 j length2 = rdata_name_compare d1 i d2 j length1 length2"
| "compare_strings (Suc n) d1 i length1 d2 j length2 = do {
     (res, len1, len2) \<leftarrow> lenval_compare d1 i d2 j length1 length2;
     if res \<noteq> 0 then Some res
     else compare_strings n d1 (i + (len1 + 1)) (length1 - (int len1 + 1)) d2 (j + (len2 + 1)) (length2 - (int len2 + 1))
   }"

definition naptr_compare :: "rdata_comp \<Rightarrow> rdata_comp \<Rightarrow> int option" where
  "naptr_compare r1 r2 =
     (let length1 = uint (c_rdlength r1); length2 = uint (c_rdlength r2) in
      if length1 < 5 \<or> length2 < 5 then Some (- 1)
      else or_else (DNSMemCmp (c_rdata r1) 0 (c_rdata r2) 0 4)
             (compare_strings 3 (c_rdata r1) 4 (length1 - 4) (c_rdata r2) 4 (length2 - 4)))"

definition dom2_compare :: "bytes \<Rightarrow> nat \<Rightarrow> bytes \<Rightarrow> nat \<Rightarrow> int \<Rightarrow> int \<Rightarrow> int option" where
  "dom2_compare d1 i d2 j length1 length2 =
     (if length1 < 1 \<or> length2 < 1 then Some (- 1)
      else or_else (rdata_name_compare d1 i d2 j length1 length2)
        (do {
           dlen \<leftarrow> DomainNameLength d1 i;
           let length1 = length1 - uint dlen;
           let length2 = length2 - uint dlen;
           if length1 < 1 \<or> length2 < 1 then Some (- 1)
           else rdata_name_compare d1 (i + unat dlen) d2 (j + unat dlen) length1 length2
         }))"

definition mx_compare :: "rdata_comp \<Rightarrow> rdata_comp \<Rightarrow> int option" where
  "mx_compare r1 r2 =
     (let length1 = uint (c_rdlength r1); length2 = uint (c_rdlength r2) in
      if length1 < 3 \<or> length2 < 3 then Some (- 1)
      else or_else (DNSMemCmp (c_rdata r1) 0 (c_rdata r2) 0 2)
             (rdata_name_compare (c_rdata r1) 2 (c_rdata r2) 2 (length1 - 2) (length2 - 2)))"

definition px_compare :: "rdata_comp \<Rightarrow> rdata_comp \<Rightarrow> int option" where
  "px_compare r1 r2 =
     (let length1 = uint (c_rdlength r1); length2 = uint (c_rdlength r2) in
      if length1 < 3 \<or> length2 < 3 then Some (- 1)
      else or_else (DNSMemCmp (c_rdata r1) 0 (c_rdata r2) 0 2)
             (dom2_compare (c_rdata r1) 2 (c_rdata r2) 2 (length1 - 2) (length2 - 2)))"

text \<open>The second length is again that of the first name.\<close>

definition soa_compare :: "rdata_comp \<Rightarrow> rdata_comp \<Rightarrow> int option" where
  "soa_compare r1 r2 =
     (let length1 = uint (c_rdlength r1); length2 = uint (c_rdlength r2) in
      if length1 < 22 \<or> length2 < 22 then Some (- 1)
      else or_else (rdata_name_compare (c_rdata r1) 0 (c_rdata r2) 0 length1 length2)
        (do {
           dlen \<leftarrow> DomainNameLength (c_rdata r1) 0;
           let length1 = length1 - uint dlen;
           let length2 = length2 - uint dlen;
           if length1 < 1 \<or> length2 < 1 then Some (- 1)
           else do {
             let offset = unat dlen;
             or_else (rdata_name_compare (c_rdata r1) offset (c_rdata r2) offset length1 length2)
               (do {
                  dlen \<leftarrow> DomainNameLength (c_rdata r1) 0;
                  let length1 = length1 - uint dlen;
                  let length2 = length2 - uint dlen;
                  if length1 < 20 \<or> length2 < 20 then Some (- 1)
                  else rdata_compare (c_rdata r1) (offset + unat dlen) (c_rdata r2) (offset + unat dlen) length1 length2
                })
           }
         }))"

definition one_name_types :: "u16 list" where
  "one_name_types = [kDNSType_NS, kDNSType_MD, kDNSType_MF, kDNSType_CNAME, kDNSType_MB, kDNSType_MG, kDNSType_MR,
     kDNSType_PTR, kDNSType_NSAP_PTR, kDNSType_DNAME]"

definition RDATACompare :: "rdata_comp \<Rightarrow> rdata_comp \<Rightarrow> int option" where
  "RDATACompare r1 r2 =
     (let t = c_rrtype r1; length1 = uint (c_rdlength r1); length2 = uint (c_rdlength r2) in
      if t \<noteq> c_rrtype r2 then Some (- 1)
      else if t \<in> set one_name_types then rdata_name_compare (c_rdata r1) 0 (c_rdata r2) 0 length1 length2
      else if t = kDNSType_SRV then srv_compare r1 r2
      else if t = kDNSType_SOA then soa_compare r1 r2
      else if t = kDNSType_RP \<or> t = kDNSType_MINFO then dom2_compare (c_rdata r1) 0 (c_rdata r2) 0 length1 length2
      else if t = kDNSType_MX \<or> t = kDNSType_AFSDB \<or> t = kDNSType_RT \<or> t = kDNSType_KX then mx_compare r1 r2
      else if t = kDNSType_PX then px_compare r1 r2
      else if t = kDNSType_NAPTR then naptr_compare r1 r2
      else if t = kDNSType_TKEY \<or> t = kDNSType_TSIG then tsig_compare r1 r2
      else rdata_compare (c_rdata r1) 0 (c_rdata r2) 0 length1 length2)"

section \<open>Canonical form\<close>

definition kDNSType_NXT :: u16 where "kDNSType_NXT = 30"
definition kDNSType_SIG :: u16 where "kDNSType_SIG = 24"

definition lower_name_types :: "u16 list" where
  "lower_name_types = [kDNSType_NS, kDNSType_MD, kDNSType_MF, kDNSType_CNAME, kDNSType_MB, kDNSType_MG, kDNSType_MR,
     kDNSType_PTR, kDNSType_DNAME, kDNSType_NXT, kDNSType_TSIG, kDNSType_TKEY]"

definition lower_two_names :: "nat \<Rightarrow> bytes \<Rightarrow> nat \<Rightarrow> bytes option" where
  "lower_two_names rdlength rdata off = do {
     (rdata, ok) \<leftarrow> lower_in_place rdata off;
     if \<not> ok then Some rdata
     else do {
       len \<leftarrow> DomainNameLength rdata off;
       if rdlength \<le> unat len + 1 then Some rdata
       else map_option fst (lower_in_place rdata (off + unat len))
     }
   }"

definition lower_sig :: "nat \<Rightarrow> bytes \<Rightarrow> nat \<Rightarrow> bytes option" where
  "lower_sig rdlength rdata off = (if rdlength \<le> 19 then Some rdata else map_option fst (lower_in_place rdata (off + 18)))"

text \<open>The case of NAPTR falls through into that of SIG.\<close>

definition ConvertRDATAToCanonical :: "u16 \<Rightarrow> u16 \<Rightarrow> bytes \<Rightarrow> bytes option" where
  "ConvertRDATAToCanonical rrtype rdlength rdata =
     (let n = unat rdlength in
      if n = 0 then Some rdata
      else if rrtype \<in> set lower_name_types then map_option fst (lower_in_place rdata 0)
      else if rrtype = kDNSType_MX \<or> rrtype = kDNSType_AFSDB \<or> rrtype = kDNSType_RT \<or> rrtype = kDNSType_KX then
        (if n \<le> 3 then Some rdata else map_option fst (lower_in_place rdata 2))
      else if rrtype = kDNSType_SRV then
        (if n \<le> 7 then Some rdata else map_option fst (lower_in_place rdata 6))
      else if rrtype = kDNSType_PX then (if n \<le> 3 then Some rdata else lower_two_names n rdata 2)
      else if rrtype = kDNSType_RP \<or> rrtype = kDNSType_SOA \<or> rrtype = kDNSType_MINFO then lower_two_names n rdata 0
      else if rrtype = kDNSType_NAPTR then do {
        flags \<leftarrow> read_byte rdata 4;
        let p = 4 + unat flags + 1;
        service \<leftarrow> read_byte rdata p;
        let p = p + unat service + 1;
        regexp \<leftarrow> read_byte rdata p;
        let p = p + unat regexp + 1;
        if n < p + 1 then Some rdata
        else do {
          (rdata, ok) \<leftarrow> lower_in_place rdata p;
          if \<not> ok then Some rdata else lower_sig n rdata p
        }
      }
      else if rrtype = kDNSType_SIG then lower_sig n rdata 0
      else Some rdata)"

end
