(* ===== verification/Dnssec_Sign.thy ===== *)
theory Dnssec_Sign imports Dnssec_Rdata Dnssec_Proof begin

text \<open>
  dnssec.c: the records of a verifier, the conditions on a signature record, and the data that a
  signature covers.  The lists of a verifier are lists of copies of records.  The cryptography of CryptoAlg.c, the
  clock and \<open>mDNSPlatformQsort\<close> are parameters; allocation of the temporary array succeeds.
\<close>

section \<open>The lists of a verifier\<close>

datatype rrv_set = RRVS_rr | RRVS_rrsig | RRVS_key | RRVS_rrsig_key | RRVS_ds | RRVS_done

record rr_verifier =
  v_rrtype :: u16
  v_rrclass :: u16
  v_rroriginalttl :: u32
  v_rdlength :: u16
  v_namehash :: u32
  v_rdatahash :: u32
  v_name :: bytes
  v_rdata :: bytes

record dnssec_verifier =
  d_origName :: bytes
  d_flags :: u32
  d_wildcardName :: "nat option"
  d_rrset :: "rr_verifier list"
  d_rrsig :: "rr_verifier list"
  d_key :: "rr_verifier list"
  d_rrsigKey :: "rr_verifier list"
  d_ds :: "rr_verifier list"

text \<open>NULL when the memory cannot be had (\<open>mem\<close>) or the data does not fit into \<open>rdlength\<close> bytes\<close>

definition AllocateRRVerifier :: "bool \<Rightarrow> resource_record \<Rightarrow> (rr_verifier option) option" where
  "AllocateRRVerifier mem rr =
     (if \<not> mem then Some None
      else do {
        name \<leftarrow> AssignDomainName (replicate MAX_DOMAIN_NAME 0) 0 (rr_name rr) 0;
        (rdata, r) \<leftarrow> putRData False (replicate (unat (rr_rdlength rr)) 0) 0 (unat (rr_rdlength rr)) rr;
        Some (case r of
            None \<Rightarrow> None
          | Some _ \<Rightarrow> Some \<lparr>v_rrtype = rr_rrtype rr, v_rrclass = rr_rrclass rr, v_rroriginalttl = rr_rroriginalttl rr,
              v_rdlength = rr_rdlength rr, v_namehash = rr_namehash rr, v_rdatahash = rr_rdatahash rr,
              v_name = name, v_rdata = rdata\<rparr>)
      })"

text \<open>The verifier afterwards and whether the status is \<open>mStatus_NoError\<close>\<close>

definition link_verifier :: "dnssec_verifier \<Rightarrow> rr_verifier \<Rightarrow> rrv_set \<Rightarrow> dnssec_verifier \<times> bool" where
  "link_verifier dv r s =
     (case s of
        RRVS_rr \<Rightarrow> (dv\<lparr>d_rrset := d_rrset dv @ [r]\<rparr>, True)
      | RRVS_rrsig \<Rightarrow> (dv\<lparr>d_rrsig := d_rrsig dv @ [r]\<rparr>, True)
      | RRVS_key \<Rightarrow> (dv\<lparr>d_key := d_key dv @ [r]\<rparr>, True)
      | RRVS_rrsig_key \<Rightarrow> (dv\<lparr>d_rrsigKey := d_rrsigKey dv @ [r]\<rparr>, True)
      | RRVS_ds \<Rightarrow> (dv\<lparr>d_ds := d_ds dv @ [r]\<rparr>, True)
      | RRVS_done \<Rightarrow> (dv, False))"

definition AddRRSetToVerifier ::
    "bool \<Rightarrow> dnssec_verifier \<Rightarrow> resource_record \<Rightarrow> rr_verifier option \<Rightarrow> rrv_set \<Rightarrow> (dnssec_verifier \<times> bool) option" where
  "AddRRSetToVerifier mem dv rr rv s =
     (case rv of
        Some r \<Rightarrow> Some (link_verifier dv r s)
      | None \<Rightarrow> do {
          r \<leftarrow> AllocateRRVerifier mem rr;
          Some (case r of None \<Rightarrow> (dv, False) | Some r \<Rightarrow> link_verifier dv r s)
        })"

section \<open>The conditions on a signature\<close>

definition DNS_SERIAL_LT :: "u32 \<Rightarrow> u32 \<Rightarrow> bool" where
  "DNS_SERIAL_LT a b \<longleftrightarrow> sint (a - b) < 0"

definition off_typeCovered :: nat where "off_typeCovered = 0"
definition off_alg :: nat where "off_alg = 2"
definition off_labels :: nat where "off_labels = 3"
definition off_origTTL :: nat where "off_origTTL = 4"
definition off_sigExpireTime :: nat where "off_sigExpireTime = 8"
definition off_sigInceptTime :: nat where "off_sigInceptTime = 12"
definition off_keyTag :: nat where "off_keyTag = 16"
definition off_signerName :: nat where "off_signerName = 18"

text \<open>The signer of a set: its owner for NS, SOA and DNSKEY, a proper ancestor for DS, the owner or an ancestor otherwise\<close>

definition signer_ok :: "rr_verifier \<Rightarrow> bytes \<Rightarrow> bool option" where
  "signer_ok rv sig = do {
     same \<leftarrow> SameDomainName (v_name rv) 0 sig off_signerName;
     if v_rrtype rv = kDNSType_NS \<or> v_rrtype rv = kDNSType_SOA \<or> v_rrtype rv = kDNSType_DNSKEY then Some same
     else if v_rrtype rv = kDNSType_DS \<and> same then Some False
     else do {
       c1 \<leftarrow> CountLabels (v_name rv) 0;
       c2 \<leftarrow> CountLabels sig off_signerName;
       if c1 < c2 then Some False
       else do {
         d \<leftarrow> SkipLeadingLabels (v_name rv) 0 (c1 - c2);
         SameDomainName (v_name rv) d sig off_signerName
       }
     }
   }"

definition rrsig_valid :: "rr_verifier \<Rightarrow> resource_record \<Rightarrow> u32 \<Rightarrow> bool option" where
  "rrsig_valid rv rr currentTime = do {
     same \<leftarrow> SameDomainName (v_name rv) 0 (rr_name rr) 0;
     if \<not> same \<or> rr_rrclass rr \<noteq> v_rrclass rv then Some False
     else do {
       covered \<leftarrow> get_val16 (rr_data rr) off_typeCovered;
       if covered \<noteq> v_rrtype rv then Some False
       else do {
         labels \<leftarrow> read_byte (rr_data rr) off_labels;
         c \<leftarrow> CountLabels (v_name rv) 0;
         if uint labels > c then Some False
         else do {
           signer \<leftarrow> signer_ok rv (rr_data rr);
           if \<not> signer then Some False
           else do {
             expire \<leftarrow> get_val32 (rr_data rr) off_sigExpireTime;
             incept \<leftarrow> get_val32 (rr_data rr) off_sigInceptTime;
             Some (\<not> DNS_SERIAL_LT expire currentTime \<and> \<not> DNS_SERIAL_LT currentTime incept)
           }
         }
       }
     }
   }"

text \<open>The set that the signature is for: the first record of it is looked at; a missing one is a null pointer.\<close>

definition ValidateRRSIG :: "bool \<Rightarrow> u32 \<Rightarrow> dnssec_verifier \<Rightarrow> rrv_set \<Rightarrow> resource_record \<Rightarrow> dnssec_verifier option" where
  "ValidateRRSIG mem currentTime dv s rr =
     (if s \<noteq> RRVS_rrsig \<and> s \<noteq> RRVS_rrsig_key then Some dv
      else
        (case (if s = RRVS_rrsig then d_rrset dv else d_key dv) of
           [] \<Rightarrow> None
         | rv # _ \<Rightarrow> do {
             valid \<leftarrow> rrsig_valid rv rr currentTime;
             if valid then map_option fst (AddRRSetToVerifier mem dv rr None s) else Some dv
           }))"

section \<open>The signed data\<close>

definition bytes16 :: "u16 \<Rightarrow> bytes" where
  "bytes16 v = [ucast (drop_bit 8 v), ucast v]"

text \<open>A name as it is copied behind a prefix\<close>

definition name_bytes :: "bytes \<Rightarrow> nat \<Rightarrow> bytes option" where
  "name_bytes buf p = do { len \<leftarrow> DomainNameLength buf p; read_bytes buf p (unat len) }"

text \<open>
  The owner in front of every record: when the signature has fewer labels the owner is the expansion of a
  wildcard.  The second result is the number of labels of \<open>origName\<close> to skip for \<open>wildcardName\<close>.
\<close>

definition signed_owner :: "bytes \<Rightarrow> u8 \<Rightarrow> (bytes \<times> int option) option" where
  "signed_owner name sig_labels = do {
     labels \<leftarrow> CountLabels name 0;
     let n = labels - uint sig_labels;
     if n > 0 then do {
       d \<leftarrow> SkipLeadingLabels name 0 n;
       rest \<leftarrow> name_bytes name d;
       c0 \<leftarrow> read_byte name 0;
       literal \<leftarrow> (if c0 \<noteq> 1 then Some False else map_option (\<lambda>c. c = 0x2A) (read_byte name 1));
       Some ([1, 0x2A] @ rest, if literal then None else Some n)
     } else do {
       whole \<leftarrow> name_bytes name 0;
       Some (whole, None)
     }
   }"

text \<open>
  The sorted records: one that compares equal to its predecessor is left out.  The data of a record that was added is in
  canonical form from then on.
\<close>

fun sign_loop :: "bytes \<Rightarrow> rdata_comp option \<Rightarrow> rdata_comp list \<Rightarrow> bytes option" where
  "sign_loop fixed prev [] = Some []"
| "sign_loop fixed prev (p # ps) = do {
     dup \<leftarrow> (case prev of None \<Rightarrow> Some False | Some q \<Rightarrow> map_option (\<lambda>c. c = 0) (RDATACompare p q));
     if dup then sign_loop fixed (Some p) ps
     else do {
       d \<leftarrow> ConvertRDATAToCanonical (c_rrtype p) (c_rdlength p) (c_rdata p);
       rest \<leftarrow> sign_loop fixed (Some (p\<lparr>c_rdata := d\<rparr>)) ps;
       Some (fixed @ bytes16 (c_rdlength p) @ d @ rest)
     }
   }"

definition comp_of :: "rr_verifier \<Rightarrow> rdata_comp" where
  "comp_of v = \<lparr>c_rdlength = v_rdlength v, c_rrtype = v_rrtype v, c_rdata = take (unat (v_rdlength v)) (v_rdata v)\<rparr>"

text \<open>The names of the signer and of the owner in lower case; no result when one of them is malformed\<close>

definition lower_names :: "rr_verifier \<Rightarrow> bytes \<Rightarrow> ((bytes \<times> bytes) option) option" where
  "lower_names first sig = do {
     (signer, ok) \<leftarrow> DNSNameToLowerCase sig off_signerName (replicate MAX_DOMAIN_NAME 0);
     if \<not> ok then Some None
     else do {
       (name, ok) \<leftarrow> DNSNameToLowerCase (v_name first) 0 (replicate MAX_DOMAIN_NAME 0);
       Some (if ok then Some (signer, name) else None)
     }
   }"

text \<open>What goes into the digest, the length of the signer's name and the labels to skip for a wildcard\<close>

definition signed_data ::
    "(rdata_comp list \<Rightarrow> rdata_comp list) \<Rightarrow> rr_verifier list \<Rightarrow> bytes \<Rightarrow> bytes \<Rightarrow> bytes \<Rightarrow> (bytes \<times> nat \<times> int option) option" where
  "signed_data qsort rrset sig signer name = do {
     header \<leftarrow> read_bytes sig 0 off_signerName;
     signer \<leftarrow> name_bytes signer 0;
     sig_labels \<leftarrow> read_byte sig off_labels;
     (owner, skip) \<leftarrow> signed_owner name sig_labels;
     ttl \<leftarrow> read_bytes sig off_origTTL 4;
     records \<leftarrow> sign_loop (owner @ bytes16 (v_rrtype (hd rrset)) @ bytes16 (v_rrclass (hd rrset)) @ ttl) None (qsort (map comp_of rrset));
     Some (header @ signer @ records, length signer, skip)
   }"

definition WILDCARD_PROVES_ANSWER_EXPANDED :: u32 where "WILDCARD_PROVES_ANSWER_EXPANDED = 1"

text \<open>The bytes from an offset to the end of the data; a negative number of them is undefined.\<close>

definition rdata_from :: "rr_verifier \<Rightarrow> nat \<Rightarrow> bytes option" where
  "rdata_from v off = (if off \<le> unat (v_rdlength v) then read_bytes (v_rdata v) off (unat (v_rdlength v) - off) else None)"

text \<open>
  \<open>alg_known\<close>: \<open>AlgCreate\<close> returns a context; \<open>verify alg data key signature\<close>: \<open>AlgVerify\<close> accepts.  The set is the list \<open>rrset\<close>
  of the verifier \<open>dv\<close>, or that of its keys.
\<close>

definition ValidateSignatureWithKey ::
    "(u8 \<Rightarrow> bool) \<Rightarrow> (u8 \<Rightarrow> bytes \<Rightarrow> bytes \<Rightarrow> bytes \<Rightarrow> bool) \<Rightarrow> (rdata_comp list \<Rightarrow> rdata_comp list) \<Rightarrow>
     dnssec_verifier \<Rightarrow> rr_verifier list \<Rightarrow> rr_verifier \<Rightarrow> rr_verifier \<Rightarrow> (dnssec_verifier \<times> bool) option" where
  "ValidateSignatureWithKey alg_known verify qsort dv rrset keyv sig =
     (if rrset = [] then None
      else do {
        names \<leftarrow> lower_names (hd rrset) (v_rdata sig);
        (case names of
           None \<Rightarrow> Some (dv, False)
         | Some (signer, name) \<Rightarrow> do {
             alg \<leftarrow> read_byte (v_rdata sig) off_alg;
             if \<not> alg_known alg then Some (dv, False)
             else do {
               (bs, signer_len, skip) \<leftarrow> signed_data qsort rrset (v_rdata sig) signer name;
               dv \<leftarrow> (case skip of
                   None \<Rightarrow> Some dv
                 | Some n \<Rightarrow> do {
                     w \<leftarrow> SkipLeadingLabels (d_origName dv) 0 n;
                     Some (dv\<lparr>d_flags := d_flags dv OR WILDCARD_PROVES_ANSWER_EXPANDED, d_wildcardName := Some w\<rparr>)
                   });
               key \<leftarrow> rdata_from keyv 4;
               signature \<leftarrow> rdata_from sig (off_signerName + signer_len);
               Some (if verify alg bs key signature then (dv, True)
                 else if d_flags dv AND WILDCARD_PROVES_ANSWER_EXPANDED \<noteq> 0
                 then (dv\<lparr>d_flags := d_flags dv AND NOT WILDCARD_PROVES_ANSWER_EXPANDED, d_wildcardName := None\<rparr>, False)
                 else (dv, False))
             }
           })
      })"

section \<open>Keys and signatures\<close>

definition DNSKEY_ZONE_SIGN_KEY :: u16 where "DNSKEY_ZONE_SIGN_KEY = 0x100"

definition key_tag :: "rr_verifier \<Rightarrow> u16 option" where
  "key_tag keyv = map_option ucast (keytag (v_rdata keyv) (ucast (v_rdlength keyv)))"

definition key_matches :: "rr_verifier \<Rightarrow> u16 \<Rightarrow> rr_verifier \<Rightarrow> bool option" where
  "key_matches keyv tag sig = do {
     same \<leftarrow> SameDomainName (v_rdata sig) off_signerName (v_name keyv) 0;
     if \<not> same then Some False
     else do {
       key_alg \<leftarrow> read_byte (v_rdata keyv) 3;
       sig_alg \<leftarrow> read_byte (v_rdata sig) off_alg;
       if key_alg \<noteq> sig_alg then Some False
       else do {
         sig_tag \<leftarrow> get_val16 (v_rdata sig) off_keyTag;
         if tag \<noteq> sig_tag then Some False
         else do {
           flags \<leftarrow> get_val16 (v_rdata keyv) 0;
           Some (flags AND DNSKEY_ZONE_SIGN_KEY \<noteq> 0)
         }
       }
     }
   }"

text \<open>The signatures for one key\<close>

fun rrsig_loop ::
    "(u8 \<Rightarrow> bool) \<Rightarrow> (u8 \<Rightarrow> bytes \<Rightarrow> bytes \<Rightarrow> bytes \<Rightarrow> bool) \<Rightarrow> (rdata_comp list \<Rightarrow> rdata_comp list) \<Rightarrow>
     dnssec_verifier \<Rightarrow> rr_verifier \<Rightarrow> u16 \<Rightarrow> rr_verifier list \<Rightarrow> (dnssec_verifier \<times> rr_verifier option) option" where
  "rrsig_loop alg_known verify qsort dv keyv tag [] = Some (dv, None)"
| "rrsig_loop alg_known verify qsort dv keyv tag (sig # sigs) = do {
     ok \<leftarrow> key_matches keyv tag sig;
     if \<not> ok then rrsig_loop alg_known verify qsort dv keyv tag sigs
     else do {
       (dv, valid) \<leftarrow> ValidateSignatureWithKey alg_known verify qsort dv (d_rrset dv) keyv sig;
       if valid then Some (dv, Some sig) else rrsig_loop alg_known verify qsort dv keyv tag sigs
     }
   }"

fun key_loop ::
    "(u8 \<Rightarrow> bool) \<Rightarrow> (u8 \<Rightarrow> bytes \<Rightarrow> bytes \<Rightarrow> bytes \<Rightarrow> bool) \<Rightarrow> (rdata_comp list \<Rightarrow> rdata_comp list) \<Rightarrow>
     dnssec_verifier \<Rightarrow> rr_verifier list \<Rightarrow> (dnssec_verifier \<times> (rr_verifier \<times> rr_verifier) option) option" where
  "key_loop alg_known verify qsort dv [] = Some (dv, None)"
| "key_loop alg_known verify qsort dv (keyv # keys) = do {
     tag \<leftarrow> key_tag keyv;
     (dv, r) \<leftarrow> rrsig_loop alg_known verify qsort dv keyv tag (d_rrsig dv);
     (case r of Some sig \<Rightarrow> Some (dv, Some (keyv, sig)) | None \<Rightarrow> key_loop alg_known verify qsort dv keys)
   }"

text \<open>The key and the signature found, or \<open>mStatus_NoSuchRecord\<close>\<close>

definition ValidateSignature ::
    "(u8 \<Rightarrow> bool) \<Rightarrow> (u8 \<Rightarrow> bytes \<Rightarrow> bytes \<Rightarrow> bytes \<Rightarrow> bool) \<Rightarrow> (rdata_comp list \<Rightarrow> rdata_comp list) \<Rightarrow>
     dnssec_verifier \<Rightarrow> (dnssec_verifier \<times> (rr_verifier \<times> rr_verifier) option) option" where
  "ValidateSignature alg_known verify qsort dv = key_loop alg_known verify qsort dv (d_key dv)"

fun ValidateSignatureWithKeyForAllRRSigs ::
    "(u8 \<Rightarrow> bool) \<Rightarrow> (u8 \<Rightarrow> bytes \<Rightarrow> bytes \<Rightarrow> bytes \<Rightarrow> bool) \<Rightarrow> (rdata_comp list \<Rightarrow> rdata_comp list) \<Rightarrow>
     dnssec_verifier \<Rightarrow> rr_verifier list \<Rightarrow> rr_verifier \<Rightarrow> rr_verifier list \<Rightarrow> (dnssec_verifier \<times> bool) option" where
  "ValidateSignatureWithKeyForAllRRSigs alg_known verify qsort dv rrset keyv [] = Some (dv, False)"
| "ValidateSignatureWithKeyForAllRRSigs alg_known verify qsort dv rrset keyv (sig # sigs) = do {
     tag \<leftarrow> key_tag keyv;
     sig_tag \<leftarrow> get_val16 (v_rdata sig) off_keyTag;
     if tag \<noteq> sig_tag then ValidateSignatureWithKeyForAllRRSigs alg_known verify qsort dv rrset keyv sigs
     else do {
       (dv, valid) \<leftarrow> ValidateSignatureWithKey alg_known verify qsort dv rrset keyv sig;
       if valid then Some (dv, True)
       else ValidateSignatureWithKeyForAllRRSigs alg_known verify qsort dv rrset keyv sigs
     }
   }"

section \<open>Delegation signers\<close>

datatype ds_status = DS_NoError | DS_BadParam | DS_NoSuchRecord

text \<open>
  One DS record against the keys.  \<open>digest_known ty\<close>: \<open>AlgCreate\<close> returns a context for a digest; \<open>digest ty data value\<close>: the
  digest of the data is the value.
\<close>

fun ds_key_loop ::
    "(u8 \<Rightarrow> bool) \<Rightarrow> (u8 \<Rightarrow> bytes \<Rightarrow> bytes \<Rightarrow> bytes \<Rightarrow> bool) \<Rightarrow> (rdata_comp list \<Rightarrow> rdata_comp list) \<Rightarrow> (u8 \<Rightarrow> bool) \<Rightarrow>
     (u8 \<Rightarrow> bytes \<Rightarrow> bytes \<Rightarrow> bool) \<Rightarrow> dnssec_verifier \<Rightarrow> rr_verifier \<Rightarrow> u8 \<Rightarrow> bytes \<Rightarrow> rr_verifier list \<Rightarrow> (dnssec_verifier \<times> bool) option" where
  "ds_key_loop alg_known verify qsort digest_known digest dv dsv ty signer [] = Some (dv, False)"
| "ds_key_loop alg_known verify qsort digest_known digest dv dsv ty signer (keyv # keys) = do {
     tag \<leftarrow> key_tag keyv;
     ds_tag \<leftarrow> get_val16 (v_rdata dsv) 0;
     if tag \<noteq> ds_tag then ds_key_loop alg_known verify qsort digest_known digest dv dsv ty signer keys
     else do {
       (name, ok) \<leftarrow> DNSNameToLowerCase signer off_signerName (replicate MAX_DOMAIN_NAME 0);
       if \<not> ok \<or> \<not> digest_known ty then ds_key_loop alg_known verify qsort digest_known digest dv dsv ty signer keys
       else do {
         owner \<leftarrow> name_bytes name 0;
         key \<leftarrow> rdata_from keyv 0;
         value \<leftarrow> rdata_from dsv 4;
         if \<not> digest ty (owner @ key) value then ds_key_loop alg_known verify qsort digest_known digest dv dsv ty signer keys
         else do {
           (dv, valid) \<leftarrow> ValidateSignatureWithKeyForAllRRSigs alg_known verify qsort dv (d_key dv) keyv (d_rrsigKey dv);
           if valid then Some (dv, True)
           else ds_key_loop alg_known verify qsort digest_known digest dv dsv ty signer keys
         }
       }
     }
   }"

fun ds_loop ::
    "(u8 \<Rightarrow> bool) \<Rightarrow> (u8 \<Rightarrow> bytes \<Rightarrow> bytes \<Rightarrow> bytes \<Rightarrow> bool) \<Rightarrow> (rdata_comp list \<Rightarrow> rdata_comp list) \<Rightarrow> (u8 \<Rightarrow> bool) \<Rightarrow>
     (u8 \<Rightarrow> bytes \<Rightarrow> bytes \<Rightarrow> bool) \<Rightarrow> dnssec_verifier \<Rightarrow> bytes \<Rightarrow> rr_verifier list \<Rightarrow> (dnssec_verifier \<times> ds_status) option" where
  "ds_loop alg_known verify qsort digest_known digest dv signer [] = Some (dv, DS_NoSuchRecord)"
| "ds_loop alg_known verify qsort digest_known digest dv signer (dsv # dss) = do {
     ty \<leftarrow> read_byte (v_rdata dsv) 3;
     if ty \<noteq> 1 \<and> ty \<noteq> 2 then Some (dv, DS_BadParam)
     else do {
       (dv, found) \<leftarrow> ds_key_loop alg_known verify qsort digest_known digest dv dsv ty signer (d_key dv);
       if found then Some (dv, DS_NoError) else ds_loop alg_known verify qsort digest_known digest dv signer dss
     }
   }"

definition ValidateDS ::
    "(u8 \<Rightarrow> bool) \<Rightarrow> (u8 \<Rightarrow> bytes \<Rightarrow> bytes \<Rightarrow> bytes \<Rightarrow> bool) \<Rightarrow> (rdata_comp list \<Rightarrow> rdata_comp list) \<Rightarrow> (u8 \<Rightarrow> bool) \<Rightarrow>
     (u8 \<Rightarrow> bytes \<Rightarrow> bytes \<Rightarrow> bool) \<Rightarrow> dnssec_verifier \<Rightarrow> (dnssec_verifier \<times> ds_status) option" where
  "ValidateDS alg_known verify qsort digest_known digest dv =
     (case d_rrsig dv of
        [] \<Rightarrow> None
      | rrsig # _ \<Rightarrow> ds_loop alg_known verify qsort digest_known digest dv (v_rdata rrsig) (d_ds dv))"

end
