(* ===== verification/Dnssec_Sign_Props.thy ===== *)
theory Dnssec_Sign_Props imports Dnssec_Sign Dnssec_Nsec_Props Dns_Decode "HOL-Library.Multiset" begin

text \<open>
  dnssec.c: names in lower case, the order of record data, and the data that a signature covers.
\<close>

section \<open>Names in lower case\<close>

lemma lower_bytes_some:
  "i + n \<le> length d \<Longrightarrow> j + n \<le> length r \<Longrightarrow>
     lower_bytes n d i r j = Some (write_bytes r j (map fold_case (take n (drop i d))))"
proof (induction n arbitrary: i j r)
  case 0
  then show ?case by (simp add: write_bytes_def)
next
  case (Suc n)
  then have r: "read_byte d i = Some (d ! i)" "set_byte r j v = Some (r[j := v])" for v
    by (simp_all add: read_byte_def set_byte_def)
  have "lower_bytes n d (Suc i) (r[j := fold_case (d ! i)]) (Suc j) =
      Some (write_bytes (r[j := fold_case (d ! i)]) (Suc j) (map fold_case (take n (drop (Suc i) d))))"
    using Suc.IH [of "Suc i" "Suc j"] Suc.prems by simp
  moreover have "take (Suc n) (drop i d) = d ! i # take n (drop (Suc i) d)"
    using Suc.prems by (simp add: Cons_nth_drop_Suc [symmetric])
  moreover have "write_bytes (r[j := v]) (Suc j) vs = write_bytes r j (v # vs)" for v vs
    using Suc.prems by (simp add: write_bytes_def take_Suc_conv_app_nth drop_update_swap)
  ultimately show ?case using r by (simp flip: fold_case_def)
qed

lemma lower_label:
  assumes "length l + i \<le> length d" "read_bytes d i (length l) = Some l" "j + length l + 2 \<le> length r"
  shows "\<exists>r1. set_byte r j b = Some r1 \<and> lower_bytes (length l) d i r1 (Suc j) = Some (write_bytes r j (b # map fold_case l))"
proof -
  have "lower_bytes (length l) d i (r[j := b]) (Suc j) = Some (write_bytes (r[j := b]) (Suc j) (map fold_case l))"
    using lower_bytes_some [of i "length l" d "Suc j" "r[j := b]"] assms by (simp add: read_bytes_Some_iff)
  moreover have "write_bytes (r[j := b]) (Suc j) vs = write_bytes r j (b # vs)" for vs
    using assms(3) by (simp add: write_bytes_def take_Suc_conv_app_nth drop_update_swap)
  ultimately show ?thesis using assms(3) by (simp add: set_byte_def)
qed

text \<open>Whatever the bytes are, the loop returns and stays within 256 bytes of both arrays.\<close>

lemma lower_loop_total:
  "m \<le> length d \<Longrightarrow> length r = 256 \<Longrightarrow> a < m \<Longrightarrow> j + (m - a) = 256 \<Longrightarrow> \<exists>r' ok. lower_loop m d a r j = Some (r', ok) \<and> length r' = 256"
proof (induction m d a r j rule: lower_loop.induct)
  case (1 m d a r j)
  then obtain len where len: "read_byte d a = Some len" by (auto simp: read_byte_def)
  show ?case
  proof (cases "len = 0 \<or> a + 1 + unat len \<ge> m")
    case True
    then show ?thesis using len 1(2-5) by (subst lower_loop.simps) (auto simp: set_byte_def)
  next
    case False
    then have ok: "len \<noteq> 0" "\<not> a + 1 + unat len \<ge> m" by auto
    have s: "set_byte r j len = Some (r[j := len])" using 1(2-5) by (simp add: set_byte_def)
    have l: "lower_bytes (unat len) d (a + 1) (r[j := len]) (j + 1)
        = Some (write_bytes (r[j := len]) (j + 1) (map fold_case (take (unat len) (drop (a + 1) d))))" (is "_ = Some ?r")
      by (rule lower_bytes_some) (use ok 1(2-5) in auto)
    have "length ?r = 256" using ok 1(2-5) by (simp add: write_bytes_def)
    moreover have "j + 1 + unat len + (m - (a + 1 + unat len)) = 256" "a + 1 + unat len < m" using ok 1(4,5) by arith+
    ultimately obtain r' b where "lower_loop m d (a + 1 + unat len) ?r (j + 1 + unat len) = Some (r', b)" "length r' = 256"
      using 1(1) [OF len ok s l 1(2)] by blast
    then show ?thesis using len ok s l by (subst lower_loop.simps) simp
  qed
qed

text \<open>
  The sequences of labels that the loop follows: unlike those of a legal name, the labels may have up to 255 bytes.
\<close>

fun label_chain :: "bytes \<Rightarrow> nat \<Rightarrow> bytes list \<Rightarrow> bool" where
  "label_chain d i [] \<longleftrightarrow> read_byte d i = Some 0"
| "label_chain d i (l # ls) \<longleftrightarrow> 0 < length l \<and> length l < 256 \<and> read_byte d i = Some (of_nat (length l))
     \<and> read_bytes d (Suc i) (length l) = Some l \<and> label_chain d (Suc i + length l) ls"

lemma name_at_chain: "name_at d i ls \<longleftrightarrow> label_chain d i ls \<and> (\<forall>l \<in> set ls. valid_label l)"
  by (induction ls arbitrary: i) (auto simp: valid_label_def)

lemma u8_length:
  assumes "0 < k" "k < 256"
  shows "unat (of_nat k :: u8) = k" "(of_nat k :: u8) \<noteq> 0"
proof -
  show u: "unat (of_nat k :: u8) = k" using assms(2) by (simp add: unat_of_nat)
  then show "(of_nat k :: u8) \<noteq> 0" using assms(1) by (metis less_irrefl unat_0)
qed

lemma lower_loop_name:
  "label_chain d a ls \<Longrightarrow> length r = 256 \<Longrightarrow> j + (m - a) = 256 \<Longrightarrow> a + wire_len ls \<le> m \<Longrightarrow>
     \<exists>r'. lower_loop m d a r j = Some (r', True) \<and> length r' = 256 \<and> label_chain r' j (fold_name ls)
       \<and> (\<forall>i k. i + k \<le> j \<longrightarrow> read_bytes r' i k = read_bytes r i k)"
proof (induction ls arbitrary: a r j)
  case Nil
  then have j: "j < 256" "set_byte r j 0 = Some (write_bytes r j [0])"
    by (auto simp: set_byte_def write_bytes_def upd_conv_take_nth_drop)
  then have "lower_loop m d a r j = Some (write_bytes r j [0], True)" using Nil by (subst lower_loop.simps) simp
  moreover have "read_byte (write_bytes r j [0]) j = Some 0" "length (write_bytes r j [0]) = 256"
    using j Nil by (auto simp: write_bytes_def read_byte_def nth_append)
  ultimately show ?case using j Nil.prems(2) read_write_bytes(2) [of j "[0]" r] by auto
next
  case (Cons l ls)
  then have v: "0 < length l" "length l < 256" "read_byte d a = Some (of_nat (length l))" "read_bytes d (Suc a) (length l) = Some l"
    and rest: "label_chain d (Suc a + length l) ls" by auto
  have fits: "j + length l + 2 \<le> length r" "\<not> a + 1 + length l \<ge> m"
    using Cons.prems wire_len_pos [of ls] by (auto simp del: wire_len_pos)
  let ?w = "of_nat (length l) # map fold_case l"
  let ?r = "write_bytes r j ?w"
  obtain r1 where r1: "set_byte r j (of_nat (length l)) = Some r1" "lower_bytes (length l) d (Suc a) r1 (Suc j) = Some ?r"
    using lower_label [OF _ v(4) fits(1), of "of_nat (length l)"] read_bytes_Some_iff v(4) by (auto simp: add.commute)
  have len: "length ?r = 256" using fits Cons.prems by (simp add: write_bytes_def)
  have arith: "Suc j + length l + (m - (Suc a + length l)) = 256" "Suc a + length l + wire_len ls \<le> m"
    using Cons.prems(3,4) fits(2) by auto
  obtain r' where IH: "lower_loop m d (Suc a + length l) ?r (Suc j + length l) = Some (r', True)" "length r' = 256"
    "label_chain r' (Suc j + length l) (fold_name ls)"
    "\<And>i k. i + k \<le> Suc j + length l \<Longrightarrow> read_bytes r' i k = read_bytes ?r i k"
    using Cons.IH [OF rest len arith(1,2)] by blast
  have "lower_loop m d a r j = Some (r', True)"
    using v r1 IH(1) fits u8_length [OF v(1,2)] by (subst lower_loop.simps) auto
  moreover have "read_bytes ?r j (Suc (length l)) = Some ?w"
    using read_write_bytes(1) [of j ?w r] fits(1) by simp
  then have "read_bytes r' j (Suc (length l)) = Some ?w" using IH(4) [of j "Suc (length l)"] by simp
  then have "label_chain r' j (fold_name (l # ls))"
    using IH(3) v(1,2) read_bytes_Cons_iff [of r' j "length l" "of_nat (length l)" "map fold_case l"] by simp
  moreover have "read_bytes r' i k = read_bytes r i k" if "i + k \<le> j" for i k
    using IH(4) [of i k] read_write_bytes(2) [of j ?w r i k] fits(1) that by simp
  ultimately show ?case using IH(2) by blast
qed

lemma lower_loop_accepts:
  "lower_loop m d a r j = Some (r', True) \<Longrightarrow> a < m \<Longrightarrow> m \<le> length d \<Longrightarrow> \<exists>ls. label_chain d a ls \<and> a + wire_len ls \<le> m"
proof (induction m d a r j rule: lower_loop.induct)
  case (1 m d a r j)
  then obtain len where len: "read_byte d a = Some len" by (auto simp: read_byte_def)
  show ?case
  proof (cases "len = 0")
    case True
    then show ?thesis using len 1(3) by (intro exI [of _ "[]"]) auto
  next
    case False
    let ?l = "take (unat len) (drop (Suc a) d)"
    have ok: "\<not> a + 1 + unat len \<ge> m"
      using 1(2) len False by (subst (asm) lower_loop.simps) (auto split: if_splits)
    obtain r1 r2 where r: "set_byte r j len = Some r1" "lower_bytes (unat len) d (a + 1) r1 (j + 1) = Some r2"
      "lower_loop m d (a + 1 + unat len) r2 (j + 1 + unat len) = Some (r', True)"
      using 1(2) len False ok by (subst (asm) lower_loop.simps) (auto split: option.splits)
    obtain ls where ls: "label_chain d (a + 1 + unat len) ls" "a + 1 + unat len + wire_len ls \<le> m"
      using 1(1) [OF len False ok r] ok 1(4) by auto
    have l: "length ?l = unat len" using ok 1(4) by simp
    moreover have "unat len < 2 ^ LENGTH(8)" by (rule unsigned_less)
    then have "unat len < 256" "0 < unat len" using False by (simp_all add: unat_gt_0)
    moreover have "read_bytes d (Suc a) (unat len) = Some ?l" using ok 1(4) by (simp add: read_bytes_Some_iff)
    ultimately have "label_chain d a (?l # ls)" using len ls(1) by simp
    then show ?thesis using ls(2) l by (intro exI [of _ "?l # ls"]) simp
  qed
qed

section \<open>The order of opaque data\<close>

lemma DNSMemCmp_lists:
  "i + n \<le> length a \<Longrightarrow> j + n \<le> length b \<Longrightarrow> DNSMemCmp a i b j n = Some (three_way (take n (drop i a)) (take n (drop j b)))"
proof (induction n arbitrary: i j)
  case 0
  then show ?case by (simp add: three_way_Nil)
next
  case (Suc n)
  then have "take (Suc n) (drop i a) = a ! i # take n (drop (Suc i) a)" "take (Suc n) (drop j b) = b ! j # take n (drop (Suc j) b)"
    by (simp_all add: Cons_nth_drop_Suc [symmetric])
  then show ?case using Suc.IH [of "Suc i" "Suc j"] Suc.prems
    by (simp only: three_way_Cons) (simp add: read_byte_def three_way_def)
qed

lemma rdata_compare_lists: "rdata_compare a 0 b 0 (int (length a)) (int (length b)) = Some (three_way a b)"
proof -
  let ?n = "min (length a) (length b)"
  have n: "nat (if int (length a) < int (length b) then int (length a) else int (length b)) = ?n" by (simp add: min_def)
  have m: "DNSMemCmp a 0 b 0 ?n = Some (three_way (take ?n a) (take ?n b))" using DNSMemCmp_lists [of 0 ?n a 0 b] by simp
  show ?thesis
  proof (cases "take ?n a = take ?n b")
    case True
    then have "three_way a b = three_way (length a) (length b)" using three_way_prefix [OF True] by simp
    then show ?thesis using m n True by (simp add: rdata_compare_def three_way_def)
  next
    case False
    then have "three_way a b = three_way (take ?n a) (take ?n b)" by (rule three_way_take) simp_all
    then show ?thesis using m n False by (simp add: rdata_compare_def)
  qed
qed

text \<open>The types whose data holds no names that the code looks at\<close>

definition opaque_type :: "u16 \<Rightarrow> bool" where
  "opaque_type t \<longleftrightarrow> t \<notin> set one_name_types \<and> t \<notin> set lower_name_types \<and>
     t \<notin> {kDNSType_SRV, kDNSType_SOA, kDNSType_RP, kDNSType_MINFO, kDNSType_MX, kDNSType_AFSDB, kDNSType_RT, kDNSType_KX,
       kDNSType_PX, kDNSType_NAPTR, kDNSType_TKEY, kDNSType_TSIG, kDNSType_SIG}"

definition comp_ok :: "u16 \<Rightarrow> rdata_comp \<Rightarrow> bool" where
  "comp_ok t p \<longleftrightarrow> c_rrtype p = t \<and> length (c_rdata p) = unat (c_rdlength p)"

lemma RDATACompare_opaque:
  assumes "opaque_type t" "comp_ok t p" "comp_ok t q"
  shows "RDATACompare p q = Some (three_way (c_rdata p) (c_rdata q))"
proof -
  have "RDATACompare p q = rdata_compare (c_rdata p) 0 (c_rdata q) 0 (uint (c_rdlength p)) (uint (c_rdlength q))"
    using assms by (simp add: RDATACompare_def opaque_type_def comp_ok_def Let_def)
  then show ?thesis using assms(2,3) rdata_compare_lists [of "c_rdata p" "c_rdata q"] by (simp add: comp_ok_def)
qed

lemma ConvertRDATAToCanonical_opaque: "opaque_type t \<Longrightarrow> ConvertRDATAToCanonical t n d = Some d"
  by (simp add: ConvertRDATAToCanonical_def opaque_type_def Let_def)

section \<open>The signed data\<close>

definition signed_record :: "bytes \<Rightarrow> bytes \<Rightarrow> bytes" where
  "signed_record fixed d = fixed @ bytes16 (of_nat (length d)) @ d"

lemma sign_loop_prev:
  "opaque_type t \<Longrightarrow> \<forall>p \<in> set ps. comp_ok t p \<Longrightarrow> comp_ok t q \<Longrightarrow>
     sign_loop fixed (Some q) ps = Some (concat (map (signed_record fixed) (tl (remdups_adj (c_rdata q # map c_rdata ps)))))"
proof (induction ps arbitrary: q)
  case (Cons p ps)
  then have p: "comp_ok t p" "\<forall>p \<in> set ps. comp_ok t p" by auto
  have c: "RDATACompare p q = Some (three_way (c_rdata p) (c_rdata q))"
    by (rule RDATACompare_opaque [OF Cons.prems(1) p(1) Cons.prems(3)])
  have v: "ConvertRDATAToCanonical (c_rrtype p) (c_rdlength p) (c_rdata p) = Some (c_rdata p)"
    using p(1) ConvertRDATAToCanonical_opaque [OF Cons.prems(1)] by (simp add: comp_ok_def)
  have len: "(of_nat (length (c_rdata p)) :: u16) = c_rdlength p" using p(1) by (simp add: comp_ok_def)
  show ?case
  proof (cases "c_rdata p = c_rdata q")
    case True
    then show ?thesis using c Cons.IH [OF Cons.prems(1) p(2) p(1)] by simp
  next
    case False
    have "remdups_adj (c_rdata p # map c_rdata ps) = c_rdata p # tl (remdups_adj (c_rdata p # map c_rdata ps))"
      using hd_remdups_adj [of "c_rdata p # map c_rdata ps"] by (metis list.collapse list.distinct(1) list.sel(1) remdups_adj_Nil_iff)
    then have "tl (remdups_adj (c_rdata q # map c_rdata (p # ps))) = c_rdata p # tl (remdups_adj (c_rdata p # map c_rdata ps))"
      using False by simp
    then have e: "concat (map (signed_record fixed) (tl (remdups_adj (c_rdata q # map c_rdata (p # ps)))))
        = signed_record fixed (c_rdata p) @ concat (map (signed_record fixed) (tl (remdups_adj (c_rdata p # map c_rdata ps))))"
      by (simp only: list.map concat.simps)
    show ?thesis unfolding e using c v False Cons.IH [OF Cons.prems(1) p(2) p(1)] len by (simp add: signed_record_def [of fixed "c_rdata p"])
  qed
qed simp

lemma sign_loop_opaque:
  assumes "opaque_type t" "\<forall>p \<in> set ps. comp_ok t p"
  shows "sign_loop fixed None ps = Some (concat (map (signed_record fixed) (remdups_adj (map c_rdata ps))))"
proof (cases ps)
  case (Cons p ps')
  then have p: "comp_ok t p" "\<forall>p \<in> set ps'. comp_ok t p" using assms(2) by auto
  have v: "ConvertRDATAToCanonical (c_rrtype p) (c_rdlength p) (c_rdata p) = Some (c_rdata p)"
    using p(1) ConvertRDATAToCanonical_opaque [OF assms(1)] by (simp add: comp_ok_def)
  have len: "(of_nat (length (c_rdata p)) :: u16) = c_rdlength p" using p(1) by (simp add: comp_ok_def)
  have "remdups_adj (c_rdata p # map c_rdata ps') = c_rdata p # tl (remdups_adj (c_rdata p # map c_rdata ps'))"
    using hd_remdups_adj [of "c_rdata p # map c_rdata ps'"] by (metis list.collapse list.distinct(1) list.sel(1) remdups_adj_Nil_iff)
  then have "concat (map (signed_record fixed) (remdups_adj (map c_rdata ps)))
      = signed_record fixed (c_rdata p) @ concat (map (signed_record fixed) (tl (remdups_adj (c_rdata p # map c_rdata ps'))))"
    using Cons by (metis concat.simps(2) list.simps(9))
  then show ?thesis using Cons v len sign_loop_prev [OF assms(1) p(2) p(1), of fixed] by (simp add: signed_record_def)
qed simp

lemma remdups_adj_sorted_distinct: "sorted xs \<Longrightarrow> distinct (remdups_adj xs)"
  by (induction xs rule: remdups_adj.induct) (auto simp: less_le_not_le)

lemma remdups_adj_sorted: "sorted xs \<Longrightarrow> remdups_adj xs = sorted_list_of_set (set xs)"
  using sorted_list_of_set.idem_if_sorted_distinct [of "remdups_adj xs"] remdups_adj_sorted_distinct [of xs]
  by (simp add: sorted_remdups_adj)

text \<open>What \<open>mDNSPlatformQsort\<close> does with an array of records of one type, given a comparison that orders them\<close>

definition qsort_law :: "u16 \<Rightarrow> (rdata_comp list \<Rightarrow> rdata_comp list) \<Rightarrow> bool" where
  "qsort_law t qsort \<longleftrightarrow> (\<forall>ps. (\<forall>p \<in> set ps. comp_ok t p) \<longrightarrow> mset (qsort ps) = mset ps
     \<and> sorted_wrt (\<lambda>p q. \<exists>c \<le> 0. RDATACompare p q = Some c) (qsort ps))"

lemma qsort_law_sort_key: "opaque_type t \<Longrightarrow> qsort_law t (sort_key c_rdata)"
proof -
  assume t: "opaque_type t"
  have "sorted_wrt (\<lambda>p q. \<exists>c \<le> 0. RDATACompare p q = Some c) (sort_key c_rdata ps)" if "\<forall>p \<in> set ps. comp_ok t p" for ps
  proof (rule sorted_wrt_mono_rel [of _ "\<lambda>p q. c_rdata p \<le> c_rdata q"])
    show "sorted_wrt (\<lambda>p q. c_rdata p \<le> c_rdata q) (sort_key c_rdata ps)" using sorted_sort_key [of c_rdata ps] by (simp add: sorted_map)
    show "\<exists>c \<le> 0. RDATACompare p q = Some c" if "p \<in> set (sort_key c_rdata ps)" "q \<in> set (sort_key c_rdata ps)" "c_rdata p \<le> c_rdata q" for p q
      using that \<open>\<forall>p \<in> set ps. comp_ok t p\<close> RDATACompare_opaque [OF t, of p q] by (auto simp: three_way_def)
  qed
  then show ?thesis by (simp add: qsort_law_def)
qed

lemma sign_loop_qsort:
  assumes "opaque_type t" "\<forall>p \<in> set ps. comp_ok t p" "qsort_law t qsort"
  shows "sign_loop fixed None (qsort ps) = Some (concat (map (signed_record fixed) (sorted_list_of_set (c_rdata ` set ps))))"
proof -
  have q: "mset (qsort ps) = mset ps" "sorted_wrt (\<lambda>p q. \<exists>c \<le> 0. RDATACompare p q = Some c) (qsort ps)"
    using assms(2,3) by (auto simp: qsort_law_def)
  then have set: "set (qsort ps) = set ps" by (metis set_mset_mset)
  have "sorted_wrt (\<lambda>p q. c_rdata p \<le> c_rdata q) (qsort ps)"
  proof (rule sorted_wrt_mono_rel [OF _ q(2)])
    fix p q assume "p \<in> set (qsort ps)" "q \<in> set (qsort ps)" "\<exists>c \<le> 0. RDATACompare p q = Some c"
    then show "c_rdata p \<le> c_rdata q" using RDATACompare_opaque [OF assms(1), of p q] assms(2) set
      by (auto simp: three_way_def split: if_splits)
  qed
  then have "sorted (map c_rdata (qsort ps))" by (simp add: sorted_map)
  then show ?thesis using sign_loop_opaque [OF assms(1), of "qsort ps" fixed] assms(2) set
    by (simp add: remdups_adj_sorted)
qed

section \<open>Names in record data\<close>

lemma compare_labels_prefix:
  "name_at a i xs \<Longrightarrow> name_at b j (xs' @ ys) \<Longrightarrow> fold_name xs = fold_name xs' \<Longrightarrow> int (wire_len xs) \<le> n1 \<Longrightarrow> int (wire_len xs) \<le> n2 \<Longrightarrow>
     compare_labels (length xs) a i n1 b j n2 = Some 0"
proof (induction xs arbitrary: i j n1 n2 xs')
  case (Cons x xs)
  then obtain x' zs where z: "xs' = x' # zs" "map fold_case x = map fold_case x'" "fold_name xs = fold_name zs" by (cases xs') auto
  then have len: "length x = length x'" by (metis length_map)
  have "canonical_bytes (length x) a (Suc i) b (Suc j) = Some None"
    using canonical_bytes_lists [of a "Suc i" x b "Suc j" x'] Cons.prems z len by simp
  moreover have "compare_labels (length xs) a (Suc i + length x) (n1 - (int (length x) + 1)) b (Suc j + length x) (n2 - (int (length x) + 1)) = Some 0"
    using Cons.IH [of "Suc i + length x" "Suc j + length x" zs] Cons.prems z len by simp
  moreover have "int (wire_len (x # xs)) = int (length x) + 1 + int (wire_len xs)" by simp
  moreover have "uint (of_nat (length x) :: u8) = int (length x)" "unat (of_nat (length x) :: u8) = length x"
    using Cons.prems(1) by (simp_all add: uint_nat)
  ultimately show ?case using Cons.prems z len wire_len_pos [of xs] by (auto simp: Let_def simp del: wire_len_pos)
qed simp

lemma rdata_name_compare_prefix:
  assumes "name_at a i xs" "name_at b j (xs' @ ys)" "fold_name xs = fold_name xs'" "int (wire_len xs) \<le> n1" "int (wire_len xs) \<le> n2"
  shows "rdata_name_compare a i b j n1 n2 = Some 0"
proof -
  have "length xs = length xs'" using assms(3) by (metis length_map)
  then show ?thesis using compare_labels_prefix [OF assms] CountLabels_name [OF assms(1)] CountLabels_name [OF assms(2)]
    by (simp add: rdata_name_compare_def)
qed

text \<open>The same from the other side: the comparison changes sign.\<close>

lemma canonical_bytes_Suc:
  "canonical_bytes (Suc n) a i b j = do {
     ac \<leftarrow> read_byte a i;
     bc \<leftarrow> read_byte b j;
     if fold_case ac \<noteq> fold_case bc then Some (Some (if fold_case ac < fold_case bc then - 1 else 1))
     else canonical_bytes n a (Suc i) b (Suc j)
   }"
  unfolding canonical_bytes.simps(2) Let_def fold_case_def by (rule refl)

lemma canonical_bytes_nonzero: "canonical_bytes n a i b j = Some c \<Longrightarrow> c \<noteq> Some 0"
  by (induction n arbitrary: i j) (auto simp: canonical_bytes_Suc simp del: canonical_bytes.simps(2) split: if_splits)

lemma canonical_bytes_none: "canonical_bytes n a i b j = Some None \<Longrightarrow> canonical_bytes n b j a i = Some None"
  by (induction n arbitrary: i j) (auto simp: canonical_bytes_Suc simp del: canonical_bytes.simps(2) split: if_splits)

lemma compare_labels_zero: "compare_labels n a i n1 b j n2 = Some 0 \<Longrightarrow> compare_labels n b j n2 a i n1 = Some 0"
proof (induction n arbitrary: i j n1 n2)
  case (Suc n)
  then obtain x where x: "read_byte a i = Some x" "read_byte b j = Some x"
    by (auto split: if_splits)
  have r: "\<not> (n1 - (uint x + 1) < 0 \<or> n2 - (uint x + 1) < 0)"
    using Suc.prems x by (auto split: if_splits)
  obtain c where c: "canonical_bytes (unat x) a (i + 1) b (j + 1) = Some c"
    using Suc.prems x r by (auto simp: Let_def)
  have "c \<noteq> Some 0" using canonical_bytes_nonzero [OF c] by blast
  then have "c = None" using Suc.prems x r c by (auto simp: Let_def split: option.splits)
  with c have "canonical_bytes (unat x) b (j + 1) a (i + 1) = Some None" by (simp add: canonical_bytes_none)
  moreover have "compare_labels n b (j + 1 + unat x) (n2 - (uint x + 1)) a (i + 1 + unat x) (n1 - (uint x + 1)) = Some 0"
    using Suc.IH Suc.prems x r c \<open>c = None\<close> by (simp add: Let_def)
  ultimately show ?case using x r by (simp add: Let_def)
qed simp

lemma rdata_name_compare_prefix_right:
  assumes "name_at a i xs" "name_at b j (xs' @ ys)" "fold_name xs = fold_name xs'" "int (wire_len xs) \<le> n1" "int (wire_len xs) \<le> n2"
  shows "rdata_name_compare b j a i n2 n1 = Some 0"
proof -
  have "length xs = length xs'" using assms(3) by (metis length_map)
  then show ?thesis using compare_labels_zero [OF compare_labels_prefix [OF assms]] CountLabels_name [OF assms(1)] CountLabels_name [OF assms(2)]
    by (simp add: rdata_name_compare_def)
qed

end
