(* ===== verification/Dnssec_Sign_Claims.thy ===== *)
theory Dnssec_Sign_Claims imports Dnssec_Sign_Props begin

text \<open>The properties of the parts of dnssec.c that are modelled and the data at which they are applied.\<close>

section \<open>Names\<close>

text \<open>
  C25. What \<open>DNSNameToLowerCase\<close> accepts and yields.  A terminated sequence of labels of 1 to 255 bytes that takes at
  most 256 bytes is accepted, wherever the memory behind it ends, and the result is the same sequence in lower case (so
  the limit of 63 bytes for a label of a legal name is not checked, and a legal name becomes a legal name).  If 256 bytes
  are readable, the call returns whatever they are, within both arrays, and accepts nothing else.
\<close>
theorem DNSNameToLowerCase_name:
  assumes "length result = 256"
  shows "(\<forall>ls. label_chain d off ls \<and> wire_len ls \<le> 256 \<longrightarrow> (\<exists>r. DNSNameToLowerCase d off result = Some (r, True)
      \<and> length r = 256 \<and> label_chain r 0 (fold_name ls) \<and> (name_at d off ls \<longrightarrow> name_at r 0 (fold_name ls))))
    \<and> (off + 256 \<le> length d \<longrightarrow> (\<exists>r ok. DNSNameToLowerCase d off result = Some (r, ok) \<and> length r = 256
      \<and> (ok \<longleftrightarrow> (\<exists>ls. label_chain d off ls \<and> wire_len ls \<le> 256))))"
proof -
  have call: "DNSNameToLowerCase d off result = lower_loop (off + 256) d off result 0"
    by (simp add: DNSNameToLowerCase_def MAX_DOMAIN_NAME_def)
  have yes: "\<exists>r. DNSNameToLowerCase d off result = Some (r, True) \<and> length r = 256 \<and> label_chain r 0 (fold_name ls)"
    if "label_chain d off ls" "wire_len ls \<le> 256" for ls
    using lower_loop_name [OF that(1) assms, of 0 "off + 256"] that(2) call by auto
  have "\<exists>r ok. DNSNameToLowerCase d off result = Some (r, ok) \<and> length r = 256
      \<and> (ok \<longleftrightarrow> (\<exists>ls. label_chain d off ls \<and> wire_len ls \<le> 256))" if m: "off + 256 \<le> length d"
  proof -
    obtain r ok where r: "DNSNameToLowerCase d off result = Some (r, ok)" "length r = 256"
      using lower_loop_total [of "off + 256" d result off 0] m assms call by auto
    have "\<exists>ls. label_chain d off ls \<and> wire_len ls \<le> 256" if ok
      using lower_loop_accepts [of "off + 256" d off result 0 r] r(1) m call that by auto
    then show ?thesis using r yes by fastforce
  qed
  moreover have "name_at r 0 (fold_name ls)" if "name_at d off ls" "label_chain r 0 (fold_name ls)" for r ls
    using that by (auto simp: name_at_chain valid_label_def)
  ultimately show ?thesis using yes by blast
qed

definition mixed_name :: bytes where "mixed_name = [2, 0x41, 0x62, 1, 0x43, 0] @ replicate 250 0"

theorem DNSNameToLowerCase_name_witness:
  "(\<exists>r. DNSNameToLowerCase mixed_name 0 (replicate 256 0) = Some (r, True) \<and> name_at r 0 [[0x61, 0x62], [0x63]])
    \<and> (\<exists>r. DNSNameToLowerCase (64 # replicate 64 0x41 @ [0]) 0 (replicate 256 0) = Some (r, True)
         \<and> label_chain r 0 [replicate 64 0x61])"
proof -
  let ?l = "[replicate 64 (0x41 :: u8)]" and ?d = "64 # replicate 64 (0x41 :: u8) @ [0]"
  note call = DNSNameToLowerCase_name [OF length_replicate, THEN conjunct1, rule_format, OF conjI]
  have n: "name_at mixed_name 0 [[0x41, 0x62], [0x43]]"
    by (simp add: mixed_name_def valid_label_def read_byte_def read_bytes_def)
  have f: "fold_name [[0x41, 0x62], [0x43]] = [[0x61, 0x62], [0x63]]" "fold_name ?l = [replicate 64 0x61]"
    by (simp_all add: fold_case_def mDNSIsUpperCase_def)
  have w: "wire_len [[0x41, 0x62], [0x43 :: u8]] \<le> 256" "wire_len ?l \<le> 256" by simp_all
  have c: "label_chain mixed_name 0 [[0x41, 0x62], [0x43]]" "label_chain ?d 0 ?l"
    using n name_at_chain by (blast, simp add: read_byte_def read_bytes_def nth_append)
  show ?thesis using call [OF c(1) w(1)] call [OF c(2) w(2)] n unfolding f by blast
qed

section \<open>Signed data\<close>

text \<open>
  C26. For types whose data holds no names, the data that a signature covers is the canonical form of the set: the fixed
  part of the signature, the name of the signer, and every distinct data of the set once, in ascending order, behind owner,
  type, class, time to live and length.  It depends neither on the order in which the records came nor on repeated records.
\<close>
theorem signed_data_canonical:
  assumes "opaque_type t" "qsort_law t qsort" "rrset \<noteq> []"
    "\<forall>v \<in> set rrset. v_rrtype v = t \<and> v_rrclass v = c \<and> length (v_rdata v) = unat (v_rdlength v)"
    "18 \<le> length sig" "name_bytes signer 0 = Some s" "signed_owner name (sig ! off_labels) = Some (owner, skip)"
  shows "signed_data qsort rrset sig signer name =
    Some (take 18 sig @ s @
      concat (map (signed_record (owner @ bytes16 t @ bytes16 c @ take 4 (drop 4 sig))) (sorted_list_of_set (v_rdata ` set rrset))),
      length s, skip)"
proof -
  have ok: "\<forall>p \<in> set (map comp_of rrset). comp_ok t p" using assms(4) by (auto simp: comp_ok_def comp_of_def)
  have "c_rdata ` set (map comp_of rrset) = v_rdata ` set rrset" using assms(4) by (force simp: comp_of_def)
  with sign_loop_qsort [OF assms(1) ok assms(2)]
  have loop: "sign_loop fixed None (qsort (map comp_of rrset)) =
      Some (concat (map (signed_record fixed) (sorted_list_of_set (v_rdata ` set rrset))))" for fixed by simp
  have "hd rrset \<in> set rrset" using assms(3) by simp
  then have h: "v_rrtype (hd rrset) = t" "v_rrclass (hd rrset) = c" using assms(4) by auto
  have r: "read_bytes sig 0 off_signerName = Some (take 18 sig)" "read_byte sig off_labels = Some (sig ! off_labels)"
    "read_bytes sig off_origTTL 4 = Some (take 4 (drop 4 sig))"
    using assms(5) by (simp_all add: read_bytes_def read_byte_def off_signerName_def off_labels_def off_origTTL_def)
  show ?thesis using r assms(6,7) loop h by (simp add: signed_data_def)
qed

text \<open>Two address records in either order, signed by the name \<open>e\<close>\<close>

definition address_of :: "u8 \<Rightarrow> rr_verifier" where
  "address_of x = \<lparr>v_rrtype = kDNSType_A, v_rrclass = 1, v_rroriginalttl = 0, v_rdlength = 4, v_namehash = 0, v_rdatahash = 0,
     v_name = [1, 0x65, 0] @ replicate 253 0, v_rdata = [10, 0, 0, x]\<rparr>"

definition demo_signature :: bytes where
  "demo_signature = [0, 1, 5, 1, 0, 0, 14, 16, 0, 0, 0, 0, 0, 0, 0, 0, 0, 0, 1, 0x65, 0]"

theorem signed_data_canonical_witness:
  "signed_data (sort_key c_rdata) [address_of 2, address_of 1, address_of 2] demo_signature [1, 0x65, 0] [1, 0x65, 0] =
   signed_data (sort_key c_rdata) [address_of 1, address_of 2] demo_signature [1, 0x65, 0] [1, 0x65, 0]"
proof -
  have t: "opaque_type kDNSType_A" by (simp add: opaque_type_def one_name_types_def lower_name_types_def kDNSType_NXT_def kDNSType_SIG_def)
  have n: "name_bytes [1, 0x65, 0] 0 = Some [1, 0x65, 0]" by code_simp
  have o: "signed_owner [1, 0x65, 0] (demo_signature ! off_labels) = Some ([1, 0x65, 0], None)" by code_simp
  have "{[10, 0, 0, 2], [10, 0, 0, 1], [10, 0, 0, 2]} = {[10, 0, 0, 1 :: u8], [10, 0, 0, 2]}" by auto
  then show ?thesis
    using signed_data_canonical [OF t qsort_law_sort_key [OF t] _ _ _ n o, of "[address_of 2, address_of 1, address_of 2]" 1]
      signed_data_canonical [OF t qsort_law_sort_key [OF t] _ _ _ n o, of "[address_of 1, address_of 2]" 1]
    by (simp add: address_of_def demo_signature_def)
qed

text \<open>
  For types whose data is one name, \<open>RDATACompare\<close> returns 0 not only for equal names: the name with more labels compares
  equal to one that has its first labels.  Behind that one its record is taken for a repetition and left out of the signed data.
\<close>
theorem RDATACompare_prefix:
  assumes "t \<in> set one_name_types" "c_rrtype p = t" "c_rrtype q = t"
    "name_at (c_rdata p) 0 xs" "name_at (c_rdata q) 0 (xs' @ ys)" "fold_name xs = fold_name xs'"
    "wire_len xs \<le> unat (c_rdlength p)" "wire_len xs \<le> unat (c_rdlength q)"
  shows "RDATACompare q p = Some 0 \<and> RDATACompare p q = Some 0 \<and> sign_loop fixed (Some p) [q] = Some []"
proof -
  have len: "int (wire_len xs) \<le> uint (c_rdlength p)" "int (wire_len xs) \<le> uint (c_rdlength q)"
    using assms(7,8) by (simp_all only: uint_nat of_nat_le_iff)
  have "RDATACompare p q = Some 0"
    using rdata_name_compare_prefix [OF assms(4,5,6) len] assms(1-3) by (simp add: RDATACompare_def Let_def)
  moreover have "RDATACompare q p = Some 0"
    using rdata_name_compare_prefix_right [OF assms(4,5,6) len] assms(1-3) by (simp add: RDATACompare_def Let_def)
  ultimately show ?thesis by simp
qed

theorem RDATACompare_prefix_witness:
  "RDATACompare \<lparr>c_rdlength = 5, c_rrtype = kDNSType_NS, c_rdata = [1, 0x61, 1, 0x65, 0]\<rparr>
     \<lparr>c_rdlength = 3, c_rrtype = kDNSType_NS, c_rdata = [1, 0x61, 0]\<rparr> = Some 0"
  using RDATACompare_prefix [of kDNSType_NS "\<lparr>c_rdlength = 3, c_rrtype = kDNSType_NS, c_rdata = [1, 0x61, 0]\<rparr>"
      "\<lparr>c_rdlength = 5, c_rrtype = kDNSType_NS, c_rdata = [1, 0x61, 1, 0x65, 0]\<rparr>" "[[0x61]]" "[[0x61]]" "[[0x65]]"]
  by (simp add: one_name_types_def valid_label_def read_byte_def read_bytes_def)

end
