(* ===== verification/Mdns_Random.thy ===== *)
theory Mdns_Random imports Prelude begin

text \<open>
  DNSCommon.c: the generator of random numbers for platforms without one of their own, and \<open>mDNSRandom\<close>,
  which delays and intervals of mDNS.c are drawn from.  The state is the two static variables of
  \<open>mDNSRandomNumber\<close>: the seed, or nothing before the first call.  \<open>mDNSPlatformRandomSeed\<close> is the
  parameter \<open>platform\<close>.
\<close>

type_synonym random_state = "u32 option"

definition mDNSRandomFromSeed :: "u32 \<Rightarrow> u32" where
  "mDNSRandomFromSeed seed = seed * 21 + 1"

function mDNSMixRandomSeed :: "u32 \<Rightarrow> u8 \<Rightarrow> u32" where
  "mDNSMixRandomSeed seed iteration =
     (if iteration \<noteq> 0 then mDNSMixRandomSeed (mDNSRandomFromSeed seed) (iteration - 1) else seed)"
  by pat_completeness auto

termination mDNSMixRandomSeed
  by (relation "measure (\<lambda>(seed, iteration). unat iteration)") (auto simp: unat_minus_one unat_gt_0 [symmetric])

declare mDNSMixRandomSeed.simps [simp del]

definition mDNSRandomNumber :: "u32 \<Rightarrow> random_state \<Rightarrow> u32 \<times> random_state" where
  "mDNSRandomNumber platform st =
     (let seed = (case st of None \<Rightarrow> mDNSMixRandomSeed platform 100 | Some seed \<Rightarrow> seed);
          seed = mDNSRandomFromSeed seed
      in (seed, Some seed))"

partial_function (option) mask_loop :: "u32 \<Rightarrow> u32 \<Rightarrow> u32 option" where
  "mask_loop mx msk = (if msk < mx then mask_loop mx (push_bit 1 msk OR 1) else Some msk)"

partial_function (option) draw_loop :: "u32 \<Rightarrow> u32 \<Rightarrow> u32 \<Rightarrow> random_state \<Rightarrow> (u32 \<times> random_state) option" where
  "draw_loop platform mx msk st =
     (let (n, st) = mDNSRandomNumber platform st; ret = n AND msk
      in if ret > mx then draw_loop platform mx msk st else Some (ret, st))"

declare mask_loop.simps [code] draw_loop.simps [code]

definition mDNSRandom :: "u32 \<Rightarrow> u32 \<Rightarrow> random_state \<Rightarrow> (u32 \<times> random_state) option" where
  "mDNSRandom platform mx st = do { msk \<leftarrow> mask_loop mx 1; draw_loop platform mx msk st }"

section \<open>The mask\<close>

lemma mask_step: "push_bit 1 (mask k :: u32) OR 1 = mask (Suc k)"
proof -
  have "push_bit 1 (mask k :: u32) OR 1 = 2 * mask k + 1"
    by (simp only: or_one_eq push_bit_eq_mult power_one_right mult.commute [of _ 2]) simp
  then show ?thesis by (simp add: mask_eq_exp_minus_1)
qed

lemma mask_all: "mx \<le> (mask 32 :: u32)"
proof -
  have "(mask 32 :: u32) = - 1" by (simp add: mask_eq_exp_minus_1)
  then show ?thesis by simp
qed

lemma mask_loop_some: "k \<le> 32 \<Longrightarrow> \<exists>n. k \<le> n \<and> n \<le> 32 \<and> mask_loop mx (mask k) = Some (mask n) \<and> mx \<le> mask n"
proof (induction "32 - k" arbitrary: k)
  case 0
  then have "k = 32" by simp
  then have "mask_loop mx (mask k) = Some (mask k)" using mask_all [of mx]
    by (subst mask_loop.simps) (simp only: not_less [symmetric] if_False)
  then show ?case using \<open>k = 32\<close> mask_all by blast
next
  case (Suc d)
  then have d: "d = 32 - Suc k" "Suc k \<le> 32" by arith+
  show ?case
  proof (cases "mask k < mx")
    case True
    then have "mask_loop mx (mask k) = mask_loop mx (mask (Suc k))"
      by (subst mask_loop.simps) (simp only: mask_step if_True)
    then show ?thesis using Suc(1) [OF d] Suc_leD by metis
  next
    case False
    then have "mask_loop mx (mask k) = Some (mask k)" by (subst mask_loop.simps) simp
    then show ?thesis using False Suc.prems by (auto simp: not_less)
  qed
qed

section \<open>The period of the generator\<close>

text \<open>
  \<open>n\<close> steps of the generator are \<open>x \<mapsto> 21\<^sup>n x + (1 + 21 + \<dots> + 21\<^sup>n\<^sup>-\<^sup>1)\<close>.  After \<open>2\<^sup>k\<close> steps the low
  \<open>k\<close> bits are as before and the next bit has changed.
\<close>

definition lcg :: "int \<Rightarrow> int" where "lcg x = 21 * x + 1"

lemma lcg_pow2: "\<exists>c. odd c \<and> (\<forall>x. (lcg ^^ (2 ^ k)) x = (20 * (2 ^ k * c) + 1) * x + 2 ^ k * c)"
proof (induction k)
  case 0
  show ?case by (intro exI [of _ 1]) (simp add: lcg_def)
next
  case (Suc k)
  then obtain c where c: "odd c" "(lcg ^^ (2 ^ k)) x = (20 * (2 ^ k * c) + 1) * x + 2 ^ k * c" for x by blast
  have "(lcg ^^ (2 ^ Suc k)) x = (lcg ^^ (2 ^ k)) ((lcg ^^ (2 ^ k)) x)" for x
    by (simp add: funpow_add [symmetric, THEN fun_cong, unfolded o_def] mult_2)
  then have "(lcg ^^ (2 ^ Suc k)) x = (20 * (2 ^ Suc k * (c * (10 * (2 ^ k * c) + 1))) + 1) * x + 2 ^ Suc k * (c * (10 * (2 ^ k * c) + 1))" for x
    by (simp add: c(2) algebra_simps)
  then show ?case using c(1) by (intro exI [of _ "c * (10 * (2 ^ k * c) + 1)"]) simp
qed

lemma lcg_flips: "(lcg ^^ (2 ^ k)) x mod 2 ^ Suc k = (x + 2 ^ k) mod 2 ^ Suc k"
proof -
  obtain c where c: "odd c" "(lcg ^^ (2 ^ k)) x = (20 * (2 ^ k * c) + 1) * x + 2 ^ k * c" using lcg_pow2 by blast
  from c(1) obtain d where "c = 2 * d + 1" by (elim oddE)
  then have "(lcg ^^ (2 ^ k)) x = x + 2 ^ k + 2 ^ Suc k * (10 * c * x + d)"
    by (simp add: c(2) algebra_simps)
  then show ?thesis by simp
qed

lemma mod_pow2_cases:
  assumes "x mod 2 ^ k = r mod (2 ^ k :: int)"
  shows "x mod 2 ^ Suc k = r mod 2 ^ Suc k \<or> (x + 2 ^ k) mod 2 ^ Suc k = r mod 2 ^ Suc k"
proof -
  obtain q where q: "r = x + 2 ^ k * q" using assms by (metis mod_eqE mult.commute)
  show ?thesis
  proof (cases "even q")
    case True
    then obtain d where "q = 2 * d" by (elim evenE)
    then have "r = x + 2 ^ Suc k * d" using q by simp
    then show ?thesis by simp
  next
    case False
    then obtain d where "q = 2 * d + 1" by (elim oddE)
    then have "r = (x + 2 ^ k) + 2 ^ Suc k * d" using q by (simp add: algebra_simps)
    then show ?thesis by simp
  qed
qed

text \<open>Every value of the low bits comes within one period.\<close>

lemma lcg_reaches: "\<exists>n < 2 ^ k. (lcg ^^ n) x mod 2 ^ k = r mod 2 ^ k"
proof (induction k)
  case (Suc k)
  then obtain n where n: "n < 2 ^ k" "(lcg ^^ n) x mod 2 ^ k = r mod 2 ^ k" by blast
  from mod_pow2_cases [OF n(2)] show ?case
  proof
    assume "(lcg ^^ n) x mod 2 ^ Suc k = r mod 2 ^ Suc k"
    then show ?case using n(1) by (intro exI [of _ n]) simp
  next
    assume "((lcg ^^ n) x + 2 ^ k) mod 2 ^ Suc k = r mod 2 ^ Suc k"
    then have "(lcg ^^ (2 ^ k + n)) x mod 2 ^ Suc k = r mod 2 ^ Suc k"
      using lcg_flips [of k "(lcg ^^ n) x"] by (simp add: funpow_add)
    then show ?case using n(1) by (intro exI [of _ "2 ^ k + n"]) simp
  qed
qed simp

lemma lcg_mod: "lcg (x mod m) mod m = lcg x mod m"
  unfolding lcg_def by (metis mod_add_left_eq mod_mult_right_eq)

lemma uint_seed: "uint (mDNSRandomFromSeed t) = lcg (uint t) mod 2 ^ 32"
  by (simp add: mDNSRandomFromSeed_def lcg_def uint_word_ariths mod_simps mult.commute [of _ 21])

lemma uint_seeds: "uint ((mDNSRandomFromSeed ^^ n) s) = (lcg ^^ n) (uint s) mod 2 ^ 32"
proof (induction n)
  case 0
  show ?case using uint_lt2p [of s] by simp
qed (simp only: funpow.simps o_def uint_seed lcg_mod)

lemma seeds_reach: "k \<le> 32 \<Longrightarrow> \<exists>n < 2 ^ k. (mDNSRandomFromSeed ^^ n) s AND mask k = v AND mask k"
proof -
  assume k: "k \<le> 32"
  obtain n where n: "n < 2 ^ k" "(lcg ^^ n) (uint s) mod 2 ^ k = uint v mod 2 ^ k" using lcg_reaches by blast
  have "((lcg ^^ n) (uint s) mod 2 ^ 32) mod 2 ^ k = (lcg ^^ n) (uint s) mod 2 ^ k"
    using k by (intro mod_mod_cancel le_imp_power_dvd)
  then have "(mDNSRandomFromSeed ^^ n) s AND mask k = v AND mask k"
    using n(2) by (simp only: and_mask_mod_2p uint_seeds)
  then show ?thesis using n(1) by blast
qed

section \<open>The loop\<close>

lemma draw_loop_step:
  "draw_loop platform mx msk (Some s) =
     (if mDNSRandomFromSeed s AND msk > mx then draw_loop platform mx msk (Some (mDNSRandomFromSeed s))
      else Some (mDNSRandomFromSeed s AND msk, Some (mDNSRandomFromSeed s)))"
  by (subst draw_loop.simps) (simp add: mDNSRandomNumber_def Let_def)

lemma draw_loop_some:
  "(mDNSRandomFromSeed ^^ Suc n) s AND msk \<le> mx \<Longrightarrow>
    \<exists>s'. draw_loop platform mx msk (Some s) = Some (s' AND msk, Some s') \<and> s' AND msk \<le> mx"
proof (induction n arbitrary: s)
  case 0
  then show ?case by (subst draw_loop_step) (auto simp: not_less)
next
  case (Suc n)
  have "(mDNSRandomFromSeed ^^ Suc n) (mDNSRandomFromSeed s) AND msk \<le> mx"
    using Suc.prems by (simp add: funpow_swap1)
  from Suc.IH [OF this] show ?case by (subst draw_loop_step) (auto simp: not_less)
qed

definition first_seed :: "u32 \<Rightarrow> random_state \<Rightarrow> u32" where
  "first_seed platform st = (case st of None \<Rightarrow> mDNSMixRandomSeed platform 100 | Some seed \<Rightarrow> seed)"

lemma draw_loop_seeded: "draw_loop platform mx msk st = draw_loop platform mx msk (Some (first_seed platform st))"
  by (subst (1 2) draw_loop.simps) (simp add: mDNSRandomNumber_def first_seed_def)

lemma mDNSRandom_some: "\<exists>r seed. mDNSRandom platform mx st = Some (r, Some seed) \<and> r \<le> mx"
proof -
  obtain k where k: "k \<le> 32" "mask_loop mx 1 = Some (mask k)"
    using mask_loop_some [of 1 mx] by (auto simp: mask_Suc_0)
  define s where "s = first_seed platform st"
  obtain n where "(mDNSRandomFromSeed ^^ n) (mDNSRandomFromSeed s) AND mask k = 0 AND mask k"
    using seeds_reach [OF k(1)] by blast
  then have "(mDNSRandomFromSeed ^^ Suc n) s AND mask k \<le> mx" by (simp add: funpow_swap1)
  from draw_loop_some [OF this, of platform] show ?thesis
    using k(2) by (auto simp: mDNSRandom_def s_def draw_loop_seeded [of platform mx "mask k" st])
qed

lemma mDNSRandom_reaches: "v \<le> mx \<Longrightarrow> \<exists>s. mDNSRandom platform mx (Some s) = Some (v, Some v)"
proof -
  assume v: "v \<le> mx"
  obtain k where k: "k \<le> 32" "mask_loop mx 1 = Some (mask k)" "mx \<le> mask k"
    using mask_loop_some [of 1 mx] by (auto simp: mask_Suc_0)
  have "uint v \<le> uint (mask k :: u32)" using v k(3) by (simp add: word_le_def)
  also have "\<dots> < 2 ^ k" by (metis and_mask_lt_2p and.idem)
  finally have "v AND mask k = v" by (simp add: mask_eq_iff)
  have "(1022611261 * 21 :: u32) = 1" by simp
  then have "mDNSRandomFromSeed ((v - 1) * 1022611261) = v"
    by (simp only: mDNSRandomFromSeed_def mult.assoc mult_1_right diff_add_cancel)
  then have "draw_loop platform mx (mask k) (Some ((v - 1) * 1022611261)) = Some (v, Some v)"
    using v \<open>v AND mask k = v\<close> by (subst draw_loop_step) (simp add: leD)
  then show ?thesis using k(2) by (auto simp: mDNSRandom_def)
qed

end
