(* ===== verification/Mdns_Probe.thy ===== *)
theory Mdns_Probe imports Mdns_Random Dns_Answer Dns_Receive begin

text \<open>
  mDNS.c: the state that the rules for authoritative records work on, and the time of their next probe or
  announcement.  Times are \<open>mDNSs32\<close>, compared through the sign of their difference, which wraps.
\<close>

section \<open>State\<close>

type_synonym s32 = "32 word"

definition kDNSRecordTypeDeregistering :: u8 where "kDNSRecordTypeDeregistering = 0x01"
definition kDNSRecordTypeUnique :: u8 where "kDNSRecordTypeUnique = 0x02"
definition kDNSRecordTypeAdvisory :: u8 where "kDNSRecordTypeAdvisory = 0x04"
definition kDNSRecordTypeShared :: u8 where "kDNSRecordTypeShared = 0x08"
definition kDNSRecordTypeVerified :: u8 where "kDNSRecordTypeVerified = 0x10"
definition kDNSRecordTypeKnownUnique :: u8 where "kDNSRecordTypeKnownUnique = 0x20"
definition kDNSRecordTypePacketNegative :: u8 where "kDNSRecordTypePacketNegative = 0xF0"

definition kDNSRecordTypeUniqueMask :: u8 where
  "kDNSRecordTypeUniqueMask = kDNSRecordTypeUnique OR kDNSRecordTypeVerified OR kDNSRecordTypeKnownUnique"
definition kDNSRecordTypeActiveSharedMask :: u8 where
  "kDNSRecordTypeActiveSharedMask = kDNSRecordTypeAdvisory OR kDNSRecordTypeShared"
definition kDNSRecordTypeActiveUniqueMask :: u8 where
  "kDNSRecordTypeActiveUniqueMask = kDNSRecordTypeVerified OR kDNSRecordTypeKnownUnique"
definition kDNSRecordTypeActiveMask :: u8 where
  "kDNSRecordTypeActiveMask = kDNSRecordTypeActiveSharedMask OR kDNSRecordTypeActiveUniqueMask"

lemmas record_types = kDNSRecordTypeDeregistering_def kDNSRecordTypeUnique_def kDNSRecordTypeAdvisory_def
  kDNSRecordTypeShared_def kDNSRecordTypeVerified_def kDNSRecordTypeKnownUnique_def kDNSRecordTypePacketNegative_def
  kDNSRecordTypeUniqueMask_def kDNSRecordTypeActiveSharedMask_def kDNSRecordTypeActiveUniqueMask_def kDNSRecordTypeActiveMask_def

text \<open>Pointers to authoritative records are addresses, or nothing for NULL; \<open>ar_HMAC\<close> is \<open>WakeUp.HMAC.l[0]\<close>.\<close>

record auth_record =
  ar_resrec :: resource_record
  ar_Additional1 :: "nat option"
  ar_Additional2 :: "nat option"
  ar_DependentOn :: "nat option"
  ar_RRSet :: "nat option"
  ar_HMAC :: u32
  ar_AddressProxy_type :: s32
  ar_ProbeCount :: u8
  ar_AnnounceCount :: u8
  ar_ThisAPInterval :: s32
  ar_LastAPTime :: s32
  ar_LastMCTime :: s32
  ar_LastMCInterface :: u64

text \<open>The lists linked by \<open>next\<close> are lists of the addresses; the state of the random generator is static.\<close>

record mdns =
  m_timenow :: s32
  m_SuppressProbes :: s32
  m_NextScheduledProbe :: s32
  m_NextScheduledQuery :: s32
  m_NextScheduledResponse :: s32
  m_SuppressSending :: s32
  m_KnownBugs :: u32
  m_random :: random_state
  m_auth :: "nat \<Rightarrow> auth_record option"
  m_ResourceRecords :: "nat list"
  m_DuplicateRecords :: "nat list"

definition set_auth :: "nat \<Rightarrow> auth_record \<Rightarrow> mdns \<Rightarrow> mdns" where
  "set_auth p r m = m\<lparr>m_auth := (m_auth m)(p \<mapsto> r)\<rparr>"

section \<open>Times\<close>

definition NonZeroTime :: "s32 \<Rightarrow> s32" where
  "NonZeroTime t = (if t \<noteq> 0 then t else 1)"

definition DefaultProbeCountForTypeUnique :: u8 where "DefaultProbeCountForTypeUnique = 3"
definition InitialAnnounceCount :: u8 where "InitialAnnounceCount = 8"
definition DefaultProbeIntervalForTypeUnique :: s32 where "DefaultProbeIntervalForTypeUnique = mDNSPlatformOneSecond div 4"
definition DefaultAnnounceIntervalForTypeShared :: s32 where "DefaultAnnounceIntervalForTypeShared = mDNSPlatformOneSecond div 2"
definition DefaultAnnounceIntervalForTypeUnique :: s32 where "DefaultAnnounceIntervalForTypeUnique = mDNSPlatformOneSecond div 2"
definition mDNSInterfaceMark :: u64 where "mDNSInterfaceMark = - 1"

lemmas intervals = DefaultProbeIntervalForTypeUnique_def DefaultAnnounceIntervalForTypeShared_def
  DefaultAnnounceIntervalForTypeUnique_def mDNSPlatformOneSecond_def

definition DefaultAPIntervalForRecordType :: "u8 \<Rightarrow> s32" where
  "DefaultAPIntervalForRecordType x =
     (if x AND kDNSRecordTypeActiveSharedMask \<noteq> 0 then DefaultAnnounceIntervalForTypeShared
      else if x AND kDNSRecordTypeUnique \<noteq> 0 then DefaultProbeIntervalForTypeUnique
      else if x AND kDNSRecordTypeActiveUniqueMask \<noteq> 0 then DefaultAnnounceIntervalForTypeUnique
      else 0)"

text \<open>A record that another one points to, if any, is active.\<close>

definition null_or_active :: "mdns \<Rightarrow> nat option \<Rightarrow> bool option" where
  "null_or_active m ptr =
     (case ptr of
        None \<Rightarrow> Some True
      | Some p \<Rightarrow> do { r \<leftarrow> m_auth m p; Some (rr_RecordType (ar_resrec r) AND kDNSRecordTypeActiveMask \<noteq> 0) })"

definition ResourceRecordIsValidAnswer :: "mdns \<Rightarrow> auth_record \<Rightarrow> bool option" where
  "ResourceRecordIsValidAnswer m rr =
     and_then (Some (rr_RecordType (ar_resrec rr) AND kDNSRecordTypeActiveMask \<noteq> 0))
       (and_then (null_or_active m (ar_Additional1 rr))
         (and_then (null_or_active m (ar_Additional2 rr)) (null_or_active m (ar_DependentOn rr))))"

definition SetNextAnnounceProbeTime :: "mdns \<Rightarrow> auth_record \<Rightarrow> mdns option" where
  "SetNextAnnounceProbeTime m rr =
     (let due = ar_LastAPTime rr + ar_ThisAPInterval rr in
      if rr_RecordType (ar_resrec rr) = kDNSRecordTypeUnique then
        (let m = (if sint (m_NextScheduledProbe m - due) \<ge> 0 then m\<lparr>m_NextScheduledProbe := due\<rparr> else m)
         in Some (if sint (m_NextScheduledProbe m - m_timenow m) < 0 then m\<lparr>m_NextScheduledProbe := m_timenow m\<rparr> else m))
      else do {
        announce \<leftarrow> and_then (Some (ar_AnnounceCount rr \<noteq> 0))
          (if rr_RecordType (ar_resrec rr) = kDNSRecordTypeDeregistering then Some True else ResourceRecordIsValidAnswer m rr);
        Some (if announce \<and> sint (m_NextScheduledResponse m - due) \<ge> 0 then m\<lparr>m_NextScheduledResponse := due\<rparr> else m)
      })"

text \<open>The time when the next probes may be sent is drawn anew.\<close>

definition random_probe_time :: "u32 \<Rightarrow> mdns \<Rightarrow> mdns option" where
  "random_probe_time platform m = do {
     (r, st) \<leftarrow> mDNSRandom platform (DefaultProbeIntervalForTypeUnique div 2) (m_random m);
     Some (m\<lparr>m_random := st, m_SuppressProbes := NonZeroTime (m_timenow m + DefaultProbeIntervalForTypeUnique div 2 + r)\<rparr>)
   }"

text \<open>An earlier time \<open>t\<close> is taken over, but none in the past.\<close>

definition aggregate :: "s32 \<Rightarrow> mdns \<Rightarrow> mdns" where
  "aggregate t m =
     (let m = (if sint (m_SuppressProbes m - t) \<ge> 0 then m\<lparr>m_SuppressProbes := NonZeroTime t\<rparr> else m)
      in if sint (m_SuppressProbes m - m_timenow m) < 0 then m\<lparr>m_SuppressProbes := m_timenow m\<rparr> else m)"

definition set_suppress_probes :: "u32 \<Rightarrow> mdns \<Rightarrow> mdns option" where
  "set_suppress_probes platform m =
     (if m_SuppressProbes m = 0 \<or> sint (m_SuppressProbes m - m_timenow m) < 0 then do {
        m \<leftarrow> random_probe_time platform m;
        let m = aggregate (m_NextScheduledProbe m) m;
        let m = aggregate (m_NextScheduledQuery m) m;
        let m = (if m_SuppressSending m \<noteq> 0 \<and> sint (m_SuppressProbes m - m_SuppressSending m) < 0
          then m\<lparr>m_SuppressProbes := NonZeroTime (m_SuppressSending m)\<rparr> else m);
        (if sint (m_SuppressProbes m - m_timenow m) > sint (mDNSPlatformOneSecond * 8) then random_probe_time platform m else Some m)
      } else Some m)"

definition InitializeLastAPTime :: "u32 \<Rightarrow> mdns \<Rightarrow> nat \<Rightarrow> mdns option" where
  "InitializeLastAPTime platform m p = do {
     rr \<leftarrow> m_auth m p;
     let interval = (if ar_AddressProxy_type rr \<noteq> 0 then mDNSPlatformOneSecond
       else DefaultAPIntervalForRecordType (rr_RecordType (ar_resrec rr)));
     m \<leftarrow> (if ar_ProbeCount rr \<noteq> 0 then set_suppress_probes platform m else Some m);
     let last = (if ar_ProbeCount rr \<noteq> 0 then m_SuppressProbes m - interval
       else if m_SuppressProbes m \<noteq> 0 \<and> sint (m_SuppressProbes m - m_timenow m) \<ge> 0
       then m_SuppressProbes m - interval + DefaultProbeIntervalForTypeUnique * ucast DefaultProbeCountForTypeUnique + interval div 2
       else m_timenow m - interval);
     let last = (if ar_AddressProxy_type rr \<noteq> 0 then m_timenow m else last);
     let last = (if m_KnownBugs m AND 1 \<noteq> 0 \<and> ar_HMAC rr \<noteq> 0 \<and> rr_rrtype (ar_resrec rr) = kDNSType_AAAA
       then m_timenow m - interval + mDNSPlatformOneSecond * 10 else last);
     let rr = rr\<lparr>ar_ThisAPInterval := interval, ar_LastAPTime := last, ar_LastMCTime := m_timenow m, ar_LastMCInterface := mDNSInterfaceMark\<rparr>;
     SetNextAnnounceProbeTime (set_auth p rr m) rr
   }"

end
