(* ===== verification/Mdns_Conflict.thy ===== *)
theory Mdns_Conflict imports Mdns_Probe begin

text \<open>
  mDNS.c: when two hosts want the same name.  Which records belong together, which packet records conflict
  with ours, and the tie-break between two hosts that probe at the same time.  Log messages are left out.
\<close>

section \<open>Comparing records\<close>

text \<open>DNSCommon.h: the names are compared last.\<close>

definition IdenticalResourceRecord :: "resource_record \<Rightarrow> resource_record \<Rightarrow> bool option" where
  "IdenticalResourceRecord r1 r2 =
     and_then (Some (rr_rrtype r1 = rr_rrtype r2 \<and> rr_rrclass r1 = rr_rrclass r2 \<and> rr_namehash r1 = rr_namehash r2
         \<and> rr_rdlength r1 = rr_rdlength r2 \<and> rr_rdatahash r1 = rr_rdatahash r2))
       (and_then (SameRDataBody r1 (rr_data r2) SameDomainName) (SameDomainName (rr_name r1) 0 (rr_name r2) 0))"

definition other_interface :: "resource_record \<Rightarrow> resource_record \<Rightarrow> bool" where
  "other_interface r1 r2 \<longleftrightarrow> rr_InterfaceID r1 \<noteq> 0 \<and> rr_InterfaceID r2 \<noteq> 0 \<and> rr_InterfaceID r1 \<noteq> rr_InterfaceID r2"

definition same_class_and_name :: "resource_record \<Rightarrow> resource_record \<Rightarrow> bool option" where
  "same_class_and_name r1 r2 =
     and_then (Some (rr_rrclass r1 = rr_rrclass r2 \<and> rr_namehash r1 = rr_namehash r2)) (SameDomainName (rr_name r1) 0 (rr_name r2) 0)"

definition SameResourceRecordNameClassInterface :: "auth_record \<Rightarrow> auth_record \<Rightarrow> bool option" where
  "SameResourceRecordNameClassInterface r1 r2 =
     (if other_interface (ar_resrec r1) (ar_resrec r2) then Some False else same_class_and_name (ar_resrec r1) (ar_resrec r2))"

definition SameResourceRecordSignature :: "auth_record \<Rightarrow> auth_record \<Rightarrow> bool option" where
  "SameResourceRecordSignature A B =
     and_then (Some (rr_rrtype (ar_resrec A) = rr_rrtype (ar_resrec B))) (SameResourceRecordNameClassInterface A B)"

definition PacketRRMatchesSignature :: "resource_record \<Rightarrow> auth_record \<Rightarrow> bool option" where
  "PacketRRMatchesSignature pktrr authrr =
     (let r = ar_resrec authrr in
      if other_interface pktrr r then Some False
      else if (rr_RecordType r AND kDNSRecordTypeUniqueMask = 0 \<or> ar_HMAC authrr \<noteq> 0) \<and> rr_rrtype pktrr \<noteq> rr_rrtype r then Some False
      else same_class_and_name pktrr r)"

definition ShouldSuppressKnownAnswer :: "resource_record \<Rightarrow> auth_record \<Rightarrow> bool option" where
  "ShouldSuppressKnownAnswer ka rr = do {
     same \<leftarrow> IdenticalResourceRecord ka (ar_resrec rr);
     Some (same \<and> rr_rroriginalttl ka \<ge> rr_rroriginalttl (ar_resrec rr) div 2)
   }"

section \<open>Conflicts\<close>

text \<open>The data of a record as it is sent, in 256 bytes of a buffer; when it does not fit the end is NULL.\<close>

definition put_256 :: "resource_record \<Rightarrow> (bytes \<times> nat option) option" where
  "put_256 rr = putRData False (replicate 256 0) 0 256 rr"

fun compare_sent :: "bytes \<Rightarrow> bytes \<Rightarrow> int" where
  "compare_sent our pkt =
     (if our = [] \<and> pkt = [] then 0
      else if our = [] then - 1
      else if pkt = [] then 1
      else if hd our = hd pkt then compare_sent (tl our) (tl pkt)
      else if hd pkt > hd our then - 1
      else 1)"

declare compare_sent.simps [simp del]

definition CompareRData :: "resource_record \<Rightarrow> resource_record \<Rightarrow> int option" where
  "CompareRData our pkt = do {
     (ourdata, ourend) \<leftarrow> put_256 our;
     (pktdata, pktend) \<leftarrow> put_256 pkt;
     Some (compare_sent (case ourend of None \<Rightarrow> [] | Some n \<Rightarrow> take n ourdata) (case pktend of None \<Rightarrow> [] | Some n \<Rightarrow> take n pktdata))
   }"

text \<open>Following the pointers may not end.\<close>

partial_function (option) dependent_root :: "(nat \<Rightarrow> auth_record option) \<Rightarrow> nat \<Rightarrow> nat option" where
  "dependent_root auth p =
     (case auth p of
        None \<Rightarrow> None
      | Some r \<Rightarrow> (case ar_DependentOn r of None \<Rightarrow> Some p | Some q \<Rightarrow> dependent_root auth q))"

partial_function (option) rrset_root :: "(nat \<Rightarrow> auth_record option) \<Rightarrow> nat \<Rightarrow> nat option" where
  "rrset_root auth p =
     (case auth p of
        None \<Rightarrow> None
      | Some r \<Rightarrow> (case ar_RRSet r of None \<Rightarrow> Some p | Some q \<Rightarrow> if q = p then Some p else rrset_root auth q))"

declare dependent_root.simps [code] rrset_root.simps [code]

fun match_dependent :: "(nat \<Rightarrow> auth_record option) \<Rightarrow> nat list \<Rightarrow> resource_record \<Rightarrow> nat \<Rightarrow> bool option" where
  "match_dependent auth [] pktrr master = Some False"
| "match_dependent auth (p # ps) pktrr master = do {
     r \<leftarrow> auth p;
     same \<leftarrow> IdenticalResourceRecord (ar_resrec r) pktrr;
     root \<leftarrow> (if same then map_option Some (dependent_root auth p) else Some None);
     if root = Some master then Some True else match_dependent auth ps pktrr master
   }"

definition MatchDependentOn :: "mdns \<Rightarrow> resource_record \<Rightarrow> nat \<Rightarrow> bool option" where
  "MatchDependentOn m pktrr master = do {
     found \<leftarrow> match_dependent (m_auth m) (m_ResourceRecords m) pktrr master;
     if found then Some True else match_dependent (m_auth m) (m_DuplicateRecords m) pktrr master
   }"

fun find_rrset :: "(nat \<Rightarrow> auth_record option) \<Rightarrow> nat list \<Rightarrow> resource_record \<Rightarrow> (nat option) option" where
  "find_rrset auth [] pktrr = Some None"
| "find_rrset auth (p # ps) pktrr = do {
     r \<leftarrow> auth p;
     same \<leftarrow> IdenticalResourceRecord (ar_resrec r) pktrr;
     if same then map_option Some (rrset_root auth p) else find_rrset auth ps pktrr
   }"

definition FindRRSet :: "mdns \<Rightarrow> resource_record \<Rightarrow> (nat option) option" where
  "FindRRSet m pktrr = find_rrset (m_auth m) (m_ResourceRecords m) pktrr"

definition PacketRRConflict :: "mdns \<Rightarrow> nat \<Rightarrow> resource_record \<Rightarrow> bool option" where
  "PacketRRConflict m our pktrr = do {
     r \<leftarrow> m_auth m our;
     if rr_RecordType (ar_resrec r) AND kDNSRecordTypeUniqueMask = 0 then Some False
     else do {
       dependent \<leftarrow> (if ar_DependentOn r \<noteq> None then Some True else MatchDependentOn m pktrr our);
       if dependent then Some False
       else do {
         pktset \<leftarrow> FindRRSet m pktrr;
         if pktset = Some (case ar_RRSet r of None \<Rightarrow> our | Some p \<Rightarrow> p) then Some False
         else Some (\<not> (ar_HMAC r \<noteq> 0 \<and> pktset \<noteq> None))
       }
     }
   }"

section \<open>Probing at the same time\<close>

definition tie_break :: "resource_record \<Rightarrow> resource_record \<Rightarrow> int option" where
  "tie_break our pkt =
     (let result = int (unat (rr_rrclass our)) - int (unat (rr_rrclass pkt)) in
      if result \<noteq> 0 then Some result
      else
        (let result = int (unat (rr_rrtype our)) - int (unat (rr_rrtype pkt)) in
         if result \<noteq> 0 then Some result else CompareRData our pkt))"

text \<open>The probes of \<open>our\<close> wait for a second and start over.\<close>

definition probe_again :: "u32 \<Rightarrow> mdns \<Rightarrow> nat \<Rightarrow> mdns option" where
  "probe_again platform m our = do {
     r \<leftarrow> m_auth m our;
     let m = m\<lparr>m_SuppressProbes := NonZeroTime (m_timenow m + mDNSPlatformOneSecond)\<rparr>;
     let m = set_auth our (r\<lparr>ar_ProbeCount := DefaultProbeCountForTypeUnique, ar_AnnounceCount := InitialAnnounceCount\<rparr>) m;
     InitializeLastAPTime platform m our
   }"

text \<open>Whether the record of the packet beats ours\<close>

definition loses_to :: "mdns \<Rightarrow> question \<Rightarrow> nat \<Rightarrow> resource_record \<Rightarrow> bool option" where
  "loses_to m q our rec =
     and_then (Some (rr_RecordType rec \<noteq> kDNSRecordTypePacketNegative))
       (and_then (ResourceRecordAnswersQuestion rec q)
         (and_then (PacketRRConflict m our rec)
           (do { r \<leftarrow> m_auth m our; result \<leftarrow> tie_break (ar_resrec r) rec; Some (result < 0) })))"

text \<open>\<open>rec\<close> is the record of \<open>m->rec\<close>, which is read into again and again.\<close>

fun probe_loop :: "u32 \<Rightarrow> nat \<Rightarrow> mdns \<Rightarrow> bytes \<Rightarrow> nat option \<Rightarrow> nat \<Rightarrow> question \<Rightarrow> nat \<Rightarrow> resource_record \<Rightarrow> (mdns \<times> resource_record) option" where
  "probe_loop platform 0 m msg ptr e q our rec = Some (m, rec)"
| "probe_loop platform (Suc n) m msg ptr e q our rec = do {
     (rec, ptr) \<leftarrow> GetLargeResourceRecord msg ptr e (q_InterfaceID q) 0xA0 rec;
     if ptr = None then Some (m, rec)
     else do {
       lost \<leftarrow> loses_to m q our rec;
       if lost then do { m \<leftarrow> probe_again platform m our; Some (m, rec) }
       else probe_loop platform n m msg ptr e q our (rec\<lparr>rr_RecordType := 0\<rparr>)
     }
   }"

definition ResolveSimultaneousProbe ::
  "u32 \<Rightarrow> mdns \<Rightarrow> bytes \<Rightarrow> nat \<Rightarrow> question \<Rightarrow> nat \<Rightarrow> resource_record \<Rightarrow> (mdns \<times> resource_record) option" where
  "ResolveSimultaneousProbe platform m query e q our rec = do {
     ptr \<leftarrow> LocateAuthorities query e;
     n \<leftarrow> get_count query h_numAuthorities;
     (m, rec) \<leftarrow> probe_loop platform (unat n) m query ptr e q our rec;
     Some (m, rec\<lparr>rr_RecordType := 0\<rparr>)
   }"

end
