(* ===== verification/Mdns_Probe_Props.thy ===== *)
theory Mdns_Probe_Props imports Mdns_Probe begin

text \<open>
  When the first probe of a record goes out: the chain of adjustments keeps the time between now and a bound,
  although every comparison wraps.
\<close>

section \<open>Differences of times\<close>

lemma sint_diff:
  fixes a b :: s32
  shows "- (2 ^ 31) \<le> sint a - sint b \<Longrightarrow> sint a - sint b < 2 ^ 31 \<Longrightarrow> sint (a - b) = sint a - sint b"
  by (simp add: sint_word_ariths signed_take_bit_int_eq_self)

lemma sint_range: "- (2 ^ 31) \<le> sint (a :: s32)" "sint (a :: s32) < 2 ^ 31"
  using sint_ge [of a] sint_lt [of a] by simp_all

lemma sint_diff_nonneg: "0 \<le> sint a \<Longrightarrow> 0 \<le> sint b \<Longrightarrow> sint (a - b) = sint a - sint (b :: s32)"
  using sint_range [of a] sint_range [of b] by (intro sint_diff) simp_all

lemma offset: "a - b = (a - n) - (b - n)" for a b n :: s32
  by simp

text \<open>From two times not before \<open>n\<close> the difference can be taken of the distances.\<close>

lemma later_of: "0 \<le> sint (a - n) \<Longrightarrow> 0 \<le> sint (b - n) \<Longrightarrow> sint (a - b) = sint (a - n) - sint (b - n)" for a b n :: s32
  using sint_diff_nonneg [of "a - n" "b - n"] by simp

lemma sint_succ: "sint a < 2 ^ 31 - 1 \<Longrightarrow> sint (a + 1) = sint a + 1" for a :: s32
  using sint_range(1) [of a] by (simp add: sint_word_ariths signed_take_bit_int_eq_self)

section \<open>The time of the next probes\<close>

definition probe_within :: "int \<Rightarrow> mdns \<Rightarrow> bool" where
  "probe_within n m \<longleftrightarrow> m_SuppressProbes m \<noteq> 0 \<and> 0 \<le> sint (m_SuppressProbes m - m_timenow m) \<and> sint (m_SuppressProbes m - m_timenow m) \<le> n"

lemma aggregate_fields [simp]: "m_timenow (aggregate t m) = m_timenow m" "m_SuppressSending (aggregate t m) = m_SuppressSending m"
    "m_NextScheduledQuery (aggregate t m) = m_NextScheduledQuery m" "m_NextScheduledProbe (aggregate t m) = m_NextScheduledProbe m"
    "m_auth (aggregate t m) = m_auth m" "m_KnownBugs (aggregate t m) = m_KnownBugs m"
  by (simp_all add: aggregate_def Let_def)

lemma aggregate_eq: "aggregate t m = m\<lparr>m_SuppressProbes := m_SuppressProbes (aggregate t m)\<rparr>"
  by (simp add: aggregate_def Let_def)

lemma aggregate_within:
  assumes "probe_within n m" "m_timenow m \<noteq> 0"
  shows "probe_within n (aggregate t m)"
proof (cases "sint (m_SuppressProbes m - t) \<ge> 0 \<and> 0 \<le> sint (NonZeroTime t - m_timenow m)")
  case True
  have x: "m_SuppressProbes m \<noteq> 0" "0 \<le> sint (m_SuppressProbes m - m_timenow m)" "sint (m_SuppressProbes m - m_timenow m) \<le> n"
    using assms(1) by (simp_all add: probe_within_def)
  have "sint (NonZeroTime t - m_timenow m) \<le> sint (m_SuppressProbes m - m_timenow m)"
  proof (cases "t = 0")
    case False
    then show ?thesis using True later_of [OF x(2), of t] by (simp add: NonZeroTime_def)
  next
    case t: True
    have "sint (m_SuppressProbes m) > 0" using True t x(1)
      by (metis diff_zero order_le_less signed_0 signed_eq_0_iff)
    then have "sint (m_SuppressProbes m - 1) = sint (m_SuppressProbes m) - 1"
      using sint_range(2) [of "m_SuppressProbes m"] by (subst sint_diff) simp_all
    then show ?thesis
      using True t x(2) later_of [OF x(2), of 1] \<open>sint (m_SuppressProbes m) > 0\<close> by (simp add: NonZeroTime_def)
  qed
  then show ?thesis using True x assms(2) by (auto simp: probe_within_def aggregate_def Let_def NonZeroTime_def)
next
  case False
  then show ?thesis using assms order_trans [of 0 "sint (m_SuppressProbes m - m_timenow m)" n]
    by (auto simp: probe_within_def aggregate_def Let_def)
qed

lemma random_probe_time_some:
  assumes "m_timenow m \<noteq> 0"
  shows "\<exists>m'. random_probe_time platform m = Some m' \<and> probe_within 257 m'
    \<and> (\<exists>st sp. m' = m\<lparr>m_random := st, m_SuppressProbes := sp\<rparr>)"
proof -
  obtain r seed where r: "mDNSRandom platform 128 (m_random m) = Some (r, Some seed)" "r \<le> 128"
    using mDNSRandom_some by blast
  have "uint (128 + r) = 128 + uint r" "uint r \<le> 128"
    using r(2) by (simp_all add: word_le_def uint_word_ariths)
  then have s: "sint (128 + r) = 128 + uint r" "uint r \<le> 128" by (simp_all add: sint_uint signed_take_bit_int_eq_self)
  have "sint (NonZeroTime (m_timenow m + 128 + r) - m_timenow m) \<in> {128 + uint r, 129 + uint r}"
  proof (cases "m_timenow m + 128 + r = 0")
    case True
    then have "NonZeroTime (m_timenow m + 128 + r) - m_timenow m = (128 + r) + 1"
      by (simp add: NonZeroTime_def algebra_simps)
    then show ?thesis using s sint_succ [of "128 + r"] by simp
  qed (use s in \<open>simp add: NonZeroTime_def algebra_simps\<close>)
  moreover have "NonZeroTime t \<noteq> 0" for t by (simp add: NonZeroTime_def)
  ultimately show ?thesis using r(1) s(2) uint_ge_0 [of r] by (auto simp: random_probe_time_def probe_within_def intervals)
qed

lemma random_probe_time_fields:
  "random_probe_time platform m = Some m' \<Longrightarrow> \<exists>st sp. m' = m\<lparr>m_random := st, m_SuppressProbes := sp\<rparr>"
  by (auto simp: random_probe_time_def)

text \<open>A time that is not within 257 ticks of half the clock either comes before the next probes or delays them.\<close>

lemma sending_later:
  assumes "0 \<le> sint x" "sint x \<le> 257" "257 - 2 ^ 31 < sint s" "sint (x - s) < 0"
  shows "sint x < sint (s :: s32)"
proof -
  have "sint (x - s) = sint x - sint s" if "sint s \<le> sint x"
    using assms that by (intro sint_diff) simp_all
  then show ?thesis using assms(4) by (cases "sint s \<le> sint x") simp_all
qed

definition probe_bound :: "mdns \<Rightarrow> int" where
  "probe_bound m = (if m_SuppressSending m = 0 then 257 else 8192)"

lemma set_suppress_probes_some:
  assumes now: "m_timenow m \<noteq> 0" and unset: "m_SuppressProbes m = 0 \<or> sint (m_SuppressProbes m - m_timenow m) < 0"
    and sending: "m_SuppressSending m \<noteq> 0 \<Longrightarrow> 257 - 2 ^ 31 < sint (m_SuppressSending m - m_timenow m)"
  shows "\<exists>m' st sp. set_suppress_probes platform m = Some m' \<and> probe_within (probe_bound m) m'
    \<and> m' = m\<lparr>m_random := st, m_SuppressProbes := sp\<rparr>"
proof -
  obtain m1 st sp where m1: "random_probe_time platform m = Some m1" "probe_within 257 m1" "m1 = m\<lparr>m_random := st, m_SuppressProbes := sp\<rparr>"
    using random_probe_time_some [OF now, of platform] by blast
  define m2 where "m2 = aggregate (m_NextScheduledQuery m) (aggregate (m_NextScheduledProbe m) m1)"
  have m2: "probe_within 257 m2" using m1 now by (simp add: m2_def aggregate_within)
  have f2: "\<exists>sp. m2 = m\<lparr>m_random := st, m_SuppressProbes := sp\<rparr>"
    unfolding m2_def by (subst aggregate_eq, subst aggregate_eq) (auto simp: m1(3))
  define m3 where "m3 = (if m_SuppressSending m \<noteq> 0 \<and> sint (m_SuppressProbes m2 - m_SuppressSending m) < 0
    then m2\<lparr>m_SuppressProbes := NonZeroTime (m_SuppressSending m)\<rparr> else m2)"
  have now2: "m_timenow m2 = m_timenow m" using f2 by auto
  have f3: "\<exists>sp. m3 = m\<lparr>m_random := st, m_SuppressProbes := sp\<rparr>" using f2 by (auto simp: m3_def)
  have eq: "set_suppress_probes platform m = (if sint (m_SuppressProbes m3 - m_timenow m3) > sint (mDNSPlatformOneSecond * 8)
      then random_probe_time platform m3 else Some m3)"
    using unset by (simp add: set_suppress_probes_def m1(1) m3_def m2_def Let_def) (simp add: m1(3))
  have s8: "sint (mDNSPlatformOneSecond * 8) = 8192" by (simp add: mDNSPlatformOneSecond_def)
  have "m_SuppressProbes m3 \<noteq> 0 \<and> 0 \<le> sint (m_SuppressProbes m3 - m_timenow m3)
    \<and> (m_SuppressSending m = 0 \<longrightarrow> sint (m_SuppressProbes m3 - m_timenow m3) \<le> 257)"
  proof (cases "m_SuppressSending m \<noteq> 0 \<and> sint (m_SuppressProbes m2 - m_SuppressSending m) < 0")
    case True
    then have "sint ((m_SuppressProbes m2 - m_timenow m) - (m_SuppressSending m - m_timenow m)) < 0" by simp
    then have "sint (m_SuppressProbes m2 - m_timenow m) < sint (m_SuppressSending m - m_timenow m)"
      using m2 sending now2 True by (intro sending_later) (simp_all add: probe_within_def)
    then show ?thesis using True m2 now2 by (simp add: m3_def NonZeroTime_def probe_within_def)
  next
    case False
    then have "m3 = m2" by (simp only: m3_def if_False)
    then show ?thesis using m2 by (simp add: probe_within_def)
  qed
  moreover have "m_timenow m3 \<noteq> 0" using f3 now by auto
  ultimately show ?thesis
  proof (cases "sint (m_SuppressProbes m3 - m_timenow m3) > 8192")
    case True
    then have "set_suppress_probes platform m = random_probe_time platform m3" by (simp add: eq s8)
    moreover obtain m4 st4 sp4 where m4: "random_probe_time platform m3 = Some m4" "probe_within 257 m4"
        "m4 = m3\<lparr>m_random := st4, m_SuppressProbes := sp4\<rparr>"
      using random_probe_time_some [OF \<open>m_timenow m3 \<noteq> 0\<close>, of platform] by blast
    moreover have "m4 = m\<lparr>m_random := st4, m_SuppressProbes := sp4\<rparr>" using f3 m4(3) by auto
    moreover have "probe_within (probe_bound m) m4" using m4(2) by (auto simp: probe_bound_def probe_within_def)
    ultimately show ?thesis by metis
  qed (use f3 in \<open>auto simp: eq s8 probe_within_def probe_bound_def\<close>)
qed

text \<open>A record that has no special rules and has yet to be probed\<close>

definition probing_record :: "mdns \<Rightarrow> auth_record \<Rightarrow> bool" where
  "probing_record m r \<longleftrightarrow> ar_ProbeCount r \<noteq> 0 \<and> rr_RecordType (ar_resrec r) = kDNSRecordTypeUnique
    \<and> ar_AddressProxy_type r = 0 \<and> (ar_HMAC r = 0 \<or> m_KnownBugs m AND 1 = 0)"

lemma next_probe_time:
  assumes "0 \<le> sint (due - n)"
  shows "\<exists>t. (if sint ((if sint (a - due) \<ge> 0 then due else a) - n) < 0 then n else (if sint (a - due) \<ge> 0 then due else a)) = t
    \<and> 0 \<le> sint (t - n) \<and> sint (t - n) \<le> sint (due - (n :: s32))"
  using assms later_of [of a n due] by (auto simp: not_le not_less)

lemma InitializeLastAPTime_some:
  assumes r: "m_auth m p = Some r" "probing_record m r"
    and s: "set_suppress_probes platform m = Some m1" "m1 = m\<lparr>m_random := st, m_SuppressProbes := sp\<rparr>"
  shows "InitializeLastAPTime platform m p = SetNextAnnounceProbeTime
    (set_auth p (r\<lparr>ar_ThisAPInterval := 256, ar_LastAPTime := sp - 256, ar_LastMCTime := m_timenow m, ar_LastMCInterface := mDNSInterfaceMark\<rparr>) m1)
    (r\<lparr>ar_ThisAPInterval := 256, ar_LastAPTime := sp - 256, ar_LastMCTime := m_timenow m, ar_LastMCInterface := mDNSInterfaceMark\<rparr>)"
proof -
  have "DefaultAPIntervalForRecordType kDNSRecordTypeUnique = 256"
    by (simp add: DefaultAPIntervalForRecordType_def record_types intervals)
  then show ?thesis using assms by (auto simp: InitializeLastAPTime_def probing_record_def Let_def)
qed

end
