(* ===== verification/Mdns_Conflict_Props.thy ===== *)
theory Mdns_Conflict_Props imports Mdns_Conflict Mdns_Probe_Props Dnssec_Nsec_Props begin

text \<open>
  The tie-break between two hosts is a linear order of class, type and data, and the loser probes again after
  a second.
\<close>

section \<open>The order of the records\<close>

text \<open>The bytes that are compared, none when the data does not fit\<close>

definition sent :: "resource_record \<Rightarrow> bytes option" where
  "sent rr = do { (d, r) \<leftarrow> put_256 rr; Some (case r of None \<Rightarrow> [] | Some n \<Rightarrow> take n d) }"

definition probe_key :: "resource_record \<Rightarrow> bytes \<Rightarrow> nat list" where
  "probe_key rr d = unat (rr_rrclass rr) # unat (rr_rrtype rr) # map unat d"

lemma compare_sent_order: "compare_sent a b = three_way (map unat a) (map unat b)"
proof (induction a b rule: compare_sent.induct)
  case (1 our pkt)
  show ?case
  proof (cases our; cases pkt)
    fix x xs y ys assume e: "our = x # xs" "pkt = y # ys"
    show ?thesis
    proof (cases "x = y")
      case True
      then show ?thesis using 1 e by (subst compare_sent.simps) (simp add: three_way_Cons)
    next
      case False
      then show ?thesis by (subst compare_sent.simps) (auto simp: e three_way_Cons three_way_def word_less_nat_alt word_unat_eq_iff)
    qed
  qed (subst compare_sent.simps, simp add: three_way_Nil)+
qed

lemma CompareRData_order:
  "sent a = Some da \<Longrightarrow> sent b = Some db \<Longrightarrow> CompareRData a b = Some (three_way (map unat da) (map unat db))"
  by (auto simp: CompareRData_def sent_def compare_sent_order)

lemma sgn_diff: "sgn (int m - int n) = three_way m n"
  by (simp add: three_way_def sgn_if)

lemma sgn_three_way: "sgn (three_way x y) = three_way x y"
  by (simp add: three_way_def)

lemma tie_break_nats:
  assumes "tie_break a b = Some x" "CompareRData a b = Some (three_way d d')"
    "c = unat (rr_rrclass a)" "c' = unat (rr_rrclass b)" "t = unat (rr_rrtype a)" "t' = unat (rr_rrtype b)"
  shows "x = (if c = c' then if t = t' then three_way d d' else int t - int t' else int c - int c')"
  using assms(1) unfolding tie_break_def assms(2) Let_def assms(3-6) [symmetric] by (auto split: if_splits)

lemma tie_break_some: "CompareRData a b = Some x \<Longrightarrow> \<exists>y. tie_break a b = Some y"
  unfolding tie_break_def Let_def by (simp split: if_split)

lemma tie_break_key:
  assumes "sent a = Some da" "sent b = Some db"
  shows "\<exists>x. tie_break a b = Some x \<and> tie_break b a = Some (- x) \<and> sgn x = three_way (probe_key a da) (probe_key b db)"
proof -
  note ab = CompareRData_order [OF assms] and ba = CompareRData_order [OF assms(2,1)]
  obtain x y where x: "tie_break a b = Some x" and y: "tie_break b a = Some y"
    using tie_break_some [OF ab] tie_break_some [OF ba] by blast
  note nx = tie_break_nats [OF x ab refl refl refl refl] and ny = tie_break_nats [OF y ba refl refl refl refl]
  have "y = - x" unfolding nx ny by (auto simp only: three_way_sym [of "map unat da"] split: if_split)
  moreover have "sgn x = three_way (probe_key a da) (probe_key b db)"
    unfolding nx probe_key_def three_way_Cons by (simp only: sgn_diff sgn_three_way split: if_split) simp
  ultimately show ?thesis using x y by blast
qed

lemma sent_too_long:
  assumes "rr_rrtype rr = kDNSType_TXT" "256 < unat (rr_rdlength rr)"
  shows "sent rr = Some []"
  using assms by (simp add: sent_def put_256_def putRData_def put_raw_def type_lists ptr_types_def Let_def)

text \<open>
  The order of RFC 6762: by class, then by type, then by the bytes of the data, unsigned and from the first one on,
  where data that ends first is earlier.
\<close>

definition earlier :: "resource_record \<Rightarrow> resource_record \<Rightarrow> bool" where
  "earlier a b \<longleftrightarrow> rr_rrclass a < rr_rrclass b \<or> rr_rrclass a = rr_rrclass b \<and> (rr_rrtype a < rr_rrtype b
     \<or> rr_rrtype a = rr_rrtype b \<and> (\<exists>da db. sent a = Some da \<and> sent b = Some db \<and> (da, db) \<in> lexord {(x, y). x < y}))"

lemma lexord_unat: "(map unat xs, map unat ys) \<in> lexord {(x, y). x < y} \<longleftrightarrow> (xs, ys) \<in> lexord {(x, y :: u8). x < y}"
proof (induction xs arbitrary: ys)
  case Nil
  then show ?case by (cases ys) simp_all
next
  case (Cons x xs)
  then show ?case by (cases ys) (simp_all add: word_less_nat_alt word_unat_eq_iff)
qed

lemma three_way_neg: "three_way (map unat xs) (map unat ys) < 0 \<longleftrightarrow> (xs, ys) \<in> lexord {(x, y :: u8). x < y}"
  using lexord_unat [of xs ys] by (simp add: three_way_def list_less_def)

lemma CompareRData_sent: "CompareRData a b = Some x \<Longrightarrow> \<exists>da db. sent a = Some da \<and> sent b = Some db"
  by (auto simp: CompareRData_def sent_def)

lemma tie_break_earlier:
  assumes "tie_break a b = Some x"
  shows "x < 0 \<longleftrightarrow> earlier a b"
proof -
  consider "rr_rrclass a \<noteq> rr_rrclass b" | "rr_rrclass a = rr_rrclass b" "rr_rrtype a \<noteq> rr_rrtype b"
    | "rr_rrclass a = rr_rrclass b" "rr_rrtype a = rr_rrtype b" by blast
  then show ?thesis
  proof cases
    case 3
    then have c: "CompareRData a b = Some x" using assms by (simp add: tie_break_def)
    then obtain da db where s: "sent a = Some da" "sent b = Some db" using CompareRData_sent by blast
    then have "x = three_way (map unat da) (map unat db)" using CompareRData_order c by simp
    then show ?thesis using 3 s three_way_neg [of da db] by (simp add: earlier_def)
  qed (use assms in \<open>auto simp: tie_break_def earlier_def Let_def word_less_def word_uint_eq_iff split: if_splits\<close>)
qed

section \<open>Giving way\<close>

text \<open>The record \<open>rec\<close> of a packet answers the probe, conflicts with our record \<open>r\<close> at \<open>our\<close>, and is the later one.\<close>

definition wins_against :: "mdns \<Rightarrow> question \<Rightarrow> nat \<Rightarrow> auth_record \<Rightarrow> resource_record \<Rightarrow> bool" where
  "wins_against m q our r rec \<longleftrightarrow> rr_RecordType rec \<noteq> kDNSRecordTypePacketNegative \<and> ResourceRecordAnswersQuestion rec q = Some True
     \<and> PacketRRConflict m our rec = Some True \<and> earlier (ar_resrec r) rec"

lemma loses_to_wins:
  assumes "m_auth m our = Some r" "loses_to m q our rec \<noteq> None"
  shows "loses_to m q our rec = Some True \<longleftrightarrow> wins_against m q our r rec"
  using assms tie_break_earlier [of "ar_resrec r" rec]
  by (auto simp: loses_to_def wins_against_def and_then_def split: option.splits if_splits bind_splits)

section \<open>The packet\<close>

text \<open>The records of the authority section as the loop reads them\<close>

fun read_records :: "nat \<Rightarrow> bytes \<Rightarrow> nat option \<Rightarrow> nat \<Rightarrow> u64 \<Rightarrow> resource_record \<Rightarrow> (resource_record list) option" where
  "read_records 0 msg ptr e iface rec = Some []"
| "read_records (Suc n) msg ptr e iface rec = do {
     (rec, ptr) \<leftarrow> GetLargeResourceRecord msg ptr e iface 0xA0 rec;
     if ptr = None then Some []
     else map_option (\<lambda>rs. rec # rs) (read_records n msg ptr e iface (rec\<lparr>rr_RecordType := 0\<rparr>))
   }"

definition authorities :: "bytes \<Rightarrow> nat \<Rightarrow> u64 \<Rightarrow> resource_record \<Rightarrow> (resource_record list) option" where
  "authorities msg e iface rec = do {
     ptr \<leftarrow> LocateAuthorities msg e;
     n \<leftarrow> get_count msg h_numAuthorities;
     read_records (unat n) msg ptr e iface rec
   }"

definition deferred :: "mdns \<Rightarrow> nat \<Rightarrow> mdns \<Rightarrow> bool" where
  "deferred m our m' \<longleftrightarrow> (\<exists>r. m_auth m' our = Some r \<and> ar_ProbeCount r = 3 \<and> ar_AnnounceCount r = 8
      \<and> m_SuppressProbes m' = ar_LastAPTime r + ar_ThisAPInterval r
      \<and> sint (ar_LastAPTime r + ar_ThisAPInterval r - m_timenow m) \<in> {1024, 1025})
    \<and> (\<forall>p. p \<noteq> our \<longrightarrow> m_auth m' p = m_auth m p)
    \<and> m_ResourceRecords m' = m_ResourceRecords m \<and> m_DuplicateRecords m' = m_DuplicateRecords m"

lemma SetNextAnnounceProbeTime_unique:
  assumes "rr_RecordType (ar_resrec r) = kDNSRecordTypeUnique"
  shows "\<exists>t. SetNextAnnounceProbeTime m r = Some (m\<lparr>m_NextScheduledProbe := t\<rparr>)"
proof -
  have "\<exists>t. m = m\<lparr>m_NextScheduledProbe := t\<rparr>" by (rule exI [of _ "m_NextScheduledProbe m"]) simp
  then show ?thesis using assms by (auto simp: SetNextAnnounceProbeTime_def Let_def)
qed

lemma one_second: "sint (NonZeroTime (n + 1024) - n) \<in> {1024, 1025}" for n :: s32
proof (cases "n + 1024 = 0")
  case True
  then have "n = - 1024" by (simp add: eq_neg_iff_add_eq_0)
  then show ?thesis by (simp add: NonZeroTime_def)
qed (simp add: NonZeroTime_def)

lemma probe_again_deferred:
  assumes "m_auth m our = Some r" "probing_record m r"
  shows "\<exists>m'. probe_again platform m our = Some m' \<and> deferred m our m'"
proof -
  define t where "t = NonZeroTime (m_timenow m + 1024)"
  have t: "t \<noteq> 0" "sint (t - m_timenow m) \<in> {1024, 1025}" using one_second by (auto simp: t_def NonZeroTime_def)
  define r1 where "r1 = r\<lparr>ar_ProbeCount := 3, ar_AnnounceCount := 8\<rparr>"
  define m1 where "m1 = set_auth our r1 (m\<lparr>m_SuppressProbes := t\<rparr>)"
  have e: "probe_again platform m our = InitializeLastAPTime platform m1 our"
    using assms(1) by (simp add: probe_again_def m1_def r1_def t_def mDNSPlatformOneSecond_def DefaultProbeCountForTypeUnique_def
        InitialAnnounceCount_def)
  have p: "m_auth m1 our = Some r1" "probing_record m1 r1"
    using assms(2) by (simp_all add: m1_def r1_def set_auth_def probing_record_def)
  have "set_suppress_probes platform m1 = Some m1"
    using t by (auto simp: set_suppress_probes_def m1_def set_auth_def)
  moreover have "m1 = m1\<lparr>m_random := m_random m1, m_SuppressProbes := t\<rparr>" by (simp add: m1_def set_auth_def)
  moreover define r2 where "r2 = r1\<lparr>ar_ThisAPInterval := 256, ar_LastAPTime := t - 256, ar_LastMCTime := m_timenow m1, ar_LastMCInterface := mDNSInterfaceMark\<rparr>"
  ultimately have "InitializeLastAPTime platform m1 our = SetNextAnnounceProbeTime (set_auth our r2 m1) r2"
    using InitializeLastAPTime_some [OF p] by blast
  moreover have "rr_RecordType (ar_resrec r2) = kDNSRecordTypeUnique"
    using assms(2) by (simp add: r2_def r1_def probing_record_def)
  ultimately obtain t' where m': "probe_again platform m our = Some (set_auth our r2 m1\<lparr>m_NextScheduledProbe := t'\<rparr>)"
    using SetNextAnnounceProbeTime_unique e by metis
  have "deferred m our (set_auth our r2 m1\<lparr>m_NextScheduledProbe := t'\<rparr>)"
    using t(2) by (simp add: deferred_def set_auth_def m1_def r2_def r1_def)
  then show ?thesis using m' by blast
qed

lemma probe_loop_records:
  assumes "read_records n msg ptr e (q_InterfaceID q) rec = Some rs" "\<forall>r\<in>set rs. loses_to m q our r \<noteq> None"
    and "\<exists>r. probe_again platform m our = Some r"
  shows "\<exists>rec'. probe_loop platform n m msg ptr e q our rec =
    map_option (\<lambda>m'. (m', rec')) (if \<exists>r\<in>set rs. loses_to m q our r = Some True then probe_again platform m our else Some m)"
  using assms(1,2)
proof (induction n arbitrary: ptr rec rs)
  case (Suc n)
  obtain r ptr' where g: "GetLargeResourceRecord msg ptr e (q_InterfaceID q) 0xA0 rec = Some (r, ptr')"
    using Suc.prems(1) by auto
  show ?case
  proof (cases ptr')
    case None
    then show ?thesis using Suc.prems(1) g by auto
  next
    case (Some p)
    then obtain rs' where rs: "read_records n msg ptr' e (q_InterfaceID q) (r\<lparr>rr_RecordType := 0\<rparr>) = Some rs'" "rs = r # rs'"
      using Suc.prems(1) g by auto
    then obtain b where b: "loses_to m q our r = Some b" using Suc.prems(2) by auto
    show ?thesis
    proof (cases b)
      case True
      then show ?thesis using assms(3) g b rs(2) Some by (auto intro!: exI [of _ r])
    next
      case False
      then show ?thesis using Suc.IH [OF rs(1)] Suc.prems(2) rs(2) g b Some by auto
    qed
  qed
qed auto

end
