(* ===== verification/Mdns_Keepalive.thy ===== *)
theory Mdns_Keepalive imports Mdns_Conflict begin

text \<open>
  mDNS.c: the text of a keepalive record, which a sleep proxy gets from its clients over the network.  An
  address has the 16 bytes of the union in \<open>mDNSAddr\<close>; a store behind them is outside of the variable.
  The local array \<open>v6addr\<close> starts with any bytes.
\<close>

section \<open>Numbers and addresses\<close>

abbreviation is_digit :: "u8 \<Rightarrow> bool" where "is_digit c \<equiv> 0x30 \<le> c \<and> c \<le> 0x39"

definition HexVal :: "u8 \<Rightarrow> u32 option" where
  "HexVal x =
     (if is_digit x then Some (ucast (x - 0x30))
      else if 0x41 \<le> x \<and> x \<le> 0x46 then Some (ucast (x - 0x41) + 10)
      else if 0x61 \<le> x \<and> x \<le> 0x66 then Some (ucast (x - 0x61) + 10)
      else None)"

text \<open>Results: the address afterwards and where the text goes on, or NULL.\<close>

function ipv4_loop :: "bytes \<Rightarrow> nat \<Rightarrow> nat \<Rightarrow> bytes \<Rightarrow> u32 \<Rightarrow> nat \<Rightarrow> (bytes \<times> nat option) option" where
  "ipv4_loop mem p limit b v dots =
     (if p < limit \<and> read_byte mem p \<noteq> Some 0x20 then
        (case read_byte mem p of None \<Rightarrow> None | Some c \<Rightarrow>
           if is_digit c then ipv4_loop mem (p + 1) limit b (v * 10 + ucast c - 0x30) dots
           else if c = 0x2E then
             (case set_byte b dots (ucast v) of None \<Rightarrow> None | Some b \<Rightarrow> ipv4_loop mem (p + 1) limit b 0 (dots + 1))
           else if c = 0 \<and> p = limit - 1 \<and> dots = 3 then map_option (\<lambda>b. (b, Some (p + 1))) (set_byte b dots (ucast v))
           else Some (b, None))
      else if dots \<noteq> 3 then Some (b, None)
      else map_option (\<lambda>b. (b, Some p)) (set_byte b dots (ucast v)))"
  by pat_completeness auto

termination ipv4_loop
  by (relation "measure (\<lambda>(mem, p, limit, b, v, dots). limit - p)") auto

declare ipv4_loop.simps [simp del]

definition GetValueForIPv4Addr :: "bytes \<Rightarrow> nat \<Rightarrow> nat \<Rightarrow> bytes \<Rightarrow> (bytes \<times> nat option) option" where
  "GetValueForIPv4Addr mem p limit v4 = ipv4_loop mem p limit v4 0 0"

record ipv6_state =
  s_value :: u32
  s_numBytes :: nat
  s_digitsProcessed :: bool
  s_zeroFillStart :: nat
  s_numColons :: nat
  s_v6addr :: bytes

definition add_group :: "ipv6_state \<Rightarrow> ipv6_state option" where
  "add_group s = do {
     a \<leftarrow> set_byte (s_v6addr s) (s_numBytes s) (ucast (drop_bit 8 (s_value s)));
     a \<leftarrow> set_byte a (s_numBytes s + 1) (ucast (s_value s));
     Some (s\<lparr>s_v6addr := a, s_numBytes := s_numBytes s + 2\<rparr>)
   }"

text \<open>What becomes of a character: an outcome, or a state to go on with\<close>

datatype ipv6_step = V6_Next ipv6_state | V6_Null | V6_Zero

definition space_after :: "bytes \<Rightarrow> nat \<Rightarrow> nat \<Rightarrow> bool option" where
  "space_after mem p limit = (if p + 1 < limit then map_option (\<lambda>c. c = 0x20) (read_byte mem (p + 1)) else Some False)"

definition ipv6_colon :: "bytes \<Rightarrow> nat \<Rightarrow> nat \<Rightarrow> ipv6_state \<Rightarrow> ipv6_step option" where
  "ipv6_colon mem p limit s =
     (if \<not> s_digitsProcessed s then
        if s_numColons s \<noteq> 0 then do {
          z \<leftarrow> (if s_numBytes s = 0 then space_after mem p limit else Some False);
          Some (if z then V6_Zero else V6_Null)
        }
        else Some (V6_Next (s\<lparr>s_zeroFillStart := s_numBytes s, s_numColons := s_numColons s + 1\<rparr>))
      else do {
        trailing \<leftarrow> space_after mem p limit;
        if trailing then Some V6_Null
        else if s_numBytes s > 13 then Some V6_Null
        else do {
          s \<leftarrow> add_group s;
          let s = s\<lparr>s_digitsProcessed := False, s_value := 0\<rparr>;
          Some (if s_numBytes s > 14 then V6_Null else V6_Next s)
        }
      })"

definition ipv6_char :: "bytes \<Rightarrow> nat \<Rightarrow> nat \<Rightarrow> u8 \<Rightarrow> ipv6_state \<Rightarrow> ipv6_step option" where
  "ipv6_char mem p limit c s =
     (case HexVal c of
        Some h \<Rightarrow> Some (V6_Next (s\<lparr>s_value := push_bit 4 (s_value s) OR h, s_digitsProcessed := True\<rparr>))
      | None \<Rightarrow> if c = 0x3A then ipv6_colon mem p limit s else Some (V6_Next s))"

text \<open>The bytes of the array between \<open>i\<close> and \<open>j\<close>\<close>

definition segment :: "bytes \<Rightarrow> nat \<Rightarrow> nat \<Rightarrow> bytes option" where
  "segment a i j = read_bytes a i (j - i)"

definition ipv6_end :: "nat \<Rightarrow> ipv6_state \<Rightarrow> bytes \<Rightarrow> (bytes \<times> nat option) option" where
  "ipv6_end p s v6 =
     (if \<not> s_digitsProcessed s then Some (v6, None)
      else if s_numBytes s > 14 then Some (v6, None)
      else do {
        s \<leftarrow> add_group s;
        if s_zeroFillStart s \<noteq> 0 then do {
          front \<leftarrow> segment (s_v6addr s) 0 (s_zeroFillStart s);
          back \<leftarrow> segment (s_v6addr s) (s_zeroFillStart s) (s_numBytes s);
          Some (front @ replicate (16 - s_numBytes s) 0 @ back, Some p)
        }
        else if s_numBytes s = 16 then Some (s_v6addr s, Some p)
        else Some (v6, None)
      })"

function ipv6_loop :: "bytes \<Rightarrow> nat \<Rightarrow> nat \<Rightarrow> ipv6_state \<Rightarrow> bytes \<Rightarrow> (bytes \<times> nat option) option" where
  "ipv6_loop mem p limit s v6 =
     (if p < limit \<and> read_byte mem p \<noteq> Some 0x20 then
        (case read_byte mem p of None \<Rightarrow> None | Some c \<Rightarrow>
          (case ipv6_char mem p limit c s of
             None \<Rightarrow> None
           | Some V6_Null \<Rightarrow> Some (v6, None)
           | Some V6_Zero \<Rightarrow> Some (replicate 16 0, Some (p + 1))
           | Some (V6_Next s) \<Rightarrow> ipv6_loop mem (p + 1) limit s v6))
      else ipv6_end p s v6)"
  by pat_completeness auto

termination ipv6_loop
  by (relation "measure (\<lambda>(mem, p, limit, s, v6). limit - p)") auto

declare ipv6_loop.simps [simp del]

definition GetValueForIPv6Addr :: "bytes \<Rightarrow> bytes \<Rightarrow> nat \<Rightarrow> nat \<Rightarrow> bytes \<Rightarrow> (bytes \<times> nat option) option" where
  "GetValueForIPv6Addr v6addr mem p limit v6 =
     ipv6_loop mem p limit \<lparr>s_value = 0, s_numBytes = 0, s_digitsProcessed = False, s_zeroFillStart = 0, s_numColons = 0, s_v6addr = v6addr\<rparr> v6"

function number_loop :: "bytes \<Rightarrow> nat \<Rightarrow> nat \<Rightarrow> u32 \<Rightarrow> u32 \<Rightarrow> (u32 \<times> nat option) option" where
  "number_loop mem p limit v old =
     (if p < limit \<and> read_byte mem p \<noteq> Some 0x20 then
        (case read_byte mem p of None \<Rightarrow> None | Some c \<Rightarrow>
           if is_digit c then number_loop mem (p + 1) limit (v * 10 + ucast c - 0x30) old
           else if c = 0 \<and> p = limit - 1 then Some (v, Some (p + 1))
           else Some (old, None))
      else Some (v, Some p))"
  by pat_completeness auto

termination number_loop
  by (relation "measure (\<lambda>(mem, p, limit, v, old). limit - p)") auto

declare number_loop.simps [simp del]

text \<open>A NULL pointer is less than \<open>limit\<close> and followed; \<open>old\<close> is what \<open>value\<close> held before.\<close>

definition GetValueForKeepalive :: "bytes \<Rightarrow> nat option \<Rightarrow> nat \<Rightarrow> u32 \<Rightarrow> (u32 \<times> nat option) option" where
  "GetValueForKeepalive mem ptr limit old =
     (case ptr of None \<Rightarrow> None | Some p \<Rightarrow> number_loop mem p limit 0 old)"

section \<open>The whole record\<close>

datatype addr_type = mDNSAddrType_None | mDNSAddrType_IPv4 | mDNSAddrType_IPv6

record mdns_addr =
  addr_type :: addr_type
  addr_ip :: bytes

record keepalive =
  ka_timeout :: u32
  ka_laddr :: mdns_addr
  ka_raddr :: mdns_addr
  ka_seq :: u32
  ka_ack :: u32
  ka_lport :: u16
  ka_rport :: u16
  ka_win :: u16

text \<open>The bytes of \<open>value\<close> from the low one on, put together in the other order\<close>

definition swap_low16 :: "u32 \<Rightarrow> u16" where
  "swap_low16 v = push_bit 8 (ucast (v AND 0xFF)) OR ucast (drop_bit 8 v AND 0xFF)"

definition swap_all32 :: "u32 \<Rightarrow> u32" where
  "swap_all32 v = push_bit 24 (v AND 0xFF) OR push_bit 16 (drop_bit 8 v AND 0xFF) OR push_bit 8 (drop_bit 16 v AND 0xFF) OR drop_bit 24 v"

text \<open>The addresses of the letters h and d, before the test for the letter H\<close>

definition ka_ipv4 :: "u8 \<Rightarrow> bytes \<Rightarrow> nat \<Rightarrow> nat \<Rightarrow> keepalive \<Rightarrow> (keepalive \<times> nat option) option" where
  "ka_ipv4 param mem p limit ka =
     (if param = 0x68 then do {
        (ip, r) \<leftarrow> GetValueForIPv4Addr mem p limit (addr_ip (ka_laddr ka));
        Some (ka\<lparr>ka_laddr := \<lparr>addr_type = mDNSAddrType_IPv4, addr_ip = ip\<rparr>\<rparr>, r)
      }
      else if param = 0x64 then do {
        (ip, r) \<leftarrow> GetValueForIPv4Addr mem p limit (addr_ip (ka_raddr ka));
        Some (ka\<lparr>ka_raddr := \<lparr>addr_type = mDNSAddrType_IPv4, addr_ip = ip\<rparr>\<rparr>, r)
      }
      else Some (ka, Some p))"

definition ka_others :: "bytes \<Rightarrow> u8 \<Rightarrow> bytes \<Rightarrow> nat option \<Rightarrow> nat \<Rightarrow> keepalive \<Rightarrow> u32 \<Rightarrow> (keepalive \<times> u32 \<times> nat option) option" where
  "ka_others v6addr param mem ptr limit ka v =
     (if param = 0x48 then do {
        p \<leftarrow> ptr;
        (ip, r) \<leftarrow> GetValueForIPv6Addr v6addr mem p limit (addr_ip (ka_laddr ka));
        Some (ka\<lparr>ka_laddr := \<lparr>addr_type = mDNSAddrType_IPv6, addr_ip = ip\<rparr>\<rparr>, v, r)
      }
      else if param = 0x44 then do {
        p \<leftarrow> ptr;
        (ip, r) \<leftarrow> GetValueForIPv6Addr v6addr mem p limit (addr_ip (ka_raddr ka));
        Some (ka\<lparr>ka_raddr := \<lparr>addr_type = mDNSAddrType_IPv6, addr_ip = ip\<rparr>\<rparr>, v, r)
      }
      else do { (v, r) \<leftarrow> GetValueForKeepalive mem ptr limit v; Some (ka, v, r) })"

text \<open>The value is stored; an unknown letter ends the loop.\<close>

definition ka_store :: "u8 \<Rightarrow> u32 \<Rightarrow> nat \<Rightarrow> nat \<Rightarrow> keepalive \<Rightarrow> keepalive \<times> u32 \<times> nat" where
  "ka_store param v p limit ka =
     (if param = 0x74 then (ka\<lparr>ka_timeout := v\<rparr>, v, p)
      else if param \<in> {0x68, 0x48, 0x64, 0x44} then (ka, v, p)
      else if param = 0x6C then (ka\<lparr>ka_lport := swap_low16 v\<rparr>, v, p)
      else if param = 0x72 then (ka\<lparr>ka_rport := swap_low16 v\<rparr>, v, p)
      else if param = 0x73 then (ka\<lparr>ka_seq := swap_all32 v\<rparr>, swap_all32 v, p)
      else if param = 0x61 then (ka\<lparr>ka_ack := swap_all32 v\<rparr>, swap_all32 v, p)
      else if param = 0x77 then (ka\<lparr>ka_win := swap_low16 v\<rparr>, v, p)
      else (ka, v, limit))"

text \<open>One setting from the letter on: the position behind it, or nothing if it cannot be parsed\<close>

definition ka_setting :: "bytes \<Rightarrow> bytes \<Rightarrow> nat \<Rightarrow> nat \<Rightarrow> keepalive \<Rightarrow> u32 \<Rightarrow> (keepalive \<times> u32 \<times> nat option) option" where
  "ka_setting v6addr mem p limit ka v = do {
     param \<leftarrow> read_byte mem p;
     (ka, ptr) \<leftarrow> ka_ipv4 param mem (p + 2) limit ka;
     (ka, v, ptr) \<leftarrow> ka_others v6addr param mem ptr limit ka v;
     Some (case ptr of
         None \<Rightarrow> (ka, v, None)
       | Some p \<Rightarrow> (case ka_store param v p limit ka of (ka, v, p) \<Rightarrow> (ka, v, Some (p + 1))))
   }"

partial_function (option) keepalive_loop :: "bytes \<Rightarrow> bytes \<Rightarrow> nat \<Rightarrow> nat \<Rightarrow> keepalive \<Rightarrow> u32 \<Rightarrow> keepalive option" where
  "keepalive_loop v6addr mem p limit ka v =
     (if p < limit then
        (case ka_setting v6addr mem p limit ka v of
           None \<Rightarrow> None
         | Some (ka, v, None) \<Rightarrow> Some ka
         | Some (ka, v, Some p) \<Rightarrow> keepalive_loop v6addr mem p limit ka v)
      else Some ka)"

declare keepalive_loop.simps [code]

definition keepalive_label :: bytes where
  "keepalive_label = [10, 0x5F, 0x6B, 0x65, 0x65, 0x70, 0x61, 0x6C, 0x69, 0x76, 0x65]"

definition mDNS_KeepaliveRecord :: "resource_record \<Rightarrow> bool option" where
  "mDNS_KeepaliveRecord rr =
     and_then (Some (rr_rrtype rr = kDNSType_NULL))
       (do { n \<leftarrow> read_byte (rr_name rr) 0; SameDomainLabel (rr_name rr) (1 + unat n) keepalive_label 0 })"

definition mDNS_ExtractKeepaliveInfo :: "bytes \<Rightarrow> u32 \<Rightarrow> auth_record \<Rightarrow> keepalive \<Rightarrow> keepalive option" where
  "mDNS_ExtractKeepaliveInfo v6addr v ar ka =
     (if rr_rrtype (ar_resrec ar) \<noteq> kDNSType_NULL then Some ka
      else do {
        kr \<leftarrow> mDNS_KeepaliveRecord (ar_resrec ar);
        if kr then keepalive_loop v6addr (rr_data (ar_resrec ar)) 1 (unat (rr_rdlength (ar_resrec ar))) ka v else Some ka
      })"

end
