(* ===== verification/Mdns_Keepalive_Props.thy ===== *)
theory Mdns_Keepalive_Props imports Mdns_Keepalive begin

text \<open>
  Where the parsers of a keepalive record stay in memory, and what they read from well-formed text.
\<close>

section \<open>IPv4\<close>

definition span :: "bytes \<Rightarrow> nat \<Rightarrow> nat \<Rightarrow> bytes" where
  "span mem p limit = take (limit - p) (drop p mem)"

lemma span_Cons: "p < limit \<Longrightarrow> limit \<le> length mem \<Longrightarrow> span mem p limit = mem ! p # span mem (Suc p) limit"
  by (simp add: span_def Cons_nth_drop_Suc [symmetric] take_Cons' Suc_diff_Suc)

lemma span_Nil: "limit \<le> p \<Longrightarrow> span mem p limit = []"
  by (simp add: span_def)

definition dotted :: "u8 \<Rightarrow> bool" where "dotted c \<longleftrightarrow> is_digit c \<or> c = 0x2E"

definition dots_in :: "bytes \<Rightarrow> nat" where "dots_in cs = length (filter (\<lambda>c. c = 0x2E) (takeWhile dotted cs))"

lemma dots_in_Cons: "dots_in (c # cs) = (if c = 0x2E then Suc (dots_in cs) else if is_digit c then dots_in cs else 0)"
  by (auto simp: dots_in_def dotted_def)

lemma dots_in_Nil [simp]: "dots_in [] = 0"
  by (simp add: dots_in_def)

lemma ipv4_loop_none_iff:
  "limit \<le> length mem \<Longrightarrow> length b = 16 \<Longrightarrow> dots \<le> 16 \<Longrightarrow>
    ipv4_loop mem p limit b v dots = None \<longleftrightarrow> 16 < dots + dots_in (span mem p limit)"
proof (induction mem p limit b v dots rule: ipv4_loop.induct)
  case (1 mem p limit b v dots)
  show ?case
  proof (cases "p < limit")
    case True
    define c where "c = mem ! p"
    have r: "read_byte mem p = Some c" "span mem p limit = c # span mem (Suc p) limit"
      using True 1(3) by (simp_all add: read_byte_def c_def span_Cons)
    consider "c = 0x20" | "is_digit c" | "c = 0x2E" | "c \<noteq> 0x20" "\<not> is_digit c" "c \<noteq> 0x2E" by blast
    then show ?thesis
    proof cases
      assume "is_digit c"
      then have "c \<noteq> 0x20" "c \<noteq> 0x2E" by auto
      then show ?thesis using 1(1) [OF _ r(1)] True r 1(3-5) \<open>is_digit c\<close> by (subst ipv4_loop.simps) (simp add: dots_in_Cons)
    next
      assume "c = 0x2E"
      then show ?thesis using 1(2) [OF _ r(1)] True r 1(3-5)
        by (subst ipv4_loop.simps) (auto simp: dots_in_Cons set_byte_def)
    qed (use True r 1(3-5) in \<open>subst ipv4_loop.simps, auto simp: dots_in_Cons set_byte_def\<close>)+
  next
    case False
    then show ?thesis using 1(3-5) by (subst ipv4_loop.simps) (auto simp: span_Nil set_byte_def)
  qed
qed

text \<open>The value of a number as the loops compute it\<close>

definition digits_from :: "u32 \<Rightarrow> bytes \<Rightarrow> u32" where
  "digits_from v ds = foldl (\<lambda>v c. v * 10 + ucast c - 0x30) v ds"

fun text_at :: "bytes \<Rightarrow> nat \<Rightarrow> bytes \<Rightarrow> bool" where
  "text_at mem p [] \<longleftrightarrow> True"
| "text_at mem p (c # cs) \<longleftrightarrow> read_byte mem p = Some c \<and> text_at mem (Suc p) cs"

lemma text_at_append: "text_at mem p (xs @ ys) \<longleftrightarrow> text_at mem p xs \<and> text_at mem (p + length xs) ys"
  by (induction xs arbitrary: p) auto

lemma digit_not: "is_digit c \<Longrightarrow> c \<noteq> 0x20 \<and> c \<noteq> 0x2E \<and> c \<noteq> 0x3A \<and> c \<noteq> 0"
  by auto

lemma ipv4_loop_digits:
  "text_at mem p ds \<Longrightarrow> \<forall>c\<in>set ds. is_digit c \<Longrightarrow> p + length ds \<le> limit \<Longrightarrow>
    ipv4_loop mem p limit b v dots = ipv4_loop mem (p + length ds) limit b (digits_from v ds) dots"
proof (induction ds arbitrary: p v)
  case (Cons c ds)
  then have "ipv4_loop mem p limit b v dots = ipv4_loop mem (Suc p) limit b (v * 10 + ucast c - 0x30) dots"
    by (subst ipv4_loop.simps) (auto dest: digit_not)
  then show ?case using Cons by (simp add: digits_from_def)
qed (simp add: digits_from_def)

lemma number_loop_digits:
  "text_at mem p ds \<Longrightarrow> \<forall>c\<in>set ds. is_digit c \<Longrightarrow> p + length ds \<le> limit \<Longrightarrow>
    number_loop mem p limit v old = number_loop mem (p + length ds) limit (digits_from v ds) old"
proof (induction ds arbitrary: p v)
  case (Cons c ds)
  then have "number_loop mem p limit v old = number_loop mem (Suc p) limit (v * 10 + ucast c - 0x30) old"
    by (subst number_loop.simps) (auto dest: digit_not)
  then show ?case using Cons by (simp add: digits_from_def)
qed (simp add: digits_from_def)

lemma ipv4_loop_dot:
  "text_at mem p (ds @ [0x2E]) \<Longrightarrow> \<forall>c\<in>set ds. is_digit c \<Longrightarrow> p + length ds < limit \<Longrightarrow> dots < length b \<Longrightarrow>
    ipv4_loop mem p limit b 0 dots = ipv4_loop mem (Suc (p + length ds)) limit (b[dots := ucast (digits_from 0 ds)]) 0 (Suc dots)"
  by (subst ipv4_loop_digits [of mem p ds limit b 0 dots])
    (auto simp: text_at_append ipv4_loop.simps [of mem "p + length ds"] set_byte_def)

definition stops_at :: "bytes \<Rightarrow> nat \<Rightarrow> nat \<Rightarrow> bool" where
  "stops_at mem p limit \<longleftrightarrow> p = limit \<or> p < limit \<and> read_byte mem p = Some 0x20"

lemma ipv4_loop_quad:
  assumes t: "text_at mem p (d0 @ 0x2E # d1 @ 0x2E # d2 @ 0x2E # d3)" "\<forall>c\<in>set d0 \<union> set d1 \<union> set d2 \<union> set d3. is_digit c"
    and l: "length b = 16" and stop: "stops_at mem q limit" and q: "q = p + length d0 + length d1 + length d2 + length d3 + 3"
  shows "ipv4_loop mem p limit b 0 0 = Some (map (\<lambda>d. ucast (digits_from 0 d)) [d0, d1, d2, d3] @ drop 4 b, Some q)"
proof -
  let ?v = "\<lambda>d. ucast (digits_from 0 d) :: u8"
  let ?p1 = "Suc (p + length d0)" and ?p2 = "Suc (Suc (p + length d0) + length d1)"
  let ?p3 = "Suc (Suc (Suc (p + length d0) + length d1) + length d2)"
  have q3: "q = ?p3 + length d3" "q \<le> limit" using q stop by (auto simp: stops_at_def)
  have "ipv4_loop mem p limit b 0 0 = ipv4_loop mem ?p1 limit (b[0 := ?v d0]) 0 1"
    using t l q3 by (subst ipv4_loop_dot [of mem p d0]) (auto simp: text_at_append)
  also have "\<dots> = ipv4_loop mem ?p2 limit (b[0 := ?v d0, 1 := ?v d1]) 0 2"
    using t l q3 by (subst ipv4_loop_dot [of mem ?p1 d1]) (auto simp: text_at_append numeral_2_eq_2)
  also have "\<dots> = ipv4_loop mem ?p3 limit (b[0 := ?v d0, 1 := ?v d1, 2 := ?v d2]) 0 3"
    using t l q3 by (subst ipv4_loop_dot [of mem ?p2 d2]) (auto simp: text_at_append numeral_3_eq_3)
  also have "\<dots> = ipv4_loop mem q limit (b[0 := ?v d0, 1 := ?v d1, 2 := ?v d2]) (digits_from 0 d3) 3"
    using t q3 by (subst ipv4_loop_digits [of mem ?p3 d3]) (auto simp: text_at_append)
  also have "\<dots> = Some (b[0 := ?v d0, 1 := ?v d1, 2 := ?v d2, 3 := ?v d3], Some q)"
    using stop l by (subst ipv4_loop.simps) (auto simp: stops_at_def set_byte_def)
  also have "b[0 := ?v d0, 1 := ?v d1, 2 := ?v d2, 3 := ?v d3] = map ?v [d0, d1, d2, d3] @ drop 4 b"
  proof -
    obtain x0 x1 x2 x3 bs where "b = x0 # x1 # x2 # x3 # bs"
      using l by (metis (no_types, lifting) length_Suc_conv numeral_eq_Suc pred_numeral_simps(2) pred_numeral_simps(3) BitM.simps)
    then show ?thesis by (simp add: numeral_2_eq_2 numeral_3_eq_3)
  qed
  finally show ?thesis .
qed

section \<open>IPv6\<close>

text \<open>The parser over the characters alone: what is collected is a list, and the array is not seen.\<close>

definition group :: "u32 \<Rightarrow> bytes" where "group v = [ucast (drop_bit 8 v), ucast v]"

definition v6_finish :: "u32 \<Rightarrow> bytes \<Rightarrow> bool \<Rightarrow> nat \<Rightarrow> bytes \<Rightarrow> (bytes \<times> bytes) option" where
  "v6_finish v acc dig z rest =
     (if \<not> dig \<or> length acc > 14 then None
      else if z \<noteq> 0 then Some (take z (acc @ group v) @ replicate (14 - length acc) 0 @ drop z (acc @ group v), rest)
      else if length acc = 14 then Some (acc @ group v, rest)
      else None)"

fun v6_scan :: "bytes \<Rightarrow> u32 \<Rightarrow> bytes \<Rightarrow> bool \<Rightarrow> nat \<Rightarrow> bool \<Rightarrow> (bytes \<times> bytes) option" where
  "v6_scan [] v acc dig z nc = v6_finish v acc dig z []"
| "v6_scan (c # cs) v acc dig z nc =
     (if c = 0x20 then v6_finish v acc dig z (c # cs)
      else
        (case HexVal c of
           Some h \<Rightarrow> v6_scan cs (push_bit 4 v OR h) acc True z nc
         | None \<Rightarrow>
             if c \<noteq> 0x3A then v6_scan cs v acc dig z nc
             else if \<not> dig then
               if nc then if acc = [] \<and> take 1 cs = [0x20] then Some (replicate 16 0, cs) else None
               else v6_scan cs v acc dig (length acc) True
             else if take 1 cs = [0x20] \<or> length acc > 12 then None
             else v6_scan cs 0 (acc @ group v) False z nc))"

definition v6_rel :: "ipv6_state \<Rightarrow> bytes \<Rightarrow> bool" where
  "v6_rel s acc \<longleftrightarrow> length (s_v6addr s) = 16 \<and> s_numBytes s = length acc \<and> length acc \<le> 14 \<and> take (length acc) (s_v6addr s) = acc
    \<and> s_zeroFillStart s \<le> length acc"

lemma add_group_rel:
  assumes "v6_rel s acc"
  shows "\<exists>a. add_group s = Some (s\<lparr>s_v6addr := a, s_numBytes := length acc + 2\<rparr>) \<and> length a = 16
    \<and> take (length acc + 2) a = acc @ group (s_value s)"
proof -
  have l: "length (s_v6addr s) = 16" "length acc \<le> 14" "take (length acc) (s_v6addr s) = acc"
    using assms by (simp_all add: v6_rel_def)
  let ?a = "(s_v6addr s)[length acc := ucast (drop_bit 8 (s_value s)), Suc (length acc) := ucast (s_value s)]"
  have "take (length acc + 2) ?a = acc @ group (s_value s)"
    using l by (simp add: take_Suc_conv_app_nth group_def)
  then show ?thesis using assms l by (auto simp: add_group_def set_byte_def v6_rel_def)
qed

lemma ipv6_end_rel:
  assumes "v6_rel s acc"
  shows "ipv6_end p s v6 = Some (case v6_finish (s_value s) acc (s_digitsProcessed s) (s_zeroFillStart s) rest of
    None \<Rightarrow> (v6, None) | Some (a, _) \<Rightarrow> (a, Some p))"
proof -
  obtain a where a: "add_group s = Some (s\<lparr>s_v6addr := a, s_numBytes := length acc + 2\<rparr>)" "length a = 16"
      "take (length acc + 2) a = acc @ group (s_value s)"
    using add_group_rel [OF assms] by blast
  have r: "s_numBytes s = length acc" "length acc \<le> 14" "s_zeroFillStart s \<le> length acc" using assms by (simp_all add: v6_rel_def)
  have "take (s_zeroFillStart s) a = take (s_zeroFillStart s) (acc @ group (s_value s))"
    using r by (metis a(3) le_add1 min.absorb1 order_trans take_take)
  moreover have "take (length acc + 2 - s_zeroFillStart s) (drop (s_zeroFillStart s) a) = drop (s_zeroFillStart s) (acc @ group (s_value s))"
    by (metis a(3) drop_take)
  moreover have "length acc = 14 \<Longrightarrow> a = acc @ group (s_value s)" using a by simp
  ultimately show ?thesis using a r
    by (auto simp: ipv6_end_def v6_finish_def segment_def read_bytes_def)
qed

definition v6_result :: "bytes \<Rightarrow> nat \<Rightarrow> (bytes \<times> bytes) option \<Rightarrow> bytes \<times> nat option" where
  "v6_result v6 limit r = (case r of None \<Rightarrow> (v6, None) | Some (a, rest) \<Rightarrow> (a, Some (limit - length rest)))"

lemma space_after_span:
  "p < limit \<Longrightarrow> limit \<le> length mem \<Longrightarrow> space_after mem p limit = Some (take 1 (span mem (Suc p) limit) = [0x20])"
  by (cases "Suc p < limit") (auto simp: space_after_def span_Cons span_Nil read_byte_def)

lemma length_span: "limit \<le> length mem \<Longrightarrow> length (span mem p limit) = limit - p"
  by (simp add: span_def)

text \<open>One character: the step on states against the step on lists\<close>

lemma ipv6_char_rel:
  assumes "v6_rel s acc" "p < limit" "limit \<le> length mem" "c \<noteq> 0x20"
    and go_on: "\<And>s' acc'. ipv6_char mem p limit c s = Some (V6_Next s') \<Longrightarrow> v6_rel s' acc' \<Longrightarrow>
      ipv6_loop mem (Suc p) limit s' v6 = Some (v6_result v6 limit
        (v6_scan (span mem (Suc p) limit) (s_value s') acc' (s_digitsProcessed s') (s_zeroFillStart s') (s_numColons s' \<noteq> 0)))"
  shows "(case ipv6_char mem p limit c s of
      None \<Rightarrow> None | Some V6_Null \<Rightarrow> Some (v6, None) | Some V6_Zero \<Rightarrow> Some (replicate 16 0, Some (p + 1))
    | Some (V6_Next s) \<Rightarrow> ipv6_loop mem (Suc p) limit s v6) =
    Some (v6_result v6 limit (v6_scan (c # span mem (Suc p) limit) (s_value s) acc (s_digitsProcessed s) (s_zeroFillStart s) (s_numColons s \<noteq> 0)))"
proof -
  let ?cs = "span mem (Suc p) limit"
  note sp = space_after_span [OF assms(2,3)] and len = length_span [OF assms(3), of "Suc p"]
  have r: "s_numBytes s = length acc" "length acc \<le> 14" using assms(1) by (simp_all add: v6_rel_def)
  consider (hex) h where "HexVal c = Some h" | (other) "HexVal c = None" "c \<noteq> 0x3A"
    | (twice) "HexVal c = None" "c = 0x3A" "\<not> s_digitsProcessed s" "s_numColons s \<noteq> 0"
    | (first) "HexVal c = None" "c = 0x3A" "\<not> s_digitsProcessed s" "s_numColons s = 0"
    | (colon) "HexVal c = None" "c = 0x3A" "s_digitsProcessed s"
    by (cases "HexVal c") auto
  then show ?thesis
  proof cases
    case hex
    have "v6_rel (s\<lparr>s_value := push_bit 4 (s_value s) OR h, s_digitsProcessed := True\<rparr>) acc" using assms(1) by (simp add: v6_rel_def)
    then show ?thesis using hex assms(4) go_on by (simp add: ipv6_char_def)
  next
    case other
    then show ?thesis using assms(1,4) go_on by (simp add: ipv6_char_def)
  next
    case twice
    then show ?thesis using r sp len assms(2) by (auto simp: ipv6_char_def ipv6_colon_def v6_result_def)
  next
    case first
    have "v6_rel (s\<lparr>s_zeroFillStart := s_numBytes s, s_numColons := s_numColons s + 1\<rparr>) acc" using assms(1) by (simp add: v6_rel_def)
    then show ?thesis using first go_on r by (simp add: ipv6_char_def ipv6_colon_def)
  next
    case colon
    obtain a where a: "add_group s = Some (s\<lparr>s_v6addr := a, s_numBytes := length acc + 2\<rparr>)" "length a = 16"
        "take (length acc + 2) a = acc @ group (s_value s)"
      using add_group_rel [OF assms(1)] by blast
    show ?thesis
    proof (cases "take 1 ?cs = [0x20] \<or> length acc > 12")
      case True
      then show ?thesis using colon r sp a(1) by (auto simp: ipv6_char_def ipv6_colon_def v6_result_def Let_def)
    next
      case False
      let ?s = "s\<lparr>s_v6addr := a, s_numBytes := length acc + 2, s_digitsProcessed := False, s_value := 0\<rparr>"
      have "v6_rel ?s (acc @ group (s_value s))"
        using False assms(1) a by (auto simp: v6_rel_def group_def)
      then show ?thesis using False colon r sp a(1) go_on [of ?s "acc @ group (s_value s)"]
        by (simp add: ipv6_char_def ipv6_colon_def Let_def)
    qed
  qed
qed

lemma ipv6_loop_scan:
  "v6_rel s acc \<Longrightarrow> p \<le> limit \<Longrightarrow> limit \<le> length mem \<Longrightarrow> ipv6_loop mem p limit s v6 = Some (v6_result v6 limit
    (v6_scan (span mem p limit) (s_value s) acc (s_digitsProcessed s) (s_zeroFillStart s) (s_numColons s \<noteq> 0)))"
proof (induction "limit - p" arbitrary: p s acc)
  case 0
  then have "p = limit" by simp
  then show ?case using ipv6_end_rel [OF 0(2), of p v6 "[]"]
    by (subst ipv6_loop.simps) (simp add: span_Nil v6_result_def v6_finish_def split: option.splits)
next
  case (Suc n)
  then have p: "p < limit" "n = limit - Suc p" "Suc p \<le> limit" by auto
  define c where "c = mem ! p"
  have c: "read_byte mem p = Some c" "span mem p limit = c # span mem (Suc p) limit"
    using p(1) Suc.prems(3) by (simp_all add: read_byte_def c_def span_Cons)
  show ?case
  proof (cases "c = 0x20")
    case True
    have "limit - length (span mem p limit) = p" using p(1) Suc.prems(3) by (simp add: length_span)
    then have "limit - length (c # span mem (Suc p) limit) = p" using c(2) by simp
    then show ?thesis using ipv6_end_rel [OF Suc.prems(1), of p v6 "c # span mem (Suc p) limit"] c True p(1)
      by (subst ipv6_loop.simps) (auto simp add: v6_result_def v6_finish_def split: option.splits if_splits)
  next
    case False
    have "ipv6_loop mem p limit s v6 = (case ipv6_char mem p limit c s of
      None \<Rightarrow> None | Some V6_Null \<Rightarrow> Some (v6, None) | Some V6_Zero \<Rightarrow> Some (replicate 16 0, Some (p + 1))
    | Some (V6_Next s) \<Rightarrow> ipv6_loop mem (Suc p) limit s v6)"
      using c(1) False p(1) unfolding Suc_eq_plus1 by (subst ipv6_loop.simps) simp
    also have "\<dots> = Some (v6_result v6 limit
        (v6_scan (c # span mem (Suc p) limit) (s_value s) acc (s_digitsProcessed s) (s_zeroFillStart s) (s_numColons s \<noteq> 0)))"
      using Suc.hyps(1) [OF p(2) _ p(3) Suc.prems(3)] by (intro ipv6_char_rel [OF Suc.prems(1) p(1) Suc.prems(3) False]) blast
    finally show ?thesis using c(2) by simp
  qed
qed

definition hex_from :: "u32 \<Rightarrow> bytes \<Rightarrow> u32" where
  "hex_from v ds = foldl (\<lambda>v c. push_bit 4 v OR the (HexVal c)) v ds"

definition is_group :: "bytes \<Rightarrow> bool" where
  "is_group ds \<longleftrightarrow> ds \<noteq> [] \<and> (\<forall>c\<in>set ds. HexVal c \<noteq> None)"

text \<open>Pieces of text with a separator between them\<close>

fun join :: "u8 \<Rightarrow> bytes list \<Rightarrow> bytes" where
  "join s [] = []"
| "join s [g] = g"
| "join s (g # h # gs) = g @ s # join s (h # gs)"

definition groups_bytes :: "bytes list \<Rightarrow> bytes" where
  "groups_bytes gs = concat (map (\<lambda>g. group (hex_from 0 g)) gs)"

lemma groups_bytes_simps [simp]: "groups_bytes [] = []" "groups_bytes (g # gs) = group (hex_from 0 g) @ groups_bytes gs"
    "length (groups_bytes gs) = 2 * length gs"
  by (induction gs) (simp_all add: groups_bytes_def group_def)

lemma length_group [simp]: "length (group v) = 2"
  by (simp add: group_def)

definition no_space :: "bytes \<Rightarrow> bool" where "no_space cs \<longleftrightarrow> take 1 cs \<noteq> [0x20]"

lemma v6_scan_digits:
  "\<forall>c\<in>set ds. HexVal c \<noteq> None \<Longrightarrow> v6_scan (ds @ rest) v acc dig z nc = v6_scan rest (hex_from v ds) acc (dig \<or> ds \<noteq> []) z nc"
proof (induction ds arbitrary: v dig)
  case (Cons c ds)
  then have "c \<noteq> 0x20" by (auto simp: HexVal_def)
  then show ?case using Cons by (auto simp: hex_from_def)
qed (simp add: hex_from_def)

lemma v6_scan_group:
  "is_group g \<Longrightarrow> no_space rest \<Longrightarrow> length acc \<le> 12 \<Longrightarrow>
    v6_scan (g @ 0x3A # rest) 0 acc False z nc = v6_scan rest 0 (acc @ group (hex_from 0 g)) False z nc"
  by (simp add: v6_scan_digits is_group_def no_space_def HexVal_def)

lemma v6_scan_last:
  "is_group g \<Longrightarrow> tail = [] \<or> hd tail = 0x20 \<Longrightarrow> v6_scan (g @ tail) 0 acc False z nc = v6_finish (hex_from 0 g) acc True z tail"
  using v6_scan_digits [of g tail] by (cases tail) (auto simp: is_group_def)

lemma no_space_group: "is_group g \<Longrightarrow> no_space (g @ rest)"
  by (cases g) (auto simp: is_group_def no_space_def HexVal_def)

lemma no_space_join: "gs \<noteq> [] \<Longrightarrow> \<forall>g\<in>set gs. is_group g \<Longrightarrow> no_space (join s gs @ rest)"
  by (cases "(s, gs)" rule: join.cases) (auto simp: no_space_group)

lemma v6_scan_front:
  "\<forall>g\<in>set gs. is_group g \<Longrightarrow> gs \<noteq> [] \<Longrightarrow> no_space rest \<Longrightarrow> length acc + 2 * length gs \<le> 14 \<Longrightarrow>
    v6_scan (join 0x3A gs @ 0x3A # rest) 0 acc False z nc = v6_scan rest 0 (acc @ groups_bytes gs) False z nc"
proof (induction "0x3A :: u8" gs arbitrary: acc rule: join.induct)
  case (3 g h gs)
  then have "no_space (join 0x3A (h # gs) @ 0x3A # rest)" by (intro no_space_join) simp_all
  with 3 show ?case using v6_scan_group [of g "join 0x3A (h # gs) @ 0x3A # rest" acc z nc] by simp
qed (simp_all add: v6_scan_group)

lemma v6_scan_back:
  "\<forall>g\<in>set gs. is_group g \<Longrightarrow> gs \<noteq> [] \<Longrightarrow> tail = [] \<or> hd tail = 0x20 \<Longrightarrow> length acc + 2 * length gs \<le> 16 \<Longrightarrow>
    v6_scan (join 0x3A gs @ tail) 0 acc False z nc =
      v6_finish (hex_from 0 (last gs)) (acc @ groups_bytes (butlast gs)) True z tail"
proof (induction "0x3A :: u8" gs arbitrary: acc rule: join.induct)
  case (3 g h gs)
  then have "no_space (join 0x3A (h # gs) @ tail)" by (intro no_space_join) simp_all
  with 3 show ?case using v6_scan_group [of g "join 0x3A (h # gs) @ tail" acc z nc] by simp
qed (simp_all add: v6_scan_last)

lemma groups_bytes_split: "gs \<noteq> [] \<Longrightarrow> groups_bytes (butlast gs) @ group (hex_from 0 (last gs)) = groups_bytes gs"
  by (induction gs) auto

lemma v6_scan_full:
  assumes "\<forall>g\<in>set gs. is_group g" "length gs = 8" "tail = [] \<or> hd tail = 0x20"
  shows "v6_scan (join 0x3A gs @ tail) 0 [] False 0 False = Some (groups_bytes gs, tail)"
proof -
  have "gs \<noteq> []" using assms(2) by auto
  then show ?thesis using assms v6_scan_back [of gs tail "[]"] groups_bytes_split [of gs] by (simp add: v6_finish_def)
qed

lemma v6_scan_compressed:
  assumes "\<forall>g\<in>set fs \<union> set bs. is_group g" "fs \<noteq> []" "bs \<noteq> []" "length fs + length bs \<le> 7" "tail = [] \<or> hd tail = 0x20"
  shows "v6_scan (join 0x3A fs @ [0x3A, 0x3A] @ join 0x3A bs @ tail) 0 [] False 0 False =
    Some (groups_bytes fs @ replicate (16 - 2 * (length fs + length bs)) 0 @ groups_bytes bs, tail)"
proof -
  have h: "HexVal 0x3A = None" by (simp add: HexVal_def)
  have "v6_scan (join 0x3A fs @ [0x3A, 0x3A] @ join 0x3A bs @ tail) 0 [] False 0 False =
      v6_scan (0x3A # join 0x3A bs @ tail) 0 (groups_bytes fs) False 0 False"
    using assms v6_scan_front [of fs "0x3A # join 0x3A bs @ tail" "[]"] by (simp add: no_space_def)
  also have "\<dots> = v6_scan (join 0x3A bs @ tail) 0 (groups_bytes fs) False (2 * length fs) True" by (simp add: h)
  also have "\<dots> = v6_finish (hex_from 0 (last bs)) (groups_bytes fs @ groups_bytes (butlast bs)) True (2 * length fs) tail"
    using assms by (intro v6_scan_back) auto
  also have "\<dots> = Some (groups_bytes fs @ replicate (14 - (2 * length fs + 2 * (length bs - 1))) 0 @ groups_bytes bs, tail)"
    using assms groups_bytes_split [of bs] by (cases bs) (auto simp: v6_finish_def)
  also have "14 - (2 * length fs + 2 * (length bs - 1)) = 16 - 2 * (length fs + length bs)"
    using assms(3) by (cases bs) auto
  finally show ?thesis .
qed

lemma v6_scan_leading: "no_space cs \<Longrightarrow> v6_scan (0x3A # 0x3A # cs) 0 [] False 0 False = None"
  by (simp add: no_space_def HexVal_def)

text \<open>The pair of colons at the end, and alone\<close>

lemma v6_scan_trailing:
  assumes "\<forall>g\<in>set fs. is_group g" "fs \<noteq> []" "length fs \<le> 7" "tail = [] \<or> hd tail = 0x20"
  shows "v6_scan (join 0x3A fs @ [0x3A, 0x3A] @ tail) 0 [] False 0 False = None"
proof -
  have "v6_scan (join 0x3A fs @ [0x3A, 0x3A] @ tail) 0 [] False 0 False = v6_scan (0x3A # tail) 0 (groups_bytes fs) False 0 False"
    using assms v6_scan_front [of fs "0x3A # tail" "[]"] by (simp add: no_space_def)
  also have "\<dots> = v6_scan tail 0 (groups_bytes fs) False (2 * length fs) True" by (simp add: HexVal_def)
  also have "\<dots> = None" using assms(4) by (cases tail) (simp_all add: v6_finish_def)
  finally show ?thesis .
qed

lemma v6_scan_alone:
  assumes "tail = [] \<or> hd tail = 0x20"
  shows "v6_scan (0x3A # 0x3A # tail) 0 [] False 0 False = (if tail = [] then None else Some (replicate 16 0, tail))"
  using assms by (cases tail) (simp_all add: HexVal_def)

section \<open>The settings of a record\<close>

text \<open>The number that a text of digits denotes\<close>

definition decimal :: "bytes \<Rightarrow> nat" where
  "decimal ds = foldl (\<lambda>n c. 10 * n + (unat c - 48)) 0 ds"

text \<open>The lowest \<open>k\<close> bytes of a number, the first one counting most\<close>

fun reversed :: "nat \<Rightarrow> nat \<Rightarrow> nat" where
  "reversed 0 n = 0"
| "reversed (Suc k) n = n mod 256 * 256 ^ k + reversed k (n div 256)"

lemma digits_from_decimal: "\<forall>c\<in>set ds. is_digit c \<Longrightarrow> digits_from 0 ds = of_nat (decimal ds)"
proof (induction ds rule: rev_induct)
  case (snoc c ds)
  have c: "48 \<le> unat c" using snoc.prems by (simp add: word_le_nat_alt)
  have "(ucast c :: u32) - 0x30 = of_nat (unat c) - of_nat 48" by (simp only: of_nat_numeral) (simp add: unsigned_word_eqI)
  also have "\<dots> = of_nat (unat c - 48)" using c by (simp only: of_nat_diff)
  finally have "(ucast c :: u32) - 0x30 = of_nat (unat c - 48)" .
  then show ?case using snoc by (simp add: digits_from_def decimal_def add_diff_eq [symmetric] mult.commute)
qed (simp add: digits_from_def decimal_def)

lemma and_FF: "(x :: u32) AND 0xFF = take_bit 8 x"
  by (simp add: take_bit_eq_mask mask_eq_exp_minus_1)

lemma byte_of:
  assumes "i \<le> 3"
  shows "take_bit 8 (drop_bit (8 * i) (of_nat n :: u32)) = of_nat (n div 256 ^ i mod 256)"
proof -
  have "n div 256 ^ i mod 256 = take_bit 8 (drop_bit (8 * i) n)"
    by (simp add: take_bit_eq_mod drop_bit_eq_div power_mult)
  then show ?thesis using assms by (intro bit_word_eqI) (auto simp: bit_simps)
qed

lemma ucast_of_nat: "LENGTH('a::len) \<le> LENGTH('b::len) \<Longrightarrow> (ucast (of_nat n :: 'b word) :: 'a word) = of_nat n"
  by (intro bit_word_eqI) (auto simp: bit_simps)

text \<open>What the stores make of the bytes of the number\<close>

lemma swap_low16_reversed: "swap_low16 (of_nat n) = of_nat (reversed 2 n)"
proof -
  let ?a = "take_bit 8 (of_nat n :: u32)" and ?b = "take_bit 8 (drop_bit 8 (of_nat n :: u32))"
  have "swap_low16 (of_nat n) = push_bit 8 (ucast ?a) OR ucast ?b" by (simp add: swap_low16_def and_FF)
  also have "\<dots> = push_bit 8 (ucast ?a) + ucast ?b" by (rule disjunctive_add [symmetric]) (auto simp: bit_simps)
  also have "\<dots> = of_nat (n mod 256 * 256 + n div 256 mod 256)"
    using byte_of [of 0 n] byte_of [of 1 n] by (simp add: push_bit_eq_mult ucast_of_nat)
  finally show ?thesis by (simp add: numeral_2_eq_2)
qed

lemma swap_all32_reversed: "swap_all32 (of_nat n) = of_nat (reversed 4 n)"
proof -
  let ?v = "of_nat n :: u32"
  let ?a = "take_bit 8 ?v" and ?b = "take_bit 8 (drop_bit 8 ?v)" and ?c = "take_bit 8 (drop_bit 16 ?v)" and ?d = "take_bit 8 (drop_bit 24 ?v)"
  have "drop_bit 24 ?v = ?d" by (rule bit_word_eqI) (auto simp: bit_simps)
  then have "swap_all32 ?v = push_bit 24 ?a OR push_bit 16 ?b OR push_bit 8 ?c OR ?d" by (simp add: swap_all32_def and_FF)
  also have "\<dots> = push_bit 24 ?a + (push_bit 16 ?b + (push_bit 8 ?c + ?d))"
  proof -
    have 1: "push_bit 8 ?c + ?d = push_bit 8 ?c OR ?d" by (rule disjunctive_add) (auto simp: bit_simps)
    have 2: "push_bit 16 ?b + (push_bit 8 ?c OR ?d) = push_bit 16 ?b OR (push_bit 8 ?c OR ?d)"
      by (rule disjunctive_add) (auto simp: bit_simps)
    have 3: "push_bit 24 ?a + (push_bit 16 ?b OR (push_bit 8 ?c OR ?d)) = push_bit 24 ?a OR (push_bit 16 ?b OR (push_bit 8 ?c OR ?d))"
      by (rule disjunctive_add) (auto simp: bit_simps)
    show ?thesis unfolding 1 2 3 by (simp add: or.assoc)
  qed
  also have "\<dots> = of_nat (n mod 256 * 256 ^ 3 + (n div 256 mod 256 * 256 ^ 2 + (n div 256 ^ 2 mod 256 * 256 + n div 256 ^ 3 mod 256)))"
    using byte_of [of 0 n] byte_of [of 1 n] byte_of [of 2 n] byte_of [of 3 n] by (simp add: push_bit_eq_mult)
  also have "n mod 256 * 256 ^ 3 + (n div 256 mod 256 * 256 ^ 2 + (n div 256 ^ 2 mod 256 * 256 + n div 256 ^ 3 mod 256)) = reversed 4 n"
  proof -
    have "n div 256 ^ 2 = n div 256 div 256" "n div 256 ^ 3 = n div 256 div 256 div 256" by (simp_all flip: div_mult2_eq)
    moreover have "reversed (Suc (Suc (Suc (Suc 0)))) n = n mod 256 * 256 ^ 3 + (n div 256 mod 256 * 256 ^ 2
        + (n div 256 div 256 mod 256 * 256 + n div 256 div 256 div 256 mod 256))"
      by (simp add: numeral_3_eq_3 numeral_2_eq_2)
    moreover have "(4 :: nat) = Suc (Suc (Suc (Suc 0)))" by simp
    ultimately show ?thesis by presburger
  qed
  finally show ?thesis .
qed

datatype ka_item = Number u8 bytes | Quad u8 bytes bytes bytes bytes

fun item_text :: "ka_item \<Rightarrow> bytes" where
  "item_text (Number l ds) = l # 0x3D # ds"
| "item_text (Quad l d0 d1 d2 d3) = l # 0x3D # d0 @ 0x2E # d1 @ 0x2E # d2 @ 0x2E # d3"

fun item_ok :: "ka_item \<Rightarrow> bool" where
  "item_ok (Number l ds) \<longleftrightarrow> l \<in> {0x74, 0x6C, 0x72, 0x73, 0x61, 0x77} \<and> (\<forall>c\<in>set ds. is_digit c)"
| "item_ok (Quad l d0 d1 d2 d3) \<longleftrightarrow> l \<in> {0x68, 0x64} \<and> (\<forall>c\<in>set d0 \<union> set d1 \<union> set d2 \<union> set d3. is_digit c)"

text \<open>
  What the settings mean, apart from the code: the letters t, l, r, s, a, w name the timeout, the local and the remote
  port, the two counters and the window.  The timeout is a number; the others are their lowest two or four bytes, the high
  one first in the memory of a machine that stores the low one first.  The letters h and d name the two addresses.
\<close>

definition quad_addr :: "bytes list \<Rightarrow> mdns_addr \<Rightarrow> mdns_addr" where
  "quad_addr ds a = \<lparr>addr_type = mDNSAddrType_IPv4, addr_ip = map (\<lambda>d. of_nat (decimal d)) ds @ drop 4 (addr_ip a)\<rparr>"

fun apply_item :: "ka_item \<Rightarrow> keepalive \<Rightarrow> keepalive" where
  "apply_item (Number l ds) ka =
     (let n = decimal ds in
      if l = 0x74 then ka\<lparr>ka_timeout := of_nat n\<rparr>
      else if l = 0x6C then ka\<lparr>ka_lport := of_nat (reversed 2 n)\<rparr>
      else if l = 0x72 then ka\<lparr>ka_rport := of_nat (reversed 2 n)\<rparr>
      else if l = 0x73 then ka\<lparr>ka_seq := of_nat (reversed 4 n)\<rparr>
      else if l = 0x61 then ka\<lparr>ka_ack := of_nat (reversed 4 n)\<rparr>
      else if l = 0x77 then ka\<lparr>ka_win := of_nat (reversed 2 n)\<rparr>
      else ka)"
| "apply_item (Quad l d0 d1 d2 d3) ka =
     (if l = 0x68 then ka\<lparr>ka_laddr := quad_addr [d0, d1, d2, d3] (ka_laddr ka)\<rparr>
      else ka\<lparr>ka_raddr := quad_addr [d0, d1, d2, d3] (ka_raddr ka)\<rparr>)"

definition ka_ok :: "keepalive \<Rightarrow> bool" where
  "ka_ok ka \<longleftrightarrow> length (addr_ip (ka_laddr ka)) = 16 \<and> length (addr_ip (ka_raddr ka)) = 16"

lemma apply_item_ok: "ka_ok ka \<Longrightarrow> ka_ok (apply_item i ka)"
  by (cases i) (auto simp: ka_ok_def quad_addr_def Let_def)

lemma ka_store_item:
  "l \<in> {0x74, 0x6C, 0x72, 0x73, 0x61, 0x77} \<Longrightarrow> \<forall>c\<in>set ds. is_digit c \<Longrightarrow>
    \<exists>v. ka_store l (digits_from 0 ds) p limit ka = (apply_item (Number l ds) ka, v, p)"
  by (elim insertE emptyE; simp add: ka_store_def digits_from_decimal swap_low16_reversed swap_all32_reversed Let_def del: reversed.simps)

lemma quad_bytes:
  "\<forall>d\<in>set ds. \<forall>c\<in>set d. is_digit c \<Longrightarrow>
    map (\<lambda>d. ucast (digits_from 0 d)) ds = (map (\<lambda>d. of_nat (decimal d)) ds :: bytes)"
  by (simp add: digits_from_decimal ucast_of_nat)

lemma number_loop_stop: "stops_at mem p limit \<Longrightarrow> number_loop mem p limit v old = Some (v, Some p)"
  by (subst number_loop.simps) (auto simp: stops_at_def)

lemma ka_setting_item:
  assumes "item_ok i" "text_at mem p (item_text i)" "stops_at mem (p + length (item_text i)) limit" "ka_ok ka"
  shows "\<exists>v'. ka_setting v6addr mem p limit ka v = Some (apply_item i ka, v', Some (Suc (p + length (item_text i))))"
proof (cases i)
  case (Number l ds)
  then have t: "read_byte mem p = Some l" "text_at mem (p + 2) ds" "\<forall>c\<in>set ds. is_digit c" "l \<in> {0x74, 0x6C, 0x72, 0x73, 0x61, 0x77}"
      "stops_at mem (p + 2 + length ds) limit"
    using assms(1-3) by (simp_all add: numeral_2_eq_2)
  then have "number_loop mem (p + 2) limit 0 v = Some (digits_from 0 ds, Some (p + 2 + length ds))"
    by (subst number_loop_digits [of mem "p + 2" ds]) (auto simp: number_loop_stop stops_at_def)
  moreover obtain v' where "ka_store l (digits_from 0 ds) (p + 2 + length ds) limit ka = (apply_item i ka, v', p + 2 + length ds)"
    using ka_store_item [OF t(4,3)] Number by blast
  moreover have "l \<noteq> 0x68" "l \<noteq> 0x64" "l \<noteq> 0x48" "l \<noteq> 0x44" using t(4) by auto
  ultimately show ?thesis using t(1) Number
    by (simp add: ka_setting_def ka_ipv4_def ka_others_def GetValueForKeepalive_def del: apply_item.simps)
next
  case (Quad l d0 d1 d2 d3)
  let ?q = "p + 2 + length d0 + length d1 + length d2 + length d3 + 3"
  have t: "read_byte mem p = Some l" "text_at mem (p + 2) (d0 @ 0x2E # d1 @ 0x2E # d2 @ 0x2E # d3)"
      "\<forall>c\<in>set d0 \<union> set d1 \<union> set d2 \<union> set d3. is_digit c" "l \<in> {0x68, 0x64}" "stops_at mem ?q limit"
    using assms(1-3) Quad by (simp_all add: numeral_2_eq_2 numeral_3_eq_3 add.assoc)
  have bs: "map (\<lambda>d. ucast (digits_from 0 d)) [d0, d1, d2, d3] = (map (\<lambda>d. of_nat (decimal d)) [d0, d1, d2, d3] :: bytes)"
    by (rule quad_bytes) (use t(3) in auto)
  note quad = ipv4_loop_quad [OF t(2,3) _ t(5), unfolded bs] and num = number_loop_stop [OF t(5)]
  show ?thesis using t(1,4) Quad assms(4) quad num
    by (auto simp: ka_setting_def ka_ipv4_def ka_others_def GetValueForKeepalive_def GetValueForIPv4Addr_def ka_store_def
        ka_ok_def quad_addr_def)
qed

lemma item_text_length: "0 < length (item_text i)"
  by (cases i) simp_all

lemma item_joined:
  assumes "text_at mem p (join 0x20 (map item_text (i # js)))" "limit = p + length (join 0x20 (map item_text (i # js)))"
  shows "p < limit \<and> stops_at mem (p + length (item_text i)) limit \<and> text_at mem p (item_text i)"
  using assms item_text_length [of i] by (cases js) (auto simp: stops_at_def text_at_append)

lemma keepalive_loop_items:
  "\<forall>i\<in>set is. item_ok i \<Longrightarrow> text_at mem p (join 0x20 (map item_text is)) \<Longrightarrow>
    limit = p + length (join 0x20 (map item_text is)) \<Longrightarrow> ka_ok ka \<Longrightarrow>
    keepalive_loop v6addr mem p limit ka v = Some (fold apply_item is ka)"
proof (induction "is" arbitrary: p ka v)
  case Nil
  then show ?case by (subst keepalive_loop.simps) simp
next
  case (Cons i js)
  let ?q = "p + length (item_text i)"
  have lim: "p < limit" "stops_at mem ?q limit" "text_at mem p (item_text i)"
    using item_joined [OF Cons.prems(2,3)] by blast+
  obtain v' where v': "ka_setting v6addr mem p limit ka v = Some (apply_item i ka, v', Some (Suc ?q))"
    using ka_setting_item [OF _ lim(3,2) Cons.prems(4)] Cons.prems(1) by fastforce
  then have step: "keepalive_loop v6addr mem p limit ka v = keepalive_loop v6addr mem (Suc ?q) limit (apply_item i ka) v'"
    using lim(1) by (subst keepalive_loop.simps) simp
  show ?case
  proof (cases js)
    case Nil
    then show ?thesis using step Cons.prems(3) by (subst (asm) keepalive_loop.simps [of _ _ "Suc ?q"]) simp
  next
    case js: (Cons j ks)
    have "keepalive_loop v6addr mem (Suc ?q) limit (apply_item i ka) v' = Some (fold apply_item js (apply_item i ka))"
      using Cons.prems js by (intro Cons.IH) (auto simp: text_at_append apply_item_ok)
    then show ?thesis using step by simp
  qed
qed

lemma keepalive_record_type: "mDNS_KeepaliveRecord rr = Some True \<Longrightarrow> rr_rrtype rr = kDNSType_NULL"
  by (simp add: mDNS_KeepaliveRecord_def and_then_def split: if_splits)

lemma extract_keepalive:
  "mDNS_KeepaliveRecord (ar_resrec ar) = Some True \<Longrightarrow> mDNS_ExtractKeepaliveInfo v6addr v ar ka =
    keepalive_loop v6addr (rr_data (ar_resrec ar)) 1 (unat (rr_rdlength (ar_resrec ar))) ka v"
  by (simp add: mDNS_ExtractKeepaliveInfo_def keepalive_record_type)

lemma ipv6_addr_scan:
  "p \<le> limit \<Longrightarrow> limit \<le> length mem \<Longrightarrow> length v6addr = 16 \<Longrightarrow>
    GetValueForIPv6Addr v6addr mem p limit v6 = Some (v6_result v6 limit (v6_scan (span mem p limit) 0 [] False 0 False))"
  using ipv6_loop_scan [of _ "[]" p limit mem v6] by (simp add: GetValueForIPv6Addr_def v6_rel_def)

end
