(* ===== verification/Mdns_Server.thy ===== *)
theory Mdns_Server imports Mdns_Probe begin

text \<open>
  mDNS.c: which DNS server is asked about a name.  A server answers for a domain; the one with the longest
  domain that the name ends with is preferred, and among equal ones the one that is penalized least.  The
  list of servers is a list, a pointer into it a position.  Debugging messages are left out.
\<close>

section \<open>Servers\<close>

record dns_server =
  ds_interface :: u64
  ds_flags :: u32
  ds_domain :: bytes
  ds_penaltyTime :: s32
  ds_scoped :: bool
  ds_timeout :: u32
  ds_cellIntf :: bool

record mcast_resolver =
  mr_domain :: bytes
  mr_timeout :: u32

definition DNSServer_FlagDelete :: u32 where "DNSServer_FlagDelete = 1"
definition DNSSERVER_PENALTY_TIME :: s32 where "DNSSERVER_PENALTY_TIME = 60 * mDNSPlatformOneSecond"
definition DEFAULT_MCAST_TIMEOUT :: u32 where "DEFAULT_MCAST_TIMEOUT = 5"
definition DEFAULT_UDNS_TIMEOUT :: u32 where "DEFAULT_UDNS_TIMEOUT = 30"
definition DEFAULT_UDNSSEC_TIMEOUT :: u32 where "DEFAULT_UDNSSEC_TIMEOUT = 10"

text \<open>\<open>mDNSOpaque64\<close> is two words of 32 bits; a bit from 64 on lies outside of them.\<close>

definition bit_get_opaque64 :: "u32 list \<Rightarrow> nat \<Rightarrow> bool option" where
  "bit_get_opaque64 op i = (if i div 32 < length op then Some (op ! (i div 32) AND push_bit (i mod 32) 1 \<noteq> 0) else None)"

definition bit_set_opaque64 :: "u32 list \<Rightarrow> nat \<Rightarrow> (u32 list) option" where
  "bit_set_opaque64 op i = (if i div 32 < length op then Some (op[i div 32 := op ! (i div 32) OR push_bit (i mod 32) 1]) else None)"

definition bit_clr_opaque64 :: "u32 list \<Rightarrow> nat \<Rightarrow> (u32 list) option" where
  "bit_clr_opaque64 op i = (if i div 32 < length op then Some (op[i div 32 := op ! (i div 32) AND NOT (push_bit (i mod 32) 1)]) else None)"

definition zeroOpaque64 :: "u32 list" where "zeroOpaque64 = [0, 0]"

definition PenaltyTimeForServer :: "s32 \<Rightarrow> dns_server \<Rightarrow> s32 \<times> dns_server" where
  "PenaltyTimeForServer timenow server =
     (if ds_penaltyTime server \<noteq> 0 then
        (let ptime = ds_penaltyTime server - timenow in
         if sint ptime < 0 then (0, server\<lparr>ds_penaltyTime := 0\<rparr>) else (ptime, server))
      else (0, server))"

definition BetterMatchForName :: "bytes \<Rightarrow> int \<Rightarrow> bytes \<Rightarrow> int \<Rightarrow> int \<Rightarrow> int option" where
  "BetterMatchForName name namecount newname newcount bestcount =
     (if namecount < newcount \<or> newcount < bestcount then Some (- 1)
      else do {
        p \<leftarrow> SkipLeadingLabels name 0 (namecount - newcount);
        same \<leftarrow> SameDomainName name p newname 0;
        Some (if same then if bestcount = newcount then 0 else 1 else - 1)
      })"

section \<open>The time to wait for multicast answers\<close>

fun mcast_loop :: "bytes \<Rightarrow> int \<Rightarrow> mcast_resolver list \<Rightarrow> mcast_resolver option \<Rightarrow> int \<Rightarrow> (mcast_resolver option) option" where
  "mcast_loop qname namecount [] curmatch bestmatchlen = Some curmatch"
| "mcast_loop qname namecount (cur # rest) curmatch bestmatchlen = do {
     currcount \<leftarrow> CountLabels (mr_domain cur) 0;
     bettermatch \<leftarrow> BetterMatchForName qname namecount (mr_domain cur) currcount bestmatchlen;
     if bettermatch = 1 then mcast_loop qname namecount rest (Some cur) currcount
     else mcast_loop qname namecount rest curmatch bestmatchlen
   }"

definition GetTimeoutForMcastQuestion :: "mcast_resolver list \<Rightarrow> bytes \<Rightarrow> u32 option" where
  "GetTimeoutForMcastQuestion resolvers qname = do {
     namecount \<leftarrow> CountLabels qname 0;
     curmatch \<leftarrow> mcast_loop qname namecount resolvers None (- 1);
     Some (case curmatch of None \<Rightarrow> DEFAULT_MCAST_TIMEOUT | Some r \<Rightarrow> mr_timeout r)
   }"

section \<open>Queries that enumerate domains\<close>

definition mDNS_DEQLabels :: "bytes list" where
  "mDNS_DEQLabels = [[1, 0x62], [2, 0x64, 0x62], [2, 0x6C, 0x62], [1, 0x72], [2, 0x64, 0x72]]"

fun deq_label :: "bytes list \<Rightarrow> bytes \<Rightarrow> nat \<Rightarrow> bool option" where
  "deq_label [] name p = Some False"
| "deq_label (l # ls) name p = do {
     same \<leftarrow> SameDomainLabel l 0 name p;
     if same then Some True else deq_label ls name p
   }"

definition next_label :: "bytes \<Rightarrow> nat \<Rightarrow> nat option" where
  "next_label name p = do { n \<leftarrow> read_byte name p; Some (p + 1 + unat n) }"

definition DomainEnumQuery :: "bytes \<Rightarrow> bool option" where
  "DomainEnumQuery qname = do {
     count \<leftarrow> CountLabels qname 0;
     if count < 4 then Some False
     else do {
       first \<leftarrow> deq_label mDNS_DEQLabels qname 0;
       if \<not> first then Some False
       else do {
         p \<leftarrow> next_label qname 0;
         second \<leftarrow> SameDomainLabel qname p [7, 0x5F, 0x64, 0x6E, 0x73, 0x2D, 0x73, 0x64] 0;
         if \<not> second then Some False
         else do {
           p \<leftarrow> next_label qname p;
           SameDomainLabel qname p [4, 0x5F, 0x75, 0x64, 0x70] 0
         }
       }
     }
   }"

section \<open>The valid servers of a question\<close>

record valid_state =
  vs_bestmatchlen :: int
  vs_index :: nat
  vs_timeout :: u32
  vs_bits :: "u32 list"

definition server_deleted :: "dns_server \<Rightarrow> bool" where
  "server_deleted s \<longleftrightarrow> ds_flags s AND DNSServer_FlagDelete \<noteq> 0"

definition valid_for_question :: "bool \<Rightarrow> u64 \<Rightarrow> dns_server \<Rightarrow> bool" where
  "valid_for_question DEQuery iface s \<longleftrightarrow> (\<not> DEQuery \<or> \<not> ds_cellIntf s)
    \<and> (\<not> ds_scoped s \<and> (iface = 0 \<or> iface = mDNSInterface_Unicast) \<or> ds_interface s = iface)"

definition valid_server :: "bool \<Rightarrow> u64 \<Rightarrow> bytes \<Rightarrow> int \<Rightarrow> dns_server \<Rightarrow> valid_state \<Rightarrow> valid_state option" where
  "valid_server DEQuery iface qname namecount cur s = do {
     currcount \<leftarrow> CountLabels (ds_domain cur) 0;
     if valid_for_question DEQuery iface cur then do {
       bettermatch \<leftarrow> BetterMatchForName qname namecount (ds_domain cur) currcount (vs_bestmatchlen s);
       if bettermatch = 1 \<or> bettermatch = 0 then do {
         let s = s\<lparr>vs_bestmatchlen := currcount\<rparr>;
         let s = (if bettermatch \<noteq> 0 then s\<lparr>vs_bits := zeroOpaque64, vs_timeout := 0\<rparr> else s);
         bits \<leftarrow> bit_set_opaque64 (vs_bits s) (vs_index s);
         Some (s\<lparr>vs_timeout := vs_timeout s + ds_timeout cur, vs_bits := bits, vs_index := vs_index s + 1\<rparr>)
       } else Some (s\<lparr>vs_index := vs_index s + 1\<rparr>)
     } else Some (s\<lparr>vs_index := vs_index s + 1\<rparr>)
   }"

fun valid_loop :: "bool \<Rightarrow> u64 \<Rightarrow> bytes \<Rightarrow> int \<Rightarrow> dns_server list \<Rightarrow> valid_state \<Rightarrow> valid_state option" where
  "valid_loop DEQuery iface qname namecount [] s = Some s"
| "valid_loop DEQuery iface qname namecount (cur # rest) s =
     (if server_deleted cur then valid_loop DEQuery iface qname namecount rest s
      else if ds_scoped cur \<and> ds_interface cur = 0 then valid_loop DEQuery iface qname namecount rest s
      else do { s \<leftarrow> valid_server DEQuery iface qname namecount cur s; valid_loop DEQuery iface qname namecount rest s })"

text \<open>The new \<open>validDNSServers\<close> and \<open>noServerResponse\<close> of the question and the timeout that is returned\<close>

definition SetValidDNSServers :: "dns_server list \<Rightarrow> question \<Rightarrow> (u32 list \<times> u16 \<times> u32) option" where
  "SetValidDNSServers servers q = do {
     namecount \<leftarrow> CountLabels (q_qname q) 0;
     DEQuery \<leftarrow> DomainEnumQuery (q_qname q);
     s \<leftarrow> valid_loop DEQuery (q_InterfaceID q) (q_qname q) namecount servers
       \<lparr>vs_bestmatchlen = - 1, vs_index = 0, vs_timeout = 0, vs_bits = zeroOpaque64\<rparr>;
     Some (vs_bits s, 0, if q_ValidatingResponse q then DEFAULT_UDNSSEC_TIMEOUT
       else if vs_timeout s \<noteq> 0 then vs_timeout s else DEFAULT_UDNS_TIMEOUT)
   }"

section \<open>The best server\<close>

record best_state =
  bs_curmatch :: "nat option"
  bs_bestmatchlen :: int
  bs_bestPenaltyTime :: s32
  bs_index :: nat
  bs_currindex :: int

definition take_server :: "s32 \<Rightarrow> bytes \<Rightarrow> int \<Rightarrow> bool \<Rightarrow> nat \<Rightarrow> dns_server \<Rightarrow> int \<Rightarrow> s32 \<Rightarrow> best_state \<Rightarrow> best_state option" where
  "take_server timenow name namecount nameMatch pos cur currcount currPenaltyTime s = do {
     bettermatch \<leftarrow> (if nameMatch then BetterMatchForName name namecount (ds_domain cur) currcount (bs_bestmatchlen s) else Some 0);
     Some (if bettermatch = 1 \<or> bettermatch = 0 \<and> sint currPenaltyTime < sint (bs_bestPenaltyTime s)
       then s\<lparr>bs_currindex := int (bs_index s), bs_curmatch := Some pos, bs_bestmatchlen := currcount, bs_bestPenaltyTime := currPenaltyTime\<rparr>
       else s)
   }"

fun best_loop ::
  "s32 \<Rightarrow> bytes \<Rightarrow> int \<Rightarrow> u64 \<Rightarrow> u32 list \<Rightarrow> bool \<Rightarrow> nat \<Rightarrow> dns_server list \<Rightarrow> best_state \<Rightarrow> (dns_server list \<times> best_state) option" where
  "best_loop timenow name namecount iface validBits nameMatch pos [] s = Some ([], s)"
| "best_loop timenow name namecount iface validBits nameMatch pos (cur # rest) s =
     (if server_deleted cur then do {
        (rest, s) \<leftarrow> best_loop timenow name namecount iface validBits nameMatch (pos + 1) rest s;
        Some (cur # rest, s)
      } else do {
        valid \<leftarrow> bit_get_opaque64 validBits (bs_index s);
        if \<not> valid then do {
          (rest, s) \<leftarrow> best_loop timenow name namecount iface validBits nameMatch (pos + 1) rest (s\<lparr>bs_index := bs_index s + 1\<rparr>);
          Some (cur # rest, s)
        } else do {
          currcount \<leftarrow> CountLabels (ds_domain cur) 0;
          let (penalty, cur) = PenaltyTimeForServer timenow cur;
          s \<leftarrow> (if \<not> ds_scoped cur \<and> iface = 0 \<or> ds_interface cur = iface
            then take_server timenow name namecount nameMatch pos cur currcount penalty s else Some s);
          (rest, s) \<leftarrow> best_loop timenow name namecount iface validBits nameMatch (pos + 1) rest (s\<lparr>bs_index := bs_index s + 1\<rparr>);
          Some (cur # rest, s)
        }
      })"

text \<open>The servers afterwards, the position of the match and the index selected\<close>

definition GetBestServer :: "s32 \<Rightarrow> dns_server list \<Rightarrow> bytes \<Rightarrow> u64 \<Rightarrow> u32 list \<Rightarrow> bool \<Rightarrow> (dns_server list \<times> nat option \<times> int) option" where
  "GetBestServer timenow servers name iface validBits nameMatch = do {
     namecount \<leftarrow> CountLabels name 0;
     (servers, s) \<leftarrow> best_loop timenow name namecount iface validBits nameMatch 0 servers
       \<lparr>bs_curmatch = None, bs_bestmatchlen = - 1, bs_bestPenaltyTime = DNSSERVER_PENALTY_TIME + 1, bs_index = 0, bs_currindex = - 1\<rparr>;
     Some (servers, bs_curmatch s, bs_currindex s)
   }"

definition any_interface :: "u64 \<Rightarrow> u64" where
  "any_interface iface = (if iface = mDNSInterface_Unicast \<or> iface = mDNSInterface_LocalOnly then 0 else iface)"

definition GetServerForName :: "s32 \<Rightarrow> dns_server list \<Rightarrow> bytes \<Rightarrow> u64 \<Rightarrow> (dns_server list \<times> nat option) option" where
  "GetServerForName timenow servers name iface = do {
     (servers, curmatch, _) \<leftarrow> GetBestServer timenow servers name (any_interface iface) [0xFFFFFFFF, 0xFFFFFFFF] True;
     Some (servers, curmatch)
   }"

text \<open>The servers, the match and the valid servers that are left\<close>

definition GetServerForQuestion :: "s32 \<Rightarrow> dns_server list \<Rightarrow> question \<Rightarrow> u32 list \<Rightarrow> (dns_server list \<times> nat option \<times> u32 list) option" where
  "GetServerForQuestion timenow servers q validBits =
     (if validBits = [0, 0] then Some (servers, None, validBits)
      else do {
        (servers, curmatch, currindex) \<leftarrow> GetBestServer timenow servers (q_qname q) (any_interface (q_InterfaceID q)) validBits False;
        validBits \<leftarrow> (if currindex \<noteq> - 1 then bit_clr_opaque64 validBits (nat currindex) else Some validBits);
        Some (servers, curmatch, validBits)
      })"

end
