(* ===== verification/Mdns_Server_Props.thy ===== *)
theory Mdns_Server_Props imports Mdns_Server Dns_Wire "HOL-Library.Sublist" "HOL-Library.Product_Lexorder" begin

text \<open>
  The choice of a DNS server as the first least element of a list of keys, and the valid bits of a question
  as a set of servers.
\<close>

section \<open>The first least key\<close>

text \<open>A position without a key is no candidate.\<close>

definition take_least :: "nat \<Rightarrow> 'k option \<Rightarrow> (nat \<times> ('k::linorder)) option \<Rightarrow> (nat \<times> 'k) option" where
  "take_least pos x b = (case x of None \<Rightarrow> b
     | Some k \<Rightarrow> (case b of None \<Rightarrow> Some (pos, k) | Some (_, k') \<Rightarrow> if k < k' then Some (pos, k) else b))"

fun first_least :: "('k::linorder) option list \<Rightarrow> nat \<Rightarrow> (nat \<times> 'k) option \<Rightarrow> (nat \<times> 'k) option" where
  "first_least [] pos b = b"
| "first_least (x # xs) pos b = first_least xs (Suc pos) (take_least pos x b)"

definition is_first_least :: "('k::linorder) option list \<Rightarrow> (nat \<times> 'k) option \<Rightarrow> bool" where
  "is_first_least xs b \<longleftrightarrow> (case b of None \<Rightarrow> \<forall>x \<in> set xs. x = None
    | Some (p, k) \<Rightarrow> p < length xs \<and> xs ! p = Some k
        \<and> (\<forall>q k'. q < length xs \<longrightarrow> xs ! q = Some k' \<longrightarrow> k < k' \<or> k = k' \<and> p \<le> q))"

lemma first_least_snoc:
  "first_least (xs @ [x]) pos b = take_least (pos + length xs) x (first_least xs pos b)"
  by (induction xs arbitrary: pos b) auto

lemma is_first_least_snoc:
  assumes "is_first_least xs b"
  shows "is_first_least (xs @ [x]) (take_least (length xs) x b)"
proof (cases x)
  case None
  with assms show ?thesis
    by (auto simp: take_least_def is_first_least_def nth_append less_Suc_eq split: option.splits)
next
  case x: (Some k)
  show ?thesis
  proof (cases b)
    case None
    with assms x show ?thesis
      by (fastforce simp: take_least_def is_first_least_def nth_append less_Suc_eq dest: nth_mem)
  next
    case (Some pk)
    obtain p k' where b: "b = Some (p, k')" using Some by (cases pk) auto
    with assms have l: "p < length xs" "xs ! p = Some k'"
      "\<And>q k''. q < length xs \<Longrightarrow> xs ! q = Some k'' \<Longrightarrow> k' < k'' \<or> k' = k'' \<and> p \<le> q"
      by (simp_all add: is_first_least_def)
    have "k < k''" if "k < k'" "q < length xs" "xs ! q = Some k''" for q k''
      using l(3) [OF that(2,3)] that(1) by auto
    with l show ?thesis unfolding b x
      by (auto simp: take_least_def is_first_least_def nth_append less_Suc_eq)
  qed
qed

lemma first_least_correct: "is_first_least xs (first_least xs 0 None)"
proof (induction xs rule: rev_induct)
  case Nil
  then show ?case by (simp add: is_first_least_def)
next
  case (snoc x xs)
  then show ?case using is_first_least_snoc [OF snoc, of x] by (simp add: first_least_snoc)
qed

section \<open>Matching a domain\<close>

abbreviation in_domain :: "bytes list \<Rightarrow> bytes list \<Rightarrow> bool" where
  "in_domain ls ds \<equiv> suffix (fold_name ds) (fold_name ls)"

lemma in_domain_drop:
  assumes "length ds \<le> length ls"
  shows "in_domain ls ds \<longleftrightarrow> fold_name (drop (length ls - length ds) ls) = fold_name ds"
proof
  assume "in_domain ls ds"
  then obtain zs where "fold_name ls = zs @ fold_name ds" by (auto simp: suffix_def)
  moreover from this have "length zs = length ls - length ds" by (metis add_diff_cancel_right' length_append length_map)
  ultimately show "fold_name (drop (length ls - length ds) ls) = fold_name ds" by (metis append_eq_conv_conj drop_map)
next
  assume "fold_name (drop (length ls - length ds) ls) = fold_name ds"
  then show "in_domain ls ds" by (metis drop_map suffix_drop)
qed

lemma wire_len_drop: "wire_len (drop n ls) \<le> wire_len ls"
proof (induction ls arbitrary: n)
  case (Cons l ls)
  then show ?case by (cases n) (auto simp: le_Suc_eq trans_le_add2)
qed simp

lemma BetterMatchForName_spec:
  assumes "name_at name 0 ls" "wire_len ls \<le> 256" "name_at dn 0 ds"
  shows "BetterMatchForName name (int (length ls)) dn (int (length ds)) best
    = Some (if int (length ds) < best \<or> \<not> in_domain ls ds then - 1 else if best = int (length ds) then 0 else 1)"
proof (cases "length ls < length ds \<or> int (length ds) < best")
  case True
  then show ?thesis using suffix_length_le [of "fold_name ds" "fold_name ls"] by (auto simp: BetterMatchForName_def)
next
  case False
  obtain j where j: "SkipLeadingLabels name 0 (int (length ls - length ds)) = Some j" "name_at name j (drop (length ls - length ds) ls)"
    using SkipLeadingLabels_name [OF assms(1), of "length ls - length ds"] by auto
  have "wire_len (drop (length ls - length ds) ls) \<le> 256" using assms(2) wire_len_drop le_trans by blast
  then have "SameDomainName name j dn 0 = Some (in_domain ls ds)"
    using SameDomainName_iff [OF j(2) assms(3)] in_domain_drop False by simp
  with False j(1) show ?thesis by (simp add: BetterMatchForName_def of_nat_diff)
qed

lemma CountLabels_server: "name_at dn 0 ds \<Longrightarrow> CountLabels dn 0 = Some (int (length ds))"
  by (rule CountLabels_name)

section \<open>The best server\<close>

definition penalty :: "s32 \<Rightarrow> dns_server \<Rightarrow> int" where
  "penalty timenow s = sint (fst (PenaltyTimeForServer timenow s))"

definition matches_interface :: "u64 \<Rightarrow> dns_server \<Rightarrow> bool" where
  "matches_interface iface s \<longleftrightarrow> \<not> ds_scoped s \<and> iface = 0 \<or> ds_interface s = iface"

definition op_bit :: "u32 list \<Rightarrow> nat \<Rightarrow> bool" where
  "op_bit op i \<longleftrightarrow> bit (op ! (i div 32)) (i mod 32)"

lemma bit_get_op_bit: "length op = 2 \<Longrightarrow> i < 64 \<Longrightarrow> bit_get_opaque64 op i = Some (op_bit op i)"
  by (auto simp: bit_get_opaque64_def op_bit_def bit_iff_and_push_bit_not_eq_0)

text \<open>The key of a server, if it can be chosen: the longest domain first, then the least penalty\<close>

definition name_key :: "s32 \<Rightarrow> bytes list \<Rightarrow> u64 \<Rightarrow> dns_server \<Rightarrow> bytes list \<Rightarrow> (int \<times> int) option" where
  "name_key timenow ls iface s ds =
     (if \<not> server_deleted s \<and> matches_interface iface s \<and> in_domain ls ds then Some (- int (length ds), penalty timenow s) else None)"

definition valid_key :: "s32 \<Rightarrow> u64 \<Rightarrow> dns_server \<Rightarrow> int option" where
  "valid_key timenow iface s =
     (if \<not> server_deleted s \<and> matches_interface iface s \<and> penalty timenow s \<le> sint DNSSERVER_PENALTY_TIME
      then Some (penalty timenow s) else None)"

definition counted :: "dns_server list \<Rightarrow> nat" where
  "counted ss = length (filter (\<lambda>s. \<not> server_deleted s) ss)"

lemma counted_simps [simp]: "counted [] = 0" "counted (s # ss) = (if server_deleted s then counted ss else Suc (counted ss))"
  by (auto simp: counted_def)

definition maybe_reset :: "s32 \<Rightarrow> dns_server list \<Rightarrow> dns_server list \<Rightarrow> bool" where
  "maybe_reset timenow = list_all2 (\<lambda>s s'. s' = s \<or> s' = snd (PenaltyTimeForServer timenow s))"

lemma maybe_reset_simps [simp]:
  "maybe_reset timenow [] ss' \<longleftrightarrow> ss' = []"
  "maybe_reset timenow (s # ss) (s' # ss') \<longleftrightarrow> (s' = s \<or> s' = snd (PenaltyTimeForServer timenow s)) \<and> maybe_reset timenow ss ss'"
  by (auto simp: maybe_reset_def)

lemma PenaltyTimeForServer_keeps:
  "PenaltyTimeForServer timenow s = (p, s') \<Longrightarrow>
     ds_interface s' = ds_interface s \<and> ds_scoped s' = ds_scoped s \<and> ds_domain s' = ds_domain s \<and> ds_flags s' = ds_flags s"
  by (auto simp: PenaltyTimeForServer_def Let_def split: if_splits)

text \<open>The state of the loop that stands for a choice\<close>

definition name_choice :: "best_state \<Rightarrow> (nat \<times> int \<times> int) option \<Rightarrow> bool" where
  "name_choice s b \<longleftrightarrow> (case b of None \<Rightarrow> bs_curmatch s = None \<and> bs_bestmatchlen s = - 1
     | Some (p, k, pen) \<Rightarrow> bs_curmatch s = Some p \<and> bs_bestmatchlen s = - k \<and> sint (bs_bestPenaltyTime s) = pen)"

definition valid_choice :: "(nat \<Rightarrow> nat) \<Rightarrow> best_state \<Rightarrow> (nat \<times> int) option \<Rightarrow> bool" where
  "valid_choice idx s b \<longleftrightarrow> (case b of
       None \<Rightarrow> bs_curmatch s = None \<and> bs_currindex s = - 1 \<and> bs_bestPenaltyTime s = DNSSERVER_PENALTY_TIME + 1
     | Some (p, pen) \<Rightarrow> bs_curmatch s = Some p \<and> bs_currindex s = int (idx p) \<and> sint (bs_bestPenaltyTime s) = pen
         \<and> pen \<le> sint DNSSERVER_PENALTY_TIME)"

lemma take_server_name:
  assumes "name_at name 0 ls" "wire_len ls \<le> 256" "name_at (ds_domain cur) 0 ds" "name_choice s b"
  shows "\<exists>s'. take_server timenow name (int (length ls)) True pos cur (int (length ds)) pen s = Some s'
    \<and> name_choice s' (take_least pos (if in_domain ls ds then Some (- int (length ds), sint pen) else None) b)
    \<and> bs_index s' = bs_index s"
  using assms(4) BetterMatchForName_spec [OF assms(1-3)]
  by (auto simp: take_server_def take_least_def name_choice_def split: option.splits prod.splits)

lemma take_server_valid:
  assumes "valid_choice idx s b" "idx pos = bs_index s"
  shows "\<exists>s'. take_server timenow name namecount False pos cur currcount pen s = Some s'
    \<and> valid_choice idx s' (take_least pos (if sint pen \<le> sint DNSSERVER_PENALTY_TIME then Some (sint pen) else None) b)
    \<and> bs_index s' = bs_index s"
proof -
  have "sint (DNSSERVER_PENALTY_TIME + 1) = sint DNSSERVER_PENALTY_TIME + 1"
    by (simp add: DNSSERVER_PENALTY_TIME_def mDNSPlatformOneSecond_def)
  with assms show ?thesis
    by (auto simp: take_server_def take_least_def valid_choice_def split: option.splits prod.splits)
qed

text \<open>Choices do not depend on the index that the loop has reached.\<close>

lemma choice_index [simp]:
  "name_choice (s\<lparr>bs_index := i\<rparr>) b = name_choice s b" "valid_choice idx (s\<lparr>bs_index := i\<rparr>) c = valid_choice idx s c"
  by (auto simp: name_choice_def valid_choice_def split: option.splits)

lemma best_loop_name:
  assumes "name_at name 0 ls" "wire_len ls \<le> 256"
  shows "list_all2 (\<lambda>s ds. name_at (ds_domain s) 0 ds) ss dss \<Longrightarrow> name_choice s b \<Longrightarrow> bs_index s + length ss \<le> 64 \<Longrightarrow>
    length bits = 2 \<Longrightarrow> \<forall>i<64. op_bit bits i \<Longrightarrow>
    \<exists>ss' s'. best_loop timenow name (int (length ls)) iface bits True pos ss s = Some (ss', s')
      \<and> maybe_reset timenow ss ss' \<and> name_choice s' (first_least (map2 (name_key timenow ls iface) ss dss) pos b)"
proof (induction ss dss arbitrary: pos s b rule: list_all2_induct)
  case Nil
  then show ?case by simp
next
  case (Cons cur ss ds dss)
  show ?case
  proof (cases "server_deleted cur")
    case True
    with Cons.IH [of s b "Suc pos"] Cons.prems show ?thesis
      by (auto simp: name_key_def take_least_def)
  next
    case False
    obtain pen cur' where pen: "PenaltyTimeForServer timenow cur = (pen, cur')" by fastforce
    note keeps = PenaltyTimeForServer_keeps [OF pen]
    have bit: "bit_get_opaque64 bits (bs_index s) = Some True"
      using Cons.prems by (simp add: bit_get_op_bit)
    have "name_at (ds_domain cur') 0 ds" using Cons.hyps keeps by simp
    from take_server_name [OF assms this Cons.prems(1), of timenow pos pen]
    obtain s1 where s1: "take_server timenow name (int (length ls)) True pos cur' (int (length ds)) pen s = Some s1"
      "name_choice s1 (take_least pos (if in_domain ls ds then Some (- int (length ds), sint pen) else None) b)" "bs_index s1 = bs_index s"
      by blast
    define s2 where "s2 = (if matches_interface iface cur then s1 else s)"
    have s2: "name_choice s2 (take_least pos (name_key timenow ls iface cur ds) b)" "bs_index s2 = bs_index s"
      using s1 Cons.prems(1) False pen by (auto simp: s2_def name_key_def penalty_def take_least_def)
    from Cons.IH [of "s2\<lparr>bs_index := bs_index s + 1\<rparr>" _ "Suc pos"] s2 Cons.prems
    obtain ss' s' where rest: "best_loop timenow name (int (length ls)) iface bits True (Suc pos) ss (s2\<lparr>bs_index := bs_index s + 1\<rparr>) = Some (ss', s')"
      "maybe_reset timenow ss ss'"
      "name_choice s' (first_least (map2 (name_key timenow ls iface) ss dss) (Suc pos) (take_least pos (name_key timenow ls iface cur ds) b))"
      by fastforce
    show ?thesis
      using False bit pen keeps s1(1) rest s2(2) CountLabels_name [OF Cons.hyps(1)]
      by (auto simp: s2_def matches_interface_def)
  qed
qed

fun valid_keys :: "s32 \<Rightarrow> u64 \<Rightarrow> u32 list \<Rightarrow> nat \<Rightarrow> dns_server list \<Rightarrow> int option list" where
  "valid_keys timenow iface bits i [] = []"
| "valid_keys timenow iface bits i (s # ss) =
     (if server_deleted s then None # valid_keys timenow iface bits i ss
      else (if op_bit bits i then valid_key timenow iface s else None) # valid_keys timenow iface bits (Suc i) ss)"

lemma length_valid_keys [simp]: "length (valid_keys timenow iface bits i ss) = length ss"
  by (induction ss arbitrary: i) auto

lemma nth_valid_keys:
  "p < length ss \<Longrightarrow> valid_keys timenow iface bits i ss ! p =
     (if op_bit bits (i + counted (take p ss)) then valid_key timenow iface (ss ! p) else None)"
proof (induction ss arbitrary: i p)
  case (Cons s ss)
  then show ?case by (cases p) (auto simp: valid_key_def)
qed simp

lemma best_loop_valid:
  "\<forall>s \<in> set ss. CountLabels (ds_domain s) 0 \<noteq> None \<Longrightarrow> valid_choice idx s b \<Longrightarrow> bs_index s + length ss \<le> 64 \<Longrightarrow>
    length bits = 2 \<Longrightarrow> \<forall>j<length ss. idx (pos + j) = bs_index s + counted (take j ss) \<Longrightarrow>
    \<exists>ss' s'. best_loop timenow name namecount iface bits False pos ss s = Some (ss', s')
      \<and> maybe_reset timenow ss ss' \<and> valid_choice idx s' (first_least (valid_keys timenow iface bits (bs_index s) ss) pos b)"
proof (induction ss arbitrary: pos s b)
  case Nil
  then show ?case by simp
next
  case (Cons cur ss)
  have idx: "idx (Suc pos + j) = bs_index s + (if server_deleted cur then 0 else 1) + counted (take j ss)" if "j < length ss" for j
    using spec [OF Cons.prems(5), of "Suc j"] that by auto
  show ?case
  proof (cases "server_deleted cur")
    case True
    have "\<forall>j<length ss. idx (Suc pos + j) = bs_index s + counted (take j ss)" using idx True by simp
    with Cons.IH [of s b "Suc pos"] Cons.prems True show ?thesis by (auto simp: take_least_def)
  next
    case False
    define i where "i = bs_index s"
    obtain pen cur' where pen: "PenaltyTimeForServer timenow cur = (pen, cur')" by fastforce
    note keeps = PenaltyTimeForServer_keeps [OF pen]
    have bit: "bit_get_opaque64 bits i = Some (op_bit bits i)"
      using Cons.prems by (simp add: bit_get_op_bit i_def)
    obtain n where n: "CountLabels (ds_domain cur) 0 = Some n" using Cons.prems(1) by auto
    have "idx pos = i" using spec [OF Cons.prems(5), of 0] by (simp add: i_def)
    from take_server_valid [OF Cons.prems(2) this [unfolded i_def], of timenow name namecount cur' n pen]
    obtain s1 where s1: "take_server timenow name namecount False pos cur' n pen s = Some s1"
      "valid_choice idx s1 (take_least pos (if sint pen \<le> sint DNSSERVER_PENALTY_TIME then Some (sint pen) else None) b)" "bs_index s1 = bs_index s"
      by blast
    define s2 where "s2 = (if op_bit bits i \<and> matches_interface iface cur then s1 else s)\<lparr>bs_index := Suc i\<rparr>"
    have s2: "valid_choice idx s2 (take_least pos (if op_bit bits i then valid_key timenow iface cur else None) b)" "bs_index s2 = Suc i"
      using s1 Cons.prems(2) False pen by (auto simp: s2_def valid_key_def penalty_def take_least_def)
    have "\<forall>j<length ss. idx (Suc pos + j) = bs_index s2 + counted (take j ss)" using idx False s2(2) by (simp add: i_def)
    from Cons.IH [OF _ s2(1) _ _ this] s2(2) Cons.prems
    obtain ss' s' where rest: "best_loop timenow name namecount iface bits False (Suc pos) ss s2 = Some (ss', s')"
      "maybe_reset timenow ss ss'"
      "valid_choice idx s' (first_least (valid_keys timenow iface bits (bs_index s2) ss) (Suc pos)
         (take_least pos (if op_bit bits i then valid_key timenow iface cur else None) b))"
      by (fastforce simp: i_def)
    show ?thesis
    proof (cases "op_bit bits i")
      case True
      with False bit pen keeps s1(1,3) rest s2(2) n show ?thesis
        by (auto simp: s2_def matches_interface_def i_def)
    next
      case False': False
      with False bit rest s2(2) show ?thesis by (auto simp: s2_def i_def)
    qed
  qed
qed

section \<open>The valid bits of a question\<close>

text \<open>The servers that \<open>SetValidDNSServers\<close> counts, and the longest domain among the valid ones that match\<close>

definition considered :: "dns_server \<Rightarrow> bool" where
  "considered s \<longleftrightarrow> \<not> server_deleted s \<and> \<not> (ds_scoped s \<and> ds_interface s = 0)"

definition answers_for :: "bool \<Rightarrow> u64 \<Rightarrow> bytes list \<Rightarrow> dns_server \<times> bytes list \<Rightarrow> bool" where
  "answers_for deq iface ls x \<longleftrightarrow> valid_for_question deq iface (fst x) \<and> in_domain ls (snd x)"

definition longest :: "bool \<Rightarrow> u64 \<Rightarrow> bytes list \<Rightarrow> (dns_server \<times> bytes list) list \<Rightarrow> int" where
  "longest deq iface ls xs = Max (insert (- 1) ((\<lambda>x. int (length (snd x))) ` {x \<in> set xs. answers_for deq iface ls x}))"

definition best_valid :: "bool \<Rightarrow> u64 \<Rightarrow> bytes list \<Rightarrow> (dns_server \<times> bytes list) list \<Rightarrow> nat \<Rightarrow> bool" where
  "best_valid deq iface ls xs j \<longleftrightarrow> j < length xs \<and> answers_for deq iface ls (xs ! j)
     \<and> int (length (snd (xs ! j))) = longest deq iface ls xs"

text \<open>What the state of the loop says of the servers that were counted\<close>

definition describes :: "bool \<Rightarrow> u64 \<Rightarrow> bytes list \<Rightarrow> (dns_server \<times> bytes list) list \<Rightarrow> valid_state \<Rightarrow> bool" where
  "describes deq iface ls xs s \<longleftrightarrow> vs_index s = length xs \<and> vs_bestmatchlen s = longest deq iface ls xs
     \<and> length (vs_bits s) = 2 \<and> (\<forall>j<64. op_bit (vs_bits s) j = best_valid deq iface ls xs j)"

lemma longest_Nil [simp]: "longest deq iface ls [] = - 1"
  by (simp add: longest_def)

lemma longest_ge: "- 1 \<le> longest deq iface ls xs"
  by (simp add: longest_def)

lemma longest_snoc:
  "longest deq iface ls (xs @ [x]) =
     (if answers_for deq iface ls x then max (int (length (snd x))) (longest deq iface ls xs) else longest deq iface ls xs)"
proof -
  have "{y. (y = x \<or> y \<in> set xs) \<and> answers_for deq iface ls y}
      = (if answers_for deq iface ls x then insert x {y \<in> set xs. answers_for deq iface ls y} else {y \<in> set xs. answers_for deq iface ls y})"
    by auto
  moreover have "Max (insert (- 1) (insert n A)) = max n (Max (insert (- 1) A))" if "finite A" for n :: int and A
    using that by (subst insert_commute) (rule Max_insert, auto)
  ultimately show ?thesis by (simp add: longest_def)
qed

lemma bit_power_u32: "m < 32 \<Longrightarrow> bit ((2::u32) ^ m) n \<longleftrightarrow> n = m"
  by (auto simp: bit_exp_iff)

lemma same_bit: "(i::nat) div 32 = j div 32 \<Longrightarrow> i mod 32 = j mod 32 \<Longrightarrow> i = j"
  by (metis div_mult_mod_eq)

lemma op_bit_set:
  assumes "length op = 2" "i < 64"
  obtains op' where "bit_set_opaque64 op i = Some op'" "length op' = 2" "\<And>j. j < 64 \<Longrightarrow> op_bit op' j = (j = i \<or> op_bit op j)"
proof
  show "bit_set_opaque64 op i = Some (op[i div 32 := op ! (i div 32) OR push_bit (i mod 32) 1])"
    using assms by (auto simp: bit_set_opaque64_def)
  fix j :: nat assume "j < 64"
  then show "op_bit (op[i div 32 := op ! (i div 32) OR push_bit (i mod 32) 1]) j = (j = i \<or> op_bit op j)"
    using assms by (auto simp: op_bit_def nth_list_update bit_or_iff bit_power_u32 dest: same_bit)
qed (use assms in simp)

lemma op_bit_clr:
  assumes "length op = 2" "i < 64"
  obtains op' where "bit_clr_opaque64 op i = Some op'" "length op' = 2" "\<And>j. j < 64 \<Longrightarrow> op_bit op' j = (j \<noteq> i \<and> op_bit op j)"
proof
  show "bit_clr_opaque64 op i = Some (op[i div 32 := op ! (i div 32) AND NOT (push_bit (i mod 32) 1)])"
    using assms by (auto simp: bit_clr_opaque64_def)
  fix j :: nat assume "j < 64"
  then show "op_bit (op[i div 32 := op ! (i div 32) AND NOT (push_bit (i mod 32) 1)]) j = (j \<noteq> i \<and> op_bit op j)"
    using assms by (auto simp: op_bit_def nth_list_update bit_and_iff bit_not_iff bit_power_u32 dest: same_bit)
qed (use assms in simp)

lemma longest_upper: "x \<in> set xs \<Longrightarrow> answers_for deq iface ls x \<Longrightarrow> int (length (snd x)) \<le> longest deq iface ls xs"
  by (auto simp: longest_def intro: Max_ge)

lemma best_valid_snoc:
  "best_valid deq iface ls (xs @ [x]) j =
     (if j = length xs then answers_for deq iface ls x \<and> longest deq iface ls xs \<le> int (length (snd x))
      else best_valid deq iface ls xs j \<and> (answers_for deq iface ls x \<longrightarrow> int (length (snd x)) \<le> longest deq iface ls xs))"
  using longest_upper [of "xs ! j" xs deq iface ls] by (auto simp: best_valid_def longest_snoc nth_append max_def)

lemma op_bit_zero [simp]: "length zeroOpaque64 = 2" "j < 64 \<Longrightarrow> \<not> op_bit zeroOpaque64 j"
  by (auto simp: zeroOpaque64_def op_bit_def nth_Cons split: nat.splits)

lemma valid_server_describes:
  assumes "name_at name 0 ls" "wire_len ls \<le> 256" "name_at (ds_domain cur) 0 ds"
    and s: "describes deq iface ls xs s" "length xs < 64"
  shows "\<exists>s'. valid_server deq iface name (int (length ls)) cur s = Some s' \<and> describes deq iface ls (xs @ [(cur, ds)]) s'"
proof -
  note better = BetterMatchForName_spec [OF assms(1-3)]
  have d: "vs_index s = length xs" "vs_bestmatchlen s = longest deq iface ls xs" "length (vs_bits s) = 2"
    "\<And>j. j < 64 \<Longrightarrow> op_bit (vs_bits s) j = best_valid deq iface ls xs j" using s(1) by (simp_all add: describes_def)
  have bound: "\<not> best_valid deq iface ls xs (length xs)" by (simp add: best_valid_def)
  show ?thesis
  proof (cases "answers_for deq iface ls (cur, ds) \<and> longest deq iface ls xs \<le> int (length ds)")
    case False
    then show ?thesis using d bound CountLabels_name [OF assms(3)] better
      by (auto simp: valid_server_def describes_def answers_for_def longest_snoc best_valid_snoc)
  next
    case True
    define op where "op = (if longest deq iface ls xs = int (length ds) then vs_bits s else zeroOpaque64)"
    have "length op = 2" using d(3) by (simp add: op_def)
    from op_bit_set [OF this s(2)] obtain op' where op': "bit_set_opaque64 op (length xs) = Some op'" "length op' = 2"
      "\<And>j. j < 64 \<Longrightarrow> op_bit op' j = (j = length xs \<or> op_bit op j)" by blast
    have "op_bit op' j = best_valid deq iface ls (xs @ [(cur, ds)]) j" if "j < 64" for j
      using op'(3) [OF that] that d(4) True by (auto simp: op_def best_valid_snoc)
    then show ?thesis using True d(1,2,3) op' CountLabels_name [OF assms(3)] better
      by (auto simp: valid_server_def describes_def answers_for_def longest_snoc op_def)
  qed
qed

lemma valid_loop_describes:
  assumes "name_at name 0 ls" "wire_len ls \<le> 256"
  shows "list_all2 (\<lambda>s ds. name_at (ds_domain s) 0 ds) ss dss \<Longrightarrow> describes deq iface ls xs s \<Longrightarrow> length xs + length ss \<le> 64 \<Longrightarrow>
    \<exists>s'. valid_loop deq iface name (int (length ls)) ss s = Some s'
      \<and> describes deq iface ls (xs @ filter (\<lambda>x. considered (fst x)) (zip ss dss)) s'"
proof (induction ss dss arbitrary: xs s rule: list_all2_induct)
  case Nil
  then show ?case by simp
next
  case (Cons cur ss ds dss)
  show ?case
  proof (cases "considered cur")
    case True
    from valid_server_describes [OF assms Cons.hyps(1) Cons.prems(1)] Cons.prems(2)
    obtain s1 where s1: "valid_server deq iface name (int (length ls)) cur s = Some s1" "describes deq iface ls (xs @ [(cur, ds)]) s1"
      by auto
    from Cons.IH [OF s1(2)] Cons.prems(2) s1(1) True show ?thesis by (auto simp: considered_def)
  next
    case False
    with Cons.IH [OF Cons.prems(1)] Cons.prems(2) show ?thesis by (auto simp: considered_def)
  qed
qed

section \<open>Domain enumeration\<close>

lemma label_test:
  assumes "name_at buf p (x # xs)" "valid_label l"
  shows "SameDomainLabel (of_nat (length l) # l) 0 buf p = Some (map fold_case l = map fold_case x)"
    "SameDomainLabel buf p (of_nat (length l) # l) 0 = Some (map fold_case x = map fold_case l)"
proof -
  have "read_bytes (of_nat (length l) # l) (Suc 0) (length l) = Some l" by (simp add: read_bytes_def)
  then show "SameDomainLabel (of_nat (length l) # l) 0 buf p = Some (map fold_case l = map fold_case x)"
    "SameDomainLabel buf p (of_nat (length l) # l) 0 = Some (map fold_case x = map fold_case l)"
    using assms SameDomainLabel_iff [of "of_nat (length l) # l" 0 l buf p x] SameDomainLabel_iff [of buf p x "of_nat (length l) # l" 0 l]
    by (simp_all add: read_byte_def)
qed

definition deq_prefixes :: "bytes list" where
  "deq_prefixes = [[0x62], [0x64, 0x62], [0x6C, 0x62], [0x72], [0x64, 0x72]]"

lemma deq_label_spec:
  "name_at buf p (x # xs) \<Longrightarrow> \<forall>l \<in> set lab. valid_label l \<Longrightarrow>
     deq_label (map (\<lambda>l. of_nat (length l) # l) lab) buf p = Some (\<exists>l \<in> set lab. map fold_case l = map fold_case x)"
proof (induction lab)
  case (Cons l lab)
  then have "SameDomainLabel (of_nat (length l) # l) 0 buf p = Some (map fold_case l = map fold_case x)"
    by (intro label_test(1) [of buf p x xs]) simp_all
  with Cons show ?case by simp
qed simp

lemma mDNS_DEQLabels_spec: "mDNS_DEQLabels = map (\<lambda>l. of_nat (length l) # l) deq_prefixes"
  by (simp add: mDNS_DEQLabels_def deq_prefixes_def)

lemma next_label_name: "name_at buf p (x # xs) \<Longrightarrow> next_label buf p = Some (Suc p + length x) \<and> name_at buf (Suc p + length x) xs"
  by (auto simp: next_label_def)

lemma DomainEnumQuery_spec:
  assumes "name_at name 0 ls"
  shows "DomainEnumQuery name = Some (4 \<le> length ls \<and> (\<exists>l \<in> set deq_prefixes. map fold_case l = map fold_case (ls ! 0))
    \<and> map fold_case (ls ! 1) = map fold_case [0x5F, 0x64, 0x6E, 0x73, 0x2D, 0x73, 0x64]
    \<and> map fold_case (ls ! 2) = map fold_case [0x5F, 0x75, 0x64, 0x70])"
proof (cases "4 \<le> length ls")
  case False
  then show ?thesis using CountLabels_name [OF assms] by (simp add: DomainEnumQuery_def)
next
  case True
  then obtain a b c xs where ls: "ls = a # b # c # xs"
    by (auto simp: Suc_le_length_iff numeral_eq_Suc)
  with True have xs: "xs \<noteq> []" by auto
  have d1: "\<forall>l \<in> set deq_prefixes. valid_label l" by (simp add: deq_prefixes_def valid_label_def)
  from next_label_name [OF assms [unfolded ls]]
  have n1: "next_label name 0 = Some (Suc 0 + length a)" "name_at name (Suc 0 + length a) (b # c # xs)" by blast+
  from next_label_name [OF n1(2)]
  have n2: "next_label name (Suc 0 + length a) = Some (Suc (Suc 0 + length a) + length b)"
    "name_at name (Suc (Suc 0 + length a) + length b) (c # xs)" by blast+
  have "SameDomainLabel name (Suc 0 + length a) [7, 0x5F, 0x64, 0x6E, 0x73, 0x2D, 0x73, 0x64] 0
      = Some (map fold_case b = map fold_case [0x5F, 0x64, 0x6E, 0x73, 0x2D, 0x73, 0x64])"
    using label_test(2) [OF n1(2), of "[0x5F, 0x64, 0x6E, 0x73, 0x2D, 0x73, 0x64]"] by (simp add: valid_label_def del: list.map)
  moreover have "SameDomainLabel name (Suc (Suc 0 + length a) + length b) [4, 0x5F, 0x75, 0x64, 0x70] 0
      = Some (map fold_case c = map fold_case [0x5F, 0x75, 0x64, 0x70])"
    using label_test(2) [OF n2(2), of "[0x5F, 0x75, 0x64, 0x70]"] by (simp add: valid_label_def del: list.map)
  ultimately show ?thesis
    using True ls xs CountLabels_name [OF assms] deq_label_spec [OF assms [unfolded ls] d1] n1(1) n2(1)
    by (simp add: DomainEnumQuery_def mDNS_DEQLabels_spec numeral_2_eq_2 del: list.map bex_simps)
qed

section \<open>Choices of a server\<close>

lemma GetServerForName_least:
  assumes "name_at name 0 ls" "wire_len ls \<le> 256" "list_all2 (\<lambda>s ds. name_at (ds_domain s) 0 ds) ss dss" "length ss \<le> 64"
  obtains ss' b where "GetServerForName timenow ss name iface = Some (ss', map_option fst b)" "maybe_reset timenow ss ss'"
    "is_first_least (map2 (name_key timenow ls (any_interface iface)) ss dss) b"
proof -
  have bits: "op_bit [0xFFFFFFFF, 0xFFFFFFFF] i" if "i < 64" for i
  proof -
    have i: "i div 32 = 0 \<or> i div 32 = 1" using that by auto
    have "bit (- 1 :: u32) (i mod 32)" unfolding bit_minus_1_iff by simp
    moreover have "(0xFFFFFFFF :: u32) = - 1" by simp
    ultimately have "bit (0xFFFFFFFF :: u32) (i mod 32)" by (simp only:)
    with i show ?thesis unfolding op_bit_def by (elim disjE) simp_all
  qed
  let ?s = "\<lparr>bs_curmatch = None, bs_bestmatchlen = - 1, bs_bestPenaltyTime = DNSSERVER_PENALTY_TIME + 1, bs_index = 0, bs_currindex = - 1\<rparr>"
  have "name_choice ?s None" by (simp add: name_choice_def)
  from best_loop_name [OF assms(1-3) this, of "[0xFFFFFFFF, 0xFFFFFFFF]" timenow "any_interface iface" 0] bits assms(4)
  obtain ss' s' where loop: "best_loop timenow name (int (length ls)) (any_interface iface) [0xFFFFFFFF, 0xFFFFFFFF] True 0 ss ?s = Some (ss', s')"
    "maybe_reset timenow ss ss'"
    "name_choice s' (first_least (map2 (name_key timenow ls (any_interface iface)) ss dss) 0 None)" by auto
  let ?b = "first_least (map2 (name_key timenow ls (any_interface iface)) ss dss) 0 None"
  have "bs_curmatch s' = map_option fst ?b" using loop(3) by (auto simp: name_choice_def split: option.splits)
  with loop(1) have "GetServerForName timenow ss name iface = Some (ss', map_option fst ?b)"
    using CountLabels_name [OF assms(1)] by (simp add: GetServerForName_def GetBestServer_def)
  from that [OF this loop(2) first_least_correct] show thesis .
qed

lemma SetValidDNSServers_bits:
  assumes "name_at (q_qname q) 0 ls" "wire_len ls \<le> 256" "list_all2 (\<lambda>s ds. name_at (ds_domain s) 0 ds) ss dss" "length ss \<le> 64"
    and deq: "DomainEnumQuery (q_qname q) = Some deq"
  obtains bits timeout where "SetValidDNSServers ss q = Some (bits, 0, timeout)" "length bits = 2"
    "\<And>j. j < 64 \<Longrightarrow> op_bit bits j = best_valid deq (q_InterfaceID q) ls (filter (\<lambda>x. considered (fst x)) (zip ss dss)) j"
proof -
  let ?s = "\<lparr>vs_bestmatchlen = - 1, vs_index = 0, vs_timeout = 0, vs_bits = zeroOpaque64\<rparr>"
  have "describes deq (q_InterfaceID q) ls [] ?s" by (simp add: describes_def best_valid_def)
  from valid_loop_describes [OF assms(1-3) this] assms(4)
  obtain s' where "valid_loop deq (q_InterfaceID q) (q_qname q) (int (length ls)) ss ?s = Some s'"
    "describes deq (q_InterfaceID q) ls (filter (\<lambda>x. considered (fst x)) (zip ss dss)) s'" by auto
  then show thesis using that deq CountLabels_name [OF assms(1)] by (simp add: SetValidDNSServers_def describes_def)
qed

text \<open>The index of a position among the servers that are not deleted\<close>

lemma GetServerForQuestion_least:
  assumes "name_at (q_qname q) 0 ls" "\<forall>s \<in> set ss. CountLabels (ds_domain s) 0 \<noteq> None" "length ss \<le> 64" "length bits = 2"
  obtains ss' b bits' where "GetServerForQuestion timenow ss q bits = Some (ss', map_option fst b, bits')" "maybe_reset timenow ss ss'"
    "length bits' = 2" "is_first_least (valid_keys timenow (any_interface (q_InterfaceID q)) bits 0 ss) b"
    "\<And>j. j < 64 \<Longrightarrow> op_bit bits' j = (op_bit bits j \<and> (case b of None \<Rightarrow> True | Some (p, _) \<Rightarrow> j \<noteq> counted (take p ss)))"
proof (cases "bits = [0, 0]")
  case True
  have "op_bit bits j = False" if "j < 64" for j using op_bit_zero(2) [OF that] True by (simp add: zeroOpaque64_def)
  moreover have "counted (take p ss) < 64" if "p < length ss" for p
    using assms(3) that length_filter_le [of "\<lambda>s. \<not> server_deleted s" "take p ss"] by (simp add: counted_def)
  ultimately have "is_first_least (valid_keys timenow (any_interface (q_InterfaceID q)) bits 0 ss) None"
    by (auto simp: is_first_least_def in_set_conv_nth nth_valid_keys)
  moreover have "maybe_reset timenow ss ss" by (simp add: maybe_reset_def list_all2_refl)
  ultimately show thesis using that [of ss None bits] True by (simp add: GetServerForQuestion_def)
next
  case False
  define iface where "iface = any_interface (q_InterfaceID q)"
  let ?s = "\<lparr>bs_curmatch = None, bs_bestmatchlen = - 1, bs_bestPenaltyTime = DNSSERVER_PENALTY_TIME + 1, bs_index = 0, bs_currindex = - 1\<rparr>"
  define b where "b = first_least (valid_keys timenow iface bits 0 ss) 0 None"
  have "valid_choice (\<lambda>p. counted (take p ss)) ?s None" by (simp add: valid_choice_def)
  from best_loop_valid [OF assms(2) this _ assms(4), of 0 timenow "q_qname q" "int (length ls)" iface] assms(3)
  obtain ss' s' where loop: "best_loop timenow (q_qname q) (int (length ls)) iface bits False 0 ss ?s = Some (ss', s')"
    "maybe_reset timenow ss ss'" "valid_choice (\<lambda>p. counted (take p ss)) s' b" by (auto simp: b_def)
  have least: "is_first_least (valid_keys timenow iface bits 0 ss) b" by (simp add: b_def first_least_correct)
  have best: "GetBestServer timenow ss (q_qname q) iface bits False = Some (ss', bs_curmatch s', bs_currindex s')"
    using loop(1) CountLabels_name [OF assms(1)] by (simp add: GetBestServer_def)
  show thesis
  proof (cases b)
    case None
    with best loop(3) least show thesis
      using that [OF _ loop(2), of None bits] False assms(4) by (simp add: GetServerForQuestion_def iface_def valid_choice_def)
  next
    case (Some pk)
    obtain p k where b: "b = Some (p, k)" using Some by (cases pk) auto
    have "p < length ss" using least b by (simp add: is_first_least_def)
    then have "counted (take p ss) < 64"
      using assms(3) length_filter_le [of "\<lambda>s. \<not> server_deleted s" "take p ss"] by (simp add: counted_def)
    from op_bit_clr [OF assms(4) this] obtain bits' where
      "bit_clr_opaque64 bits (counted (take p ss)) = Some bits'" "length bits' = 2"
      "\<And>j. j < 64 \<Longrightarrow> op_bit bits' j = (j \<noteq> counted (take p ss) \<and> op_bit bits j)" by blast
    with best loop(3) least b show thesis
      using that [OF _ loop(2), of b bits'] False by (auto simp: GetServerForQuestion_def iface_def valid_choice_def)
  qed
qed
section \<open>The timeout of a multicast question\<close>

definition resolver_key :: "bytes list \<Rightarrow> bytes list \<Rightarrow> int option" where
  "resolver_key ls ds = (if in_domain ls ds then Some (- int (length ds)) else None)"

lemma mcast_loop_least:
  assumes "name_at name 0 ls" "wire_len ls \<le> 256"
  shows "list_all2 (\<lambda>r ds. name_at (mr_domain r) 0 ds) rs dss \<Longrightarrow> rs = drop pos all \<Longrightarrow>
    (case b of None \<Rightarrow> cur = None \<and> best = - 1 | Some (p, k) \<Rightarrow> cur = Some (all ! p) \<and> best = - k) \<Longrightarrow>
    mcast_loop name (int (length ls)) rs cur best
      = Some (map_option (\<lambda>(p, _). all ! p) (first_least (map (resolver_key ls) dss) pos b))"
proof (induction rs dss arbitrary: pos cur best b rule: list_all2_induct)
  case Nil
  then show ?case by (auto split: option.splits)
next
  case (Cons r rs ds dss)
  have r: "r = all ! pos" "rs = drop (Suc pos) all"
    using Cons.prems(1) by (metis nth_via_drop, metis drop_Suc tl_drop list.sel(3))
  note better = BetterMatchForName_spec [OF assms Cons.hyps(1)]
  show ?case
  proof (cases "in_domain ls ds \<and> (case b of None \<Rightarrow> True | Some (p, k) \<Rightarrow> - int (length ds) < k)")
    case True
    with Cons.prems(2) have "take_least pos (resolver_key ls ds) b = Some (pos, - int (length ds))"
      by (auto simp: take_least_def resolver_key_def split: option.splits)
    moreover have "mcast_loop name (int (length ls)) (r # rs) cur best = mcast_loop name (int (length ls)) rs (Some r) (int (length ds))"
      using True Cons.prems(2) better CountLabels_name [OF Cons.hyps(1)] by (auto split: option.splits)
    moreover have "mcast_loop name (int (length ls)) rs (Some r) (int (length ds))
        = Some (map_option (\<lambda>(p, _). all ! p) (first_least (map (resolver_key ls) dss) (Suc pos) (Some (pos, - int (length ds)))))"
      by (rule Cons.IH [OF r(2)]) (simp add: r(1))
    ultimately show ?thesis by simp
  next
    case False
    with Cons.prems(2) have "take_least pos (resolver_key ls ds) b = b"
      by (auto simp: take_least_def resolver_key_def split: option.splits)
    moreover have "mcast_loop name (int (length ls)) (r # rs) cur best = mcast_loop name (int (length ls)) rs cur best"
      using False Cons.prems(2) better CountLabels_name [OF Cons.hyps(1)] by (auto split: option.splits)
    ultimately show ?thesis using Cons.IH [OF r(2) Cons.prems(2)] by simp
  qed
qed

text \<open>The time that the first of the resolvers with the longest domain gives, or five seconds\<close>

lemma GetTimeoutForMcastQuestion_least:
  assumes "name_at name 0 ls" "wire_len ls \<le> 256" "list_all2 (\<lambda>r ds. name_at (mr_domain r) 0 ds) rs dss"
  obtains b where "is_first_least (map (resolver_key ls) dss) b"
    "GetTimeoutForMcastQuestion rs name = Some (case b of None \<Rightarrow> 5 | Some (p, _) \<Rightarrow> mr_timeout (rs ! p))"
proof
  show "is_first_least (map (resolver_key ls) dss) (first_least (map (resolver_key ls) dss) 0 None)" by (rule first_least_correct)
  show "GetTimeoutForMcastQuestion rs name
      = Some (case first_least (map (resolver_key ls) dss) 0 None of None \<Rightarrow> 5 | Some (p, _) \<Rightarrow> mr_timeout (rs ! p))"
    using mcast_loop_least [OF assms, where pos = 0 and all = rs and b = None and cur = None and best = "- 1"] CountLabels_name [OF assms(1)]
    by (auto simp: GetTimeoutForMcastQuestion_def DEFAULT_MCAST_TIMEOUT_def split: option.splits)
qed

end
