(* ===== verification/Mdns_Cache.thy ===== *)
theory Mdns_Cache imports Mdns_Probe_Props Dns_Wire "HOL-Library.Signed_Division" begin

text \<open>
  mDNS.c: the lifetime of a record in the cache, when it is asked for again and when a doubtful one expires, and the
  memory of queries that other hosts have sent.  Times wrap; debugging messages are left out.
\<close>

section \<open>State\<close>

text \<open>Of \<open>CRActiveQuestion\<close>, a pointer, only whether it is NULL matters here.\<close>

record cache_record =
  cr_resrec :: resource_record
  cr_TimeRcvd :: s32
  cr_NextRequiredQuery :: s32
  cr_CRActiveQuestion :: "nat option"
  cr_UnansweredQueries :: u16

record mdns_cache = mdns +
  m_NextCacheCheck :: s32
  m_RandomReconfirmDelay :: u32
  m_rrcache_nextcheck :: "s32 list"

definition CACHE_HASH_SLOTS :: u32 where "CACHE_HASH_SLOTS = 499"
definition MaxUnansweredQueries :: u16 where "MaxUnansweredQueries = 4"
definition kMinimumReconfirmTime :: u32 where "kMinimumReconfirmTime = mDNSPlatformOneSecond * 5"
definition kLLQ_DefLease :: u32 where "kLLQ_DefLease = 7200"

section \<open>Lifetime\<close>

definition TicksTTL :: "cache_record \<Rightarrow> s32" where
  "TicksTTL rr = rr_rroriginalttl (cr_resrec rr) * mDNSPlatformOneSecond"

definition RRExpireTime :: "cache_record \<Rightarrow> s32" where
  "RRExpireTime rr = cr_TimeRcvd rr + TicksTTL rr"

datatype llq_type = uDNS_LLQ_Not | uDNS_LLQ_Ignore | uDNS_LLQ_Entire | uDNS_LLQ_Events

definition GetEffectiveTTL :: "llq_type \<Rightarrow> u32 \<Rightarrow> u32" where
  "GetEffectiveTTL LLQType ttl =
     (case LLQType of
        uDNS_LLQ_Entire \<Rightarrow> kLLQ_DefLease
      | uDNS_LLQ_Events \<Rightarrow> if ttl = 0xFFFFFFFF then 0 else kLLQ_DefLease
      | _ \<Rightarrow>
          (let ttl = (if ttl > 0x60000000 div mDNSPlatformOneSecond then 0x60000000 div mDNSPlatformOneSecond else ttl);
               ttl = ttl + (ttl div 4 + 2)
           in if ttl < 15 then 15 else ttl))"

text \<open>Signed division by a constant truncates.\<close>

definition sdiv32 :: "s32 \<Rightarrow> int \<Rightarrow> s32" where
  "sdiv32 a n = word_of_int (sint a sdiv n)"

definition CacheCheckGracePeriod :: "cache_record \<Rightarrow> s32" where
  "CacheCheckGracePeriod rr =
     (if cr_CRActiveQuestion rr = None then 60 * mDNSPlatformOneSecond
      else if cr_UnansweredQueries rr < MaxUnansweredQueries then sdiv32 (TicksTTL rr) 50
      else if rr_rroriginalttl (cr_resrec rr) > 10 then mDNSPlatformOneSecond
      else if rr_rroriginalttl (cr_resrec rr) > 0 then mDNSPlatformOneSecond div 10 else 0)"

definition NextCacheCheckEvent :: "cache_record \<Rightarrow> s32" where
  "NextCacheCheckEvent rr = cr_NextRequiredQuery rr + CacheCheckGracePeriod rr"

definition HashSlot :: "bytes \<Rightarrow> u32 option" where
  "HashSlot name = do { h \<leftarrow> DomainNameHashValue name 0; Some (h mod CACHE_HASH_SLOTS) }"

definition ScheduleNextCacheCheckTime :: "mdns_cache \<Rightarrow> u32 \<Rightarrow> s32 \<Rightarrow> mdns_cache option" where
  "ScheduleNextCacheCheckTime m slot event =
     (if unat slot < length (m_rrcache_nextcheck m) then
        (let m = (if sint (m_rrcache_nextcheck m ! unat slot - event) > 0
               then m\<lparr>m_rrcache_nextcheck := (m_rrcache_nextcheck m)[unat slot := event]\<rparr> else m)
         in Some (if sint (m_NextCacheCheck m - event) > 0 then m\<lparr>m_NextCacheCheck := event\<rparr> else m))
      else None)"

definition SetNextCacheCheckTimeForRecord :: "u32 \<Rightarrow> mdns_cache \<Rightarrow> cache_record \<Rightarrow> (mdns_cache \<times> cache_record) option" where
  "SetNextCacheCheckTimeForRecord platform m rr = do {
     let rr = rr\<lparr>cr_NextRequiredQuery := RRExpireTime rr\<rparr>;
     (m, rr) \<leftarrow> (if cr_CRActiveQuestion rr \<noteq> None \<and> cr_UnansweredQueries rr < MaxUnansweredQueries then do {
        (r, st) \<leftarrow> mDNSRandom platform (TicksTTL rr div 50) (m_random m);
        Some (m\<lparr>m_random := st\<rparr>,
          rr\<lparr>cr_NextRequiredQuery := cr_NextRequiredQuery rr
               - sdiv32 (TicksTTL rr) 20 * (ucast MaxUnansweredQueries - ucast (cr_UnansweredQueries rr)) + r\<rparr>)
      } else Some (m, rr));
     slot \<leftarrow> HashSlot (rr_name (cr_resrec rr));
     m \<leftarrow> ScheduleNextCacheCheckTime m slot (NextCacheCheckEvent rr);
     Some (m, rr)
   }"

text \<open>The comparison is of signed values, the multiplications and divisions of the interval are unsigned.\<close>

definition mDNS_Reconfirm_internal :: "u32 \<Rightarrow> mdns_cache \<Rightarrow> cache_record \<Rightarrow> u32 \<Rightarrow> (mdns_cache \<times> cache_record) option" where
  "mDNS_Reconfirm_internal platform m rr interval = do {
     let interval = (if interval < kMinimumReconfirmTime then kMinimumReconfirmTime else interval);
     let interval = (if interval > 0x10000000 then 0x10000000 else interval);
     if sint (RRExpireTime rr - m_timenow m) > sint (interval * 4 div 3) then do {
       m \<leftarrow> (if m_RandomReconfirmDelay m = 0 then do {
           (r, st) \<leftarrow> mDNSRandom platform 0x3FFFFFFF (m_random m);
           Some (m\<lparr>m_random := st, m_RandomReconfirmDelay := 1 + r\<rparr>)
         } else Some m);
       let interval = interval + m_RandomReconfirmDelay m mod (interval div 3 + 1);
       let rr = rr\<lparr>cr_TimeRcvd := m_timenow m - interval * 3,
         cr_resrec := (cr_resrec rr)\<lparr>rr_rroriginalttl := (interval * 4 + mDNSPlatformOneSecond - 1) div mDNSPlatformOneSecond\<rparr>\<rparr>;
       SetNextCacheCheckTimeForRecord platform m rr
     } else Some (m, rr)
   }"

section \<open>Queries of other hosts\<close>

record dup_suppress_info =
  dsi_Time :: s32
  dsi_InterfaceID :: u64
  dsi_Type :: s32

definition duptype_IPv4 :: s32 where "duptype_IPv4 = 4"
definition duptype_IPv6 :: s32 where "duptype_IPv6 = 6"

definition ExpireDupSuppressInfo :: "dup_suppress_info list \<Rightarrow> s32 \<Rightarrow> dup_suppress_info list" where
  "ExpireDupSuppressInfo ds time = map (\<lambda>d. if sint (dsi_Time d - time) < 0 then d\<lparr>dsi_InterfaceID := 0\<rparr> else d) ds"

definition ExpireDupSuppressInfoOnInterface :: "dup_suppress_info list \<Rightarrow> s32 \<Rightarrow> u64 \<Rightarrow> dup_suppress_info list" where
  "ExpireDupSuppressInfoOnInterface ds time iface =
     map (\<lambda>d. if dsi_InterfaceID d = iface \<and> sint (dsi_Time d - time) < 0 then d\<lparr>dsi_InterfaceID := 0\<rparr> else d) ds"

fun suppress_loop :: "dup_suppress_info list \<Rightarrow> u64 \<Rightarrow> bool \<Rightarrow> bool \<Rightarrow> bool" where
  "suppress_loop [] iface v4 v6 = False"
| "suppress_loop (d # ds) iface v4 v6 =
     (if dsi_InterfaceID d = iface then
        (let (v4, v6) = (if dsi_Type d = duptype_IPv4 then (True, v6)
           else if dsi_Type d = duptype_IPv6 then (v4, True) else (v4, v6))
         in if v4 \<and> v6 then True else suppress_loop ds iface v4 v6)
      else suppress_loop ds iface v4 v6)"

text \<open>The interface is given by its identifier and whether it has addresses of either kind.\<close>

definition SuppressOnThisInterface :: "dup_suppress_info list \<Rightarrow> u64 \<Rightarrow> bool \<Rightarrow> bool \<Rightarrow> bool" where
  "SuppressOnThisInterface ds iface ipv4 ipv6 = suppress_loop ds iface (\<not> ipv4) (\<not> ipv6)"

fun find_slot :: "dup_suppress_info list \<Rightarrow> nat \<Rightarrow> u64 \<Rightarrow> s32 \<Rightarrow> nat" where
  "find_slot [] i iface ty = i"
| "find_slot (d # ds) i iface ty = (if dsi_InterfaceID d = iface \<and> dsi_Type d = ty then i else find_slot ds (i + 1) iface ty)"

function reuse_slot :: "dup_suppress_info list \<Rightarrow> nat \<Rightarrow> nat \<Rightarrow> nat" where
  "reuse_slot ds i j =
     (if j < length ds \<and> dsi_InterfaceID (ds ! i) \<noteq> 0 then
        reuse_slot ds (if dsi_InterfaceID (ds ! j) = 0 \<or> sint (dsi_Time (ds ! j) - dsi_Time (ds ! i)) < 0 then j else i) (j + 1)
      else i)"
  by pat_completeness auto

termination reuse_slot
  by (relation "measure (\<lambda>(ds, i, j). length ds - j)") auto

declare reuse_slot.simps [simp del]

definition RecordDupSuppressInfo :: "dup_suppress_info list \<Rightarrow> s32 \<Rightarrow> u64 \<Rightarrow> s32 \<Rightarrow> dup_suppress_info list \<times> nat" where
  "RecordDupSuppressInfo ds time iface ty =
     (let i = find_slot ds 0 iface ty;
          i = (if i \<ge> length ds then reuse_slot ds 0 1 else i)
      in (ds[i := \<lparr>dsi_Time = time, dsi_InterfaceID = iface, dsi_Type = ty\<rparr>], i))"


section \<open>When a record is asked for again\<close>

lemma TicksTTL_unat: "rr_rroriginalttl (cr_resrec rr) \<le> 2097151 \<Longrightarrow> unat (TicksTTL rr) = unat (rr_rroriginalttl (cr_resrec rr)) * 1024"
  by (simp add: TicksTTL_def mDNSPlatformOneSecond_def word_le_nat_alt unat_word_ariths)

lemma small_sint:
  assumes "unat (a :: s32) < 2 ^ 31"
  shows "sint a = int (unat a)"
proof -
  have u: "uint a = int (unat a)" by simp
  have "int (unat a) < 2 ^ 31" using assms by (metis of_nat_less_iff of_nat_numeral of_nat_power)
  then have "uint a < 2 ^ 31" by (simp only: u)
  moreover have "- (2 ^ 31) \<le> uint a" by (rule order_trans [OF _ uint_ge_0]) simp
  ultimately have "signed_take_bit 31 (uint a) = uint a" by (intro signed_take_bit_int_eq_self)
  then show ?thesis unfolding sint_uint u [symmetric] by simp
qed

lemma sdiv_nat: "int x sdiv int n = int (x div n)"
  by (cases "x = 0"; cases "n = 0") (simp_all add: signed_divide_int_def sgn_if zdiv_int)

lemma sdiv32_unat: "unat a < 2 ^ 31 \<Longrightarrow> sdiv32 a (int n) = of_nat (unat a div n)"
  unfolding sdiv32_def small_sint sdiv_nat by simp

text \<open>\<open>t\<close> is the lifetime in ticks, \<open>u\<close> the number of queries without an answer, \<open>r\<close> the random part.\<close>

lemma refresh_bounds:
  fixes t u r :: nat
  assumes "u < 4" "r \<le> t div 50"
  shows "t div 20 * (4 - u) \<le> t" "(16 + u) * t \<le> 20 * (t - t div 20 * (4 - u) + r)"
    "20 * (t - t div 20 * (4 - u) + r) \<le> (16 + u) * t + 20 * (t div 50) + 76" "t - t div 20 * (4 - u) + r \<le> t"
proof -
  define k j where "k = t div 20" and "j = t div 50"
  have k: "20 * k \<le> t" "t \<le> 20 * k + 19" "j \<le> k" by (auto simp: k_def j_def div_le_mono2)
  have u: "u = 0 \<or> u = 1 \<or> u = 2 \<or> u = 3" using assms(1) by linarith
  show "t div 20 * (4 - u) \<le> t" unfolding k_def [symmetric] using k u by auto
  show "(16 + u) * t \<le> 20 * (t - t div 20 * (4 - u) + r)" unfolding k_def [symmetric] using k u by auto
  show "20 * (t - t div 20 * (4 - u) + r) \<le> (16 + u) * t + 20 * (t div 50) + 76"
    unfolding k_def [symmetric] using k u assms(2) by (auto simp flip: j_def)
  show "t - t div 20 * (4 - u) + r \<le> t" unfolding k_def [symmetric] using k u assms(2) by (auto simp flip: j_def)
qed

lemma ScheduleNextCacheCheckTime_due:
  assumes "unat slot < length (m_rrcache_nextcheck m)"
  obtains m' where "ScheduleNextCacheCheckTime m slot event = Some m'" "m_random m' = m_random m" "m_timenow m' = m_timenow m"
    "sint (m_NextCacheCheck m' - event) \<le> 0" "sint (m_rrcache_nextcheck m' ! unat slot - event) \<le> 0"
    "\<And>i. i \<noteq> unat slot \<Longrightarrow> m_rrcache_nextcheck m' ! i = m_rrcache_nextcheck m ! i"
  using assms by (auto simp: ScheduleNextCacheCheckTime_def Let_def)

lemma HashSlot_less: "name_at name 0 ls \<Longrightarrow> \<exists>slot. HashSlot name = Some slot \<and> unat slot < 499"
  using DomainNameHashValue_some [of name 0 ls]
  by (auto simp: HashSlot_def CACHE_HASH_SLOTS_def unat_mod)

definition refreshes :: "cache_record \<Rightarrow> bool" where
  "refreshes rr \<longleftrightarrow> cr_CRActiveQuestion rr \<noteq> None \<and> cr_UnansweredQueries rr < 4"

text \<open>The time from the arrival of a record to the next query, in ticks\<close>

definition query_after :: "cache_record \<Rightarrow> nat" where
  "query_after rr = unat (cr_NextRequiredQuery rr - cr_TimeRcvd rr)"

definition due_time :: "nat \<Rightarrow> nat \<Rightarrow> nat \<Rightarrow> bool" where
  "due_time t u d \<longleftrightarrow> (16 + u) * t \<le> 20 * d \<and> 20 * d \<le> (16 + u) * t + 20 * (t div 50) + 76 \<and> d \<le> t"

lemma next_query:
  assumes "refreshes rr" "rr_rroriginalttl (cr_resrec rr) \<le> 2097151" "r \<le> TicksTTL rr div 50"
  defines "q \<equiv> RRExpireTime rr - sdiv32 (TicksTTL rr) 20 * (ucast MaxUnansweredQueries - ucast (cr_UnansweredQueries rr)) + r"
  shows "due_time (unat (TicksTTL rr)) (unat (cr_UnansweredQueries rr)) (unat (q - cr_TimeRcvd rr))"
proof -
  define t u where "t = unat (TicksTTL rr)" and "u = unat (cr_UnansweredQueries rr)"
  have t: "t < 2 ^ 31" using TicksTTL_unat [OF assms(2)] assms(2) by (simp add: t_def word_le_nat_alt)
  have u: "u < 4" using assms(1) by (simp add: refreshes_def u_def word_less_nat_alt)
  have r: "unat r \<le> t div 50" using assms(3) by (simp add: word_le_nat_alt unat_div t_def)
  have "ucast MaxUnansweredQueries - ucast (cr_UnansweredQueries rr) = (of_nat (4 - u) :: s32)"
    using u by (simp add: MaxUnansweredQueries_def u_def of_nat_diff unsigned_ucast_eq)
  moreover have "sdiv32 (TicksTTL rr) 20 = of_nat (t div 20)"
    using sdiv32_unat [of "TicksTTL rr" 20] t by (simp add: t_def)
  ultimately have "q - cr_TimeRcvd rr = TicksTTL rr - of_nat (t div 20) * of_nat (4 - u) + r"
    by (simp add: q_def RRExpireTime_def)
  also have "\<dots> = of_nat (t - t div 20 * (4 - u) + unat r)"
    using refresh_bounds(1) [OF u r] by (simp add: of_nat_diff t_def)
  finally have eq: "q - cr_TimeRcvd rr = of_nat (t - t div 20 * (4 - u) + unat r)" .
  have "t - t div 20 * (4 - u) + unat r < 2 ^ LENGTH(32)" using refresh_bounds(4) [OF u r] t by simp
  then have "unat (q - cr_TimeRcvd rr) = t - t div 20 * (4 - u) + unat r" by (simp only: eq unat_of_nat mod_less)
  then show ?thesis using refresh_bounds [OF u r] by (simp add: due_time_def t_def u_def)
qed

text \<open>What is left of a record whose time of the next query is set\<close>

lemma SetNextCacheCheckTimeForRecord_some:
  assumes "name_at (rr_name (cr_resrec rr)) 0 ls" "length (m_rrcache_nextcheck m) = 499" "rr_rroriginalttl (cr_resrec rr) \<le> 2097151"
  obtains m' rr' slot where "SetNextCacheCheckTimeForRecord platform m rr = Some (m', rr')"
    "rr' = rr\<lparr>cr_NextRequiredQuery := cr_NextRequiredQuery rr'\<rparr>"
    "if refreshes rr then due_time (unat (TicksTTL rr)) (unat (cr_UnansweredQueries rr)) (query_after rr')
     else cr_NextRequiredQuery rr' = RRExpireTime rr"
    "HashSlot (rr_name (cr_resrec rr)) = Some slot" "sint (m_rrcache_nextcheck m' ! unat slot - NextCacheCheckEvent rr') \<le> 0"
    "sint (m_NextCacheCheck m' - NextCacheCheckEvent rr') \<le> 0" "m_timenow m' = m_timenow m"
proof -
  obtain slot where slot: "HashSlot (rr_name (cr_resrec rr)) = Some slot" "unat slot < 499" using HashSlot_less [OF assms(1)] by blast
  define rr0 where "rr0 = rr\<lparr>cr_NextRequiredQuery := RRExpireTime rr\<rparr>"
  obtain r st where rnd: "mDNSRandom platform (TicksTTL rr div 50) (m_random m) = Some (r, st)" "r \<le> TicksTTL rr div 50"
    using mDNSRandom_some by blast
  define q where "q = RRExpireTime rr - sdiv32 (TicksTTL rr) 20 * (ucast MaxUnansweredQueries - ucast (cr_UnansweredQueries rr)) + r"
  define m1 rr1 where "m1 = (if refreshes rr then m\<lparr>m_random := st\<rparr> else m)"
    and "rr1 = rr\<lparr>cr_NextRequiredQuery := if refreshes rr then q else RRExpireTime rr\<rparr>"
  have "unat slot < length (m_rrcache_nextcheck m1)" using slot(2) assms(2) by (simp add: m1_def)
  from ScheduleNextCacheCheckTime_due [OF this, of "NextCacheCheckEvent rr1"] obtain m2 where
    m2: "ScheduleNextCacheCheckTime m1 slot (NextCacheCheckEvent rr1) = Some m2" "m_timenow m2 = m_timenow m1"
      "sint (m_NextCacheCheck m2 - NextCacheCheckEvent rr1) \<le> 0" "sint (m_rrcache_nextcheck m2 ! unat slot - NextCacheCheckEvent rr1) \<le> 0" .
  have "SetNextCacheCheckTimeForRecord platform m rr = Some (m2, rr1)"
    using m2(1) slot(1) rnd(1)
    by (auto simp: SetNextCacheCheckTimeForRecord_def refreshes_def m1_def rr1_def q_def TicksTTL_def RRExpireTime_def MaxUnansweredQueries_def)
  moreover have "due_time (unat (TicksTTL rr)) (unat (cr_UnansweredQueries rr)) (query_after rr1)" if "refreshes rr"
    using next_query [OF that assms(3) rnd(2)] that by (simp add: rr1_def query_after_def q_def)
  ultimately show thesis using that [of m2 rr1 slot] slot(1) m2 by (simp add: rr1_def m1_def)
qed

section \<open>Records that are doubted\<close>

definition clamped :: "u32 \<Rightarrow> nat" where
  "clamped interval = min 0x10000000 (max 5120 (unat interval))"

definition expires_in :: "mdns_cache \<Rightarrow> cache_record \<Rightarrow> int" where
  "expires_in m rr = sint (RRExpireTime rr - m_timenow m)"

lemma unat_u32: "n < 4294967296 \<Longrightarrow> unat (of_nat n :: u32) = n"
  by (simp add: unat_of_nat)

text \<open>The new lifetime: \<open>i\<close> is the interval with its random part.\<close>

lemma accelerated_expiry:
  assumes "unat i \<le> 0x18000000"
  defines "ttl \<equiv> (i * 4 + mDNSPlatformOneSecond - 1) div mDNSPlatformOneSecond"
  shows "ttl \<le> 2097151" "unat (now - i * 3 + ttl * mDNSPlatformOneSecond - now) \<in> {unat i .. unat i + 1023}"
proof -
  define n where "n = unat i"
  have i: "i = of_nat n" by (simp add: n_def)
  have n: "n \<le> 0x18000000" using assms(1) by (simp add: n_def)
  have eq: "i * 4 + mDNSPlatformOneSecond - 1 = of_nat (n * 4 + 1023)" by (simp add: i mDNSPlatformOneSecond_def)
  have "unat (i * 4 + mDNSPlatformOneSecond - 1) = n * 4 + 1023" unfolding eq by (rule unat_u32) (use n in simp)
  then have ttl: "unat ttl = (n * 4 + 1023) div 1024" by (simp add: ttl_def unat_div mDNSPlatformOneSecond_def)
  then show "ttl \<le> 2097151" using n by (simp add: word_le_nat_alt)
  define k where "k = (n * 4 + 1023) div 1024"
  have k: "n * 4 \<le> k * 1024" "k * 1024 \<le> n * 4 + 1023" unfolding k_def by auto
  have "of_nat (unat ttl) = ttl" by simp
  then have "ttl = of_nat k" using ttl by (simp add: k_def)
  then have eq: "now - i * 3 + ttl * mDNSPlatformOneSecond - now = of_nat (k * 1024 - n * 3)"
    using k by (simp add: i mDNSPlatformOneSecond_def of_nat_diff)
  have "unat (now - i * 3 + ttl * mDNSPlatformOneSecond - now) = k * 1024 - n * 3" unfolding eq by (rule unat_u32) (use k n in simp)
  then show "unat (now - i * 3 + ttl * mDNSPlatformOneSecond - now) \<in> {unat i .. unat i + 1023}"
    using k by (auto simp flip: n_def)
qed

lemma random_interval:
  assumes "unat (i :: u32) \<le> 0x10000000"
  shows "unat (i + d mod (i div 3 + 1)) \<in> {unat i .. unat i + unat i div 3}"
proof -
  define n where "n = unat i"
  have n: "n \<le> 0x10000000" using assms by (simp add: n_def)
  have "unat (i div 3 + 1) = n div 3 + 1" using n by (simp add: unat_word_ariths n_def unat_div)
  then have d: "unat (d mod (i div 3 + 1)) \<le> n div 3"
    by (metis Suc_eq_plus1 less_Suc_eq_le mod_less_divisor unat_mod zero_less_Suc)
  then have "unat (i + d mod (i div 3 + 1)) = n + unat (d mod (i div 3 + 1))"
    using n by (subst unat_add_lem [THEN iffD1]) (auto simp: n_def)
  with d show ?thesis by (simp flip: n_def)
qed

lemma clamp_interval:
  fixes interval :: u32
  defines "a \<equiv> (if interval < kMinimumReconfirmTime then kMinimumReconfirmTime else interval)"
  defines "i \<equiv> (if a > 0x10000000 then 0x10000000 else a)"
  shows "unat i = clamped interval" "sint (i * 4 div 3) = int (clamped interval * 4 div 3)"
proof -
  show i: "unat i = clamped interval"
    by (auto simp: i_def a_def clamped_def kMinimumReconfirmTime_def mDNSPlatformOneSecond_def word_less_nat_alt)
  have "unat i \<le> 0x10000000" by (simp add: i clamped_def)
  then have "unat (i * 4) = unat i * 4" by (simp add: unat_word_ariths)
  then have u: "unat (i * 4 div 3) = clamped interval * 4 div 3" by (simp add: unat_div i)
  moreover have "clamped interval * 4 div 3 < 2 ^ 31" by (simp add: clamped_def)
  ultimately show "sint (i * 4 div 3) = int (clamped interval * 4 div 3)" using small_sint [of "i * 4 div 3"] by simp
qed

lemma mDNS_Reconfirm_internal_some:
  assumes "name_at (rr_name (cr_resrec rr)) 0 ls" "length (m_rrcache_nextcheck m) = 499"
    and late: "expires_in m rr > int (clamped interval * 4 div 3)"
  obtains m' rr' where "mDNS_Reconfirm_internal platform m rr interval = Some (m', rr')"
    "int (clamped interval) \<le> expires_in m' rr'" "expires_in m' rr' \<le> int (clamped interval + clamped interval div 3 + 1023)"
    "m_timenow m' = m_timenow m" "sint (m_NextCacheCheck m' - NextCacheCheckEvent rr') \<le> 0"
    "\<exists>t ttl q. rr' = rr\<lparr>cr_TimeRcvd := t, cr_resrec := (cr_resrec rr)\<lparr>rr_rroriginalttl := ttl\<rparr>, cr_NextRequiredQuery := q\<rparr>"
proof -
  define a where "a = (if interval < kMinimumReconfirmTime then kMinimumReconfirmTime else interval)"
  define i where "i = (if a > 0x10000000 then 0x10000000 else a)"
  note i = clamp_interval [of interval, folded a_def, folded i_def]
  obtain r st where rnd: "mDNSRandom platform 0x3FFFFFFF (m_random m) = Some (r, st)" using mDNSRandom_some by blast
  define m1 where "m1 = (if m_RandomReconfirmDelay m = 0 then m\<lparr>m_random := st, m_RandomReconfirmDelay := 1 + r\<rparr> else m)"
  define j where "j = i + m_RandomReconfirmDelay m1 mod (i div 3 + 1)"
  define ttl where "ttl = (j * 4 + mDNSPlatformOneSecond - 1) div mDNSPlatformOneSecond"
  define rr1 where "rr1 = rr\<lparr>cr_TimeRcvd := m_timenow m - j * 3, cr_resrec := (cr_resrec rr)\<lparr>rr_rroriginalttl := ttl\<rparr>\<rparr>"
  have "unat i \<le> 0x10000000" by (simp add: i clamped_def)
  from random_interval [OF this] have j: "unat j \<in> {clamped interval .. clamped interval + clamped interval div 3}"
    unfolding j_def i(1) .
  then have small: "unat j \<le> 0x18000000" by (auto simp: clamped_def)
  note acc = accelerated_expiry [OF small, folded ttl_def]
  have "name_at (rr_name (cr_resrec rr1)) 0 ls" "length (m_rrcache_nextcheck m1) = 499" "rr_rroriginalttl (cr_resrec rr1) \<le> 2097151"
    using assms(1,2) acc(1) by (simp_all add: rr1_def m1_def)
  from SetNextCacheCheckTimeForRecord_some [OF this, where platform = platform] obtain m' rr' where
    s: "SetNextCacheCheckTimeForRecord platform m1 rr1 = Some (m', rr')" "rr' = rr1\<lparr>cr_NextRequiredQuery := cr_NextRequiredQuery rr'\<rparr>"
      "sint (m_NextCacheCheck m' - NextCacheCheckEvent rr') \<le> 0" "m_timenow m' = m_timenow m1" by blast
  have now: "m_timenow m' = m_timenow m" using s(4) by (simp add: m1_def)
  define x where "x = RRExpireTime rr' - m_timenow m'"
  have "unat x \<in> {unat j .. unat j + 1023}"
    using acc(2) [of "m_timenow m"] unfolding x_def by (subst s(2)) (simp add: RRExpireTime_def TicksTTL_def rr1_def now)
  then have ux: "unat j \<le> unat x" "unat x \<le> unat j + 1023" by auto
  have "unat x < 2 ^ 31" using ux small by simp
  then have "expires_in m' rr' = int (unat x)" unfolding expires_in_def x_def [symmetric] by (rule small_sint)
  then have e: "int (unat j) \<le> expires_in m' rr'" "expires_in m' rr' \<le> int (unat j + 1023)" using ux by linarith+
  have "clamped interval \<le> unat j" "unat j \<le> clamped interval + clamped interval div 3" using j by auto
  with e have f: "int (clamped interval) \<le> expires_in m' rr'"
    "expires_in m' rr' \<le> int (clamped interval + clamped interval div 3 + 1023)" by linarith+
  have "mDNS_Reconfirm_internal platform m rr interval = Some (m', rr')"
    using late s(1) rnd unfolding mDNS_Reconfirm_internal_def Let_def a_def [symmetric] i_def [symmetric] expires_in_def i(2) [symmetric]
    by (auto simp: m1_def j_def rr1_def ttl_def)
  moreover have "\<exists>t ttl q. rr' = rr\<lparr>cr_TimeRcvd := t, cr_resrec := (cr_resrec rr)\<lparr>rr_rroriginalttl := ttl\<rparr>, cr_NextRequiredQuery := q\<rparr>"
    by (subst s(2)) (auto simp: rr1_def)
  ultimately show thesis using that [OF _ f now s(3)] by blast
qed

lemma mDNS_Reconfirm_internal_early:
  "expires_in m rr \<le> int (clamped interval * 4 div 3) \<Longrightarrow> mDNS_Reconfirm_internal platform m rr interval = Some (m, rr)"
  using clamp_interval(2) [of interval] by (simp add: mDNS_Reconfirm_internal_def Let_def expires_in_def)

section \<open>What is remembered of other queries\<close>

lemma suppress_loop_iff:
  "suppress_loop ds iface v4 v6 \<longleftrightarrow> (\<exists>d \<in> set ds. dsi_InterfaceID d = iface)
    \<and> (v4 \<or> (\<exists>d \<in> set ds. dsi_InterfaceID d = iface \<and> dsi_Type d = duptype_IPv4))
    \<and> (v6 \<or> (\<exists>d \<in> set ds. dsi_InterfaceID d = iface \<and> dsi_Type d = duptype_IPv6))"
  by (induction ds iface v4 v6 rule: suppress_loop.induct) (auto simp: duptype_IPv4_def duptype_IPv6_def)

lemma find_slot_spec:
  "i \<le> find_slot ds i iface ty \<and> find_slot ds i iface ty \<le> i + length ds
    \<and> (find_slot ds i iface ty < i + length ds \<longrightarrow>
        dsi_InterfaceID (ds ! (find_slot ds i iface ty - i)) = iface \<and> dsi_Type (ds ! (find_slot ds i iface ty - i)) = ty)
    \<and> (find_slot ds i iface ty = i + length ds \<longrightarrow> (\<forall>d \<in> set ds. \<not> (dsi_InterfaceID d = iface \<and> dsi_Type d = ty)))"
proof (induction ds arbitrary: i)
  case (Cons d ds)
  from Cons [of "i + 1"] show ?case by (auto simp: nth_Cons')
qed simp

text \<open>A slot is reused that is free or that is not newer than any other, when the times are near to each other.\<close>

definition near :: "s32 \<Rightarrow> dup_suppress_info list \<Rightarrow> bool" where
  "near now ds \<longleftrightarrow> (\<forall>d \<in> set ds. 0 \<le> sint (now - dsi_Time d))"

lemma near_compare:
  fixes a b now :: s32
  assumes "0 \<le> sint (now - a)" "0 \<le> sint (now - b)"
  shows "sint (a - b) = sint (now - b) - sint (now - a)"
  using sint_diff_nonneg [OF assms(2,1)] by simp

lemma reuse_slot_spec:
  "near now ds \<Longrightarrow> i < length ds \<Longrightarrow> j \<le> length ds \<Longrightarrow> dsi_InterfaceID (ds ! i) = 0 \<or> (\<forall>k < j. sint (now - dsi_Time (ds ! k)) \<le> sint (now - dsi_Time (ds ! i))) \<Longrightarrow>
    reuse_slot ds i j < length ds \<and> (dsi_InterfaceID (ds ! reuse_slot ds i j) = 0
      \<or> (\<forall>k < length ds. sint (now - dsi_Time (ds ! k)) \<le> sint (now - dsi_Time (ds ! reuse_slot ds i j))))"
proof (induction ds i j rule: reuse_slot.induct)
  case (1 ds i j)
  show ?case
  proof (cases "j < length ds \<and> dsi_InterfaceID (ds ! i) \<noteq> 0")
    case False
    then show ?thesis using 1(3-5) by (subst (1 2 3) reuse_slot.simps) auto
  next
    case True
    define i' where "i' = (if dsi_InterfaceID (ds ! j) = 0 \<or> sint (dsi_Time (ds ! j) - dsi_Time (ds ! i)) < 0 then j else i)"
    have "reuse_slot ds i j = reuse_slot ds i' (j + 1)" using True by (subst reuse_slot.simps) (simp add: i'_def)
    moreover have "i' < length ds" "j + 1 \<le> length ds" using True 1(3) by (auto simp: i'_def)
    moreover have "dsi_InterfaceID (ds ! i') = 0 \<or> (\<forall>k < j + 1. sint (now - dsi_Time (ds ! k)) \<le> sint (now - dsi_Time (ds ! i')))"
    proof -
      have "0 \<le> sint (now - dsi_Time (ds ! i))" "0 \<le> sint (now - dsi_Time (ds ! j))"
        using 1(2,3) True by (auto simp: near_def)
      from near_compare [OF this(2,1)] show ?thesis using 1(5) True by (auto simp: i'_def less_Suc_eq)
    qed
    ultimately show ?thesis using 1(1) [OF True 1(2)] by (simp add: i'_def)
  qed
qed

lemma RecordDupSuppressInfo_slot:
  assumes "ds \<noteq> []" "near now ds" "RecordDupSuppressInfo ds time iface ty = (ds', i)"
  shows "i < length ds \<and> ds' = ds[i := \<lparr>dsi_Time = time, dsi_InterfaceID = iface, dsi_Type = ty\<rparr>]
    \<and> (dsi_InterfaceID (ds ! i) = iface \<and> dsi_Type (ds ! i) = ty
       \<or> (\<forall>d \<in> set ds. \<not> (dsi_InterfaceID d = iface \<and> dsi_Type d = ty))
         \<and> (dsi_InterfaceID (ds ! i) = 0 \<or> (\<forall>d \<in> set ds. sint (now - dsi_Time d) \<le> sint (now - dsi_Time (ds ! i)))))"
proof -
  note f = find_slot_spec [of 0 ds iface ty, simplified]
  show ?thesis
  proof (cases "find_slot ds 0 iface ty < length ds")
    case True
    with f assms(3) show ?thesis by (auto simp: RecordDupSuppressInfo_def Let_def)
  next
    case False
    then have i: "i = reuse_slot ds 0 1" "ds' = ds[i := \<lparr>dsi_Time = time, dsi_InterfaceID = iface, dsi_Type = ty\<rparr>]"
      using assms(3) by (auto simp: RecordDupSuppressInfo_def Let_def)
    have "find_slot ds 0 iface ty = length ds" using False f by simp
    then have "\<forall>d \<in> set ds. \<not> (dsi_InterfaceID d = iface \<and> dsi_Type d = ty)" using f by blast
    moreover have "i < length ds \<and> (dsi_InterfaceID (ds ! i) = 0 \<or> (\<forall>k < length ds. sint (now - dsi_Time (ds ! k)) \<le> sint (now - dsi_Time (ds ! i))))"
      using reuse_slot_spec [OF assms(2), of 0 1] assms(1) i(1) by (simp add: Suc_le_eq)
    ultimately show ?thesis using i(2) by (auto simp: in_set_conv_nth)
  qed
qed

lemma GetEffectiveTTL_small: "GetEffectiveTTL ty ttl \<le> 1966082"
proof -
  define t where "t = (if ttl > 0x60000000 div mDNSPlatformOneSecond then 0x60000000 div mDNSPlatformOneSecond else ttl)"
  have t: "unat t \<le> 1572864" by (auto simp: t_def mDNSPlatformOneSecond_def word_le_nat_alt word_less_nat_alt)
  then have "unat (t + (t div 4 + 2)) = unat t + (unat t div 4 + 2)" by (simp add: unat_word_ariths unat_div)
  then have "unat (t + (t div 4 + 2)) \<le> 1966082" using t by simp
  then show ?thesis by (cases ty) (auto simp: GetEffectiveTTL_def Let_def kLLQ_DefLease_def word_le_nat_alt simp flip: t_def)
qed

end
