(* ===== verification/Mdns_Reverse.thy ===== *)
theory Mdns_Reverse imports Mdns_Keepalive Dns_Wire begin

text \<open>
  mDNS.c: the names that addresses are looked up by in reverse, and the address that such a name stands for.  An
  address has the 16 bytes of the union in \<open>mDNSAddr\<close>.
\<close>

section \<open>Functions\<close>

text \<open>Nothing stands for \<open>mStatus_Invalid\<close>.\<close>

fun decimal_loop :: "bytes \<Rightarrow> nat \<Rightarrow> nat \<Rightarrow> int \<Rightarrow> (u8 option) option" where
  "decimal_loop buf p 0 v = Some (if v > 255 then None else Some (word_of_int v))"
| "decimal_loop buf p (Suc k) v = do {
     c \<leftarrow> read_byte buf p;
     if c < 0x30 \<or> c > 0x39 then Some None else decimal_loop buf (Suc p) k (v * 10 + uint c - 0x30)
   }"

definition GetLabelDecimalValue :: "bytes \<Rightarrow> nat \<Rightarrow> (u8 option) option" where
  "GetLabelDecimalValue buf src = do {
     n \<leftarrow> read_byte buf src;
     if n < 1 \<or> n > 3 then Some None else decimal_loop buf (Suc src) (unat n) 0
   }"

text \<open>The address afterwards and whether the status is \<open>mStatus_NoError\<close>\<close>

definition octet_of_label :: "bytes \<Rightarrow> int \<Rightarrow> nat \<Rightarrow> mdns_addr \<Rightarrow> (mdns_addr \<times> bool) option" where
  "octet_of_label name skip i a = do {
     p \<leftarrow> SkipLeadingLabels name 0 skip;
     v \<leftarrow> GetLabelDecimalValue name p;
     (case v of
        None \<Rightarrow> Some (a, False)
      | Some b \<Rightarrow> do { ip \<leftarrow> set_byte (addr_ip a) i b; Some (a\<lparr>addr_ip := ip\<rparr>, True) })
   }"

definition GetIPv4FromName :: "mdns_addr \<Rightarrow> bytes \<Rightarrow> (mdns_addr \<times> bool) option" where
  "GetIPv4FromName a name = do {
     count \<leftarrow> CountLabels name 0;
     let skip = count - 6;
     if skip < 0 then Some (a, False)
     else do {
       (a, ok) \<leftarrow> octet_of_label name (skip + 3) 0 a;
       if \<not> ok then Some (a, False) else do {
       (a, ok) \<leftarrow> octet_of_label name (skip + 2) 1 a;
       if \<not> ok then Some (a, False) else do {
       (a, ok) \<leftarrow> octet_of_label name (skip + 1) 2 a;
       if \<not> ok then Some (a, False) else do {
       (a, ok) \<leftarrow> octet_of_label name skip 3 a;
       if \<not> ok then Some (a, False) else Some (a\<lparr>addr_type := mDNSAddrType_IPv4\<rparr>, True) } } }
     }
   }"

text \<open>\<open>k\<close> bytes are left; the next pair of labels is byte \<open>k - 1\<close>.\<close>

fun nibble_loop :: "bytes \<Rightarrow> nat \<Rightarrow> nat \<Rightarrow> bytes \<Rightarrow> (bytes \<times> bool) option" where
  "nibble_loop buf n 0 ip = Some (ip, True)"
| "nibble_loop buf n (Suc k) ip = do {
     len \<leftarrow> read_byte buf n;
     if len \<noteq> 1 then Some (ip, False)
     else do {
       l \<leftarrow> read_byte buf (n + 1);
       len \<leftarrow> read_byte buf (n + 2);
       if len \<noteq> 1 then Some (ip, False)
       else do {
         h \<leftarrow> read_byte buf (n + 3);
         (case (HexVal l, HexVal h) of
            (Some l, Some h) \<Rightarrow> do { ip \<leftarrow> set_byte ip k (ucast (push_bit 4 h OR l)); nibble_loop buf (n + 4) k ip }
          | _ \<Rightarrow> Some (ip, False))
       }
     }
   }"

definition GetIPv6FromName :: "mdns_addr \<Rightarrow> bytes \<Rightarrow> (mdns_addr \<times> bool) option" where
  "GetIPv6FromName a name = do {
     count \<leftarrow> CountLabels name 0;
     let skip = count - 34;
     if skip < 0 then Some (a, False)
     else do {
       n \<leftarrow> SkipLeadingLabels name 0 skip;
       (ip, ok) \<leftarrow> nibble_loop name n 16 (addr_ip a);
       Some (if ok then (a\<lparr>addr_ip := ip, addr_type := mDNSAddrType_IPv6\<rparr>, True) else (a\<lparr>addr_ip := ip\<rparr>, False))
     }
   }"

definition in_addr_arpa :: bytes where
  "in_addr_arpa = [7, 0x69, 0x6E, 0x2D, 0x61, 0x64, 0x64, 0x72, 4, 0x61, 0x72, 0x70, 0x61, 0]"
definition ip6_arpa :: bytes where
  "ip6_arpa = [3, 0x69, 0x70, 0x36, 4, 0x61, 0x72, 0x70, 0x61, 0]"

definition ReverseMapDomainType :: "bytes \<Rightarrow> addr_type option" where
  "ReverseMapDomainType name = do {
     count \<leftarrow> CountLabels name 0;
     let skip = count - 2;
     if skip \<ge> 0 then do {
       p \<leftarrow> SkipLeadingLabels name 0 skip;
       v4 \<leftarrow> SameDomainName name p in_addr_arpa 0;
       if v4 then Some mDNSAddrType_IPv4
       else do {
         v6 \<leftarrow> SameDomainName name p ip6_arpa 0;
         Some (if v6 then mDNSAddrType_IPv6 else mDNSAddrType_None)
       }
     } else Some mDNSAddrType_None
   }"

section \<open>Numbers in labels\<close>

definition decimal_value :: "bytes \<Rightarrow> int" where
  "decimal_value l = foldl (\<lambda>v c. v * 10 + uint c - 0x30) 0 l"

definition label_octet :: "bytes \<Rightarrow> u8 option" where
  "label_octet l =
     (if length l \<le> 3 \<and> (\<forall>c \<in> set l. is_digit c) \<and> decimal_value l \<le> 255 then Some (word_of_int (decimal_value l)) else None)"

lemma decimal_loop_label:
  "read_bytes buf p (length l) = Some l \<Longrightarrow> decimal_loop buf p (length l) v =
     Some (if (\<forall>c \<in> set l. is_digit c) \<and> foldl (\<lambda>v c. v * 10 + uint c - 0x30) v l \<le> 255
       then Some (word_of_int (foldl (\<lambda>v c. v * 10 + uint c - 0x30) v l)) else None)"
proof (induction l arbitrary: p v)
  case (Cons c l)
  then have "read_byte buf p = Some c" "read_bytes buf (Suc p) (length l) = Some l" by (auto simp: read_bytes_Cons_iff)
  then show ?case using Cons.IH by (auto simp: not_less)
qed simp

lemma GetLabelDecimalValue_label:
  assumes "name_at buf p (l # ls)"
  shows "GetLabelDecimalValue buf p = Some (label_octet l)"
proof -
  have l: "valid_label l" "read_byte buf p = Some (of_nat (length l))" "read_bytes buf (Suc p) (length l) = Some l" using assms by auto
  have "(of_nat (length l) :: u8) < 1 \<longleftrightarrow> False" "(of_nat (length l) :: u8) > 3 \<longleftrightarrow> length l > 3"
    using l(1) valid_label_u8 [OF l(1)] by (auto simp: word_less_nat_alt valid_label_def)
  then show ?thesis using l decimal_loop_label [OF l(3), of 0]
    by (auto simp: GetLabelDecimalValue_def label_octet_def decimal_value_def)
qed

lemma octet_of_label_name:
  assumes "name_at name 0 ls" "n < length ls" "i < length (addr_ip a)"
  shows "octet_of_label name (int n) i a = Some (case label_octet (ls ! n) of None \<Rightarrow> (a, False)
    | Some b \<Rightarrow> (a\<lparr>addr_ip := (addr_ip a)[i := b]\<rparr>, True))"
proof -
  obtain p where p: "SkipLeadingLabels name 0 (int n) = Some p" "name_at name p (drop n ls)"
    using SkipLeadingLabels_name [OF assms(1), of n] assms(2) by auto
  have "drop n ls = ls ! n # drop (Suc n) ls" using assms(2) by (simp add: Cons_nth_drop_Suc)
  from GetLabelDecimalValue_label [OF p(2) [unfolded this]] p(1) assms(3) show ?thesis
    by (simp add: octet_of_label_def set_byte_def split: option.splits)
qed


lemma same_addr: "\<exists>ip. (a :: mdns_addr) = a\<lparr>addr_ip := ip\<rparr>"
  by (intro exI [of _ "addr_ip a"]) simp

lemma GetIPv4FromName_labels:
  assumes n: "name_at name 0 (pre @ [l3, l2, l1, l0, x, y])" and ip: "length (addr_ip a) = 16"
  shows "GetIPv4FromName a name \<noteq> None"
    "label_octet l0 = Some b0 \<Longrightarrow> label_octet l1 = Some b1 \<Longrightarrow> label_octet l2 = Some b2 \<Longrightarrow> label_octet l3 = Some b3 \<Longrightarrow>
      GetIPv4FromName a name = Some (a\<lparr>addr_type := mDNSAddrType_IPv4, addr_ip := [b0, b1, b2, b3] @ drop 4 (addr_ip a)\<rparr>, True)"
    "None \<in> {label_octet l0, label_octet l1, label_octet l2, label_octet l3} \<Longrightarrow>
      \<exists>ip. GetIPv4FromName a name = Some (a\<lparr>addr_ip := ip\<rparr>, False)"
proof -
  let ?ls = "pre @ [l3, l2, l1, l0, x, y]"
  have o: "octet_of_label name (int (length pre) + int k) i c = Some (case label_octet (?ls ! (length pre + k)) of None \<Rightarrow> (c, False)
      | Some b \<Rightarrow> (c\<lparr>addr_ip := (addr_ip c)[i := b]\<rparr>, True))" if "k < 6" "i < length (addr_ip c)" for k i c
    using octet_of_label_name [OF n, of "length pre + k"] that by simp
  note o = o [of 3] o [of 2] o [of 1] o [of 0]
  have c: "CountLabels name 0 = Some (int (length pre) + 6)" using CountLabels_name [OF n] by simp
  obtain p0 p1 p2 p3 r where "addr_ip a = p0 # p1 # p2 # p3 # r" using ip by (auto simp: numeral_eq_Suc length_Suc_conv)
  then show "GetIPv4FromName a name \<noteq> None"
    "label_octet l0 = Some b0 \<Longrightarrow> label_octet l1 = Some b1 \<Longrightarrow> label_octet l2 = Some b2 \<Longrightarrow> label_octet l3 = Some b3 \<Longrightarrow>
      GetIPv4FromName a name = Some (a\<lparr>addr_type := mDNSAddrType_IPv4, addr_ip := [b0, b1, b2, b3] @ drop 4 (addr_ip a)\<rparr>, True)"
    "None \<in> {label_octet l0, label_octet l1, label_octet l2, label_octet l3} \<Longrightarrow>
      \<exists>ip. GetIPv4FromName a name = Some (a\<lparr>addr_ip := ip\<rparr>, False)"
    using o c by (auto simp: GetIPv4FromName_def nth_append intro: same_addr split: option.splits)
qed

text \<open>The decimal text of a byte\<close>

definition decimal_text :: "u8 \<Rightarrow> bytes" where
  "decimal_text b = (let n = unat b in
     if n < 10 then [of_nat (48 + n)]
     else if n < 100 then [of_nat (48 + n div 10), of_nat (48 + n mod 10)]
     else [of_nat (48 + n div 100), of_nat (48 + n div 10 mod 10), of_nat (48 + n mod 10)])"

lemma digit_char:
  assumes "k < 10"
  shows "uint (of_nat (48 + k) :: u8) = 48 + int k" "is_digit (of_nat (48 + k))"
proof -
  have u: "unat (of_nat (48 + k) :: u8) = 48 + k" using assms by (simp only: unat_of_nat) simp
  then show "uint (of_nat (48 + k) :: u8) = 48 + int k" by (metis of_nat_add of_nat_numeral uint_nat)
  show "is_digit (of_nat (48 + k))" using assms by (simp only: word_le_nat_alt u) simp
qed

abbreviation digit_of :: "nat \<Rightarrow> u8" where "digit_of k \<equiv> of_nat (48 + k)"

lemma decimal_values:
  "a < 10 \<Longrightarrow> decimal_value [digit_of a] = int a"
  "a < 10 \<Longrightarrow> b < 10 \<Longrightarrow> decimal_value [digit_of a, digit_of b] = int (10 * a + b)"
  "a < 10 \<Longrightarrow> b < 10 \<Longrightarrow> c < 10 \<Longrightarrow> decimal_value [digit_of a, digit_of b, digit_of c] = int (100 * a + 10 * b + c)"
  by (simp_all add: decimal_value_def digit_char(1) del: of_nat_add)

lemma label_octet_digits:
  assumes "set ks \<subseteq> {..<10}" "length ks \<le> 3" "decimal_value (map digit_of ks) = int n" "n < 256"
  shows "label_octet (map digit_of ks) = Some (of_nat n)"
proof -
  have "\<forall>c \<in> set (map digit_of ks). is_digit c" using assms(1) digit_char(2) by auto
  then show ?thesis using assms(2-4) by (simp add: label_octet_def del: of_nat_add)
qed

lemma label_octet_decimal: "label_octet (decimal_text b) = Some b"
proof -
  define n where "n = unat b"
  have n: "n < 256" unfolding n_def using unsigned_less [of b] by simp
  have b: "of_nat n = b" by (simp add: n_def)
  consider "n < 10" | "10 \<le> n" "n < 100" | "100 \<le> n" by linarith
  then obtain ks where "decimal_text b = map digit_of ks" "set ks \<subseteq> {..<10}" "length ks \<le> 3" "decimal_value (map digit_of ks) = int n"
  proof cases
    case 1
    then have "decimal_text b = map digit_of [n]" by (simp add: decimal_text_def n_def Let_def)
    with 1 decimal_values(1) [of n] that [of "[n]"] show thesis by (simp del: of_nat_add)
  next
    case 2
    then have "decimal_text b = map digit_of [n div 10, n mod 10]" by (simp add: decimal_text_def n_def Let_def)
    with 2 decimal_values(2) [of "n div 10" "n mod 10"] that [of "[n div 10, n mod 10]"] show thesis by (simp del: of_nat_add)
  next
    case 3
    then have deci: "decimal_text b = map digit_of [n div 100, n div 10 mod 10, n mod 10]" by (simp add: decimal_text_def n_def Let_def)
    have "n div 100 = n div 10 div 10" using div_mult2_eq [of n 10 10] by simp
    then have "n = 100 * (n div 100) + 10 * (n div 10 mod 10) + n mod 10" 
      using div_mult_mod_eq [of n 10] div_mult_mod_eq [of "n div 10" 10] by linarith
    with deci show thesis
      using n decimal_values(3) [of "n div 100" "n div 10 mod 10" "n mod 10"] that [of "[n div 100, n div 10 mod 10, n mod 10]"]
      by (simp del: of_nat_add)
  qed
  then show ?thesis using label_octet_digits [of ks n] n b by simp
qed

section \<open>Nibbles\<close>

definition nibble_char :: "u8 \<Rightarrow> u8" where
  "nibble_char w = (if w < 10 then 0x30 + w else 0x57 + w)"

lemma HexVal_nibble:
  assumes "w < 16"
  shows "HexVal (nibble_char w) = Some (ucast w)"
proof -
  define k where "k = unat w"
  have "k < 16" using assms by (simp add: k_def word_less_nat_alt)
  then have "k = 0 \<or> k = 1 \<or> k = 2 \<or> k = 3 \<or> k = 4 \<or> k = 5 \<or> k = 6 \<or> k = 7 \<or> k = 8 \<or> k = 9 \<or> k = 10 \<or> k = 11
    \<or> k = 12 \<or> k = 13 \<or> k = 14 \<or> k = 15" by arith
  moreover have "w = of_nat k" by (simp add: k_def)
  ultimately show ?thesis by (elim disjE) (simp_all add: HexVal_def nibble_char_def)
qed

definition nibble_labels :: "bytes \<Rightarrow> bytes list" where
  "nibble_labels bs = concat (map (\<lambda>b. [[nibble_char (take_bit 4 b)], [nibble_char (drop_bit 4 b)]]) bs)"

lemma nibbles_byte: "ucast (push_bit 4 (ucast (drop_bit 4 b) :: u32) OR ucast (take_bit 4 b)) = (b :: u8)"
  by (rule bit_word_eqI) (auto simp: bit_simps)

lemma nibble_less: "take_bit 4 b < 16" "drop_bit 4 b < 16" for b :: u8
proof -
  show "take_bit 4 b < 16" using word_and_le1 [of b 15] by (simp add: take_bit_eq_mask mask_eq_exp_minus_1 word_le_nat_alt word_less_nat_alt)
  have "unat b < 256" using unsigned_less [of b] by simp
  then show "drop_bit 4 b < 16" by (simp add: word_less_nat_alt drop_bit_eq_div unat_div)
qed

lemma nibble_loop_labels:
  "name_at buf n (nibble_labels cs @ ls) \<Longrightarrow> length cs \<le> length ip \<Longrightarrow>
     nibble_loop buf n (length cs) ip = Some (rev cs @ drop (length cs) ip, True)"
proof (induction cs arbitrary: n ip)
  case Nil
  then show ?case by simp
next
  case (Cons c cs)
  have "name_at buf n ([nibble_char (take_bit 4 c)] # [nibble_char (drop_bit 4 c)] # nibble_labels cs @ ls)"
    using Cons.prems(1) by (simp add: nibble_labels_def del: name_at.simps)
  then have r: "read_byte buf n = Some 1" "read_byte buf (n + 1) = Some (nibble_char (take_bit 4 c))"
      "read_byte buf (n + 2) = Some 1" "read_byte buf (n + 3) = Some (nibble_char (drop_bit 4 c))"
    and rest: "name_at buf (n + 4) (nibble_labels cs @ ls)"
    by (auto simp: read_bytes_Cons_iff numeral_eq_Suc)
  have "set_byte ip (length cs) c = Some (ip[length cs := c])" using Cons.prems(2) by (simp add: set_byte_def)
  moreover have "length cs \<le> length (ip[length cs := c])" using Cons.prems(2) by simp
  from Cons.IH [OF rest this] have "nibble_loop buf (n + 4) (length cs) (ip[length cs := c]) = Some (rev cs @ c # drop (Suc (length cs)) ip, True)"
    using Cons.prems(2) by (simp add: drop_update_cancel Cons_nth_drop_Suc [symmetric])
  ultimately show ?case using r nibble_less [of c] by (simp add: HexVal_nibble nibbles_byte)
qed

lemma GetIPv6FromName_labels:
  assumes n: "name_at name 0 (pre @ nibble_labels (rev ip) @ [x, y])" and ip: "length ip = 16" "length (addr_ip a) = 16"
  shows "GetIPv6FromName a name = Some (a\<lparr>addr_type := mDNSAddrType_IPv6, addr_ip := ip\<rparr>, True)"
proof -
  have len: "length (nibble_labels (rev ip)) = 32" using ip(1) by (simp add: nibble_labels_def length_concat comp_def sum_list_triv)
  then have c: "CountLabels name 0 = Some (int (length pre) + 34)" using CountLabels_name [OF n] by simp
  obtain p where p: "SkipLeadingLabels name 0 (int (length pre)) = Some p" "name_at name p (nibble_labels (rev ip) @ [x, y])"
    using SkipLeadingLabels_name [OF n, of "length pre"] by auto
  have "nibble_loop name p 16 (addr_ip a) = Some (ip, True)"
    using nibble_loop_labels [OF p(2), of "addr_ip a"] ip by simp
  with c p(1) show ?thesis by (simp add: GetIPv6FromName_def)
qed

section \<open>Kinds of names\<close>

definition arpa_labels :: "addr_type \<Rightarrow> bytes list" where
  "arpa_labels t = [if t = mDNSAddrType_IPv4 then [0x69, 0x6E, 0x2D, 0x61, 0x64, 0x64, 0x72] else [0x69, 0x70, 0x36], [0x61, 0x72, 0x70, 0x61]]"

lemma arpa_names: "name_at in_addr_arpa 0 (arpa_labels mDNSAddrType_IPv4)" "name_at ip6_arpa 0 (arpa_labels mDNSAddrType_IPv6)"
  by (simp_all add: in_addr_arpa_def ip6_arpa_def arpa_labels_def valid_label_def read_byte_def read_bytes_def)

lemma ReverseMapDomainType_labels:
  assumes "name_at name 0 (pre @ [x, y])"
  shows "ReverseMapDomainType name = Some (if fold_name [x, y] = fold_name (arpa_labels mDNSAddrType_IPv4) then mDNSAddrType_IPv4
    else if fold_name [x, y] = fold_name (arpa_labels mDNSAddrType_IPv6) then mDNSAddrType_IPv6 else mDNSAddrType_None)"
proof -
  obtain p where p: "SkipLeadingLabels name 0 (int (length pre)) = Some p" "name_at name p [x, y]"
    using SkipLeadingLabels_name [OF assms, of "length pre"] by auto
  have "valid_label x" "valid_label y" using p(2) by auto
  then have "wire_len [x, y] \<le> 256" by (simp add: valid_label_def)
  then show ?thesis
    using CountLabels_name [OF assms] p(1) SameDomainName_iff [OF p(2) arpa_names(1)] SameDomainName_iff [OF p(2) arpa_names(2)]
    by (simp add: ReverseMapDomainType_def del: list.map)
qed
end
