(* ===== verification/Mdns_Claims.thy ===== *)
theory Mdns_Claims imports Mdns_Conflict_Props Mdns_Keepalive_Props Mdns_Server_Props Mdns_Cache Mdns_Reverse begin

text \<open>
  The properties of mDNS.c: probing, keepalive records, the choice of a DNS server, the cache and reverse names.
\<close>

text \<open>
  C27. \<open>mDNSRandom\<close> draws until a number does not exceed the maximum.  It always returns, the number is within
  the bound, and every number within the bound is returned for some state of the generator.
\<close>

theorem mDNSRandom_total:
  "(\<exists>r seed. mDNSRandom platform mx st = Some (r, Some seed) \<and> r \<le> mx)
    \<and> (\<forall>v \<le> mx. \<exists>seed. mDNSRandom platform mx (Some seed) = Some (v, Some v))"
  using mDNSRandom_some mDNSRandom_reaches by blast

theorem mDNSRandom_total_witness: "\<exists>seed. mDNSRandom 7 128 (Some seed) = Some (100, Some 100)"
proof -
  have "(100 :: u32) \<le> 128" by simp
  with mDNSRandom_total [of 7 128 None] show ?thesis by blast
qed

text \<open>
  C28. When no time for probes is set or it has passed, \<open>InitializeLastAPTime\<close> schedules the first probe of a
  unique record between now and 257 ticks (a quarter of a second) later, or up to eight seconds later when sending
  is suppressed (\<open>m_SuppressSending\<close> not zero), and the scheduler wakes up between now and then.  The times of the
  next probe, query and response may have any value.  Only a time in \<open>m_SuppressSending\<close>, if there is one, must not
  lie as far back as half the clock, to within 257 ticks, where the sign of a difference of times turns over.  The clock
  is not zero, and the record has no special rules (\<open>probing_record\<close>).
\<close>

theorem InitializeLastAPTime_first_probe:
  assumes "m_auth m p = Some r" "probing_record m r" "m_timenow m \<noteq> 0"
    "m_SuppressProbes m = 0 \<or> sint (m_SuppressProbes m - m_timenow m) < 0"
    "m_SuppressSending m \<noteq> 0 \<Longrightarrow> 257 - 2 ^ 31 < sint (m_SuppressSending m - m_timenow m)"
  shows "\<exists>m' r'. InitializeLastAPTime platform m p = Some m' \<and> m_auth m' p = Some r'
    \<and> ar_LastAPTime r' + ar_ThisAPInterval r' = m_SuppressProbes m'
    \<and> 0 \<le> sint (m_SuppressProbes m' - m_timenow m) \<and> sint (m_SuppressProbes m' - m_timenow m) \<le> probe_bound m
    \<and> 0 \<le> sint (m_NextScheduledProbe m' - m_timenow m)
    \<and> sint (m_NextScheduledProbe m' - m_timenow m) \<le> sint (m_SuppressProbes m' - m_timenow m)"
proof -
  obtain m1 st sp where s: "set_suppress_probes platform m = Some m1" "probe_within (probe_bound m) m1"
      "m1 = m\<lparr>m_random := st, m_SuppressProbes := sp\<rparr>"
    using set_suppress_probes_some [OF assms(3-5)] by blast
  have w: "0 \<le> sint (sp - m_timenow m)" "sint (sp - m_timenow m) \<le> probe_bound m" using s(2,3) by (simp_all add: probe_within_def)
  obtain t where t: "(if sint ((if sint (m_NextScheduledProbe m - sp) \<ge> 0 then sp else m_NextScheduledProbe m) - m_timenow m) < 0
      then m_timenow m else if sint (m_NextScheduledProbe m - sp) \<ge> 0 then sp else m_NextScheduledProbe m) = t"
    "0 \<le> sint (t - m_timenow m)" "sint (t - m_timenow m) \<le> sint (sp - m_timenow m)"
    using next_probe_time [OF w(1), of "m_NextScheduledProbe m"] by blast
  show ?thesis using assms(2) w t
    by (auto simp: InitializeLastAPTime_some [OF assms(1,2) s(1,3)] SetNextAnnounceProbeTime_def probing_record_def set_auth_def s(3) Let_def)
qed

definition host_record :: "u8 \<Rightarrow> auth_record" where
  "host_record b = \<lparr>ar_resrec = \<lparr>rr_RecordType = 2, rr_rrtype = 1, rr_rrclass = 1, rr_rroriginalttl = 120, rr_rdlength = 4,
      rr_rdestimate = 4, rr_namehash = 0, rr_rdatahash = 0, rr_InterfaceID = 0, rr_name = [0], rr_data = [10, 0, 0, b] @ replicate 12 0,
      rr_opts = [], rr_resGroupID = None\<rparr>,
    ar_Additional1 = None, ar_Additional2 = None, ar_DependentOn = None, ar_RRSet = None, ar_HMAC = 0, ar_AddressProxy_type = 0,
    ar_ProbeCount = 3, ar_AnnounceCount = 8, ar_ThisAPInterval = 0, ar_LastAPTime = 0, ar_LastMCTime = 0, ar_LastMCInterface = 0\<rparr>"

definition host :: "u8 \<Rightarrow> mdns" where
  "host b = \<lparr>m_timenow = 5000, m_SuppressProbes = 0, m_NextScheduledProbe = 9000, m_NextScheduledQuery = 9000, m_NextScheduledResponse = 9000,
    m_SuppressSending = 0, m_KnownBugs = 0, m_random = None, m_auth = [7 \<mapsto> host_record b], m_ResourceRecords = [7], m_DuplicateRecords = []\<rparr>"

lemma host_probing: "m_auth (host b) 7 = Some (host_record b)" "probing_record (host b) (host_record b)"
  by (simp_all add: host_def host_record_def probing_record_def record_types)

theorem InitializeLastAPTime_first_probe_witness:
  "\<exists>m' r'. InitializeLastAPTime 1 (host 1) 7 = Some m' \<and> m_auth m' 7 = Some r'
    \<and> ar_LastAPTime r' + ar_ThisAPInterval r' = m_SuppressProbes m'
    \<and> 0 \<le> sint (m_SuppressProbes m' - 5000) \<and> sint (m_SuppressProbes m' - 5000) \<le> 257"
  using InitializeLastAPTime_first_probe [OF host_probing, of 1 1] by (auto simp: host_def probe_bound_def)

text \<open>
  C29. The tie-break between two hosts that probe for the same name at the same time is decided by the order of
  class, type and the bytes of the data: what one host finds for its record against the other's is the opposite
  of what the other host finds, so that exactly one of them loses when these differ.
\<close>

theorem tie_break_order:
  assumes "sent a = Some da" "sent b = Some db"
  shows "\<exists>x. tie_break a b = Some x \<and> tie_break b a = Some (- x)
    \<and> sgn x = three_way (unat (rr_rrclass a) # unat (rr_rrtype a) # map unat da) (unat (rr_rrclass b) # unat (rr_rrtype b) # map unat db)"
  using tie_break_key [OF assms] by (simp add: probe_key_def)

lemma host_sent: "sent (ar_resrec (host_record b)) = Some [10, 0, 0, b]"
  by (simp add: sent_def put_256_def putRData_def host_record_def put_raw_def mem_copy_def read_bytes_def store_bytes_def
      write_bytes_def)

theorem tie_break_order_witness:
  "\<exists>x. tie_break (ar_resrec (host_record 1)) (ar_resrec (host_record 200)) = Some x
    \<and> tie_break (ar_resrec (host_record 200)) (ar_resrec (host_record 1)) = Some (- x) \<and> sgn x = - 1"
  using tie_break_order [OF host_sent host_sent, of 1 200] by (simp add: host_record_def three_way_def)

text \<open>
  \<open>CompareRData\<close> compares what fits into 256 bytes.  Two TXT records of the same class with more data than
  that are a tie for both hosts, whatever the data is: neither of them gives way.
\<close>

theorem tie_break_long_data:
  assumes "rr_rrtype a = kDNSType_TXT" "rr_rrtype b = kDNSType_TXT" "rr_rrclass a = rr_rrclass b"
    "256 < unat (rr_rdlength a)" "256 < unat (rr_rdlength b)"
  shows "tie_break a b = Some 0 \<and> tie_break b a = Some 0"
proof -
  obtain x where "tie_break a b = Some x" "tie_break b a = Some (- x)" "sgn x = 0"
    using tie_break_key [OF sent_too_long [OF assms(1,4)] sent_too_long [OF assms(2,5)]] assms(1-3)
    by (auto simp: probe_key_def three_way_def)
  then show ?thesis by (simp add: sgn_0_0)
qed

definition long_text :: "u8 \<Rightarrow> resource_record" where
  "long_text b = (ar_resrec (host_record 0))\<lparr>rr_rrtype := kDNSType_TXT, rr_rdlength := 400, rr_data := replicate 400 b\<rparr>"

theorem tie_break_long_data_witness:
  "rr_data (long_text 1) \<noteq> rr_data (long_text 2) \<and> tie_break (long_text 1) (long_text 2) = Some 0 \<and> tie_break (long_text 2) (long_text 1) = Some 0"
  using tie_break_long_data [of "long_text 1" "long_text 2"] by (simp add: long_text_def host_record_def)

text \<open>
  C30. \<open>ResolveSimultaneousProbe\<close> gives way exactly when some record of the authority section answers the probe,
  conflicts with our record and is later in the order of RFC 6762: by class, then by type, then by the bytes of the
  data as it is sent (\<open>earlier\<close>; data of more than 256 bytes counts as empty).  Then our record waits for a second
  before it is probed three times again; otherwise, also when the records are equal, nothing changes.  Our record is one
  without special rules that is being probed, and the tests of the code (\<open>loses_to\<close>) have a result for each record of the
  section, that is, they stay in memory and the pointers that they follow end.
\<close>

theorem ResolveSimultaneousProbe_defers:
  assumes "authorities query e (q_InterfaceID q) rec = Some rs" "\<forall>r\<in>set rs. loses_to m q our r \<noteq> None"
    "m_auth m our = Some r" "probing_record m r"
  shows "\<exists>m' rec'. ResolveSimultaneousProbe platform m query e q our rec = Some (m', rec')
    \<and> (if \<exists>x\<in>set rs. wins_against m q our r x then deferred m our m' else m' = m)"
proof -
  obtain ptr n where a: "LocateAuthorities query e = Some ptr" "get_count query h_numAuthorities = Some n"
      "read_records (unat n) query ptr e (q_InterfaceID q) rec = Some rs"
    using assms(1) by (auto simp: authorities_def)
  obtain m' where m': "probe_again platform m our = Some m'" "deferred m our m'"
    using probe_again_deferred [OF assms(3,4)] by blast
  obtain rec' where "probe_loop platform (unat n) m query ptr e q our rec =
      Some (if \<exists>r\<in>set rs. loses_to m q our r = Some True then m' else m, rec')"
    using probe_loop_records [OF a(3) assms(2), of platform] m'(1) by auto
  moreover have "(\<exists>x\<in>set rs. loses_to m q our x = Some True) \<longleftrightarrow> (\<exists>x\<in>set rs. wins_against m q our r x)"
    using assms(2) loses_to_wins [OF assms(3)] by blast
  ultimately show ?thesis using a(1,2) m'(2) by (simp add: ResolveSimultaneousProbe_def)
qed

text \<open>A probe with the address record of another host in its authority section\<close>

definition probe_message :: "u8 \<Rightarrow> bytes" where
  "probe_message b = [0, 0, 0, 0, 0, 0, 0, 0, 1, 0, 0, 0, 0, 0, 1, 0, 1, 0, 0, 0, 120, 0, 4, 10, 0, 0, b, 0]"

definition probe_question :: question where
  "probe_question = \<lparr>q_InterfaceID = 0, q_TargetQID = (0, 0), q_qname = [0], q_qnamehash = 0, q_qtype = 255, q_qclass = 1,
    q_SuppressUnusable = False, q_SuppressQuery = False, q_ValidationRequired = False, q_ValidatingResponse = False, q_resGroupID = None\<rparr>"

definition received :: "u8 \<Rightarrow> u32 \<Rightarrow> resource_record" where
  "received b h = (ar_resrec (host_record b))\<lparr>rr_RecordType := 176, rr_rdatahash := h\<rparr>"

lemma probe_message_records: "authorities (probe_message 9) 27 (q_InterfaceID probe_question) (ar_resrec (host_record 0)) = Some [received 9 163912]"
  by code_simp

lemma host_loses: "loses_to (host 1) probe_question 7 (received 9 163912) = Some True"
  by code_simp

theorem ResolveSimultaneousProbe_defers_witness:
  "\<exists>m' rec'. ResolveSimultaneousProbe 1 (host 1) (probe_message 9) 27 probe_question 7 (ar_resrec (host_record 0)) = Some (m', rec')
    \<and> deferred (host 1) 7 m'"
proof -
  have "wins_against (host 1) probe_question 7 (host_record 1) (received 9 163912)"
    using loses_to_wins [OF host_probing(1) [of 1], of probe_question "received 9 163912"] host_loses by simp
  then show ?thesis
    using ResolveSimultaneousProbe_defers [OF probe_message_records _ host_probing, of 1] host_loses by simp
qed

text \<open>
  C31. \<open>GetValueForIPv4Addr\<close> writes a byte for every dot of the text without a limit.  It stays inside of the
  address exactly when there are at most 16 dots before the first other character; the text comes from the network.
\<close>

theorem GetValueForIPv4Addr_bounds:
  assumes "limit \<le> length mem" "length v4 = 16"
  shows "GetValueForIPv4Addr mem p limit v4 = None \<longleftrightarrow> 16 < dots_in (span mem p limit)"
  using ipv4_loop_none_iff [OF assms, of 0 p 0] by (simp add: GetValueForIPv4Addr_def)

theorem GetValueForIPv4Addr_bounds_witness: "GetValueForIPv4Addr (replicate 17 0x2E) 0 17 (replicate 16 0) = None"
proof -
  have "dots_in (span (replicate 17 0x2E) 0 17) = 17" by code_simp
  then show ?thesis using GetValueForIPv4Addr_bounds [of 17 "replicate 17 0x2E" "replicate 16 0" 0] by simp
qed

text \<open>
  C32. \<open>GetValueForIPv6Addr\<close> returns for every text, stays inside of the text, its array and the address, and
  yields what the parser over the characters alone yields: nothing depends on the bytes that the array held before.
\<close>

theorem GetValueForIPv6Addr_refines:
  assumes "p \<le> limit" "limit \<le> length mem" "length v6addr = 16"
  shows "GetValueForIPv6Addr v6addr mem p limit v6 = Some (v6_result v6 limit (v6_scan (span mem p limit) 0 [] False 0 False))"
  by (rule ipv6_addr_scan [OF assms])

theorem GetValueForIPv6Addr_refines_witness:
  "GetValueForIPv6Addr (replicate 16 77) [0x31, 0x3A, 0x3A, 0x32, 0x20] 0 5 (replicate 16 0) =
    Some ([0, 1, 0, 0, 0, 0, 0, 0, 0, 0, 0, 0, 0, 0, 0, 2], Some 4)"
proof -
  have "v6_result (replicate 16 0) 5 (v6_scan (span [0x31, 0x3A, 0x3A, 0x32, 0x20] 0 5) 0 [] False 0 False) =
      ([0, 1, 0, 0, 0, 0, 0, 0, 0, 0, 0, 0, 0, 0, 0, 2], Some 4)" by code_simp
  then show ?thesis using GetValueForIPv6Addr_refines [of 0 5 "[0x31, 0x3A, 0x3A, 0x32, 0x20]" "replicate 16 77" "replicate 16 0"] by simp
qed

text \<open>
  C33. What becomes of a text of at most seven groups around one pair of colons, which ends at the limit or before a space.  With groups
  on both sides it is read as the address with zeros between them.  With no group in front, as in the text of the loopback
  address, or with none behind, as in a prefix of eight bytes, it is rejected, although the comment promises the compressed
  form; only the pair alone, before a space, is read as the address of zeros.
\<close>

theorem GetValueForIPv6Addr_compressed:
  assumes "span mem p limit = join 0x3A fs @ [0x3A, 0x3A] @ join 0x3A bs @ rest" "rest = [] \<or> hd rest = 0x20"
    "\<forall>g\<in>set fs \<union> set bs. is_group g" "length fs + length bs \<le> 7"
    "p \<le> limit" "limit \<le> length mem" "length v6addr = 16"
  shows "GetValueForIPv6Addr v6addr mem p limit v6 = Some (
    if fs = [] \<and> bs = [] \<and> rest \<noteq> [] then (replicate 16 0, Some (limit - length rest))
    else if fs = [] \<or> bs = [] then (v6, None)
    else (groups_bytes fs @ replicate (16 - 2 * (length fs + length bs)) 0 @ groups_bytes bs, Some (limit - length rest)))"
proof -
  note scan = ipv6_addr_scan [OF assms(5-7)]
  consider "fs = []" "bs = []" | "fs = []" "bs \<noteq> []" | "fs \<noteq> []" "bs = []" | "fs \<noteq> []" "bs \<noteq> []" by blast
  then show ?thesis
  proof cases
    case 1
    then show ?thesis using scan v6_scan_alone [OF assms(2)] by (simp add: v6_result_def assms(1))
  next
    case 2
    have "no_space (join 0x3A bs @ rest)" using assms(3) 2 by (intro no_space_join) auto
    moreover have "span mem p limit = 0x3A # 0x3A # join 0x3A bs @ rest" using assms(1) 2 by simp
    ultimately have "v6_scan (span mem p limit) 0 [] False 0 False = None" by (simp only: v6_scan_leading)
    then show ?thesis using 2 scan by (simp add: v6_result_def)
  next
    case 3
    then have "v6_scan (span mem p limit) 0 [] False 0 False = None"
      using v6_scan_trailing [of fs rest] assms(1-4) by simp
    then show ?thesis using 3 scan by (simp add: v6_result_def)
  next
    case 4
    then show ?thesis using v6_scan_compressed [OF assms(3) 4 assms(4,2)] scan by (simp add: v6_result_def assms(1))
  qed
qed

theorem GetValueForIPv6Addr_compressed_witness:
  "GetValueForIPv6Addr (replicate 16 77) [0x3A, 0x3A, 0x31, 0x20] 0 4 (replicate 16 0) = Some (replicate 16 0, None)
    \<and> GetValueForIPv6Addr (replicate 16 77) [0x66, 0x65, 0x38, 0x30, 0x3A, 0x3A] 0 6 (replicate 16 0) = Some (replicate 16 0, None)"
proof -
  have "span [0x3A, 0x3A, 0x31, 0x20] 0 4 = join 0x3A [] @ [0x3A, 0x3A] @ join 0x3A [[0x31]] @ [0x20]" by code_simp
  moreover have "span [0x66, 0x65, 0x38, 0x30, 0x3A, 0x3A] 0 6 = join 0x3A [[0x66, 0x65, 0x38, 0x30]] @ [0x3A, 0x3A] @ join 0x3A [] @ []"
    by code_simp
  moreover have "is_group [0x31]" "is_group [0x66, 0x65, 0x38, 0x30]" by (simp_all add: is_group_def HexVal_def)
  ultimately show ?thesis
    using GetValueForIPv6Addr_compressed [of "[0x3A, 0x3A, 0x31, 0x20]" 0 4 "[]" "[[0x31]]" "[0x20]" "replicate 16 77" "replicate 16 0"]
      GetValueForIPv6Addr_compressed [of "[0x66, 0x65, 0x38, 0x30, 0x3A, 0x3A]" 0 6 "[[0x66, 0x65, 0x38, 0x30]]" "[]" "[]" "replicate 16 77" "replicate 16 0"]
    by simp
qed

text \<open>A keepalive record whose text consists of the settings\<close>

definition keepalive_record :: "auth_record \<Rightarrow> ka_item list \<Rightarrow> bool" where
  "keepalive_record ar is \<longleftrightarrow> mDNS_KeepaliveRecord (ar_resrec ar) = Some True
    \<and> text_at (rr_data (ar_resrec ar)) 1 (join 0x20 (map item_text is))
    \<and> unat (rr_rdlength (ar_resrec ar)) = 1 + length (join 0x20 (map item_text is))"

text \<open>
  C34. The settings of a keepalive record, numbers and IPv4 addresses with a space between them, are stored in
  the fields that their letters name, the timeout as it is, ports, counters and window with the bytes of the number in
  network order, numbers modulo the size of the field (\<open>apply_item\<close>).  The fields of letters that do not occur keep
  their values.  The memory of both addresses has 16 bytes beforehand.
\<close>

theorem mDNS_ExtractKeepaliveInfo_settings:
  assumes "keepalive_record ar is" "\<forall>i\<in>set is. item_ok i" "ka_ok ka"
  shows "mDNS_ExtractKeepaliveInfo v6addr v ar ka = Some (fold apply_item is ka)"
  using assms keepalive_loop_items [OF assms(2), of "rr_data (ar_resrec ar)" 1 "unat (rr_rdlength (ar_resrec ar))" ka v6addr v]
  by (simp add: extract_keepalive keepalive_record_def)

definition keepalive_host :: "bytes \<Rightarrow> auth_record" where
  "keepalive_host t = (host_record 0)\<lparr>ar_resrec := (ar_resrec (host_record 0))\<lparr>rr_rrtype := kDNSType_NULL, rr_name := 1 # 0x61 # keepalive_label @ [0],
    rr_data := of_nat (length t) # t, rr_rdlength := of_nat (1 + length t)\<rparr>\<rparr>"

definition no_keepalive :: keepalive where
  "no_keepalive = \<lparr>ka_timeout = 0, ka_laddr = \<lparr>addr_type = mDNSAddrType_None, addr_ip = replicate 16 0\<rparr>,
    ka_raddr = \<lparr>addr_type = mDNSAddrType_None, addr_ip = replicate 16 0\<rparr>, ka_seq = 0, ka_ack = 0, ka_lport = 0, ka_rport = 0, ka_win = 0\<rparr>"

text \<open>The settings \<open>t=30 h=10.0.0.1 l=80\<close>\<close>

definition some_items :: "ka_item list" where
  "some_items = [Number 0x74 [0x33, 0x30], Quad 0x68 [0x31, 0x30] [0x30] [0x30] [0x31], Number 0x6C [0x38, 0x30]]"

theorem mDNS_ExtractKeepaliveInfo_settings_witness:
  "mDNS_ExtractKeepaliveInfo [] 0 (keepalive_host (join 0x20 (map item_text some_items))) no_keepalive =
    Some (no_keepalive\<lparr>ka_timeout := 30, ka_laddr := \<lparr>addr_type = mDNSAddrType_IPv4, addr_ip = [10, 0, 0, 1] @ replicate 12 0\<rparr>, ka_lport := 0x5000\<rparr>)"
proof -
  have "keepalive_record (keepalive_host (join 0x20 (map item_text some_items))) some_items" by code_simp
  moreover have "\<forall>i\<in>set some_items. item_ok i" "ka_ok no_keepalive" by code_simp+
  moreover have "fold apply_item some_items no_keepalive =
      no_keepalive\<lparr>ka_timeout := 30, ka_laddr := \<lparr>addr_type = mDNSAddrType_IPv4, addr_ip = [10, 0, 0, 1] @ replicate 12 0\<rparr>, ka_lport := 0x5000\<rparr>" by code_simp
  ultimately show ?thesis using mDNS_ExtractKeepaliveInfo_settings by metis
qed

text \<open>
  When the text of an IPv4 address is malformed, here a number without dots, \<open>GetValueForIPv4Addr\<close> returns NULL and
  \<open>mDNS_ExtractKeepaliveInfo\<close> hands it to \<open>GetValueForKeepalive\<close> before it is tested: the program follows a null pointer.
\<close>

theorem mDNS_ExtractKeepaliveInfo_null_pointer:
  assumes "mDNS_KeepaliveRecord (ar_resrec ar) = Some True" "text_at (rr_data (ar_resrec ar)) 1 (l # 0x3D # ds)" "l = 0x68 \<or> l = 0x64"
    "\<forall>c\<in>set ds. is_digit c" "unat (rr_rdlength (ar_resrec ar)) = 3 + length ds"
  shows "mDNS_ExtractKeepaliveInfo v6addr v ar ka = None"
proof -
  let ?mem = "rr_data (ar_resrec ar)" and ?n = "3 + length ds"
  have t: "read_byte ?mem 1 = Some l" "text_at ?mem 3 ds" using assms(2) by (simp_all add: numeral_3_eq_3)
  have "ipv4_loop ?mem 3 ?n b 0 0 = Some (b, None)" for b
    by (subst ipv4_loop_digits [OF t(2) assms(4)], simp, subst ipv4_loop.simps) simp
  then have "ka_setting v6addr ?mem 1 ?n ka v = None"
    using t(1) assms(3) by (auto simp: ka_setting_def ka_ipv4_def ka_others_def GetValueForKeepalive_def GetValueForIPv4Addr_def numeral_3_eq_3)
  then have "keepalive_loop v6addr ?mem 1 ?n ka v = None" by (subst keepalive_loop.simps) simp
  then show ?thesis by (simp add: extract_keepalive assms(1,5))
qed

theorem mDNS_ExtractKeepaliveInfo_null_pointer_witness:
  "mDNS_ExtractKeepaliveInfo [] 0 (keepalive_host [0x68, 0x3D, 0x31]) no_keepalive = None"
proof -
  have "mDNS_KeepaliveRecord (ar_resrec (keepalive_host [0x68, 0x3D, 0x31])) = Some True" by code_simp
  moreover have "text_at (rr_data (ar_resrec (keepalive_host [0x68, 0x3D, 0x31]))) 1 [0x68, 0x3D, 0x31]"
    "unat (rr_rdlength (ar_resrec (keepalive_host [0x68, 0x3D, 0x31]))) = 3 + length [0x31]" by code_simp+
  ultimately show ?thesis
    by (intro mDNS_ExtractKeepaliveInfo_null_pointer [where l = "0x68" and ds = "[0x31]"]) simp_all
qed


section \<open>The choice of a DNS server\<close>

abbreviation domains_of :: "dns_server list \<Rightarrow> bytes list list \<Rightarrow> bool" where
  "domains_of ss dss \<equiv> list_all2 (\<lambda>s ds. name_at (ds_domain s) 0 ds) ss dss"

lemma domains_readable: "domains_of ss dss \<Longrightarrow> \<forall>s \<in> set ss. CountLabels (ds_domain s) 0 \<noteq> None"
  by (induction ss dss rule: list_all2_induct) (auto simp: CountLabels_name)

definition serves_name :: "u64 \<Rightarrow> bytes list \<Rightarrow> dns_server \<Rightarrow> bytes list \<Rightarrow> bool" where
  "serves_name iface ls s ds \<longleftrightarrow> \<not> server_deleted s \<and> matches_interface iface s \<and> in_domain ls ds"

text \<open>Server \<open>p\<close> is preferred to \<open>q\<close>: a longer domain, a lower penalty, an earlier position\<close>

definition preferred :: "s32 \<Rightarrow> dns_server list \<Rightarrow> bytes list list \<Rightarrow> nat \<Rightarrow> nat \<Rightarrow> bool" where
  "preferred timenow ss dss p q \<longleftrightarrow> length (dss ! q) < length (dss ! p)
    \<or> length (dss ! q) = length (dss ! p)
      \<and> (penalty timenow (ss ! p) < penalty timenow (ss ! q) \<or> penalty timenow (ss ! p) = penalty timenow (ss ! q) \<and> p \<le> q)"

lemma name_least_preferred:
  assumes "is_first_least (map2 (name_key timenow ls iface) ss dss) b" "length dss = length ss"
  shows "case map_option fst b of None \<Rightarrow> \<forall>q<length ss. \<not> serves_name iface ls (ss ! q) (dss ! q)
    | Some p \<Rightarrow> p < length ss \<and> serves_name iface ls (ss ! p) (dss ! p)
        \<and> (\<forall>q<length ss. serves_name iface ls (ss ! q) (dss ! q) \<longrightarrow> preferred timenow ss dss p q)"
proof (cases b)
  case None
  with assms show ?thesis
    by (fastforce simp: is_first_least_def all_set_conv_all_nth name_key_def serves_name_def split: if_splits)
next
  case (Some pk)
  obtain p k where b: "b = Some (p, k)" using Some by (cases pk) auto
  with assms have p: "p < length ss" "name_key timenow ls iface (ss ! p) (dss ! p) = Some k"
    and q: "\<And>q k'. q < length ss \<Longrightarrow> name_key timenow ls iface (ss ! q) (dss ! q) = Some k' \<Longrightarrow> k < k' \<or> k = k' \<and> p \<le> q"
    by (auto simp: is_first_least_def)
  have k: "k = (- int (length (dss ! p)), penalty timenow (ss ! p))" "serves_name iface ls (ss ! p) (dss ! p)"
    using p(2) by (auto simp: name_key_def serves_name_def split: if_splits)
  have "preferred timenow ss dss p q" if "q < length ss" "serves_name iface ls (ss ! q) (dss ! q)" for q
    using q [OF that(1), of "(- int (length (dss ! q)), penalty timenow (ss ! q))"] that(2) k(1)
    by (auto simp: name_key_def serves_name_def preferred_def)
  with p(1) k(2) b show ?thesis by simp
qed

text \<open>Two servers, of which the second one serves a longer domain but is penalized\<close>

definition dns_of :: "bytes \<Rightarrow> s32 \<Rightarrow> bool \<Rightarrow> dns_server" where
  "dns_of d pen scoped = \<lparr>ds_interface = 0, ds_flags = 0, ds_domain = d, ds_penaltyTime = pen, ds_scoped = scoped, ds_timeout = 5, ds_cellIntf = False\<rparr>"

lemma dns_of_domain: "ds_domain (dns_of d pen scoped) = d" by (simp add: dns_of_def)

text \<open>The servers that a question may be put to\<close>

definition serves_question :: "bool \<Rightarrow> u64 \<Rightarrow> bytes list \<Rightarrow> dns_server \<Rightarrow> bytes list \<Rightarrow> bool" where
  "serves_question deq iface ls s ds \<longleftrightarrow> \<not> server_deleted s \<and> valid_for_question deq iface s \<and> in_domain ls ds"

text \<open>Servers on real interfaces, none of them scoped without an interface, with penalties of at most a minute\<close>

definition ordinary_server :: "s32 \<Rightarrow> dns_server \<Rightarrow> bool" where
  "ordinary_server timenow s \<longleftrightarrow> \<not> (ds_scoped s \<and> ds_interface s = 0)
    \<and> ds_interface s \<noteq> mDNSInterface_Unicast \<and> ds_interface s \<noteq> mDNSInterface_LocalOnly
    \<and> penalty timenow s \<le> sint DNSSERVER_PENALTY_TIME"

lemma valid_matches:
  "ordinary_server timenow s \<Longrightarrow> valid_for_question deq iface s \<Longrightarrow> matches_interface (any_interface iface) s"
  by (auto simp: ordinary_server_def valid_for_question_def matches_interface_def any_interface_def)

lemma counted_less: "p < length ss \<Longrightarrow> length ss \<le> 64 \<Longrightarrow> counted (take p ss) < 64"
  using length_filter_le [of "\<lambda>s. \<not> server_deleted s" "take p ss"] by (simp add: counted_def)

text \<open>When the loops count the same servers, the bit of a server is at its index.\<close>

lemma nth_counted:
  "length dss = length ss \<Longrightarrow> p < length ss \<Longrightarrow> \<not> server_deleted (ss ! p) \<Longrightarrow> \<forall>s \<in> set ss. \<not> (ds_scoped s \<and> ds_interface s = 0) \<Longrightarrow>
     counted (take p ss) < length (filter (\<lambda>x. considered (fst x)) (zip ss dss))
     \<and> filter (\<lambda>x. considered (fst x)) (zip ss dss) ! counted (take p ss) = (ss ! p, dss ! p)"
proof (induction ss arbitrary: dss p)
  case (Cons s ss)
  then obtain d dss' where d: "dss = d # dss'" by (cases dss) auto
  with Cons show ?case by (cases p) (auto simp: considered_def)
qed simp

lemma least_valid_key:
  assumes "is_first_least (valid_keys timenow iface bits 0 ss) b"
  shows "case b of None \<Rightarrow> \<forall>q<length ss. \<not> (op_bit bits (counted (take q ss)) \<and> valid_key timenow iface (ss ! q) \<noteq> None)
    | Some (p, k) \<Rightarrow> p < length ss \<and> op_bit bits (counted (take p ss)) \<and> valid_key timenow iface (ss ! p) = Some k
        \<and> (\<forall>q k'. q < length ss \<longrightarrow> op_bit bits (counted (take q ss)) \<longrightarrow> valid_key timenow iface (ss ! q) = Some k'
             \<longrightarrow> k < k' \<or> k = k' \<and> p \<le> q)"
  using assms unfolding is_first_least_def
  by (cases b) (auto simp: all_set_conv_all_nth nth_valid_keys split: if_splits)

lemma best_valid_index:
  assumes "length dss = length ss" "p < length ss" "\<not> server_deleted (ss ! p)" "\<forall>s \<in> set ss. \<not> (ds_scoped s \<and> ds_interface s = 0)"
  shows "best_valid deq iface ls (filter (\<lambda>x. considered (fst x)) (zip ss dss)) (counted (take p ss)) \<longleftrightarrow>
    serves_question deq iface ls (ss ! p) (dss ! p)
    \<and> (\<forall>q<length ss. serves_question deq iface ls (ss ! q) (dss ! q) \<longrightarrow> length (dss ! q) \<le> length (dss ! p))"
  (is "_ = (?serves p \<and> ?all)")
proof -
  let ?xs = "filter (\<lambda>x. considered (fst x)) (zip ss dss)"
  note at = nth_counted [OF assms]
  have serves: "?serves q \<longleftrightarrow> (ss ! q, dss ! q) \<in> set ?xs \<and> answers_for deq iface ls (ss ! q, dss ! q)" if "q < length ss" for q
  proof -
    have "(ss ! q, dss ! q) \<in> set (zip ss dss)" using that assms(1) by (metis length_zip min.idem nth_mem nth_zip)
    then show ?thesis using assms(4) that by (auto simp: serves_question_def answers_for_def considered_def)
  qed
  have mem: "\<exists>q<length ss. x = (ss ! q, dss ! q)" if "x \<in> set ?xs" for x
    using that assms(1) by (auto simp: set_zip)
  have key: "int (length (dss ! p)) = longest deq iface ls ?xs \<longleftrightarrow> ?all" if "?serves p"
  proof
    assume "int (length (dss ! p)) = longest deq iface ls ?xs"
    then show ?all using longest_upper [of _ ?xs deq iface ls] serves by fastforce
  next
    assume ?all
    then have "int (length (snd x)) \<le> int (length (dss ! p))" if "x \<in> set ?xs" "answers_for deq iface ls x" for x
      using mem [OF that(1)] serves that by auto
    moreover have "(ss ! p, dss ! p) \<in> set ?xs" "answers_for deq iface ls (ss ! p, dss ! p)" using serves [OF assms(2)] that by simp_all
    ultimately show "int (length (dss ! p)) = longest deq iface ls ?xs"
      unfolding longest_def by (intro Max_eqI [symmetric]) force+
  qed
  have "(ss ! p, dss ! p) \<in> set ?xs" using at nth_mem by metis
  then have "?serves p \<longleftrightarrow> answers_for deq iface ls (ss ! p, dss ! p)" using serves [OF assms(2)] by blast
  moreover have "best_valid deq iface ls ?xs (counted (take p ss)) \<longleftrightarrow>
      answers_for deq iface ls (ss ! p, dss ! p) \<and> int (length (dss ! p)) = longest deq iface ls ?xs"
    using at unfolding best_valid_def by simp
  ultimately show ?thesis using key by blast
qed

text \<open>
  C35. \<open>GetServerForName\<close> always terminates on readable names and at most 64 servers, and returns the best server: one
  that is not about to be deleted, fits the interface and whose domain the name ends with (without regard to
  case); no such server has a longer domain, or the same length and a lower penalty, or the same penalty and an
  earlier place in the list.  It returns none only when there is none.
\<close>

theorem GetServerForName_best:
  assumes "name_at name 0 ls" "wire_len ls \<le> 256" "domains_of ss dss" "length ss \<le> 64"
  shows "\<exists>ss' r. GetServerForName timenow ss name iface = Some (ss', r) \<and> maybe_reset timenow ss ss'
    \<and> (case r of None \<Rightarrow> \<forall>q<length ss. \<not> serves_name (any_interface iface) ls (ss ! q) (dss ! q)
       | Some p \<Rightarrow> p < length ss \<and> serves_name (any_interface iface) ls (ss ! p) (dss ! p)
           \<and> (\<forall>q<length ss. serves_name (any_interface iface) ls (ss ! q) (dss ! q) \<longrightarrow> preferred timenow ss dss p q))"
proof -
  from GetServerForName_least [OF assms] obtain ss' b where
    g: "GetServerForName timenow ss name iface = Some (ss', map_option fst b)" "maybe_reset timenow ss ss'"
      "is_first_least (map2 (name_key timenow ls (any_interface iface)) ss dss) b" .
  from name_least_preferred [OF g(3)] assms(3) g(1,2) show ?thesis by (auto dest: list_all2_lengthD)
qed

theorem GetServerForName_best_witness:
  "\<exists>ss' r. GetServerForName 100 [dns_of [0] 0 False, dns_of [1, 0x42, 0] 300 False] [1, 0x61, 1, 0x62, 0] 0 = Some (ss', r) \<and> r \<noteq> None"
proof -
  have n: "name_at [1, 0x61, 1, 0x62, 0] 0 [[0x61], [0x62]]" "wire_len [[0x61 :: u8], [0x62]] \<le> 256"
    by (simp_all add: valid_label_def read_byte_def read_bytes_def)
  have d: "domains_of [dns_of [0] 0 False, dns_of [1, 0x42, 0] 300 False] [[], [[0x42]]]"
    by (simp add: dns_of_domain valid_label_def read_byte_def read_bytes_def)
  have "serves_name (any_interface 0) [[0x61], [0x62]] (dns_of [0] 0 False) []"
    by (simp add: serves_name_def dns_of_def server_deleted_def matches_interface_def any_interface_def
      mDNSInterface_Unicast_def mDNSInterface_LocalOnly_def)
  then show ?thesis using GetServerForName_best [OF n d, of 100 0] by (fastforce split: option.splits)
qed


lemma longest_exists:
  assumes "length dss = length ss" "q < length ss" "P (ss ! q) (dss ! q)"
  shows "\<exists>p<length ss. P (ss ! p) (dss ! p) \<and> (\<forall>q<length ss. P (ss ! q) (dss ! q) \<longrightarrow> length (dss ! q) \<le> length (dss ! p))"
proof -
  have "length (dss ! p) \<le> Max (length ` set dss)" if "p < length ss" for p using that assms(1) by auto
  then have "\<forall>p. p < length ss \<and> P (ss ! p) (dss ! p) \<longrightarrow> length (dss ! p) < Suc (Max (length ` set dss))" by (simp add: less_Suc_eq_le)
  from ex_has_greatest_nat [OF _ this] assms show ?thesis by blast
qed

lemma valid_least_preferred:
  assumes len: "length dss = length ss" and small: "length ss \<le> 64" and ord: "\<forall>s \<in> set ss. ordinary_server timenow s"
    and v: "\<And>j. j < 64 \<Longrightarrow> op_bit bits j = best_valid deq iface ls (filter (\<lambda>x. considered (fst x)) (zip ss dss)) j"
    and g: "is_first_least (valid_keys timenow (any_interface iface) bits 0 ss) b"
  shows "case map_option fst b of None \<Rightarrow> \<forall>p<length ss. \<not> serves_question deq iface ls (ss ! p) (dss ! p)
    | Some p \<Rightarrow> p < length ss \<and> serves_question deq iface ls (ss ! p) (dss ! p)
        \<and> (\<forall>q'<length ss. serves_question deq iface ls (ss ! q') (dss ! q') \<longrightarrow> preferred timenow ss dss p q')"
proof -
  let ?serves = "\<lambda>p. serves_question deq iface ls (ss ! p) (dss ! p)"
  have ok: "valid_key timenow (any_interface iface) (ss ! p) = Some (penalty timenow (ss ! p))" if "p < length ss" "?serves p" for p
    using that ord valid_matches [of timenow "ss ! p" deq iface] by (simp add: valid_key_def serves_question_def ordinary_server_def)
  have bit: "op_bit bits (counted (take p ss)) \<longleftrightarrow> ?serves p \<and> (\<forall>q<length ss. ?serves q \<longrightarrow> length (dss ! q) \<le> length (dss ! p))"
    if "p < length ss" "\<not> server_deleted (ss ! p)" for p
    using v [OF counted_less [OF that(1) small]] best_valid_index [OF len that] ord by (simp add: ordinary_server_def)
  show ?thesis
  proof (cases b)
    case None
    with least_valid_key [OF g] have none: "\<not> op_bit bits (counted (take p ss))" if "p < length ss" "?serves p" for p
      using ok that by auto
    have "\<not> ?serves p" if "p < length ss" for p
      using longest_exists [OF len that, of "\<lambda>s d. serves_question deq iface ls s d"] none bit by (auto simp: serves_question_def)
    with None show ?thesis by simp
  next
    case (Some pk)
    obtain p k where b: "b = Some (p, k)" using Some by (cases pk) auto
    with least_valid_key [OF g] have p: "p < length ss" "op_bit bits (counted (take p ss))"
        "valid_key timenow (any_interface iface) (ss ! p) = Some k"
      and least: "\<And>q k'. q < length ss \<Longrightarrow> op_bit bits (counted (take q ss)) \<Longrightarrow>
        valid_key timenow (any_interface iface) (ss ! q) = Some k' \<Longrightarrow> k < k' \<or> k = k' \<and> p \<le> q" by auto
    have "\<not> server_deleted (ss ! p)" using p(3) by (simp add: valid_key_def split: if_splits)
    then have s: "?serves p" "\<And>q. q < length ss \<Longrightarrow> ?serves q \<Longrightarrow> length (dss ! q) \<le> length (dss ! p)"
      using bit [OF p(1)] p(2) by blast+
    have "preferred timenow ss dss p q'" if q': "q' < length ss" "?serves q'" for q'
    proof (cases "length (dss ! q') = length (dss ! p)")
      case False
      with s(2) [OF q'] show ?thesis by (simp add: preferred_def)
    next
      case True
      then have "op_bit bits (counted (take q' ss))" using bit [OF q'(1)] q' s(2) by (simp add: serves_question_def)
      from least [OF q'(1) this ok [OF q']] ok [OF p(1) s(1)] p(3) True show ?thesis by (auto simp: preferred_def)
    qed
    with p(1) s(1) b show ?thesis by simp
  qed
qed

lemma maybe_reset_keeps:
  "maybe_reset timenow ss ss' \<Longrightarrow> length ss' = length ss \<and> counted (take p ss') = counted (take p ss) \<and> (domains_of ss dss \<longrightarrow> domains_of ss' dss)"
proof (induction ss arbitrary: ss' p dss)
  case (Cons s ss)
  then obtain s' rest where r: "ss' = s' # rest" "s' = s \<or> s' = snd (PenaltyTimeForServer timenow s)" "maybe_reset timenow ss rest"
    by (cases ss') (auto simp: maybe_reset_def)
  have k: "ds_domain s' = ds_domain s" "server_deleted s' = server_deleted s"
    using r(2) PenaltyTimeForServer_keeps [of timenow s _ s'] by (cases "PenaltyTimeForServer timenow s"; auto simp: server_deleted_def)+
  show ?case using Cons.IH [OF r(3)] r(1) k by (cases p; cases dss) auto
qed simp

text \<open>A question with the name of another\<close>

definition ask :: "bytes \<Rightarrow> question" where
  "ask name = \<lparr>q_InterfaceID = 0, q_TargetQID = (0, 0), q_qname = name, q_qnamehash = 0, q_qtype = 1, q_qclass = 1,
    q_SuppressUnusable = False, q_SuppressQuery = False, q_ValidationRequired = False, q_ValidatingResponse = False, q_resGroupID = None\<rparr>"

lemma ask_simps: "q_qname (ask name) = name" "q_InterfaceID (ask name) = 0" by (simp_all add: ask_def)

text \<open>
  C36. \<open>SetValidDNSServers\<close> and \<open>GetServerForQuestion\<close> together put a question to the best server, on a list of at most 64
  ordinary servers: one that is valid for the interface of the question (and not on a cellular link, for
  queries that enumerate domains) and whose domain the name ends with; none of those has a longer domain, or the
  same length and a lower penalty, or the same penalty and an earlier place.  None is chosen only when there is
  none.
\<close>

theorem GetServerForQuestion_best:
  assumes "name_at (q_qname q) 0 ls" "wire_len ls \<le> 256" "domains_of ss dss" "length ss \<le> 64" "\<forall>s \<in> set ss. ordinary_server timenow s"
  shows "\<exists>deq bits timeout ss' r bits'. DomainEnumQuery (q_qname q) = Some deq
    \<and> SetValidDNSServers ss q = Some (bits, 0, timeout) \<and> GetServerForQuestion timenow ss q bits = Some (ss', r, bits')
    \<and> (case r of None \<Rightarrow> \<forall>p<length ss. \<not> serves_question deq (q_InterfaceID q) ls (ss ! p) (dss ! p)
       | Some p \<Rightarrow> p < length ss \<and> serves_question deq (q_InterfaceID q) ls (ss ! p) (dss ! p)
           \<and> (\<forall>q'<length ss. serves_question deq (q_InterfaceID q) ls (ss ! q') (dss ! q') \<longrightarrow> preferred timenow ss dss p q'))"
proof -
  obtain deq where deq: "DomainEnumQuery (q_qname q) = Some deq" using DomainEnumQuery_spec [OF assms(1)] by blast
  from SetValidDNSServers_bits [OF assms(1-4) deq] obtain bits timeout where
    v: "SetValidDNSServers ss q = Some (bits, 0, timeout)" "length bits = 2"
      "\<And>j. j < 64 \<Longrightarrow> op_bit bits j = best_valid deq (q_InterfaceID q) ls (filter (\<lambda>x. considered (fst x)) (zip ss dss)) j" by blast
  from GetServerForQuestion_least [OF assms(1) domains_readable [OF assms(3)] assms(4) v(2), where timenow = timenow] obtain ss' b bits' where
    g: "GetServerForQuestion timenow ss q bits = Some (ss', map_option fst b, bits')"
      "is_first_least (valid_keys timenow (any_interface (q_InterfaceID q)) bits 0 ss) b" .
  have "length dss = length ss" using assms(3) by (auto dest: list_all2_lengthD)
  from valid_least_preferred [OF this assms(4,5) v(3) g(2)] deq v(1) g(1) show ?thesis by blast
qed

lemma ask_example:
  "name_at (q_qname (ask [1, 0x61, 1, 0x62, 0])) 0 [[0x61], [0x62]]" "wire_len [[0x61 :: u8], [0x62]] \<le> 256"
  "domains_of [dns_of [0] 0 False, dns_of [1, 0x42, 0] 300 False] [[], [[0x42]]]"
  "\<forall>s \<in> set [dns_of [0] 0 False, dns_of [1, 0x42, 0] 300 False]. ordinary_server 100 s"
  by (simp_all add: ask_def dns_of_domain valid_label_def read_byte_def read_bytes_def ordinary_server_def dns_of_def penalty_def
    PenaltyTimeForServer_def DNSSERVER_PENALTY_TIME_def mDNSPlatformOneSecond_def mDNSInterface_Unicast_def mDNSInterface_LocalOnly_def)

theorem GetServerForQuestion_best_witness:
  "\<exists>bits timeout ss' r bits'. SetValidDNSServers [dns_of [0] 0 False, dns_of [1, 0x42, 0] 300 False] (ask [1, 0x61, 1, 0x62, 0]) = Some (bits, 0, timeout)
    \<and> GetServerForQuestion 100 [dns_of [0] 0 False, dns_of [1, 0x42, 0] 300 False] (ask [1, 0x61, 1, 0x62, 0]) bits = Some (ss', r, bits') \<and> r \<noteq> None"
proof -
  have "serves_question deq 0 [[0x61], [0x62]] (dns_of [0] 0 False) []" for deq
    by (simp add: serves_question_def dns_of_def server_deleted_def valid_for_question_def)
  then show ?thesis using GetServerForQuestion_best [OF ask_example(1-3) _ ask_example(4)] by (fastforce simp: ask_simps split: option.splits)
qed

text \<open>
  \<open>GetServerForQuestion\<close> takes the server that it chooses out of the valid ones of the question: when the question is
  put again, at whatever time, it goes to another one or to none, and no bit is added.
\<close>

theorem GetServerForQuestion_once:
  assumes "name_at (q_qname q) 0 ls" "domains_of ss dss" "length ss \<le> 64" "length bits = 2"
    "GetServerForQuestion timenow ss q bits = Some (ss', Some p, bits')"
  shows "\<exists>ss'' r bits''. GetServerForQuestion later ss' q bits' = Some (ss'', r, bits'') \<and> r \<noteq> Some p
    \<and> (\<forall>j<64. op_bit bits'' j \<longrightarrow> op_bit bits' j) \<and> (\<forall>j<64. op_bit bits' j \<longrightarrow> op_bit bits j)"
proof -
  from GetServerForQuestion_least [OF assms(1) domains_readable [OF assms(2)] assms(3,4), where timenow = timenow] obtain ss0 b bits0 where
    c: "GetServerForQuestion timenow ss q bits = Some (ss0, map_option fst b, bits0)" and
    l: "maybe_reset timenow ss ss0" "length bits0 = 2" "is_first_least (valid_keys timenow (any_interface (q_InterfaceID q)) bits 0 ss) b"
      "\<And>j. j < 64 \<Longrightarrow> op_bit bits0 j = (op_bit bits j \<and> (case b of None \<Rightarrow> True | Some (p, _) \<Rightarrow> j \<noteq> counted (take p ss)))" by blast
  from c assms(5) obtain k where b: "ss0 = ss'" "bits0 = bits'" "b = Some (p, k)" by (cases b) auto
  note g = l [unfolded b, simplified]
  have same: "domains_of ss' dss" "length ss' = length ss" "counted (take p ss') = counted (take p ss)"
    using maybe_reset_keeps [OF g(1)] assms(2) by auto
  have "p < length ss" using least_valid_key [OF g(3)] by simp
  then have gone: "\<not> op_bit bits' (counted (take p ss'))" using g(4) [OF counted_less] assms(3) same(3) by simp
  have "length ss' \<le> 64" using assms(3) same(2) by simp
  from GetServerForQuestion_least [OF assms(1) domains_readable [OF same(1)] this g(2), where timenow = later] obtain ss'' b bits'' where
    h: "GetServerForQuestion later ss' q bits' = Some (ss'', map_option fst b, bits'')"
      "is_first_least (valid_keys later (any_interface (q_InterfaceID q)) bits' 0 ss') b"
      "\<And>j. j < 64 \<Longrightarrow> op_bit bits'' j \<Longrightarrow> op_bit bits' j" by (metis (no_types, lifting))
  have "map_option fst b \<noteq> Some p" using least_valid_key [OF h(2)] gone by (auto split: option.splits prod.splits)
  with h(1,3) g(4) show ?thesis by blast
qed

theorem GetServerForQuestion_once_witness:
  "\<exists>ss'' r bits''. GetServerForQuestion 200 [dns_of [0] 0 False, dns_of [1, 0x42, 0] 300 False] (ask [1, 0x61, 1, 0x62, 0]) [0, 0] = Some (ss'', r, bits'') \<and> r \<noteq> Some 1"
proof -
  have "GetServerForQuestion 100 [dns_of [0] 0 False, dns_of [1, 0x42, 0] 300 False] (ask [1, 0x61, 1, 0x62, 0]) [2, 0]
      = Some ([dns_of [0] 0 False, dns_of [1, 0x42, 0] 300 False], Some 1, [0, 0])" by code_simp
  from GetServerForQuestion_once [OF ask_example(1,3) _ _ this, of 200] show ?thesis by auto
qed

lemma single_valid:
  assumes "serves_question deq iface ls s ds"
  shows "best_valid deq iface ls [(s, ds)] j \<longleftrightarrow> j = 0"
  using assms longest_snoc [of deq iface ls "[]" "(s, ds)"]
  by (auto simp: best_valid_def serves_question_def answers_for_def)

text \<open>
  C37. \<open>SetValidDNSServers\<close> does not count a scoped server without an interface, \<open>GetBestServer\<close> does, so that the bits of the
  servers behind it are those of others.  With such a server in front of the only one that serves the name, a
  question without an interface goes to the scoped one, whatever its domain is, although a comment says that it
  must not be matched by mistake; the server that serves the name is never asked.
\<close>

theorem GetServerForQuestion_wrong_server:
  assumes "name_at (q_qname q) 0 ls" "wire_len ls \<le> 256" "q_InterfaceID q = 0" "domains_of [s0, s1] [d0, d1]"
    and scoped: "\<not> server_deleted s0" "ds_scoped s0" "ds_interface s0 = 0" "penalty timenow s0 \<le> sint DNSSERVER_PENALTY_TIME"
    and right: "\<not> ds_scoped s1" "DomainEnumQuery (q_qname q) = Some deq" "serves_question deq 0 ls s1 d1"
  shows "\<exists>bits timeout ss' bits'. SetValidDNSServers [s0, s1] q = Some (bits, 0, timeout)
    \<and> GetServerForQuestion timenow [s0, s1] q bits = Some (ss', Some 0, bits')
    \<and> (\<exists>ss'' bits''. GetServerForQuestion later ss' q bits' = Some (ss'', None, bits''))"
proof -
  have cons: "filter (\<lambda>x. considered (fst x)) (zip [s0, s1] [d0, d1]) = [(s1, d1)]"
    using scoped right by (simp add: considered_def serves_question_def)
  have two: "length [s0, s1] \<le> 64" by simp
  from SetValidDNSServers_bits [OF assms(1,2,4) two right(2)] obtain bits timeout where
    v: "SetValidDNSServers [s0, s1] q = Some (bits, 0, timeout)" "length bits = 2"
      "\<And>j. j < 64 \<Longrightarrow> op_bit bits j = best_valid deq 0 ls [(s1, d1)] j" unfolding cons assms(3) by blast
  have bit: "op_bit bits j \<longleftrightarrow> j = 0" if "j < 64" for j using v(3) [OF that] single_valid [OF right(3)] by simp
  have iface: "any_interface (q_InterfaceID q) = 0"
    by (simp add: assms(3) any_interface_def mDNSInterface_Unicast_def mDNSInterface_LocalOnly_def)
  from GetServerForQuestion_least [OF assms(1) domains_readable [OF assms(4)] two v(2), where timenow = timenow] obtain ss' b bits' where
    g: "GetServerForQuestion timenow [s0, s1] q bits = Some (ss', map_option fst b, bits')"
    and l: "maybe_reset timenow [s0, s1] ss'" "length bits' = 2" "is_first_least (valid_keys timenow 0 bits 0 [s0, s1]) b"
      "\<And>j. j < 64 \<Longrightarrow> op_bit bits' j = (op_bit bits j \<and> (case b of None \<Rightarrow> True | Some (p, _) \<Rightarrow> j \<noteq> counted (take p [s0, s1])))"
    unfolding iface by blast
  have "valid_key timenow 0 s0 \<noteq> None" using scoped by (simp add: valid_key_def matches_interface_def)
  then obtain k where b: "b = Some (0, k)"
    using least_valid_key [OF l(3)] bit scoped(1) right(3)
    by (auto simp: less_Suc_eq serves_question_def split: option.splits)
  have none: "\<not> op_bit bits' j" if "j < 64" for j using l(4) [OF that] bit [OF that] b by auto
  have same: "domains_of ss' [d0, d1]" "length ss' \<le> 64" using maybe_reset_keeps [OF l(1)] assms(4) by auto
  from GetServerForQuestion_least [OF assms(1) domains_readable [OF same(1)] same(2) l(2), where timenow = later] obtain ss'' c bits'' where
    h: "GetServerForQuestion later ss' q bits' = Some (ss'', map_option fst c, bits'')"
      "is_first_least (valid_keys later (any_interface (q_InterfaceID q)) bits' 0 ss') c" by (metis (no_types, lifting))
  have "c = None" using least_valid_key [OF h(2)] none counted_less [OF _ same(2)] by (auto split: option.splits prod.splits)
  with v(1) g h(1) b show ?thesis by auto
qed

theorem GetServerForQuestion_wrong_server_witness:
  "\<exists>bits timeout ss' bits'. SetValidDNSServers [dns_of [1, 0x7A, 0] 0 True, dns_of [1, 0x62, 0] 0 False] (ask [1, 0x61, 1, 0x62, 0]) = Some (bits, 0, timeout)
    \<and> GetServerForQuestion 100 [dns_of [1, 0x7A, 0] 0 True, dns_of [1, 0x62, 0] 0 False] (ask [1, 0x61, 1, 0x62, 0]) bits = Some (ss', Some 0, bits')"
proof -
  have "domains_of [dns_of [1, 0x7A, 0] 0 True, dns_of [1, 0x62, 0] 0 False] [[[0x7A]], [[0x62]]]"
    by (simp add: dns_of_domain valid_label_def read_byte_def read_bytes_def)
  moreover have "DomainEnumQuery (q_qname (ask [1, 0x61, 1, 0x62, 0])) = Some False" by code_simp
  moreover have "serves_question False 0 [[0x61], [0x62]] (dns_of [1, 0x62, 0] 0 False) [[0x62]]"
    by (simp add: serves_question_def dns_of_def server_deleted_def valid_for_question_def suffix_def)
  moreover have "\<not> server_deleted (dns_of [1, 0x7A, 0] 0 True)" "ds_scoped (dns_of [1, 0x7A, 0] 0 True)" "ds_interface (dns_of [1, 0x7A, 0] 0 True) = 0"
    "penalty 100 (dns_of [1, 0x7A, 0] 0 True) \<le> sint DNSSERVER_PENALTY_TIME" "\<not> ds_scoped (dns_of [1, 0x62, 0] 0 False)"
    by (simp_all add: dns_of_def server_deleted_def penalty_def PenaltyTimeForServer_def DNSSERVER_PENALTY_TIME_def mDNSPlatformOneSecond_def)
  ultimately show ?thesis
    using GetServerForQuestion_wrong_server [OF ask_example(1,2) ask_simps(2), where timenow = 100] by blast
qed

section \<open>The cache and reverse names\<close>


text \<open>A record of the cache with an active question\<close>

definition cached :: "u32 \<Rightarrow> s32 \<Rightarrow> cache_record" where
  "cached ttl t = \<lparr>cr_resrec = \<lparr>rr_RecordType = 0xA0, rr_rrtype = 1, rr_rrclass = 1, rr_rroriginalttl = ttl, rr_rdlength = 4, rr_rdestimate = 4,
    rr_namehash = 0, rr_rdatahash = 0, rr_InterfaceID = 0, rr_name = [0], rr_data = [10, 0, 0, 1], rr_opts = [], rr_resGroupID = None\<rparr>,
    cr_TimeRcvd = t, cr_NextRequiredQuery = 0, cr_CRActiveQuestion = Some 1, cr_UnansweredQueries = 0\<rparr>"

definition cache_at :: "s32 \<Rightarrow> mdns_cache" where
  "cache_at now = \<lparr>m_timenow = now, m_SuppressProbes = 0, m_NextScheduledProbe = 0, m_NextScheduledQuery = 0, m_NextScheduledResponse = 0,
    m_SuppressSending = 0, m_KnownBugs = 0, m_random = None, m_auth = (\<lambda>p. None), m_ResourceRecords = [], m_DuplicateRecords = [],
    m_NextCacheCheck = now + 0x70000000, m_RandomReconfirmDelay = 0, m_rrcache_nextcheck = replicate 499 (now + 0x70000000)\<rparr>"

lemma cached_record: "name_at (rr_name (cr_resrec (cached ttl t))) 0 []" "length (m_rrcache_nextcheck (cache_at now)) = 499"
  by (simp_all add: cached_def cache_at_def read_byte_def)

text \<open>
  C38. \<open>SetNextCacheCheckTimeForRecord\<close> sets the next query for a record that a question refers to at 80 to 82 per cent of
  its lifetime, at 85 to 87, 90 to 92 and 95 to 97 after one, two and three queries without an answer (up to
  rounding by four ticks), and never behind its expiry; otherwise the record is looked at when it expires.  The
  cache and the slot of the name are checked no later than that event, although times wrap.
\<close>

theorem SetNextCacheCheckTimeForRecord_refresh:
  assumes "name_at (rr_name (cr_resrec rr)) 0 ls" "length (m_rrcache_nextcheck m) = 499" "rr_rroriginalttl (cr_resrec rr) \<le> 2097151"
  shows "\<exists>m' rr' slot. SetNextCacheCheckTimeForRecord platform m rr = Some (m', rr')
    \<and> rr' = rr\<lparr>cr_NextRequiredQuery := cr_NextRequiredQuery rr'\<rparr>
    \<and> (if cr_CRActiveQuestion rr \<noteq> None \<and> cr_UnansweredQueries rr < 4
       then due_time (unat (TicksTTL rr)) (unat (cr_UnansweredQueries rr)) (query_after rr')
       else cr_NextRequiredQuery rr' = RRExpireTime rr)
    \<and> HashSlot (rr_name (cr_resrec rr)) = Some slot \<and> sint (m_rrcache_nextcheck m' ! unat slot - NextCacheCheckEvent rr') \<le> 0
    \<and> sint (m_NextCacheCheck m' - NextCacheCheckEvent rr') \<le> 0"
  using SetNextCacheCheckTimeForRecord_some [OF assms, where platform = platform] unfolding refreshes_def by metis

theorem SetNextCacheCheckTimeForRecord_refresh_witness:
  "\<exists>m' rr'. SetNextCacheCheckTimeForRecord 7 (cache_at 0x7FFFFF00) (cached (GetEffectiveTTL uDNS_LLQ_Not 100) 0x7FFFFF00) = Some (m', rr')
    \<and> due_time 130048 0 (query_after rr')"
proof -
  have t: "GetEffectiveTTL uDNS_LLQ_Not 100 = 127" by code_simp
  have "rr_rroriginalttl (cr_resrec (cached 127 0x7FFFFF00)) \<le> 2097151" by (simp add: cached_def)
  moreover have "unat (TicksTTL (cached 127 0x7FFFFF00)) = 130048" "unat (cr_UnansweredQueries (cached 127 0x7FFFFF00)) = 0"
    "cr_CRActiveQuestion (cached 127 0x7FFFFF00) \<noteq> None" "cr_UnansweredQueries (cached 127 0x7FFFFF00) < 4"
    by (simp_all add: cached_def TicksTTL_def mDNSPlatformOneSecond_def)
  ultimately show ?thesis unfolding t
    using SetNextCacheCheckTimeForRecord_refresh [OF cached_record(1) [of 127 "0x7FFFFF00"] cached_record(2) [of "0x7FFFFF00"], where platform = 7] by auto
qed

text \<open>
  C39. \<open>mDNS_Reconfirm_internal\<close> makes a doubtful record expire sooner: when it would live longer than four thirds of the
  interval, then afterwards it lives at least the interval (which is at least five seconds) and at most four thirds
  of it and one second, nothing but the times of the record change, and the cache is checked in time; when it would
  not, nothing changes at all.  No product overflows, whatever the interval.
\<close>

theorem mDNS_Reconfirm_internal_expiry:
  assumes "name_at (rr_name (cr_resrec rr)) 0 ls" "length (m_rrcache_nextcheck m) = 499"
  shows "\<exists>m' rr'. mDNS_Reconfirm_internal platform m rr interval = Some (m', rr')
    \<and> (if expires_in m rr > int (clamped interval * 4 div 3)
       then int (clamped interval) \<le> expires_in m' rr' \<and> expires_in m' rr' \<le> int (clamped interval + clamped interval div 3 + 1023)
         \<and> sint (m_NextCacheCheck m' - NextCacheCheckEvent rr') \<le> 0
         \<and> (\<exists>t ttl q. rr' = rr\<lparr>cr_TimeRcvd := t, cr_resrec := (cr_resrec rr)\<lparr>rr_rroriginalttl := ttl\<rparr>, cr_NextRequiredQuery := q\<rparr>)
       else m' = m \<and> rr' = rr)"
proof (cases "expires_in m rr > int (clamped interval * 4 div 3)")
  case True
  with mDNS_Reconfirm_internal_some [OF assms True, where platform = platform] show ?thesis by metis
next
  case False
  then show ?thesis using mDNS_Reconfirm_internal_early [of m rr interval platform] by simp
qed

theorem mDNS_Reconfirm_internal_expiry_witness:
  "\<exists>m' rr'. mDNS_Reconfirm_internal 7 (cache_at 0x7FFFFF00) (cached 120 0x7FFFFF00) 0 = Some (m', rr')
    \<and> 5120 \<le> expires_in m' rr' \<and> expires_in m' rr' \<le> 7849"
proof -
  have "expires_in (cache_at 0x7FFFFF00) (cached 120 0x7FFFFF00) > int (clamped 0 * 4 div 3)" "clamped 0 = 5120"
    by (simp_all add: expires_in_def RRExpireTime_def TicksTTL_def cached_def cache_at_def clamped_def mDNSPlatformOneSecond_def)
  then show ?thesis using mDNS_Reconfirm_internal_expiry [OF cached_record(1) [of 120 "0x7FFFFF00"] cached_record(2) [of "0x7FFFFF00"],
      where platform = 7 and interval = 0] by auto
qed

text \<open>
  \<open>RecordDupSuppressInfo\<close> takes the slot of the same interface and type when there is one, otherwise a free slot or the
  one whose time is longest ago, and changes no other slot; the interface is then suppressed for that kind of address.
\<close>

theorem RecordDupSuppressInfo_reuses:
  assumes "ds \<noteq> []" "near now ds"
  shows "\<exists>ds' i. RecordDupSuppressInfo ds time iface duptype_IPv4 = (ds', i) \<and> i < length ds
    \<and> ds' = ds[i := \<lparr>dsi_Time = time, dsi_InterfaceID = iface, dsi_Type = duptype_IPv4\<rparr>]
    \<and> (dsi_InterfaceID (ds ! i) = iface \<and> dsi_Type (ds ! i) = duptype_IPv4
       \<or> dsi_InterfaceID (ds ! i) = 0 \<or> (\<forall>d \<in> set ds. sint (now - dsi_Time d) \<le> sint (now - dsi_Time (ds ! i))))
    \<and> SuppressOnThisInterface ds' iface True False"
proof -
  obtain ds' i where r: "RecordDupSuppressInfo ds time iface duptype_IPv4 = (ds', i)" by fastforce
  note s = RecordDupSuppressInfo_slot [OF assms r]
  then have "\<lparr>dsi_Time = time, dsi_InterfaceID = iface, dsi_Type = duptype_IPv4\<rparr> \<in> set ds'" by (simp add: set_update_memI)
  then have "SuppressOnThisInterface ds' iface True False"
    by (force simp: SuppressOnThisInterface_def suppress_loop_iff)
  with s r show ?thesis by blast
qed

theorem RecordDupSuppressInfo_reuses_witness:
  "\<exists>ds' i. RecordDupSuppressInfo (replicate 8 \<lparr>dsi_Time = 5, dsi_InterfaceID = 2, dsi_Type = 4\<rparr>) 9 3 duptype_IPv4 = (ds', i) \<and> i < 8
    \<and> SuppressOnThisInterface ds' 3 True False"
  using RecordDupSuppressInfo_reuses [of "replicate 8 \<lparr>dsi_Time = 5, dsi_InterfaceID = 2, dsi_Type = 4\<rparr>" 9 9 3] by (auto simp: near_def)

text \<open>
  The name that an IPv4 address is looked up by, its bytes in decimal from the last one on before \<open>in-addr.arpa\<close> in
  whatever case, is recognized as such and \<open>GetIPv4FromName\<close> reads the address back, whatever labels stand before.
\<close>

theorem GetIPv4FromName_roundtrip:
  assumes "name_at name 0 (pre @ [decimal_text b3, decimal_text b2, decimal_text b1, decimal_text b0, x, y])"
    "fold_name [x, y] = fold_name (arpa_labels mDNSAddrType_IPv4)" "length (addr_ip a) = 16"
  shows "ReverseMapDomainType name = Some mDNSAddrType_IPv4
    \<and> GetIPv4FromName a name = Some (a\<lparr>addr_type := mDNSAddrType_IPv4, addr_ip := [b0, b1, b2, b3] @ drop 4 (addr_ip a)\<rparr>, True)"
proof
  show "ReverseMapDomainType name = Some mDNSAddrType_IPv4"
    using ReverseMapDomainType_labels [of name "pre @ [decimal_text b3, decimal_text b2, decimal_text b1, decimal_text b0]" x y] assms(1,2) by simp
  show "GetIPv4FromName a name = Some (a\<lparr>addr_type := mDNSAddrType_IPv4, addr_ip := [b0, b1, b2, b3] @ drop 4 (addr_ip a)\<rparr>, True)"
    by (rule GetIPv4FromName_labels(2) [OF assms(1,3)]) (simp_all add: label_octet_decimal)
qed

theorem GetIPv4FromName_roundtrip_witness:
  "GetIPv4FromName \<lparr>addr_type = mDNSAddrType_None, addr_ip = replicate 16 0\<rparr>
      ([2, 0x33, 0x37, 1, 0x30, 1, 0x30, 2, 0x31, 0x30] @ in_addr_arpa)
    = Some (\<lparr>addr_type = mDNSAddrType_IPv4, addr_ip = [10, 0, 0, 37] @ replicate 12 0\<rparr>, True)"
proof -
  have "decimal_text 37 = [0x33, 0x37]" "decimal_text 0 = [0x30]" "decimal_text 10 = [0x31, 0x30]" by (simp_all add: decimal_text_def)
  then have "name_at ([2, 0x33, 0x37, 1, 0x30, 1, 0x30, 2, 0x31, 0x30] @ in_addr_arpa) 0
      ([] @ [decimal_text 37, decimal_text 0, decimal_text 0, decimal_text 10, [0x69, 0x6E, 0x2D, 0x61, 0x64, 0x64, 0x72], [0x61, 0x72, 0x70, 0x61]])"
    by (simp add: in_addr_arpa_def valid_label_def read_byte_def read_bytes_def)
  from GetIPv4FromName_roundtrip [OF this, of "\<lparr>addr_type = mDNSAddrType_None, addr_ip = replicate 16 0\<rparr>"] show ?thesis
    by (simp add: arpa_labels_def numeral_eq_Suc)
qed

text \<open>
  C40. The name that an IPv6 address is looked up by, 32 nibbles from the last one on before \<open>ip6.arpa\<close>, is recognized as
  such and \<open>GetIPv6FromName\<close> reads the address back, whatever labels stand before.
\<close>

theorem GetIPv6FromName_roundtrip:
  assumes "name_at name 0 (pre @ nibble_labels (rev ip) @ [x, y])"
    "fold_name [x, y] = fold_name (arpa_labels mDNSAddrType_IPv6)" "length ip = 16" "length (addr_ip a) = 16"
  shows "ReverseMapDomainType name = Some mDNSAddrType_IPv6
    \<and> GetIPv6FromName a name = Some (a\<lparr>addr_type := mDNSAddrType_IPv6, addr_ip := ip\<rparr>, True)"
proof
  show "ReverseMapDomainType name = Some mDNSAddrType_IPv6"
    using ReverseMapDomainType_labels [of name "pre @ nibble_labels (rev ip)" x y] assms(1,2) by (simp add: arpa_labels_def)
  show "GetIPv6FromName a name = Some (a\<lparr>addr_type := mDNSAddrType_IPv6, addr_ip := ip\<rparr>, True)"
    by (rule GetIPv6FromName_labels [OF assms(1,3,4)])
qed

theorem GetIPv6FromName_roundtrip_witness:
  "GetIPv6FromName \<lparr>addr_type = mDNSAddrType_None, addr_ip = replicate 16 7\<rparr>
      (wire (nibble_labels (rev ([0xFE, 0x80] @ replicate 14 0)) @ arpa_labels mDNSAddrType_IPv6))
    = Some (\<lparr>addr_type = mDNSAddrType_IPv6, addr_ip = [0xFE, 0x80] @ replicate 14 0\<rparr>, True)"
proof -
  let ?ls = "nibble_labels (rev ([0xFE, 0x80] @ replicate 14 0)) @ arpa_labels mDNSAddrType_IPv6"
  have "name_at (wire ?ls @ []) 0 ?ls" by (rule name_at_zero) (auto simp: nibble_labels_def arpa_labels_def valid_label_def)
  then have "name_at (wire ?ls) 0 ([] @ nibble_labels (rev ([0xFE, 0x80] @ replicate 14 0)) @ [[0x69, 0x70, 0x36], [0x61, 0x72, 0x70, 0x61]])"
    by (simp add: arpa_labels_def)
  from GetIPv6FromName_roundtrip [OF this, of "\<lparr>addr_type = mDNSAddrType_None, addr_ip = replicate 16 7\<rparr>"] show ?thesis
    by (simp add: arpa_labels_def)
qed

end
