(* ===== verification/Spec2Isabelle.thy ===== *)
theory Spec2Isabelle
  imports Libplist_Claims Bplist_Parse Bplist_Write Gen_List_Claims Dns_Claims Dns_Answer Dns_Record_Claims Dnssd_Ipc_Claims Dnssd_Client_Claims Base64_Claims Dnssec_Claims Dnssec_Sign_Claims Mdns_Claims
begin

text \<open>
  Verification of the data structures and codecs of rhino's airplay receiver, the C code under
  \<open>src/airplay\<close>: property lists (libplist on libcnary), their binary format, the generic linked lists of
  mDNSResponder, and its domain names and DNS messages.

  \<^bold>\<open>The program.\<close>  An airplay receiver announces itself by multicast DNS (\<open>mdnsresponder\<close>) and exchanges
  property lists with its clients (\<open>libplist\<close>).  \<open>libplist/libcnary\<close> implements n-ary trees whose nodes are
  linked by intrusive lists; \<open>libplist/src/plist.c\<close> stores a typed value behind every node, and
  \<open>bplist.c\<close> reads and writes such trees as binary property lists, by way of \<open>bytearray.c\<close>,
  \<open>ptrarray.c\<close> and \<open>hashtable.c\<close>.  \<open>mDNSShared/GenLinkedList.c\<close> holds lists whose links lie inside client
  structures, and \<open>mDNSCore/DNSCommon.c\<close> handles names, labels, questions and messages on the wire.

  \<^bold>\<open>Conventions.\<close>  Machine integers are words of their width.  A C pointer is an address in an explicit heap or
  an offset into a buffer.  The outer \<open>option\<close> of a result is \<open>None\<close> when the code would access memory it does
  not own, dereference NULL or fail an assertion; a NULL that the code returns is an inner \<open>None\<close> or
  \<open>Null\<close>.  Allocation always succeeds.  Recursion over pointer structures takes fuel; the theorems show which
  amount is enough.  Loops that decrease a measure are total functions.

  \<^bold>\<open>libcnary\<close> (\<open>node.c\<close>-style trees).  \<open>Cnary_Heap\<close>: nodes and list headers (\<open>node_t\<close>, \<open>node_list_t\<close>).
  \<open>Cnary_List\<close>: \<open>node_list.c\<close>, \<open>list.c\<close>, \<open>node_iterator.c\<close>.  \<open>Cnary_Node\<close>: \<open>cnary_node.c\<close>.
  \<open>Cnary_List_Props\<close> describes a segment of siblings by the list of their addresses, \<open>Cnary_Tree\<close> a tree of
  nodes, \<open>Cnary_Ops\<close> attach, insert and detach, \<open>Cnary_Query\<close> the queries, \<open>Cnary_Destroy\<close> and \<open>Cnary_Copy\<close>
  the recursive operations.

  \<^bold>\<open>libplist\<close>.  \<open>Plist_Data\<close>: \<open>struct plist_data_s\<close>, its store, comparison and hash.  \<open>Plist\<close> and \<open>Plist_Access\<close>:
  every function of \<open>plist.c\<close>.  \<open>Plist_Store\<close> and \<open>Plist_Props\<close>: consistent heaps, well-formed property lists and
  their values; \<open>Plist_New\<close>, \<open>Plist_Free\<close>, \<open>Plist_Copy\<close>, \<open>Plist_Keys\<close>, \<open>Plist_Dict\<close>: what the operations
  do to them; \<open>Libplist_Claims\<close> holds concrete heaps and the properties.  \<open>Arrays\<close>
  and \<open>Hashtable\<close> model the three containers; the hash table's contract is a locale over a
  comparison and a hash that agrees with it.

  \<^bold>\<open>Binary format\<close>.  \<open>Ieee_Double\<close>: the bits of a double.  \<open>Bplist_Codec\<close>: byte order and UTF-8/UTF-16 conversion.
  \<open>Bplist_Parse\<close>: the parser down to \<open>plist_from_bin\<close>, its jump into the middle of objects included (fuel bounds
  the copies of containers).  \<open>Bplist_Write\<close>: the writer \<open>plist_to_bin\<close>.

  \<^bold>\<open>Generic lists\<close>.  \<open>Gen_List\<close>: \<open>GenLinkedList.c\<close> over cells of memory.  \<open>Gen_List_Props\<close>: one locale for the
  two ways of linking (pointers, wrap-around distances), interpreted for both.  \<open>Gen_List_Claims\<close>: properties.

  \<^bold>\<open>DNS\<close>.  \<open>Dns_Name\<close>, \<open>Dns_Text\<close>, \<open>Dns_Label\<close>: names, their textual form, service names and suffixes.
  \<open>Dns_Message\<close> and \<open>Dns_Parse\<close>: writing and reading messages, with name compression.  \<open>Dns_Wire\<close> relates a
  position to the labels that stand there and shows that names under case-insensitive comparison are keys of
  a hash table; \<open>Dns_Decode\<close> does so across compression pointers, \<open>Dns_Compress\<close> shows that the writer's
  pointers read as the name, unless the unwritten byte behind the message completes a label (\<open>stale_end\<close>), \<open>Dns_Question\<close> treats questions, \<open>Dns_Claims\<close> holds the properties.

  \<^bold>\<open>Resource records\<close>.  \<open>Dns_Rdata\<close>: the data of a record is the memory of the union \<open>RDataBody2\<close>, 8192 bytes with
  names at fixed offsets; the options of an OPT record are a list instead.  It holds hash, comparison, length and
  validity of record data and NSEC bitmaps.  \<open>Dns_Answer\<close>: which records answer which questions.  \<open>Dns_Record\<close>:
  \<open>putRData\<close>, \<open>PutResourceRecordTTLWithLimit\<close> and the cases of \<open>SetRData\<close>, one definition each.
  \<open>Dns_Receive\<close>: \<open>SetRData\<close>, \<open>GetLargeResourceRecord\<close> and received options.  \<open>Dns_Rdata_Props\<close>,
  \<open>Dns_Receive_Props\<close>, \<open>Dns_Receive_Safe\<close> and \<open>Dns_Set_Rdata\<close> show that equal data has equal hashes and that
  each setter stays within message and record; \<open>Dns_Record_Claims\<close> holds the properties.  They assume that the
  last byte of the record's memory is zero, where an earlier record may have left a name.

  \<^bold>\<open>Client library\<close> (\<open>mDNSShared\<close>).  \<open>Dnssd_Ipc\<close>: fields of the messages to the daemon (\<open>dnssd_ipc.c\<close>);
  \<open>Dnssd_Ipc_Claims\<close>: they arrive as sent, or the cursor ends NULL.  \<open>Dnssd_Txt\<close>: text records and full names
  (\<open>dnssd_clientlib.c\<close>); \<open>Dnssd_Txt_Props\<close> and \<open>Dnssd_Txt_Dict\<close> relate a record's buffer to a list of items and
  to a dictionary; \<open>Dnssd_Txt_Claims\<close> and \<open>Dnssd_Client_Claims\<close> hold the properties.  The locale
  \<open>simulation\<close> of \<open>Prelude\<close> is a step function that refines a specification; text records interpret it.

  \<^bold>\<open>DNSSEC\<close>.  \<open>Dnssec_Nsec\<close>: the canonical order of names and what one NSEC record proves (\<open>nsec.c\<close>); \<open>Dnssec_Proof\<close>: the
  proofs that combine several records, up to the action they end with.  \<open>Dnssec_Nsec_Props\<close> identifies the order
  and states the functions over labels, \<open>Dnssec_Proof_Props\<close> relates records to the chain of a zone;
  \<open>AppendDomainName\<close> is in \<open>Dns_Decode\<close>.  \<open>Dnssec_Rdata\<close> and \<open>Dnssec_Sign\<close>: canonical
  record data, the lists of a verifier, the data under a signature and the search for a key (\<open>dnssec.c\<close>), over
  parameters for cryptography, sorting and the clock; \<open>Dnssec_Sign_Props\<close> shows which names are put into
  lower case and what is signed.  \<open>Dnssec_Claims\<close> and
  \<open>Dnssec_Sign_Claims\<close> hold the properties.

  \<^bold>\<open>Multicast DNS\<close> (\<open>mDNS.c\<close>).  \<open>Mdns_Random\<close>: the random numbers of \<open>DNSCommon.c\<close> and the period of their generator, which
  bounds the loop that draws them.  \<open>Mdns_Probe\<close>: the records and timers that the rules work on, and when the next
  probe is sent; \<open>Mdns_Probe_Props\<close> bounds that time although times wrap.  \<open>Mdns_Conflict\<close>: which records are the same,
  known answers, conflicts and the tie-break between hosts that probe at once; \<open>Mdns_Conflict_Props\<close> identifies the
  order of the tie-break and says, apart from the code, which record of a packet wins.  Lists of records are lists of their addresses; following pointers between records may not
  end and then has no result.  \<open>Mdns_Keepalive\<close>: the text of keepalive records; \<open>Mdns_Keepalive_Props\<close> relates the parsers
  to parsers over characters and says what the settings mean.  \<open>Mdns_Server\<close>: which DNS server is asked about a name,
  with the list of servers in place of the chain of pointers; \<open>Mdns_Server_Props\<close> shows that the loops find the first least key
  (longest domain, then penalty) and that the valid bits are those of the servers with the longest domain, for the 64
  servers that the bits have room for.  \<open>Mdns_Reverse\<close> reads the names of reverse lookups.  \<open>Mdns_Cache\<close>: the lifetime of a cached record, when it is asked for
  again or made to expire, in wrapping time, and the memory of queries of other hosts.  \<open>Mdns_Claims\<close> holds the properties.

  \<^bold>\<open>Base64\<close>.  \<open>Base64\<close>: \<open>libplist/src/base64.cc\<close>; \<open>Base64_Claims\<close>: its properties.

  \<^bold>\<open>Not modelled.\<close>  The scheduler, registrations, sockets and most of the cache of \<open>mDNS.c\<close>, \<open>uDNS.c\<close> and the daemon; how DNSSEC fetches the
  records it needs and walks up to a trust anchor; the XML format, which
  rests on libxml2; the C++ classes around these parts and the servers; third-party libraries.
\<close>

end
